(* ===== verification/Prelude.thy ===== *)
theory Prelude
  imports Main "HOL-Library.Sublist"
begin

text \<open>
  The shared layer of the development.

  Agora's runtime is written as Python coroutines that mutate shared objects and raise exceptions.
  A coroutine is modelled as a function from a state to a result and the state it leaves behind:
  \<open>Inl\<close> carries the exception that escapes, \<open>Inr\<close> the returned value. The state survives an
  exception, as the mutations of the Python objects do: what a failed run has already written to
  its sinks and stores is exactly what the properties of the delivery engine are about.

  The theory defines the combinators of that embedding, a two-state relation \<open>steps_in\<close> ("every
  execution of this code moves the state along \<open>R\<close>") with the rules that propagate it through the
  combinators, a Hoare triple with an exceptional postcondition, and a few facts on lists that
  several components share.
\<close>

named_theorems comb_simps \<open>unfolding of the combinators of the embedding\<close>
named_theorems steps_intro \<open>rules that propagate a two-state relation through the combinators\<close>
named_theorems returns_intro \<open>rules on the values that a computation returns\<close>
named_theorems triple_intro \<open>rules that propagate a triple through the combinators\<close>

section \<open>Computations with a state and exceptions\<close>

type_synonym ('e, 's, 'a) comp = "'s \<Rightarrow> ('e + 'a) \<times> 's"

definition ret :: "'a \<Rightarrow> ('e, 's, 'a) comp" where
  "ret x = (\<lambda>s. (Inr x, s))"

definition throw :: "'e \<Rightarrow> ('e, 's, 'a) comp" where
  "throw e = (\<lambda>s. (Inl e, s))"

definition bind :: "('e, 's, 'a) comp \<Rightarrow> ('a \<Rightarrow> ('e, 's, 'b) comp) \<Rightarrow> ('e, 's, 'b) comp" where
  "bind m f = (\<lambda>s. case m s of (Inl e, s') \<Rightarrow> (Inl e, s') | (Inr x, s') \<Rightarrow> f x s')"

definition catch :: "('e, 's, 'a) comp \<Rightarrow> ('e \<Rightarrow> ('e, 's, 'a) comp) \<Rightarrow> ('e, 's, 'a) comp" where
  "catch m h = (\<lambda>s. case m s of (Inl e, s') \<Rightarrow> h e s' | (Inr x, s') \<Rightarrow> (Inr x, s'))"

text \<open>
  \<open>attempt m\<close> runs \<open>m\<close> and returns its outcome as a value: the \<open>try\<close> statement whose handler and
  whose code after the \<open>try\<close> are written as the two cases of the value.
\<close>

definition attempt :: "('e, 's, 'a) comp \<Rightarrow> ('e, 's, 'e + 'a) comp" where
  "attempt m = (\<lambda>s. case m s of (r, s') \<Rightarrow> (Inr r, s'))"

definition get_state :: "('e, 's, 's) comp" where
  "get_state = (\<lambda>s. (Inr s, s))"

definition modify :: "('s \<Rightarrow> 's) \<Rightarrow> ('e, 's, unit) comp" where
  "modify f = (\<lambda>s. (Inr (), f s))"

definition skip :: "('e, 's, unit) comp" where
  "skip = ret ()"

definition seq :: "('e, 's, 'a) comp \<Rightarrow> ('e, 's, 'b) comp \<Rightarrow> ('e, 's, 'b) comp" where
  "seq m n = bind m (\<lambda>_. n)"

text \<open>A \<open>for\<close> loop over a list: the body's exception leaves the loop.\<close>

fun for_each :: "'a list \<Rightarrow> ('a \<Rightarrow> ('e, 's, unit) comp) \<Rightarrow> ('e, 's, unit) comp" where
  "for_each [] f = ret ()"
| "for_each (x # xs) f = bind (f x) (\<lambda>_. for_each xs f)"

text \<open>A \<open>for\<close> loop that carries local variables from one iteration to the next.\<close>

fun fold_m :: "('a \<Rightarrow> 'b \<Rightarrow> ('e, 's, 'b) comp) \<Rightarrow> 'a list \<Rightarrow> 'b \<Rightarrow> ('e, 's, 'b) comp" where
  "fold_m f [] b = ret b"
| "fold_m f (x # xs) b = bind (f x b) (fold_m f xs)"

text \<open>A loop that builds a list of results, one per element.\<close>

fun map_m :: "('a \<Rightarrow> ('e, 's, 'b) comp) \<Rightarrow> 'a list \<Rightarrow> ('e, 's, 'b list) comp" where
  "map_m f [] = ret []"
| "map_m f (x # xs) = bind (f x) (\<lambda>y. bind (map_m f xs) (\<lambda>ys. ret (y # ys)))"

lemmas comb_defs [comb_simps] =
  ret_def throw_def bind_def catch_def attempt_def get_state_def modify_def skip_def seq_def

lemma bind_ret_left [simp]: "bind (ret x) f = f x"
  by (simp add: bind_def ret_def)

lemma bind_ret_right [simp]: "bind m ret = m"
  by (auto simp: bind_def ret_def fun_eq_iff split: prod.splits sum.splits)

lemma bind_assoc: "bind (bind m f) g = bind m (\<lambda>x. bind (f x) g)"
  by (auto simp: bind_def fun_eq_iff split: prod.splits sum.splits)

lemma bind_throw [simp]: "bind (throw e) f = throw e"
  by (simp add: bind_def throw_def)

lemma bind_apply_Inr: "m s = (Inr x, s') \<Longrightarrow> bind m f s = f x s'"
  by (simp add: bind_def)

lemma bind_apply_Inl: "m s = (Inl e, s') \<Longrightarrow> bind m f s = (Inl e, s')"
  by (simp add: bind_def)

lemma bind_get_state [simp]: "bind get_state f s = f s s"
  by (simp add: bind_def get_state_def)

lemma bind_modify [simp]: "bind (modify g) f s = f () (g s)"
  by (simp add: bind_def modify_def)

lemma bind_skip [simp]: "bind skip f = f ()"
  by (simp add: skip_def)

lemma bind_eq_Inr:
  "bind m f s = (Inr y, t) \<longleftrightarrow> (\<exists>x u. m s = (Inr x, u) \<and> f x u = (Inr y, t))"
  by (auto simp: bind_def split: prod.splits sum.splits)

lemma bind_eq_Inl:
  "bind m f s = (Inl e, t) \<longleftrightarrow>
     m s = (Inl e, t) \<or> (\<exists>x u. m s = (Inr x, u) \<and> f x u = (Inl e, t))"
  by (auto simp: bind_def split: prod.splits sum.splits)

lemma attempt_eq: "attempt m s = (Inr (fst (m s)), snd (m s))"
  by (simp add: attempt_def split: prod.split)

lemma attempt_eq_Inr: "attempt m s = (Inr r, t) \<longleftrightarrow> m s = (r, t)"
  by (auto simp: attempt_def split: prod.splits)

lemma attempt_not_Inl [simp]: "attempt m s \<noteq> (Inl e, t)"
  by (auto simp: attempt_def split: prod.splits)

lemma for_each_append: "for_each (xs @ ys) f = bind (for_each xs f) (\<lambda>_. for_each ys f)"
  by (induction xs) (simp_all add: bind_assoc)

lemma fold_m_append: "fold_m f (xs @ ys) = (\<lambda>b. bind (fold_m f xs b) (fold_m f ys))"
proof (induction xs)
  case Nil
  show ?case by (rule ext) simp
next
  case (Cons x xs)
  show ?case by (rule ext) (simp add: bind_assoc Cons.IH)
qed

lemma map_m_length: "map_m f xs s = (Inr ys, t) \<Longrightarrow> length ys = length xs"
  by (induction xs arbitrary: ys s t) (auto simp: ret_def bind_eq_Inr)

section \<open>Results without a state\<close>

text \<open>Sequencing of computations that raise but keep no state: the first exception is the result.\<close>

definition res_bind :: "'e + 'a \<Rightarrow> ('a \<Rightarrow> 'e + 'b) \<Rightarrow> 'e + 'b" where
  "res_bind r f = (case r of Inl e \<Rightarrow> Inl e | Inr x \<Rightarrow> f x)"

lemma res_bind_Inr [simp]: "res_bind (Inr x) f = f x"
  by (simp add: res_bind_def)

lemma res_bind_Inl [simp]: "res_bind (Inl e) f = Inl e"
  by (simp add: res_bind_def)

lemma res_bind_eq_Inr: "res_bind r f = Inr y \<longleftrightarrow> (\<exists>x. r = Inr x \<and> f x = Inr y)"
  by (cases r) auto

fun res_map :: "('a \<Rightarrow> 'e + 'b) \<Rightarrow> 'a list \<Rightarrow> 'e + 'b list" where
  "res_map f [] = Inr []"
| "res_map f (x # xs) = res_bind (f x) (\<lambda>y. res_bind (res_map f xs) (\<lambda>ys. Inr (y # ys)))"

lemma res_map_eq_Inr: "res_map f xs = Inr ys \<longleftrightarrow> list_all2 (\<lambda>x y. f x = Inr y) xs ys"
proof (induction xs arbitrary: ys)
  case (Cons x xs)
  then show ?case by (cases ys) (auto simp: res_bind_eq_Inr)
qed auto

section \<open>Two-state relations\<close>

definition steps_in :: "('s \<Rightarrow> 's \<Rightarrow> bool) \<Rightarrow> ('e, 's, 'a) comp \<Rightarrow> bool" where
  "steps_in R m \<longleftrightarrow> (\<forall>s. R s (snd (m s)))"

lemma steps_inD: "steps_in R m \<Longrightarrow> m s = (r, t) \<Longrightarrow> R s t"
  by (metis snd_conv steps_in_def)

text \<open>
  The rules below need \<open>R\<close> to be reflexive and transitive, so they are stated once in a locale;
  each component interprets it on the relation that its operations move along.
\<close>

locale step_order =
  fixes R :: "'s \<Rightarrow> 's \<Rightarrow> bool"
  assumes R_refl: "R s s"
    and R_trans: "R s t \<Longrightarrow> R t u \<Longrightarrow> R s u"
begin

lemma steps_ret [steps_intro]: "steps_in R (ret x)"
  by (simp add: steps_in_def ret_def R_refl)

lemma steps_throw [steps_intro]: "steps_in R (throw e)"
  by (simp add: steps_in_def throw_def R_refl)

lemma steps_skip [steps_intro]: "steps_in R skip"
  by (simp add: skip_def steps_ret)

lemma steps_get_state [steps_intro]: "steps_in R get_state"
  by (simp add: steps_in_def get_state_def R_refl)

lemma steps_modify [steps_intro]: "(\<And>s. R s (f s)) \<Longrightarrow> steps_in R (modify f)"
  by (simp add: steps_in_def modify_def)

lemma steps_bind [steps_intro]:
  assumes "steps_in R m" and "\<And>x. steps_in R (f x)"
  shows "steps_in R (bind m f)"
proof (unfold steps_in_def, intro allI)
  fix s
  obtain r t where m: "m s = (r, t)" by (cases "m s")
  with assms(1) have st: "R s t" by (rule steps_inD)
  show "R s (snd (bind m f s))"
  proof (cases r)
    case (Inl e)
    with m st show ?thesis by (simp add: bind_def)
  next
    case (Inr x)
    have "R t (snd (f x t))" using assms(2) [of x] by (simp add: steps_in_def)
    with m Inr st show ?thesis by (auto simp: bind_def intro: R_trans)
  qed
qed

lemma steps_seq [steps_intro]: "steps_in R m \<Longrightarrow> steps_in R n \<Longrightarrow> steps_in R (seq m n)"
  by (simp add: seq_def steps_bind)

lemma steps_attempt [steps_intro]: "steps_in R m \<Longrightarrow> steps_in R (attempt m)"
  by (simp add: steps_in_def attempt_eq)

lemma steps_catch [steps_intro]:
  assumes "steps_in R m" and "\<And>e. steps_in R (h e)"
  shows "steps_in R (catch m h)"
proof (unfold steps_in_def, intro allI)
  fix s
  obtain r t where m: "m s = (r, t)" by (cases "m s")
  with assms(1) have st: "R s t" by (rule steps_inD)
  show "R s (snd (catch m h s))"
  proof (cases r)
    case (Inl e)
    have "R t (snd (h e t))" using assms(2) [of e] by (simp add: steps_in_def)
    with m Inl st show ?thesis by (auto simp: catch_def intro: R_trans)
  next
    case (Inr x)
    with m st show ?thesis by (simp add: catch_def)
  qed
qed

lemma steps_for_each [steps_intro]:
  "(\<And>x. steps_in R (f x)) \<Longrightarrow> steps_in R (for_each xs f)"
  by (induction xs) (auto intro: steps_ret steps_bind)

lemma steps_fold_m [steps_intro]:
  "(\<And>x b. steps_in R (f x b)) \<Longrightarrow> steps_in R (fold_m f xs b)"
  by (induction xs arbitrary: b) (auto intro: steps_ret steps_bind)

lemma steps_map_m [steps_intro]:
  "(\<And>x. steps_in R (f x)) \<Longrightarrow> steps_in R (map_m f xs)"
  by (induction xs) (auto intro: steps_ret steps_bind)

end

section \<open>Returned values\<close>

definition returns :: "('a \<Rightarrow> bool) \<Rightarrow> ('e, 's, 'a) comp \<Rightarrow> bool" where
  "returns P m \<longleftrightarrow> (\<forall>s x t. m s = (Inr x, t) \<longrightarrow> P x)"

lemma returnsD: "returns P m \<Longrightarrow> m s = (Inr x, t) \<Longrightarrow> P x"
  unfolding returns_def by blast

lemma returns_ret [returns_intro]: "P x \<Longrightarrow> returns P (ret x)"
  by (simp add: returns_def ret_def)

lemma returns_throw [returns_intro]: "returns P (throw e)"
  by (simp add: returns_def throw_def)

lemma returns_bind [returns_intro]: "(\<And>x. returns P (f x)) \<Longrightarrow> returns P (bind m f)"
  by (auto simp: returns_def bind_eq_Inr)

section \<open>Triples with an exceptional postcondition\<close>

definition triple ::
  "('s \<Rightarrow> bool) \<Rightarrow> ('e, 's, 'a) comp \<Rightarrow> ('a \<Rightarrow> 's \<Rightarrow> bool) \<Rightarrow> ('e \<Rightarrow> 's \<Rightarrow> bool) \<Rightarrow> bool" where
  "triple P m Q X \<longleftrightarrow>
     (\<forall>s. P s \<longrightarrow> (case m s of (Inl e, t) \<Rightarrow> X e t | (Inr x, t) \<Rightarrow> Q x t))"

lemma tripleI:
  assumes "\<And>s e t. P s \<Longrightarrow> m s = (Inl e, t) \<Longrightarrow> X e t"
    and "\<And>s x t. P s \<Longrightarrow> m s = (Inr x, t) \<Longrightarrow> Q x t"
  shows "triple P m Q X"
  using assms by (auto simp: triple_def split: prod.splits sum.splits)

lemma tripleD_Inr: "triple P m Q X \<Longrightarrow> P s \<Longrightarrow> m s = (Inr x, t) \<Longrightarrow> Q x t"
  by (force simp: triple_def)

lemma tripleD_Inl: "triple P m Q X \<Longrightarrow> P s \<Longrightarrow> m s = (Inl e, t) \<Longrightarrow> X e t"
  by (force simp: triple_def)

lemma triple_ret [triple_intro]: "triple (Q x) (ret x) Q X"
  by (simp add: triple_def ret_def)

lemma triple_throw [triple_intro]: "triple (X e) (throw e) Q X"
  by (simp add: triple_def throw_def)

lemma triple_modify [triple_intro]: "triple (\<lambda>s. Q () (f s)) (modify f) Q X"
  by (simp add: triple_def modify_def)

lemma triple_bind [triple_intro]:
  assumes "triple P m R X" and "\<And>x. triple (R x) (f x) Q X"
  shows "triple P (bind m f) Q X"
proof (rule tripleI)
  fix s e t
  assume P: "P s" and run: "bind m f s = (Inl e, t)"
  from run consider "m s = (Inl e, t)" | x u where "m s = (Inr x, u)" "f x u = (Inl e, t)"
    by (auto simp: bind_eq_Inl)
  then show "X e t"
  proof cases
    case 1
    then show ?thesis using assms(1) P by (blast dest: tripleD_Inl)
  next
    case 2
    then show ?thesis using assms P by (blast dest: tripleD_Inl tripleD_Inr)
  qed
next
  fix s x t
  assume "P s" and "bind m f s = (Inr x, t)"
  then show "Q x t" using assms by (auto simp: bind_eq_Inr dest: tripleD_Inr)
qed

lemma triple_weaken:
  assumes "triple P m Q X" and "\<And>s. P' s \<Longrightarrow> P s"
    and "\<And>x s. Q x s \<Longrightarrow> Q' x s" and "\<And>e s. X e s \<Longrightarrow> X' e s"
  shows "triple P' m Q' X'"
proof (rule tripleI)
  fix s e t assume "P' s" "m s = (Inl e, t)"
  then show "X' e t" using assms by (blast dest: tripleD_Inl)
next
  fix s x t assume "P' s" "m s = (Inr x, t)"
  then show "Q' x t" using assms by (blast dest: tripleD_Inr)
qed

section \<open>Lists\<close>

text \<open>\<open>sep.join(parts)\<close>.\<close>

fun join_with :: "string \<Rightarrow> string list \<Rightarrow> string" where
  "join_with sep [] = []"
| "join_with sep [x] = x"
| "join_with sep (x # y # zs) = x @ sep @ join_with sep (y # zs)"

lemma filter_length_split:
  "length (filter P xs) + length (filter (\<lambda>x. \<not> P x) xs) = length xs"
  by (induction xs) auto

lemma take_Suc_snoc: "i < length xs \<Longrightarrow> take (Suc i) xs = take i xs @ [xs ! i]"
  by (rule take_Suc_conv_app_nth)

lemma sorted_subseq: "subseq xs ys \<Longrightarrow> sorted ys \<Longrightarrow> sorted (xs :: 'a :: linorder list)"
  by (auto simp: subseq_conv_nths sorted_nths)

end
