(* ===== verification/PyValue.thy ===== *)
theory PyValue
  imports Complex_Main Prelude
begin

text \<open>
  The Python values that cross the modelled code without being interpreted by it: checkpoint
  cursors, DLQ payloads, failure details. \<open>StateValue\<close> in \<^verbatim>\<open>state/backend.py\<close> is the union of these
  cases. A dict is an association list in insertion order whose keys are distinct (\<open>wf_pyval\<close>); a
  float stands for the rational it denotes, so NaN and the infinities are outside the model and
  float arithmetic is exact.

  \<open>py_eq\<close> is Python's \<open>==\<close> on these values: numbers compare by value across \<open>bool\<close>, \<open>int\<close> and
  \<open>float\<close>, sequences element by element, dicts key by key whatever their order.
\<close>

datatype pyval =
    PNone
  | PBool bool
  | PInt int
  | PFloat rat
  | PStr string
  | PList "pyval list"
  | PDict "(string \<times> pyval) list"

definition num_of :: "pyval \<Rightarrow> rat option" where
  "num_of v = (case v of
       PBool b \<Rightarrow> Some (if b then 1 else 0)
     | PInt i \<Rightarrow> Some (of_int i)
     | PFloat q \<Rightarrow> Some q
     | _ \<Rightarrow> None)"

fun py_eq :: "pyval \<Rightarrow> pyval \<Rightarrow> bool"
  and py_eq_list :: "pyval list \<Rightarrow> pyval list \<Rightarrow> bool"
  and py_eq_items :: "(string \<times> pyval) list \<Rightarrow> (string \<times> pyval) list \<Rightarrow> bool" where
  "py_eq PNone w = (w = PNone)"
| "py_eq (PBool b) w = (num_of w = Some (if b then 1 else 0))"
| "py_eq (PInt i) w = (num_of w = Some (of_int i))"
| "py_eq (PFloat q) w = (num_of w = Some q)"
| "py_eq (PStr x) w = (w = PStr x)"
| "py_eq (PList xs) w = (case w of PList ys \<Rightarrow> py_eq_list xs ys | _ \<Rightarrow> False)"
| "py_eq (PDict xs) w =
     (case w of PDict ys \<Rightarrow> length xs = length ys \<and> py_eq_items xs ys | _ \<Rightarrow> False)"
| "py_eq_list [] ys = (ys = [])"
| "py_eq_list (x # xs) ys = (case ys of [] \<Rightarrow> False | y # ys' \<Rightarrow> py_eq x y \<and> py_eq_list xs ys')"
| "py_eq_items [] ys = True"
| "py_eq_items (x # xs) ys =
     ((case map_of ys (fst x) of None \<Rightarrow> False | Some w \<Rightarrow> py_eq (snd x) w) \<and> py_eq_items xs ys)"

fun wf_pyval :: "pyval \<Rightarrow> bool" where
  "wf_pyval (PList xs) = list_all wf_pyval xs"
| "wf_pyval (PDict kvs) = (distinct (map fst kvs) \<and> list_all (\<lambda>kv. wf_pyval (snd kv)) kvs)"
| "wf_pyval _ = True"

text \<open>\<open>key in d\<close> and \<open>d.get(key)\<close> on a dict.\<close>

definition dict_get :: "(string \<times> pyval) list \<Rightarrow> string \<Rightarrow> pyval option" where
  "dict_get kvs k = map_of kvs k"

definition is_dict :: "pyval \<Rightarrow> bool" where
  "is_dict v = (case v of PDict _ \<Rightarrow> True | _ \<Rightarrow> False)"

definition opt_int :: "int option \<Rightarrow> pyval" where
  "opt_int x = (case x of None \<Rightarrow> PNone | Some i \<Rightarrow> PInt i)"

definition opt_str :: "string option \<Rightarrow> pyval" where
  "opt_str x = (case x of None \<Rightarrow> PNone | Some i \<Rightarrow> PStr i)"

lemma py_eq_items_refl:
  assumes "\<And>kv. kv \<in> set xs \<Longrightarrow> py_eq (snd kv) (snd kv)"
    and "distinct (map fst ys)" and "set xs \<subseteq> set ys"
  shows "py_eq_items xs ys"
  using assms
proof (induction xs)
  case Nil
  show ?case by simp
next
  case (Cons x xs)
  then have "map_of ys (fst x) = Some (snd x)" by (cases x) auto
  moreover have "py_eq (snd x) (snd x)" and "py_eq_items xs ys" using Cons by auto
  ultimately show ?case by (simp del: map_of_eq_Some_iff)
qed

lemma py_eq_list_refl: "(\<And>v. v \<in> set xs \<Longrightarrow> py_eq v v) \<Longrightarrow> py_eq_list xs xs"
  by (induction xs) auto

text \<open>Every well-formed value equals itself.\<close>

lemma py_eq_refl: "wf_pyval v \<Longrightarrow> py_eq v v"
proof (induction v)
  case (PList xs)
  then show ?case by (auto simp: list_all_iff intro!: py_eq_list_refl)
next
  case (PDict kvs)
  have "py_eq (snd kv) (snd kv)" if "kv \<in> set kvs" for kv
    using PDict that by (cases kv) (force simp: list_all_iff)
  with PDict.prems show ?case by (auto intro!: py_eq_items_refl)
qed (auto simp: num_of_def)

lemma py_eq_None [simp]: "py_eq v PNone \<longleftrightarrow> v = PNone"
  by (cases v) (auto simp: num_of_def)

end
