(* ===== verification/Failures.thy ===== *)
theory Failures
  imports PyValue
begin

text \<open>
  Exceptions and the failure taxonomy: \<^verbatim>\<open>core/failures/__init__.py\<close>, the exception classes the
  runtime distinguishes (\<^verbatim>\<open>core/errors.py\<close>, \<^verbatim>\<open>core/fencing.py\<close>, \<^verbatim>\<open>core/runtime/_delivery_types.py\<close>,
  \<^verbatim>\<open>core/runtime/_delivery_support.py\<close>, \<^verbatim>\<open>core/source/_errors.py\<close>) and the built-in classes it tests with \<open>isinstance\<close>.

  An exception is a value: its class, its message, the attributes the runtime reads from it
  (\<open>failure_decision\<close>, \<open>poison_info\<close>, \<open>dlq_details\<close>, \<open>original\<close>) and whether its type lets an
  attribute be set, the context of a \<open>PipelineError\<close>, and what a
  \<open>SourceRecordError\<close> says of its record. \<open>mro\<close> lists the base classes of a class, so \<open>isinstance\<close> is membership;
  a class of the application or of a plugin is \<open>UserC\<close> with the class it derives from.
\<close>

section \<open>Exception classes\<close>

datatype exn_class =
    BaseExceptionC | CancelledErrorC | KeyboardInterruptC
  | ExceptionC | OSErrorC | TimeoutErrorC | ConnectionErrorC
  | ValueErrorC | UnicodeDecodeErrorC | UnicodeEncodeErrorC
  | TypeErrorC | KeyErrorC | OverflowErrorC | RuntimeErrorC
  | AgoraErrorC | PipelineErrorC | FenceLostErrorC
  | RecordDeliveryErrorC | CheckpointSaveErrorC | SourceRecordErrorC | SourceIdentityMismatchErrorC
  | UserC string exn_class

fun mro :: "exn_class \<Rightarrow> exn_class list" where
  "mro BaseExceptionC = [BaseExceptionC]"
| "mro CancelledErrorC = [CancelledErrorC, BaseExceptionC]"
| "mro KeyboardInterruptC = [KeyboardInterruptC, BaseExceptionC]"
| "mro ExceptionC = [ExceptionC, BaseExceptionC]"
| "mro OSErrorC = [OSErrorC, ExceptionC, BaseExceptionC]"
| "mro TimeoutErrorC = [TimeoutErrorC, OSErrorC, ExceptionC, BaseExceptionC]"
| "mro ConnectionErrorC = [ConnectionErrorC, OSErrorC, ExceptionC, BaseExceptionC]"
| "mro ValueErrorC = [ValueErrorC, ExceptionC, BaseExceptionC]"
| "mro UnicodeDecodeErrorC = [UnicodeDecodeErrorC, ValueErrorC, ExceptionC, BaseExceptionC]"
| "mro UnicodeEncodeErrorC = [UnicodeEncodeErrorC, ValueErrorC, ExceptionC, BaseExceptionC]"
| "mro TypeErrorC = [TypeErrorC, ExceptionC, BaseExceptionC]"
| "mro KeyErrorC = [KeyErrorC, ExceptionC, BaseExceptionC]"
| "mro OverflowErrorC = [OverflowErrorC, ExceptionC, BaseExceptionC]"
| "mro RuntimeErrorC = [RuntimeErrorC, ExceptionC, BaseExceptionC]"
| "mro AgoraErrorC = [AgoraErrorC, ExceptionC, BaseExceptionC]"
| "mro PipelineErrorC = [PipelineErrorC, AgoraErrorC, ExceptionC, BaseExceptionC]"
| "mro FenceLostErrorC = [FenceLostErrorC, PipelineErrorC, AgoraErrorC, ExceptionC, BaseExceptionC]"
| "mro RecordDeliveryErrorC = [RecordDeliveryErrorC, RuntimeErrorC, ExceptionC, BaseExceptionC]"
| "mro CheckpointSaveErrorC = [CheckpointSaveErrorC, RuntimeErrorC, ExceptionC, BaseExceptionC]"
| "mro SourceRecordErrorC = [SourceRecordErrorC, RuntimeErrorC, ExceptionC, BaseExceptionC]"
| "mro SourceIdentityMismatchErrorC = [SourceIdentityMismatchErrorC, AgoraErrorC, ExceptionC, BaseExceptionC]"
| "mro (UserC n b) = UserC n b # mro b"

text \<open>\<open>type(exc).__name__\<close>.\<close>

fun class_name :: "exn_class \<Rightarrow> string" where
  "class_name BaseExceptionC = ''BaseException''"
| "class_name CancelledErrorC = ''CancelledError''"
| "class_name KeyboardInterruptC = ''KeyboardInterrupt''"
| "class_name ExceptionC = ''Exception''"
| "class_name OSErrorC = ''OSError''"
| "class_name TimeoutErrorC = ''TimeoutError''"
| "class_name ConnectionErrorC = ''ConnectionError''"
| "class_name ValueErrorC = ''ValueError''"
| "class_name UnicodeDecodeErrorC = ''UnicodeDecodeError''"
| "class_name UnicodeEncodeErrorC = ''UnicodeEncodeError''"
| "class_name TypeErrorC = ''TypeError''"
| "class_name KeyErrorC = ''KeyError''"
| "class_name OverflowErrorC = ''OverflowError''"
| "class_name RuntimeErrorC = ''RuntimeError''"
| "class_name AgoraErrorC = ''AgoraError''"
| "class_name PipelineErrorC = ''PipelineError''"
| "class_name FenceLostErrorC = ''FenceLostError''"
| "class_name RecordDeliveryErrorC = ''RecordDeliveryError''"
| "class_name CheckpointSaveErrorC = ''_CheckpointSaveError''"
| "class_name SourceRecordErrorC = ''SourceRecordError''"
| "class_name SourceIdentityMismatchErrorC = ''SourceIdentityMismatchError''"
| "class_name (UserC n b) = n"

section \<open>The failure taxonomy\<close>

datatype FailureClassification =
    DESERIALIZATION | SERIALIZATION | SCHEMA_EVOLUTION | SCHEMA_VALIDATION
  | SCHEMA_REGISTRY_BINDING_MISMATCH | SCHEMA_DRIFT | CONSTRAINT_VIOLATION | TYPE_MISMATCH
  | CONNECTIVITY | TIMEOUT | AUTHORIZATION | CONFIGURATION | UNKNOWN

fun classification_value :: "FailureClassification \<Rightarrow> string" where
  "classification_value DESERIALIZATION = ''deserialization''"
| "classification_value SERIALIZATION = ''serialization''"
| "classification_value SCHEMA_EVOLUTION = ''schema_evolution''"
| "classification_value SCHEMA_VALIDATION = ''schema_validation''"
| "classification_value SCHEMA_REGISTRY_BINDING_MISMATCH = ''schema_registry_binding_mismatch''"
| "classification_value SCHEMA_DRIFT = ''schema_drift''"
| "classification_value CONSTRAINT_VIOLATION = ''constraint_violation''"
| "classification_value TYPE_MISMATCH = ''type_mismatch''"
| "classification_value CONNECTIVITY = ''connectivity''"
| "classification_value TIMEOUT = ''timeout''"
| "classification_value AUTHORIZATION = ''authorization''"
| "classification_value CONFIGURATION = ''configuration''"
| "classification_value UNKNOWN = ''unknown''"

datatype AlertSeverity = SevINFO | SevWARNING | SevERROR | SevCRITICAL

fun severity_value :: "AlertSeverity \<Rightarrow> string" where
  "severity_value SevINFO = ''info''"
| "severity_value SevWARNING = ''warning''"
| "severity_value SevERROR = ''error''"
| "severity_value SevCRITICAL = ''critical''"

record FailureDecision =
  fd_classification :: FailureClassification
  fd_retryable :: bool
  fd_dlq_eligible :: bool
  fd_alert_severity :: AlertSeverity
  fd_reason :: "string option"
  fd_details :: "(string \<times> pyval) list"

record PoisonRecordInfo =
  pi_classification :: FailureClassification
  pi_reason :: "string option"
  pi_details :: "(string \<times> pyval) list"

definition decision_to_dict :: "FailureDecision \<Rightarrow> pyval" where
  "decision_to_dict d = PDict
     [(''classification'', PStr (classification_value (fd_classification d))),
      (''retryable'', PBool (fd_retryable d)),
      (''dlq_eligible'', PBool (fd_dlq_eligible d)),
      (''alert_severity'', PStr (severity_value (fd_alert_severity d))),
      (''reason'', opt_str (fd_reason d)),
      (''details'', PDict (fd_details d))]"

definition poison_to_dict :: "PoisonRecordInfo \<Rightarrow> pyval" where
  "poison_to_dict p = PDict
     [(''classification'', PStr (classification_value (pi_classification p))),
      (''reason'', opt_str (pi_reason p)),
      (''details'', PDict (pi_details p))]"

section \<open>Exception values\<close>

text \<open>
  The fields of a \<open>PipelineError\<close>: the message it was built with and the context gathered so far. Other
  exceptions have no context. \<open>emsg\<close> below is always \<open>str(exc)\<close>.
\<close>

record error_context =
  ec_message :: string
  ec_pipeline_id :: "string option"
  ec_run_id :: "string option"
  ec_stage :: "string option"
  ec_source_name :: "string option"
  ec_sink_name :: "string option"
  ec_checkpoint :: pyval

definition plain_context :: "string \<Rightarrow> error_context" where
  "plain_context m = \<lparr>ec_message = m, ec_pipeline_id = None, ec_run_id = None, ec_stage = None,
     ec_source_name = None, ec_sink_name = None, ec_checkpoint = PNone\<rparr>"

text \<open>What a \<open>SourceRecordError\<close> says of its record; the hook to run when it is handled is named by a number.\<close>

record source_error =
  se_record :: pyval
  se_checkpoint :: pyval
  se_source :: "string option"
  se_stage :: string
  se_on_handled :: "nat option"

datatype exn = Exn
  (ecls: exn_class)
  (emsg: string)
  (edecision: "FailureDecision option")
  (epoison: "PoisonRecordInfo option")
  (edlq_details: pyval)
  (eattrs: bool)
  (eoriginal: "exn option")
  (econtext: error_context)
  (esource: "source_error option")

definition mk_exn :: "exn_class \<Rightarrow> string \<Rightarrow> exn" where
  "mk_exn c m = Exn c m None None PNone True None (plain_context m) None"

definition isinstance :: "exn \<Rightarrow> exn_class \<Rightarrow> bool" where
  "isinstance e c \<longleftrightarrow> c \<in> set (mro (ecls e))"

text \<open>What an \<open>except Exception\<close> clause catches.\<close>

definition is_Exception :: "exn \<Rightarrow> bool" where
  "is_Exception e \<longleftrightarrow> isinstance e ExceptionC"

text \<open>\<open>RecordDeliveryError(exc)\<close> and \<open>_CheckpointSaveError(exc)\<close> keep the message and the cause.\<close>

definition RecordDeliveryError :: "exn \<Rightarrow> exn" where
  "RecordDeliveryError e = Exn RecordDeliveryErrorC (emsg e) None None PNone True (Some e) (plain_context (emsg e)) None"

definition CheckpointSaveError :: "exn \<Rightarrow> exn" where
  "CheckpointSaveError e = Exn CheckpointSaveErrorC (emsg e) None None PNone True (Some e) (plain_context (emsg e)) None"

text \<open>\<open>SourceRecordError(exc, record=..., checkpoint=..., source=...)\<close>, as the file sources raise it.\<close>

definition SourceRecordError :: "exn \<Rightarrow> pyval \<Rightarrow> pyval \<Rightarrow> string option \<Rightarrow> exn" where
  "SourceRecordError e record checkpoint source =
     Exn SourceRecordErrorC (emsg e) None None PNone True (Some e) (plain_context (emsg e))
       (Some \<lparr>se_record = record, se_checkpoint = checkpoint, se_source = source,
          se_stage = ''source_record'', se_on_handled = None\<rparr>)"

section \<open>Classification\<close>

definition mk_decision ::
  "FailureClassification \<Rightarrow> bool \<Rightarrow> bool \<Rightarrow> AlertSeverity \<Rightarrow> string option \<Rightarrow> FailureDecision" where
  "mk_decision c r d s why =
     \<lparr>fd_classification = c, fd_retryable = r, fd_dlq_eligible = d, fd_alert_severity = s,
      fd_reason = why, fd_details = []\<rparr>"

definition classify_failure :: "exn \<Rightarrow> FailureDecision" where
  "classify_failure e =
     (case edecision e of
        Some d \<Rightarrow> d
      | None \<Rightarrow>
          (case epoison e of
             Some p \<Rightarrow>
               \<lparr>fd_classification = pi_classification p, fd_retryable = False,
                fd_dlq_eligible = True, fd_alert_severity = SevERROR,
                fd_reason = pi_reason p, fd_details = pi_details p\<rparr>
           | None \<Rightarrow>
               (let why = Some (class_name (ecls e)) in
                if isinstance e TimeoutErrorC then mk_decision TIMEOUT True False SevWARNING why
                else if isinstance e ConnectionErrorC \<or> isinstance e OSErrorC
                  then mk_decision CONNECTIVITY True False SevWARNING why
                else if isinstance e UnicodeDecodeErrorC
                  then mk_decision DESERIALIZATION False True SevERROR why
                else if isinstance e UnicodeEncodeErrorC
                  then mk_decision SERIALIZATION False True SevERROR why
                else mk_decision UNKNOWN False True SevERROR why)))"

text \<open>\<open>_attach_failure_decision\<close>: the attribute is kept unless the type forbids attributes.\<close>

definition attach_failure_decision :: "exn \<Rightarrow> FailureDecision \<Rightarrow> exn" where
  "attach_failure_decision e d =
     (if eattrs e
      then Exn (ecls e) (emsg e) (Some d) (epoison e) (edlq_details e) (eattrs e) (eoriginal e) (econtext e) (esource e)
      else e)"

section \<open>Facts\<close>

lemma mro_self: "c \<in> set (mro c)"
  by (cases c) auto

lemma mro_BaseException: "BaseExceptionC \<in> set (mro c)"
  by (induction c) auto

lemma mro_trans: "b \<in> set (mro c) \<Longrightarrow> a \<in> set (mro b) \<Longrightarrow> a \<in> set (mro c)"
  by (induction c) auto

lemma isinstance_subclass:
  "isinstance e b \<Longrightarrow> a \<in> set (mro b) \<Longrightarrow> isinstance e a"
  unfolding isinstance_def by (rule mro_trans)

lemma RecordDeliveryError_simps [simp]:
  "ecls (RecordDeliveryError e) = RecordDeliveryErrorC"
  "eoriginal (RecordDeliveryError e) = Some e"
  "emsg (RecordDeliveryError e) = emsg e"
  "edecision (RecordDeliveryError e) = None"
  by (simp_all add: RecordDeliveryError_def)

lemma CheckpointSaveError_simps [simp]:
  "ecls (CheckpointSaveError e) = CheckpointSaveErrorC"
  "eoriginal (CheckpointSaveError e) = Some e"
  by (simp_all add: CheckpointSaveError_def)

lemma mk_exn_simps [simp]:
  "ecls (mk_exn c m) = c" "emsg (mk_exn c m) = m" "edecision (mk_exn c m) = None"
  "epoison (mk_exn c m) = None" "eattrs (mk_exn c m) = True" "eoriginal (mk_exn c m) = None"
  by (simp_all add: mk_exn_def)

lemma attach_simps [simp]:
  "ecls (attach_failure_decision e d) = ecls e"
  "emsg (attach_failure_decision e d) = emsg e"
  "epoison (attach_failure_decision e d) = epoison e"
  "eattrs (attach_failure_decision e d) = eattrs e"
  by (simp_all add: attach_failure_decision_def)

lemma isinstance_attach [simp]: "isinstance (attach_failure_decision e d) c = isinstance e c"
  by (simp add: isinstance_def)

lemma is_Exception_attach [simp]: "is_Exception (attach_failure_decision e d) = is_Exception e"
  by (simp add: is_Exception_def)

lemma classify_attached:
  "eattrs e \<Longrightarrow> classify_failure (attach_failure_decision e d) = d"
  by (simp add: classify_failure_def attach_failure_decision_def)

lemma cancelled_not_Exception: "isinstance e CancelledErrorC \<Longrightarrow> \<not> is_Exception e"
proof -
  have "CancelledErrorC \<in> set (mro c) \<Longrightarrow> ExceptionC \<notin> set (mro c)" for c by (induction c) auto
  then show "isinstance e CancelledErrorC \<Longrightarrow> \<not> is_Exception e"
    by (simp add: is_Exception_def isinstance_def)
qed

end
