(* ===== verification/State_Backend.thy ===== *)
theory State_Backend
  imports PyValue "HOL-Library.AList"
begin

text \<open>
  \<^verbatim>\<open>state/backend.py\<close>, \<^verbatim>\<open>state/membership.py\<close> and \<^verbatim>\<open>state/cache.py\<close>: the key-value backends with
  expiry and the two stores built on them.

  \<open>MemoryBackend\<close> keeps a dict: an association list in insertion order. \<open>SQLiteBackend\<close> keeps the
  table \<open>state_store\<close>, whose primary key is the key: an association list of rows, with the JSON text
  of a value represented by the value it denotes. \<open>time.time()\<close> is the argument \<open>now\<close>.

  The locale \<open>state_backend\<close> is the contract that \<open>StateBackend\<close> documents, stated over the entries that
  are live at a point in time; both backends are interpretations of it, and the stores' lemmas
  are proved from the contract alone. The one point where the backends differ, how a prefix
  matches a key, is a parameter of the contract: SQLite's \<open>LIKE\<close> ignores the case of ASCII
  letters.
\<close>

section \<open>Stored values\<close>

record StoredValue =
  sv_value :: pyval
  sv_expires_at :: "rat option"

definition expired :: "rat \<Rightarrow> StoredValue \<Rightarrow> bool" where
  "expired now e = (case sv_expires_at e of None \<Rightarrow> False | Some x \<Rightarrow> now \<ge> x)"

type_synonym store = "(string \<times> StoredValue) list"

definition mk_stored :: "pyval \<Rightarrow> rat option \<Rightarrow> StoredValue" where
  "mk_stored v ex = \<lparr>sv_value = v, sv_expires_at = ex\<rparr>"

text \<open>The entry that a reader at time \<open>t\<close> may see.\<close>

definition live :: "rat \<Rightarrow> store \<Rightarrow> string \<Rightarrow> StoredValue option" where
  "live t kvs k = (case map_of kvs k of
     None \<Rightarrow> None | Some e \<Rightarrow> if expired t e then None else Some e)"

definition unexpired :: "rat \<Rightarrow> StoredValue \<Rightarrow> StoredValue option" where
  "unexpired t e = (if expired t e then None else Some e)"

section \<open>MemoryBackend\<close>

definition mem_get :: "rat \<Rightarrow> string \<Rightarrow> store \<Rightarrow> StoredValue option \<times> store" where
  "mem_get now key vs =
     (case map_of vs key of
        None \<Rightarrow> (None, vs)
      | Some e \<Rightarrow> if expired now e then (None, AList.delete key vs) else (Some e, vs))"

definition mem_set :: "string \<Rightarrow> pyval \<Rightarrow> rat option \<Rightarrow> store \<Rightarrow> store" where
  "mem_set key v ex vs = AList.update key (mk_stored v ex) vs"

definition mem_set_if_absent ::
  "rat \<Rightarrow> string \<Rightarrow> pyval \<Rightarrow> rat option \<Rightarrow> store \<Rightarrow> bool \<times> store" where
  "mem_set_if_absent now key v ex vs =
     (case mem_get now key vs of
        (Some _, vs') \<Rightarrow> (False, vs')
      | (None, vs') \<Rightarrow> (True, AList.update key (mk_stored v ex) vs'))"

definition mem_delete :: "string \<Rightarrow> store \<Rightarrow> store" where
  "mem_delete key vs = AList.delete key vs"

text \<open>
  The loop of \<open>count_prefix\<close>: expired keys are collected and skipped, the others counted when they
  start with the prefix; the collected keys are popped after the loop.
\<close>

fun count_scan :: "rat \<Rightarrow> string \<Rightarrow> store \<Rightarrow> nat \<times> string list \<Rightarrow> nat \<times> string list" where
  "count_scan now p [] acc = acc"
| "count_scan now p ((k, e) # rest) (n, gone) =
     (if expired now e then count_scan now p rest (n, gone @ [k])
      else count_scan now p rest (if prefix p k then n + 1 else n, gone))"

definition mem_count_prefix :: "rat \<Rightarrow> string \<Rightarrow> store \<Rightarrow> nat \<times> store" where
  "mem_count_prefix now p vs =
     (case count_scan now p vs (0, []) of (n, gone) \<Rightarrow> (n, fold AList.delete gone vs))"

definition mem_delete_prefix :: "string \<Rightarrow> store \<Rightarrow> nat \<times> store" where
  "mem_delete_prefix p vs =
     (let keys = filter (prefix p) (map fst vs)
      in (length keys, fold AList.delete keys vs))"

section \<open>SQLiteBackend\<close>

text \<open>
  \<open>LIKE\<close> with \<open>ESCAPE '\'\<close>: \<open>%\<close> matches any sequence, \<open>_\<close> one character, the escape
  character makes the next one literal, and ASCII letters match either case, as in SQLite
  without the \<open>case_sensitive_like\<close> pragma.
\<close>

definition backslash :: char where "backslash = CHR 0x5C"
definition percent :: char where "percent = CHR ''%''"
definition underscore :: char where "underscore = CHR ''_''"

definition ascii_lower :: "char \<Rightarrow> char" where
  "ascii_lower c =
     (let n = (of_char c :: nat) in if 65 \<le> n \<and> n \<le> 90 then char_of (n + 32) else c)"

function like_match :: "string \<Rightarrow> string \<Rightarrow> bool" where
  "like_match [] s = (s = [])"
| "like_match (c # ps) s =
     (if c = backslash then
        (case ps of [] \<Rightarrow> False | d # ps' \<Rightarrow>
           (case s of [] \<Rightarrow> False | x # xs \<Rightarrow> ascii_lower d = ascii_lower x \<and> like_match ps' xs))
      else if c = percent then
        like_match ps s \<or> (case s of [] \<Rightarrow> False | x # xs \<Rightarrow> like_match (c # ps) xs)
      else if c = underscore then
        (case s of [] \<Rightarrow> False | x # xs \<Rightarrow> like_match ps xs)
      else (case s of [] \<Rightarrow> False | x # xs \<Rightarrow> ascii_lower c = ascii_lower x \<and> like_match ps xs))"
  by pat_completeness auto
termination
  by (relation "measure (\<lambda>(ps, s). length ps + length s)") auto

declare like_match.simps(2) [simp del]

definition str_replace :: "char \<Rightarrow> string \<Rightarrow> string \<Rightarrow> string" where
  "str_replace c r s = concat (map (\<lambda>x. if x = c then r else [x]) s)"

definition like_escape :: "string \<Rightarrow> string" where
  "like_escape p =
     str_replace underscore [backslash, underscore]
       (str_replace percent [backslash, percent]
          (str_replace backslash [backslash, backslash] p))"

definition sql_get :: "rat \<Rightarrow> string \<Rightarrow> store \<Rightarrow> StoredValue option \<times> store" where
  "sql_get now key rows =
     (case map_of rows key of
        None \<Rightarrow> (None, rows)
      | Some e \<Rightarrow> if expired now e then (None, AList.delete key rows) else (Some e, rows))"

text \<open>\<open>INSERT OR REPLACE\<close> removes the row with the same primary key and inserts the new one.\<close>

definition sql_set :: "string \<Rightarrow> pyval \<Rightarrow> rat option \<Rightarrow> store \<Rightarrow> store" where
  "sql_set key v ex rows = AList.delete key rows @ [(key, mk_stored v ex)]"

text \<open>\<open>DELETE\<close> of the expired row of the key, then \<open>INSERT OR IGNORE\<close>.\<close>

definition sql_set_if_absent ::
  "rat \<Rightarrow> string \<Rightarrow> pyval \<Rightarrow> rat option \<Rightarrow> store \<Rightarrow> bool \<times> store" where
  "sql_set_if_absent now key v ex rows =
     (let rows' = filter (\<lambda>(k, e). \<not> (k = key \<and> expired now e)) rows
      in if key \<in> set (map fst rows') then (False, rows')
         else (True, rows' @ [(key, mk_stored v ex)]))"

definition sql_delete :: "string \<Rightarrow> store \<Rightarrow> store" where
  "sql_delete key rows = filter (\<lambda>(k, e). k \<noteq> key) rows"

definition sql_count_prefix :: "rat \<Rightarrow> string \<Rightarrow> store \<Rightarrow> nat \<times> store" where
  "sql_count_prefix now p rows =
     (let rows' = filter (\<lambda>(k, e). \<not> expired now e) rows
      in (length (filter (\<lambda>(k, e). like_match (like_escape p @ [percent]) k) rows'), rows'))"

definition sql_delete_prefix :: "string \<Rightarrow> store \<Rightarrow> nat \<times> store" where
  "sql_delete_prefix p rows =
     (length (filter (\<lambda>(k, e). like_match (like_escape p @ [percent]) k) rows),
      filter (\<lambda>(k, e). \<not> like_match (like_escape p @ [percent]) k) rows)"

definition ci_prefix :: "string \<Rightarrow> string \<Rightarrow> bool" where
  "ci_prefix p k = prefix (map ascii_lower p) (map ascii_lower k)"

section \<open>The pattern that the SQLite backend builds\<close>

lemma esc_chars_distinct [simp]:
  "backslash \<noteq> percent" "percent \<noteq> backslash" "backslash \<noteq> underscore" "underscore \<noteq> backslash"
  "percent \<noteq> underscore" "underscore \<noteq> percent"
  by (simp_all add: backslash_def percent_def underscore_def)

lemma str_replace_simps [simp]:
  "str_replace c r [] = []"
  "str_replace c r (x # xs) = (if x = c then r @ str_replace c r xs else x # str_replace c r xs)"
  by (simp_all add: str_replace_def)

lemma like_escape_simps:
  "like_escape [] = []"
  "like_escape (c # cs) =
     (if c = backslash \<or> c = percent \<or> c = underscore
      then backslash # c # like_escape cs else c # like_escape cs)"
  by (auto simp: like_escape_def)

lemma like_match_literal:
  "c \<noteq> backslash \<Longrightarrow> c \<noteq> percent \<Longrightarrow> c \<noteq> underscore \<Longrightarrow>
   like_match (c # ps) s =
     (case s of [] \<Rightarrow> False | x # xs \<Rightarrow> ascii_lower c = ascii_lower x \<and> like_match ps xs)"
  by (simp add: like_match.simps(2))

lemma like_match_escaped:
  "like_match (backslash # d # ps) s =
     (case s of [] \<Rightarrow> False | x # xs \<Rightarrow> ascii_lower d = ascii_lower x \<and> like_match ps xs)"
  by (simp add: like_match.simps(2))

lemma like_match_percent_end: "like_match [percent] s"
  by (induction s) (simp_all add: like_match.simps(2))

lemma like_match_escape:
  "like_match (like_escape p @ [percent]) k = ci_prefix p k"
proof (induction p arbitrary: k)
  case Nil
  show ?case by (simp add: like_escape_simps ci_prefix_def like_match_percent_end)
next
  case (Cons c p)
  show ?case
    by (cases k) (auto simp: like_escape_simps like_match_literal like_match_escaped Cons.IH
        ci_prefix_def)
qed

lemma prefix_ci_prefix: "prefix p k \<Longrightarrow> ci_prefix p k"
  by (auto simp: ci_prefix_def prefix_def)

section \<open>The contract of a state backend\<close>

text \<open>The operations that the abstract class \<open>StateBackend\<close> declares.\<close>

record 'b backend_ops =
  op_get :: "rat \<Rightarrow> string \<Rightarrow> 'b \<Rightarrow> StoredValue option \<times> 'b"
  op_set :: "string \<Rightarrow> pyval \<Rightarrow> rat option \<Rightarrow> 'b \<Rightarrow> 'b"
  op_set_if_absent :: "rat \<Rightarrow> string \<Rightarrow> pyval \<Rightarrow> rat option \<Rightarrow> 'b \<Rightarrow> bool \<times> 'b"
  op_delete :: "string \<Rightarrow> 'b \<Rightarrow> 'b"
  op_count_prefix :: "rat \<Rightarrow> string \<Rightarrow> 'b \<Rightarrow> nat \<times> 'b"
  op_delete_prefix :: "string \<Rightarrow> 'b \<Rightarrow> nat \<times> 'b"

definition MemoryBackend :: "store backend_ops" where
  "MemoryBackend = \<lparr>op_get = mem_get, op_set = mem_set, op_set_if_absent = mem_set_if_absent,
     op_delete = mem_delete, op_count_prefix = mem_count_prefix,
     op_delete_prefix = mem_delete_prefix\<rparr>"

definition SQLiteBackend :: "store backend_ops" where
  "SQLiteBackend = \<lparr>op_get = sql_get, op_set = sql_set, op_set_if_absent = sql_set_if_absent,
     op_delete = sql_delete, op_count_prefix = sql_count_prefix,
     op_delete_prefix = sql_delete_prefix\<rparr>"

section \<open>Stores built on a backend\<close>

record MembershipKeyStore =
  mk_namespace :: string
  mk_default_ttl_s :: "int option"

definition member_prefix :: "MembershipKeyStore \<Rightarrow> string" where
  "member_prefix m = (if mk_namespace m = [] then [] else mk_namespace m @ '':'')"

definition member_full_key :: "MembershipKeyStore \<Rightarrow> string \<Rightarrow> string" where
  "member_full_key m key = member_prefix m @ key"

definition member_expires_at :: "MembershipKeyStore \<Rightarrow> rat \<Rightarrow> int option \<Rightarrow> rat option" where
  "member_expires_at m now ttl_s =
     (let ttl = (case ttl_s of None \<Rightarrow> mk_default_ttl_s m | Some x \<Rightarrow> Some x)
      in case ttl of None \<Rightarrow> None | Some x \<Rightarrow> Some (now + of_int x))"

definition member_contains ::
  "'b backend_ops \<Rightarrow> MembershipKeyStore \<Rightarrow> rat \<Rightarrow> string \<Rightarrow> 'b \<Rightarrow> bool \<times> 'b" where
  "member_contains B m now key b =
     (case op_get B now (member_full_key m key) b of (r, b') \<Rightarrow> (r \<noteq> None, b'))"

definition member_add ::
  "'b backend_ops \<Rightarrow> MembershipKeyStore \<Rightarrow> rat \<Rightarrow> string \<Rightarrow> int option \<Rightarrow> 'b \<Rightarrow> 'b" where
  "member_add B m now key ttl_s b =
     op_set B (member_full_key m key) (PInt 1) (member_expires_at m now ttl_s) b"

definition member_mark_if_new ::
  "'b backend_ops \<Rightarrow> MembershipKeyStore \<Rightarrow> rat \<Rightarrow> string \<Rightarrow> int option \<Rightarrow> 'b \<Rightarrow> bool \<times> 'b" where
  "member_mark_if_new B m now key ttl_s b =
     op_set_if_absent B now (member_full_key m key) (PInt 1) (member_expires_at m now ttl_s) b"

definition member_delete :: "'b backend_ops \<Rightarrow> MembershipKeyStore \<Rightarrow> string \<Rightarrow> 'b \<Rightarrow> 'b" where
  "member_delete B m key b = op_delete B (member_full_key m key) b"

definition member_count :: "'b backend_ops \<Rightarrow> MembershipKeyStore \<Rightarrow> rat \<Rightarrow> 'b \<Rightarrow> nat \<times> 'b" where
  "member_count B m now b = op_count_prefix B now (member_prefix m) b"

definition member_clear :: "'b backend_ops \<Rightarrow> MembershipKeyStore \<Rightarrow> 'b \<Rightarrow> nat \<times> 'b" where
  "member_clear B m b = op_delete_prefix B (member_prefix m) b"

text \<open>
  The calls of a membership store, and what they should answer: each key with the expiry time of its mark. A key is
  marked until that time is reached; only an unmarked key is new.
\<close>

datatype member_call = MarkIfNew string "int option" | AddKey string "int option" | ContainsKey string | DeleteKey string | CountKeys

fun member_do :: "'b backend_ops \<Rightarrow> MembershipKeyStore \<Rightarrow> rat \<Rightarrow> member_call \<Rightarrow> 'b \<Rightarrow> bool option \<times> 'b" where
  "member_do B m now (MarkIfNew key ttl_s) b = map_prod Some id (member_mark_if_new B m now key ttl_s b)"
| "member_do B m now (AddKey key ttl_s) b = (None, member_add B m now key ttl_s b)"
| "member_do B m now (ContainsKey key) b = map_prod Some id (member_contains B m now key b)"
| "member_do B m now (DeleteKey key) b = (None, member_delete B m key b)"
| "member_do B m now CountKeys b = (None, snd (member_count B m now b))"

type_synonym marks = "string \<rightharpoonup> rat option"

definition marked :: "rat \<Rightarrow> marks \<Rightarrow> string \<Rightarrow> bool" where
  "marked now M key = (case M key of None \<Rightarrow> False | Some None \<Rightarrow> True | Some (Some x) \<Rightarrow> now < x)"

fun marks_do :: "MembershipKeyStore \<Rightarrow> rat \<Rightarrow> member_call \<Rightarrow> marks \<Rightarrow> bool option \<times> marks" where
  "marks_do m now (MarkIfNew key ttl_s) M =
     (if marked now M key then (Some False, M) else (Some True, M(key \<mapsto> member_expires_at m now ttl_s)))"
| "marks_do m now (AddKey key ttl_s) M = (None, M(key \<mapsto> member_expires_at m now ttl_s))"
| "marks_do m now (ContainsKey key) M = (Some (marked now M key), M)"
| "marks_do m now (DeleteKey key) M = (None, M(key := None))"
| "marks_do m now CountKeys M = (None, M)"

text \<open>The answers of a sequence of calls, each with the time of its call.\<close>

fun answers_of :: "(rat \<Rightarrow> member_call \<Rightarrow> 's \<Rightarrow> bool option \<times> 's) \<Rightarrow> (rat \<times> member_call) list \<Rightarrow> 's \<Rightarrow> bool option list" where
  "answers_of f [] s = []"
| "answers_of f ((now, c) # cs) s = (case f now c s of (a, s) \<Rightarrow> a # answers_of f cs s)"

record TTLKeyValueStore =
  kv_namespace :: string
  kv_default_ttl_s :: "int option"

definition kv_prefix :: "TTLKeyValueStore \<Rightarrow> string" where
  "kv_prefix c = kv_namespace c @ '':''"

definition kv_full_key :: "TTLKeyValueStore \<Rightarrow> string \<Rightarrow> string" where
  "kv_full_key c key = kv_prefix c @ key"

definition kv_get :: "'b backend_ops \<Rightarrow> TTLKeyValueStore \<Rightarrow> rat \<Rightarrow> string \<Rightarrow> 'b \<Rightarrow> pyval \<times> 'b" where
  "kv_get B c now key b =
     (case op_get B now (kv_full_key c key) b of
        (None, b') \<Rightarrow> (PNone, b') | (Some e, b') \<Rightarrow> (sv_value e, b'))"

definition kv_set ::
  "'b backend_ops \<Rightarrow> TTLKeyValueStore \<Rightarrow> rat \<Rightarrow> string \<Rightarrow> pyval \<Rightarrow> int option \<Rightarrow> 'b \<Rightarrow> 'b" where
  "kv_set B c now key v ttl_s b =
     (let ttl = (case ttl_s of None \<Rightarrow> kv_default_ttl_s c | Some x \<Rightarrow> Some x);
          ex = (case ttl of None \<Rightarrow> None | Some x \<Rightarrow> Some (now + of_int x))
      in op_set B (kv_full_key c key) v ex b)"

definition kv_delete :: "'b backend_ops \<Rightarrow> TTLKeyValueStore \<Rightarrow> string \<Rightarrow> 'b \<Rightarrow> 'b" where
  "kv_delete B c key b = op_delete B (kv_full_key c key) b"

definition kv_count :: "'b backend_ops \<Rightarrow> TTLKeyValueStore \<Rightarrow> rat \<Rightarrow> 'b \<Rightarrow> nat \<times> 'b" where
  "kv_count B c now b = op_count_prefix B now (kv_prefix c) b"

definition kv_clear :: "'b backend_ops \<Rightarrow> TTLKeyValueStore \<Rightarrow> 'b \<Rightarrow> nat \<times> 'b" where
  "kv_clear B c b = op_delete_prefix B (kv_prefix c) b"

section \<open>The laws\<close>

text \<open>A backend, of which \<open>seen\<close> gives the live entries, holds exactly the marks, from now on.\<close>

definition holds_marks ::
  "(rat \<Rightarrow> 'b \<Rightarrow> string \<Rightarrow> StoredValue option) \<Rightarrow> ('b \<Rightarrow> bool) \<Rightarrow> MembershipKeyStore \<Rightarrow> rat \<Rightarrow> 'b \<Rightarrow> marks \<Rightarrow> bool" where
  "holds_marks seen invar m now b M \<longleftrightarrow>
     invar b \<and> (\<forall>t key. now \<le> t \<longrightarrow> (seen t b (member_full_key m key) \<noteq> None \<longleftrightarrow> marked t M key))"

lemma full_key_eq [simp]: "member_full_key m k = member_full_key m k' \<longleftrightarrow> k = k'"
  by (simp add: member_full_key_def)

lemma unexpired_marked: "unexpired t (mk_stored v ex) \<noteq> None \<longleftrightarrow> marked t (M(key \<mapsto> ex)) key"
  by (auto simp: unexpired_def expired_def mk_stored_def marked_def split: option.split)

lemma marked_other: "k \<noteq> key \<Longrightarrow> marked t (M(key := x)) k = marked t M k"
  by (simp add: marked_def)

locale state_backend =
  fixes B :: "'b backend_ops"
    and seen :: "rat \<Rightarrow> 'b \<Rightarrow> string \<Rightarrow> StoredValue option"
    and pmatch :: "string \<Rightarrow> string \<Rightarrow> bool"
    and invar :: "'b \<Rightarrow> bool"
  assumes get_result: "invar b \<Longrightarrow> fst (op_get B now k b) = seen now b k"
    and get_state: "invar b \<Longrightarrow> now \<le> t \<Longrightarrow> seen t (snd (op_get B now k b)) = seen t b"
    and get_invar: "invar b \<Longrightarrow> invar (snd (op_get B now k b))"
    and set_state: "invar b \<Longrightarrow> seen t (op_set B k v ex b) = (seen t b)(k := unexpired t (mk_stored v ex))"
    and set_invar: "invar b \<Longrightarrow> invar (op_set B k v ex b)"
    and absent_result: "invar b \<Longrightarrow> fst (op_set_if_absent B now k v ex b) \<longleftrightarrow> seen now b k = None"
    and absent_state: "invar b \<Longrightarrow> now \<le> t \<Longrightarrow>
        seen t (snd (op_set_if_absent B now k v ex b)) =
          (if seen now b k = None then (seen t b)(k := unexpired t (mk_stored v ex)) else seen t b)"
    and absent_invar: "invar b \<Longrightarrow> invar (snd (op_set_if_absent B now k v ex b))"
    and delete_state: "invar b \<Longrightarrow> seen t (op_delete B k b) = (seen t b)(k := None)"
    and delete_invar: "invar b \<Longrightarrow> invar (op_delete B k b)"
    and count_result: "invar b \<Longrightarrow>
        fst (op_count_prefix B now p b) = card {k. pmatch p k \<and> seen now b k \<noteq> None}"
    and count_state: "invar b \<Longrightarrow> now \<le> t \<Longrightarrow> seen t (snd (op_count_prefix B now p b)) = seen t b"
    and count_invar: "invar b \<Longrightarrow> invar (snd (op_count_prefix B now p b))"
    and dp_state: "invar b \<Longrightarrow>
        seen t (snd (op_delete_prefix B p b)) = (\<lambda>k. if pmatch p k then None else seen t b k)"
    and dp_invar: "invar b \<Longrightarrow> invar (snd (op_delete_prefix B p b))"
    and pmatch_prefix: "prefix p k \<Longrightarrow> pmatch p k"
begin

lemma get_after_set:
  assumes "invar b" and "\<not> expired now (mk_stored v ex)"
  shows "fst (op_get B now k (op_set B k v ex b)) = Some (mk_stored v ex)"
  using assms by (simp add: get_result set_invar set_state unexpired_def)

lemma get_after_set_other:
  "invar b \<Longrightarrow> k' \<noteq> k \<Longrightarrow> fst (op_get B now k' (op_set B k v ex b)) = fst (op_get B now k' b)"
  by (simp add: get_result set_invar set_state)

lemma get_after_delete: "invar b \<Longrightarrow> fst (op_get B now k (op_delete B k b)) = None"
  by (simp add: get_result delete_invar delete_state)

text \<open>Of two \<open>set_if_absent\<close> calls on a key, the second succeeds only once the first has expired.\<close>

lemma absent_once:
  assumes "invar b" and "op_set_if_absent B now k v ex b = (True, b')" and "now \<le> now'"
  shows "fst (op_set_if_absent B now' k v' ex' b') \<longleftrightarrow> expired now' (mk_stored v ex)"
proof -
  have "seen now b k = None" using absent_result [OF assms(1), of now k v ex] assms(2) by simp
  then have "seen now' b' k = unexpired now' (mk_stored v ex)"
    using absent_state [OF assms(1,3), of k v ex] assms(2) by simp
  moreover have "invar b'" using absent_invar [OF assms(1), of now k v ex] assms(2) by simp
  ultimately show ?thesis by (simp add: absent_result unexpired_def)
qed

text \<open>
  Two workers that race to mark a key: exactly the first is told that the key is new, until the
  mark expires.
\<close>

lemma mark_if_new_once:
  assumes "invar b" and "member_mark_if_new B m now key ttl b = (True, b')" and "now \<le> now'"
  shows "fst (member_mark_if_new B m now' key ttl' b') \<longleftrightarrow>
         (\<exists>x. member_expires_at m now ttl = Some x \<and> x \<le> now')"
  using absent_once [OF assms(1) assms(2) [unfolded member_mark_if_new_def] assms(3)]
  by (simp add: member_mark_if_new_def expired_def mk_stored_def split: option.splits)

lemma holds_marks_step:
  assumes "holds_marks seen invar m now b M"
  shows "fst (member_do B m now c b) = fst (marks_do m now c M) \<and>
    holds_marks seen invar m now (snd (member_do B m now c b)) (snd (marks_do m now c M))"
proof -
  have inv: "invar b" and sees: "\<And>t key. now \<le> t \<Longrightarrow> seen t b (member_full_key m key) \<noteq> None \<longleftrightarrow> marked t M key"
    using assms by (auto simp: holds_marks_def)
  have set_marks: "holds_marks seen invar m now b' (M(key \<mapsto> ex))"
    if "invar b'" "\<And>t. now \<le> t \<Longrightarrow> seen t b' = (seen t b)(member_full_key m key := unexpired t (mk_stored v ex))" for b' key ex v
    unfolding holds_marks_def
  proof (intro conjI allI impI)
    fix t k
    assume t: "now \<le> t"
    show "seen t b' (member_full_key m k) \<noteq> None \<longleftrightarrow> marked t (M(key \<mapsto> ex)) k"
      using that(2) [OF t] sees [OF t, of k] unexpired_marked [of t v ex M key]
      by (cases "k = key") (simp_all add: marked_other)
  qed (rule that(1))
  show ?thesis
  proof (cases c)
    case (MarkIfNew key ttl)
    let ?k = "member_full_key m key"
    have new: "fst (member_mark_if_new B m now key ttl b) \<longleftrightarrow> \<not> marked now M key"
      using sees [of now key] by (auto simp: member_mark_if_new_def absent_result [OF inv])
    note after = absent_state [OF inv, of now _ ?k "PInt 1" "member_expires_at m now ttl"]
    note inv' = absent_invar [OF inv, of now ?k "PInt 1" "member_expires_at m now ttl"]
    show ?thesis
    proof (cases "marked now M key")
      case True
      then obtain y where "seen now b ?k = Some y" using sees [of now key] by auto
      then have "holds_marks seen invar m now (snd (member_mark_if_new B m now key ttl b)) M"
        using inv' after sees by (simp add: holds_marks_def member_mark_if_new_def)
      with True new MarkIfNew show ?thesis by simp
    next
      case False
      then have "seen now b ?k = None" using sees [of now key] by simp
      then have "holds_marks seen invar m now (snd (member_mark_if_new B m now key ttl b)) (M(key \<mapsto> member_expires_at m now ttl))"
        using inv' after by (intro set_marks) (simp_all add: member_mark_if_new_def)
      with False new MarkIfNew show ?thesis by simp
    qed
  next
    case (AddKey key ttl)
    then show ?thesis using set_marks [of "member_add B m now key ttl b" key] set_invar [OF inv] set_state [OF inv]
      by (simp add: member_add_def)
  next
    case (ContainsKey key)
    then show ?thesis using inv sees get_result [OF inv] get_state [OF inv] get_invar [OF inv]
      by (simp add: member_contains_def case_prod_unfold holds_marks_def)
  next
    case (DeleteKey key)
    have "seen t (member_delete B m key b) (member_full_key m k) \<noteq> None \<longleftrightarrow> marked t (M(key := None)) k" if "now \<le> t" for t k
      using sees [OF that, of k] by (cases "k = key") (simp_all add: member_delete_def delete_state [OF inv] marked_def)
    with DeleteKey delete_invar [OF inv] show ?thesis by (simp add: holds_marks_def member_delete_def)
  next
    case CountKeys
    then show ?thesis using inv sees count_state [OF inv] count_invar [OF inv]
      by (simp add: member_count_def holds_marks_def)
  qed
qed

lemma answers_marks:
  assumes "holds_marks seen invar m now b M" "sorted (map fst calls)" "\<forall>c\<in>set calls. now \<le> fst c"
  shows "answers_of (member_do B m) calls b = answers_of (marks_do m) calls M"
  using assms
proof (induction calls arbitrary: now b M)
  case (Cons x calls)
  obtain t c where x: "x = (t, c)" by (cases x)
  with Cons.prems have "holds_marks seen invar m t b M" by (auto simp: holds_marks_def)
  from holds_marks_step [OF this, of c] have st: "fst (member_do B m t c b) = fst (marks_do m t c M)"
    "holds_marks seen invar m t (snd (member_do B m t c b)) (snd (marks_do m t c M))" by simp_all
  with Cons.IH [OF st(2)] Cons.prems(2) x show ?case by (simp add: case_prod_unfold)
qed simp

lemma contains_after_mark:
  assumes "invar b" and "\<not> expired now' (mk_stored (PInt 1) (member_expires_at m now ttl))"
    and "now \<le> now'"
  shows "fst (member_contains B m now' key (snd (member_mark_if_new B m now key ttl b))) \<longleftrightarrow>
     seen now b (member_full_key m key) = None \<or> seen now' b (member_full_key m key) \<noteq> None"
  using absent_state [OF assms(1,3), of "member_full_key m key"] assms
  by (auto simp: member_contains_def member_mark_if_new_def get_result absent_invar
      unexpired_def case_prod_unfold)

lemma kv_get_after_set:
  assumes "invar b" and "case (case ttl_s of None \<Rightarrow> kv_default_ttl_s c | Some x \<Rightarrow> Some x) of
      None \<Rightarrow> True | Some x \<Rightarrow> now' < now + of_int x"
  shows "fst (kv_get B c now' key (kv_set B c now key v ttl_s b)) = v"
  using get_after_set [OF assms(1)] assms(2)
  by (auto simp: kv_get_def kv_set_def Let_def case_prod_unfold expired_def mk_stored_def
      get_result set_invar set_state unexpired_def split: option.splits)

lemma kv_clear_count: "invar b \<Longrightarrow> fst (kv_count B c now (snd (kv_clear B c b))) = 0"
  by (simp add: kv_count_def kv_clear_def count_result dp_invar dp_state)

lemma count_after_delete_prefix:
  "invar b \<Longrightarrow> fst (op_count_prefix B now p (snd (op_delete_prefix B p b))) = 0"
  by (simp add: count_result dp_invar dp_state)

end

section \<open>Both backends meet the contract\<close>

definition wf_store :: "store \<Rightarrow> bool" where
  "wf_store vs = distinct (map fst vs)"

lemma expired_mono: "expired now e \<Longrightarrow> now \<le> t \<Longrightarrow> expired t e"
  by (auto simp: expired_def split: option.splits)

lemma live_delete: "live t (AList.delete k vs) = (live t vs)(k := None)"
  by (auto simp: live_def delete_conv' fun_eq_iff)

lemma live_delete_expired:
  assumes "map_of vs k = Some e" and "expired now e" and "now \<le> t"
  shows "live t (AList.delete k vs) = live t vs"
proof -
  have "live t vs k = None" using assms by (simp add: live_def expired_mono)
  then show ?thesis by (auto simp: live_delete fun_eq_iff)
qed

lemma live_update: "live t (AList.update k e vs) = (live t vs)(k := unexpired t e)"
  by (auto simp: live_def update_conv' unexpired_def fun_eq_iff)

lemma live_filter:
  assumes "wf_store vs"
  shows "live t (filter (\<lambda>(k, e). P k e) vs) =
     (\<lambda>k. case map_of vs k of None \<Rightarrow> None | Some e \<Rightarrow> if P k e then unexpired t e else None)"
  using assms
  by (induction vs)
     (force simp: live_def unexpired_def wf_store_def fun_eq_iff map_of_eq_None_iff
        split: option.splits if_splits dest: map_of_SomeD)+

lemma live_snoc:
  "k \<notin> set (map fst vs) \<Longrightarrow> live t (vs @ [(k, e)]) = (live t vs)(k := unexpired t e)"
proof -
  assume "k \<notin> set (map fst vs)"
  then have "map_of vs k = None" by (simp add: map_of_eq_None_iff)
  then show ?thesis
    by (auto simp: live_def map_add_def unexpired_def fun_eq_iff split: option.splits)
qed

lemma wf_store_filter: "wf_store vs \<Longrightarrow> wf_store (filter P vs)"
  by (simp add: wf_store_def distinct_map_filter)

lemma wf_store_delete [simp]: "wf_store vs \<Longrightarrow> wf_store (AList.delete k vs)"
  by (simp add: wf_store_def distinct_delete)

lemma wf_store_update [simp]: "wf_store vs \<Longrightarrow> wf_store (AList.update k e vs)"
  by (simp add: wf_store_def distinct_update)

lemma wf_store_snoc: "wf_store vs \<Longrightarrow> k \<notin> set (map fst vs) \<Longrightarrow> wf_store (vs @ [(k, e)])"
  by (simp add: wf_store_def)

lemma fold_delete_wf: "wf_store vs \<Longrightarrow> wf_store (fold AList.delete ks vs)"
  by (induction ks arbitrary: vs) simp_all

lemma fold_delete_live:
  "live t (fold AList.delete ks vs) = (\<lambda>k. if k \<in> set ks then None else live t vs k)"
  by (induction ks arbitrary: vs) (auto simp: live_delete)

lemma live_Some_iff:
  assumes "wf_store vs"
  shows "live t vs k \<noteq> None \<longleftrightarrow> (\<exists>e. (k, e) \<in> set vs \<and> \<not> expired t e)"
proof -
  have "live t vs k \<noteq> None \<longleftrightarrow> (\<exists>e. map_of vs k = Some e \<and> \<not> expired t e)"
    by (auto simp: live_def split: option.splits)
  with assms show ?thesis by (simp add: wf_store_def)
qed

lemma card_live:
  assumes "wf_store vs"
  shows "card {k. P k \<and> live now vs k \<noteq> None} =
         length (filter (\<lambda>(k, e). \<not> expired now e \<and> P k) vs)"
proof -
  let ?f = "filter (\<lambda>(k, e). \<not> expired now e \<and> P k) vs"
  have "{k. P k \<and> live now vs k \<noteq> None} = set (map fst ?f)"
    by (simp only: live_Some_iff [OF assms]) (auto simp: image_iff)
  moreover have "distinct (map fst ?f)"
    using wf_store_filter [OF assms] by (simp add: wf_store_def)
  ultimately show ?thesis using distinct_card [of "map fst ?f"] by (simp only: length_map)
qed

lemma count_scan_result:
  "count_scan now p vs (n, gone) =
     (n + length (filter (\<lambda>(k, e). \<not> expired now e \<and> prefix p k) vs),
      gone @ map fst (filter (\<lambda>(k, e). expired now e) vs))"
  by (induction vs arbitrary: n gone) auto

lemma live_gone:
  assumes "wf_store vs" and "now \<le> t"
    and "k \<in> set (map fst (filter (\<lambda>(k, e). expired now e) vs))"
  shows "live t vs k = None"
proof -
  from assms(3) obtain e where e: "(k, e) \<in> set vs" "expired now e" by auto
  then have "map_of vs k = Some e" using assms(1) by (simp add: wf_store_def)
  with e(2) assms(2) show ?thesis by (simp add: live_def expired_mono)
qed

lemma mem_get_spec:
  "fst (mem_get now k vs) = live now vs k"
  "now \<le> t \<Longrightarrow> live t (snd (mem_get now k vs)) = live t vs"
  "wf_store vs \<Longrightarrow> wf_store (snd (mem_get now k vs))"
  by (auto simp: mem_get_def live_def [of now vs k] live_delete_expired split: option.splits)

lemma mem_set_if_absent_spec:
  "fst (mem_set_if_absent now k v ex vs) \<longleftrightarrow> live now vs k = None"
  "now \<le> t \<Longrightarrow> live t (snd (mem_set_if_absent now k v ex vs)) =
     (if live now vs k = None then (live t vs)(k := unexpired t (mk_stored v ex)) else live t vs)"
  "wf_store vs \<Longrightarrow> wf_store (snd (mem_set_if_absent now k v ex vs))"
  using mem_get_spec [where now = now and k = k and vs = vs]
  by (cases "mem_get now k vs"; cases "fst (mem_get now k vs)";
      simp add: mem_set_if_absent_def live_update)+

interpretation mem: state_backend MemoryBackend live prefix wf_store
proof (unfold_locales, goal_cases)
  case (1 b now k)
  show ?case by (simp add: MemoryBackend_def mem_get_spec)
next
  case (2 b now t k)
  then show ?case by (simp add: MemoryBackend_def mem_get_spec)
next
  case (3 b now k)
  then show ?case by (simp add: MemoryBackend_def mem_get_spec)
next
  case (4 b t k v ex)
  show ?case by (simp add: MemoryBackend_def mem_set_def live_update)
next
  case (5 b k v ex)
  then show ?case by (simp add: MemoryBackend_def mem_set_def)
next
  case (6 b now k v ex)
  show ?case by (simp add: MemoryBackend_def mem_set_if_absent_spec)
next
  case (7 b now t k v ex)
  then show ?case by (simp add: MemoryBackend_def mem_set_if_absent_spec)
next
  case (8 b now k v ex)
  then show ?case by (simp add: MemoryBackend_def mem_set_if_absent_spec)
next
  case (9 b t k)
  show ?case by (simp add: MemoryBackend_def mem_delete_def live_delete)
next
  case (10 b k)
  then show ?case by (simp add: MemoryBackend_def mem_delete_def)
next
  case (11 b now p)
  then show ?case
    by (simp add: MemoryBackend_def mem_count_prefix_def count_scan_result
        card_live [symmetric])
next
  case (12 b now t p)
  then show ?case
    by (auto simp: MemoryBackend_def mem_count_prefix_def count_scan_result fold_delete_live
        fun_eq_iff live_gone)
next
  case (13 b now p)
  then show ?case
    by (simp add: MemoryBackend_def mem_count_prefix_def count_scan_result fold_delete_wf)
next
  case (14 b t p)
  have "live t b k = None" if "k \<notin> set (map fst b)" for k
    using that by (simp add: live_def map_of_eq_None_iff [THEN iffD2])
  then show ?case
    by (force simp: MemoryBackend_def mem_delete_prefix_def Let_def fold_delete_live fun_eq_iff)
next
  case (15 b p)
  then show ?case by (simp add: MemoryBackend_def mem_delete_prefix_def Let_def fold_delete_wf)
next
  case (16 p k)
  then show ?case .
qed

lemma sql_absent_rows:
  fixes rows :: store and key :: string and now t :: rat
  assumes "wf_store rows"
  defines "rows' \<equiv> filter (\<lambda>(k, e). \<not> (k = key \<and> expired now e)) rows"
  shows "wf_store rows'"
    and "key \<in> set (map fst rows') \<longleftrightarrow> live now rows key \<noteq> None"
    and "now \<le> t \<Longrightarrow> live t rows' = live t rows"
proof -
  show "wf_store rows'" unfolding rows'_def by (rule wf_store_filter [OF assms(1)])
  show "key \<in> set (map fst rows') \<longleftrightarrow> live now rows key \<noteq> None"
    by (simp only: rows'_def live_Some_iff [OF assms(1)]) force
  show "now \<le> t \<Longrightarrow> live t rows' = live t rows"
    by (auto simp: rows'_def live_filter [OF assms(1)] live_def unexpired_def expired_mono
        fun_eq_iff split: option.splits)
qed

interpretation sql: state_backend SQLiteBackend live ci_prefix wf_store
proof (unfold_locales, goal_cases)
  case (1 b now k)
  show ?case by (auto simp: SQLiteBackend_def sql_get_def live_def split: option.splits)
next
  case (2 b now t k)
  then show ?case
    by (auto simp: SQLiteBackend_def sql_get_def live_delete_expired split: option.splits)
next
  case (3 b now k)
  then show ?case by (auto simp: SQLiteBackend_def sql_get_def split: option.splits)
next
  case (4 b t k v ex)
  show ?case by (simp add: SQLiteBackend_def sql_set_def live_snoc live_delete delete_keys)
next
  case (5 b k v ex)
  then show ?case by (simp add: SQLiteBackend_def sql_set_def wf_store_snoc delete_keys)
next
  case (6 b now k v ex)
  then show ?case
    using sql_absent_rows(2) [of b k now]
    by (simp add: SQLiteBackend_def sql_set_if_absent_def Let_def)
next
  case (7 b now t k v ex)
  then show ?case
    using sql_absent_rows(2) [of b k now] sql_absent_rows(3) [of b now t k]
    by (simp add: SQLiteBackend_def sql_set_if_absent_def Let_def live_snoc)
next
  case (8 b now k v ex)
  then show ?case
    using sql_absent_rows(1) [of b k now]
    by (simp add: SQLiteBackend_def sql_set_if_absent_def Let_def wf_store_snoc)
next
  case (9 b t k)
  then show ?case
    by (auto simp: SQLiteBackend_def sql_delete_def live_filter live_def unexpired_def fun_eq_iff
        split: option.splits)
next
  case (10 b k)
  then show ?case by (simp add: SQLiteBackend_def sql_delete_def wf_store_filter)
next
  case (11 b now p)
  then show ?case
    by (simp add: SQLiteBackend_def sql_count_prefix_def Let_def like_match_escape
        card_live case_prod_unfold conj_commute del: not_None_eq)
next
  case (12 b now t p)
  then show ?case
    by (auto simp: SQLiteBackend_def sql_count_prefix_def Let_def live_filter live_def
        unexpired_def expired_mono fun_eq_iff split: option.splits)
next
  case (13 b now p)
  then show ?case by (simp add: SQLiteBackend_def sql_count_prefix_def Let_def wf_store_filter)
next
  case (14 b t p)
  then show ?case
    by (auto simp: SQLiteBackend_def sql_delete_prefix_def like_match_escape live_filter live_def
        unexpired_def fun_eq_iff split: option.splits)
next
  case (15 b p)
  then show ?case by (simp add: SQLiteBackend_def sql_delete_prefix_def wf_store_filter)
next
  case (16 p k)
  then show ?case by (rule prefix_ci_prefix)
qed

section \<open>Properties of the backends\<close>




text \<open>
  The two backends are interchangeable for \<open>set_if_absent\<close>: from stores that show the same live
  entries they give the same answer and show the same live entries afterwards, at that time and
  later, although one pops an expired entry and the other deletes its row.
\<close>

theorem set_if_absent_backends_agree:
  assumes "wf_store vs" and "wf_store rows" and "\<And>t. now \<le> t \<Longrightarrow> live t vs = live t rows"
    and "now \<le> t"
  shows "fst (mem_set_if_absent now k v ex vs) = fst (sql_set_if_absent now k v ex rows) \<and>
         live t (snd (mem_set_if_absent now k v ex vs)) =
         live t (snd (sql_set_if_absent now k v ex rows))"
  using assms(3) [of now] assms(3) [OF assms(4)] assms(4)
    mem.absent_result [OF assms(1), of now k v ex] sql.absent_result [OF assms(2), of now k v ex]
    mem.absent_state [OF assms(1,4), of k v ex] sql.absent_state [OF assms(2,4), of k v ex]
  by (simp add: MemoryBackend_def SQLiteBackend_def)

theorem set_if_absent_backends_agree_witness:
  "fst (mem_set_if_absent 5 ''k'' (PInt 2) None [(''k'', mk_stored (PInt 1) (Some 3))]) =
   fst (sql_set_if_absent 5 ''k'' (PInt 2) None [(''k'', mk_stored (PInt 1) (Some 3))]) \<and>
   live 5 (snd (mem_set_if_absent 5 ''k'' (PInt 2) None [(''k'', mk_stored (PInt 1) (Some 3))])) =
   live 5 (snd (sql_set_if_absent 5 ''k'' (PInt 2) None [(''k'', mk_stored (PInt 1) (Some 3))]))"
  by (rule set_if_absent_backends_agree) (simp_all add: wf_store_def)

text \<open>
  The rows that \<open>SQLiteBackend.delete_prefix\<close> removes are exactly those whose key starts with the
  prefix up to the case of ASCII letters: the escaping makes \<open>%\<close>, \<open>_\<close> and the backslash of a prefix
  literal, but \<open>LIKE\<close> does not distinguish case, so the match is not exact.
\<close>

theorem sqlite_delete_prefix_rows:
  "snd (sql_delete_prefix p rows) = filter (\<lambda>(k, e). \<not> ci_prefix p k) rows \<and>
   fst (sql_delete_prefix p rows) = length (filter (\<lambda>(k, e). ci_prefix p k) rows)"
  by (simp add: sql_delete_prefix_def like_match_escape)

text \<open>
  As a consequence clearing one namespace of the SQLite backend also clears a namespace that
  differs only in case, where the in-memory backend keeps it.
\<close>

theorem sqlite_clear_crosses_namespaces:
  "\<exists>m rows. snd (member_clear SQLiteBackend m rows) \<noteq> snd (member_clear MemoryBackend m rows) \<and>
     live 0 (snd (member_clear MemoryBackend m rows)) ''ORDERS:7'' \<noteq> None \<and>
     live 0 (snd (member_clear SQLiteBackend m rows)) ''ORDERS:7'' = None"
proof -
  let ?m = "\<lparr>mk_namespace = ''orders'', mk_default_ttl_s = None\<rparr>"
  let ?rows = "[(''ORDERS:7'', mk_stored (PInt 1) None)] :: store"
  have "ci_prefix ''orders:'' ''ORDERS:7''" by code_simp
  then have sql: "snd (member_clear SQLiteBackend ?m ?rows) = []"
    by (simp add: member_clear_def SQLiteBackend_def sql_delete_prefix_def like_match_escape
        member_prefix_def)
  have mem: "snd (member_clear MemoryBackend ?m ?rows) = ?rows"
    by (simp add: member_clear_def MemoryBackend_def mem_delete_prefix_def member_prefix_def)
  show ?thesis
    by (rule exI [of _ ?m], rule exI [of _ ?rows], unfold sql mem)
       (simp add: live_def expired_def mk_stored_def)
qed

end
