(* ===== verification/Checkpoint.thy ===== *)
theory Checkpoint
  imports Failures State_Backend
begin

text \<open>
  \<^verbatim>\<open>core/checkpoint.py\<close> and \<^verbatim>\<open>core/runtime/_delivery_state.py\<close>: the source identity and its codec, the
  checkpoint snapshot, the store that persists it through a state backend, and the in-run
  checkpoint state that decides when a save is due.

  A \<open>datetime\<close> is represented by its ISO 8601 text. What the code uses of Python's library beyond that
  is collected in \<open>pylib\<close>: the text that \<open>str\<close> gives for a float, list or dict, the integer that
  \<open>int\<close> reads from a text (\<open>None\<close> where it raises \<open>ValueError\<close>), and whether
  \<open>datetime.fromisoformat\<close> accepts a text.
\<close>

record pylib =
  lib_repr :: "pyval \<Rightarrow> string"
  lib_int_of_str :: "string \<Rightarrow> int option"
  lib_iso_ok :: "string \<Rightarrow> bool"

fun digits_of :: "nat \<Rightarrow> string" where
  "digits_of n = (if n < 10 then [char_of (48 + n)] else digits_of (n div 10) @ [char_of (48 + n mod 10)])"

declare digits_of.simps [simp del]

text \<open>Python's \<open>str(value)\<close>.\<close>

definition py_str :: "pylib \<Rightarrow> pyval \<Rightarrow> string" where
  "py_str L v = (case v of
       PStr s \<Rightarrow> s
     | PNone \<Rightarrow> ''None''
     | PBool b \<Rightarrow> (if b then ''True'' else ''False'')
     | PInt i \<Rightarrow> (if i < 0 then CHR ''-'' # digits_of (nat (- i)) else digits_of (nat i))
     | _ \<Rightarrow> lib_repr L v)"

text \<open>Python's \<open>int(value)\<close>: \<open>None\<close> where it raises \<open>TypeError\<close> or \<open>ValueError\<close>.\<close>

definition py_int :: "pylib \<Rightarrow> pyval \<Rightarrow> int option" where
  "py_int L v = (case v of
       PInt i \<Rightarrow> Some i
     | PBool b \<Rightarrow> Some (if b then 1 else 0)
     | PFloat q \<Rightarrow> Some (if q < 0 then \<lceil>q\<rceil> else \<lfloor>q\<rfloor>)
     | PStr s \<Rightarrow> lib_int_of_str L s
     | _ \<Rightarrow> None)"

section \<open>Source identity\<close>

record SourceIdentity =
  si_uri :: string
  si_size_bytes :: int
  si_modified_time_ns :: int
  si_device :: "int option"
  si_inode :: "int option"

definition identity_to_dict :: "SourceIdentity \<Rightarrow> pyval" where
  "identity_to_dict s = PDict
     [(''uri'', PStr (si_uri s)),
      (''size_bytes'', PInt (si_size_bytes s)),
      (''modified_time_ns'', PInt (si_modified_time_ns s)),
      (''device'', opt_int (si_device s)),
      (''inode'', opt_int (si_inode s))]"

definition corrupt_identity :: exn where
  "corrupt_identity = mk_exn TypeErrorC ''Checkpoint source_identity is corrupted''"

text \<open>\<open>int(value[k]) if value.get(k) is not None else None\<close>; the outer \<open>None\<close> is the raise.\<close>

definition opt_field :: "pylib \<Rightarrow> (string \<times> pyval) list \<Rightarrow> string \<Rightarrow> int option option" where
  "opt_field L kvs k = (case dict_get kvs k of
       None \<Rightarrow> Some None
     | Some PNone \<Rightarrow> Some None
     | Some v \<Rightarrow> map_option Some (py_int L v))"

definition identity_from_dict :: "pylib \<Rightarrow> pyval \<Rightarrow> exn + SourceIdentity" where
  "identity_from_dict L value =
     (case value of
        PDict kvs \<Rightarrow>
          (let missing = filter (\<lambda>k. dict_get kvs k = None) [''uri'', ''size_bytes'', ''modified_time_ns'']
           in if missing \<noteq> [] then Inl corrupt_identity
              else (case (dict_get kvs ''uri'',
                          Option.bind (dict_get kvs ''size_bytes'') (py_int L),
                          Option.bind (dict_get kvs ''modified_time_ns'') (py_int L),
                          opt_field L kvs ''device'', opt_field L kvs ''inode'') of
                      (Some u, Some n, Some m, Some d, Some i) \<Rightarrow>
                        Inr \<lparr>si_uri = py_str L u, si_size_bytes = n, si_modified_time_ns = m,
                             si_device = d, si_inode = i\<rparr>
                    | _ \<Rightarrow> Inl corrupt_identity))
      | _ \<Rightarrow> Inl corrupt_identity)"

section \<open>Checkpoints and their store\<close>

record Checkpoint =
  cp_pipeline_id :: string
  cp_run_id :: string
  cp_source :: string
  cp_value :: pyval
  cp_recorded_at :: string
  cp_source_identity :: "SourceIdentity option"

definition full_key :: "string \<Rightarrow> string \<Rightarrow> string" where
  "full_key namespace key = namespace @ '':'' @ key"

definition checkpoint_payload :: "Checkpoint \<Rightarrow> pyval" where
  "checkpoint_payload c = PDict
     [(''pipeline_id'', PStr (cp_pipeline_id c)),
      (''run_id'', PStr (cp_run_id c)),
      (''source'', PStr (cp_source c)),
      (''value'', cp_value c),
      (''recorded_at'', PStr (cp_recorded_at c)),
      (''source_identity'',
         (case cp_source_identity c of None \<Rightarrow> PNone | Some s \<Rightarrow> identity_to_dict s))]"

definition corrupt_checkpoint :: exn where
  "corrupt_checkpoint = mk_exn TypeErrorC ''Checkpoint data is corrupted''"

text \<open>The decoding part of \<open>load\<close>; \<open>now\<close> is the text of \<open>datetime.now(UTC)\<close>.\<close>

definition decode_checkpoint :: "pylib \<Rightarrow> string \<Rightarrow> pyval \<Rightarrow> exn + Checkpoint" where
  "decode_checkpoint L now value =
     (case value of
        PDict kvs \<Rightarrow>
          (let missing = filter (\<lambda>k. dict_get kvs k = None) [''pipeline_id'', ''run_id'', ''source'']
           in if missing \<noteq> [] then Inl corrupt_checkpoint
              else
                let recorded = dict_get kvs ''recorded_at'';
                    ident = dict_get kvs ''source_identity'';
                    recorded_at = (case recorded of
                        Some (PStr s) \<Rightarrow>
                          if lib_iso_ok L s then Inr s
                          else Inl (mk_exn ValueErrorC ''Invalid isoformat string'')
                      | _ \<Rightarrow> Inr now);
                    identity = (case ident of
                        None \<Rightarrow> Inr None
                      | Some PNone \<Rightarrow> Inr None
                      | Some v \<Rightarrow>
                          (case identity_from_dict L v of Inl e \<Rightarrow> Inl e | Inr s \<Rightarrow> Inr (Some s)))
                in (case recorded_at of
                      Inl e \<Rightarrow> Inl e
                    | Inr ra \<Rightarrow>
                        (case identity of
                           Inl e \<Rightarrow> Inl e
                         | Inr si \<Rightarrow>
                             Inr \<lparr>cp_pipeline_id = py_str L (the (dict_get kvs ''pipeline_id'')),
                                  cp_run_id = py_str L (the (dict_get kvs ''run_id'')),
                                  cp_source = py_str L (the (dict_get kvs ''source'')),
                                  cp_value = (case dict_get kvs ''value'' of None \<Rightarrow> PNone | Some v \<Rightarrow> v),
                                  cp_recorded_at = ra,
                                  cp_source_identity = si\<rparr>)))
      | _ \<Rightarrow> Inl corrupt_checkpoint)"

definition store_load ::
  "'b backend_ops \<Rightarrow> pylib \<Rightarrow> string \<Rightarrow> rat \<Rightarrow> string \<Rightarrow> string \<Rightarrow> 'b \<Rightarrow>
   (exn + Checkpoint option) \<times> 'b" where
  "store_load B L namespace t now key b =
     (case op_get B t (full_key namespace key) b of
        (None, b') \<Rightarrow> (Inr None, b')
      | (Some e, b') \<Rightarrow>
          (case decode_checkpoint L now (sv_value e) of
             Inl x \<Rightarrow> (Inl x, b') | Inr c \<Rightarrow> (Inr (Some c), b')))"

definition store_save :: "'b backend_ops \<Rightarrow> string \<Rightarrow> string \<Rightarrow> Checkpoint \<Rightarrow> 'b \<Rightarrow> 'b" where
  "store_save B namespace key c b = op_set B (full_key namespace key) (checkpoint_payload c) None b"

definition store_delete :: "'b backend_ops \<Rightarrow> string \<Rightarrow> rat \<Rightarrow> string \<Rightarrow> 'b \<Rightarrow> bool \<times> 'b" where
  "store_delete B namespace t key b =
     (case op_get B t (full_key namespace key) b of
        (None, b') \<Rightarrow> (False, b')
      | (Some _, b') \<Rightarrow> (True, op_delete B (full_key namespace key) b'))"

section \<open>The checkpoint state of a run\<close>

record CheckpointState =
  cs_processed_count :: int
  cs_last_saved_value :: pyval

definition make_checkpoint_state :: CheckpointState where
  "make_checkpoint_state = \<lparr>cs_processed_count = 0, cs_last_saved_value = PNone\<rparr>"

definition cs_increment :: "CheckpointState \<Rightarrow> CheckpointState" where
  "cs_increment c = c\<lparr>cs_processed_count := cs_processed_count c + 1\<rparr>"

definition cs_increment_by :: "int \<Rightarrow> CheckpointState \<Rightarrow> CheckpointState" where
  "cs_increment_by n c = c\<lparr>cs_processed_count := cs_processed_count c + max 0 n\<rparr>"

text \<open>
  The builder clamps \<open>checkpoint_every\<close> to at least 1 (\<^verbatim>\<open>core/_pipeline_support.py\<close>), so the modulus
  is never taken at 0.
\<close>

definition cs_should_save :: "pyval \<Rightarrow> int \<Rightarrow> CheckpointState \<Rightarrow> bool" where
  "cs_should_save v every c =
     (if v = PNone \<or> py_eq v (cs_last_saved_value c) then False
      else cs_processed_count c mod every = 0)"

definition cs_mark_saved :: "pyval \<Rightarrow> CheckpointState \<Rightarrow> CheckpointState" where
  "cs_mark_saved v c = c\<lparr>cs_last_saved_value := v\<rparr>"

section \<open>Facts\<close>

lemma identity_roundtrip: "identity_from_dict L (identity_to_dict s) = Inr s"
  by (cases "si_device s"; cases "si_inode s")
     (simp_all add: identity_from_dict_def identity_to_dict_def dict_get_def opt_field_def
       opt_int_def py_int_def py_str_def)

lemma checkpoint_roundtrip:
  assumes "lib_iso_ok L (cp_recorded_at c)"
  shows "decode_checkpoint L now (checkpoint_payload c) = Inr c"
proof (cases "cp_source_identity c")
  case None
  with assms show ?thesis
    by (simp add: decode_checkpoint_def checkpoint_payload_def dict_get_def py_str_def)
next
  case (Some s)
  have not_none: "identity_to_dict s \<noteq> PNone" by (simp add: identity_to_dict_def)
  then have "(case identity_to_dict s of PNone \<Rightarrow> Inr None
       | v \<Rightarrow> (case identity_from_dict L v of Inl e \<Rightarrow> Inl e | Inr s \<Rightarrow> Inr (Some s))) =
     (Inr (Some s) :: exn + SourceIdentity option)"
    using identity_roundtrip [of L s] by (cases "identity_to_dict s") simp_all
  with Some assms not_none show ?thesis
    by (simp add: decode_checkpoint_def checkpoint_payload_def dict_get_def py_str_def
        identity_roundtrip split: pyval.splits)
qed

lemma cs_simps [simp]:
  "cs_last_saved_value (cs_increment c) = cs_last_saved_value c"
  "cs_last_saved_value (cs_increment_by n c) = cs_last_saved_value c"
  "cs_last_saved_value (cs_mark_saved v c) = v"
  "cs_processed_count (cs_mark_saved v c) = cs_processed_count c"
  "cs_processed_count (cs_increment c) = cs_processed_count c + 1"
  by (simp_all add: cs_increment_def cs_increment_by_def cs_mark_saved_def)

context state_backend
begin

lemma store_load_after_save:
  assumes "invar b" and "lib_iso_ok L (cp_recorded_at c)"
  shows "fst (store_load B L ns t now key (store_save B ns key c b)) = Inr (Some c)"
proof -
  have "fst (op_get B t (full_key ns key) (store_save B ns key c b)) =
      Some (mk_stored (checkpoint_payload c) None)"
    using assms(1) by (simp add: store_save_def get_after_set expired_def mk_stored_def)
  then show ?thesis
    using checkpoint_roundtrip [OF assms(2)]
    by (auto simp: store_load_def mk_stored_def split: prod.splits)
qed

lemma store_save_other:
  assumes "invar b" and "key \<noteq> key'"
  shows "fst (store_load B L ns t now key' (store_save B ns key c b)) =
         fst (store_load B L ns t now key' b)"
proof -
  have "full_key ns key \<noteq> full_key ns key'" using assms(2) by (simp add: full_key_def)
  then have "fst (op_get B t (full_key ns key') (store_save B ns key c b)) =
      fst (op_get B t (full_key ns key') b)"
    using assms(1) by (simp add: store_save_def get_after_set_other)
  then show ?thesis
    by (auto simp: store_load_def split: prod.splits option.splits sum.splits)
qed

lemma store_load_after_delete:
  assumes "invar b"
  shows "fst (store_load B L ns t now key (snd (store_delete B ns t key b))) = Inr None"
proof -
  let ?k = "full_key ns key"
  obtain r b' where g: "op_get B t ?k b = (r, b')" by (cases "op_get B t ?k b")
  then have inv: "invar b'" and res: "r = seen t b ?k" and seen: "seen t b' = seen t b"
    using get_invar [OF assms, of t ?k] get_result [OF assms, of t ?k]
      get_state [OF assms order_refl, of t ?k] by simp_all
  have "fst (op_get B t ?k (snd (store_delete B ns t key b))) = None"
    using g inv res seen
    by (auto simp: store_delete_def get_result delete_invar delete_state split: option.split)
  then show ?thesis by (auto simp: store_load_def split: prod.splits)
qed

end

section \<open>Properties\<close>

text \<open>
  C32. A checkpoint saved to the SQLite store under a key is what a later load of that key returns,
  field by field with its source identity, and it does not change what any other key loads.
\<close>

theorem checkpoint_store_roundtrip:
  assumes "wf_store rows" and "lib_iso_ok L (cp_recorded_at c)"
  shows "fst (store_load SQLiteBackend L ns t now key (store_save SQLiteBackend ns key c rows)) =
           Inr (Some c) \<and>
         (\<forall>key'. key' \<noteq> key \<longrightarrow>
           fst (store_load SQLiteBackend L ns t now key' (store_save SQLiteBackend ns key c rows)) =
           fst (store_load SQLiteBackend L ns t now key' rows))"
  using sql.store_load_after_save [OF assms] sql.store_save_other [OF assms(1)] by simp

definition plain_lib :: pylib where
  "plain_lib = \<lparr>lib_repr = (\<lambda>_. ''?''), lib_int_of_str = (\<lambda>_. None), lib_iso_ok = (\<lambda>s. s \<noteq> [])\<rparr>"

definition sample_checkpoint :: Checkpoint where
  "sample_checkpoint = \<lparr>cp_pipeline_id = ''p'', cp_run_id = ''r'', cp_source = ''csv'',
     cp_value = PInt 42, cp_recorded_at = ''2026-05-23T00:00:00+00:00'',
     cp_source_identity = Some \<lparr>si_uri = ''file:///in.csv'', si_size_bytes = 10,
       si_modified_time_ns = 5, si_device = Some 1, si_inode = None\<rparr>\<rparr>"

theorem checkpoint_store_roundtrip_witness:
  "fst (store_load SQLiteBackend plain_lib ''checkpoint'' 0 ''now'' ''k''
     (store_save SQLiteBackend ''checkpoint'' ''k'' sample_checkpoint [])) =
   Inr (Some sample_checkpoint)"
  using checkpoint_store_roundtrip [of "[]" plain_lib sample_checkpoint "''checkpoint''" 0
      "''now''" "''k''"]
  by (simp add: wf_store_def plain_lib_def sample_checkpoint_def)

end
