(* ===== verification/Dlq.thy ===== *)
theory Dlq
  imports Checkpoint
begin

text \<open>
  \<^verbatim>\<open>core/dlq.py\<close>: the dead-letter payload, the SQLite sink that stores, re-counts and acknowledges it,
  and the source that replays it.

  The table \<open>dlq_records\<close> is the list of its rows in insertion order; \<open>AUTOINCREMENT\<close> hands out
  increasing ids that are never reused. A column that holds JSON is a \<open>cell\<close>: \<open>NULL\<close>, the JSON text
  of a value (represented by that value), or a text that is not JSON.

  The payload that is written may be any Python value, a \<open>pyobject\<close>: what \<open>json.loads\<close> gives back for the text of
  \<open>json.dumps(v, default=str)\<close> is \<open>json_image v\<close>. It is the value itself for JSON values; tuples become lists, keys
  become strings, and every other object becomes its \<open>str\<close>. So a record is written over \<open>pyobject\<close> and read back, and
  handed to the rest of the engine, over \<open>pyval\<close>.
\<close>

section \<open>What JSON makes of a value\<close>

text \<open>
  Keys: a string, a scalar that \<open>json\<close> turns into a string (an int, float, bool or \<open>None\<close>, with the text it gives), or
  another object, which \<open>json\<close> refuses in spite of \<open>default\<close>. An object that \<open>json\<close> does not know comes with what
  \<open>str\<close> makes of it, which may raise. NaN and the infinities are outside the model, as in \<open>pyval\<close>.
\<close>

datatype pykey = KText string | KScalar string | KOther

datatype pyobject =
    VNone
  | VBool bool
  | VInt int
  | VFloat rat
  | VStr string
  | VList "pyobject list"
  | VTuple "pyobject list"
  | VDict "(pykey \<times> pyobject) list"
  | VObject "exn + string"

definition key_text :: "pykey \<Rightarrow> exn + string" where
  "key_text k = (case k of KText x \<Rightarrow> Inr x | KScalar x \<Rightarrow> Inr x
     | KOther \<Rightarrow> Inl (mk_exn TypeErrorC ''keys must be str, int, float, bool or None''))"

text \<open>Two keys with the same text are both written; \<open>json.loads\<close> lets the last one win.\<close>

fun json_image :: "pyobject \<Rightarrow> exn + pyval"
  and json_images :: "pyobject list \<Rightarrow> exn + pyval list"
  and json_items :: "(pykey \<times> pyobject) list \<Rightarrow> exn + (string \<times> pyval) list" where
  "json_image VNone = Inr PNone"
| "json_image (VBool b) = Inr (PBool b)"
| "json_image (VInt i) = Inr (PInt i)"
| "json_image (VFloat q) = Inr (PFloat q)"
| "json_image (VStr x) = Inr (PStr x)"
| "json_image (VList vs) = res_bind (json_images vs) (\<lambda>xs. Inr (PList xs))"
| "json_image (VTuple vs) = res_bind (json_images vs) (\<lambda>xs. Inr (PList xs))"
| "json_image (VDict kvs) =
     res_bind (json_items kvs) (\<lambda>xs. Inr (PDict (fold (\<lambda>(k, x). AList.update k x) xs [])))"
| "json_image (VObject s) = res_bind s (\<lambda>x. Inr (PStr x))"
| "json_images [] = Inr []"
| "json_images (v # vs) = res_bind (json_image v) (\<lambda>x. res_bind (json_images vs) (\<lambda>xs. Inr (x # xs)))"
| "json_items [] = Inr []"
| "json_items (kv # kvs) =
     res_bind (key_text (fst kv)) (\<lambda>k. res_bind (json_image (snd kv)) (\<lambda>x.
       res_bind (json_items kvs) (\<lambda>xs. Inr ((k, x) # xs))))"

text \<open>The JSON values among the Python values.\<close>

fun of_json :: "pyval \<Rightarrow> pyobject" where
  "of_json PNone = VNone"
| "of_json (PBool b) = VBool b"
| "of_json (PInt i) = VInt i"
| "of_json (PFloat q) = VFloat q"
| "of_json (PStr x) = VStr x"
| "of_json (PList xs) = VList (map of_json xs)"
| "of_json (PDict kvs) = VDict (map (\<lambda>kv. (KText (fst kv), of_json (snd kv))) kvs)"

lemma fold_update_distinct:
  "distinct (map fst xs @ map fst ys) \<Longrightarrow> fold (\<lambda>(k, x). AList.update k x) xs ys = ys @ xs"
proof (induction xs arbitrary: ys)
  case (Cons x xs)
  have "AList.update (fst x) (snd x) zs = zs @ [x]" if "fst x \<notin> set (map fst zs)" for zs
    using that by (induction zs) (auto simp: prod_eq_iff)
  from this [of ys] Cons.prems Cons.IH [of "ys @ [x]"] show ?case by (auto simp: case_prod_beta)
qed simp

lemma json_image_json: "wf_pyval v \<Longrightarrow> json_image (of_json v) = Inr v"
proof (induction v)
  case (PList xs)
  then have "json_images (map of_json xs) = Inr xs"
    by (induction xs) (simp_all add: res_bind_def)
  then show ?case by (simp add: res_bind_def)
next
  case (PDict kvs)
  then have "\<forall>kv\<in>set kvs. json_image (of_json (snd kv)) = Inr (snd kv)"
    by (auto simp: list_all_iff)
  then have "json_items (map (\<lambda>kv. (KText (fst kv), of_json (snd kv))) kvs) = Inr kvs"
    by (induction kvs) (simp_all add: res_bind_def key_text_def)
  with PDict.prems show ?case by (simp add: res_bind_def fold_update_distinct)
qed simp_all

section \<open>The record\<close>

record 'v dlq_payload =
  dq_pipeline_id :: string
  dq_run_id :: string
  dq_stage :: string
  dq_error_type :: string
  dq_error_message :: string
  dq_record :: 'v
  dq_source :: "string option"
  dq_checkpoint :: 'v
  dq_details :: 'v
  dq_middleware :: "string option"
  dq_sink :: "string option"
  dq_created_at :: string
  dq_attempt :: int
  dq_max_attempts :: "int option"
  dq_original_record :: 'v
  dq_processed_record :: 'v
  dq_storage_id :: "nat option"

type_synonym DLQRecord = "pyval dlq_payload"

definition replay_payload :: "string \<Rightarrow> DLQRecord \<Rightarrow> exn + pyval" where
  "replay_payload mode r =
     (if mode = ''pipeline'' then
        (if dq_original_record r \<noteq> PNone then Inr (dq_original_record r)
         else if dq_record r \<noteq> PNone then Inr (dq_record r)
         else Inr (dq_processed_record r))
      else if mode = ''sink'' then
        (if dq_processed_record r \<noteq> PNone then Inr (dq_processed_record r)
         else if dq_record r \<noteq> PNone then Inr (dq_record r)
         else Inr (dq_original_record r))
      else Inl (mk_exn ValueErrorC (''Unsupported DLQ replay mode: '' @ mode)))"

definition dlq_replay :: "'v dlq_payload \<Rightarrow> 'v dlq_payload" where
  "dlq_replay r = r\<lparr>dq_attempt := dq_attempt r + 1\<rparr>"

text \<open>The filter of \<open>DLQSource.stream\<close>.\<close>

definition retry_eligible :: "DLQRecord \<Rightarrow> bool" where
  "retry_eligible r = (case dq_max_attempts r of None \<Rightarrow> True | Some m \<Rightarrow> dq_attempt r < m)"

section \<open>Rows\<close>

datatype cell = CNull | CJson pyval | CText string

record dlq_row =
  rw_id :: nat
  rw_pipeline_id :: string
  rw_run_id :: string
  rw_stage :: string
  rw_error_type :: string
  rw_error_message :: string
  rw_record :: cell
  rw_original_record :: cell
  rw_processed_record :: cell
  rw_source :: "string option"
  rw_checkpoint :: cell
  rw_details :: cell
  rw_middleware :: "string option"
  rw_sink :: "string option"
  rw_created_at :: string
  rw_attempt :: int
  rw_max_attempts :: "int option"

definition dumps_opt :: "pyobject \<Rightarrow> exn + cell" where
  "dumps_opt v = (if v \<noteq> VNone then res_bind (json_image v) (\<lambda>x. Inr (CJson x)) else Inr CNull)"

text \<open>\<open>_record_to_row\<close>, and the id the table assigns on insertion.\<close>

definition record_to_row :: "nat \<Rightarrow> pyobject dlq_payload \<Rightarrow> exn + dlq_row" where
  "record_to_row i r =
     res_bind (json_image (dq_record r)) (\<lambda>record.
     res_bind (dumps_opt (dq_original_record r)) (\<lambda>original.
     res_bind (dumps_opt (dq_processed_record r)) (\<lambda>processed.
     res_bind (dumps_opt (dq_checkpoint r)) (\<lambda>checkpoint.
     res_bind (dumps_opt (dq_details r)) (\<lambda>details. Inr
     \<lparr>rw_id = i, rw_pipeline_id = dq_pipeline_id r, rw_run_id = dq_run_id r,
      rw_stage = dq_stage r, rw_error_type = dq_error_type r,
      rw_error_message = dq_error_message r,
      rw_record = CJson record,
      rw_original_record = original,
      rw_processed_record = processed,
      rw_source = dq_source r,
      rw_checkpoint = checkpoint,
      rw_details = details,
      rw_middleware = dq_middleware r, rw_sink = dq_sink r,
      rw_created_at = dq_created_at r, rw_attempt = dq_attempt r,
      rw_max_attempts = dq_max_attempts r\<rparr>)))))"

definition json_or_raw :: "cell \<Rightarrow> pyval" where
  "json_or_raw c = (case c of CNull \<Rightarrow> PNone | CJson v \<Rightarrow> v | CText s \<Rightarrow> PStr s)"

definition row_to_record :: "pylib \<Rightarrow> dlq_row \<Rightarrow> exn + DLQRecord" where
  "row_to_record L w =
     (if \<not> lib_iso_ok L (rw_created_at w) then Inl (mk_exn ValueErrorC ''Invalid isoformat string'')
      else Inr
        \<lparr>dq_pipeline_id = rw_pipeline_id w, dq_run_id = rw_run_id w, dq_stage = rw_stage w,
         dq_error_type = rw_error_type w, dq_error_message = rw_error_message w,
         dq_record = json_or_raw (rw_record w), dq_source = rw_source w,
         dq_checkpoint = json_or_raw (rw_checkpoint w), dq_details = json_or_raw (rw_details w),
         dq_middleware = rw_middleware w, dq_sink = rw_sink w,
         dq_created_at = rw_created_at w, dq_attempt = rw_attempt w,
         dq_max_attempts = rw_max_attempts w,
         dq_original_record = json_or_raw (rw_original_record w),
         dq_processed_record = json_or_raw (rw_processed_record w),
         dq_storage_id = Some (rw_id w)\<rparr>)"

section \<open>SQLiteDLQSink\<close>

record dlq_db =
  db_open :: bool
  db_next_id :: nat
  db_rows :: "dlq_row list"

definition dlq_not_open :: exn where
  "dlq_not_open = mk_exn RuntimeErrorC ''SQLiteDLQSink is not open''"

definition dlq_open :: "dlq_db \<Rightarrow> dlq_db" where
  "dlq_open db = db\<lparr>db_open := True\<rparr>"

definition dlq_close :: "dlq_db \<Rightarrow> dlq_db" where
  "dlq_close db = db\<lparr>db_open := False\<rparr>"

text \<open>\<open>write\<close>: the row is built before the connection is looked at.\<close>

definition dlq_insert :: "pyobject dlq_payload \<Rightarrow> (exn, dlq_db, unit) comp" where
  "dlq_insert r = (\<lambda>db. case record_to_row (db_next_id db) r of
       Inl e \<Rightarrow> (Inl e, db)
     | Inr row \<Rightarrow>
         if \<not> db_open db then (Inl dlq_not_open, db)
         else (Inr (), db\<lparr>db_rows := db_rows db @ [row], db_next_id := db_next_id db + 1\<rparr>))"

text \<open>
  The row that an update or an acknowledgement addresses: the one with the record's storage id, or,
  for a record that was never read back, the first row with the same pipeline, run, stage and
  creation time.
\<close>

definition same_origin :: "'v dlq_payload \<Rightarrow> dlq_row \<Rightarrow> bool" where
  "same_origin r w \<longleftrightarrow> rw_pipeline_id w = dq_pipeline_id r \<and> rw_run_id w = dq_run_id r \<and>
     rw_stage w = dq_stage r \<and> rw_created_at w = dq_created_at r"

definition target_id :: "'v dlq_payload \<Rightarrow> dlq_row list \<Rightarrow> nat option" where
  "target_id r rows = (case dq_storage_id r of
       Some i \<Rightarrow> Some i
     | None \<Rightarrow> (case filter (same_origin r) rows of [] \<Rightarrow> None | w # _ \<Rightarrow> Some (rw_id w)))"

definition update_attempt :: "'v dlq_payload \<Rightarrow> int \<Rightarrow> (exn, dlq_db, unit) comp" where
  "update_attempt r n = (\<lambda>db.
     if \<not> db_open db then (Inl dlq_not_open, db)
     else (Inr (), db\<lparr>db_rows := map (\<lambda>w. if target_id r (db_rows db) = Some (rw_id w)
                                          then w\<lparr>rw_attempt := n\<rparr> else w) (db_rows db)\<rparr>))"

definition dlq_delete :: "'v dlq_payload \<Rightarrow> (exn, dlq_db, unit) comp" where
  "dlq_delete r = (\<lambda>db.
     if \<not> db_open db then (Inl dlq_not_open, db)
     else (Inr (), db\<lparr>db_rows := filter (\<lambda>w. target_id r (db_rows db) \<noteq> Some (rw_id w))
                                  (db_rows db)\<rparr>))"

definition sqlite_replay :: "'v dlq_payload \<Rightarrow> (exn, dlq_db, 'v dlq_payload) comp" where
  "sqlite_replay r =
     (let updated = dlq_replay r
      in bind (update_attempt r (dq_attempt updated)) (\<lambda>_. ret updated))"

definition acknowledge :: "'v dlq_payload \<Rightarrow> (exn, dlq_db, unit) comp" where
  "acknowledge r = dlq_delete r"

section \<open>SQLiteDLQSource\<close>

record dlq_source =
  ds_pipeline_id :: "string option"
  ds_stage :: "string option"
  ds_limit :: "int option"

text \<open>The query: the conditions that are set, ordered by id, cut at the limit (a negative one is none).\<close>

definition fetch_rows :: "dlq_source \<Rightarrow> dlq_row list \<Rightarrow> dlq_row list" where
  "fetch_rows q rows =
     (let sel = sort_key rw_id (filter (\<lambda>w.
            (case ds_pipeline_id q of None \<Rightarrow> True | Some p \<Rightarrow> rw_pipeline_id w = p) \<and>
            (case ds_stage q of None \<Rightarrow> True | Some x \<Rightarrow> rw_stage w = x)) rows)
      in case ds_limit q of
           None \<Rightarrow> sel
         | Some n \<Rightarrow> if n < 0 then sel else take (nat n) sel)"

text \<open>\<open>_iter_records\<close> and \<open>stream\<close>: rows become records, and only those still eligible are yielded.\<close>

fun rows_to_records :: "pylib \<Rightarrow> dlq_row list \<Rightarrow> exn + DLQRecord list" where
  "rows_to_records L [] = Inr []"
| "rows_to_records L (w # ws) =
     (case row_to_record L w of
        Inl e \<Rightarrow> Inl e
      | Inr r \<Rightarrow> (case rows_to_records L ws of Inl e \<Rightarrow> Inl e | Inr rs \<Rightarrow> Inr (r # rs)))"

definition dlq_stream :: "pylib \<Rightarrow> dlq_source \<Rightarrow> dlq_row list \<Rightarrow> exn + DLQRecord list" where
  "dlq_stream L q rows =
     (case rows_to_records L (fetch_rows q rows) of
        Inl e \<Rightarrow> Inl e | Inr rs \<Rightarrow> Inr (filter retry_eligible rs))"

section \<open>The table invariant\<close>

text \<open>Ids are distinct and below the next one, which \<open>AUTOINCREMENT\<close> guarantees.\<close>

definition wf_db :: "dlq_db \<Rightarrow> bool" where
  "wf_db db \<longleftrightarrow> sorted (map rw_id (db_rows db)) \<and> distinct (map rw_id (db_rows db)) \<and>
     (\<forall>w \<in> set (db_rows db). rw_id w < db_next_id db)"

lemma record_to_row_id: "record_to_row i r = Inr w \<Longrightarrow> rw_id w = i"
  by (auto simp: record_to_row_def res_bind_eq_Inr)

lemma wf_db_insert: "wf_db db \<Longrightarrow> wf_db (snd (dlq_insert r db))"
proof (cases "record_to_row (db_next_id db) r")
  case (Inr w)
  assume "wf_db db"
  with Inr record_to_row_id [OF Inr] show ?thesis
    by (auto simp: wf_db_def dlq_insert_def sorted_append less_imp_le)
qed (simp add: dlq_insert_def)

lemma wf_db_update: "wf_db db \<Longrightarrow> wf_db (snd (update_attempt r n db))"
proof -
  have ids: "map rw_id (map (\<lambda>w. if P w then w\<lparr>rw_attempt := n\<rparr> else w) ws) = map rw_id ws" for P ws
    by (induction ws) auto
  assume "wf_db db"
  then show ?thesis unfolding wf_db_def update_attempt_def by (auto simp: ids simp del: map_map)
qed

lemma wf_db_delete: "wf_db db \<Longrightarrow> wf_db (snd (dlq_delete r db))"
  by (auto simp: wf_db_def dlq_delete_def distinct_map_filter sorted_filter)

text \<open>The record as JSON keeps it, or the exception that serialising one of its fields raises.\<close>

definition dlq_image :: "pyobject dlq_payload \<Rightarrow> exn + DLQRecord" where
  "dlq_image r =
     res_bind (json_image (dq_record r)) (\<lambda>record.
     res_bind (json_image (dq_original_record r)) (\<lambda>original.
     res_bind (json_image (dq_processed_record r)) (\<lambda>processed.
     res_bind (json_image (dq_checkpoint r)) (\<lambda>checkpoint.
     res_bind (json_image (dq_details r)) (\<lambda>details. Inr
     \<lparr>dq_pipeline_id = dq_pipeline_id r, dq_run_id = dq_run_id r, dq_stage = dq_stage r,
      dq_error_type = dq_error_type r, dq_error_message = dq_error_message r, dq_record = record,
      dq_source = dq_source r, dq_checkpoint = checkpoint, dq_details = details,
      dq_middleware = dq_middleware r, dq_sink = dq_sink r, dq_created_at = dq_created_at r,
      dq_attempt = dq_attempt r, dq_max_attempts = dq_max_attempts r,
      dq_original_record = original, dq_processed_record = processed,
      dq_storage_id = dq_storage_id r\<rparr>)))))"

lemma dumps_opt_image: "res_bind (dumps_opt v) (\<lambda>c. Inr (json_or_raw c)) = json_image v"
  by (cases "json_image v") (auto simp: dumps_opt_def json_or_raw_def res_bind_def)

lemma row_roundtrip:
  assumes "lib_iso_ok L (dq_created_at r)"
  shows "res_bind (record_to_row i r) (row_to_record L) = res_bind (dlq_image r) (\<lambda>d. Inr (d\<lparr>dq_storage_id := Some i\<rparr>))"
  using assms
  by (auto simp: row_to_record_def record_to_row_def dlq_image_def json_or_raw_def res_bind_def
      dumps_opt_image [symmetric] split: sum.split)

text \<open>The two raise in the same cases: a row is refused when one of its fields has no JSON text.\<close>

lemma row_exists: "(case record_to_row i r of Inl e \<Rightarrow> Inl e | Inr w \<Rightarrow> Inr (rw_id w)) =
    (case dlq_image r of Inl e \<Rightarrow> Inl e | Inr d \<Rightarrow> Inr i)"
  by (auto simp: record_to_row_def dlq_image_def res_bind_def dumps_opt_image [symmetric] split: sum.split)

lemma rows_to_records_map:
  "(\<And>w. w \<in> set ws \<Longrightarrow> row_to_record L w = Inr (f w)) \<Longrightarrow> rows_to_records L ws = Inr (map f ws)"
  by (induction ws) auto

section \<open>Properties\<close>

text \<open>
  C35. A dead letter is read back as JSON keeps it. Writing a record to the open SQLite DLQ either raises what
  serialising one of its fields raises, and the table is unchanged, or adds one new row, which reads back as the
  record with the JSON image of each of its fields and the storage id the table gave it; no earlier row changes.
  The JSON image of a value that consists of \<open>None\<close>, booleans, numbers, strings, lists and dicts with string keys is the
  value itself; of any other object it is its \<open>str\<close>.
\<close>

theorem dlq_write_read_back:
  assumes "wf_db db" and "db_open db" and "lib_iso_ok L (dq_created_at r)"
  shows "(case dlq_image r of
      Inl e \<Rightarrow> dlq_insert r db = (Inl e, db)
    | Inr d \<Rightarrow> fst (dlq_insert r db) = Inr () \<and>
        (\<exists>w. db_rows (snd (dlq_insert r db)) = db_rows db @ [w] \<and>
           row_to_record L w = Inr (d\<lparr>dq_storage_id := Some (db_next_id db)\<rparr>) \<and>
           rw_id w \<notin> rw_id ` set (db_rows db) \<and> wf_db (snd (dlq_insert r db)))) \<and>
    (\<forall>v. wf_pyval v \<longrightarrow> json_image (of_json v) = Inr v)"
proof (cases "record_to_row (db_next_id db) r")
  case (Inl e)
  then have "dlq_image r = Inl e" using row_exists [of "db_next_id db" r] by (cases "dlq_image r") simp_all
  with Inl json_image_json show ?thesis by (simp add: dlq_insert_def)
next
  case (Inr w)
  then obtain d where d: "dlq_image r = Inr d"
    using row_exists [of "db_next_id db" r] by (cases "dlq_image r") simp_all
  have "row_to_record L w = Inr (d\<lparr>dq_storage_id := Some (db_next_id db)\<rparr>)"
    using row_roundtrip [OF assms(3), of "db_next_id db"] Inr d by (simp add: res_bind_def)
  moreover have "rw_id w \<notin> rw_id ` set (db_rows db)"
    using assms(1) record_to_row_id [OF Inr] by (auto simp: wf_db_def)
  ultimately show ?thesis using Inr d assms(2) wf_db_insert [OF assms(1), of r] json_image_json
    by (simp add: dlq_insert_def)
qed

definition sample_dlq :: "'v \<Rightarrow> 'v \<Rightarrow> int \<Rightarrow> int option \<Rightarrow> 'v dlq_payload" where
  "sample_dlq none payload n m = \<lparr>dq_pipeline_id = ''p'', dq_run_id = ''r'', dq_stage = ''sink_write'',
     dq_error_type = ''ValueError'', dq_error_message = ''bad'', dq_record = payload,
     dq_source = None, dq_checkpoint = payload, dq_details = none, dq_middleware = None,
     dq_sink = None, dq_created_at = ''2026-05-23'', dq_attempt = n, dq_max_attempts = m,
     dq_original_record = payload, dq_processed_record = none, dq_storage_id = None\<rparr>"

definition empty_db :: dlq_db where
  "empty_db = \<lparr>db_open = True, db_next_id = 1, db_rows = []\<rparr>"

text \<open>A record that holds a tuple and an object, such as a \<open>datetime\<close>, under a key that is an int.\<close>

definition odd_payload :: pyobject where
  "odd_payload = VDict [(KText ''xs'', VTuple [VInt 1, VNone]), (KScalar ''7'', VObject (Inr ''2026-05-23''))]"

definition odd_image :: pyval where
  "odd_image = PDict [(''xs'', PList [PInt 1, PNone]), (''7'', PStr ''2026-05-23'')]"

theorem dlq_write_read_back_witness:
  "\<exists>w. db_rows (snd (dlq_insert (sample_dlq VNone odd_payload 0 None) empty_db)) = db_rows empty_db @ [w] \<and>
     row_to_record plain_lib w = Inr ((sample_dlq PNone odd_image 0 None)\<lparr>dq_storage_id := Some 1\<rparr>)"
proof -
  have "dlq_image (sample_dlq VNone odd_payload 0 None) = Inr (sample_dlq PNone odd_image 0 None)"
    by (simp add: dlq_image_def sample_dlq_def odd_payload_def odd_image_def res_bind_def key_text_def)
  moreover have "wf_db empty_db" "db_open empty_db" "lib_iso_ok plain_lib (dq_created_at (sample_dlq VNone odd_payload 0 None))"
    "db_next_id empty_db = 1"
    by (simp_all add: wf_db_def empty_db_def plain_lib_def sample_dlq_def)
  ultimately show ?thesis
    using dlq_write_read_back [of empty_db plain_lib "sample_dlq VNone odd_payload 0 None"] by auto
qed

text \<open>
  A payload with a key that \<open>json\<close> refuses is not stored at all: \<open>default=str\<close> does not reach keys.
\<close>

lemma dlq_refuses_odd_keys:
  "dlq_insert (sample_dlq VNone (VDict [(KOther, VNone)]) 0 None) empty_db =
     (Inl (mk_exn TypeErrorC ''keys must be str, int, float, bool or None''), empty_db)"
  by (simp add: dlq_insert_def record_to_row_def sample_dlq_def res_bind_def key_text_def)

text \<open>
  Acknowledging a record that was read back from the DLQ removes exactly its row, and a replay
  changes exactly its attempt counter: no other dead letter is lost or re-counted.
\<close>

theorem dlq_replay_ack_exact:
  assumes "db_open db" and "dq_storage_id r = Some i"
  shows "db_rows (snd (acknowledge r db)) = filter (\<lambda>w. rw_id w \<noteq> i) (db_rows db) \<and>
         db_rows (snd (sqlite_replay r db)) =
           map (\<lambda>w. if rw_id w = i then w\<lparr>rw_attempt := dq_attempt r + 1\<rparr> else w) (db_rows db)"
  using assms
  by (auto simp: acknowledge_def dlq_delete_def sqlite_replay_def dlq_replay_def
      update_attempt_def target_id_def Let_def comb_simps intro!: filter_cong)

theorem dlq_replay_ack_exact_witness:
  "db_rows (snd (acknowledge ((sample_dlq PNone (PStr ''a'') 0 None)\<lparr>dq_storage_id := Some 1\<rparr>)
     (snd (dlq_insert (sample_dlq VNone (VStr ''a'') 0 None) empty_db)))) = []"
  using dlq_replay_ack_exact [of "snd (dlq_insert (sample_dlq VNone (VStr ''a'') 0 None) empty_db)"
      "(sample_dlq PNone (PStr ''a'') 0 None)\<lparr>dq_storage_id := Some 1\<rparr>" 1]
  by (simp add: dlq_insert_def empty_db_def record_to_row_def sample_dlq_def res_bind_def dumps_opt_def)

text \<open>
  The replay source yields its records in the order they were dead-lettered and never yields a
  record whose attempts are used up.
\<close>

theorem dlq_stream_eligible_in_order:
  assumes "dlq_stream L q rows = Inr rs"
  shows "list_all retry_eligible rs \<and>
         (\<exists>ids. map dq_storage_id rs = map Some ids \<and> sorted ids)"
proof -
  from assms obtain all where all: "rows_to_records L (fetch_rows q rows) = Inr all"
    and rs: "rs = filter retry_eligible all"
    by (auto simp: dlq_stream_def split: sum.splits)
  have ids: "rows_to_records L ws = Inr xs \<Longrightarrow> map dq_storage_id xs = map (Some \<circ> rw_id) ws" for ws xs
    by (induction ws arbitrary: xs)
       (auto simp: row_to_record_def split: sum.splits if_splits)
  have sorted: "sorted (map rw_id (fetch_rows q rows))"
    by (auto simp: fetch_rows_def Let_def sorted_wrt_take take_map [symmetric] split: option.splits)
  have sub: "map dq_storage_id xs = map Some is \<Longrightarrow> sorted is \<Longrightarrow>
      \<exists>js. map dq_storage_id (filter P xs) = map Some js \<and> subseq js is" for P xs "is"
  proof (induction xs arbitrary: "is")
    case (Cons x xs)
    then obtain i is' where i: "is = i # is'" by (cases "is") auto
    with Cons obtain js where "map dq_storage_id (filter P xs) = map Some js" "subseq js is'"
      by fastforce
    with Cons.prems i show ?case by (intro exI [of _ "if P x then i # js else js"]) auto
  qed simp
  from ids [OF all] have "map dq_storage_id all = map Some (map rw_id (fetch_rows q rows))" by simp
  from sub [OF this sorted, of retry_eligible] rs sorted show ?thesis
    by (auto simp: list_all_iff intro: sorted_subseq)
qed

definition stored_sample :: "string \<Rightarrow> nat \<Rightarrow> int \<Rightarrow> dlq_row" where
  "stored_sample x i n = projr (record_to_row i (sample_dlq VNone (VStr x) n (Some 2)))"

lemma stored_sample_row:
  "row_to_record plain_lib (stored_sample x i n) = Inr ((sample_dlq PNone (PStr x) n (Some 2))\<lparr>dq_storage_id := Some i\<rparr>)"
  "rw_id (stored_sample x i n) = i"
  by (simp_all add: stored_sample_def sample_dlq_def record_to_row_def res_bind_def dumps_opt_def row_to_record_def
      plain_lib_def json_or_raw_def)

theorem dlq_stream_eligible_in_order_witness:
  "list_all retry_eligible [(sample_dlq PNone (PStr ''b'') 0 (Some 2))\<lparr>dq_storage_id := Some 2\<rparr>] \<and>
   (\<exists>ids. map dq_storage_id [(sample_dlq PNone (PStr ''b'') 0 (Some 2))\<lparr>dq_storage_id := Some 2\<rparr>] = map Some ids \<and>
     sorted ids)"
proof (rule dlq_stream_eligible_in_order)
  show "dlq_stream plain_lib \<lparr>ds_pipeline_id = None, ds_stage = None, ds_limit = None\<rparr>
     [stored_sample ''a'' 1 2, stored_sample ''b'' 2 0] =
     Inr [(sample_dlq PNone (PStr ''b'') 0 (Some 2))\<lparr>dq_storage_id := Some 2\<rparr>]"
    by (simp add: dlq_stream_def fetch_rows_def stored_sample_row sample_dlq_def
        retry_eligible_def)
qed

text \<open>
  The limit is applied before the attempt filter: dead letters whose attempts are used up at the
  head of the table can hide every eligible record behind them from a limited replay, so repeating
  the replay never reaches it.
\<close>

theorem dlq_limit_starves_eligible:
  "\<exists>q rows. ds_limit q = Some 1 \<and> dlq_stream plain_lib q rows = Inr [] \<and>
     (\<exists>w r. w \<in> set rows \<and> row_to_record plain_lib w = Inr r \<and> retry_eligible r)"
proof (intro exI conjI)
  let ?q = "\<lparr>ds_pipeline_id = None, ds_stage = None, ds_limit = Some 1\<rparr>"
  let ?a = "stored_sample ''a'' 1 2"
  let ?b = "stored_sample ''b'' 2 0"
  show "ds_limit ?q = Some 1" by simp
  show "dlq_stream plain_lib ?q [?a, ?b] = Inr []"
    by (simp add: dlq_stream_def fetch_rows_def stored_sample_row sample_dlq_def
        retry_eligible_def)
  show "?b \<in> set [?a, ?b]" by simp
  show "row_to_record plain_lib ?b = Inr ((sample_dlq PNone (PStr ''b'') 0 (Some 2))\<lparr>dq_storage_id := Some 2\<rparr>)"
    by (rule stored_sample_row)
  show "retry_eligible ((sample_dlq PNone (PStr ''b'') 0 (Some 2))\<lparr>dq_storage_id := Some 2\<rparr>)"
    by (simp add: retry_eligible_def sample_dlq_def)
qed

end
