(* ===== verification/Run_State.thy ===== *)
theory Run_State
  imports Dlq
begin

text \<open>
  The state of a run and its boundary with the outside: \<^verbatim>\<open>core/context/_model.py\<close> (success hooks),
  \<^verbatim>\<open>core/metrics\<close> (the counters delivery updates), \<^verbatim>\<open>core/fencing.py\<close>, \<^verbatim>\<open>core/runtime/_delivery_types.py\<close>
  and \<^verbatim>\<open>core/runtime/_writer_transport.py\<close>.

  A record is a Python object: its identity (\<open>id\<close>) and its value. Success hooks are callables, named
  by numbers; a composed hook is the list of the hooks it runs. The writer, the DLQ sink, the
  checkpoint store, the hooks, the lease validator and the clock are supplied by the application:
  they are functions over an environment state \<open>'e\<close>, fields of the engine record as they are of the
  \<open>DeliveryEngine\<close> dataclass, and each may raise. \<open>rs_trace\<close> records every call across that
  boundary with its outcome, in order; the code never reads it. Logging, tracing spans and elapsed
  times are not modelled.
\<close>

section \<open>Records, hooks, outcomes\<close>

record pyobj =
  ob_id :: nat
  ob_val :: pyval

type_synonym hook = nat

record WriteResult =
  wr_written :: bool
  wr_errors :: "exn list"

definition wr_ok :: "WriteResult \<Rightarrow> bool" where
  "wr_ok w = (wr_written w \<and> wr_errors w = [])"

record SourceRecord =
  sr_raw :: pyobj
  sr_checkpoint :: pyval
  sr_on_success :: "hook list option"

record PendingWrite =
  pw_processed :: pyobj
  pw_raw :: pyobj
  pw_checkpoint :: pyval
  pw_on_success :: "hook list option"

record MiddlewareFailure =
  mf_stage :: string
  mf_exception :: exn
  mf_record :: pyobj
  mf_middleware :: "string option"

datatype CommitOutcome =
    Written pyval "hook list option"
  | Dropped pyval "hook list option"
  | ErroredRouted pyval "hook list option"
  | ErroredUnrouted exn

datatype DLQFailurePolicy = DLQ_LOG_ONLY | DLQ_RAISE
datatype CheckpointFailurePolicy = CP_FAIL_CLOSED | CP_LOG_AND_CONTINUE
datatype SinkFailurePolicy = SINK_FAIL_CLOSED | SINK_LOG_AND_CONTINUE

section \<open>Metrics\<close>

record MiddlewareMetrics =
  mm_records_in :: int
  mm_records_out :: int
  mm_records_dropped :: int
  mm_records_errored :: int

record Metrics =
  m_records_consumed :: int
  m_by_source :: "(string \<times> int) list"
  m_by_middleware :: "(string \<times> MiddlewareMetrics) list"
  m_records_written :: int
  m_records_dropped :: int
  m_records_errored :: int
  m_last_checkpoint :: "Checkpoint option"
  m_dlq_failure_count :: int
  m_checkpoint_failure_count :: int
  m_checkpoint_save_count :: int
  m_checkpoint_save_max_batch_size :: int
  m_writer_flush_count :: int
  m_writer_flush_max_batch_size :: int
  m_failure_classification_counts :: "(string \<times> int) list"
  m_failure_alert_severity_counts :: "(string \<times> int) list"
  m_last_failure_decision :: "FailureDecision option"

definition empty_metrics :: Metrics where
  "empty_metrics = \<lparr>m_records_consumed = 0, m_by_source = [], m_by_middleware = [], m_records_written = 0, m_records_dropped = 0, m_records_errored = 0,
     m_last_checkpoint = None, m_dlq_failure_count = 0, m_checkpoint_failure_count = 0,
     m_checkpoint_save_count = 0, m_checkpoint_save_max_batch_size = 0,
     m_writer_flush_count = 0, m_writer_flush_max_batch_size = 0,
     m_failure_classification_counts = [], m_failure_alert_severity_counts = [],
     m_last_failure_decision = None\<rparr>"

definition count_up :: "string \<Rightarrow> (string \<times> int) list \<Rightarrow> (string \<times> int) list" where
  "count_up k kvs = AList.update k ((case map_of kvs k of None \<Rightarrow> 0 | Some n \<Rightarrow> n) + 1) kvs"

definition record_failure_decision :: "FailureDecision \<Rightarrow> Metrics \<Rightarrow> Metrics" where
  "record_failure_decision d m =
     m\<lparr>m_failure_classification_counts :=
         count_up (classification_value (fd_classification d)) (m_failure_classification_counts m),
       m_failure_alert_severity_counts :=
         count_up (severity_value (fd_alert_severity d)) (m_failure_alert_severity_counts m),
       m_last_failure_decision := Some d\<rparr>"

section \<open>The run state\<close>

datatype event =
    EWrite "pyobj list" "exn + WriteResult list"
  | EDlq DLQRecord bool
  | ESave Checkpoint bool
  | EHook hook bool
  | EDiscard hook

text \<open>The local accumulator of \<^verbatim>\<open>core/runtime/_hot_metrics.py\<close>.\<close>

record HotPathMetrics =
  hp_consumed :: int
  hp_written :: int
  hp_ticks :: int

record 'e rstate =
  rs_metrics :: Metrics
  rs_hooks :: "nat \<Rightarrow> (hook \<times> hook option) list"
  rs_ckpt :: CheckpointState
  rs_pending :: "PendingWrite list"
  rs_processed_count :: int
  rs_hot :: HotPathMetrics
  rs_env :: 'e
  rs_trace :: "event list"

type_synonym ('e, 'a) run = "(exn, 'e rstate, 'a) comp"

definition init_state :: "'e \<Rightarrow> 'e rstate" where
  "init_state e = \<lparr>rs_metrics = empty_metrics, rs_hooks = (\<lambda>_. []), rs_ckpt = make_checkpoint_state,
     rs_pending = [], rs_processed_count = 0,
     rs_hot = \<lparr>hp_consumed = 0, hp_written = 0, hp_ticks = 0\<rparr>, rs_env = e, rs_trace = []\<rparr>"

definition emit :: "event \<Rightarrow> ('e, unit) run" where
  "emit ev = modify (\<lambda>s. s\<lparr>rs_trace := rs_trace s @ [ev]\<rparr>)"

definition upd_metrics :: "(Metrics \<Rightarrow> Metrics) \<Rightarrow> ('e, unit) run" where
  "upd_metrics f = modify (\<lambda>s. s\<lparr>rs_metrics := f (rs_metrics s)\<rparr>)"

text \<open>A call across the boundary: it acts on the environment, and its outcome is recorded.\<close>

definition call_env ::
  "('e \<Rightarrow> (exn + 'a) \<times> 'e) \<Rightarrow> (exn + 'a \<Rightarrow> event list) \<Rightarrow> ('e, 'a) run" where
  "call_env f ev = (\<lambda>s. case f (rs_env s) of
     (r, e') \<Rightarrow> (r, s\<lparr>rs_env := e', rs_trace := rs_trace s @ ev r\<rparr>))"

section \<open>The delivery engine's fields\<close>

record 'e DeliveryEngine =
  de_pipeline_id :: string
  de_run_id :: string
  de_source_name :: string
  de_lib :: pylib
  de_now :: "'e \<Rightarrow> string"
  de_fence :: "('e \<Rightarrow> (exn + bool) \<times> 'e) option"
  de_write :: "pyobj \<Rightarrow> 'e \<Rightarrow> (exn + WriteResult) \<times> 'e"
  de_write_batch :: "pyobj list \<Rightarrow> 'e \<Rightarrow> (exn + WriteResult list) \<times> 'e"
  de_run_hook :: "hook \<Rightarrow> 'e \<Rightarrow> (exn + unit) \<times> 'e"
  de_current_checkpoint :: "'e \<Rightarrow> pyval"
  de_dlq_sink :: "(DLQRecord \<Rightarrow> 'e \<Rightarrow> (exn + unit) \<times> 'e) option"
  de_dlq_failure_policy :: DLQFailurePolicy
  de_dlq_redactor :: "(pyval \<Rightarrow> exn + pyval) option"
  de_sink_failure_policy :: SinkFailurePolicy
  de_checkpoint_store :: "(string \<Rightarrow> Checkpoint \<Rightarrow> 'e \<Rightarrow> (exn + unit) \<times> 'e) option"
  de_checkpoint_failure_policy :: CheckpointFailurePolicy
  de_checkpoint_key :: string
  de_checkpoint_every :: int
  de_checkpoint_source_identity :: "('e \<Rightarrow> exn + SourceIdentity option) option"
  de_batch_flush_interval_ms :: "int option"

section \<open>Success hooks of the context\<close>

definition register_success_hook ::
  "pyobj \<Rightarrow> hook \<Rightarrow> hook option \<Rightarrow> 'e rstate \<Rightarrow> 'e rstate" where
  "register_success_hook r h d s =
     s\<lparr>rs_hooks := (rs_hooks s)(ob_id r := rs_hooks s (ob_id r) @ [(h, d)])\<rparr>"

definition transfer_success_hooks :: "pyobj \<Rightarrow> pyobj \<Rightarrow> 'e rstate \<Rightarrow> 'e rstate" where
  "transfer_success_hooks src dst s =
     (if ob_id src = ob_id dst then s
      else
        let hooks = rs_hooks s (ob_id src);
            popped = (rs_hooks s)(ob_id src := [])
        in if hooks \<noteq> []
           then s\<lparr>rs_hooks := popped(ob_id dst := popped (ob_id dst) @ hooks)\<rparr>
           else s\<lparr>rs_hooks := popped\<rparr>)"

text \<open>The loop over the records skips an identity it has already seen.\<close>

fun pop_ids :: "nat list \<Rightarrow> nat list \<Rightarrow> (nat \<Rightarrow> 'h list) \<Rightarrow> 'h list \<times> (nat \<Rightarrow> 'h list)" where
  "pop_ids [] seen m = ([], m)"
| "pop_ids (i # is) seen m =
     (if i \<in> set seen then pop_ids is seen m
      else case pop_ids is (i # seen) (m(i := [])) of (hs, m') \<Rightarrow> (m i @ hs, m'))"

definition pop_success_hooks :: "pyobj list \<Rightarrow> ('e, hook list) run" where
  "pop_success_hooks records = (\<lambda>s.
     case pop_ids (map ob_id records) [] (rs_hooks s) of
       (entries, m) \<Rightarrow> (Inr (map fst entries), s\<lparr>rs_hooks := m\<rparr>))"

definition run_hook :: "'e DeliveryEngine \<Rightarrow> hook \<Rightarrow> ('e, unit) run" where
  "run_hook D h = call_env (de_run_hook D h) (\<lambda>r. [EHook h (isl r = False)])"

text \<open>
  \<open>discard_success_hooks\<close>: the discard callbacks run in order, and an exception of one is logged and
  swallowed (only an \<open>Exception\<close>: a cancellation still escapes).
\<close>

definition run_discard :: "'e DeliveryEngine \<Rightarrow> hook option \<Rightarrow> ('e, unit) run" where
  "run_discard D d = (case d of
       None \<Rightarrow> skip
     | Some h \<Rightarrow> catch (call_env (de_run_hook D h) (\<lambda>_. [EDiscard h]))
                   (\<lambda>e. if is_Exception e then skip else throw e))"

fun discard_ids :: "'e DeliveryEngine \<Rightarrow> nat list \<Rightarrow> nat list \<Rightarrow> ('e, unit) run" where
  "discard_ids D [] seen = ret ()"
| "discard_ids D (i # is) seen =
     (if i \<in> set seen then discard_ids D is seen
      else bind (\<lambda>s. (Inr (rs_hooks s i), s\<lparr>rs_hooks := (rs_hooks s)(i := [])\<rparr>)) (\<lambda>entries.
             bind (for_each entries (\<lambda>e. run_discard D (snd e))) (\<lambda>_.
               discard_ids D is (i # seen))))"

definition discard_success_hooks :: "'e DeliveryEngine \<Rightarrow> pyobj list \<Rightarrow> ('e, unit) run" where
  "discard_success_hooks D records = discard_ids D (map ob_id records) []"

section \<open>The run fence\<close>

text \<open>
  \<open>PipelineError.__str__\<close> appends the context to the message. A field that is \<open>None\<close> or empty is left
  out; \<open>py_repr\<close> is the text of Python's \<open>repr\<close>.
\<close>

definition py_repr :: "pylib \<Rightarrow> pyval \<Rightarrow> string" where
  "py_repr L v = (case v of PStr s \<Rightarrow> lib_repr L v | _ \<Rightarrow> py_str L v)"

definition context_part :: "pylib \<Rightarrow> string \<Rightarrow> string option \<Rightarrow> string list" where
  "context_part L name x = (case x of
       None \<Rightarrow> []
     | Some v \<Rightarrow> if v = [] then [] else [name @ ''='' @ py_repr L (PStr v)])"

definition context_parts :: "pylib \<Rightarrow> error_context \<Rightarrow> string list" where
  "context_parts L c =
     context_part L ''pipeline'' (ec_pipeline_id c) @ context_part L ''run'' (ec_run_id c) @
     context_part L ''stage'' (ec_stage c) @ context_part L ''source'' (ec_source_name c) @
     context_part L ''sink'' (ec_sink_name c) @
     (if ec_checkpoint c \<noteq> PNone then [''checkpoint='' @ py_repr L (ec_checkpoint c)] else [])"

fun join_parts :: "string list \<Rightarrow> string" where
  "join_parts [] = []"
| "join_parts [p] = p"
| "join_parts (p # ps) = p @ '', '' @ join_parts ps"

definition pipeline_error_str :: "pylib \<Rightarrow> error_context \<Rightarrow> string" where
  "pipeline_error_str L c = (let parts = context_parts L c in
     if parts = [] then ec_message c else ec_message c @ '' ['' @ join_parts parts @ '']'')"

definition mk_pipeline_error :: "pylib \<Rightarrow> exn_class \<Rightarrow> error_context \<Rightarrow> exn" where
  "mk_pipeline_error L cls c = Exn cls (pipeline_error_str L c) None None PNone True None c None"

definition FenceLostError :: "'e DeliveryEngine \<Rightarrow> exn" where
  "FenceLostError D = mk_pipeline_error (de_lib D) FenceLostErrorC
     ((plain_context ''Pipeline run lost its distributed lease fence before a side effect.'')
        \<lparr>ec_pipeline_id := Some (de_pipeline_id D), ec_stage := Some ''fencing''\<rparr>)"

definition assert_run_fence_active :: "'e DeliveryEngine \<Rightarrow> ('e, unit) run" where
  "assert_run_fence_active D = (case de_fence D of
       None \<Rightarrow> skip
     | Some validate \<Rightarrow>
         bind (call_env validate (\<lambda>_. [])) (\<lambda>ok. if ok then skip else throw (FenceLostError D)))"

section \<open>WriterTransport\<close>

definition record_flush_metrics :: "int \<Rightarrow> Metrics \<Rightarrow> Metrics" where
  "record_flush_metrics n m =
     m\<lparr>m_writer_flush_count := m_writer_flush_count m + 1,
       m_writer_flush_max_batch_size := max (m_writer_flush_max_batch_size m) n\<rparr>"

definition write_one :: "'e DeliveryEngine \<Rightarrow> pyobj \<Rightarrow> ('e, WriteResult) run" where
  "write_one D r =
     bind (assert_run_fence_active D) (\<lambda>_.
       bind (call_env (de_write D r) (\<lambda>x. [EWrite [r] (map_sum id (\<lambda>w. [w]) x)])) (\<lambda>w.
         bind (upd_metrics (record_flush_metrics 1)) (\<lambda>_. ret w)))"

definition write_batch :: "'e DeliveryEngine \<Rightarrow> pyobj list \<Rightarrow> ('e, WriteResult list) run" where
  "write_batch D rs =
     bind (assert_run_fence_active D) (\<lambda>_.
       bind (call_env (de_write_batch D rs) (\<lambda>x. [EWrite rs x])) (\<lambda>ws.
         bind (upd_metrics (record_flush_metrics (int (length rs)))) (\<lambda>_. ret ws)))"

section \<open>What a step adds to the trace\<close>

text \<open>
  The operations below the pending-write queue move the state along \<open>emits P\<close>: they append events
  that satisfy \<open>P\<close>, and leave the queue alone.
\<close>

definition emits :: "(event \<Rightarrow> bool) \<Rightarrow> 'e rstate \<Rightarrow> 'e rstate \<Rightarrow> bool" where
  "emits P s t \<longleftrightarrow> rs_pending t = rs_pending s \<and> (\<exists>ev. rs_trace t = rs_trace s @ ev \<and> list_all P ev)"

interpretation em: step_order "emits P" for P
proof
  show "emits P s s" for s by (simp add: emits_def)
  show "emits P s u" if "emits P s t" "emits P t u" for s t u
    using that by (fastforce simp: emits_def)
qed

definition is_write :: "event \<Rightarrow> bool" where
  "is_write e = (case e of EWrite _ _ \<Rightarrow> True | _ \<Rightarrow> False)"
definition is_dlq :: "event \<Rightarrow> bool" where
  "is_dlq e = (case e of EDlq _ _ \<Rightarrow> True | _ \<Rightarrow> False)"
definition is_save :: "event \<Rightarrow> bool" where
  "is_save e = (case e of ESave _ _ \<Rightarrow> True | _ \<Rightarrow> False)"
definition is_hook :: "event \<Rightarrow> bool" where
  "is_hook e = (case e of EHook _ _ \<Rightarrow> True | _ \<Rightarrow> False)"
definition is_discard :: "event \<Rightarrow> bool" where
  "is_discard e = (case e of EDiscard _ \<Rightarrow> True | _ \<Rightarrow> False)"

lemma is_event_simps [simp]:
  "is_write (EWrite a x)" "\<not> is_write (EDlq d b)" "\<not> is_write (ESave c b)" "\<not> is_write (EHook h b)" "\<not> is_write (EDiscard h)"
  "\<not> is_dlq (EWrite a x)" "is_dlq (EDlq d b)" "\<not> is_dlq (ESave c b)" "\<not> is_dlq (EHook h b)" "\<not> is_dlq (EDiscard h)"
  "\<not> is_save (EWrite a x)" "\<not> is_save (EDlq d b)" "is_save (ESave c b)" "\<not> is_save (EHook h b)" "\<not> is_save (EDiscard h)"
  "\<not> is_hook (EWrite a x)" "\<not> is_hook (EDlq d b)" "\<not> is_hook (ESave c b)" "is_hook (EHook h b)" "\<not> is_hook (EDiscard h)"
  "\<not> is_discard (EWrite a x)" "\<not> is_discard (EDlq d b)" "\<not> is_discard (ESave c b)" "\<not> is_discard (EHook h b)" "is_discard (EDiscard h)"
  by (simp_all add: is_write_def is_dlq_def is_save_def is_hook_def is_discard_def)

lemma call_env_eq:
  "call_env f ev s = (r, t) \<longleftrightarrow>
     (\<exists>e'. f (rs_env s) = (r, e') \<and> t = s\<lparr>rs_env := e', rs_trace := rs_trace s @ ev r\<rparr>)"
  by (auto simp: call_env_def split: prod.splits)

lemma emits_mono: "steps_in (emits P) m \<Longrightarrow> (\<And>e. P e \<Longrightarrow> Q e) \<Longrightarrow> steps_in (emits Q) m"
  by (fastforce simp: steps_in_def emits_def list_all_iff)

lemma call_env_emits [steps_intro]:
  "(\<And>r. list_all P (ev r)) \<Longrightarrow> steps_in (emits P) (call_env f ev)"
  by (auto simp: steps_in_def call_env_def emits_def split: prod.splits)

lemma emit_emits [steps_intro]: "P ev \<Longrightarrow> steps_in (emits P) (emit ev)"
  by (simp add: steps_in_def emit_def modify_def emits_def)

lemma upd_metrics_emits [steps_intro]: "steps_in (emits P) (upd_metrics f)"
  by (simp add: steps_in_def upd_metrics_def modify_def emits_def)

lemma pop_hooks_emits [steps_intro]: "steps_in (emits P) (pop_success_hooks rs)"
  by (simp add: steps_in_def pop_success_hooks_def emits_def split: prod.splits)

lemma run_hook_emits [steps_intro]:
  "(\<And>b. P (EHook h b)) \<Longrightarrow> steps_in (emits P) (run_hook D h)"
  unfolding run_hook_def by (intro steps_intro) simp

lemma run_discard_emits [steps_intro]:
  "(\<And>h. P (EDiscard h)) \<Longrightarrow> steps_in (emits P) (run_discard D d)"
  unfolding run_discard_def
  by (cases d) (auto intro!: steps_intro)

lemma discard_ids_emits:
  assumes "\<And>h. P (EDiscard h)"
  shows "steps_in (emits P) (discard_ids D is seen)"
proof (induction "is" arbitrary: seen)
  case Nil
  show ?case by (auto intro: steps_intro)
next
  case (Cons i "is")
  have pop: "steps_in (emits P)
      (\<lambda>s :: 'a rstate. (Inr (rs_hooks s i) :: exn + _, s\<lparr>rs_hooks := (rs_hooks s)(i := [])\<rparr>))"
    by (simp add: steps_in_def emits_def)
  show ?case using Cons.IH assms by (auto intro!: steps_intro pop)
qed

lemma discard_emits [steps_intro]:
  "(\<And>h. P (EDiscard h)) \<Longrightarrow> steps_in (emits P) (discard_success_hooks D rs)"
  unfolding discard_success_hooks_def by (rule discard_ids_emits)

lemma fence_emits [steps_intro]: "steps_in (emits P) (assert_run_fence_active D)"
  unfolding assert_run_fence_active_def
  by (cases "de_fence D") (auto intro!: steps_intro split: if_splits)

lemma write_one_emits [steps_intro]:
  "(\<And>x. P (EWrite [r] x)) \<Longrightarrow> steps_in (emits P) (write_one D r)"
  unfolding write_one_def by (intro steps_intro) simp

lemma write_batch_emits [steps_intro]:
  "(\<And>x. P (EWrite rs x)) \<Longrightarrow> steps_in (emits P) (write_batch D rs)"
  unfolding write_batch_def by (intro steps_intro) simp

end
