(* ===== verification/Delivery_Support.thy ===== *)
theory Delivery_Support
  imports Run_State
begin

text \<open>
  \<^verbatim>\<open>core/runtime/_delivery_support.py\<close>: \<open>DLQWriter\<close> and \<open>CheckpointManager\<close>, the two components through
  which the delivery engine reaches the dead-letter queue and the checkpoint store.
\<close>

definition lift_sum :: "exn + 'a \<Rightarrow> ('e, 'a) run" where
  "lift_sum x = (case x of Inl e \<Rightarrow> throw e | Inr v \<Rightarrow> ret v)"

section \<open>DLQWriter\<close>

definition redact :: "'e DeliveryEngine \<Rightarrow> pyval \<Rightarrow> ('e, pyval) run" where
  "redact D v = (case de_dlq_redactor D of None \<Rightarrow> ret v | Some f \<Rightarrow> lift_sum (f v))"

definition merge_failure_details :: "pyval \<Rightarrow> pyval \<Rightarrow> pyval" where
  "merge_failure_details decision existing =
     (case existing of
        PDict kvs \<Rightarrow> PDict (AList.update ''failure'' decision kvs)
      | PNone \<Rightarrow> PDict [(''failure'', decision)]
      | _ \<Rightarrow> PDict [(''failure'', decision), (''provider_details'', existing)])"

text \<open>The arguments that \<open>DLQWriter.write\<close> takes by keyword; an absent record is \<open>None\<close>.\<close>

record dlq_args =
  da_record :: "pyobj option"
  da_original :: "pyobj option"
  da_processed :: "pyobj option"
  da_source :: "string option"
  da_checkpoint :: pyval
  da_middleware :: "string option"
  da_sink :: "string option"

definition opt_val :: "pyobj option \<Rightarrow> pyval" where
  "opt_val x = (case x of None \<Rightarrow> PNone | Some r \<Rightarrow> ob_val r)"

definition or_name :: "string option \<Rightarrow> string \<Rightarrow> string" where
  "or_name x d = (case x of None \<Rightarrow> d | Some n \<Rightarrow> if n = [] then d else n)"

text \<open>The \<open>DLQRecord(...)\<close> expression: its arguments are redacted in the order they are written.\<close>

definition build_dlq_record ::
  "'e DeliveryEngine \<Rightarrow> string \<Rightarrow> exn \<Rightarrow> dlq_args \<Rightarrow> ('e, DLQRecord) run" where
  "build_dlq_record D stage exc a =
     bind (redact D (PStr (emsg exc))) (\<lambda>msg.
     bind (redact D (case da_original a of
              Some r \<Rightarrow> ob_val r
            | None \<Rightarrow> (case da_record a of Some r \<Rightarrow> ob_val r | None \<Rightarrow> opt_val (da_processed a)))) (\<lambda>rec.
     bind get_state (\<lambda>s.
     bind (redact D (if da_checkpoint a \<noteq> PNone then da_checkpoint a
                     else de_current_checkpoint D (rs_env s))) (\<lambda>ck.
     bind (redact D (merge_failure_details (decision_to_dict (classify_failure exc))
                       (edlq_details exc))) (\<lambda>details.
     bind (redact D (opt_val (da_original a))) (\<lambda>orig.
     bind (redact D (opt_val (da_processed a))) (\<lambda>proc.
       ret \<lparr>dq_pipeline_id = de_pipeline_id D, dq_run_id = de_run_id D, dq_stage = stage,
            dq_error_type = class_name (ecls exc), dq_error_message = py_str (de_lib D) msg,
            dq_record = rec, dq_source = Some (or_name (da_source a) (de_source_name D)),
            dq_checkpoint = ck, dq_details = details, dq_middleware = da_middleware a,
            dq_sink = da_sink a, dq_created_at = de_now D (rs_env s), dq_attempt = 0,
            dq_max_attempts = None, dq_original_record = orig, dq_processed_record = proc,
            dq_storage_id = None\<rparr>)))))))"

text \<open>The body of the \<open>try\<close> of \<open>write\<close>: the fence, the record, the sink.\<close>

definition dlq_try ::
  "'e DeliveryEngine \<Rightarrow> string \<Rightarrow> exn \<Rightarrow> dlq_args \<Rightarrow>
     (DLQRecord \<Rightarrow> 'e \<Rightarrow> (exn + unit) \<times> 'e) \<Rightarrow> ('e, unit) run" where
  "dlq_try D stage exc a sink_write =
     bind (assert_run_fence_active D) (\<lambda>_.
     bind (build_dlq_record D stage exc a) (\<lambda>rec.
       call_env (sink_write rec) (\<lambda>r. [EDlq rec (\<not> isl r)])))"

definition dlq_write :: "'e DeliveryEngine \<Rightarrow> string \<Rightarrow> exn \<Rightarrow> dlq_args \<Rightarrow> ('e, bool) run" where
  "dlq_write D stage exc a =
     (let decision = classify_failure exc in
      bind (upd_metrics (record_failure_decision decision)) (\<lambda>_.
        case de_dlq_sink D of
          None \<Rightarrow> ret False
        | Some sink_write \<Rightarrow>
            if \<not> fd_dlq_eligible decision then ret False
            else
              bind (attempt (dlq_try D stage exc a sink_write)) (\<lambda>r.
              case r of
                Inr _ \<Rightarrow> ret True
              | Inl e \<Rightarrow>
                  if \<not> is_Exception e then throw e
                  else
                    bind (upd_metrics (\<lambda>m. m\<lparr>m_dlq_failure_count := m_dlq_failure_count m + 1\<rparr>)) (\<lambda>_.
                      if de_dlq_failure_policy D = DLQ_RAISE then throw e else ret False))))"

section \<open>CheckpointManager\<close>

definition upd_ckpt :: "(CheckpointState \<Rightarrow> CheckpointState) \<Rightarrow> ('e, unit) run" where
  "upd_ckpt f = modify (\<lambda>s. s\<lparr>rs_ckpt := f (rs_ckpt s)\<rparr>)"

definition current_identity :: "'e DeliveryEngine \<Rightarrow> ('e, SourceIdentity option) run" where
  "current_identity D = (case de_checkpoint_source_identity D of
       None \<Rightarrow> ret None
     | Some f \<Rightarrow> bind get_state (\<lambda>s. lift_sum (f (rs_env s))))"

definition mk_checkpoint :: "'e DeliveryEngine \<Rightarrow> pyval \<Rightarrow> ('e, Checkpoint) run" where
  "mk_checkpoint D v =
     bind (current_identity D) (\<lambda>ident.
     bind get_state (\<lambda>s.
       ret \<lparr>cp_pipeline_id = de_pipeline_id D, cp_run_id = de_run_id D,
            cp_source = de_source_name D, cp_value = v,
            cp_recorded_at = de_now D (rs_env s), cp_source_identity = ident\<rparr>))"

definition prepare_checkpoint :: "'e DeliveryEngine \<Rightarrow> pyval \<Rightarrow> ('e, Checkpoint option) run" where
  "prepare_checkpoint D v =
     (if de_checkpoint_store D = None \<or> v = PNone then ret None
      else
        bind (upd_ckpt cs_increment) (\<lambda>_.
        bind get_state (\<lambda>s.
          if \<not> cs_should_save v (de_checkpoint_every D) (rs_ckpt s) then ret None
          else bind (mk_checkpoint D v) (\<lambda>c. ret (Some c)))))"

definition persist_checkpoint :: "'e DeliveryEngine \<Rightarrow> Checkpoint \<Rightarrow> int \<Rightarrow> ('e, unit) run" where
  "persist_checkpoint D c batch_size =
     bind (attempt
       (bind (assert_run_fence_active D) (\<lambda>_.
          case de_checkpoint_store D of
            None \<Rightarrow> throw (mk_exn RuntimeErrorC ''checkpoint_store is None'')
          | Some save \<Rightarrow> call_env (save (de_checkpoint_key D) c) (\<lambda>r. [ESave c (\<not> isl r)])))) (\<lambda>r.
     case r of
       Inl e \<Rightarrow>
         if \<not> is_Exception e then throw e
         else
           bind (upd_metrics (\<lambda>m. m\<lparr>m_checkpoint_failure_count := m_checkpoint_failure_count m + 1\<rparr>)) (\<lambda>_.
             if de_checkpoint_failure_policy D = CP_LOG_AND_CONTINUE
             then upd_ckpt (cs_mark_saved (cp_value c))
             else throw (CheckpointSaveError e))
     | Inr _ \<Rightarrow>
         bind (upd_ckpt (cs_mark_saved (cp_value c))) (\<lambda>_.
           upd_metrics (\<lambda>m. m\<lparr>m_last_checkpoint := Some c,
             m_checkpoint_save_count := m_checkpoint_save_count m + 1,
             m_checkpoint_save_max_batch_size := max (m_checkpoint_save_max_batch_size m) batch_size\<rparr>)))"

definition save_checkpoint :: "'e DeliveryEngine \<Rightarrow> pyval \<Rightarrow> ('e, unit) run" where
  "save_checkpoint D v =
     bind (prepare_checkpoint D v) (\<lambda>c. case c of
        None \<Rightarrow> skip | Some c \<Rightarrow> persist_checkpoint D c 1)"

definition save_batch_checkpoint :: "'e DeliveryEngine \<Rightarrow> pyval \<Rightarrow> int \<Rightarrow> ('e, unit) run" where
  "save_batch_checkpoint D v batch_size =
     (if de_checkpoint_store D = None \<or> v = PNone \<or> batch_size \<le> 0 then skip
      else
        bind (upd_ckpt (cs_increment_by batch_size)) (\<lambda>_.
        bind get_state (\<lambda>s.
          if \<not> cs_should_save v (de_checkpoint_every D) (rs_ckpt s) then skip
          else bind (mk_checkpoint D v) (\<lambda>c. persist_checkpoint D c batch_size))))"

section \<open>What they add to the trace\<close>

lemma lift_sum_emits [steps_intro]: "steps_in (emits P) (lift_sum x)"
  by (cases x) (auto simp: lift_sum_def intro: steps_intro)

lemma redact_emits [steps_intro]: "steps_in (emits P) (redact D v)"
  unfolding redact_def by (cases "de_dlq_redactor D") (auto intro: steps_intro)

lemma upd_ckpt_emits [steps_intro]: "steps_in (emits P) (upd_ckpt f)"
  by (simp add: steps_in_def upd_ckpt_def modify_def emits_def)

lemma build_dlq_record_emits [steps_intro]: "steps_in (emits P) (build_dlq_record D stage exc a)"
  unfolding build_dlq_record_def by (intro steps_intro)

lemma dlq_write_emits [steps_intro]:
  "(\<And>r b. P (EDlq r b)) \<Longrightarrow> steps_in (emits P) (dlq_write D stage exc a)"
  unfolding dlq_write_def dlq_try_def Let_def
  by (cases "de_dlq_sink D") (auto intro!: steps_intro split: sum.split)

lemma current_identity_emits [steps_intro]: "steps_in (emits P) (current_identity D)"
  unfolding current_identity_def
  by (cases "de_checkpoint_source_identity D") (auto intro!: steps_intro)

lemma mk_checkpoint_emits [steps_intro]: "steps_in (emits P) (mk_checkpoint D v)"
  unfolding mk_checkpoint_def by (intro steps_intro)

lemma prepare_emits [steps_intro]: "steps_in (emits P) (prepare_checkpoint D v)"
  unfolding prepare_checkpoint_def by (auto intro!: steps_intro)

lemma persist_emits [steps_intro]:
  "(\<And>b. P (ESave c b)) \<Longrightarrow> steps_in (emits P) (persist_checkpoint D c n)"
  unfolding persist_checkpoint_def
  by (cases "de_checkpoint_store D") (auto intro!: steps_intro split: sum.split)

lemma mk_checkpoint_value: "mk_checkpoint D v s = (Inr c, t) \<Longrightarrow> cp_value c = v"
  by (auto simp: mk_checkpoint_def comb_simps split: prod.splits sum.splits)

lemma prepare_value: "prepare_checkpoint D v s = (Inr (Some c), t) \<Longrightarrow> cp_value c = v"
  by (auto simp: prepare_checkpoint_def bind_eq_Inr ret_def dest: mk_checkpoint_value
      split: if_splits)

lemma steps_in_bind_value:
  assumes "steps_in (emits P) m" and "\<And>s x t. m s = (Inr x, t) \<Longrightarrow> steps_in (emits P) (f x)"
  shows "steps_in (emits P) (bind m f)"
proof (unfold steps_in_def, intro allI)
  fix s
  obtain r t where m: "m s = (r, t)" by (cases "m s")
  show "emits P s (snd (bind m f s))"
  proof (cases r)
    case (Inl e)
    with m assms(1) show ?thesis by (auto simp: bind_def dest: steps_inD)
  next
    case (Inr x)
    have "emits P s t" using assms(1) m by (rule steps_inD)
    moreover have "emits P t (snd (f x t))" using assms(2) m Inr by (simp add: steps_in_def)
    ultimately have "emits P s (snd (f x t))" by (rule em.R_trans)
    with m Inr show ?thesis by (simp add: bind_def)
  qed
qed

text \<open>Every checkpoint that a save hands to the store carries the value it was asked to save.\<close>

lemma save_checkpoint_emits [steps_intro]:
  assumes "\<And>c b. cp_value c = v \<Longrightarrow> P (ESave c b)"
  shows "steps_in (emits P) (save_checkpoint D v)"
  unfolding save_checkpoint_def
proof (rule steps_in_bind_value)
  show "steps_in (emits P) (prepare_checkpoint D v)" by (rule prepare_emits)
  fix s c t assume "prepare_checkpoint D v s = (Inr c, t)"
  with assms show "steps_in (emits P) (case c of None \<Rightarrow> skip | Some c \<Rightarrow> persist_checkpoint D c 1)"
    by (cases c) (auto intro!: steps_intro dest: prepare_value)
qed

lemma save_batch_checkpoint_emits [steps_intro]:
  assumes "\<And>c b. cp_value c = v \<Longrightarrow> P (ESave c b)"
  shows "steps_in (emits P) (save_batch_checkpoint D v n)"
proof -
  have "steps_in (emits P) (bind (mk_checkpoint D v) (\<lambda>c. persist_checkpoint D c n))"
    by (rule steps_in_bind_value) (auto intro!: steps_intro assms dest: mk_checkpoint_value)
  then show ?thesis unfolding save_batch_checkpoint_def by (auto intro!: steps_intro)
qed

section \<open>Results\<close>

text \<open>
  What \<open>DLQWriter.write\<close> reports is what the DLQ sink was told: \<open>True\<close> exactly when one record was
  written, and the record is the one described by the arguments.
\<close>

lemma build_dlq_record_Inr:
  assumes "build_dlq_record D stage exc a s = (Inr rec, t)"
  shows "t = s \<and> dq_stage rec = stage \<and> dq_error_type rec = class_name (ecls exc) \<and>
     (de_dlq_redactor D = None \<longrightarrow>
        dq_original_record rec = opt_val (da_original a) \<and>
        dq_processed_record rec = opt_val (da_processed a))"
  using assms
  by (auto simp: build_dlq_record_def bind_eq_Inr redact_def lift_sum_def get_state_def ret_def
      throw_def split: option.splits sum.splits)

lemma fence_trace: "rs_trace (snd (assert_run_fence_active D s)) = rs_trace s"
  by (auto simp: assert_run_fence_active_def comb_simps call_env_def FenceLostError_def
      split: option.splits prod.splits sum.splits)

lemma fence_trace': "assert_run_fence_active D s = (r, t) \<Longrightarrow> rs_trace t = rs_trace s"
  using fence_trace [of D s] by simp

lemma build_trace: "build_dlq_record D stage exc a s = (r, t) \<Longrightarrow> rs_trace t = rs_trace s"
  using build_dlq_record_emits [of "\<lambda>_. False" D stage exc a]
  by (auto dest!: steps_inD simp: emits_def list_all_iff)

lemma dlq_try_Inr:
  assumes "dlq_try D stage exc a w s = (Inr (), u)"
  shows "\<exists>rec. rs_trace u = rs_trace s @ [EDlq rec True] \<and> dq_stage rec = stage \<and>
      (de_dlq_redactor D = None \<longrightarrow> dq_original_record rec = opt_val (da_original a) \<and>
         dq_processed_record rec = opt_val (da_processed a))"
proof -
  from assms obtain v rec x where "assert_run_fence_active D s = (Inr (), v)"
    and rec: "build_dlq_record D stage exc a v = (Inr rec, x)"
    and call: "call_env (w rec) (\<lambda>r. [EDlq rec (\<not> isl r)]) x = (Inr (), u)"
    by (auto simp: dlq_try_def bind_eq_Inr)
  moreover have "rs_trace u = rs_trace x @ [EDlq rec True]"
    using call by (auto simp: call_env_eq)
  ultimately show ?thesis
    using build_dlq_record_Inr [OF rec] by (auto dest!: fence_trace')
qed

lemma dlq_try_Inl:
  assumes "dlq_try D stage exc a w s = (Inl e, u)"
  shows "rs_trace u = rs_trace s \<or> (\<exists>rec. rs_trace u = rs_trace s @ [EDlq rec False])"
  using assms
  by (auto simp: dlq_try_def bind_eq_Inl bind_eq_Inr call_env_eq dest!: fence_trace' build_trace)

lemma dlq_write_Inr:
  assumes "dlq_write D stage exc a s = (Inr ok, t)"
  shows "if ok then \<exists>rec. rs_trace t = rs_trace s @ [EDlq rec True] \<and> dq_stage rec = stage \<and>
                (de_dlq_redactor D = None \<longrightarrow>
                   dq_original_record rec = opt_val (da_original a) \<and>
                   dq_processed_record rec = opt_val (da_processed a))
         else rs_trace t = rs_trace s \<or> (\<exists>rec. rs_trace t = rs_trace s @ [EDlq rec False])"
proof (cases "de_dlq_sink D = None \<or> \<not> fd_dlq_eligible (classify_failure exc)")
  case True
  then show ?thesis using assms
    by (auto simp: dlq_write_def Let_def upd_metrics_def comb_simps split: option.splits)
next
  case False
  then obtain w where w: "de_dlq_sink D = Some w" by auto
  let ?s = "s\<lparr>rs_metrics := record_failure_decision (classify_failure exc) (rs_metrics s)\<rparr>"
  obtain r u where run: "dlq_try D stage exc a w ?s = (r, u)" by (cases "dlq_try D stage exc a w ?s")
  show ?thesis
  proof (cases r)
    case (Inl e)
    with run False w assms show ?thesis
      by (auto simp: dlq_write_def Let_def upd_metrics_def comb_simps dest!: dlq_try_Inl
          split: if_splits)
  next
    case (Inr x)
    with run False w assms show ?thesis
      by (auto simp: dlq_write_def Let_def upd_metrics_def comb_simps dest!: dlq_try_Inr)
  qed
qed

text \<open>A stored checkpoint is one event; a fence that fails before the store is none.\<close>

lemma persist_trace:
  assumes "persist_checkpoint D c n s = (r, t)"
  shows "\<exists>sv. rs_trace t = rs_trace s @ sv \<and> (sv = [] \<or> (\<exists>b. sv = [ESave c b]))"
proof -
  let ?body = "bind (assert_run_fence_active D) (\<lambda>_.
          case de_checkpoint_store D of
            None \<Rightarrow> throw (mk_exn RuntimeErrorC ''checkpoint_store is None'')
          | Some save \<Rightarrow> call_env (save (de_checkpoint_key D) c) (\<lambda>r. [ESave c (\<not> isl r)]))"
  obtain x u where run: "?body s = (x, u)" by (cases "?body s")
  have tr: "\<exists>sv. rs_trace u = rs_trace s @ sv \<and> (sv = [] \<or> (\<exists>b. sv = [ESave c b]))"
  proof (cases x)
    case (Inl e)
    then show ?thesis using run
      by (auto simp: bind_eq_Inl call_env_eq throw_def split: option.splits dest!: fence_trace')
  next
    case (Inr y)
    then show ?thesis using run
      by (auto simp: bind_eq_Inr call_env_eq throw_def split: option.splits dest!: fence_trace')
  qed
  have "rs_trace t = rs_trace u"
    using assms run
    by (auto simp: persist_checkpoint_def bind_def attempt_def upd_metrics_def upd_ckpt_def modify_def
        throw_def split: sum.splits if_splits)
  with tr show ?thesis by simp
qed

end
