(* ===== verification/Delivery.thy ===== *)
theory Delivery
  imports Delivery_Support
begin

text \<open>
  \<^verbatim>\<open>core/runtime/_delivery.py\<close>, \<^verbatim>\<open>_delivery_results.py\<close> and \<^verbatim>\<open>_delivery_batching.py\<close>: what becomes of one
  processed record, and of a batch of them. The order of the side effects is the point of this
  code: a record is first settled (written, dead-lettered or dropped), only then may its checkpoint
  be stored, and only then do its success hooks run.

  Records are objects other than \<open>None\<close>. The background owner of the pending writes, which exists only
  when \<open>batch_flush_interval_ms\<close> is set, is modelled in its own theory; here
  \<open>pending_write_owner_task\<close> is \<open>None\<close>.
\<close>

section \<open>Success hooks\<close>

definition success_hook_for ::
  "pyobj \<Rightarrow> pyobj option \<Rightarrow> hook list option \<Rightarrow> ('e, hook list option) run" where
  "success_hook_for raw processed on_success =
     bind (pop_success_hooks (case processed of None \<Rightarrow> [raw] | Some p \<Rightarrow> [raw, p])) (\<lambda>popped.
       ret (case on_success of
              Some hs \<Rightarrow> Some (hs @ popped)
            | None \<Rightarrow> if popped = [] then None else Some popped))"

definition run_on_success :: "'e DeliveryEngine \<Rightarrow> hook list option \<Rightarrow> ('e, unit) run" where
  "run_on_success D on_success = (case on_success of
     None \<Rightarrow> skip | Some hs \<Rightarrow> for_each hs (run_hook D))"

section \<open>One record\<close>

definition incr_written :: "int \<Rightarrow> ('e, unit) run" where
  "incr_written n = upd_metrics (\<lambda>m. m\<lparr>m_records_written := m_records_written m + n\<rparr>)"
definition incr_dropped :: "int \<Rightarrow> ('e, unit) run" where
  "incr_dropped n = upd_metrics (\<lambda>m. m\<lparr>m_records_dropped := m_records_dropped m + n\<rparr>)"
definition incr_errored :: "int \<Rightarrow> ('e, unit) run" where
  "incr_errored n = upd_metrics (\<lambda>m. m\<lparr>m_records_errored := m_records_errored m + n\<rparr>)"

definition failure_dlq_args :: "MiddlewareFailure \<Rightarrow> pyval \<Rightarrow> dlq_args" where
  "failure_dlq_args f v = \<lparr>da_record = Some (mf_record f), da_original = Some (mf_record f),
     da_processed = None, da_source = None, da_checkpoint = v, da_middleware = mf_middleware f,
     da_sink = None\<rparr>"

definition sink_dlq_args :: "pyobj \<Rightarrow> pyobj \<Rightarrow> pyval \<Rightarrow> dlq_args" where
  "sink_dlq_args raw processed v = \<lparr>da_record = Some raw, da_original = Some raw,
     da_processed = Some processed, da_source = None, da_checkpoint = v, da_middleware = None,
     da_sink = None\<rparr>"

definition sink_dlq :: "'e DeliveryEngine \<Rightarrow> exn \<Rightarrow> pyobj \<Rightarrow> pyobj \<Rightarrow> pyval \<Rightarrow> ('e, bool) run" where
  "sink_dlq D e raw processed v = dlq_write D ''sink_write'' e (sink_dlq_args raw processed v)"

text \<open>
  \<open>drop_record\<close>. Settling a failed record returns whether the record may be checkpointed: it may
  not when there is a dead-letter queue and the record did not reach it.
\<close>

definition drop_failure :: "'e DeliveryEngine \<Rightarrow> pyval \<Rightarrow> MiddlewareFailure \<Rightarrow> ('e, bool) run" where
  "drop_failure D v f =
     bind (dlq_write D (mf_stage f) (mf_exception f) (failure_dlq_args f v)) (\<lambda>routed.
     bind (incr_errored 1) (\<lambda>_.
       if de_dlq_sink D \<noteq> None \<and> \<not> routed then
         bind (discard_success_hooks D [mf_record f]) (\<lambda>_.
           if de_checkpoint_store D \<noteq> None \<and> v \<noteq> PNone
           then throw (RecordDeliveryError (mf_exception f))
           else ret False)
       else ret True))"

definition drop_record ::
  "'e DeliveryEngine \<Rightarrow> pyval \<Rightarrow> MiddlewareFailure option \<Rightarrow> hook list option \<Rightarrow> pyobj option \<Rightarrow>
     ('e, unit) run" where
  "drop_record D v failure on_success hook_record =
     bind (case hook_record of
             Some r \<Rightarrow> success_hook_for r None on_success
           | None \<Rightarrow> (case failure of
                Some f \<Rightarrow> success_hook_for (mf_record f) None on_success
              | None \<Rightarrow> ret on_success)) (\<lambda>on_success'.
     bind (case failure of
             Some f \<Rightarrow> drop_failure D v f
           | None \<Rightarrow> bind (incr_dropped 1) (\<lambda>_. ret True)) (\<lambda>settled.
       if settled then bind (save_checkpoint D v) (\<lambda>_. run_on_success D on_success')
       else skip))"

text \<open>\<open>resolve_write_result\<close>: the errors go to the dead-letter queue one by one.\<close>

definition route_errors ::
  "'e DeliveryEngine \<Rightarrow> pyobj \<Rightarrow> pyobj \<Rightarrow> pyval \<Rightarrow> exn list \<Rightarrow> ('e, bool) run" where
  "route_errors D raw processed v errs =
     fold_m (\<lambda>e routed_all. bind (sink_dlq D e raw processed v) (\<lambda>routed.
       ret (routed_all \<and> routed))) errs True"

definition resolve_write_result ::
  "'e DeliveryEngine \<Rightarrow> WriteResult \<Rightarrow> pyobj \<Rightarrow> pyobj \<Rightarrow> pyval \<Rightarrow> hook list option \<Rightarrow>
     ('e, CommitOutcome) run" where
  "resolve_write_result D w raw processed v on_success =
     (if wr_errors w \<noteq> [] then
        bind (route_errors D raw processed v (wr_errors w)) (\<lambda>routed_all.
        bind (incr_errored 1) (\<lambda>_.
        bind (if wr_written w then incr_written 1 else skip) (\<lambda>_.
          if routed_all \<or> de_sink_failure_policy D = SINK_LOG_AND_CONTINUE
          then ret (ErroredRouted v (if wr_written w \<or> routed_all then on_success else None))
          else ret (ErroredUnrouted (hd (wr_errors w))))))
      else if \<not> wr_written w then
        bind (incr_dropped 1) (\<lambda>_. ret (Dropped v on_success))
      else
        bind (incr_written 1) (\<lambda>_. ret (Written v on_success)))"

definition engine_resolve_write_result ::
  "'e DeliveryEngine \<Rightarrow> WriteResult \<Rightarrow> pyobj \<Rightarrow> pyobj \<Rightarrow> pyval \<Rightarrow> hook list option \<Rightarrow>
     ('e, CommitOutcome) run" where
  "engine_resolve_write_result D w raw processed v on_success =
     bind (success_hook_for raw (Some processed) on_success)
       (resolve_write_result D w raw processed v)"

definition commit_outcome :: "'e DeliveryEngine \<Rightarrow> CommitOutcome \<Rightarrow> ('e, unit) run" where
  "commit_outcome D outcome = (case outcome of
       ErroredUnrouted e \<Rightarrow>
         if de_sink_failure_policy D = SINK_FAIL_CLOSED then throw (RecordDeliveryError e) else skip
     | Written v os \<Rightarrow> bind (save_checkpoint D v) (\<lambda>_. run_on_success D os)
     | Dropped v os \<Rightarrow> bind (save_checkpoint D v) (\<lambda>_. run_on_success D os)
     | ErroredRouted v os \<Rightarrow> bind (save_checkpoint D v) (\<lambda>_. run_on_success D os))"

text \<open>
  The statement \<open>try: ... except FenceLostError: raise; except Exception as exc: handler\<close>, with the
  code that follows it as the continuation \<open>k\<close>.
\<close>

definition try_write :: "('e, 'a) run \<Rightarrow> (exn \<Rightarrow> ('e, 'b) run) \<Rightarrow> ('a \<Rightarrow> ('e, 'b) run) \<Rightarrow> ('e, 'b) run" where
  "try_write m handler k =
     bind (attempt m) (\<lambda>r. case r of
       Inr x \<Rightarrow> k x
     | Inl e \<Rightarrow> if isinstance e FenceLostErrorC \<or> \<not> is_Exception e then throw e else handler e)"

definition write_error ::
  "'e DeliveryEngine \<Rightarrow> pyobj \<Rightarrow> pyobj \<Rightarrow> pyval \<Rightarrow> hook list option \<Rightarrow> exn \<Rightarrow> ('e, unit) run" where
  "write_error D result raw v on_success exc =
     bind (sink_dlq D exc raw result v) (\<lambda>routed.
     bind (incr_errored 1) (\<lambda>_.
       if routed \<or> de_sink_failure_policy D = SINK_LOG_AND_CONTINUE then
         bind (save_checkpoint D v) (\<lambda>_.
           if routed then bind (success_hook_for raw (Some result) on_success) (run_on_success D)
           else discard_success_hooks D [raw, result])
       else
         bind (discard_success_hooks D [raw, result]) (\<lambda>_. throw (RecordDeliveryError exc))))"

definition write_processed_record ::
  "'e DeliveryEngine \<Rightarrow> pyobj option \<Rightarrow> pyobj \<Rightarrow> pyval \<Rightarrow> MiddlewareFailure option \<Rightarrow>
     hook list option \<Rightarrow> ('e, unit) run" where
  "write_processed_record D result raw v failure on_success = (case result of
       None \<Rightarrow> drop_record D v failure on_success (Some raw)
     | Some p \<Rightarrow>
         try_write (write_one D p) (write_error D p raw v on_success) (\<lambda>w.
           bind (engine_resolve_write_result D w raw p v on_success) (commit_outcome D)))"

section \<open>Batches\<close>

text \<open>
  The accumulators of the batch loops: \<open>pending_checkpoint\<close>, \<open>pending_checkpoint_batch_size\<close> and
  \<open>delivered_hooks\<close>. \<open>settle_pending\<close> is the code that ends both loops, and that an unrouted error
  runs before it raises: store the last prepared checkpoint, then run the hooks.
\<close>

type_synonym pending_acc = "Checkpoint option \<times> int \<times> hook list"

definition settle_pending :: "'e DeliveryEngine \<Rightarrow> pending_acc \<Rightarrow> ('e, unit) run" where
  "settle_pending D acc = (case acc of (pc, n, hooks) \<Rightarrow>
     bind (case pc of None \<Rightarrow> skip | Some c \<Rightarrow> persist_checkpoint D c n) (\<lambda>_.
       for_each hooks (run_hook D)))"

definition acc_prepare ::
  "'e DeliveryEngine \<Rightarrow> pyval \<Rightarrow> hook list option \<Rightarrow> pending_acc \<Rightarrow> ('e, pending_acc) run" where
  "acc_prepare D v on_success acc = (case acc of (pc, n, hooks) \<Rightarrow>
     bind (prepare_checkpoint D v) (\<lambda>c.
       let hooks' = hooks @ (case on_success of None \<Rightarrow> [] | Some hs \<Rightarrow> hs) in
       ret (case c of None \<Rightarrow> (pc, n, hooks') | Some c \<Rightarrow> (Some c, n + 1, hooks'))))"

fun flush_batch_loop ::
  "'e DeliveryEngine \<Rightarrow> exn \<Rightarrow> PendingWrite list \<Rightarrow> pending_acc \<Rightarrow> ('e, unit) run" where
  "flush_batch_loop D exc [] acc = settle_pending D acc"
| "flush_batch_loop D exc (it # items) acc =
     bind (sink_dlq D exc (pw_raw it) (pw_processed it) (pw_checkpoint it)) (\<lambda>routed.
     bind (incr_errored 1) (\<lambda>_.
       if routed \<or> de_sink_failure_policy D = SINK_LOG_AND_CONTINUE then
         bind (acc_prepare D (pw_checkpoint it) (if routed then pw_on_success it else None) acc)
           (flush_batch_loop D exc items)
       else
         bind (settle_pending D acc) (\<lambda>_. throw (RecordDeliveryError exc))))"

definition flush_batch_outcomes :: "'e DeliveryEngine \<Rightarrow> exn \<Rightarrow> PendingWrite list \<Rightarrow> ('e, unit) run" where
  "flush_batch_outcomes D exc items = flush_batch_loop D exc items (None, 0, [])"

fun commit_loop :: "'e DeliveryEngine \<Rightarrow> CommitOutcome list \<Rightarrow> pending_acc \<Rightarrow> ('e, unit) run" where
  "commit_loop D [] acc = settle_pending D acc"
| "commit_loop D (ErroredUnrouted e # os) acc =
     bind (settle_pending D acc) (\<lambda>_.
       if de_sink_failure_policy D = SINK_FAIL_CLOSED then throw (RecordDeliveryError e)
       else commit_loop D os (None, 0, []))"
| "commit_loop D (Written v h # os) acc = bind (acc_prepare D v h acc) (commit_loop D os)"
| "commit_loop D (Dropped v h # os) acc = bind (acc_prepare D v h acc) (commit_loop D os)"
| "commit_loop D (ErroredRouted v h # os) acc = bind (acc_prepare D v h acc) (commit_loop D os)"

definition commit_outcomes :: "'e DeliveryEngine \<Rightarrow> CommitOutcome list \<Rightarrow> ('e, unit) run" where
  "commit_outcomes D outcomes = commit_loop D outcomes (None, 0, [])"

definition commit_pending_write_success_batch ::
  "'e DeliveryEngine \<Rightarrow> PendingWrite list \<Rightarrow> ('e, unit) run" where
  "commit_pending_write_success_batch D batch =
     bind (incr_written (int (length batch))) (\<lambda>_.
     bind (fold_m (\<lambda>it. acc_prepare D (pw_checkpoint it) (pw_on_success it)) batch (None, 0, []))
       (settle_pending D))"

definition validate_write_result_count :: "nat \<Rightarrow> nat \<Rightarrow> ('e, unit) run" where
  "validate_write_result_count expected actual =
     (if actual \<noteq> expected
      then throw (mk_exn RuntimeErrorC
        ''Writer.write_batch() must return one WriteResult per input record.'')
      else skip)"

definition resolve_items ::
  "'e DeliveryEngine \<Rightarrow> (PendingWrite \<times> WriteResult) list \<Rightarrow> ('e, CommitOutcome list) run" where
  "resolve_items D pairs = map_m (\<lambda>(it, w).
     engine_resolve_write_result D w (pw_raw it) (pw_processed it) (pw_checkpoint it)
       (pw_on_success it)) pairs"

definition flush_pending_writes_once :: "'e DeliveryEngine \<Rightarrow> ('e, unit) run" where
  "flush_pending_writes_once D =
     bind get_state (\<lambda>s.
       if rs_pending s = [] then skip
       else
         let batch = rs_pending s in
         bind (modify (\<lambda>s. s\<lparr>rs_pending := []\<rparr>)) (\<lambda>_.
         try_write (write_batch D (map pw_processed batch))
           (\<lambda>exc. flush_batch_outcomes D exc batch)
           (\<lambda>ws.
             bind (validate_write_result_count (length batch) (length ws)) (\<lambda>_.
             if list_all wr_ok ws then commit_pending_write_success_batch D batch
             else bind (resolve_items D (zip batch ws)) (commit_outcomes D)))))"

definition flush_pending_writes :: "'e DeliveryEngine \<Rightarrow> ('e, unit) run" where
  "flush_pending_writes D = flush_pending_writes_once D"

definition queue_success_record ::
  "'e DeliveryEngine \<Rightarrow> pyobj \<Rightarrow> pyobj \<Rightarrow> pyval \<Rightarrow> int \<Rightarrow> hook list option \<Rightarrow> ('e, unit) run" where
  "queue_success_record D result raw v writer_batch_size on_success =
     bind (success_hook_for raw (Some result) on_success) (\<lambda>on_success'.
     bind (modify (\<lambda>s. s\<lparr>rs_pending := rs_pending s @
         [\<lparr>pw_processed = result, pw_raw = raw, pw_checkpoint = v, pw_on_success = on_success'\<rparr>]\<rparr>)) (\<lambda>_.
     bind get_state (\<lambda>s.
       if int (length (rs_pending s)) \<ge> writer_batch_size then flush_pending_writes D else skip)))"

definition queue_processed_record ::
  "'e DeliveryEngine \<Rightarrow> pyobj option \<Rightarrow> pyobj \<Rightarrow> pyval \<Rightarrow> int \<Rightarrow> MiddlewareFailure option \<Rightarrow>
     hook list option \<Rightarrow> ('e, unit) run" where
  "queue_processed_record D result raw v writer_batch_size failure on_success = (case result of
       None \<Rightarrow> drop_record D v failure on_success (Some raw)
     | Some p \<Rightarrow> queue_success_record D p raw v writer_batch_size on_success)"

definition dispatch_processed_result ::
  "'e DeliveryEngine \<Rightarrow> pyobj option \<Rightarrow> pyobj \<Rightarrow> pyval \<Rightarrow> int \<Rightarrow> MiddlewareFailure option \<Rightarrow>
     hook list option \<Rightarrow> ('e, unit) run" where
  "dispatch_processed_result D result raw v writer_batch_size failure on_success = (case result of
       None \<Rightarrow> drop_record D v failure on_success (Some raw)
     | Some p \<Rightarrow>
         if writer_batch_size \<le> 1 then write_processed_record D (Some p) raw v failure on_success
         else queue_success_record D p raw v writer_batch_size on_success)"

text \<open>
  \<open>flush_batch_direct\<close>, the path of the Rust batch buffer. Its lists are zipped into the tuples that
  the regular path keeps as \<open>PendingWrite\<close> objects.
\<close>

definition mk_pending :: "(pyobj \<times> pyobj \<times> pyval \<times> hook list option) \<Rightarrow> PendingWrite" where
  "mk_pending t = (case t of (p, raw, v, os) \<Rightarrow>
     \<lparr>pw_processed = p, pw_raw = raw, pw_checkpoint = v, pw_on_success = os\<rparr>)"

definition flush_batch_direct ::
  "'e DeliveryEngine \<Rightarrow> pyobj list \<Rightarrow> pyobj list \<Rightarrow> pyval list \<Rightarrow> hook list option list option \<Rightarrow>
     ('e, unit) run" where
  "flush_batch_direct D processed_list raw_list checkpoint_list on_success_opt =
     (if processed_list = [] then skip
      else
        let on_success_list = (case on_success_opt of
              None \<Rightarrow> replicate (length processed_list) None | Some l \<Rightarrow> l) in
        if \<not> (length processed_list = length raw_list \<and> length raw_list = length checkpoint_list \<and>
              length checkpoint_list = length on_success_list)
        then throw (mk_exn RuntimeErrorC
          ''flush_batch_direct() requires processed/raw/checkpoint/on_success lists with matching lengths.'')
        else
          bind (map_m (\<lambda>(raw, p, os). success_hook_for raw (Some p) os)
                  (zip raw_list (zip processed_list on_success_list))) (\<lambda>hooks_list.
          let items = map mk_pending
                (zip processed_list (zip raw_list (zip checkpoint_list hooks_list))) in
          try_write (write_batch D processed_list)
            (\<lambda>exc. flush_batch_outcomes D exc items)
            (\<lambda>ws.
              bind (validate_write_result_count (length processed_list) (length ws)) (\<lambda>_.
              if list_all wr_ok ws then
                bind (incr_written (int (length processed_list))) (\<lambda>_.
                bind (if de_checkpoint_store D \<noteq> None \<and> last checkpoint_list \<noteq> PNone
                      then save_batch_checkpoint D (last checkpoint_list) (int (length processed_list))
                      else skip) (\<lambda>_.
                  for_each hooks_list (run_on_success D)))
              else bind (resolve_items D (zip items ws)) (commit_outcomes D)))))"

section \<open>What the operations add to the trace\<close>

lemma emits_pure: "emits (\<lambda>_. False) s t \<longleftrightarrow> rs_pending t = rs_pending s \<and> rs_trace t = rs_trace s"
  by (auto simp: emits_def list_all_iff)

lemma success_hook_for_emits [steps_intro]: "steps_in (emits P) (success_hook_for raw p os)"
  unfolding success_hook_for_def by (intro steps_intro)

lemma success_hook_for_returns:
  obtains os' t where "success_hook_for raw p os s = (Inr os', t)" "rs_trace t = rs_trace s"
proof -
  obtain r t where run: "success_hook_for raw p os s = (r, t)" by (cases "success_hook_for raw p os s")
  moreover have "rs_trace t = rs_trace s"
    using steps_inD [OF success_hook_for_emits [of "\<lambda>_. False"] run] by (simp add: emits_pure)
  moreover have "\<exists>os'. r = Inr os'"
    using run by (auto simp: success_hook_for_def pop_success_hooks_def comb_simps split: prod.splits)
  ultimately show thesis using that by blast
qed

lemma success_hook_for_trace:
  "success_hook_for raw p os s = (r, t) \<Longrightarrow> rs_trace t = rs_trace s \<and> (\<exists>os'. r = Inr os')"
  by (metis success_hook_for_returns fst_conv snd_conv)

lemma run_on_success_emits [steps_intro]:
  "(\<And>h b. P (EHook h b)) \<Longrightarrow> steps_in (emits P) (run_on_success D os)"
  unfolding run_on_success_def by (cases os) (auto intro!: steps_intro)

lemma incr_emits [steps_intro]:
  "steps_in (emits P) (incr_written n)" "steps_in (emits P) (incr_dropped n)"
  "steps_in (emits P) (incr_errored n)"
  unfolding incr_written_def incr_dropped_def incr_errored_def by (intro steps_intro)+

lemma incr_trace [simp]:
  "incr_written n s = (r, t) \<longleftrightarrow>
     r = Inr () \<and> t = s\<lparr>rs_metrics := (rs_metrics s)\<lparr>m_records_written := m_records_written (rs_metrics s) + n\<rparr>\<rparr>"
  "incr_dropped n s = (r, t) \<longleftrightarrow>
     r = Inr () \<and> t = s\<lparr>rs_metrics := (rs_metrics s)\<lparr>m_records_dropped := m_records_dropped (rs_metrics s) + n\<rparr>\<rparr>"
  "incr_errored n s = (r, t) \<longleftrightarrow>
     r = Inr () \<and> t = s\<lparr>rs_metrics := (rs_metrics s)\<lparr>m_records_errored := m_records_errored (rs_metrics s) + n\<rparr>\<rparr>"
  by (auto simp: incr_written_def incr_dropped_def incr_errored_def upd_metrics_def modify_def)

lemma sink_dlq_emits [steps_intro]:
  "(\<And>r b. P (EDlq r b)) \<Longrightarrow> steps_in (emits P) (sink_dlq D e raw p v)"
  unfolding sink_dlq_def by (intro steps_intro)

lemma save_checkpoint_trace:
  assumes "save_checkpoint D v s = (r, t)"
  shows "\<exists>sv. rs_trace t = rs_trace s @ sv \<and>
     (sv = [] \<or> (\<exists>c b. sv = [ESave c b] \<and> cp_value c = v))"
proof -
  have prep: "rs_trace u = rs_trace s \<and> (\<forall>c. x = Inr (Some c) \<longrightarrow> cp_value c = v)"
    if "prepare_checkpoint D v s = (x, u)" for x u
    using steps_inD [OF prepare_emits [of "\<lambda>_. False"] that] that
    by (auto simp: emits_pure dest: prepare_value)
  obtain x u where run: "prepare_checkpoint D v s = (x, u)" by (cases "prepare_checkpoint D v s")
  with prep assms show ?thesis
    by (fastforce simp: save_checkpoint_def bind_def skip_def ret_def split: sum.splits option.splits
        dest!: persist_trace)
qed

section \<open>Settled records\<close>

text \<open>
  A record is accepted by the sink when some write call returned a result without errors at its
  position, and dead-lettered when the DLQ sink took a record that carries it (up to the
  application's redactor).
\<close>

definition sink_accepted :: "pyobj \<Rightarrow> event list \<Rightarrow> bool" where
  "sink_accepted p ev \<longleftrightarrow> (\<exists>ps ws i. EWrite ps (Inr ws) \<in> set ev \<and> i < length ps \<and> i < length ws \<and>
     ps ! i = p \<and> wr_errors (ws ! i) = [])"

definition dead_lettered :: "'e DeliveryEngine \<Rightarrow> pyobj \<Rightarrow> event list \<Rightarrow> bool" where
  "dead_lettered D raw ev \<longleftrightarrow> (\<exists>rec. EDlq rec True \<in> set ev \<and>
     (de_dlq_redactor D = None \<longrightarrow> dq_original_record rec = ob_val raw))"

definition written_settled :: "'e DeliveryEngine \<Rightarrow> pyobj \<Rightarrow> pyobj \<Rightarrow> event list \<Rightarrow> bool" where
  "written_settled D p raw ev \<longleftrightarrow>
     sink_accepted p ev \<or> dead_lettered D raw ev \<or> de_sink_failure_policy D = SINK_LOG_AND_CONTINUE"

definition settled ::
  "'e DeliveryEngine \<Rightarrow> pyobj \<Rightarrow> pyobj option \<Rightarrow> MiddlewareFailure option \<Rightarrow> event list \<Rightarrow> bool" where
  "settled D raw result failure ev = (case result of
       Some p \<Rightarrow> written_settled D p raw ev
     | None \<Rightarrow> (case failure of
           None \<Rightarrow> True
         | Some f \<Rightarrow> de_dlq_sink D = None \<or> dead_lettered D (mf_record f) ev))"

lemma sink_accepted_mono: "sink_accepted p a \<Longrightarrow> set a \<subseteq> set b \<Longrightarrow> sink_accepted p b"
  unfolding sink_accepted_def by (elim exE conjE, intro exI conjI) (auto dest: subsetD)

lemma dead_lettered_mono: "dead_lettered D raw a \<Longrightarrow> set a \<subseteq> set b \<Longrightarrow> dead_lettered D raw b"
  unfolding dead_lettered_def by (meson subsetD)

lemma written_settled_mono:
  "written_settled D p raw a \<Longrightarrow> set a \<subseteq> set b \<Longrightarrow> written_settled D p raw b"
  unfolding written_settled_def using sink_accepted_mono dead_lettered_mono by metis

lemma settled_mono:
  "settled D raw result failure a \<Longrightarrow> set a \<subseteq> set b \<Longrightarrow> settled D raw result failure b"
  by (cases result; cases failure)
     (auto simp: settled_def intro: dead_lettered_mono written_settled_mono)

section \<open>One record, seen from the trace\<close>

lemma sink_dlq_trace:
  assumes "sink_dlq D e raw p v s = (r, t)"
  shows "\<exists>ev. rs_trace t = rs_trace s @ ev \<and> list_all is_dlq ev \<and>
     (r = Inr True \<longrightarrow> dead_lettered D raw ev)"
proof (cases "r = Inr True")
  case True
  with assms show ?thesis
    by (auto dest!: dlq_write_Inr [of D "''sink_write''" e, unfolded sink_dlq_def [symmetric]]
        simp: sink_dlq_def sink_dlq_args_def opt_val_def dead_lettered_def)
next
  case False
  then show ?thesis
    using steps_inD [OF sink_dlq_emits [of is_dlq] assms] by (auto simp: emits_def)
qed

lemma write_one_trace:
  assumes "write_one D p s = (r, t)"
  shows "\<exists>ev. rs_trace t = rs_trace s @ ev \<and> list_all is_write ev \<and>
     (\<forall>w. r = Inr w \<longrightarrow> ev = [EWrite [p] (Inr [w])])"
proof (cases r)
  case (Inl e)
  then show ?thesis
    using steps_inD [OF write_one_emits [of is_write] assms] by (auto simp: emits_def)
next
  case (Inr w)
  then show ?thesis using assms
    by (auto simp: write_one_def bind_eq_Inr call_env_eq upd_metrics_def modify_def ret_def
        dest!: fence_trace')
qed

lemma write_batch_trace:
  assumes "write_batch D ps s = (r, t)"
  shows "\<exists>ev. rs_trace t = rs_trace s @ ev \<and> list_all is_write ev \<and>
     (\<forall>ws. r = Inr ws \<longrightarrow> ev = [EWrite ps (Inr ws)])"
proof (cases r)
  case (Inl e)
  then show ?thesis
    using steps_inD [OF write_batch_emits [of is_write] assms] by (auto simp: emits_def)
next
  case (Inr w)
  then show ?thesis using assms
    by (auto simp: write_batch_def bind_eq_Inr call_env_eq upd_metrics_def modify_def ret_def
        dest!: fence_trace')
qed

lemma route_errors_emits [steps_intro]:
  "(\<And>r b. P (EDlq r b)) \<Longrightarrow> steps_in (emits P) (route_errors D raw p v errs)"
  unfolding route_errors_def by (intro steps_intro)

lemma resolve_write_result_emits [steps_intro]:
  "(\<And>r b. P (EDlq r b)) \<Longrightarrow> steps_in (emits P) (resolve_write_result D w raw p v os)"
  unfolding resolve_write_result_def by (auto intro!: steps_intro)

lemma engine_resolve_emits [steps_intro]:
  "(\<And>r b. P (EDlq r b)) \<Longrightarrow> steps_in (emits P) (engine_resolve_write_result D w raw p v os)"
  unfolding engine_resolve_write_result_def by (intro steps_intro)

lemma route_errors_acc:
  assumes "fold_m (\<lambda>e ra. bind (sink_dlq D e raw p v) (\<lambda>routed. ret (ra \<and> routed))) errs a s = (Inr True, t)"
  shows "a \<and> (\<exists>ev. rs_trace t = rs_trace s @ ev \<and> (errs \<noteq> [] \<longrightarrow> dead_lettered D raw ev))"
  using assms
proof (induction errs arbitrary: a s)
  case Nil
  then show ?case by (simp add: ret_def)
next
  case (Cons e errs)
  then obtain routed u where first: "sink_dlq D e raw p v s = (Inr routed, u)"
    and rest: "fold_m (\<lambda>e ra. bind (sink_dlq D e raw p v) (\<lambda>routed. ret (ra \<and> routed))) errs
      (a \<and> routed) u = (Inr True, t)"
    by (auto simp: bind_eq_Inr ret_def)
  from Cons.IH [OF rest] obtain ev where "a \<and> routed" "rs_trace t = rs_trace u @ ev" by auto
  moreover from this first obtain ev1 where "rs_trace u = rs_trace s @ ev1" "dead_lettered D raw ev1"
    using sink_dlq_trace [OF first] by auto
  ultimately show ?case by (auto intro: dead_lettered_mono exI [of _ "ev1 @ ev"])
qed

text \<open>
  What an outcome says of its record: every outcome that carries a checkpoint carries the one of its
  record, and the record is settled.
\<close>

fun outcome_checkpoint :: "CommitOutcome \<Rightarrow> pyval option" where
  "outcome_checkpoint (Written v h) = Some v"
| "outcome_checkpoint (Dropped v h) = Some v"
| "outcome_checkpoint (ErroredRouted v h) = Some v"
| "outcome_checkpoint (ErroredUnrouted e) = None"

lemma resolve_trace:
  assumes "resolve_write_result D w raw p v os s = (Inr out, t)"
  shows "\<exists>ev. rs_trace t = rs_trace s @ ev \<and> list_all is_dlq ev \<and>
     (if outcome_checkpoint out = None then de_sink_failure_policy D = SINK_FAIL_CLOSED
      else outcome_checkpoint out = Some v \<and>
        (wr_errors w = [] \<or> dead_lettered D raw ev \<or> de_sink_failure_policy D = SINK_LOG_AND_CONTINUE))"
proof -
  obtain ev where ev: "rs_trace t = rs_trace s @ ev" "list_all is_dlq ev"
    using steps_inD [OF resolve_write_result_emits [of is_dlq] assms] by (auto simp: emits_def)
  show ?thesis
  proof (cases "wr_errors w = []")
    case True
    then show ?thesis using assms ev
      by (auto simp: resolve_write_result_def bind_eq_Inr ret_def split: if_splits)
  next
    case False
    then obtain ra u where route: "route_errors D raw p v (wr_errors w) s = (Inr ra, u)"
      and eq: "rs_trace t = rs_trace u"
      and out: "out = (if ra \<or> de_sink_failure_policy D = SINK_LOG_AND_CONTINUE
         then ErroredRouted v (if wr_written w \<or> ra then os else None)
         else ErroredUnrouted (hd (wr_errors w)))"
      using assms
      by (auto simp: resolve_write_result_def bind_eq_Inr ret_def skip_def split: if_splits)
    have dl: "ra \<longrightarrow> dead_lettered D raw ev"
      using route_errors_acc [of D raw p v "wr_errors w" True s u] route False ev(1) eq
      by (auto simp: route_errors_def)
    have "de_sink_failure_policy D \<noteq> SINK_LOG_AND_CONTINUE \<Longrightarrow> de_sink_failure_policy D = SINK_FAIL_CLOSED"
      by (cases "de_sink_failure_policy D") auto
    with ev dl out show ?thesis by auto
  qed
qed

lemma engine_resolve_trace:
  assumes "engine_resolve_write_result D w raw p v os s = (Inr out, t)"
  shows "\<exists>ev. rs_trace t = rs_trace s @ ev \<and> list_all is_dlq ev \<and>
     (if outcome_checkpoint out = None then de_sink_failure_policy D = SINK_FAIL_CLOSED
      else outcome_checkpoint out = Some v \<and>
        (wr_errors w = [] \<or> dead_lettered D raw ev \<or> de_sink_failure_policy D = SINK_LOG_AND_CONTINUE))"
proof -
  from assms obtain os' u where "success_hook_for raw (Some p) os s = (Inr os', u)"
    and res: "resolve_write_result D w raw p v os' u = (Inr out, t)"
    by (auto simp: engine_resolve_write_result_def bind_eq_Inr)
  then have "rs_trace u = rs_trace s" by (auto dest: success_hook_for_trace)
  with resolve_trace [OF res] show ?thesis by simp
qed

text \<open>
  The shape of the events of one record: first what settles it, then at most one checkpoint, its own,
  then its hooks. Without \<open>S\<close> (the record is settled) there is neither checkpoint nor hook.
\<close>

definition segment_parts ::
  "(event list \<Rightarrow> bool) \<Rightarrow> pyval \<Rightarrow> event list \<Rightarrow> event list \<Rightarrow> event list \<Rightarrow> bool" where
  "segment_parts S v act sv hk \<longleftrightarrow>
     list_all (\<lambda>e. \<not> is_save e \<and> \<not> is_hook e) act \<and>
     (sv = [] \<or> (\<exists>c b. sv = [ESave c b] \<and> cp_value c = v)) \<and>
     list_all (\<lambda>e. is_hook e \<or> is_discard e) hk \<and>
     ((\<exists>e\<in>set (sv @ hk). is_save e \<or> is_hook e) \<longrightarrow> S act)"

definition ordered_segment :: "(event list \<Rightarrow> bool) \<Rightarrow> pyval \<Rightarrow> event list \<Rightarrow> bool" where
  "ordered_segment S v ev \<longleftrightarrow> (\<exists>act sv hk. ev = act @ sv @ hk \<and> segment_parts S v act sv hk)"

lemma segment_quiet:
  "list_all (\<lambda>e. \<not> is_save e \<and> \<not> is_hook e) ev \<Longrightarrow> ordered_segment S v ev"
  unfolding ordered_segment_def segment_parts_def
  by (intro exI [of _ ev] exI [of _ "[]"]) simp

lemma segment_mono:
  "ordered_segment S v ev \<Longrightarrow> (\<And>a. S a \<Longrightarrow> T a) \<Longrightarrow> ordered_segment T v ev"
  unfolding ordered_segment_def by (elim exE conjE, intro exI conjI) (auto simp: segment_parts_def)

lemma save_hooks_segment:
  assumes run: "bind (save_checkpoint D v) (\<lambda>_. m) s = (r, t)"
    and m: "steps_in (emits (\<lambda>e. is_hook e \<or> is_discard e)) m"
    and act: "rs_trace s = rs_trace s0 @ act" "list_all (\<lambda>e. \<not> is_save e \<and> \<not> is_hook e) act" "S act"
  shows "\<exists>ev. rs_trace t = rs_trace s0 @ ev \<and> ordered_segment S v ev"
proof -
  obtain x u where save: "save_checkpoint D v s = (x, u)" by (cases "save_checkpoint D v s")
  obtain sv where sv: "rs_trace u = rs_trace s @ sv" "sv = [] \<or> (\<exists>c b. sv = [ESave c b] \<and> cp_value c = v)"
    using save_checkpoint_trace [OF save] by blast
  have "\<exists>hk. rs_trace t = rs_trace u @ hk \<and> list_all (\<lambda>e. is_hook e \<or> is_discard e) hk"
  proof (cases x)
    case (Inl e)
    with run save show ?thesis by (simp add: bind_def)
  next
    case (Inr y)
    with run save have "m u = (r, t)" by (simp add: bind_def)
    from steps_inD [OF m this] show ?thesis by (simp add: emits_def)
  qed
  then obtain hk where hk: "rs_trace t = rs_trace u @ hk"
    "list_all (\<lambda>e. is_hook e \<or> is_discard e) hk" by blast
  have "segment_parts S v act sv hk"
    using act(2,3) sv(2) hk(2) by (simp add: segment_parts_def)
  then have "ordered_segment S v (act @ sv @ hk)"
    unfolding ordered_segment_def by (intro exI conjI) auto
  with act(1) sv(1) hk(1) show ?thesis by auto
qed

lemma run_on_success_hk: "steps_in (emits (\<lambda>e. is_hook e \<or> is_discard e)) (run_on_success D os)"
  by (intro steps_intro) simp

lemma discard_trace:
  "discard_success_hooks D rs s = (r, t) \<Longrightarrow> \<exists>ev. rs_trace t = rs_trace s @ ev \<and> list_all is_discard ev"
  using steps_inD [OF discard_emits [of is_discard]] by (fastforce simp: emits_def)

lemma list_all_quiet:
  "list_all is_dlq ev \<Longrightarrow> list_all (\<lambda>e. \<not> is_save e \<and> \<not> is_hook e) ev"
  "list_all is_discard ev \<Longrightarrow> list_all (\<lambda>e. \<not> is_save e \<and> \<not> is_hook e) ev"
  "list_all is_write ev \<Longrightarrow> list_all (\<lambda>e. \<not> is_save e \<and> \<not> is_hook e) ev"
  by (auto simp: list_all_iff is_save_def is_hook_def is_dlq_def is_discard_def is_write_def
      split: event.splits)

lemma drop_failure_trace:
  assumes "drop_failure D v f s = (r, t)"
  shows "\<exists>ev. rs_trace t = rs_trace s @ ev \<and> list_all (\<lambda>e. \<not> is_save e \<and> \<not> is_hook e) ev \<and>
     (r = Inr True \<longrightarrow> de_dlq_sink D = None \<or> dead_lettered D (mf_record f) ev) \<and>
     (r = Inr False \<longrightarrow> de_checkpoint_store D = None \<or> v = PNone)"
proof -
  have "steps_in (emits (\<lambda>e. \<not> is_save e \<and> \<not> is_hook e)) (drop_failure D v f)"
    unfolding drop_failure_def by (auto intro!: steps_intro)
  from steps_inD [OF this assms] obtain ev where ev: "rs_trace t = rs_trace s @ ev"
    "list_all (\<lambda>e. \<not> is_save e \<and> \<not> is_hook e) ev" by (auto simp: emits_def)
  have "r = Inr True \<longrightarrow> de_dlq_sink D = None \<or> dead_lettered D (mf_record f) ev"
    using assms ev(1)
    by (auto simp: drop_failure_def bind_eq_Inr ret_def throw_def failure_dlq_args_def opt_val_def
        dead_lettered_def split: if_splits dest!: dlq_write_Inr)
  moreover have "r = Inr False \<longrightarrow> de_checkpoint_store D = None \<or> v = PNone"
    using assms by (auto simp: drop_failure_def bind_eq_Inr ret_def throw_def split: if_splits)
  ultimately show ?thesis using ev by blast
qed

lemma drop_record_segment:
  assumes "drop_record D v failure os (Some raw) s = (r, t)"
  shows "\<exists>ev. rs_trace t = rs_trace s @ ev \<and> ordered_segment (settled D raw None failure) v ev \<and>
     (r = Inr () \<longrightarrow> settled D raw None failure ev \<or> de_checkpoint_store D = None \<or> v = PNone)"
proof -
  obtain os' s1 where hk: "success_hook_for raw None os s = (Inr os', s1)" "rs_trace s1 = rs_trace s"
    by (rule success_hook_for_returns)
  let ?settle = "case failure of Some f \<Rightarrow> drop_failure D v f | None \<Rightarrow> bind (incr_dropped 1) (\<lambda>_. ret True)"
  obtain x u where st: "?settle s1 = (x, u)" by (cases "?settle s1")
  have "\<exists>act. rs_trace u = rs_trace s @ act \<and> list_all (\<lambda>e. \<not> is_save e \<and> \<not> is_hook e) act \<and>
     (x = Inr True \<longrightarrow> settled D raw None failure act) \<and>
     (x = Inr False \<longrightarrow> de_checkpoint_store D = None \<or> v = PNone)"
  proof (cases failure)
    case None
    with st hk show ?thesis by (auto simp: settled_def comb_simps incr_dropped_def upd_metrics_def)
  next
    case (Some f)
    with st have "drop_failure D v f s1 = (x, u)" by simp
    from drop_failure_trace [OF this] hk(2) Some show ?thesis by (auto simp: settled_def)
  qed
  then obtain act where act: "rs_trace u = rs_trace s @ act"
    "list_all (\<lambda>e. \<not> is_save e \<and> \<not> is_hook e) act" "x = Inr True \<Longrightarrow> settled D raw None failure act"
    "x = Inr False \<Longrightarrow> de_checkpoint_store D = None \<or> v = PNone" by blast
  have run: "bind (\<lambda>_. (x, u)) (\<lambda>settled. if settled
      then bind (save_checkpoint D v) (\<lambda>_. run_on_success D os') else skip) s1 = (r, t)"
    using assms hk(1) st by (simp add: drop_record_def bind_def)
  consider e where "x = Inl e" | "x = Inr False" | "x = Inr True"
    by (cases x) (metis (full_types), auto)
  then show ?thesis
  proof cases
    case 1
    with run act show ?thesis by (auto simp: bind_def intro: segment_quiet)
  next
    case 2
    with run act show ?thesis by (auto simp: bind_def skip_def ret_def intro: segment_quiet)
  next
    case 3
    with run have "bind (save_checkpoint D v) (\<lambda>_. run_on_success D os') u = (r, t)"
      by (simp add: bind_def)
    from save_hooks_segment [OF this run_on_success_hk act(1,2), where S = "settled D raw None failure"] act(3) 3
    obtain ev where ev: "rs_trace t = rs_trace s @ ev" "ordered_segment (settled D raw None failure) v ev"
      by blast
    have "set act \<subseteq> set ev"
    proof -
      have "steps_in (emits (\<lambda>_. True)) (bind (save_checkpoint D v) (\<lambda>_. run_on_success D os'))"
        by (intro steps_intro) auto
      from steps_inD [OF this \<open>bind _ _ u = (r, t)\<close>] act(1) ev(1) show ?thesis
        by (auto simp: emits_def)
    qed
    with ev act(3) 3 show ?thesis by (blast intro: settled_mono)
  qed
qed

lemma commit_outcome_segment:
  assumes run: "commit_outcome D out s = (r, t)"
    and act: "rs_trace s = rs_trace s0 @ act" "list_all (\<lambda>e. \<not> is_save e \<and> \<not> is_hook e) act"
    and out: "if outcome_checkpoint out = None then de_sink_failure_policy D = SINK_FAIL_CLOSED
              else outcome_checkpoint out = Some v \<and> S act"
  shows "\<exists>ev. rs_trace t = rs_trace s0 @ ev \<and> ordered_segment S v ev \<and> set act \<subseteq> set ev \<and>
     (r = Inr () \<longrightarrow> S act)"
proof (cases "outcome_checkpoint out")
  case None
  then obtain e where "out = ErroredUnrouted e" by (cases out) auto
  with run out act show ?thesis
    by (auto simp: commit_outcome_def throw_def intro: segment_quiet)
next
  case (Some v')
  then obtain os where run': "bind (save_checkpoint D v) (\<lambda>_. run_on_success D os) s = (r, t)"
    using run out by (cases out) (auto simp: commit_outcome_def)
  have "S act" using Some out by simp
  with save_hooks_segment [OF run' run_on_success_hk act, where S = S]
  obtain ev where ev: "rs_trace t = rs_trace s0 @ ev" "ordered_segment S v ev" by blast
  have "steps_in (emits (\<lambda>_. True)) (bind (save_checkpoint D v) (\<lambda>_. run_on_success D os))"
    by (intro steps_intro) auto
  from steps_inD [OF this run'] obtain ev' where "rs_trace t = rs_trace s @ ev'"
    by (auto simp: emits_def)
  with ev(1) have "set act \<subseteq> set ev" using act(1) by auto
  with ev \<open>S act\<close> show ?thesis by blast
qed

text \<open>The failure branch of the single write: the sink raised.\<close>

lemma write_error_segment:
  assumes run: "write_error D p raw v os exc s = (r, t)"
    and act: "rs_trace s = rs_trace s0 @ act" "list_all (\<lambda>e. \<not> is_save e \<and> \<not> is_hook e) act"
  shows "\<exists>ev. rs_trace t = rs_trace s0 @ ev \<and> ordered_segment (written_settled D p raw) v ev \<and>
     (r = Inr () \<longrightarrow> written_settled D p raw ev)"
proof -
  obtain x u where dlq: "sink_dlq D exc raw p v s = (x, u)" by (cases "sink_dlq D exc raw p v s")
  from sink_dlq_trace [OF dlq] obtain ev1 where ev1: "rs_trace u = rs_trace s @ ev1"
    "list_all is_dlq ev1" "x = Inr True \<Longrightarrow> dead_lettered D raw ev1" by blast
  define act' where "act' = act @ ev1"
  have tr: "rs_trace u = rs_trace s0 @ act'" and quiet: "list_all (\<lambda>e. \<not> is_save e \<and> \<not> is_hook e) act'"
    using act ev1 list_all_quiet(1) by (auto simp: act'_def)
  show ?thesis
  proof (cases x)
    case (Inl e)
    with run dlq tr quiet show ?thesis by (auto simp: write_error_def bind_def intro: segment_quiet)
  next
    case (Inr routed)
    define u' where "u' = u\<lparr>rs_metrics := (rs_metrics u)\<lparr>m_records_errored := m_records_errored (rs_metrics u) + 1\<rparr>\<rparr>"
    have tr': "rs_trace u' = rs_trace s0 @ act'" using tr by (simp add: u'_def)
    have step: "incr_errored 1 u = (Inr (), u')" by (simp add: u'_def)
    show ?thesis
    proof (cases "routed \<or> de_sink_failure_policy D = SINK_LOG_AND_CONTINUE")
      case True
      let ?m = "if routed then bind (success_hook_for raw (Some p) os) (run_on_success D)
                else discard_success_hooks D [raw, p]"
      have m: "steps_in (emits (\<lambda>e. is_hook e \<or> is_discard e)) ?m" by (auto intro!: steps_intro)
      have rest: "bind (save_checkpoint D v) (\<lambda>_. ?m) u' = (r, t)"
        using run dlq Inr step True by (simp add: write_error_def bind_def)
      have S: "written_settled D p raw act'"
        using True Inr ev1(3) by (auto simp: written_settled_def act'_def intro: dead_lettered_mono)
      from save_hooks_segment [OF rest m tr' quiet, where S = "written_settled D p raw"] S
      obtain ev where ev: "rs_trace t = rs_trace s0 @ ev" "ordered_segment (written_settled D p raw) v ev"
        by blast
      have "steps_in (emits (\<lambda>_. True)) (bind (save_checkpoint D v) (\<lambda>_. ?m))"
        by (auto intro!: steps_intro)
      from steps_inD [OF this rest] ev(1) tr' have "set act' \<subseteq> set ev" by (auto simp: emits_def)
      with ev S show ?thesis by (blast intro: written_settled_mono)
    next
      case False
      then have "bind (discard_success_hooks D [raw, p]) (\<lambda>_. throw (RecordDeliveryError exc)) u' = (r, t)"
        using run dlq Inr step by (simp add: write_error_def bind_def)
      then have "\<exists>ev2. rs_trace t = rs_trace u' @ ev2 \<and> list_all is_discard ev2 \<and> r \<noteq> Inr ()"
        by (cases r) (auto simp: bind_eq_Inl bind_eq_Inr throw_def dest!: discard_trace)
      with tr' quiet show ?thesis by (fastforce intro: segment_quiet dest: list_all_quiet)
    qed
  qed
qed

lemma write_processed_record_seg':
  assumes "write_processed_record D result raw v failure os s = (r, t)"
  shows "\<exists>ev. rs_trace t = rs_trace s @ ev \<and> ordered_segment (settled D raw result failure) v ev \<and>
     (r = Inr () \<longrightarrow> settled D raw result failure ev \<or> de_checkpoint_store D = None \<or> v = PNone)"
proof (cases result)
  case None
  with assms drop_record_segment show ?thesis by (simp add: write_processed_record_def)
next
  case (Some p)
  obtain x u where w: "write_one D p s = (x, u)" by (cases "write_one D p s")
  from write_one_trace [OF w] obtain act where act: "rs_trace u = rs_trace s @ act"
    "list_all (\<lambda>e. \<not> is_save e \<and> \<not> is_hook e) act" "\<And>w. x = Inr w \<Longrightarrow> act = [EWrite [p] (Inr [w])]"
    using list_all_quiet(3) by blast
  have set: "settled D raw result failure = written_settled D p raw"
    using Some by (simp add: settled_def fun_eq_iff)
  show ?thesis
  proof (cases x)
    case (Inl e)
    show ?thesis
    proof (cases "isinstance e FenceLostErrorC \<or> \<not> is_Exception e")
      case True
      with assms Some w Inl act show ?thesis
        by (auto simp: write_processed_record_def try_write_def bind_def attempt_def throw_def
            intro: segment_quiet)
    next
      case False
      then have "write_error D p raw v os e u = (r, t)"
        using assms Some w Inl by (simp add: write_processed_record_def try_write_def bind_def attempt_def)
      from write_error_segment [OF this act(1,2)] set show ?thesis by auto
    qed
  next
    case (Inr wr)
    then have run: "bind (engine_resolve_write_result D wr raw p v os) (commit_outcome D) u = (r, t)"
      using assms Some w by (simp add: write_processed_record_def try_write_def bind_def attempt_def)
    obtain y u' where res: "engine_resolve_write_result D wr raw p v os u = (y, u')"
      by (cases "engine_resolve_write_result D wr raw p v os u")
    from steps_inD [OF engine_resolve_emits [of is_dlq] res] obtain ev1 where
      ev1: "rs_trace u' = rs_trace s @ (act @ ev1)" "list_all is_dlq ev1"
      using act(1) by (auto simp: emits_def)
    then have quiet: "list_all (\<lambda>e. \<not> is_save e \<and> \<not> is_hook e) (act @ ev1)"
      using act(2) list_all_quiet(1) by auto
    have accepted: "wr_errors wr = [] \<Longrightarrow> sink_accepted p (act @ ev1)"
      using act(3) [OF Inr] unfolding sink_accepted_def
      by (intro exI [of _ "[p]"] exI [of _ "[wr]"] exI [of _ 0]) simp
    show ?thesis
    proof (cases y)
      case (Inl e)
      with run res ev1 quiet show ?thesis by (auto simp: bind_def intro: segment_quiet)
    next
      case (Inr out)
      with run res have cm: "commit_outcome D out u' = (r, t)" by (simp add: bind_def)
      have "if outcome_checkpoint out = None then de_sink_failure_policy D = SINK_FAIL_CLOSED
            else outcome_checkpoint out = Some v \<and> written_settled D p raw (act @ ev1)"
        using engine_resolve_trace [OF res [unfolded Inr]] ev1(1) act(1) accepted
        by (auto simp: written_settled_def intro: dead_lettered_mono split: if_splits)
      with commit_outcome_segment [OF cm ev1(1) quiet, where S = "written_settled D p raw" and v = v]
      obtain ev where "rs_trace t = rs_trace s @ ev" "ordered_segment (written_settled D p raw) v ev"
        "set (act @ ev1) \<subseteq> set ev" "r = Inr () \<Longrightarrow> written_settled D p raw (act @ ev1)"
        by blast
      with set show ?thesis by (metis written_settled_mono)
    qed
  qed
qed

lemma drop_record_emits: "steps_in (emits (\<lambda>_. True)) (drop_record D v failure os hook_record)"
  unfolding drop_record_def drop_failure_def
  by (cases failure; cases hook_record) (auto intro!: steps_intro)

lemma write_processed_record_emits:
  "steps_in (emits (\<lambda>_. True)) (write_processed_record D result raw v failure os)"
proof -
  have "steps_in (emits (\<lambda>_. True)) (commit_outcome D out)" for out
    unfolding commit_outcome_def by (cases out) (auto intro!: steps_intro)
  moreover have "steps_in (emits (\<lambda>_. True)) (write_error D p raw v os exc)" for p exc
    unfolding write_error_def by (auto intro!: steps_intro)
  ultimately show ?thesis
    unfolding write_processed_record_def try_write_def
    by (auto intro!: steps_intro drop_record_emits split: option.split sum.split)
qed

lemma write_processed_record_seg:
  assumes "write_processed_record D result raw v failure os s = (r, t)"
  shows "\<exists>ev. rs_trace t = rs_trace s @ ev \<and> ordered_segment (settled D raw result failure) v ev \<and>
     (r = Inr () \<longrightarrow> settled D raw result failure ev \<or> de_checkpoint_store D = None \<or> v = PNone) \<and>
     rs_pending t = rs_pending s"
  using write_processed_record_seg' [OF assms] steps_inD [OF write_processed_record_emits assms]
  by (auto simp: emits_def)

section \<open>A concrete engine\<close>

text \<open>
  An engine over the trivial environment, with which the properties are instantiated: the writer
  answers each record as \<open>w\<close> says, the dead-letter queue as \<open>dlq\<close> says, and the store and the hooks
  succeed.
\<close>

definition demo_engine ::
  "(pyobj \<Rightarrow> exn + WriteResult) \<Rightarrow> (DLQRecord \<Rightarrow> exn + unit) option \<Rightarrow> SinkFailurePolicy \<Rightarrow> int \<Rightarrow>
     unit DeliveryEngine" where
  "demo_engine w dlq policy every =
     \<lparr>de_pipeline_id = ''p'', de_run_id = ''r'', de_source_name = ''s'', de_lib = plain_lib,
      de_now = (\<lambda>_. ''now''), de_fence = None,
      de_write = (\<lambda>r e. (w r, e)),
      de_write_batch = (\<lambda>rs e. (if \<exists>r\<in>set rs. isl (w r) then Inl (projl (w (hd (filter (\<lambda>r. isl (w r)) rs))))
                               else Inr (map (\<lambda>r. projr (w r)) rs), e)),
      de_run_hook = (\<lambda>h e. (Inr (), e)), de_current_checkpoint = (\<lambda>_. PNone),
      de_dlq_sink = map_option (\<lambda>f rec e. (f rec, e)) dlq, de_dlq_failure_policy = DLQ_LOG_ONLY,
      de_dlq_redactor = None, de_sink_failure_policy = policy,
      de_checkpoint_store = Some (\<lambda>k c e. (Inr (), e)),
      de_checkpoint_failure_policy = CP_FAIL_CLOSED, de_checkpoint_key = ''k'',
      de_checkpoint_every = every, de_checkpoint_source_identity = None,
      de_batch_flush_interval_ms = None\<rparr>"

definition demo_obj :: "nat \<Rightarrow> pyobj" where
  "demo_obj i = \<lparr>ob_id = i, ob_val = PInt (int i)\<rparr>"

definition sink_ok :: "pyobj \<Rightarrow> exn + WriteResult" where
  "sink_ok r = Inr \<lparr>wr_written = True, wr_errors = []\<rparr>"

text \<open>A sink that rejects record 2.\<close>

definition sink_bad2 :: "pyobj \<Rightarrow> exn + WriteResult" where
  "sink_bad2 r = (if ob_id r = 2 then Inl (mk_exn ValueErrorC ''bad'')
                  else Inr \<lparr>wr_written = True, wr_errors = []\<rparr>)"

text \<open>
  C3. The order of the side effects of a single record: whatever the writer, the dead-letter queue,
  the store, the lease and the hooks do, \<open>write_processed_record\<close> appends to the trace first events
  that settle the record, then at most one checkpoint, which is the record's own, then hooks. A
  checkpoint is only handed to the store, and a success hook only started, after the record was
  settled: its sink accepted it, or the dead-letter queue took it, or it was dropped by the
  middleware, or the operator chose to log and continue. When the call returns without an exception
  the record is settled, unless there is no checkpoint to protect.
\<close>

theorem write_processed_record_order:
  assumes "write_processed_record D result raw v failure os s = (r, t)"
  shows "\<exists>ev. rs_trace t = rs_trace s @ ev \<and> ordered_segment (settled D raw result failure) v ev \<and>
     (r = Inr () \<longrightarrow> settled D raw result failure ev \<or> de_checkpoint_store D = None \<or> v = PNone)"
  using assms by (rule write_processed_record_seg')

theorem write_processed_record_order_witness:
  "\<exists>ev. rs_trace (snd (write_processed_record (demo_engine sink_ok None SINK_FAIL_CLOSED 1)
        (Some (demo_obj 1)) (demo_obj 1) (PInt 7) None (Some [5]) (init_state ()))) = ev \<and>
     ordered_segment (settled (demo_engine sink_ok None SINK_FAIL_CLOSED 1) (demo_obj 1)
       (Some (demo_obj 1)) None) (PInt 7) ev \<and>
     EHook 5 True \<in> set ev"
proof -
  let ?D = "demo_engine sink_ok None SINK_FAIL_CLOSED 1"
  let ?run = "write_processed_record ?D (Some (demo_obj 1)) (demo_obj 1) (PInt 7) None (Some [5]) (init_state ())"
  have "EHook 5 True \<in> set (rs_trace (snd ?run))" by code_simp
  moreover have "rs_trace (init_state ()) = []" by (simp add: init_state_def)
  ultimately show ?thesis
    using write_processed_record_order [OF surjective_pairing [of ?run]] by auto
qed

end
