(* ===== verification/Delivery_Batches.thy ===== *)
theory Delivery_Batches
  imports Delivery
begin

text \<open>
  What a batch flush of the delivery engine does to the trace: the events that settle the items, at
  most one checkpoint, then hooks, and all of it about a prefix of the batch that is settled.
\<close>

definition item_settled :: "'e DeliveryEngine \<Rightarrow> PendingWrite \<Rightarrow> event list \<Rightarrow> bool" where
  "item_settled D it ev = written_settled D (pw_processed it) (pw_raw it) ev"

definition batch_parts ::
  "'e DeliveryEngine \<Rightarrow> PendingWrite list \<Rightarrow> nat \<Rightarrow> event list \<Rightarrow> event list \<Rightarrow> event list \<Rightarrow> bool" where
  "batch_parts D items k act sv hk \<longleftrightarrow>
     k \<le> length items \<and> (\<forall>j<k. item_settled D (items ! j) act) \<and>
     list_all (\<lambda>e. \<not> is_save e \<and> \<not> is_hook e) act \<and>
     (sv = [] \<or> (\<exists>i<k. \<exists>c b. sv = [ESave c b] \<and> cp_value c = pw_checkpoint (items ! i))) \<and>
     list_all is_hook hk \<and> (k = 0 \<longrightarrow> hk = [])"

definition batch_segment ::
  "'e DeliveryEngine \<Rightarrow> PendingWrite list \<Rightarrow> bool \<Rightarrow> event list \<Rightarrow> bool" where
  "batch_segment D items whole ev \<longleftrightarrow> (\<exists>k act sv hk. ev = act @ sv @ hk \<and>
     batch_parts D items k act sv hk \<and> (whole \<longrightarrow> k = length items))"

lemma batch_segmentI:
  "ev = act @ sv @ hk \<Longrightarrow> batch_parts D items k act sv hk \<Longrightarrow> (whole \<Longrightarrow> k = length items) \<Longrightarrow>
     batch_segment D items whole ev"
  unfolding batch_segment_def by blast

lemma batch_segment_quiet:
  "list_all (\<lambda>e. \<not> is_save e \<and> \<not> is_hook e) ev \<Longrightarrow> \<not> whole \<Longrightarrow> batch_segment D items whole ev"
  by (rule batch_segmentI [of _ ev "[]" "[]" _ _ 0]) (auto simp: batch_parts_def)

section \<open>The accumulators\<close>

text \<open>The accumulators after the items \<open>xs\<close>: what they hold comes from one of them.\<close>

definition acc_from :: "pyval list \<Rightarrow> pending_acc \<Rightarrow> bool" where
  "acc_from vs acc = (case acc of (pc, n, hooks) \<Rightarrow>
     (\<forall>c. pc = Some c \<longrightarrow> (\<exists>i<length vs. cp_value c = vs ! i)) \<and> (vs = [] \<longrightarrow> hooks = []))"

lemma acc_from_start [simp]: "acc_from [] (None, 0, [])"
  by (simp add: acc_from_def)

lemma acc_prepare_emits [steps_intro]: "steps_in (emits P) (acc_prepare D v os acc)"
  unfolding acc_prepare_def Let_def by (cases acc) (auto intro!: steps_intro)

lemma acc_prepare_trace:
  assumes "acc_prepare D v os acc s = (r, t)"
  shows "rs_trace t = rs_trace s \<and> (\<forall>acc'. r = Inr acc' \<longrightarrow> acc_from vs acc \<longrightarrow> acc_from (vs @ [v]) acc')"
proof -
  have "rs_trace t = rs_trace s"
    using steps_inD [OF acc_prepare_emits [of "\<lambda>_. False"] assms] by (simp add: emits_pure)
  moreover have "acc_from (vs @ [v]) acc'" if "r = Inr acc'" "acc_from vs acc" for acc'
  proof -
    obtain pc n hooks where acc: "acc = (pc, n, hooks)" by (cases acc)
    with assms that(1) obtain x where prep: "prepare_checkpoint D v s = (Inr x, t)"
      and acc': "acc' = (case x of None \<Rightarrow> (pc, n, hooks @ (case os of None \<Rightarrow> [] | Some hs \<Rightarrow> hs))
         | Some c \<Rightarrow> (Some c, n + 1, hooks @ (case os of None \<Rightarrow> [] | Some hs \<Rightarrow> hs)))"
      by (auto simp: acc_prepare_def Let_def bind_eq_Inr ret_def)
    show ?thesis
    proof (cases x)
      case None
      with acc acc' that(2) show ?thesis
        by (auto simp: acc_from_def nth_append)
    next
      case (Some c)
      with prep have "cp_value c = v" by (blast dest: prepare_value)
      with Some acc acc' that(2) show ?thesis
        by (auto simp: acc_from_def intro!: exI [of _ "length vs"])
    qed
  qed
  ultimately show ?thesis by blast
qed

lemma settle_pending_trace:
  assumes "settle_pending D acc s = (r, t)" and "acc_from vs acc"
  shows "\<exists>sv hk. rs_trace t = rs_trace s @ sv @ hk \<and>
     (sv = [] \<or> (\<exists>i<length vs. \<exists>c b. sv = [ESave c b] \<and> cp_value c = vs ! i)) \<and>
     list_all is_hook hk \<and> (vs = [] \<longrightarrow> hk = [])"
proof -
  obtain pc n hooks where acc: "acc = (pc, n, hooks)" by (cases acc)
  let ?save = "case pc of None \<Rightarrow> skip | Some c \<Rightarrow> persist_checkpoint D c n"
  obtain x u where sv: "?save s = (x, u)" by (cases "?save s")
  have save: "\<exists>sv. rs_trace u = rs_trace s @ sv \<and>
      (sv = [] \<or> (\<exists>i<length vs. \<exists>c b. sv = [ESave c b] \<and> cp_value c = vs ! i))"
  proof (cases pc)
    case None
    with sv show ?thesis by (simp add: skip_def ret_def)
  next
    case (Some c)
    with sv persist_trace [of D c n s x u] assms(2) acc show ?thesis by (auto simp: acc_from_def)
  qed
  have hooks: "steps_in (emits is_hook) (for_each hooks (run_hook D))" by (intro steps_intro) simp
  have "\<exists>hk. rs_trace t = rs_trace u @ hk \<and> list_all is_hook hk \<and> (vs = [] \<longrightarrow> hk = [])"
  proof (cases x)
    case (Inl e)
    with assms(1) acc sv show ?thesis by (simp add: settle_pending_def bind_def)
  next
    case (Inr y)
    then have "for_each hooks (run_hook D) u = (r, t)"
      using assms(1) acc sv by (simp add: settle_pending_def bind_def)
    with steps_inD [OF hooks this] assms(2) acc show ?thesis
      by (cases "vs = []") (auto simp: acc_from_def emits_def ret_def)
  qed
  with save show ?thesis by (elim exE conjE, intro exI conjI) auto
qed

lemma settle_pending_parts:
  assumes run: "settle_pending D acc s = (r, t)"
    and acc: "acc_from (map pw_checkpoint ps) acc"
    and act: "rs_trace s = rs_trace s0 @ act" "list_all (\<lambda>e. \<not> is_save e \<and> \<not> is_hook e) act"
      "\<forall>it\<in>set ps. item_settled D it act"
  shows "\<exists>ev. rs_trace t = rs_trace s0 @ ev \<and> batch_segment D (ps @ qs) (qs = []) ev"
proof -
  from settle_pending_trace [OF run acc] obtain sv hk where
    tr: "rs_trace t = rs_trace s @ sv @ hk"
    and sv: "sv = [] \<or> (\<exists>i<length (map pw_checkpoint ps). \<exists>c b. sv = [ESave c b] \<and>
      cp_value c = map pw_checkpoint ps ! i)"
    and hk: "list_all is_hook hk" "map pw_checkpoint ps = [] \<longrightarrow> hk = []" by blast
  have "batch_parts D (ps @ qs) (length ps) act sv hk"
    using act(2,3) sv hk by (auto simp: batch_parts_def nth_append)
  then have "batch_segment D (ps @ qs) (qs = []) (act @ sv @ hk)"
    by (rule batch_segmentI [OF refl]) simp
  with tr act(1) show ?thesis by auto
qed

section \<open>The loops\<close>

lemma item_settled_mono: "item_settled D it a \<Longrightarrow> set a \<subseteq> set b \<Longrightarrow> item_settled D it b"
  unfolding item_settled_def by (rule written_settled_mono)

lemma batch_segment_weaken: "batch_segment D items True ev \<Longrightarrow> batch_segment D items whole ev"
  unfolding batch_segment_def by blast

lemma flush_batch_loop_segment:
  assumes "flush_batch_loop D exc qs acc s = (r, t)"
    and "acc_from (map pw_checkpoint ps) acc"
    and "rs_trace s = rs_trace s0 @ act" "list_all (\<lambda>e. \<not> is_save e \<and> \<not> is_hook e) act"
      "\<forall>it\<in>set ps. item_settled D it act"
  shows "\<exists>ev. rs_trace t = rs_trace s0 @ ev \<and> batch_segment D (ps @ qs) (r = Inr ()) ev"
  using assms
proof (induction qs arbitrary: acc s ps act)
  case Nil
  from settle_pending_parts [OF _ Nil.prems(2-), of r t "[]"] Nil.prems(1) show ?case
    by (auto intro: batch_segment_weaken)
next
  case (Cons it qs)
  let ?raw = "pw_raw it" and ?p = "pw_processed it" and ?v = "pw_checkpoint it"
  obtain x u where dlq: "sink_dlq D exc ?raw ?p ?v s = (x, u)" by (cases "sink_dlq D exc ?raw ?p ?v s")
  from sink_dlq_trace [OF dlq] obtain ev1 where ev1: "rs_trace u = rs_trace s @ ev1"
    "list_all is_dlq ev1" "x = Inr True \<Longrightarrow> dead_lettered D ?raw ev1" by blast
  let ?act = "act @ ev1"
  have quiet: "list_all (\<lambda>e. \<not> is_save e \<and> \<not> is_hook e) ?act"
    using Cons.prems(4) ev1(2) list_all_quiet(1) by auto
  have old: "\<forall>it\<in>set ps. item_settled D it ?act"
    using Cons.prems(5) by (auto intro: item_settled_mono)
  show ?case
  proof (cases x)
    case (Inl e)
    then have "r = Inl e" "t = u" using Cons.prems(1) dlq by (auto simp: bind_def)
    with ev1(1) Cons.prems(3) quiet show ?thesis by (auto intro: batch_segment_quiet)
  next
    case (Inr routed)
    define u' where "u' = u\<lparr>rs_metrics := (rs_metrics u)\<lparr>m_records_errored := m_records_errored (rs_metrics u) + 1\<rparr>\<rparr>"
    have tr': "rs_trace u' = rs_trace s0 @ ?act" using ev1(1) Cons.prems(3) by (simp add: u'_def)
    have step: "incr_errored 1 u = (Inr (), u')" by (simp add: u'_def)
    show ?thesis
    proof (cases "routed \<or> de_sink_failure_policy D = SINK_LOG_AND_CONTINUE")
      case True
      let ?os = "if routed then pw_on_success it else None"
      have new: "item_settled D it ?act"
        using True ev1(3) Inr
        by (auto simp: item_settled_def written_settled_def intro: dead_lettered_mono)
      obtain y u'' where prep: "acc_prepare D ?v ?os acc u' = (y, u'')"
        by (cases "acc_prepare D ?v ?os acc u'")
      have run: "bind (\<lambda>_. (y, u'')) (flush_batch_loop D exc qs) u' = (r, t)"
        using Cons.prems(1) dlq Inr step True prep by (simp add: bind_def)
      from acc_prepare_trace [OF prep, of "map pw_checkpoint ps"] tr' Cons.prems(2)
      have tr'': "rs_trace u'' = rs_trace s0 @ ?act"
        and acc'': "\<And>acc'. y = Inr acc' \<Longrightarrow> acc_from (map pw_checkpoint (ps @ [it])) acc'" by auto
      show ?thesis
      proof (cases y)
        case (Inl e)
        with run tr'' quiet show ?thesis by (auto simp: bind_def intro: batch_segment_quiet)
      next
        case (Inr acc')
        with run have "flush_batch_loop D exc qs acc' u'' = (r, t)" by (simp add: bind_def)
        from Cons.IH [OF this acc'' [OF Inr] tr'' quiet] old new show ?thesis by auto
      qed
    next
      case False
      with Cons.prems(1) dlq Inr step have run:
        "bind (settle_pending D acc) (\<lambda>_. throw (RecordDeliveryError exc)) u' = (r, t)"
        by (simp add: bind_def)
      then obtain z where "settle_pending D acc u' = (z, t)" "r \<noteq> Inr ()"
        by (cases r) (auto simp: bind_eq_Inl bind_eq_Inr throw_def)
      from settle_pending_parts [OF this(1) Cons.prems(2) tr' quiet old, of "it # qs"] this(2)
      show ?thesis by auto
    qed
  qed
qed

text \<open>An outcome that goes with an item of the batch.\<close>

definition outcome_for :: "'e DeliveryEngine \<Rightarrow> event list \<Rightarrow> PendingWrite \<Rightarrow> CommitOutcome \<Rightarrow> bool" where
  "outcome_for D act it out \<longleftrightarrow>
     (if outcome_checkpoint out = None then de_sink_failure_policy D = SINK_FAIL_CLOSED
      else outcome_checkpoint out = Some (pw_checkpoint it) \<and> item_settled D it act)"

lemma commit_loop_step:
  assumes "outcome_checkpoint out = Some v"
  obtains h where "commit_loop D (out # os) acc = bind (acc_prepare D v h acc) (commit_loop D os)"
  using assms by (cases out) auto

lemma commit_loop_segment:
  assumes "commit_loop D os acc s = (r, t)" and "list_all2 (outcome_for D act) qs os"
    and "acc_from (map pw_checkpoint ps) acc"
    and "rs_trace s = rs_trace s0 @ act" "list_all (\<lambda>e. \<not> is_save e \<and> \<not> is_hook e) act"
      "\<forall>it\<in>set ps. item_settled D it act"
  shows "\<exists>ev. rs_trace t = rs_trace s0 @ ev \<and> batch_segment D (ps @ qs) (r = Inr ()) ev"
  using assms
proof (induction os arbitrary: qs acc s ps)
  case Nil
  from settle_pending_parts [OF _ Nil.prems(3-), of r t "[]"] Nil.prems(1,2) show ?case
    by (auto intro: batch_segment_weaken)
next
  case (Cons out os)
  then obtain it qs' where qs: "qs = it # qs'" "outcome_for D act it out" "list_all2 (outcome_for D act) qs' os"
    by (auto simp: list_all2_Cons2)
  show ?case
  proof (cases "outcome_checkpoint out")
    case None
    then obtain e where "out = ErroredUnrouted e" by (cases out) auto
    with None qs(2) Cons.prems(1) have
      "bind (settle_pending D acc) (\<lambda>_. throw (RecordDeliveryError e)) s = (r, t)"
      by (simp add: outcome_for_def)
    then obtain z where "settle_pending D acc s = (z, t)" "r \<noteq> Inr ()"
      by (cases r) (auto simp: bind_eq_Inl bind_eq_Inr throw_def)
    from settle_pending_parts [OF this(1) Cons.prems(3-), of "qs"] this(2) qs(1)
    show ?thesis by auto
  next
    case (Some v)
    with qs(2) have v: "v = pw_checkpoint it" and new: "item_settled D it act"
      by (auto simp: outcome_for_def)
    obtain h where eq: "commit_loop D (out # os) acc = bind (acc_prepare D v h acc) (commit_loop D os)"
      using Some by (rule commit_loop_step)
    obtain y u where prep: "acc_prepare D v h acc s = (y, u)" by (cases "acc_prepare D v h acc s")
    from acc_prepare_trace [OF prep, of "map pw_checkpoint ps"] Cons.prems(3,4) v
    have tr: "rs_trace u = rs_trace s0 @ act"
      and acc': "\<And>acc'. y = Inr acc' \<Longrightarrow> acc_from (map pw_checkpoint (ps @ [it])) acc'" by auto
    show ?thesis
    proof (cases y)
      case (Inl e)
      with Cons.prems(1) eq prep tr Cons.prems(5) show ?thesis
        by (auto simp: bind_def intro: batch_segment_quiet)
    next
      case (Inr acc1)
      with Cons.prems(1) eq prep have "commit_loop D os acc1 u = (r, t)" by (simp add: bind_def)
      from Cons.IH [OF this qs(3) acc' [OF Inr] tr Cons.prems(5)] Cons.prems(6) new qs(1)
      show ?thesis by auto
    qed
  qed
qed

lemma success_batch_is_commit:
  "fold_m (\<lambda>it. acc_prepare D (pw_checkpoint it) (pw_on_success it)) batch acc s = (r, u) \<Longrightarrow>
   commit_loop D (map (\<lambda>it. Written (pw_checkpoint it) (pw_on_success it)) batch) acc s =
     bind (\<lambda>_. (r, u)) (settle_pending D) s"
proof (induction batch arbitrary: acc s)
  case Nil
  then show ?case by (auto simp: ret_def bind_def)
next
  case (Cons it batch)
  then show ?case by (auto simp: bind_def split: prod.splits sum.splits)
qed

section \<open>A flush of the pending writes\<close>

lemma try_write_eq:
  "m s = (x, u) \<Longrightarrow> try_write m h k s = (case x of
     Inr y \<Rightarrow> k y | Inl e \<Rightarrow> if isinstance e FenceLostErrorC \<or> \<not> is_Exception e then throw e else h e) u"
  by (cases x) (simp_all add: try_write_def bind_def attempt_def)

lemma resolve_items_emits [steps_intro]:
  "(\<And>r b. P (EDlq r b)) \<Longrightarrow> steps_in (emits P) (resolve_items D pairs)"
  unfolding resolve_items_def by (auto intro!: steps_intro split: prod.split)

lemma settle_pending_emits [steps_intro]:
  "(\<And>c b. P (ESave c b)) \<Longrightarrow> (\<And>h b. P (EHook h b)) \<Longrightarrow> steps_in (emits P) (settle_pending D acc)"
  unfolding settle_pending_def by (auto intro!: steps_intro split: prod.split option.split)

lemma flush_batch_loop_emits:
  "steps_in (emits (\<lambda>e. is_dlq e \<or> is_save e \<or> is_hook e)) (flush_batch_loop D exc items acc)"
  by (induction items arbitrary: acc) (auto intro!: steps_intro)

lemma commit_loop_emits:
  "steps_in (emits (\<lambda>e. is_save e \<or> is_hook e)) (commit_loop D os acc)"
proof (induction os arbitrary: acc)
  case (Cons out os)
  then show ?case by (cases out) (auto intro!: steps_intro)
qed (auto intro!: steps_intro)

lemma resolve_items_outcomes:
  assumes "resolve_items D (zip items ws) s = (Inr outs, t)" "length ws = length items"
  shows "\<exists>ev. rs_trace t = rs_trace s @ ev \<and> list_all is_dlq ev \<and>
     (\<forall>act. (\<forall>i<length items. wr_errors (ws ! i) = [] \<longrightarrow> sink_accepted (pw_processed (items ! i)) act) \<longrightarrow>
        set ev \<subseteq> set act \<longrightarrow> list_all2 (outcome_for D act) items outs)"
  using assms
proof (induction items arbitrary: ws s outs)
  case Nil
  then show ?case by (auto simp: resolve_items_def ret_def intro: exI [of _ "[]"])
next
  case (Cons it items)
  then obtain w ws' where ws: "ws = w # ws'" by (cases ws) auto
  from Cons.prems(1) obtain out u outs' where
    res: "engine_resolve_write_result D w (pw_raw it) (pw_processed it) (pw_checkpoint it) (pw_on_success it) s
      = (Inr out, u)"
    and rest: "resolve_items D (zip items ws') u = (Inr outs', t)" and outs: "outs = out # outs'"
    by (auto simp: ws resolve_items_def bind_eq_Inr ret_def)
  from engine_resolve_trace [OF res] obtain ev1 where ev1: "rs_trace u = rs_trace s @ ev1" "list_all is_dlq ev1"
    "if outcome_checkpoint out = None then de_sink_failure_policy D = SINK_FAIL_CLOSED
     else outcome_checkpoint out = Some (pw_checkpoint it) \<and>
       (wr_errors w = [] \<or> dead_lettered D (pw_raw it) ev1 \<or> de_sink_failure_policy D = SINK_LOG_AND_CONTINUE)"
    by blast
  from Cons.IH [OF rest] Cons.prems(2) ws obtain ev2 where ev2: "rs_trace t = rs_trace u @ ev2"
    "list_all is_dlq ev2"
    "\<And>act. (\<forall>i<length items. wr_errors (ws' ! i) = [] \<longrightarrow> sink_accepted (pw_processed (items ! i)) act) \<Longrightarrow>
        set ev2 \<subseteq> set act \<Longrightarrow> list_all2 (outcome_for D act) items outs'"
    by auto
  have "list_all2 (outcome_for D act) (it # items) outs"
    if acc: "\<forall>i<length (it # items). wr_errors (ws ! i) = [] \<longrightarrow> sink_accepted (pw_processed ((it # items) ! i)) act"
      and sub: "set (ev1 @ ev2) \<subseteq> set act" for act
  proof -
    have "outcome_for D act it out"
      using ev1(3) acc sub ws
      by (auto simp: outcome_for_def item_settled_def written_settled_def intro: dead_lettered_mono
          split: if_splits)
    moreover have "list_all2 (outcome_for D act) items outs'"
      using acc sub ws by (intro ev2(3)) fastforce+
    ultimately show ?thesis using outs by simp
  qed
  with ev1(1,2) ev2(1,2) show ?case by (intro exI [of _ "ev1 @ ev2"]) auto
qed

lemma commit_success_segment:
  assumes run: "commit_pending_write_success_batch D batch s = (r, t)"
    and act: "rs_trace s = rs_trace s0 @ act" "list_all (\<lambda>e. \<not> is_save e \<and> \<not> is_hook e) act"
      "\<forall>it\<in>set batch. item_settled D it act"
  shows "\<exists>ev. rs_trace t = rs_trace s0 @ ev \<and> batch_segment D batch (r = Inr ()) ev"
proof -
  let ?outs = "map (\<lambda>it. Written (pw_checkpoint it) (pw_on_success it)) batch"
  obtain u where u: "incr_written (int (length batch)) s = (Inr (), u)" "rs_trace u = rs_trace s"
    by (cases "incr_written (int (length batch)) s") auto
  let ?fold = "fold_m (\<lambda>it. acc_prepare D (pw_checkpoint it) (pw_on_success it)) batch (None, 0, [])"
  obtain x w where fold: "?fold u = (x, w)" by (cases "?fold u")
  have "commit_loop D ?outs (None, 0, []) u = (r, t)"
    using run u fold success_batch_is_commit [OF fold]
    by (simp add: commit_pending_write_success_batch_def bind_def)
  moreover have "list_all2 (outcome_for D act) batch ?outs"
    using act(3) by (auto simp: list_all2_conv_all_nth outcome_for_def)
  ultimately show ?thesis
    using commit_loop_segment [of D ?outs _ u r t act batch "[]" s0] u(2) act(1,2) by simp
qed

lemma flush_once_segment:
  assumes "flush_pending_writes_once D s = (r, t)"
  shows "\<exists>ev. rs_trace t = rs_trace s @ ev \<and> batch_segment D (rs_pending s) (r = Inr ()) ev"
proof (cases "rs_pending s = []")
  case True
  with assms show ?thesis
    by (auto simp: flush_pending_writes_once_def comb_simps batch_segment_def batch_parts_def)
next
  case False
  let ?batch = "rs_pending s" and ?s = "s\<lparr>rs_pending := []\<rparr>"
  let ?k = "\<lambda>ws. bind (validate_write_result_count (length ?batch) (length ws)) (\<lambda>_.
             if list_all wr_ok ws then commit_pending_write_success_batch D ?batch
             else bind (resolve_items D (zip ?batch ws)) (commit_outcomes D))"
  obtain x u where w: "write_batch D (map pw_processed ?batch) ?s = (x, u)"
    by (cases "write_batch D (map pw_processed ?batch) ?s")
  from write_batch_trace [OF w] obtain act where act: "rs_trace u = rs_trace s @ act"
    "list_all (\<lambda>e. \<not> is_save e \<and> \<not> is_hook e) act"
    "\<And>ws. x = Inr ws \<Longrightarrow> act = [EWrite (map pw_processed ?batch) (Inr ws)]"
    using list_all_quiet(3) by fastforce
  have run: "(case x of Inr ws \<Rightarrow> ?k ws
     | Inl e \<Rightarrow> if isinstance e FenceLostErrorC \<or> \<not> is_Exception e then throw e
              else flush_batch_outcomes D e ?batch) u = (r, t)"
    using assms False w
    by (simp add: flush_pending_writes_once_def Let_def
        try_write_eq [where m = "write_batch D (map pw_processed ?batch)" and s = ?s, OF w])
  show ?thesis
  proof (cases x)
    case (Inl e)
    show ?thesis
    proof (cases "isinstance e FenceLostErrorC \<or> \<not> is_Exception e")
      case True
      with run Inl act show ?thesis by (auto simp: throw_def intro: batch_segment_quiet)
    next
      case False
      with run Inl have "flush_batch_loop D e ?batch (None, 0, []) u = (r, t)"
        by (simp add: flush_batch_outcomes_def)
      from flush_batch_loop_segment [OF this, of "[]" s act] act show ?thesis by simp
    qed
  next
    case (Inr ws)
    show ?thesis
    proof (cases "length ws = length ?batch")
      case False
      with run Inr act show ?thesis
        by (auto simp: validate_write_result_count_def throw_def bind_def intro: batch_segment_quiet)
    next
      case len: True
      have acc: "sink_accepted (pw_processed (?batch ! i)) (act @ ev)"
        if "i < length ?batch" "wr_errors (ws ! i) = []" for i ev
        using act(3) [OF Inr] that len unfolding sink_accepted_def
        by (intro exI [of _ "map pw_processed ?batch"] exI [of _ ws] exI [of _ i]) simp
      show ?thesis
      proof (cases "list_all wr_ok ws")
        case True
        with run Inr len have "commit_pending_write_success_batch D ?batch u = (r, t)"
          by (simp add: validate_write_result_count_def skip_def)
        moreover have "\<forall>it\<in>set ?batch. item_settled D it act"
          using acc [of _ "[]"] True len
          by (auto simp: in_set_conv_nth item_settled_def written_settled_def list_all_length wr_ok_def)
        ultimately show ?thesis using commit_success_segment act(1,2) by blast
      next
        case False
        with run Inr len have rest: "bind (resolve_items D (zip ?batch ws)) (commit_outcomes D) u = (r, t)"
          by (simp add: validate_write_result_count_def skip_def)
        obtain y u' where res: "resolve_items D (zip ?batch ws) u = (y, u')"
          by (cases "resolve_items D (zip ?batch ws) u")
        show ?thesis
        proof (cases y)
          case (Inl e)
          from steps_inD [OF resolve_items_emits [of is_dlq] res] obtain ev where
            "rs_trace u' = rs_trace u @ ev" "list_all is_dlq ev" by (auto simp: emits_def)
          with rest res Inl act show ?thesis
            by (auto simp: bind_def dest: list_all_quiet intro!: batch_segment_quiet)
        next
          case (Inr outs)
          from resolve_items_outcomes [OF res [unfolded Inr] len] obtain ev where
            ev: "rs_trace u' = rs_trace u @ ev" "list_all is_dlq ev"
            and outs: "\<And>a. (\<forall>i<length ?batch. wr_errors (ws ! i) = [] \<longrightarrow>
                sink_accepted (pw_processed (?batch ! i)) a) \<Longrightarrow> set ev \<subseteq> set a \<Longrightarrow>
                list_all2 (outcome_for D a) ?batch outs" by blast
          have "list_all2 (outcome_for D (act @ ev)) ?batch outs" using acc by (intro outs) auto
          moreover have "commit_loop D outs (None, 0, []) u' = (r, t)"
            using rest res Inr by (simp add: bind_def commit_outcomes_def)
          moreover have "rs_trace u' = rs_trace s @ (act @ ev)" using ev(1) act(1) by simp
          moreover have "list_all (\<lambda>e. \<not> is_save e \<and> \<not> is_hook e) (act @ ev)"
            using act(2) list_all_quiet(1) [OF ev(2)] by simp
          ultimately show ?thesis
            using commit_loop_segment [of D outs _ u' r t "act @ ev" ?batch "[]" s] by simp
        qed
      qed
    qed
  qed
qed

end
