(* ===== verification/Middleware.thy ===== *)
theory Middleware
  imports Run_State
begin

text \<open>
  \<^verbatim>\<open>core/middleware\<close> and the batch protocols of \<^verbatim>\<open>core/batch.py\<close>: the middleware chain, one record or
  one batch at a time, and the built-in stages.

  A stage is application code: \<open>process\<close> and \<open>on_error\<close> are arbitrary computations. What kind of class
  the stage is decides how \<open>apply_in_batch\<close> treats it. The optional Rust executor for chains of
  synchronous built-ins is outside the sources and off by default; the two Python loops of
  \<open>process_range_outcome\<close> differ only in tracing and are one loop here. Waiting (\<open>asyncio.sleep\<close>) has
  no effect on the state, and \<open>asyncio.gather\<close> runs its coroutines in order.
\<close>

section \<open>Stages\<close>

datatype 'e stage_kind =
    PerRecord
  | SyncMap "pyobj \<Rightarrow> ('e, pyobj option) run"
  | SyncFilter "pyobj \<Rightarrow> ('e, bool) run"
  | WholeBatch "pyobj list \<Rightarrow> ('e, pyobj option list) run"
  | ArrowStage

record 'e Middleware =
  mw_name :: string
  mw_process :: "pyobj \<Rightarrow> ('e, pyobj option) run"
  mw_on_error :: "pyobj \<Rightarrow> exn \<Rightarrow> ('e, unit) run"
  mw_kind :: "'e stage_kind"

record BatchFailure =
  bf_exception :: exn
  bf_middleware :: string

text \<open>
  \<open>bp_same\<close> says that \<open>results\<close> is the very list object that was passed in, which delivery tests with
  \<open>results is raw_batch\<close>.
\<close>

record BatchProcessResult =
  bp_results :: "pyobj option list"
  bp_failure :: "BatchFailure option"
  bp_same :: bool

section \<open>Stage metrics\<close>

definition new_mw_metrics :: MiddlewareMetrics where
  "new_mw_metrics = \<lparr>mm_records_in = 0, mm_records_out = 0, mm_records_dropped = 0, mm_records_errored = 0\<rparr>"

definition mw_metrics :: "string \<Rightarrow> Metrics \<Rightarrow> MiddlewareMetrics" where
  "mw_metrics name m = (case map_of (m_by_middleware m) name of None \<Rightarrow> new_mw_metrics | Some x \<Rightarrow> x)"

definition upd_mw :: "string \<Rightarrow> (MiddlewareMetrics \<Rightarrow> MiddlewareMetrics) \<Rightarrow> ('e, unit) run" where
  "upd_mw name f = upd_metrics (\<lambda>m.
     m\<lparr>m_by_middleware := AList.update name (f (mw_metrics name m)) (m_by_middleware m)\<rparr>)"

definition mw_in :: "int \<Rightarrow> MiddlewareMetrics \<Rightarrow> MiddlewareMetrics" where
  "mw_in n x = x\<lparr>mm_records_in := mm_records_in x + n\<rparr>"
definition mw_out :: "int \<Rightarrow> MiddlewareMetrics \<Rightarrow> MiddlewareMetrics" where
  "mw_out n x = x\<lparr>mm_records_out := mm_records_out x + n\<rparr>"
definition mw_dropped :: "int \<Rightarrow> MiddlewareMetrics \<Rightarrow> MiddlewareMetrics" where
  "mw_dropped n x = x\<lparr>mm_records_dropped := mm_records_dropped x + n\<rparr>"
definition mw_errored :: "int \<Rightarrow> MiddlewareMetrics \<Rightarrow> MiddlewareMetrics" where
  "mw_errored n x = x\<lparr>mm_records_errored := mm_records_errored x + n\<rparr>"

section \<open>The chain, one record at a time\<close>

definition mw_failure :: "'e Middleware \<Rightarrow> pyobj \<Rightarrow> exn \<Rightarrow> MiddlewareFailure" where
  "mw_failure m record exc = \<lparr>mf_stage = ''middleware'', mf_exception = exc, mf_record = record,
     mf_middleware = Some (mw_name m)\<rparr>"

fun process_stages ::
  "pyobj \<Rightarrow> 'e Middleware list \<Rightarrow> pyobj \<Rightarrow> ('e, pyobj option \<times> MiddlewareFailure option) run" where
  "process_stages record [] current = ret (Some current, None)"
| "process_stages record (m # ms) current =
     bind (upd_mw (mw_name m) (mw_in 1)) (\<lambda>_.
     bind (attempt (mw_process m current)) (\<lambda>r. case r of
       Inl e \<Rightarrow>
         if \<not> is_Exception e then throw e
         else
           bind (upd_mw (mw_name m) (mw_errored 1)) (\<lambda>_.
           bind (mw_on_error m record e) (\<lambda>_.
             ret (None, Some (mw_failure m record e))))
     | Inr None \<Rightarrow>
         bind (upd_mw (mw_name m) (mw_dropped 1)) (\<lambda>_. ret (None, None))
     | Inr (Some c) \<Rightarrow>
         bind (modify (transfer_success_hooks current c)) (\<lambda>_.
         bind (upd_mw (mw_name m) (mw_out 1)) (\<lambda>_.
           process_stages record ms c))))"

definition process_range_outcome ::
  "'e Middleware list \<Rightarrow> nat \<Rightarrow> nat \<Rightarrow> pyobj \<Rightarrow> ('e, pyobj option \<times> MiddlewareFailure option) run" where
  "process_range_outcome mws start stop record =
     (if start \<ge> stop then ret (Some record, None)
      else process_stages record (drop start (take stop mws)) record)"

definition process_outcome ::
  "'e Middleware list \<Rightarrow> pyobj \<Rightarrow> ('e, pyobj option \<times> MiddlewareFailure option) run" where
  "process_outcome mws record =
     (if mws = [] then ret (Some record, None)
      else process_range_outcome mws 0 (length mws) record)"

section \<open>The chain, one batch at a time\<close>

text \<open>\<open>Middleware.apply_in_batch\<close>: a failure of a record becomes a \<open>None\<close> in the batch.\<close>

definition apply_per_record ::
  "'e Middleware list \<Rightarrow> nat \<Rightarrow> pyobj option list \<Rightarrow> ('e, pyobj option list) run" where
  "apply_per_record mws idx current = map_m (\<lambda>record. case record of
       None \<Rightarrow> ret None
     | Some r \<Rightarrow>
         bind (process_range_outcome mws idx (idx + 1) r) (\<lambda>(value, failure).
           ret (if failure \<noteq> None then None else value))) current"

text \<open>\<open>MapMiddleware._apply_sync_map_batch\<close> and \<open>FilterMiddleware._apply_sync_filter_batch\<close>.\<close>

record batch_counts =
  bc_dropped :: int
  bc_errors :: int
  bc_written :: int

definition active_count :: "pyobj option list \<Rightarrow> int" where
  "active_count current = int (length (filter (\<lambda>r. r \<noteq> None) current))"

definition sync_batch_step ::
  "'e Middleware \<Rightarrow> (pyobj \<Rightarrow> ('e, pyobj option) run) \<Rightarrow> pyobj option \<Rightarrow>
     pyobj option list \<times> batch_counts \<Rightarrow> ('e, pyobj option list \<times> batch_counts) run" where
  "sync_batch_step m fn record acc = (case acc of (next_batch, n) \<Rightarrow>
     (case record of
        None \<Rightarrow> ret (next_batch @ [None], n)
      | Some r \<Rightarrow>
          bind (attempt (fn r)) (\<lambda>x. case x of
            Inl e \<Rightarrow>
              if \<not> is_Exception e then throw e
              else bind (mw_on_error m r e) (\<lambda>_.
                     ret (next_batch @ [None], n\<lparr>bc_errors := bc_errors n + 1\<rparr>))
          | Inr None \<Rightarrow> ret (next_batch @ [None], n\<lparr>bc_dropped := bc_dropped n + 1\<rparr>)
          | Inr (Some v) \<Rightarrow> ret (next_batch @ [Some v], n\<lparr>bc_written := bc_written n + 1\<rparr>))))"

definition apply_sync_batch ::
  "'e Middleware \<Rightarrow> (pyobj \<Rightarrow> ('e, pyobj option) run) \<Rightarrow> pyobj option list \<Rightarrow>
     ('e, pyobj option list) run" where
  "apply_sync_batch m fn current =
     (if active_count current = 0 then ret current
      else
        bind (upd_mw (mw_name m) (mw_in (active_count current))) (\<lambda>_.
        bind (fold_m (sync_batch_step m fn) current
                ([], \<lparr>bc_dropped = 0, bc_errors = 0, bc_written = 0\<rparr>)) (\<lambda>(next_batch, n).
        bind (upd_mw (mw_name m) (mw_out (bc_written n) \<circ> mw_dropped (bc_dropped n) \<circ>
                mw_errored (bc_errors n))) (\<lambda>_.
          ret next_batch))))"

definition filter_fn :: "(pyobj \<Rightarrow> ('e, bool) run) \<Rightarrow> pyobj \<Rightarrow> ('e, pyobj option) run" where
  "filter_fn pred r = bind (pred r) (\<lambda>keep. ret (if keep then Some r else None))"

text \<open>\<open>BatchMiddleware.apply_in_batch\<close>: the results go back to the positions of the live records.\<close>

fun scatter :: "'a option list \<Rightarrow> 'a option list \<Rightarrow> 'a option list" where
  "scatter [] rs = []"
| "scatter (None # cs) rs = None # scatter cs rs"
| "scatter (Some c # cs) (r # rs) = r # scatter cs rs"
| "scatter (Some c # cs) [] = []"

definition somes :: "'a option list \<Rightarrow> 'a list" where
  "somes xs = map the (filter (\<lambda>x. x \<noteq> None) xs)"

definition apply_whole_batch ::
  "'e Middleware \<Rightarrow> (pyobj list \<Rightarrow> ('e, pyobj option list) run) \<Rightarrow> pyobj option list \<Rightarrow>
     ('e, BatchProcessResult + pyobj option list) run" where
  "apply_whole_batch m process_batch current =
     (let non_none = somes current in
      bind (upd_mw (mw_name m) (mw_in (int (length current)))) (\<lambda>_.
      bind (attempt (process_batch non_none)) (\<lambda>r. case r of
        Inl e \<Rightarrow>
          if \<not> is_Exception e then throw e
          else
            bind (upd_mw (mw_name m) (mw_errored (int (length non_none)))) (\<lambda>_.
              ret (Inl \<lparr>bp_results = [], bp_failure = Some \<lparr>bf_exception = e,
                        bf_middleware = mw_name m\<rparr>, bp_same = False\<rparr>))
      | Inr batch_results \<Rightarrow>
          if length batch_results \<noteq> length non_none
          then throw (mk_exn RuntimeErrorC ''BatchMiddleware returned a list of another length'')
          else
            let updated = (if None \<in> set current then scatter current batch_results else batch_results);
                nones = (\<lambda>xs. int (length (filter (\<lambda>x. x = None) xs)));
                dropped = nones updated - nones current
            in
            bind (upd_mw (mw_name m) (mw_out (active_count updated) \<circ> mw_dropped (max 0 dropped))) (\<lambda>_.
              ret (Inr updated)))))"

definition apply_in_batch ::
  "'e Middleware list \<Rightarrow> nat \<Rightarrow> pyobj option list \<Rightarrow> ('e, BatchProcessResult + pyobj option list) run" where
  "apply_in_batch mws idx current =
     (let m = mws ! idx in
      case mw_kind m of
        PerRecord \<Rightarrow> bind (apply_per_record mws idx current) (\<lambda>c. ret (Inr c))
      | SyncMap fn \<Rightarrow> bind (apply_sync_batch m fn current) (\<lambda>c. ret (Inr c))
      | SyncFilter pred \<Rightarrow> bind (apply_sync_batch m (filter_fn pred) current) (\<lambda>c. ret (Inr c))
      | WholeBatch pb \<Rightarrow> apply_whole_batch m pb current
      | ArrowStage \<Rightarrow> ret (Inr current))"

text \<open>The loop \<open>for idx in range(start, stop)\<close> with its early return.\<close>

fun process_batch_stages ::
  "'e Middleware list \<Rightarrow> nat list \<Rightarrow> pyobj option list \<Rightarrow> ('e, BatchProcessResult) run" where
  "process_batch_stages mws [] current =
     ret \<lparr>bp_results = current, bp_failure = None, bp_same = False\<rparr>"
| "process_batch_stages mws (idx # is) current =
     bind (apply_in_batch mws idx current) (\<lambda>r. case r of
       Inl result \<Rightarrow> ret result
     | Inr current' \<Rightarrow> process_batch_stages mws is current')"

definition process_batch_range ::
  "'e Middleware list \<Rightarrow> nat \<Rightarrow> nat \<Rightarrow> pyobj list \<Rightarrow> ('e, BatchProcessResult) run" where
  "process_batch_range mws start stop records =
     process_batch_stages mws [start..<stop] (map Some records)"

definition process_batch :: "'e Middleware list \<Rightarrow> pyobj list \<Rightarrow> ('e, BatchProcessResult) run" where
  "process_batch mws records =
     (if mws = [] then ret \<lparr>bp_results = map Some records, bp_failure = None, bp_same = True\<rparr>
      else process_batch_range mws 0 (length mws) records)"

section \<open>Built-in stages\<close>

definition log_only :: "pyobj \<Rightarrow> exn \<Rightarrow> ('e, unit) run" where
  "log_only record exc = skip"

definition MapMiddleware :: "string \<Rightarrow> bool \<Rightarrow> (pyobj \<Rightarrow> ('e, pyobj option) run) \<Rightarrow> 'e Middleware" where
  "MapMiddleware name is_async fn = \<lparr>mw_name = name, mw_process = fn, mw_on_error = log_only,
     mw_kind = (if is_async then PerRecord else SyncMap fn)\<rparr>"

definition FilterMiddleware :: "string \<Rightarrow> bool \<Rightarrow> (pyobj \<Rightarrow> ('e, bool) run) \<Rightarrow> 'e Middleware" where
  "FilterMiddleware name is_async pred = \<lparr>mw_name = name, mw_process = filter_fn pred,
     mw_on_error = log_only, mw_kind = (if is_async then PerRecord else SyncFilter pred)\<rparr>"

text \<open>\<open>BatchMiddleware.process\<close>, the per-record fallback of a batch stage.\<close>

definition batch_process_one ::
  "(pyobj list \<Rightarrow> ('e, pyobj option list) run) \<Rightarrow> pyobj \<Rightarrow> ('e, pyobj option) run" where
  "batch_process_one pb record =
     bind (pb [record]) (\<lambda>results. ret (case results of [] \<Rightarrow> None | r # _ \<Rightarrow> r))"

definition BatchStage ::
  "string \<Rightarrow> (pyobj list \<Rightarrow> ('e, pyobj option list) run) \<Rightarrow> 'e Middleware" where
  "BatchStage name pb = \<lparr>mw_name = name, mw_process = batch_process_one pb, mw_on_error = log_only,
     mw_kind = WholeBatch pb\<rparr>"

definition BatchMapMiddleware :: "string \<Rightarrow> (pyobj \<Rightarrow> ('e, pyobj option) run) \<Rightarrow> 'e Middleware" where
  "BatchMapMiddleware name fn = BatchStage name (map_m fn)"

definition BatchFilterMiddleware :: "string \<Rightarrow> (pyobj \<Rightarrow> ('e, bool) run) \<Rightarrow> 'e Middleware" where
  "BatchFilterMiddleware name pred = BatchStage name (\<lambda>records.
     bind (map_m pred records) (\<lambda>keeps.
       ret (map (\<lambda>(record, keep). if keep then Some record else None) (zip records keeps))))"

text \<open>
  \<open>RouteMiddleware.process\<close>; \<open>routes\<close> is the dictionary in insertion order. A missing route drops
  the record. The failing sub-stage's \<open>on_error\<close> runs before the exception goes on.
\<close>

definition route_process ::
  "(pyobj \<Rightarrow> ('e, string) run) \<Rightarrow> (string \<times> 'e Middleware) list \<Rightarrow> 'e Middleware option \<Rightarrow> pyobj \<Rightarrow>
     ('e, pyobj option) run" where
  "route_process key routes dflt record =
     bind (key record) (\<lambda>k.
       case (case map_of routes k of Some m \<Rightarrow> Some m | None \<Rightarrow> dflt) of
         None \<Rightarrow> ret None
       | Some m \<Rightarrow>
           bind (upd_mw (mw_name m) (mw_in 1)) (\<lambda>_.
           bind (attempt (mw_process m record)) (\<lambda>r. case r of
             Inl e \<Rightarrow>
               if \<not> is_Exception e then throw e
               else bind (upd_mw (mw_name m) (mw_errored 1)) (\<lambda>_.
                    bind (mw_on_error m record e) (\<lambda>_. throw e))
           | Inr None \<Rightarrow> bind (upd_mw (mw_name m) (mw_dropped 1)) (\<lambda>_. ret None)
           | Inr (Some v) \<Rightarrow> bind (upd_mw (mw_name m) (mw_out 1)) (\<lambda>_. ret (Some v)))))"

definition RouteMiddleware ::
  "string \<Rightarrow> (pyobj \<Rightarrow> ('e, string) run) \<Rightarrow> (string \<times> 'e Middleware) list \<Rightarrow> 'e Middleware option \<Rightarrow>
     'e Middleware" where
  "RouteMiddleware name key routes dflt = \<lparr>mw_name = name,
     mw_process = route_process key routes dflt, mw_on_error = log_only, mw_kind = PerRecord\<rparr>"

text \<open>
  \<open>RetryMiddleware.process\<close>: \<open>attempt\<close> runs over \<open>range(1, max_retries + 2)\<close>; with a negative
  \<open>max_retries\<close> the loop is empty and the final \<open>raise\<close> is reached.
\<close>

function retry_loop ::
  "(pyobj \<Rightarrow> ('e, pyobj option) run) \<Rightarrow> exn_class list \<Rightarrow> int \<Rightarrow> int \<Rightarrow> pyobj \<Rightarrow> ('e, pyobj option) run" where
  "retry_loop inner excs max_retries n record =
     (if n \<ge> max_retries + 2 then throw (mk_exn RuntimeErrorC ''Unreachable'')
      else
        bind (attempt (inner record)) (\<lambda>r. case r of
          Inr v \<Rightarrow> ret v
        | Inl e \<Rightarrow>
            if \<not> (\<exists>c\<in>set excs. isinstance e c) then throw e
            else if n > max_retries then throw e
            else retry_loop inner excs max_retries (n + 1) record))"
  by pat_completeness auto
termination by (relation "measure (\<lambda>(_, _, m, n, _). nat (m + 2 - n))") auto

declare retry_loop.simps [simp del]

definition RetryMiddleware :: "'e Middleware \<Rightarrow> int \<Rightarrow> exn_class list \<Rightarrow> 'e Middleware" where
  "RetryMiddleware inner max_retries excs = \<lparr>mw_name = ''retry('' @ mw_name inner @ '')'',
     mw_process = retry_loop (mw_process inner) excs max_retries 1, mw_on_error = log_only,
     mw_kind = PerRecord\<rparr>"

section \<open>Accounting of the stages\<close>

definition mw_balanced :: "Metrics \<Rightarrow> bool" where
  "mw_balanced m \<longleftrightarrow> (\<forall>name. let x = mw_metrics name m in
     mm_records_in x = mm_records_out x + mm_records_dropped x + mm_records_errored x)"

text \<open>Application code reaches the metrics of the chain only through the chain.\<close>

definition keeps_metrics :: "('e, 'a) run \<Rightarrow> bool" where
  "keeps_metrics = steps_in (\<lambda>s t. m_by_middleware (rs_metrics t) = m_by_middleware (rs_metrics s))"

lemma mw_metrics_upd:
  "mw_metrics n (m\<lparr>m_by_middleware := AList.update k x (m_by_middleware m)\<rparr>) =
     (if n = k then x else mw_metrics n m)"
  by (simp add: mw_metrics_def update_conv')

lemma mw_metrics_cong: "m_by_middleware a = m_by_middleware b \<Longrightarrow> mw_metrics n a = mw_metrics n b"
  by (simp add: mw_metrics_def)

text \<open>How far the books of a stage are from balancing.\<close>

definition mw_open :: "string \<Rightarrow> 'e rstate \<Rightarrow> int" where
  "mw_open n s = (let x = mw_metrics n (rs_metrics s) in
     mm_records_in x - mm_records_out x - mm_records_dropped x - mm_records_errored x)"

lemma mw_balanced_open: "mw_balanced (rs_metrics s) \<longleftrightarrow> (\<forall>n. mw_open n s = 0)"
  by (auto simp: mw_balanced_def mw_open_def Let_def algebra_simps)

lemma upd_mw_open:
  "upd_mw k f s = (r, t) \<Longrightarrow> mw_open n t = (if n = k then
     (let x = f (mw_metrics k (rs_metrics s)) in
        mm_records_in x - mm_records_out x - mm_records_dropped x - mm_records_errored x)
     else mw_open n s)"
  by (auto simp: upd_mw_def upd_metrics_def modify_def mw_open_def mw_metrics_upd)

lemma keeps_open: "keeps_metrics m \<Longrightarrow> m s = (r, t) \<Longrightarrow> mw_open n t = mw_open n s"
  unfolding keeps_metrics_def mw_open_def Let_def
  by (drule (1) steps_inD) (simp add: mw_metrics_cong [of "rs_metrics t" "rs_metrics s"])

lemma transfer_open [simp]: "mw_open n (transfer_success_hooks a b s) = mw_open n s"
  by (simp add: mw_open_def transfer_success_hooks_def Let_def)

lemma process_stages_open:
  assumes "process_stages record ms current s = (Inr x, t)"
    and "\<forall>m\<in>set ms. (\<forall>r. keeps_metrics (mw_process m r)) \<and> (\<forall>r e. keeps_metrics (mw_on_error m r e))"
  shows "mw_open n t = mw_open n s"
  using assms
proof (induction ms arbitrary: current s)
  case Nil
  then show ?case by (simp add: ret_def)
next
  case (Cons m ms)
  obtain s1 where s1: "upd_mw (mw_name m) (mw_in 1) s = (Inr (), s1)"
    by (simp add: upd_mw_def upd_metrics_def modify_def)
  obtain y s2 where y: "mw_process m current s1 = (y, s2)" by (cases "mw_process m current s1")
  have open1: "mw_open n s1 = mw_open n s + (if n = mw_name m then 1 else 0)"
    using upd_mw_open [OF s1] by (simp add: mw_open_def Let_def mw_in_def)
  have open2: "mw_open n s2 = mw_open n s1" using keeps_open [of "mw_process m current"] y Cons.prems(2) by simp
  consider (err) e where "y = Inl e" | (drop) "y = Inr None" | (go) c where "y = Inr (Some c)"
    by (metis option.exhaust sum.exhaust)
  then show ?case
  proof cases
    case err
    with Cons.prems(1) s1 y obtain s3 where "upd_mw (mw_name m) (mw_errored 1) s2 = (Inr (), s3)"
      "mw_on_error m record e s3 = (Inr (), t)"
      by (auto simp: bind_eq_Inr attempt_eq_Inr ret_def throw_def upd_mw_def upd_metrics_def modify_def
          split: if_splits)
    then show ?thesis
      using upd_mw_open [of "mw_name m" "mw_errored 1" s2 _ s3] keeps_open [of "mw_on_error m record e" s3]
        Cons.prems(2) open1 open2 by (auto simp: mw_open_def Let_def mw_errored_def)
  next
    case drop
    with Cons.prems(1) s1 y have "upd_mw (mw_name m) (mw_dropped 1) s2 = (Inr (), t)"
      by (auto simp: bind_eq_Inr attempt_eq_Inr ret_def)
    then show ?thesis
      using upd_mw_open [of "mw_name m" "mw_dropped 1" s2 _ t] open1 open2
      by (auto simp: mw_open_def Let_def mw_dropped_def)
  next
    case go
    with Cons.prems(1) s1 y obtain s4 where
      s4: "upd_mw (mw_name m) (mw_out 1) (transfer_success_hooks current c s2) = (Inr (), s4)"
      and rest: "process_stages record ms c s4 = (Inr x, t)"
      by (auto simp: bind_eq_Inr attempt_eq_Inr)
    from Cons.IH [OF rest] Cons.prems(2) have "mw_open n t = mw_open n s4" by simp
    moreover have "mw_open n s4 = mw_open n s2 - (if n = mw_name m then 1 else 0)"
      using upd_mw_open [OF s4] transfer_open [of n current c s2]
      by (auto simp: mw_open_def Let_def mw_out_def)
    ultimately show ?thesis using open1 open2 by simp
  qed
qed

text \<open>
  C11. Every record that enters a stage leaves it in the books exactly once: when the chain returns,
  \<open>records_in = records_out + records_dropped + records_errored\<close> holds for every stage it held for,
  whatever mix of results, drops and exceptions the stages produced.
\<close>

theorem process_outcome_balanced:
  assumes "process_outcome mws record s = (Inr x, t)"
    and "\<forall>m\<in>set mws. (\<forall>r. keeps_metrics (mw_process m r)) \<and> (\<forall>r e. keeps_metrics (mw_on_error m r e))"
    and "mw_balanced (rs_metrics s)"
  shows "mw_balanced (rs_metrics t)"
proof (cases "mws = []")
  case True
  with assms show ?thesis by (simp add: process_outcome_def ret_def)
next
  case False
  then have "process_stages record mws record s = (Inr x, t)"
    using assms(1) by (simp add: process_outcome_def process_range_outcome_def)
  from process_stages_open [OF this assms(2)] assms(3) show ?thesis by (simp add: mw_balanced_open)
qed

definition demo_stage :: "string \<Rightarrow> (pyobj \<Rightarrow> exn + pyobj option) \<Rightarrow> unit Middleware" where
  "demo_stage name f = MapMiddleware name False (\<lambda>r s. (f r, s))"

definition fails_on_2 :: "pyobj \<Rightarrow> exn + pyobj option" where
  "fails_on_2 r = (if ob_id r = 2 then Inl (mk_exn ValueErrorC ''bad'') else Inr (Some r))"

lemma demo_stage_keeps:
  "keeps_metrics (mw_process (demo_stage n f) r)" "keeps_metrics (mw_on_error (demo_stage n f) r e)"
  by (simp_all add: keeps_metrics_def steps_in_def demo_stage_def MapMiddleware_def log_only_def
      skip_def ret_def)

theorem process_outcome_balanced_witness:
  "mw_balanced (rs_metrics (snd (process_outcome [demo_stage ''a'' fails_on_2, demo_stage ''b'' fails_on_2]
      \<lparr>ob_id = 2, ob_val = PInt 2\<rparr> (init_state ())))) \<and>
   fst (process_outcome [demo_stage ''a'' fails_on_2, demo_stage ''b'' fails_on_2]
      \<lparr>ob_id = 2, ob_val = PInt 2\<rparr> (init_state ())) =
     Inr (None, Some \<lparr>mf_stage = ''middleware'', mf_exception = mk_exn ValueErrorC ''bad'',
       mf_record = \<lparr>ob_id = 2, ob_val = PInt 2\<rparr>, mf_middleware = Some ''a''\<rparr>)"
  (is "mw_balanced (rs_metrics (snd ?run)) \<and> fst ?run = Inr ?x")
proof
  show val: "fst ?run = Inr ?x" by code_simp
  have "mw_balanced (rs_metrics (init_state ()))"
    by (simp add: mw_balanced_def mw_metrics_def new_mw_metrics_def init_state_def empty_metrics_def)
  then show "mw_balanced (rs_metrics (snd ?run))"
    using process_outcome_balanced [OF surjective_pairing [of ?run, unfolded val]] demo_stage_keeps by auto
qed

section \<open>Success hooks follow the record\<close>

text \<open>Application code may register further hooks on any record, but does not remove hooks.\<close>

definition adds_hooks :: "('e, 'a) run \<Rightarrow> bool" where
  "adds_hooks = steps_in (\<lambda>s t. \<forall>i. subseq (rs_hooks s i) (rs_hooks t i))"

lemma adds_hooksD: "adds_hooks m \<Longrightarrow> m s = (r, t) \<Longrightarrow> subseq (rs_hooks s i) (rs_hooks t i)"
  unfolding adds_hooks_def by (drule (1) steps_inD) simp

lemma upd_mw_hooks [simp]: "upd_mw k f s = (r, t) \<Longrightarrow> rs_hooks t = rs_hooks s"
  by (auto simp: upd_mw_def upd_metrics_def modify_def)

lemma transfer_hooks: "subseq (rs_hooks s (ob_id a)) (rs_hooks (transfer_success_hooks a b s) (ob_id b))"
  by (auto simp: transfer_success_hooks_def Let_def intro: subseq_append)

lemma process_stages_hooks:
  assumes "process_stages record ms current s = (Inr (Some c, failure), t)"
    and "\<forall>m\<in>set ms. \<forall>r. adds_hooks (mw_process m r)"
  shows "subseq (rs_hooks s (ob_id current)) (rs_hooks t (ob_id c)) \<and> failure = None"
  using assms
proof (induction ms arbitrary: current s)
  case Nil
  then show ?case by (simp add: ret_def)
next
  case (Cons m ms)
  from Cons.prems(1) obtain s1 y s2 where s1: "upd_mw (mw_name m) (mw_in 1) s = (Inr (), s1)"
    and y: "mw_process m current s1 = (y, s2)"
    by (auto simp: bind_eq_Inr attempt_eq_Inr)
  with Cons.prems(1) obtain c' s4 where "y = Inr (Some c')"
    and s4: "upd_mw (mw_name m) (mw_out 1) (transfer_success_hooks current c' s2) = (Inr (), s4)"
    and rest: "process_stages record ms c' s4 = (Inr (Some c, failure), t)"
    by (auto simp: bind_eq_Inr attempt_eq_Inr ret_def throw_def modify_def
        split: sum.splits if_splits option.splits)
  have "subseq (rs_hooks s (ob_id current)) (rs_hooks s2 (ob_id current))"
    using adds_hooksD [of "mw_process m current" s1 y s2 "ob_id current"] y Cons.prems(2) s1 by simp
  also have "subseq \<dots> (rs_hooks s4 (ob_id c'))" using transfer_hooks [of s2 current c'] s4 by simp
  finally show ?case using Cons.IH [OF rest] Cons.prems(2) by (auto intro: subseq_order.trans)
qed

text \<open>
  Success hooks follow the record through the chain: every hook that was registered for the
  record before the chain ran is registered, in the same order, for the object that comes out of it,
  however many times the stages replaced the object by a new one.
\<close>

theorem process_outcome_hooks_follow:
  assumes "process_outcome mws record s = (Inr (Some c, failure), t)"
    and "\<forall>m\<in>set mws. \<forall>r. adds_hooks (mw_process m r)"
  shows "subseq (rs_hooks s (ob_id record)) (rs_hooks t (ob_id c))"
proof (cases "mws = []")
  case True
  with assms show ?thesis by (simp add: process_outcome_def ret_def)
next
  case False
  then have "process_stages record mws record s = (Inr (Some c, failure), t)"
    using assms(1) by (simp add: process_outcome_def process_range_outcome_def)
  from process_stages_hooks [OF this assms(2)] show ?thesis by simp
qed

definition renumber :: "nat \<Rightarrow> pyobj \<Rightarrow> exn + pyobj option" where
  "renumber k r = Inr (Some (r\<lparr>ob_id := ob_id r + k\<rparr>))"

theorem process_outcome_hooks_follow_witness:
  "subseq [7] (map fst (rs_hooks (snd (process_outcome [demo_stage ''a'' (renumber 10), demo_stage ''b'' (renumber 20)]
     \<lparr>ob_id = 1, ob_val = PNone\<rparr> (register_success_hook \<lparr>ob_id = 1, ob_val = PNone\<rparr> 7 None (init_state ())))) 31))"
proof -
  let ?s = "register_success_hook \<lparr>ob_id = 1, ob_val = PNone\<rparr> 7 None (init_state ()) :: unit rstate"
  let ?run = "process_outcome [demo_stage ''a'' (renumber 10), demo_stage ''b'' (renumber 20)]
     \<lparr>ob_id = 1, ob_val = PNone\<rparr> ?s"
  have val: "fst ?run = Inr (Some \<lparr>ob_id = 31, ob_val = PNone\<rparr>, None)" by code_simp
  have "\<forall>m\<in>set [demo_stage ''a'' (renumber 10), demo_stage ''b'' (renumber 20)]. \<forall>r. adds_hooks (mw_process m r)"
    by (simp add: adds_hooks_def steps_in_def demo_stage_def MapMiddleware_def)
  from process_outcome_hooks_follow [OF surjective_pairing [of ?run, unfolded val] this]
  have "subseq (map fst (rs_hooks ?s 1)) (map fst (rs_hooks (snd ?run) 31))"
    by (intro subseq_map) simp
  then show ?thesis by (simp add: register_success_hook_def init_state_def)
qed

section \<open>Row lane and batch lane compute the same values\<close>

text \<open>
  A stage without state: it answers each record by a function, its failures are exceptions, and in a
  batch it is one of the row-wise kinds.
\<close>

definition pure_stage :: "(pyobj \<Rightarrow> exn + pyobj option) \<Rightarrow> 'e Middleware \<Rightarrow> bool" where
  "pure_stage f m \<longleftrightarrow>
     (\<forall>r. mw_process m r = (\<lambda>s. (f r, s))) \<and> (\<forall>r e. mw_on_error m r e = skip) \<and>
     (\<forall>r e. f r = Inl e \<longrightarrow> is_Exception e) \<and>
     (mw_kind m = PerRecord \<or> mw_kind m = SyncMap (mw_process m) \<or>
      (\<exists>pred. mw_kind m = SyncFilter pred \<and> mw_process m = filter_fn pred))"

definition stage_value :: "(pyobj \<Rightarrow> exn + pyobj option) \<Rightarrow> pyobj option \<Rightarrow> pyobj option" where
  "stage_value f x = (case x of None \<Rightarrow> None | Some r \<Rightarrow> (case f r of Inl e \<Rightarrow> None | Inr v \<Rightarrow> v))"

lemma stage_value_simps [simp]:
  "stage_value f None = None"
  "stage_value f (Some r) = (case f r of Inl e \<Rightarrow> None | Inr v \<Rightarrow> v)"
  by (simp_all add: stage_value_def)

lemma process_stages_pure:
  assumes "list_all2 pure_stage fs ms"
  shows "\<exists>failure t. process_stages record ms current s = (Inr (fold stage_value fs (Some current), failure), t)
     \<and> (failure = None \<or> fold stage_value fs (Some current) = None)"
  using assms
proof (induction fs ms arbitrary: current s rule: list_all2_induct)
  case Nil
  show ?case by (simp add: ret_def)
next
  case (Cons f fs m ms)
  have dead: "fold stage_value fs None = None" by (induction fs) auto
  show ?case
  proof (cases "f current")
    case (Inl e)
    with Cons.hyps(1) dead show ?thesis
      by (auto simp: pure_stage_def bind_def attempt_def upd_mw_def upd_metrics_def modify_def
          skip_def ret_def)
  next
    case (Inr v)
    show ?thesis
    proof (cases v)
      case None
      with Inr Cons.hyps(1) dead show ?thesis
        by (auto simp: pure_stage_def bind_def attempt_def upd_mw_def upd_metrics_def modify_def
            ret_def)
    next
      case (Some c)
      with Inr Cons.hyps(1) Cons.IH [of c] show ?thesis
        by (auto simp: pure_stage_def bind_def attempt_def upd_mw_def upd_metrics_def modify_def
            ret_def)
    qed
  qed
qed

lemma map_m_pure:
  assumes "\<And>x s. x \<in> set xs \<Longrightarrow> \<exists>t. f x s = (Inr (g x), t)"
  shows "\<exists>t. map_m f xs s = (Inr (map g xs), t)"
  using assms
proof (induction xs arbitrary: s)
  case Nil
  show ?case by (simp add: ret_def)
next
  case (Cons x xs)
  from Cons.prems obtain u where "f x s = (Inr (g x), u)" by fastforce
  moreover from Cons obtain t where "map_m f xs u = (Inr (map g xs), t)" by fastforce
  ultimately show ?case by (auto simp: bind_def ret_def)
qed

lemma sync_fold_pure:
  assumes "\<And>r. fn r = (\<lambda>s. (f r, s))" "\<And>r e. mw_on_error m r e = skip"
    "\<And>r e. f r = Inl e \<Longrightarrow> is_Exception e"
  shows "\<exists>n' t. fold_m (sync_batch_step m fn) xs (acc, n) s = (Inr (acc @ map (stage_value f) xs, n'), t)"
proof (induction xs arbitrary: acc n s)
  case Nil
  show ?case by (simp add: ret_def)
next
  case (Cons x xs)
  have "\<exists>n' t. sync_batch_step m fn x (acc, n) s = (Inr (acc @ [stage_value f x], n'), t)"
    using assms
    by (auto simp: sync_batch_step_def bind_def attempt_def ret_def skip_def stage_value_def
        split: option.splits sum.splits)
  then obtain n' u where "sync_batch_step m fn x (acc, n) s = (Inr (acc @ [stage_value f x], n'), u)"
    by blast
  moreover obtain n'' t where
    "fold_m (sync_batch_step m fn) xs (acc @ [stage_value f x], n') u =
       (Inr ((acc @ [stage_value f x]) @ map (stage_value f) xs, n''), t)"
    using Cons.IH by blast
  ultimately show ?case by (auto simp: bind_def)
qed

lemma apply_in_batch_pure:
  assumes "idx < length mws" and "pure_stage f (mws ! idx)"
  shows "\<exists>t. apply_in_batch mws idx current s = (Inr (Inr (map (stage_value f) current)), t)"
proof -
  let ?m = "mws ! idx"
  have fn: "\<And>r. mw_process ?m r = (\<lambda>s. (f r, s))" and err: "\<And>r e. mw_on_error ?m r e = skip"
    and exc: "\<And>r e. f r = Inl e \<Longrightarrow> is_Exception e"
    using assms(2) by (auto simp: pure_stage_def)
  have sync: "\<exists>t. apply_sync_batch ?m (mw_process ?m) current s = (Inr (map (stage_value f) current), t)"
  proof (cases "active_count current = 0")
    case True
    then have "map (stage_value f) current = current"
      by (auto simp: active_count_def filter_empty_conv stage_value_def intro!: map_idI)
    with True show ?thesis by (simp add: apply_sync_batch_def ret_def)
  next
    case False
    let ?u = "snd (upd_mw (mw_name ?m) (mw_in (active_count current)) s)"
    obtain n' t where "fold_m (sync_batch_step ?m (mw_process ?m)) current
        ([], \<lparr>bc_dropped = 0, bc_errors = 0, bc_written = 0\<rparr>) ?u =
      (Inr ([] @ map (stage_value f) current, n'), t)"
      using sync_fold_pure [of "mw_process ?m" f ?m current "[]" _ ?u] fn err exc by blast
    with False show ?thesis
      by (simp add: apply_sync_batch_def bind_def upd_mw_def upd_metrics_def modify_def ret_def)
  qed
  have row: "\<exists>t. apply_per_record mws idx current s = (Inr (map (stage_value f) current), t)"
    unfolding apply_per_record_def
  proof (rule map_m_pure)
    fix x s
    have slice: "drop idx (take (Suc idx) mws) = [?m]"
      using assms(1) by (simp add: take_Suc_conv_app_nth)
    have pure: "list_all2 pure_stage [f] [?m]" using assms(2) by simp
    show "\<exists>t. (case x of None \<Rightarrow> ret None
       | Some r \<Rightarrow> bind (process_range_outcome mws idx (idx + 1) r)
           (\<lambda>(value, failure). ret (if failure \<noteq> None then None else value))) s = (Inr (stage_value f x), t)"
    proof (cases x)
      case None
      then show ?thesis by (simp add: ret_def)
    next
      case (Some r)
      from process_stages_pure [OF pure, of r r s] obtain failure t where
        "process_stages r [?m] r s = (Inr (stage_value f (Some r), failure), t)"
        "failure = None \<or> stage_value f (Some r) = None" by auto
      with Some slice show ?thesis
        by (auto simp: ret_def bind_def process_range_outcome_def simp del: process_stages.simps)
    qed
  qed
  consider "mw_kind ?m = PerRecord" | "mw_kind ?m = SyncMap (mw_process ?m)"
    | pred where "mw_kind ?m = SyncFilter pred" "mw_process ?m = filter_fn pred"
    using assms(2) by (auto simp: pure_stage_def)
  then show ?thesis
    using row sync by cases (auto simp: apply_in_batch_def Let_def bind_def ret_def)
qed

lemma process_batch_stages_pure:
  assumes "list_all2 pure_stage fs (map ((!) mws) is)" "\<forall>i\<in>set is. i < length mws"
  shows "\<exists>t. process_batch_stages mws is current s =
     (Inr \<lparr>bp_results = map (fold stage_value fs) current, bp_failure = None, bp_same = False\<rparr>, t)"
  using assms
proof (induction "is" arbitrary: fs current s)
  case Nil
  then show ?case by (simp add: ret_def)
next
  case (Cons i "is")
  then obtain f fs' where fs: "fs = f # fs'" "pure_stage f (mws ! i)" "list_all2 pure_stage fs' (map ((!) mws) is)"
    by (auto simp: list_all2_Cons2)
  with apply_in_batch_pure [of i mws f current s] Cons.prems(2) obtain u where
    "apply_in_batch mws i current s = (Inr (Inr (map (stage_value f) current)), u)" by auto
  moreover from Cons.IH [OF fs(3), of "map (stage_value f) current" u] Cons.prems(2) obtain t where
    "process_batch_stages mws is (map (stage_value f) current) u =
      (Inr \<lparr>bp_results = map (fold stage_value fs') (map (stage_value f) current),
        bp_failure = None, bp_same = False\<rparr>, t)" by auto
  ultimately show ?case using fs(1) by (auto simp: bind_def)
qed

text \<open>
  C18. The batch lane computes what the row lane computes: for a chain of stages without state of the
  row-wise kinds (plain, map, filter), \<open>process_batch\<close> returns for every record of the batch, in its
  position, the value \<open>process_outcome\<close> returns for it alone.
\<close>

theorem process_batch_agrees_with_rows:
  assumes "list_all2 pure_stage fs mws"
  shows "\<exists>result t. process_batch mws records s = (Inr result, t) \<and> bp_failure result = None \<and>
     bp_results result = map (\<lambda>r. fst (projr (fst (process_outcome mws r s)))) records"
proof (cases "mws = []")
  case True
  then show ?thesis by (simp add: process_batch_def process_outcome_def ret_def)
next
  case False
  have "list_all2 pure_stage fs (map ((!) mws) [0..<length mws])" using assms by (simp add: map_nth)
  from process_batch_stages_pure [OF this, of "map Some records" s] obtain t where
    "process_batch mws records s = (Inr \<lparr>bp_results = map (fold stage_value fs) (map Some records),
       bp_failure = None, bp_same = False\<rparr>, t)"
    using False by (auto simp: process_batch_def process_batch_range_def)
  moreover have "fold stage_value fs (Some r) = fst (projr (fst (process_outcome mws r s)))" for r
    using process_stages_pure [OF assms, of r r s] False
    by (auto simp: process_outcome_def process_range_outcome_def)
  ultimately show ?thesis by simp
qed

theorem process_batch_agrees_with_rows_witness:
  "\<exists>result t. process_batch [demo_stage ''a'' fails_on_2, demo_stage ''b'' (renumber 5)]
      [\<lparr>ob_id = 1, ob_val = PNone\<rparr>, \<lparr>ob_id = 2, ob_val = PNone\<rparr>] (init_state ()) = (Inr result, t) \<and>
    bp_results result = [Some \<lparr>ob_id = 6, ob_val = PNone\<rparr>, None]"
proof -
  have "list_all2 pure_stage [fails_on_2, renumber 5] [demo_stage ''a'' fails_on_2, demo_stage ''b'' (renumber 5)]"
    by (auto simp: pure_stage_def demo_stage_def MapMiddleware_def log_only_def fails_on_2_def renumber_def
        is_Exception_def isinstance_def mk_exn_def fun_eq_iff split: if_splits)
  from process_batch_agrees_with_rows [OF this, of "[\<lparr>ob_id = 1, ob_val = PNone\<rparr>, \<lparr>ob_id = 2, ob_val = PNone\<rparr>]" "init_state ()"]
  obtain result t where run: "process_batch [demo_stage ''a'' fails_on_2, demo_stage ''b'' (renumber 5)]
      [\<lparr>ob_id = 1, ob_val = PNone\<rparr>, \<lparr>ob_id = 2, ob_val = PNone\<rparr>] (init_state ()) = (Inr result, t)"
    and res: "bp_results result = map (\<lambda>r. fst (projr (fst (process_outcome
      [demo_stage ''a'' fails_on_2, demo_stage ''b'' (renumber 5)] r (init_state ())))))
      [\<lparr>ob_id = 1, ob_val = PNone\<rparr>, \<lparr>ob_id = 2, ob_val = PNone\<rparr>]" by blast
  have "map (\<lambda>r. fst (projr (fst (process_outcome
      [demo_stage ''a'' fails_on_2, demo_stage ''b'' (renumber 5)] r (init_state ())))))
      [\<lparr>ob_id = 1, ob_val = PNone\<rparr>, \<lparr>ob_id = 2, ob_val = PNone\<rparr>] = [Some \<lparr>ob_id = 6, ob_val = PNone\<rparr>, None]"
    by code_simp
  with run res show ?thesis by auto
qed

section \<open>Batch stages keep the positions\<close>

lemma scatter_positions:
  assumes "length rs = length (somes cs)"
  shows "length (scatter cs rs) = length cs \<and> (\<forall>i<length cs. cs ! i = None \<longrightarrow> scatter cs rs ! i = None) \<and>
     map snd (filter (\<lambda>x. fst x \<noteq> None) (zip cs (scatter cs rs))) = rs"
  using assms
proof (induction cs rs rule: scatter.induct)
  case (2 cs rs)
  then show ?case by (auto simp: somes_def nth_Cons split: nat.splits)
next
  case (3 c cs r rs)
  then show ?case by (auto simp: somes_def nth_Cons split: nat.splits)
qed (auto simp: somes_def)

text \<open>
  A batch stage keeps the records in their positions: when it returns a batch, the batch has the
  length of its input, a record that an earlier stage dropped stays dropped, and the live positions
  carry the stage's results in order; a stage that returns a list of another length is refused.
\<close>

theorem apply_whole_batch_positions:
  assumes "apply_whole_batch m pb current s = (Inr (Inr updated), t)"
  shows "length updated = length current \<and>
     (\<forall>i<length current. current ! i = None \<longrightarrow> updated ! i = None) \<and>
     (\<exists>s' t'. pb (somes current) s' =
        (Inr (map snd (filter (\<lambda>x. fst x \<noteq> None) (zip current updated))), t'))"
proof -
  let ?s = "snd (upd_mw (mw_name m) (mw_in (int (length current))) s)"
  obtain x t' where run: "pb (somes current) ?s = (x, t')" by (cases "pb (somes current) ?s")
  have "\<exists>rs. x = Inr rs \<and> length rs = length (somes current) \<and>
      updated = (if None \<in> set current then scatter current rs else rs)"
    using assms run
    by (cases x) (auto simp: apply_whole_batch_def Let_def bind_def attempt_def ret_def throw_def
        upd_mw_def upd_metrics_def modify_def split: if_splits)
  then obtain rs where pb: "pb (somes current) ?s = (Inr rs, t')"
    and len: "length rs = length (somes current)"
    and upd: "updated = (if None \<in> set current then scatter current rs else rs)"
    using run by auto
  have all: "scatter current rs = rs" if "None \<notin> set current"
    using that len
    by (induction current rs rule: scatter.induct) (auto simp: somes_def)
  then have "updated = scatter current rs" using upd by auto
  with scatter_positions [OF len] pb show ?thesis by auto
qed

theorem apply_whole_batch_positions_witness:
  "\<exists>t. apply_whole_batch (BatchStage ''b'' (map_m (\<lambda>r s. (renumber 5 r, s)))) (map_m (\<lambda>r s. (renumber 5 r, s)))
      [None, Some \<lparr>ob_id = 1, ob_val = PNone\<rparr>] (init_state ()) =
    (Inr (Inr [None, Some \<lparr>ob_id = 6, ob_val = PNone\<rparr>]), t) \<and>
    length [None, Some \<lparr>ob_id = 6, ob_val = PNone\<rparr>] = length [None, Some \<lparr>ob_id = 1, ob_val = PNone\<rparr>]"
proof -
  let ?run = "apply_whole_batch (BatchStage ''b'' (map_m (\<lambda>r s. (renumber 5 r, s)))) (map_m (\<lambda>r s. (renumber 5 r, s)))
      [None, Some \<lparr>ob_id = 1, ob_val = PNone\<rparr>] (init_state ()) :: (exn + _) \<times> unit rstate"
  have run: "fst ?run = Inr (Inr [None, Some \<lparr>ob_id = 6, ob_val = PNone\<rparr>])" by code_simp
  from apply_whole_batch_positions [OF surjective_pairing [of ?run, unfolded run]] run
  show ?thesis by (metis surjective_pairing)
qed

section \<open>What the chain adds to the trace\<close>

text \<open>
  The stages do not reach the sink, the queue of pending writes or the checkpoint store of the run:
  the only events they can cause are discard callbacks.
\<close>

definition quiet_stage :: "'e Middleware \<Rightarrow> bool" where
  "quiet_stage m \<longleftrightarrow> (\<forall>r. steps_in (emits is_discard) (mw_process m r)) \<and>
     (\<forall>r e. steps_in (emits is_discard) (mw_on_error m r e))"

lemma upd_mw_emits [steps_intro]: "steps_in (emits P) (upd_mw k f)"
  unfolding upd_mw_def by (intro steps_intro)

lemma transfer_emits: "emits P s (transfer_success_hooks a b s)"
  by (simp add: emits_def transfer_success_hooks_def Let_def)

lemma process_stages_emits:
  "\<forall>m\<in>set ms. quiet_stage m \<Longrightarrow> steps_in (emits is_discard) (process_stages record ms current)"
proof (induction ms arbitrary: current)
  case Nil
  show ?case by (auto intro: steps_intro)
next
  case (Cons m ms)
  then have "steps_in (emits is_discard) (mw_process m r)" "steps_in (emits is_discard) (mw_on_error m r e)" for r e
    by (auto simp: quiet_stage_def)
  with Cons show ?case
    by (auto intro!: steps_intro transfer_emits split: sum.split option.split)
qed

lemma process_outcome_emits:
  "\<forall>m\<in>set ms. quiet_stage m \<Longrightarrow> steps_in (emits is_discard) (process_outcome ms record)"
  unfolding process_outcome_def process_range_outcome_def
  by (auto intro!: steps_intro process_stages_emits)

lemma demo_stage_quiet: "quiet_stage (demo_stage n f)"
  by (auto simp: quiet_stage_def demo_stage_def MapMiddleware_def log_only_def steps_in_def emits_def
      skip_def ret_def)

end
