(* ===== verification/Ledger.thy ===== *)
theory Ledger
  imports Delivery_Batches Middleware
begin

text \<open>
  The ledger of a run, shared by the lanes: which source records were taken, in which order, what the
  chain made of each, and what it means that the checkpoints of a trace are never ahead of the
  records that were settled. The invariant \<open>lane_inv\<close> ties the ledger to the run state; the lemmas
  below say how delivering a record, queueing it and flushing the queue move it.
\<close>

text \<open>How a lane passes on the exception that its source ended with.\<close>

definition raise_opt :: "exn option \<Rightarrow> ('e, unit) run" where
  "raise_opt e = (case e of None \<Rightarrow> skip | Some e \<Rightarrow> throw e)"

section \<open>The ledger\<close>

text \<open>
  The ledger of a run: the source records that the lane has taken, each with what the chain made of
  it. A trace is safe for a ledger when every checkpoint in it belongs to a record of the ledger such
  that this record and all the earlier ones were settled before the checkpoint.
\<close>

type_synonym ledger = "(SourceRecord \<times> pyobj option \<times> MiddlewareFailure option) list"

definition entry_settled ::
  "'e DeliveryEngine \<Rightarrow> SourceRecord \<times> pyobj option \<times> MiddlewareFailure option \<Rightarrow> event list \<Rightarrow> bool" where
  "entry_settled D x ev = (case x of (sr, result, failure) \<Rightarrow> settled D (sr_raw sr) result failure ev)"

definition save_covered :: "'e DeliveryEngine \<Rightarrow> ledger \<Rightarrow> Checkpoint \<Rightarrow> event list \<Rightarrow> bool" where
  "save_covered D led c pre \<longleftrightarrow> (\<exists>i<length led. cp_value c = sr_checkpoint (fst (led ! i)) \<and>
     (\<forall>j\<le>i. entry_settled D (led ! j) pre))"

definition safe_trace :: "'e DeliveryEngine \<Rightarrow> ledger \<Rightarrow> event list \<Rightarrow> bool" where
  "safe_trace D led tr \<longleftrightarrow> (\<forall>pre c b post. tr = pre @ ESave c b # post \<longrightarrow> save_covered D led c pre)"

lemma entry_settled_mono: "entry_settled D x a \<Longrightarrow> set a \<subseteq> set b \<Longrightarrow> entry_settled D x b"
  by (auto simp: entry_settled_def intro: settled_mono split: prod.splits)

lemma entry_settled_append: "entry_settled D x a \<Longrightarrow> entry_settled D x (a @ b)"
  by (erule entry_settled_mono) simp

lemma entries_settled_append:
  "\<forall>x\<in>set led. entry_settled D x a \<Longrightarrow> \<forall>x\<in>set led. entry_settled D x (a @ b)"
  by (blast intro: entry_settled_append)

lemma save_covered_mono: "save_covered D led c a \<Longrightarrow> set a \<subseteq> set b \<Longrightarrow> save_covered D led c b"
  unfolding save_covered_def by (metis entry_settled_mono)

lemma save_covered_extend: "save_covered D led c a \<Longrightarrow> save_covered D (led @ led') c a"
  unfolding save_covered_def by (force simp: nth_append)

lemma safe_trace_extend: "safe_trace D led tr \<Longrightarrow> safe_trace D (led @ led') tr"
  unfolding safe_trace_def by (blast intro: save_covered_extend)

text \<open>Events are appended to a safe trace: only the new checkpoints have to be looked at.\<close>

lemma safe_trace_append:
  assumes "safe_trace D led tr"
    and "\<And>pre c b post. ev = pre @ ESave c b # post \<Longrightarrow> save_covered D led c (tr @ pre)"
  shows "safe_trace D led (tr @ ev)"
proof (unfold safe_trace_def, intro allI impI)
  fix pre c b post
  assume "tr @ ev = pre @ ESave c b # post"
  then consider us where "tr = pre @ us" "us @ ev = ESave c b # post"
    | us where "pre = tr @ us" "ev = us @ ESave c b # post"
    by (auto simp: append_eq_append_conv2)
  then show "save_covered D led c pre"
  proof cases
    case 1
    then show ?thesis
    proof (cases us)
      case Nil
      with 1 assms(2) [of "[]" c b post] show ?thesis by simp
    next
      case (Cons x xs)
      with 1 have "tr = pre @ ESave c b # xs" by simp
      with assms(1) show ?thesis by (auto simp: safe_trace_def)
    qed
  next
    case 2
    with assms(2) show ?thesis by blast
  qed
qed

lemma safe_trace_quiet:
  "safe_trace D led tr \<Longrightarrow> list_all (\<lambda>e. \<not> is_save e) ev \<Longrightarrow> safe_trace D led (tr @ ev)"
  by (rule safe_trace_append) auto

text \<open>The only checkpoint among quiet events, one checkpoint and hooks.\<close>

lemma only_save:
  assumes "act @ sv @ hk = pre @ ESave c b # post"
    and "list_all (\<lambda>e. \<not> is_save e) act" "list_all (\<lambda>e. \<not> is_save e) hk" "length sv \<le> 1"
  shows "sv = [ESave c b] \<and> pre = act"
proof -
  have "ESave c b \<notin> set act" "ESave c b \<notin> set hk" using assms(2,3) by (auto simp: list_all_iff)
  then have "ESave c b \<in> set sv" using arg_cong [OF assms(1), of set] by auto
  with assms(4) have sv: "sv = [ESave c b]" by (cases sv) auto
  have "\<not> is_save e \<longleftrightarrow> e \<noteq> ESave c b" if "e \<in> set act \<union> set hk" for e
    using that \<open>ESave c b \<notin> set act\<close> \<open>ESave c b \<notin> set hk\<close> assms(2,3) by (auto simp: list_all_iff)
  have "takeWhile (\<lambda>e. \<not> is_save e) (act @ sv @ hk) = act"
    using assms(2) sv by (simp add: list_all_iff takeWhile_append2)
  moreover have "filter is_save (act @ sv @ hk) = [ESave c b]"
    using assms(2,3) sv by (auto simp: list_all_iff filter_empty_conv)
  then have "filter is_save (pre @ ESave c b # post) = [ESave c b]" using assms(1) by simp
  then have "filter is_save pre = []" by (cases "filter is_save pre") auto
  then have "takeWhile (\<lambda>e. \<not> is_save e) (pre @ ESave c b # post) = pre"
    by (auto simp: filter_empty_conv takeWhile_append2)
  ultimately show ?thesis using assms(1) sv by simp
qed

lemma hooks_not_saves:
  "list_all (\<lambda>e. is_hook e \<or> is_discard e) hk \<Longrightarrow> list_all (\<lambda>e. \<not> is_save e) hk"
  "list_all is_hook hk \<Longrightarrow> list_all (\<lambda>e. \<not> is_save e) hk"
  "list_all is_discard hk \<Longrightarrow> list_all (\<lambda>e. \<not> is_save e) hk"
  "list_all (\<lambda>e. \<not> is_save e \<and> \<not> is_hook e) hk \<Longrightarrow> list_all (\<lambda>e. \<not> is_save e) hk"
  by (auto simp: list_all_iff is_save_def is_hook_def is_discard_def split: event.splits)

lemma segment_safe:
  assumes safe: "safe_trace D led tr" and old: "\<forall>x\<in>set led. entry_settled D x tr"
    and seg: "ordered_segment (settled D (sr_raw sr) result failure) (sr_checkpoint sr) ev"
  shows "safe_trace D (led @ [(sr, result, failure)]) (tr @ ev)"
proof -
  obtain act sv hk where ev: "ev = act @ sv @ hk"
    and parts: "segment_parts (settled D (sr_raw sr) result failure) (sr_checkpoint sr) act sv hk"
    using seg by (auto simp: ordered_segment_def)
  show ?thesis
  proof (rule safe_trace_append)
    show "safe_trace D (led @ [(sr, result, failure)]) tr" using safe by (rule safe_trace_extend)
    fix pre c b post
    assume "ev = pre @ ESave c b # post"
    then have "act @ sv @ hk = pre @ ESave c b # post" using ev by simp
    moreover have "length sv \<le> 1" using parts by (auto simp: segment_parts_def)
    ultimately have "sv = [ESave c b] \<and> pre = act"
      using parts by (intro only_save) (auto simp: segment_parts_def hooks_not_saves)
    with parts have "cp_value c = sr_checkpoint sr" "settled D (sr_raw sr) result failure pre"
      by (auto simp: segment_parts_def)
    moreover from this have "entry_settled D (sr, result, failure) (tr @ pre)"
      by (auto simp: entry_settled_def intro: settled_mono)
    moreover have "entry_settled D (led ! j) (tr @ pre)" if "j < length led" for j
      using old that by (simp add: entry_settled_append)
    ultimately show "save_covered D (led @ [(sr, result, failure)]) c (tr @ pre)"
      unfolding save_covered_def by (intro exI [of _ "length led"]) (auto simp: nth_append)
  qed
qed

text \<open>
  \<open>ledger_of made records led\<close>: the entries belong to the first records of the source, in order, and \<open>made\<close>
  holds of each, by which a lane says that the result of the entry is what its chain made of the record.
\<close>

definition ledger_of ::
  "(SourceRecord \<times> pyobj option \<times> MiddlewareFailure option \<Rightarrow> bool) \<Rightarrow> SourceRecord list \<Rightarrow> ledger \<Rightarrow> bool" where
  "ledger_of made records led \<longleftrightarrow> prefix (map fst led) records \<and> (\<forall>x\<in>set led. made x)"

definition protected :: "'e DeliveryEngine \<Rightarrow> SourceRecord list \<Rightarrow> bool" where
  "protected D records \<longleftrightarrow>
     de_checkpoint_store D \<noteq> None \<and> (\<forall>sr\<in>set records. sr_checkpoint sr \<noteq> PNone)"

text \<open>
  The invariant of the loop: the ledger splits into entries that are settled and entries whose items
  are in the queue of pending writes. After an exception the first part may end in the entries that
  the exception was about, but then the queue is empty.
\<close>

definition pend_of :: "SourceRecord \<times> pyobj option \<times> MiddlewareFailure option \<Rightarrow> PendingWrite \<Rightarrow> bool" where
  "pend_of x it \<longleftrightarrow> (case x of (sr, result, failure) \<Rightarrow> result = Some (pw_processed it) \<and>
     pw_raw it = sr_raw sr \<and> pw_checkpoint it = sr_checkpoint sr)"

definition lane_inv :: "'e DeliveryEngine \<Rightarrow> ledger \<Rightarrow> bool \<Rightarrow> 'e rstate \<Rightarrow> bool" where
  "lane_inv D led clean s \<longleftrightarrow> (\<exists>led0 pl. led = led0 @ pl \<and> list_all2 pend_of pl (rs_pending s) \<and>
     safe_trace D led (rs_trace s) \<and>
     (clean \<or> rs_pending s \<noteq> [] \<longrightarrow> (\<forall>x\<in>set led0. entry_settled D x (rs_trace s))))"

lemma lane_invI:
  assumes "list_all2 pend_of pl (rs_pending s)" "safe_trace D (led0 @ pl) (rs_trace s)"
    and "clean \<or> rs_pending s \<noteq> [] \<Longrightarrow> \<forall>x\<in>set led0. entry_settled D x (rs_trace s)"
  shows "lane_inv D (led0 @ pl) clean s"
  using assms unfolding lane_inv_def by blast

lemma lane_inv_emits:
  assumes "lane_inv D led clean s" "emits is_discard s t"
  shows "lane_inv D led clean t"
proof -
  from assms(2) obtain ev where ev: "rs_trace t = rs_trace s @ ev" "list_all is_discard ev"
    "rs_pending t = rs_pending s" by (auto simp: emits_def)
  from assms(1) obtain led0 pl where "led = led0 @ pl" "list_all2 pend_of pl (rs_pending s)"
    "safe_trace D led (rs_trace s)"
    "clean \<or> rs_pending s \<noteq> [] \<Longrightarrow> \<forall>x\<in>set led0. entry_settled D x (rs_trace s)"
    unfolding lane_inv_def by blast
  then have "list_all2 pend_of pl (rs_pending t)" "safe_trace D (led0 @ pl) (rs_trace t)"
    "clean \<or> rs_pending t \<noteq> [] \<Longrightarrow> \<forall>x\<in>set led0. entry_settled D x (rs_trace t)"
    using ev by (auto simp: hooks_not_saves(3) intro!: safe_trace_quiet entry_settled_append)
  with \<open>led = led0 @ pl\<close> show ?thesis by (simp add: lane_invI)
qed

lemma lane_inv_weaken: "lane_inv D led True s \<Longrightarrow> lane_inv D led clean s"
  unfolding lane_inv_def by blast

text \<open>A record delivered at once, with nothing pending.\<close>

lemma lane_inv_deliver:
  assumes inv: "lane_inv D led True v" and pend: "rs_pending v = []" "rs_pending u = []"
    and ev: "rs_trace u = rs_trace v @ ev"
    and seg: "ordered_segment (settled D (sr_raw sr) result failure) (sr_checkpoint sr) ev"
    and fin: "clean \<Longrightarrow> settled D (sr_raw sr) result failure ev"
  shows "lane_inv D (led @ [(sr, result, failure)]) clean u"
proof -
  let ?new = "(sr, result, failure)"
  from inv pend(1) have safe: "safe_trace D led (rs_trace v)"
    and old: "\<forall>x\<in>set led. entry_settled D x (rs_trace v)"
    unfolding lane_inv_def by auto
  have "safe_trace D ((led @ [?new]) @ []) (rs_trace u)"
    using segment_safe [OF safe old seg] ev by simp
  moreover have "\<forall>x\<in>set (led @ [?new]). entry_settled D x (rs_trace u)" if clean
  proof -
    have "entry_settled D ?new (rs_trace u)"
      using fin [OF that] ev by (auto simp: entry_settled_def intro: settled_mono)
    with old ev show ?thesis by (simp add: entries_settled_append)
  qed
  ultimately show ?thesis using lane_invI [of "[]" u D "led @ [?new]" clean] pend(2) by simp
qed

text \<open>A flush of the queue.\<close>

lemma pend_of_settled:
  "pend_of x it \<Longrightarrow> item_settled D it ev \<Longrightarrow> entry_settled D x ev"
  by (auto simp: pend_of_def item_settled_def entry_settled_def settled_def split: prod.splits)

lemma lane_inv_flush:
  assumes inv: "lane_inv D led True s" and pend: "rs_pending t = []"
    and ev: "rs_trace t = rs_trace s @ ev" and seg: "batch_segment D (rs_pending s) whole ev"
  shows "lane_inv D led whole t"
proof -
  from inv obtain led0 pl where led: "led = led0 @ pl" and pl: "list_all2 pend_of pl (rs_pending s)"
    and safe: "safe_trace D led (rs_trace s)" and old: "\<forall>x\<in>set led0. entry_settled D x (rs_trace s)"
    unfolding lane_inv_def by auto
  from seg obtain k act sv hk where parts: "ev = act @ sv @ hk" "batch_parts D (rs_pending s) k act sv hk"
    "whole \<Longrightarrow> k = length (rs_pending s)" unfolding batch_segment_def by blast
  have len: "length pl = length (rs_pending s)" using pl by (rule list_all2_lengthD)
  have new: "entry_settled D (pl ! j) a" if "j < k" "set act \<subseteq> set a" for j a
  proof (rule entry_settled_mono [OF pend_of_settled that(2)])
    show "pend_of (pl ! j) (rs_pending s ! j)"
      using pl parts(2) len that(1) by (auto simp: batch_parts_def list_all2_conv_all_nth)
    show "item_settled D (rs_pending s ! j) act" using parts(2) that(1) by (simp add: batch_parts_def)
  qed
  have "safe_trace D led (rs_trace s @ ev)"
  proof (rule safe_trace_append [OF safe])
    fix pre c b post
    assume "ev = pre @ ESave c b # post"
    then have "act @ sv @ hk = pre @ ESave c b # post" using parts(1) by simp
    moreover have "length sv \<le> 1" using parts(2) by (auto simp: batch_parts_def)
    ultimately have sv: "sv = [ESave c b] \<and> pre = act"
      using parts(2) by (intro only_save) (auto simp: batch_parts_def hooks_not_saves)
    then obtain i where i: "i < k" "cp_value c = pw_checkpoint (rs_pending s ! i)"
      using parts(2) by (auto simp: batch_parts_def)
    have "k \<le> length pl" using parts(2) len by (simp add: batch_parts_def)
    have "pend_of (pl ! i) (rs_pending s ! i)"
      using i(1) pl \<open>k \<le> length pl\<close> by (simp add: list_all2_conv_all_nth)
    with i(2) have "cp_value c = sr_checkpoint (fst (pl ! i))"
      by (simp add: pend_of_def split: prod.splits)
    moreover have "entry_settled D (led ! j) (rs_trace s @ pre)" if "j \<le> length led0 + i" for j
    proof (cases "j < length led0")
      case True
      with old led show ?thesis by (simp add: nth_append entry_settled_append)
    next
      case False
      with that i(1) led sv show ?thesis by (auto simp: nth_append intro!: new)
    qed
    ultimately show "save_covered D led c (rs_trace s @ pre)"
      unfolding save_covered_def using led i(1) \<open>k \<le> length pl\<close>
      by (intro exI [of _ "length led0 + i"]) (auto simp: nth_append)
  qed
  moreover have "\<forall>x\<in>set led. entry_settled D x (rs_trace s @ ev)" if whole
  proof -
    have "entry_settled D x (rs_trace s @ ev)" if "x \<in> set pl" for x
      using that parts(1) parts(3) [OF \<open>whole\<close>] len by (auto simp: in_set_conv_nth intro!: new)
    with old led show ?thesis by (auto intro: entry_settled_append)
  qed
  ultimately show ?thesis
    using lane_invI [of "[]" t D led whole] ev pend by simp
qed

lemma flush_once_pending: "rs_pending (snd (flush_pending_writes_once D s)) = []"
proof (cases "rs_pending s = []")
  case True
  then show ?thesis by (simp add: flush_pending_writes_once_def skip_def ret_def)
next
  case False
  let ?rest = "try_write (write_batch D (map pw_processed (rs_pending s)))
           (\<lambda>exc. flush_batch_outcomes D exc (rs_pending s))
           (\<lambda>ws.
             bind (validate_write_result_count (length (rs_pending s)) (length ws)) (\<lambda>_.
             if list_all wr_ok ws then commit_pending_write_success_batch D (rs_pending s)
             else bind (resolve_items D (zip (rs_pending s) ws)) (commit_outcomes D)))"
  have mono: "steps_in (emits (\<lambda>_. True)) (flush_batch_loop D exc items acc)"
    "steps_in (emits (\<lambda>_. True)) (commit_loop D os acc)" for exc items acc os
    by (rule emits_mono [OF flush_batch_loop_emits], simp)
       (rule emits_mono [OF commit_loop_emits], simp)
  have "steps_in (emits (\<lambda>_. True)) ?rest"
    unfolding try_write_def flush_batch_outcomes_def commit_outcomes_def
      commit_pending_write_success_batch_def validate_write_result_count_def
    by (auto intro!: steps_intro mono split: sum.split)
  then have "rs_pending (snd (?rest (s\<lparr>rs_pending := []\<rparr>))) = []"
    by (auto simp: steps_in_def emits_def dest!: spec [of _ "s\<lparr>rs_pending := []\<rparr>"])
  with False show ?thesis by (simp add: flush_pending_writes_once_def Let_def)
qed

lemma lane_inv_flush_pending:
  assumes "lane_inv D led True s" and "flush_pending_writes D s = (r, t)"
  shows "lane_inv D led (r = Inr ()) t \<and> rs_pending t = []"
proof -
  have run: "flush_pending_writes_once D s = (r, t)" using assms(2) by (simp add: flush_pending_writes_def)
  have pend: "rs_pending t = []" using flush_once_pending [of D s] run by simp
  from flush_once_segment [OF run] obtain ev where "rs_trace t = rs_trace s @ ev"
    "batch_segment D (rs_pending s) (r = Inr ()) ev" by blast
  from lane_inv_flush [OF assms(1) pend this] pend show ?thesis by simp
qed

lemma lane_inv_antimono: "lane_inv D led c s \<Longrightarrow> (c' \<Longrightarrow> c) \<Longrightarrow> lane_inv D led c' s"
  unfolding lane_inv_def by blast

lemma lane_inv_pending: "lane_inv D led c s \<Longrightarrow> rs_pending s \<noteq> [] \<Longrightarrow> lane_inv D led True s"
  unfolding lane_inv_def by blast

lemma lane_inv_settled:
  "lane_inv D led True s \<Longrightarrow> rs_pending s = [] \<Longrightarrow> \<forall>x\<in>set led. entry_settled D x (rs_trace s)"
  unfolding lane_inv_def by auto

lemma lane_inv_safe: "lane_inv D led c s \<Longrightarrow> safe_trace D led (rs_trace s)"
  unfolding lane_inv_def by blast

lemma lane_inv_start: "rs_trace s = [] \<Longrightarrow> rs_pending s = [] \<Longrightarrow> lane_inv D [] True s"
  using lane_invI [of "[]" s D "[]" True] by (simp add: safe_trace_def)

text \<open>The last flush of a lane: whatever the loop left behind.\<close>

lemma lane_inv_last_flush:
  assumes inv: "lane_inv D led c s" and run: "flush_pending_writes D s = (r, t)"
  shows "lane_inv D led (r = Inr () \<and> c) t \<and> rs_pending t = []"
proof (cases "c \<or> rs_pending s \<noteq> []")
  case True
  then have "lane_inv D led True s" using inv lane_inv_pending by (cases c) auto
  from lane_inv_flush_pending [OF this run] show ?thesis by (auto intro: lane_inv_antimono)
next
  case False
  with run have "t = s"
    by (simp add: flush_pending_writes_def flush_pending_writes_once_def skip_def ret_def)
  with False inv show ?thesis by (auto intro: lane_inv_antimono)
qed

lemma queue_success_inv:
  assumes "lane_inv D led True v"
    and "queue_success_record D p (sr_raw sr) (sr_checkpoint sr) n os v = (x, u)"
  shows "lane_inv D (led @ [(sr, Some p, failure)]) (x = Inr ()) u"
proof -
  let ?new = "(sr, Some p, failure)"
  obtain os' v1 where hook: "success_hook_for (sr_raw sr) (Some p) os v = (Inr os', v1)"
    and em: "emits (\<lambda>_. False) v v1"
    by (metis success_hook_for_emits success_hook_for_returns steps_inD)
  define v2 where "v2 = v1\<lparr>rs_pending := rs_pending v1 @ [\<lparr>pw_processed = p, pw_raw = sr_raw sr,
     pw_checkpoint = sr_checkpoint sr, pw_on_success = os'\<rparr>]\<rparr>"
  from assms(1) obtain led0 pl where led: "led = led0 @ pl" "list_all2 pend_of pl (rs_pending v)"
    "safe_trace D led (rs_trace v)" "\<forall>x\<in>set led0. entry_settled D x (rs_trace v)"
    unfolding lane_inv_def by auto
  have "lane_inv D (led0 @ (pl @ [?new])) True v2"
  proof (rule lane_invI)
    show "list_all2 pend_of (pl @ [?new]) (rs_pending v2)"
      using led(2) em by (auto simp: v2_def emits_pure pend_of_def list_all2_appendI)
    show "safe_trace D (led0 @ pl @ [?new]) (rs_trace v2)"
      using safe_trace_extend [OF led(3), of "[?new]"] em led(1) by (simp add: v2_def emits_pure)
    show "\<forall>x\<in>set led0. entry_settled D x (rs_trace v2)" using led(4) em by (simp add: v2_def emits_pure)
  qed
  then have inv2: "lane_inv D (led @ [?new]) True v2" using led(1) by simp
  have "(if int (length (rs_pending v2)) \<ge> n then flush_pending_writes D else skip) v2 = (x, u)"
    using assms(2) hook by (simp add: queue_success_record_def bind_def get_state_def modify_def v2_def)
  with inv2 show ?thesis
    by (auto simp: skip_def ret_def dest: lane_inv_flush_pending split: if_splits)
qed

definition demo_record :: "nat \<Rightarrow> SourceRecord" where
  "demo_record i = \<lparr>sr_raw = demo_obj i, sr_checkpoint = PInt (int i), sr_on_success = None\<rparr>"

definition drops_2 :: "pyobj \<Rightarrow> exn + pyobj option" where
  "drops_2 r = Inr (if ob_id r = 2 then None else Some r)"

definition sink_down :: "pyobj \<Rightarrow> exn + WriteResult" where
  "sink_down r = Inl (mk_exn ValueErrorC ''sink is down'')"

end
