(* ===== verification/Hot_Metrics.thy ===== *)
theory Hot_Metrics
  imports Run_State
begin

text \<open>
  \<^verbatim>\<open>core/runtime/_hot_metrics.py\<close>: counters that a lane accumulates locally and commits to the pipeline
  metrics in batches. The adapter around the optional Rust accumulator is not modelled.
\<close>

text \<open>The flush interval that \<open>for_source\<close> passes by default.\<close>

definition hot_flush_interval :: int where
  "hot_flush_interval = 100"

definition hot_init :: HotPathMetrics where
  "hot_init = \<lparr>hp_consumed = 0, hp_written = 0, hp_ticks = 0\<rparr>"

definition hot_inc_consumed :: "int \<Rightarrow> ('e, bool) run" where
  "hot_inc_consumed count =
     bind (modify (\<lambda>s. s\<lparr>rs_hot := (rs_hot s)\<lparr>hp_consumed := hp_consumed (rs_hot s) + count,
             hp_ticks := hp_ticks (rs_hot s) + count\<rparr>\<rparr>)) (\<lambda>_.
     bind get_state (\<lambda>s. ret (hp_ticks (rs_hot s) \<ge> hot_flush_interval)))"

definition hot_inc_written :: "int \<Rightarrow> ('e, unit) run" where
  "hot_inc_written count =
     modify (\<lambda>s. s\<lparr>rs_hot := (rs_hot s)\<lparr>hp_written := hp_written (rs_hot s) + count\<rparr>\<rparr>)"

definition flush_hot :: "string \<Rightarrow> HotPathMetrics \<Rightarrow> Metrics \<Rightarrow> Metrics" where
  "flush_hot name h m =
     (let m1 = (if hp_consumed h \<noteq> 0
            then m\<lparr>m_records_consumed := m_records_consumed m + hp_consumed h,
                   m_by_source := AList.update name
                     ((case map_of (m_by_source m) name of None \<Rightarrow> 0 | Some n \<Rightarrow> n) + hp_consumed h)
                     (m_by_source m)\<rparr>
            else m)
      in if hp_written h \<noteq> 0 then m1\<lparr>m_records_written := m_records_written m1 + hp_written h\<rparr> else m1)"

definition hot_flush :: "string \<Rightarrow> ('e, unit) run" where
  "hot_flush name = modify (\<lambda>s. s\<lparr>rs_metrics := flush_hot name (rs_hot s) (rs_metrics s), rs_hot := hot_init\<rparr>)"

section \<open>Nothing is lost between the counters\<close>

text \<open>The counts a reader of the metrics will see once the accumulator is flushed.\<close>

definition total_consumed :: "'e rstate \<Rightarrow> int" where
  "total_consumed s = m_records_consumed (rs_metrics s) + hp_consumed (rs_hot s)"

definition total_written :: "'e rstate \<Rightarrow> int" where
  "total_written s = m_records_written (rs_metrics s) + hp_written (rs_hot s)"

definition total_source :: "string \<Rightarrow> 'e rstate \<Rightarrow> int" where
  "total_source name s = (case map_of (m_by_source (rs_metrics s)) name of None \<Rightarrow> 0 | Some n \<Rightarrow> n) +
     hp_consumed (rs_hot s)"

text \<open>
  The local accumulator loses no count: incrementing moves exactly the increment into the totals,
  flushing leaves the totals of the run and of the source unchanged and empties the accumulator, so
  that the metrics themselves hold them.
\<close>

theorem hot_metrics_conserve:
  "total_consumed (snd (hot_inc_consumed n s)) = total_consumed s + n \<and>
   total_source name (snd (hot_inc_consumed n s)) = total_source name s + n \<and>
   total_written (snd (hot_inc_written n s)) = total_written s + n \<and>
   m_records_consumed (rs_metrics (snd (hot_flush name s))) = total_consumed s \<and>
   m_records_written (rs_metrics (snd (hot_flush name s))) = total_written s \<and>
   total_source name (snd (hot_flush name s)) = total_source name s \<and>
   rs_hot (snd (hot_flush name s)) = hot_init"
  by (auto simp: total_consumed_def total_written_def total_source_def hot_inc_consumed_def
      hot_inc_written_def hot_flush_def flush_hot_def hot_init_def comb_simps update_conv' Let_def
      split: option.splits)

lemma hot_emits [steps_intro]:
  "steps_in (emits P) (hot_inc_consumed n)" "steps_in (emits P) (hot_flush name)"
  "steps_in (emits P) (hot_inc_written n)"
  by (auto simp: hot_inc_consumed_def hot_flush_def hot_inc_written_def emits_def intro!: steps_intro)

end
