(* ===== verification/Linear_Lane.thy ===== *)
theory Linear_Lane
  imports Ledger Hot_Metrics
begin

text \<open>
  \<^verbatim>\<open>core/runtime/_lanes/_linear.py\<close>: the row loop. Source records come from an
  asynchronous generator, here the list of the records it yields and the exception it ends with, if
  any. The path through the optional Rust batch buffer is not part of this lane model; the flush it
  uses, \<open>flush_batch_direct\<close>, is.
\<close>

section \<open>The lane\<close>

definition linear_step ::
  "'e DeliveryEngine \<Rightarrow> 'e Middleware list \<Rightarrow> int \<Rightarrow> SourceRecord \<Rightarrow> ('e, unit) run" where
  "linear_step D mws batch_size sr =
     bind (hot_inc_consumed 1) (\<lambda>due.
     bind (if due then hot_flush (de_source_name D) else skip) (\<lambda>_.
     bind (modify (\<lambda>s. s\<lparr>rs_processed_count := rs_processed_count s + 1\<rparr>)) (\<lambda>_.
     bind (process_outcome mws (sr_raw sr)) (\<lambda>(result_value, result_failure).
       if batch_size > 1 then
         queue_processed_record D result_value (sr_raw sr) (sr_checkpoint sr) batch_size result_failure
           (sr_on_success sr)
       else
         write_processed_record D result_value (sr_raw sr) (sr_checkpoint sr) result_failure
           (sr_on_success sr)))))"

definition linear_lane_run ::
  "'e DeliveryEngine \<Rightarrow> 'e Middleware list \<Rightarrow> int \<Rightarrow> SourceRecord list \<Rightarrow> exn option \<Rightarrow> ('e, unit) run" where
  "linear_lane_run D mws batch_size records src_end =
     bind (modify (\<lambda>s. s\<lparr>rs_pending := [], rs_processed_count := 0, rs_hot := hot_init\<rparr>)) (\<lambda>_.
     bind (attempt (bind (for_each records (linear_step D mws batch_size)) (\<lambda>_. raise_opt src_end))) (\<lambda>r.
     case r of
       Inl e \<Rightarrow>
         if \<not> is_Exception e then throw e
         else
           bind (hot_flush (de_source_name D)) (\<lambda>_.
           bind (flush_pending_writes D) (\<lambda>_. throw e))
     | Inr _ \<Rightarrow>
         bind (hot_flush (de_source_name D)) (\<lambda>_. flush_pending_writes D)))"

section \<open>The lane without batching\<close>

lemma count_emits: "emits P s (s\<lparr>rs_processed_count := n\<rparr>)"
  by (simp add: emits_def)

text \<open>One step up to the delivery of the record: quiet, and the queue of pending writes is untouched.\<close>

lemma linear_step_cases:
  assumes "linear_step D mws batch_size sr s = (r, t)" and "\<forall>m\<in>set mws. quiet_stage m"
  obtains (fail) e where "r = Inl e" "emits is_discard s t"
  | (deliver) result failure u w where "emits is_discard s u"
      "process_outcome mws (sr_raw sr) w = (Inr (result, failure), u)"
      "(if batch_size > 1
        then queue_processed_record D result (sr_raw sr) (sr_checkpoint sr) batch_size failure (sr_on_success sr)
        else write_processed_record D result (sr_raw sr) (sr_checkpoint sr) failure (sr_on_success sr)) u = (r, t)"
proof -
  let ?pre = "bind (hot_inc_consumed 1) (\<lambda>due.
     bind (if due then hot_flush (de_source_name D) else skip) (\<lambda>_.
     bind (modify (\<lambda>s. s\<lparr>rs_processed_count := rs_processed_count s + 1\<rparr>)) (\<lambda>_.
       process_outcome mws (sr_raw sr))))"
  let ?post = "\<lambda>(result, failure). if batch_size > 1
        then queue_processed_record D result (sr_raw sr) (sr_checkpoint sr) batch_size failure (sr_on_success sr)
        else write_processed_record D result (sr_raw sr) (sr_checkpoint sr) failure (sr_on_success sr)"
  have eq: "linear_step D mws batch_size sr = bind ?pre ?post"
    by (simp add: linear_step_def bind_assoc)
  have quiet: "steps_in (emits is_discard) ?pre"
    using assms(2) by (auto intro!: steps_intro process_outcome_emits count_emits)
  obtain x u where pre: "?pre s = (x, u)" by (cases "?pre s")
  have em: "emits is_discard s u" by (rule steps_inD [OF quiet pre])
  show thesis
  proof (cases x)
    case (Inl e)
    with assms(1) eq pre have "r = Inl e" "t = u" by (auto simp: bind_def)
    with em show ?thesis by (intro fail) auto
  next
    case (Inr y)
    obtain result failure where y: "y = (result, failure)" by (cases y)
    with Inr assms(1) eq pre have "?post (result, failure) u = (r, t)" by (simp add: bind_def)
    moreover from pre Inr y obtain w where "process_outcome mws (sr_raw sr) w = (Inr (result, failure), u)"
      by (auto simp: bind_eq_Inr modify_def split: if_splits)
    ultimately show ?thesis using em by (intro deliver [of u w result failure]) auto
  qed
qed

section \<open>The loop and the run\<close>

definition chain_keeps :: "'e Middleware list \<Rightarrow> bool" where
  "chain_keeps mws \<longleftrightarrow> (\<forall>r s x t. process_outcome mws r s = (Inr x, t) \<longrightarrow> fst x \<noteq> None)"

text \<open>The entries of the ledger say what the chain made of the record.\<close>

definition chain_made ::
  "'e Middleware list \<Rightarrow> SourceRecord \<times> pyobj option \<times> MiddlewareFailure option \<Rightarrow> bool" where
  "chain_made mws x \<longleftrightarrow> (case x of (sr, result, failure) \<Rightarrow>
     \<exists>s t. process_outcome mws (sr_raw sr) s = (Inr (result, failure), t))"

lemma linear_step_inv:
  assumes run: "linear_step D mws batch_size sr s = (x, u)" and inv: "lane_inv D led True s"
    and quiet: "\<forall>m\<in>set mws. quiet_stage m"
    and store: "de_checkpoint_store D \<noteq> None" "sr_checkpoint sr \<noteq> PNone"
    and mode: "if batch_size > 1 then chain_keeps mws else rs_pending s = []"
  shows "\<exists>led'. (led' = [] \<or> map fst led' = [sr]) \<and> (\<forall>x\<in>set led'. chain_made mws x) \<and>
     (x = Inr () \<longrightarrow> led' \<noteq> []) \<and> lane_inv D (led @ led') (x = Inr ()) u \<and> (batch_size \<le> 1 \<longrightarrow> rs_pending u = [])"
  using run quiet
proof (cases rule: linear_step_cases)
  case (fail e)
  then show ?thesis
    using lane_inv_emits [OF lane_inv_weaken [OF inv]] mode by (auto simp: emits_def intro!: exI [of _ "[]"])
next
  case (deliver result failure v w)
  have inv': "lane_inv D led True v" using inv deliver(1) by (rule lane_inv_emits)
  have made: "chain_made mws (sr, result, failure)" using deliver(2) by (auto simp: chain_made_def)
  show ?thesis
  proof (cases "batch_size > 1")
    case True
    with deliver(2) mode obtain p where "result = Some p" by (fastforce simp: chain_keeps_def)
    with deliver(3) True have
      "queue_success_record D p (sr_raw sr) (sr_checkpoint sr) batch_size (sr_on_success sr) v = (x, u)"
      by (simp add: queue_processed_record_def)
    from queue_success_inv [OF inv' this, of failure] True made \<open>result = Some p\<close> show ?thesis
      by (intro exI [of _ "[(sr, Some p, failure)]"]) simp
  next
    case False
    with deliver(3) have
      "write_processed_record D result (sr_raw sr) (sr_checkpoint sr) failure (sr_on_success sr) v = (x, u)"
      by simp
    from write_processed_record_seg [OF this] store obtain ev where
      "rs_trace u = rs_trace v @ ev" "ordered_segment (settled D (sr_raw sr) result failure) (sr_checkpoint sr) ev"
      "x = Inr () \<Longrightarrow> settled D (sr_raw sr) result failure ev" "rs_pending u = rs_pending v" by auto
    moreover have "rs_pending v = []" using False mode deliver(1) by (simp add: emits_def)
    ultimately show ?thesis
      using lane_inv_deliver [OF inv', of u ev sr result failure "x = Inr ()"] made
      by (intro exI [of _ "[(sr, result, failure)]"]) simp
  qed
qed

lemma linear_loop_inv:
  assumes "for_each records (linear_step D mws batch_size) s = (r, t)" and "lane_inv D led True s"
    and "\<forall>m\<in>set mws. quiet_stage m" and "protected D records"
    and "if batch_size > 1 then chain_keeps mws else rs_pending s = []"
  shows "\<exists>led'. ledger_of (chain_made mws) records led' \<and> lane_inv D (led @ led') (r = Inr ()) t \<and>
     (r = Inr () \<longrightarrow> map fst led' = records)"
  using assms
proof (induction records arbitrary: s led)
  case Nil
  then show ?case by (auto simp: ret_def ledger_of_def intro!: exI [of _ "[]"])
next
  case (Cons sr records)
  obtain x u where step: "linear_step D mws batch_size sr s = (x, u)"
    by (cases "linear_step D mws batch_size sr s")
  have store: "de_checkpoint_store D \<noteq> None" "sr_checkpoint sr \<noteq> PNone"
    using Cons.prems(4) by (auto simp: protected_def)
  from linear_step_inv [OF step Cons.prems(2,3) store Cons.prems(5)] obtain l where
    "(l = [] \<or> map fst l = [sr]) \<and> (\<forall>x\<in>set l. chain_made mws x) \<and> (x = Inr () \<longrightarrow> l \<noteq> []) \<and>
     lane_inv D (led @ l) (x = Inr ()) u \<and> (batch_size \<le> 1 \<longrightarrow> rs_pending u = [])" ..
  then have l: "(l = [] \<or> map fst l = [sr]) \<and> (\<forall>x\<in>set l. chain_made mws x)" "x = Inr () \<Longrightarrow> l \<noteq> []" "lane_inv D (led @ l) (x = Inr ()) u"
    "batch_size \<le> 1 \<Longrightarrow> rs_pending u = []" by simp_all
  show ?case
  proof (cases x)
    case (Inl e)
    with Cons.prems(1) step have "r = Inl e" "t = u" by (auto simp: bind_def)
    with l Inl show ?thesis by (auto simp: ledger_of_def intro!: exI [of _ l])
  next
    case (Inr y)
    then have x: "x = Inr ()" by simp
    with Cons.prems(1) step have rest: "for_each records (linear_step D mws batch_size) u = (r, t)"
      by (simp add: bind_def)
    have mode: "if batch_size > 1 then chain_keeps mws else rs_pending u = []"
      using Cons.prems(5) l(4) by (auto split: if_splits)
    have "lane_inv D (led @ l) True u" using l(3) x by simp
    moreover have "protected D records" using Cons.prems(4) by (auto simp: protected_def)
    ultimately obtain led' where
      "ledger_of (chain_made mws) records led'" "lane_inv D (led @ l @ led') (r = Inr ()) t"
      "r = Inr () \<longrightarrow> map fst led' = records"
      using Cons.IH [OF rest _ Cons.prems(3) _ mode, of "led @ l"] by auto
    with l(1,2) x show ?thesis by (intro exI [of _ "l @ led'"]) (auto simp: ledger_of_def)
  qed
qed

lemma hot_flush_inv:
  assumes "lane_inv D led c s"
  obtains t where "hot_flush n s = (Inr (), t)" "lane_inv D led c t" "rs_pending t = rs_pending s"
proof -
  obtain t where t: "hot_flush n s = (Inr (), t)" by (simp add: hot_flush_def modify_def)
  then have "emits is_discard s t" by (rule steps_inD [OF hot_emits(2)])
  with t that [of t] lane_inv_emits [OF assms] show thesis by (auto simp: emits_def)
qed

lemma linear_body_inv:
  assumes run: "bind (for_each records (linear_step D mws batch_size)) (\<lambda>_. raise_opt src_end) s = (z, u)"
    and inv: "lane_inv D [] True s" and pend: "rs_pending s = []"
    and "\<forall>m\<in>set mws. quiet_stage m" "protected D records" "batch_size > 1 \<longrightarrow> chain_keeps mws"
  shows "\<exists>led. ledger_of (chain_made mws) records led \<and> lane_inv D led (z = Inr ()) u \<and> (z = Inr () \<longrightarrow> map fst led = records)"
proof -
  obtain x u' where loop: "for_each records (linear_step D mws batch_size) s = (x, u')"
    by (cases "for_each records (linear_step D mws batch_size) s")
  have u: "u' = u" "z = Inr () \<Longrightarrow> x = Inr ()"
    using run loop by (auto simp: bind_def raise_opt_def skip_def ret_def throw_def
        split: sum.splits option.splits)
  have "if batch_size > 1 then chain_keeps mws else rs_pending s = []" using assms(6) pend by simp
  from linear_loop_inv [OF loop inv assms(4,5) this] obtain led where
    "ledger_of (chain_made mws) records led" "lane_inv D led (x = Inr ()) u'" "x = Inr () \<Longrightarrow> map fst led = records" by auto
  with u show ?thesis by (auto intro: lane_inv_antimono)
qed

lemma linear_lane_inv:
  assumes run: "linear_lane_run D mws batch_size records src_end s = (r, t)" and tr: "rs_trace s = []"
    and quiet: "\<forall>m\<in>set mws. quiet_stage m" and prot: "protected D records"
    and mode: "batch_size > 1 \<longrightarrow> chain_keeps mws"
  shows "\<exists>led. ledger_of (chain_made mws) records led \<and> safe_trace D led (rs_trace t) \<and>
     (r = Inr () \<longrightarrow> map fst led = records \<and> (\<forall>x\<in>set led. entry_settled D x (rs_trace t)))"
proof -
  let ?s = "s\<lparr>rs_pending := [], rs_processed_count := 0, rs_hot := hot_init\<rparr>"
  let ?body = "bind (for_each records (linear_step D mws batch_size)) (\<lambda>_. raise_opt src_end)"
  obtain z u where body: "?body ?s = (z, u)" by (cases "?body ?s")
  have "lane_inv D [] True ?s" using tr by (intro lane_inv_start) simp_all
  from linear_body_inv [OF body this _ quiet prot mode] obtain led where
    led: "ledger_of (chain_made mws) records led" "lane_inv D led (z = Inr ()) u" "z = Inr () \<Longrightarrow> map fst led = records"
    by auto
  obtain v where v: "hot_flush (de_source_name D) u = (Inr (), v)" "lane_inv D led (z = Inr ()) v"
    using hot_flush_inv [OF led(2)] by blast
  obtain y w where fl: "flush_pending_writes D v = (y, w)" by (cases "flush_pending_writes D v")
  have last: "lane_inv D led (y = Inr () \<and> z = Inr ()) w \<and> rs_pending w = []"
    using lane_inv_last_flush [OF v(2) fl] by simp
  have "(r, t) = (case z of
       Inl e \<Rightarrow> if \<not> is_Exception e then (Inl e, u)
                else (case y of Inl e' \<Rightarrow> (Inl e', w) | Inr _ \<Rightarrow> (Inl e, w))
     | Inr _ \<Rightarrow> (y, w))"
    using run body v(1) fl
    by (auto simp: linear_lane_run_def bind_def attempt_def throw_def modify_def split: sum.splits)
  then have res: "(t = u \<or> t = w) \<and> (r = Inr () \<longrightarrow> z = Inr () \<and> y = Inr () \<and> t = w)"
    by (cases z) (auto split: if_splits sum.splits)
  have safe: "safe_trace D led (rs_trace t)"
    using res lane_inv_safe [OF led(2)] lane_inv_safe [OF conjunct1 [OF last]] by auto
  have "\<forall>x\<in>set led. entry_settled D x (rs_trace t)" if "r = Inr ()"
    using last res that by (intro lane_inv_settled) auto
  with safe led res show ?thesis by blast
qed

text \<open>
  C2. No checkpoint ahead of the data. In a run of the linear lane, every checkpoint that is ever
  handed to the store belongs to a record of the source such that this record and every record before
  it had already been settled, in the way that what the chain made of the record asks for: accepted by the sink, taken
  by the dead-letter queue, dropped by the chain, or given up under the log-and-continue policy. So a run that resumes
  from a stored checkpoint skips no unsettled record, whatever failed and wherever the run stopped. When the run
  returns normally, every record of the source was settled. There is a checkpoint store, every record carries a
  checkpoint, the stages write no record and no checkpoint of their own, and in batched mode the chain drops no
  record (see \<open>linear_lane_drop_overtakes_pending\<close> for what happens when it does).
\<close>

theorem linear_lane_checkpoint_never_ahead:
  assumes "linear_lane_run D mws batch_size records src_end s = (r, t)" and "rs_trace s = []"
    and "\<forall>m\<in>set mws. quiet_stage m" and "protected D records"
    and "batch_size > 1 \<longrightarrow> chain_keeps mws"
  shows "\<exists>led. ledger_of (chain_made mws) records led \<and> safe_trace D led (rs_trace t) \<and>
     (r = Inr () \<longrightarrow> map fst led = records \<and> (\<forall>x\<in>set led. entry_settled D x (rs_trace t)))"
  using assms by (rule linear_lane_inv)

theorem linear_lane_checkpoint_never_ahead_witness:
  "\<exists>led. ledger_of (chain_made ([] :: unit Middleware list)) (map demo_record [2, 3]) led \<and>
     safe_trace (demo_engine sink_bad2 (Some (\<lambda>_. Inr ())) SINK_FAIL_CLOSED 1) led
       (rs_trace (snd (linear_lane_run (demo_engine sink_bad2 (Some (\<lambda>_. Inr ())) SINK_FAIL_CLOSED 1) [] 1 (map demo_record [2, 3]) None (init_state ())))) \<and>
     map fst led = map demo_record [2, 3]"
proof -
  let ?D = "demo_engine sink_bad2 (Some (\<lambda>_. Inr ())) SINK_FAIL_CLOSED 1"
  let ?run = "linear_lane_run ?D [] 1 (map demo_record [2, 3]) None (init_state ())"
  have ok: "fst ?run = Inr ()" by code_simp
  have prot: "protected ?D (map demo_record [2, 3])"
    by (simp add: protected_def demo_engine_def demo_record_def)
  have start: "rs_trace (init_state ()) = []" by (simp add: init_state_def)
  have mode: "\<forall>m\<in>set ([] :: unit Middleware list). quiet_stage m"
    "(1 :: int) > 1 \<longrightarrow> chain_keeps ([] :: unit Middleware list)" by simp_all
  from linear_lane_checkpoint_never_ahead
      [OF surjective_pairing [of ?run, unfolded ok] start mode(1) prot mode(2)]
  show ?thesis by (simp only: simp_thms) blast
qed

text \<open>
  In batched mode a dropped record's checkpoint overtakes the records that are still pending:
  record 1 waits in the queue, the chain drops record 2, and \<open>drop_record\<close> stores the checkpoint of
  record 2. When the flush of record 1 then fails, the run raises, but the stored checkpoint says that
  record 1 was done: a resumed run loses it, although the policy is fail-closed.
\<close>

theorem linear_lane_drop_overtakes_pending:
  "(let run = linear_lane_run (demo_engine sink_down None SINK_FAIL_CLOSED 1) [demo_stage ''f'' drops_2] 10
        (map demo_record [1, 2]) None (init_state ())
    in fst run = Inl (RecordDeliveryError (mk_exn ValueErrorC ''sink is down'')) \<and>
       map (\<lambda>e. case e of ESave c b \<Rightarrow> Some (cp_value c, b) | _ \<Rightarrow> None) (rs_trace (snd run)) =
         [Some (PInt 2, True), None] \<and>
       \<not> sink_accepted (demo_obj 1) (rs_trace (snd run)))"
proof -
  let ?run = "linear_lane_run (demo_engine sink_down None SINK_FAIL_CLOSED 1) [demo_stage ''f'' drops_2] 10
        (map demo_record [1, 2]) None (init_state ())"
  let ?c = "\<lparr>cp_pipeline_id = ''p'', cp_run_id = ''r'', cp_source = ''s'', cp_value = PInt 2,
      cp_recorded_at = ''now'', cp_source_identity = None\<rparr>"
  have "fst ?run = Inl (RecordDeliveryError (mk_exn ValueErrorC ''sink is down''))" by code_simp
  moreover have "rs_trace (snd ?run) =
      [ESave ?c True, EWrite [demo_obj 1] (Inl (mk_exn ValueErrorC ''sink is down''))]" by code_simp
  ultimately show ?thesis by (simp add: sink_accepted_def)
qed

end
