(* ===== verification/File_Sources.thy ===== *)
theory File_Sources
  imports Run_State
begin

text \<open>
  The resumable file sources: \<^verbatim>\<open>sources/file/base.py\<close> (may a saved cursor be used?), \<^verbatim>\<open>sources/file/jsonlines.py\<close>
  and \<^verbatim>\<open>sources/file/csv.py\<close> (the three ways in which each of them reads its file), and
  \<^verbatim>\<open>core/source/_errors.py\<close>.

  A file is what Python's readers make of it: the list of lines of a text file, or the list of rows of
  \<open>csv.reader\<close>. The JSON parser, \<open>str.strip\<close>, and the row mapper of the application are parameters. A
  generator is the list of the items it yields, each with the value that \<open>current_checkpoint()\<close> has
  while the generator is suspended there, and the exception it ends with, if any; \<open>asyncio.sleep(0)\<close>
  has no effect on it. Both sources run the same loop over their rows, \<open>sync_rows\<close>, which differs in how a row
  is parsed: this is \<open>fs_parse\<close>.
\<close>

section \<open>May the saved cursor be used?\<close>

datatype SourceIdentityMismatchPolicy = ID_FAIL_CLOSED | ID_RESET | ID_ALLOW

definition identity_mismatch :: exn where
  "identity_mismatch = mk_exn SourceIdentityMismatchErrorC ''Cannot safely resume source''"

text \<open>\<open>current\<close> is the outcome of \<open>checkpoint_source_identity()\<close>, which reads the file system.\<close>

definition accept_checkpoint_identity ::
  "SourceIdentityMismatchPolicy \<Rightarrow> exn + SourceIdentity option \<Rightarrow> Checkpoint option \<Rightarrow> exn + bool" where
  "accept_checkpoint_identity policy current checkpoint = (case checkpoint of
       None \<Rightarrow> Inr False
     | Some c \<Rightarrow> res_bind current (\<lambda>cur.
         if cp_source_identity c \<noteq> None \<and> cp_source_identity c = cur then Inr True
         else (case policy of
             ID_FAIL_CLOSED \<Rightarrow> Inl identity_mismatch
           | ID_RESET \<Rightarrow> Inr False
           | ID_ALLOW \<Rightarrow> Inr True)))"

text \<open>\<open>int(value.get(key, 0))\<close>.\<close>

definition cursor_of :: "pylib \<Rightarrow> string \<Rightarrow> pyval \<Rightarrow> exn + int" where
  "cursor_of L key v =
     (let kvs = (case v of PDict kvs \<Rightarrow> kvs | _ \<Rightarrow> []);
          x = (case dict_get kvs key of None \<Rightarrow> PInt 0 | Some w \<Rightarrow> w)
      in case py_int L x of
           Some n \<Rightarrow> Inr n
         | None \<Rightarrow> Inl (mk_exn (case x of PStr _ \<Rightarrow> ValueErrorC | _ \<Rightarrow> TypeErrorC) ''invalid cursor''))"

text \<open>\<open>prepare_resume\<close> of both sources: the number of the last row that is to be skipped.\<close>

definition prepare_resume ::
  "pylib \<Rightarrow> string \<Rightarrow> SourceIdentityMismatchPolicy \<Rightarrow> exn + SourceIdentity option \<Rightarrow> Checkpoint option \<Rightarrow>
     exn + int" where
  "prepare_resume L key policy current checkpoint =
     res_bind (accept_checkpoint_identity policy current checkpoint) (\<lambda>ok.
       case checkpoint of
         Some c \<Rightarrow> if ok then cursor_of L key (cp_value c) else Inr 0
       | None \<Rightarrow> Inr 0)"

section \<open>Rows\<close>

datatype SourceRecordFailurePolicy = SRC_FAIL_CLOSED | SRC_LOG_AND_CONTINUE

text \<open>
  What becomes of a row: nothing to parse in it, a record, \<open>None\<close> from the row mapper, or an exception
  of the parser or the mapper.
\<close>

datatype row_outcome = Blank | Row pyobj | NoRow | Bad exn

definition is_blank :: "row_outcome \<Rightarrow> bool" where
  "is_blank x = (case x of Blank \<Rightarrow> True | _ \<Rightarrow> False)"

definition mapped :: "exn + pyobj option \<Rightarrow> row_outcome" where
  "mapped r = (case r of Inl e \<Rightarrow> Bad e | Inr None \<Rightarrow> NoRow | Inr (Some x) \<Rightarrow> Row x)"

record 'i file_source =
  fs_name :: string
  fs_key :: string
  fs_parse :: "'i \<Rightarrow> row_outcome"
  fs_value :: "'i \<Rightarrow> pyval"
  fs_on_record_error :: SourceRecordFailurePolicy

text \<open>The counters of a source: \<open>_last_line_number\<close> or \<open>_last_row_number\<close>, the errors and the drops.\<close>

record reader =
  rd_last :: int
  rd_errors :: int
  rd_drops :: int

definition current_checkpoint :: "'i file_source \<Rightarrow> reader \<Rightarrow> pyval" where
  "current_checkpoint F st = (if rd_last st \<le> 0 then PNone else PDict [(fs_key F, PInt (rd_last st))])"

definition start_reading :: "reader \<Rightarrow> reader" where
  "start_reading st = st\<lparr>rd_errors := 0, rd_drops := 0\<rparr>"

text \<open>The \<open>except Exception\<close> clause of the loops: an exception to raise, or the row is dropped.\<close>

definition row_failed :: "'i file_source \<Rightarrow> 'i \<Rightarrow> exn \<Rightarrow> reader \<Rightarrow> exn option \<times> reader" where
  "row_failed F x e st =
     (if \<not> is_Exception e then (Some e, st)
      else let st = st\<lparr>rd_errors := rd_errors st + 1\<rparr> in
        if fs_on_record_error F = SRC_LOG_AND_CONTINUE then (None, st\<lparr>rd_drops := rd_drops st + 1\<rparr>)
        else (Some (SourceRecordError e (fs_value F x) (current_checkpoint F st) (Some (fs_name F))), st))"

type_synonym 'y generated = "('y \<times> pyval) list \<times> exn option \<times> reader"

definition yield_item :: "'y \<times> pyval \<Rightarrow> 'y generated \<Rightarrow> 'y generated" where
  "yield_item y g = (case g of (ys, e, st) \<Rightarrow> (y # ys, e, st))"

text \<open>\<open>stream_sync_batches\<close>: \<open>k\<close> is the resume number, \<open>n\<close> the number of the row read last.\<close>

fun sync_rows :: "'i file_source \<Rightarrow> int \<Rightarrow> int \<Rightarrow> 'i list \<Rightarrow> reader \<Rightarrow> pyobj generated" where
  "sync_rows F k n [] st = ([], None, st)"
| "sync_rows F k n (x # xs) st =
     (let m = n + 1 in
      if m \<le> k then sync_rows F k m xs st
      else let st = st\<lparr>rd_last := m\<rparr> in
        case fs_parse F x of
          Blank \<Rightarrow> sync_rows F k m xs st
        | Row r \<Rightarrow> yield_item (r, current_checkpoint F st) (sync_rows F k m xs st)
        | NoRow \<Rightarrow> sync_rows F k m xs (st\<lparr>rd_drops := rd_drops st + 1\<rparr>)
        | Bad e \<Rightarrow> (case row_failed F x e st of
              (Some e', st) \<Rightarrow> ([], Some e', st)
            | (None, st) \<Rightarrow> sync_rows F k m xs st))"

definition stream_sync_batches :: "'i file_source \<Rightarrow> int \<Rightarrow> 'i list \<Rightarrow> reader \<Rightarrow> pyobj generated" where
  "stream_sync_batches F k xs st = sync_rows F k 0 xs (start_reading st)"

text \<open>\<open>stream_batches\<close>: \<open>batch\<close> is the batch being built.\<close>

fun batch_rows ::
  "'i file_source \<Rightarrow> int \<Rightarrow> int \<Rightarrow> int \<Rightarrow> 'i list \<Rightarrow> pyobj list \<Rightarrow> reader \<Rightarrow> pyobj list generated" where
  "batch_rows F sz k n [] batch st =
     (if batch \<noteq> [] then [(batch, current_checkpoint F st)] else [], None, st)"
| "batch_rows F sz k n (x # xs) batch st =
     (let m = n + 1 in
      if m \<le> k then batch_rows F sz k m xs batch st
      else let st = st\<lparr>rd_last := m\<rparr> in
        case fs_parse F x of
          Blank \<Rightarrow> batch_rows F sz k m xs batch st
        | Bad e \<Rightarrow> (case row_failed F x e st of
              (Some e', st) \<Rightarrow> ([], Some e', st)
            | (None, st) \<Rightarrow> batch_rows F sz k m xs batch st)
        | NoRow \<Rightarrow> batch_rows F sz k m xs batch (st\<lparr>rd_drops := rd_drops st + 1\<rparr>)
        | Row r \<Rightarrow>
            let batch = batch @ [r] in
            if int (length batch) \<ge> sz
            then yield_item (batch, current_checkpoint F st) (batch_rows F sz k m xs [] st)
            else batch_rows F sz k m xs batch st)"

definition stream_batches ::
  "'i file_source \<Rightarrow> int \<Rightarrow> int \<Rightarrow> 'i list \<Rightarrow> reader \<Rightarrow> pyobj list generated" where
  "stream_batches F emit_batch_size k xs st =
     batch_rows F (max emit_batch_size 1) k 0 xs [] (start_reading st)"

text \<open>
  \<open>read_records\<close>: chunks are read in a thread and mapped in the event loop. \<open>_read_batch\<close> returns the
  chunk, what is left of the file and the row number. A blank line skips the test of the chunk's size.
\<close>

fun read_batch ::
  "'i file_source \<Rightarrow> int \<Rightarrow> int \<Rightarrow> int \<Rightarrow> 'i list \<Rightarrow> (int \<times> 'i) list \<Rightarrow> (int \<times> 'i) list \<times> 'i list \<times> int" where
  "read_batch F sz k n [] batch = (batch, [], n)"
| "read_batch F sz k n (x # xs) batch =
     (let m = n + 1 in
      if m \<le> k then read_batch F sz k m xs batch
      else let batch = batch @ [(m, x)] in
        if is_blank (fs_parse F x) then read_batch F sz k m xs batch
        else if int (length batch) \<ge> sz then (batch, xs, m)
        else read_batch F sz k m xs batch)"

fun map_batch :: "'i file_source \<Rightarrow> (int \<times> 'i) list \<Rightarrow> reader \<Rightarrow> pyobj generated" where
  "map_batch F [] st = ([], None, st)"
| "map_batch F ((m, x) # batch) st =
     (let st = st\<lparr>rd_last := m\<rparr> in
      case fs_parse F x of
        Blank \<Rightarrow> map_batch F batch st
      | Row r \<Rightarrow> yield_item (r, current_checkpoint F st) (map_batch F batch st)
      | NoRow \<Rightarrow> map_batch F batch (st\<lparr>rd_drops := rd_drops st + 1\<rparr>)
      | Bad e \<Rightarrow> (case row_failed F x e st of
            (Some e', st) \<Rightarrow> ([], Some e', st)
          | (None, st) \<Rightarrow> map_batch F batch st))"

definition then_yields :: "'y generated \<Rightarrow> (reader \<Rightarrow> 'y generated) \<Rightarrow> 'y generated" where
  "then_yields g f = (case g of
       (ys, Some e, st) \<Rightarrow> (ys, Some e, st)
     | (ys, None, st) \<Rightarrow> (case f st of (zs, e, st') \<Rightarrow> (ys @ zs, e, st')))"

lemma read_batch_length:
  "read_batch F sz k n xs batch = (b, rest, m) \<Longrightarrow> length b + length rest \<le> length batch + length xs"
  by (induction F sz k n xs batch rule: read_batch.induct)
     (auto simp: Let_def split: if_splits dest: order_trans)

text \<open>The loop ends: a chunk that is not empty has taken rows from the file.\<close>

function read_loop :: "'i file_source \<Rightarrow> int \<Rightarrow> int \<Rightarrow> int \<Rightarrow> 'i list \<Rightarrow> reader \<Rightarrow> pyobj generated" where
  "read_loop F sz k n xs st =
     (case read_batch F sz k n xs [] of (batch, rest, m) \<Rightarrow>
        if batch = [] then ([], None, st)
        else then_yields (map_batch F batch st) (read_loop F sz k m rest))"
  by pat_completeness auto
termination
  by (relation "measure (\<lambda>(F, sz, k, n, xs, st). length xs)")
     (auto dest!: read_batch_length [OF sym] simp: neq_Nil_conv)

declare read_loop.simps [simp del]

definition read_records :: "'i file_source \<Rightarrow> int \<Rightarrow> int \<Rightarrow> 'i list \<Rightarrow> reader \<Rightarrow> pyobj generated" where
  "read_records F batch_size k xs st = read_loop F (max batch_size 1) k 0 xs (start_reading st)"

section \<open>The three ways to read agree\<close>

text \<open>The rows that are not skipped, with their numbers.\<close>

fun numbered :: "int \<Rightarrow> int \<Rightarrow> 'i list \<Rightarrow> (int \<times> 'i) list" where
  "numbered k n [] = []"
| "numbered k n (x # xs) = (if n + 1 \<le> k then [] else [(n + 1, x)]) @ numbered k (n + 1) xs"

lemma sync_rows_map: "sync_rows F k n xs st = map_batch F (numbered k n xs) st"
  by (induction F k n xs st rule: sync_rows.induct)
     (auto simp: Let_def split: row_outcome.split prod.split option.split)

lemma then_yields_None [simp]: "then_yields ([], None, st) f = f st"
  by (simp add: then_yields_def split: prod.split)

lemma then_yields_Some [simp]: "then_yields (ys, Some e, st) f = (ys, Some e, st)"
  by (simp add: then_yields_def)

lemma then_yields_item: "then_yields (yield_item y g) f = yield_item y (then_yields g f)"
  by (auto simp: then_yields_def yield_item_def split: prod.split option.split)

lemma map_batch_append: "map_batch F (a @ b) st = then_yields (map_batch F a st) (map_batch F b)"
  by (induction F a st rule: map_batch.induct)
     (auto simp: Let_def then_yields_item split: row_outcome.split prod.split option.split)

lemma read_batch_numbered:
  "read_batch F sz k n xs batch = (b, rest, m) \<Longrightarrow> batch @ numbered k n xs = b @ numbered k m rest"
  by (induction F sz k n xs batch rule: read_batch.induct) (auto simp: Let_def split: if_splits)

lemma read_batch_empty: "read_batch F sz k n xs batch = ([], rest, m) \<Longrightarrow> rest = []"
  by (induction F sz k n xs batch rule: read_batch.induct) (auto simp: Let_def split: if_splits)

lemma read_loop_sync: "read_loop F sz k n xs st = sync_rows F k n xs st"
proof (induction F sz k n xs st rule: read_loop.induct)
  case (1 F sz k n xs st)
  obtain batch rest m where rb: "read_batch F sz k n xs [] = (batch, rest, m)" by (cases "read_batch F sz k n xs []") auto
  have rows: "numbered k n xs = batch @ numbered k m rest" using read_batch_numbered [OF rb] by simp
  show ?case
  proof (cases "batch = []")
    case True
    with rb rows read_batch_empty [of F sz k n xs "[]" rest m] show ?thesis
      by (simp add: read_loop.simps [of F sz k n xs] sync_rows_map)
  next
    case False
    with 1 rb have "read_loop F sz k m rest = map_batch F (numbered k m rest)"
      by (intro ext) (simp add: sync_rows_map)
    with False rb rows show ?thesis
      by (simp add: read_loop.simps [of F sz k n xs] sync_rows_map map_batch_append)
  qed
qed

text \<open>
  Reading in chunks from a thread changes nothing. \<open>read_records\<close> ends for every file and every chunk
  size, although a chunk may grow past its size over blank lines: it yields the records that
  \<open>stream_sync_batches\<close> yields, with the same checkpoints, ends with the same exception and leaves the
  same counters.
\<close>

theorem read_records_equals_stream:
  "read_records F batch_size k xs st = stream_sync_batches F k xs st"
  by (simp add: read_records_def stream_sync_batches_def read_loop_sync)

section \<open>Batches\<close>

text \<open>Where the rows up to number \<open>m\<close> have taken the reader: their records.\<close>

definition records_upto :: "'i file_source \<Rightarrow> (int \<times> 'i) list \<Rightarrow> int \<Rightarrow> reader \<Rightarrow> pyobj list" where
  "records_upto F rows m st = map fst (fst (map_batch F (filter (\<lambda>r. fst r \<le> m) rows) st))"

lemma numbered_gt: "r \<in> set (numbered k n xs) \<Longrightarrow> n < fst r \<and> k < fst r"
  by (induction k n xs rule: numbered.induct) (fastforce split: if_splits)+

lemma records_upto_none [simp]: "records_upto F (numbered k n xs) n st = []"
proof -
  have "filter (\<lambda>r. fst r \<le> n) (numbered k n xs) = []"
    using numbered_gt [of _ k n xs] by (force simp: filter_empty_conv)
  then show ?thesis by (simp add: records_upto_def)
qed

lemma records_upto_Cons: "i \<le> m \<Longrightarrow> records_upto F ((i, x) # rows) m st =
  (let st = st\<lparr>rd_last := i\<rparr> in case fs_parse F x of
     Blank \<Rightarrow> records_upto F rows m st
   | Row r \<Rightarrow> r # records_upto F rows m st
   | NoRow \<Rightarrow> records_upto F rows m (st\<lparr>rd_drops := rd_drops st + 1\<rparr>)
   | Bad e \<Rightarrow> (case row_failed F x e st of (Some e', st) \<Rightarrow> [] | (None, st) \<Rightarrow> records_upto F rows m st))"
  by (auto simp: records_upto_def Let_def yield_item_def split: row_outcome.split prod.split option.split)

text \<open>What the batches are, given the records that the row loop yields from the same place.\<close>

definition cuts :: "int \<Rightarrow> pyobj list \<Rightarrow> (pyobj list \<times> pyval) list \<Rightarrow> bool \<Rightarrow> bool" where
  "cuts sz records bs whole \<longleftrightarrow> prefix (concat (map fst bs)) records \<and>
     int (length records) < int (length (concat (map fst bs))) + sz \<and>
     (whole \<longrightarrow> concat (map fst bs) = records) \<and>
     (\<forall>b\<in>set bs. fst b \<noteq> [] \<and> int (length (fst b)) \<le> sz)"

definition at_cursor ::
  "'i file_source \<Rightarrow> (int \<times> 'i) list \<Rightarrow> int \<Rightarrow> reader \<Rightarrow> pyobj list \<Rightarrow> (pyobj list \<times> pyval) list \<Rightarrow> bool" where
  "at_cursor F rows n st batch bs \<longleftrightarrow> (\<forall>pre b c post. bs = pre @ (b, c) # post \<longrightarrow>
     (\<exists>m\<ge>n. c = PDict [(fs_key F, PInt m)] \<and>
        concat (map fst pre) @ b = batch @ records_upto F rows m st))"

lemma at_cursorD: "at_cursor F rows n st batch (pre @ (b, c) # post) \<Longrightarrow>
  \<exists>m\<ge>n. c = PDict [(fs_key F, PInt m)] \<and> concat (map fst pre) @ b = batch @ records_upto F rows m st"
  unfolding at_cursor_def by blast

lemma at_cursor_Nil [simp]: "at_cursor F rows n st batch []"
  by (simp add: at_cursor_def)

lemma at_cursor_Cons:
  assumes "c = PDict [(fs_key F, PInt m)]" "n \<le> m" "b = batch @ records_upto F rows m st"
    and "at_cursor F rows' m st' [] bs"
    and "\<And>i. m \<le> i \<Longrightarrow> batch @ records_upto F rows i st = b @ records_upto F rows' i st'"
  shows "at_cursor F rows n st batch ((b, c) # bs)"
  unfolding at_cursor_def
proof (intro allI impI)
  fix pre b' c' post
  assume "(b, c) # bs = pre @ (b', c') # post"
  then consider "pre = []" "b' = b" "c' = c" | pre' where "pre = (b, c) # pre'" "bs = pre' @ (b', c') # post"
    by (cases pre) auto
  then show "\<exists>m\<ge>n. c' = PDict [(fs_key F, PInt m)] \<and>
      concat (map fst pre) @ b' = batch @ records_upto F rows m st"
  proof cases
    case 1
    with assms(1-3) show ?thesis by auto
  next
    case 2
    with at_cursorD [OF assms(4) [unfolded 2(2)]] obtain i where "m \<le> i"
      "c' = PDict [(fs_key F, PInt i)]" "concat (map fst pre') @ b' = records_upto F rows' i st'" by auto
    with 2 assms(2,5) show ?thesis by (intro exI [of _ i]) auto
  qed
qed

lemma at_cursor_skip:
  assumes "at_cursor F rows' (n + 1) st' batch' bs"
    and "\<And>i. n + 1 \<le> i \<Longrightarrow> batch @ records_upto F rows i st = batch' @ records_upto F rows' i st'"
  shows "at_cursor F rows n st batch bs"
  unfolding at_cursor_def
proof (intro allI impI)
  fix pre b c post
  assume "bs = pre @ (b, c) # post"
  with assms(1) obtain m where "n + 1 \<le> m" "c = PDict [(fs_key F, PInt m)]"
    "concat (map fst pre) @ b = batch' @ records_upto F rows' m st'" unfolding at_cursor_def by blast
  with assms(2) [of m] show "\<exists>m\<ge>n. c = PDict [(fs_key F, PInt m)] \<and>
      concat (map fst pre) @ b = batch @ records_upto F rows m st" by (intro exI [of _ m]) simp
qed

lemma cuts_yield:
  "cuts sz (map fst ys) bs whole \<Longrightarrow> b \<noteq> [] \<Longrightarrow> int (length b) \<le> sz \<Longrightarrow>
     cuts sz (b @ map fst ys) ((b, c) # bs) whole"
  by (auto simp: cuts_def)

lemma batch_rows_spec:
  assumes "batch_rows F sz k n xs batch st = (bs, e, t)" "int (length batch) < sz" "0 \<le> n"
    and "batch \<noteq> [] \<Longrightarrow> rd_last st = n \<and> 0 < n \<and> k \<le> n"
  shows "\<exists>ys. sync_rows F k n xs st = (ys, e, t) \<and> cuts sz (batch @ map fst ys) bs (e = None) \<and>
    at_cursor F (numbered k n xs) n st batch bs"
  using assms
proof (induction xs arbitrary: n batch st bs e t)
  case Nil
  have "at_cursor F [] n st batch [(batch, current_checkpoint F st)]" if "batch \<noteq> []"
    using Nil that by (auto simp: at_cursor_def current_checkpoint_def records_upto_def Cons_eq_append_conv
        intro!: exI [of _ n])
  with Nil show ?case by (auto simp: cuts_def)
next
  case (Cons x xs)
  let ?m = "n + 1"
  show ?case
  proof (cases "?m \<le> k")
    case True
    then have "batch = []" using Cons.prems(4) by linarith
    with Cons.IH [of ?m batch st bs e t] True Cons.prems obtain ys where
      "sync_rows F k ?m xs st = (ys, e, t)" "cuts sz (batch @ map fst ys) bs (e = None)"
      "at_cursor F (numbered k ?m xs) ?m st batch bs" by auto
    with True show ?thesis by (auto intro: at_cursor_skip)
  next
    case k: False
    define st1 where "st1 = st\<lparr>rd_last := ?m\<rparr>"
    have pos: "0 \<le> ?m" "rd_last st1 = ?m" "0 < ?m" "k \<le> ?m" using Cons.prems(3) k by (auto simp: st1_def)
    have rec: "\<exists>ys. sync_rows F k ?m xs st2 = (ys, e, t) \<and> cuts sz (batch @ map fst ys) bs (e = None) \<and>
        at_cursor F (numbered k ?m xs) ?m st2 batch bs"
      if "batch_rows F sz k ?m xs batch st2 = (bs, e, t)" "rd_last st2 = ?m" for st2
      using Cons.IH [OF that(1)] Cons.prems(2) pos that(2) by blast
    have skip: ?thesis if "batch_rows F sz k ?m xs batch st2 = (bs, e, t)" "rd_last st2 = ?m"
      "sync_rows F k n (x # xs) st = sync_rows F k ?m xs st2"
      "\<And>i. ?m \<le> i \<Longrightarrow> records_upto F (numbered k n (x # xs)) i st = records_upto F (numbered k ?m xs) i st2"
      for st2
    proof -
      from rec [OF that(1,2)] obtain ys where "sync_rows F k ?m xs st2 = (ys, e, t)"
        "cuts sz (batch @ map fst ys) bs (e = None)" "at_cursor F (numbered k ?m xs) ?m st2 batch bs" by blast
      moreover from this(3) have "at_cursor F (numbered k n (x # xs)) n st batch bs"
        by (rule at_cursor_skip) (simp only: that(4))
      ultimately show ?thesis using that(3) by simp
    qed
    show ?thesis
    proof (cases "fs_parse F x")
      case Blank
      with skip [of st1] Cons.prems(1) k pos show ?thesis
        by (simp add: Let_def st1_def records_upto_Cons)
    next
      case NoRow
      with skip [of "st1\<lparr>rd_drops := rd_drops st + 1\<rparr>"] Cons.prems(1) k pos show ?thesis
        by (simp add: Let_def st1_def records_upto_Cons)
    next
      case (Bad ex)
      obtain q st2 where rf: "row_failed F x ex st1 = (q, st2)" by (cases "row_failed F x ex st1")
      then have "rd_last st2 = ?m" using pos by (auto simp: row_failed_def Let_def split: if_splits)
      with rf skip [of st2] Bad Cons.prems(1,2) k show ?thesis
        by (cases q) (auto simp: Let_def st1_def records_upto_Cons cuts_def)
    next
      case (Row r)
      let ?b = "batch @ [r]"
      show ?thesis
      proof (cases "int (length ?b) \<ge> sz")
        case False
        with Row Cons.prems(1) k have "batch_rows F sz k ?m xs ?b st1 = (bs, e, t)"
          by (simp add: Let_def st1_def)
        with Cons.IH [OF this] False pos obtain ys where
          "sync_rows F k ?m xs st1 = (ys, e, t)" "cuts sz (?b @ map fst ys) bs (e = None)"
          "at_cursor F (numbered k ?m xs) ?m st1 ?b bs" by auto
        moreover from this(3) have "at_cursor F (numbered k n (x # xs)) n st batch bs"
          by (rule at_cursor_skip) (use Row k in \<open>simp add: records_upto_Cons Let_def st1_def\<close>)
        ultimately show ?thesis using Row k
          by (auto simp: Let_def st1_def yield_item_def)
      next
        case True
        with Row Cons.prems(1) k obtain bs' where bs: "bs = (?b, current_checkpoint F st1) # bs'"
          and tl: "batch_rows F sz k ?m xs [] st1 = (bs', e, t)"
          by (auto simp: Let_def st1_def yield_item_def split: prod.splits)
        have "0 < sz" using Cons.prems(2) by linarith
        with Cons.IH [OF tl] pos obtain ys where ys: "sync_rows F k ?m xs st1 = (ys, e, t)"
          "cuts sz (map fst ys) bs' (e = None)" "at_cursor F (numbered k ?m xs) ?m st1 [] bs'" by auto
        have "at_cursor F (numbered k n (x # xs)) n st batch bs"
          unfolding bs
          by (rule at_cursor_Cons [OF _ _ _ ys(3)])
             (use Row k pos in \<open>auto simp: current_checkpoint_def records_upto_Cons Let_def st1_def\<close>)
        moreover have "cuts sz (?b @ map fst ys) bs (e = None)"
          unfolding bs using ys(2) Cons.prems(2) by (intro cuts_yield) auto
        ultimately show ?thesis using ys(1) Row k
          by (auto simp: Let_def st1_def yield_item_def)
      qed
    qed
  qed
qed

text \<open>
  Batches cut the stream. \<open>stream_batches\<close> yields, batch by batch, the records of
  \<open>stream_sync_batches\<close>: all of them when no row fails, and with a failing row all but a last incomplete
  batch, which is not yielded; no batch is empty or longer than the configured size. The checkpoint
  that goes with a batch is the number of a row up to which the batches so far hold exactly the
  records.
\<close>

theorem stream_batches_cut_the_stream:
  assumes "stream_batches F emit_batch_size k xs st = (bs, e, t)"
  shows "\<exists>ys. stream_sync_batches F k xs st = (ys, e, t) \<and>
    cuts (max emit_batch_size 1) (map fst ys) bs (e = None) \<and>
    at_cursor F (numbered k 0 xs) 0 (start_reading st) [] bs"
  using batch_rows_spec [OF assms [unfolded stream_batches_def]]
  by (auto simp: stream_sync_batches_def)

section \<open>Resuming\<close>

text \<open>What a generator yields does not depend on the counters it starts with.\<close>

lemma row_failed_indep:
  "rd_last s = rd_last s' \<Longrightarrow> fst (row_failed F x e s) = fst (row_failed F x e s') \<and>
     rd_last (snd (row_failed F x e s)) = rd_last (snd (row_failed F x e s'))"
  by (simp add: row_failed_def Let_def current_checkpoint_def)

lemma map_batch_indep: "\<exists>t'. map_batch F rows s = (ys, e, t) \<longrightarrow> map_batch F rows s' = (ys, e, t')"
proof (induction rows arbitrary: s s' ys)
  case (Cons r rows)
  obtain m x where r: "r = (m, x)" by (cases r)
  let ?s = "s\<lparr>rd_last := m\<rparr>" and ?s' = "s'\<lparr>rd_last := m\<rparr>"
  show ?case
  proof (cases "fs_parse F x")
    case (Row y)
    then show ?thesis using Cons.IH [of ?s "tl ys" ?s'] r
      by (cases ys) (auto simp: Let_def yield_item_def current_checkpoint_def split: prod.split)
  next
    case (Bad ex)
    obtain q u q' u' where rf: "row_failed F x ex ?s = (q, u)" "row_failed F x ex ?s' = (q', u')"
      by (meson surj_pair)
    then have "q' = q" using row_failed_indep [of ?s ?s' F x ex] by simp
    with rf r Bad Cons.IH [of u ys u'] show ?thesis by (cases q) (auto simp: Let_def)
  qed (use r Cons.IH in \<open>auto simp: Let_def\<close>)
qed simp

lemma map_batch_other_start:
  "map_batch F rows s = (ys, e, t) \<Longrightarrow> \<exists>t'. map_batch F rows s' = (ys, e, t')"
  using map_batch_indep [of F rows s ys e t s'] by blast

lemma sorted_numbered: "sorted_wrt (<) (map fst (numbered k n xs))"
  by (induction k n xs rule: numbered.induct) (auto dest!: numbered_gt)

lemma numbered_resume: "k \<le> m \<Longrightarrow> filter (\<lambda>r. m < fst r) (numbered k n xs) = numbered m n xs"
  by (induction k n xs rule: numbered.induct) auto

text \<open>Where a record is yielded, the rows after it are exactly what is still to come.\<close>

lemma map_batch_after:
  assumes "map_batch F rows s = (ys, e, t)" "i < length ys" "sorted_wrt (<) (map fst rows)"
    and "\<forall>r\<in>set rows. 0 < fst r"
  shows "\<exists>m t'. snd (ys ! i) = PDict [(fs_key F, PInt m)] \<and> m \<in> fst ` set rows \<and>
    map_batch F (filter (\<lambda>r. m < fst r) rows) s' = (drop (Suc i) ys, e, t')"
  using assms
proof (induction rows arbitrary: s ys i)
  case (Cons r rows)
  obtain n x where r: "r = (n, x)" by (cases r)
  have later: "n < i" if "i \<in> fst ` set rows" for i using Cons.prems(3) r that by auto
  have rest: "\<exists>m t'. snd (zs ! i) = PDict [(fs_key F, PInt m)] \<and> m \<in> fst ` set (r # rows) \<and>
      map_batch F (filter (\<lambda>r. m < fst r) (r # rows)) s' = (drop (Suc i) zs, e, t')"
    if tl: "map_batch F rows u = (zs, e, t)" "i < length zs" for u zs i
  proof -
    have "sorted_wrt (<) (map fst rows)" "\<forall>r\<in>set rows. 0 < fst r" using Cons.prems(3,4) by auto
    from Cons.IH [OF tl this] obtain m t' where
      m: "snd (zs ! i) = PDict [(fs_key F, PInt m)]" "m \<in> fst ` set rows"
      "map_batch F (filter (\<lambda>r. m < fst r) rows) s' = (drop (Suc i) zs, e, t')" by blast
    with later [of m] r show ?thesis by (intro exI [of _ m] exI [of _ t']) auto
  qed
  let ?s = "s\<lparr>rd_last := n\<rparr>"
  show ?case
  proof (cases "fs_parse F x")
    case (Row y)
    obtain zs where zs: "map_batch F rows ?s = (zs, e, t)" "ys = (y, current_checkpoint F ?s) # zs"
      using Cons.prems(1) r Row by (auto simp: Let_def yield_item_def split: prod.splits)
    show ?thesis
    proof (cases i)
      case (Suc i')
      with rest [OF zs(1), of i'] zs(2) Cons.prems(2) show ?thesis by simp
    next
      case 0
      obtain t' where "map_batch F rows s' = (zs, e, t')" using map_batch_other_start [OF zs(1)] by blast
      moreover have "filter (\<lambda>r. n < fst r) (r # rows) = rows"
        using later r by (auto simp: filter_id_conv)
      moreover have "0 < n" using Cons.prems(4) r by auto
      ultimately show ?thesis using zs(2) 0 r
        by (intro exI [of _ n] exI [of _ t']) (auto simp: current_checkpoint_def)
    qed
  next
    case (Bad ex)
    obtain q u where "row_failed F x ex ?s = (q, u)" by (meson surj_pair)
    with Cons.prems(1,2) r Bad have "map_batch F rows u = (ys, e, t)"
      by (cases q) (simp_all add: Let_def)
    then show ?thesis using Cons.prems(2) by (rule rest)
  next
    case Blank
    with Cons.prems(1) r have "map_batch F rows ?s = (ys, e, t)" by (simp add: Let_def)
    then show ?thesis using Cons.prems(2) by (rule rest)
  next
    case NoRow
    with Cons.prems(1) r have "map_batch F rows (?s\<lparr>rd_drops := rd_drops ?s + 1\<rparr>) = (ys, e, t)"
      by (simp add: Let_def)
    then show ?thesis using Cons.prems(2) by (rule rest)
  qed
qed simp

lemma stream_resume:
  assumes "stream_sync_batches F k xs st = (ys, e, t)" "i < length ys"
  shows "\<exists>m t'. snd (ys ! i) = PDict [(fs_key F, PInt m)] \<and>
    stream_sync_batches F m xs st' = (drop (Suc i) ys, e, t')"
proof -
  have run: "map_batch F (numbered k 0 xs) (start_reading st) = (ys, e, t)"
    using assms(1) by (simp add: stream_sync_batches_def sync_rows_map)
  moreover have "\<forall>r\<in>set (numbered k 0 xs). 0 < fst r" using numbered_gt [of _ k 0 xs] by blast
  ultimately obtain m t' where m: "snd (ys ! i) = PDict [(fs_key F, PInt m)]" "m \<in> fst ` set (numbered k 0 xs)"
    "map_batch F (filter (\<lambda>r. m < fst r) (numbered k 0 xs)) (start_reading st') = (drop (Suc i) ys, e, t')"
    using map_batch_after [OF run assms(2) sorted_numbered, of "start_reading st'"] by blast
  have "k \<le> m" using m(2) numbered_gt [of _ k 0 xs] by force
  with m show ?thesis by (auto simp: stream_sync_batches_def sync_rows_map numbered_resume)
qed

lemma cursor_of_checkpoint: "cursor_of L key (PDict [(key, PInt m)]) = Inr m"
  by (simp add: cursor_of_def dict_get_def py_int_def)

text \<open>
  C8. Resuming is exact. When a stream, itself started from the beginning or from an earlier cursor,
  has yielded a record, and the checkpoint that was current then is saved with the identity of the
  file and handed to \<open>prepare_resume\<close> of the next run over the unchanged file, then that run yields
  exactly the records that followed, with their checkpoints, and ends as the first one did: no record
  is skipped and none is repeated.
\<close>

theorem file_resume_exact:
  assumes "stream_sync_batches F k xs st = (ys, e, t)" and "(y, cp_value c) \<in> set ys"
    and "cp_source_identity c = Some ident"
  shows "\<exists>pre post m t'. ys = pre @ (y, cp_value c) # post \<and>
    prepare_resume L (fs_key F) policy (Inr (Some ident)) (Some c) = Inr m \<and>
    stream_sync_batches F m xs st' = (post, e, t')"
proof -
  obtain i where i: "i < length ys" "ys ! i = (y, cp_value c)" using assms(2) by (auto simp: in_set_conv_nth)
  from stream_resume [OF assms(1) i(1), of st'] i(2) obtain m t' where
    m: "cp_value c = PDict [(fs_key F, PInt m)]" "stream_sync_batches F m xs st' = (drop (Suc i) ys, e, t')" by auto
  have "prepare_resume L (fs_key F) policy (Inr (Some ident)) (Some c) = Inr m"
    using assms(3) m(1) by (simp add: prepare_resume_def accept_checkpoint_identity_def cursor_of_checkpoint)
  with m(2) i id_take_nth_drop [OF i(1)] show ?thesis by metis
qed

section \<open>JsonLinesSource\<close>

record jsonl_config =
  jl_strip :: "string \<Rightarrow> string"
  jl_loads :: "string \<Rightarrow> exn + pyval"
  jl_row_mapper :: "pyval \<Rightarrow> exn + pyobj option"
  jl_on_record_error :: SourceRecordFailurePolicy

definition parse_line :: "jsonl_config \<Rightarrow> string \<Rightarrow> row_outcome" where
  "parse_line J line =
     (let stripped = jl_strip J line in
      if stripped = [] then Blank else mapped (res_bind (jl_loads J stripped) (jl_row_mapper J)))"

definition jsonl_source :: "jsonl_config \<Rightarrow> string file_source" where
  "jsonl_source J = \<lparr>fs_name = ''jsonl'', fs_key = ''line_number'', fs_parse = parse_line J,
     fs_value = (\<lambda>line. PStr (jl_strip J line)), fs_on_record_error = jl_on_record_error J\<rparr>"

section \<open>CsvSource\<close>

text \<open>A row as a dict: \<open>None\<close> is the key under which the values of a row that is too long are collected.\<close>

type_synonym csv_row = "(string option \<times> pyval) list"

record csv_config =
  cv_has_header :: bool
  cv_fieldnames :: "string list option"
  cv_skip_blank_lines :: bool
  cv_row_mapper :: "csv_row \<Rightarrow> exn + pyobj option"
  cv_row_value :: "csv_row \<Rightarrow> pyval"
  cv_on_record_error :: SourceRecordFailurePolicy

definition values_all_empty :: "string list \<Rightarrow> bool" where
  "values_all_empty values = list_all (\<lambda>v. v = []) values"

text \<open>\<open>{key0: values[0], key1: values[1], ...}\<close> and \<open>dict(zip(keys, values, strict=False))\<close>.\<close>

definition dict_display :: "string list \<Rightarrow> string list \<Rightarrow> csv_row" where
  "dict_display keys values =
     fold (\<lambda>i. AList.update (Some (keys ! i)) (PStr (values ! i))) [0..<length keys] []"

definition dict_zip :: "string list \<Rightarrow> string list \<Rightarrow> csv_row" where
  "dict_zip keys values = fold (\<lambda>(k, v). AList.update (Some k) (PStr v)) (zip keys values) []"

definition make_fixed_row_builder :: "string list \<Rightarrow> string list \<Rightarrow> csv_row" where
  "make_fixed_row_builder keys =
     (if length keys \<le> 8 then dict_display keys else dict_zip keys)"

definition build_variable_width_row :: "string list \<Rightarrow> string list \<Rightarrow> nat \<Rightarrow> csv_row" where
  "build_variable_width_row header values field_count =
     (let row = dict_zip header values; value_count = length values in
      if value_count < field_count
      then fold (\<lambda>key. AList.update (Some key) PNone) (drop value_count header) row
      else AList.update None (PList (map PStr (drop field_count values))) row)"

definition build_row :: "string list \<Rightarrow> string list \<Rightarrow> csv_row" where
  "build_row header values =
     (if length values = length header then make_fixed_row_builder header values
      else build_variable_width_row header values (length header))"

fun dict_rows :: "csv_config \<Rightarrow> string list \<Rightarrow> string list list \<Rightarrow> csv_row list" where
  "dict_rows C header [] = []"
| "dict_rows C header (values # rows) =
     (if values = [] then dict_rows C header rows
      else if cv_skip_blank_lines C \<and> values_all_empty values then dict_rows C header rows
      else build_row header values # dict_rows C header rows)"

text \<open>\<open>_iter_dict_rows\<close>, of the rows that \<open>csv.reader\<close> gives.\<close>

definition iter_dict_rows :: "csv_config \<Rightarrow> string list list \<Rightarrow> csv_row list" where
  "iter_dict_rows C rows =
     (if cv_has_header C
      then (case rows of [] \<Rightarrow> [] | header # rows \<Rightarrow> dict_rows C header rows)
      else dict_rows C (case cv_fieldnames C of None \<Rightarrow> [] | Some names \<Rightarrow> names) rows)"

definition csv_source :: "csv_config \<Rightarrow> csv_row file_source" where
  "csv_source C = \<lparr>fs_name = ''csv'', fs_key = ''row_number'',
     fs_parse = (\<lambda>row. mapped (cv_row_mapper C row)), fs_value = cv_row_value C,
     fs_on_record_error = cv_on_record_error C\<rparr>"

text \<open>
  The reference: \<open>csv.DictReader\<close> of Python's library, with its defaults for \<open>restkey\<close> and \<open>restval\<close>.
\<close>

definition reader_row :: "string list \<Rightarrow> string list \<Rightarrow> csv_row" where
  "reader_row fieldnames row =
     (let d = dict_zip fieldnames row; lf = length fieldnames; lr = length row in
      if lf < lr then AList.update None (PList (map PStr (drop lf row))) d
      else if lf > lr then fold (\<lambda>key. AList.update (Some key) PNone) (drop lr fieldnames) d
      else d)"

definition DictReader :: "string list option \<Rightarrow> string list list \<Rightarrow> csv_row list" where
  "DictReader fieldnames rows =
     (case fieldnames of
        Some names \<Rightarrow> map (reader_row names) (filter (\<lambda>r. r \<noteq> []) rows)
      | None \<Rightarrow> (case rows of [] \<Rightarrow> [] | h # rows \<Rightarrow> map (reader_row h) (filter (\<lambda>r. r \<noteq> []) rows)))"

lemma fold_zip_nth:
  "length ks = length vs \<Longrightarrow>
     fold (\<lambda>i. AList.update (f (ks ! i)) (g (vs ! i))) [0..<length ks] d =
     fold (\<lambda>(k, v). AList.update (f k) (g v)) (zip ks vs) d"
proof (induction ks vs arbitrary: d rule: list_induct2)
  case (Cons k ks v vs)
  have up: "[0..<length (k # ks)] = 0 # map Suc [0..<length ks]"
    by (simp add: upt_conv_Cons map_Suc_upt del: upt_Suc)
  show ?case unfolding up using Cons by (simp add: fold_map comp_def del: upt_Suc)
qed simp

lemma build_row_reader: "build_row header values = reader_row header values"
proof (cases "length values = length header")
  case True
  then have "dict_display header values = dict_zip header values"
    unfolding dict_display_def dict_zip_def by (intro fold_zip_nth) simp
  with True show ?thesis
    by (simp add: build_row_def make_fixed_row_builder_def reader_row_def Let_def)
qed (auto simp: build_row_def build_variable_width_row_def reader_row_def Let_def)

lemma dict_rows_reader:
  "dict_rows C header rows = map (reader_row header) (filter (\<lambda>r. r \<noteq> [])
     (if cv_skip_blank_lines C then filter (\<lambda>r. \<not> values_all_empty r) rows else rows))"
  by (induction rows) (auto simp: build_row_reader values_all_empty_def)

text \<open>
  The CSV rows are those of \<open>csv.DictReader\<close>. The header that is read once, the row builders
  specialised to the number of columns and the separate treatment of short and long rows give, row by
  row, the dicts that the library's reader gives for the rows that are not skipped as blank.
\<close>

theorem csv_rows_match_dict_reader:
  "iter_dict_rows C (if cv_has_header C then header # rows else rows) =
     DictReader (if cv_has_header C then None else Some (case cv_fieldnames C of None \<Rightarrow> [] | Some ns \<Rightarrow> ns))
       (let body = (if cv_skip_blank_lines C then filter (\<lambda>r. \<not> values_all_empty r) rows else rows)
        in if cv_has_header C then header # body else body)"
  unfolding iter_dict_rows_def DictReader_def Let_def dict_rows_reader
  by (cases "cv_has_header C") simp_all

section \<open>Witnesses\<close>

text \<open>A file with a blank line and a line that the mapper rejects; a line is its own record.\<close>

definition demo_jsonl :: "SourceRecordFailurePolicy \<Rightarrow> string file_source" where
  "demo_jsonl policy = jsonl_source \<lparr>jl_strip = (\<lambda>l. l), jl_loads = (\<lambda>l. Inr (PStr l)),
     jl_row_mapper = (\<lambda>v. if v = PStr ''x'' then Inl (mk_exn ValueErrorC ''bad'')
       else Inr (Some \<lparr>ob_id = 0, ob_val = v\<rparr>)), jl_on_record_error = policy\<rparr>"

definition demo_reader :: reader where
  "demo_reader = \<lparr>rd_last = 0, rd_errors = 0, rd_drops = 0\<rparr>"

definition demo_lines :: "string list" where
  "demo_lines = [''a'', [], ''b'', ''x'', ''c'']"

definition row_obj :: "string \<Rightarrow> pyobj" where
  "row_obj v = \<lparr>ob_id = 0, ob_val = PStr v\<rparr>"

theorem stream_batches_cut_the_stream_witness:
  "case stream_batches (demo_jsonl SRC_FAIL_CLOSED) 2 0 demo_lines demo_reader of (bs, e, t) \<Rightarrow>
     map fst bs = [[row_obj ''a'', row_obj ''b'']] \<and> map_option ecls e = Some SourceRecordErrorC \<and>
     at_cursor (demo_jsonl SRC_FAIL_CLOSED) (numbered 0 0 demo_lines) 0 (start_reading demo_reader) [] bs"
proof -
  obtain bs e t where run: "stream_batches (demo_jsonl SRC_FAIL_CLOSED) 2 0 demo_lines demo_reader = (bs, e, t)"
    by (cases "stream_batches (demo_jsonl SRC_FAIL_CLOSED) 2 0 demo_lines demo_reader") auto
  have "map fst (fst (stream_batches (demo_jsonl SRC_FAIL_CLOSED) 2 0 demo_lines demo_reader)) =
      [[row_obj ''a'', row_obj ''b'']]" by code_simp
  moreover have "map_option ecls (fst (snd (stream_batches (demo_jsonl SRC_FAIL_CLOSED) 2 0 demo_lines demo_reader))) =
      Some SourceRecordErrorC" by code_simp
  ultimately show ?thesis using stream_batches_cut_the_stream [OF run] run by auto
qed

theorem file_resume_exact_witness:
  "\<exists>pre post m t'. [(row_obj ''a'', PDict [(''line_number'', PInt 1)]), (row_obj ''b'', PDict [(''line_number'', PInt 3)]),
      (row_obj ''c'', PDict [(''line_number'', PInt 5)])] = pre @ (row_obj ''b'', PDict [(''line_number'', PInt 3)]) # post \<and>
    stream_sync_batches (demo_jsonl SRC_LOG_AND_CONTINUE) m demo_lines demo_reader = (post, None, t')"
proof -
  let ?F = "demo_jsonl SRC_LOG_AND_CONTINUE"
  let ?ys = "[(row_obj ''a'', PDict [(''line_number'', PInt 1)]), (row_obj ''b'', PDict [(''line_number'', PInt 3)]),
      (row_obj ''c'', PDict [(''line_number'', PInt 5)])]"
  let ?i = "\<lparr>si_uri = ''f'', si_size_bytes = 9, si_modified_time_ns = 7, si_device = None, si_inode = None\<rparr>"
  let ?c = "\<lparr>cp_pipeline_id = ''p'', cp_run_id = ''r'', cp_source = ''jsonl'',
      cp_value = PDict [(''line_number'', PInt 3)], cp_recorded_at = ''now'', cp_source_identity = Some ?i\<rparr>"
  have run: "stream_sync_batches ?F 0 demo_lines demo_reader =
      (?ys, None, \<lparr>rd_last = 5, rd_errors = 1, rd_drops = 1\<rparr>)" by code_simp
  have "(row_obj ''b'', cp_value ?c) \<in> set ?ys" "cp_source_identity ?c = Some ?i" by simp_all
  from file_resume_exact [OF run this, where st' = demo_reader] obtain pre post m t' where
    "?ys = pre @ (row_obj ''b'', cp_value ?c) # post" "stream_sync_batches ?F m demo_lines demo_reader = (post, None, t')"
    by blast
  then show ?thesis by (intro exI conjI) simp_all
qed

end
