(* ===== verification/Source_Adapter.thy ===== *)
theory Source_Adapter
  imports File_Sources
begin

text \<open>
  \<^verbatim>\<open>core/runtime/_source_adapter.py\<close>, through which the lanes read a source, and the wrapper
  \<open>LimitedSource\<close> of \<^verbatim>\<open>core/source/_wrappers.py\<close>.

  A source is what its generator does: the records it yields, each with the checkpoint and the delivery
  callback that are current while the generator is suspended there, and the exception it ends with.
  Without prefetch the adapter passes them on one by one. With it, a task pumps the source into a bounded
  queue while the lane takes records out; as both run on one event loop, the model is a step relation
  in which either side moves whenever it is not blocked. The path with a Rust buffer uses a class that
  is outside the sources: it is a bounded queue that is pushed to and popped from in batches, closed by
  the producer at the end.
\<close>

section \<open>The records of a source\<close>

record emission =
  em_record :: pyobj
  em_checkpoint :: pyval
  em_on_success :: "hook list option"

record stream_source =
  ss_emissions :: "emission list"
  ss_end :: "exn option"
  ss_checkpoint_capable :: bool
  ss_has_delivery_hook :: bool

definition make_source_record :: "stream_source \<Rightarrow> emission \<Rightarrow> SourceRecord" where
  "make_source_record S em = \<lparr>sr_raw = em_record em,
     sr_checkpoint = (if ss_checkpoint_capable S then em_checkpoint em else PNone),
     sr_on_success = (if ss_has_delivery_hook S then em_on_success em else None)\<rparr>"

text \<open>\<open>iter_source_records\<close> without prefetch.\<close>

definition iter_direct :: "stream_source \<Rightarrow> SourceRecord list \<times> exn option" where
  "iter_direct S = (map (make_source_record S) (ss_emissions S), ss_end S)"

section \<open>Prefetch through a bounded queue\<close>

datatype queue_item = QRecord SourceRecord | QError exn | QDone

text \<open>
  Where the pump is: reading the source, about to put the exception of the source, waiting for the
  end marker to be put (in its \<open>finally\<close>, keeping the exception that is no \<open>Exception\<close> and passes through), not yet
  resumed after it was put, ended. \<open>asyncio.shield\<close> runs the last put as a task of its own, so the marker is in the queue
  before the pump itself has ended.
\<close>

datatype pump_pc = Pumping | PutError exn | PutDone "exn option" | DonePut "exn option" | Ended "exn option"

datatype consumer = Reading | Returned | Raised exn

record prefetch =
  pf_left :: "emission list"
  pf_pump :: pump_pc
  pf_queue :: "queue_item list"
  pf_out :: "SourceRecord list"
  pf_consumer :: consumer

definition prefetch_start :: "stream_source \<Rightarrow> prefetch" where
  "prefetch_start S = \<lparr>pf_left = ss_emissions S, pf_pump = Pumping, pf_queue = [], pf_out = [],
     pf_consumer = Reading\<rparr>"

definition put_item :: "queue_item \<Rightarrow> prefetch \<Rightarrow> prefetch" where
  "put_item x s = s\<lparr>pf_queue := pf_queue s @ [x]\<rparr>"

definition not_full :: "nat \<Rightarrow> prefetch \<Rightarrow> bool" where
  "not_full limit s \<longleftrightarrow> length (pf_queue s) < limit"

text \<open>\<open>_pump_source\<close>: a put waits while the queue is full.\<close>

inductive pump_step :: "stream_source \<Rightarrow> nat \<Rightarrow> prefetch \<Rightarrow> prefetch \<Rightarrow> bool" for S limit where
  record_put: "pf_pump s = Pumping \<Longrightarrow> pf_left s = em # rest \<Longrightarrow> not_full limit s \<Longrightarrow>
     pump_step S limit s (put_item (QRecord (make_source_record S em)) (s\<lparr>pf_left := rest\<rparr>))"
| source_ends: "pf_pump s = Pumping \<Longrightarrow> pf_left s = [] \<Longrightarrow> ss_end S = None \<Longrightarrow>
     pump_step S limit s (s\<lparr>pf_pump := PutDone None\<rparr>)"
| source_raises: "pf_pump s = Pumping \<Longrightarrow> pf_left s = [] \<Longrightarrow> ss_end S = Some e \<Longrightarrow>
     pump_step S limit s (s\<lparr>pf_pump := (if is_Exception e then PutError e else PutDone (Some e))\<rparr>)"
| error_put: "pf_pump s = PutError e \<Longrightarrow> not_full limit s \<Longrightarrow>
     pump_step S limit s (put_item (QError e) (s\<lparr>pf_pump := PutDone None\<rparr>))"
| done_put: "pf_pump s = PutDone x \<Longrightarrow> not_full limit s \<Longrightarrow>
     pump_step S limit s (put_item QDone (s\<lparr>pf_pump := DonePut x\<rparr>))"
| pump_ends: "pf_pump s = DonePut x \<Longrightarrow> pump_step S limit s (s\<lparr>pf_pump := Ended x\<rparr>)"

text \<open>
  The consuming loop and its \<open>finally\<close>: the queue is emptied, a pump that has not ended is cancelled, and the pump is
  awaited, whose own exception is raised unless it is a \<open>CancelledError\<close>. A cancelled pump ends with that, whatever
  exception it was about to pass through. An iteration that the lane gives up early is not modelled.
\<close>

definition await_pump :: "prefetch \<Rightarrow> consumer \<Rightarrow> consumer" where
  "await_pump s c = (case pf_pump s of
       Ended (Some e) \<Rightarrow> if isinstance e CancelledErrorC then c else Raised e
     | _ \<Rightarrow> c)"

inductive take_step :: "prefetch \<Rightarrow> prefetch \<Rightarrow> bool" where
  taken: "pf_consumer s = Reading \<Longrightarrow> pf_queue s = QRecord sr # q \<Longrightarrow>
     take_step s (s\<lparr>pf_queue := q, pf_out := pf_out s @ [sr]\<rparr>)"
| error_taken: "pf_consumer s = Reading \<Longrightarrow> pf_queue s = QError e # q \<Longrightarrow>
     take_step s (s\<lparr>pf_queue := [], pf_consumer := await_pump s (Raised e)\<rparr>)"
| done_taken: "pf_consumer s = Reading \<Longrightarrow> pf_queue s = QDone # q \<Longrightarrow>
     take_step s (s\<lparr>pf_queue := [], pf_consumer := await_pump s Returned\<rparr>)"

definition prefetch_step :: "stream_source \<Rightarrow> nat \<Rightarrow> prefetch \<Rightarrow> prefetch \<Rightarrow> bool" where
  "prefetch_step S limit s t \<longleftrightarrow> pf_consumer s = Reading \<and> (pump_step S limit s t \<or> take_step s t)"

inductive prefetch_reach :: "stream_source \<Rightarrow> nat \<Rightarrow> prefetch \<Rightarrow> bool" for S limit where
  starts: "prefetch_reach S limit (prefetch_start S)"
| moves: "prefetch_reach S limit s \<Longrightarrow> prefetch_step S limit s t \<Longrightarrow> prefetch_reach S limit t"

inductive_cases pump_stepE: "pump_step S limit s t"
inductive_cases take_stepE: "take_step s t"

text \<open>
  How the iteration may end. An exception of the source that is no \<open>Exception\<close> is passed on only if the pump has ended when
  the lane looks.
\<close>

definition ends_as :: "stream_source \<Rightarrow> consumer \<Rightarrow> bool" where
  "ends_as S c \<longleftrightarrow> (case ss_end S of
       None \<Rightarrow> c = Returned
     | Some e \<Rightarrow>
         if is_Exception e then c = Raised e
         else c = Returned \<or> c = Raised e \<and> \<not> isinstance e CancelledErrorC)"

text \<open>The queue holds records, and after them what the pump has put at the end of the source.\<close>

definition pump_end :: "stream_source \<Rightarrow> exn option" where
  "pump_end S = (case ss_end S of Some e \<Rightarrow> if is_Exception e then None else Some e | None \<Rightarrow> None)"

definition error_item :: "stream_source \<Rightarrow> queue_item list" where
  "error_item S = (case ss_end S of Some e \<Rightarrow> if is_Exception e then [QError e] else [] | None \<Rightarrow> [])"

definition tail_of :: "stream_source \<Rightarrow> pump_pc \<Rightarrow> queue_item list" where
  "tail_of S pc = (case pc of
       Pumping \<Rightarrow> [] | PutError _ \<Rightarrow> [] | PutDone _ \<Rightarrow> error_item S | DonePut _ \<Rightarrow> error_item S @ [QDone] | Ended _ \<Rightarrow> error_item S @ [QDone])"

definition pump_ok :: "stream_source \<Rightarrow> pump_pc \<Rightarrow> emission list \<Rightarrow> bool" where
  "pump_ok S pc left \<longleftrightarrow> (case pc of
       Pumping \<Rightarrow> True
     | PutError e \<Rightarrow> left = [] \<and> ss_end S = Some e \<and> is_Exception e
     | PutDone x \<Rightarrow> left = [] \<and> x = pump_end S
     | DonePut x \<Rightarrow> left = [] \<and> x = pump_end S
     | Ended x \<Rightarrow> left = [] \<and> x = pump_end S)"

definition reading_inv :: "stream_source \<Rightarrow> nat \<Rightarrow> prefetch \<Rightarrow> bool" where
  "reading_inv S limit s \<longleftrightarrow> pump_ok S (pf_pump s) (pf_left s) \<and> length (pf_queue s) \<le> limit \<and>
     (\<exists>rs. pf_queue s = map QRecord rs @ tail_of S (pf_pump s) \<and>
       pf_out s @ rs @ map (make_source_record S) (pf_left s) = fst (iter_direct S))"

definition prefetch_inv :: "stream_source \<Rightarrow> nat \<Rightarrow> prefetch \<Rightarrow> bool" where
  "prefetch_inv S limit s \<longleftrightarrow>
     (if pf_consumer s = Reading then reading_inv S limit s
      else pf_queue s = [] \<and> pf_out s = fst (iter_direct S) \<and> ends_as S (pf_consumer s))"

lemma pump_step_inv:
  assumes "pump_step S limit s t" "reading_inv S limit s"
  shows "reading_inv S limit t \<and> pf_consumer t = pf_consumer s"
  using assms(1)
proof cases
  case (record_put em rest)
  obtain rs where "pf_queue s = map QRecord rs"
    "pf_out s @ rs @ map (make_source_record S) (pf_left s) = fst (iter_direct S)"
    using assms(2) record_put(2) by (auto simp: reading_inv_def tail_of_def)
  with record_put show ?thesis
    by (auto simp: reading_inv_def pump_ok_def put_item_def not_full_def tail_of_def
        intro!: exI [of _ "rs @ [make_source_record S em]"])
qed (use assms(2) in \<open>auto simp: reading_inv_def pump_ok_def put_item_def not_full_def tail_of_def
       pump_end_def error_item_def split: option.splits\<close>)

text \<open>What is at the head of the queue when it is not a record.\<close>

lemma head_of_queue:
  assumes "map QRecord rs @ tail_of S pc = x # q" "\<And>sr. x \<noteq> QRecord sr"
  shows "rs = [] \<and> tail_of S pc = x # q"
  using assms by (cases rs) auto

lemma take_step_inv:
  assumes "take_step s t" "reading_inv S limit s"
  shows "prefetch_inv S limit t"
proof -
  obtain rs where rs: "pf_queue s = map QRecord rs @ tail_of S (pf_pump s)"
    "pf_out s @ rs @ map (make_source_record S) (pf_left s) = fst (iter_direct S)"
    using assms(2) by (auto simp: reading_inv_def)
  from assms(1) show ?thesis
  proof cases
    case (taken sr q)
    have "\<exists>rs'. rs = sr # rs'"
      using rs(1) taken(3) by (cases rs) (auto simp: tail_of_def error_item_def split: pump_pc.splits option.splits if_splits)
    with rs taken assms(2) show ?thesis
      by (auto simp: prefetch_inv_def reading_inv_def)
  next
    case (error_taken e q)
    with rs head_of_queue [of rs S "pf_pump s" "QError e" q]
    have "tail_of S (pf_pump s) = QError e # q" "pf_out s @ map (make_source_record S) (pf_left s) = fst (iter_direct S)"
      by auto
    with error_taken assms(2) show ?thesis
      by (auto simp: prefetch_inv_def reading_inv_def pump_ok_def tail_of_def error_item_def pump_end_def
          await_pump_def ends_as_def dest: cancelled_not_Exception
          split: pump_pc.splits option.splits if_splits)
  next
    case (done_taken q)
    with rs head_of_queue [of rs S "pf_pump s" QDone q]
    have "tail_of S (pf_pump s) = QDone # q" "pf_out s @ map (make_source_record S) (pf_left s) = fst (iter_direct S)"
      by auto
    with done_taken assms(2) show ?thesis
      by (auto simp: prefetch_inv_def reading_inv_def pump_ok_def tail_of_def error_item_def pump_end_def
          await_pump_def ends_as_def split: pump_pc.splits option.splits if_splits)
  qed
qed



lemma prefetch_reach_inv: "prefetch_reach S limit s \<Longrightarrow> prefetch_inv S limit s"
proof (induction rule: prefetch_reach.induct)
  case starts
  show ?case
    by (auto simp: prefetch_inv_def reading_inv_def prefetch_start_def pump_ok_def tail_of_def iter_direct_def)
next
  case (moves s t)
  then have reading: "pf_consumer s = Reading" "reading_inv S limit s"
    by (auto simp: prefetch_step_def prefetch_inv_def split: if_splits)
  from moves(2) consider "pump_step S limit s t" | "take_step s t" by (auto simp: prefetch_step_def)
  then show ?case
  proof cases
    case 1
    with pump_step_inv [OF 1 reading(2)] reading(1) show ?thesis by (simp add: prefetch_inv_def)
  next
    case 2
    then show ?thesis using reading(2) by (rule take_step_inv)
  qed
qed

text \<open>
  C9. Prefetch changes neither the records nor their order. However the pump and the lane take turns,
  the queue never holds more than the prefetch limit, what the lane has got is the beginning of what it
  would have got from the source directly, with the checkpoint and the callback that were current when
  each record was produced, and when the iteration ends it has got all of it. It returns if the source was exhausted and
  raises the source's exception if that is an \<open>Exception\<close>. Any other exception of the source may be lost, and a
  \<open>CancelledError\<close> always is (\<open>prefetch_loses_base_exception\<close>).
\<close>

theorem prefetch_equals_direct:
  assumes "prefetch_reach S limit s"
  shows "prefix (pf_out s) (fst (iter_direct S)) \<and> length (pf_queue s) \<le> limit \<and>
    (pf_consumer s \<noteq> Reading \<longrightarrow> pf_out s = fst (iter_direct S) \<and> ends_as S (pf_consumer s))"
  using prefetch_reach_inv [OF assms] unfolding prefetch_inv_def reading_inv_def
  by (auto split: if_splits) (metis prefixI)

text \<open>How far the two sides are from the end.\<close>

definition prefetch_rank :: "prefetch \<Rightarrow> nat" where
  "prefetch_rank s = (if pf_consumer s = Reading then 1 else 0) + 2 * length (pf_left s) + length (pf_queue s) +
     (case pf_pump s of Pumping \<Rightarrow> 6 | PutError _ \<Rightarrow> 5 | PutDone _ \<Rightarrow> 3 | DonePut _ \<Rightarrow> 1 | Ended _ \<Rightarrow> 0)"

lemma pump_step_rank: "pump_step S limit s t \<Longrightarrow> prefetch_rank t < prefetch_rank s"
  by (cases rule: pump_step.cases) (auto simp: prefetch_rank_def put_item_def)

lemma take_step_rank: "take_step s t \<Longrightarrow> prefetch_rank t < prefetch_rank s"
  by (cases rule: take_step.cases) (auto simp: prefetch_rank_def)

lemma prefetch_step_rank: "prefetch_step S limit s t \<Longrightarrow> prefetch_rank t < prefetch_rank s"
  unfolding prefetch_step_def using pump_step_rank take_step_rank by blast

lemma prefetch_enabled:
  assumes "reading_inv S limit s" "pf_consumer s = Reading" "0 < limit"
  shows "\<exists>t. prefetch_step S limit s t"
proof (cases "pf_queue s")
  case (Cons x q)
  then have "\<exists>t. take_step s t" using assms(2) by (cases x) (blast intro: take_step.intros)+
  then show ?thesis using assms(2) by (auto simp: prefetch_step_def)
next
  case Nil
  then have room: "not_full limit s" using assms(3) by (simp add: not_full_def)
  have "\<exists>t. pump_step S limit s t"
  proof (cases "pf_pump s")
    case Pumping
    then show ?thesis using room
      by (cases "pf_left s"; cases "ss_end S") (blast intro: pump_step.intros)+
  next
    case (Ended x)
    with assms(1) Nil show ?thesis by (auto simp: reading_inv_def tail_of_def)
  qed (use room in \<open>blast intro: pump_step.intros\<close>)+
  then show ?thesis using assms(2) by (auto simp: prefetch_step_def)
qed

text \<open>
  C10. The iteration ends. As long as the lane is reading, the pump or the lane can move, whatever the
  queue holds: with a positive limit neither waits for the other forever; every move lowers a rank
  that starts at twice the number of records plus seven, so the iteration ends after that many moves.
\<close>

theorem prefetch_terminates:
  assumes "prefetch_reach S limit s" "0 < limit" "pf_consumer s = Reading"
  shows "(\<exists>t. prefetch_step S limit s t) \<and>
    (\<forall>t. prefetch_step S limit s t \<longrightarrow> prefetch_rank t < prefetch_rank s) \<and>
    prefetch_rank (prefetch_start S) = 2 * length (ss_emissions S) + 7"
proof (intro conjI allI impI)
  have "reading_inv S limit s" using prefetch_reach_inv [OF assms(1)] assms(3) by (simp add: prefetch_inv_def)
  then show "\<exists>t. prefetch_step S limit s t" using assms(3,2) by (rule prefetch_enabled)
  show "prefetch_rank t < prefetch_rank s" if "prefetch_step S limit s t" for t
    using that by (rule prefetch_step_rank)
  show "prefetch_rank (prefetch_start S) = 2 * length (ss_emissions S) + 7"
    by (simp add: prefetch_rank_def prefetch_start_def)
qed

text \<open>
  The lane takes the end marker before the pump has been resumed, cancels the pump, and returns as if the source had been
  exhausted, whatever the source raised.
\<close>

definition interrupted_source :: stream_source where
  "interrupted_source = \<lparr>ss_emissions = [], ss_end = Some (mk_exn (UserC ''Stop'' BaseExceptionC) ''stop''), ss_checkpoint_capable = True,
     ss_has_delivery_hook = False\<rparr>"

lemma reach_pump: "prefetch_reach S n s \<Longrightarrow> pump_step S n s t \<Longrightarrow> pf_consumer s = Reading \<Longrightarrow> prefetch_reach S n t"
  by (rule prefetch_reach.moves) (auto simp: prefetch_step_def)

lemma reach_take: "prefetch_reach S n s \<Longrightarrow> take_step s t \<Longrightarrow> pf_consumer s = Reading \<Longrightarrow> prefetch_reach S n t"
  by (rule prefetch_reach.moves) (auto simp: prefetch_step_def)

lemma prefetch_loses_base_exception:
  "\<exists>s. prefetch_reach interrupted_source 1 s \<and> pf_consumer s = Returned"
proof -
  let ?S = interrupted_source and ?e = "Some (mk_exn (UserC ''Stop'' BaseExceptionC) ''stop'')"
  let ?a = "(prefetch_start ?S)\<lparr>pf_pump := PutDone ?e\<rparr>"
  let ?b = "put_item QDone (?a\<lparr>pf_pump := DonePut ?e\<rparr>)"
  have e: "\<not> is_Exception (mk_exn (UserC ''Stop'' BaseExceptionC) ''stop'')" by code_simp
  have "pump_step ?S 1 (prefetch_start ?S) ?a"
    using pump_step.source_raises [of "prefetch_start ?S" ?S _ 1] e by (simp add: prefetch_start_def interrupted_source_def)
  then have "prefetch_reach ?S 1 ?a"
    by (rule reach_pump [OF prefetch_reach.starts]) (simp add: prefetch_start_def)
  moreover have "pump_step ?S 1 ?a ?b" by (rule pump_step.done_put) (simp_all add: prefetch_start_def not_full_def)
  ultimately have "prefetch_reach ?S 1 ?b" by (rule reach_pump) (simp add: prefetch_start_def)
  moreover have "take_step ?b (?b\<lparr>pf_queue := [], pf_consumer := await_pump ?b Returned\<rparr>)"
    by (rule take_step.done_taken [of _ "[]"]) (simp_all add: prefetch_start_def put_item_def)
  ultimately have "prefetch_reach ?S 1 (?b\<lparr>pf_queue := [], pf_consumer := await_pump ?b Returned\<rparr>)"
    by (rule reach_take) (simp add: prefetch_start_def put_item_def)
  moreover have "await_pump ?b Returned = Returned" by (simp add: await_pump_def put_item_def)
  ultimately show ?thesis by force
qed

section \<open>The batch buffer of the Rust path\<close>

text \<open>
  \<open>_producer\<close> of \<open>_iter_prefetched_rust\<close> collects records and pushes them when there are \<open>prefetch_limit\<close> of
  them; what is left is pushed when the source is exhausted, and not when it raises.
\<close>

fun producer_batches ::
  "nat \<Rightarrow> SourceRecord list \<Rightarrow> SourceRecord list \<Rightarrow> SourceRecord list list \<times> SourceRecord list" where
  "producer_batches limit [] pending = ([], pending)"
| "producer_batches limit (sr # srs) pending =
     (let pending = pending @ [sr] in
      if length pending \<ge> limit
      then (case producer_batches limit srs [] of (bs, rest) \<Rightarrow> (pending # bs, rest))
      else producer_batches limit srs pending)"

definition iter_prefetched_rust :: "nat \<Rightarrow> stream_source \<Rightarrow> SourceRecord list \<times> exn option" where
  "iter_prefetched_rust limit S =
     (case producer_batches limit (fst (iter_direct S)) [] of (bs, pending) \<Rightarrow>
        (concat (if ss_end S = None \<and> pending \<noteq> [] then bs @ [pending] else bs),
         case ss_end S of Some e \<Rightarrow> if is_Exception e then Some e else None | None \<Rightarrow> None))"

lemma producer_batches_concat:
  "producer_batches limit srs pending = (bs, rest) \<Longrightarrow>
     pending @ srs = concat bs @ rest \<and> (length pending < limit \<longrightarrow> length rest < limit)"
  by (induction limit srs pending arbitrary: bs rest rule: producer_batches.induct)
     (auto simp: Let_def split: if_splits prod.splits)

text \<open>
  Through the Rust buffer a source that is exhausted delivers everything, as directly. A source that
  raises loses the records it had yielded since the last full batch: fewer than the limit, but they
  are records that came before the failure.
\<close>

lemma rust_prefetch_delivers:
  assumes "iter_prefetched_rust limit S = (srs, e)" "0 < limit"
  shows "\<exists>lost. srs @ lost = fst (iter_direct S) \<and> length lost < limit \<and> (ss_end S = None \<longrightarrow> lost = [])"
proof -
  obtain bs rest where p: "producer_batches limit (fst (iter_direct S)) [] = (bs, rest)"
    by (cases "producer_batches limit (fst (iter_direct S)) []")
  with producer_batches_concat [OF p] assms show ?thesis
    by (auto simp: iter_prefetched_rust_def split: if_splits)
qed

definition failing_source :: stream_source where
  "failing_source = \<lparr>ss_emissions = [\<lparr>em_record = row_obj ''a'', em_checkpoint = PInt 1, em_on_success = None\<rparr>],
     ss_end = Some (mk_exn ValueErrorC ''bad row''), ss_checkpoint_capable = True, ss_has_delivery_hook = False\<rparr>"

lemma rust_prefetch_drops_records_before_failure:
  "map sr_raw (fst (iter_direct failing_source)) = [row_obj ''a''] \<and>
   fst (iter_prefetched_rust 2 failing_source) = [] \<and>
   snd (iter_prefetched_rust 2 failing_source) = snd (iter_direct failing_source)"
  by code_simp

section \<open>LimitedSource\<close>

text \<open>The loops of \<open>LimitedSource\<close>: \<open>stream\<close> (as \<open>stream_sync_batches\<close>, which counts single items too).\<close>

fun limited_stream :: "nat \<Rightarrow> emission list \<Rightarrow> exn option \<Rightarrow> emission list \<times> exn option" where
  "limited_stream 0 ems e = ([], None)"
| "limited_stream (Suc n) [] e = ([], e)"
| "limited_stream (Suc n) (em # ems) e = (case limited_stream n ems e of (xs, e') \<Rightarrow> (em # xs, e'))"

definition limit_source :: "nat \<Rightarrow> stream_source \<Rightarrow> stream_source" where
  "limit_source n S = (case limited_stream n (ss_emissions S) (ss_end S) of (xs, e) \<Rightarrow>
     S\<lparr>ss_emissions := xs, ss_end := e\<rparr>)"

text \<open>\<open>stream_batches\<close>: the last batch is cut; its checkpoint is the one of the wrapped source.\<close>

fun limited_batches ::
  "nat \<Rightarrow> ('r list \<times> pyval) list \<Rightarrow> exn option \<Rightarrow> ('r list \<times> pyval) list \<times> exn option" where
  "limited_batches n [] e = ([], if n = 0 then None else e)"
| "limited_batches n ((b, c) # bs) e =
     (if n = 0 then ([], None)
      else if length b \<le> n then (case limited_batches (n - length b) bs e of (xs, e') \<Rightarrow> ((b, c) # xs, e'))
      else ([(take n b, c)], None))"

lemma limited_stream_take:
  "limited_stream n ems e = (take n ems, if n \<le> length ems then None else e)"
  by (induction n ems e rule: limited_stream.induct) auto

lemma limited_batches_take:
  "concat (map fst (fst (limited_batches n bs e))) = take n (concat (map fst bs))"
  by (induction n bs e rule: limited_batches.induct) (auto split: prod.split)

text \<open>
  A limited source emits the first records. \<open>LimitedSource\<close> yields the first \<open>n\<close> records of the source
  it wraps, with their checkpoints, and does not go on to an exception that comes after them; its
  batches hold the first \<open>n\<close> records of the batches of the source; and a limit on a limited source is the
  smaller of the two.
\<close>

theorem limited_source_takes_first:
  "fst (iter_direct (limit_source n S)) = take n (fst (iter_direct S)) \<and>
   snd (iter_direct (limit_source n S)) = (if n \<le> length (ss_emissions S) then None else ss_end S) \<and>
   concat (map fst (fst (limited_batches n bs e))) = take n (concat (map fst bs)) \<and>
   limit_source m (limit_source n S) = limit_source (min n m) S"
  by (auto simp: limit_source_def iter_direct_def limited_stream_take take_map limited_batches_take
      make_source_record_def min_def)

text \<open>
  The checkpoint of a cut batch is the position of the wrapped source, after the whole batch: here a
  run over a file of four lines in batches of four, limited to one record, saves line 4, and the run that
  resumes from there yields nothing: three lines are never processed.
\<close>

lemma limited_batch_checkpoint_overtakes:
  "(let F = demo_jsonl SRC_FAIL_CLOSED; ls = [''a'', ''b'', ''c'', ''d''];
        bs = fst (stream_batches F 4 0 ls demo_reader)
    in fst (limited_batches 1 bs None) = [([row_obj ''a''], PDict [(''line_number'', PInt 4)])] \<and>
       cursor_of L ''line_number'' (PDict [(''line_number'', PInt 4)]) = Inr 4 \<and>
       fst (stream_batches F 4 4 ls demo_reader) = [])"
  by code_simp

section \<open>Witnesses\<close>

definition one_record :: stream_source where
  "one_record = failing_source\<lparr>ss_end := None\<rparr>"

definition one_taken :: prefetch where
  "one_taken = \<lparr>pf_left = [], pf_pump = Pumping, pf_queue = [],
     pf_out = fst (iter_direct one_record), pf_consumer = Reading\<rparr>"

lemma one_taken_reach: "prefetch_reach one_record 1 one_taken"
proof -
  let ?em = "hd (ss_emissions one_record)"
  let ?s = "put_item (QRecord (make_source_record one_record ?em)) ((prefetch_start one_record)\<lparr>pf_left := []\<rparr>)"
  have "pump_step one_record 1 (prefetch_start one_record) ?s"
    by (rule pump_step.record_put)
       (simp_all add: prefetch_start_def one_record_def failing_source_def not_full_def)
  then have "prefetch_reach one_record 1 ?s"
    by (intro prefetch_reach.moves [OF prefetch_reach.starts])
       (simp add: prefetch_step_def, simp add: prefetch_start_def)
  have "take_step ?s one_taken"
    using take_step.taken [of ?s "make_source_record one_record ?em" "[]"]
    by (simp add: put_item_def prefetch_start_def one_taken_def iter_direct_def one_record_def failing_source_def)
  then have "prefetch_step one_record 1 ?s one_taken"
    by (simp add: prefetch_step_def put_item_def prefetch_start_def)
  with \<open>prefetch_reach one_record 1 ?s\<close> show ?thesis by (rule prefetch_reach.moves)
qed

theorem prefetch_equals_direct_witness:
  "prefix (pf_out one_taken) (fst (iter_direct one_record)) \<and> length (pf_queue one_taken) \<le> 1 \<and>
   map sr_raw (pf_out one_taken) = [row_obj ''a'']"
  using prefetch_equals_direct [OF one_taken_reach]
  by (simp add: one_taken_def iter_direct_def one_record_def failing_source_def make_source_record_def)

theorem prefetch_terminates_witness:
  "(\<exists>t. prefetch_step one_record 1 one_taken t \<and> prefetch_rank t < 7) \<and>
   prefetch_rank (prefetch_start one_record) = 9"
proof -
  have "pf_consumer one_taken = Reading" "prefetch_rank one_taken = 7" by (simp_all add: one_taken_def prefetch_rank_def)
  with prefetch_terminates [OF one_taken_reach] show ?thesis
    by (auto simp: one_record_def failing_source_def)
qed

end
