(* ===== verification/Restart_Safety.thy ===== *)
theory Restart_Safety
  imports Linear_Lane Source_Adapter
begin

text \<open>
  Crash and resume: a file source (\<^verbatim>\<open>sources/file/jsonlines.py\<close>, \<^verbatim>\<open>sources/file/csv.py\<close>), the source adapter,
  the linear lane with the delivery engine, and the checkpoint store, composed over any number of runs
  of the same pipeline. A run may end in any way; the next one starts from the checkpoint that is in
  the store, through \<open>prepare_resume\<close>. The store holds one of the checkpoints that were handed to it, and
  it does not matter whether a save that raised has taken effect.
\<close>

section \<open>Runs over a file\<close>

definition new_reader :: reader where
  "new_reader = \<lparr>rd_last = 0, rd_errors = 0, rd_drops = 0\<rparr>"

definition as_stream :: "pyobj generated \<Rightarrow> stream_source" where
  "as_stream g = (case g of (ys, e, st) \<Rightarrow>
     \<lparr>ss_emissions = map (\<lambda>(r, c). \<lparr>em_record = r, em_checkpoint = c, em_on_success = None\<rparr>) ys,
      ss_end = e, ss_checkpoint_capable = True, ss_has_delivery_hook = False\<rparr>)"

definition file_run ::
  "'e DeliveryEngine \<Rightarrow> 'e Middleware list \<Rightarrow> int \<Rightarrow> 'i file_source \<Rightarrow> int \<Rightarrow> 'i list \<Rightarrow> ('e, unit) run" where
  "file_run D mws batch_size F k xs =
     (case iter_direct (as_stream (stream_sync_batches F k xs new_reader)) of (records, e) \<Rightarrow>
        linear_lane_run D mws batch_size records e)"

text \<open>
  A history of runs: \<open>stored\<close> is what the store holds now, the trace is that of all runs. The identity of
  the file is asked for anew by every run, and may even be wrong.
\<close>

inductive restarts ::
  "pylib \<Rightarrow> SourceIdentityMismatchPolicy \<Rightarrow> 'e DeliveryEngine \<Rightarrow> 'e Middleware list \<Rightarrow> int \<Rightarrow>
     'i file_source \<Rightarrow> 'i list \<Rightarrow> Checkpoint option \<Rightarrow> event list \<Rightarrow> bool"
  for L policy D mws batch_size F xs where
  fresh: "restarts L policy D mws batch_size F xs None []"
| again: "restarts L policy D mws batch_size F xs stored tr \<Longrightarrow>
     prepare_resume L (fs_key F) policy current stored = Inr k \<Longrightarrow>
     file_run D mws batch_size F k xs s = (r, t) \<Longrightarrow> rs_trace s = [] \<Longrightarrow>
     stored' = stored \<or> (\<exists>c b. stored' = Some c \<and> ESave c b \<in> set (rs_trace t)) \<Longrightarrow>
     restarts L policy D mws batch_size F xs stored' (tr @ rs_trace t)"

text \<open>A record of the file has been settled, as what the chain makes of it asks for.\<close>

definition row_settled :: "'e DeliveryEngine \<Rightarrow> 'e Middleware list \<Rightarrow> pyobj \<Rightarrow> event list \<Rightarrow> bool" where
  "row_settled D mws r tr \<longleftrightarrow> (\<exists>sr result failure. sr_raw sr = r \<and>
     chain_made mws (sr, result, failure) \<and> settled D r result failure tr)"

lemma row_settled_mono: "row_settled D mws r a \<Longrightarrow> set a \<subseteq> set b \<Longrightarrow> row_settled D mws r b"
  unfolding row_settled_def using settled_mono by metis

section \<open>One run\<close>

lemma direct_records:
  "iter_direct (as_stream (ys, e, st)) = (map (\<lambda>y. \<lparr>sr_raw = fst y, sr_checkpoint = snd y, sr_on_success = None\<rparr>) ys, e)"
  by (auto simp: iter_direct_def as_stream_def make_source_record_def)

text \<open>What a run says of the rows it was given: the saved ones are covered, and a normal end covers all.\<close>

definition run_covers ::
  "'e DeliveryEngine \<Rightarrow> 'e Middleware list \<Rightarrow> (pyobj \<times> pyval) list \<Rightarrow> exn + unit \<Rightarrow> event list \<Rightarrow> bool" where
  "run_covers D mws ys r tr \<longleftrightarrow>
     (\<forall>c b. ESave c b \<in> set tr \<longrightarrow> (\<exists>i<length ys. cp_value c = snd (ys ! i) \<and>
        (\<forall>j\<le>i. row_settled D mws (fst (ys ! j)) tr))) \<and>
     (r = Inr () \<longrightarrow> (\<forall>y\<in>set ys. row_settled D mws (fst y) tr))"

lemma entry_row_settled:
  "entry_settled D x tr \<Longrightarrow> chain_made mws x \<Longrightarrow> row_settled D mws (sr_raw (fst x)) tr"
  by (cases x) (auto simp: entry_settled_def row_settled_def)

lemma lane_covers:
  assumes run: "linear_lane_run D mws batch_size records e s = (r, t)" and tr: "rs_trace s = []"
    and recs: "records = map (\<lambda>y. \<lparr>sr_raw = fst y, sr_checkpoint = snd y, sr_on_success = None\<rparr>) ys"
    and quiet: "\<forall>m\<in>set mws. quiet_stage m" and store: "de_checkpoint_store D \<noteq> None"
    and ck: "\<forall>y\<in>set ys. snd y \<noteq> PNone" and mode: "batch_size > 1 \<longrightarrow> chain_keeps mws"
  shows "run_covers D mws ys r (rs_trace t)"
proof -
  have "protected D records" using store ck recs by (auto simp: protected_def)
  from linear_lane_inv [OF run tr quiet this mode] obtain led where
    led: "ledger_of (chain_made mws) records led" "safe_trace D led (rs_trace t)"
    "r = Inr () \<longrightarrow> map fst led = records \<and> (\<forall>x\<in>set led. entry_settled D x (rs_trace t))" by blast
  have made: "chain_made mws x" if "x \<in> set led" for x using led(1) that by (simp add: ledger_of_def)
  have nth: "sr_raw (fst (led ! i)) = fst (ys ! i)" "sr_checkpoint (fst (led ! i)) = snd (ys ! i)" "i < length ys"
    if "i < length led" for i
  proof -
    obtain zs where "records = map fst led @ zs" using led(1) by (auto simp: ledger_of_def prefix_def)
    moreover have "length led \<le> length ys"
      using led(1) recs by (auto simp: ledger_of_def dest!: prefix_length_le)
    ultimately have "fst (led ! i) = records ! i" "i < length ys" using that by (auto simp: nth_append)
    with recs show "sr_raw (fst (led ! i)) = fst (ys ! i)" "sr_checkpoint (fst (led ! i)) = snd (ys ! i)"
      "i < length ys" by simp_all
  qed
  have "\<exists>i<length ys. cp_value c = snd (ys ! i) \<and> (\<forall>j\<le>i. row_settled D mws (fst (ys ! j)) (rs_trace t))"
    if save: "ESave c b \<in> set (rs_trace t)" for c b
  proof -
    obtain pre post where split: "rs_trace t = pre @ ESave c b # post" using split_list [OF save] by blast
    then have "save_covered D led c pre" using led(2) unfolding safe_trace_def by blast
    then obtain i where i: "i < length led" "cp_value c = sr_checkpoint (fst (led ! i))"
      "\<forall>j\<le>i. entry_settled D (led ! j) pre" unfolding save_covered_def by blast
    have "row_settled D mws (fst (ys ! j)) (rs_trace t)" if "j \<le> i" for j
    proof -
      have "j < length led" "entry_settled D (led ! j) (rs_trace t)"
        using i that split by (auto intro: entry_settled_mono)
      with entry_row_settled [OF this(2) made] nth(1) show ?thesis by simp
    qed
    with i nth show ?thesis by (intro exI [of _ i]) auto
  qed
  moreover have "\<forall>y\<in>set ys. row_settled D mws (fst y) (rs_trace t)" if "r = Inr ()"
  proof
    fix y assume "y \<in> set ys"
    then have "\<lparr>sr_raw = fst y, sr_checkpoint = snd y, sr_on_success = None\<rparr> \<in> fst ` set led"
      using led(3) recs that by (metis (no_types, lifting) image_eqI list.set_map)
    then obtain x where "x \<in> set led" "sr_raw (fst x) = fst y" by fastforce
    with led(3) that made entry_row_settled show "row_settled D mws (fst y) (rs_trace t)" by metis
  qed
  ultimately show ?thesis unfolding run_covers_def by blast
qed

section \<open>Any number of runs\<close>

text \<open>
  What a stored checkpoint stands for: it is the one of a record that the whole file yields, and all
  records up to this one were settled.
\<close>

definition stored_covers ::
  "'e DeliveryEngine \<Rightarrow> 'e Middleware list \<Rightarrow> (pyobj \<times> pyval) list \<Rightarrow> Checkpoint option \<Rightarrow> event list \<Rightarrow> bool" where
  "stored_covers D mws ys stored tr \<longleftrightarrow> (\<forall>c. stored = Some c \<longrightarrow>
     (\<exists>i<length ys. cp_value c = snd (ys ! i) \<and> (\<forall>j\<le>i. row_settled D mws (fst (ys ! j)) tr)))"

lemma stored_covers_mono: "stored_covers D mws ys stored a \<Longrightarrow> stored_covers D mws ys stored (a @ b)"
  unfolding stored_covers_def using row_settled_mono [of D mws _ a "a @ b"] by fastforce

text \<open>Where a run starts: behind the stored record, or at the beginning.\<close>

lemma prepare_resume_cases:
  assumes "prepare_resume L key policy current stored = Inr k"
  obtains "k = 0" | c where "stored = Some c" "cursor_of L key (cp_value c) = Inr k"
  using assms by (auto simp: prepare_resume_def res_bind_eq_Inr split: option.splits if_splits)

lemma start_of_run:
  assumes res: "prepare_resume L (fs_key F) policy current stored = Inr k"
    and full: "stream_sync_batches F 0 xs new_reader = (ys, e, t0)"
    and cov: "stored_covers D mws ys stored tr"
  obtains n t' where "stream_sync_batches F k xs new_reader = (drop n ys, e, t')" "n \<le> length ys"
    "\<forall>j<n. row_settled D mws (fst (ys ! j)) tr"
proof -
  from res consider "k = 0" | c where "stored = Some c" "cursor_of L (fs_key F) (cp_value c) = Inr k"
    by (rule prepare_resume_cases)
  then show thesis
  proof cases
    case 1
    with full show thesis by (intro that [of 0]) simp_all
  next
    case 2
    with cov obtain i where i: "i < length ys" "cp_value c = snd (ys ! i)"
      "\<forall>j\<le>i. row_settled D mws (fst (ys ! j)) tr" by (auto simp: stored_covers_def)
    from stream_resume [OF full i(1), of new_reader] obtain m t' where
      "snd (ys ! i) = PDict [(fs_key F, PInt m)]" "stream_sync_batches F m xs new_reader = (drop (Suc i) ys, e, t')"
      by blast
    with i 2(2) show thesis by (intro that [of "Suc i" t']) (auto simp: cursor_of_checkpoint less_Suc_eq_le)
  qed
qed

lemma stream_checkpoints:
  "stream_sync_batches F k xs st = (ys, e, t) \<Longrightarrow> y \<in> set ys \<Longrightarrow> snd y \<noteq> PNone"
  by (metis in_set_conv_nth pyval.distinct(11) stream_resume)

text \<open>One more run: what is stored afterwards is covered, and a run that returns has covered the file.\<close>

lemma run_from_stored:
  assumes res: "prepare_resume L (fs_key F) policy current stored = Inr k"
    and full: "stream_sync_batches F 0 xs new_reader = (ys, e, t0)"
    and cov: "stored_covers D mws ys stored tr"
    and run: "file_run D mws batch_size F k xs s = (r, t)" and start: "rs_trace s = []"
    and conf: "\<forall>m\<in>set mws. quiet_stage m" "de_checkpoint_store D \<noteq> None" "batch_size > 1 \<longrightarrow> chain_keeps mws"
  shows "(\<forall>c b. ESave c b \<in> set (rs_trace t) \<longrightarrow> stored_covers D mws ys (Some c) (tr @ rs_trace t)) \<and>
    (r = Inr () \<longrightarrow> (\<forall>y\<in>set ys. row_settled D mws (fst y) (tr @ rs_trace t)))"
proof -
  from start_of_run [OF res full cov] obtain n t' where
    n: "stream_sync_batches F k xs new_reader = (drop n ys, e, t')" "n \<le> length ys"
    "\<forall>j<n. row_settled D mws (fst (ys ! j)) tr" by blast
  have lane: "linear_lane_run D mws batch_size
      (map (\<lambda>y. \<lparr>sr_raw = fst y, sr_checkpoint = snd y, sr_on_success = None\<rparr>) (drop n ys)) e s = (r, t)"
    using run n(1) by (simp add: file_run_def direct_records)
  have "\<forall>y\<in>set (drop n ys). snd y \<noteq> PNone" using stream_checkpoints [OF n(1)] by blast
  from lane_covers [OF lane start refl conf(1,2) this conf(3)]
  have covers: "run_covers D mws (drop n ys) r (rs_trace t)" .
  have old: "row_settled D mws (fst (ys ! j)) (tr @ rs_trace t)" if "j < n" for j
    using n(3) that row_settled_mono [of D mws _ tr "tr @ rs_trace t"] by simp
  have new: "row_settled D mws x (rs_trace t) \<Longrightarrow> row_settled D mws x (tr @ rs_trace t)" for x
    by (erule row_settled_mono) simp
  have both: "row_settled D mws (fst (ys ! j)) (tr @ rs_trace t)"
    if "\<forall>j'\<le>i. row_settled D mws (fst (drop n ys ! j')) (rs_trace t)" "j \<le> n + i" for i j
  proof (cases "j < n")
    case False
    then have "j - n \<le> i" "ys ! j = drop n ys ! (j - n)" using that(2) n(2) by auto
    with that(1) new show ?thesis by metis
  qed (rule old)
  have "stored_covers D mws ys (Some c) (tr @ rs_trace t)" if save: "ESave c b \<in> set (rs_trace t)" for c b
  proof -
    from covers save obtain i where "i < length (drop n ys)" "cp_value c = snd (drop n ys ! i)"
      "\<forall>j\<le>i. row_settled D mws (fst (drop n ys ! j)) (rs_trace t)" unfolding run_covers_def by blast
    with both show ?thesis unfolding stored_covers_def by (auto intro!: exI [of _ "n + i"])
  qed
  moreover have "\<forall>y\<in>set ys. row_settled D mws (fst y) (tr @ rs_trace t)" if "r = Inr ()"
  proof
    fix y assume "y \<in> set ys"
    then obtain j where j: "j < length ys" "y = ys ! j" by (auto simp: in_set_conv_nth)
    consider "j < n" | "y \<in> set (drop n ys)"
    proof (cases "j < n")
      case False
      then have "y = drop n ys ! (j - n)" "j - n < length (drop n ys)" using j n(2) by simp_all
      then show thesis using that(2) nth_mem by metis
    qed (rule that(1))
    then show "row_settled D mws (fst y) (tr @ rs_trace t)"
      using j(2) old new covers that by cases (auto simp: run_covers_def)
  qed
  ultimately show ?thesis by blast
qed

lemma restarts_covered:
  assumes "restarts L policy D mws batch_size F xs stored tr"
    and full: "stream_sync_batches F 0 xs new_reader = (ys, e, t0)"
    and conf: "\<forall>m\<in>set mws. quiet_stage m" "de_checkpoint_store D \<noteq> None" "batch_size > 1 \<longrightarrow> chain_keeps mws"
  shows "stored_covers D mws ys stored tr"
  using assms(1)
proof induction
  case fresh
  show ?case by (simp add: stored_covers_def)
next
  case (again stored tr current k s r t stored')
  from run_from_stored [OF again(2) full again(6) again(3,4) conf] again(5) stored_covers_mono [OF again(6)]
  show ?case by metis
qed

text \<open>
  C1. At-least-once delivery across restarts. Take any number of runs of a pipeline over a file, each
  of which may fail or be cut off anywhere and each of which starts from the checkpoint that the runs
  before it left in the store. When a run then returns normally, every record that the file yields has
  been settled in one of the runs: accepted by the sink, taken by the dead-letter queue, dropped by
  the chain, or given up under a policy that says so. Nothing is lost at the point where a run stopped.
  The runs use the linear lane with a checkpoint store, their stages write no record and no checkpoint of their own,
  and either writes are not batched or the chain drops no record: a dropped record's checkpoint overtakes the writes
  that are pending (\<open>linear_lane_drop_overtakes_pending\<close>).
\<close>

theorem restarts_lose_nothing:
  assumes "restarts L policy D mws batch_size F xs stored tr"
    and "prepare_resume L (fs_key F) policy current stored = Inr k"
    and "file_run D mws batch_size F k xs s = (Inr (), t)" "rs_trace s = []"
    and "\<forall>m\<in>set mws. quiet_stage m" "de_checkpoint_store D \<noteq> None" "batch_size > 1 \<longrightarrow> chain_keeps mws"
  shows "\<forall>y\<in>set (fst (stream_sync_batches F 0 xs new_reader)). row_settled D mws (fst y) (tr @ rs_trace t)"
proof -
  obtain ys e t0 where full: "stream_sync_batches F 0 xs new_reader = (ys, e, t0)"
    by (cases "stream_sync_batches F 0 xs new_reader") auto
  have "stored_covers D mws ys stored tr" using assms(1) full assms(5-7) by (rule restarts_covered)
  from run_from_stored [OF assms(2) full this assms(3-7)] full show ?thesis by simp
qed

section \<open>Witness\<close>

text \<open>
  A file of three lines. In the first run the sink refuses the second line and the run fails; in the
  second the sink is back.
\<close>

definition sink_bad_b :: "pyobj \<Rightarrow> exn + WriteResult" where
  "sink_bad_b p = (if p = row_obj ''b'' then Inl (mk_exn ValueErrorC ''sink is down'')
     else Inr \<lparr>wr_written = True, wr_errors = []\<rparr>)"

text \<open>The environment of the demonstration says whether the sink is down.\<close>

definition moody_engine :: "bool DeliveryEngine" where
  "moody_engine = \<lparr>de_pipeline_id = ''p'', de_run_id = ''r'', de_source_name = ''jsonl'',
     de_lib = \<lparr>lib_repr = (\<lambda>_. []), lib_int_of_str = (\<lambda>_. None), lib_iso_ok = (\<lambda>_. True)\<rparr>,
     de_now = (\<lambda>_. ''now''), de_fence = None,
     de_write = (\<lambda>p down. (if down then sink_bad_b p else Inr \<lparr>wr_written = True, wr_errors = []\<rparr>, down)),
     de_write_batch = (\<lambda>ps down. (Inr [], down)), de_run_hook = (\<lambda>h down. (Inr (), down)),
     de_current_checkpoint = (\<lambda>_. PNone), de_dlq_sink = None, de_dlq_failure_policy = DLQ_LOG_ONLY,
     de_dlq_redactor = None, de_sink_failure_policy = SINK_FAIL_CLOSED,
     de_checkpoint_store = Some (\<lambda>k c down. (Inr (), down)), de_checkpoint_failure_policy = CP_FAIL_CLOSED,
     de_checkpoint_key = ''k'', de_checkpoint_every = 1, de_checkpoint_source_identity = None,
     de_batch_flush_interval_ms = None\<rparr>"

definition abc :: "string list" where
  "abc = [''a'', ''b'', ''c'']"

definition failed_run :: "(exn + unit) \<times> bool rstate" where
  "failed_run = file_run moody_engine [] 1 (demo_jsonl SRC_FAIL_CLOSED) 0 abc (init_state True)"

definition second_run :: "(exn + unit) \<times> bool rstate" where
  "second_run = file_run moody_engine [] 1 (demo_jsonl SRC_FAIL_CLOSED) 1 abc (init_state False)"

definition saved_line :: Checkpoint where
  "saved_line = \<lparr>cp_pipeline_id = ''p'', cp_run_id = ''r'', cp_source = ''jsonl'',
     cp_value = PDict [(''line_number'', PInt 1)], cp_recorded_at = ''now'', cp_source_identity = None\<rparr>"

lemma failed_run_values:
  "isl (fst failed_run)" "ESave saved_line True \<in> set (rs_trace (snd failed_run))"
proof -
  show "isl (fst failed_run)" by code_simp
  have "rs_trace (snd failed_run) = [EWrite [row_obj ''a''] (Inr [\<lparr>wr_written = True, wr_errors = []\<rparr>]),
      ESave saved_line True, EWrite [row_obj ''b''] (Inl (mk_exn ValueErrorC ''sink is down''))]" by code_simp
  then show "ESave saved_line True \<in> set (rs_trace (snd failed_run))" by simp
qed

theorem restarts_lose_nothing_witness:
  "isl (fst failed_run) \<and> fst second_run = Inr () \<and>
   list_all (\<lambda>v. row_settled moody_engine ([] :: bool Middleware list) (row_obj v)
     (rs_trace (snd failed_run) @ rs_trace (snd second_run))) abc"
proof -
  let ?F = "demo_jsonl SRC_FAIL_CLOSED" and ?L = "de_lib moody_engine"
  have "restarts ?L ID_ALLOW moody_engine [] 1 ?F abc (Some saved_line) ([] @ rs_trace (snd failed_run))"
  proof (rule restarts.again [OF restarts.fresh])
    show "prepare_resume ?L (fs_key ?F) ID_ALLOW (Inr None) None = Inr 0"
      by (simp add: prepare_resume_def accept_checkpoint_identity_def)
    show "file_run moody_engine [] 1 ?F 0 abc (init_state True) = (fst failed_run, snd failed_run)"
      by (simp add: failed_run_def)
    show "Some saved_line = None \<or> (\<exists>c b. Some saved_line = Some c \<and> ESave c b \<in> set (rs_trace (snd failed_run)))"
      using failed_run_values(2) by blast
  qed (simp add: init_state_def)
  moreover have "prepare_resume ?L (fs_key ?F) ID_ALLOW (Inr None) (Some saved_line) = Inr 1" by code_simp
  moreover have ok: "fst second_run = Inr ()" by code_simp
  then have "file_run moody_engine [] 1 ?F 1 abc (init_state False) = (Inr (), snd second_run)"
    by (metis prod.collapse second_run_def)
  ultimately have "\<forall>y\<in>set (fst (stream_sync_batches ?F 0 abc new_reader)).
      row_settled moody_engine ([] :: bool Middleware list) (fst y)
        (([] @ rs_trace (snd failed_run)) @ rs_trace (snd second_run))"
    by (rule restarts_lose_nothing) (simp_all add: init_state_def moody_engine_def)
  then have "list_all (\<lambda>x. row_settled moody_engine ([] :: bool Middleware list) x
      (rs_trace (snd failed_run) @ rs_trace (snd second_run)))
      (map fst (fst (stream_sync_batches ?F 0 abc new_reader)))" by (simp add: list_all_iff)
  moreover have "map fst (fst (stream_sync_batches ?F 0 abc new_reader)) = map row_obj abc" by code_simp
  ultimately have "list_all (\<lambda>x. row_settled moody_engine ([] :: bool Middleware list) x
      (rs_trace (snd failed_run) @ rs_trace (snd second_run))) (map row_obj abc)" by (simp only:)
  with ok failed_run_values(1) show ?thesis by (simp only: list.pred_map comp_def simp_thms)
qed

end
