(* ===== verification/Run_Lifecycle.thy ===== *)
theory Run_Lifecycle
  imports Delivery
begin

text \<open>
  The life of a run: \<^verbatim>\<open>core/executor.py\<close>, \<^verbatim>\<open>core/session\<close> (controller, state and the start-up and shutdown
  helpers), \<open>start_all\<close> and \<open>stop_all\<close> of \<^verbatim>\<open>core/middleware/_chain.py\<close>, and \<open>with_context\<close> of \<^verbatim>\<open>core/errors.py\<close>.

  The components that a run opens and closes are application code: each operation is a function on the
  environment that may raise. \<open>lf_trace\<close> records the calls on them; the code never reads it. What runs
  between opening and closing, \<open>execution.run\<close>, is a parameter here and one of the lanes elsewhere.
  Binding the run's context to a sink is taken not to raise. Logging, tracing, the snapshot of the metrics and the counters copied from the source are left out.
  The task that reports live metrics only calls its callback; its rounds are taken where it is awaited.
\<close>

section \<open>Components and state\<close>

datatype resource = RMiddleware nat | RSource | RWriter | RDlq | RStore

text \<open>A call that opens, flushes or closes a resource, with whether it returned.\<close>

datatype life_event =
    Acquire resource bool | Flush resource bool | Release resource bool | RolledBack resource

type_synonym 'e call = "'e \<Rightarrow> (exn + unit) \<times> 'e"

record 'e stage_calls =
  sc_on_start :: "'e call"
  sc_on_stop :: "'e call"

text \<open>The writer and the DLQ sink; \<open>rc_open_rolled_back\<close> reads the \<open>_open_rolled_back\<close> attribute.\<close>

record 'e resource_calls =
  rc_open :: "'e call"
  rc_flush :: "'e call"
  rc_close :: "'e call"
  rc_open_rolled_back :: "'e \<Rightarrow> bool"

record 'e store_calls =
  st_load :: "string \<Rightarrow> 'e \<Rightarrow> (exn + Checkpoint option) \<times> 'e"
  st_close :: "'e call"

record 'e PipelineRuntimeSpec =
  sp_engine :: "'e DeliveryEngine"
  sp_stages :: "'e stage_calls list"
  sp_source_open :: "'e call"
  sp_source_close :: "'e call"
  sp_checkpoint_capable :: bool
  sp_prepare_resume :: "Checkpoint option \<Rightarrow> 'e call"
  sp_writer :: "'e resource_calls"
  sp_dlq :: "'e resource_calls option"
  sp_checkpoint :: "'e store_calls option"
  sp_execution_run :: "('e, unit) run"
  sp_live_metrics_callback :: "'e call option"
  sp_live_rounds :: nat

text \<open>\<open>PipelineRunState\<close>; \<open>lf_live\<close> says whether the task that reports live metrics was created.\<close>

record 'e life =
  lf_run :: "'e rstate"
  lf_middlewares_started :: bool
  lf_writer_opened :: bool
  lf_dlq_opened :: bool
  lf_interrupted :: bool
  lf_run_error :: "exn option"
  lf_live :: bool
  lf_trace :: "life_event list"

type_synonym ('e, 'a) lrun = "(exn, 'e life, 'a) comp"

definition new_life :: "'e rstate \<Rightarrow> 'e life" where
  "new_life s = \<lparr>lf_run = s, lf_middlewares_started = False, lf_writer_opened = False, lf_dlq_opened = False,
     lf_interrupted = False, lf_run_error = None, lf_live = False, lf_trace = []\<rparr>"

definition in_run :: "('e, 'a) run \<Rightarrow> ('e, 'a) lrun" where
  "in_run m = (\<lambda>s. case m (lf_run s) of (r, u) \<Rightarrow> (r, s\<lparr>lf_run := u\<rparr>))"

definition call :: "('e \<Rightarrow> (exn + 'a) \<times> 'e) \<Rightarrow> (bool \<Rightarrow> life_event list) \<Rightarrow> ('e, 'a) lrun" where
  "call f ev = (\<lambda>s. case f (rs_env (lf_run s)) of
     (r, e) \<Rightarrow> (r, s\<lparr>lf_run := (lf_run s)\<lparr>rs_env := e\<rparr>, lf_trace := lf_trace s @ ev (\<not> isl r)\<rparr>))"

text \<open>\<open>try: ... except Exception: log\<close>.\<close>

definition swallow :: "('e, unit) lrun \<Rightarrow> ('e, unit) lrun" where
  "swallow m = catch m (\<lambda>e. if is_Exception e then skip else throw e)"

definition stage_at :: "'e PipelineRuntimeSpec \<Rightarrow> nat \<Rightarrow> 'e stage_calls" where
  "stage_at P i = sp_stages P ! i"

definition on_start :: "'e PipelineRuntimeSpec \<Rightarrow> nat \<Rightarrow> ('e, unit) lrun" where
  "on_start P i = call (sc_on_start (stage_at P i)) (\<lambda>ok. [Acquire (RMiddleware i) ok])"

definition on_stop :: "'e PipelineRuntimeSpec \<Rightarrow> nat \<Rightarrow> ('e, unit) lrun" where
  "on_stop P i = call (sc_on_stop (stage_at P i)) (\<lambda>ok. [Release (RMiddleware i) ok])"

section \<open>The chain\<close>

definition rollback_started_middlewares :: "'e PipelineRuntimeSpec \<Rightarrow> nat \<Rightarrow> nat list \<Rightarrow> ('e, unit) lrun" where
  "rollback_started_middlewares P failing started =
     for_each (failing # rev started) (\<lambda>i. swallow (on_stop P i))"

fun start_from :: "'e PipelineRuntimeSpec \<Rightarrow> nat list \<Rightarrow> nat list \<Rightarrow> ('e, unit) lrun" where
  "start_from P [] started = skip"
| "start_from P (i # is) started =
     bind (attempt (on_start P i)) (\<lambda>r. case r of
       Inl e \<Rightarrow> if is_Exception e
                then bind (rollback_started_middlewares P i started) (\<lambda>_. throw e) else throw e
     | Inr _ \<Rightarrow> start_from P is (started @ [i]))"

definition start_all :: "'e PipelineRuntimeSpec \<Rightarrow> ('e, unit) lrun" where
  "start_all P = start_from P [0..<length (sp_stages P)] []"

definition stop_all :: "'e PipelineRuntimeSpec \<Rightarrow> ('e, unit) lrun" where
  "stop_all P = for_each (rev [0..<length (sp_stages P)]) (\<lambda>i. swallow (on_stop P i))"

section \<open>Start-up\<close>

definition restore_checkpoint :: "'e PipelineRuntimeSpec \<Rightarrow> ('e, unit) lrun" where
  "restore_checkpoint P = (case sp_checkpoint P of
       None \<Rightarrow> skip
     | Some store \<Rightarrow>
         if \<not> sp_checkpoint_capable P then skip
         else
           bind (attempt
             (bind (call (st_load store (de_checkpoint_key (sp_engine P))) (\<lambda>_. [])) (\<lambda>c.
              bind (call (sp_prepare_resume P c) (\<lambda>_. [])) (\<lambda>_. ret c)))) (\<lambda>r. case r of
             Inl e \<Rightarrow>
               if isinstance e SourceIdentityMismatchErrorC \<or> \<not> is_Exception e then throw e
               else
                 bind (in_run (upd_metrics (\<lambda>m. m\<lparr>m_checkpoint_failure_count := m_checkpoint_failure_count m + 1\<rparr>))) (\<lambda>_.
                 if de_checkpoint_failure_policy (sp_engine P) = CP_LOG_AND_CONTINUE then skip else throw e)
           | Inr None \<Rightarrow> skip
           | Inr (Some c) \<Rightarrow> in_run (upd_metrics (\<lambda>m. m\<lparr>m_last_checkpoint := Some c\<rparr>))))"

definition open_resource :: "resource \<Rightarrow> 'e resource_calls \<Rightarrow> ('e, unit) lrun" where
  "open_resource r q = call (rc_open q) (\<lambda>ok. [Acquire r ok])"

definition flush_resource :: "resource \<Rightarrow> 'e resource_calls \<Rightarrow> ('e, unit) lrun" where
  "flush_resource r q = call (rc_flush q) (\<lambda>ok. [Flush r ok])"

definition close_resource :: "resource \<Rightarrow> 'e resource_calls \<Rightarrow> ('e, unit) lrun" where
  "close_resource r q = call (rc_close q) (\<lambda>ok. [Release r ok])"

definition rollback_one :: "resource \<Rightarrow> 'e resource_calls \<Rightarrow> ('e, unit) lrun" where
  "rollback_one r q = bind get_state (\<lambda>s.
     if rc_open_rolled_back q (rs_env (lf_run s)) then modify (\<lambda>s. s\<lparr>lf_trace := lf_trace s @ [RolledBack r]\<rparr>)
     else swallow (close_resource r q))"

text \<open>\<open>rollback_open_failure\<close>; the second argument says whether the open of the DLQ sink was attempted.\<close>

definition rollback_open_failure :: "'e PipelineRuntimeSpec \<Rightarrow> bool \<Rightarrow> ('e, unit) lrun" where
  "rollback_open_failure P dlq_attempted =
     bind (case sp_dlq P of Some q \<Rightarrow> if dlq_attempted then rollback_one RDlq q else skip | None \<Rightarrow> skip) (\<lambda>_.
       rollback_one RWriter (sp_writer P))"

definition open_failed :: "'e PipelineRuntimeSpec \<Rightarrow> bool \<Rightarrow> exn \<Rightarrow> ('e, bool \<times> bool) lrun" where
  "open_failed P dlq_attempted e =
     (if is_Exception e then bind (rollback_open_failure P dlq_attempted) (\<lambda>_. throw e) else throw e)"

definition open_runtime_sinks :: "'e PipelineRuntimeSpec \<Rightarrow> ('e, bool \<times> bool) lrun" where
  "open_runtime_sinks P =
     bind (attempt (open_resource RWriter (sp_writer P))) (\<lambda>r. case r of
       Inl e \<Rightarrow> open_failed P False e
     | Inr _ \<Rightarrow> (case sp_dlq P of
           None \<Rightarrow> ret (True, False)
         | Some q \<Rightarrow>
             bind (attempt (open_resource RDlq q)) (\<lambda>r. case r of
               Inl e \<Rightarrow> open_failed P True e
             | Inr _ \<Rightarrow> ret (True, True))))"

definition start_runtime :: "'e PipelineRuntimeSpec \<Rightarrow> ('e, unit) lrun" where
  "start_runtime P =
     bind (start_all P) (\<lambda>_.
     bind (modify (\<lambda>s. s\<lparr>lf_middlewares_started := True\<rparr>)) (\<lambda>_.
     bind (open_runtime_sinks P) (\<lambda>(w, d).
       modify (\<lambda>s. s\<lparr>lf_writer_opened := w, lf_dlq_opened := d\<rparr>))))"

section \<open>Shutdown\<close>

text \<open>\<open>_capture\<close>: the first exception is kept.\<close>

definition capture :: "('e, unit) lrun \<Rightarrow> exn option \<Rightarrow> ('e, exn option) lrun" where
  "capture m first = bind (attempt m) (\<lambda>r. case r of
     Inl e \<Rightarrow> if is_Exception e then ret (case first of None \<Rightarrow> Some e | Some f \<Rightarrow> Some f) else throw e
   | Inr _ \<Rightarrow> ret first)"

definition transport_flush :: "'e PipelineRuntimeSpec \<Rightarrow> ('e, unit) lrun" where
  "transport_flush P = bind (in_run (assert_run_fence_active (sp_engine P))) (\<lambda>_.
     flush_resource RWriter (sp_writer P))"

definition shutdown_runtime_components :: "'e PipelineRuntimeSpec \<Rightarrow> ('e, exn option) lrun" where
  "shutdown_runtime_components P =
     bind get_state (\<lambda>s.
     bind (if lf_middlewares_started s then capture (stop_all P) None else ret None) (\<lambda>first.
     bind (case sp_dlq P of
             Some q \<Rightarrow>
               if lf_dlq_opened s
               then bind (capture (flush_resource RDlq q) first) (capture (close_resource RDlq q))
               else ret first
           | None \<Rightarrow> ret first) (\<lambda>first.
     bind (if lf_writer_opened s
           then bind (capture (transport_flush P) first) (capture (close_resource RWriter (sp_writer P)))
           else ret first) (\<lambda>first.
     bind (case sp_checkpoint P of
             Some store \<Rightarrow> capture (call (st_close store) (\<lambda>ok. [Release RStore ok])) first
           | None \<Rightarrow> ret first) (\<lambda>first.
     bind get_state (\<lambda>t.
       ret (if lf_interrupted t \<or> lf_run_error t \<noteq> None then None else first)))))))"

section \<open>The run\<close>

text \<open>The live metrics: once before the stream, and then by a task.\<close>

definition live_callback :: "'e call \<Rightarrow> ('e, unit) lrun" where
  "live_callback f = swallow (call f (\<lambda>_. []))"

definition start_live_metrics :: "'e PipelineRuntimeSpec \<Rightarrow> ('e, unit) lrun" where
  "start_live_metrics P = (case sp_live_metrics_callback P of
       None \<Rightarrow> skip
     | Some f \<Rightarrow> bind (live_callback f) (\<lambda>_. modify (\<lambda>s. s\<lparr>lf_live := True\<rparr>)))"

definition await_live_metrics :: "'e PipelineRuntimeSpec \<Rightarrow> ('e, unit) lrun" where
  "await_live_metrics P = bind get_state (\<lambda>s. case sp_live_metrics_callback P of
       Some f \<Rightarrow> if lf_live s then for_each [0..<sp_live_rounds P] (\<lambda>_. live_callback f) else skip
     | None \<Rightarrow> skip)"

definition run_stream :: "'e PipelineRuntimeSpec \<Rightarrow> ('e, unit) lrun" where
  "run_stream P =
     bind (call (sp_source_open P) (\<lambda>ok. [Acquire RSource ok])) (\<lambda>_.
     bind (attempt (in_run (sp_execution_run P))) (\<lambda>x.
     bind (attempt (call (sp_source_close P) (\<lambda>ok. [Release RSource ok]))) (\<lambda>c.
       case c of
         Inl ce \<Rightarrow> (case x of
             Inl e \<Rightarrow> if is_Exception ce then throw e else throw ce
           | Inr _ \<Rightarrow> throw ce)
       | Inr _ \<Rightarrow> (case x of Inl e \<Rightarrow> throw e | Inr _ \<Rightarrow> skip))))"

definition run_body :: "'e PipelineRuntimeSpec \<Rightarrow> ('e, unit) lrun" where
  "run_body P = bind (start_runtime P) (\<lambda>_. bind (start_live_metrics P) (\<lambda>_. run_stream P))"

definition no_args :: dlq_args where
  "no_args = \<lparr>da_record = None, da_original = None, da_processed = None, da_source = None, da_checkpoint = PNone,
     da_middleware = None, da_sink = None\<rparr>"

text \<open>The DLQ reads only the value of a record, so the identity of the object is immaterial here.\<close>

definition dlq_object :: "pyval \<Rightarrow> pyobj option" where
  "dlq_object v = (if v = PNone then None else Some \<lparr>ob_id = 0, ob_val = v\<rparr>)"

definition handle_run_error :: "'e PipelineRuntimeSpec \<Rightarrow> exn \<Rightarrow> ('e, unit) lrun" where
  "handle_run_error P e =
     (if isinstance e KeyboardInterruptC then modify (\<lambda>s. s\<lparr>lf_interrupted := True\<rparr>)
      else
        bind (modify (\<lambda>s. s\<lparr>lf_run_error := Some e\<rparr>)) (\<lambda>_.
        if isinstance e FenceLostErrorC then skip
        else if isinstance e RecordDeliveryErrorC \<or> isinstance e CheckpointSaveErrorC then skip
        else
          bind (in_run (upd_metrics (\<lambda>m. m\<lparr>m_records_errored := m_records_errored m + 1\<rparr>))) (\<lambda>_.
          bind get_state (\<lambda>s.
          if \<not> lf_dlq_opened s then skip
          else case (esource e, eoriginal e) of
              (Some se, Some original) \<Rightarrow>
                bind (in_run (dlq_write (sp_engine P) (se_stage se) original
                  (no_args\<lparr>da_record := dlq_object (se_record se), da_original := dlq_object (se_record se),
                     da_checkpoint := se_checkpoint se,
                     da_source := Some (or_name (se_source se) (de_source_name (sp_engine P)))\<rparr>))) (\<lambda>routed.
                case se_on_handled se of
                  Some h \<Rightarrow> if routed then in_run (run_hook (sp_engine P) h) else skip
                | None \<Rightarrow> skip)
            | _ \<Rightarrow>
                bind (in_run (dlq_write (sp_engine P) ''source_stream''
                  (if is_Exception e then e else mk_exn ExceptionC (emsg e)) no_args)) (\<lambda>_. skip)))))"

text \<open>\<open>with_context\<close>: only what is given overwrites. A subclass other than \<open>FenceLostError\<close> comes back as \<open>PipelineError\<close>.\<close>

definition or_else :: "'a option \<Rightarrow> 'a option \<Rightarrow> 'a option" where
  "or_else new old = (case new of Some x \<Rightarrow> Some x | None \<Rightarrow> old)"

definition with_context :: "pylib \<Rightarrow> exn \<Rightarrow> error_context \<Rightarrow> exn" where
  "with_context L e new =
     (let old = econtext e; fence = isinstance e FenceLostErrorC in
      mk_pipeline_error L (if fence then FenceLostErrorC else PipelineErrorC)
        \<lparr>ec_message = (if fence then ec_message old else emsg e),
         ec_pipeline_id = or_else (ec_pipeline_id new) (ec_pipeline_id old),
         ec_run_id = or_else (ec_run_id new) (ec_run_id old),
         ec_stage = or_else (ec_stage new) (ec_stage old),
         ec_source_name = or_else (ec_source_name new) (ec_source_name old),
         ec_sink_name = or_else (ec_sink_name new) (ec_sink_name old),
         ec_checkpoint = (if ec_checkpoint new \<noteq> PNone then ec_checkpoint new else ec_checkpoint old)\<rparr>)"

definition nonempty_or :: "string option \<Rightarrow> string \<Rightarrow> string" where
  "nonempty_or x d = (case x of Some v \<Rightarrow> if v = [] then d else v | None \<Rightarrow> d)"

text \<open>\<open>_raise_terminal_error\<close>: the exception that the caller of a failed run gets.\<close>

definition terminal_stage :: "exn \<Rightarrow> string" where
  "terminal_stage e =
     (if isinstance e SourceRecordErrorC
      then (case esource e of Some se \<Rightarrow> nonempty_or (Some (se_stage se)) ''source_stream'' | None \<Rightarrow> ''source_stream'')
      else if isinstance e RecordDeliveryErrorC then ''sink'' else ''source_stream'')"

definition terminal_error :: "'e DeliveryEngine \<Rightarrow> exn \<Rightarrow> exn" where
  "terminal_error D e =
     (let original = (if isinstance e RecordDeliveryErrorC \<or> isinstance e SourceRecordErrorC \<or> isinstance e CheckpointSaveErrorC
                      then (case eoriginal e of Some x \<Rightarrow> x | None \<Rightarrow> e) else e)
      in if isinstance original PipelineErrorC
         then with_context (de_lib D) original
           ((plain_context [])\<lparr>ec_pipeline_id := Some (de_pipeline_id D), ec_run_id := Some (de_run_id D),
              ec_stage := Some (nonempty_or (ec_stage (econtext original)) (terminal_stage e)),
              ec_source_name := Some (nonempty_or (ec_source_name (econtext original)) (de_source_name D))\<rparr>)
         else original)"

text \<open>The handlers of \<open>execute\<close>: an exception that none of them names passes through.\<close>

definition handle_body :: "'e PipelineRuntimeSpec \<Rightarrow> exn + unit \<Rightarrow> ('e, exn option) lrun" where
  "handle_body P r = (case r of
       Inr _ \<Rightarrow> ret None
     | Inl e \<Rightarrow>
         if isinstance e CancelledErrorC
         then bind (modify (\<lambda>s. s\<lparr>lf_interrupted := True\<rparr>)) (\<lambda>_. ret (Some e))
         else if isinstance e KeyboardInterruptC \<or> is_Exception e
         then bind (handle_run_error P e) (\<lambda>_. ret None)
         else throw e)"

definition raise_terminal_error :: "'e PipelineRuntimeSpec \<Rightarrow> exn option \<Rightarrow> ('e, unit) lrun" where
  "raise_terminal_error P shutdown_error = bind get_state (\<lambda>s. case lf_run_error s of
       Some e \<Rightarrow> throw (terminal_error (sp_engine P) e)
     | None \<Rightarrow> (case shutdown_error of Some e \<Rightarrow> throw e | None \<Rightarrow> skip))"

definition execute :: "'e PipelineRuntimeSpec \<Rightarrow> ('e, Metrics) lrun" where
  "execute P =
     bind (restore_checkpoint P) (\<lambda>_.
     bind (attempt (run_body P)) (\<lambda>r.
     bind (attempt (handle_body P r)) (\<lambda>h.
     bind (await_live_metrics P) (\<lambda>_.
     bind (shutdown_runtime_components P) (\<lambda>shutdown_error.
     case h of
       Inl e \<Rightarrow> throw e
     | Inr (Some cancelled) \<Rightarrow> throw cancelled
     | Inr None \<Rightarrow>
         bind (raise_terminal_error P shutdown_error) (\<lambda>_.
         bind get_state (\<lambda>s. ret (rs_metrics (lf_run s)))))))))"

section \<open>What an operation adds to the trace\<close>

definition flags :: "'e life \<Rightarrow> bool \<times> bool \<times> bool \<times> bool \<times> exn option \<times> bool" where
  "flags s = (lf_middlewares_started s, lf_writer_opened s, lf_dlq_opened s, lf_interrupted s, lf_run_error s, lf_live s)"

definition adds :: "life_event list \<Rightarrow> 'e life \<Rightarrow> 'e life \<Rightarrow> bool" where
  "adds ev s t \<longleftrightarrow> flags t = flags s \<and> lf_trace t = lf_trace s @ ev"

lemma adds_refl [simp]: "adds [] s s"
  by (simp add: adds_def)

lemma adds_trans: "adds a s t \<Longrightarrow> adds b t u \<Longrightarrow> adds (a @ b) s u"
  by (simp add: adds_def)

text \<open>Calls that raise nothing but an \<open>Exception\<close>.\<close>

definition tame :: "('e \<Rightarrow> (exn + 'a) \<times> 'e) \<Rightarrow> bool" where
  "tame f \<longleftrightarrow> (\<forall>e x. fst (f e) = Inl x \<longrightarrow> is_Exception x)"

definition tame_resource :: "'e resource_calls \<Rightarrow> bool" where
  "tame_resource q \<longleftrightarrow> tame (rc_open q) \<and> tame (rc_flush q) \<and> tame (rc_close q)"

text \<open>
  A writer that has been opened says that it was not rolled back, and opening or closing the DLQ sink
  does not change that, as it is for the writers of \<^verbatim>\<open>core/sink/_writers.py\<close>.
\<close>

definition keeps_open :: "'e PipelineRuntimeSpec \<Rightarrow> 'e call \<Rightarrow> bool" where
  "keeps_open P f \<longleftrightarrow> (\<forall>e. \<not> rc_open_rolled_back (sp_writer P) e \<longrightarrow>
     \<not> rc_open_rolled_back (sp_writer P) (snd (f e)))"

definition honest_writer :: "'e PipelineRuntimeSpec \<Rightarrow> bool" where
  "honest_writer P \<longleftrightarrow>
     (\<forall>e. fst (rc_open (sp_writer P) e) = Inr () \<longrightarrow>
        \<not> rc_open_rolled_back (sp_writer P) (snd (rc_open (sp_writer P) e))) \<and>
     pred_option (\<lambda>q. keeps_open P (rc_open q) \<and> keeps_open P (rc_close q)) (sp_dlq P)"

definition orderly :: "'e PipelineRuntimeSpec \<Rightarrow> bool" where
  "orderly P \<longleftrightarrow> honest_writer P \<and>
     (\<forall>c\<in>set (sp_stages P). tame (sc_on_start c) \<and> tame (sc_on_stop c)) \<and>
     tame_resource (sp_writer P) \<and> pred_option tame_resource (sp_dlq P) \<and>
     pred_option (\<lambda>st. tame (st_close st)) (sp_checkpoint P) \<and>
     pred_option tame (sp_live_metrics_callback P) \<and> pred_option tame (de_fence (sp_engine P))"

lemma call_adds: "call f ev s = (r, t) \<Longrightarrow> adds (ev (\<not> isl r)) s t"
  by (auto simp: call_def adds_def flags_def split: prod.splits)

lemma call_tame: "call f ev s = (Inl x, t) \<Longrightarrow> tame f \<Longrightarrow> is_Exception x"
  by (auto simp: call_def tame_def split: prod.splits) (metis fst_conv)

lemma in_run_adds: "in_run m s = (r, t) \<Longrightarrow> adds [] s t"
  by (auto simp: in_run_def adds_def flags_def split: prod.splits)

lemma swallow_call:
  assumes "swallow (call f ev) s = (r, t)" "tame f"
  shows "r = Inr () \<and> (\<exists>ok. adds (ev ok) s t)"
proof -
  obtain x u where c: "call f ev s = (x, u)" by (cases "call f ev s")
  have "is_Exception e" if "x = Inl e" for e using call_tame c assms(2) that by blast
  then have "r = Inr ()" "t = u" using assms(1) c
    by (auto simp: swallow_def catch_def skip_def ret_def split: sum.splits)
  with call_adds [OF c] show ?thesis by blast
qed

definition releases :: "nat list \<Rightarrow> bool list \<Rightarrow> life_event list" where
  "releases is oks = map2 (\<lambda>i ok. Release (RMiddleware i) ok) is oks"

lemma stops_add:
  assumes "for_each is (\<lambda>i. swallow (on_stop P i)) s = (r, t)" "\<forall>i\<in>set is. tame (sc_on_stop (stage_at P i))"
  shows "r = Inr () \<and> (\<exists>oks. length oks = length is \<and> adds (releases is oks) s t)"
  using assms
proof (induction "is" arbitrary: s)
  case Nil
  then show ?case by (auto simp: ret_def releases_def)
next
  case (Cons i "is")
  obtain x u where step: "swallow (on_stop P i) s = (x, u)" by (cases "swallow (on_stop P i) s")
  with swallow_call [of _ _ s x u] Cons.prems(2) obtain ok where
    ok: "x = Inr ()" "adds [Release (RMiddleware i) ok] s u" unfolding on_stop_def by fastforce
  then have rest: "for_each is (\<lambda>i. swallow (on_stop P i)) u = (r, t)" using Cons.prems(1) step by (simp add: bind_def)
  from Cons.IH [OF rest] Cons.prems(2) obtain oks where
    "r = Inr ()" "length oks = length is" "adds (releases is oks) u t" by auto
  with ok adds_trans [OF ok(2)] show ?case
    by (intro conjI exI [of _ "ok # oks"]) (auto simp: releases_def)
qed

definition starts :: "nat list \<Rightarrow> life_event list" where
  "starts is = map (\<lambda>i. Acquire (RMiddleware i) True) is"

lemma start_from_adds:
  assumes "start_from P is started s = (r, t)"
    and "\<forall>i\<in>set (started @ is). tame (sc_on_start (stage_at P i)) \<and> tame (sc_on_stop (stage_at P i))"
  shows "(r = Inr () \<and> adds (starts is) s t) \<or>
    (\<exists>a i b oks. is = a @ i # b \<and> length oks = Suc (length started + length a) \<and> isl r \<and>
      adds (starts a @ Acquire (RMiddleware i) False # releases (i # rev (started @ a)) oks) s t)"
  using assms
proof (induction "is" arbitrary: started s)
  case Nil
  then show ?case by (simp add: skip_def ret_def starts_def)
next
  case (Cons i "is")
  obtain x u where step: "on_start P i s = (x, u)" by (cases "on_start P i s")
  have u: "adds [Acquire (RMiddleware i) (\<not> isl x)] s u" using call_adds step unfolding on_start_def by blast
  show ?case
  proof (cases x)
    case (Inl e)
    have "is_Exception e" using call_tame [of _ _ s e u] step Inl Cons.prems(2) unfolding on_start_def by auto
    then have "bind (rollback_started_middlewares P i started) (\<lambda>_. throw e) u = (r, t)"
      using Cons.prems(1) step Inl by (simp add: bind_def attempt_def)
    moreover obtain y v where rb: "rollback_started_middlewares P i started u = (y, v)"
      by (cases "rollback_started_middlewares P i started u")
    moreover from stops_add [OF rb [unfolded rollback_started_middlewares_def]] Cons.prems(2) obtain oks where
      oks: "y = Inr ()" "length oks = length (i # rev started)" "adds (releases (i # rev started) oks) u v" by auto
    ultimately have "isl r" "t = v" by (auto simp: bind_def throw_def)
    with oks u Inl adds_trans [OF u oks(3)] show ?thesis
      by (intro disjI2 exI [of _ "[]"] exI [of _ i] exI [of _ "is"] exI [of _ oks]) (simp add: starts_def)
  next
    case (Inr y)
    then have rest: "start_from P is (started @ [i]) u = (r, t)" using Cons.prems(1) step
      by (simp add: bind_def attempt_def)
    from Cons.IH [OF rest] Cons.prems(2) consider "r = Inr ()" "adds (starts is) u t"
      | a j b oks where "is = a @ j # b" "length oks = Suc (length (started @ [i]) + length a)" "isl r"
        "adds (starts a @ Acquire (RMiddleware j) False # releases (j # rev ((started @ [i]) @ a)) oks) u t" by auto
    then show ?thesis
    proof cases
      case 1
      with u Inr adds_trans [OF u 1(2)] show ?thesis by (simp add: starts_def)
    next
      case 2
      with u Inr adds_trans [OF u 2(4)] show ?thesis
        by (intro disjI2 exI [of _ "i # a"] exI [of _ j] exI [of _ b] exI [of _ oks]) (simp add: starts_def)
    qed
  qed
qed

section \<open>Phases of a resource\<close>

text \<open>
  The protocol of a resource: it is opened at most once, flushed only while it is held, and closed at
  most once, after it was opened or after opening it failed. The checkpoint store comes to the run
  open.
\<close>

datatype phase = Idle | Failed | Held | Closed | Broken

fun phase_step :: "resource \<Rightarrow> phase \<Rightarrow> life_event \<Rightarrow> phase" where
  "phase_step q p (Acquire r ok) = (if r \<noteq> q then p else if p = Idle then (if ok then Held else Failed) else Broken)"
| "phase_step q p (Flush r ok) = (if r \<noteq> q then p else if p = Held then Held else Broken)"
| "phase_step q p (Release r ok) = (if r \<noteq> q then p else if p = Held \<or> p = Failed then Closed else Broken)"
| "phase_step q p (RolledBack r) = (if r \<noteq> q then p else if p = Failed then Closed else Broken)"

definition phase_of :: "resource \<Rightarrow> 'e life \<Rightarrow> phase" where
  "phase_of q s = foldl (phase_step q) (if q = RStore then Held else Idle) (lf_trace s)"

lemma phase_adds: "adds ev s t \<Longrightarrow> phase_of q t = foldl (phase_step q) (phase_of q s) ev"
  by (simp add: adds_def phase_of_def)

lemma phase_starts:
  "distinct is \<Longrightarrow> foldl (phase_step q) p (starts is) =
     (if q \<in> RMiddleware ` set is then (if p = Idle then Held else Broken) else p)"
  by (induction "is" arbitrary: p) (auto simp: starts_def)

lemma phase_releases:
  "distinct is \<Longrightarrow> length oks = length is \<Longrightarrow> foldl (phase_step q) p (releases is oks) =
     (if q \<in> RMiddleware ` set is then (if p = Held \<or> p = Failed then Closed else Broken) else p)"
  by (induction "is" oks arbitrary: p rule: list_induct2') (auto simp: releases_def)

lemma phase_start_rollback:
  assumes "[0..<n] = a @ i # b" "length oks = Suc (length a)"
  shows "foldl (phase_step q) p (starts a @ Acquire (RMiddleware i) False # releases (i # rev a) oks) =
    (if q \<in> RMiddleware ` set (a @ [i]) then (if p = Idle then Closed else Broken) else p)"
proof -
  have "distinct (a @ i # b)" using assms(1) by (metis distinct_upt)
  then show ?thesis using assms(2) by (auto simp: phase_starts phase_releases)
qed

text \<open>
  The state between start-up and shutdown: the flags say what is held.
\<close>

definition expected :: "'e PipelineRuntimeSpec \<Rightarrow> 'e life \<Rightarrow> resource \<Rightarrow> phase set" where
  "expected P s q = (case q of
       RMiddleware i \<Rightarrow> if lf_middlewares_started s \<and> i < length (sp_stages P) then {Held} else {Idle, Closed}
     | RWriter \<Rightarrow> if lf_writer_opened s then {Held} else {Idle, Closed}
     | RDlq \<Rightarrow> if lf_dlq_opened s then {Held} else {Idle, Closed}
     | RSource \<Rightarrow> {Idle, Failed, Closed}
     | RStore \<Rightarrow> {Held})"

definition ready :: "'e PipelineRuntimeSpec \<Rightarrow> 'e life \<Rightarrow> bool" where
  "ready P s \<longleftrightarrow> (\<forall>q. phase_of q s \<in> expected P s q) \<and> (lf_dlq_opened s \<longrightarrow> sp_dlq P \<noteq> None)"

definition untouched :: "'e life \<Rightarrow> bool" where
  "untouched s \<longleftrightarrow> flags s = (False, False, False, False, None, False) \<and> lf_trace s = []"

lemma start_all_ready:
  assumes "start_all P s = (r, t)" "orderly P" "untouched s"
  shows "(r = Inr () \<longrightarrow> adds (starts [0..<length (sp_stages P)]) s t) \<and>
    (isl r \<longrightarrow> ready P t \<and> phase_of RSource t = Idle)"
proof -
  let ?is = "[0..<length (sp_stages P)]"
  have "\<forall>i\<in>set ?is. tame (sc_on_start (stage_at P i)) \<and> tame (sc_on_stop (stage_at P i))"
    using assms(2) by (auto simp: orderly_def stage_at_def)
  with start_from_adds [OF assms(1) [unfolded start_all_def]] consider
    "r = Inr ()" "adds (starts ?is) s t" |
    a i b oks where "?is = a @ i # b" "length oks = Suc (length a)" "isl r"
      "adds (starts a @ Acquire (RMiddleware i) False # releases (i # rev a) oks) s t" by auto
  then show ?thesis
  proof cases
    case 2
    have ph: "phase_of q s = (if q = RStore then Held else Idle)" for q
      using assms(3) by (simp add: untouched_def phase_of_def)
    have pt: "phase_of q t = (if q \<in> RMiddleware ` set (a @ [i]) then Closed else if q = RStore then Held else Idle)" for q
      using phase_start_rollback [OF 2(1,2), of q "phase_of q s"] phase_adds [OF 2(4), of q] ph [of q] by auto
    have "flags t = flags s" using 2(4) by (simp add: adds_def)
    then have "ready P t" using assms(3) pt
      by (auto simp: ready_def expected_def untouched_def flags_def split: resource.splits)
    with 2(3) pt show ?thesis by auto
  qed simp
qed

text \<open>Closing the sinks after a failed open.\<close>

lemma rollback_one_adds:
  assumes "rollback_one q c s = (r, t)" "tame_resource c"
  shows "r = Inr () \<and> (\<exists>ok. adds [Release q ok] s t \<or> adds [RolledBack q] s t)"
proof (cases "rc_open_rolled_back c (rs_env (lf_run s))")
  case True
  with assms(1) show ?thesis by (auto simp: rollback_one_def modify_def adds_def flags_def)
next
  case False
  with assms swallow_call [of _ _ s r t] show ?thesis
    unfolding rollback_one_def close_resource_def tame_resource_def by fastforce
qed

lemma rollback_one_released:
  "rollback_one q c s = (r, t) \<Longrightarrow> tame_resource c \<Longrightarrow> \<not> rc_open_rolled_back c (rs_env (lf_run s)) \<Longrightarrow>
     \<exists>ok. adds [Release q ok] s t"
  using swallow_call [of _ _ s r t]
  unfolding rollback_one_def close_resource_def tame_resource_def by fastforce

lemma call_env_after: "call f ev s = (r, t) \<Longrightarrow> rs_env (lf_run t) = snd (f (rs_env (lf_run s)))"
  by (auto simp: call_def split: prod.splits)

lemma call_result: "call f ev s = (r, t) \<Longrightarrow> fst (f (rs_env (lf_run s))) = r"
  by (auto simp: call_def split: prod.splits)

lemma rollback_one_keeps:
  assumes "rollback_one q c s = (r, t)" "keeps_open P (rc_close c)"
    and "\<not> rc_open_rolled_back (sp_writer P) (rs_env (lf_run s))"
  shows "\<not> rc_open_rolled_back (sp_writer P) (rs_env (lf_run t))"
proof (cases "rc_open_rolled_back c (rs_env (lf_run s))")
  case True
  with assms show ?thesis by (auto simp: rollback_one_def modify_def)
next
  case False
  obtain x u where c: "close_resource q c s = (x, u)" by (cases "close_resource q c s")
  then have "t = u" using assms(1) False
    by (auto simp: rollback_one_def swallow_def catch_def skip_def ret_def throw_def split: sum.splits if_splits)
  with call_env_after [OF c [unfolded close_resource_def]] assms(2,3) show ?thesis by (simp add: keeps_open_def)
qed

text \<open>What a failed open leaves behind: both sinks closed, or never touched.\<close>

definition undone :: "life_event list \<Rightarrow> bool" where
  "undone ev \<longleftrightarrow> (\<forall>q p. q \<notin> {RWriter, RDlq} \<longrightarrow> foldl (phase_step q) p ev = p) \<and>
     foldl (phase_step RWriter) Idle ev = Closed \<and> foldl (phase_step RDlq) Idle ev \<in> {Idle, Closed}"

lemma writer_open_failed:
  assumes "open_failed P False e u = (r, t)" "is_Exception e" "orderly P"
    and "adds [Acquire RWriter False] s u"
  shows "isl r \<and> (\<exists>ev. adds ev s t \<and> undone ev)"
proof -
  obtain y where rb: "rollback_one RWriter (sp_writer P) u = (y, t)" and r: "isl r"
    using assms(1,2) by (auto simp: open_failed_def rollback_open_failure_def bind_def throw_def skip_def ret_def
        split: option.splits prod.splits sum.splits)
  from rollback_one_adds [OF rb] assms(3) obtain ok where
    "adds [Release RWriter ok] u t \<or> adds [RolledBack RWriter] u t" by (auto simp: orderly_def)
  then have "adds [Acquire RWriter False, Release RWriter ok] s t \<or>
      adds [Acquire RWriter False, RolledBack RWriter] s t"
    using adds_trans [OF assms(4)] by fastforce
  with r show ?thesis by (auto simp: undone_def)
qed

lemma dlq_open_failed:
  assumes "open_failed P True e v = (r, t)" "is_Exception e" "orderly P" "sp_dlq P = Some q"
    and "adds [Acquire RWriter True, Acquire RDlq False] s v"
    and open_w: "\<not> rc_open_rolled_back (sp_writer P) (rs_env (lf_run v))"
  shows "isl r \<and> (\<exists>ev. adds ev s t \<and> undone ev)"
proof -
  have tame: "tame_resource q" "tame_resource (sp_writer P)" "keeps_open P (rc_close q)"
    using assms(3,4) by (simp_all add: orderly_def honest_writer_def)
  obtain x w where d: "rollback_one RDlq q v = (x, w)" by (cases "rollback_one RDlq q v")
  from rollback_one_adds [OF d tame(1)] obtain ok where
    x: "x = Inr ()" and dl: "adds [Release RDlq ok] v w \<or> adds [RolledBack RDlq] v w" by blast
  obtain y where wr: "rollback_one RWriter (sp_writer P) w = (y, t)" and r: "isl r"
    using assms(1,2,4) d x by (auto simp: open_failed_def rollback_open_failure_def bind_def throw_def
        split: prod.splits sum.splits)
  obtain ok' where "adds [Release RWriter ok'] w t"
    using rollback_one_released [OF wr tame(2) rollback_one_keeps [OF d tame(3) open_w]] by blast
  with dl adds_trans [OF assms(5)] have
    "adds ([Acquire RWriter True, Acquire RDlq False, Release RDlq ok, Release RWriter ok']) s t \<or>
     adds ([Acquire RWriter True, Acquire RDlq False, RolledBack RDlq, Release RWriter ok']) s t"
    by (auto dest: adds_trans)
  with r show ?thesis by (auto simp: undone_def)
qed

lemma open_sinks_adds:
  assumes "open_runtime_sinks P s = (r, t)" "orderly P"
  shows "(\<exists>d. r = Inr (True, d) \<and> (d \<longleftrightarrow> sp_dlq P \<noteq> None) \<and>
      adds (Acquire RWriter True # (if d then [Acquire RDlq True] else [])) s t) \<or>
    (isl r \<and> (\<exists>ev. adds ev s t \<and> undone ev))"
proof -
  obtain x u where w: "open_resource RWriter (sp_writer P) s = (x, u)" by (cases "open_resource RWriter (sp_writer P) s")
  have u: "adds [Acquire RWriter (\<not> isl x)] s u" using call_adds w unfolding open_resource_def by blast
  show ?thesis
  proof (cases x)
    case (Inl e)
    have "is_Exception e" using call_tame [of _ _ s e u] w Inl assms(2)
      unfolding open_resource_def orderly_def tame_resource_def by blast
    moreover have "open_failed P False e u = (r, t)" using assms(1) w Inl
      by (simp add: open_runtime_sinks_def bind_def attempt_def)
    ultimately show ?thesis using writer_open_failed assms(2) u Inl by fastforce
  next
    case (Inr y)
    show ?thesis
    proof (cases "sp_dlq P")
      case None
      with assms(1) w Inr u show ?thesis by (auto simp: open_runtime_sinks_def bind_def attempt_def ret_def)
    next
      case (Some q)
      obtain z v where d: "open_resource RDlq q u = (z, v)" by (cases "open_resource RDlq q u")
      have v: "adds [Acquire RDlq (\<not> isl z)] u v" using call_adds d unfolding open_resource_def by blast
      show ?thesis
      proof (cases z)
        case (Inr k)
        with assms(1) w d \<open>x = Inr y\<close> Some u v adds_trans [OF u v] show ?thesis
          by (intro disjI1 exI [of _ True]) (simp add: open_runtime_sinks_def bind_def attempt_def ret_def)
      next
        case (Inl e)
        have "is_Exception e" using call_tame [of _ _ u e v] d Inl assms(2) Some
          unfolding open_resource_def orderly_def tame_resource_def by auto
        moreover have "open_failed P True e v = (r, t)" using assms(1) w d \<open>x = Inr y\<close> Inl Some
          by (simp add: open_runtime_sinks_def bind_def attempt_def)
        moreover have "\<not> rc_open_rolled_back (sp_writer P) (rs_env (lf_run v))"
        proof -
          have "honest_writer P" using assms(2) by (simp add: orderly_def)
          moreover have "fst (rc_open (sp_writer P) (rs_env (lf_run s))) = Inr ()"
            using call_result [OF w [unfolded open_resource_def]] \<open>x = Inr y\<close> by simp
          ultimately show ?thesis
            using Some call_env_after [OF w [unfolded open_resource_def]] call_env_after [OF d [unfolded open_resource_def]]
            by (simp add: honest_writer_def keeps_open_def)
        qed
        ultimately show ?thesis
          using dlq_open_failed [OF _ _ assms(2) Some, of e v r t s] adds_trans [OF u v] \<open>x = Inr y\<close> Inl by auto
      qed
    qed
  qed
qed

section \<open>Between start-up and shutdown\<close>

definition hold_flags :: "'e life \<Rightarrow> bool \<times> bool \<times> bool" where
  "hold_flags s = (lf_middlewares_started s, lf_writer_opened s, lf_dlq_opened s)"

lemma ready_phases:
  assumes "ready P s" "hold_flags t = hold_flags s" "\<And>q. q \<noteq> RSource \<Longrightarrow> phase_of q t = phase_of q s"
    and "phase_of RSource t \<in> {Idle, Failed, Closed}"
  shows "ready P t"
proof -
  have fl: "lf_middlewares_started t = lf_middlewares_started s" "lf_writer_opened t = lf_writer_opened s"
    "lf_dlq_opened t = lf_dlq_opened s" using assms(2) by (simp_all add: hold_flags_def)
  then have "expected P t = expected P s" by (intro ext) (simp only: expected_def)
  moreover have "phase_of q t \<in> expected P s q" for q
    using assms by (cases "q = RSource") (auto simp: ready_def expected_def)
  ultimately show ?thesis using assms(1) fl by (simp add: ready_def)
qed

lemma ready_keep: "ready P s \<Longrightarrow> hold_flags t = hold_flags s \<Longrightarrow> lf_trace t = lf_trace s \<Longrightarrow> ready P t"
  by (rule ready_phases) (auto simp: phase_of_def ready_def expected_def dest: spec [of _ RSource])

lemma start_runtime_ready:
  assumes run: "start_runtime P s = (r, t)" and ord: "orderly P" and un: "untouched s"
  shows "ready P t \<and> phase_of RSource t = Idle"
proof -
  let ?n = "length (sp_stages P)"
  obtain x u where st: "start_all P s = (x, u)" by (cases "start_all P s")
  note started = start_all_ready [OF st ord un]
  show ?thesis
  proof (cases x)
    case (Inl e)
    then have "t = u" using run st by (simp add: start_runtime_def bind_def)
    with started Inl show ?thesis by simp
  next
    case (Inr y)
    with started have add: "adds (starts [0..<?n]) s u" by simp
    define u' where "u' = u\<lparr>lf_middlewares_started := True\<rparr>"
    have "phase_of q u' = phase_of q u" for q by (simp add: u'_def phase_of_def)
    then have ph: "phase_of q u' = (if q \<in> RMiddleware ` {0..<?n} then Held else if q = RStore then Held else Idle)" for q
      using phase_adds [OF add, of q] un by (auto simp: phase_of_def phase_starts untouched_def)
    have fl: "flags u' = (True, False, False, False, None, False)"
      using add un by (simp add: u'_def adds_def untouched_def flags_def)
    obtain z w where op: "open_runtime_sinks P u' = (z, w)" by (cases "open_runtime_sinks P u'")
    from open_sinks_adds [OF op ord] show ?thesis
    proof (elim disjE conjE exE)
      fix d
      assume z: "z = Inr (True, d)" "d \<longleftrightarrow> sp_dlq P \<noteq> None"
        and ad: "adds (Acquire RWriter True # (if d then [Acquire RDlq True] else [])) u' w"
      have t: "t = w\<lparr>lf_writer_opened := True, lf_dlq_opened := d\<rparr>"
        using run st Inr op z by (simp add: start_runtime_def bind_def modify_def u'_def)
      then have "phase_of q t = phase_of q w" for q by (simp add: phase_of_def)
      then have "phase_of q t = (if q = RWriter \<or> q = RDlq \<and> d then Held else phase_of q u')" for q
        using phase_adds [OF ad, of q] ph [of q] by auto
      moreover have "flags t = (True, True, d, False, None, False)"
        using ad fl t by (simp add: adds_def flags_def)
      ultimately show ?thesis using z(2) ph
        by (auto simp: ready_def expected_def flags_def split: resource.splits)
    next
      fix ev
      assume z: "isl z" and ad: "adds ev u' w" and und: "undone ev"
      have t: "t = w" using run st Inr op z by (auto simp: start_runtime_def bind_def modify_def u'_def split: sum.splits)
      have "phase_of q t = (if q = RWriter then Closed else if q = RDlq then foldl (phase_step RDlq) Idle ev else phase_of q u')" for q
        using phase_adds [OF ad, of q] ph [of RWriter] ph [of RDlq] und t by (auto simp: undone_def)
      moreover have "flags t = (True, False, False, False, None, False)" using ad fl t by (simp add: adds_def)
      ultimately show ?thesis using ph und
        by (auto simp: ready_def expected_def flags_def undone_def split: resource.splits)
    qed
  qed
qed

text \<open>A part of the state that an operation leaves alone, along the structure of the operation.\<close>

definition keeps :: "('e life \<Rightarrow> 'b) \<Rightarrow> ('e, 'a) lrun \<Rightarrow> bool" where
  "keeps f m \<longleftrightarrow> (\<forall>s r t. m s = (r, t) \<longrightarrow> f t = f s)"

lemma keepsD: "keeps f m \<Longrightarrow> m s = (r, t) \<Longrightarrow> f t = f s"
  by (simp add: keeps_def)

lemma keeps_ret: "keeps f (ret x)" and keeps_skip: "keeps f skip" and keeps_get: "keeps f get_state"
  and keeps_throw: "keeps f (throw e)"
  by (simp_all add: keeps_def ret_def skip_def get_state_def throw_def)

lemma keeps_bind: "keeps f m \<Longrightarrow> (\<And>x. keeps f (k x)) \<Longrightarrow> keeps f (bind m k)"
  by (fastforce simp: keeps_def bind_def split: prod.splits sum.splits)

lemma keeps_attempt: "keeps f m \<Longrightarrow> keeps f (attempt m)"
  by (auto simp: keeps_def attempt_def split: prod.splits)

lemma keeps_swallow: "keeps f m \<Longrightarrow> keeps f (swallow m)"
  by (fastforce simp: keeps_def swallow_def catch_def skip_def ret_def throw_def
      split: prod.splits sum.splits if_splits)

lemma keeps_if: "keeps f m \<Longrightarrow> keeps f n \<Longrightarrow> keeps f (if b then m else n)"
  by simp

lemma keeps_option: "keeps f m \<Longrightarrow> (\<And>x. keeps f (k x)) \<Longrightarrow> keeps f (case v of None \<Rightarrow> m | Some x \<Rightarrow> k x)"
  by (cases v) auto

lemma keeps_sum: "(\<And>x. keeps f (h x)) \<Longrightarrow> (\<And>x. keeps f (k x)) \<Longrightarrow> keeps f (case v of Inl x \<Rightarrow> h x | Inr x \<Rightarrow> k x)"
  by (cases v) auto

lemma keeps_prod: "(\<And>a b. keeps f (k a b)) \<Longrightarrow> keeps f (case p of (a, b) \<Rightarrow> k a b)"
  by (cases p) auto

lemma keeps_for_each: "(\<And>x. keeps f (k x)) \<Longrightarrow> keeps f (for_each xs k)"
  by (induction xs) (auto intro: keeps_bind keeps_ret)

lemmas keeps_rules = keeps_ret keeps_skip keeps_get keeps_throw keeps_bind keeps_attempt keeps_swallow keeps_if
  keeps_option keeps_sum keeps_prod keeps_for_each

text \<open>Operations that call nothing that is opened or closed, and set no flag.\<close>

abbreviation quiet :: "('e, 'a) lrun \<Rightarrow> bool" where
  "quiet m \<equiv> keeps (\<lambda>s. (flags s, lf_trace s)) m"

lemma quiet_in_run: "quiet (in_run m)"
  by (auto simp: keeps_def in_run_def flags_def split: prod.splits)

lemma quiet_call: "quiet (call f (\<lambda>_. []))"
  by (auto simp: keeps_def call_def flags_def split: prod.splits)

lemma quietD: "quiet m \<Longrightarrow> m s = (r, t) \<Longrightarrow> adds [] s t"
  by (drule (1) keepsD) (simp add: adds_def)

text \<open>How the run ended is recorded by the handlers alone.\<close>

definition ending :: "'e life \<Rightarrow> bool \<times> exn option" where
  "ending s = (lf_interrupted s, lf_run_error s)"

lemma ending_in_run: "keeps ending (in_run m)"
  by (auto simp: keeps_def in_run_def ending_def split: prod.splits)

lemma ending_call: "keeps ending (call f ev)"
  by (auto simp: keeps_def call_def ending_def split: prod.splits)

lemma ending_modify: "(\<And>s. ending (f s) = ending s) \<Longrightarrow> keeps ending (modify f)"
  by (simp add: keeps_def modify_def)

lemmas ending_rules = keeps_rules ending_in_run ending_call ending_modify

lemma live_callback_returns: "tame f \<Longrightarrow> live_callback f s = (r, t) \<Longrightarrow> r = Inr () \<and> adds [] s t"
  using swallow_call [of f "\<lambda>_. []" s r t] by (simp add: live_callback_def)

lemma callbacks_return: "tame f \<Longrightarrow> for_each ks (\<lambda>_. live_callback f) s = (r, t) \<Longrightarrow> r = Inr () \<and> adds [] s t"
proof (induction ks arbitrary: s)
  case (Cons k ks)
  obtain x u where "live_callback f s = (x, u)" by (cases "live_callback f s")
  with Cons live_callback_returns [OF Cons.prems(1) this] show ?case
    by (fastforce simp: bind_def dest: adds_trans)
qed (simp add: ret_def)

lemma await_returns: "orderly P \<Longrightarrow> await_live_metrics P s = (r, t) \<Longrightarrow> r = Inr () \<and> adds [] s t"
  by (auto simp: await_live_metrics_def bind_def get_state_def skip_def ret_def orderly_def
      dest: callbacks_return split: option.splits if_splits)

lemma start_live_returns:
  assumes "orderly P" "start_live_metrics P s = (r, t)"
  shows "r = Inr () \<and> hold_flags t = hold_flags s \<and> lf_trace t = lf_trace s"
proof (cases "sp_live_metrics_callback P")
  case (Some f)
  obtain x u where c: "live_callback f s = (x, u)" by (cases "live_callback f s")
  with assms Some live_callback_returns [OF _ c] show ?thesis
    by (auto simp: start_live_metrics_def bind_def modify_def orderly_def adds_def flags_def hold_flags_def)
qed (use assms in \<open>simp add: start_live_metrics_def skip_def ret_def\<close>)

lemma run_stream_adds:
  "run_stream P s = (r, t) \<Longrightarrow> adds [Acquire RSource False] s t \<or>
     (\<exists>ok. adds [Acquire RSource True, Release RSource ok] s t)"
proof -
  assume run: "run_stream P s = (r, t)"
  obtain x u where o: "call (sp_source_open P) (\<lambda>ok. [Acquire RSource ok]) s = (x, u)"
    by (cases "call (sp_source_open P) (\<lambda>ok. [Acquire RSource ok]) s")
  obtain y v where m: "in_run (sp_execution_run P) u = (y, v)" by (cases "in_run (sp_execution_run P) u")
  obtain z w where c: "call (sp_source_close P) (\<lambda>ok. [Release RSource ok]) v = (z, w)"
    by (cases "call (sp_source_close P) (\<lambda>ok. [Release RSource ok]) v")
  have "(isl x \<longrightarrow> t = u) \<and> (\<not> isl x \<longrightarrow> t = w)" using run o m c
    by (auto simp: run_stream_def bind_def attempt_def throw_def skip_def ret_def split: sum.splits if_splits)
  moreover have "adds ([Acquire RSource (\<not> isl x)] @ [] @ [Release RSource (\<not> isl z)]) s w"
    using adds_trans [OF call_adds [OF o] adds_trans [OF in_run_adds [OF m] call_adds [OF c]]] by simp
  ultimately show ?thesis using call_adds [OF o] by (cases "isl x") auto
qed

lemma run_body_ready:
  assumes "run_body P s = (r, t)" "orderly P" "untouched s"
  shows "ready P t"
proof -
  obtain x u where st: "start_runtime P s = (x, u)" by (cases "start_runtime P s")
  note ru = start_runtime_ready [OF st assms(2,3)]
  show ?thesis
  proof (cases x)
    case (Inl e)
    then show ?thesis using assms(1) st ru by (simp add: run_body_def bind_def)
  next
    case (Inr y)
    obtain z v where lv: "start_live_metrics P u = (z, v)" by (cases "start_live_metrics P u")
    note v = start_live_returns [OF assms(2) lv]
    have rv: "ready P v" using ready_keep ru v by blast
    have "run_stream P v = (r, t)" using assms(1) st Inr lv v by (simp add: run_body_def bind_def)
    then obtain ev where ev: "adds ev v t" "ev = [Acquire RSource False] \<or> (\<exists>ok. ev = [Acquire RSource True, Release RSource ok])"
      using run_stream_adds by metis
    have "phase_of RSource v = Idle" using ru v by (simp add: phase_of_def)
    then show ?thesis using phase_adds [OF ev(1)] ev
      by (intro ready_phases [OF rv]) (auto simp: adds_def flags_def hold_flags_def)
  qed
qed

section \<open>The handlers\<close>

text \<open>What \<open>handle_run_error\<close> leaves in the state of the run.\<close>

lemma handle_run_error_keeps:
  assumes "handle_run_error P e s = (r, t)"
  shows "hold_flags t = hold_flags s \<and> lf_trace t = lf_trace s \<and>
    (if isinstance e KeyboardInterruptC then lf_interrupted t \<and> lf_run_error t = lf_run_error s \<and> r = Inr ()
     else lf_run_error t = Some e)"
proof (cases "isinstance e KeyboardInterruptC")
  case True
  with assms show ?thesis by (auto simp: handle_run_error_def modify_def hold_flags_def)
next
  case False
  have "\<exists>m. handle_run_error P e = bind (modify (\<lambda>s. s\<lparr>lf_run_error := Some e\<rparr>)) (\<lambda>_. m) \<and> quiet m"
    unfolding handle_run_error_def if_not_P [OF False]
    by (rule exI, rule conjI, rule refl)
      (rule keeps_rules quiet_in_run)+
  then obtain m where m: "handle_run_error P e = bind (modify (\<lambda>s. s\<lparr>lf_run_error := Some e\<rparr>)) (\<lambda>_. m)" "quiet m"
    by blast
  then have "adds [] (s\<lparr>lf_run_error := Some e\<rparr>) t"
    using assms by (auto simp: bind_def modify_def intro: quietD)
  with False show ?thesis by (simp add: adds_def flags_def hold_flags_def)
qed

definition handled :: "exn \<Rightarrow> bool" where
  "handled e \<longleftrightarrow> isinstance e CancelledErrorC \<or> isinstance e KeyboardInterruptC \<or> is_Exception e"

lemma handle_body_keeps:
  assumes "handle_body P b s = (r, t)"
  shows "hold_flags t = hold_flags s \<and> lf_trace t = lf_trace s"
proof (cases b)
  case (Inl e)
  obtain x u where "handle_run_error P e s = (x, u)" by (cases "handle_run_error P e s")
  with handle_run_error_keeps [OF this] assms Inl show ?thesis
    by (auto simp: handle_body_def bind_def modify_def ret_def throw_def hold_flags_def split: if_splits sum.splits)
qed (use assms in \<open>simp add: handle_body_def ret_def\<close>)

section \<open>Shutdown\<close>

lemma capture_adds:
  assumes "capture m first s = (r, t)" "\<And>x u. m s = (x, u) \<Longrightarrow> (\<forall>e. x = Inl e \<longrightarrow> is_Exception e) \<and> adds ev s u"
  shows "\<exists>x. r = Inr x \<and> adds ev s t"
proof -
  obtain x u where "m s = (x, u)" by (cases "m s")
  with assms(1) assms(2) [OF this] show ?thesis
    by (auto simp: capture_def bind_def attempt_def ret_def split: sum.splits)
qed

lemma capture_call:
  assumes "capture (call f ev) first s = (r, t)" "tame f"
  shows "\<exists>x ok. r = Inr x \<and> adds (ev ok) s t"
proof -
  obtain x u where c: "call f ev s = (x, u)" by (cases "call f ev s")
  with call_tame [OF _ assms(2)] call_adds [OF c] capture_adds [OF assms(1), of "ev (\<not> isl x)"] show ?thesis
    by fastforce
qed

lemma fence_error_is_Exception: "is_Exception (FenceLostError D)"
  by (simp add: FenceLostError_def mk_pipeline_error_def is_Exception_def isinstance_def)

lemma fence_raises_exceptions:
  assumes "in_run (assert_run_fence_active D) s = (Inl e, t)" "pred_option tame (de_fence D)"
  shows "is_Exception e"
proof (cases "de_fence D")
  case None
  with assms(1) show ?thesis by (simp add: in_run_def assert_run_fence_active_def skip_def ret_def)
next
  case (Some validate)
  obtain x u where v: "validate (rs_env (lf_run s)) = (x, u)" by (cases "validate (rs_env (lf_run s))")
  then have "x = Inl e \<or> e = FenceLostError D" using assms(1) Some
    by (auto simp: in_run_def assert_run_fence_active_def bind_def call_env_def throw_def skip_def ret_def
        split: sum.splits if_splits)
  then show ?thesis using v assms(2) Some fence_error_is_Exception by (auto simp: tame_def) (metis fst_conv)
qed

lemma transport_flush_adds:
  assumes "transport_flush P s = (r, t)" "orderly P"
  shows "(\<forall>e. r = Inl e \<longrightarrow> is_Exception e) \<and> (\<exists>fl ok. adds (if fl then [Flush RWriter ok] else []) s t)"
proof -
  have ord: "pred_option tame (de_fence (sp_engine P))" "tame (rc_flush (sp_writer P))"
    using assms(2) by (simp_all add: orderly_def tame_resource_def)
  obtain x u where f: "in_run (assert_run_fence_active (sp_engine P)) s = (x, u)"
    by (cases "in_run (assert_run_fence_active (sp_engine P)) s")
  show ?thesis
  proof (cases x)
    case (Inl e)
    with assms(1) f fence_raises_exceptions [OF _ ord(1)] in_run_adds [OF f] show ?thesis
      by (auto simp: transport_flush_def bind_def intro: exI [of _ False])
  next
    case (Inr y)
    then have c: "call (rc_flush (sp_writer P)) (\<lambda>ok. [Flush RWriter ok]) u = (r, t)"
      using assms(1) f by (simp add: transport_flush_def bind_def flush_resource_def)
    with call_tame [OF _ ord(2)] adds_trans [OF in_run_adds [OF f] call_adds [OF c]] show ?thesis
      by (intro conjI allI impI exI [of _ True] exI [of _ "\<not> isl r"]) auto
  qed
qed

text \<open>The four steps of the shutdown, in its order, and the calls each makes.\<close>

definition stops_trace :: "'e PipelineRuntimeSpec \<Rightarrow> 'e life \<Rightarrow> life_event list \<Rightarrow> bool" where
  "stops_trace P s ev \<longleftrightarrow>
     (let stages = rev [0..<length (sp_stages P)] in
        if lf_middlewares_started s then \<exists>oks. length oks = length stages \<and> ev = releases stages oks else ev = [])"

definition sink_trace :: "bool \<Rightarrow> resource \<Rightarrow> life_event list \<Rightarrow> bool" where
  "sink_trace opened q ev \<longleftrightarrow>
     (if opened then \<exists>fl ok ok'. ev = (if fl then [Flush q ok] else []) @ [Release q ok'] else ev = [])"

definition store_trace :: "'e PipelineRuntimeSpec \<Rightarrow> life_event list \<Rightarrow> bool" where
  "store_trace P ev \<longleftrightarrow> (if sp_checkpoint P = None then ev = [] else \<exists>ok. ev = [Release RStore ok])"

lemma stop_all_step:
  assumes "(if lf_middlewares_started s then capture (stop_all P) None else ret None) s = (r, t)" "orderly P"
  shows "\<exists>x ev. r = Inr x \<and> adds ev s t \<and> stops_trace P s ev"
proof (cases "lf_middlewares_started s")
  case True
  let ?is = "rev [0..<length (sp_stages P)]"
  obtain y u where st: "stop_all P s = (y, u)" by (cases "stop_all P s")
  have "\<forall>i\<in>set ?is. tame (sc_on_stop (stage_at P i))" using assms(2) by (auto simp: orderly_def stage_at_def)
  from stops_add [OF st [unfolded stop_all_def] this] obtain oks where
    "y = Inr ()" "length oks = length ?is" "adds (releases ?is oks) s u" by blast
  with assms(1) True st show ?thesis
    by (auto simp: capture_def bind_def attempt_def ret_def stops_trace_def Let_def)
next
  case False
  with assms(1) show ?thesis by (auto simp: ret_def stops_trace_def)
qed

lemma dlq_step:
  assumes "(case sp_dlq P of
      Some q \<Rightarrow>
        if opened then bind (capture (flush_resource RDlq q) first) (capture (close_resource RDlq q)) else ret first
    | None \<Rightarrow> ret first) s = (r, t)" "orderly P" "opened \<Longrightarrow> sp_dlq P \<noteq> None"
  shows "\<exists>x ev. r = Inr x \<and> adds ev s t \<and> sink_trace opened RDlq ev"
proof (cases opened)
  case True
  then obtain q where q: "sp_dlq P = Some q" "tame (rc_flush q)" "tame (rc_close q)"
    using assms(2,3) by (auto simp: orderly_def tame_resource_def)
  obtain y u where f: "capture (flush_resource RDlq q) first s = (y, u)" by (cases "capture (flush_resource RDlq q) first s")
  from capture_call [OF f [unfolded flush_resource_def] q(2)] obtain x ok where
    y: "y = Inr x" "adds [Flush RDlq ok] s u" by blast
  with assms(1) True q(1) f have c: "capture (close_resource RDlq q) x u = (r, t)" by (simp add: bind_def)
  from capture_call [OF c [unfolded close_resource_def] q(3)] adds_trans [OF y(2)] show ?thesis
    by (fastforce simp: sink_trace_def True intro: exI [of _ True])
qed (use assms(1) in \<open>auto simp: ret_def sink_trace_def split: option.splits\<close>)

lemma writer_step:
  assumes "(if opened then bind (capture (transport_flush P) first) (capture (close_resource RWriter (sp_writer P)))
            else ret first) s = (r, t)" "orderly P"
  shows "\<exists>x ev. r = Inr x \<and> adds ev s t \<and> sink_trace opened RWriter ev"
proof (cases opened)
  case True
  obtain y u where f: "capture (transport_flush P) first s = (y, u)" by (cases "capture (transport_flush P) first s")
  obtain z v where tf: "transport_flush P s = (z, v)" by (cases "transport_flush P s")
  obtain fl ok where ad: "adds (if fl then [Flush RWriter ok] else []) s v" "\<forall>e. z = Inl e \<longrightarrow> is_Exception e"
    using transport_flush_adds [OF tf assms(2)] by blast
  have "\<exists>x. y = Inr x \<and> adds (if fl then [Flush RWriter ok] else []) s u"
    by (rule capture_adds [OF f]) (use ad tf in auto)
  then obtain x where y: "y = Inr x" "adds (if fl then [Flush RWriter ok] else []) s u" by blast
  with assms(1) True f have c: "capture (close_resource RWriter (sp_writer P)) x u = (r, t)" by (simp add: bind_def)
  have "tame (rc_close (sp_writer P))" using assms(2) by (simp add: orderly_def tame_resource_def)
  from capture_call [OF c [unfolded close_resource_def] this] obtain x' ok' where
    "r = Inr x'" "adds [Release RWriter ok'] u t" by blast
  with adds_trans [OF y(2) this(2)] True show ?thesis
    by (intro exI [of _ x'] exI [of _ "(if fl then [Flush RWriter ok] else []) @ [Release RWriter ok']"])
      (auto simp: sink_trace_def intro: exI [of _ False] exI [of _ True])
qed (use assms(1) in \<open>auto simp: ret_def sink_trace_def\<close>)

lemma store_step:
  assumes "(case sp_checkpoint P of
      Some store \<Rightarrow> capture (call (st_close store) (\<lambda>ok. [Release RStore ok])) first
    | None \<Rightarrow> ret first) s = (r, t)" "orderly P"
  shows "\<exists>x ev. r = Inr x \<and> adds ev s t \<and> store_trace P ev"
proof (cases "sp_checkpoint P")
  case (Some store)
  with assms capture_call [of "st_close store" "\<lambda>ok. [Release RStore ok]" first s r t] show ?thesis
    by (fastforce simp: orderly_def store_trace_def)
qed (use assms in \<open>auto simp: ret_def store_trace_def\<close>)

lemma start_from_ending: "keeps ending (start_from P is started)"
  by (induction P "is" started rule: start_from.induct)
    (auto simp: on_start_def on_stop_def rollback_started_middlewares_def intro!: ending_rules split: sum.splits)

lemma run_body_ending: "keeps ending (run_body P)"
  unfolding run_body_def start_runtime_def start_all_def open_runtime_sinks_def open_failed_def
    rollback_open_failure_def rollback_one_def open_resource_def close_resource_def
    start_live_metrics_def live_callback_def run_stream_def
  by (rule start_from_ending ending_rules | simp add: ending_def)+

lemma restore_quiet: "quiet (restore_checkpoint P)"
  unfolding restore_checkpoint_def by (rule keeps_rules quiet_in_run quiet_call)+

lemma bind_step: "m s = (Inr x, u) \<Longrightarrow> bind m k s = k x u"
  by (simp add: bind_def)

lemma shutdown_adds:
  assumes "shutdown_runtime_components P s = (r, t)" "orderly P" "ready P s"
  shows "\<exists>x a b c d. r = Inr (if lf_interrupted s \<or> lf_run_error s \<noteq> None then None else x) \<and>
    adds (a @ b @ c @ d) s t \<and> stops_trace P s a \<and> sink_trace (lf_dlq_opened s) RDlq b \<and>
    sink_trace (lf_writer_opened s) RWriter c \<and> store_trace P d"
proof -
  obtain x1 u1 where 1: "(if lf_middlewares_started s then capture (stop_all P) None else ret None) s = (x1, u1)" by fastforce
  then obtain f1 a where a: "x1 = Inr f1" "adds a s u1" "stops_trace P s a" using stop_all_step assms(2) by blast
  obtain x2 u2 where 2: "(case sp_dlq P of
      Some q \<Rightarrow> if lf_dlq_opened s
        then bind (capture (flush_resource RDlq q) f1) (capture (close_resource RDlq q)) else ret f1
    | None \<Rightarrow> ret f1) u1 = (x2, u2)" by fastforce
  then obtain f2 b where b: "x2 = Inr f2" "adds b u1 u2" "sink_trace (lf_dlq_opened s) RDlq b"
    using dlq_step assms(2,3) unfolding ready_def by blast
  obtain x3 u3 where 3: "(if lf_writer_opened s
      then bind (capture (transport_flush P) f2) (capture (close_resource RWriter (sp_writer P)))
      else ret f2) u2 = (x3, u3)" by fastforce
  then obtain f3 c where c: "x3 = Inr f3" "adds c u2 u3" "sink_trace (lf_writer_opened s) RWriter c"
    using writer_step assms(2) by blast
  obtain x4 u4 where 4: "(case sp_checkpoint P of
      Some store \<Rightarrow> capture (call (st_close store) (\<lambda>ok. [Release RStore ok])) f3
    | None \<Rightarrow> ret f3) u3 = (x4, u4)" by fastforce
  then obtain f4 d where d: "x4 = Inr f4" "adds d u3 u4" "store_trace P d" using store_step assms(2) by blast
  have all: "adds (a @ b @ c @ d) s u4" using a(2) b(2) c(2) d(2) by (auto intro: adds_trans)
  have get: "get_state v = (Inr v, v)" for v :: "'e life" by (simp add: get_state_def)
  have "shutdown_runtime_components P s = ret (if lf_interrupted u4 \<or> lf_run_error u4 \<noteq> None then None else f4) u4"
    unfolding shutdown_runtime_components_def
    by (rule trans [OF bind_step], rule get, rule trans [OF bind_step], rule 1 [unfolded a(1)],
        rule trans [OF bind_step], rule 2 [unfolded b(1)], rule trans [OF bind_step], rule 3 [unfolded c(1)],
        rule trans [OF bind_step], rule 4 [unfolded d(1)], rule bind_step, rule get)
  then have "r = Inr (if lf_interrupted u4 \<or> lf_run_error u4 \<noteq> None then None else f4) \<and> t = u4"
    using assms(1) by (simp add: ret_def)
  moreover have "lf_interrupted u4 = lf_interrupted s" "lf_run_error u4 = lf_run_error s"
    using all by (simp_all add: adds_def flags_def)
  ultimately show ?thesis using all a(3) b(3) c(3) d(3)
    by (intro exI [of _ f4] exI [of _ a] exI [of _ b] exI [of _ c] exI [of _ d] conjI) simp_all
qed

text \<open>The phases in which a run leaves its resources.\<close>

definition at_rest :: "'e PipelineRuntimeSpec \<Rightarrow> resource \<Rightarrow> phase set" where
  "at_rest P q = (case q of
       RSource \<Rightarrow> {Idle, Failed, Closed}
     | RStore \<Rightarrow> if sp_checkpoint P = None then {Held} else {Closed}
     | _ \<Rightarrow> {Idle, Closed})"

lemma stops_phase:
  "stops_trace P s ev \<Longrightarrow> foldl (phase_step q) p ev =
     (if lf_middlewares_started s \<and> q \<in> RMiddleware ` {0..<length (sp_stages P)}
      then (if p = Held \<or> p = Failed then Closed else Broken) else p)"
  by (auto simp: stops_trace_def Let_def phase_releases split: if_splits)

lemma sink_phase:
  "sink_trace opened r ev \<Longrightarrow> (q = r \<Longrightarrow> opened \<Longrightarrow> p = Held) \<Longrightarrow>
     foldl (phase_step q) p ev = (if opened \<and> q = r then Closed else p)"
  by (auto simp: sink_trace_def split: if_splits)

lemma store_phase:
  "store_trace P ev \<Longrightarrow> (q = RStore \<Longrightarrow> p = Held) \<Longrightarrow>
     foldl (phase_step q) p ev = (if sp_checkpoint P \<noteq> None \<and> q = RStore then Closed else p)"
  by (auto simp: store_trace_def split: if_splits)

lemma shutdown_releases:
  assumes "shutdown_runtime_components P s = (r, t)" "orderly P" "ready P s"
  shows "phase_of q t \<in> at_rest P q"
proof -
  from shutdown_adds [OF assms] obtain a b c d where tr: "adds (a @ b @ c @ d) s t" "stops_trace P s a"
    "sink_trace (lf_dlq_opened s) RDlq b" "sink_trace (lf_writer_opened s) RWriter c" "store_trace P d" by blast
  have q: "phase_of q s \<in> expected P s q" using assms(3) by (simp add: ready_def)
  have stops: "foldl (phase_step q) (phase_of q s) a =
      (if lf_middlewares_started s \<and> q \<in> RMiddleware ` {0..<length (sp_stages P)} then Closed else phase_of q s)"
    using q by (auto simp: stops_phase [OF tr(2)] expected_def)
  let ?p = "foldl (phase_step q) (phase_of q s) a"
  have held: "q = RDlq \<Longrightarrow> lf_dlq_opened s \<Longrightarrow> ?p = Held" "q = RWriter \<Longrightarrow> lf_writer_opened s \<Longrightarrow> ?p = Held"
    "q = RStore \<Longrightarrow> ?p = Held" using stops q by (auto simp: expected_def)
  have p2: "foldl (phase_step q) ?p b = (if lf_dlq_opened s \<and> q = RDlq then Closed else ?p)"
    by (rule sink_phase [OF tr(3)]) (use held in simp)
  let ?p2 = "if lf_dlq_opened s \<and> q = RDlq then Closed else ?p"
  have p3: "foldl (phase_step q) ?p2 c = (if lf_writer_opened s \<and> q = RWriter then Closed else ?p2)"
    by (rule sink_phase [OF tr(4)]) (use held in simp)
  let ?p3 = "if lf_writer_opened s \<and> q = RWriter then Closed else ?p2"
  have p4: "foldl (phase_step q) ?p3 d = (if sp_checkpoint P \<noteq> None \<and> q = RStore then Closed else ?p3)"
    by (rule store_phase [OF tr(5)]) (use held in simp)
  have "phase_of q t = foldl (phase_step q) (foldl (phase_step q) (foldl (phase_step q) ?p b) c) d"
    using phase_adds [OF tr(1)] by simp
  then have "phase_of q t = (if sp_checkpoint P \<noteq> None \<and> q = RStore then Closed else ?p3)"
    by (simp only: p2 p3 p4)
  then show ?thesis using stops q by (cases q) (auto simp: expected_def at_rest_def split: if_splits)
qed

section \<open>The whole run\<close>

definition outcome :: "'e PipelineRuntimeSpec \<Rightarrow> exn + exn option \<Rightarrow> exn option \<Rightarrow> 'e life \<Rightarrow> exn + Metrics" where
  "outcome P h shutdown_error t = (case h of
       Inl e \<Rightarrow> Inl e
     | Inr (Some c) \<Rightarrow> Inl c
     | Inr None \<Rightarrow> (case lf_run_error t of
           Some e \<Rightarrow> Inl (terminal_error (sp_engine P) e)
         | None \<Rightarrow> (case shutdown_error of Some e \<Rightarrow> Inl e | None \<Rightarrow> Inr (rs_metrics (lf_run t)))))"

lemma execute_steps:
  assumes run: "execute P s = (r, t)" and rest: "restore_checkpoint P s = (Inr (), s1)" and ord: "orderly P"
    and un: "untouched s"
  obtains b s2 h s3 s4 x where "run_body P s1 = (b, s2)" "handle_body P b s2 = (h, s3)" "adds [] s3 s4"
    "ready P s4" "shutdown_runtime_components P s4 = (Inr x, t)" "r = outcome P h x t"
proof -
  have un1: "untouched s1" using keepsD [OF restore_quiet rest] un by (simp add: untouched_def)
  obtain b s2 where b: "run_body P s1 = (b, s2)" by fastforce
  obtain h s3 where h: "handle_body P b s2 = (h, s3)" by fastforce
  obtain y s4 where a: "await_live_metrics P s3 = (y, s4)" by fastforce
  note aw = await_returns [OF ord a]
  have r4: "ready P s4"
    by (rule ready_keep [OF run_body_ready [OF b ord un1]])
      (use handle_body_keeps [OF h] aw in \<open>simp_all add: adds_def flags_def hold_flags_def\<close>)
  obtain z u where sh: "shutdown_runtime_components P s4 = (z, u)" by fastforce
  with shutdown_adds [OF sh ord r4] obtain x where z: "z = Inr x" by blast
  have "execute P s = (case h of
         Inl e \<Rightarrow> throw e
       | Inr (Some cancelled) \<Rightarrow> throw cancelled
       | Inr None \<Rightarrow> bind (raise_terminal_error P x) (\<lambda>_. bind get_state (\<lambda>s. ret (rs_metrics (lf_run s))))) u"
    unfolding execute_def
    by (rule trans [OF bind_step], rule rest, rule trans [OF bind_step], simp add: attempt_def b,
        rule trans [OF bind_step], simp add: attempt_def h, rule trans [OF bind_step], simp add: a aw,
        rule bind_step, simp add: sh z)
  then have "r = outcome P h x u \<and> t = u" using run
    by (auto simp: outcome_def raise_terminal_error_def throw_def bind_def get_state_def skip_def ret_def
        split: sum.splits option.splits)
  with b h aw r4 sh z that show ?thesis by blast
qed

text \<open>
  C6. A run that restored its checkpoint leaves nothing open behind it: when \<open>execute\<close> ends, every middleware,
  the writer and the DLQ sink were never opened or have been closed, the source was never opened, failed to
  open or was closed, and the checkpoint store was closed. No resource was opened or closed twice, closed
  without having been opened, or flushed while it was not open. (\<open>phase_step\<close> gives \<open>Broken\<close> for each of these.)
  What start-up and shutdown call raises only \<open>Exception\<close>s (\<open>orderly\<close>): the hooks of the middlewares at start and
  stop, opening, flushing and closing of the writer and the DLQ sink, closing of the store, the live metrics callback
  and the fence; and the writer closes what it opened when its own \<open>open\<close> fails. So the run is not cancelled there,
  where opened resources would stay open. The source, the middleware hooks of the lanes, and the lanes themselves may
  raise anything.
\<close>

theorem run_releases_everything:
  assumes "execute P (new_life rs) = (r, t)" "restore_checkpoint P (new_life rs) = (Inr (), s1)" "orderly P"
  shows "phase_of q t \<in> at_rest P q"
proof -
  have "untouched (new_life rs)" by (simp add: untouched_def new_life_def flags_def)
  then show ?thesis using execute_steps [OF assms(1,2,3)] shutdown_releases assms(3) by metis
qed

lemma handled_run_ends:
  assumes "handle_body P (Inl e) s = (h, t)" "ending s = (False, None)"
  shows "(isinstance e CancelledErrorC \<longrightarrow> h = Inr (Some e)) \<and>
    (\<not> isinstance e CancelledErrorC \<and> isinstance e KeyboardInterruptC \<longrightarrow>
       h = Inr None \<and> lf_interrupted t \<and> lf_run_error t = None) \<and>
    (\<not> isinstance e CancelledErrorC \<and> \<not> isinstance e KeyboardInterruptC \<and> h = Inr x \<longrightarrow>
       x = None \<and> lf_run_error t = Some e)"
proof -
  obtain y u where "handle_run_error P e s = (y, u)" by fastforce
  with handle_run_error_keeps [OF this] assms show ?thesis
    by (auto simp: handle_body_def bind_def modify_def ret_def throw_def ending_def split: if_splits sum.splits)
qed

text \<open>
  C7. What the caller of a failed run gets. A cancelled run raises the cancellation; a keyboard interrupt ends the
  run normally, with the metrics; any other failure raises \<open>terminal_error\<close> of what failed, which adds the
  run, the stage and the source to a \<open>PipelineError\<close>. An exception while the failure is handled is raised instead.
  Failures while the components are closed never replace any of these.
\<close>

theorem failed_run_outcome:
  assumes "execute P (new_life rs) = (r, t)" "restore_checkpoint P (new_life rs) = (Inr (), s1)" "orderly P"
    and "run_body P s1 = (Inl e, s2)"
  shows "r = (case fst (handle_body P (Inl e) s2) of
      Inl x \<Rightarrow> Inl x
    | Inr _ \<Rightarrow>
        if isinstance e CancelledErrorC then Inl e
        else if isinstance e KeyboardInterruptC then Inr (rs_metrics (lf_run t))
        else Inl (terminal_error (sp_engine P) e))"
proof -
  have un: "untouched (new_life rs)" by (simp add: untouched_def new_life_def flags_def)
  obtain b s2' h s3 s4 x where ex: "run_body P s1 = (b, s2')" "handle_body P b s2' = (h, s3)" "adds [] s3 s4"
    "ready P s4" "shutdown_runtime_components P s4 = (Inr x, t)" "r = outcome P h x t"
    using execute_steps [OF assms(1,2,3) un] by blast
  have h: "handle_body P (Inl e) s2 = (h, s3)" using ex(1,2) assms(4) by simp
  have "ending s1 = (False, None)" using keepsD [OF restore_quiet assms(2)]
    by (simp add: ending_def flags_def new_life_def)
  then have "ending s2 = (False, None)" using keepsD [OF run_body_ending assms(4)] by simp
  note hd = handled_run_ends [OF h this]
  from shutdown_adds [OF ex(5) assms(3) ex(4)] obtain y ev where
    "Inr x = (Inr (if lf_interrupted s4 \<or> lf_run_error s4 \<noteq> None then None else y) :: exn + exn option)"
    "adds ev s4 t" by blast
  with ex(3) have "lf_run_error t = lf_run_error s3" "lf_interrupted s3 \<longrightarrow> x = None"
    by (auto simp: adds_def flags_def)
  with hd ex(6) h show ?thesis by (auto simp: outcome_def split: sum.splits option.splits)
qed

section \<open>A run at work\<close>

definition fine :: "unit call" where
  "fine e = (Inr (), e)"

definition failing :: "exn_class \<Rightarrow> unit call" where
  "failing c e = (Inl (mk_exn c ''down''), e)"

definition demo_runtime :: "exn_class \<Rightarrow> unit PipelineRuntimeSpec" where
  "demo_runtime c = \<lparr>sp_engine = demo_engine sink_ok None SINK_FAIL_CLOSED 1,
     sp_stages = [\<lparr>sc_on_start = fine, sc_on_stop = fine\<rparr>, \<lparr>sc_on_start = fine, sc_on_stop = failing RuntimeErrorC\<rparr>],
     sp_source_open = fine, sp_source_close = failing OSErrorC, sp_checkpoint_capable = True,
     sp_prepare_resume = (\<lambda>_. fine),
     sp_writer = \<lparr>rc_open = fine, rc_flush = failing OSErrorC, rc_close = fine, rc_open_rolled_back = (\<lambda>_. False)\<rparr>,
     sp_dlq = Some \<lparr>rc_open = fine, rc_flush = fine, rc_close = failing OSErrorC, rc_open_rolled_back = (\<lambda>_. False)\<rparr>,
     sp_checkpoint = Some \<lparr>st_load = (\<lambda>_ e. (Inr None, e)), st_close = fine\<rparr>,
     sp_execution_run = throw (mk_exn c ''broken''), sp_live_metrics_callback = Some fine, sp_live_rounds = 2\<rparr>"

lemma demo_orderly: "orderly (demo_runtime c)"
  by (simp add: orderly_def demo_runtime_def honest_writer_def keeps_open_def tame_resource_def tame_def fine_def
      failing_def demo_engine_def mk_exn_def is_Exception_def isinstance_def)

lemma demo_restores: "restore_checkpoint (demo_runtime c) s = (Inr (), s)"
  by (simp add: restore_checkpoint_def demo_runtime_def bind_def attempt_def call_def fine_def skip_def ret_def)

theorem run_releases_everything_witness:
  "phase_of RWriter (snd (execute (demo_runtime ValueErrorC) (new_life (init_state ())))) \<in>
     at_rest (demo_runtime ValueErrorC) RWriter"
  by (rule run_releases_everything [OF prod.collapse [symmetric] demo_restores demo_orderly])

lemma demo_body: "run_body (demo_runtime ValueErrorC) (new_life (init_state ())) =
    (Inl (mk_exn ValueErrorC ''broken''), snd (run_body (demo_runtime ValueErrorC) (new_life (init_state ()))))"
proof (rule prod_eqI)
  have "fst (run_body (demo_runtime ValueErrorC) (new_life (init_state ()))) = Inl (mk_exn ValueErrorC ''broken'')"
    by code_simp
  then show "fst (run_body (demo_runtime ValueErrorC) (new_life (init_state ()))) =
      fst (Inl (mk_exn ValueErrorC ''broken''), snd (run_body (demo_runtime ValueErrorC) (new_life (init_state ()))))"
    by simp
qed simp

theorem failed_run_outcome_witness:
  "fst (execute (demo_runtime ValueErrorC) (new_life (init_state ()))) = Inl (mk_exn ValueErrorC ''broken'')"
proof -
  have "fst (handle_body (demo_runtime ValueErrorC) (Inl (mk_exn ValueErrorC ''broken''))
      (snd (run_body (demo_runtime ValueErrorC) (new_life (init_state ()))))) = Inr None"
    "terminal_error (sp_engine (demo_runtime ValueErrorC)) (mk_exn ValueErrorC ''broken'') = mk_exn ValueErrorC ''broken''"
    "isinstance (mk_exn ValueErrorC ''broken'') CancelledErrorC = False"
    "isinstance (mk_exn ValueErrorC ''broken'') KeyboardInterruptC = False"
    by code_simp+
  then show ?thesis
    by (subst failed_run_outcome [OF prod.collapse [symmetric] demo_restores demo_orderly demo_body]) simp
qed

text \<open>
  The checkpoint is restored before the \<open>try\<close> block: a restore that raises ends the run with the checkpoint store
  still open.
\<close>

lemma failed_restore_leaves_store_open:
  assumes "restore_checkpoint P (new_life rs) = (Inl e, t)"
  shows "execute P (new_life rs) = (Inl e, t) \<and> phase_of RStore t = Held"
  using keepsD [OF restore_quiet assms] assms by (simp add: execute_def bind_def phase_of_def new_life_def)

text \<open>\<open>with_context\<close> gives back a plain \<open>PipelineError\<close> whose message holds the rendered context of the original.\<close>

lemma with_context_forgets_the_class:
  "isinstance e PipelineErrorC \<Longrightarrow> \<not> isinstance e FenceLostErrorC \<Longrightarrow>
     ecls (with_context L e c) = PipelineErrorC \<and> ec_message (econtext (with_context L e c)) = emsg e"
  by (simp add: with_context_def mk_pipeline_error_def Let_def)

end
