(* ===== verification/Schema_Types.thy ===== *)
theory Schema_Types
  imports Failures "HOL-Library.AList" "HOL-Library.List_Lexorder" "HOL-Library.Char_ord" "HOL-Library.Multiset"
begin

text \<open>
  The schema model of \<^verbatim>\<open>schema/types.py\<close> and its inference from records, \<^verbatim>\<open>schema/inference.py\<close>: data types
  with their widening, columns, schemas, and \<open>SchemaInferrer\<close>.

  A dict is an association list in insertion order. The digest of a schema (SHA-256 of a JSON text, cut to
  16 characters) is a parameter \<open>H\<close> of the operations that compare digests; its argument is the content that
  the code digests. A \<open>Column\<close> object is shared between an inferrer and the schemas it has finalised, but
  every user of the class resets the inferrer or drops it before it observes again.
\<close>

section \<open>Data types\<close>

datatype DataType = STRING | INTEGER | FLOAT | BOOLEAN | TIMESTAMP | JSON | BYTES | NULL

fun data_type_value :: "DataType \<Rightarrow> string" where
  "data_type_value STRING = ''string''"
| "data_type_value INTEGER = ''integer''"
| "data_type_value FLOAT = ''float''"
| "data_type_value BOOLEAN = ''boolean''"
| "data_type_value TIMESTAMP = ''timestamp''"
| "data_type_value JSON = ''json''"
| "data_type_value BYTES = ''bytes''"
| "data_type_value NULL = ''null''"

datatype SchemaContract = EVOLVE | FREEZE | DISCARD_COLUMN | DISCARD_ROW

text \<open>A field of a record: a value that \<open>pyval\<close> has, or one of the other kinds that inference tells apart.\<close>

datatype field_value = Val pyval | Bytes string | Timestamp string | OtherObject string

definition infer_python_type :: "field_value \<Rightarrow> DataType" where
  "infer_python_type v = (case v of
       Val PNone \<Rightarrow> NULL
     | Val (PBool _) \<Rightarrow> BOOLEAN
     | Val (PInt _) \<Rightarrow> INTEGER
     | Val (PFloat _) \<Rightarrow> FLOAT
     | Val (PStr _) \<Rightarrow> STRING
     | Bytes _ \<Rightarrow> BYTES
     | Timestamp _ \<Rightarrow> TIMESTAMP
     | Val (PDict _) \<Rightarrow> JSON
     | Val (PList _) \<Rightarrow> JSON
     | OtherObject _ \<Rightarrow> STRING)"

definition can_widen :: "DataType \<Rightarrow> DataType \<Rightarrow> bool" where
  "can_widen a b \<longleftrightarrow>
     (if a = b then True
      else if a = NULL then True
      else if a = INTEGER \<and> b = FLOAT then True
      else b = STRING)"

definition widen_type :: "DataType \<Rightarrow> DataType \<Rightarrow> DataType" where
  "widen_type a b =
     (if a = b then a
      else if a = NULL then b
      else if b = NULL then a
      else if a = INTEGER \<and> b = FLOAT then FLOAT
      else if a = FLOAT \<and> b = INTEGER then FLOAT
      else STRING)"

section \<open>Columns and schemas\<close>

record Column =
  col_name :: string
  col_type :: DataType
  col_nullable :: bool
  col_inferred_from :: int

type_synonym columns = "(string \<times> Column) list"

record Schema =
  sc_table :: string
  sc_columns :: columns
  sc_version :: int

type_synonym schema_content = "string \<times> (string \<times> string \<times> bool) list"

definition get_column :: "Schema \<Rightarrow> string \<Rightarrow> Column option" where
  "get_column s name = map_of (sc_columns s) name"

definition has_column :: "Schema \<Rightarrow> string \<Rightarrow> bool" where
  "has_column s name \<longleftrightarrow> name \<in> fst ` set (sc_columns s)"

definition column_names :: "Schema \<Rightarrow> string list" where
  "column_names s = sort (map fst (sc_columns s))"

text \<open>The content under the digest; the keys of a dict are distinct, so sorting the items is sorting by name.\<close>

definition compute_hash_content :: "Schema \<Rightarrow> schema_content" where
  "compute_hash_content s = (sc_table s,
     map (\<lambda>(name, col). (name, data_type_value (col_type col), col_nullable col)) (sort_key fst (sc_columns s)))"

definition sc_hash :: "(schema_content \<Rightarrow> string) \<Rightarrow> Schema \<Rightarrow> string" where
  "sc_hash H s = H (compute_hash_content s)"

definition wf_schema :: "Schema \<Rightarrow> bool" where
  "wf_schema s \<longleftrightarrow> distinct (map fst (sc_columns s))"

section \<open>Records\<close>

type_synonym row = "(string \<times> field_value) list"

text \<open>
  A dict; a model with \<open>model_dump\<close>, whose instance dict holds its fields and which keeps values given for no field
  of its own (\<open>extra="allow"\<close>) in a second one; another object with attributes; or neither. The flag of a model or
  an object says that it is frozen: \<open>delattr\<close> raises. What \<open>model_dump\<close> makes of the two dicts is a parameter, as
  it belongs to pydantic: it adds computed fields and may convert or leave out others.
\<close>

datatype srecord = DictRecord row | ModelRecord bool row row | ObjectRecord bool row | OpaqueRecord

definition extract_record_fields :: "(row \<Rightarrow> row \<Rightarrow> row) \<Rightarrow> srecord \<Rightarrow> row" where
  "extract_record_fields model_dump r = (case r of
       DictRecord f \<Rightarrow> f
     | ModelRecord _ attrs extras \<Rightarrow> model_dump attrs extras
     | ObjectRecord _ attrs \<Rightarrow> attrs
     | OpaqueRecord \<Rightarrow> [])"

section \<open>Inference\<close>

record SchemaInferrer =
  inf_table :: string
  inf_columns :: columns
  inf_records_observed :: int

definition new_inferrer :: "string \<Rightarrow> SchemaInferrer" where
  "new_inferrer table = \<lparr>inf_table = table, inf_columns = [], inf_records_observed = 0\<rparr>"

definition widen_column_type :: "DataType \<Rightarrow> DataType \<Rightarrow> DataType" where
  "widen_column_type current new =
     (if current = new then current
      else if current = NULL then new
      else if new = NULL then current
      else if current = INTEGER \<and> new = FLOAT then FLOAT
      else if current = FLOAT \<and> new = INTEGER then FLOAT
      else STRING)"

definition observe_field :: "string \<times> field_value \<Rightarrow> columns \<Rightarrow> columns" where
  "observe_field nv cols = (case nv of (name, v) \<Rightarrow>
     let t = infer_python_type v in
     case map_of cols name of
       None \<Rightarrow> AList.update name \<lparr>col_name = name, col_type = t, col_nullable = True, col_inferred_from = 1\<rparr> cols
     | Some col \<Rightarrow>
         let col = col\<lparr>col_inferred_from := col_inferred_from col + 1\<rparr>;
             col = (if v = Val PNone then col\<lparr>col_nullable := True\<rparr> else col);
             col = (if t \<noteq> col_type col then col\<lparr>col_type := widen_column_type (col_type col) t\<rparr> else col)
         in AList.update name col cols)"

definition observe_record :: "(row \<Rightarrow> row \<Rightarrow> row) \<Rightarrow> srecord \<Rightarrow> SchemaInferrer \<Rightarrow> SchemaInferrer" where
  "observe_record model_dump r i =
     i\<lparr>inf_records_observed := inf_records_observed i + 1,
       inf_columns := fold observe_field (extract_record_fields model_dump r) (inf_columns i)\<rparr>"

definition finalize :: "SchemaInferrer \<Rightarrow> Schema" where
  "finalize i = \<lparr>sc_table = inf_table i, sc_columns = inf_columns i, sc_version = 1\<rparr>"

definition reset_inferrer :: "SchemaInferrer \<Rightarrow> SchemaInferrer" where
  "reset_inferrer i = i\<lparr>inf_columns := [], inf_records_observed := 0\<rparr>"

definition infer_schema :: "(row \<Rightarrow> row \<Rightarrow> row) \<Rightarrow> srecord list \<Rightarrow> string \<Rightarrow> Schema" where
  "infer_schema model_dump records table =
     finalize (fold (observe_record model_dump) records (new_inferrer table))"

section \<open>Widening is a join\<close>

text \<open>
  \<open>can_widen\<close> is the order of a lattice with \<open>NULL\<close> at the bottom and \<open>STRING\<close> at the top, and \<open>widen_type\<close> is
  its join.
\<close>

instantiation DataType :: bounded_semilattice_sup_bot
begin

definition sup_DataType :: "DataType \<Rightarrow> DataType \<Rightarrow> DataType" where
  "sup_DataType = widen_type"

definition less_eq_DataType :: "DataType \<Rightarrow> DataType \<Rightarrow> bool" where
  "less_eq_DataType = can_widen"

definition less_DataType :: "DataType \<Rightarrow> DataType \<Rightarrow> bool" where
  "less_DataType a b \<longleftrightarrow> can_widen a b \<and> \<not> can_widen b a"

definition bot_DataType :: DataType where
  "bot_DataType = NULL"

instance
proof
  fix a b c :: DataType
  show "a < b \<longleftrightarrow> a \<le> b \<and> \<not> b \<le> a" by (simp add: less_DataType_def less_eq_DataType_def)
  show "a \<le> a" by (simp add: less_eq_DataType_def can_widen_def)
  show "a \<le> b \<Longrightarrow> b \<le> c \<Longrightarrow> a \<le> c" by (auto simp: less_eq_DataType_def can_widen_def split: if_splits)
  show "a \<le> b \<Longrightarrow> b \<le> a \<Longrightarrow> a = b" by (auto simp: less_eq_DataType_def can_widen_def split: if_splits)
  show "a \<le> sup a b" "b \<le> sup a b"
    by (auto simp: less_eq_DataType_def sup_DataType_def can_widen_def widen_type_def)
  show "a \<le> c \<Longrightarrow> b \<le> c \<Longrightarrow> sup a b \<le> c"
    by (auto simp: less_eq_DataType_def sup_DataType_def can_widen_def widen_type_def split: if_splits)
  show "bot \<le> a" by (simp add: bot_DataType_def less_eq_DataType_def can_widen_def)
qed

end

lemma widen_column_type_sup: "widen_column_type a b = sup a b"
  by (simp add: widen_column_type_def sup_DataType_def widen_type_def)

lemma can_widen_le: "can_widen a b \<longleftrightarrow> a \<le> b"
  by (simp add: less_eq_DataType_def)

lemma widen_type_sup: "widen_type a b = sup a b"
  by (simp add: sup_DataType_def)

lemma STRING_top [simp]: "t \<le> STRING"
  by (simp add: less_eq_DataType_def can_widen_def)

lemma NULL_bot [simp]: "NULL \<le> t"
  by (simp add: less_eq_DataType_def can_widen_def)

lemma sup_NULL: "sup t NULL = t" "sup NULL t = t"
  by (simp_all add: sup_absorb1 sup_absorb2)

section \<open>What inference computes\<close>

text \<open>The types of the values seen under a name, in order.\<close>

definition observed :: "string \<Rightarrow> row \<Rightarrow> DataType list" where
  "observed n f = map (infer_python_type \<circ> snd) (filter (\<lambda>nv. fst nv = n) f)"

definition column_of :: "string \<Rightarrow> DataType list \<Rightarrow> Column option" where
  "column_of n ts = (if ts = [] then None
     else Some \<lparr>col_name = n, col_type = foldr sup ts NULL, col_nullable = True, col_inferred_from = int (length ts)\<rparr>)"

lemma foldr_sup_snoc: "foldr sup (ts @ [t]) (b :: DataType) = sup (foldr sup ts b) t"
  by (induction ts) (simp_all add: ac_simps)

lemma column_of_snoc:
  "column_of n (ts @ [t]) = Some (case column_of n ts of
       None \<Rightarrow> \<lparr>col_name = n, col_type = t, col_nullable = True, col_inferred_from = 1\<rparr>
     | Some c \<Rightarrow> c\<lparr>col_type := sup (col_type c) t, col_inferred_from := col_inferred_from c + 1\<rparr>)"
  using foldr_sup_snoc [of ts t NULL] sup_absorb1 [of NULL t]
  by (cases ts) (simp_all add: column_of_def sup_NULL del: foldr_append)

lemma observe_field_spec:
  assumes "\<And>n. map_of cols n = column_of n (observed n f)"
  shows "map_of (observe_field (k, v) cols) n = column_of n (observed n (f @ [(k, v)]))"
proof (cases "n = k")
  case False
  then show ?thesis using assms
    by (simp add: observe_field_def Let_def observed_def update_conv' split: option.split)
next
  case True
  have new: "column_of k (observed k (f @ [(k, v)])) = Some (case map_of cols k of
       None \<Rightarrow> \<lparr>col_name = k, col_type = infer_python_type v, col_nullable = True, col_inferred_from = 1\<rparr>
     | Some c \<Rightarrow> c\<lparr>col_type := sup (col_type c) (infer_python_type v),
         col_inferred_from := col_inferred_from c + 1\<rparr>)"
    using assms [of k] by (simp add: observed_def column_of_snoc)
  have "col_nullable c" if "map_of cols k = Some c" for c
    using that assms [of k] by (auto simp: column_of_def split: if_splits)
  then show ?thesis unfolding True new
    by (auto simp: observe_field_def Let_def update_conv' widen_column_type_sup split: option.split)
qed

lemma observe_fields_spec:
  assumes "\<And>n. map_of cols n = column_of n (observed n f)"
  shows "map_of (fold observe_field g cols) n = column_of n (observed n (f @ g))"
  using assms
proof (induction g arbitrary: cols f)
  case (Cons x g)
  obtain k v where x: "x = (k, v)" by (cases x)
  show ?case using Cons.IH [OF observe_field_spec [OF Cons.prems, of k v]] by (simp add: x)
qed simp

lemma infer_columns_spec:
  assumes "\<And>n. map_of (inf_columns i) n = column_of n (observed n f)"
  shows "map_of (inf_columns (fold (observe_record dump) rs i)) n =
     column_of n (observed n (f @ concat (map (extract_record_fields dump) rs)))"
  using assms
proof (induction rs arbitrary: i f)
  case (Cons r rs)
  have "map_of (inf_columns (observe_record dump r i)) n = column_of n (observed n (f @ extract_record_fields dump r))" for n
    using observe_fields_spec [OF Cons.prems] by (simp add: observe_record_def)
  from Cons.IH [OF this] show ?case by simp
qed simp

lemma infer_schema_columns:
  "map_of (sc_columns (infer_schema dump rs table)) n =
     column_of n (observed n (concat (map (extract_record_fields dump) rs)))"
  using infer_columns_spec [of "new_inferrer table" "[]" dump rs n]
  by (simp add: infer_schema_def finalize_def new_inferrer_def column_of_def observed_def)

lemma foldr_sup_le: "foldr sup ts NULL \<le> t \<longleftrightarrow> list_all (\<lambda>u. u \<le> t) ts"
  by (induction ts) auto

text \<open>The values that a list of records has under a name.\<close>

definition values_of :: "(row \<Rightarrow> row \<Rightarrow> row) \<Rightarrow> string \<Rightarrow> srecord list \<Rightarrow> field_value list" where
  "values_of dump n rs = map snd (filter (\<lambda>nv. fst nv = n) (concat (map (extract_record_fields dump) rs)))"

text \<open>
  C31. The inferred schema has a column for exactly the names that occur in the records, and its type is the least
  type to which the type of every value under the name can be widened: whatever the order of the records,
  no value is outside its column's type and no column is wider than its values need.
\<close>

theorem inferred_types_are_least:
  "case get_column (infer_schema dump rs table) n of
     None \<Rightarrow> values_of dump n rs = []
   | Some c \<Rightarrow> values_of dump n rs \<noteq> [] \<and> col_name c = n \<and> col_nullable c \<and>
       col_inferred_from c = int (length (values_of dump n rs)) \<and>
       (\<forall>t. can_widen (col_type c) t = list_all (\<lambda>v. can_widen (infer_python_type v) t) (values_of dump n rs))"
proof -
  have "observed n (concat (map (extract_record_fields dump) rs)) = map infer_python_type (values_of dump n rs)"
    by (simp add: observed_def values_of_def)
  then show ?thesis
    by (simp add: get_column_def infer_schema_columns column_of_def foldr_sup_le can_widen_le
        list.pred_map comp_def)
qed

text \<open>The order of the records does not matter to the columns.\<close>

lemma foldr_sup_perm: "mset ts = mset us \<Longrightarrow> foldr sup ts NULL = foldr sup us (NULL :: DataType)"
proof (rule antisym)
  assume "mset ts = mset us"
  then have "set ts = set us" by (rule mset_eq_setD)
  then show "foldr sup ts NULL \<le> foldr sup us NULL" "foldr sup us NULL \<le> foldr sup ts NULL"
    using foldr_sup_le [of us "foldr sup us NULL"] foldr_sup_le [of ts "foldr sup ts NULL"]
    by (simp_all add: foldr_sup_le list_all_iff)
qed

lemma inference_order_independent:
  assumes "mset rs = mset rs'"
  shows "get_column (infer_schema dump rs table) n = get_column (infer_schema dump rs' table) n"
proof -
  let ?obs = "\<lambda>rs. observed n (concat (map (extract_record_fields dump) rs))"
  have "mset (?obs xs) = \<Sum>\<^sub># (image_mset (\<lambda>r. mset (observed n (extract_record_fields dump r))) (mset xs))" for xs
    by (induction xs) (simp_all add: observed_def)
  then have "mset (?obs rs) = mset (?obs rs')" using assms by simp
  then show ?thesis using foldr_sup_perm [of "?obs rs" "?obs rs'"] mset_eq_length [of "?obs rs" "?obs rs'"]
    by (auto simp: get_column_def infer_schema_columns column_of_def)
qed

end
