(* ===== verification/Schema_Evolution.thy ===== *)
theory Schema_Evolution
  imports Schema_Types
begin

text \<open>
  Merging of schemas, \<^verbatim>\<open>schema/evolution.py\<close>, and the contracts on records, \<^verbatim>\<open>schema/records.py\<close>. The list of
  changes is threaded through; a \<open>SchemaEvolutionError\<close> is a value. The message of a change is left out.
\<close>

section \<open>Changes and errors\<close>

record SchemaChange =
  change_type :: string
  column_name :: string
  old_value :: "string option"
  new_value :: "string option"

definition SchemaEvolutionError :: "string \<Rightarrow> exn" where
  "SchemaEvolutionError m = mk_exn (UserC ''SchemaEvolutionError'' ExceptionC) m"

type_synonym 'a evolution = "(exn + 'a) \<times> SchemaChange list"

section \<open>Merging\<close>

definition merge_column :: "SchemaContract \<Rightarrow> Column \<Rightarrow> Column \<Rightarrow> SchemaChange list \<Rightarrow> Column evolution" where
  "merge_column contract old new changes =
     (let merged = (\<lambda>t. \<lparr>col_name = col_name old, col_type = t, col_nullable = col_nullable old \<or> col_nullable new,
            col_inferred_from = col_inferred_from old + col_inferred_from new\<rparr>);
          old_t = data_type_value (col_type old); new_t = data_type_value (col_type new)
      in if col_type old \<noteq> col_type new then
           if can_widen (col_type old) (col_type new) then
             let widened = widen_type (col_type old) (col_type new) in
             if widened \<noteq> col_type old then
               let changes = changes @ [\<lparr>change_type = ''type_widened'', column_name = col_name old,
                     old_value = Some old_t, new_value = Some (data_type_value widened)\<rparr>] in
               if contract = FREEZE
               then (Inl (SchemaEvolutionError (''Schema frozen: cannot widen column '' @ col_name old)), changes)
               else (Inr (merged widened), changes)
             else (Inr (merged widened), changes)
           else
             let changes = changes @ [\<lparr>change_type = ''type_conflict'', column_name = col_name old,
                   old_value = Some old_t, new_value = Some new_t\<rparr>] in
             if contract = FREEZE
             then (Inl (SchemaEvolutionError (''Schema frozen: type conflict for column '' @ col_name old)), changes)
             else (Inr (merged STRING), changes)
         else (Inr (merged (col_type old)), changes))"

definition handle_new_column ::
  "SchemaContract \<Rightarrow> string \<Rightarrow> Column \<Rightarrow> columns \<Rightarrow> SchemaChange list \<Rightarrow> columns evolution" where
  "handle_new_column contract name col merged changes = (case contract of
       EVOLVE \<Rightarrow> (Inr (AList.update name col merged), changes @ [\<lparr>change_type = ''column_added'',
         column_name = name, old_value = None, new_value = Some (data_type_value (col_type col))\<rparr>])
     | FREEZE \<Rightarrow> (Inl (SchemaEvolutionError (''Schema frozen: cannot add new column '' @ name)), changes)
     | DISCARD_COLUMN \<Rightarrow> (Inr merged, changes @ [\<lparr>change_type = ''column_discarded'',
         column_name = name, old_value = None, new_value = Some (data_type_value (col_type col))\<rparr>])
     | DISCARD_ROW \<Rightarrow> (Inr merged, changes))"

text \<open>The two loops of \<open>merge\<close>; \<open>new\<close> and \<open>old\<close> are the other schema's columns.\<close>

fun merge_existing ::
  "SchemaContract \<Rightarrow> columns \<Rightarrow> columns \<Rightarrow> columns \<Rightarrow> SchemaChange list \<Rightarrow> columns evolution" where
  "merge_existing contract new [] merged changes = (Inr merged, changes)"
| "merge_existing contract new ((name, old_col) # cols) merged changes =
     (case map_of new name of
        Some new_col \<Rightarrow> (case merge_column contract old_col new_col changes of
            (Inl e, changes) \<Rightarrow> (Inl e, changes)
          | (Inr c, changes) \<Rightarrow> merge_existing contract new cols (AList.update name c merged) changes)
      | None \<Rightarrow> merge_existing contract new cols (AList.update name old_col merged) changes)"

fun merge_new ::
  "SchemaContract \<Rightarrow> columns \<Rightarrow> columns \<Rightarrow> columns \<Rightarrow> SchemaChange list \<Rightarrow> columns evolution" where
  "merge_new contract old [] merged changes = (Inr merged, changes)"
| "merge_new contract old ((name, col) # cols) merged changes =
     (if map_of old name = None then
        (case handle_new_column contract name col merged changes of
           (Inl e, changes) \<Rightarrow> (Inl e, changes)
         | (Inr merged, changes) \<Rightarrow> merge_new contract old cols merged changes)
      else merge_new contract old cols merged changes)"

definition schema_merge ::
  "(schema_content \<Rightarrow> string) \<Rightarrow> SchemaContract \<Rightarrow> Schema \<Rightarrow> Schema \<Rightarrow> Schema evolution" where
  "schema_merge H contract old new =
     (if sc_hash H old = sc_hash H new then (Inr old, [])
      else case merge_existing contract (sc_columns new) (sc_columns old) [] [] of
          (Inl e, changes) \<Rightarrow> (Inl e, changes)
        | (Inr merged, changes) \<Rightarrow>
            (case merge_new contract (sc_columns old) (sc_columns new) merged changes of
               (Inl e, changes) \<Rightarrow> (Inl e, changes)
             | (Inr merged, changes) \<Rightarrow>
                 (Inr \<lparr>sc_table = sc_table old, sc_columns = merged,
                       sc_version = sc_version old + (if changes \<noteq> [] then 1 else 0)\<rparr>, changes)))"

definition evolve_schema ::
  "(schema_content \<Rightarrow> string) \<Rightarrow> Schema \<Rightarrow> Schema \<Rightarrow> SchemaContract \<Rightarrow> exn + Schema \<times> SchemaChange list" where
  "evolve_schema H old new contract = (case schema_merge H contract old new of
       (Inl e, _) \<Rightarrow> Inl e | (Inr s, changes) \<Rightarrow> Inr (s, changes))"

section \<open>Contracts on records\<close>

definition record_violates_schema :: "(row \<Rightarrow> row \<Rightarrow> row) \<Rightarrow> srecord \<Rightarrow> Schema \<Rightarrow> bool" where
  "record_violates_schema dump r schema =
     list_ex (\<lambda>(name, v). case get_column schema name of
         None \<Rightarrow> True
       | Some col \<Rightarrow>
           let t = infer_python_type v in
           if t = NULL then False
           else if t \<noteq> col_type col \<and> \<not> can_widen (col_type col) t then True
           else t \<noteq> col_type col)
       (extract_record_fields dump r)"

text \<open>
  The copy loses the unknown entries of the instance dict, one \<open>delattr\<close> after the other; the extras of a model are
  not in it. A frozen model raises a \<open>ValidationError\<close>, which is a \<open>ValueError\<close>, and a frozen dataclass a
  \<open>FrozenInstanceError\<close>, an Exception that stands here as \<open>ExceptionC\<close>.
\<close>

definition discard_unknown_columns :: "srecord \<Rightarrow> string list \<Rightarrow> exn + srecord" where
  "discard_unknown_columns r allowed =
     (let keep = filter (\<lambda>nv. fst nv \<in> set allowed) in
      case r of
        DictRecord f \<Rightarrow> Inr (DictRecord (keep f))
      | ModelRecord frozen attrs extras \<Rightarrow>
          if frozen \<and> keep attrs \<noteq> attrs then Inl (mk_exn ValueErrorC ''frozen_instance'')
          else Inr (ModelRecord frozen (keep attrs) extras)
      | ObjectRecord frozen attrs \<Rightarrow>
          if frozen \<and> keep attrs \<noteq> attrs then Inl (mk_exn ExceptionC ''FrozenInstanceError'')
          else Inr (ObjectRecord frozen (keep attrs))
      | OpaqueRecord \<Rightarrow> Inr OpaqueRecord)"

section \<open>What a merge computes\<close>

text \<open>
  The type a merge gives to a column: wider types win, but a value of a narrower type is a conflict, which
  turns the column into \<open>STRING\<close>.
\<close>

definition merged_type :: "DataType \<Rightarrow> DataType \<Rightarrow> DataType" where
  "merged_type old new = (if can_widen old new then new else STRING)"

definition merged_column :: "Column \<Rightarrow> Column \<Rightarrow> Column" where
  "merged_column old new = \<lparr>col_name = col_name old, col_type = merged_type (col_type old) (col_type new),
     col_nullable = col_nullable old \<or> col_nullable new,
     col_inferred_from = col_inferred_from old + col_inferred_from new\<rparr>"

lemma merged_type_upper: "old \<le> merged_type old new" "new \<le> merged_type old new"
  by (simp_all add: merged_type_def can_widen_le)

text \<open>Widening that is allowed always changes the type, so the innermost test of \<open>merge_column\<close> never fails.\<close>

lemma allowed_widening_widens: "a \<noteq> b \<Longrightarrow> can_widen a b \<Longrightarrow> widen_type a b = b \<and> widen_type a b \<noteq> a"
  by (auto simp: can_widen_def widen_type_def split: if_splits)

definition column_change :: "Column \<Rightarrow> Column \<Rightarrow> SchemaChange list" where
  "column_change old new =
     (if col_type old = col_type new then []
      else [\<lparr>change_type = (if can_widen (col_type old) (col_type new) then ''type_widened'' else ''type_conflict''),
             column_name = col_name old, old_value = Some (data_type_value (col_type old)),
             new_value = Some (data_type_value (col_type new))\<rparr>])"

lemma merge_column_spec:
  "merge_column contract old new changes =
     (if contract = FREEZE \<and> col_type old \<noteq> col_type new
      then (Inl (SchemaEvolutionError ((if can_widen (col_type old) (col_type new)
              then ''Schema frozen: cannot widen column '' else ''Schema frozen: type conflict for column '') @ col_name old)),
            changes @ column_change old new)
      else (Inr (merged_column old new), changes @ column_change old new))"
  using allowed_widening_widens [of "col_type old" "col_type new"]
  by (auto simp: merge_column_def merged_column_def merged_type_def column_change_def Let_def can_widen_def)

text \<open>Error of a merge, in the two loops: the first column that the frozen contract refuses.\<close>

definition refused :: "SchemaContract \<Rightarrow> columns \<Rightarrow> columns \<Rightarrow> bool" where
  "refused contract old new \<longleftrightarrow> contract = FREEZE \<and>
     (list_ex (\<lambda>(n, c). case map_of new n of Some d \<Rightarrow> col_type c \<noteq> col_type d | None \<Rightarrow> False) old \<or>
      list_ex (\<lambda>(n, d). map_of old n = None) new)"

definition existing_changes :: "columns \<Rightarrow> columns \<Rightarrow> SchemaChange list" where
  "existing_changes new old =
     concat (map (\<lambda>(n, c). case map_of new n of Some d \<Rightarrow> column_change c d | None \<Rightarrow> []) old)"

definition type_differs :: "columns \<Rightarrow> string \<times> Column \<Rightarrow> bool" where
  "type_differs new nc = (case map_of new (fst nc) of Some d \<Rightarrow> col_type (snd nc) \<noteq> col_type d | None \<Rightarrow> False)"

definition kept_column :: "columns \<Rightarrow> string \<Rightarrow> Column \<Rightarrow> Column" where
  "kept_column new n c = (case map_of new n of Some d \<Rightarrow> merged_column c d | None \<Rightarrow> c)"

lemma merge_existing_ok:
  assumes "contract = FREEZE \<Longrightarrow> \<not> list_ex (type_differs new) cols" "distinct (map fst cols)"
  shows "\<exists>m. merge_existing contract new cols merged changes = (Inr m, changes @ existing_changes new cols) \<and>
    (\<forall>n. map_of m n = (case map_of cols n of Some c \<Rightarrow> Some (kept_column new n c) | None \<Rightarrow> map_of merged n)) \<and>
    (distinct (map fst merged) \<longrightarrow> distinct (map fst m))"
  using assms
proof (induction contract new cols merged changes rule: merge_existing.induct)
  case (2 contract new name c cols merged changes)
  let ?ch = "case map_of new name of Some d \<Rightarrow> column_change c d | None \<Rightarrow> []"
  let ?m = "AList.update name (kept_column new name c) merged"
  have ok: "contract = FREEZE \<Longrightarrow> \<not> list_ex (type_differs new) cols" using 2(3) by auto
  have d: "distinct (map fst cols)" and new: "map_of cols name = None" using 2(4) by (auto simp: map_of_eq_None_iff)
  have step: "merge_existing contract new ((name, c) # cols) merged changes =
      merge_existing contract new cols ?m (changes @ ?ch)"
    using 2(3) by (auto simp: merge_column_spec kept_column_def type_differs_def split: option.split)
  have "\<exists>m. merge_existing contract new cols ?m (changes @ ?ch) = (Inr m, (changes @ ?ch) @ existing_changes new cols) \<and>
    (\<forall>n. map_of m n = (case map_of cols n of Some c \<Rightarrow> Some (kept_column new n c) | None \<Rightarrow> map_of ?m n)) \<and>
    (distinct (map fst ?m) \<longrightarrow> distinct (map fst m))"
  proof (cases "map_of new name")
    case None
    then have kept: "kept_column new name c = c" by (simp add: kept_column_def)
    show ?thesis unfolding kept None option.case append_Nil2 by (rule 2(1) [OF None ok d])
  next
    case (Some x)
    have "merge_column contract c x changes = (Inr (merged_column c x), changes @ column_change c x)"
      using 2(3) Some by (auto simp: merge_column_spec type_differs_def)
    note mc = this
    have kept: "kept_column new name c = merged_column c x" using Some by (simp add: kept_column_def)
    show ?thesis unfolding kept Some option.case by (rule 2(2) [OF Some mc [symmetric] refl ok d])
  qed
  then obtain m where m: "merge_existing contract new cols ?m (changes @ ?ch) = (Inr m, (changes @ ?ch) @ existing_changes new cols)"
    "\<And>n. map_of m n = (case map_of cols n of Some c \<Rightarrow> Some (kept_column new n c) | None \<Rightarrow> map_of ?m n)"
    "distinct (map fst ?m) \<longrightarrow> distinct (map fst m)" by blast
  then show ?case unfolding step using new
    by (intro exI [of _ m]) (auto simp: existing_changes_def update_conv' distinct_update split: option.split)
qed (simp add: existing_changes_def)

lemma merge_existing_refused:
  assumes "contract = FREEZE" "list_ex (type_differs new) cols"
  shows "\<exists>m ch. merge_existing contract new cols merged changes = (Inl (SchemaEvolutionError m), ch)"
  using assms
proof (induction contract new cols merged changes rule: merge_existing.induct)
  case (2 contract new name c cols merged changes)
  show ?case
  proof (cases "type_differs new (name, c)")
    case True
    then obtain d where "map_of new name = Some d" "col_type c \<noteq> col_type d"
      by (auto simp: type_differs_def split: option.splits)
    with 2(3) show ?thesis by (auto simp: merge_column_spec)
  next
    case False
    with 2 show ?thesis by (auto simp: type_differs_def merge_column_spec split: option.splits)
  qed
qed simp

definition new_columns :: "columns \<Rightarrow> columns \<Rightarrow> columns" where
  "new_columns old new = filter (\<lambda>nc. map_of old (fst nc) = None) new"

definition new_changes :: "SchemaContract \<Rightarrow> columns \<Rightarrow> columns \<Rightarrow> SchemaChange list" where
  "new_changes contract old new = map (\<lambda>(n, c). \<lparr>change_type =
       (if contract = EVOLVE then ''column_added'' else ''column_discarded''), column_name = n,
     old_value = None, new_value = Some (data_type_value (col_type c))\<rparr>)
     (if contract = DISCARD_ROW then [] else new_columns old new)"

lemma merge_new_ok:
  assumes "contract = FREEZE \<Longrightarrow> new_columns old cols = []" "distinct (map fst cols)"
    and "\<And>n. n \<in> fst ` set (new_columns old cols) \<Longrightarrow> map_of merged n = None"
  shows "\<exists>m. merge_new contract old cols merged changes = (Inr m, changes @ new_changes contract old cols) \<and>
    (\<forall>n. map_of m n = (if contract = EVOLVE \<and> map_of (new_columns old cols) n \<noteq> None
        then map_of (new_columns old cols) n else map_of merged n)) \<and>
    (distinct (map fst merged) \<longrightarrow> distinct (map fst m))"
  using assms
proof (induction contract old cols merged changes rule: merge_new.induct)
  case (2 contract old name c cols merged changes)
  show ?case
  proof (cases "map_of old name = None")
    case False
    then have eq: "new_columns old ((name, c) # cols) = new_columns old cols"
      "new_changes contract old ((name, c) # cols) = new_changes contract old cols"
      "merge_new contract old ((name, c) # cols) merged changes = merge_new contract old cols merged changes"
      by (auto simp: new_columns_def new_changes_def)
    show ?thesis unfolding eq by (rule 2(2) [OF False]) (use 2(3-5) eq(1) in auto)
  next
    case True
    let ?new = "new_columns old cols"
    have new: "new_columns old ((name, c) # cols) = (name, c) # ?new" using True by (simp add: new_columns_def)
    with 2(3) have contract: "contract \<noteq> FREEZE" by auto
    have d: "distinct (map fst cols)" and fresh: "name \<notin> fst ` set ?new"
      using 2(4) by (auto simp: new_columns_def)
    define m1 where "m1 = (if contract = EVOLVE then AList.update name c merged else merged)"
    define ch where "ch = changes @ new_changes contract old [(name, c)]"
    have h: "handle_new_column contract name c merged changes = (Inr m1, ch)"
      using contract True by (cases contract)
        (simp_all add: handle_new_column_def m1_def ch_def new_changes_def new_columns_def)
    have "map_of m1 n = None" if "n \<in> fst ` set ?new" for n
      using 2(5) [of n] that fresh new by (auto simp: m1_def update_conv')
    with 2(1) [OF True h [symmetric] refl _ d] contract obtain m where
      m: "merge_new contract old cols m1 ch = (Inr m, ch @ new_changes contract old cols)"
        "\<And>n. map_of m n = (if contract = EVOLVE \<and> map_of ?new n \<noteq> None then map_of ?new n else map_of m1 n)"
        "distinct (map fst m1) \<longrightarrow> distinct (map fst m)" by auto
    have "ch @ new_changes contract old cols = changes @ new_changes contract old ((name, c) # cols)"
      using True by (simp add: ch_def new_changes_def new_columns_def)
    moreover have "map_of ?new name = None" using fresh by (simp add: map_of_eq_None_iff)
    ultimately show ?thesis using m h True new
      by (intro exI [of _ m]) (auto simp: m1_def update_conv' distinct_update)
  qed
qed (simp add: new_changes_def new_columns_def)

lemma merge_new_refused:
  "new_columns old cols \<noteq> [] \<Longrightarrow> \<exists>m. merge_new FREEZE old cols merged changes = (Inl (SchemaEvolutionError m), changes)"
  by (induction cols arbitrary: merged) (auto simp: new_columns_def handle_new_column_def split: if_splits)

text \<open>The columns of a merge that is not refused.\<close>

definition evolved_column :: "SchemaContract \<Rightarrow> columns \<Rightarrow> columns \<Rightarrow> string \<Rightarrow> Column option" where
  "evolved_column contract old new n = (case map_of old n of
       Some c \<Rightarrow> Some (kept_column new n c)
     | None \<Rightarrow> if contract = EVOLVE then map_of new n else None)"

lemma map_of_new_columns: "map_of (new_columns old new) n = (if map_of old n = None then map_of new n else None)"
  by (induction new) (auto simp: new_columns_def)

lemma merge_columns_ok:
  assumes "contract = FREEZE \<Longrightarrow> \<not> list_ex (type_differs new) old \<and> new_columns old new = []"
    and "distinct (map fst old)" "distinct (map fst new)"
  obtains m1 m where "merge_existing contract new old [] [] = (Inr m1, existing_changes new old)"
    "merge_new contract old new m1 (existing_changes new old) =
       (Inr m, existing_changes new old @ new_changes contract old new)"
    "\<And>n. map_of m n = evolved_column contract old new n" "distinct (map fst m)"
proof -
  obtain m1 where m1: "merge_existing contract new old [] [] = (Inr m1, existing_changes new old)"
    "\<And>n. map_of m1 n = (case map_of old n of Some c \<Rightarrow> Some (kept_column new n c) | None \<Rightarrow> None)" "distinct (map fst m1)"
  proof -
    have "contract = FREEZE \<Longrightarrow> \<not> list_ex (type_differs new) old" using assms(1) by blast
    then have "\<exists>m. merge_existing contract new old [] [] = (Inr m, [] @ existing_changes new old) \<and>
      (\<forall>n. map_of m n = (case map_of old n of Some c \<Rightarrow> Some (kept_column new n c) | None \<Rightarrow> map_of [] n)) \<and>
      (distinct (map fst ([] :: columns)) \<longrightarrow> distinct (map fst m))"
      by (rule merge_existing_ok [OF _ assms(2)])
    then show thesis using that unfolding map_of.simps(1) append_Nil by auto
  qed
  have "map_of m1 n = None" if "n \<in> fst ` set (new_columns old new)" for n
    using that by (auto simp: m1(2) new_columns_def)
  with merge_new_ok [of contract old new m1 "existing_changes new old"] assms m1(3) obtain m where
    m: "merge_new contract old new m1 (existing_changes new old) =
       (Inr m, existing_changes new old @ new_changes contract old new)"
     "\<And>n. map_of m n = (if contract = EVOLVE \<and> map_of (new_columns old new) n \<noteq> None
        then map_of (new_columns old new) n else map_of m1 n)" "distinct (map fst m)" by blast
  have "map_of m n = evolved_column contract old new n" for n
    using m(2) [of n] m1(2) [of n] by (cases "map_of old n") (simp_all add: evolved_column_def map_of_new_columns)
  with m1(1) m(1,3) that show ?thesis by blast
qed

section \<open>The result of a merge\<close>

definition frozen_conflict :: "columns \<Rightarrow> columns \<Rightarrow> bool" where
  "frozen_conflict old new \<longleftrightarrow> list_ex (type_differs new) old \<or> new_columns old new \<noteq> []"

lemma schema_merge_ok:
  assumes "sc_hash H old \<noteq> sc_hash H new" "wf_schema old" "wf_schema new"
    and "contract = FREEZE \<Longrightarrow> \<not> frozen_conflict (sc_columns old) (sc_columns new)"
  shows "\<exists>s. schema_merge H contract old new = (Inr s, existing_changes (sc_columns new) (sc_columns old) @
       new_changes contract (sc_columns old) (sc_columns new)) \<and>
    sc_table s = sc_table old \<and> wf_schema s \<and>
    (\<forall>n. get_column s n = evolved_column contract (sc_columns old) (sc_columns new) n) \<and>
    sc_version s = sc_version old + (if existing_changes (sc_columns new) (sc_columns old) @
       new_changes contract (sc_columns old) (sc_columns new) \<noteq> [] then 1 else 0)"
proof -
  have "contract = FREEZE \<Longrightarrow> \<not> list_ex (type_differs (sc_columns new)) (sc_columns old) \<and>
      new_columns (sc_columns old) (sc_columns new) = []"
    using assms(4) by (simp add: frozen_conflict_def)
  from merge_columns_ok [OF this] assms(2,3) obtain m1 m where
    "merge_existing contract (sc_columns new) (sc_columns old) [] [] = (Inr m1, existing_changes (sc_columns new) (sc_columns old))"
    "merge_new contract (sc_columns old) (sc_columns new) m1 (existing_changes (sc_columns new) (sc_columns old)) =
       (Inr m, existing_changes (sc_columns new) (sc_columns old) @ new_changes contract (sc_columns old) (sc_columns new))"
    "\<And>n. map_of m n = evolved_column contract (sc_columns old) (sc_columns new) n" "distinct (map fst m)"
    unfolding wf_schema_def by blast
  with assms(1) show ?thesis by (simp add: schema_merge_def get_column_def wf_schema_def)
qed

lemma schema_merge_refused:
  assumes "sc_hash H old \<noteq> sc_hash H new" "wf_schema old" "wf_schema new"
    and "frozen_conflict (sc_columns old) (sc_columns new)"
  shows "\<exists>m ch. schema_merge H FREEZE old new = (Inl (SchemaEvolutionError m), ch)"
proof (cases "list_ex (type_differs (sc_columns new)) (sc_columns old)")
  case True
  with merge_existing_refused [OF refl True, of "[]" "[]"] assms(1) show ?thesis
    by (auto simp: schema_merge_def)
next
  case False
  obtain m ch where "merge_existing FREEZE (sc_columns new) (sc_columns old) [] [] = (Inr m, ch)"
    using merge_existing_ok [of FREEZE "sc_columns new" "sc_columns old" "[]" "[]"] False assms(2)
    by (auto simp: wf_schema_def)
  moreover have "new_columns (sc_columns old) (sc_columns new) \<noteq> []" using assms(4) False by (simp add: frozen_conflict_def)
  ultimately show ?thesis using merge_new_refused [of "sc_columns old" "sc_columns new" m ch] assms(1)
    by (auto simp: schema_merge_def)
qed

text \<open>Schemas of equal content agree on the type of every column.\<close>

lemma data_type_value_inj: "data_type_value a = data_type_value b \<longleftrightarrow> a = b"
  by (cases a; cases b) simp_all

definition type_of :: "Schema \<Rightarrow> string \<Rightarrow> DataType option" where
  "type_of s n = map_option col_type (get_column s n)"

lemma map_of_sort_key: "distinct (map fst xs) \<Longrightarrow> map_of (sort_key fst xs) = map_of xs"
  by (rule map_of_inject_set [THEN iffD2]) (simp_all add: distinct_map)

lemma content_types:
  assumes "compute_hash_content a = compute_hash_content b" "wf_schema a" "wf_schema b"
  shows "type_of a n = type_of b n"
proof -
  let ?f = "\<lambda>(name, col). (name, data_type_value (col_type col), col_nullable col)"
  have "map_of (map ?f (sort_key fst (sc_columns s))) n =
      map_option (\<lambda>c. (data_type_value (col_type c), col_nullable c)) (get_column s n)" if "wf_schema s" for s
    using that map_of_map [of "\<lambda>c. (data_type_value (col_type c), col_nullable c)" "sort_key fst (sc_columns s)"]
    by (simp add: wf_schema_def map_of_sort_key get_column_def)
  with assms have "map_option (\<lambda>c. (data_type_value (col_type c), col_nullable c)) (get_column a n) =
      map_option (\<lambda>c. (data_type_value (col_type c), col_nullable c)) (get_column b n)"
    by (metis (mono_tags, lifting) compute_hash_content_def prod.inject)
  then show ?thesis by (cases "get_column a n"; cases "get_column b n") (simp_all add: type_of_def data_type_value_inj)
qed

end
