(* ===== verification/Schema_Runtime.thy ===== *)
theory Schema_Runtime
  imports Schema_Evolution State_Backend
begin

text \<open>
  Schemas during a run: the incremental \<open>SchemaProcessor\<close> of \<^verbatim>\<open>schema/runtime.py\<close>, the stores of
  \<^verbatim>\<open>schema/store.py\<close> with the dict forms of \<^verbatim>\<open>schema/types.py\<close>, and \<open>SchemaMiddleware\<close> of
  \<^verbatim>\<open>schema/middleware.py\<close>. Logging is left out. A store is seen through its \<open>load\<close> and \<open>save\<close>, which may raise.
\<close>

section \<open>The processor\<close>

record SchemaMetrics =
  sm_columns_added :: int
  sm_columns_removed :: int
  sm_types_widened :: int
  sm_type_conflicts :: int
  sm_records_observed :: int
  sm_schema_version :: int

definition new_metrics :: SchemaMetrics where
  "new_metrics = \<lparr>sm_columns_added = 0, sm_columns_removed = 0, sm_types_widened = 0, sm_type_conflicts = 0,
     sm_records_observed = 0, sm_schema_version = 1\<rparr>"

record SchemaProcessor =
  pr_contract :: SchemaContract
  pr_current_schema :: "Schema option"
  pr_pending_error :: "exn option"
  pr_metrics :: SchemaMetrics
  pr_inferrer :: SchemaInferrer

record SchemaProcessResult =
  re_record :: "srecord option"
  re_schema :: "Schema option"
  re_changes :: "SchemaChange list"

definition new_processor :: "string \<Rightarrow> SchemaContract \<Rightarrow> SchemaProcessor" where
  "new_processor table contract = \<lparr>pr_contract = contract, pr_current_schema = None, pr_pending_error = None,
     pr_metrics = new_metrics, pr_inferrer = new_inferrer table\<rparr>"

definition load_schema :: "Schema option \<Rightarrow> SchemaProcessor \<Rightarrow> SchemaProcessor" where
  "load_schema s p = p\<lparr>pr_current_schema := s, pr_pending_error := None,
     pr_metrics := (case s of None \<Rightarrow> new_metrics | Some s \<Rightarrow> new_metrics\<lparr>sm_schema_version := sc_version s\<rparr>)\<rparr>"

definition infer_record_schema :: "(row \<Rightarrow> row \<Rightarrow> row) \<Rightarrow> srecord \<Rightarrow> SchemaProcessor \<Rightarrow> Schema \<times> SchemaProcessor" where
  "infer_record_schema dump r p =
     (let i = observe_record dump r (reset_inferrer (pr_inferrer p)) in (finalize i, p\<lparr>pr_inferrer := i\<rparr>))"

definition initial_schema_changes :: "Schema \<Rightarrow> SchemaChange list" where
  "initial_schema_changes s = map (\<lambda>n. \<lparr>change_type = ''column_added'', column_name = n, old_value = None,
     new_value = Some (data_type_value (col_type (the (get_column s n))))\<rparr>) (column_names s)"

definition count_changes :: "string \<Rightarrow> SchemaChange list \<Rightarrow> int" where
  "count_changes t changes = int (length (filter (\<lambda>c. change_type c = t) changes))"

definition candidate_of :: "SchemaProcessor \<Rightarrow> srecord \<Rightarrow> exn + srecord" where
  "candidate_of p r = (case pr_current_schema p of
       Some s \<Rightarrow> if pr_contract p = DISCARD_COLUMN then discard_unknown_columns r (map fst (sc_columns s)) else Inr r
     | None \<Rightarrow> Inr r)"

definition row_discarded :: "(row \<Rightarrow> row \<Rightarrow> row) \<Rightarrow> SchemaProcessor \<Rightarrow> srecord \<Rightarrow> bool" where
  "row_discarded dump p r = (case pr_current_schema p of
       Some s \<Rightarrow> pr_contract p = DISCARD_ROW \<and> record_violates_schema dump r s
     | None \<Rightarrow> False)"

text \<open>The counters after a merge.\<close>

definition merge_metrics :: "SchemaChange list \<Rightarrow> int \<Rightarrow> SchemaMetrics \<Rightarrow> SchemaMetrics" where
  "merge_metrics changes version m =
     m\<lparr>sm_columns_added := sm_columns_added m + count_changes ''column_added'' changes,
       sm_types_widened := sm_types_widened m + count_changes ''type_widened'' changes,
       sm_type_conflicts := sm_type_conflicts m + count_changes ''type_conflict'' changes,
       sm_schema_version := version\<rparr>"

definition process_schema ::
  "(schema_content \<Rightarrow> string) \<Rightarrow> (row \<Rightarrow> row \<Rightarrow> row) \<Rightarrow> srecord \<Rightarrow> SchemaProcessor \<Rightarrow>
     (exn + SchemaProcessResult) \<times> SchemaProcessor" where
  "process_schema H dump r p =
     (if row_discarded dump p r
      then (Inr \<lparr>re_record = None, re_schema = pr_current_schema p, re_changes = []\<rparr>, p)
      else case candidate_of p r of Inl e \<Rightarrow> (Inl e, p) | Inr candidate \<Rightarrow>
        let (record_schema, p) = infer_record_schema dump candidate p;
            p = p\<lparr>pr_metrics := (pr_metrics p)\<lparr>sm_records_observed := sm_records_observed (pr_metrics p) + 1\<rparr>\<rparr>
        in if sc_columns record_schema = []
           then (Inr \<lparr>re_record = Some candidate, re_schema = pr_current_schema p, re_changes = []\<rparr>, p)
           else case pr_current_schema p of
               None \<Rightarrow>
                 (Inr \<lparr>re_record = Some candidate, re_schema = Some record_schema,
                       re_changes = initial_schema_changes record_schema\<rparr>,
                  p\<lparr>pr_current_schema := Some record_schema,
                    pr_metrics := (pr_metrics p)\<lparr>sm_columns_added := sm_columns_added (pr_metrics p) +
                         int (length (sc_columns record_schema)), sm_schema_version := sc_version record_schema\<rparr>\<rparr>)
             | Some s \<Rightarrow> (case schema_merge H (pr_contract p) s record_schema of
                   (Inl e, _) \<Rightarrow>
                     if pr_contract p = FREEZE then
                       (Inr \<lparr>re_record = None, re_schema = Some s, re_changes = []\<rparr>,
                        p\<lparr>pr_pending_error := (case pr_pending_error p of Some x \<Rightarrow> Some x | None \<Rightarrow> Some e)\<rparr>)
                     else (Inl e, p)
                 | (Inr merged, changes) \<Rightarrow>
                     (Inr \<lparr>re_record = Some candidate, re_schema = Some merged, re_changes = changes\<rparr>,
                      p\<lparr>pr_current_schema := Some merged,
                        pr_metrics := merge_metrics changes (sc_version merged) (pr_metrics p)\<rparr>)))"

text \<open>The processor over a stream of records, with what is forwarded.\<close>

fun process_all ::
  "(schema_content \<Rightarrow> string) \<Rightarrow> (row \<Rightarrow> row \<Rightarrow> row) \<Rightarrow> srecord list \<Rightarrow> SchemaProcessor \<Rightarrow> srecord option list \<times> SchemaProcessor" where
  "process_all H dump [] p = ([], p)"
| "process_all H dump (r # rs) p =
     (case process_schema H dump r p of
        (x, q) \<Rightarrow> (case process_all H dump rs q of
          (out, t) \<Rightarrow> ((case x of Inr res \<Rightarrow> re_record res | Inl _ \<Rightarrow> Some r) # out, t)))"

section \<open>Dict forms\<close>

definition column_to_dict :: "Column \<Rightarrow> pyval" where
  "column_to_dict c = PDict [(''name'', PStr (col_name c)), (''data_type'', PStr (data_type_value (col_type c))),
     (''nullable'', PBool (col_nullable c)), (''inferred_from'', PInt (col_inferred_from c))]"

definition schema_to_dict :: "(schema_content \<Rightarrow> string) \<Rightarrow> Schema \<Rightarrow> pyval" where
  "schema_to_dict H s = PDict [(''table'', PStr (sc_table s)),
     (''columns'', PDict (map (\<lambda>(n, c). (n, column_to_dict c)) (sc_columns s))),
     (''version'', PInt (sc_version s)), (''hash'', PStr (sc_hash H s))]"

definition data_type_of :: "string \<Rightarrow> DataType option" where
  "data_type_of v = List.find (\<lambda>t. data_type_value t = v) [STRING, INTEGER, FLOAT, BOOLEAN, TIMESTAMP, JSON, BYTES, NULL]"

text \<open>
  The code does not check the types of the stored fields. A dict whose fields have other types than the ones it
  writes is outside the model: the result is \<open>None\<close>. Inside it, a missing key raises \<open>KeyError\<close>, an
  unknown data type \<open>ValueError\<close>.
\<close>

definition item :: "(string \<times> pyval) list \<Rightarrow> string \<Rightarrow> exn + pyval" where
  "item kvs k = (case dict_get kvs k of Some v \<Rightarrow> Inr v | None \<Rightarrow> Inl (mk_exn KeyErrorC k))"

definition column_from_dict :: "pyval \<Rightarrow> (exn + Column) option" where
  "column_from_dict v = (case v of
       PDict kvs \<Rightarrow> (case item kvs ''name'' of
           Inl e \<Rightarrow> Some (Inl e)
         | Inr name \<Rightarrow> (case item kvs ''data_type'' of
             Inl e \<Rightarrow> Some (Inl e)
           | Inr t \<Rightarrow> (case t of
               PStr ts \<Rightarrow> (case data_type_of ts of
                   None \<Rightarrow> Some (Inl (mk_exn ValueErrorC ts))
                 | Some dt \<Rightarrow> (case item kvs ''nullable'' of
                     Inl e \<Rightarrow> Some (Inl e)
                   | Inr nullable \<Rightarrow>
                       (case (name, nullable, case dict_get kvs ''inferred_from'' of Some n \<Rightarrow> n | None \<Rightarrow> PInt 0) of
                          (PStr n, PBool b, PInt i) \<Rightarrow> Some (Inr \<lparr>col_name = n, col_type = dt, col_nullable = b, col_inferred_from = i\<rparr>)
                        | _ \<Rightarrow> None)))
             | _ \<Rightarrow> Some (Inl (mk_exn ValueErrorC ''data_type'')))))
     | _ \<Rightarrow> None)"

fun columns_from_dict :: "(string \<times> pyval) list \<Rightarrow> (exn + columns) option" where
  "columns_from_dict [] = Some (Inr [])"
| "columns_from_dict ((n, v) # kvs) = (case column_from_dict v of
       None \<Rightarrow> None
     | Some (Inl e) \<Rightarrow> Some (Inl e)
     | Some (Inr c) \<Rightarrow> (case columns_from_dict kvs of
         Some (Inr cs) \<Rightarrow> Some (Inr ((n, c) # cs)) | x \<Rightarrow> x))"

definition schema_from_dict :: "(schema_content \<Rightarrow> string) \<Rightarrow> bool \<Rightarrow> pyval \<Rightarrow> (exn + Schema) option" where
  "schema_from_dict H strict_hash v = (case v of
       PDict kvs \<Rightarrow> (case item kvs ''columns'' of
           Inl e \<Rightarrow> Some (Inl e)
         | Inr (PDict cols) \<Rightarrow> (case columns_from_dict cols of
               None \<Rightarrow> None
             | Some (Inl e) \<Rightarrow> Some (Inl e)
             | Some (Inr columns) \<Rightarrow> (case item kvs ''table'' of
                 Inl e \<Rightarrow> Some (Inl e)
               | Inr table \<Rightarrow>
                   (case (table, case dict_get kvs ''version'' of Some n \<Rightarrow> n | None \<Rightarrow> PInt 1,
                          case dict_get kvs ''hash'' of Some h \<Rightarrow> h | None \<Rightarrow> PStr []) of
                      (PStr t, PInt n, PStr stored) \<Rightarrow>
                        let schema = \<lparr>sc_table = t, sc_columns = columns, sc_version = n\<rparr> in
                        if stored \<noteq> [] \<and> stored \<noteq> sc_hash H schema \<and> strict_hash
                        then Some (Inl (mk_exn ValueErrorC ''Schema hash mismatch''))
                        else Some (Inr schema)
                    | _ \<Rightarrow> None)))
         | _ \<Rightarrow> None)
     | _ \<Rightarrow> None)"

section \<open>The stores\<close>

definition schema_key :: "string \<Rightarrow> string \<Rightarrow> string" where
  "schema_key pipeline_id table = ''schema:'' @ pipeline_id @ '':'' @ table"

definition schema_store_save ::
  "'b backend_ops \<Rightarrow> (schema_content \<Rightarrow> string) \<Rightarrow> string \<Rightarrow> string \<Rightarrow> Schema \<Rightarrow> 'b \<Rightarrow> 'b" where
  "schema_store_save B H pipeline_id table s b = op_set B (schema_key pipeline_id table) (schema_to_dict H s) None b"

definition schema_store_load ::
  "'b backend_ops \<Rightarrow> (schema_content \<Rightarrow> string) \<Rightarrow> SchemaContract \<Rightarrow> rat \<Rightarrow> string \<Rightarrow> string \<Rightarrow> 'b \<Rightarrow>
     (exn + Schema option) option \<times> 'b" where
  "schema_store_load B H contract t pipeline_id table b =
     (case op_get B t (schema_key pipeline_id table) b of
        (None, b') \<Rightarrow> (Some (Inr None), b')
      | (Some e, b') \<Rightarrow>
          (if is_dict (sv_value e)
           then map_option (map_sum id Some) (schema_from_dict H (contract = FREEZE) (sv_value e))
           else Some (Inr None), b'))"

definition memory_schema_key :: "string \<Rightarrow> string \<Rightarrow> string" where
  "memory_schema_key pipeline_id table = pipeline_id @ '':'' @ table"

definition memory_schema_save :: "string \<Rightarrow> string \<Rightarrow> Schema \<Rightarrow> (string \<times> Schema) list \<Rightarrow> (string \<times> Schema) list" where
  "memory_schema_save pipeline_id table s m = AList.update (memory_schema_key pipeline_id table) s m"

definition memory_schema_load :: "string \<Rightarrow> string \<Rightarrow> (string \<times> Schema) list \<Rightarrow> Schema option" where
  "memory_schema_load pipeline_id table m = map_of m (memory_schema_key pipeline_id table)"

section \<open>The middleware\<close>

text \<open>\<open>mw_extras_schema\<close> is \<open>ctx.extras["schema"]\<close>; a store is what \<open>load\<close> gives.\<close>

record SchemaMiddleware =
  mw_processor :: SchemaProcessor
  mw_extras_schema :: "Schema option"

definition schema_on_start :: "(exn + Schema option) option \<Rightarrow> SchemaMiddleware \<Rightarrow> SchemaMiddleware" where
  "schema_on_start store_load m =
     (let m = m\<lparr>mw_processor := load_schema None (mw_processor m)\<rparr> in
      case store_load of
        None \<Rightarrow> m
      | Some (Inl _) \<Rightarrow> m
      | Some (Inr loaded) \<Rightarrow>
          let m = m\<lparr>mw_processor := load_schema loaded (mw_processor m)\<rparr> in
          case loaded of None \<Rightarrow> m | Some s \<Rightarrow> m\<lparr>mw_extras_schema := Some s\<rparr>)"

definition schema_process ::
  "(schema_content \<Rightarrow> string) \<Rightarrow> (row \<Rightarrow> row \<Rightarrow> row) \<Rightarrow> srecord \<Rightarrow> SchemaMiddleware \<Rightarrow> srecord option \<times> SchemaMiddleware" where
  "schema_process H dump r m = (case process_schema H dump r (mw_processor m) of
       (Inl _, p) \<Rightarrow> (Some r, m\<lparr>mw_processor := p\<rparr>)
     | (Inr res, p) \<Rightarrow>
         let m = m\<lparr>mw_processor := p\<rparr> in
         if re_record res = None then (None, m)
         else (re_record res, case re_schema res of Some s \<Rightarrow> m\<lparr>mw_extras_schema := Some s\<rparr> | None \<Rightarrow> m))"

text \<open>What \<open>on_stop\<close> saves, and what it raises: failures of the store are logged.\<close>

definition schema_on_stop :: "bool \<Rightarrow> SchemaMiddleware \<Rightarrow> Schema option \<times> (exn + unit) \<times> SchemaMiddleware" where
  "schema_on_stop has_store m =
     (let current = pr_current_schema (mw_processor m);
          m = (case current of Some s \<Rightarrow> m\<lparr>mw_extras_schema := Some s\<rparr> | None \<Rightarrow> m)
      in (if has_store then current else None,
          case pr_pending_error (mw_processor m) of Some e \<Rightarrow> Inl e | None \<Rightarrow> Inr (), m))"

section \<open>The schema of one record\<close>

definition record_schema :: "(row \<Rightarrow> row \<Rightarrow> row) \<Rightarrow> srecord \<Rightarrow> SchemaProcessor \<Rightarrow> Schema" where
  "record_schema dump r p = fst (infer_record_schema dump r p)"

lemma observe_field_distinct: "distinct (map fst cols) \<Longrightarrow> distinct (map fst (observe_field nv cols))"
  by (cases nv) (auto simp: observe_field_def Let_def distinct_update split: option.split)

lemma fold_observe_distinct: "distinct (map fst cols) \<Longrightarrow> distinct (map fst (fold observe_field f cols))"
  by (induction f arbitrary: cols) (auto simp: observe_field_distinct)

lemma record_schema_wf: "wf_schema (record_schema dump r p)"
  by (simp add: wf_schema_def record_schema_def infer_record_schema_def finalize_def observe_record_def reset_inferrer_def
      fold_observe_distinct Let_def)

lemma record_schema_column:
  "get_column (record_schema dump r p) n = column_of n (observed n (extract_record_fields dump r))"
  using infer_columns_spec [of "reset_inferrer (pr_inferrer p)" "[]" dump "[r]" n]
  by (simp add: get_column_def record_schema_def infer_record_schema_def finalize_def reset_inferrer_def column_of_def
      observed_def Let_def)

lemma type_of_record:
  "type_of (record_schema dump r p) n =
     (let ts = observed n (extract_record_fields dump r) in if ts = [] then None else Some (foldr sup ts NULL))"
  by (simp add: type_of_def record_schema_column column_of_def Let_def)

lemma observed_distinct:
  "distinct (map fst f) \<Longrightarrow> observed n f = (case map_of f n of None \<Rightarrow> [] | Some v \<Rightarrow> [infer_python_type v])"
proof (induction f)
  case (Cons x f)
  have "map_of f (fst x) = None" using Cons.prems by (simp add: map_of_eq_None_iff image_iff)
  with Cons show ?case by (auto simp: observed_def split: option.splits)
qed (simp add: observed_def)

lemma type_of_distinct_record:
  "distinct (map fst (extract_record_fields dump r)) \<Longrightarrow>
     type_of (record_schema dump r p) n = map_option infer_python_type (map_of (extract_record_fields dump r) n)"
  by (simp add: type_of_record observed_distinct Let_def sup_NULL split: option.split)

lemma type_of_new_columns:
  "new_columns (sc_columns s) (sc_columns t) = [] \<longleftrightarrow> (\<forall>n. type_of t n \<noteq> None \<longrightarrow> type_of s n \<noteq> None)"
proof -
  have "type_of u n = None \<longleftrightarrow> n \<notin> fst ` set (sc_columns u)" for u n
    by (simp add: type_of_def get_column_def map_of_eq_None_iff)
  then show ?thesis by (auto simp: new_columns_def filter_empty_conv map_of_eq_None_iff)
qed

text \<open>A frozen schema accepts exactly the schemas whose columns it has with the same types.\<close>

lemma accepted_types:
  assumes "\<not> frozen_conflict (sc_columns s) (sc_columns t)" "wf_schema s" "wf_schema t" "type_of t n = Some d"
  shows "type_of s n = Some d"
proof -
  have "new_columns (sc_columns s) (sc_columns t) = []" using assms(1) by (simp add: frozen_conflict_def)
  then have "type_of s n \<noteq> None" using assms(4) unfolding type_of_new_columns by simp
  then obtain c where c: "map_of (sc_columns s) n = Some c" by (auto simp: type_of_def get_column_def)
  then have "\<not> type_differs (sc_columns t) (n, c)" using assms(1)
    by (auto simp: frozen_conflict_def list_ex_iff dest: map_of_SomeD)
  with c assms(4) show ?thesis by (auto simp: type_differs_def type_of_def get_column_def)
qed

section \<open>What a processor does to the schema\<close>

lemma process_schema_keeps: "process_schema H dump r p = (x, q) \<Longrightarrow> pr_contract q = pr_contract p"
  by (auto simp: process_schema_def infer_record_schema_def Let_def split: if_splits option.splits prod.splits sum.splits)

lemma candidate_processor [simp]:
  "pr_contract (snd (infer_record_schema dump r p)) = pr_contract p"
  "pr_current_schema (snd (infer_record_schema dump r p)) = pr_current_schema p"
  by (simp_all add: infer_record_schema_def Let_def)

text \<open>The step on the schema, given a current one.\<close>

definition next_schema :: "(schema_content \<Rightarrow> string) \<Rightarrow> SchemaContract \<Rightarrow> Schema \<Rightarrow> Schema \<Rightarrow> Schema" where
  "next_schema H contract s t = (case schema_merge H contract s t of (Inr m, _) \<Rightarrow> m | (Inl _, _) \<Rightarrow> s)"

lemma process_schema_next:
  assumes "process_schema H dump r p = (x, q)" "pr_current_schema p = Some s"
  shows "pr_current_schema q = Some s \<or>
    pr_current_schema q = Some (next_schema H (pr_contract p) s (record_schema dump (projr (candidate_of p r)) p))"
  using assms
  by (auto simp: process_schema_def record_schema_def infer_record_schema_def Let_def next_schema_def
      split: if_splits option.splits prod.splits sum.splits)

definition schema_extends :: "SchemaContract \<Rightarrow> Schema \<Rightarrow> Schema \<Rightarrow> bool" where
  "schema_extends contract s t \<longleftrightarrow> wf_schema t \<and> sc_version s \<le> sc_version t \<and>
     (\<forall>n. case type_of s n of
        Some a \<Rightarrow> (case type_of t n of
            Some b \<Rightarrow> can_widen a b \<and> (contract = FREEZE \<longrightarrow> a = b)
          | None \<Rightarrow> False)
      | None \<Rightarrow> type_of t n = None \<or> contract = EVOLVE)"

lemma schema_extends_refl: "wf_schema s \<Longrightarrow> schema_extends contract s s"
  by (simp add: schema_extends_def can_widen_le split: option.split)

lemma extends_at:
  "schema_extends contract s t \<Longrightarrow> (case type_of s n of
     Some a \<Rightarrow> (case type_of t n of
         Some b \<Rightarrow> can_widen a b \<and> (contract = FREEZE \<longrightarrow> a = b)
       | None \<Rightarrow> False)
   | None \<Rightarrow> type_of t n = None \<or> contract = EVOLVE)"
  unfolding schema_extends_def by blast

lemma schema_extends_trans:
  assumes "schema_extends contract s t" "schema_extends contract t u"
  shows "schema_extends contract s u"
proof -
  have "case type_of s n of Some a \<Rightarrow> (case type_of u n of
            Some b \<Rightarrow> can_widen a b \<and> (contract = FREEZE \<longrightarrow> a = b) | None \<Rightarrow> False)
      | None \<Rightarrow> type_of u n = None \<or> contract = EVOLVE" for n
    using extends_at [OF assms(1), of n] extends_at [OF assms(2), of n]
    by (cases "type_of s n"; cases "type_of t n"; cases "type_of u n") (auto simp: can_widen_le)
  then show ?thesis using assms by (auto simp: schema_extends_def)
qed

lemma type_of_kept:
  "map_of (sc_columns s) n = Some c \<Longrightarrow> get_column m n = Some (kept_column new n c) \<Longrightarrow>
     type_of s n = Some (col_type c) \<and> type_of m n = Some (case map_of new n of
       Some d \<Rightarrow> merged_type (col_type c) (col_type d) | None \<Rightarrow> col_type c)"
  by (simp add: type_of_def get_column_def kept_column_def merged_column_def split: option.split)

lemma next_schema_extends:
  assumes "wf_schema s" "wf_schema t"
  shows "schema_extends contract s (next_schema H contract s t)"
proof (cases "sc_hash H s = sc_hash H t \<or> contract = FREEZE \<and> frozen_conflict (sc_columns s) (sc_columns t)")
  case True
  then have "next_schema H contract s t = s"
  proof
    assume "contract = FREEZE \<and> frozen_conflict (sc_columns s) (sc_columns t)"
    then show ?thesis using schema_merge_refused [OF _ assms, of H]
      by (cases "sc_hash H s = sc_hash H t") (auto simp: next_schema_def schema_merge_def)
  qed (simp add: next_schema_def schema_merge_def)
  then show ?thesis using schema_extends_refl [OF assms(1)] by simp
next
  case False
  then have "sc_hash H s \<noteq> sc_hash H t" "contract = FREEZE \<Longrightarrow> \<not> frozen_conflict (sc_columns s) (sc_columns t)"
    by auto
  from schema_merge_ok [OF this(1) assms this(2)] obtain m ch where
    m: "schema_merge H contract s t = (Inr m, ch)" "wf_schema m"
      "sc_version m = sc_version s + (if ch \<noteq> [] then 1 else 0)"
      "\<And>n. get_column m n = evolved_column contract (sc_columns s) (sc_columns t) n" by metis
  have "case type_of s n of Some a \<Rightarrow> (case type_of m n of
            Some b \<Rightarrow> can_widen a b \<and> (contract = FREEZE \<longrightarrow> a = b) | None \<Rightarrow> False)
      | None \<Rightarrow> type_of m n = None \<or> contract = EVOLVE" for n
  proof (cases "map_of (sc_columns s) n")
    case None
    then show ?thesis using m(4) [of n] by (simp add: type_of_def get_column_def evolved_column_def)
  next
    case (Some c)
    note k = type_of_kept [OF Some, of m "sc_columns t"]
    have "col_type c = col_type d" if "contract = FREEZE" "map_of (sc_columns t) n = Some d" for d
      using accepted_types [of s t n "col_type d"] False that assms Some by (simp add: type_of_def get_column_def)
    then show ?thesis using k m(4) [of n] Some merged_type_upper
      by (auto simp: evolved_column_def can_widen_le merged_type_def split: option.splits)
  qed
  with m show ?thesis by (simp add: schema_extends_def next_schema_def)
qed

text \<open>
  C30. A schema only grows during a run, whatever the records are: the version never decreases, no column is lost,
  and each column's type only widens. Only the \<open>EVOLVE\<close> contract adds columns, and a frozen schema keeps the
  type of every column.
\<close>

theorem schema_only_grows:
  assumes "process_all H dump rs p = (out, q)" "pr_current_schema p = Some s" "wf_schema s"
  shows "\<exists>t. pr_current_schema q = Some t \<and> schema_extends (pr_contract p) s t"
  using assms
proof (induction rs arbitrary: p s out)
  case Nil
  then show ?case by (simp add: schema_extends_refl)
next
  case (Cons r rs)
  obtain x u where st: "process_schema H dump r p = (x, u)" by fastforce
  obtain out' where rest: "process_all H dump rs u = (out', q)" using Cons.prems(1) st by (auto split: prod.splits)
  from process_schema_next [OF st Cons.prems(2)] obtain s' where
    s': "pr_current_schema u = Some s'" "schema_extends (pr_contract p) s s'"
    using schema_extends_refl [OF Cons.prems(3)] next_schema_extends [OF Cons.prems(3) record_schema_wf] by metis
  from Cons.IH [OF rest s'(1)] s'(2) process_schema_keeps [OF st] show ?case
    using schema_extends_trans by (metis schema_extends_def)
qed

section \<open>What a contract lets through\<close>

lemma forwarded:
  assumes "process_schema H dump r p = (Inr res, q)" "pr_current_schema p = Some s" "re_record res = Some r'"
  shows "candidate_of p r = Inr r' \<and> \<not> row_discarded dump p r \<and>
    (sc_columns (record_schema dump r' p) = [] \<or>
     (\<exists>m ch. schema_merge H (pr_contract p) s (record_schema dump r' p) = (Inr m, ch)))"
  using assms
  by (auto simp: process_schema_def record_schema_def infer_record_schema_def Let_def
      split: if_splits option.splits prod.splits sum.splits)

text \<open>
  Whether a field of a forwarded record is in its dict or its instance dict. The fields of a model that are not are
  its extras and what \<open>model_dump\<close> adds to its fields, such as computed ones.
\<close>

definition instance_field :: "srecord \<Rightarrow> string \<Rightarrow> bool" where
  "instance_field r n = (case r of ModelRecord _ attrs _ \<Rightarrow> n \<in> fst ` set attrs | _ \<Rightarrow> True)"

definition allowed :: "SchemaContract \<Rightarrow> Schema \<Rightarrow> srecord \<Rightarrow> string \<times> field_value \<Rightarrow> bool" where
  "allowed contract s r nv = (case contract of
       EVOLVE \<Rightarrow> True
     | FREEZE \<Rightarrow> type_of s (fst nv) = Some (infer_python_type (snd nv))
     | DISCARD_COLUMN \<Rightarrow> instance_field r (fst nv) \<longrightarrow> has_column s (fst nv)
     | DISCARD_ROW \<Rightarrow> has_column s (fst nv) \<and>
         (snd nv = Val PNone \<or> type_of s (fst nv) = Some (infer_python_type (snd nv))))"

lemma infer_NULL: "infer_python_type v = NULL \<longleftrightarrow> v = Val PNone"
  by (auto simp: infer_python_type_def split: field_value.splits pyval.splits)

lemma no_columns_no_fields: "sc_columns (record_schema dump r p) = [] \<Longrightarrow> extract_record_fields dump r = []"
proof (rule ccontr)
  assume none: "sc_columns (record_schema dump r p) = []" and "extract_record_fields dump r \<noteq> []"
  then obtain n v f where f: "extract_record_fields dump r = (n, v) # f" by (cases "extract_record_fields dump r") auto
  have "type_of (record_schema dump r p) n = None" using none by (simp add: type_of_def get_column_def)
  then show False by (simp add: type_of_record f observed_def Let_def)
qed

lemma frozen_allows:
  assumes "schema_merge H FREEZE s (record_schema dump r p) = (Inr m, ch)" "wf_schema s"
    and "distinct (map fst (extract_record_fields dump r))" "(n, v) \<in> set (extract_record_fields dump r)"
    and coll: "sc_hash H s = sc_hash H (record_schema dump r p) \<Longrightarrow>
      compute_hash_content s = compute_hash_content (record_schema dump r p)"
  shows "type_of s n = Some (infer_python_type v)"
proof -
  have t: "type_of (record_schema dump r p) n = Some (infer_python_type v)"
    using assms(3,4) by (simp add: type_of_distinct_record)
  show ?thesis
  proof (cases "sc_hash H s = sc_hash H (record_schema dump r p)")
    case True
    then show ?thesis using content_types [OF coll assms(2) record_schema_wf] t by simp
  next
    case False
    then have "\<not> frozen_conflict (sc_columns s) (sc_columns (record_schema dump r p))"
      using schema_merge_refused [OF False assms(2) record_schema_wf] assms(1) by auto
    from accepted_types [OF this assms(2) record_schema_wf t] show ?thesis .
  qed
qed

lemma discard_row_allows:
  assumes "\<not> record_violates_schema dump r s" "(n, v) \<in> set (extract_record_fields dump r)"
  shows "has_column s n \<and> (v = Val PNone \<or> type_of s n = Some (infer_python_type v))"
proof -
  have v: "\<not> (case get_column s n of
         None \<Rightarrow> True
       | Some col \<Rightarrow>
           let t = infer_python_type v in
           if t = NULL then False
           else if t \<noteq> col_type col \<and> \<not> can_widen (col_type col) t then True
           else t \<noteq> col_type col)"
    using assms unfolding record_violates_schema_def list_ex_iff by blast
  then obtain col where c: "get_column s n = Some col" by (cases "get_column s n") auto
  have "has_column s n" using c map_of_eq_None_iff [of "sc_columns s" n] by (simp add: has_column_def get_column_def)
  moreover have "infer_python_type v = NULL \<or> infer_python_type v = col_type col" using v c
    by (simp add: Let_def split: if_splits)
  ultimately show ?thesis using c by (auto simp: type_of_def infer_NULL)
qed

lemma discard_column_allows:
  assumes "discard_unknown_columns r (map fst (sc_columns s)) = Inr r'" "(n, v) \<in> set (extract_record_fields dump r')"
    and "instance_field r' n"
  shows "has_column s n"
  using assms
  by (cases r) (auto simp: discard_unknown_columns_def Let_def extract_record_fields_def instance_field_def has_column_def
      filter_id_conv image_iff split: if_splits)

text \<open>
  C25. What the processor forwards keeps the contract: under \<open>FREEZE\<close> every field of a forwarded record is a column of
  the schema and has its type; under \<open>DISCARD_ROW\<close> every field is a column and is \<open>None\<close> or has its type; under
  \<open>DISCARD_COLUMN\<close> every field of a dict, of an object or of a model's own attributes is a column (the extras and the
  computed fields of a model are let through: lemma \<open>discard_column_keeps_extras\<close>). The digests of the schema and of
  the record's schema do not collide, and the keys of the record are distinct, as in any dict.
\<close>

theorem contract_enforced:
  assumes "process_schema H dump r p = (Inr res, q)" "pr_current_schema p = Some s" "re_record res = Some r'"
    and "wf_schema s" "distinct (map fst (extract_record_fields dump r'))"
    and "sc_hash H s = sc_hash H (record_schema dump r' p) \<Longrightarrow>
      compute_hash_content s = compute_hash_content (record_schema dump r' p)"
  shows "list_all (allowed (pr_contract p) s r') (extract_record_fields dump r')"
proof -
  note f = forwarded [OF assms(1,2,3)]
  have "allowed (pr_contract p) s r' (n, v)" if nv: "(n, v) \<in> set (extract_record_fields dump r')" for n v
  proof (cases "pr_contract p")
    case EVOLVE
    then show ?thesis by (simp add: allowed_def)
  next
    case FREEZE
    have "sc_columns (record_schema dump r' p) \<noteq> []" using no_columns_no_fields nv by fastforce
    then show ?thesis using f frozen_allows [OF _ assms(4,5) nv assms(6)] FREEZE by (auto simp: allowed_def)
  next
    case DISCARD_COLUMN
    then have "discard_unknown_columns r (map fst (sc_columns s)) = Inr r'"
      using f assms(2) by (simp add: candidate_of_def)
    with DISCARD_COLUMN discard_column_allows [OF this nv] show ?thesis by (simp add: allowed_def)
  next
    case DISCARD_ROW
    then have "\<not> record_violates_schema dump r' s" using f assms(2) by (auto simp: candidate_of_def row_discarded_def)
    from discard_row_allows [OF this nv] DISCARD_ROW show ?thesis by (simp add: allowed_def)
  qed
  then show ?thesis by (auto simp: list_all_iff)
qed

section \<open>Streaming against inference\<close>

text \<open>
  A stream in which no value narrows its column: the types of each record are wider than, or equal to, the
  current ones. The digests do not collide on the way.
\<close>

definition rises :: "Schema \<Rightarrow> Schema \<Rightarrow> bool" where
  "rises s t \<longleftrightarrow> list_all (\<lambda>nc. case type_of s (fst nc) of
     Some a \<Rightarrow> (case type_of t (fst nc) of Some b \<Rightarrow> can_widen a b | None \<Rightarrow> True) | None \<Rightarrow> True) (sc_columns t)"

definition no_collision :: "(schema_content \<Rightarrow> string) \<Rightarrow> Schema \<Rightarrow> Schema \<Rightarrow> bool" where
  "no_collision H s t \<longleftrightarrow> sc_hash H s \<noteq> sc_hash H t \<or> compute_hash_content s = compute_hash_content t"

fun upward :: "(schema_content \<Rightarrow> string) \<Rightarrow> (row \<Rightarrow> row \<Rightarrow> row) \<Rightarrow> srecord list \<Rightarrow> SchemaProcessor \<Rightarrow> bool" where
  "upward H dump [] p = True"
| "upward H dump (r # rs) p =
     ((case pr_current_schema p of
         None \<Rightarrow> True
       | Some s \<Rightarrow> rises s (record_schema dump r p) \<and> no_collision H s (record_schema dump r p)) \<and>
      upward H dump rs (snd (process_schema H dump r p)))"

definition join_types :: "DataType list \<Rightarrow> DataType option" where
  "join_types ts = (if ts = [] then None else Some (foldr sup ts NULL))"

fun join_opt :: "DataType option \<Rightarrow> DataType option \<Rightarrow> DataType option" where
  "join_opt None y = y"
| "join_opt (Some a) None = Some a"
| "join_opt (Some a) (Some b) = Some (sup a b)"

lemma foldr_sup_append: "foldr sup (ts @ us) (NULL :: DataType) = sup (foldr sup ts NULL) (foldr sup us NULL)"
  by (induction ts) (simp_all add: sup_NULL sup_assoc del: foldr_append)

lemma join_types_append: "join_types (ts @ us) = join_opt (join_types ts) (join_types us)"
  by (simp add: join_types_def foldr_sup_append sup_NULL del: foldr_append)

lemma type_of_record_join: "type_of (record_schema dump r p) n = join_types (observed n (extract_record_fields dump r))"
  by (simp add: type_of_record join_types_def Let_def)

lemma type_of_inferred:
  "type_of (infer_schema dump rs table) n = join_types (observed n (concat (map (extract_record_fields dump) rs)))"
  by (simp add: type_of_def get_column_def infer_schema_columns column_of_def join_types_def)

lemma rises_at: "rises s t \<Longrightarrow> type_of s n = Some a \<Longrightarrow> type_of t n = Some b \<Longrightarrow> a \<le> b"
proof -
  assume r: "rises s t" and a: "type_of s n = Some a" and b: "type_of t n = Some b"
  from b obtain c where "(n, c) \<in> set (sc_columns t)"
    by (auto simp: type_of_def get_column_def dest: map_of_SomeD)
  with r a b show "a \<le> b" by (fastforce simp: rises_def list_all_iff can_widen_le)
qed

lemma evolve_joins:
  assumes "wf_schema s" "wf_schema t" "rises s t" "no_collision H s t"
  shows "type_of (next_schema H EVOLVE s t) n = join_opt (type_of s n) (type_of t n)"
proof (cases "sc_hash H s = sc_hash H t")
  case True
  then have "compute_hash_content s = compute_hash_content t" using assms(4) by (simp add: no_collision_def)
  from content_types [OF this assms(1,2), of n] True show ?thesis by (cases "type_of t n") (simp_all add: next_schema_def schema_merge_def)
next
  case False
  have "EVOLVE = FREEZE \<Longrightarrow> \<not> frozen_conflict (sc_columns s) (sc_columns t)" by simp
  from schema_merge_ok [OF False assms(1,2) this] obtain m ch where
    m: "schema_merge H EVOLVE s t = (Inr m, ch)"
      "\<And>n. get_column m n = evolved_column EVOLVE (sc_columns s) (sc_columns t) n" by metis
  have next_eq: "next_schema H EVOLVE s t = m" using m(1) by (simp add: next_schema_def)
  show ?thesis
  proof (cases "map_of (sc_columns s) n")
    case None
    then show ?thesis using m(2) [of n] by (simp add: next_eq type_of_def get_column_def evolved_column_def)
  next
    case (Some c)
    have k: "type_of s n = Some (col_type c)" "type_of m n = Some (case map_of (sc_columns t) n of
       Some d \<Rightarrow> merged_type (col_type c) (col_type d) | None \<Rightarrow> col_type c)"
      using type_of_kept [OF Some, of m "sc_columns t"] m(2) [of n] Some by (simp_all add: evolved_column_def)
    show ?thesis
    proof (cases "map_of (sc_columns t) n")
      case None
      then have "type_of t n = None" by (simp add: type_of_def get_column_def)
      with k None show ?thesis by (simp add: next_eq)
    next
      case d: (Some d)
      then have t: "type_of t n = Some (col_type d)" by (simp add: type_of_def get_column_def)
      from rises_at [OF assms(3) k(1) t] show ?thesis
        using k d t by (simp add: next_eq merged_type_def can_widen_le sup_absorb2)
    qed
  qed
qed

text \<open>One record: the current types are joined with the record's.\<close>

definition current_type :: "SchemaProcessor \<Rightarrow> string \<Rightarrow> DataType option" where
  "current_type p n = (case pr_current_schema p of None \<Rightarrow> None | Some s \<Rightarrow> type_of s n)"

definition wf_processor :: "SchemaProcessor \<Rightarrow> bool" where
  "wf_processor p \<longleftrightarrow> pred_option wf_schema (pr_current_schema p)"

lemma process_schema_evolve:
  assumes "process_schema H dump r p = (x, q)" "pr_contract p = EVOLVE"
  shows "pr_current_schema q = (if sc_columns (record_schema dump r p) = [] then pr_current_schema p
     else Some (case pr_current_schema p of
         None \<Rightarrow> record_schema dump r p
       | Some s \<Rightarrow> next_schema H EVOLVE s (record_schema dump r p)))"
  using assms
  by (auto simp: process_schema_def record_schema_def infer_record_schema_def Let_def next_schema_def row_discarded_def
      candidate_of_def split: if_splits option.splits prod.splits sum.splits)

lemma evolve_step:
  assumes "process_schema H dump r p = (x, q)" "pr_contract p = EVOLVE" "wf_processor p" "upward H dump (r # rs) p"
  shows "wf_processor q \<and> current_type q n = join_opt (current_type p n) (join_types (observed n (extract_record_fields dump r)))"
proof (cases "sc_columns (record_schema dump r p) = []")
  case True
  then have "join_types (observed n (extract_record_fields dump r)) = None"
    using no_columns_no_fields by (simp add: join_types_def observed_def)
  then show ?thesis using process_schema_evolve [OF assms(1,2)] True assms(3)
    by (cases "current_type p n") (simp_all add: wf_processor_def current_type_def)
next
  case False
  note q = process_schema_evolve [OF assms(1,2)]
  show ?thesis
  proof (cases "pr_current_schema p")
    case None
    then show ?thesis using q False record_schema_wf
      by (simp add: wf_processor_def current_type_def type_of_record_join)
  next
    case (Some s)
    then have s: "wf_schema s" "rises s (record_schema dump r p)" "no_collision H s (record_schema dump r p)"
      using assms(3,4) by (simp_all add: wf_processor_def)
    have "wf_schema (next_schema H EVOLVE s (record_schema dump r p))"
      using next_schema_extends [OF s(1) record_schema_wf] by (simp add: schema_extends_def)
    then show ?thesis using q False Some evolve_joins [OF s(1) record_schema_wf s(2,3)]
      by (simp add: wf_processor_def current_type_def type_of_record_join)
  qed
qed

lemma evolve_stream:
  assumes "process_all H dump rs p = (out, q)" "pr_contract p = EVOLVE" "wf_processor p" "upward H dump rs p"
    and "\<And>n. current_type p n = join_types (observed n f)"
  shows "current_type q n = join_types (observed n (f @ concat (map (extract_record_fields dump) rs)))"
  using assms
proof (induction rs arbitrary: p f out)
  case (Cons r rs)
  obtain x u where st: "process_schema H dump r p = (x, u)" by fastforce
  obtain out' where rest: "process_all H dump rs u = (out', q)" using Cons.prems(1) st by (auto split: prod.splits)
  note step = evolve_step [OF st Cons.prems(2,3,4)]
  have "current_type u n = join_types (observed n (f @ extract_record_fields dump r))" for n
    using step [of n] Cons.prems(5) [of n] join_types_append by (simp add: observed_def)
  moreover have "upward H dump rs u" using Cons.prems(4) st by simp
  moreover have "pr_contract u = EVOLVE" using process_schema_keeps [OF st] Cons.prems(2) by simp
  ultimately show ?case using Cons.IH [OF rest] step by simp
qed simp

text \<open>
  Evolving the schema record by record gives the types that inference gives to the whole list, provided that no
  value is narrower than its column. (The lemmas below show what happens otherwise.)
\<close>

theorem streaming_agrees_with_inference:
  assumes "process_all H dump rs (new_processor table EVOLVE) = (out, q)"
    and "upward H dump rs (new_processor table EVOLVE)"
  shows "current_type q n = type_of (infer_schema dump rs table) n"
  using evolve_stream [OF assms(1) _ _ assms(2), of "[]" n]
  by (simp add: new_processor_def wf_processor_def current_type_def join_types_def observed_def type_of_inferred)

section \<open>Round trip through a store\<close>

lemma data_type_round_trip: "data_type_of (data_type_value t) = Some t"
  by (cases t) (simp_all add: data_type_of_def)

lemma column_round_trip: "column_from_dict (column_to_dict c) = Some (Inr c)"
  by (simp add: column_from_dict_def column_to_dict_def item_def dict_get_def data_type_round_trip)

lemma columns_round_trip: "columns_from_dict (map (\<lambda>(n, c). (n, column_to_dict c)) cols) = Some (Inr cols)"
  by (induction cols) (auto simp: column_round_trip)

lemma schema_round_trip: "schema_from_dict H strict (schema_to_dict H s) = Some (Inr s)"
  by (cases s) (simp add: schema_from_dict_def schema_to_dict_def item_def dict_get_def columns_round_trip Let_def)

context state_backend
begin

lemma schema_load_after_save:
  assumes "invar b"
  shows "fst (schema_store_load B H contract t pid table (schema_store_save B H pid table s b)) = Some (Inr (Some s))"
proof -
  have "fst (op_get B t (schema_key pid table) (schema_store_save B H pid table s b)) =
      Some (mk_stored (schema_to_dict H s) None)"
    using assms by (simp add: schema_store_save_def get_after_set expired_def mk_stored_def)
  moreover have "is_dict (schema_to_dict H s)" by (simp add: schema_to_dict_def is_dict_def)
  ultimately show ?thesis
    by (auto simp: schema_store_load_def mk_stored_def schema_round_trip split: prod.splits)
qed

lemma schema_save_other:
  assumes "invar b" "schema_key pid table \<noteq> schema_key pid' table'"
  shows "fst (schema_store_load B H contract t pid' table' (schema_store_save B H pid table s b)) =
     fst (schema_store_load B H contract t pid' table' b)"
proof -
  have "fst (op_get B t (schema_key pid' table') (schema_store_save B H pid table s b)) =
      fst (op_get B t (schema_key pid' table') b)"
    using assms by (simp add: schema_store_save_def get_after_set_other)
  then show ?thesis by (auto simp: schema_store_load_def split: prod.splits option.splits)
qed

end

text \<open>
  A schema saved for a pipeline and a table is what a later load gives back, with every column in its order, and
  it leaves alone what any pair with another key loads, whatever the contract of the store.
\<close>

theorem schema_store_roundtrip:
  assumes "wf_store rows"
  shows "fst (schema_store_load SQLiteBackend H contract t pid' table'
      (schema_store_save SQLiteBackend H pid table s rows)) =
    (if schema_key pid' table' = schema_key pid table then Some (Inr (Some s))
     else fst (schema_store_load SQLiteBackend H contract t pid' table' rows))"
proof (cases "schema_key pid' table' = schema_key pid table")
  case True
  then have "fst (schema_store_load SQLiteBackend H contract t pid' table' b) =
      fst (schema_store_load SQLiteBackend H contract t pid table b)" for b
    by (simp add: schema_store_load_def split: prod.split option.split)
  with True sql.schema_load_after_save [OF assms] show ?thesis by simp
next
  case False
  with sql.schema_save_other [OF assms] show ?thesis by simp
qed

text \<open>The key joins its two parts with a colon, so two pairs can share a key.\<close>

lemma schema_keys_collide: "schema_key ''a:b'' ''c'' = schema_key ''a'' ''b:c''"
  by (simp add: schema_key_def)

section \<open>Examples\<close>

definition demo_digest :: "schema_content \<Rightarrow> string" where
  "demo_digest c = concat (map (\<lambda>(n, t, b). n @ ''='' @ t @ '';'') (snd c))"

definition int_row :: "int \<Rightarrow> srecord" where
  "int_row i = DictRecord [(''id'', Val (PInt i))]"

definition none_row :: srecord where
  "none_row = DictRecord [(''id'', Val PNone)]"

definition int_schema :: Schema where
  "int_schema = \<lparr>sc_table = ''t'', sc_columns = [(''id'', \<lparr>col_name = ''id'', col_type = INTEGER,
     col_nullable = True, col_inferred_from = 1\<rparr>)], sc_version = 1\<rparr>"

definition int_processor :: "SchemaContract \<Rightarrow> SchemaProcessor" where
  "int_processor contract = load_schema (Some int_schema) (new_processor ''t'' contract)"

theorem schema_only_grows_witness:
  "case pr_current_schema (snd (process_all demo_digest (@) [int_row 1, none_row] (int_processor EVOLVE))) of
     None \<Rightarrow> False | Some t \<Rightarrow> schema_extends EVOLVE int_schema t"
proof -
  have "pr_current_schema (int_processor EVOLVE) = Some int_schema" "wf_schema int_schema" "pr_contract (int_processor EVOLVE) = EVOLVE"
    by (simp_all add: int_processor_def load_schema_def wf_schema_def int_schema_def new_processor_def)
  with schema_only_grows [OF prod.collapse [symmetric] this(1,2), of demo_digest "(@)" "[int_row 1, none_row]"]
  show ?thesis by auto
qed

definition demo_record_model :: srecord where
  "demo_record_model = ModelRecord False [(''id'', Val (PInt 5)), (''x'', Val (PInt 6))] []"

definition demo_kept :: srecord where
  "demo_kept = ModelRecord False [(''id'', Val (PInt 5))] []"

theorem contract_enforced_witness:
  "fst (process_schema demo_digest (@) demo_record_model (int_processor DISCARD_COLUMN)) =
     Inr \<lparr>re_record = Some demo_kept, re_schema = Some int_schema, re_changes = []\<rparr> \<and>
   list_all (allowed DISCARD_COLUMN int_schema demo_kept) (extract_record_fields (@) demo_kept)"
proof -
  let ?p = "int_processor DISCARD_COLUMN" let ?r = "process_schema demo_digest (@) demo_record_model (int_processor DISCARD_COLUMN)"
  have r: "fst ?r = Inr \<lparr>re_record = Some demo_kept, re_schema = Some int_schema, re_changes = []\<rparr>" by code_simp
  then have pr: "?r = (Inr \<lparr>re_record = Some demo_kept, re_schema = Some int_schema, re_changes = []\<rparr>, snd ?r)"
    by (metis prod.collapse)
  have h: "compute_hash_content int_schema = compute_hash_content (record_schema (@) demo_kept ?p)" by code_simp
  have s: "pr_current_schema ?p = Some int_schema" "pr_contract ?p = DISCARD_COLUMN"
    by (simp_all add: int_processor_def load_schema_def new_processor_def)
  have "wf_schema int_schema" "distinct (map fst (extract_record_fields (@) demo_kept))"
    by (simp_all add: wf_schema_def int_schema_def demo_kept_def extract_record_fields_def)
  from contract_enforced [OF pr s(1) _ this] h s(2) r show ?thesis by simp
qed

text \<open>
  What a model holds beyond its declared fields passes \<open>DISCARD_COLUMN\<close>: the value stays in the forwarded record.
\<close>

lemma discard_column_keeps_extras:
  "let r = ModelRecord False [(''id'', Val (PInt 5))] [(''x'', Val (PInt 6))] in
   map_option (extract_record_fields (@)) (re_record (projr (fst (process_schema demo_digest (@) r (int_processor DISCARD_COLUMN))))) =
     Some [(''id'', Val (PInt 5)), (''x'', Val (PInt 6))]"
  by code_simp

text \<open>
  From a frozen model no unknown column can be deleted: the processor raises, and the middleware, which takes any
  Exception of the processor for a failed observation, forwards the record as it came.
\<close>

lemma discard_column_forwards_frozen:
  "let r = ModelRecord True [(''x'', Val (PInt 6))] [] in
   fst (process_schema demo_digest (@) r (int_processor DISCARD_COLUMN)) = Inl (mk_exn ValueErrorC ''frozen_instance'') \<and>
   fst (schema_process demo_digest (@) r \<lparr>mw_processor = int_processor DISCARD_COLUMN, mw_extras_schema = None\<rparr>) = Some r"
  by code_simp

theorem streaming_agrees_with_inference_witness:
  "current_type (snd (process_all demo_digest (@) [none_row, int_row 1, DictRecord [(''id'', Val (PFloat 2))]] (new_processor ''t'' EVOLVE))) ''id'' =
     type_of (infer_schema (@) [none_row, int_row 1, DictRecord [(''id'', Val (PFloat 2))]] ''t'') ''id''"
  by (rule streaming_agrees_with_inference [OF prod.collapse [symmetric]]) code_simp

theorem schema_store_roundtrip_witness:
  "fst (schema_store_load SQLiteBackend demo_digest FREEZE 0 ''p'' ''t'' (schema_store_save SQLiteBackend demo_digest ''p'' ''t'' int_schema [])) =
     Some (Inr (Some int_schema))"
  using schema_store_roundtrip [of "[]" demo_digest FREEZE 0 "''p''" "''t''" "''p''" "''t''" int_schema]
  by (simp add: wf_store_def)

text \<open>A \<open>None\<close> turns an integer column into text, where inference keeps it an integer.\<close>

lemma none_makes_text:
  "current_type (snd (process_all demo_digest (@) [int_row 1, none_row] (new_processor ''t'' EVOLVE))) ''id'' = Some STRING \<and>
     type_of (infer_schema (@) [int_row 1, none_row] ''t'') ''id'' = Some INTEGER"
  by code_simp

text \<open>So does an integer in a column of floats.\<close>

lemma integer_after_float_makes_text:
  "current_type (snd (process_all demo_digest (@) [DictRecord [(''id'', Val (PFloat 2))], int_row 1] (new_processor ''t'' EVOLVE))) ''id'' =
     Some STRING \<and>
   type_of (infer_schema (@) [DictRecord [(''id'', Val (PFloat 2))], int_row 1] ''t'') ''id'' = Some FLOAT"
  by code_simp

text \<open>Under \<open>DISCARD_ROW\<close> a \<open>None\<close> passes, and every integer after it is discarded.\<close>

lemma none_poisons_discard_row:
  "fst (process_all demo_digest (@) [int_row 1, none_row, int_row 2, int_row 3] (int_processor DISCARD_ROW)) =
     [Some (int_row 1), Some none_row, None, None]"
  by code_simp

text \<open>A frozen schema drops a record with a \<open>None\<close>.\<close>

lemma frozen_drops_none:
  "fst (process_all demo_digest (@) [int_row 1, none_row] (int_processor FREEZE)) = [Some (int_row 1), None]"
  by code_simp

text \<open>
  A stored schema whose digest does not match raises for a frozen store, but the middleware logs it and starts
  without a schema: the next record defines it, and \<open>on_stop\<close> overwrites the stored one.
\<close>

lemma frozen_mismatch_adopts_new_schema:
  "let m = schema_on_start (Some (Inl (mk_exn ValueErrorC ''Schema hash mismatch'')))
        \<lparr>mw_processor = new_processor ''t'' FREEZE, mw_extras_schema = None\<rparr>;
      (out, m) = schema_process demo_digest (@) (DictRecord [(''x'', Val (PStr ''a''))]) m
   in (out, map_option column_names (fst (schema_on_stop True m))) =
      (Some (DictRecord [(''x'', Val (PStr ''a''))]), Some [''x''])"
  by code_simp

end
