(* ===== verification/Dedup.thy ===== *)
theory Dedup
  imports Failures State_Backend
begin

text \<open>
  Deduplication: the stores of \<^verbatim>\<open>middlewares/dedup/stores\<close> on a state backend, and \<open>DedupMiddleware\<close> of
  \<^verbatim>\<open>middlewares/dedup/middleware.py\<close>. The key function, the similarity of a strategy and stores from plugins
  are application code, hence parameters. Offloading a call to a thread does not change its result.

  A record that passes registers two callbacks on its success hook: \<open>commit_marker\<close> and \<open>discard_marker\<close>; the
  delivery engine runs one of them when the record is settled. The locale \<open>dedup_contract\<close> is what the
  middleware needs of an exact store.
\<close>

section \<open>Stores\<close>

record 'e dedup_store =
  ds_exists :: "rat \<Rightarrow> string \<Rightarrow> 'e \<Rightarrow> (exn + bool) \<times> 'e"
  ds_add :: "rat \<Rightarrow> string \<Rightarrow> 'e \<Rightarrow> (exn + unit) \<times> 'e"
  ds_mark_if_new :: "rat \<Rightarrow> string \<Rightarrow> int option \<Rightarrow> 'e \<Rightarrow> (exn + bool) \<times> 'e"

definition BackendDedupStore :: "'b backend_ops \<Rightarrow> MembershipKeyStore \<Rightarrow> int option \<Rightarrow> 'b dedup_store" where
  "BackendDedupStore B m default_ttl = \<lparr>
     ds_exists = (\<lambda>now key b. case member_contains B m now key b of (r, b) \<Rightarrow> (Inr r, b)),
     ds_add = (\<lambda>now key b. (Inr (), member_add B m now key default_ttl b)),
     ds_mark_if_new = (\<lambda>now key ttl b.
       case member_mark_if_new B m now key (case ttl of None \<Rightarrow> default_ttl | Some x \<Rightarrow> Some x) b of (r, b) \<Rightarrow> (Inr r, b))\<rparr>"

definition SQLiteDedupStore :: "string \<Rightarrow> int option \<Rightarrow> store dedup_store" where
  "SQLiteDedupStore namespace ttl =
     BackendDedupStore SQLiteBackend \<lparr>mk_namespace = namespace, mk_default_ttl_s = None\<rparr> ttl"

text \<open>\<open>InMemoryStore\<close>: with a maximal size, an \<open>OrderedDict\<close> of the keys, least recently used first.\<close>

record lru_store =
  lr_backend :: store
  lr_keys :: "string list"

definition move_to_end :: "string \<Rightarrow> string list \<Rightarrow> string list" where
  "move_to_end k ks = removeAll k ks @ [k]"

definition lru_member :: "string \<Rightarrow> MembershipKeyStore" where
  "lru_member namespace = \<lparr>mk_namespace = namespace, mk_default_ttl_s = None\<rparr>"

definition exists_in_lru :: "string \<Rightarrow> rat \<Rightarrow> string \<Rightarrow> lru_store \<Rightarrow> bool \<times> lru_store" where
  "exists_in_lru namespace now key s =
     (if key \<notin> set (lr_keys s) then (False, s)
      else case member_contains MemoryBackend (lru_member namespace) now key (lr_backend s) of
          (False, b) \<Rightarrow> (False, \<lparr>lr_backend = b, lr_keys = removeAll key (lr_keys s)\<rparr>)
        | (True, b) \<Rightarrow> (True, \<lparr>lr_backend = b, lr_keys = move_to_end key (lr_keys s)\<rparr>))"

definition remember_with_lru :: "string \<Rightarrow> int \<Rightarrow> rat \<Rightarrow> string \<Rightarrow> int option \<Rightarrow> lru_store \<Rightarrow> lru_store" where
  "remember_with_lru namespace max_size now key ttl s =
     (let b = member_add MemoryBackend (lru_member namespace) now key ttl (lr_backend s);
          keys = move_to_end key (lr_keys s)
      in if max_size \<noteq> 0 \<and> int (length keys) > max_size
         then \<lparr>lr_backend = member_delete MemoryBackend (lru_member namespace) (hd keys) b, lr_keys = tl keys\<rparr>
         else \<lparr>lr_backend = b, lr_keys = keys\<rparr>)"

definition LruStore :: "string \<Rightarrow> int \<Rightarrow> lru_store dedup_store" where
  "LruStore namespace max_size = \<lparr>
     ds_exists = (\<lambda>now key s. case exists_in_lru namespace now key s of (r, s) \<Rightarrow> (Inr r, s)),
     ds_add = (\<lambda>now key s. (Inr (), remember_with_lru namespace max_size now key None s)),
     ds_mark_if_new = (\<lambda>now key ttl s. case exists_in_lru namespace now key s of
         (True, s) \<Rightarrow> (Inr False, s)
       | (False, s) \<Rightarrow> (Inr True, remember_with_lru namespace max_size now key ttl s))\<rparr>"

text \<open>Without a maximal size \<open>mark_if_new\<close> calls the base class without the time to live it was given.\<close>

definition UnboundedStore :: "string \<Rightarrow> store dedup_store" where
  "UnboundedStore namespace = (let base = BackendDedupStore MemoryBackend (lru_member namespace) None in
     base\<lparr>ds_mark_if_new := (\<lambda>now key ttl. ds_mark_if_new base now key None)\<rparr>)"

definition purge_expired_lru_keys :: "string \<Rightarrow> rat \<Rightarrow> lru_store \<Rightarrow> lru_store" where
  "purge_expired_lru_keys namespace now s =
     fold (\<lambda>key s. case member_contains MemoryBackend (lru_member namespace) now key (lr_backend s) of
         (True, b) \<Rightarrow> s\<lparr>lr_backend := b\<rparr>
       | (False, b) \<Rightarrow> \<lparr>lr_backend = b, lr_keys = removeAll key (lr_keys s)\<rparr>) (lr_keys s) s"

section \<open>The middleware\<close>

datatype DedupStoreFailurePolicy = DEDUP_FAIL_CLOSED | DEDUP_FAIL_OPEN

record dedup_config =
  dc_strategy :: "(string \<Rightarrow> string \<Rightarrow> bool) option"
  dc_max_fuzzy_keys :: int
  dc_store_failure_policy :: DedupStoreFailurePolicy

text \<open>\<open>dm_pending_keys\<close> is a set, as a list without repetitions.\<close>

record 'e DedupMiddleware =
  dm_store :: 'e
  dm_seen_keys :: "string list option"
  dm_pending_keys :: "string list"
  dm_pending_fuzzy_keys :: "string list"
  dm_overflow_warned :: bool

definition new_dedup :: "dedup_config \<Rightarrow> 'e \<Rightarrow> 'e DedupMiddleware" where
  "new_dedup C e = \<lparr>dm_store = e, dm_seen_keys = map_option (\<lambda>_. []) (dc_strategy C), dm_pending_keys = [],
     dm_pending_fuzzy_keys = [], dm_overflow_warned = False\<rparr>"

text \<open>What \<open>process\<close> answers: the record passes, with or without a marker, or it is dropped.\<close>

datatype verdict = Marked | Unmarked | Duplicate

definition handle_store_failure :: "dedup_config \<Rightarrow> exn \<Rightarrow> exn + verdict" where
  "handle_store_failure C e =
     (if is_Exception e \<and> dc_store_failure_policy C = DEDUP_FAIL_OPEN then Inr Unmarked else Inl e)"

definition register_commit_marker :: "string \<Rightarrow> 'e DedupMiddleware \<Rightarrow> 'e DedupMiddleware" where
  "register_commit_marker key m = m\<lparr>dm_pending_keys := List.insert key (dm_pending_keys m)\<rparr>"

definition discard_marker :: "string \<Rightarrow> 'e DedupMiddleware \<Rightarrow> 'e DedupMiddleware" where
  "discard_marker key m = m\<lparr>dm_pending_keys := removeAll key (dm_pending_keys m),
     dm_pending_fuzzy_keys := remove1 key (dm_pending_fuzzy_keys m)\<rparr>"

definition commit_marker ::
  "'e dedup_store \<Rightarrow> rat \<Rightarrow> string \<Rightarrow> 'e DedupMiddleware \<Rightarrow> (exn + unit) \<times> 'e DedupMiddleware" where
  "commit_marker D now key m = (case ds_add D now key (dm_store m) of
       (Inl e, s) \<Rightarrow> (Inl e, discard_marker key (m\<lparr>dm_store := s\<rparr>))
     | (Inr _, s) \<Rightarrow>
         (Inr (), discard_marker key (m\<lparr>dm_store := s, dm_seen_keys := (case dm_seen_keys m of
             Some ks \<Rightarrow> Some (if key \<in> set ks then ks else ks @ [key]) | None \<Rightarrow> None)\<rparr>)))"

text \<open>\<open>key in self._pending_keys or await self._store.exists(key)\<close>.\<close>

definition known :: "'e dedup_store \<Rightarrow> rat \<Rightarrow> string \<Rightarrow> 'e DedupMiddleware \<Rightarrow> (exn + bool) \<times> 'e DedupMiddleware" where
  "known D now key m =
     (if key \<in> set (dm_pending_keys m) then (Inr True, m)
      else case ds_exists D now key (dm_store m) of (r, s) \<Rightarrow> (r, m\<lparr>dm_store := s\<rparr>))"

definition process_exact ::
  "dedup_config \<Rightarrow> 'e dedup_store \<Rightarrow> rat \<Rightarrow> string \<Rightarrow> 'e DedupMiddleware \<Rightarrow> (exn + verdict) \<times> 'e DedupMiddleware" where
  "process_exact C D now key m = (case known D now key m of
       (Inl e, m) \<Rightarrow> (handle_store_failure C e, m)
     | (Inr True, m) \<Rightarrow> (Inr Duplicate, m)
     | (Inr False, m) \<Rightarrow> (Inr Marked, register_commit_marker key m))"

definition dedup_process ::
  "dedup_config \<Rightarrow> 'e dedup_store \<Rightarrow> rat \<Rightarrow> string \<Rightarrow> 'e DedupMiddleware \<Rightarrow> (exn + verdict) \<times> 'e DedupMiddleware" where
  "dedup_process C D now key m = (case (dc_strategy C, dm_seen_keys m) of
       (Some is_duplicate, Some seen) \<Rightarrow>
         if int (length seen) \<ge> dc_max_fuzzy_keys C
         then process_exact C D now key (m\<lparr>dm_overflow_warned := True\<rparr>)
         else if list_ex (is_duplicate key) (seen @ dm_pending_fuzzy_keys m) then (Inr Duplicate, m)
         else (Inr Marked, register_commit_marker key
                 (m\<lparr>dm_pending_fuzzy_keys := dm_pending_fuzzy_keys m @ [key]\<rparr>))
     | _ \<Rightarrow> process_exact C D now key m)"

definition dedup_on_stop :: "'e DedupMiddleware \<Rightarrow> 'e DedupMiddleware" where
  "dedup_on_stop m = m\<lparr>dm_pending_keys := [], dm_pending_fuzzy_keys := []\<rparr>"

section \<open>A run of the middleware\<close>

text \<open>
  The middleware with the markers of the records in flight, oldest first, and the keys committed so far. A step processes
  a record, or settles one in flight; the clock may show any time at each step.
\<close>

record 'e dedup_run =
  dr_mw :: "'e DedupMiddleware"
  dr_in_flight :: "string list"
  dr_committed :: "string list"

inductive dedup_step :: "dedup_config \<Rightarrow> 'e dedup_store \<Rightarrow> 'e dedup_run \<Rightarrow> 'e dedup_run \<Rightarrow> bool" for C D where
  passes: "dedup_process C D now key (dr_mw s) = (Inr Marked, m) \<Longrightarrow>
     dedup_step C D s (s\<lparr>dr_mw := m, dr_in_flight := dr_in_flight s @ [key]\<rparr>)"
| dropped: "dedup_process C D now key (dr_mw s) = (r, m) \<Longrightarrow> r \<noteq> Inr Marked \<Longrightarrow> dedup_step C D s (s\<lparr>dr_mw := m\<rparr>)"
| commits: "key \<in> set (dr_in_flight s) \<Longrightarrow> commit_marker D now key (dr_mw s) = (Inr u, m) \<Longrightarrow>
     dedup_step C D s \<lparr>dr_mw = m, dr_in_flight = remove1 key (dr_in_flight s), dr_committed = dr_committed s @ [key]\<rparr>"
| commit_fails: "key \<in> set (dr_in_flight s) \<Longrightarrow> commit_marker D now key (dr_mw s) = (Inl e, m) \<Longrightarrow>
     dedup_step C D s (s\<lparr>dr_mw := m, dr_in_flight := remove1 key (dr_in_flight s)\<rparr>)"
| discards: "key \<in> set (dr_in_flight s) \<Longrightarrow>
     dedup_step C D s (s\<lparr>dr_mw := discard_marker key (dr_mw s), dr_in_flight := remove1 key (dr_in_flight s)\<rparr>)"

inductive dedup_reach :: "dedup_config \<Rightarrow> 'e dedup_store \<Rightarrow> 'e \<Rightarrow> 'e dedup_run \<Rightarrow> bool" for C D e where
  start: "dedup_reach C D e \<lparr>dr_mw = new_dedup C e, dr_in_flight = [], dr_committed = []\<rparr>"
| step: "dedup_reach C D e s \<Longrightarrow> dedup_step C D s t \<Longrightarrow> dedup_reach C D e t"

section \<open>The contract of an exact store\<close>

locale dedup_contract =
  fixes D :: "'e dedup_store"
    and members :: "'e \<Rightarrow> string set"
    and invar :: "'e \<Rightarrow> bool"
  assumes exists_result: "invar e \<Longrightarrow> fst (ds_exists D now k e) = Inr (k \<in> members e)"
    and exists_members: "invar e \<Longrightarrow> members (snd (ds_exists D now k e)) = members e"
    and exists_invar: "invar e \<Longrightarrow> invar (snd (ds_exists D now k e))"
    and add_result: "invar e \<Longrightarrow> fst (ds_add D now k e) = Inr ()"
    and add_members: "invar e \<Longrightarrow> members (snd (ds_add D now k e)) = insert k (members e)"
    and add_invar: "invar e \<Longrightarrow> invar (snd (ds_add D now k e))"
begin

definition run_inv :: "string set \<Rightarrow> 'e dedup_run \<Rightarrow> bool" where
  "run_inv old s \<longleftrightarrow> invar (dm_store (dr_mw s)) \<and> dm_seen_keys (dr_mw s) = None \<and>
     set (dm_pending_keys (dr_mw s)) = set (dr_in_flight s) \<and> distinct (dr_in_flight s @ dr_committed s) \<and>
     members (dm_store (dr_mw s)) = old \<union> set (dr_committed s) \<and> old \<inter> set (dr_in_flight s @ dr_committed s) = {}"

lemma process_exact_verdict:
  assumes "run_inv old s" "dc_strategy C = None" "dedup_process C D now key (dr_mw s) = (r, m)"
  shows "r = Inr (if key \<in> old \<union> set (dr_in_flight s) \<union> set (dr_committed s) then Duplicate else Marked) \<and>
    invar (dm_store m) \<and> members (dm_store m) = members (dm_store (dr_mw s)) \<and> dm_seen_keys m = None \<and>
    set (dm_pending_keys m) = set (dm_pending_keys (dr_mw s)) \<union> (if r = Inr Marked then {key} else {})"
proof -
  obtain x e where ex: "ds_exists D now key (dm_store (dr_mw s)) = (x, e)" by fastforce
  have inv: "invar (dm_store (dr_mw s))" using assms(1) by (simp add: run_inv_def)
  have "x = Inr (key \<in> members (dm_store (dr_mw s)))" "members e = members (dm_store (dr_mw s))" "invar e"
    using exists_result [OF inv, of now key] exists_members [OF inv, of now key] exists_invar [OF inv, of now key]
    by (simp_all add: ex)
  with assms ex show ?thesis
    by (auto simp: dedup_process_def process_exact_def known_def register_commit_marker_def run_inv_def
        split: if_splits)
qed

lemma step_keeps:
  assumes "dedup_step C D s t" "run_inv old s" "dc_strategy C = None"
  shows "run_inv old t"
  using assms(1)
proof cases
  case (passes now key m)
  from process_exact_verdict [OF assms(2,3) passes(2)] assms(2) passes(1) show ?thesis
    by (auto simp: run_inv_def split: if_splits)
next
  case (dropped now key r m)
  from process_exact_verdict [OF assms(2,3) dropped(2)] assms(2) dropped(1,3) show ?thesis
    by (auto simp: run_inv_def split: if_splits)
next
  case (commits key now u m)
  have inv: "invar (dm_store (dr_mw s))" using assms(2) by (simp add: run_inv_def)
  obtain x e where ad: "ds_add D now key (dm_store (dr_mw s)) = (x, e)" by fastforce
  have "members e = insert key (members (dm_store (dr_mw s)))" "invar e"
    using add_members [OF inv, of now key] add_invar [OF inv, of now key] by (simp_all add: ad)
  with commits assms(2) ad show ?thesis
    by (auto simp: run_inv_def commit_marker_def discard_marker_def split: sum.splits)
next
  case (commit_fails key now e m)
  have "invar (dm_store (dr_mw s))" using assms(2) by (simp add: run_inv_def)
  from add_result [OF this, of now key] commit_fails(3) show ?thesis
    by (auto simp: commit_marker_def split: prod.splits)
next
  case (discards key)
  with assms(2) show ?thesis by (auto simp: run_inv_def discard_marker_def)
qed

lemma reach_inv:
  "dedup_reach C D e s \<Longrightarrow> dc_strategy C = None \<Longrightarrow> invar e \<Longrightarrow> run_inv (members e) s"
proof (induction rule: dedup_reach.induct)
  case start
  then show ?case by (simp add: run_inv_def new_dedup_def)
next
  case (step s t)
  then show ?case using step_keeps by blast
qed

lemma passes_once:
  assumes "dedup_reach C D e s" "dc_strategy C = None" "invar e"
  shows "distinct (dr_in_flight s @ dr_committed s) \<and> members e \<inter> set (dr_in_flight s @ dr_committed s) = {}"
  using reach_inv [OF assms] by (simp add: run_inv_def)

lemma verdict_exact:
  assumes "dedup_reach C D e s" "dc_strategy C = None" "invar e"
  shows "fst (dedup_process C D now key (dr_mw s)) =
    Inr (if key \<in> members e \<union> set (dr_in_flight s) \<union> set (dr_committed s) then Duplicate else Marked)"
  using process_exact_verdict [OF reach_inv [OF assms] assms(2)] by (metis prod.collapse)

end

section \<open>The stores meet the contract\<close>

text \<open>Rows without an expiry time never change when they are read.\<close>

definition lasting :: "store \<Rightarrow> bool" where
  "lasting vs \<longleftrightarrow> wf_store vs \<and> (\<forall>k e. map_of vs k = Some e \<longrightarrow> sv_expires_at e = None)"

definition keys_in :: "MembershipKeyStore \<Rightarrow> store \<Rightarrow> string set" where
  "keys_in m vs = {k. map_of vs (member_full_key m k) \<noteq> None}"

lemma full_key_inj: "member_full_key m a = member_full_key m b \<longleftrightarrow> a = b"
  by (simp add: member_full_key_def)

lemma lasting_not_expired: "lasting vs \<Longrightarrow> map_of vs k = Some e \<Longrightarrow> \<not> expired now e"
  by (auto simp: lasting_def expired_def)

lemma lasting_mem_get: "lasting vs \<Longrightarrow> mem_get now k vs = (map_of vs k, vs)"
  using lasting_not_expired [of vs k] by (auto simp: mem_get_def split: option.splits)

lemma lasting_sql_get: "lasting vs \<Longrightarrow> sql_get now k vs = (map_of vs k, vs)"
  using lasting_not_expired [of vs k] by (auto simp: sql_get_def split: option.splits)

interpretation mem_dedup: dedup_contract "UnboundedStore namespace" "keys_in (lru_member namespace)" lasting
proof (unfold_locales, goal_cases)
  case (6 e now k)
  then show ?case
    by (auto simp: UnboundedStore_def BackendDedupStore_def Let_def member_add_def MemoryBackend_def mem_set_def
        lasting_def wf_store_def distinct_update update_conv' mk_stored_def member_expires_at_def lru_member_def
        split: if_splits)
qed (auto simp: UnboundedStore_def BackendDedupStore_def Let_def member_contains_def member_add_def MemoryBackend_def
    lasting_mem_get keys_in_def mem_set_def update_conv' full_key_inj)

lemma sql_set_lookup: "map_of (sql_set k v ex vs) n = (if n = k then Some (mk_stored v ex) else map_of vs n)"
  by (simp add: sql_set_def map_of_append delete_conv' map_add_def split: option.split)

interpretation sql_dedup: dedup_contract "SQLiteDedupStore namespace None"
  "keys_in \<lparr>mk_namespace = namespace, mk_default_ttl_s = None\<rparr>" lasting
proof (unfold_locales, goal_cases)
  case (6 e now k)
  then show ?case
    using sql.set_invar [of e "member_full_key \<lparr>mk_namespace = namespace, mk_default_ttl_s = None\<rparr> k" "PInt 1" None]
    by (auto simp: SQLiteDedupStore_def BackendDedupStore_def member_add_def SQLiteBackend_def sql_set_lookup
        lasting_def mk_stored_def member_expires_at_def split: if_splits)
qed (auto simp: SQLiteDedupStore_def BackendDedupStore_def member_contains_def member_add_def SQLiteBackend_def
    lasting_sql_get keys_in_def sql_set_lookup full_key_inj)

section \<open>Exactly once\<close>

text \<open>
  With an exact SQLite store, whatever the order in which records pass, are dropped, committed and discarded: no
  two records in flight or committed share a key, and none has a key that the store held before the run.
\<close>

theorem dedup_passes_each_key_once:
  assumes "dedup_reach C (SQLiteDedupStore namespace None) rows s" "dc_strategy C = None" "lasting rows"
  shows "distinct (dr_in_flight s @ dr_committed s) \<and>
    keys_in \<lparr>mk_namespace = namespace, mk_default_ttl_s = None\<rparr> rows \<inter> set (dr_in_flight s @ dr_committed s) = {}"
  by (rule sql_dedup.passes_once [OF assms])

text \<open>
  C26. No record is dropped without a reason, and none passes twice. For the exact middleware, without a fuzzy strategy, on
  the SQLite store without a time to live, whose rows from before do not expire: in every state, the middleware drops
  a record exactly when its key is in the store from before, or was committed by an earlier record, or belongs to one
  in flight. In particular a record whose key was discarded passes again.
\<close>

theorem dedup_drops_exactly_duplicates:
  assumes "dedup_reach C (SQLiteDedupStore namespace None) rows s" "dc_strategy C = None" "lasting rows"
  shows "fst (dedup_process C (SQLiteDedupStore namespace None) now key (dr_mw s)) =
    Inr (if key \<in> keys_in \<lparr>mk_namespace = namespace, mk_default_ttl_s = None\<rparr> rows \<union> set (dr_in_flight s) \<union> set (dr_committed s)
         then Duplicate else Marked)"
  by (rule sql_dedup.verdict_exact [OF assms])

definition exact_config :: dedup_config where
  "exact_config = \<lparr>dc_strategy = None, dc_max_fuzzy_keys = 100000, dc_store_failure_policy = DEDUP_FAIL_CLOSED\<rparr>"

lemma demo_reach:
  "dedup_reach exact_config (SQLiteDedupStore ''d'' None) [] \<lparr>dr_mw = register_commit_marker ''k'' (new_dedup exact_config []),
     dr_in_flight = [''k''], dr_committed = []\<rparr>"
proof -
  have "dedup_process exact_config (SQLiteDedupStore ''d'' None) 0 ''k'' (new_dedup exact_config []) =
      (Inr Marked, register_commit_marker ''k'' (new_dedup exact_config []))"
    by (simp add: dedup_process_def process_exact_def known_def exact_config_def new_dedup_def SQLiteDedupStore_def
        BackendDedupStore_def member_contains_def SQLiteBackend_def sql_get_def)
  from dedup_reach.step [OF dedup_reach.start dedup_step.passes] this show ?thesis by fastforce
qed

theorem dedup_passes_each_key_once_witness:
  "distinct ([''k''] @ []) \<and> keys_in \<lparr>mk_namespace = ''d'', mk_default_ttl_s = None\<rparr> [] \<inter> set ([''k''] @ []) = {}"
  using dedup_passes_each_key_once [OF demo_reach] by (simp add: exact_config_def lasting_def wf_store_def)

theorem dedup_drops_exactly_duplicates_witness:
  "fst (dedup_process exact_config (SQLiteDedupStore ''d'' None) 5 ''k''
     (register_commit_marker ''k'' (new_dedup exact_config []))) = Inr Duplicate"
  using dedup_drops_exactly_duplicates [OF demo_reach, of 5 "''k''"] by (simp add: exact_config_def lasting_def wf_store_def)

section \<open>The bounded store\<close>

datatype lru_op = LExists rat string | LAdd rat string | LMark rat string "int option"

fun lru_apply :: "string \<Rightarrow> int \<Rightarrow> lru_op \<Rightarrow> lru_store \<Rightarrow> lru_store" where
  "lru_apply ns n (LExists now k) s = snd (ds_exists (LruStore ns n) now k s)"
| "lru_apply ns n (LAdd now k) s = snd (ds_add (LruStore ns n) now k s)"
| "lru_apply ns n (LMark now k ttl) s = snd (ds_mark_if_new (LruStore ns n) now k ttl s)"

definition empty_lru :: lru_store where
  "empty_lru = \<lparr>lr_backend = [], lr_keys = []\<rparr>"

definition lru_inv :: "string \<Rightarrow> int \<Rightarrow> lru_store \<Rightarrow> bool" where
  "lru_inv ns n s \<longleftrightarrow> distinct (lr_keys s) \<and> (0 < n \<longrightarrow> int (length (lr_keys s)) \<le> n) \<and>
     fst ` set (lr_backend s) \<subseteq> member_full_key (lru_member ns) ` set (lr_keys s)"

lemma fst_delete: "fst ` set (AList.delete k xs) = fst ` set xs - {k}"
  unfolding set_map [symmetric] delete_keys by auto

lemma exists_in_lru_inv:
  assumes "lru_inv ns n s"
  shows "lru_inv ns n (snd (exists_in_lru ns now k s))"
proof (cases "k \<in> set (lr_keys s)")
  case False
  then show ?thesis using assms by (simp add: exists_in_lru_def)
next
  case True
  let ?f = "member_full_key (lru_member ns)"
  obtain r b where g: "mem_get now (?f k) (lr_backend s) = (r, b)" by fastforce
  have len: "length (removeAll k (lr_keys s)) < length (lr_keys s)" using True by (rule length_removeAll_less)
  have "b = lr_backend s \<and> (r = None \<longrightarrow> ?f k \<notin> fst ` set (lr_backend s)) \<or> b = AList.delete (?f k) (lr_backend s)"
    using g by (auto simp: mem_get_def map_of_eq_None_iff split: option.splits if_splits)
  then have b: "fst ` set b \<subseteq> fst ` set (lr_backend s)" "r = None \<Longrightarrow> ?f k \<notin> fst ` set b"
    using fst_delete [of "?f k" "lr_backend s"] by blast+
  show ?thesis
  proof (cases r)
    case None
    have "x \<in> ?f ` set (removeAll k (lr_keys s))" if x: "x \<in> fst ` set b" for x
    proof -
      have "x \<in> ?f ` set (lr_keys s)" using x b(1) assms by (auto simp only: lru_inv_def)
      moreover have "x \<noteq> ?f k" using x b(2) [OF None] by blast
      ultimately show ?thesis by auto
    qed
    then have "fst ` set b \<subseteq> ?f ` set (removeAll k (lr_keys s))" by blast
    then show ?thesis using True g None assms len
      by (auto simp: exists_in_lru_def member_contains_def MemoryBackend_def lru_inv_def distinct_removeAll)
  next
    case (Some e)
    then have "snd (exists_in_lru ns now k s) = \<lparr>lr_backend = b, lr_keys = move_to_end k (lr_keys s)\<rparr>"
      using True g by (simp add: exists_in_lru_def member_contains_def MemoryBackend_def)
    moreover have "set (move_to_end k (lr_keys s)) = set (lr_keys s)" using True by (auto simp: move_to_end_def)
    moreover have "distinct (move_to_end k (lr_keys s))" "length (move_to_end k (lr_keys s)) \<le> length (lr_keys s)"
      using assms len by (simp_all add: lru_inv_def move_to_end_def distinct_removeAll)
    moreover have "fst ` set b \<subseteq> ?f ` set (lr_keys s)" using b(1) assms unfolding lru_inv_def by (blast dest: subset_trans)
    ultimately show ?thesis using assms by (auto simp only: lru_inv_def lru_store.simps snd_conv)
  qed
qed

lemma remember_inv:
  assumes "lru_inv ns n s"
  shows "lru_inv ns n (remember_with_lru ns n now k ttl s)"
proof -
  let ?f = "member_full_key (lru_member ns)"
  let ?b = "member_add MemoryBackend (lru_member ns) now k ttl (lr_backend s)"
  let ?keys = "move_to_end k (lr_keys s)"
  have "fst ` set ?b = insert (?f k) (fst ` set (lr_backend s))"
    by (auto simp: member_add_def MemoryBackend_def mem_set_def update_conv' simp flip: dom_map_of_conv_image_fst)
  then have b: "fst ` set ?b \<subseteq> ?f ` set ?keys" using assms by (auto simp: lru_inv_def move_to_end_def)
  have keys: "distinct ?keys" "?keys \<noteq> []" "length ?keys \<le> Suc (length (lr_keys s))"
    using assms by (auto simp: lru_inv_def move_to_end_def distinct_removeAll)
  show ?thesis
  proof (cases "n \<noteq> 0 \<and> int (length ?keys) > n")
    case False
    then show ?thesis using b keys assms by (auto simp: remember_with_lru_def lru_inv_def Let_def)
  next
    case True
    obtain x xs where x: "?keys = x # xs" using keys(2) by (cases ?keys) auto
    have "fst ` set (mem_delete (?f x) ?b) \<subseteq> ?f ` set xs"
      using b keys(1) unfolding x by (auto simp: mem_delete_def fst_delete)
    then show ?thesis using True x keys assms
      by (auto simp: remember_with_lru_def lru_inv_def Let_def member_delete_def MemoryBackend_def)
  qed
qed

lemma lru_apply_inv:
  assumes "lru_inv ns n s"
  shows "lru_inv ns n (lru_apply ns n op s)"
proof (cases op)
  case (LMark now k ttl)
  obtain x u where e: "exists_in_lru ns now k s = (x, u)" by fastforce
  have "lru_inv ns n u" using exists_in_lru_inv [OF assms, of now k] e by simp
  then show ?thesis using remember_inv LMark e by (cases x) (simp_all add: LruStore_def)
next
  case (LExists now k)
  then show ?thesis using exists_in_lru_inv [OF assms, of now k] by (auto simp: LruStore_def split: prod.split)
next
  case (LAdd now k)
  then show ?thesis using remember_inv [OF assms] by (simp add: LruStore_def)
qed

text \<open>
  A store with a maximal size remembers at most that many keys, each once, and its backend holds rows of
  remembered keys only, after any sequence of operations.
\<close>

theorem lru_store_bounded:
  assumes "0 < n"
  shows "int (length (lr_keys (fold (lru_apply ns n) ops empty_lru))) \<le> n \<and>
    distinct (lr_keys (fold (lru_apply ns n) ops empty_lru)) \<and>
    fst ` set (lr_backend (fold (lru_apply ns n) ops empty_lru)) \<subseteq>
      member_full_key (lru_member ns) ` set (lr_keys (fold (lru_apply ns n) ops empty_lru))"
proof -
  have "lru_inv ns n (fold (lru_apply ns n) ops s)" if "lru_inv ns n s" for s
    using that by (induction ops arbitrary: s) (auto simp: lru_apply_inv)
  moreover have "lru_inv ns n empty_lru" by (simp add: lru_inv_def empty_lru_def)
  ultimately have "lru_inv ns n (fold (lru_apply ns n) ops empty_lru)" by blast
  then show ?thesis using assms unfolding lru_inv_def by simp
qed

theorem lru_store_bounded_witness:
  "int (length (lr_keys (fold (lru_apply ''d'' 1) [LAdd 0 ''a'', LAdd 0 ''b''] empty_lru))) \<le> 1"
  using lru_store_bounded [of 1 "''d''" "[LAdd 0 ''a'', LAdd 0 ''b'']"] by simp

text \<open>A maximal size of zero means no bound.\<close>

lemma zero_means_unbounded:
  "lr_keys (fold (lru_apply ''d'' 0) [LAdd 0 ''a'', LAdd 0 ''b''] empty_lru) = [''a'', ''b'']"
  by code_simp

text \<open>The time to live given to \<open>mark_if_new\<close> is lost without a maximal size.\<close>

lemma unbounded_mark_ignores_ttl:
  "fst (ds_mark_if_new (UnboundedStore ''d'') 100 ''a'' (Some 5)
     (snd (ds_mark_if_new (UnboundedStore ''d'') 0 ''a'' (Some 5) []))) = Inr False"
  by code_simp

text \<open>A strategy never asks the store below its limit: a key that the store holds passes.\<close>

lemma fuzzy_ignores_store:
  "fst (dedup_process (exact_config\<lparr>dc_strategy := Some (\<lambda>a b. a = b)\<rparr>) (UnboundedStore ''d'') 0 ''a''
     (new_dedup (exact_config\<lparr>dc_strategy := Some (\<lambda>a b. a = b)\<rparr>)
        [(''d:a'', mk_stored (PInt 1) None)])) = Inr Marked"
  by code_simp

end
