(* ===== verification/Caches.thy ===== *)
theory Caches
  imports Failures State_Backend "HOL-Library.List_Lexorder" "HOL-Library.Char_ord" "HOL-Library.Multiset"
begin

text \<open>
  \<^verbatim>\<open>ai/cache.py\<close>: the in-memory LRU cache for model responses, on \<open>TTLKeyValueStore\<close> over the memory backend. The
  digest and the JSON text of a dict are parameters; the lock is left out, since each operation runs under it. The
  other model caches are thin wrappers of \<open>TTLKeyValueStore\<close>.

  The cache is shown against a map with expiry: it answers nothing, or what was last stored under the key and
  is still alive.
\<close>

section \<open>The cache for model responses\<close>

text \<open>\<open>make_cache_key\<close>: the keyword arguments are merged over the prompt in one dict.\<close>

definition cache_payload :: "string \<Rightarrow> (string \<times> pyval) list \<Rightarrow> (string \<times> pyval) list" where
  "cache_payload prompt kwargs =
     sort_key fst (fold (\<lambda>(k, v). AList.update k v) (sort_key fst kwargs) [(''prompt'', PStr prompt)])"

definition make_cache_key :: "(string \<Rightarrow> string) \<Rightarrow> ((string \<times> pyval) list \<Rightarrow> string) \<Rightarrow> string \<Rightarrow> (string \<times> pyval) list \<Rightarrow> string" where
  "make_cache_key sha json prompt kwargs = sha (json (cache_payload prompt kwargs))"

definition llm_store :: TTLKeyValueStore where
  "llm_store = \<lparr>kv_namespace = ''llm_cache'', kv_default_ttl_s = Some 86400\<rparr>"

record InMemoryLLMCache =
  lc_backend :: store
  lc_order :: "string list"

definition llm_get :: "rat \<Rightarrow> string \<Rightarrow> InMemoryLLMCache \<Rightarrow> (exn + string option) \<times> InMemoryLLMCache" where
  "llm_get now key c = (case kv_get MemoryBackend llm_store now key (lc_backend c) of
     (v, b) \<Rightarrow>
       (case v of
          PNone \<Rightarrow> (Inr None, \<lparr>lc_backend = b, lc_order = removeAll key (lc_order c)\<rparr>)
        | PStr x \<Rightarrow> (Inr (Some x), \<lparr>lc_backend = b, lc_order = removeAll key (lc_order c) @ [key]\<rparr>)
        | _ \<Rightarrow> (Inl (mk_exn TypeErrorC key), c\<lparr>lc_backend := b\<rparr>)))"

definition llm_set ::
  "int \<Rightarrow> rat \<Rightarrow> string \<Rightarrow> string \<Rightarrow> int \<Rightarrow> InMemoryLLMCache \<Rightarrow> (exn + unit) \<times> InMemoryLLMCache" where
  "llm_set max_size now key v ttl c =
     (let put = (\<lambda>c. (Inr (), \<lparr>lc_backend = kv_set MemoryBackend llm_store now key (PStr v) (Some ttl) (lc_backend c),
            lc_order = removeAll key (lc_order c) @ [key]\<rparr>))
      in if key \<notin> set (lc_order c) \<and> int (length (lc_order c)) \<ge> max_size
         then (case lc_order c of
             [] \<Rightarrow> (Inl (mk_exn KeyErrorC ''dictionary is empty''), c)
           | oldest # rest \<Rightarrow>
               put \<lparr>lc_backend = kv_delete MemoryBackend llm_store oldest (lc_backend c), lc_order = rest\<rparr>)
         else put c)"

definition llm_close :: "InMemoryLLMCache \<Rightarrow> InMemoryLLMCache" where
  "llm_close c = \<lparr>lc_backend = snd (kv_clear MemoryBackend llm_store (lc_backend c)), lc_order = []\<rparr>"

text \<open>A history of calls; times need not be ordered.\<close>

datatype llm_op = LGet rat string | LSet rat string string int

fun llm_apply :: "int \<Rightarrow> llm_op \<Rightarrow> InMemoryLLMCache \<Rightarrow> InMemoryLLMCache" where
  "llm_apply n (LGet now k) c = snd (llm_get now k c)"
| "llm_apply n (LSet now k v ttl) c = snd (llm_set n now k v ttl c)"

definition empty_llm :: InMemoryLLMCache where
  "empty_llm = \<lparr>lc_backend = [], lc_order = []\<rparr>"

text \<open>What was last stored under each key, with the time at which it expires.\<close>

fun last_stored :: "llm_op list \<Rightarrow> string \<Rightarrow> (string \<times> rat) option" where
  "last_stored [] k = None"
| "last_stored (LGet _ _ # ops) k = last_stored ops k"
| "last_stored (LSet now k' v ttl # ops) k = (if k = k' then Some (v, now + of_int ttl) else last_stored ops k)"

definition llm_inv :: "int \<Rightarrow> (string \<Rightarrow> (string \<times> rat) option) \<Rightarrow> InMemoryLLMCache \<Rightarrow> bool" where
  "llm_inv n spec c \<longleftrightarrow> distinct (lc_order c) \<and> int (length (lc_order c)) \<le> n \<and> wf_store (lc_backend c) \<and>
     (\<forall>fk e. map_of (lc_backend c) fk = Some e \<longrightarrow>
        (\<exists>k v x. fk = kv_full_key llm_store k \<and> k \<in> set (lc_order c) \<and> spec k = Some (v, x) \<and>
           e = mk_stored (PStr v) (Some x)))"

lemma kv_key_inj [simp]: "kv_full_key c a = kv_full_key c b \<longleftrightarrow> a = b"
  by (simp add: kv_full_key_def)

lemma llm_entry:
  "llm_inv n spec c \<Longrightarrow> map_of (lc_backend c) (kv_full_key llm_store k) = Some e \<Longrightarrow>
     k \<in> set (lc_order c) \<and> (\<exists>v x. spec k = Some (v, x) \<and> e = mk_stored (PStr v) (Some x))"
  unfolding llm_inv_def by fastforce

lemma llm_get_cases:
  assumes "llm_inv n spec c"
  obtains (hit) v x where "spec k = Some (v, x)" "now < x" "k \<in> set (lc_order c)"
      "llm_get now k c = (Inr (Some v), \<lparr>lc_backend = lc_backend c, lc_order = removeAll k (lc_order c) @ [k]\<rparr>)"
    | (miss) b where "llm_get now k c = (Inr None, \<lparr>lc_backend = b, lc_order = removeAll k (lc_order c)\<rparr>)"
      "b = lc_backend c \<and> map_of (lc_backend c) (kv_full_key llm_store k) = None \<or> b = AList.delete (kv_full_key llm_store k) (lc_backend c)"
proof (cases "map_of (lc_backend c) (kv_full_key llm_store k)")
  case None
  then show ?thesis by (intro miss) (auto simp: llm_get_def kv_get_def MemoryBackend_def mem_get_def)
next
  case (Some e)
  from llm_entry [OF assms Some] obtain v x where e: "k \<in> set (lc_order c)" "spec k = Some (v, x)"
    "e = mk_stored (PStr v) (Some x)" by blast
  show ?thesis
  proof (cases "now < x")
    case True
    with Some e show ?thesis
      by (intro hit) (auto simp: llm_get_def kv_get_def MemoryBackend_def mem_get_def expired_def mk_stored_def)
  next
    case False
    with Some e show ?thesis
      by (intro miss) (auto simp: llm_get_def kv_get_def MemoryBackend_def mem_get_def expired_def mk_stored_def)
  qed
qed

lemma length_removeAll_le: "length (removeAll k xs) \<le> length xs"
  by (induction xs) (simp_all add: le_SucI)

lemma length_move: "k \<in> set ks \<Longrightarrow> length (removeAll k ks @ [k]) \<le> length ks"
  using length_removeAll_less [of k ks] by simp

lemma llm_get_inv:
  assumes "llm_inv n spec c"
  shows "llm_inv n spec (snd (llm_get now k c))"
proof (cases rule: llm_get_cases [OF assms, of k now])
  case (1 v x)
  moreover have "distinct (removeAll k (lc_order c) @ [k])" using assms by (simp add: llm_inv_def distinct_removeAll)
  moreover have "set (removeAll k (lc_order c) @ [k]) = set (lc_order c)" using 1(3) by auto
  moreover have "length (removeAll k (lc_order c) @ [k]) \<le> length (lc_order c)" using 1(3) by (rule length_move)
  ultimately show ?thesis using assms by (simp add: llm_inv_def)
next
  case (2 b)
  have "int (length (lc_order c)) \<le> n" using assms by (simp add: llm_inv_def)
  with length_removeAll_le [of k "lc_order c"] have len: "int (length (removeAll k (lc_order c))) \<le> n" by linarith
  have wf: "wf_store b" using assms 2(2) by (auto simp: llm_inv_def)
  have dist: "distinct (removeAll k (lc_order c))" using assms by (simp add: llm_inv_def distinct_removeAll)
  have "\<exists>k' v x. fk = kv_full_key llm_store k' \<and> k' \<in> set (removeAll k (lc_order c)) \<and> spec k' = Some (v, x) \<and>
      e = mk_stored (PStr v) (Some x)" if "map_of b fk = Some e" for fk e
  proof -
    have "map_of (lc_backend c) fk = Some e \<and> fk \<noteq> kv_full_key llm_store k"
      using 2(2) that by (auto simp: delete_conv' split: if_splits)
    with assms show ?thesis unfolding llm_inv_def by fastforce
  qed
  with len wf dist show ?thesis unfolding 2(1) llm_inv_def by simp
qed

lemma llm_put_inv:
  assumes "llm_inv n spec c" "int (length (removeAll k (lc_order c))) < n"
  shows "llm_inv n (spec(k := Some (v, now + of_int ttl)))
     \<lparr>lc_backend = kv_set MemoryBackend llm_store now k (PStr v) (Some ttl) (lc_backend c),
       lc_order = removeAll k (lc_order c) @ [k]\<rparr>" (is "llm_inv n _ ?c")
proof -
  have "\<exists>k' w x. fk = kv_full_key llm_store k' \<and> k' \<in> set (lc_order ?c) \<and>
      (spec(k := Some (v, now + of_int ttl))) k' = Some (w, x) \<and> e = mk_stored (PStr w) (Some x)"
    if "map_of (lc_backend ?c) fk = Some e" for fk e
  proof (cases "fk = kv_full_key llm_store k")
    case True
    with that show ?thesis by (auto simp: kv_set_def MemoryBackend_def mem_set_def update_conv')
  next
    case False
    with that have "map_of (lc_backend c) fk = Some e"
      by (simp add: kv_set_def MemoryBackend_def mem_set_def update_conv')
    with assms(1) obtain k' w x where "fk = kv_full_key llm_store k'" "k' \<in> set (lc_order c)"
      "spec k' = Some (w, x)" "e = mk_stored (PStr w) (Some x)" unfolding llm_inv_def by blast
    with False show ?thesis by auto
  qed
  moreover from assms have "distinct (lc_order ?c)" "int (length (lc_order ?c)) \<le> n" "wf_store (lc_backend ?c)"
    by (simp_all add: llm_inv_def kv_set_def MemoryBackend_def mem_set_def distinct_removeAll)
  ultimately show ?thesis unfolding llm_inv_def by blast
qed

lemma llm_evict_inv:
  assumes "llm_inv n spec c" "lc_order c = oldest # rest"
  shows "llm_inv n spec \<lparr>lc_backend = kv_delete MemoryBackend llm_store oldest (lc_backend c), lc_order = rest\<rparr>"
    (is "llm_inv n spec ?c")
proof -
  have "\<exists>k v x. fk = kv_full_key llm_store k \<and> k \<in> set (lc_order ?c) \<and> spec k = Some (v, x) \<and>
      e = mk_stored (PStr v) (Some x)" if "map_of (lc_backend ?c) fk = Some e" for fk e
  proof -
    from that have "map_of (lc_backend c) fk = Some e \<and> fk \<noteq> kv_full_key llm_store oldest"
      by (auto simp: kv_delete_def MemoryBackend_def mem_delete_def delete_conv' split: if_splits)
    with assms show ?thesis unfolding llm_inv_def by fastforce
  qed
  moreover from assms have "distinct (lc_order ?c)" "int (length (lc_order ?c)) \<le> n" "wf_store (lc_backend ?c)"
    by (simp_all add: llm_inv_def kv_delete_def MemoryBackend_def mem_delete_def)
  ultimately show ?thesis unfolding llm_inv_def by blast
qed

lemma llm_set_inv:
  assumes "llm_inv n spec c" "0 < n"
  shows "llm_inv n (spec(k := Some (v, now + of_int ttl))) (snd (llm_set n now k v ttl c))"
proof (cases "k \<notin> set (lc_order c) \<and> int (length (lc_order c)) \<ge> n")
  case True
  with assms obtain oldest rest where o: "lc_order c = oldest # rest" by (cases "lc_order c") auto
  from assms(1) o have "int (length rest) < n" by (simp add: llm_inv_def)
  with length_removeAll_le [of k rest] have "int (length (removeAll k rest)) < n" by linarith
  with llm_put_inv [OF llm_evict_inv [OF assms(1) o], of k v now ttl] True o show ?thesis
    by (simp add: llm_set_def Let_def)
next
  case False
  have "int (length (removeAll k (lc_order c))) < n"
  proof (cases "k \<in> set (lc_order c)")
    case True
    then have "length (removeAll k (lc_order c)) < length (lc_order c)" by (rule length_removeAll_less)
    with assms show ?thesis by (simp add: llm_inv_def)
  next
    case out: False
    with False show ?thesis by simp
  qed
  with llm_put_inv [OF assms(1), of k v now ttl] False show ?thesis by (auto simp: llm_set_def Let_def)
qed

lemma llm_history_inv:
  assumes "0 < n" shows "llm_inv n (last_stored ops) (foldr (llm_apply n) ops empty_llm)"
proof (induction ops)
  case Nil
  with assms show ?case by (simp add: llm_inv_def empty_llm_def wf_store_def)
next
  case (Cons op ops)
  show ?case
  proof (cases op)
    case (LGet now k)
    have "last_stored (op # ops) = last_stored ops" by (simp add: LGet fun_eq_iff)
    then show ?thesis using llm_get_inv [OF Cons.IH, of now k] unfolding LGet by (simp del: last_stored.simps)
  next
    case (LSet now k v ttl)
    have s: "last_stored (op # ops) = (last_stored ops)(k := Some (v, now + of_int ttl))" by (simp add: LSet fun_eq_iff)
    have c: "foldr (llm_apply n) (op # ops) empty_llm = snd (llm_set n now k v ttl (foldr (llm_apply n) ops empty_llm))"
      by (simp add: LSet)
    show ?thesis unfolding s c by (rule llm_set_inv [OF Cons.IH assms])
  qed
qed

lemma llm_get_spec:
  assumes "llm_inv n spec c"
  shows "fst (llm_get now k c) \<in> insert (Inr None) {Inr (Some v) | v x. spec k = Some (v, x) \<and> now < x}"
  by (cases rule: llm_get_cases [OF assms, of k now]) auto

lemma llm_get_after_put:
  "t < now + of_int ttl \<Longrightarrow>
     fst (llm_get t k \<lparr>lc_backend = kv_set MemoryBackend llm_store now k (PStr v) (Some ttl) b, lc_order = ks\<rparr>) = Inr (Some v)"
  by (simp add: llm_get_def kv_get_def kv_set_def MemoryBackend_def mem_get_def mem_set_def update_conv' expired_def
      mk_stored_def)

lemma llm_get_after_set:
  assumes "0 < n" "t < now + of_int ttl"
  shows "fst (llm_get t k (snd (llm_set n now k v ttl c))) = Inr (Some v)"
  using assms by (auto simp: llm_set_def Let_def llm_get_after_put split: list.splits)

text \<open>
  How long an entry is safe from eviction: it is in the cache, and the keys used after it leave room for \<open>n\<close> more.
\<close>

definition used_after :: "string \<Rightarrow> string list \<Rightarrow> string list" where
  "used_after k ks = tl (dropWhile (\<lambda>x. x \<noteq> k) ks)"

lemma used_after_append [simp]: "k \<in> set ks \<Longrightarrow> used_after k (ks @ xs) = used_after k ks @ xs"
  by (induction ks) (auto simp: used_after_def)

lemma used_after_last [simp]: "k \<notin> set ks \<Longrightarrow> used_after k (ks @ [k]) = []"
  by (induction ks) (auto simp: used_after_def)

lemma used_after_remove: "k' \<noteq> k \<Longrightarrow> length (used_after k (removeAll k' ks)) \<le> length (used_after k ks)"
  by (induction ks) (auto simp: used_after_def intro: length_removeAll_le)

definition llm_safe :: "int \<Rightarrow> nat \<Rightarrow> string \<Rightarrow> string \<Rightarrow> rat \<Rightarrow> InMemoryLLMCache \<Rightarrow> bool" where
  "llm_safe cap n k v x c \<longleftrightarrow> (\<exists>spec. llm_inv cap spec c) \<and>
     map_of (lc_backend c) (kv_full_key llm_store k) = Some (mk_stored (PStr v) (Some x)) \<and>
     int (length (used_after k (lc_order c)) + n) < cap"

lemma llm_safe_in_order: "llm_safe cap n k v x c \<Longrightarrow> k \<in> set (lc_order c)"
  using llm_entry by (auto simp: llm_safe_def)

lemma llm_safe_get: "llm_safe cap n k v x c \<Longrightarrow> now < x \<Longrightarrow> fst (llm_get now k c) = Inr (Some v)"
  by (simp add: llm_safe_def llm_get_def kv_get_def MemoryBackend_def mem_get_def expired_def mk_stored_def)

lemma llm_safe_after_set:
  assumes "llm_inv cap spec c" "0 < cap"
  shows "llm_safe cap (nat cap - 1) k v (now + of_int ttl) (snd (llm_set cap now k v ttl c))"
proof -
  have "int (length (used_after k (lc_order (snd (llm_set cap now k v ttl c))))) = 0 \<and>
      map_of (lc_backend (snd (llm_set cap now k v ttl c))) (kv_full_key llm_store k) =
        Some (mk_stored (PStr v) (Some (now + of_int ttl)))"
    using assms(2) by (auto simp: llm_set_def Let_def kv_set_def MemoryBackend_def mem_set_def update_conv' split: list.splits)
  with llm_set_inv [OF assms, of k v now ttl] assms(2) show ?thesis by (auto simp: llm_safe_def)
qed

text \<open>A hit uses up one place, a miss none.\<close>

lemma llm_safe_after_get:
  assumes "llm_safe cap (Suc n) k v x c" "now < x"
  shows "llm_safe cap n k v x (snd (llm_get now k' c)) \<and>
    (fst (llm_get now k' c) = Inr None \<longrightarrow> llm_safe cap (Suc n) k v x (snd (llm_get now k' c)))"
proof -
  obtain spec where inv: "llm_inv cap spec c" using assms(1) by (auto simp: llm_safe_def)
  note inv' = llm_get_inv [OF inv, of now k'] note k = llm_safe_in_order [OF assms(1)]
  show ?thesis
  proof (cases "k' = k")
    case True
    with llm_safe_get [OF assms] have "fst (llm_get now k' c) = Inr (Some v)" by simp
    with llm_get_cases [OF inv, of k' now] have "snd (llm_get now k' c) = \<lparr>lc_backend = lc_backend c, lc_order = removeAll k' (lc_order c) @ [k']\<rparr>"
      by fastforce
    with True inv' assms \<open>fst (llm_get now k' c) = Inr (Some v)\<close> show ?thesis by (auto simp: llm_safe_def)
  next
    case False
    note len = used_after_remove [OF False, of "lc_order c"]
    have kr: "k \<in> set (removeAll k' (lc_order c))" using k False by simp
    show ?thesis
    proof (cases rule: llm_get_cases [OF inv, of k' now])
      case (1 w y)
      with inv' assms(1) len kr show ?thesis by (auto simp: llm_safe_def)
    next
      case (2 b)
      with inv' assms(1) len kr False show ?thesis by (auto simp: llm_safe_def delete_conv')
    qed
  qed
qed

lemma llm_safe_after_other_set:
  assumes "llm_safe cap (Suc n) k v x c" "k' \<noteq> k"
  shows "llm_safe cap n k v x (snd (llm_set cap now k' w ttl c))"
proof -
  obtain spec where inv: "llm_inv cap spec c" using assms(1) by (auto simp: llm_safe_def)
  have cap: "0 < cap" using assms(1) by (simp add: llm_safe_def)
  note inv' = llm_set_inv [OF inv cap, of k' w now ttl] note k = llm_safe_in_order [OF assms(1)]
  have put: "llm_safe cap n k v x \<lparr>lc_backend = kv_set MemoryBackend llm_store now k' (PStr w) (Some ttl) b,
      lc_order = removeAll k' ks @ [k']\<rparr>"
    if "k \<in> set ks" "length (used_after k ks) \<le> length (used_after k (lc_order c))"
      "map_of b (kv_full_key llm_store k) = map_of (lc_backend c) (kv_full_key llm_store k)"
      "snd (llm_set cap now k' w ttl c) = \<lparr>lc_backend = kv_set MemoryBackend llm_store now k' (PStr w) (Some ttl) b,
      lc_order = removeAll k' ks @ [k']\<rparr>" for b ks
  proof -
    have "k \<in> set (removeAll k' ks)" using that(1) assms(2) by simp
    with that used_after_remove [OF assms(2), of ks] assms inv' show ?thesis
      by (auto simp: llm_safe_def kv_set_def MemoryBackend_def mem_set_def update_conv')
  qed
  show ?thesis
  proof (cases "k' \<notin> set (lc_order c) \<and> int (length (lc_order c)) \<ge> cap")
    case True
    then obtain oldest rest where o: "lc_order c = oldest # rest" using cap by (cases "lc_order c") auto
    have "oldest \<noteq> k"
    proof
      assume "oldest = k"
      then have "used_after k (lc_order c) = rest" using o by (simp add: used_after_def)
      with True o assms(1) show False by (simp add: llm_safe_def)
    qed
    with True o k have s: "snd (llm_set cap now k' w ttl c) =
        \<lparr>lc_backend = kv_set MemoryBackend llm_store now k' (PStr w) (Some ttl) (kv_delete MemoryBackend llm_store oldest (lc_backend c)),
         lc_order = removeAll k' rest @ [k']\<rparr>" "k \<in> set rest" "used_after k rest = used_after k (lc_order c)"
      by (auto simp: llm_set_def Let_def used_after_def)
    with put [of rest "kv_delete MemoryBackend llm_store oldest (lc_backend c)"] \<open>oldest \<noteq> k\<close> show ?thesis
      by (simp add: kv_delete_def MemoryBackend_def mem_delete_def delete_conv')
  next
    case False
    then have "snd (llm_set cap now k' w ttl c) = \<lparr>lc_backend = kv_set MemoryBackend llm_store now k' (PStr w) (Some ttl) (lc_backend c),
        lc_order = removeAll k' (lc_order c) @ [k']\<rparr>" by (auto simp: llm_set_def Let_def)
    with put [of "lc_order c" "lc_backend c"] k show ?thesis by simp
  qed
qed

text \<open>
  The in-memory model cache refines a map with expiry: after any sequence of reads and writes it
  answers a key with nothing or with the value last written under it, whose time to live has not run out; it
  remembers at most \<open>max_size\<close> keys, each once; and a key just written is found as long as it lives.
\<close>

theorem llm_cache_refines_map:
  assumes "0 < n" "c = foldr (llm_apply n) ops empty_llm"
  shows "fst (llm_get now k c) \<in> insert (Inr None) {Inr (Some v) | v x. last_stored ops k = Some (v, x) \<and> now < x} \<and>
    distinct (lc_order c) \<and> int (length (lc_order c)) \<le> n \<and>
    (now < t + of_int ttl \<longrightarrow> fst (llm_get now k (snd (llm_set n t k w ttl c))) = Inr (Some w))"
  using llm_history_inv [OF assms(1), of ops] llm_get_spec [OF llm_history_inv [OF assms(1)], of now k ops]
    llm_get_after_set [OF assms(1)]
  unfolding assms(2) llm_inv_def by blast

text \<open>With room for two keys the third write evicts the key that was used least recently.\<close>

lemma llm_cache_refines_map_witness:
  "fst (llm_get 3 ''b'' (foldr (llm_apply 2) [LSet 2 ''c'' ''z'' 10, LGet 1 ''a'', LSet 0 ''b'' ''y'' 10, LSet 0 ''a'' ''x'' 10] empty_llm)) =
     Inr None \<and>
   distinct (lc_order (foldr (llm_apply 2) [LSet 2 ''c'' ''z'' 10, LGet 1 ''a'', LSet 0 ''b'' ''y'' 10, LSet 0 ''a'' ''x'' 10] empty_llm))"
proof
  show "distinct (lc_order (foldr (llm_apply 2) [LSet 2 ''c'' ''z'' 10, LGet 1 ''a'', LSet 0 ''b'' ''y'' 10, LSet 0 ''a'' ''x'' 10] empty_llm))"
    using llm_cache_refines_map [of 2 _ "[LSet 2 ''c'' ''z'' 10, LGet 1 ''a'', LSet 0 ''b'' ''y'' 10, LSet 0 ''a'' ''x'' 10]"]
    by simp
  show "fst (llm_get 3 ''b'' (foldr (llm_apply 2) [LSet 2 ''c'' ''z'' 10, LGet 1 ''a'', LSet 0 ''b'' ''y'' 10, LSet 0 ''a'' ''x'' 10] empty_llm)) =
     Inr None" by code_simp
qed

text \<open>With \<open>max_size\<close> 0 the first write pops an entry of an empty dict.\<close>

lemma llm_max_size_zero_raises: "fst (llm_set 0 now k v ttl empty_llm) = Inl (mk_exn KeyErrorC ''dictionary is empty'')"
  by (simp add: llm_set_def empty_llm_def)

text \<open>The order of the keyword arguments does not matter for the key.\<close>

lemma cache_key_ignores_argument_order:
  assumes "mset kwargs = mset kwargs'" "distinct (map fst kwargs)"
  shows "make_cache_key sha json prompt kwargs = make_cache_key sha json prompt kwargs'"
proof -
  from assms have "inj_on fst (set kwargs)" by (simp add: distinct_map)
  then have "sort_key fst kwargs = sort_key fst kwargs'"
    using assms(1) by (intro sort_key_inj_key_eq) simp_all
  then show ?thesis by (simp add: make_cache_key_def cache_payload_def)
qed

end
