(* ===== verification/Retry.thy ===== *)
theory Retry
  imports Failures
begin

text \<open>
  \<^verbatim>\<open>core/retry.py\<close>: \<open>RetryPolicy\<close> (validation, the retry decision, the backoff) and \<open>retry_async\<close>.

  The operation, the \<open>on_retry\<close> observer and \<open>asyncio.sleep\<close> are computations over a state of the
  caller's choice; \<open>random.uniform(a, b)\<close> is \<open>a + (b - a) * u\<close> for the value \<open>u\<close> in the unit interval that the
  generator hands out for that attempt. Floats are exact rationals, except that the power of two
  floats raises \<open>OverflowError\<close> where its result leaves the range of a binary64, as in Python.
\<close>

record RetryPolicy =
  rp_max_attempts :: int
  rp_initial_backoff_s :: rat
  rp_backoff_multiplier :: rat
  rp_max_backoff_s :: rat
  rp_jitter_ratio :: rat
  rp_retry_exceptions :: "exn_class list"
  rp_retry_if :: "(exn \<Rightarrow> bool) option"
  rp_failure_classifier :: "(exn \<Rightarrow> FailureDecision) option"

definition retry_policy_init :: "RetryPolicy \<Rightarrow> exn + RetryPolicy" where
  "retry_policy_init p =
     (if rp_max_attempts p < 1 then Inl (mk_exn ValueErrorC ''max_attempts must be >= 1'')
      else if rp_initial_backoff_s p < 0
        then Inl (mk_exn ValueErrorC ''initial_backoff_s must be >= 0'')
      else if rp_backoff_multiplier p < 1
        then Inl (mk_exn ValueErrorC ''backoff_multiplier must be >= 1'')
      else if rp_max_backoff_s p < 0
        then Inl (mk_exn ValueErrorC ''max_backoff_s must be >= 0'')
      else if rp_jitter_ratio p < 0
        then Inl (mk_exn ValueErrorC ''jitter_ratio must be >= 0'')
      else Inr p)"

definition failure_decision :: "RetryPolicy \<Rightarrow> exn \<Rightarrow> FailureDecision" where
  "failure_decision p e =
     (case rp_failure_classifier p of Some f \<Rightarrow> f e | None \<Rightarrow> classify_failure e)"

definition should_retry :: "RetryPolicy \<Rightarrow> exn \<Rightarrow> int \<Rightarrow> FailureDecision option \<Rightarrow> bool" where
  "should_retry p e attempt_no decision =
     (if attempt_no \<ge> rp_max_attempts p then False
      else
        let resolved = (case decision of Some d \<Rightarrow> d | None \<Rightarrow> failure_decision p e) in
        if rp_failure_classifier p \<noteq> None \<and> \<not> fd_retryable resolved then False
        else if rp_retry_exceptions p \<noteq> [] \<and> \<not> list_ex (isinstance e) (rp_retry_exceptions p)
          then False
        else if rp_retry_exceptions p = [] \<and> rp_failure_classifier p = None then False
        else (case rp_retry_if p of Some f \<Rightarrow> f e | None \<Rightarrow> True))"

text \<open>A binary64 result at or above this bound rounds to infinity.\<close>

definition float_limit :: rat where
  "float_limit = 2 ^ 1024 - 2 ^ 970"

definition float_pow :: "rat \<Rightarrow> nat \<Rightarrow> exn + rat" where
  "float_pow b k =
     (if b ^ k \<ge> float_limit then Inl (mk_exn OverflowErrorC ''Numerical result out of range'')
      else Inr (b ^ k))"

definition backoff_for :: "RetryPolicy \<Rightarrow> rat \<Rightarrow> int \<Rightarrow> exn + rat" where
  "backoff_for p u attempt_no =
     (case float_pow (rp_backoff_multiplier p) (nat (max (attempt_no - 1) 0)) of
        Inl e \<Rightarrow> Inl e
      | Inr m \<Rightarrow>
          let delay = min (rp_initial_backoff_s p * m) (rp_max_backoff_s p) in
          if rp_jitter_ratio p \<le> 0 \<or> delay \<le> 0 then Inr delay
          else
            let jitter = delay * rp_jitter_ratio p;
                lo = delay - jitter; hi = delay + jitter
            in Inr (max 0 (lo + (hi - lo) * u)))"

text \<open>
  \<open>retry_async\<close>: the \<open>while True\<close> loop as a recursion on the attempt number. It ends because
  \<open>should_retry\<close> refuses the attempt that reaches \<open>max_attempts\<close>.
\<close>

function retry_async ::
  "RetryPolicy \<Rightarrow> (int \<Rightarrow> rat) \<Rightarrow> (int \<Rightarrow> exn \<Rightarrow> rat \<Rightarrow> (exn, 's, unit) comp) option \<Rightarrow>
   (rat \<Rightarrow> (exn, 's, unit) comp) \<Rightarrow> (exn, 's, 'a) comp \<Rightarrow> int \<Rightarrow> (exn, 's, 'a) comp" where
  "retry_async p rnd on_retry sleep operation attempt_no =
     bind (attempt operation) (\<lambda>r. case r of
        Inr x \<Rightarrow> ret x
      | Inl e0 \<Rightarrow>
          if \<not> is_Exception e0 then throw e0
          else
            let decision = failure_decision p e0;
                e = attach_failure_decision e0 decision
            in if \<not> should_retry p e attempt_no (Some decision) then throw e
               else (case backoff_for p (rnd attempt_no) attempt_no of
                  Inl err \<Rightarrow> throw err
                | Inr delay \<Rightarrow>
                    seq (case on_retry of None \<Rightarrow> skip | Some f \<Rightarrow> f attempt_no e delay)
                      (seq (if delay > 0 then sleep delay else skip)
                         (retry_async p rnd on_retry sleep operation (attempt_no + 1)))))"
  by pat_completeness auto
termination
  by (relation "measure (\<lambda>(p, rnd, on_retry, sleep, operation, n). nat (rp_max_attempts p - n))")
     (auto simp: should_retry_def split: if_splits)

declare retry_async.simps [simp del]

definition valid_policy :: "RetryPolicy \<Rightarrow> bool" where
  "valid_policy p \<longleftrightarrow> (\<exists>q. retry_policy_init p = Inr q)"

lemma valid_policy_iff:
  "valid_policy p \<longleftrightarrow> 1 \<le> rp_max_attempts p \<and> 0 \<le> rp_initial_backoff_s p \<and>
     1 \<le> rp_backoff_multiplier p \<and> 0 \<le> rp_max_backoff_s p \<and> 0 \<le> rp_jitter_ratio p"
  by (auto simp: valid_policy_def retry_policy_init_def)

lemma should_retry_attempt: "should_retry p e n d \<Longrightarrow> n < rp_max_attempts p"
  by (auto simp: should_retry_def split: if_splits)

section \<open>Backoff bounds\<close>

lemma backoff_delay_nonneg:
  assumes "valid_policy p"
  shows "0 \<le> min (rp_initial_backoff_s p * rp_backoff_multiplier p ^ k) (rp_max_backoff_s p)"
  using assms by (auto simp: valid_policy_iff intro!: mult_nonneg_nonneg)

lemma jitter_interval:
  fixes d j u :: rat
  assumes "0 \<le> d" "0 \<le> j" "0 \<le> u" "u \<le> 1"
  shows "(d - j) + ((d + j) - (d - j)) * u \<le> d + j"
proof -
  have "2 * j * u \<le> 2 * j" using assms by (simp add: mult_left_le)
  then show ?thesis by (simp add: algebra_simps)
qed

lemma backoff_for_Inr:
  assumes "backoff_for p u n = Inr delay"
  shows "\<exists>d. d = min (rp_initial_backoff_s p * rp_backoff_multiplier p ^ nat (max (n - 1) 0))
              (rp_max_backoff_s p) \<and>
           (delay = d \<or> delay = max 0 ((d - d * rp_jitter_ratio p) +
              ((d + d * rp_jitter_ratio p) - (d - d * rp_jitter_ratio p)) * u))"
proof -
  let ?k = "nat (max (n - 1) 0)"
  from assms have pow: "float_pow (rp_backoff_multiplier p) ?k = Inr (rp_backoff_multiplier p ^ ?k)"
    by (cases "rp_backoff_multiplier p ^ ?k \<ge> float_limit")
       (simp_all only: backoff_for_def float_pow_def if_True if_False sum.case sum.distinct)
  show ?thesis
    using assms unfolding backoff_for_def pow sum.case Let_def
    by (metis sum.inject(2))
qed

text \<open>
  A delay that \<open>backoff_for\<close> returns under a validated policy is never negative and never
  exceeds the cap widened by the jitter ratio; without jitter it never exceeds the cap itself.
\<close>

theorem backoff_bounds:
  assumes "valid_policy p" and "0 \<le> u" and "u \<le> 1"
    and "backoff_for p u n = Inr delay"
  shows "0 \<le> delay \<and> delay \<le> rp_max_backoff_s p * (1 + rp_jitter_ratio p)"
proof -
  define j where "j = rp_jitter_ratio p"
  from backoff_for_Inr [OF assms(4)] obtain d where
    d: "d = min (rp_initial_backoff_s p * rp_backoff_multiplier p ^ nat (max (n - 1) 0))
              (rp_max_backoff_s p)"
    and delay: "delay = d \<or> delay = max 0 ((d - d * j) + ((d + d * j) - (d - d * j)) * u)"
    unfolding j_def by blast
  have d0: "0 \<le> d" and dmax: "d \<le> rp_max_backoff_s p" and j0: "0 \<le> j"
    and m0: "0 \<le> rp_max_backoff_s p"
    using backoff_delay_nonneg [OF assms(1)] assms(1) by (simp_all add: valid_policy_iff d j_def)
  have dj: "0 \<le> d * j" using d0 j0 by simp
  have wide: "d * (1 + j) \<le> rp_max_backoff_s p * (1 + j)"
    using dmax j0 by (intro mult_right_mono) simp_all
  have hi: "(d - d * j) + ((d + d * j) - (d - d * j)) * u \<le> d * (1 + j)"
    using jitter_interval [OF d0 dj assms(2,3)] by (simp add: algebra_simps)
  have "d \<le> d * (1 + j)" using dj by (simp add: algebra_simps)
  with delay d0 dj hi wide have "0 \<le> delay" and "delay \<le> d * (1 + j)"
    by (auto simp: algebra_simps)
  with wide show ?thesis unfolding j_def by linarith
qed

definition default_policy :: RetryPolicy where
  "default_policy = \<lparr>rp_max_attempts = 3, rp_initial_backoff_s = 1, rp_backoff_multiplier = 2,
     rp_max_backoff_s = 60, rp_jitter_ratio = 0, rp_retry_exceptions = [],
     rp_retry_if = None, rp_failure_classifier = None\<rparr>"

lemma default_policy_valid: "valid_policy default_policy"
  by (simp add: valid_policy_iff default_policy_def)

lemma small_power_below_limit: "(2 :: rat) ^ 2 < float_limit"
  by (simp add: float_limit_def)

theorem backoff_bounds_witness:
  "valid_policy default_policy \<and> backoff_for default_policy (1/2) 3 = Inr 4 \<and>
   (0 :: rat) \<le> 4 \<and> (4 :: rat) \<le> rp_max_backoff_s default_policy * (1 + rp_jitter_ratio default_policy)"
proof -
  have v: "valid_policy default_policy" by (rule default_policy_valid)
  have b: "backoff_for default_policy (1/2) 3 = Inr 4"
    using small_power_below_limit by (simp add: backoff_for_def float_pow_def default_policy_def)
  from backoff_bounds [OF v _ _ b] v b show ?thesis by simp
qed

section \<open>The retry loop\<close>

text \<open>
  An operation that answers call \<open>k\<close> with \<open>res k\<close> and counts its calls, and a sleep that always
  returns: the environment in which the loop's bounds are stated.
\<close>

definition scripted :: "(nat \<Rightarrow> exn + 'a) \<Rightarrow> (exn, nat, 'a) comp" where
  "scripted res = (\<lambda>k. (res k, Suc k))"

definition quiet_sleep :: "rat \<Rightarrow> (exn, 's, unit) comp" where
  "quiet_sleep d = ret ()"

abbreviation retry_scripted ::
  "RetryPolicy \<Rightarrow> (int \<Rightarrow> rat) \<Rightarrow> (nat \<Rightarrow> exn + 'a) \<Rightarrow> int \<Rightarrow> (exn, nat, 'a) comp" where
  "retry_scripted p rnd res n \<equiv> retry_async p rnd None quiet_sleep (scripted res) n"

text \<open>One round of the loop, as a case distinction on what the operation answered.\<close>

lemma retry_scripted_unfold:
  "retry_scripted p rnd res n k =
     (case res k of
        Inr x \<Rightarrow> (Inr x, Suc k)
      | Inl e0 \<Rightarrow>
          (let d = failure_decision p e0; e = attach_failure_decision e0 d in
           if \<not> is_Exception e0 then (Inl e0, Suc k)
           else if \<not> should_retry p e n (Some d) then (Inl e, Suc k)
           else (case backoff_for p (rnd n) n of
                   Inl err \<Rightarrow> (Inl err, Suc k)
                 | Inr _ \<Rightarrow> retry_scripted p rnd res (n + 1) (Suc k))))"
  by (subst retry_async.simps)
     (auto simp: comb_simps scripted_def quiet_sleep_def Let_def split: sum.split)

lemma retry_scripted_count:
  assumes "n \<le> rp_max_attempts p" and "retry_scripted p rnd res n k = (r, k')"
  shows "k < k' \<and> int k' \<le> int k + (rp_max_attempts p - n) + 1"
  using assms
proof (induction "nat (rp_max_attempts p - n)" arbitrary: n k rule: less_induct)
  case less
  let ?d = "\<lambda>e. failure_decision p e"
  show ?case
  proof (cases "\<exists>e0 delay. res k = Inl e0 \<and> is_Exception e0 \<and>
      should_retry p (attach_failure_decision e0 (?d e0)) n (Some (?d e0)) \<and>
      backoff_for p (rnd n) n = Inr delay")
    case True
    then obtain e0 delay where again: "res k = Inl e0" "is_Exception e0"
      "should_retry p (attach_failure_decision e0 (?d e0)) n (Some (?d e0))"
      "backoff_for p (rnd n) n = Inr delay" by blast
    then have lt: "n < rp_max_attempts p" by (blast dest: should_retry_attempt)
    have "retry_scripted p rnd res (n + 1) (Suc k) = (r, k')"
      using less.prems(2) again by (simp add: retry_scripted_unfold [of p rnd res n k] Let_def)
    with less.hyps [of "n + 1" "Suc k"] lt show ?thesis by auto
  next
    case False
    then have "k' = Suc k"
      using less.prems(2)
      by (auto simp: retry_scripted_unfold [of p rnd res n k] Let_def split: sum.splits if_splits)
    with less.prems(1) show ?thesis by simp
  qed
qed

text \<open>
  The loop calls the operation at least once and at most \<open>max_attempts\<close> times, whatever the
  operation answers.
\<close>

theorem retry_async_attempt_bound:
  assumes "valid_policy p" and "retry_scripted p rnd res 1 0 = (r, calls)"
  shows "1 \<le> calls \<and> int calls \<le> rp_max_attempts p"
  using retry_scripted_count [of 1 p rnd res 0 r calls] assms by (simp add: valid_policy_iff)

definition timeout_exn :: exn where
  "timeout_exn = mk_exn TimeoutErrorC ''slow''"

definition retry_timeouts :: RetryPolicy where
  "retry_timeouts = default_policy\<lparr>rp_retry_exceptions := [TimeoutErrorC]\<rparr>"

lemma retry_timeouts_valid: "valid_policy retry_timeouts"
  by (simp add: valid_policy_iff default_policy_def retry_timeouts_def)

lemma retry_timeouts_again:
  assumes "n < 3"
  shows "should_retry retry_timeouts (attach_failure_decision timeout_exn d) n (Some d')"
  using assms
  by (simp add: should_retry_def retry_timeouts_def default_policy_def isinstance_def timeout_exn_def)

lemma retry_timeouts_backoff:
  "n \<in> {1, 2} \<Longrightarrow> backoff_for retry_timeouts u n = Inr (of_int n)"
  using small_power_below_limit
  by (auto simp: backoff_for_def float_pow_def retry_timeouts_def default_policy_def float_limit_def)

lemma retry_timeouts_step:
  assumes "n \<in> {1, 2}" and "res k = Inl timeout_exn"
  shows "retry_scripted retry_timeouts rnd res n k = retry_scripted retry_timeouts rnd res (n + 1) (Suc k)"
proof -
  have "is_Exception timeout_exn" by (simp add: is_Exception_def isinstance_def timeout_exn_def)
  with assms retry_timeouts_again [of n] retry_timeouts_backoff [of n] show ?thesis
    by (auto simp: retry_scripted_unfold [of _ _ _ n k] Let_def)
qed

theorem retry_async_attempt_bound_witness:
  "1 \<le> (3 :: nat) \<and> int 3 \<le> rp_max_attempts retry_timeouts"
proof -
  let ?res = "\<lambda>k :: nat. if k < 2 then Inl timeout_exn else Inr (7 :: nat)"
  have "retry_scripted retry_timeouts (\<lambda>_. 0) ?res 1 0 = retry_scripted retry_timeouts (\<lambda>_. 0) ?res 3 2"
    using retry_timeouts_step [of 1 ?res 0] retry_timeouts_step [of 2 ?res 1]
    by (simp add: numeral_2_eq_2)
  also have "\<dots> = (Inr 7, 3)" by (simp add: retry_scripted_unfold)
  finally show ?thesis
    using retry_async_attempt_bound [OF retry_timeouts_valid, of "\<lambda>_. 0" ?res "Inr 7" 3] by simp
qed

text \<open>
  If the first \<open>i\<close> calls fail with exceptions that the policy retries and whose backoff is
  defined, and call \<open>i\<close> succeeds, \<open>retry_async\<close> returns that result after exactly \<open>i + 1\<close> calls.
\<close>

theorem retry_async_first_success:
  assumes "\<And>j. j < i \<Longrightarrow> res j = Inl (e j) \<and> is_Exception (e j) \<and>
      should_retry p (attach_failure_decision (e j) (failure_decision p (e j))) (int j + 1)
        (Some (failure_decision p (e j))) \<and>
      (\<exists>delay. backoff_for p (rnd (int j + 1)) (int j + 1) = Inr delay)"
    and "res i = Inr x"
  shows "retry_scripted p rnd res 1 0 = (Inr x, Suc i)"
proof -
  have "j \<le> i \<Longrightarrow> retry_scripted p rnd res 1 0 = retry_scripted p rnd res (int j + 1) j" for j
  proof (induction j)
    case 0
    show ?case by simp
  next
    case (Suc j)
    then have j: "j < i" by simp
    obtain delay where delay: "backoff_for p (rnd (int j + 1)) (int j + 1) = Inr delay"
      using assms(1) [OF j] by blast
    have "retry_scripted p rnd res (int j + 1) j = retry_scripted p rnd res (int j + 1 + 1) (Suc j)"
      using assms(1) [OF j] delay
      by (simp add: retry_scripted_unfold [of _ _ _ "int j + 1" j] Let_def)
    with Suc show ?case by (simp add: add.commute)
  qed
  then have "retry_scripted p rnd res 1 0 = retry_scripted p rnd res (int i + 1) i" by simp
  also have "\<dots> = (Inr x, Suc i)" using assms(2) by (simp add: retry_scripted_unfold)
  finally show ?thesis .
qed

theorem retry_async_first_success_witness:
  "retry_scripted retry_timeouts (\<lambda>_. 0)
     (\<lambda>k. if k < 2 then Inl timeout_exn else Inr (7 :: nat)) 1 0 = (Inr 7, Suc 2)"
proof (rule retry_async_first_success [where e = "\<lambda>_. timeout_exn"])
  fix j :: nat assume j: "j < 2"
  have exc: "is_Exception timeout_exn" by (simp add: is_Exception_def isinstance_def timeout_exn_def)
  have "int j + 1 \<in> {1, 2}" using j by auto
  then have "\<exists>delay. backoff_for retry_timeouts 0 (int j + 1) = Inr delay"
    using retry_timeouts_backoff by blast
  with j exc retry_timeouts_again [of "int j + 1"]
  show "(if j < 2 then Inl timeout_exn else Inr (7 :: nat)) = Inl timeout_exn \<and>
      is_Exception timeout_exn \<and>
      should_retry retry_timeouts
        (attach_failure_decision timeout_exn (failure_decision retry_timeouts timeout_exn))
        (int j + 1) (Some (failure_decision retry_timeouts timeout_exn)) \<and>
      (\<exists>delay. backoff_for retry_timeouts 0 (int j + 1) = Inr delay)"
    by simp
qed simp

text \<open>
  C38. An exception that \<open>retry_async\<close> lets escape after the policy has refused another attempt
  carries the policy's decision: the DLQ code, which classifies the exception again, sees the same
  decision that ended the retries. This is for an \<open>Exception\<close> that takes attributes, a policy whose back-off is defined
  for every attempt that may be followed by another, sleeps that return and no \<open>on_retry\<close> observer.
\<close>

theorem retry_async_decision_reaches_dlq:
  assumes "\<And>n. 1 \<le> n \<Longrightarrow> n < rp_max_attempts p \<Longrightarrow> \<exists>delay. backoff_for p (rnd n) n = Inr delay"
    and "1 \<le> rp_max_attempts p"
    and "retry_scripted p rnd res 1 0 = (Inl err, calls)" and "is_Exception err" and "eattrs err"
  shows "\<exists>e0. res (calls - 1) = Inl e0 \<and> classify_failure err = failure_decision p e0 \<and>
           \<not> should_retry p err (int calls) (Some (failure_decision p e0))"
proof -
  have "\<exists>e0. res (calls - 1) = Inl e0 \<and> classify_failure err = failure_decision p e0 \<and>
           \<not> should_retry p err (int calls) (Some (failure_decision p e0))"
    if "retry_scripted p rnd res (int k + 1) k = (Inl err, calls)" and "int k < rp_max_attempts p"
    for k
    using that
  proof (induction "nat (rp_max_attempts p - int k)" arbitrary: k rule: less_induct)
    case less
    let ?n = "int k + 1"
    from less.prems(1) obtain e0 where e0: "res k = Inl e0"
      by (cases "res k") (simp_all add: retry_scripted_unfold)
    let ?d = "failure_decision p e0"
    let ?e = "attach_failure_decision e0 ?d"
    have exc: "is_Exception e0"
      using less.prems(1) e0 assms(4)
      by (cases "is_Exception e0") (simp_all add: retry_scripted_unfold Let_def)
    show ?case
    proof (cases "should_retry p ?e ?n (Some ?d)")
      case True
      then have lt: "?n < rp_max_attempts p" by (rule should_retry_attempt)
      then obtain delay where delay: "backoff_for p (rnd ?n) ?n = Inr delay"
        using assms(1) [of ?n] by auto
      then have "retry_scripted p rnd res (int (Suc k) + 1) (Suc k) = (Inl err, calls)"
        using less.prems(1) e0 exc True
        by (simp add: retry_scripted_unfold [of _ _ _ ?n k] Let_def)
      then show ?thesis using less.hyps [of "Suc k"] lt by simp
    next
      case False
      with less.prems(1) e0 exc have "err = ?e" and "calls = Suc k"
        by (simp_all add: retry_scripted_unfold [of _ _ _ ?n k] Let_def)
      moreover have "classify_failure ?e = ?d"
        using assms(5) \<open>err = ?e\<close> by (simp add: classify_attached)
      ultimately show ?thesis using e0 False by (auto simp: add.commute)
    qed
  qed
  from this [of 0] assms(2,3) show ?thesis by simp
qed

theorem retry_async_decision_reaches_dlq_witness:
  "\<exists>e0. (\<lambda>k :: nat. Inl timeout_exn :: exn + nat) (1 - 1) = Inl e0 \<and>
     classify_failure (attach_failure_decision timeout_exn (classify_failure timeout_exn)) =
       failure_decision (default_policy\<lparr>rp_max_attempts := 1\<rparr>) e0 \<and>
     \<not> should_retry (default_policy\<lparr>rp_max_attempts := 1\<rparr>)
         (attach_failure_decision timeout_exn (classify_failure timeout_exn)) (int 1)
         (Some (failure_decision (default_policy\<lparr>rp_max_attempts := 1\<rparr>) e0))"
proof (rule retry_async_decision_reaches_dlq [where rnd = "\<lambda>_. 0"])
  show "retry_scripted (default_policy\<lparr>rp_max_attempts := 1\<rparr>) (\<lambda>_. 0)
      (\<lambda>k. Inl timeout_exn :: exn + nat) 1 0 =
      (Inl (attach_failure_decision timeout_exn (classify_failure timeout_exn)), 1)"
    by (simp add: retry_scripted_unfold Let_def should_retry_def failure_decision_def
        default_policy_def is_Exception_def isinstance_def timeout_exn_def)
qed (simp_all add: default_policy_def timeout_exn_def is_Exception_def isinstance_def)

end
