(* ===== verification/Circuit_Breaker.thy ===== *)
theory Circuit_Breaker
  imports Failures
begin

text \<open>
  \<^verbatim>\<open>sources/_internal/circuit_breaker.py\<close>: the breaker that guards the requests of \<open>HTTPSource\<close>.

  The breaker's fields are a record, its methods functions on that record. \<open>call\<close> holds the lock only
  while it admits a request and while it records an outcome: the request itself runs unlocked, so
  several may be under way. \<open>cb_call\<close> is one call with nothing else running; \<open>cb_step\<close> interleaves
  any number of calls, each cut at its two critical sections. Times are exact rationals, the clock is
  \<open>time.monotonic()\<close>; log lines are left out.
\<close>

section \<open>State and methods\<close>

datatype CircuitState = CB_CLOSED | CB_OPEN | CB_HALF_OPEN

record CircuitBreakerConfig =
  cc_failure_threshold :: int
  cc_timeout_seconds :: rat
  cc_success_threshold :: int

definition default_cb_config :: CircuitBreakerConfig where
  "default_cb_config = \<lparr>cc_failure_threshold = 5, cc_timeout_seconds = 60, cc_success_threshold = 2\<rparr>"

record AsyncCircuitBreaker =
  cb_name :: string
  cb_cfg :: CircuitBreakerConfig
  cb_state :: CircuitState
  cb_failure_count :: int
  cb_success_count :: int
  cb_last_failure_time :: "rat option"

definition new_breaker :: "string \<Rightarrow> CircuitBreakerConfig option \<Rightarrow> AsyncCircuitBreaker" where
  "new_breaker name config = \<lparr>cb_name = name,
     cb_cfg = (case config of None \<Rightarrow> default_cb_config | Some c \<Rightarrow> c),
     cb_state = CB_CLOSED, cb_failure_count = 0, cb_success_count = 0, cb_last_failure_time = None\<rparr>"

definition cb_set_state :: "CircuitState \<Rightarrow> AsyncCircuitBreaker \<Rightarrow> AsyncCircuitBreaker" where
  "cb_set_state new_state b =
     (if new_state = cb_state b then b
      else
        let b' = b\<lparr>cb_state := new_state\<rparr> in
        if new_state = CB_CLOSED then b'\<lparr>cb_failure_count := 0, cb_success_count := 0\<rparr> else b')"

definition cb_on_success :: "AsyncCircuitBreaker \<Rightarrow> AsyncCircuitBreaker" where
  "cb_on_success b =
     (let b' = b\<lparr>cb_failure_count := 0\<rparr> in
      if cb_state b' = CB_HALF_OPEN then
        let b'' = b'\<lparr>cb_success_count := cb_success_count b' + 1\<rparr> in
        if cb_success_count b'' \<ge> cc_success_threshold (cb_cfg b'') then cb_set_state CB_CLOSED b'' else b''
      else b')"

definition cb_on_failure :: "rat \<Rightarrow> AsyncCircuitBreaker \<Rightarrow> AsyncCircuitBreaker" where
  "cb_on_failure now b =
     (let b' = b\<lparr>cb_failure_count := cb_failure_count b + 1, cb_success_count := 0,
                 cb_last_failure_time := Some now\<rparr> in
      case cb_state b' of
        CB_CLOSED \<Rightarrow>
          if cb_failure_count b' \<ge> cc_failure_threshold (cb_cfg b') then cb_set_state CB_OPEN b' else b'
      | CB_HALF_OPEN \<Rightarrow> cb_set_state CB_OPEN b'
      | CB_OPEN \<Rightarrow> b')"

definition cb_should_attempt_reset :: "rat \<Rightarrow> AsyncCircuitBreaker \<Rightarrow> bool" where
  "cb_should_attempt_reset now b = (case cb_last_failure_time b of
       None \<Rightarrow> True
     | Some t \<Rightarrow> now - t \<ge> cc_timeout_seconds (cb_cfg b))"

definition cb_time_until_retry :: "rat \<Rightarrow> AsyncCircuitBreaker \<Rightarrow> rat" where
  "cb_time_until_retry now b = (case cb_last_failure_time b of
       None \<Rightarrow> 0
     | Some t \<Rightarrow> max 0 (cc_timeout_seconds (cb_cfg b) - (now - t)))"

definition cb_reset :: "AsyncCircuitBreaker \<Rightarrow> AsyncCircuitBreaker" where
  "cb_reset b = b\<lparr>cb_state := CB_CLOSED, cb_failure_count := 0, cb_success_count := 0,
     cb_last_failure_time := None\<rparr>"

text \<open>
  What a call raises: the breaker's own \<open>CircuitBreakerOpenError(name, retry_in)\<close>, an ordinary class
  derived from \<open>Exception\<close>, or any other exception.
\<close>

datatype cb_exn = CircuitBreakerOpenError (open_name: string) (retry_in: rat) | Raised exn

text \<open>The first critical section of \<open>call\<close>: \<open>None\<close> admits the request, \<open>Some e\<close> rejects it with \<open>e\<close>.\<close>

definition cb_admit :: "rat \<Rightarrow> AsyncCircuitBreaker \<Rightarrow> cb_exn option \<times> AsyncCircuitBreaker" where
  "cb_admit now b =
     (if cb_state b = CB_OPEN then
        if cb_should_attempt_reset now b then (None, cb_set_state CB_HALF_OPEN b)
        else (Some (CircuitBreakerOpenError (cb_name b) (cb_time_until_retry now b)), b)
      else (None, b))"

text \<open>
  \<open>call\<close> on an undisturbed breaker: the state is the breaker and the environment \<open>'e\<close>, from which
  the clock is read and which the request may change. A rejection by a nested breaker goes through
  unrecorded, and so does what is not an \<open>Exception\<close> (a cancellation).
\<close>

type_synonym ('e, 'a) cb_run = "(cb_exn, AsyncCircuitBreaker \<times> 'e, 'a) comp"

definition cb_call :: "('e \<Rightarrow> rat) \<Rightarrow> ('e \<Rightarrow> (cb_exn + 'a) \<times> 'e) \<Rightarrow> ('e, 'a) cb_run" where
  "cb_call clock fn =
     bind get_state (\<lambda>(b, e). case cb_admit (clock e) b of
       (Some exc, b') \<Rightarrow> bind (modify (\<lambda>(_, e). (b', e))) (\<lambda>_. throw exc)
     | (None, b') \<Rightarrow>
         bind (modify (\<lambda>(_, e). (b', e))) (\<lambda>_.
         bind (attempt (\<lambda>(b, e). case fn e of (r, e') \<Rightarrow> (r, (b, e')))) (\<lambda>r. case r of
           Inr x \<Rightarrow> bind (modify (\<lambda>(b, e). (cb_on_success b, e))) (\<lambda>_. ret x)
         | Inl (CircuitBreakerOpenError n t) \<Rightarrow> throw (CircuitBreakerOpenError n t)
         | Inl (Raised exc) \<Rightarrow>
             if \<not> is_Exception exc then throw (Raised exc)
             else bind (modify (\<lambda>(b, e). (cb_on_failure (clock e) b, e))) (\<lambda>_. throw (Raised exc)))))"

lemmas cb_defs = cb_set_state_def cb_on_success_def cb_on_failure_def cb_admit_def cb_reset_def
  cb_should_attempt_reset_def Let_def

section \<open>Concurrent calls\<close>

text \<open>
  A configuration: the breaker, the clock and the number of admitted requests whose outcome is not
  recorded yet.
\<close>

record cb_conf =
  co_breaker :: AsyncCircuitBreaker
  co_now :: rat
  co_inflight :: nat

inductive cb_step :: "cb_conf \<Rightarrow> cb_conf \<Rightarrow> bool" where
  tick: "now \<ge> co_now c \<Longrightarrow> cb_step c (c\<lparr>co_now := now\<rparr>)"
| admitted: "cb_admit (co_now c) (co_breaker c) = (None, b) \<Longrightarrow>
    cb_step c (c\<lparr>co_breaker := b, co_inflight := co_inflight c + 1\<rparr>)"
| rejected: "cb_admit (co_now c) (co_breaker c) = (Some e, b) \<Longrightarrow> cb_step c (c\<lparr>co_breaker := b\<rparr>)"
| succeeded: "co_inflight c = Suc n \<Longrightarrow>
    cb_step c (c\<lparr>co_breaker := cb_on_success (co_breaker c), co_inflight := n\<rparr>)"
| failed: "co_inflight c = Suc n \<Longrightarrow>
    cb_step c (c\<lparr>co_breaker := cb_on_failure (co_now c) (co_breaker c), co_inflight := n\<rparr>)"
| unrecorded: "co_inflight c = Suc n \<Longrightarrow> cb_step c (c\<lparr>co_inflight := n\<rparr>)"
| reset: "cb_step c (c\<lparr>co_breaker := cb_reset (co_breaker c)\<rparr>)"

inductive_cases cb_stepE: "cb_step c d"

definition cb_start :: "string \<Rightarrow> CircuitBreakerConfig option \<Rightarrow> rat \<Rightarrow> cb_conf" where
  "cb_start name config now = \<lparr>co_breaker = new_breaker name config, co_now = now, co_inflight = 0\<rparr>"

definition cb_reachable :: "string \<Rightarrow> CircuitBreakerConfig option \<Rightarrow> rat \<Rightarrow> cb_conf \<Rightarrow> bool" where
  "cb_reachable name config now = cb_step\<^sup>*\<^sup>* (cb_start name config now)"

text \<open>The invariant of the counters, per state.\<close>

definition cb_wf :: "rat \<Rightarrow> AsyncCircuitBreaker \<Rightarrow> bool" where
  "cb_wf now b \<longleftrightarrow>
     (case cb_state b of
        CB_CLOSED \<Rightarrow> cb_failure_count b < cc_failure_threshold (cb_cfg b) \<and> cb_success_count b = 0
      | CB_OPEN \<Rightarrow> cb_success_count b = 0 \<and> cb_last_failure_time b \<noteq> None
      | CB_HALF_OPEN \<Rightarrow> cb_success_count b < cc_success_threshold (cb_cfg b)) \<and>
     cb_failure_count b \<ge> 0 \<and> cb_success_count b \<ge> 0 \<and>
     (\<forall>t. cb_last_failure_time b = Some t \<longrightarrow> t \<le> now)"

definition cb_sane :: "CircuitBreakerConfig \<Rightarrow> bool" where
  "cb_sane c \<longleftrightarrow> cc_failure_threshold c \<ge> 1 \<and> cc_success_threshold c \<ge> 1"

lemma cb_cfg_ops [simp]:
  "cb_cfg (cb_set_state st b) = cb_cfg b" "cb_cfg (cb_on_success b) = cb_cfg b"
  "cb_cfg (cb_on_failure now b) = cb_cfg b" "cb_cfg (cb_reset b) = cb_cfg b"
  "cb_cfg (snd (cb_admit now b)) = cb_cfg b"
  by (auto simp: cb_defs split: CircuitState.split)

lemma cb_wf_ops:
  assumes "cb_sane (cb_cfg b)" "cb_wf now b"
  shows "cb_wf now (cb_on_success b)" "cb_wf now (cb_on_failure now b)" "cb_wf now (cb_reset b)"
    "cb_wf now (snd (cb_admit now b))" "now \<le> now' \<Longrightarrow> cb_wf now' b"
  using assms by (auto simp: cb_defs cb_wf_def cb_sane_def split: CircuitState.splits)

lemma cb_step_wf:
  assumes "cb_step c d" "cb_sane (cb_cfg (co_breaker c))" "cb_wf (co_now c) (co_breaker c)"
  shows "cb_cfg (co_breaker d) = cb_cfg (co_breaker c) \<and> cb_wf (co_now d) (co_breaker d)"
  using assms(1)
proof (cases rule: cb_step.cases)
  case (admitted b)
  then show ?thesis using cb_wf_ops(4) [OF assms(2,3)] cb_cfg_ops(5) [of "co_now c" "co_breaker c"] by simp
next
  case (rejected e b)
  then show ?thesis using cb_wf_ops(4) [OF assms(2,3)] cb_cfg_ops(5) [of "co_now c" "co_breaker c"] by simp
qed (use assms cb_wf_ops in auto)

text \<open>
  C37. Every reachable configuration of a breaker with positive thresholds, however many calls overlap, is well formed: a
  closed breaker has seen fewer consecutive failures than \<open>failure_threshold\<close>, a half-open one fewer
  successes than \<open>success_threshold\<close>, an open one knows when it last failed, so \<open>call\<close> can tell
  whether the timeout has passed, no counter is negative and no recorded failure lies in the future. (The failures of
  an open breaker are not bounded: calls that were under way when it opened are counted as well.)
\<close>

theorem circuit_breaker_invariant:
  assumes "cb_reachable name config now c" and "cb_sane (cb_cfg (new_breaker name config))"
  shows "cb_wf (co_now c) (co_breaker c)"
proof -
  have "cb_cfg (co_breaker c) = cb_cfg (new_breaker name config) \<and> cb_wf (co_now c) (co_breaker c)"
    using assms(1) unfolding cb_reachable_def
  proof (induction rule: rtranclp_induct)
    case base
    show ?case using assms(2) by (auto simp: cb_start_def new_breaker_def cb_wf_def cb_sane_def)
  next
    case (step c d)
    then show ?case using cb_step_wf [of c d] assms(2) by simp
  qed
  then show ?thesis ..
qed

lemma cb_reachable_step: "cb_reachable name config now c \<Longrightarrow> cb_step c d \<Longrightarrow> cb_reachable name config now d"
  unfolding cb_reachable_def by simp

definition open_conf :: "rat \<Rightarrow> nat \<Rightarrow> cb_conf" where
  "open_conf now n = \<lparr>co_breaker = \<lparr>cb_name = ''api'',
     cb_cfg = \<lparr>cc_failure_threshold = 1, cc_timeout_seconds = 60, cc_success_threshold = 2\<rparr>,
     cb_state = CB_OPEN, cb_failure_count = 1, cb_success_count = 0, cb_last_failure_time = Some 0\<rparr>,
     co_now = now, co_inflight = n\<rparr>"

definition trip_config :: CircuitBreakerConfig where
  "trip_config = \<lparr>cc_failure_threshold = 1, cc_timeout_seconds = 60, cc_success_threshold = 2\<rparr>"

lemma open_conf_reachable: "cb_reachable ''api'' (Some trip_config) 0 (open_conf 0 0)"
proof -
  let ?c = "cb_start ''api'' (Some trip_config) 0"
  have "cb_step ?c (?c\<lparr>co_inflight := 1\<rparr>)"
    using cb_step.admitted [of ?c "co_breaker ?c"]
    by (simp add: cb_start_def new_breaker_def cb_admit_def)
  moreover have "cb_step (?c\<lparr>co_inflight := 1\<rparr>) (open_conf 0 0)"
    using cb_step.failed [of "?c\<lparr>co_inflight := 1\<rparr>" 0]
    by (simp add: cb_start_def new_breaker_def open_conf_def trip_config_def cb_defs)
  ultimately show ?thesis unfolding cb_reachable_def by simp
qed

theorem circuit_breaker_invariant_witness: "cb_wf 0 (co_breaker (open_conf 0 0))"
proof -
  have "cb_sane (cb_cfg (new_breaker ''api'' (Some trip_config)))"
    by (simp add: new_breaker_def trip_config_def cb_sane_def)
  from circuit_breaker_invariant [OF open_conf_reachable this] show ?thesis by (simp add: open_conf_def)
qed

text \<open>Two calls that were under way together and fail are both counted, by an open breaker the second of them.\<close>

lemma open_breaker_counts_past_threshold:
  "\<exists>c. cb_reachable ''api'' (Some trip_config) 0 c \<and> cb_state (co_breaker c) = CB_OPEN \<and> cb_failure_count (co_breaker c) = 2"
proof -
  let ?c = "cb_start ''api'' (Some trip_config) 0"
  let ?d = "(open_conf 0 0)\<lparr>co_breaker := (co_breaker (open_conf 0 0))\<lparr>cb_failure_count := 2\<rparr>\<rparr>"
  have adm: "cb_step (?c\<lparr>co_inflight := n\<rparr>) (?c\<lparr>co_inflight := Suc n\<rparr>)" for n
    using cb_step.admitted [of "?c\<lparr>co_inflight := n\<rparr>" "co_breaker ?c"]
    by (simp add: cb_start_def new_breaker_def cb_admit_def)
  have two: "cb_step\<^sup>*\<^sup>* (?c\<lparr>co_inflight := 0\<rparr>) (?c\<lparr>co_inflight := 2\<rparr>)"
    using adm [of 0] adm [of 1] by (simp add: numeral_2_eq_2)
  have fail: "cb_step (?c\<lparr>co_inflight := 2\<rparr>) (open_conf 0 1)"
    using cb_step.failed [of "?c\<lparr>co_inflight := 2\<rparr>" 1]
    by (simp add: cb_start_def new_breaker_def open_conf_def trip_config_def cb_defs)
  have again: "cb_step (open_conf 0 1) ?d"
    using cb_step.failed [of "open_conf 0 1" 0] by (simp add: open_conf_def cb_defs)
  have "?c\<lparr>co_inflight := 0\<rparr> = ?c" by (simp add: cb_start_def)
  with two fail again have "cb_reachable ''api'' (Some trip_config) 0
      ?d"
    unfolding cb_reachable_def by (metis rtranclp.rtrancl_into_rtrancl)
  moreover have "cb_state (co_breaker ?d) = CB_OPEN" "cb_failure_count (co_breaker ?d) = 2"
    by (simp_all add: open_conf_def)
  ultimately show ?thesis by blast
qed

section \<open>The cycle of a breaker\<close>

definition run_calls :: "('e \<Rightarrow> rat) \<Rightarrow> ('e \<Rightarrow> (cb_exn + 'a) \<times> 'e) list \<Rightarrow> ('e, unit) cb_run" where
  "run_calls clock fns = for_each fns (\<lambda>fn. bind (attempt (cb_call clock fn)) (\<lambda>_. skip))"

text \<open>One call on a breaker that admits it.\<close>

lemma cb_call_admitted:
  assumes "cb_admit (clock e) b = (None, b')" and "fn e = (r, e')"
  shows "snd (cb_call clock fn (b, e)) =
    ((case r of Inr _ \<Rightarrow> cb_on_success b'
      | Inl (CircuitBreakerOpenError n t) \<Rightarrow> b'
      | Inl (Raised exc) \<Rightarrow> if is_Exception exc then cb_on_failure (clock e') b' else b'), e')"
  using assms
  by (auto simp: cb_call_def bind_def get_state_def modify_def attempt_def ret_def throw_def
      split: sum.split cb_exn.split)

lemma cb_call_rejected:
  assumes "cb_state b = CB_OPEN" "cb_last_failure_time b = Some t"
    and "clock e - t < cc_timeout_seconds (cb_cfg b)"
  shows "cb_call clock fn (b, e) =
    (Inl (CircuitBreakerOpenError (cb_name b) (cc_timeout_seconds (cb_cfg b) - (clock e - t))), (b, e))"
  using assms
  by (simp add: cb_call_def cb_admit_def cb_should_attempt_reset_def cb_time_until_retry_def
      bind_def get_state_def modify_def throw_def)

lemma run_calls_Cons:
  "run_calls clock (fn # fns) s = run_calls clock fns (snd (cb_call clock fn s))"
  by (simp add: run_calls_def bind_def attempt_def skip_def ret_def split: prod.splits)

definition always_fails :: "('e \<Rightarrow> (cb_exn + 'a) \<times> 'e) \<Rightarrow> bool" where
  "always_fails fn \<longleftrightarrow> (\<forall>e. \<exists>exc e'. fn e = (Inl (Raised exc), e') \<and> is_Exception exc)"

definition always_succeeds :: "('e \<Rightarrow> (cb_exn + 'a) \<times> 'e) \<Rightarrow> bool" where
  "always_succeeds fn \<longleftrightarrow> (\<forall>e. \<exists>x e'. fn e = (Inr x, e'))"

lemma cb_call_fails:
  assumes "always_fails fn" "cb_state b \<noteq> CB_OPEN"
  shows "\<exists>e'. snd (cb_call clock fn (b, e)) = (cb_on_failure (clock e') b, e')"
proof -
  obtain exc e' where "fn e = (Inl (Raised exc), e')" "is_Exception exc"
    using assms(1) unfolding always_fails_def by blast
  moreover have "cb_admit (clock e) b = (None, b)" using assms(2) by (simp add: cb_admit_def)
  ultimately show ?thesis using cb_call_admitted [of clock e b b fn "Inl (Raised exc)" e'] by auto
qed

lemma cb_call_succeeds:
  assumes "always_succeeds fn" "cb_admit (clock e) b = (None, b')"
  shows "\<exists>e'. snd (cb_call clock fn (b, e)) = (cb_on_success b', e')"
proof -
  obtain x e' where "fn e = (Inr x, e')" using assms(1) unfolding always_succeeds_def by blast
  then show ?thesis using assms(2) cb_call_admitted [of clock e b b' fn "Inr x" e'] by auto
qed

lemma run_calls_failing:
  assumes "always_fails fn" "cb_state b = CB_CLOSED" "cb_failure_count b = i"
    and "0 < k" "i + int k \<le> cc_failure_threshold (cb_cfg b)"
    and "snd (run_calls clock (replicate k fn) (b, e)) = (b', e')"
  shows "cb_failure_count b' = i + int k \<and> cb_last_failure_time b' = Some (clock e') \<and>
    cb_cfg b' = cb_cfg b \<and> cb_name b' = cb_name b \<and>
    cb_state b' = (if i + int k < cc_failure_threshold (cb_cfg b) then CB_CLOSED else CB_OPEN)"
  using assms
proof (induction k arbitrary: b e i)
  case 0
  then show ?case by simp
next
  case (Suc k)
  obtain e1 where call: "snd (cb_call clock fn (b, e)) = (cb_on_failure (clock e1) b, e1)"
    using cb_call_fails [OF Suc.prems(1)] Suc.prems(2) by (metis CircuitState.distinct(1))
  let ?b = "cb_on_failure (clock e1) b"
  have fields: "cb_failure_count ?b = i + 1" "cb_last_failure_time ?b = Some (clock e1)"
    "cb_cfg ?b = cb_cfg b" "cb_name ?b = cb_name b"
    "cb_state ?b = (if i + 1 < cc_failure_threshold (cb_cfg b) then CB_CLOSED else CB_OPEN)"
    using Suc.prems(2,3) by (auto simp: cb_defs)
  have rest: "snd (run_calls clock (replicate k fn) (?b, e1)) = (b', e')"
    using Suc.prems(6) call by (simp add: run_calls_Cons)
  show ?case
  proof (cases "k = 0")
    case True
    with rest have "b' = ?b" "e' = e1" by (auto simp: run_calls_def ret_def)
    with fields True show ?thesis by simp
  next
    case False
    with Suc.IH [OF Suc.prems(1) _ fields(1) _ _ rest] fields Suc.prems(5) show ?thesis by simp
  qed
qed

text \<open>
  A closed breaker opens at the \<open>failure_threshold\<close>-th consecutive failure and not before. From
  then on, until the timeout has passed since that failure, every call raises
  \<open>CircuitBreakerOpenError\<close> with the remaining time and touches neither the breaker nor the
  environment: the request is not made.
\<close>

theorem circuit_breaker_trips_and_shields:
  assumes "cb_state b = CB_CLOSED" "cb_failure_count b = 0" "always_fails fn"
    and "0 < k" "int k \<le> cc_failure_threshold (cb_cfg b)"
    and run: "snd (run_calls clock (replicate k fn) (b, e)) = (b', e')"
  shows "cb_state b' = (if int k < cc_failure_threshold (cb_cfg b) then CB_CLOSED else CB_OPEN) \<and>
    (cb_state b' = CB_OPEN \<and> clock now - clock e' < cc_timeout_seconds (cb_cfg b) \<longrightarrow>
      cb_call clock request (b', now) =
        (Inl (CircuitBreakerOpenError (cb_name b) (cc_timeout_seconds (cb_cfg b) - (clock now - clock e'))),
         (b', now)))"
  using run_calls_failing [OF assms(3,1,2,4) _ run] assms(5)
    cb_call_rejected [of b' "clock e'" clock now request] by auto

lemma run_calls_succeeding:
  assumes "always_succeeds fn" "cb_state b = CB_HALF_OPEN" "cb_success_count b = i"
    and "i < cc_success_threshold (cb_cfg b)" "i + int k = cc_success_threshold (cb_cfg b)"
    and "snd (run_calls clock (replicate k fn) (b, e)) = (b', e')"
  shows "cb_state b' = CB_CLOSED \<and> cb_failure_count b' = 0 \<and> cb_success_count b' = 0"
  using assms
proof (induction k arbitrary: b e i)
  case 0
  then show ?case by simp
next
  case (Suc k)
  have "cb_admit (clock e) b = (None, b)" using Suc.prems(2) by (simp add: cb_admit_def)
  then obtain e1 where call: "snd (cb_call clock fn (b, e)) = (cb_on_success b, e1)"
    using cb_call_succeeds [where fn = fn and clock = clock, OF Suc.prems(1)] by blast
  have rest: "snd (run_calls clock (replicate k fn) (cb_on_success b, e1)) = (b', e')"
    using Suc.prems(6) call by (simp add: run_calls_Cons)
  show ?case
  proof (cases "k = 0")
    case True
    with rest Suc.prems show ?thesis by (auto simp: run_calls_def ret_def cb_defs)
  next
    case False
    then have "cb_state (cb_on_success b) = CB_HALF_OPEN" "cb_success_count (cb_on_success b) = i + 1"
      using Suc.prems by (auto simp: cb_defs)
    with Suc.IH [OF Suc.prems(1) _ _ _ _ rest] False Suc.prems(5) show ?thesis by simp
  qed
qed

text \<open>
  An open breaker recovers: when the timeout has passed and the service answers again, the next
  \<open>success_threshold\<close> calls are made and close it, with its counters at zero.
\<close>

theorem circuit_breaker_recovers:
  assumes "cb_state b = CB_OPEN" "cb_wf now b" "cb_sane (cb_cfg b)" "always_succeeds fn"
    and "cb_should_attempt_reset (clock e) b"
    and run: "snd (run_calls clock (replicate (nat (cc_success_threshold (cb_cfg b))) fn) (b, e)) = (b', e')"
  shows "cb_state b' = CB_CLOSED \<and> cb_failure_count b' = 0 \<and> cb_success_count b' = 0"
proof -
  let ?h = "cb_set_state CB_HALF_OPEN b"
  have h: "cb_state ?h = CB_HALF_OPEN" "cb_success_count ?h = 0"
    using assms(1,2) by (auto simp: cb_set_state_def cb_wf_def)
  obtain k where k: "nat (cc_success_threshold (cb_cfg b)) = Suc k"
    using assms(3) by (cases "nat (cc_success_threshold (cb_cfg b))") (auto simp: cb_sane_def)
  have "cb_admit (clock e) b = (None, ?h)" "cb_admit (clock e) ?h = (None, ?h)"
    using assms(1,5) h by (auto simp: cb_admit_def)
  then have "snd (cb_call clock fn (b, e)) = snd (cb_call clock fn (?h, e))"
    using assms(4) unfolding always_succeeds_def
    by (metis cb_call_admitted)
  then have "snd (run_calls clock (replicate (Suc k) fn) (?h, e)) = (b', e')"
    using run k by (simp add: run_calls_Cons)
  moreover have "0 + int (Suc k) = cc_success_threshold (cb_cfg ?h)" using k assms(3)
    by (auto simp: cb_sane_def)
  ultimately show ?thesis
    using run_calls_succeeding [OF assms(4) h, of "Suc k"] by simp
qed

section \<open>Probing\<close>

text \<open>
  The documentation of \<open>HALF_OPEN\<close> says that one request is let through. The lock is released before
  the request runs and \<open>call\<close> tests only for \<open>OPEN\<close>, so any number of requests can be under way in a
  half-open breaker.
\<close>

theorem half_open_admits_many:
  "\<exists>c. cb_reachable ''api'' (Some trip_config) 0 c \<and> cb_state (co_breaker c) = CB_HALF_OPEN \<and>
     co_inflight c = Suc n"
proof (induction n)
  case 0
  let ?b = "co_breaker (open_conf 60 0)"
  have "cb_step (open_conf 0 0) (open_conf 60 0)"
    using cb_step.tick [of "open_conf 0 0" 60] by (simp add: open_conf_def)
  moreover have "cb_step (open_conf 60 0)
      ((open_conf 60 0)\<lparr>co_breaker := ?b\<lparr>cb_state := CB_HALF_OPEN\<rparr>, co_inflight := 1\<rparr>)"
    using cb_step.admitted [of "open_conf 60 0"] by (simp add: open_conf_def cb_defs)
  ultimately have "cb_reachable ''api'' (Some trip_config) 0
      ((open_conf 60 0)\<lparr>co_breaker := ?b\<lparr>cb_state := CB_HALF_OPEN\<rparr>, co_inflight := 1\<rparr>)"
    using open_conf_reachable by (blast intro: cb_reachable_step)
  then show ?case
    by (intro exI [of _ "(open_conf 60 0)\<lparr>co_breaker := ?b\<lparr>cb_state := CB_HALF_OPEN\<rparr>, co_inflight := 1\<rparr>"]) simp
next
  case (Suc n)
  then obtain c where c: "cb_reachable ''api'' (Some trip_config) 0 c"
    "cb_state (co_breaker c) = CB_HALF_OPEN" "co_inflight c = Suc n" by blast
  then have "cb_step c (c\<lparr>co_inflight := Suc (Suc n)\<rparr>)"
    using cb_step.admitted [of c "co_breaker c"] by (simp add: cb_admit_def)
  with c(1) have "cb_reachable ''api'' (Some trip_config) 0 (c\<lparr>co_inflight := Suc (Suc n)\<rparr>)"
    by (rule cb_reachable_step)
  with c(2) show ?case by (intro exI [of _ "c\<lparr>co_inflight := Suc (Suc n)\<rparr>"]) simp
qed

section \<open>Witnesses\<close>

text \<open>A service in two phases; the environment is the time.\<close>

definition down :: "rat \<Rightarrow> (cb_exn + unit) \<times> rat" where
  "down t = (Inl (Raised (mk_exn ConnectionErrorC ''refused'')), t + 1)"

definition up :: "rat \<Rightarrow> (cb_exn + unit) \<times> rat" where
  "up t = (Inr (), t + 1)"

lemma down_fails: "always_fails down"
  by (simp add: always_fails_def down_def is_Exception_def isinstance_def)

lemma up_succeeds: "always_succeeds up"
  by (simp add: always_succeeds_def up_def)

theorem circuit_breaker_trips_and_shields_witness:
  "\<exists>b'. cb_state b' = CB_OPEN \<and>
     cb_call id up (b', 6) = (Inl (CircuitBreakerOpenError ''api'' 59), (b', 6))"
proof -
  let ?b = "new_breaker ''api'' None"
  obtain b' e' where run: "snd (run_calls id (replicate 5 down) (?b, 0)) = (b', e')"
    by (cases "snd (run_calls id (replicate 5 down) (?b, 0))")
  have "snd (snd (run_calls id (replicate 5 down) (?b, 0))) = 5" by code_simp
  with run have "e' = 5" by simp
  with circuit_breaker_trips_and_shields [OF _ _ down_fails _ _ run, of 6 up]
  show ?thesis by (auto simp: new_breaker_def default_cb_config_def)
qed

theorem circuit_breaker_recovers_witness:
  "\<exists>b'. snd (run_calls id [up, up] (co_breaker (open_conf 60 0), 60)) = (b', 62) \<and> cb_state b' = CB_CLOSED"
proof -
  let ?b = "co_breaker (open_conf 60 0)"
  obtain b' e' where run: "snd (run_calls id [up, up] (?b, 60)) = (b', e')"
    by (cases "snd (run_calls id [up, up] (?b, 60))")
  have "snd (snd (run_calls id [up, up] (?b, 60))) = 62" by code_simp
  moreover have "cb_state b' = CB_CLOSED"
    using circuit_breaker_recovers [where b = ?b and now = 0 and fn = up and clock = id and e = 60 and b' = b' and e' = e']
      up_succeeds run
    by (simp add: open_conf_def cb_wf_def cb_sane_def cb_should_attempt_reset_def numeral_2_eq_2)
  ultimately show ?thesis using run by simp
qed

end
