(* ===== verification/Http_Cache.thy ===== *)
theory Http_Cache
  imports Failures State_Backend "HOL-Library.List_Lexorder" "HOL-Library.Char_ord" "HOL-Library.Product_Lexorder"
begin

text \<open>
  \<^verbatim>\<open>sources/_internal/cache.py\<close>: the SQLite cache for HTTP responses. \<open>hc_rows\<close> is the table as the cache's
  connection sees it, \<open>hc_committed\<close> the table that survives a rollback; they differ only inside a bulk write. The
  key-value part sits on \<open>TTLKeyValueStore\<close> and its own connection. The digest and the JSON text of a list
  of pairs are parameters; the lock is left out, since each operation runs under it.

  Shown: reads, counts and purges agree on what is fresh; a bulk write that fails with an ordinary exception changes
  nothing; and what goes wrong when it is cancelled or nested.
\<close>

section \<open>Keys\<close>

record http_request =
  rq_url :: string
  rq_params :: "(string \<times> string) list"
  rq_headers :: "(string \<times> string) list"
  rq_source :: string

definition normalize_mapping :: "((string \<times> string) list \<Rightarrow> string) \<Rightarrow> (string \<times> string) list \<Rightarrow> string" where
  "normalize_mapping json m = (if m = [] then [] else json (sort m))"

definition make_request_key ::
  "(string \<Rightarrow> string) \<Rightarrow> ((string \<times> string) list \<Rightarrow> string) \<Rightarrow> http_request \<Rightarrow> string" where
  "make_request_key sha json r =
     sha (join_with ''||'' [rq_source r, rq_url r, normalize_mapping json (rq_params r), normalize_mapping json (rq_headers r)])"

section \<open>The table\<close>

record cache_row =
  cr_url :: string
  cr_body :: string
  cr_source :: string
  cr_cached_at :: rat

record HttpCache =
  hc_ttl :: int
  hc_rows :: "(string \<times> cache_row) list"
  hc_committed :: "(string \<times> cache_row) list"
  hc_in_bulk :: bool
  hc_kv :: store

definition new_http_cache :: "int \<Rightarrow> HttpCache" where
  "new_http_cache ttl = \<lparr>hc_ttl = ttl, hc_rows = [], hc_committed = [], hc_in_bulk = False, hc_kv = []\<rparr>"

definition http_commit :: "HttpCache \<Rightarrow> HttpCache" where
  "http_commit c = c\<lparr>hc_committed := hc_rows c\<rparr>"

definition http_rollback :: "HttpCache \<Rightarrow> HttpCache" where
  "http_rollback c = c\<lparr>hc_rows := hc_committed c\<rparr>"

definition commit_if_not_bulk :: "HttpCache \<Rightarrow> HttpCache" where
  "commit_if_not_bulk c = (if hc_in_bulk c then c else http_commit c)"

text \<open>\<open>DELETE\<close> of the rows that a condition selects, with the number of them.\<close>

definition delete_where :: "(string \<Rightarrow> cache_row \<Rightarrow> bool) \<Rightarrow> HttpCache \<Rightarrow> nat \<times> HttpCache" where
  "delete_where P c =
     (length (filter (\<lambda>(k, r). P k r) (hc_rows c)),
      commit_if_not_bulk (c\<lparr>hc_rows := filter (\<lambda>(k, r). \<not> P k r) (hc_rows c)\<rparr>))"

definition http_get :: "rat \<Rightarrow> string \<Rightarrow> HttpCache \<Rightarrow> string option \<times> HttpCache" where
  "http_get now key c = (case map_of (hc_rows c) key of
     None \<Rightarrow> (None, c)
   | Some r \<Rightarrow>
       if now - cr_cached_at r > of_int (hc_ttl c) then (None, snd (delete_where (\<lambda>k _. k = key) c))
       else (Some (cr_body r), c))"

definition http_set :: "rat \<Rightarrow> string \<Rightarrow> http_request \<Rightarrow> string \<Rightarrow> HttpCache \<Rightarrow> HttpCache" where
  "http_set now key rq body c = commit_if_not_bulk (c\<lparr>hc_rows := AList.delete key (hc_rows c) @
     [(key, \<lparr>cr_url = rq_url rq, cr_body = body, cr_source = rq_source rq, cr_cached_at = now\<rparr>)]\<rparr>)"

definition http_invalidate :: "string \<Rightarrow> HttpCache \<Rightarrow> HttpCache" where
  "http_invalidate key c = snd (delete_where (\<lambda>k _. k = key) c)"

definition evict_source :: "rat \<Rightarrow> string \<Rightarrow> int \<Rightarrow> HttpCache \<Rightarrow> nat \<times> HttpCache" where
  "evict_source now src older_than_days c =
     (if older_than_days \<noteq> 0
      then delete_where (\<lambda>_ r. cr_source r = src \<and> cr_cached_at r < now - of_int (older_than_days * 86400)) c
      else delete_where (\<lambda>_ r. cr_source r = src) c)"

definition http_purge_expired :: "rat \<Rightarrow> HttpCache \<Rightarrow> nat \<times> HttpCache" where
  "http_purge_expired now c = delete_where (\<lambda>_ r. cr_cached_at r < now - of_int (hc_ttl c)) c"

definition http_kv_store :: "HttpCache \<Rightarrow> TTLKeyValueStore" where
  "http_kv_store c = \<lparr>kv_namespace = ''http_kv'', kv_default_ttl_s = Some (hc_ttl c)\<rparr>"

definition http_kv_set :: "rat \<Rightarrow> string \<Rightarrow> pyval \<Rightarrow> int option \<Rightarrow> HttpCache \<Rightarrow> HttpCache" where
  "http_kv_set now key v ttl c = c\<lparr>hc_kv := kv_set SQLiteBackend (http_kv_store c) now key v ttl (hc_kv c)\<rparr>"

definition http_kv_get :: "rat \<Rightarrow> string \<Rightarrow> HttpCache \<Rightarrow> pyval \<times> HttpCache" where
  "http_kv_get now key c =
     (case kv_get SQLiteBackend (http_kv_store c) now key (hc_kv c) of (v, b) \<Rightarrow> (v, c\<lparr>hc_kv := b\<rparr>))"

definition http_stats :: "rat \<Rightarrow> HttpCache \<Rightarrow> (nat \<times> nat) \<times> HttpCache" where
  "http_stats now c =
     (case kv_count SQLiteBackend (http_kv_store c) now (hc_kv c) of
        (n, b) \<Rightarrow> ((length (filter (\<lambda>(k, r). cr_cached_at r \<ge> now - of_int (hc_ttl c)) (hc_rows c)), n), c\<lparr>hc_kv := b\<rparr>))"

definition http_reset :: "HttpCache \<Rightarrow> HttpCache" where
  "http_reset c = (http_commit (c\<lparr>hc_rows := []\<rparr>))\<lparr>hc_kv := snd (kv_clear SQLiteBackend (http_kv_store c) (hc_kv c))\<rparr>"

text \<open>
  \<open>bulk_write\<close> around a body, the block of the \<open>with\<close> statement: the commit follows a body that returns, the
  rollback one that raises an \<open>Exception\<close>; the flag is reset in every case.
\<close>

definition bulk_write :: "(HttpCache \<Rightarrow> (exn + unit) \<times> HttpCache) \<Rightarrow> HttpCache \<Rightarrow> (exn + unit) \<times> HttpCache" where
  "bulk_write body c =
     (case body (c\<lparr>hc_in_bulk := True\<rparr>) of
        (Inr _, c1) \<Rightarrow> (Inr (), (http_commit c1)\<lparr>hc_in_bulk := False\<rparr>)
      | (Inl e, c1) \<Rightarrow> (Inl e, (if is_Exception e then http_rollback c1 else c1)\<lparr>hc_in_bulk := False\<rparr>))"

text \<open>The calls a body can make, each at its time, and a body that makes some of them and then returns or raises.\<close>

datatype http_op =
    HGet rat string | HSet rat string http_request string | HInvalidate string | HEvict rat string int | HPurge rat

fun http_apply :: "http_op \<Rightarrow> HttpCache \<Rightarrow> HttpCache" where
  "http_apply (HGet now k) c = snd (http_get now k c)"
| "http_apply (HSet now k rq body) c = http_set now k rq body c"
| "http_apply (HInvalidate k) c = http_invalidate k c"
| "http_apply (HEvict now s d) c = snd (evict_source now s d c)"
| "http_apply (HPurge now) c = snd (http_purge_expired now c)"

definition bulk_body :: "http_op list \<Rightarrow> exn + unit \<Rightarrow> HttpCache \<Rightarrow> (exn + unit) \<times> HttpCache" where
  "bulk_body ops r c = (r, fold http_apply ops c)"

section \<open>What is fresh\<close>

lemmas http_op_simps = http_get_def http_set_def http_invalidate_def evict_source_def http_purge_expired_def
  delete_where_def commit_if_not_bulk_def http_commit_def

definition http_wf :: "HttpCache \<Rightarrow> bool" where
  "http_wf c \<longleftrightarrow> distinct (map fst (hc_rows c))"

definition too_old :: "rat \<Rightarrow> int \<Rightarrow> cache_row \<Rightarrow> bool" where
  "too_old t ttl r \<longleftrightarrow> t - cr_cached_at r > of_int ttl"

lemma http_get_answer:
  "fst (http_get t k c) = (case map_of (hc_rows c) k of None \<Rightarrow> None
     | Some r \<Rightarrow> if too_old t (hc_ttl c) r then None else Some (cr_body r))"
  by (simp add: http_get_def too_old_def split: option.split)

lemma distinct_map_fst_filter: "distinct (map fst xs) \<Longrightarrow> distinct (map fst (filter P xs))"
  by (induction xs) auto

lemma http_apply_wf [simp]: "http_wf c \<Longrightarrow> http_wf (http_apply op c)"
  by (cases op)
    (auto simp: http_wf_def http_op_simps distinct_map_fst_filter delete_keys distinct_removeAll split: option.split)

lemma fold_http_wf [simp]: "http_wf c \<Longrightarrow> http_wf (fold http_apply ops c)"
  by (induction ops arbitrary: c) simp_all

lemma new_http_wf [simp]: "http_wf (new_http_cache ttl)"
  by (simp add: http_wf_def new_http_cache_def)

lemma purge_rows:
  "hc_rows (snd (http_purge_expired now c)) = filter (\<lambda>(k, r). \<not> too_old now (hc_ttl c) r) (hc_rows c)"
  "hc_ttl (snd (http_purge_expired now c)) = hc_ttl c"
  by (auto simp: http_op_simps too_old_def algebra_simps intro!: filter_cong)

lemma stats_rows: "fst (fst (http_stats now c)) = length (filter (\<lambda>(k, r). \<not> too_old now (hc_ttl c) r) (hc_rows c))"
  by (auto simp: http_stats_def too_old_def algebra_simps not_less split: prod.split intro!: arg_cong [where f = length] filter_cong)

lemma map_of_filter_rows:
  "distinct (map fst xs) \<Longrightarrow> map_of (filter (\<lambda>(k, r). P r) xs) k =
     (case map_of xs k of None \<Rightarrow> None | Some r \<Rightarrow> if P r then Some r else None)"
  by (induction xs) (auto split: option.splits simp: rev_image_eqI dest: map_of_SomeD)

lemma purge_keeps_answers:
  assumes "http_wf c" "now \<le> t"
  shows "fst (http_get t k (snd (http_purge_expired now c))) = fst (http_get t k c)"
proof -
  have "too_old now (hc_ttl c) r \<Longrightarrow> too_old t (hc_ttl c) r" for r using assms(2) by (simp add: too_old_def)
  with assms(1) show ?thesis
    by (auto simp: http_get_answer purge_rows map_of_filter_rows http_wf_def split: option.splits)
qed

lemma card_fresh:
  assumes "http_wf c"
  shows "card {k. fst (http_get now k c) \<noteq> None} = length (filter (\<lambda>(k, r). \<not> too_old now (hc_ttl c) r) (hc_rows c))"
proof -
  let ?l = "filter (\<lambda>(k, r). \<not> too_old now (hc_ttl c) r) (hc_rows c)"
  have d: "distinct (map fst ?l)" using assms by (simp add: http_wf_def distinct_map_fst_filter)
  have "{k. fst (http_get now k c) \<noteq> None} = dom (map_of ?l)"
    using assms by (auto simp: http_get_answer http_wf_def map_of_filter_rows split: option.splits if_splits)
  also have "\<dots> = set (map fst ?l)" by (simp add: dom_map_of_conv_image_fst)
  finally show ?thesis using distinct_card [OF d] by simp
qed

text \<open>
  The cache's operations agree on what is fresh, after any sequence of calls: \<open>stats\<close> counts exactly the
  keys that \<open>get\<close> answers at that time, \<open>purge_expired\<close> leaves exactly so many rows, and no later read
  can tell that it ran.
\<close>

theorem http_cache_agrees_on_freshness:
  assumes "c = fold http_apply ops (new_http_cache ttl)" "now \<le> t"
  shows "fst (fst (http_stats now c)) = card {k. fst (http_get now k c) \<noteq> None} \<and>
    length (hc_rows (snd (http_purge_expired now c))) = fst (fst (http_stats now c)) \<and>
    fst (http_get t k (snd (http_purge_expired now c))) = fst (http_get t k c)"
proof -
  have wf: "http_wf c" by (simp add: assms(1))
  show ?thesis
    unfolding card_fresh [OF wf] purge_keeps_answers [OF wf assms(2)] stats_rows purge_rows by simp
qed

lemma http_cache_agrees_on_freshness_witness:
  "let rq = \<lparr>rq_url = ''u'', rq_params = [], rq_headers = [], rq_source = ''s''\<rparr>;
       c = fold http_apply [HSet 0 ''old'' rq ''x'', HSet 5 ''new'' rq ''y''] (new_http_cache 10)
   in fst (fst (http_stats 11 c)) = 1 \<and> length (hc_rows c) = 2 \<and>
      fst (http_get 12 ''new'' (snd (http_purge_expired 11 c))) = Some ''y''"
proof -
  define rq where "rq = \<lparr>rq_url = ''u'', rq_params = [], rq_headers = [], rq_source = ''s''\<rparr>"
  define c where "c = fold http_apply [HSet 0 ''old'' rq ''x'', HSet 5 ''new'' rq ''y''] (new_http_cache 10)"
  have "fst (http_get 12 ''new'' (snd (http_purge_expired 11 c))) = fst (http_get 12 ''new'' c)"
    using http_cache_agrees_on_freshness [OF c_def, of 11 12 "''new''"] by simp
  moreover have "fst (http_get 12 ''new'' c) = Some ''y''" "length (hc_rows c) = 2"
    unfolding c_def rq_def by code_simp+
  moreover have "fst (fst (http_stats 11 c)) = 1" unfolding c_def rq_def by code_simp
  ultimately show ?thesis unfolding Let_def rq_def [symmetric] c_def [symmetric] by simp
qed

section \<open>Bulk writes\<close>

definition clean :: "HttpCache \<Rightarrow> bool" where
  "clean c \<longleftrightarrow> \<not> hc_in_bulk c \<and> hc_committed c = hc_rows c"

lemma http_apply_clean: "clean c \<Longrightarrow> clean (http_apply op c)"
  by (cases op) (auto simp: clean_def http_op_simps split: option.split)

lemma fold_http_clean: "clean c \<Longrightarrow> clean (fold http_apply ops c)"
  by (induction ops arbitrary: c) (simp_all add: http_apply_clean)

lemma new_http_clean: "clean (new_http_cache ttl)"
  by (simp add: clean_def new_http_cache_def)

text \<open>Inside a bulk write every operation does to the rows what it does outside, and commits nothing.\<close>

lemma http_apply_in_bulk:
  "http_apply op (c\<lparr>hc_committed := d, hc_in_bulk := True\<rparr>) = (http_apply op c)\<lparr>hc_committed := d, hc_in_bulk := True\<rparr>"
  by (cases op) (auto simp: http_op_simps split: option.split)

lemma fold_http_in_bulk:
  "fold http_apply ops (c\<lparr>hc_committed := d, hc_in_bulk := True\<rparr>) =
     (fold http_apply ops c)\<lparr>hc_committed := d, hc_in_bulk := True\<rparr>"
proof (induction ops arbitrary: c)
  case (Cons op ops)
  have "fold http_apply (op # ops) (c\<lparr>hc_committed := d, hc_in_bulk := True\<rparr>) =
      fold http_apply ops ((http_apply op c)\<lparr>hc_committed := d, hc_in_bulk := True\<rparr>)"
    by (simp add: http_apply_in_bulk)
  with Cons.IH [of "http_apply op c"] show ?case by simp
qed simp

lemma fold_http_frame:
  "hc_ttl (fold http_apply ops c) = hc_ttl c \<and> hc_kv (fold http_apply ops c) = hc_kv c"
proof (induction ops arbitrary: c)
  case (Cons op ops)
  have "hc_ttl (http_apply op c) = hc_ttl c \<and> hc_kv (http_apply op c) = hc_kv c"
    by (cases op) (auto simp: http_op_simps split: option.split)
  with Cons show ?case by simp
qed simp

lemma bulk_body_run:
  "bulk_body ops r (c\<lparr>hc_in_bulk := True\<rparr>) = (r, (fold http_apply ops c)\<lparr>hc_committed := hc_committed c, hc_in_bulk := True\<rparr>)"
  using fold_http_in_bulk [where ops = ops and c = c and d = "hc_committed c"] by (simp add: bulk_body_def)

text \<open>
  A bulk write is atomic as far as ordinary exceptions go: with a body that returns it leaves the cache as the
  same calls would one by one, and with a body that raises an \<open>Exception\<close> it raises it and leaves the cache
  untouched, reads that removed expired rows included.
\<close>

theorem bulk_write_atomic:
  assumes "c = fold http_apply before (new_http_cache ttl)" "case r of Inl e \<Rightarrow> is_Exception e | Inr _ \<Rightarrow> True"
  shows "bulk_write (bulk_body ops r) c = (r, case r of Inr _ \<Rightarrow> fold http_apply ops c | Inl _ \<Rightarrow> c)"
proof -
  have c: "clean c" using fold_http_clean [OF new_http_clean] by (simp add: assms(1))
  then have f: "clean (fold http_apply ops c)" by (rule fold_http_clean)
  have same: "hc_ttl (fold http_apply ops c) = hc_ttl c \<and> hc_kv (fold http_apply ops c) = hc_kv c"
    by (rule fold_http_frame)
  show ?thesis
  proof (cases r)
    case (Inl e)
    with c same assms(2) show ?thesis
      by (simp add: bulk_write_def bulk_body_run http_rollback_def clean_def HttpCache.equality)
  next
    case (Inr u)
    with f show ?thesis by (simp add: bulk_write_def bulk_body_run http_commit_def clean_def HttpCache.equality)
  qed
qed

lemma bulk_write_atomic_witness:
  "let rq = \<lparr>rq_url = ''u'', rq_params = [], rq_headers = [], rq_source = ''s''\<rparr>; e = mk_exn ValueErrorC ''x'';
       c = fold http_apply [HSet 0 ''a'' rq ''x''] (new_http_cache 10)
   in bulk_write (bulk_body [HSet 1 ''b'' rq ''y'', HGet 20 ''a''] (Inl e)) c = (Inl e, c) \<and> hc_rows c \<noteq> []"
proof -
  define rq where "rq = \<lparr>rq_url = ''u'', rq_params = [], rq_headers = [], rq_source = ''s''\<rparr>"
  define c where "c = fold http_apply [HSet 0 ''a'' rq ''x''] (new_http_cache 10)"
  have "is_Exception (mk_exn ValueErrorC ''x'')" by code_simp
  then have "bulk_write (bulk_body [HSet 1 ''b'' rq ''y'', HGet 20 ''a''] (Inl (mk_exn ValueErrorC ''x''))) c =
      (Inl (mk_exn ValueErrorC ''x''), c)"
    using bulk_write_atomic [OF c_def, of "Inl (mk_exn ValueErrorC ''x'')" "[HSet 1 ''b'' rq ''y'', HGet 20 ''a'']"] by simp
  moreover have "hc_rows c \<noteq> []" by (simp add: c_def http_op_simps new_http_cache_def)
  ultimately show ?thesis unfolding Let_def rq_def [symmetric] c_def [symmetric] by simp
qed

text \<open>
  A cancelled body, whose exception is no \<open>Exception\<close>, is not rolled back: its writes stay in the open
  transaction, and the next write commits them.
\<close>

lemma cancelled_bulk_write_is_committed_later:
  "is_Exception e = False \<Longrightarrow>
     hc_committed (http_set 2 ''b'' rq ''y'' (snd (bulk_write (bulk_body [HSet 1 ''a'' rq ''x''] (Inl e)) (new_http_cache ttl)))) =
     [(''a'', \<lparr>cr_url = rq_url rq, cr_body = ''x'', cr_source = rq_source rq, cr_cached_at = 1\<rparr>),
      (''b'', \<lparr>cr_url = rq_url rq, cr_body = ''y'', cr_source = rq_source rq, cr_cached_at = 2\<rparr>)]"
  by (simp add: bulk_write_def bulk_body_def http_op_simps new_http_cache_def)

text \<open>A bulk write inside another ends it: what the outer body wrote is committed although it fails.\<close>

lemma nested_bulk_write_ends_the_outer:
  "hc_rows (snd (bulk_write (\<lambda>c. (Inl e, snd (bulk_write (bulk_body [] (Inr ())) (http_set 1 ''a'' rq ''x'' c)))) (new_http_cache ttl))) =
     [(''a'', \<lparr>cr_url = rq_url rq, cr_body = ''x'', cr_source = rq_source rq, cr_cached_at = 1\<rparr>)]"
  by (simp add: bulk_write_def bulk_body_def http_op_simps new_http_cache_def http_rollback_def)

text \<open>The separator may occur in a part: two requests of different sources share a key.\<close>

lemma request_keys_collide:
  "make_request_key sha json \<lparr>rq_url = ''b||c'', rq_params = [], rq_headers = [], rq_source = ''a''\<rparr> =
   make_request_key sha json \<lparr>rq_url = ''c'', rq_params = [], rq_headers = [], rq_source = ''a||b''\<rparr>"
  by (simp add: make_request_key_def)

end
