(* ===== verification/Http_Source.thy ===== *)
theory Http_Source
  imports Retry Circuit_Breaker Http_Cache
begin

text \<open>
  \<^verbatim>\<open>sources/http/http.py\<close>: the base class of HTTP sources, which puts rate limit, retries, circuit breaker and response
  cache together around the client.

  The client (\<open>httpx\<close>) is a parameter: what sending a request comes to and how long it takes, what
  \<open>raise_for_status\<close> raises and the status of such an exception. \<open>hs_now\<close> is the clock; a sleep returns \<open>ht_late\<close>
  later than asked. \<open>hs_sent\<close> records when requests were sent; the code does not read it. Calls are made one after the
  other, except where a lemma says so. Errors of the cache's database and logging are left out.

  Shown: requests keep their distance; a response that was fetched is served from the cache while it is fresh, and
  no failure gets there; an open breaker lets no request through, retries included.
\<close>

section \<open>Configuration and state\<close>

record outgoing =
  og_method :: string
  og_url :: string
  og_params :: "(string \<times> string) list"
  og_headers :: "(string \<times> string) list option"
  og_json :: pyval

record response =
  rs_status :: int
  rs_text :: string

datatype fetched = Live response | CachedResponse string

fun fetched_text :: "fetched \<Rightarrow> string" where
  "fetched_text (Live r) = rs_text r"
| "fetched_text (CachedResponse x) = x"

record 'w http_config =
  ht_headers :: "(string \<times> string) list"
  ht_min_interval :: rat
  ht_policy :: RetryPolicy
  ht_source_name :: string
  ht_cache_ttl :: "int option"
  ht_build_url :: "string \<Rightarrow> (string \<times> string) list \<Rightarrow> string"
  ht_key :: "http_request \<Rightarrow> string"
  ht_send :: "outgoing \<Rightarrow> 'w \<Rightarrow> (exn + response) \<times> rat \<times> 'w"
  ht_raise_for_status :: "response \<Rightarrow> exn option"
  ht_late :: "rat \<Rightarrow> rat"
  ht_rnd :: "int \<Rightarrow> rat"

record 'w http_source =
  hs_now :: rat
  hs_last :: rat
  hs_client :: bool
  hs_cache :: "HttpCache option"
  hs_disk :: "(string \<times> cache_row) list \<times> store"
  hs_breaker :: "AsyncCircuitBreaker option"
  hs_world :: 'w
  hs_sent :: "rat list"

type_synonym ('w, 'a) http_run = "(exn, 'w http_source, 'a) comp"

definition HTTPErrorC :: exn_class where "HTTPErrorC = UserC ''HTTPError'' ExceptionC"
definition HTTPStatusErrorC :: exn_class where "HTTPStatusErrorC = UserC ''HTTPStatusError'' HTTPErrorC"
definition RequestErrorC :: exn_class where "RequestErrorC = UserC ''RequestError'' HTTPErrorC"

definition should_retry_exception :: "(exn \<Rightarrow> int) \<Rightarrow> exn \<Rightarrow> bool" where
  "should_retry_exception status_code e =
     (if isinstance e RequestErrorC then True
      else if isinstance e HTTPStatusErrorC then status_code e = 429 \<or> status_code e \<ge> 500
      else False)"

text \<open>The policy of \<open>__init__\<close> when none is given, and the interval for a rate.\<close>

definition http_policy :: "(exn \<Rightarrow> int) \<Rightarrow> int \<Rightarrow> RetryPolicy" where
  "http_policy status_code max_retries = \<lparr>rp_max_attempts = max max_retries 1, rp_initial_backoff_s = 1,
     rp_backoff_multiplier = 2, rp_max_backoff_s = 30, rp_jitter_ratio = 0,
     rp_retry_exceptions = [HTTPStatusErrorC, RequestErrorC], rp_retry_if = Some (should_retry_exception status_code),
     rp_failure_classifier = None\<rparr>"

definition interval_for :: "rat \<Rightarrow> rat" where
  "interval_for rps = 1 / max rps (1 / 1000)"

section \<open>Sending\<close>

definition http_sleep :: "'w http_config \<Rightarrow> rat \<Rightarrow> ('w, unit) http_run" where
  "http_sleep C d = modify (\<lambda>s. s\<lparr>hs_now := hs_now s + d + ht_late C (hs_now s)\<rparr>)"

text \<open>\<open>_throttle\<close>: until it sleeps, how long; and what it does when it goes on.\<close>

definition throttle_delay :: "'w http_config \<Rightarrow> 'w http_source \<Rightarrow> rat option" where
  "throttle_delay C s =
     (let elapsed = hs_now s - hs_last s in
      if elapsed < ht_min_interval C then Some (ht_min_interval C - elapsed) else None)"

definition throttle :: "'w http_config \<Rightarrow> ('w, unit) http_run" where
  "throttle C = bind get_state (\<lambda>s. seq (case throttle_delay C s of None \<Rightarrow> skip | Some d \<Rightarrow> http_sleep C d)
     (modify (\<lambda>s. s\<lparr>hs_last := hs_now s\<rparr>)))"

definition send_request :: "'w http_config \<Rightarrow> outgoing \<Rightarrow> ('w, response) http_run" where
  "send_request C og = (\<lambda>s. case ht_send C og (hs_world s) of (r, d, w) \<Rightarrow>
     (r, s\<lparr>hs_client := True, hs_sent := hs_sent s @ [hs_now s], hs_now := hs_now s + d, hs_world := w\<rparr>))"

definition do_request :: "'w http_config \<Rightarrow> outgoing \<Rightarrow> ('w, response) http_run" where
  "do_request C og = seq (throttle C) (bind (send_request C og)
     (\<lambda>r. case ht_raise_for_status C r of None \<Rightarrow> ret r | Some e \<Rightarrow> throw e))"

definition request_retried :: "'w http_config \<Rightarrow> outgoing \<Rightarrow> ('w, response) http_run" where
  "request_retried C og = retry_async (ht_policy C) (ht_rnd C) (Some (\<lambda>_ _ _. skip)) (http_sleep C) (do_request C og) 1"

fun breaker_error :: "cb_exn \<Rightarrow> exn" where
  "breaker_error (CircuitBreakerOpenError n t) = mk_exn (UserC ''CircuitBreakerOpenError'' ExceptionC) n"
| "breaker_error (Raised e) = e"

definition http_request_call :: "'w http_config \<Rightarrow> outgoing \<Rightarrow> ('w, response) http_run" where
  "http_request_call C og = (\<lambda>s. case hs_breaker s of
     None \<Rightarrow> request_retried C og s
   | Some b \<Rightarrow>
       (case cb_call hs_now (\<lambda>e. case request_retried C og e of (r, e') \<Rightarrow> (map_sum Raised id r, e')) (b, s) of
          (r, b', t) \<Rightarrow> (map_sum breaker_error id r, t\<lparr>hs_breaker := Some b'\<rparr>)))"

section \<open>The helpers of a source\<close>

definition merge_headers :: "(string \<times> string) list \<Rightarrow> (string \<times> string) list option \<Rightarrow> (string \<times> string) list" where
  "merge_headers base hs = fold (\<lambda>(k, v). AList.update k v) (case hs of None \<Rightarrow> [] | Some x \<Rightarrow> x) base"

definition cache_request :: "'w http_config \<Rightarrow> string \<Rightarrow> (string \<times> string) list \<Rightarrow> (string \<times> string) list option \<Rightarrow> http_request" where
  "cache_request C url params headers = \<lparr>rq_url = ht_build_url C url params, rq_params = [],
     rq_headers = merge_headers (ht_headers C) headers, rq_source = ht_source_name C\<rparr>"

definition read_cache :: "'w http_config \<Rightarrow> http_request \<Rightarrow> bool \<Rightarrow> ('w, string option) http_run" where
  "read_cache C rq use_cache = (\<lambda>s. case hs_cache s of
     None \<Rightarrow> (Inr None, s)
   | Some c \<Rightarrow>
       if \<not> use_cache \<or> ht_cache_ttl C = None \<or> ht_cache_ttl C = Some 0 then (Inr None, s)
       else case http_get (hs_now s) (ht_key C rq) c of (x, c') \<Rightarrow> (Inr x, s\<lparr>hs_cache := Some c'\<rparr>))"

definition fill_cache :: "'w http_config \<Rightarrow> http_request \<Rightarrow> bool \<Rightarrow> string \<Rightarrow> ('w, unit) http_run" where
  "fill_cache C rq use_cache body = modify (\<lambda>s. case hs_cache s of
     None \<Rightarrow> s
   | Some c \<Rightarrow> if use_cache then s\<lparr>hs_cache := Some (http_set (hs_now s) (ht_key C rq) rq body c)\<rparr> else s)"

definition source_get ::
  "'w http_config \<Rightarrow> string \<Rightarrow> (string \<times> string) list \<Rightarrow> (string \<times> string) list option \<Rightarrow> bool \<Rightarrow> ('w, fetched) http_run" where
  "source_get C url params headers use_cache =
     (let rq = cache_request C url params headers in
      seq (modify (\<lambda>s. s\<lparr>hs_client := True\<rparr>))
        (bind (read_cache C rq use_cache) (\<lambda>x. case x of
           Some body \<Rightarrow> ret (CachedResponse body)
         | None \<Rightarrow>
             bind (http_request_call C \<lparr>og_method = ''GET'', og_url = url, og_params = params, og_headers = headers, og_json = PNone\<rparr>)
               (\<lambda>r. seq (fill_cache C rq use_cache (rs_text r)) (ret (Live r))))))"

definition source_post :: "'w http_config \<Rightarrow> string \<Rightarrow> pyval \<Rightarrow> (string \<times> string) list option \<Rightarrow> ('w, fetched) http_run" where
  "source_post C url body headers =
     bind (http_request_call C \<lparr>og_method = ''POST'', og_url = url, og_params = [], og_headers = headers, og_json = body\<rparr>)
       (\<lambda>r. ret (Live r))"

definition source_open :: "'w http_config \<Rightarrow> ('w, unit) http_run" where
  "source_open C = modify (\<lambda>s. s\<lparr>hs_client := True, hs_cache := (case ht_cache_ttl C of
     None \<Rightarrow> hs_cache s
   | Some ttl \<Rightarrow> Some \<lparr>hc_ttl = ttl, hc_rows = fst (hs_disk s), hc_committed = fst (hs_disk s), hc_in_bulk = False,
       hc_kv = snd (hs_disk s)\<rparr>)\<rparr>)"

definition source_close :: "('w, unit) http_run" where
  "source_close = modify (\<lambda>s. case hs_cache s of
     None \<Rightarrow> s\<lparr>hs_client := False\<rparr>
   | Some c \<Rightarrow> s\<lparr>hs_client := False, hs_cache := None, hs_disk := (hc_committed c, hc_kv c)\<rparr>)"

text \<open>\<open>stream\<close> over the turns of its loop: the records a call of \<open>fetch_batch\<close> yields and how it ends.\<close>

datatype stream_end = Streaming | Exhausted | StreamFailed exn

definition StopFetchingC :: exn_class where "StopFetchingC = UserC ''StopFetching'' ExceptionC"

fun http_stream :: "('r list \<times> exn option) list \<Rightarrow> 'r list \<times> stream_end" where
  "http_stream [] = ([], Streaming)"
| "http_stream ((rs, None) # ts) = (case http_stream ts of (xs, e) \<Rightarrow> (rs @ xs, e))"
| "http_stream ((rs, Some e) # ts) = (rs, if isinstance e StopFetchingC then Exhausted else StreamFailed e)"

section \<open>What a call leaves alone\<close>

text \<open>A property of the state that a computation keeps, whether it returns or raises.\<close>

definition maintains :: "('s \<Rightarrow> bool) \<Rightarrow> ('e, 's, 'a) comp \<Rightarrow> bool" where
  "maintains I m \<longleftrightarrow> (\<forall>s. I s \<longrightarrow> I (snd (m s)))"

named_theorems maintains_intro

lemma maintainsD: "maintains I m \<Longrightarrow> I s \<Longrightarrow> I (snd (m s))"
  by (simp add: maintains_def)

lemma maintains_basic [maintains_intro]: "maintains I (ret x)" "maintains I (throw e)" "maintains I skip" "maintains I get_state"
  by (simp_all add: maintains_def ret_def throw_def skip_def get_state_def)

lemma maintains_modify [maintains_intro]: "(\<And>s. I s \<Longrightarrow> I (f s)) \<Longrightarrow> maintains I (modify f)"
  by (simp add: maintains_def modify_def)

lemma maintains_attempt [maintains_intro]: "maintains I m \<Longrightarrow> maintains I (attempt m)"
  by (auto simp: maintains_def attempt_def split: prod.split)

lemma maintains_bind [maintains_intro]: "maintains I m \<Longrightarrow> (\<And>x. maintains I (f x)) \<Longrightarrow> maintains I (bind m f)"
  unfolding maintains_def bind_def by (force split: prod.split sum.split)

lemma maintains_seq [maintains_intro]: "maintains I m \<Longrightarrow> maintains I n \<Longrightarrow> maintains I (seq m n)"
  unfolding seq_def by (rule maintains_bind)

lemma maintains_if [maintains_intro]: "(b \<Longrightarrow> maintains I m) \<Longrightarrow> (\<not> b \<Longrightarrow> maintains I n) \<Longrightarrow> maintains I (if b then m else n)"
  by simp

lemma retry_async_keeps [maintains_intro]:
  assumes op: "maintains I operation" and sl: "\<And>d. 0 < d \<Longrightarrow> maintains I (sleep d)"
    and ob: "\<And>f n e d. on_retry = Some f \<Longrightarrow> maintains I (f n e d)"
  shows "maintains I (retry_async p rnd on_retry sleep operation n)"
proof (induction "nat (rp_max_attempts p - n)" arbitrary: n rule: less_induct)
  case less
  have "maintains I (case on_retry of None \<Rightarrow> skip | Some f \<Rightarrow> f n e d)" for e d
    using ob by (cases on_retry) (auto intro: maintains_intro)
  moreover have "maintains I (retry_async p rnd on_retry sleep operation (n + 1))" if "should_retry p e n d" for e d
    using less.hyps [of "n + 1"] should_retry_attempt [OF that] by simp
  ultimately show ?case
    by (subst retry_async.simps) (auto intro!: maintains_intro op sl simp: Let_def split: sum.split)
qed

lemma maintains_option [maintains_intro]:
  "maintains I m \<Longrightarrow> (\<And>x. maintains I (f x)) \<Longrightarrow> maintains I (case x of None \<Rightarrow> m | Some y \<Rightarrow> f y)"
  by (cases x) auto

text \<open>Sending changes neither the cache nor what is on disk nor the breaker.\<close>

definition same_stores :: "'w http_source \<Rightarrow> 'w http_source \<Rightarrow> bool" where
  "same_stores s t \<longleftrightarrow> hs_cache t = hs_cache s \<and> hs_disk t = hs_disk s \<and> hs_breaker t = hs_breaker s"

lemma send_request_keeps:
  "(\<And>s d w. I s \<Longrightarrow> I (s\<lparr>hs_client := True, hs_sent := hs_sent s @ [hs_now s], hs_now := hs_now s + d, hs_world := w\<rparr>)) \<Longrightarrow>
     maintains I (send_request C og)"
  by (auto simp: maintains_def send_request_def split: prod.split)

lemma do_request_stores: "maintains (same_stores s) (do_request C og)"
  unfolding do_request_def throttle_def http_sleep_def
  by (intro maintains_intro send_request_keeps) (auto simp: same_stores_def intro: maintains_intro split: option.split)

lemma request_retried_stores: "same_stores s (snd (request_retried C og s))"
proof -
  have "maintains (same_stores s) (request_retried C og)"
    unfolding request_retried_def http_sleep_def
    by (intro maintains_intro do_request_stores) (auto simp: same_stores_def intro: maintains_intro)
  then show ?thesis by (rule maintainsD) (simp add: same_stores_def)
qed

text \<open>What a call through the breaker leaves of the rest of the state: what it was, or what the request made of it.\<close>

lemma cb_call_env:
  "snd (snd (cb_call clock fn (b, e))) = (case cb_admit (clock e) b of (Some _, _) \<Rightarrow> e | (None, _) \<Rightarrow> snd (fn e))"
  by (auto simp: cb_call_def bind_def get_state_def modify_def attempt_def throw_def ret_def
      split: prod.split option.split sum.split cb_exn.split)

lemma http_request_call_keeps:
  assumes "maintains I (request_retried C og)" and "\<And>s b. I (s\<lparr>hs_breaker := b\<rparr>) = I s"
  shows "maintains I (http_request_call C og)"
  unfolding maintains_def
proof (intro allI impI)
  fix s assume I: "I s"
  then have r: "I (snd (request_retried C og s))" by (rule maintainsD [OF assms(1)])
  show "I (snd (http_request_call C og s))"
  proof (cases "hs_breaker s")
    case (Some b)
    let ?fn = "\<lambda>e. case request_retried C og e of (r, e') \<Rightarrow> (map_sum Raised id r, e')"
    obtain x b' t where call: "cb_call hs_now ?fn (b, s) = (x, b', t)" by (metis prod_cases3)
    then have "t = s \<or> t = snd (request_retried C og s)"
      using cb_call_env [of hs_now ?fn b s]
      by (auto split: prod.splits option.splits)
    with I r Some call assms(2) show ?thesis by (auto simp: http_request_call_def)
  qed (use r in \<open>simp add: http_request_call_def\<close>)
qed

lemma http_request_call_cache: "hs_cache (snd (http_request_call C og s)) = hs_cache s"
proof -
  have "maintains (\<lambda>t. hs_cache t = hs_cache s) (http_request_call C og)"
  proof (rule http_request_call_keeps)
    show "maintains (\<lambda>t. hs_cache t = hs_cache s) (request_retried C og)"
      unfolding maintains_def using request_retried_stores by (metis same_stores_def)
  qed simp
  then show ?thesis by (rule maintainsD) simp
qed

section \<open>The rate limit\<close>

definition spaced :: "'w http_config \<Rightarrow> 'w http_source \<Rightarrow> bool" where
  "spaced C s \<longleftrightarrow> successively (\<lambda>a b. a + ht_min_interval C \<le> b) (hs_sent s) \<and>
     (hs_sent s \<noteq> [] \<longrightarrow> last (hs_sent s) \<le> hs_last s)"

lemma throttle_waits:
  assumes "\<And>t. 0 \<le> ht_late C t"
  shows "fst (throttle C s) = Inr () \<and> hs_sent (snd (throttle C s)) = hs_sent s \<and>
    hs_last (snd (throttle C s)) = hs_now (snd (throttle C s)) \<and>
    hs_last s + ht_min_interval C \<le> hs_now (snd (throttle C s))"
  using assms [of "hs_now s"]
  by (auto simp: throttle_def throttle_delay_def http_sleep_def seq_def bind_def get_state_def modify_def skip_def
      ret_def Let_def)

lemma do_request_spaced:
  assumes "\<And>t. 0 \<le> ht_late C t"
  shows "maintains (spaced C) (do_request C og)"
  unfolding maintains_def
proof (intro allI impI)
  fix s assume I: "spaced C s"
  obtain x u where u: "throttle C s = (x, u)" by (cases "throttle C s")
  obtain y t where t: "send_request C og u = (y, t)" by (cases "send_request C og u")
  have w: "x = Inr ()" "hs_sent u = hs_sent s" "hs_last u = hs_now u" "hs_last s + ht_min_interval C \<le> hs_now u"
    using throttle_waits [OF assms, of s] u by auto
  have "hs_sent t = hs_sent u @ [hs_now u]" "hs_last t = hs_last u"
    using t by (auto simp: send_request_def split: prod.splits)
  with I w have "spaced C t" by (auto simp: spaced_def successively_append_iff)
  with u t w(1) show "spaced C (snd (do_request C og s))"
    by (auto simp: do_request_def seq_def bind_def ret_def throw_def split: sum.split option.split)
qed

lemma call_spaced:
  assumes "\<And>t. 0 \<le> ht_late C t"
  shows "maintains (spaced C) (http_request_call C og)"
proof (rule http_request_call_keeps)
  show "maintains (spaced C) (request_retried C og)"
    unfolding request_retried_def http_sleep_def
    by (intro maintains_intro do_request_spaced assms) (auto simp: spaced_def intro: maintains_intro)
qed (simp add: spaced_def)

text \<open>What an implementation does in between: its calls, and time that passes.\<close>

datatype source_op =
    GetCall string "(string \<times> string) list" "(string \<times> string) list option" bool
  | PostCall string pyval "(string \<times> string) list option"
  | Elapse rat | OpenSource | CloseSource

fun source_step :: "'w http_config \<Rightarrow> source_op \<Rightarrow> 'w http_source \<Rightarrow> 'w http_source" where
  "source_step C (GetCall url params headers use) s = snd (source_get C url params headers use s)"
| "source_step C (PostCall url body headers) s = snd (source_post C url body headers s)"
| "source_step C (Elapse d) s = s\<lparr>hs_now := hs_now s + d\<rparr>"
| "source_step C OpenSource s = snd (source_open C s)"
| "source_step C CloseSource s = snd (source_close s)"

definition source_run :: "'w http_config \<Rightarrow> source_op list \<Rightarrow> 'w http_source \<Rightarrow> 'w http_source" where
  "source_run C ops = fold (source_step C) ops"

lemma read_cache_keeps: "(\<And>s c. I (s\<lparr>hs_cache := c\<rparr>) = I s) \<Longrightarrow> maintains I (read_cache C rq u)"
  by (auto simp: maintains_def read_cache_def split: option.split prod.split)

lemma step_spaced:
  assumes "\<And>t. 0 \<le> ht_late C t" and I: "spaced C s"
  shows "spaced C (source_step C x s)"
proof (cases x)
  case (GetCall url params headers use)
  have "maintains (spaced C) (source_get C url params headers use)"
    unfolding source_get_def fill_cache_def Let_def
    by (intro maintains_intro read_cache_keeps call_spaced assms(1)) (auto simp: spaced_def split: option.split)
  from maintainsD [OF this I] GetCall show ?thesis by simp
next
  case (PostCall url body headers)
  have "maintains (spaced C) (source_post C url body headers)"
    unfolding source_post_def by (intro maintains_intro call_spaced assms(1))
  from maintainsD [OF this I] PostCall show ?thesis by simp
qed (use I in \<open>auto simp: spaced_def source_open_def source_close_def modify_def split: option.split\<close>)

text \<open>
  C28. The rate limit holds for every request that the source makes, retries included: as long as calls follow one another,
  any two successive requests of an HTTP source are at least the minimal interval apart, whatever is fetched, cached,
  retried or refused. A timer never fires early. What the HTTP library sends on its own, following a redirect, is not
  a request of the source; calls that overlap do send together (\<open>overlapping_calls_send_together\<close>).
\<close>

theorem http_requests_keep_distance:
  assumes "\<And>t. 0 \<le> ht_late C t" and "hs_sent s = []"
  shows "successively (\<lambda>a b. a + ht_min_interval C \<le> b) (hs_sent (source_run C ops s))"
proof -
  have "spaced C s \<Longrightarrow> spaced C (source_run C ops s)" for s
    by (induction ops arbitrary: s) (auto simp: source_run_def step_spaced [OF assms(1)])
  from this [of s] assms(2) show ?thesis by (simp add: spaced_def)
qed

text \<open>
  Two calls that overlap, as under \<open>asyncio.gather\<close>: both read the time of the last request before either goes on,
  both wait equally long, and their requests leave together.
\<close>

definition overlapping_sends :: "'w http_config \<Rightarrow> 'w http_source \<Rightarrow> rat list" where
  "overlapping_sends C s =
     (let wake = (\<lambda>d. case d of None \<Rightarrow> hs_now s | Some x \<Rightarrow> hs_now s + x);
          first = wake (throttle_delay C s); second = wake (throttle_delay C s)
      in sort [first, second])"

lemma overlapping_calls_send_together:
  "0 < ht_min_interval C \<Longrightarrow> \<not> successively (\<lambda>a b. a + ht_min_interval C \<le> b) (overlapping_sends C s)"
  by (simp add: overlapping_sends_def Let_def split: option.split)

section \<open>The cache and the breaker\<close>

lemma http_get_after_set:
  "now' - now \<le> of_int (hc_ttl c) \<Longrightarrow> http_get now' k (http_set now k rq body c) = (Some body, http_set now k rq body c)"
  by (simp add: http_get_def http_set_def commit_if_not_bulk_def http_commit_def map_of_append delete_conv' not_less
      map_add_def split: option.split)

lemma http_get_ttl: "hc_ttl (snd (http_get now k c)) = hc_ttl c"
  by (simp add: http_get_def delete_where_def commit_if_not_bulk_def http_commit_def split: option.split)

text \<open>A live response: the cache was asked in vain, the request went out, and its text is now in the cache.\<close>

lemma live_get:
  assumes "source_get C url params headers True s = (Inr (Live r), t)" and "hs_cache s = Some c"
  shows "\<exists>c' v. hc_ttl c' = hc_ttl c \<and>
    t = v\<lparr>hs_cache := Some (http_set (hs_now v) (ht_key C (cache_request C url params headers))
      (cache_request C url params headers) (rs_text r) c')\<rparr>"
proof -
  let ?rq = "cache_request C url params headers"
  let ?og = "\<lparr>og_method = ''GET'', og_url = url, og_params = params, og_headers = headers, og_json = PNone\<rparr>"
  let ?s = "s\<lparr>hs_client := True\<rparr>"
  obtain x u where rc: "read_cache C ?rq True ?s = (x, u)" by (cases "read_cache C ?rq True ?s")
  obtain y v where call: "http_request_call C ?og u = (y, v)" by (cases "http_request_call C ?og u")
  have "x = Inr None \<and> y = Inr r \<and> t = snd (fill_cache C ?rq True (rs_text r) v)"
    using assms(1) rc call
    by (auto simp: source_get_def Let_def seq_def bind_def modify_def ret_def fill_cache_def read_cache_def
        split: sum.splits option.splits prod.splits if_splits)
  moreover have "\<exists>c'. hs_cache u = Some c' \<and> hc_ttl c' = hc_ttl c"
    using rc assms(2) http_get_ttl [of "hs_now s" "ht_key C ?rq" c]
    by (auto simp: read_cache_def split: if_splits prod.splits)
  moreover have "hs_cache v = hs_cache u" using http_request_call_cache [of C ?og u] call by simp
  ultimately obtain c' where "hs_cache v = Some c'" "hc_ttl c' = hc_ttl c" "t = snd (fill_cache C ?rq True (rs_text r) v)"
    by auto
  then show ?thesis by (intro exI [of _ c'] exI [of _ v]) (simp add: fill_cache_def modify_def)
qed

text \<open>
  A response is fetched once while it is fresh: after a live answer to a cached GET, the same GET within the time to
  live gives the same text from the cache, without a request, without waiting and without asking the breaker.
\<close>

theorem http_fresh_response_not_refetched:
  assumes "source_get C url params headers True s = (Inr (Live r), t)" and "hs_cache s = Some c"
    and "ht_cache_ttl C = Some (hc_ttl c)" and "hc_ttl c \<noteq> 0" and "d \<le> of_int (hc_ttl c)"
  shows "source_get C url params headers True (t\<lparr>hs_now := hs_now t + d\<rparr>) =
    (Inr (CachedResponse (rs_text r)), t\<lparr>hs_now := hs_now t + d, hs_client := True\<rparr>)"
proof -
  let ?rq = "cache_request C url params headers"
  from live_get [OF assms(1,2)] obtain c' v where
    c: "hc_ttl c' = hc_ttl c" "t = v\<lparr>hs_cache := Some (http_set (hs_now v) (ht_key C ?rq) ?rq (rs_text r) c')\<rparr>"
    by (elim exE conjE)
  have "hs_now t = hs_now v" by (simp add: c(2))
  then have "http_get (hs_now t + d) (ht_key C ?rq) (http_set (hs_now v) (ht_key C ?rq) ?rq (rs_text r) c') =
      (Some (rs_text r), http_set (hs_now v) (ht_key C ?rq) ?rq (rs_text r) c')"
    using assms(5) c(1) by (intro http_get_after_set) simp
  with assms(3,4) show ?thesis
    by (simp add: source_get_def Let_def seq_def bind_def modify_def read_cache_def ret_def c(2))
qed

text \<open>No failure gets into the cache.\<close>

lemma failed_get_not_cached:
  assumes "source_get C url params headers use s = (Inl e, t)"
  shows "hs_cache t = hs_cache s \<or>
    (\<exists>c. hs_cache s = Some c \<and> hs_cache t = Some (snd (http_get (hs_now s) (ht_key C (cache_request C url params headers)) c)))"
proof -
  let ?rq = "cache_request C url params headers"
  let ?og = "\<lparr>og_method = ''GET'', og_url = url, og_params = params, og_headers = headers, og_json = PNone\<rparr>"
  let ?s = "s\<lparr>hs_client := True\<rparr>"
  obtain x u where rc: "read_cache C ?rq use ?s = (x, u)" by (cases "read_cache C ?rq use ?s")
  obtain y v where call: "http_request_call C ?og u = (y, v)" by (cases "http_request_call C ?og u")
  have "t = v" "\<exists>z. x = Inr z"
    using assms rc call
    by (auto simp: source_get_def Let_def seq_def bind_def modify_def ret_def fill_cache_def read_cache_def
        split: sum.splits option.splits prod.splits if_splits)
  moreover have "hs_cache v = hs_cache u" using http_request_call_cache [of C ?og u] call by simp
  ultimately show ?thesis
    using rc by (auto simp: read_cache_def split: option.splits if_splits prod.splits)
qed

text \<open>An open breaker lets nothing through: no request, no wait, no retry.\<close>

lemma open_breaker_sends_nothing:
  assumes "hs_breaker s = Some b" "cb_state b = CB_OPEN" "\<not> cb_should_attempt_reset (hs_now s) b"
  shows "http_request_call C og s = (Inl (mk_exn (UserC ''CircuitBreakerOpenError'' ExceptionC) (cb_name b)), s)"
  using assms by (simp add: http_request_call_def cb_call_def cb_admit_def bind_def get_state_def modify_def throw_def)

text \<open>A time to live of zero: every response is stored, and none is ever read.\<close>

lemma zero_ttl_never_reads: "ht_cache_ttl C = Some 0 \<Longrightarrow> read_cache C rq use s = (Inr None, s)"
  by (simp add: read_cache_def split: option.split)

section \<open>Examples\<close>

definition demo_http :: "nat http_config" where
  "demo_http = \<lparr>ht_headers = [], ht_min_interval = interval_for 1, ht_policy = http_policy (\<lambda>_. 503) 3,
     ht_source_name = ''http'', ht_cache_ttl = Some 60, ht_build_url = (\<lambda>u _. u), ht_key = rq_url,
     ht_send = (\<lambda>_ n. (Inr \<lparr>rs_status = (if n = 0 then 503 else 200), rs_text = ''body''\<rparr>, 1 / 10, n + 1)),
     ht_raise_for_status = (\<lambda>r. if rs_status r \<ge> 400 then Some (mk_exn HTTPStatusErrorC ''503'') else None),
     ht_late = (\<lambda>_. 1 / 100), ht_rnd = (\<lambda>_. 0)\<rparr>"

definition demo_http_state :: "nat http_source" where
  "demo_http_state = \<lparr>hs_now = 100, hs_last = 0, hs_client = False, hs_cache = Some (new_http_cache 60), hs_disk = ([], []),
     hs_breaker = Some (new_breaker ''http'' None), hs_world = 1, hs_sent = []\<rparr>"

lemma http_requests_keep_distance_witness:
  "successively (\<lambda>a b. a + ht_min_interval demo_http \<le> b)
     (hs_sent (source_run demo_http [GetCall ''/a'' [] None True, Elapse (1 / 2), GetCall ''/b'' [] None True] demo_http_state))"
  by (rule http_requests_keep_distance) (simp_all add: demo_http_def demo_http_state_def)

text \<open>The first GET is answered by the server, the second by the cache.\<close>

lemma demo_first_get:
  "fst (source_get demo_http ''/a'' [] None True demo_http_state) = Inr (Live \<lparr>rs_status = 200, rs_text = ''body''\<rparr>)"
  by code_simp

lemma http_fresh_response_not_refetched_witness:
  "fst (source_get demo_http ''/a'' [] None True
     ((snd (source_get demo_http ''/a'' [] None True demo_http_state))\<lparr>hs_now :=
        hs_now (snd (source_get demo_http ''/a'' [] None True demo_http_state)) + 30\<rparr>)) = Inr (CachedResponse ''body'')"
proof -
  let ?t = "snd (source_get demo_http ''/a'' [] None True demo_http_state)"
  have run: "source_get demo_http ''/a'' [] None True demo_http_state =
      (Inr (Live \<lparr>rs_status = 200, rs_text = ''body''\<rparr>), ?t)"
    using demo_first_get by (rule prod_eqI [OF trans]) simp_all
  have "hs_cache demo_http_state = Some (new_http_cache 60)" "ht_cache_ttl demo_http = Some (hc_ttl (new_http_cache 60))"
      "hc_ttl (new_http_cache 60) \<noteq> 0" "(30 :: rat) \<le> of_int (hc_ttl (new_http_cache 60))"
    by (simp_all add: demo_http_state_def demo_http_def new_http_cache_def)
  from http_fresh_response_not_refetched [OF run this] show ?thesis by simp
qed

end
