(* ===== verification/Registry.thy ===== *)
theory Registry
  imports Failures Text_Ops "HOL-Library.AList" "HOL-Library.List_Lexorder" "HOL-Library.Char_ord"
begin

text \<open>
  \<^verbatim>\<open>core/registry.py\<close>: version ranges of plugin manifests, and the registry of plugins with its lookups and the
  discovery of entry points, eager or deferred to the first lookup.

  The registry's dicts are association lists in insertion order. An entry point is what \<open>importlib.metadata\<close>
  gives and what loading it comes to: the plugin with the manifest found in its packages, or an exception. Digits
  are ASCII digits. Scanning of packages and logging are left out.

  Shown: versions are ordered, keys that are registered by hand are never taken by an entry point, and loading on
  first use finds what loading at once finds.
\<close>

section \<open>Versions\<close>

definition is_digit :: "char \<Rightarrow> bool" where
  "is_digit c \<longleftrightarrow> 48 \<le> (of_char c :: nat) \<and> (of_char c :: nat) \<le> 57"

definition digit_value :: "char \<Rightarrow> nat" where
  "digit_value c = (of_char c :: nat) - 48"

definition number_of_digits :: "string \<Rightarrow> nat" where
  "number_of_digits ds = foldl (\<lambda>n c. 10 * n + digit_value c) 0 ds"

text \<open>\<open>_version_tuple\<close>: the leading digits of each part; \<open>None\<close> when a part has none.\<close>

fun version_parts :: "string list \<Rightarrow> nat list option" where
  "version_parts [] = Some []"
| "version_parts (p # ps) =
     (let numeric = takeWhile is_digit p in
      if numeric = [] then None
      else case version_parts ps of None \<Rightarrow> None | Some ns \<Rightarrow> Some (number_of_digits numeric # ns))"

definition version_tuple :: "string \<Rightarrow> nat list option" where
  "version_tuple v = (case version_parts (split_at (CHR ''.'') v) of
     None \<Rightarrow> None | Some ns \<Rightarrow> if ns = [] then None else Some ns)"

definition pad_version :: "nat list \<Rightarrow> nat list \<Rightarrow> nat list \<times> nat list" where
  "pad_version l r = (let n = max (length l) (length r) in (l @ replicate (n - length l) 0, r @ replicate (n - length r) 0))"

definition compare_versions :: "string \<Rightarrow> string \<Rightarrow> int option" where
  "compare_versions left right =
     (case (version_tuple left, version_tuple right) of
        (Some l, Some r) \<Rightarrow> (case pad_version l r of (a, b) \<Rightarrow> Some (if a < b then -1 else if b < a then 1 else 0))
      | _ \<Rightarrow> None)"

datatype version_op = VGe | VLe | VEq | VGt | VLt

definition split_clause :: "string \<Rightarrow> version_op \<times> string" where
  "split_clause c =
     (if take 2 c = ''>='' then (VGe, strip_text (drop 2 c))
      else if take 2 c = ''<='' then (VLe, strip_text (drop 2 c))
      else if take 2 c = ''=='' then (VEq, strip_text (drop 2 c))
      else if take 1 c = ''>'' then (VGt, strip_text (drop 1 c))
      else if take 1 c = ''<'' then (VLt, strip_text (drop 1 c))
      else (VEq, c))"

definition version_op_holds :: "version_op \<Rightarrow> int \<Rightarrow> bool" where
  "version_op_holds op c = (case op of VGe \<Rightarrow> c \<ge> 0 | VGt \<Rightarrow> c > 0 | VLe \<Rightarrow> c \<le> 0 | VLt \<Rightarrow> c < 0 | VEq \<Rightarrow> c = 0)"

definition clause_holds :: "string \<Rightarrow> string \<Rightarrow> bool" where
  "clause_holds version c = (case split_clause c of (op, target) \<Rightarrow>
     (case compare_versions version target of None \<Rightarrow> False | Some r \<Rightarrow> version_op_holds op r))"

definition core_api_range_contains :: "string \<Rightarrow> string \<Rightarrow> bool" where
  "core_api_range_contains specifier version =
     list_all (clause_holds version) (filter (\<lambda>c. c \<noteq> []) (map strip_text (split_at (CHR '','') specifier)))"

definition AGORA_PLUGIN_MANIFEST_VERSION :: string where "AGORA_PLUGIN_MANIFEST_VERSION = ''0.4''"
definition AGORA_CORE_API_VERSION :: string where "AGORA_CORE_API_VERSION = ''0.4.1''"
definition AGORA_CORE_API_COMPATIBILITY :: string where "AGORA_CORE_API_COMPATIBILITY = ''>=0.4,<0.5''"

text \<open>Comparing does not depend on how far the shorter tuple is padded.\<close>

fun version_less :: "nat list \<Rightarrow> nat list \<Rightarrow> bool" where
  "version_less [] ys = list_ex (\<lambda>y. 0 < y) ys"
| "version_less (x # xs) [] = False"
| "version_less (x # xs) (y # ys) \<longleftrightarrow> x < y \<or> (x = y \<and> version_less xs ys)"

lemma zeros_less: "replicate n (0::nat) < ys \<Longrightarrow> length ys = n \<Longrightarrow> list_ex (\<lambda>y. 0 < y) ys"
  by (induction n arbitrary: ys) (auto simp: length_Suc_conv)

lemma less_zeros: "list_ex (\<lambda>y. 0 < y) ys \<Longrightarrow> replicate (length ys) (0::nat) < ys"
  by (induction ys) auto

lemma not_less_zeros: "\<not> xs < replicate (length xs) (0::nat)"
  by (induction xs) auto

lemma padded_less:
  "l @ replicate (max (length l) (length r) - length l) 0 < r @ replicate (max (length l) (length r) - length r) 0 \<longleftrightarrow> version_less l r"
proof (induction l r rule: version_less.induct)
  case (1 ys)
  then show ?case using zeros_less [of "length ys" ys] less_zeros [of ys] by auto
next
  case (2 x xs)
  then show ?case using not_less_zeros [of "x # xs"] by (simp add: max_def)
next
  case (3 x xs y ys)
  then show ?case by simp
qed

lemma compare_versions_less:
  "version_tuple a = Some l \<Longrightarrow> version_tuple b = Some r \<Longrightarrow>
     compare_versions a b = Some (if version_less l r then -1 else if version_less r l then 1 else 0)"
  using padded_less [of l r] padded_less [of r l]
  by (simp add: compare_versions_def pad_version_def Let_def max.commute)

lemma version_less_trans: "version_less a b \<Longrightarrow> version_less b c \<Longrightarrow> version_less a c"
proof (induction a b arbitrary: c rule: version_less.induct)
  case (1 ys)
  then show ?case by (induction ys c rule: version_less.induct) auto
next
  case (3 x xs y ys)
  then show ?case by (cases c) auto
qed simp

lemma version_less_irrefl: "\<not> version_less a a"
  by (induction a) auto

lemma version_less_asym: "version_less a b \<Longrightarrow> \<not> version_less b a"
  using version_less_trans version_less_irrefl by blast

lemma zeros_below: "\<not> list_ex (\<lambda>y. 0 < y) a \<Longrightarrow> list_ex (\<lambda>y. 0 < y) b \<Longrightarrow> version_less a b"
  by (induction a b rule: version_less.induct) auto

lemma nothing_below_zeros: "\<not> list_ex (\<lambda>y. 0 < y) b \<Longrightarrow> \<not> version_less a b"
  by (induction a b rule: version_less.induct) auto

lemma not_version_less_trans: "\<not> version_less a b \<Longrightarrow> \<not> version_less b c \<Longrightarrow> \<not> version_less a c"
proof (induction a b arbitrary: c rule: version_less.induct)
  case (1 ys)
  then show ?case using zeros_below [of ys c] by auto
next
  case (2 x xs)
  then show ?case using nothing_below_zeros [of c "x # xs"] by auto
next
  case (3 x xs y ys)
  then show ?case by (cases c) auto
qed

section \<open>Manifests\<close>

record plugin_manifest =
  mf_name :: "string option"
  mf_package :: "string option"
  mf_version :: "string option"
  mf_agora_api_version :: "string option"
  mf_core_api_range :: "string option"
  mf_capabilities :: "string list"

text \<open>The dict that is kept with a key; a key of the dict that is absent reads as \<open>None\<close>.\<close>

record metadata =
  md_display_key :: "string option"
  md_manifest_name :: "string option"
  md_module_path :: "string option"
  md_package :: "string option"
  md_version :: "string option"
  md_agora_api_version :: "string option"
  md_core_api_version :: "string option"
  md_core_api_range :: "string option"
  md_core_api_compatible :: "bool option"
  md_compatible :: "bool option"
  md_group :: "string option"
  md_capabilities :: "string list"
  md_distribution_name :: "string option"
  md_distribution_version :: "string option"
  md_load_error :: "string option"

definition no_metadata :: metadata where
  "no_metadata = \<lparr>md_display_key = None, md_manifest_name = None, md_module_path = None, md_package = None,
     md_version = None, md_agora_api_version = None, md_core_api_version = None, md_core_api_range = None,
     md_core_api_compatible = None, md_compatible = None, md_group = None, md_capabilities = [],
     md_distribution_name = None, md_distribution_version = None, md_load_error = None\<rparr>"

text \<open>
  A loaded plugin: the object, whether it is callable, and its \<open>__module__\<close>, which is \<open>None\<close> when it is not a string.
  Importing a package gives its \<open>MANIFEST\<close>, if it has one, or raises.
\<close>

record 'p loaded_plugin =
  lp_plugin :: 'p
  lp_module :: "string option"
  lp_import :: "string \<Rightarrow> exn + plugin_manifest option"

definition ImportErrorC :: exn_class where "ImportErrorC = UserC ''ImportError'' ExceptionC"

text \<open>The packages of a module, the innermost first.\<close>

definition package_candidates :: "string \<Rightarrow> string list" where
  "package_candidates module_name =
     (let parts = split_at (CHR ''.'') module_name in
      map (\<lambda>i. join_with ''.'' (take i parts)) (rev [1 ..< length parts + 1]))"

fun find_manifest :: "(string \<Rightarrow> exn + plugin_manifest option) \<Rightarrow> string list \<Rightarrow> exn + (string \<times> plugin_manifest) option" where
  "find_manifest imp [] = Inr None"
| "find_manifest imp (c # cs) =
     (case imp c of
        Inl e \<Rightarrow> if isinstance e ImportErrorC then find_manifest imp cs else Inl e
      | Inr None \<Rightarrow> find_manifest imp cs
      | Inr (Some m) \<Rightarrow> Inr (Some (c, m)))"

definition truthy_or :: "string option \<Rightarrow> string option \<Rightarrow> string option" where
  "truthy_or a b = (case a of None \<Rightarrow> b | Some x \<Rightarrow> if x = [] then b else a)"

definition manifest_metadata :: "plugin_manifest \<Rightarrow> string \<Rightarrow> string \<Rightarrow> string option \<Rightarrow> string option \<Rightarrow> metadata" where
  "manifest_metadata m module_name package_name dist_name dist_version =
     (let manifest_ok = map_option (\<lambda>v. v = AGORA_PLUGIN_MANIFEST_VERSION) (mf_agora_api_version m);
          core_ok = map_option (\<lambda>r. core_api_range_contains r AGORA_CORE_API_VERSION) (mf_core_api_range m) in
      no_metadata\<lparr>md_manifest_name := mf_name m, md_module_path := Some module_name,
        md_package := truthy_or (truthy_or (mf_package m) dist_name) (Some package_name),
        md_version := truthy_or (mf_version m) dist_version,
        md_agora_api_version := mf_agora_api_version m, md_core_api_version := Some AGORA_CORE_API_VERSION,
        md_core_api_range := mf_core_api_range m, md_core_api_compatible := core_ok,
        md_compatible := (if core_ok \<noteq> Some False then manifest_ok else Some False),
        md_capabilities := mf_capabilities m, md_distribution_name := dist_name, md_distribution_version := dist_version\<rparr>)"

definition coerce_manifest :: "'p loaded_plugin \<Rightarrow> string option \<Rightarrow> string option \<Rightarrow> exn + metadata option" where
  "coerce_manifest p dist_name dist_version =
     (case lp_module p of
        None \<Rightarrow> Inr None
      | Some module_name \<Rightarrow>
          if module_name = [] then Inr None
          else case find_manifest (lp_import p) (package_candidates module_name) of
            Inl e \<Rightarrow> Inl e
          | Inr None \<Rightarrow>
              Inr (if dist_name = None \<and> dist_version = None then None
                   else Some (no_metadata\<lparr>md_module_path := Some module_name,
                     md_package := truthy_or dist_name (Some (hd (split_at (CHR ''.'') module_name))),
                     md_version := dist_version\<rparr>))
          | Inr (Some (c, m)) \<Rightarrow> Inr (Some (manifest_metadata m module_name c dist_name dist_version)))"

section \<open>The registry\<close>

text \<open>What \<open>importlib.metadata\<close> gives for an entry point, with what \<open>ep.load()\<close> comes to. Loading does not touch the registry.\<close>

record 'p entry_point =
  ep_name :: string
  ep_module :: "string option"
  ep_value :: "string option"
  ep_dist_name :: "string option"
  ep_dist_version :: "string option"
  ep_load :: "exn + 'p loaded_plugin"

definition entrypoint_module_path :: "'p entry_point \<Rightarrow> string option" where
  "entrypoint_module_path ep =
     (case ep_module ep of
        Some (c # cs) \<Rightarrow> Some (c # cs)
      | _ \<Rightarrow> (case ep_value ep of
          Some (c # cs) \<Rightarrow> (let m = takeWhile (\<lambda>x. x \<noteq> CHR '':'') (c # cs) in if m = [] then None else Some m)
        | _ \<Rightarrow> None))"

datatype origin = OManual | OEntrypoint | OEntrypointLazy | OEntrypointConflict | OEntrypointIncompatible | OEntrypointError

datatype registration_kind = KInstance | KFactory | KLazy | KUnavailable

text \<open>A plugin is not \<open>None\<close>; the closure of a deferred entry point is the entry point with its group.\<close>

record 'p Registry =
  rg_plugins :: "(string \<times> 'p) list"
  rg_factories :: "(string \<times> 'p) list"
  rg_types :: "(string \<times> registration_kind) list"
  rg_origins :: "(string \<times> origin) list"
  rg_metadata :: "(string \<times> metadata) list"
  rg_lazy :: "(string \<times> ('p entry_point \<times> string)) list"

definition new_registry :: "'p Registry" where
  "new_registry = \<lparr>rg_plugins = [], rg_factories = [], rg_types = [], rg_origins = [], rg_metadata = [], rg_lazy = []\<rparr>"

definition set_default :: "'k \<Rightarrow> 'v \<Rightarrow> ('k \<times> 'v) list \<Rightarrow> ('k \<times> 'v) list" where
  "set_default k v xs = (case map_of xs k of None \<Rightarrow> AList.update k v xs | Some _ \<Rightarrow> xs)"

text \<open>Registration; the decorator \<open>plugin(key)\<close> is \<open>register_plugin key\<close>.\<close>

definition register_plugin :: "string \<Rightarrow> 'p \<Rightarrow> 'p Registry \<Rightarrow> 'p Registry" where
  "register_plugin key p r = r\<lparr>rg_plugins := AList.update key p (rg_plugins r),
     rg_types := AList.update key KInstance (rg_types r), rg_origins := set_default key OManual (rg_origins r)\<rparr>"

definition register_factory :: "string \<Rightarrow> 'p \<Rightarrow> 'p Registry \<Rightarrow> 'p Registry" where
  "register_factory key f r = r\<lparr>rg_factories := AList.update key f (rg_factories r),
     rg_types := AList.update key KFactory (rg_types r), rg_origins := set_default key OManual (rg_origins r)\<rparr>"

text \<open>\<open>PluginNotFoundError\<close> is also a \<open>KeyError\<close>, which the single inheritance of the model leaves out.\<close>

definition PluginErrorC :: exn_class where "PluginErrorC = UserC ''PluginError'' AgoraErrorC"
definition PluginValidationErrorC :: exn_class where "PluginValidationErrorC = UserC ''PluginValidationError'' PluginErrorC"
definition PluginNotFoundErrorC :: exn_class where "PluginNotFoundErrorC = UserC ''PluginNotFoundError'' PluginErrorC"

definition register_validated :: "('p \<Rightarrow> bool) \<Rightarrow> string \<Rightarrow> 'p \<Rightarrow> (exn, 'p Registry, unit) comp" where
  "register_validated satisfies key p =
     (if \<not> satisfies p then throw (mk_exn PluginValidationErrorC key) else modify (register_plugin key p))"

section \<open>Entry points\<close>

definition diagnostic_key :: "string \<Rightarrow> string \<Rightarrow> string option \<Rightarrow> string option \<Rightarrow> string" where
  "diagnostic_key key orig package version =
     ''__diag__:'' @ orig @ '':'' @ key @ '':'' @ the (truthy_or package (Some ''unknown-package'')) @ '':'' @
       the (truthy_or version (Some ''unknown-version''))"

definition register_lazy_entrypoint :: "'p entry_point \<Rightarrow> string \<Rightarrow> 'p Registry \<Rightarrow> 'p Registry" where
  "register_lazy_entrypoint ep grp r = r\<lparr>
     rg_metadata := AList.update (ep_name ep) (no_metadata\<lparr>md_module_path := entrypoint_module_path ep,
       md_package := ep_dist_name ep, md_version := ep_dist_version ep, md_group := Some grp,
       md_distribution_name := ep_dist_name ep, md_distribution_version := ep_dist_version ep\<rparr>) (rg_metadata r),
     rg_origins := AList.update (ep_name ep) OEntrypointLazy (rg_origins r),
     rg_types := AList.update (ep_name ep) KLazy (rg_types r),
     rg_lazy := AList.update (ep_name ep) (ep, grp) (rg_lazy r)\<rparr>"

text \<open>The part of \<open>_load_entrypoint\<close> that can raise: the plugin and its metadata.\<close>

definition load_plugin :: "'p entry_point \<Rightarrow> string \<Rightarrow> exn + 'p \<times> metadata option" where
  "load_plugin ep grp = (case ep_load ep of
     Inl e \<Rightarrow> Inl e
   | Inr p \<Rightarrow> (case coerce_manifest p (ep_dist_name ep) (ep_dist_version ep) of
       Inl e \<Rightarrow> Inl e
     | Inr md \<Rightarrow> Inr (lp_plugin p, map_option (md_group_update (\<lambda>_. Some grp)) md)))"

definition mark_entrypoint :: "string \<Rightarrow> metadata \<Rightarrow> origin \<Rightarrow> 'p Registry \<Rightarrow> 'p Registry" where
  "mark_entrypoint name md orig r = r\<lparr>rg_metadata := AList.update name md (rg_metadata r),
     rg_origins := AList.update name orig (rg_origins r), rg_types := AList.update name KUnavailable (rg_types r)\<rparr>"

definition load_entrypoint :: "'p entry_point \<Rightarrow> string \<Rightarrow> (exn, 'p Registry, unit) comp" where
  "load_entrypoint ep grp = (\<lambda>r. case load_plugin ep grp of
     Inl e \<Rightarrow>
       if is_Exception e
       then (Inr (), mark_entrypoint (ep_name ep) (no_metadata\<lparr>md_module_path := entrypoint_module_path ep,
          md_package := ep_dist_name ep, md_version := ep_dist_version ep, md_group := Some grp,
          md_load_error := Some (class_name (ecls e) @ '': '' @ emsg e)\<rparr>) OEntrypointError r)
       else (Inl e, r)
   | Inr (p, md) \<Rightarrow>
       (case md of
          Some m \<Rightarrow>
            if md_compatible m = Some False
            then (Inr (), mark_entrypoint (ep_name ep) m OEntrypointIncompatible r)
            else (Inr (), let r = register_plugin (ep_name ep) p r in
              r\<lparr>rg_origins := AList.update (ep_name ep) OEntrypoint (rg_origins r),
                rg_metadata := AList.update (ep_name ep) m (rg_metadata r)\<rparr>)
        | None \<Rightarrow> (Inr (), let r = register_plugin (ep_name ep) p r in
              r\<lparr>rg_origins := AList.update (ep_name ep) OEntrypoint (rg_origins r)\<rparr>)))"

definition report_conflict :: "'p entry_point \<Rightarrow> string \<Rightarrow> string \<Rightarrow> 'p Registry \<Rightarrow> 'p Registry" where
  "report_conflict ep grp reason r =
     mark_entrypoint (diagnostic_key (ep_name ep) ''entrypoint_conflict'' (ep_dist_name ep) (ep_dist_version ep))
       (no_metadata\<lparr>md_display_key := Some (ep_name ep), md_package := ep_dist_name ep, md_version := ep_dist_version ep,
          md_group := Some grp, md_load_error := Some reason\<rparr>) OEntrypointConflict r"

text \<open>One turn of the loop of \<open>load_entrypoints\<close>.\<close>

definition discover :: "string \<Rightarrow> bool \<Rightarrow> 'p entry_point \<Rightarrow> (exn, 'p Registry, unit) comp" where
  "discover grp eager ep = (\<lambda>r.
     let existing = map_of (rg_origins r) (ep_name ep);
         md = (case map_of (rg_metadata r) (ep_name ep) of None \<Rightarrow> no_metadata | Some m \<Rightarrow> m) in
     if existing = Some OManual
     then (Inr (), report_conflict ep grp ''conflicts with an existing built-in/public key'' r)
     else if existing = Some OEntrypoint \<or>
       (map_of (rg_lazy r) (ep_name ep) \<noteq> None \<and> existing = Some OEntrypointLazy)
     then (Inr (),
       if md_group md = Some grp \<and> md_distribution_name md = ep_dist_name ep \<and>
          md_distribution_version md = ep_dist_version ep
       then r
       else report_conflict ep grp ''conflicts with another installed plugin using the same key'' r)
     else if eager then load_entrypoint ep grp r
     else (Inr (), register_lazy_entrypoint ep grp r))"

definition load_entrypoints :: "string \<Rightarrow> bool \<Rightarrow> 'p entry_point list \<Rightarrow> (exn, 'p Registry, unit) comp" where
  "load_entrypoints grp eager eps = for_each eps (discover grp eager)"

section \<open>Lookup\<close>

definition resolve_lazy :: "string \<Rightarrow> (exn, 'p Registry, unit) comp" where
  "resolve_lazy key = (\<lambda>r. case map_of (rg_lazy r) key of
     None \<Rightarrow> (Inr (), r)
   | Some (ep, grp) \<Rightarrow> load_entrypoint ep grp (r\<lparr>rg_lazy := AList.delete key (rg_lazy r)\<rparr>))"

definition registry_get :: "string \<Rightarrow> (exn, 'p Registry, 'p option) comp" where
  "registry_get key =
     bind get_state (\<lambda>r. seq (if map_of (rg_plugins r) key = None then resolve_lazy key else skip)
       (bind get_state (\<lambda>r. ret (map_of (rg_plugins r) key))))"

definition get_or_raise :: "string \<Rightarrow> (exn, 'p Registry, 'p) comp" where
  "get_or_raise key = bind (registry_get key) (\<lambda>p. case p of
     None \<Rightarrow> throw (mk_exn PluginNotFoundErrorC key) | Some x \<Rightarrow> ret x)"

text \<open>\<open>call\<close> is the call with the keyword arguments, \<open>callable\<close> says which plugins can be called.\<close>

definition create_plugin :: "('p \<Rightarrow> exn + 'p) \<Rightarrow> ('p \<Rightarrow> bool) \<Rightarrow> string \<Rightarrow> (exn, 'p Registry, 'p) comp" where
  "create_plugin call callable key =
     (let plugin_or_raise = bind get_state (\<lambda>r. case map_of (rg_plugins r) key of
            Some p \<Rightarrow> if callable p then (\<lambda>s. (call p, s)) else throw (mk_exn TypeErrorC ''not callable'')
          | None \<Rightarrow> throw (mk_exn PluginNotFoundErrorC key)) in
      bind get_state (\<lambda>r. case map_of (rg_factories r) key of
        Some f \<Rightarrow> (\<lambda>s. (call f, s))
      | None \<Rightarrow>
          if map_of (rg_plugins r) key = None
          then seq (resolve_lazy key) (bind get_state (\<lambda>r. case map_of (rg_factories r) key of
                 Some f \<Rightarrow> (\<lambda>s. (call f, s)) | None \<Rightarrow> plugin_or_raise))
          else plugin_or_raise))"

definition has_key :: "string \<Rightarrow> 'p Registry \<Rightarrow> bool" where
  "has_key key r \<longleftrightarrow> key \<in> set (map fst (rg_plugins r)) \<or> key \<in> set (map fst (rg_factories r)) \<or> key \<in> set (map fst (rg_lazy r))"

definition add_new :: "'a \<Rightarrow> 'a list \<Rightarrow> 'a list" where
  "add_new k ks = (if k \<in> set ks then ks else ks @ [k])"

definition all_keys :: "'p Registry \<Rightarrow> string list" where
  "all_keys r = fold add_new (map fst (rg_plugins r) @ map fst (rg_factories r) @ map fst (rg_lazy r)) []"

definition registry_len :: "'p Registry \<Rightarrow> nat" where
  "registry_len r = card (set (map fst (rg_plugins r)) \<union> set (map fst (rg_factories r)) \<union> set (map fst (rg_lazy r)))"

definition all_items :: "'p Registry \<Rightarrow> (string \<times> registration_kind) list" where
  "all_items r = map (\<lambda>k. (k, case map_of (rg_types r) k of Some t \<Rightarrow> t
     | None \<Rightarrow> if k \<in> set (map fst (rg_factories r)) then KFactory else KInstance)) (all_keys r)"

record RegistryItemInfo =
  ri_key :: string
  ri_type :: registration_kind
  ri_origin :: origin
  ri_metadata :: metadata

text \<open>The fields taken from the metadata are the metadata itself; \<open>error\<close> is \<open>md_load_error\<close>.\<close>

definition describe_item :: "'p Registry \<Rightarrow> string \<Rightarrow> RegistryItemInfo" where
  "describe_item r key =
     (let md = (case map_of (rg_metadata r) key of None \<Rightarrow> no_metadata | Some m \<Rightarrow> m) in
      \<lparr>ri_key = (case md_display_key md of None \<Rightarrow> key | Some d \<Rightarrow> d),
       ri_type = (case map_of (rg_types r) key of Some t \<Rightarrow> t
         | None \<Rightarrow> if key \<in> set (map fst (rg_factories r)) then KFactory
                   else if key \<in> set (map fst (rg_plugins r)) then KInstance else KUnavailable),
       ri_origin = (case map_of (rg_origins r) key of None \<Rightarrow> OManual | Some x \<Rightarrow> x),
       ri_metadata = md\<rparr>)"

definition describe_items :: "'p Registry \<Rightarrow> RegistryItemInfo list" where
  "describe_items r = map (describe_item r) (fold add_new (map fst (rg_metadata r)) (all_keys r))"

section \<open>Keys\<close>

lemma set_fold_add_new: "set (fold add_new ks acc) = set acc \<union> set ks"
  by (induction ks arbitrary: acc) (auto simp: add_new_def)

lemma distinct_fold_add_new: "distinct acc \<Longrightarrow> distinct (fold add_new ks acc)"
  by (induction ks arbitrary: acc) (auto simp: add_new_def)

lemma all_keys_are_the_keys:
  "distinct (all_keys r)" "set (all_keys r) = {k. has_key k r}" "registry_len r = length (all_keys r)"
proof -
  show d: "distinct (all_keys r)" by (simp add: all_keys_def distinct_fold_add_new del: fold_append)
  show s: "set (all_keys r) = {k. has_key k r}"
    by (auto simp: all_keys_def has_key_def set_fold_add_new simp del: fold_append)
  have "registry_len r = card (set (all_keys r))"
    by (simp add: registry_len_def all_keys_def set_fold_add_new Un_assoc del: fold_append)
  with d show "registry_len r = length (all_keys r)" by (simp add: distinct_card)
qed

section \<open>What discovery does to the keys\<close>

definition is_diagnostic :: "string \<Rightarrow> bool" where
  "is_diagnostic key \<longleftrightarrow> take 9 key = ''__diag__:''"

text \<open>What an entry point gives when it loads, and whether loading it lets nothing but a plain exception out.\<close>

definition plugin_of :: "'p entry_point \<Rightarrow> string \<Rightarrow> 'p option" where
  "plugin_of ep grp = (case load_plugin ep grp of
     Inl _ \<Rightarrow> None
   | Inr (p, md) \<Rightarrow> (case md of Some m \<Rightarrow> if md_compatible m = Some False then None else Some p | None \<Rightarrow> Some p))"

definition loads_quietly :: "string \<Rightarrow> 'p entry_point \<Rightarrow> bool" where
  "loads_quietly grp ep = (case load_plugin ep grp of Inl e \<Rightarrow> is_Exception e | Inr _ \<Rightarrow> True)"

lemma diagnostic_key_is: "is_diagnostic (diagnostic_key k orig p v)"
  by (simp add: is_diagnostic_def diagnostic_key_def)

lemma report_conflict_sel [simp]:
  "rg_plugins (report_conflict ep grp x r) = rg_plugins r"
  "rg_factories (report_conflict ep grp x r) = rg_factories r"
  "rg_lazy (report_conflict ep grp x r) = rg_lazy r"
  by (simp_all add: report_conflict_def mark_entrypoint_def)

lemma report_conflict_origin: "\<not> is_diagnostic k \<Longrightarrow> map_of (rg_origins (report_conflict ep grp x r)) k = map_of (rg_origins r) k"
  using diagnostic_key_is by (auto simp: report_conflict_def mark_entrypoint_def update_conv')

lemma load_entrypoint_sel:
  "map_of (rg_plugins (snd (load_entrypoint ep grp r))) k =
     (if k = ep_name ep \<and> plugin_of ep grp \<noteq> None then plugin_of ep grp else map_of (rg_plugins r) k)"
  "rg_factories (snd (load_entrypoint ep grp r)) = rg_factories r"
  "rg_lazy (snd (load_entrypoint ep grp r)) = rg_lazy r"
  "k \<noteq> ep_name ep \<Longrightarrow> map_of (rg_origins (snd (load_entrypoint ep grp r))) k = map_of (rg_origins r) k"
  by (auto simp: load_entrypoint_def plugin_of_def mark_entrypoint_def register_plugin_def set_default_def Let_def
      update_conv' split: sum.split option.split)

lemma load_entrypoint_quiet: "loads_quietly grp ep \<Longrightarrow> fst (load_entrypoint ep grp r) = Inr ()"
  by (auto simp: load_entrypoint_def loads_quietly_def split: sum.splits option.splits)

lemma register_lazy_sel [simp]:
  "rg_plugins (register_lazy_entrypoint ep grp r) = rg_plugins r"
  "rg_factories (register_lazy_entrypoint ep grp r) = rg_factories r"
  "map_of (rg_lazy (register_lazy_entrypoint ep grp r)) k =
     (if k = ep_name ep then Some (ep, grp) else map_of (rg_lazy r) k)"
  "map_of (rg_origins (register_lazy_entrypoint ep grp r)) k =
     (if k = ep_name ep then Some OEntrypointLazy else map_of (rg_origins r) k)"
  by (simp_all add: register_lazy_entrypoint_def update_conv')

text \<open>A key that was registered by hand stays as it is.\<close>

definition hand_kept :: "string \<Rightarrow> 'p Registry \<Rightarrow> 'p Registry \<Rightarrow> bool" where
  "hand_kept k r s \<longleftrightarrow> map_of (rg_origins s) k = map_of (rg_origins r) k \<and>
     map_of (rg_plugins s) k = map_of (rg_plugins r) k \<and> map_of (rg_factories s) k = map_of (rg_factories r) k \<and>
     map_of (rg_lazy s) k = map_of (rg_lazy r) k"

lemma discover_keeps:
  assumes "map_of (rg_origins r) k = Some OManual" and "\<not> is_diagnostic k"
  shows "hand_kept k r (snd (discover grp eager ep r))"
  using assms
  by (cases "k = ep_name ep")
    (auto simp: discover_def hand_kept_def Let_def load_entrypoint_sel report_conflict_origin)

lemma load_entrypoints_keep:
  assumes "map_of (rg_origins r) k = Some OManual" and "\<not> is_diagnostic k"
  shows "hand_kept k r (snd (load_entrypoints grp eager eps r))"
  using assms(1)
proof (induction eps arbitrary: r)
  case Nil
  then show ?case by (simp add: load_entrypoints_def hand_kept_def skip_def ret_def)
next
  case (Cons ep eps)
  obtain x s where s: "discover grp eager ep r = (x, s)" by (cases "discover grp eager ep r")
  have kept: "hand_kept k r s" using discover_keeps [OF Cons.prems assms(2), of grp eager ep] s by simp
  then have "map_of (rg_origins s) k = Some OManual" using Cons.prems by (simp add: hand_kept_def)
  from Cons.IH [OF this] kept s show ?case
    by (cases x) (auto simp: load_entrypoints_def hand_kept_def seq_def bind_def)
qed

section \<open>Loading at first use\<close>

text \<open>What a lookup finds, when deferred loading raises nothing but exceptions.\<close>

definition finds :: "'p Registry \<Rightarrow> string \<Rightarrow> 'p option" where
  "finds r k = (case map_of (rg_plugins r) k of Some p \<Rightarrow> Some p
     | None \<Rightarrow> (case map_of (rg_lazy r) k of None \<Rightarrow> None | Some (ep, grp) \<Rightarrow> plugin_of ep grp))"

text \<open>A deferred entry point is kept under its own name and loads quietly.\<close>

definition lazy_ok :: "'p Registry \<Rightarrow> bool" where
  "lazy_ok r \<longleftrightarrow> (\<forall>k ep grp. map_of (rg_lazy r) k = Some (ep, grp) \<longrightarrow> ep_name ep = k \<and> loads_quietly grp ep)"

lemma lazy_okD: "lazy_ok r \<Longrightarrow> map_of (rg_lazy r) k = Some (ep, grp) \<Longrightarrow> ep_name ep = k \<and> loads_quietly grp ep"
  by (simp add: lazy_ok_def)

lemma get_finds: "lazy_ok r \<Longrightarrow> fst (registry_get k r) = Inr (finds r k)"
proof (cases "map_of (rg_plugins r) k")
  case None
  assume ok: "lazy_ok r"
  show ?thesis
  proof (cases "map_of (rg_lazy r) k")
    case None
    with \<open>map_of (rg_plugins r) k = None\<close> show ?thesis
      by (simp add: registry_get_def bind_def seq_def get_state_def resolve_lazy_def ret_def finds_def)
  next
    case (Some x)
    obtain ep grp where x: "x = (ep, grp)" by (cases x)
    let ?r = "r\<lparr>rg_lazy := AList.delete k (rg_lazy r)\<rparr>"
    from lazy_okD [OF ok] Some x have n: "ep_name ep = k" "loads_quietly grp ep" by auto
    obtain s where s: "load_entrypoint ep grp ?r = (Inr (), s)"
      using load_entrypoint_quiet [OF n(2)] by (metis eq_fst_iff)
    have "map_of (rg_plugins s) k = plugin_of ep grp"
      using load_entrypoint_sel(1) [of ep grp ?r k] s n(1) \<open>map_of (rg_plugins r) k = None\<close> by simp
    with s Some x \<open>map_of (rg_plugins r) k = None\<close> show ?thesis
      by (simp add: registry_get_def bind_def seq_def get_state_def resolve_lazy_def ret_def finds_def)
  qed
qed (simp add: registry_get_def bind_def seq_def get_state_def skip_def ret_def finds_def)

text \<open>A name is free when nothing is known of it or it was registered by hand.\<close>

definition free_name :: "'p Registry \<Rightarrow> string \<Rightarrow> bool" where
  "free_name r n \<longleftrightarrow> \<not> is_diagnostic n \<and>
     (map_of (rg_origins r) n = Some OManual \<or>
      (map_of (rg_origins r) n = None \<and> map_of (rg_plugins r) n = None \<and> map_of (rg_lazy r) n = None))"

definition same_so_far :: "string list \<Rightarrow> 'p Registry \<Rightarrow> 'p Registry \<Rightarrow> bool" where
  "same_so_far ns l e \<longleftrightarrow> (\<forall>k. finds l k = finds e k) \<and> lazy_ok l \<and> lazy_ok e \<and>
     (\<forall>n\<in>set ns. free_name l n \<and> free_name e n \<and> map_of (rg_origins l) n = map_of (rg_origins e) n)"

lemma lazy_ok_same: "rg_lazy s = rg_lazy r \<Longrightarrow> lazy_ok s = lazy_ok r"
  by (simp add: lazy_ok_def)

lemma lazy_ok_update: "lazy_ok r \<Longrightarrow> loads_quietly grp ep \<Longrightarrow> lazy_ok (register_lazy_entrypoint ep grp r)"
  by (simp add: lazy_ok_def)

lemma finds_same: "rg_plugins s = rg_plugins r \<Longrightarrow> rg_lazy s = rg_lazy r \<Longrightarrow> finds s = finds r"
  by (simp add: finds_def fun_eq_iff cong: option.case_cong)

text \<open>One entry point, in both modes: a name taken by hand is reported, a free one is loaded now or later.\<close>

lemma discover_taken:
  "map_of (rg_origins r) (ep_name ep) = Some OManual \<Longrightarrow>
     discover grp eager ep r = (Inr (), report_conflict ep grp ''conflicts with an existing built-in/public key'' r)"
  by (simp add: discover_def)

lemma discover_free:
  "map_of (rg_origins r) (ep_name ep) = None \<Longrightarrow>
     discover grp eager ep r = (if eager then load_entrypoint ep grp r else (Inr (), register_lazy_entrypoint ep grp r))"
  by (simp add: discover_def)

lemma finds_both_modes:
  assumes "free_name l (ep_name ep)" "free_name e (ep_name ep)" "map_of (rg_origins l) (ep_name ep) = None"
    and "map_of (rg_origins e) (ep_name ep) = None" and "finds l k = finds e k"
  shows "finds (register_lazy_entrypoint ep grp l) k = finds (snd (load_entrypoint ep grp e)) k"
proof (cases "k = ep_name ep")
  case True
  with assms(1-4) show ?thesis
    by (auto simp: finds_def free_name_def load_entrypoint_sel split: option.split)
next
  case False
  with assms(5) show ?thesis by (simp add: finds_def load_entrypoint_sel cong: option.case_cong)
qed

lemma free_name_kept:
  "free_name r n \<Longrightarrow> free_name (report_conflict ep grp x r) n"
  "n \<noteq> ep_name ep \<Longrightarrow> free_name r n \<Longrightarrow> free_name (register_lazy_entrypoint ep grp r) n"
  "n \<noteq> ep_name ep \<Longrightarrow> free_name r n \<Longrightarrow> free_name (snd (load_entrypoint ep grp r)) n"
  by (auto simp: free_name_def report_conflict_origin load_entrypoint_sel)

lemma same_step:
  assumes "same_so_far (ep_name ep # ns) l e" and "ep_name ep \<notin> set ns" and "loads_quietly grp ep"
  shows "fst (discover grp False ep l) = Inr () \<and> fst (discover grp True ep e) = Inr () \<and>
    same_so_far ns (snd (discover grp False ep l)) (snd (discover grp True ep e))"
proof -
  let ?n = "ep_name ep"
  have f: "free_name l ?n" "free_name e ?n" "map_of (rg_origins l) ?n = map_of (rg_origins e) ?n"
    and ok: "lazy_ok l" "lazy_ok e" and same: "\<And>k. finds l k = finds e k"
    and rest: "\<And>n. n \<in> set ns \<Longrightarrow> n \<noteq> ?n \<and> \<not> is_diagnostic n \<and> free_name l n \<and> free_name e n \<and>
      map_of (rg_origins l) n = map_of (rg_origins e) n"
    using assms(1,2) by (auto simp: same_so_far_def free_name_def)
  show ?thesis
  proof (cases "map_of (rg_origins l) ?n = Some OManual")
    case True
    let ?c = "report_conflict ep grp ''conflicts with an existing built-in/public key''"
    have "map_of (rg_origins (?c l)) n = map_of (rg_origins (?c e)) n" if "n \<in> set ns" for n
      using rest [OF that] by (simp add: report_conflict_origin)
    then have "same_so_far ns (?c l) (?c e)"
      using ok same rest
      by (simp add: same_so_far_def free_name_kept lazy_ok_same [of "?c l" l] lazy_ok_same [of "?c e" e]
          finds_same [of "?c l" l] finds_same [of "?c e" e])
    with True f(3) show ?thesis by (simp add: discover_taken)
  next
    case False
    with f have none: "map_of (rg_origins l) ?n = None" "map_of (rg_origins e) ?n = None"
      by (auto simp: free_name_def)
    have "same_so_far ns (register_lazy_entrypoint ep grp l) (snd (load_entrypoint ep grp e))"
      using rest ok assms(3) finds_both_modes [OF f(1,2) none same]
      unfolding same_so_far_def
      by (simp add: lazy_ok_update free_name_kept load_entrypoint_sel lazy_ok_same [OF load_entrypoint_sel(3)])
    with none show ?thesis by (simp add: discover_free load_entrypoint_quiet [OF assms(3)])
  qed
qed

lemma same_all:
  assumes "same_so_far (map ep_name eps) l e" and "distinct (map ep_name eps)" and "list_all (loads_quietly grp) eps"
  shows "same_so_far [] (snd (load_entrypoints grp False eps l)) (snd (load_entrypoints grp True eps e))"
  using assms
proof (induction eps arbitrary: l e)
  case Nil
  then show ?case by (simp add: load_entrypoints_def ret_def)
next
  case (Cons ep eps)
  from same_step [of ep "map ep_name eps" l e grp] Cons.prems obtain l' e' where
    s: "discover grp False ep l = (Inr (), l')" "discover grp True ep e = (Inr (), e')"
       "same_so_far (map ep_name eps) l' e'"
    by (cases "discover grp False ep l"; cases "discover grp True ep e") auto
  from Cons.IH [OF s(3)] Cons.prems s show ?case by (simp add: load_entrypoints_def bind_def)
qed

text \<open>
  C34. Deferring the import of a plugin to its first lookup changes no lookup by \<open>get\<close>. Take entry points with different
  names, none reserved for diagnostics, discovered before or registered other than by hand, in a registry with nothing deferred;
  a plugin may fail to load with an \<open>Exception\<close>. Then \<open>get\<close> of any key after a deferred discovery gives the plugin, or
  nothing, exactly as after an eager one: with its manifest checks, plugins that fail to load and keys taken by hand.
  Two packages that offer one name are told apart by the two (\<open>broken_rival_hides_plugin\<close>).
\<close>

theorem lazy_lookup_equals_eager:
  assumes "distinct (map ep_name eps)" and "list_all (\<lambda>ep. free_name r (ep_name ep)) eps"
    and "list_all (loads_quietly grp) eps" and "rg_lazy r = []"
  shows "fst (registry_get k (snd (load_entrypoints grp False eps r))) =
    fst (registry_get k (snd (load_entrypoints grp True eps r)))"
proof -
  have "same_so_far (map ep_name eps) r r"
    using assms(2,4) by (auto simp: same_so_far_def lazy_ok_def list_all_iff)
  from same_all [OF this assms(1,3)] show ?thesis by (simp add: same_so_far_def get_finds)
qed

text \<open>
  A key that the program registered itself is never taken over by an installed package: after any discovery, eager
  or deferred, with any entry points, whether they load or not, it still gives the object that was registered.
\<close>

theorem manual_key_not_taken_over:
  assumes "map_of (rg_origins r) k = None" and "\<not> is_diagnostic k"
  shows "fst (registry_get k (snd (load_entrypoints grp eager eps (register_plugin k p r)))) = Inr (Some p)"
proof -
  let ?r = "register_plugin k p r"
  have "map_of (rg_origins ?r) k = Some OManual"
    using assms(1) by (simp add: register_plugin_def set_default_def update_conv')
  from load_entrypoints_keep [OF this assms(2), of grp eager eps]
  have "map_of (rg_plugins (snd (load_entrypoints grp eager eps ?r))) k = Some p"
    by (simp add: hand_kept_def register_plugin_def update_conv')
  then show ?thesis by (simp add: registry_get_def bind_def seq_def get_state_def skip_def ret_def)
qed

section \<open>Examples\<close>

definition demo_entry :: "string \<Rightarrow> string \<Rightarrow> exn + string \<Rightarrow> string entry_point" where
  "demo_entry name dst p = \<lparr>ep_name = name, ep_module = Some ''pkg.mod'', ep_value = None, ep_dist_name = Some dst,
     ep_dist_version = Some ''1.0'', ep_load = map_sum id (\<lambda>x. \<lparr>lp_plugin = x, lp_module = Some ''pkg.mod'',
       lp_import = (\<lambda>m. if m = ''pkg'' then Inr (Some \<lparr>mf_name = Some ''p'', mf_package = None, mf_version = None,
           mf_agora_api_version = Some (if x = ''old'' then ''0.3'' else ''0.4''), mf_core_api_range = Some ''>=0.4,<0.5'',
           mf_capabilities = []\<rparr>) else Inr None)\<rparr>) p\<rparr>"

definition demo_entries :: "string entry_point list" where
  "demo_entries = [demo_entry ''a'' ''d1'' (Inr ''good''), demo_entry ''b'' ''d1'' (Inr ''old''),
     demo_entry ''c'' ''d2'' (Inl (mk_exn ImportErrorC ''no module'')), demo_entry ''m'' ''d2'' (Inr ''stolen'')]"

definition demo_registry :: "string Registry" where
  "demo_registry = register_plugin ''m'' ''mine'' new_registry"

lemma demo_loads:
  "load_plugin (demo_entry n d (Inl e)) grp = Inl e"
  "map_option md_compatible (snd (projr (load_plugin (demo_entry ''a'' ''d1'' (Inr ''good'')) ''g''))) = Some (Some True)"
  "map_option md_compatible (snd (projr (load_plugin (demo_entry ''b'' ''d1'' (Inr ''old'')) ''g''))) = Some (Some False)"
  by (simp add: load_plugin_def demo_entry_def) code_simp+

lemma demo_entries_quiet: "list_all (loads_quietly ''g'') demo_entries"
  by code_simp

lemma demo_entries_free: "list_all (\<lambda>ep. free_name demo_registry (ep_name ep)) demo_entries"
  by code_simp

lemma lazy_lookup_equals_eager_witness:
  "fst (registry_get ''a'' (snd (load_entrypoints ''g'' False demo_entries demo_registry))) = Inr (Some ''good'') \<and>
   fst (registry_get ''a'' (snd (load_entrypoints ''g'' True demo_entries demo_registry))) = Inr (Some ''good'')"
proof -
  have e: "fst (registry_get ''a'' (snd (load_entrypoints ''g'' True demo_entries demo_registry))) = Inr (Some ''good'')"
    by code_simp
  have "distinct (map ep_name demo_entries)" "rg_lazy demo_registry = []" by code_simp+
  from lazy_lookup_equals_eager [OF this(1) demo_entries_free demo_entries_quiet this(2), of "''a''"] e
  show ?thesis by simp
qed

lemma manual_key_not_taken_over_witness:
  "fst (registry_get ''m'' (snd (load_entrypoints ''g'' True demo_entries (register_plugin ''m'' ''mine'' new_registry)))) =
     Inr (Some ''mine'')"
  by (rule manual_key_not_taken_over) (code_simp)+

text \<open>
  Two packages offer one key and the first does not load. Eager discovery, which the diagnostics use, goes on to the
  second; deferred discovery, which a run uses, has given the key to the first and finds nothing.
\<close>

definition rival_entries :: "string entry_point list" where
  "rival_entries = [demo_entry ''a'' ''d1'' (Inl (mk_exn ImportErrorC ''no module'')), demo_entry ''a'' ''d2'' (Inr ''good'')]"

lemma broken_rival_hides_plugin:
  "fst (registry_get ''a'' (snd (load_entrypoints ''g'' True rival_entries new_registry))) = Inr (Some ''good'')"
  "fst (registry_get ''a'' (snd (load_entrypoints ''g'' False rival_entries new_registry))) = Inr None"
  by code_simp+

text \<open>
  A key registered by hand after its entry point failed is not protected: its origin stays that of the failure, so the
  next discovery takes the key over.
\<close>

lemma override_after_failure_taken_over:
  "fst (registry_get ''a'' (snd (load_entrypoints ''g'' True [demo_entry ''a'' ''d2'' (Inr ''good'')]
     (register_plugin ''a'' ''mine'' (snd (load_entrypoints ''g'' True
        [demo_entry ''a'' ''d1'' (Inl (mk_exn ImportErrorC ''no module''))] new_registry)))))) = Inr (Some ''good'')"
  by code_simp

section \<open>Versions are ordered\<close>

lemma compare_versions_transitive:
  assumes "compare_versions a b = Some x" "compare_versions b c = Some y" "x \<le> 0" "y \<le> 0"
  shows "\<exists>z. compare_versions a c = Some z \<and> z \<le> 0"
proof -
  obtain l m n where t: "version_tuple a = Some l" "version_tuple b = Some m" "version_tuple c = Some n"
    using assms(1,2) by (auto simp: compare_versions_def split: option.splits)
  have "\<not> version_less m l" "\<not> version_less n m"
    using assms by (auto simp: compare_versions_less [OF t(1,2)] compare_versions_less [OF t(2,3)] split: if_splits
        dest: version_less_asym)
  then have "\<not> version_less n l" using not_version_less_trans by blast
  then show ?thesis by (simp add: compare_versions_less [OF t(1,3)])
qed

lemma release_in_its_range: "core_api_range_contains AGORA_CORE_API_COMPATIBILITY AGORA_CORE_API_VERSION"
  by code_simp

end
