(* ===== verification/Webhook_Sink.thy ===== *)
theory Webhook_Sink
  imports Failures "HOL-Library.Sublist"
begin

text \<open>
  \<^verbatim>\<open>sinks/http/webhook.py\<close>: the sink that posts records to a URL, one by one or in groups.

  The server and the client's library are a script: \<open>wc_answer n\<close> is what request \<open>n\<close> comes to for the client, and
  \<open>wc_takes n\<close> says whether the server processed it, which it may have done although the request failed, by a read
  timeout for example. \<open>wh_acked\<close> lists the payloads whose request was answered without an error status, \<open>wh_taken\<close> the
  payloads that the server processed, and \<open>wh_waits\<close> the times slept; the code reads none of them. The payload mapper
  and the parts of a URL that \<open>urlsplit\<close> finds are parameters; logging is left out.

  Shown: in groups, what the server acknowledged and what is still buffered is what was handed over, in order and
  without repetition, whatever fails, and the server processed at least what it acknowledged, in that order; requests and waits are bounded; a logged URL shows no secrets.
\<close>

section \<open>Posting\<close>

datatype answer = Answered | StatusError int exn | RequestFailed exn | OtherFailure exn

record ('r, 'p) webhook_config =
  wc_payload_fn :: "'r \<Rightarrow> exn + 'p"
  wc_max_retries :: nat
  wc_batch_mode :: bool
  wc_flush_every :: int
  wc_answer :: "nat \<Rightarrow> answer"
  wc_takes :: "nat \<Rightarrow> bool"

datatype 'p payload = Single 'p | Group "'p list"

record ('r, 'p) WebhookSink =
  wh_buffer :: "'r list"
  wh_client :: bool
  wh_requests :: nat
  wh_acked :: "'p payload list"
  wh_taken :: "'p payload list"
  wh_waits :: "int list"

type_synonym ('r, 'p) webhook = "('r, 'p) WebhookSink"

definition webhook_init :: "int \<Rightarrow> exn + ('r, 'p) WebhookSink" where
  "webhook_init max_retries =
     (if max_retries < 0 then Inl (mk_exn ValueErrorC ''max_retries must be >= 0'')
      else Inr \<lparr>wh_buffer = [], wh_client = False, wh_requests = 0, wh_acked = [], wh_taken = [], wh_waits = []\<rparr>)"

definition post_failed :: exn where
  "post_failed = mk_exn RuntimeErrorC ''WebhookSink POST failed''"

definition post_wait :: "int \<Rightarrow> ('r, 'p) webhook \<Rightarrow> ('r, 'p) webhook" where
  "post_wait d s = s\<lparr>wh_waits := wh_waits s @ [d]\<rparr>"

text \<open>One request; what the client hears of it comes after what the server made of it.\<close>

definition client_post :: "('r, 'p) webhook_config \<Rightarrow> 'p payload \<Rightarrow> ('r, 'p) webhook \<Rightarrow> answer \<times> ('r, 'p) webhook" where
  "client_post C x s =
     (let n = wh_requests s; a = wc_answer C n in
      (a, s\<lparr>wh_requests := n + 1,
            wh_taken := (if a = Answered \<or> wc_takes C n then wh_taken s @ [x] else wh_taken s),
            wh_acked := (if a = Answered then wh_acked s @ [x] else wh_acked s)\<rparr>))"

text \<open>The loop over the attempts that are left; \<open>break\<close> leads to the error after the loop.\<close>

fun post_attempts :: "('r, 'p) webhook_config \<Rightarrow> 'p payload \<Rightarrow> nat list \<Rightarrow> (exn, ('r, 'p) webhook, unit) comp" where
  "post_attempts C x [] s = (Inl post_failed, s)"
| "post_attempts C x (n # ns) s =
     (let (answer, s) = client_post C x s in
      case answer of
        Answered \<Rightarrow> (Inr (), s)
      | StatusError status e \<Rightarrow>
          if status = 429 \<or> status \<ge> 500
          then if n \<ge> wc_max_retries C + 1 then (Inl post_failed, s)
               else post_attempts C x ns (post_wait (2 ^ n) s)
          else (Inl e, s)
      | RequestFailed e \<Rightarrow>
          if n \<ge> wc_max_retries C + 1 then (Inl post_failed, s)
          else post_attempts C x ns (post_wait (int n) s)
      | OtherFailure e \<Rightarrow> (Inl e, s))"

definition post_with_retry :: "('r, 'p) webhook_config \<Rightarrow> 'p payload \<Rightarrow> (exn, ('r, 'p) webhook, unit) comp" where
  "post_with_retry C x = (\<lambda>s. post_attempts C x [1 ..< wc_max_retries C + 2] (s\<lparr>wh_client := True\<rparr>))"

section \<open>The sink\<close>

definition webhook_open :: "(exn, ('r, 'p) webhook, unit) comp" where
  "webhook_open = modify (\<lambda>s. s\<lparr>wh_client := True\<rparr>)"

definition webhook_flush :: "('r, 'p) webhook_config \<Rightarrow> (exn, ('r, 'p) webhook, unit) comp" where
  "webhook_flush C = (\<lambda>s.
     if wh_buffer s = [] then (Inr (), s)
     else case res_map (wc_payload_fn C) (wh_buffer s) of
       Inl e \<Rightarrow> (Inl e, s)
     | Inr payloads \<Rightarrow>
         bind (post_with_retry C (Group payloads))
           (\<lambda>_. modify (\<lambda>t. t\<lparr>wh_buffer := drop (length (wh_buffer s)) (wh_buffer t)\<rparr>)) s)"

definition flush_when_full :: "('r, 'p) webhook_config \<Rightarrow> (exn, ('r, 'p) webhook, unit) comp" where
  "flush_when_full C =
     (\<lambda>s. if int (length (wh_buffer s)) \<ge> wc_flush_every C then webhook_flush C s else (Inr (), s))"

definition webhook_write :: "('r, 'p) webhook_config \<Rightarrow> 'r \<Rightarrow> (exn, ('r, 'p) webhook, unit) comp" where
  "webhook_write C r =
     (if wc_batch_mode C
      then seq (modify (\<lambda>s. s\<lparr>wh_buffer := wh_buffer s @ [r]\<rparr>)) (flush_when_full C)
      else case wc_payload_fn C r of Inl e \<Rightarrow> throw e | Inr p \<Rightarrow> post_with_retry C (Single p))"

definition webhook_write_batch :: "('r, 'p) webhook_config \<Rightarrow> 'r list \<Rightarrow> (exn, ('r, 'p) webhook, unit) comp" where
  "webhook_write_batch C rs =
     (if wc_batch_mode C
      then seq (modify (\<lambda>s. s\<lparr>wh_buffer := wh_buffer s @ rs\<rparr>)) (flush_when_full C)
      else for_each rs (webhook_write C))"

definition webhook_close :: "('r, 'p) webhook_config \<Rightarrow> (exn, ('r, 'p) webhook, unit) comp" where
  "webhook_close C = seq (webhook_flush C) (modify (\<lambda>s. s\<lparr>wh_client := False\<rparr>))"

section \<open>Redaction\<close>

text \<open>What \<open>urlsplit\<close> finds; reading the port of a split URL may raise \<open>ValueError\<close>.\<close>

record split_url =
  su_scheme :: string
  su_hostname :: "string option"
  su_port :: "exn + int option"
  su_username :: "string option"
  su_password :: "string option"
  su_path :: string
  su_query :: string

definition truthy_text :: "string option \<Rightarrow> bool" where
  "truthy_text x \<longleftrightarrow> x \<noteq> None \<and> x \<noteq> Some []"

definition redact_url ::
  "(string \<Rightarrow> exn + split_url) \<Rightarrow> (int \<Rightarrow> string) \<Rightarrow> (string \<times> string \<times> string \<times> string \<times> string \<Rightarrow> string) \<Rightarrow>
   string \<Rightarrow> exn + string" where
  "redact_url urlsplit show_int urlunsplit url =
     (case urlsplit url of
        Inl e \<Rightarrow> if isinstance e ValueErrorC then Inr ''<invalid-url>'' else Inl e
      | Inr p \<Rightarrow>
          (case su_port p of
             Inl e \<Rightarrow> Inl e
           | Inr port \<Rightarrow>
               (let host = (case su_hostname p of None \<Rightarrow> [] | Some h \<Rightarrow> h);
                    host = (case port of None \<Rightarrow> host | Some n \<Rightarrow> host @ '':'' @ show_int n);
                    host = (if truthy_text (su_username p) \<or> truthy_text (su_password p)
                            then ''<redacted>@'' @ host else host);
                    query = (if su_query p \<noteq> [] then ''<redacted>'' else []) in
                Inr (urlunsplit (su_scheme p, host, su_path p, query, [])))))"

text \<open>Two URLs that differ only in their credentials, their query and their fragment are logged alike.\<close>

lemma redaction_hides_credentials:
  assumes "urlsplit u = Inr p" "urlsplit v = Inr (p\<lparr>su_username := Some (c # cs), su_password := pw, su_query := q # qs\<rparr>)"
    and "truthy_text (su_username p) \<or> truthy_text (su_password p)" "su_query p \<noteq> []"
  shows "redact_url urlsplit show_int urlunsplit u = redact_url urlsplit show_int urlunsplit v"
  using assms by (simp add: redact_url_def truthy_text_def Let_def split: sum.split)

text \<open>A port that is not a number in range makes the construction of the sink fail, in spite of the \<open>except\<close> clause.\<close>

lemma invalid_port_raises:
  "urlsplit url = Inr p \<Longrightarrow> su_port p = Inl e \<Longrightarrow> redact_url urlsplit show_int urlunsplit url = Inl e"
  by (simp add: redact_url_def)

section \<open>What the server acknowledges\<close>

fun contents :: "'p payload \<Rightarrow> 'p list" where
  "contents (Single p) = [p]"
| "contents (Group ps) = ps"

definition posted :: "('r, 'p) webhook \<Rightarrow> 'p list" where
  "posted s = concat (map contents (wh_acked s))"

lemma post_attempts_effect:
  assumes "post_attempts C x ns s = (r, t)"
  shows "wh_buffer t = wh_buffer s \<and> wh_client t = wh_client s \<and> wh_requests t \<le> wh_requests s + length ns \<and>
    wh_acked t = wh_acked s @ (if r = Inr () then [x] else []) \<and>
    (subseq (wh_acked s) (wh_taken s) \<longrightarrow> subseq (wh_acked t) (wh_taken t))"
  using assms
proof (induction C x ns s rule: post_attempts.induct)
  case (2 C x n ns s)
  show ?case
    using 2(3) 2(1,2) [OF refl prod.collapse]
    by (cases "wc_answer C (wh_requests s)")
      (auto simp: client_post_def post_wait_def Let_def split: if_splits)
qed auto

lemma post_effect:
  assumes "post_with_retry C x s = (r, t)"
  shows "wh_buffer t = wh_buffer s" "wh_requests t \<le> wh_requests s + wc_max_retries C + 1"
    "wh_acked t = wh_acked s @ (if r = Inr () then [x] else [])"
    "subseq (wh_acked s) (wh_taken s) \<Longrightarrow> subseq (wh_acked t) (wh_taken t)"
  using post_attempts_effect [OF assms [unfolded post_with_retry_def]] by (auto simp del: upt_Suc)

text \<open>What was acknowledged, followed by what waits in the buffer.\<close>

definition held :: "('r, 'p) webhook_config \<Rightarrow> ('r, 'p) webhook \<Rightarrow> (exn + 'p) list" where
  "held C s = map Inr (posted s) @ map (wc_payload_fn C) (wh_buffer s)"

lemma res_map_all: "res_map f xs = Inr ys \<Longrightarrow> map f xs = map Inr ys"
  by (auto simp: res_map_eq_Inr list_all2_conv_all_nth intro: nth_equalityI)

lemma flush_cases:
  assumes "webhook_flush C s = (r, t)"
  shows "t = s \<or> (\<exists>ps u. res_map (wc_payload_fn C) (wh_buffer s) = Inr ps \<and>
    post_with_retry C (Group ps) s = (r, u) \<and> t = (if r = Inr () then u\<lparr>wh_buffer := []\<rparr> else u))"
proof (cases "wh_buffer s = []")
  case False
  show ?thesis
  proof (cases "res_map (wc_payload_fn C) (wh_buffer s)")
    case (Inr ps)
    obtain x u where u: "post_with_retry C (Group ps) s = (x, u)" by (cases "post_with_retry C (Group ps) s")
    with assms False Inr post_effect(1) [OF u] show ?thesis
      by (cases x) (auto simp: webhook_flush_def bind_def modify_def)
  qed (use assms False in \<open>simp add: webhook_flush_def\<close>)
qed (use assms in \<open>simp add: webhook_flush_def\<close>)

lemma flush_keeps: "held C (snd (webhook_flush C s)) = held C s"
proof -
  obtain r t where rt: "webhook_flush C s = (r, t)" by (cases "webhook_flush C s")
  from flush_cases [OF rt] show ?thesis
  proof (elim disjE exE conjE)
    fix ps u
    assume a: "res_map (wc_payload_fn C) (wh_buffer s) = Inr ps" "post_with_retry C (Group ps) s = (r, u)"
      "t = (if r = Inr () then u\<lparr>wh_buffer := []\<rparr> else u)"
    then show ?thesis
      using rt post_effect(1,3) [OF a(2)] res_map_all [OF a(1)] by (simp add: held_def posted_def)
  qed (use rt in simp)
qed

lemma flush_when_full_keeps: "held C (snd (flush_when_full C s)) = held C s"
  by (simp add: flush_when_full_def flush_keeps)

text \<open>What a run calls on the sink; an exception of one call does not keep it from making the next.\<close>

datatype 'r hook_op = HookWrite 'r | HookBatch "'r list" | HookFlush | HookOpen | HookClose

fun handed_over :: "'r hook_op \<Rightarrow> 'r list" where
  "handed_over (HookWrite r) = [r]"
| "handed_over (HookBatch rs) = rs"
| "handed_over _ = []"

fun hook_call :: "('r, 'p) webhook_config \<Rightarrow> 'r hook_op \<Rightarrow> (exn, ('r, 'p) webhook, unit) comp" where
  "hook_call C (HookWrite r) = webhook_write C r"
| "hook_call C (HookBatch rs) = webhook_write_batch C rs"
| "hook_call C HookFlush = webhook_flush C"
| "hook_call C HookOpen = webhook_open"
| "hook_call C HookClose = webhook_close C"

definition hook_run :: "('r, 'p) webhook_config \<Rightarrow> 'r hook_op list \<Rightarrow> ('r, 'p) webhook \<Rightarrow> ('r, 'p) webhook" where
  "hook_run C ops = fold (\<lambda>x s. snd (hook_call C x s)) ops"

lemma snd_seq_modify: "snd (seq m (modify f) s) = (case m s of (Inl e, t) \<Rightarrow> t | (Inr x, t) \<Rightarrow> f t)"
  by (simp add: seq_def bind_def modify_def split: prod.split sum.split)

lemma hook_call_keeps:
  assumes "wc_batch_mode C"
  shows "held C (snd (hook_call C x s)) = held C s @ map (wc_payload_fn C) (handed_over x)"
proof (cases x)
  case HookClose
  obtain r t where rt: "webhook_flush C s = (r, t)" by (cases "webhook_flush C s")
  with flush_keeps [of C s] HookClose show ?thesis
    by (cases r) (simp_all add: webhook_close_def snd_seq_modify held_def posted_def)
qed (use assms in \<open>simp_all add: webhook_write_def webhook_write_batch_def webhook_open_def seq_def bind_def modify_def
    held_def posted_def flush_when_full_keeps [unfolded held_def posted_def] flush_keeps [unfolded held_def posted_def]\<close>)

lemma hook_call_taken:
  assumes "wc_batch_mode C" "subseq (wh_acked s) (wh_taken s)"
  shows "subseq (wh_acked (snd (hook_call C x s))) (wh_taken (snd (hook_call C x s)))"
proof -
  have flush: "subseq (wh_acked (snd (webhook_flush C u))) (wh_taken (snd (webhook_flush C u)))"
    if "subseq (wh_acked u) (wh_taken u)" for u
  proof -
    obtain r t where rt: "webhook_flush C u = (r, t)" by (cases "webhook_flush C u")
    from flush_cases [OF rt] that show ?thesis
      by (elim disjE exE conjE) (simp_all add: rt post_effect(4))
  qed
  show ?thesis
    using assms flush [of s] flush [of "s\<lparr>wh_buffer := _\<rparr>"]
    by (cases x; cases "webhook_flush C s") (auto simp: webhook_write_def webhook_write_batch_def webhook_open_def
        webhook_close_def seq_def bind_def modify_def flush_when_full_def split: sum.split)
qed

text \<open>
  C29. A webhook sink in batch mode gets every record acknowledged exactly once and in order. At any moment after it was
  built, the payloads of the requests that the server answered without an error, followed by the payloads of the
  records in the buffer, are the payloads of all the records the sink was handed, whichever requests, retries, flushes
  and mapper calls have failed. The server processed at least the groups it acknowledged, in that order; it processed
  a group more often only where a request that it processed failed for the client, which then repeats it.
\<close>

theorem webhook_acknowledges_each_once:
  assumes "wc_batch_mode C" "webhook_init m = Inr s\<^sub>0" "s = hook_run C ops s\<^sub>0"
  shows "map Inr (posted s) @ map (wc_payload_fn C) (wh_buffer s) = map (wc_payload_fn C) (concat (map handed_over ops)) \<and>
    subseq (wh_acked s) (wh_taken s)"
proof -
  have "held C (hook_run C ops u) = held C u @ map (wc_payload_fn C) (concat (map handed_over ops)) \<and>
      (subseq (wh_acked u) (wh_taken u) \<longrightarrow> subseq (wh_acked (hook_run C ops u)) (wh_taken (hook_run C ops u)))" for u
  proof (induction ops arbitrary: u)
    case (Cons x ops)
    from Cons [of "snd (hook_call C x u)"] hook_call_keeps [OF assms(1)] hook_call_taken [OF assms(1)]
    show ?case by (simp add: hook_run_def)
  qed (simp add: hook_run_def)
  from this [of s\<^sub>0] assms(2,3) show ?thesis by (auto simp: webhook_init_def held_def posted_def split: if_splits)
qed

text \<open>One call of \<open>write\<close> makes a bounded number of requests.\<close>

lemma webhook_write_requests:
  "wh_requests (snd (webhook_write C r s)) \<le> wh_requests s + wc_max_retries C + 1"
proof -
  have f: "wh_requests (snd (webhook_flush C u)) \<le> wh_requests u + wc_max_retries C + 1" for u
  proof -
    obtain x t where rt: "webhook_flush C u = (x, t)" by (cases "webhook_flush C u")
    from flush_cases [OF rt] rt show ?thesis by (auto dest: post_effect(2) split: if_splits)
  qed
  show ?thesis
    using f [of "s\<lparr>wh_buffer := wh_buffer s @ [r]\<rparr>"] post_effect(2) [of C _ s]
    by (auto simp: webhook_write_def seq_def bind_def modify_def flush_when_full_def throw_def split: sum.split)
      (metis surjective_pairing)
qed

section \<open>Examples\<close>

definition demo_hook :: "(string, string) webhook_config" where
  "demo_hook = \<lparr>wc_payload_fn = Inr, wc_max_retries = 1, wc_batch_mode = True, wc_flush_every = 2,
     wc_answer = (\<lambda>n. if n = 0 then StatusError 400 (mk_exn ValueErrorC ''400'')
                     else if n = 1 then RequestFailed (mk_exn ConnectionErrorC ''reset'') else Answered),
     wc_takes = (\<lambda>n. n = 1)\<rparr>"

definition fresh_hook :: "(string, string) webhook" where
  "fresh_hook = projr (webhook_init 1)"

lemma webhook_acknowledges_each_once_witness:
  "let s = hook_run demo_hook [HookWrite ''a'', HookWrite ''b'', HookWrite ''c'', HookClose] fresh_hook in
   map Inr (posted s) @ map (wc_payload_fn demo_hook) (wh_buffer s) = [Inr ''a'', Inr ''b'', Inr ''c''] \<and>
   subseq (wh_acked s) (wh_taken s)"
proof -
  have "wc_batch_mode demo_hook" by (simp add: demo_hook_def)
  moreover have "webhook_init 1 = Inr fresh_hook" by (simp add: fresh_hook_def webhook_init_def)
  ultimately show ?thesis
    using webhook_acknowledges_each_once [OF _ _ refl, of demo_hook 1 fresh_hook
        "[HookWrite ''a'', HookWrite ''b'', HookWrite ''c'', HookClose]"]
    by (simp add: Let_def demo_hook_def)
qed

text \<open>
  A group whose request timed out after the server had processed it is posted again: acknowledged once, processed twice.
\<close>

lemma timed_out_group_is_taken_twice:
  "let s = hook_run demo_hook [HookWrite ''a'', HookWrite ''b'', HookFlush] fresh_hook in
   wh_acked s = [Group [''a'', ''b'']] \<and> wh_taken s = [Group [''a'', ''b''], Group [''a'', ''b'']]"
  by code_simp

text \<open>
  The record whose \<open>write\<close> raised stays in the buffer: the engine dead-letters it, and the next flush delivers it.
\<close>

lemma failed_write_is_delivered_later:
  "fst (webhook_write demo_hook ''b'' (hook_run demo_hook [HookWrite ''a''] fresh_hook)) = Inl (mk_exn ValueErrorC ''400'')"
  "posted (hook_run demo_hook [HookWrite ''a'', HookWrite ''b'', HookFlush] fresh_hook) = [''a'', ''b'']"
  by code_simp+

text \<open>A \<open>close\<close> whose flush fails leaves the client open.\<close>

lemma failed_close_leaks_client:
  "fst (webhook_close demo_hook (hook_run demo_hook [HookWrite ''a''] fresh_hook)) \<noteq> Inr () \<and>
   wh_client (snd (webhook_close demo_hook (hook_run demo_hook [HookOpen, HookWrite ''a''] fresh_hook)))"
  by code_simp

end
