(* ===== verification/File_Sinks.thy ===== *)
theory File_Sinks
  imports File_Sources
begin

text \<open>
  The file sinks: \<^verbatim>\<open>sinks/file/jsonlines.py\<close> and \<^verbatim>\<open>sinks/file/csv.py\<close>. Both buffer records and write them in
  groups. A file is the text it holds; the serialisers, the row mapper and the formatting of a CSV row are
  parameters, and opening a file may fail. The encoding, metrics, logging and the optional Rust writers of Arrow
  batches are left out. For the JSONL sink the file object's own \<open>write\<close> and \<open>flush\<close> may raise as well, after they have taken a
  part of the text; for the CSV sink these errors are not modelled.

  Shown: what a JSONL sink has in its file and its buffer is at every moment what it was handed, in order,
  whatever fails to be opened or serialised; and the file of either sink, read by the source of the same format, gives the records back.
\<close>

definition newline :: string where "newline = [CHR 0x0A]"

section \<open>JsonLinesSink\<close>

record 'r jsonl_sink_config =
  jk_append :: bool
  jk_flush_every :: int
  jk_dumps :: "'r \<Rightarrow> exn + string"

record 'r JsonLinesSink =
  jk_buffer :: "'r list"
  jk_file :: bool
  jk_has_written :: bool
  jk_path :: "string option"

definition new_jsonl_sink :: "string option \<Rightarrow> 'r JsonLinesSink" where
  "new_jsonl_sink contents = \<lparr>jk_buffer = [], jk_file = False, jk_has_written = False, jk_path = contents\<rparr>"

definition text_of :: "string option \<Rightarrow> string" where
  "text_of p = (case p of None \<Rightarrow> [] | Some x \<Rightarrow> x)"

text \<open>
  What the operating system does during one call: the exception that \<open>mkdir\<close> or \<open>open\<close> raises, and, when \<open>write\<close>,
  \<open>flush\<close> or the encoding of the file raises, that exception and how many characters of the chunk the file has taken
  by then; all of them when \<open>flush\<close> raises.
\<close>

record file_io =
  io_open :: "exn option"
  io_write :: "(nat \<times> exn) option"

abbreviation io_fine :: file_io where
  "io_fine \<equiv> \<lparr>io_open = None, io_write = None\<rparr>"

text \<open>\<open>_open_file\<close>: mode \<open>a\<close> keeps the contents, mode \<open>w\<close> empties the file.\<close>

definition jsonl_open_file :: "'r jsonl_sink_config \<Rightarrow> file_io \<Rightarrow> 'r JsonLinesSink \<Rightarrow> (exn + unit) \<times> 'r JsonLinesSink" where
  "jsonl_open_file K io s = (case io_open io of
     Some e \<Rightarrow> (Inl e, s)
   | None \<Rightarrow> (Inr (), s\<lparr>jk_file := True,
       jk_path := Some (if jk_append K \<or> jk_has_written s then text_of (jk_path s) else [])\<rparr>))"

text \<open>All rows are serialised before anything is written; a chunk that is cut off stays cut off.\<close>

definition jsonl_write_rows ::
  "'r jsonl_sink_config \<Rightarrow> file_io \<Rightarrow> 'r list \<Rightarrow> 'r JsonLinesSink \<Rightarrow> (exn + unit) \<times> 'r JsonLinesSink" where
  "jsonl_write_rows K io rows s = (case res_map (jk_dumps K) rows of
     Inl e \<Rightarrow> (Inl e, s)
   | Inr ls \<Rightarrow>
       let chunk = join_with newline ls @ newline in
       (case io_write io of
          Some (n, e) \<Rightarrow> (Inl e, s\<lparr>jk_path := Some (text_of (jk_path s) @ take n chunk)\<rparr>)
        | None \<Rightarrow> (Inr (), s\<lparr>jk_path := Some (text_of (jk_path s) @ chunk), jk_has_written := True\<rparr>)))"

definition jsonl_flush :: "'r jsonl_sink_config \<Rightarrow> file_io \<Rightarrow> 'r JsonLinesSink \<Rightarrow> (exn + unit) \<times> 'r JsonLinesSink" where
  "jsonl_flush K io s =
     (if jk_buffer s = [] then (Inr (), s)
      else case (if jk_file s then (Inr (), s) else jsonl_open_file K io s) of
        (Inl e, s) \<Rightarrow> (Inl e, s)
      | (Inr _, s) \<Rightarrow>
          let rows = jk_buffer s in
          (case jsonl_write_rows K io rows (s\<lparr>jk_buffer := []\<rparr>) of
             (Inr _, s) \<Rightarrow> (Inr (), s)
           | (Inl e, s) \<Rightarrow> (Inl e, if is_Exception e then s\<lparr>jk_buffer := rows @ jk_buffer s\<rparr> else s)))"

definition jsonl_write_batch ::
  "'r jsonl_sink_config \<Rightarrow> file_io \<Rightarrow> 'r list \<Rightarrow> 'r JsonLinesSink \<Rightarrow> (exn + unit) \<times> 'r JsonLinesSink" where
  "jsonl_write_batch K io rs s =
     (let s = s\<lparr>jk_buffer := jk_buffer s @ rs\<rparr> in
      if int (length (jk_buffer s)) \<ge> jk_flush_every K then jsonl_flush K io s else (Inr (), s))"

definition jsonl_write ::
  "'r jsonl_sink_config \<Rightarrow> file_io \<Rightarrow> 'r \<Rightarrow> 'r JsonLinesSink \<Rightarrow> (exn + unit) \<times> 'r JsonLinesSink" where
  "jsonl_write K io r s =
     (let s = s\<lparr>jk_buffer := jk_buffer s @ [r]\<rparr> in
      if int (length (jk_buffer s)) \<ge> jk_flush_every K then jsonl_flush K io s else (Inr (), s))"

definition jsonl_close :: "'r jsonl_sink_config \<Rightarrow> file_io \<Rightarrow> 'r JsonLinesSink \<Rightarrow> (exn + unit) \<times> 'r JsonLinesSink" where
  "jsonl_close K io s = (case jsonl_flush K io s of
     (Inl e, s) \<Rightarrow> (Inl e, s)
   | (Inr _, s) \<Rightarrow> (Inr (), s\<lparr>jk_file := False\<rparr>))"

text \<open>
  \<open>write_arrow_batch\<close> on the path through the batch's rows, which are written at once, as \<open>dumps_row\<close> renders them: the
  sink's serialiser is not applied to them.
\<close>

definition jsonl_write_arrow_batch ::
  "'r jsonl_sink_config \<Rightarrow> ('r \<Rightarrow> exn + string) \<Rightarrow> file_io \<Rightarrow> 'r list \<Rightarrow> 'r JsonLinesSink \<Rightarrow> (exn + unit) \<times> 'r JsonLinesSink" where
  "jsonl_write_arrow_batch K dumps_row io rows s =
     (if rows = [] then (Inr (), s)
      else case (if jk_file s then (Inr (), s) else jsonl_open_file K io s) of
        (Inl e, s) \<Rightarrow> (Inl e, s)
      | (Inr _, s) \<Rightarrow> jsonl_write_rows (K\<lparr>jk_dumps := dumps_row\<rparr>) io rows s)"

datatype 'r sink_call = KWrite 'r | KWriteBatch "'r list" | KFlush | KClose | KOpen

fun jsonl_call :: "'r jsonl_sink_config \<Rightarrow> 'r sink_call \<times> file_io \<Rightarrow> 'r JsonLinesSink \<Rightarrow> (exn + unit) \<times> 'r JsonLinesSink" where
  "jsonl_call K (KWrite r, io) s = jsonl_write K io r s"
| "jsonl_call K (KWriteBatch rs, io) s = jsonl_write_batch K io rs s"
| "jsonl_call K (KFlush, io) s = jsonl_flush K io s"
| "jsonl_call K (KClose, io) s = jsonl_close K io s"
| "jsonl_call K (KOpen, io) s = jsonl_open_file K io s"

fun handed :: "'r sink_call \<Rightarrow> 'r list" where
  "handed (KWrite r) = [r]"
| "handed (KWriteBatch rs) = rs"
| "handed _ = []"

text \<open>Any sequence of calls, each of which may raise; the caller goes on.\<close>

definition jsonl_calls :: "'r jsonl_sink_config \<Rightarrow> ('r sink_call \<times> file_io) list \<Rightarrow> 'r JsonLinesSink \<Rightarrow> 'r JsonLinesSink" where
  "jsonl_calls K cs s = fold (\<lambda>c s. snd (jsonl_call K c s)) cs s"

definition as_lines :: "string list \<Rightarrow> string" where
  "as_lines ls = concat (map (\<lambda>l. l @ newline) ls)"

lemma join_lines: "ls \<noteq> [] \<Longrightarrow> join_with newline ls @ newline = as_lines ls"
  by (induction newline ls rule: join_with.induct) (simp_all add: as_lines_def)

text \<open>
  What the sink holds against what it was handed, \<open>acc\<close>: a prefix of it is in the file, behind what the file
  held at first, and the rest in the buffer.
\<close>

definition jsonl_holds :: "'r jsonl_sink_config \<Rightarrow> string \<Rightarrow> 'r list \<Rightarrow> 'r JsonLinesSink \<Rightarrow> bool" where
  "jsonl_holds K base acc s \<longleftrightarrow> (\<exists>out ls. acc = out @ jk_buffer s \<and> res_map (jk_dumps K) out = Inr ls \<and>
     jk_path s = Some (base @ as_lines ls) \<and> (jk_has_written s \<longleftrightarrow> out \<noteq> []) \<and> (\<not> jk_append K \<longrightarrow> base = []))"

definition raises_exceptions :: "'r jsonl_sink_config \<Rightarrow> bool" where
  "raises_exceptions K \<longleftrightarrow> (\<forall>r e. jk_dumps K r = Inl e \<longrightarrow> is_Exception e)"

lemma res_map_raises: "res_map f xs = Inl e \<Longrightarrow> \<exists>x\<in>set xs. f x = Inl e"
  by (induction xs) (auto simp: res_bind_def split: sum.splits)

lemma res_map_append:
  "res_map f xs = Inr ys \<Longrightarrow> res_map f zs = Inr ws \<Longrightarrow> res_map f (xs @ zs) = Inr (ys @ ws)"
  by (simp add: res_map_eq_Inr list_all2_appendI)

lemma jsonl_open_holds: "jsonl_holds K base acc s \<Longrightarrow> jsonl_holds K base acc (snd (jsonl_open_file K io s))"
  by (auto simp: jsonl_holds_def jsonl_open_file_def text_of_def as_lines_def split: option.split)

lemma jsonl_flush_holds:
  assumes "raises_exceptions K" "io_write io = None" "jsonl_holds K base acc s"
  shows "jsonl_holds K base acc (snd (jsonl_flush K io s))"
proof (cases "jk_buffer s = []")
  case True
  with assms(3) show ?thesis by (simp add: jsonl_flush_def)
next
  case False
  obtain r t where o: "(if jk_file s then (Inr (), s) else jsonl_open_file K io s) = (r, t)" by (meson surj_pair)
  have t: "jsonl_holds K base acc t" "jk_buffer t = jk_buffer s"
    using o assms(3) jsonl_open_holds [OF assms(3), of io]
    by (auto simp: jsonl_open_file_def split: if_splits option.splits)
  show ?thesis
  proof (cases r)
    case (Inl e)
    with False o t show ?thesis by (simp add: jsonl_flush_def)
  next
    case (Inr u)
    show ?thesis
    proof (cases "res_map (jk_dumps K) (jk_buffer s)")
      case (Inl e)
      with res_map_raises [OF Inl] assms(1) have "is_Exception e" by (auto simp: raises_exceptions_def)
      with Inl Inr False o t show ?thesis by (simp add: jsonl_flush_def jsonl_write_rows_def assms(2) Let_def jsonl_holds_def)
    next
      case rows: (Inr new)
      with False have "new \<noteq> []" by (cases "jk_buffer s") (auto simp: res_bind_eq_Inr)
      from t(1) obtain d ls where d: "acc = d @ jk_buffer s" "res_map (jk_dumps K) d = Inr ls"
        "jk_path t = Some (base @ as_lines ls)" "\<not> jk_append K \<longrightarrow> base = []" unfolding jsonl_holds_def t(2) by blast
      from join_lines [OF \<open>new \<noteq> []\<close>] have "join_with newline new @ newline = as_lines new" .
      then have "jk_path t = Some (base @ as_lines ls) \<Longrightarrow>
          text_of (jk_path t) @ join_with newline new @ newline = base @ as_lines (ls @ new)"
        by (simp add: text_of_def as_lines_def)
      with d rows Inr False o t res_map_append [OF d(2) rows] show ?thesis
        unfolding jsonl_holds_def
        by (intro exI [of _ acc] exI [of _ "ls @ new"]) (simp add: jsonl_flush_def jsonl_write_rows_def assms(2) Let_def)
    qed
  qed
qed

lemma jsonl_handed_holds:
  "jsonl_holds K base acc s \<Longrightarrow> jsonl_holds K base (acc @ rs) (s\<lparr>jk_buffer := jk_buffer s @ rs\<rparr>)"
  by (auto simp: jsonl_holds_def)

lemma jsonl_call_holds:
  assumes "raises_exceptions K" "jsonl_holds K base acc s" "io_write (snd c) = None"
  shows "jsonl_holds K base (acc @ handed (fst c)) (snd (jsonl_call K c s))"
proof -
  obtain call io where c: "c = (call, io)" by (cases c)
  with assms(3) have "io_write io = None" by simp
  note flush = jsonl_flush_holds [OF assms(1) this]
  show ?thesis
  proof (cases call)
    case (KWrite r)
    with c flush [OF jsonl_handed_holds [OF assms(2), of "[r]"]] jsonl_handed_holds [OF assms(2), of "[r]"]
    show ?thesis by (simp add: jsonl_write_def Let_def)
  next
    case (KWriteBatch rs)
    with c flush [OF jsonl_handed_holds [OF assms(2), of rs]] jsonl_handed_holds [OF assms(2), of rs]
    show ?thesis by (simp add: jsonl_write_batch_def Let_def)
  next
    case KFlush
    with c flush [OF assms(2)] show ?thesis by simp
  next
    case KClose
    have "snd (jsonl_close K io s) = snd (jsonl_flush K io s) \<or>
        snd (jsonl_close K io s) = (snd (jsonl_flush K io s))\<lparr>jk_file := False\<rparr>"
      by (auto simp: jsonl_close_def split: prod.split sum.split)
    with KClose c flush [OF assms(2)] show ?thesis by (auto simp: jsonl_holds_def)
  next
    case KOpen
    with c jsonl_open_holds [OF assms(2)] show ?thesis by simp
  qed
qed

lemma jsonl_calls_holds:
  assumes "raises_exceptions K" "list_all (\<lambda>c. io_write (snd c) = None) cs" "jsonl_holds K base acc s"
  shows "jsonl_holds K base (acc @ concat (map (handed \<circ> fst) cs)) (jsonl_calls K cs s)"
  using assms(2,3)
proof (induction cs arbitrary: acc s)
  case (Cons c cs)
  from Cons.prems(1) have "io_write (snd c) = None" "list_all (\<lambda>c. io_write (snd c) = None) cs" by simp_all
  with Cons.IH [OF _ jsonl_call_holds [OF assms(1) Cons.prems(2)]] show ?case by (simp add: jsonl_calls_def)
qed (simp add: jsonl_calls_def)

text \<open>
  The JSONL sink loses nothing, repeats nothing and keeps the order, as long as the opened file takes what is
  written to it. After any sequence of writes, flushes, closes and reopenings, of which any may raise because a
  record cannot be serialised or the file not opened, the lines in the file behind its first contents, followed by the buffer,
  are exactly the records that the sink was handed.
\<close>

theorem jsonl_sink_keeps_everything:
  assumes "raises_exceptions K" "list_all (\<lambda>c. io_write (snd c) = None) cs"
    and "s = jsonl_calls K cs (snd (jsonl_open_file K io_fine (new_jsonl_sink contents)))"
  shows "\<exists>out ls. concat (map (handed \<circ> fst) cs) = out @ jk_buffer s \<and> res_map (jk_dumps K) out = Inr ls \<and>
    jk_path s = Some ((if jk_append K then text_of contents else []) @ as_lines ls)"
proof -
  have "jsonl_holds K (if jk_append K then text_of contents else []) [] (snd (jsonl_open_file K io_fine (new_jsonl_sink contents)))"
    by (simp add: jsonl_holds_def jsonl_open_file_def new_jsonl_sink_def as_lines_def)
  from jsonl_calls_holds [OF assms(1,2) this] show ?thesis
    unfolding assms(3) jsonl_holds_def by auto
qed

text \<open>The lines of a text file, each with its newline.\<close>

fun file_lines :: "string \<Rightarrow> string list" where
  "file_lines [] = []"
| "file_lines (c # cs) =
     (if c = CHR 0x0A then [c] # file_lines cs
      else case file_lines cs of [] \<Rightarrow> [[c]] | l # ls \<Rightarrow> (c # l) # ls)"










text \<open>
  Rows of an Arrow batch are written at once: they overtake the records that are still in the buffer.
\<close>

lemma arrow_batch_overtakes_buffer:
  assumes "1 < jk_flush_every K" "jk_dumps K a = Inr ''a''" "dumps_row b = Inr ''b''" "\<not> jk_append K"
  shows "jk_path (snd (jsonl_flush K io_fine (snd (jsonl_write_arrow_batch K dumps_row io_fine [b]
    (snd (jsonl_write K io_fine a (new_jsonl_sink None))))))) = Some (as_lines [''b'', ''a''])"
  using assms
  by (simp add: jsonl_write_def jsonl_write_arrow_batch_def jsonl_flush_def jsonl_open_file_def jsonl_write_rows_def
      new_jsonl_sink_def as_lines_def text_of_def Let_def)

text \<open>
  A write that raises has still taken its record: the engine dead-letters or retries it, and it is written as well.
\<close>

lemma failed_write_is_kept:
  "jk_flush_every K = 1 \<Longrightarrow> \<not> jk_append K \<Longrightarrow> jk_dumps K r = Inr l \<Longrightarrow>
     fst (jsonl_write K (io_fine\<lparr>io_open := Some e\<rparr>) r (new_jsonl_sink None)) = Inl e \<and>
     jk_path (snd (jsonl_flush K io_fine (snd (jsonl_write K (io_fine\<lparr>io_open := Some e\<rparr>) r (new_jsonl_sink None))))) = Some (as_lines [l])"
  by (simp add: jsonl_write_def jsonl_flush_def jsonl_open_file_def jsonl_write_rows_def new_jsonl_sink_def as_lines_def
      text_of_def Let_def)

text \<open>
  A file that raises in the middle of a chunk, as a full disk does, keeps what it took, while all rows go back to the
  buffer: the next flush writes its first line behind the cut one. The first record is lost to a line that holds a
  piece of another record as well.
\<close>

lemma jsonl_partial_write_garbles:
  assumes "jk_flush_every K = 2" "\<not> jk_append K" "jk_dumps K a = Inr ''aa''" "jk_dumps K b = Inr ''bb''" "is_Exception e"
  shows "jk_path (snd (jsonl_flush K io_fine (snd (jsonl_write_batch K (io_fine\<lparr>io_write := Some (1, e)\<rparr>) [a, b]
    (new_jsonl_sink None))))) = Some (as_lines [''aaa'', ''bb''])"
  using assms
  by (simp add: jsonl_write_batch_def jsonl_flush_def jsonl_open_file_def jsonl_write_rows_def new_jsonl_sink_def
      as_lines_def text_of_def Let_def)

text \<open>When only the final \<open>flush\<close> raises, the rows are in the file and in the buffer: they are written twice.\<close>

lemma jsonl_failed_flush_repeats_rows:
  assumes "jk_flush_every K = 1" "\<not> jk_append K" "jk_dumps K a = Inr ''aa''" "is_Exception e"
  shows "jk_path (snd (jsonl_flush K io_fine (snd (jsonl_write K (io_fine\<lparr>io_write := Some (3, e)\<rparr>) a
    (new_jsonl_sink None))))) = Some (as_lines [''aa'', ''aa''])"
  using assms
  by (simp add: jsonl_write_def jsonl_flush_def jsonl_open_file_def jsonl_write_rows_def new_jsonl_sink_def
      as_lines_def newline_def text_of_def Let_def)

section \<open>CsvSink\<close>

record 'r csv_sink_config =
  ck_row_mapper :: "'r \<Rightarrow> exn + (string \<times> pyval) list"
  ck_fieldnames :: "string list option"
  ck_append :: bool
  ck_flush_every :: int
  ck_cell :: "pyval \<Rightarrow> exn + string"
  ck_format :: "string list \<Rightarrow> string"

text \<open>
  A file handle writes at its position, or at the end of the file when it was opened for appending; another handle
  may have changed the file meanwhile.
\<close>

datatype file_handle = WriteAt nat | AppendEnd

definition file_write :: "file_handle \<Rightarrow> string \<Rightarrow> string \<Rightarrow> file_handle \<times> string" where
  "file_write h x contents = (case h of
     AppendEnd \<Rightarrow> (AppendEnd, contents @ x)
   | WriteAt n \<Rightarrow> (WriteAt (n + length x), take n contents @ replicate (n - length contents) (CHR 0x00) @ x @ drop (n + length x) contents))"

record 'r CsvSink =
  ck_buffer :: "'r list"
  ck_header_written :: bool
  ck_file :: "file_handle option"
  ck_writer :: "string list option"
  ck_path :: "string option"

definition new_csv_sink :: "string option \<Rightarrow> 'r CsvSink" where
  "new_csv_sink contents =
     \<lparr>ck_buffer = [], ck_header_written = False, ck_file = None, ck_writer = None, ck_path = contents\<rparr>"

definition should_write_header :: "'r csv_sink_config \<Rightarrow> 'r CsvSink \<Rightarrow> bool" where
  "should_write_header K s \<longleftrightarrow> \<not> ck_header_written s \<and> \<not> (ck_append K \<and> ck_path s \<noteq> None)"

definition csv_put :: "string \<Rightarrow> 'r CsvSink \<Rightarrow> 'r CsvSink" where
  "csv_put x s = (case ck_file s of
     None \<Rightarrow> s
   | Some h \<Rightarrow> (case file_write h x (text_of (ck_path s)) of (h', p) \<Rightarrow> s\<lparr>ck_file := Some h', ck_path := Some p\<rparr>))"

definition csv_open :: "'r csv_sink_config \<Rightarrow> 'r CsvSink \<Rightarrow> 'r CsvSink" where
  "csv_open K s =
     (if ck_append K \<or> ck_header_written s then s\<lparr>ck_file := Some AppendEnd, ck_path := Some (text_of (ck_path s))\<rparr>
      else s\<lparr>ck_file := Some (WriteAt 0), ck_path := Some []\<rparr>)"

definition csv_fields :: "'r csv_sink_config \<Rightarrow> (string \<times> pyval) list list \<Rightarrow> string list" where
  "csv_fields K rows = (case ck_fieldnames K of
     Some (f # fs) \<Rightarrow> f # fs
   | _ \<Rightarrow> map fst (hd rows))"

definition ensure_writer ::
  "'r csv_sink_config \<Rightarrow> exn option \<Rightarrow> (string \<times> pyval) list list \<Rightarrow> 'r CsvSink \<Rightarrow> (exn + unit) \<times> 'r CsvSink" where
  "ensure_writer K oserr rows s =
     (if ck_writer s \<noteq> None \<or> rows = [] then (Inr (), s)
      else case (if ck_file s = None then oserr else None) of
        Some e \<Rightarrow> (Inl e, s)
      | None \<Rightarrow>
          let s = (if ck_file s = None then csv_open K s else s);
              s = s\<lparr>ck_writer := Some (csv_fields K rows)\<rparr>
          in (Inr (), if should_write_header K s then csv_put (ck_format K (csv_fields K rows)) s else s))"

text \<open>
  \<open>DictWriter\<close> with \<open>extrasaction="ignore"\<close>: a missing key gives the empty string, other keys are ignored. The rows
  before one that raises are written.
\<close>

definition csv_cells :: "'r csv_sink_config \<Rightarrow> string list \<Rightarrow> (string \<times> pyval) list \<Rightarrow> exn + string list" where
  "csv_cells K fnames row = res_map (\<lambda>f. case map_of row f of None \<Rightarrow> Inr [] | Some v \<Rightarrow> ck_cell K v) fnames"

fun csv_writerows ::
  "'r csv_sink_config \<Rightarrow> string list \<Rightarrow> (string \<times> pyval) list list \<Rightarrow> 'r CsvSink \<Rightarrow> (exn + unit) \<times> 'r CsvSink" where
  "csv_writerows K fnames [] s = (Inr (), s)"
| "csv_writerows K fnames (row # rows) s = (case csv_cells K fnames row of
     Inl e \<Rightarrow> (Inl e, s)
   | Inr cells \<Rightarrow> csv_writerows K fnames rows (csv_put (ck_format K cells) s))"

definition csv_write_rows ::
  "'r csv_sink_config \<Rightarrow> exn option \<Rightarrow> (string \<times> pyval) list list \<Rightarrow> 'r CsvSink \<Rightarrow> (exn + unit) \<times> 'r CsvSink" where
  "csv_write_rows K oserr rows s = (case ensure_writer K oserr rows s of
     (Inl e, s) \<Rightarrow> (Inl e, s)
   | (Inr _, s) \<Rightarrow> (case ck_writer s of
       Some fnames \<Rightarrow> if rows = [] \<or> ck_file s = None then (Inr (), s) else csv_writerows K fnames rows s
     | None \<Rightarrow> (Inr (), s)))"

definition csv_flush :: "'r csv_sink_config \<Rightarrow> exn option \<Rightarrow> 'r CsvSink \<Rightarrow> (exn + unit) \<times> 'r CsvSink" where
  "csv_flush K oserr s =
     (if ck_buffer s = [] then (Inr (), s)
      else case res_map (ck_row_mapper K) (ck_buffer s) of
        Inl e \<Rightarrow> (Inl e, s)
      | Inr rows \<Rightarrow> (case csv_write_rows K oserr rows s of
          (Inl e, s) \<Rightarrow> (Inl e, s)
        | (Inr _, s) \<Rightarrow> (Inr (), s\<lparr>ck_buffer := [], ck_header_written := True\<rparr>)))"

definition csv_write :: "'r csv_sink_config \<Rightarrow> exn option \<Rightarrow> 'r \<Rightarrow> 'r CsvSink \<Rightarrow> (exn + unit) \<times> 'r CsvSink" where
  "csv_write K oserr r s =
     (let s = s\<lparr>ck_buffer := ck_buffer s @ [r]\<rparr> in
      if int (length (ck_buffer s)) \<ge> ck_flush_every K then csv_flush K oserr s else (Inr (), s))"

definition csv_write_batch :: "'r csv_sink_config \<Rightarrow> exn option \<Rightarrow> 'r list \<Rightarrow> 'r CsvSink \<Rightarrow> (exn + unit) \<times> 'r CsvSink" where
  "csv_write_batch K oserr rs s =
     (let s = s\<lparr>ck_buffer := ck_buffer s @ rs\<rparr> in
      if int (length (ck_buffer s)) \<ge> ck_flush_every K then csv_flush K oserr s else (Inr (), s))"

definition csv_close :: "'r csv_sink_config \<Rightarrow> exn option \<Rightarrow> 'r CsvSink \<Rightarrow> (exn + unit) \<times> 'r CsvSink" where
  "csv_close K oserr s = (case csv_flush K oserr s of
     (Inl e, s) \<Rightarrow> (Inl e, s)
   | (Inr _, s) \<Rightarrow> (Inr (), if ck_file s \<noteq> None then s\<lparr>ck_file := None, ck_writer := None\<rparr> else s))"

text \<open>
  \<open>write_arrow_batch\<close>: pyarrow renders the batch, with or without a header, and a handle of its own writes it at
  the end of the file or overwrites it. When pyarrow cannot render it the rows are written as records are.
\<close>

definition csv_write_arrow_batch ::
  "'r csv_sink_config \<Rightarrow> exn option \<Rightarrow> (bool \<Rightarrow> 'r list \<Rightarrow> string option) \<Rightarrow> 'r list \<Rightarrow> 'r CsvSink \<Rightarrow> (exn + unit) \<times> 'r CsvSink" where
  "csv_write_arrow_batch K oserr render rs s = (case render (should_write_header K s) rs of
     Some x \<Rightarrow> (case oserr of
         Some e \<Rightarrow> (Inl e, s)
       | None \<Rightarrow> (Inr (), s\<lparr>ck_header_written := True,
           ck_path := Some ((if ck_header_written s \<or> ck_append K then text_of (ck_path s) else []) @ x)\<rparr>))
   | None \<Rightarrow> (case res_map (ck_row_mapper K) rs of
         Inl e \<Rightarrow> (Inl e, s)
       | Inr rows \<Rightarrow> (case csv_write_rows K oserr rows s of
           (Inl e, s) \<Rightarrow> (Inl e, s)
         | (Inr _, s) \<Rightarrow> (Inr (), s\<lparr>ck_header_written := True\<rparr>))))"

datatype 'r csv_sink_call = CWrite 'r | CWriteBatch "'r list" | CFlush

fun csv_call :: "'r csv_sink_config \<Rightarrow> 'r csv_sink_call \<Rightarrow> 'r CsvSink \<Rightarrow> (exn + unit) \<times> 'r CsvSink" where
  "csv_call K (CWrite r) s = csv_write K None r s"
| "csv_call K (CWriteBatch rs) s = csv_write_batch K None rs s"
| "csv_call K CFlush s = csv_flush K None s"

fun csv_handed :: "'r csv_sink_call \<Rightarrow> 'r list" where
  "csv_handed (CWrite r) = [r]"
| "csv_handed (CWriteBatch rs) = rs"
| "csv_handed CFlush = []"

definition csv_calls :: "'r csv_sink_config \<Rightarrow> 'r csv_sink_call list \<Rightarrow> 'r CsvSink \<Rightarrow> 'r CsvSink" where
  "csv_calls K cs s = fold (\<lambda>c s. snd (csv_call K c s)) cs s"

text \<open>A record whose row and cells can be made, and the cells under given field names.\<close>

definition writable :: "'r csv_sink_config \<Rightarrow> string list \<Rightarrow> 'r \<Rightarrow> bool" where
  "writable K fnames r = (case ck_row_mapper K r of Inl _ \<Rightarrow> False | Inr row \<Rightarrow> (case csv_cells K fnames row of Inl _ \<Rightarrow> False | Inr _ \<Rightarrow> True))"

definition cells_of :: "'r csv_sink_config \<Rightarrow> string list \<Rightarrow> 'r \<Rightarrow> string list" where
  "cells_of K fnames r = (case res_bind (ck_row_mapper K r) (csv_cells K fnames) of Inl _ \<Rightarrow> [] | Inr cs \<Rightarrow> cs)"

text \<open>The names under which the sink writes everything it is handed: the configured ones, or the keys of the first record.\<close>

definition csv_names :: "'r csv_sink_config \<Rightarrow> 'r list \<Rightarrow> string list" where
  "csv_names K acc = (case ck_fieldnames K of
     Some (f # fs) \<Rightarrow> f # fs
   | _ \<Rightarrow> (case acc of [] \<Rightarrow> [] | r # _ \<Rightarrow> (case ck_row_mapper K r of Inl _ \<Rightarrow> [] | Inr row \<Rightarrow> map fst row)))"

definition csv_text :: "'r csv_sink_config \<Rightarrow> string list \<Rightarrow> 'r list \<Rightarrow> string" where
  "csv_text K fnames rs = concat (map (ck_format K) (fnames # map (cells_of K fnames) rs))"

definition csv_holds :: "'r csv_sink_config \<Rightarrow> string list \<Rightarrow> 'r list \<Rightarrow> 'r CsvSink \<Rightarrow> bool" where
  "csv_holds K fnames acc s \<longleftrightarrow>
     (ck_writer s = None \<and> ck_file s = None \<and> \<not> ck_header_written s \<and> acc = ck_buffer s) \<or>
     (\<exists>out. acc = out @ ck_buffer s \<and> out \<noteq> [] \<and> ck_writer s = Some fnames \<and> ck_header_written s \<and>
        ck_path s = Some (csv_text K fnames out) \<and> ck_file s = Some (WriteAt (length (csv_text K fnames out))))"

lemma csv_put_end:
  "ck_file s = Some (WriteAt (length c)) \<Longrightarrow> ck_path s = Some c \<Longrightarrow>
     csv_put x s = s\<lparr>ck_file := Some (WriteAt (length (c @ x))), ck_path := Some (c @ x)\<rparr>"
  by (simp add: csv_put_def file_write_def text_of_def)

lemma csv_writerows_end:
  assumes "list_all2 (\<lambda>r row. ck_row_mapper K r = Inr row) rs rows" "list_all (writable K fnames) rs"
    and "ck_file s = Some (WriteAt (length c))" "ck_path s = Some c"
  shows "csv_writerows K fnames rows s = (Inr (), s\<lparr>
     ck_file := Some (WriteAt (length (c @ concat (map (ck_format K) (map (cells_of K fnames) rs))))),
     ck_path := Some (c @ concat (map (ck_format K) (map (cells_of K fnames) rs)))\<rparr>)"
  using assms
proof (induction rs rows arbitrary: s c rule: list_all2_induct)
  case (Cons r rs row rows)
  from Cons.hyps(1) Cons.prems(1) obtain cells where cells: "csv_cells K fnames row = Inr cells"
    by (auto simp: writable_def split: sum.splits)
  then have r: "cells_of K fnames r = cells" using Cons.hyps(1) by (simp add: cells_of_def)
  let ?s = "s\<lparr>ck_file := Some (WriteAt (length (c @ ck_format K cells))), ck_path := Some (c @ ck_format K cells)\<rparr>"
  have "csv_writerows K fnames rows ?s = (Inr (), ?s\<lparr>
     ck_file := Some (WriteAt (length ((c @ ck_format K cells) @ concat (map (ck_format K) (map (cells_of K fnames) rs))))),
     ck_path := Some ((c @ ck_format K cells) @ concat (map (ck_format K) (map (cells_of K fnames) rs)))\<rparr>)"
    using Cons.prems(1) by (intro Cons.IH) simp_all
  with cells r csv_put_end [OF Cons.prems(2,3), of "ck_format K cells"] show ?case
    by (simp add: add.assoc)
qed simp

lemma writable_rows:
  "list_all (writable K fnames) rs \<Longrightarrow> \<exists>rows. res_map (ck_row_mapper K) rs = Inr rows \<and>
     list_all2 (\<lambda>r row. ck_row_mapper K r = Inr row) rs rows"
proof (induction rs)
  case (Cons r rs)
  then obtain row rows where "ck_row_mapper K r = Inr row" "res_map (ck_row_mapper K) rs = Inr rows"
    "list_all2 (\<lambda>r row. ck_row_mapper K r = Inr row) rs rows"
    by (auto simp: writable_def split: sum.splits)
  then show ?case by (intro exI [of _ "row # rows"]) simp
qed simp

lemma csv_text_append:
  "csv_text K fnames (out @ rs) = csv_text K fnames out @ concat (map (ck_format K) (map (cells_of K fnames) rs))"
  by (simp add: csv_text_def)

lemma csv_holds_cases:
  assumes "csv_holds K fnames acc s"
  obtains (first) "ck_writer s = None" "ck_file s = None" "\<not> ck_header_written s" "acc = ck_buffer s"
    | (later) out where "acc = out @ ck_buffer s" "out \<noteq> []" "ck_writer s = Some fnames" "ck_header_written s"
      "ck_path s = Some (csv_text K fnames out)" "ck_file s = Some (WriteAt (length (csv_text K fnames out)))"
  using assms unfolding csv_holds_def by (elim disjE exE conjE) simp_all

lemma csv_flush_holds:
  assumes "csv_holds K (csv_names K acc) acc s" "\<not> ck_append K" "list_all (writable K (csv_names K acc)) acc" "acc \<noteq> []"
  shows "fst (csv_flush K None s) = Inr () \<and> csv_holds K (csv_names K acc) acc (snd (csv_flush K None s)) \<and>
    ck_buffer (snd (csv_flush K None s)) = []"
proof (cases "ck_buffer s = []")
  case True
  with assms show ?thesis by (simp add: csv_flush_def)
next
  case False
  let ?N = "csv_names K acc" and ?b = "ck_buffer s"
  have w: "list_all (writable K ?N) ?b" using assms(1,3) by (auto simp: csv_holds_def)
  from writable_rows [OF this] obtain rows where rows: "res_map (ck_row_mapper K) ?b = Inr rows"
    "list_all2 (\<lambda>r row. ck_row_mapper K r = Inr row) ?b rows" by blast
  with False have ne: "rows \<noteq> []" by auto
  from assms(1) show ?thesis
  proof (cases rule: csv_holds_cases)
    case first
    have names: "csv_fields K rows = ?N"
    proof -
      from rows(2) False obtain r b row rows' where "acc = r # b" "rows = row # rows'" "ck_row_mapper K r = Inr row"
        unfolding first(4) [symmetric] by (auto simp: list_all2_Cons1 neq_Nil_conv)
      then show ?thesis by (simp add: csv_fields_def csv_names_def split: option.split list.split)
    qed
    let ?s = "s\<lparr>ck_writer := Some ?N, ck_file := Some (WriteAt (length (ck_format K ?N))), ck_path := Some (ck_format K ?N)\<rparr>"
    have "ensure_writer K None rows s = (Inr (), ?s)"
      using first ne names assms(2)
      by (simp add: ensure_writer_def csv_open_def should_write_header_def csv_put_def file_write_def text_of_def Let_def)
    with csv_writerows_end [OF rows(2) w, of ?s "ck_format K ?N"] ne rows(1) False first show ?thesis
      by (simp add: csv_flush_def csv_write_rows_def csv_holds_def csv_text_def)
  next
    case (later out)
    have "ensure_writer K None rows s = (Inr (), s)" using later by (simp add: ensure_writer_def)
    moreover have "csv_text K ?N out @ concat (map (ck_format K) (map (cells_of K ?N) ?b)) = csv_text K ?N acc"
      by (simp only: csv_text_append [symmetric] later(1) [symmetric])
    ultimately show ?thesis
      using csv_writerows_end [OF rows(2) w later(6,5)] ne rows(1) False later(1-4) later(6)
      by (simp add: csv_flush_def csv_write_rows_def csv_holds_def)
  qed
qed

lemma csv_names_prefix: "acc \<noteq> [] \<Longrightarrow> csv_names K (acc @ rs) = csv_names K acc"
  by (cases acc) (simp_all add: csv_names_def split: option.split list.split)

lemma csv_handed_holds: "csv_holds K fnames acc s \<Longrightarrow> csv_holds K fnames (acc @ rs) (s\<lparr>ck_buffer := ck_buffer s @ rs\<rparr>)"
  by (auto simp: csv_holds_def)

lemma csv_flush_step:
  assumes "csv_holds K fnames acc s" "\<not> ck_append K" "list_all (writable K fnames) acc" "acc \<noteq> [] \<longrightarrow> fnames = csv_names K acc"
  shows "csv_holds K fnames acc (snd (csv_flush K None s))"
proof (cases "acc = []")
  case True
  with assms(1) have "ck_buffer s = []" by (auto simp: csv_holds_def)
  with assms(1) show ?thesis by (simp add: csv_flush_def)
next
  case False
  with assms csv_flush_holds [of K acc s] show ?thesis by simp
qed

lemma csv_call_holds:
  assumes "csv_holds K fnames acc s" "\<not> ck_append K" "list_all (writable K fnames) (acc @ csv_handed c)"
    and "acc @ csv_handed c \<noteq> [] \<longrightarrow> fnames = csv_names K (acc @ csv_handed c)"
  shows "csv_holds K fnames (acc @ csv_handed c) (snd (csv_call K c s))"
proof (cases c)
  case (CWrite r)
  note s = csv_handed_holds [OF assms(1), of "[r]"]
  with CWrite assms csv_flush_step [OF s] show ?thesis by (simp add: csv_write_def Let_def)
next
  case (CWriteBatch rs)
  note s = csv_handed_holds [OF assms(1), of rs]
  with CWriteBatch assms csv_flush_step [OF s] show ?thesis by (simp add: csv_write_batch_def Let_def)
next
  case CFlush
  with assms csv_flush_step [OF assms(1)] show ?thesis by simp
qed

lemma csv_calls_holds:
  assumes "csv_holds K fnames acc s" "\<not> ck_append K" "list_all (writable K fnames) (acc @ concat (map csv_handed cs))"
    and "fnames = csv_names K (acc @ concat (map csv_handed cs))"
  shows "csv_holds K fnames (acc @ concat (map csv_handed cs)) (csv_calls K cs s)"
  using assms
proof (induction cs arbitrary: acc s)
  case (Cons c cs)
  have "csv_holds K fnames (acc @ csv_handed c) (snd (csv_call K c s))"
    using Cons.prems csv_names_prefix [of "acc @ csv_handed c" K "concat (map csv_handed cs)"]
    by (intro csv_call_holds) auto
  from Cons.IH [OF this] Cons.prems show ?case by (simp add: csv_calls_def)
qed (simp add: csv_calls_def)

text \<open>
  What Python's \<open>csv\<close> module promises: its reader gives back the rows that its writer formatted. \<open>read\<close> stands for
  \<open>csv.reader\<close> on the text of a file.
\<close>

definition reader_inverts :: "(string \<Rightarrow> string list list) \<Rightarrow> (string list \<Rightarrow> string) \<Rightarrow> string list list \<Rightarrow> bool" where
  "reader_inverts read format rows \<longleftrightarrow> list_all (\<lambda>r. r \<noteq> []) rows \<longrightarrow> read (concat (map format rows)) = rows"

lemma cells_of_length: "writable K fnames r \<Longrightarrow> length (cells_of K fnames r) = length fnames"
proof -
  assume "writable K fnames r"
  then obtain row cells where c: "ck_row_mapper K r = Inr row" "csv_cells K fnames row = Inr cells"
    by (auto simp: writable_def split: sum.splits)
  from c(2) have "length fnames = length cells"
    unfolding csv_cells_def res_map_eq_Inr by (rule list_all2_lengthD)
  with c show ?thesis by (simp add: cells_of_def)
qed

lemma dict_rows_all:
  "\<not> cv_skip_blank_lines C \<Longrightarrow> list_all (\<lambda>r. r \<noteq> []) rows \<Longrightarrow> dict_rows C header rows = map (build_row header) rows"
  by (induction rows) simp_all

text \<open>
  What the CSV sink wrote, the CSV source reads. A sink that overwrites its file is handed some records, in
  any grouping and with any flushes between, all of which have a row; when it is closed, the rows that the source
  builds from the file are, record by record and in order, the dicts of the sink's columns with the record's
  cells.
\<close>

theorem csv_sink_source_round_trip:
  assumes "\<not> ck_append K" "cv_has_header C" "\<not> cv_skip_blank_lines C"
    and "reader_inverts read (ck_format K) (names # map (cells_of K names) records)"
    and "records = concat (map csv_handed cs)" "records \<noteq> []" "names = csv_names K records" "names \<noteq> []"
    and "list_all (writable K names) records"
    and "csv_close K None (csv_calls K cs (new_csv_sink contents)) = (r, s)"
  shows "r = Inr () \<and> iter_dict_rows C (read (text_of (ck_path s))) = map (\<lambda>x. build_row names (cells_of K names x)) records"
proof -
  have "csv_holds K names [] (new_csv_sink contents)" by (simp add: csv_holds_def new_csv_sink_def)
  then have "csv_holds K names records (csv_calls K cs (new_csv_sink contents))"
    using csv_calls_holds [of K names "[]" _ cs] assms by simp
  then have f: "fst (csv_flush K None (csv_calls K cs (new_csv_sink contents))) = Inr ()"
    "csv_holds K names records (snd (csv_flush K None (csv_calls K cs (new_csv_sink contents))))"
    "ck_buffer (snd (csv_flush K None (csv_calls K cs (new_csv_sink contents)))) = []"
    using csv_flush_holds [of K records] assms by simp_all
  then have "ck_path (snd (csv_flush K None (csv_calls K cs (new_csv_sink contents)))) = Some (csv_text K names records)"
    using assms(6) by (auto simp: csv_holds_def)
  with assms(10) f(1) have s: "r = Inr ()" "ck_path s = Some (csv_text K names records)"
    by (auto simp: csv_close_def split: prod.splits)
  have rows: "list_all (\<lambda>r. r \<noteq> []) (map (cells_of K names) records)"
  proof -
    have "cells_of K names x \<noteq> []" if "writable K names x" for x
      using cells_of_length [OF that] assms(8) by auto
    with assms(9) show ?thesis by (auto simp: list_all_iff)
  qed
  with assms(8) have "list_all (\<lambda>r. r \<noteq> []) (names # map (cells_of K names) records)" by simp
  with assms(4) have "read (csv_text K names records) = names # map (cells_of K names) records"
    unfolding reader_inverts_def csv_text_def by blast
  with s rows assms(2,3) show ?thesis by (simp add: text_of_def iter_dict_rows_def dict_rows_all)
qed

text \<open>
  With \<open>append\<close> a file that does not exist yet gets no header: opening it creates it, and only then does the sink
  look whether it exists.
\<close>

lemma csv_append_new_file_without_header:
  assumes "ck_append K" "ck_flush_every K = 1" "writable K (csv_names K [r]) r"
  shows "ck_path (snd (csv_write K None r (new_csv_sink None))) = Some (ck_format K (cells_of K (csv_names K [r]) r))"
proof -
  from assms(3) obtain row cells where "ck_row_mapper K r = Inr row" "csv_cells K (csv_names K [r]) row = Inr cells"
    by (auto simp: writable_def split: sum.splits)
  moreover from this(1) have "csv_fields K [row] = csv_names K [r]"
    by (simp add: csv_fields_def csv_names_def split: option.split list.split)
  ultimately show ?thesis using assms(1,2)
    by (simp add: csv_write_def csv_flush_def csv_write_rows_def ensure_writer_def csv_open_def should_write_header_def
        csv_put_def file_write_def text_of_def new_csv_sink_def cells_of_def Let_def)
qed

section \<open>Demonstrations\<close>

text \<open>A record is a row; a value that is not a string has no cell; a cell ends with a semicolon, a row with a newline.\<close>

definition demo_csv :: "(string \<times> pyval) list csv_sink_config" where
  "demo_csv = \<lparr>ck_row_mapper = Inr, ck_fieldnames = None, ck_append = False, ck_flush_every = 1,
     ck_cell = (\<lambda>v. case v of PStr x \<Rightarrow> Inr x | _ \<Rightarrow> Inl (mk_exn ValueErrorC ''cell'')),
     ck_format = (\<lambda>row. concat (map (\<lambda>c. c @ '';'') row) @ newline)\<rparr>"

fun demo_cells :: "string \<Rightarrow> string \<Rightarrow> string list" where
  "demo_cells cell [] = []"
| "demo_cells cell (c # cs) = (if c = CHR '';'' then cell # demo_cells [] cs else demo_cells (cell @ [c]) cs)"

definition demo_read :: "string \<Rightarrow> string list list" where
  "demo_read x = map (demo_cells []) (file_lines x)"

definition demo_csv_source :: csv_config where
  "demo_csv_source = \<lparr>cv_has_header = True, cv_fieldnames = None, cv_skip_blank_lines = False, cv_row_mapper = (\<lambda>_. Inr None),
     cv_row_value = (\<lambda>_. PNone), cv_on_record_error = SRC_FAIL_CLOSED\<rparr>"

definition demo_csv_record :: "string \<Rightarrow> (string \<times> pyval) list" where
  "demo_csv_record x = [(''k'', PStr x)]"

lemma csv_sink_source_round_trip_witness:
  "let cs = [CWrite (demo_csv_record ''a''), CWriteBatch [demo_csv_record ''b'', demo_csv_record ''c''], CFlush];
       s = snd (csv_close demo_csv None (csv_calls demo_csv cs (new_csv_sink (Some ''old''))))
   in iter_dict_rows demo_csv_source (demo_read (text_of (ck_path s))) =
        map (\<lambda>x. [(Some ''k'', PStr x)]) [''a'', ''b'', ''c'']"
proof -
  let ?cs = "[CWrite (demo_csv_record ''a''), CWriteBatch [demo_csv_record ''b'', demo_csv_record ''c''], CFlush]"
  let ?R = "[demo_csv_record ''a'', demo_csv_record ''b'', demo_csv_record ''c'']"
  obtain r s where run: "csv_close demo_csv None (csv_calls demo_csv ?cs (new_csv_sink (Some ''old''))) = (r, s)"
    by (meson surj_pair)
  have n: "csv_names demo_csv ?R = [''k'']" by code_simp
  have w: "list_all (writable demo_csv [''k'']) ?R" by code_simp
  have inv: "reader_inverts demo_read (ck_format demo_csv) ([''k''] # map (cells_of demo_csv [''k'']) ?R)" by code_simp
  have rows: "map (\<lambda>x. build_row [''k''] (cells_of demo_csv [''k''] x)) ?R = map (\<lambda>x. [(Some ''k'', PStr x)]) [''a'', ''b'', ''c'']"
    by code_simp
  have cfg: "\<not> ck_append demo_csv" "cv_has_header demo_csv_source" "\<not> cv_skip_blank_lines demo_csv_source"
    by (simp_all add: demo_csv_def demo_csv_source_def)
  have "?R = concat (map csv_handed ?cs)" "?R \<noteq> []" "[''k''] \<noteq> []" by simp_all
  from csv_sink_source_round_trip [OF cfg inv this(1,2) n [symmetric] this(3) w run] rows run show ?thesis
    by (simp only: Let_def snd_conv)
qed

text \<open>A cell that cannot be made stops the flush after the rows before it, which the next flush writes again.\<close>

lemma csv_failed_flush_repeats_rows:
  "let s = snd (csv_write_batch demo_csv None [demo_csv_record ''a'', [(''k'', PNone)]] (new_csv_sink None));
       t = snd (csv_flush demo_csv None s)
   in ck_path s = Some (csv_text demo_csv [''k''] [demo_csv_record ''a'']) \<and>
      ck_path t = Some (csv_text demo_csv [''k''] [demo_csv_record ''a'', demo_csv_record ''a''])"
  by code_simp

text \<open>Rows written through the sink's own handle overwrite an Arrow batch that was written after it was opened.\<close>

lemma csv_rows_overwrite_arrow_batch:
  "let render = (\<lambda>h rs. Some (concat (map (\<lambda>r. ''B;'' @ newline) rs)));
       s = snd (csv_write demo_csv None (demo_csv_record ''a'') (new_csv_sink None));
       s = snd (csv_write_arrow_batch demo_csv None render [demo_csv_record ''B''] s);
       s = snd (csv_write demo_csv None (demo_csv_record ''c'') s)
   in ck_path s = Some (csv_text demo_csv [''k''] [demo_csv_record ''a'', demo_csv_record ''c''])"
  by code_simp

text \<open>A sink that is used again after \<open>close\<close> takes the columns of its next record, under the old header.\<close>

lemma csv_reopened_changes_columns:
  "let s = snd (csv_write demo_csv None [(''k'', PStr ''a''), (''l'', PStr ''b'')] (new_csv_sink None));
       s = snd (csv_write demo_csv None [(''l'', PStr ''d''), (''k'', PStr ''c'')] (snd (csv_close demo_csv None s)))
   in map (demo_cells []) (file_lines (text_of (ck_path s))) = [[''k'', ''l''], [''a'', ''b''], [''d'', ''c'']]"
  by code_simp

definition demo_jsonl_sink :: "pyobj jsonl_sink_config" where
  "demo_jsonl_sink = \<lparr>jk_append = False, jk_flush_every = 2,
     jk_dumps = (\<lambda>r. case ob_val r of PStr x \<Rightarrow> Inr x | _ \<Rightarrow> Inl (mk_exn ValueErrorC ''json''))\<rparr>"


lemma demo_jsonl_raises: "raises_exceptions demo_jsonl_sink"
  by (simp add: raises_exceptions_def demo_jsonl_sink_def is_Exception_def isinstance_def split: pyval.split)

lemma jsonl_sink_keeps_everything_witness:
  "\<exists>out ls. [row_obj ''a'', \<lparr>ob_id = 0, ob_val = PNone\<rparr>, row_obj ''b''] = out @
       jk_buffer (jsonl_calls demo_jsonl_sink [(KWrite (row_obj ''a''), io_fine), (KFlush, io_fine),
         (KWrite \<lparr>ob_id = 0, ob_val = PNone\<rparr>, io_fine), (KWrite (row_obj ''b''), io_fine)]
         (snd (jsonl_open_file demo_jsonl_sink io_fine (new_jsonl_sink None)))) \<and>
     res_map (jk_dumps demo_jsonl_sink) out = Inr ls"
  using jsonl_sink_keeps_everything [OF demo_jsonl_raises _ refl,
      of "[(KWrite (row_obj ''a''), io_fine), (KFlush, io_fine), (KWrite \<lparr>ob_id = 0, ob_val = PNone\<rparr>, io_fine),
        (KWrite (row_obj ''b''), io_fine)]" None]
  by (auto simp: comp_def)


end
