(* ===== verification/Runner.thy ===== *)
theory Runner
  imports Failures
begin

text \<open>
  The scheduler: \<^verbatim>\<open>runner/policies.py\<close>, \<^verbatim>\<open>runner/runtime.py\<close>, \<^verbatim>\<open>runner/scheduled.py\<close>, and the lease hooks that
  \<open>WorkerPool\<close> of \<^verbatim>\<open>runner/worker.py\<close> attaches to a scheduled pipeline.

  What the outside does in one turn of the loop is a record of outcomes, \<open>turn\<close>: what the hook, the coordinator, the
  factory, the run, the observers and the waiting do. The loop runs over a list of turns; when they are used up it
  is still running. \<open>sc_trace\<close> records what happens to the lease and the run; the code does not read it. Times of
  records, live metrics and logging are left out. Durations are exact rationals, except that an integer that is too
  large for a float raises, as in Python.

  Shown: the waits are bounded, the loop stops at the configured number of failures, and a lease is never released
  under a run and never kept after a turn, unless a turn is cancelled.
\<close>

section \<open>Backoff and schedules\<close>

record ExponentialBackoffPolicy =
  bo_base :: rat
  bo_max :: rat

definition next_delay :: "ExponentialBackoffPolicy \<Rightarrow> int \<Rightarrow> exn + rat" where
  "next_delay P n =
     (if n \<le> 0 then Inr 0
      else if n - 1 \<ge> 1024 then Inl (mk_exn OverflowErrorC ''int too large to convert to float'')
      else Inr (min (bo_base P * 2 ^ nat (n - 1)) (bo_max P)))"

datatype Schedule = Interval rat | Cron string | Continuous | Once

definition schedule_every :: "rat \<Rightarrow> rat \<Rightarrow> rat \<Rightarrow> rat \<Rightarrow> exn + Schedule" where
  "schedule_every seconds minutes hours days =
     (let total = seconds + minutes * 60 + hours * 3600 + days * 86400 in
      if total \<le> 0 then Inl (mk_exn ValueErrorC ''Schedule.every() requires a positive duration'') else Inr (Interval total))"

definition should_repeat :: "Schedule \<Rightarrow> bool" where
  "should_repeat s \<longleftrightarrow> s \<noteq> Once"

text \<open>
  How long \<open>wait_until_next\<close> and \<open>wait_after_skip\<close> wait unless the stop event wakes them; \<open>cron_wait\<close> is what the
  cron plugin answers.
\<close>

definition wait_until_next :: "Schedule \<Rightarrow> exn + rat \<Rightarrow> exn + rat" where
  "wait_until_next s cron_wait = (case s of
     Interval x \<Rightarrow> Inr x
   | Cron _ \<Rightarrow> res_bind cron_wait (\<lambda>x. Inr (max x 0))
   | Continuous \<Rightarrow> Inr 0
   | Once \<Rightarrow> Inr 0)"

definition wait_after_skip :: "Schedule \<Rightarrow> exn + rat \<Rightarrow> exn + rat" where
  "wait_after_skip s cron_wait = (case s of Continuous \<Rightarrow> Inr (1 / 10) | _ \<Rightarrow> wait_until_next s cron_wait)"

section \<open>The scheduler's state\<close>

record 'm RunRecord =
  rr_run_number :: int
  rr_summary :: "'m option"
  rr_error :: "exn option"

datatype sched_event = LeaseAcquired | RunStarted | RunEnded | BackedOff rat | LeaseReleased | Slept rat

record 'm ScheduledPipelineState =
  sc_run_number :: int
  sc_consecutive_errors :: int
  sc_history :: "'m RunRecord list"
  sc_running :: bool
  sc_stop :: bool
  sc_abort :: bool
  sc_fence :: "int option"
  sc_trace :: "sched_event list"

definition new_sched_state :: "'m ScheduledPipelineState" where
  "new_sched_state = \<lparr>sc_run_number = 0, sc_consecutive_errors = 0, sc_history = [], sc_running = False, sc_stop = False,
     sc_abort = False, sc_fence = None, sc_trace = []\<rparr>"

definition last_run :: "'m ScheduledPipelineState \<Rightarrow> 'm RunRecord option" where
  "last_run s = (if sc_history s = [] then None else Some (last (sc_history s)))"

text \<open>A \<open>deque\<close> with \<open>maxlen=100\<close> drops its oldest entry.\<close>

definition push_history :: "'m RunRecord \<Rightarrow> 'm RunRecord list \<Rightarrow> 'm RunRecord list" where
  "push_history r h = (let h' = h @ [r] in if length h' > 100 then tl h' else h')"

datatype observer = ApplicationObserver | ReleaseObserver | MetricsObserver

record 'm ScheduledPipeline =
  sp_schedule :: Schedule
  sp_max_errors :: int
  sp_backoff :: "int \<Rightarrow> exn + rat"
  sp_user_hook :: bool
  sp_leased :: bool
  sp_on_complete :: bool
  sp_observers :: "observer list"

text \<open>
  The race of the run against the abort event: the run ends first, the abort event does (the run is cancelled and
  awaited), or the scheduler itself is cancelled while it waits.
\<close>

datatype 'm race = RunReturns 'm | RunRaises exn | AbortFirst | CancelledMeanwhile

record 'm turn =
  tn_user_hook :: "exn + bool"
  tn_acquire :: "exn + bool"
  tn_lease :: "exn + int option"
  tn_build :: "exn option"
  tn_race :: "'m race"
  tn_backoff :: "exn option"
  tn_on_complete :: "exn option"
  tn_observers :: "exn option list"
  tn_stop :: bool
  tn_cron :: "exn + rat"
  tn_wait :: "exn option"

definition sc_log :: "sched_event \<Rightarrow> 'm ScheduledPipelineState \<Rightarrow> 'm ScheduledPipelineState" where
  "sc_log ev s = s\<lparr>sc_trace := sc_trace s @ [ev]\<rparr>"

definition lease_lost :: exn where
  "lease_lost = mk_exn (UserC ''LeaseLost'' ExceptionC) ''lease lost''"

definition cancelled :: exn where
  "cancelled = mk_exn CancelledErrorC []"

section \<open>One turn\<close>

text \<open>
  \<open>_wire_lease_gating\<close>: the hook that the pool attaches asks the hook that was there first, then for the lease, and
  leaves a fence with its token.
\<close>

definition pre_run_hook :: "'m ScheduledPipeline \<Rightarrow> 'm turn \<Rightarrow> 'm ScheduledPipelineState \<Rightarrow> (exn + bool) \<times> 'm ScheduledPipelineState" where
  "pre_run_hook P t s =
     (case (if sp_user_hook P then tn_user_hook t else Inr True) of
        Inl e \<Rightarrow> (Inl e, s)
      | Inr False \<Rightarrow> (Inr False, s)
      | Inr True \<Rightarrow>
          if \<not> sp_leased P then (Inr True, s)
          else let s = s\<lparr>sc_fence := None\<rparr> in
            (case tn_acquire t of
               Inl e \<Rightarrow> (Inl e, s)
             | Inr False \<Rightarrow> (Inr False, s)
             | Inr True \<Rightarrow>
                 let s = sc_log LeaseAcquired s in
                 (case tn_lease t of Inl e \<Rightarrow> (Inl e, s) | Inr tok \<Rightarrow> (Inr True, s\<lparr>sc_fence := tok\<rparr>))))"

text \<open>\<open>_run_with_abort\<close>: a run that loses the race is cancelled; one that is only waited for is not.\<close>

definition run_with_abort :: "'m turn \<Rightarrow> 'm ScheduledPipelineState \<Rightarrow> (exn + 'm) \<times> 'm ScheduledPipelineState" where
  "run_with_abort t s =
     (let s = sc_log RunStarted s in
      case tn_race t of
        RunReturns m \<Rightarrow> (Inr m, sc_log RunEnded s)
      | RunRaises e \<Rightarrow> (Inl e, sc_log RunEnded s)
      | AbortFirst \<Rightarrow> (Inl lease_lost, sc_log RunEnded (s\<lparr>sc_abort := True\<rparr>))
      | CancelledMeanwhile \<Rightarrow> (Inl cancelled, s))"

text \<open>The scheduler's own observers in the order of registration; an \<open>Exception\<close> is logged, anything else ends the round.\<close>

definition observer_effect :: "observer \<Rightarrow> exn option \<Rightarrow> 'm ScheduledPipelineState \<Rightarrow> 'm ScheduledPipelineState" where
  "observer_effect ob r s = (if ob = ReleaseObserver \<and> r = None then sc_log LeaseReleased s else s)"

fun notify_observers :: "observer list \<Rightarrow> exn option list \<Rightarrow> 'm ScheduledPipelineState \<Rightarrow> (exn + unit) \<times> 'm ScheduledPipelineState" where
  "notify_observers [] rs s = (Inr (), s)"
| "notify_observers (ob # obs) [] s = notify_observers obs [] (observer_effect ob None s)"
| "notify_observers (ob # obs) (r # rs) s =
     (case r of
        Some e \<Rightarrow> if is_Exception e then notify_observers obs rs s else (Inl e, s)
      | None \<Rightarrow> notify_observers obs rs (observer_effect ob None s))"

definition notify_run_complete :: "'m ScheduledPipeline \<Rightarrow> 'm turn \<Rightarrow> 'm ScheduledPipelineState \<Rightarrow> (exn + unit) \<times> 'm ScheduledPipelineState" where
  "notify_run_complete P t s =
     (case (if sp_on_complete P then tn_on_complete t else None) of
        Some e \<Rightarrow> if is_Exception e then notify_observers (sp_observers P) (tn_observers t) s else (Inl e, s)
      | None \<Rightarrow> notify_observers (sp_observers P) (tn_observers t) s)"

text \<open>\<open>_handle_run_failure\<close>; the wait may be cut short by the stop event and may be cancelled.\<close>

definition handle_run_failure :: "'m ScheduledPipeline \<Rightarrow> 'm turn \<Rightarrow> 'm ScheduledPipelineState \<Rightarrow> (exn + unit) \<times> 'm ScheduledPipelineState" where
  "handle_run_failure P t s =
     (let s = s\<lparr>sc_consecutive_errors := sc_consecutive_errors s + 1\<rparr> in
      case sp_backoff P (sc_consecutive_errors s) of
        Inl e \<Rightarrow> (Inl e, s)
      | Inr w \<Rightarrow> (case tn_backoff t of None \<Rightarrow> (Inr (), sc_log (BackedOff w) s) | Some e \<Rightarrow> (Inl e, sc_log (BackedOff w) s)))"

text \<open>The \<open>try\<close> statement of \<open>_run_once\<close> without its \<open>finally\<close>: what escapes it, the record and the state.\<close>

definition try_run :: "'m ScheduledPipeline \<Rightarrow> 'm turn \<Rightarrow> 'm ScheduledPipelineState \<Rightarrow> (exn + unit) \<times> 'm RunRecord \<times> 'm ScheduledPipelineState" where
  "try_run P t s =
     (let record = \<lparr>rr_run_number = sc_run_number s, rr_summary = None, rr_error = None\<rparr>;
          (res, s) = (case tn_build t of Some e \<Rightarrow> (Inl e, s) | None \<Rightarrow> run_with_abort t s)
      in case res of
        Inr m \<Rightarrow> (Inr (), record\<lparr>rr_summary := Some m\<rparr>, s\<lparr>sc_consecutive_errors := 0\<rparr>)
      | Inl e \<Rightarrow>
          if isinstance e CancelledErrorC then (Inl e, record\<lparr>rr_error := Some e\<rparr>, s)
          else if e = lease_lost then (Inr (), record\<lparr>rr_error := Some e\<rparr>, s)
          else if is_Exception e
          then (case handle_run_failure P t s of (r, s) \<Rightarrow> (r, record\<lparr>rr_error := Some e\<rparr>, s))
          else (Inl e, record, s))"

definition run_once :: "'m ScheduledPipeline \<Rightarrow> 'm turn \<Rightarrow> 'm ScheduledPipelineState \<Rightarrow> (exn + bool) \<times> 'm ScheduledPipelineState" where
  "run_once P t s =
     (case (if sp_user_hook P \<or> sp_leased P then pre_run_hook P t s else (Inr True, s)) of
        (Inl e, s) \<Rightarrow> (Inl e, s)
      | (Inr False, s) \<Rightarrow> (Inr False, s)
      | (Inr True, s) \<Rightarrow>
          (case try_run P t (s\<lparr>sc_run_number := sc_run_number s + 1, sc_abort := False\<rparr>) of
             (r, record, s) \<Rightarrow>
               (case notify_run_complete P t (s\<lparr>sc_history := push_history record (sc_history s)\<rparr>) of
                  (Inl e, s) \<Rightarrow> (Inl e, s)
                | (Inr _, s) \<Rightarrow> (res_bind r (\<lambda>_. Inr True), s\<lparr>sc_fence := None\<rparr>))))"

section \<open>The loop\<close>

definition should_continue :: "'m ScheduledPipeline \<Rightarrow> 'm ScheduledPipelineState \<Rightarrow> bool" where
  "should_continue P s \<longleftrightarrow> should_repeat (sp_schedule P) \<and> sc_consecutive_errors s < sp_max_errors P"

datatype sched_outcome = Stopped "exn option" | StillRunning

definition stop_loop :: "exn option \<Rightarrow> 'm ScheduledPipelineState \<Rightarrow> sched_outcome \<times> 'm ScheduledPipelineState" where
  "stop_loop r s = (Stopped (case r of None \<Rightarrow> None | Some e \<Rightarrow> if isinstance e CancelledErrorC then None else Some e), s\<lparr>sc_running := False\<rparr>)"

text \<open>\<open>tn_stop\<close>: \<open>stop()\<close> is called in the course of the turn.\<close>

fun sched_loop :: "'m ScheduledPipeline \<Rightarrow> 'm turn list \<Rightarrow> 'm ScheduledPipelineState \<Rightarrow> sched_outcome \<times> 'm ScheduledPipelineState" where
  "sched_loop P ts s =
     (if sc_stop s then stop_loop None s
      else case ts of
        [] \<Rightarrow> (StillRunning, s)
      | t # ts \<Rightarrow>
          (case run_once P t s of
             (Inl e, s) \<Rightarrow> stop_loop (Some e) s
           | (Inr did_run, s) \<Rightarrow>
               let s = (if tn_stop t then s\<lparr>sc_stop := True\<rparr> else s) in
               if \<not> should_continue P s then stop_loop None s
               else (case (if did_run then wait_until_next (sp_schedule P) (tn_cron t) else wait_after_skip (sp_schedule P) (tn_cron t)) of
                   Inl e \<Rightarrow> stop_loop (Some e) s
                 | Inr w \<Rightarrow>
                     (case tn_wait t of
                        Some e \<Rightarrow> stop_loop (Some e) s
                      | None \<Rightarrow> sched_loop P ts (sc_log (Slept w) s)))))"

declare sched_loop.simps [simp del]

text \<open>\<open>start()\<close> and \<open>stop()\<close>.\<close>

definition sched_run :: "'m ScheduledPipeline \<Rightarrow> 'm turn list \<Rightarrow> 'm ScheduledPipelineState \<Rightarrow> sched_outcome \<times> 'm ScheduledPipelineState" where
  "sched_run P ts s = sched_loop P ts (s\<lparr>sc_running := True, sc_stop := False\<rparr>)"

definition sched_stop :: "'m ScheduledPipelineState \<Rightarrow> 'm ScheduledPipelineState" where
  "sched_stop s = s\<lparr>sc_stop := True\<rparr>"

section \<open>Backoff is bounded and never shrinks\<close>

lemma next_delay_le: "next_delay P n = Inr d \<Longrightarrow> 0 \<le> bo_max P \<Longrightarrow> d \<le> bo_max P"
  by (auto simp: next_delay_def split: if_splits)

text \<open>
  The scheduler's wait after failures lies between 0 and the configured maximum, and a longer streak of
  failures never waits less.
\<close>

theorem scheduler_backoff_bounded:
  assumes "next_delay P n = Inr d" "next_delay P (n + 1) = Inr d'" "0 \<le> bo_base P" "0 \<le> bo_max P"
  shows "0 \<le> d \<and> d \<le> d' \<and> d' \<le> bo_max P"
proof (cases "n \<le> 0")
  case True
  with assms next_delay_le [OF assms(2,4)] show ?thesis
    by (auto simp: next_delay_def split: if_splits)
next
  case False
  then have "nat (n + 1 - 1) = Suc (nat (n - 1))" by simp
  then have pow: "bo_base P * 2 ^ nat (n - 1) \<le> bo_base P * 2 ^ nat (n + 1 - 1)"
    using assms(3) by (simp add: mult_left_mono)
  have d: "d = min (bo_base P * 2 ^ nat (n - 1)) (bo_max P)" "d' = min (bo_base P * 2 ^ nat (n + 1 - 1)) (bo_max P)"
    using assms(1,2) False by (auto simp: next_delay_def split: if_splits)
  have "0 \<le> bo_base P * 2 ^ nat (n - 1)" using assms(3) by simp
  with pow assms(4) show ?thesis unfolding d by linarith
qed

lemma scheduler_backoff_bounded_witness:
  "let P = \<lparr>bo_base = 60, bo_max = 600\<rparr> in next_delay P 4 = Inr 480 \<and> next_delay P 5 = Inr 600 \<and> (480 :: rat) \<le> 600"
proof -
  let ?P = "\<lparr>bo_base = 60, bo_max = 600\<rparr> :: ExponentialBackoffPolicy"
  have d: "next_delay ?P 4 = Inr 480" "next_delay ?P (4 + 1) = Inr 600" by (simp_all add: next_delay_def)
  from scheduler_backoff_bounded [OF d] d show ?thesis by simp
qed

text \<open>A streak of more than 1024 failures overflows the power, and the exception ends the scheduler.\<close>

lemma next_delay_overflows: "1025 \<le> n \<Longrightarrow> next_delay P n = Inl (mk_exn OverflowErrorC ''int too large to convert to float'')"
  by (simp add: next_delay_def)

section \<open>The lease through a turn\<close>

text \<open>The order in which a lease may be used: taken, a run in it, the end of the run, given back.\<close>

datatype lease_phase = Free | Held | InRun | Ended

fun lease_step :: "lease_phase \<Rightarrow> sched_event \<Rightarrow> lease_phase option" where
  "lease_step Free LeaseAcquired = Some Held"
| "lease_step Free (Slept _) = Some Free"
| "lease_step Held RunStarted = Some InRun"
| "lease_step Held (BackedOff _) = Some Held"
| "lease_step Held LeaseReleased = Some Free"
| "lease_step InRun RunEnded = Some Ended"
| "lease_step Ended (BackedOff _) = Some Ended"
| "lease_step Ended LeaseReleased = Some Free"
| "lease_step _ _ = None"

fun lease_phases :: "lease_phase \<Rightarrow> sched_event list \<Rightarrow> lease_phase option" where
  "lease_phases p [] = Some p"
| "lease_phases p (ev # evs) = (case lease_step p ev of None \<Rightarrow> None | Some q \<Rightarrow> lease_phases q evs)"

lemma lease_phases_append:
  "lease_phases p (xs @ ys) = (case lease_phases p xs of None \<Rightarrow> None | Some q \<Rightarrow> lease_phases q ys)"
  by (induction xs arbitrary: p) (auto split: option.split)

definition lease_phase_of :: "'m ScheduledPipelineState \<Rightarrow> lease_phase option" where
  "lease_phase_of s = lease_phases Free (sc_trace s)"

lemma phase_log: "lease_phase_of s = Some p \<Longrightarrow> lease_phase_of (sc_log ev s) = lease_step p ev"
  by (simp add: lease_phase_of_def sc_log_def lease_phases_append split: option.split)

lemma phase_cong: "sc_trace s = sc_trace t \<Longrightarrow> lease_phase_of s = lease_phase_of t"
  by (simp add: lease_phase_of_def)

text \<open>
  A turn in which nobody cancels the scheduler, the coordinator answers, and the release of the lease does not fail.
\<close>

definition harmless :: "exn option \<Rightarrow> bool" where
  "harmless r = (case r of None \<Rightarrow> True | Some e \<Rightarrow> is_Exception e)"

definition calm :: "'m ScheduledPipeline \<Rightarrow> 'm turn \<Rightarrow> bool" where
  "calm P t \<longleftrightarrow> (case tn_lease t of Inl _ \<Rightarrow> False | Inr _ \<Rightarrow> True) \<and>
     (case tn_race t of CancelledMeanwhile \<Rightarrow> False | _ \<Rightarrow> True) \<and>
     harmless (tn_on_complete t) \<and> list_all harmless (tn_observers t) \<and>
     list_all (\<lambda>(ob, r). ob \<noteq> ReleaseObserver \<or> r = None) (zip (sp_observers P) (tn_observers t))"

lemma notify_observers_calm:
  assumes "list_all harmless rs" "list_all (\<lambda>(ob, r). ob \<noteq> ReleaseObserver \<or> r = None) (zip obs rs)"
  shows "notify_observers obs rs s =
    (Inr (), s\<lparr>sc_trace := sc_trace s @ map (\<lambda>_. LeaseReleased) (filter ((=) ReleaseObserver) obs)\<rparr>)"
  using assms
proof (induction obs rs s rule: notify_observers.induct)
  case (2 ob obs s)
  then show ?case by (auto simp: observer_effect_def sc_log_def)
next
  case (3 ob obs r rs s)
  then show ?case by (cases r) (auto simp: observer_effect_def sc_log_def harmless_def)
qed simp

lemma notify_calm:
  assumes "calm P t" "filter ((=) ReleaseObserver) (sp_observers P) = [ReleaseObserver]"
  shows "notify_run_complete P t s = (Inr (), sc_log LeaseReleased s)"
  using assms notify_observers_calm [of "tn_observers t" "sp_observers P" s]
  by (auto simp: notify_run_complete_def calm_def harmless_def sc_log_def split: option.split)

lemma try_run_phase:
  assumes "lease_phase_of s = Some Held" "calm P t" "try_run P t s = (r, record, u)"
  shows "lease_phase_of u = Some Held \<or> lease_phase_of u = Some Ended"
proof -
  have log: "lease_phase_of (sc_log RunEnded (sc_log RunStarted s)) = Some Ended"
    using phase_log [OF assms(1), of RunStarted] phase_log [of "sc_log RunStarted s" InRun RunEnded] by simp
  have abort: "lease_phase_of (sc_log RunEnded (sc_log RunStarted s\<lparr>sc_abort := True\<rparr>)) = Some Ended"
    using log by (simp add: lease_phase_of_def sc_log_def)
  have failure: "lease_phase_of (snd (handle_run_failure P t v)) = Some p"
    if "lease_phase_of v = Some p" "p = Held \<or> p = Ended" for v p
    using that phase_log [of "v\<lparr>sc_consecutive_errors := sc_consecutive_errors v + 1\<rparr>" p]
    by (auto simp: handle_run_failure_def Let_def lease_phase_of_def split: sum.split option.split)
  obtain res v where res: "(case tn_build t of Some e \<Rightarrow> (Inl e, s) | None \<Rightarrow> run_with_abort t s) = (res, v)"
    by (meson surj_pair)
  then have v: "lease_phase_of v = Some Held \<or> lease_phase_of v = Some Ended"
    using assms(1,2) log abort
    by (auto simp: run_with_abort_def calm_def Let_def split: option.splits race.splits)
  show ?thesis
  proof (cases res)
    case (Inr m)
    with res assms(3) have "u = v\<lparr>sc_consecutive_errors := 0\<rparr>" by (simp add: try_run_def Let_def)
    with v show ?thesis by (simp add: lease_phase_of_def)
  next
    case (Inl e)
    with res assms(3) have "u = v \<or> u = snd (handle_run_failure P t v)"
      by (auto simp: try_run_def Let_def split: if_splits prod.splits)
    with v failure [of v] show ?thesis by auto
  qed
qed

lemma run_once_phase:
  assumes "lease_phase_of s = Some Free" "calm P t" "sp_leased P" "filter ((=) ReleaseObserver) (sp_observers P) = [ReleaseObserver]"
    and "run_once P t s = (r, u)"
  shows "lease_phase_of u = Some Free"
proof -
  obtain h s1 where hook: "pre_run_hook P t s = (h, s1)" by (meson surj_pair)
  have s1: "lease_phase_of s1 = Some (if h = Inr True then Held else Free)"
    using hook assms(1-3) phase_log [of "s\<lparr>sc_fence := None\<rparr>" Free LeaseAcquired]
    by (auto simp: pre_run_hook_def lease_phase_of_def calm_def Let_def split: if_splits sum.splits bool.splits)
  show ?thesis
  proof (cases "h = Inr True")
    case False
    with assms(3,5) hook have "u = s1" by (auto simp: run_once_def split: sum.splits bool.splits)
    with s1 False show ?thesis by simp
  next
    case True
    let ?s2 = "s1\<lparr>sc_run_number := sc_run_number s1 + 1, sc_abort := False\<rparr>"
    obtain q rec s3 where q: "try_run P t ?s2 = (q, rec, s3)" by (metis surj_pair)
    have "lease_phase_of ?s2 = Some Held" using s1 True by (simp add: lease_phase_of_def)
    from try_run_phase [OF this assms(2) q] have "lease_phase_of s3 = Some Held \<or> lease_phase_of s3 = Some Ended" .
    then have "lease_phase_of (sc_log LeaseReleased (s3\<lparr>sc_history := push_history rec (sc_history s3)\<rparr>)) = Some Free"
      by (auto simp: lease_phase_of_def sc_log_def lease_phases_append split: option.splits)
    with True hook q assms(3,5) notify_calm [OF assms(2,4)] show ?thesis
      by (auto simp: run_once_def lease_phase_of_def)
  qed
qed

lemma sched_loop_phase:
  assumes "list_all (calm P) ts" "sp_leased P" "filter ((=) ReleaseObserver) (sp_observers P) = [ReleaseObserver]"
    and "lease_phase_of s = Some Free"
  shows "lease_phase_of (snd (sched_loop P ts s)) = Some Free"
  using assms(1,4)
proof (induction ts arbitrary: s)
  case Nil
  then show ?case by (simp add: sched_loop.simps stop_loop_def lease_phase_of_def)
next
  case (Cons t ts)
  obtain r u where ru: "run_once P t s = (r, u)" by (meson surj_pair)
  have u: "lease_phase_of u = Some Free"
    using run_once_phase [OF Cons.prems(2) _ assms(2,3) ru] Cons.prems(1) by simp
  let ?v = "if tn_stop t then u\<lparr>sc_stop := True\<rparr> else u"
  have v: "lease_phase_of ?v = Some Free" using u by (simp add: lease_phase_of_def)
  have stop: "lease_phase_of (snd (stop_loop q w)) = lease_phase_of w" for q and w :: "'a ScheduledPipelineState"
    by (simp add: stop_loop_def lease_phase_of_def)
  have "lease_phase_of (sc_log (Slept d) ?v) = Some Free" for d using phase_log [OF v, of "Slept d"] by simp
  with Cons.IH Cons.prems(1) have next_turn: "lease_phase_of (snd (sched_loop P ts (sc_log (Slept d) ?v))) = Some Free" for d
    by simp
  show ?case
    using ru u v Cons.prems(2) next_turn
    by (subst sched_loop.simps) (auto simp: stop Let_def simp del: if_split split: sum.split option.split if_splits)
qed

text \<open>
  C19. A lease is never given back under a run and never kept. As long as no turn is cancelled from outside while it waits
  for its run, the coordinator can be asked for the lease it granted, the release is not refused, and the release is
  registered as an observer once, every lease that the scheduler takes is used for at most one run and is given back
  after that run has ended, behind the back-off wait of a run that failed, and before the scheduler sleeps until the
  next run; none is held when the loop stops or sleeps. The hooks, the factory, the runs and the other observers may
  raise \<open>Exception\<close>s, and a run may be aborted because its lease was lost.
\<close>

theorem scheduler_lease_discipline:
  assumes "list_all (calm P) ts" "sp_leased P" "filter ((=) ReleaseObserver) (sp_observers P) = [ReleaseObserver]"
  shows "lease_phases Free (sc_trace (snd (sched_run P ts new_sched_state))) = Some Free"
proof -
  have "lease_phase_of (new_sched_state\<lparr>sc_running := True, sc_stop := False\<rparr>) = Some Free"
    by (simp add: lease_phase_of_def new_sched_state_def)
  from sched_loop_phase [OF assms this] show ?thesis by (simp add: sched_run_def lease_phase_of_def)
qed

text \<open>
  A turn that is cancelled while it waits for its run gives the lease back although the run goes on: \<open>asyncio.wait\<close>
  does not cancel what it waits for, and nothing else does.
\<close>

definition demo_scheduled :: "string ScheduledPipeline" where
  "demo_scheduled = \<lparr>sp_schedule = Interval 5, sp_max_errors = 2, sp_backoff = next_delay \<lparr>bo_base = 60, bo_max = 600\<rparr>,
     sp_user_hook = False, sp_leased = True, sp_on_complete = True, sp_observers = [ApplicationObserver, ReleaseObserver, MetricsObserver]\<rparr>"

definition demo_turn :: "string race \<Rightarrow> string turn" where
  "demo_turn x = \<lparr>tn_user_hook = Inr True, tn_acquire = Inr True, tn_lease = Inr (Some 7), tn_build = None, tn_race = x, tn_backoff = None,
     tn_on_complete = None, tn_observers = [], tn_stop = False, tn_cron = Inr 0, tn_wait = None\<rparr>"

lemma cancelled_turn_releases_under_run:
  "sc_trace (snd (sched_run demo_scheduled [demo_turn CancelledMeanwhile] new_sched_state)) = [LeaseAcquired, RunStarted, LeaseReleased]"
  by code_simp

text \<open>When the coordinator cannot be asked for the lease it granted, or the callback is cancelled, the lease is kept.\<close>

lemma lease_kept_after_failed_lookup:
  "sc_trace (snd (sched_run demo_scheduled [(demo_turn (RunReturns ''m''))\<lparr>tn_lease := Inl (mk_exn OSErrorC ''redis'')\<rparr>] new_sched_state)) =
     [LeaseAcquired]"
  by code_simp

lemma lease_kept_after_cancelled_callback:
  "sc_trace (snd (sched_run demo_scheduled [(demo_turn (RunReturns ''m''))\<lparr>tn_on_complete := Some cancelled\<rparr>] new_sched_state)) =
     [LeaseAcquired, RunStarted, RunEnded]"
  by code_simp

text \<open>After a failed run the lease is held while the scheduler waits.\<close>

lemma scheduler_lease_discipline_witness:
  "sc_trace (snd (sched_run demo_scheduled [demo_turn (RunReturns ''m''), demo_turn AbortFirst, demo_turn (RunRaises (mk_exn OSErrorC ''x''))]
     new_sched_state)) =
     [LeaseAcquired, RunStarted, RunEnded, LeaseReleased, Slept 5, LeaseAcquired, RunStarted, RunEnded, LeaseReleased, Slept 5,
      LeaseAcquired, RunStarted, RunEnded, BackedOff 60, LeaseReleased, Slept 5] \<and>
   lease_phases Free (sc_trace (snd (sched_run demo_scheduled [demo_turn (RunReturns ''m''), demo_turn AbortFirst,
     demo_turn (RunRaises (mk_exn OSErrorC ''x''))] new_sched_state))) = Some Free"
proof
  let ?ts = "[demo_turn (RunReturns ''m''), demo_turn AbortFirst, demo_turn (RunRaises (mk_exn OSErrorC ''x''))]"
  have "list_all (calm demo_scheduled) ?ts" by code_simp
  then show "lease_phases Free (sc_trace (snd (sched_run demo_scheduled ?ts new_sched_state))) = Some Free"
    by (rule scheduler_lease_discipline) (simp_all add: demo_scheduled_def)
qed code_simp

section \<open>Failures are counted and end the loop\<close>

lemma same_trace: "\<exists>tr. s = s\<lparr>sc_trace := tr\<rparr>" for s :: "'m ScheduledPipelineState"
  by (rule exI [of _ "sc_trace s"]) simp

lemma notify_observers_frame:
  "\<exists>tr. snd (notify_observers obs rs s) = s\<lparr>sc_trace := tr\<rparr>"
proof (induction obs rs s rule: notify_observers.induct)
  case (2 ob obs s)
  then show ?case by (auto simp: observer_effect_def sc_log_def)
next
  case (3 ob obs r rs s)
  then show ?case using same_trace [of s] by (cases r) (auto simp: observer_effect_def sc_log_def split: if_splits)
qed (simp add: same_trace)

lemma notify_frame: "\<exists>tr. snd (notify_run_complete P t s) = s\<lparr>sc_trace := tr\<rparr>"
  using notify_observers_frame [of "sp_observers P" "tn_observers t" s] same_trace [of s]
  by (auto simp: notify_run_complete_def split: option.split)

definition sched_counts :: "'m ScheduledPipelineState \<Rightarrow> int \<times> int \<times> 'm RunRecord list" where
  "sched_counts s = (sc_consecutive_errors s, sc_run_number s, sc_history s)"

lemma sched_counts_upd [simp]:
  "sched_counts (s\<lparr>sc_trace := tr\<rparr>) = sched_counts s" "sched_counts (sc_log ev s) = sched_counts s"
  "sched_counts (s\<lparr>sc_fence := x\<rparr>) = sched_counts s" "sched_counts (s\<lparr>sc_stop := b\<rparr>) = sched_counts s"
  "sched_counts (s\<lparr>sc_running := b\<rparr>) = sched_counts s" "sched_counts (s\<lparr>sc_abort := b\<rparr>) = sched_counts s"
  by (simp_all add: sched_counts_def sc_log_def)

lemma pre_run_hook_counts: "sched_counts (snd (pre_run_hook P t s)) = sched_counts s"
  by (simp add: pre_run_hook_def Let_def split: sum.split bool.split)

lemma try_run_counts:
  "try_run P t s = (r, rec, u) \<Longrightarrow> sc_consecutive_errors u \<in> {0, sc_consecutive_errors s, sc_consecutive_errors s + 1} \<and>
     sc_run_number u = sc_run_number s \<and> sc_history u = sc_history s"
  by (auto simp: try_run_def run_with_abort_def handle_run_failure_def Let_def sc_log_def
      split: option.splits race.splits if_splits sum.splits prod.splits)

lemma length_push_history: "length (push_history x h) = min (length h + 1) (max 100 (length h))"
  by (auto simp: push_history_def Let_def)

lemma run_once_counts:
  assumes "run_once P t s = (r, u)"
  shows "(sc_consecutive_errors u \<in> {0, sc_consecutive_errors s, sc_consecutive_errors s + 1} \<and>
      sc_run_number u = sc_run_number s + 1 \<and> (\<exists>rec. sc_history u = push_history rec (sc_history s))) \<or>
    sched_counts u = sched_counts s"
proof -
  obtain h s1 where hook: "(if sp_user_hook P \<or> sp_leased P then pre_run_hook P t s else (Inr True, s)) = (h, s1)"
    by (meson surj_pair)
  have s1: "sched_counts s1 = sched_counts s"
    using pre_run_hook_counts [of P t s] hook by (auto split: if_splits)
  show ?thesis
  proof (cases "h = Inr True")
    case False
    with assms hook s1 show ?thesis by (auto simp: run_once_def split: sum.splits bool.splits)
  next
    case True
    let ?s2 = "s1\<lparr>sc_run_number := sc_run_number s1 + 1, sc_abort := False\<rparr>"
    obtain q rec s3 where q: "try_run P t ?s2 = (q, rec, s3)" by (metis surj_pair)
    from notify_frame obtain tr where n: "snd (notify_run_complete P t (s3\<lparr>sc_history := push_history rec (sc_history s3)\<rparr>)) =
        s3\<lparr>sc_history := push_history rec (sc_history s3), sc_trace := tr\<rparr>" by metis
    have "sc_consecutive_errors u = sc_consecutive_errors s3 \<and> sc_run_number u = sc_run_number s3 \<and>
        sc_history u = push_history rec (sc_history s3)"
      using assms hook True q n by (auto simp: run_once_def split: sum.splits prod.splits)
    with try_run_counts [OF q] s1 show ?thesis by (auto simp: sched_counts_def)
  qed
qed

definition within_limits :: "'m ScheduledPipeline \<Rightarrow> 'm ScheduledPipelineState \<Rightarrow> bool" where
  "within_limits P s \<longleftrightarrow> 0 \<le> sc_consecutive_errors s \<and> sc_consecutive_errors s \<le> max 1 (sp_max_errors P) \<and>
     length (sc_history s) \<le> 100 \<and> int (length (sc_history s)) \<le> sc_run_number s"

lemma run_once_limits:
  assumes "within_limits P s" "sc_consecutive_errors s < max 1 (sp_max_errors P)" "run_once P t s = (r, u)"
  shows "within_limits P u"
  using run_once_counts [OF assms(3)] assms(1,2)
  by (auto simp: within_limits_def sched_counts_def length_push_history)

lemma within_limits_cong: "sched_counts s = sched_counts t \<Longrightarrow> within_limits P s = within_limits P t"
  by (simp add: within_limits_def sched_counts_def)

lemma sched_loop_limits:
  "within_limits P s \<Longrightarrow> sc_consecutive_errors s < max 1 (sp_max_errors P) \<Longrightarrow> within_limits P (snd (sched_loop P ts s))"
proof (induction ts arbitrary: s)
  case Nil
  then show ?case by (simp add: sched_loop.simps stop_loop_def within_limits_def)
next
  case (Cons t ts)
  obtain r u where ru: "run_once P t s = (r, u)" by (meson surj_pair)
  have u: "within_limits P u" by (rule run_once_limits [OF Cons.prems ru])
  have stop: "within_limits P (snd (stop_loop q w)) = within_limits P w" for q and w :: "'a ScheduledPipelineState"
    by (simp add: stop_loop_def within_limits_def)
  let ?v = "if tn_stop t then u\<lparr>sc_stop := True\<rparr> else u"
  have v: "within_limits P ?v" using u by (simp add: within_limits_def)
  have go_on: "within_limits P (snd (sched_loop P ts (sc_log (Slept d) ?v)))" if "should_continue P ?v" for d
    using v that by (intro Cons.IH) (auto simp: within_limits_def should_continue_def sc_log_def)
  show ?case
    using ru u v go_on Cons.prems(1)
    by (subst sched_loop.simps) (auto simp: stop Let_def simp del: if_split split: sum.split option.split if_splits)
qed

text \<open>
  Whatever happens in the turns, the streak of failures that the scheduler counts never exceeds the
  configured maximum (at least 1), its history keeps at most 100 runs, and no more than were started.
\<close>

theorem scheduler_within_limits:
  "within_limits P (snd (sched_run P ts new_sched_state))"
  unfolding sched_run_def
  by (rule sched_loop_limits) (simp_all add: within_limits_def new_sched_state_def)

text \<open>A turn whose run is started and fails with an ordinary exception, with nothing else going wrong.\<close>

definition counted_failure :: "exn \<Rightarrow> bool" where
  "counted_failure e \<longleftrightarrow> is_Exception e \<and> e \<noteq> lease_lost"

definition failing_turn :: "'m ScheduledPipeline \<Rightarrow> 'm turn \<Rightarrow> bool" where
  "failing_turn P t \<longleftrightarrow> calm P t \<and> (\<not> sp_user_hook P \<or> tn_user_hook t = Inr True) \<and> (\<not> sp_leased P \<or> tn_acquire t = Inr True) \<and>
     (case tn_build t of Some e \<Rightarrow> counted_failure e
      | None \<Rightarrow> (case tn_race t of RunRaises e \<Rightarrow> counted_failure e | _ \<Rightarrow> False)) \<and>
     tn_backoff t = None \<and> \<not> tn_stop t \<and> tn_wait t = None \<and>
     (case wait_until_next (sp_schedule P) (tn_cron t) of Inl _ \<Rightarrow> False | Inr _ \<Rightarrow> True)"

lemma notify_returns:
  assumes "calm P t"
  shows "\<exists>tr. notify_run_complete P t s = (Inr (), s\<lparr>sc_trace := tr\<rparr>)"
  using assms notify_observers_calm [of "tn_observers t" "sp_observers P" s]
  by (auto simp: notify_run_complete_def calm_def harmless_def split: option.split)

definition control :: "'m ScheduledPipelineState \<Rightarrow> int \<times> int \<times> bool" where
  "control s = (sc_consecutive_errors s, sc_run_number s, sc_stop s)"

lemma pre_run_hook_passes:
  assumes "failing_turn P t" "sp_user_hook P \<or> sp_leased P"
  shows "\<exists>u. pre_run_hook P t s = (Inr True, u) \<and> control u = control s"
  using assms by (auto simp: pre_run_hook_def failing_turn_def calm_def control_def sc_log_def Let_def split: sum.splits)

lemma try_run_failing:
  assumes "failing_turn P t" "sp_backoff P (sc_consecutive_errors s + 1) = Inr w"
  shows "\<exists>rec u. try_run P t s = (Inr (), rec, u) \<and>
    control u = (sc_consecutive_errors s + 1, sc_run_number s, sc_stop s)"
proof -
  have "\<exists>e v. (case tn_build t of Some e \<Rightarrow> (Inl e, s) | None \<Rightarrow> run_with_abort t s) = (Inl e, v) \<and> counted_failure e \<and> control v = control s"
    using assms(1)
    by (auto simp: failing_turn_def run_with_abort_def control_def sc_log_def Let_def split: option.splits race.splits)
  then obtain e v where ev: "(case tn_build t of Some e \<Rightarrow> (Inl e, s) | None \<Rightarrow> run_with_abort t s) = (Inl e, v)"
    "counted_failure e" "control v = control s" by blast
  then have "\<not> isinstance e CancelledErrorC" "is_Exception e" "e \<noteq> lease_lost"
    using cancelled_not_Exception by (auto simp: counted_failure_def)
  with ev assms show ?thesis
    by (auto simp: try_run_def Let_def handle_run_failure_def control_def failing_turn_def sc_log_def)
qed

lemma run_once_failing:
  assumes "failing_turn P t" "sp_backoff P (sc_consecutive_errors s + 1) = Inr w"
  shows "\<exists>u. run_once P t s = (Inr True, u) \<and> control u = (sc_consecutive_errors s + 1, sc_run_number s + 1, sc_stop s)"
proof -
  obtain s1 where s1: "(if sp_user_hook P \<or> sp_leased P then pre_run_hook P t s else (Inr True, s)) = (Inr True, s1)"
    "control s1 = control s"
    using pre_run_hook_passes [OF assms(1)] by (cases "sp_user_hook P \<or> sp_leased P") auto
  let ?s2 = "s1\<lparr>sc_run_number := sc_run_number s1 + 1, sc_abort := False\<rparr>"
  have "sp_backoff P (sc_consecutive_errors ?s2 + 1) = Inr w" using s1(2) assms(2) by (simp add: control_def)
  from try_run_failing [OF assms(1) this] obtain rec s3 where s3: "try_run P t ?s2 = (Inr (), rec, s3)"
    "control s3 = (sc_consecutive_errors ?s2 + 1, sc_run_number ?s2, sc_stop ?s2)" by blast
  from notify_returns obtain tr where
    "notify_run_complete P t (s3\<lparr>sc_history := push_history rec (sc_history s3)\<rparr>) =
      (Inr (), s3\<lparr>sc_history := push_history rec (sc_history s3), sc_trace := tr\<rparr>)"
    using assms(1) by (fastforce simp: failing_turn_def)
  with s1 s3 show ?thesis by (simp add: run_once_def control_def)
qed

text \<open>
  A pipeline that keeps failing is given up. When every turn's run fails with an ordinary exception, a
  repeating scheduler returns after exactly the configured number of runs, however long it would be left to go on.
\<close>

theorem scheduler_gives_up:
  assumes "list_all (failing_turn P) ts" "should_repeat (sp_schedule P)" "sp_backoff P = next_delay Q"
    and "1 \<le> sp_max_errors P" "sp_max_errors P \<le> 1024" "sp_max_errors P \<le> int (length ts)"
  shows "\<exists>s. sched_run P ts new_sched_state = (Stopped None, s) \<and> sc_run_number s = sp_max_errors P"
proof -
  have loop: "\<exists>u. sched_loop P ts s = (Stopped None, u) \<and> sc_run_number u = sp_max_errors P"
    if "list_all (failing_turn P) ts" "control s = (n, n, False)" "0 \<le> n" "n < sp_max_errors P" "sp_max_errors P \<le> n + int (length ts)" for n s
    using that
  proof (induction ts arbitrary: s n)
    case (Cons t ts)
    have "\<exists>w. sp_backoff P (n + 1) = Inr w" using assms(3,5) Cons.prems by (auto simp: next_delay_def)
    then obtain u where u: "run_once P t s = (Inr True, u)" "control u = (n + 1, n + 1, False)"
      using run_once_failing [of P t s] Cons.prems(1,2) by (auto simp: control_def)
    from Cons.prems(1) obtain w where w: "wait_until_next (sp_schedule P) (tn_cron t) = Inr w" "\<not> tn_stop t" "tn_wait t = None"
      by (auto simp: failing_turn_def split: sum.splits)
    show ?case
    proof (cases "n + 1 < sp_max_errors P")
      case False
      with u w assms(2) Cons.prems(2,4) show ?thesis
        by (subst sched_loop.simps) (simp add: control_def should_continue_def stop_loop_def)
    next
      case True
      have "control (sc_log (Slept w) u) = (n + 1, n + 1, False)" using u(2) by (simp add: control_def sc_log_def)
      from Cons.IH [OF _ this] True Cons.prems obtain v where
        "sched_loop P ts (sc_log (Slept w) u) = (Stopped None, v)" "sc_run_number v = sp_max_errors P" by auto
      with u w True assms(2) Cons.prems(2) show ?thesis
        by (subst sched_loop.simps) (simp add: control_def should_continue_def)
    qed
  qed simp
  have "control (new_sched_state\<lparr>sc_running := True, sc_stop := False\<rparr>) = (0, 0, False)"
    by (simp add: control_def new_sched_state_def)
  from loop [OF assms(1) this] assms(4-6) show ?thesis by (simp add: sched_run_def)
qed

lemma scheduler_gives_up_witness:
  "let ts = replicate 3 (demo_turn (RunRaises (mk_exn OSErrorC ''x'')))
   in \<exists>s. sched_run demo_scheduled ts new_sched_state = (Stopped None, s) \<and> sc_run_number s = 2"
proof -
  let ?ts = "replicate 3 (demo_turn (RunRaises (mk_exn OSErrorC ''x'')))"
  have "list_all (failing_turn demo_scheduled) ?ts" by code_simp
  from scheduler_gives_up [OF this, of "\<lparr>bo_base = 60, bo_max = 600\<rparr>"] show ?thesis
    by (simp add: demo_scheduled_def should_repeat_def)
qed

text \<open>\<open>stop()\<close> before \<open>start()\<close> is forgotten.\<close>

lemma stop_before_start_is_lost: "sched_run P ts (sched_stop s) = sched_run P ts s"
  by (simp add: sched_run_def sched_stop_def)

text \<open>A schedule that runs once does not run at all when its first attempt is skipped.\<close>

lemma once_skipped_never_runs:
  "sched_run (demo_scheduled\<lparr>sp_schedule := Once\<rparr>) [(demo_turn (RunReturns ''m''))\<lparr>tn_acquire := Inr False\<rparr>] new_sched_state =
     (Stopped None, new_sched_state)"
  by code_simp

text \<open>An exception of a hook ends the scheduler instead of counting as a failure.\<close>

lemma hook_exception_ends_scheduler:
  "fst (sched_run demo_scheduled [(demo_turn (RunReturns ''m''))\<lparr>tn_acquire := Inl (mk_exn OSErrorC ''redis'')\<rparr>] new_sched_state) =
     Stopped (Some (mk_exn OSErrorC ''redis''))"
  by code_simp

end
