(* ===== verification/Worker_Pool.thy ===== *)
theory Worker_Pool
  imports Runner
begin

text \<open>
  \<open>WorkerPool\<close> of \<^verbatim>\<open>runner/worker.py\<close>: registration, the loop that waits for the tasks of the pipelines, of the
  health server and for the shutdown signal, and the ways in which it ends.

  A turn of the loop is what \<open>asyncio.wait\<close> reports, or a cancellation of the pool. The waits inside \<open>_graceful_stop\<close>,
  \<open>_force_cancel\<close> and at the end of all pipelines can be cancelled too; how each of them goes is a list in the state. What a pipeline's task came to is
  looked up by its position. \<open>wp_trace\<close> records the calls on the coordinator and what happens to the tasks; the code
  does not read it. Signal handlers, the wiring of metrics and logging are left out; the lease hooks are part of
  the scheduler's model.
\<close>

section \<open>Registration\<close>

text \<open>A pipeline is an object with an identity and a \<open>pipeline_id\<close>.\<close>

definition register :: "nat \<times> string \<Rightarrow> (nat \<times> string) list \<Rightarrow> exn + (nat \<times> string) list" where
  "register p ps =
     (if fst p \<in> set (map fst ps) then Inl (mk_exn ValueErrorC ''already registered'')
      else if snd p \<in> set (map snd ps) then Inl (mk_exn ValueErrorC ''pipeline_id already registered'')
      else Inr (ps @ [p]))"

fun register_all :: "(nat \<times> string) list \<Rightarrow> (nat \<times> string) list \<Rightarrow> (nat \<times> string) list" where
  "register_all [] ps = ps"
| "register_all (p # qs) ps = (case register p ps of Inl _ \<Rightarrow> register_all qs ps | Inr ps' \<Rightarrow> register_all qs ps')"

lemma registered_distinct:
  "distinct (map snd ps) \<Longrightarrow> distinct (map fst ps) \<Longrightarrow>
     distinct (map snd (register_all qs ps)) \<and> distinct (map fst (register_all qs ps))"
proof (induction qs arbitrary: ps)
  case (Cons p qs)
  then show ?case by (cases "register p ps") (auto simp: register_def split: if_splits)
qed simp

section \<open>The pool\<close>

text \<open>How the task of a pipeline ended: cancelled, by an exception, or normally with the error of its last run, if any.\<close>

datatype task_end = TaskCancelled | TaskRaised exn | TaskReturned "exn option"

datatype health_end = HealthCancelled | HealthRaised exn | HealthReturned

datatype pool_turn = PoolCancelled | Completed "nat list" "health_end option" bool

datatype pool_event = CoordinatorStarted | TasksStarted | StopSignalled | TasksEnded | CoordinatorStopped

datatype wait_end = WaitOver | WaitTimedOut | WaitCancelled

record pool_input =
  pi_pipelines :: nat
  pi_health :: bool
  pi_coordinator :: bool
  pi_start :: "exn option"
  pi_setup :: "exn option"
  pi_task :: "nat \<Rightarrow> task_end"
  pi_turns :: "pool_turn list"

text \<open>The pool's state: how its waits will go and what \<open>coordinator.stop()\<close> will raise, call by call, and the trace.\<close>

record pool_state =
  wp_waits :: "wait_end list"
  wp_stops :: "exn option list"
  wp_trace :: "pool_event list"

definition wp_log :: "pool_event \<Rightarrow> pool_state \<Rightarrow> pool_state" where
  "wp_log ev s = s\<lparr>wp_trace := wp_trace s @ [ev]\<rparr>"

definition coordinator_stop :: "pool_input \<Rightarrow> pool_state \<Rightarrow> (exn + unit) \<times> pool_state" where
  "coordinator_stop I s =
     (if \<not> pi_coordinator I then (Inr (), s)
      else let s' = wp_log CoordinatorStopped s in
        (case wp_stops s of
           [] \<Rightarrow> (Inr (), s')
         | r # rs \<Rightarrow> (case r of None \<Rightarrow> (Inr (), s'\<lparr>wp_stops := rs\<rparr>) | Some e \<Rightarrow> (Inl e, s'\<lparr>wp_stops := rs\<rparr>))))"

text \<open>\<open>with suppress(Exception): await self._coordinator.stop()\<close>\<close>

definition coordinator_stop_quietly :: "pool_input \<Rightarrow> pool_state \<Rightarrow> (exn + unit) \<times> pool_state" where
  "coordinator_stop_quietly I s = (case coordinator_stop I s of
     (Inl e, s) \<Rightarrow> (if is_Exception e then Inr () else Inl e, s)
   | (Inr _, s) \<Rightarrow> (Inr (), s))"

definition next_wait :: "pool_state \<Rightarrow> wait_end \<times> pool_state" where
  "next_wait s = (case wp_waits s of [] \<Rightarrow> (WaitOver, s) | w # ws \<Rightarrow> (w, s\<lparr>wp_waits := ws\<rparr>))"

text \<open>\<open>await asyncio.gather(*tasks, return_exceptions=True)\<close>, which has no timeout: the tasks have ended, or the pool is cancelled.\<close>

definition gather_tasks :: "(pool_state \<Rightarrow> (exn + unit) \<times> pool_state) \<Rightarrow> pool_state \<Rightarrow> (exn + unit) \<times> pool_state" where
  "gather_tasks k s = (case next_wait s of (w, s) \<Rightarrow>
     if w = WaitCancelled then (Inl cancelled, s) else k (wp_log TasksEnded s))"

text \<open>
  \<open>_graceful_stop\<close>: the pipelines and the health server are told to stop. It waits for the tasks, cancels those that are left
  at the timeout and waits for these.
\<close>

definition graceful_stop :: "pool_input \<Rightarrow> pool_state \<Rightarrow> (exn + unit) \<times> pool_state" where
  "graceful_stop I s = (case next_wait (wp_log StopSignalled s) of (w, s) \<Rightarrow>
     (case w of
        WaitOver \<Rightarrow> coordinator_stop I (wp_log TasksEnded s)
      | WaitTimedOut \<Rightarrow> gather_tasks (coordinator_stop I) s
      | WaitCancelled \<Rightarrow> (Inl cancelled, s)))"

text \<open>\<open>_force_cancel\<close>; with no tasks the \<open>gather\<close> does not wait.\<close>

definition force_cancel :: "pool_input \<Rightarrow> bool \<Rightarrow> pool_state \<Rightarrow> (exn + unit) \<times> pool_state" where
  "force_cancel I has_tasks s =
     (if has_tasks then gather_tasks (coordinator_stop_quietly I) s else coordinator_stop_quietly I (wp_log TasksEnded s))"

text \<open>What \<open>run\<close> does when all pipelines have ended.\<close>

definition pipelines_complete :: "pool_input \<Rightarrow> pool_state \<Rightarrow> (exn + unit) \<times> pool_state" where
  "pipelines_complete I s =
     (if pi_health I then gather_tasks (coordinator_stop I) s else coordinator_stop I (wp_log TasksEnded s))"

text \<open>\<open>_terminal_pipeline_error\<close>: the first, in the order of registration, of the pipelines that have just ended.\<close>

fun first_task_error :: "pool_input \<Rightarrow> nat list \<Rightarrow> nat list \<Rightarrow> exn option" where
  "first_task_error I completed [] = None"
| "first_task_error I completed (i # is) =
     (if i \<notin> set completed then first_task_error I completed is
      else case pi_task I i of
        TaskCancelled \<Rightarrow> first_task_error I completed is
      | TaskRaised e \<Rightarrow> Some e
      | TaskReturned (Some e) \<Rightarrow> Some e
      | TaskReturned None \<Rightarrow> first_task_error I completed is)"

definition terminal_pipeline_error :: "pool_input \<Rightarrow> nat list \<Rightarrow> exn option" where
  "terminal_pipeline_error I completed = first_task_error I completed [0..<pi_pipelines I]"

definition health_error :: "health_end \<Rightarrow> exn" where
  "health_error h = (case h of HealthRaised e \<Rightarrow> e | _ \<Rightarrow> mk_exn RuntimeErrorC ''Health server stopped unexpectedly'')"

text \<open>The loop, up to the exception that leaves the \<open>try\<close> block.\<close>

datatype pool_outcome = Ended "exn option" | Waiting

definition after_stop :: "(exn + unit) \<times> pool_state \<Rightarrow> exn option \<Rightarrow> pool_outcome \<times> pool_state" where
  "after_stop r e = (case r of (Inl e', s) \<Rightarrow> (Ended (Some e'), s) | (Inr _, s) \<Rightarrow> (Ended e, s))"

fun pool_loop :: "pool_input \<Rightarrow> nat list \<Rightarrow> pool_turn list \<Rightarrow> pool_state \<Rightarrow> pool_outcome \<times> pool_state" where
  "pool_loop I finished [] s = (Waiting, s)"
| "pool_loop I finished (PoolCancelled # ts) s = (Ended (Some cancelled), s)"
| "pool_loop I finished (Completed now health shutdown # ts) s =
     (let finished = finished @ now in
      if shutdown then after_stop (graceful_stop I s) None
      else case health of
        Some h \<Rightarrow> after_stop (graceful_stop I s) (Some (health_error h))
      | None \<Rightarrow>
          (case terminal_pipeline_error I now of
             Some e \<Rightarrow> after_stop (graceful_stop I s) (Some e)
           | None \<Rightarrow>
               if list_all (\<lambda>i. i \<in> set finished) [0..<pi_pipelines I]
               then after_stop (pipelines_complete I s) None
               else pool_loop I finished ts s))"

text \<open>The \<open>except\<close> clauses of \<open>run\<close>.\<close>

definition pool_handle :: "pool_input \<Rightarrow> bool \<Rightarrow> bool \<Rightarrow> exn \<Rightarrow> pool_state \<Rightarrow> pool_outcome \<times> pool_state" where
  "pool_handle I has_tasks started e s =
     (if isinstance e CancelledErrorC then after_stop (force_cancel I has_tasks s) None
      else if is_Exception e
      then (if has_tasks then after_stop (force_cancel I True s) (Some e)
            else if started then after_stop (coordinator_stop_quietly I s) (Some e)
            else (Ended (Some e), s))
      else (Ended (Some e), s))"

definition pool_run :: "pool_input \<Rightarrow> pool_state \<Rightarrow> pool_outcome \<times> pool_state" where
  "pool_run I s =
     (if pi_pipelines I = 0 then (Ended None, s)
      else case (if pi_coordinator I then pi_start I else None) of
        Some e \<Rightarrow> pool_handle I False False e s
      | None \<Rightarrow>
          let s = (if pi_coordinator I then wp_log CoordinatorStarted s else s) in
          (case pi_setup I of
             Some e \<Rightarrow> pool_handle I False (pi_coordinator I) e s
           | None \<Rightarrow>
               (case pool_loop I [] (pi_turns I) (wp_log TasksStarted s) of
                  (Ended (Some e), s) \<Rightarrow> pool_handle I True (pi_coordinator I) e s
                | r \<Rightarrow> r)))"

section \<open>The coordinator is stopped, and only when no task is left\<close>

datatype pool_phase = NotStarted | Started | Working | Idle | Released

fun pool_step :: "pool_phase \<Rightarrow> pool_event \<Rightarrow> pool_phase option" where
  "pool_step NotStarted CoordinatorStarted = Some Started"
| "pool_step Started TasksStarted = Some Working"
| "pool_step Started TasksEnded = Some Idle"
| "pool_step Started CoordinatorStopped = Some Released"
| "pool_step Working StopSignalled = Some Working"
| "pool_step Working TasksEnded = Some Idle"
| "pool_step Idle CoordinatorStopped = Some Released"
| "pool_step Released TasksEnded = Some Released"
| "pool_step Released CoordinatorStopped = Some Released"
| "pool_step _ _ = None"

fun pool_phases :: "pool_phase \<Rightarrow> pool_event list \<Rightarrow> pool_phase option" where
  "pool_phases p [] = Some p"
| "pool_phases p (ev # evs) = (case pool_step p ev of None \<Rightarrow> None | Some q \<Rightarrow> pool_phases q evs)"

lemma pool_phases_append:
  "pool_phases p (xs @ ys) = (case pool_phases p xs of None \<Rightarrow> None | Some q \<Rightarrow> pool_phases q ys)"
  by (induction xs arbitrary: p) (auto split: option.split)

definition pool_phase_of :: "pool_state \<Rightarrow> pool_phase option" where
  "pool_phase_of s = pool_phases NotStarted (wp_trace s)"

lemma pool_phase_log: "pool_phase_of s = Some p \<Longrightarrow> pool_phase_of (wp_log ev s) = pool_step p ev"
  by (simp add: pool_phase_of_def wp_log_def pool_phases_append split: option.split)

text \<open>Exceptions other than those that end the interpreter.\<close>

definition catchable :: "exn \<Rightarrow> bool" where
  "catchable e \<longleftrightarrow> is_Exception e \<or> isinstance e CancelledErrorC"

definition ordinary_task :: "task_end \<Rightarrow> bool" where
  "ordinary_task t = (case t of TaskCancelled \<Rightarrow> True | TaskRaised e \<Rightarrow> catchable e
     | TaskReturned r \<Rightarrow> (case r of None \<Rightarrow> True | Some e \<Rightarrow> catchable e))"

definition ordinary_turn :: "pool_turn \<Rightarrow> bool" where
  "ordinary_turn t = (case t of Completed _ (Some (HealthRaised e)) _ \<Rightarrow> catchable e | _ \<Rightarrow> True)"

definition cancels :: "pool_state \<Rightarrow> nat" where
  "cancels s = length (filter (\<lambda>w. w = WaitCancelled) (wp_waits s))"

lemma cancels_log [simp]: "cancels (wp_log ev s) = cancels s" "wp_stops (wp_log ev s) = wp_stops s"
  by (simp_all add: cancels_def wp_log_def)

lemma next_wait_props:
  assumes "next_wait s = (w, u)"
  shows "pool_phase_of u = pool_phase_of s" "wp_stops u = wp_stops s" "cancels s = cancels u + of_bool (w = WaitCancelled)"
  using assms by (auto simp: next_wait_def cancels_def pool_phase_of_def split: list.splits)

lemma coordinator_stop_phase:
  assumes "coordinator_stop I s = (r, u)" "pool_phase_of s = Some p" "p \<in> {Started, Idle, Released}" "pi_coordinator I"
    and "list_all harmless (wp_stops s)"
  shows "pool_phase_of u = Some Released \<and> list_all harmless (wp_stops u) \<and> (\<forall>e. r = Inl e \<longrightarrow> is_Exception e)"
  using assms pool_phase_log [OF assms(2), of CoordinatorStopped]
  by (auto simp: coordinator_stop_def pool_phase_of_def wp_log_def harmless_def Let_def split: list.splits option.splits)

lemma quietly_phase:
  assumes "coordinator_stop_quietly I s = (r, u)" "pool_phase_of s = Some p" "p \<in> {Started, Idle, Released}" "pi_coordinator I"
    and "list_all harmless (wp_stops s)"
  shows "r = Inr () \<and> pool_phase_of u = Some Released"
proof -
  obtain q v where q: "coordinator_stop I s = (q, v)" by (meson surj_pair)
  from coordinator_stop_phase [OF q assms(2-5)] q assms(1) show ?thesis
    by (cases q) (auto simp: coordinator_stop_quietly_def)
qed

text \<open>A forced stop releases the coordinator unless it is cancelled while the tasks are running.\<close>

lemma force_cancel_phase:
  assumes "force_cancel I has_tasks s = (r, u)" "pool_phase_of s = Some p" "p \<noteq> NotStarted" "p \<noteq> Idle" "pi_coordinator I"
    and "list_all harmless (wp_stops s)" "p = Released \<or> \<not> has_tasks \<or> cancels s = 0"
  shows "pool_phase_of u = Some Released"
proof -
  have stop: "pool_phase_of u' = Some Released"
    if "coordinator_stop_quietly I (wp_log TasksEnded v) = (r', u')" "pool_phase_of v = pool_phase_of s" "wp_stops v = wp_stops s" for v r' u'
  proof -
    have "pool_phase_of (wp_log TasksEnded v) = pool_step p TasksEnded" by (rule pool_phase_log) (simp add: that assms(2))
    then obtain q where "pool_phase_of (wp_log TasksEnded v) = Some q" "q \<in> {Started, Idle, Released}"
      using assms(3,4) by (cases p) auto
    from quietly_phase [OF that(1) this assms(5)] that(3) assms(6) show ?thesis by simp
  qed
  obtain w v where w: "next_wait s = (w, v)" by (meson surj_pair)
  note v = next_wait_props [OF w]
  show ?thesis
  proof (cases "has_tasks \<and> w = WaitCancelled")
    case True
    with v(3) assms(7) have "p = Released" by auto
    with True assms(1,2) w v(1) show ?thesis by (simp add: force_cancel_def gather_tasks_def)
  next
    case False
    with assms(1) w stop [OF _ v(1,2)] stop [of s] show ?thesis
      by (cases has_tasks) (simp_all add: force_cancel_def gather_tasks_def)
  qed
qed

text \<open>An orderly stop releases the coordinator, or was cancelled, which uses up a cancellation.\<close>

definition stopped_or_cancelled :: "pool_state \<Rightarrow> exn + unit \<Rightarrow> pool_state \<Rightarrow> bool" where
  "stopped_or_cancelled s r u \<longleftrightarrow> list_all harmless (wp_stops u) \<and>
     (pool_phase_of u = Some Released \<and> (\<forall>e. r = Inl e \<longrightarrow> is_Exception e) \<or>
      pool_phase_of u = Some Working \<and> r = Inl cancelled \<and> cancels u < cancels s)"

lemma stop_after_tasks:
  assumes "pool_phase_of s = Some Working" "pi_coordinator I" "list_all harmless (wp_stops s)"
    and "coordinator_stop I (wp_log TasksEnded s) = (r, u)"
  shows "stopped_or_cancelled v r u"
proof -
  have "pool_phase_of (wp_log TasksEnded s) = Some Idle" using pool_phase_log [OF assms(1), of TasksEnded] by simp
  from coordinator_stop_phase [OF assms(4) this _ assms(2)] assms(3) show ?thesis by (simp add: stopped_or_cancelled_def)
qed

lemma gather_phase:
  assumes "pool_phase_of s = Some Working" "pi_coordinator I" "list_all harmless (wp_stops s)"
    and "gather_tasks (coordinator_stop I) s = (r, u)" "cancels s \<le> cancels v"
  shows "stopped_or_cancelled v r u"
proof -
  obtain w x where w: "next_wait s = (w, x)" by (meson surj_pair)
  note x = next_wait_props [OF w]
  show ?thesis
  proof (cases "w = WaitCancelled")
    case True
    with assms w x show ?thesis by (auto simp: gather_tasks_def stopped_or_cancelled_def)
  next
    case False
    with assms(4) w have "coordinator_stop I (wp_log TasksEnded x) = (r, u)" by (simp add: gather_tasks_def)
    then show ?thesis by (rule stop_after_tasks [rotated 3]) (simp_all add: x assms)
  qed
qed

lemma graceful_stop_phase:
  assumes "pool_phase_of s = Some Working" "pi_coordinator I" "list_all harmless (wp_stops s)" "graceful_stop I s = (r, u)"
  shows "stopped_or_cancelled s r u"
proof -
  have working: "pool_phase_of (wp_log StopSignalled s) = Some Working" using pool_phase_log [OF assms(1), of StopSignalled] by simp
  obtain w x where w: "next_wait (wp_log StopSignalled s) = (w, x)" by (meson surj_pair)
  note x = next_wait_props [OF w]
  show ?thesis
  proof (cases w)
    case WaitOver
    with assms(4) w have "coordinator_stop I (wp_log TasksEnded x) = (r, u)" by (simp add: graceful_stop_def)
    then show ?thesis by (rule stop_after_tasks [rotated 3]) (simp_all add: x working assms)
  next
    case WaitTimedOut
    with assms(4) w have "gather_tasks (coordinator_stop I) x = (r, u)" by (simp add: graceful_stop_def)
    then show ?thesis by (rule gather_phase [rotated 3]) (use x WaitTimedOut in \<open>simp_all add: working assms\<close>)
  next
    case WaitCancelled
    with assms w x working show ?thesis by (auto simp: graceful_stop_def stopped_or_cancelled_def)
  qed
qed

lemma complete_phase:
  assumes "pool_phase_of s = Some Working" "pi_coordinator I" "list_all harmless (wp_stops s)" "pipelines_complete I s = (r, u)"
  shows "stopped_or_cancelled s r u"
  using assms stop_after_tasks [OF assms(1-3)] gather_phase [OF assms(1-3)]
  by (cases "pi_health I") (simp_all add: pipelines_complete_def)

lemma first_task_error_catchable:
  "first_task_error I completed is = Some e \<Longrightarrow> list_all (\<lambda>i. ordinary_task (pi_task I i)) is \<Longrightarrow> catchable e"
  by (induction I completed "is" rule: first_task_error.induct)
    (auto simp: ordinary_task_def split: if_splits task_end.splits option.splits)

text \<open>How the loop ends: with the coordinator stopped, or by the one cancellation while the tasks are running.\<close>

definition loop_end :: "exn option \<Rightarrow> pool_state \<Rightarrow> bool" where
  "loop_end x u \<longleftrightarrow> list_all harmless (wp_stops u) \<and> (\<forall>e. x = Some e \<longrightarrow> catchable e) \<and>
     (pool_phase_of u = Some Released \<or> pool_phase_of u = Some Working \<and> x = Some cancelled \<and> cancels u = 0)"

lemma after_stop_ends:
  assumes "after_stop (r, v) e = (Ended x, u)" "stopped_or_cancelled s r v" "cancels s \<le> 1" "\<forall>e'. e = Some e' \<longrightarrow> catchable e'"
  shows "loop_end x u"
  using assms
  by (cases r) (auto simp: after_stop_def loop_end_def stopped_or_cancelled_def catchable_def cancelled_def isinstance_def mk_exn_def)

lemma pool_loop_ends:
  assumes "pool_loop I finished ts s = (Ended x, u)" "pool_phase_of s = Some Working" "pi_coordinator I"
    and "list_all harmless (wp_stops s)" "list_all ordinary_turn ts" "list_all (\<lambda>i. ordinary_task (pi_task I i)) [0..<pi_pipelines I]"
    and "cancels s + of_bool (PoolCancelled \<in> set ts) \<le> 1"
  shows "loop_end x u"
  using assms(1,5,7)
proof (induction ts arbitrary: finished)
  case (Cons t ts)
  show ?case
  proof (cases t)
    case PoolCancelled
    with Cons.prems assms(2,4) show ?thesis
      by (auto simp: loop_end_def catchable_def cancelled_def isinstance_def mk_exn_def)
  next
    case (Completed now health shutdown)
    have one: "cancels s \<le> 1" using Cons.prems(3) by simp
    have graceful: "stopped_or_cancelled s (fst (graceful_stop I s)) (snd (graceful_stop I s))"
      by (rule graceful_stop_phase [OF assms(2-4)]) simp
    have finish: "stopped_or_cancelled s (fst (pipelines_complete I s)) (snd (pipelines_complete I s))"
      by (rule complete_phase [OF assms(2-4)]) simp
    have h: "catchable (health_error h)" if "health = Some h" for h
      using that Cons.prems(2) Completed
      by (cases h) (auto simp: health_error_def ordinary_turn_def catchable_def is_Exception_def isinstance_def mk_exn_def)
    have task: "catchable e" if "terminal_pipeline_error I now = Some e" for e
      using that first_task_error_catchable assms(6) unfolding terminal_pipeline_error_def by blast
    have stop: "loop_end x u" if "after_stop (graceful_stop I s) e = (Ended x, u)" "\<forall>e'. e = Some e' \<longrightarrow> catchable e'" for e
      using after_stop_ends [of "fst (graceful_stop I s)" "snd (graceful_stop I s)" e x u] that graceful one by simp
    have last: "loop_end x u" if "after_stop (pipelines_complete I s) None = (Ended x, u)"
      using after_stop_ends [of "fst (pipelines_complete I s)" "snd (pipelines_complete I s)" None x u] that finish one by simp
    show ?thesis
      using Cons Completed stop [of None] stop [of "Some (health_error (the health))"] stop [of "terminal_pipeline_error I now"] last h task
      by (cases shutdown; cases health; cases "terminal_pipeline_error I now") (auto simp: Let_def split: if_splits)
  qed
qed simp

lemma failed_setup_stops_coordinator:
  assumes "pool_handle I False True e s0 = (Ended r, s)" "pi_coordinator I" "catchable e"
    and "pool_phase_of s0 = Some Started" "list_all harmless (wp_stops s0)"
  shows "pool_phase_of s = Some Released"
proof (cases "isinstance e CancelledErrorC")
  case True
  obtain q v where q: "force_cancel I False s0 = (q, v)" by (meson surj_pair)
  from force_cancel_phase [OF q assms(4) _ _ assms(2,5)] True assms(1) q show ?thesis
    by (cases q) (auto simp: pool_handle_def after_stop_def)
next
  case False
  with assms(3) have e: "is_Exception e" by (simp add: catchable_def)
  obtain q v where q: "coordinator_stop_quietly I s0 = (q, v)" by (meson surj_pair)
  from quietly_phase [OF q assms(4) _ assms(2,5)] False e assms(1) q show ?thesis
    by (cases q) (auto simp: pool_handle_def after_stop_def)
qed

lemma failed_loop_stops_coordinator:
  assumes "pool_handle I True True e u = (Ended r, s)" "pi_coordinator I" "loop_end (Some e) u"
  shows "pool_phase_of s = Some Released"
proof -
  obtain q v where q: "force_cancel I True u = (q, v)" by (meson surj_pair)
  have "pool_phase_of v = Some Released"
    using assms(3) force_cancel_phase [OF q _ _ _ assms(2), of Released] force_cancel_phase [OF q _ _ _ assms(2), of Working]
    by (auto simp: loop_end_def)
  with assms q show ?thesis
    by (cases q) (auto simp: pool_handle_def loop_end_def catchable_def after_stop_def split: if_splits)
qed

text \<open>
  C20. However the pool ends, the coordinator it started is stopped, and never while a task is running. This holds
  for a shutdown by signal, for the end of all pipelines, for a failing pipeline or health server, for a failing
  set-up and for a pool that is cancelled once, at any wait, also while it is stopping, and when the coordinator's own \<open>stop\<close> raises an
  \<open>Exception\<close>. Components raise \<open>Exception\<close>s or \<open>CancelledError\<close>. A second cancellation leaves the coordinator running
  (\<open>second_cancel_leaves_coordinator\<close>).
\<close>

theorem pool_stops_coordinator:
  assumes "pool_run I \<lparr>wp_waits = waits, wp_stops = stops, wp_trace = []\<rparr> = (Ended r, s)" "0 < pi_pipelines I" "pi_coordinator I" "pi_start I = None"
    and "list_all harmless stops" "case pi_setup I of None \<Rightarrow> True | Some e \<Rightarrow> catchable e"
    and "list_all ordinary_turn (pi_turns I)" "list_all (\<lambda>i. ordinary_task (pi_task I i)) [0..<pi_pipelines I]"
    and "length (filter (\<lambda>w. w = WaitCancelled) waits) + of_bool (PoolCancelled \<in> set (pi_turns I)) \<le> 1"
  shows "pool_phases NotStarted (wp_trace s) = Some Released"
proof -
  let ?s0 = "wp_log CoordinatorStarted \<lparr>wp_waits = waits, wp_stops = stops, wp_trace = []\<rparr>"
  have s0: "pool_phase_of ?s0 = Some Started" "list_all harmless (wp_stops ?s0)"
    using assms(5) by (simp_all add: pool_phase_of_def wp_log_def)
  have "pool_phase_of s = Some Released"
  proof (cases "pi_setup I")
    case (Some e)
    then have "pool_handle I False True e ?s0 = (Ended r, s)" using assms(1-4) by (simp add: pool_run_def)
    with Some assms(6) show ?thesis using failed_setup_stops_coordinator [OF _ assms(3) _ s0] by simp
  next
    case None
    let ?s1 = "wp_log TasksStarted ?s0"
    have s1: "pool_phase_of ?s1 = Some Working" "list_all harmless (wp_stops ?s1)"
      using pool_phase_log [OF s0(1), of TasksStarted] s0(2) by simp_all
    obtain q u where q: "pool_loop I [] (pi_turns I) ?s1 = (q, u)" by (meson surj_pair)
    then obtain x where x: "q = Ended x" using None assms(1-4) by (cases q) (auto simp: pool_run_def)
    have u: "loop_end x u"
      by (rule pool_loop_ends [OF q [unfolded x] s1(1) assms(3) s1(2) assms(7,8)]) (use assms(9) in \<open>simp add: cancels_def wp_log_def\<close>)
    show ?thesis
    proof (cases x)
      case (None)
      with u q x \<open>pi_setup I = None\<close> assms(1-4) show ?thesis by (auto simp: pool_run_def loop_end_def)
    next
      case (Some e)
      then have "pool_handle I True True e u = (Ended r, s)" using q x \<open>pi_setup I = None\<close> assms(1-4) by (simp add: pool_run_def)
      from failed_loop_stops_coordinator [OF this assms(3)] u Some show ?thesis by simp
    qed
  qed
  then show ?thesis by (simp add: pool_phase_of_def)
qed

definition demo_pool :: "task_end \<Rightarrow> pool_turn list \<Rightarrow> pool_input" where
  "demo_pool t ts = \<lparr>pi_pipelines = 2, pi_health = False, pi_coordinator = True, pi_start = None, pi_setup = None,
     pi_task = (\<lambda>i. if i = 0 then t else TaskReturned None), pi_turns = ts\<rparr>"

text \<open>The pipeline that ended first decides; its failure stops the other, and the coordinator is stopped twice.\<close>

lemma pool_stops_coordinator_witness:
  "let s = snd (pool_run (demo_pool (TaskReturned (Some (mk_exn OSErrorC ''x''))) [Completed [0] None False])
       \<lparr>wp_waits = [], wp_stops = [Some (mk_exn OSErrorC ''redis'')], wp_trace = []\<rparr>)
   in wp_trace s = [CoordinatorStarted, TasksStarted, StopSignalled, TasksEnded, CoordinatorStopped, TasksEnded, CoordinatorStopped] \<and>
      pool_phases NotStarted (wp_trace s) = Some Released"
proof -
  let ?I = "demo_pool (TaskReturned (Some (mk_exn OSErrorC ''x''))) [Completed [0] None False]"
  let ?run = "pool_run ?I \<lparr>wp_waits = [], wp_stops = [Some (mk_exn OSErrorC ''redis'')], wp_trace = []\<rparr>"
  have "fst ?run = Ended (Some (mk_exn OSErrorC ''redis''))" by code_simp
  then have run: "?run = (Ended (Some (mk_exn OSErrorC ''redis'')), snd ?run)" by (intro prod_eqI) simp_all
  have "list_all harmless [Some (mk_exn OSErrorC ''redis'')]" "list_all ordinary_turn (pi_turns ?I)"
    "list_all (\<lambda>i. ordinary_task (pi_task ?I i)) [0..<pi_pipelines ?I]" by code_simp+
  from pool_stops_coordinator [OF run _ _ _ this(1) _ this(2,3)] have "pool_phases NotStarted (wp_trace (snd ?run)) = Some Released"
    by (simp add: demo_pool_def)
  moreover have "wp_trace (snd ?run) = [CoordinatorStarted, TasksStarted, StopSignalled, TasksEnded, CoordinatorStopped, TasksEnded, CoordinatorStopped]"
    by code_simp
  ultimately show ?thesis by (simp add: Let_def)
qed

text \<open>When the coordinator's \<open>stop\<close> raises after a pipeline failed, its exception hides the pipeline's.\<close>

lemma stop_error_hides_pipeline_error:
  "fst (pool_run (demo_pool (TaskReturned (Some (mk_exn OSErrorC ''x''))) [Completed [0] None False])
     \<lparr>wp_waits = [], wp_stops = [Some (mk_exn ConnectionErrorC ''redis'')], wp_trace = []\<rparr>) = Ended (Some (mk_exn ConnectionErrorC ''redis''))"
  by code_simp

text \<open>A pipeline whose last run was cancelled ends the whole pool, which then returns as if it had been stopped.\<close>

lemma cancelled_run_ends_pool_silently:
  "fst (pool_run (demo_pool (TaskReturned (Some cancelled)) [Completed [0] None False]) \<lparr>wp_waits = [], wp_stops = [], wp_trace = []\<rparr>) = Ended None"
  by code_simp

text \<open>
  A pool that is cancelled a second time, while \<open>_force_cancel\<close> waits for its tasks, ends without stopping the coordinator: the
  leases of its pipelines stay taken.
\<close>

lemma second_cancel_leaves_coordinator:
  "let run = pool_run (demo_pool TaskCancelled [PoolCancelled]) \<lparr>wp_waits = [WaitCancelled], wp_stops = [], wp_trace = []\<rparr>
   in fst run = Ended (Some cancelled) \<and> wp_trace (snd run) = [CoordinatorStarted, TasksStarted]"
  by code_simp

end
