(* ===== verification/AI_Calls.thy ===== *)
theory AI_Calls
  imports Caches
begin

text \<open>
  Calls of a language model: the budget of \<^verbatim>\<open>ai/governance.py\<close> and the read-through cache and budget checks of
  \<open>AIMiddleware\<close> in \<^verbatim>\<open>middlewares/ai/base.py\<close>. The provider is application code: a function on its own state that
  answers or raises. Costs are exact rationals. Logging is left out; the counters of a call are
  \<open>ai_metrics\<close>.

  The locale \<open>response_cache\<close> is what the middleware needs of its cache; the in-memory cache and the cache on a
  state backend are interpretations.
\<close>

section \<open>Budget\<close>

definition AIBudgetExceeded :: "string \<Rightarrow> exn" where
  "AIBudgetExceeded what = mk_exn (UserC ''AIBudgetExceededError'' RuntimeErrorC) what"

record AICostRate =
  cr_input_per_1k :: rat
  cr_output_per_1k :: rat

definition rate_estimate_usd :: "AICostRate \<Rightarrow> int \<Rightarrow> int \<Rightarrow> rat" where
  "rate_estimate_usd r i out =
     of_int (max i 0) / 1000 * cr_input_per_1k r + of_int (max out 0) / 1000 * cr_output_per_1k r"

type_synonym AICostCatalog = "(string \<times> AICostRate) list"

definition rate_for :: "AICostCatalog \<Rightarrow> string \<Rightarrow> exn + AICostRate" where
  "rate_for C model = (case map_of C model of None \<Rightarrow> Inl (AIBudgetExceeded ''no rate'') | Some r \<Rightarrow> Inr r)"

definition catalog_estimate_usd :: "AICostCatalog \<Rightarrow> string \<Rightarrow> int \<Rightarrow> int \<Rightarrow> exn + rat" where
  "catalog_estimate_usd C model i out = res_bind (rate_for C model) (\<lambda>r. Inr (rate_estimate_usd r i out))"

datatype budget_scope = PerRecord | PerRun

record AIBudgetPolicy =
  bp_max_input :: "int option"
  bp_max_output :: "int option"
  bp_max_total :: "int option"
  bp_max_cost :: "rat option"
  bp_scope :: budget_scope

definition valid_policy :: "AIBudgetPolicy \<Rightarrow> bool" where
  "valid_policy P \<longleftrightarrow> list_all (\<lambda>x. case x of None \<Rightarrow> True | Some n \<Rightarrow> n \<ge> 0) [bp_max_input P, bp_max_output P, bp_max_total P] \<and>
     (case bp_max_cost P of None \<Rightarrow> True | Some c \<Rightarrow> c \<ge> 0)"

record AIBudgetUsage =
  bu_input :: int
  bu_output :: int
  bu_cost :: rat

definition no_usage :: AIBudgetUsage where
  "no_usage = \<lparr>bu_input = 0, bu_output = 0, bu_cost = 0\<rparr>"

definition usage_total :: "AIBudgetUsage \<Rightarrow> int" where
  "usage_total u = bu_input u + bu_output u"

text \<open>\<open>max(1, ceil(len(text) / 4))\<close>\<close>

definition estimate_prompt_tokens :: "string option list \<Rightarrow> int" where
  "estimate_prompt_tokens parts =
     (let text = join_with [CHR 0x0A] (filter (\<lambda>p. p \<noteq> []) (map (\<lambda>p. case p of None \<Rightarrow> [] | Some x \<Rightarrow> x) parts))
      in if text = [] then 0 else max 1 ((int (length text) + 3) div 4))"

section \<open>The middleware's calls\<close>

record CompletionResponse =
  rs_content :: string
  rs_model :: string
  rs_input :: int
  rs_output :: int

record completion_request =
  cq_prompt :: string
  cq_system :: "string option"
  cq_temperature :: rat
  cq_max_tokens :: int
  cq_format :: "string option"

record ai_metrics =
  am_hits :: int
  am_misses :: int
  am_calls :: int
  am_input :: int
  am_output :: int

text \<open>The cache is seen through \<open>get\<close> and \<open>set\<close>, with the time of the call.\<close>

record ('c, 'p) AIMiddleware =
  ai_capable :: bool
  ai_identity :: string
  ai_complete :: "completion_request \<Rightarrow> 'p \<Rightarrow> (exn + CompletionResponse) \<times> 'p"
  ai_cached :: bool
  ai_cache_get :: "rat \<Rightarrow> string \<Rightarrow> 'c \<Rightarrow> (exn + string option) \<times> 'c"
  ai_cache_set :: "rat \<Rightarrow> string \<Rightarrow> string \<Rightarrow> int \<Rightarrow> 'c \<Rightarrow> (exn + unit) \<times> 'c"
  ai_cache_ttl :: int
  ai_policy :: "AIBudgetPolicy option"
  ai_catalog :: "AICostCatalog option"
  ai_key :: "string \<Rightarrow> (string \<times> pyval) list \<Rightarrow> string"

record ('c, 'p) ai_state =
  as_usage :: AIBudgetUsage
  as_metrics :: ai_metrics
  as_cache :: 'c
  as_provider :: 'p

definition ai_on_start :: "('c, 'p) AIMiddleware \<Rightarrow> ('c, 'p) ai_state \<Rightarrow> ('c, 'p) ai_state" where
  "ai_on_start M s = (case ai_policy M of
     Some P \<Rightarrow> if bp_scope P = PerRun then s\<lparr>as_usage := no_usage\<rparr> else s
   | None \<Rightarrow> s)"

definition estimate_cost_usd :: "('c, 'p) AIMiddleware \<Rightarrow> string \<Rightarrow> int \<Rightarrow> int \<Rightarrow> exn + rat" where
  "estimate_cost_usd M model i out = (case ai_policy M of
     None \<Rightarrow> Inr 0
   | Some P \<Rightarrow> if bp_max_cost P = None then Inr 0
       else (case ai_catalog M of
         None \<Rightarrow> Inl (AIBudgetExceeded ''cost guard requires a catalog'')
       | Some C \<Rightarrow> catalog_estimate_usd C model i out))"

definition above :: "'a :: linorder \<Rightarrow> 'a option \<Rightarrow> bool" where
  "above x limit = (case limit of None \<Rightarrow> False | Some m \<Rightarrow> x > m)"

text \<open>\<open>_check_budget\<close>, for a known cost: \<open>None\<close>, or what it raises.\<close>

definition check_budget :: "AIBudgetPolicy \<Rightarrow> AIBudgetUsage \<Rightarrow> int \<Rightarrow> int \<Rightarrow> rat \<Rightarrow> exn option" where
  "check_budget P u i out cost =
     (let base = (if bp_scope P = PerRun then u else no_usage);
          ei = i + bu_input base; eo = out + bu_output base; et = (i + out) + usage_total base; ec = cost + bu_cost base
      in if above ei (bp_max_input P) then Some (AIBudgetExceeded ''input_tokens'')
      else if above eo (bp_max_output P) then Some (AIBudgetExceeded ''output_tokens'')
      else if above et (bp_max_total P) then Some (AIBudgetExceeded ''total_tokens'')
      else if above ec (bp_max_cost P) then Some (AIBudgetExceeded ''cost_usd'')
      else None)"

definition enforce_budget_preflight :: "('c, 'p) AIMiddleware \<Rightarrow> completion_request \<Rightarrow> ('c, 'p) ai_state \<Rightarrow> exn option" where
  "enforce_budget_preflight M q s = (case ai_policy M of
     None \<Rightarrow> None
   | Some P \<Rightarrow>
       let i = estimate_prompt_tokens [cq_system q, Some (cq_prompt q)]; out = max (cq_max_tokens q) 0 in
       (case estimate_cost_usd M (ai_identity M) i out of
          Inl e \<Rightarrow> Some e
        | Inr c \<Rightarrow> check_budget P (as_usage s) i out c))"

definition record_budget_usage ::
  "('c, 'p) AIMiddleware \<Rightarrow> CompletionResponse \<Rightarrow> ('c, 'p) ai_state \<Rightarrow> (exn + unit) \<times> ('c, 'p) ai_state" where
  "record_budget_usage M r s = (case ai_policy M of
     None \<Rightarrow> (Inr (), s)
   | Some P \<Rightarrow> (case estimate_cost_usd M (rs_model r) (rs_input r) (rs_output r) of
        Inl e \<Rightarrow> (Inl e, s)
      | Inr c \<Rightarrow> (case check_budget P (as_usage s) (rs_input r) (rs_output r) c of
            Some e \<Rightarrow> (Inl e, s)
          | None \<Rightarrow> (Inr (), if bp_scope P = PerRun
              then let u = as_usage s in s\<lparr>as_usage := \<lparr>bu_input = bu_input u + rs_input r, bu_output = bu_output u + rs_output r,
                     bu_cost = bu_cost u + c\<rparr>\<rparr>
              else s))))"

definition opt_text :: "string option \<Rightarrow> pyval" where
  "opt_text x = (case x of None \<Rightarrow> PNone | Some t \<Rightarrow> PStr t)"

definition request_key :: "('c, 'p) AIMiddleware \<Rightarrow> completion_request \<Rightarrow> string" where
  "request_key M q = ai_key M (cq_prompt q)
     [(''model'', PStr (ai_identity M)), (''system'', opt_text (cq_system q)), (''temperature'', PFloat (cq_temperature q)),
      (''max_tokens'', PInt (cq_max_tokens q)), (''response_format'', opt_text (cq_format q))]"

text \<open>\<open>_cached_complete\<close>, with the times at which the cache is read and written.\<close>

definition call_provider ::
  "('c, 'p) AIMiddleware \<Rightarrow> rat \<Rightarrow> completion_request \<Rightarrow> ('c, 'p) ai_state \<Rightarrow> (exn + CompletionResponse) \<times> ('c, 'p) ai_state" where
  "call_provider M later q s =
     (case ai_complete M q (as_provider s) of
        (Inl e, p) \<Rightarrow> (Inl e, s\<lparr>as_provider := p\<rparr>)
      | (Inr r, p) \<Rightarrow>
          (case record_budget_usage M r (s\<lparr>as_provider := p\<rparr>) of
             (Inl e, s) \<Rightarrow> (Inl e, s)
           | (Inr _, s) \<Rightarrow>
               let m = as_metrics s;
                   s = s\<lparr>as_metrics := m\<lparr>am_calls := am_calls m + 1, am_input := am_input m + rs_input r, am_output := am_output m + rs_output r\<rparr>\<rparr>
               in if ai_cached M
                  then (case ai_cache_set M later (request_key M q) (rs_content r) (ai_cache_ttl M) (as_cache s) of
                      (Inl e, c) \<Rightarrow> (Inl e, s\<lparr>as_cache := c\<rparr>)
                    | (Inr _, c) \<Rightarrow> (Inr r, s\<lparr>as_cache := c\<rparr>))
                  else (Inr r, s)))"

definition miss_complete ::
  "('c, 'p) AIMiddleware \<Rightarrow> rat \<Rightarrow> completion_request \<Rightarrow> ('c, 'p) ai_state \<Rightarrow> (exn + CompletionResponse) \<times> ('c, 'p) ai_state" where
  "miss_complete M later q s =
     (let m = as_metrics s; s = s\<lparr>as_metrics := m\<lparr>am_misses := am_misses m + 1\<rparr>\<rparr> in
      if \<not> ai_capable M then (Inl (mk_exn TypeErrorC ''provider''), s)
      else case enforce_budget_preflight M q s of
        Some e \<Rightarrow> (Inl e, s)
      | None \<Rightarrow> call_provider M later q s)"

definition cached_complete ::
  "('c, 'p) AIMiddleware \<Rightarrow> rat \<Rightarrow> rat \<Rightarrow> completion_request \<Rightarrow> ('c, 'p) ai_state \<Rightarrow> (exn + CompletionResponse) \<times> ('c, 'p) ai_state" where
  "cached_complete M now later q s =
     (if ai_cached M
      then (case ai_cache_get M now (request_key M q) (as_cache s) of
          (Inl e, c) \<Rightarrow> (Inl e, s\<lparr>as_cache := c\<rparr>)
        | (Inr (Some x), c) \<Rightarrow>
            let m = as_metrics s in
            (Inr \<lparr>rs_content = x, rs_model = ''cached'', rs_input = 0, rs_output = 0\<rparr>,
             s\<lparr>as_cache := c, as_metrics := m\<lparr>am_hits := am_hits m + 1\<rparr>\<rparr>)
        | (Inr None, c) \<Rightarrow> miss_complete M later q (s\<lparr>as_cache := c\<rparr>))
      else miss_complete M later q s)"

text \<open>\<open>_handle_error\<close>: the record passes, is dropped, or the exception is raised.\<close>

datatype OnError = OnPassthrough | OnDrop | OnRaise | OnLog

definition ai_handle_error :: "OnError \<Rightarrow> exn \<Rightarrow> 'r \<Rightarrow> exn + 'r option" where
  "ai_handle_error p e r = (case p of OnRaise \<Rightarrow> Inl e | OnDrop \<Rightarrow> Inr None | _ \<Rightarrow> Inr (Some r))"

section \<open>What the middleware needs of a cache\<close>

text \<open>A miss leaves the cache as it is or writes to it once, under the request's key.\<close>

lemma missed_cache:
  assumes "ai_cached M"
  shows "as_cache (snd (miss_complete M later q s)) = as_cache s \<or>
    (\<exists>w. as_cache (snd (miss_complete M later q s)) =
       snd (ai_cache_set M later (request_key M q) w (ai_cache_ttl M) (as_cache s)))"
proof -
  have rec: "as_cache (snd (record_budget_usage M r v)) = as_cache v" for r v
    by (auto simp: record_budget_usage_def Let_def split: option.split sum.split)
  have "as_cache (snd (call_provider M later q v)) = as_cache v \<or>
    (\<exists>w. as_cache (snd (call_provider M later q v)) =
       snd (ai_cache_set M later (request_key M q) w (ai_cache_ttl M) (as_cache v)))" for v
  proof (cases "ai_complete M q (as_provider v)")
    case (Pair x p)
    show ?thesis
    proof (cases x)
      case (Inr r)
      obtain y s1 where y: "record_budget_usage M r (v\<lparr>as_provider := p\<rparr>) = (y, s1)" by (meson surj_pair)
      with rec [of r "v\<lparr>as_provider := p\<rparr>"] have "as_cache s1 = as_cache v" by simp
      with Pair Inr y assms show ?thesis
        by (cases "ai_cache_set M later (request_key M q) (rs_content r) (ai_cache_ttl M) (as_cache v)")
          (auto simp: call_provider_def Let_def split: sum.split intro!: exI [of _ "rs_content r"])
    qed (use Pair in \<open>simp add: call_provider_def\<close>)
  qed
  from this [of "s\<lparr>as_metrics := (as_metrics s)\<lparr>am_misses := am_misses (as_metrics s) + 1\<rparr>\<rparr>"] show ?thesis
    by (auto simp: miss_complete_def Let_def split: option.split)
qed

definition ai_calls ::
  "('c, 'p) AIMiddleware \<Rightarrow> (rat \<times> rat \<times> completion_request) list \<Rightarrow> ('c, 'p) ai_state \<Rightarrow> ('c, 'p) ai_state" where
  "ai_calls M qs s = fold (\<lambda>(now, later, q) s. snd (cached_complete M now later q s)) qs s"

locale response_cache =
  fixes get :: "rat \<Rightarrow> string \<Rightarrow> 'c \<Rightarrow> (exn + string option) \<times> 'c"
    and put :: "rat \<Rightarrow> string \<Rightarrow> string \<Rightarrow> int \<Rightarrow> 'c \<Rightarrow> (exn + unit) \<times> 'c"
    and valid :: "'c \<Rightarrow> bool"
  assumes get_valid: "valid c \<Longrightarrow> valid (snd (get t k c))"
    and put_valid: "valid c \<Longrightarrow> fst (put t k v ttl c) = Inr () \<and> valid (snd (put t k v ttl c))"
    and get_after_put: "valid c \<Longrightarrow> now < t + of_int ttl \<Longrightarrow> fst (get now k (snd (put t k v ttl c))) = Inr (Some v)"
begin

lemma provider_answer_is_put:
  assumes "call_provider M later q s = (Inr r, u)" "ai_cached M" "ai_cache_set M = put" "valid (as_cache s)"
  shows "as_cache u = snd (put later (request_key M q) (rs_content r) (ai_cache_ttl M) (as_cache s))"
proof -
  from assms(1) obtain p where p: "ai_complete M q (as_provider s) = (Inr r, p)"
    by (auto simp: call_provider_def Let_def split: prod.splits sum.splits if_splits)
  obtain x s1 where rec: "record_budget_usage M r (s\<lparr>as_provider := p\<rparr>) = (x, s1)" by (meson surj_pair)
  have c: "as_cache s1 = as_cache s"
    using rec by (auto simp: record_budget_usage_def Let_def split: option.splits sum.splits if_splits)
  have "fst (put later (request_key M q) (rs_content r) (ai_cache_ttl M) (as_cache s)) = Inr ()"
    using put_valid [OF assms(4)] by blast
  then show ?thesis using assms(1-3) p rec c by (auto simp: call_provider_def Let_def split: sum.splits prod.splits)
qed

lemma answer_is_cached:
  assumes "cached_complete M t later q s = (Inr r, u)" "ai_cached M" "ai_cache_get M = get" "ai_cache_set M = put"
    and "valid (as_cache s)" "as_provider u \<noteq> as_provider s"
  obtains c where "valid c" "as_cache u = snd (put later (request_key M q) (rs_content r) (ai_cache_ttl M) c)"
proof -
  obtain x c where g: "get t (request_key M q) (as_cache s) = (x, c)" by (meson surj_pair)
  with get_valid [OF assms(5), of t "request_key M q"] have c: "valid c" by simp
  from assms(1-4,6) g have "miss_complete M later q (s\<lparr>as_cache := c\<rparr>) = (Inr r, u)"
    by (auto simp: cached_complete_def Let_def split: sum.splits option.splits)
  then obtain s1 where s1: "call_provider M later q s1 = (Inr r, u)" "as_cache s1 = c"
    by (auto simp: miss_complete_def Let_def split: if_splits option.splits)
  with provider_answer_is_put [OF s1(1) assms(2,4)] c that show ?thesis by simp
qed

lemma cached_answer:
  assumes "ai_cached M" "ai_cache_get M = get" "fst (get now (request_key M q) (as_cache s)) = Inr (Some x)"
  shows "\<exists>v. cached_complete M now later q s =
      (Inr \<lparr>rs_content = x, rs_model = ''cached'', rs_input = 0, rs_output = 0\<rparr>, v) \<and>
    as_provider v = as_provider s \<and> as_usage v = as_usage s"
  using assms by (auto simp: cached_complete_def Let_def split: prod.split)

end

text \<open>
  A cache that evicts: an entry that was just written survives a number of further uses, of which each call of the
  middleware is at most one: a hit, or a miss followed by a write of another key.
\<close>

locale ageing_cache = response_cache +
  fixes safe :: "nat \<Rightarrow> string \<Rightarrow> string \<Rightarrow> rat \<Rightarrow> 'c \<Rightarrow> bool"
    and room :: nat
  assumes safe_after_put: "valid c \<Longrightarrow> safe room k v (t + of_int ttl) (snd (put t k v ttl c))"
    and safe_hit: "safe n k v x c \<Longrightarrow> now < x \<Longrightarrow> fst (get now k c) = Inr (Some v)"
    and safe_after_get: "safe (Suc n) k v x c \<Longrightarrow> now < x \<Longrightarrow> safe n k v x (snd (get now k' c))"
    and safe_after_miss: "safe (Suc n) k v x c \<Longrightarrow> now < x \<Longrightarrow> fst (get now k' c) = Inr None \<Longrightarrow>
      safe (Suc n) k v x (snd (get now k' c))"
    and safe_after_other_put: "safe (Suc n) k v x c \<Longrightarrow> k' \<noteq> k \<Longrightarrow> safe n k v x (snd (put t k' w ttl c))"
begin

lemma safe_after_call:
  assumes "safe (Suc n) k v x (as_cache s)" "now < x" "ai_cached M" "ai_cache_get M = get" "ai_cache_set M = put"
  shows "safe n k v x (as_cache (snd (cached_complete M now later q s)))"
proof -
  obtain a c where g: "get now (request_key M q) (as_cache s) = (a, c)" by (meson surj_pair)
  have c: "safe n k v x c" using safe_after_get [OF assms(1,2), of "request_key M q"] g by simp
  consider "a = Inr None" | "a \<noteq> Inr None" by blast
  then show ?thesis
  proof cases
    case 1
    then have "request_key M q \<noteq> k" using safe_hit [OF assms(1,2)] g by auto
    moreover have "safe (Suc n) k v x c" using safe_after_miss [OF assms(1,2), of "request_key M q"] g 1 by simp
    ultimately have "safe n k v x (snd (put later (request_key M q) w (ai_cache_ttl M) c))" for w
      using safe_after_other_put by blast
    with c missed_cache [of M later q "s\<lparr>as_cache := c\<rparr>"] assms(3-5) g 1 show ?thesis
      by (auto simp: cached_complete_def)
  next
    case 2
    with c assms(3,4) g show ?thesis by (auto simp: cached_complete_def Let_def split: sum.split option.split)
  qed
qed

lemma safe_after_calls:
  assumes "safe (length calls + n) k v x (as_cache s)" "\<forall>call\<in>set calls. fst call < x"
    and "ai_cached M" "ai_cache_get M = get" "ai_cache_set M = put"
  shows "safe n k v x (as_cache (ai_calls M calls s))"
  using assms(1,2)
proof (induction calls arbitrary: s)
  case (Cons call calls)
  obtain now later q where call: "call = (now, later, q)" by (cases call)
  with Cons.prems safe_after_call [of "length calls + n" k v x s now M later q] assms(3-5)
  have "safe (length calls + n) k v x (as_cache (snd (cached_complete M now later q s)))" by simp
  from Cons.IH [OF this] Cons.prems(2) call show ?case by (simp add: ai_calls_def)
qed (simp add: ai_calls_def)

lemma paid_once:
  assumes "cached_complete M t later q s = (Inr r, u)" "ai_cached M" "ai_cache_get M = get" "ai_cache_set M = put"
    and "valid (as_cache s)" "as_provider u \<noteq> as_provider s" "length calls \<le> room"
    and "\<forall>call\<in>set calls. fst call < later + of_int (ai_cache_ttl M)" "now < later + of_int (ai_cache_ttl M)"
  shows "\<exists>v. cached_complete M now later' q (ai_calls M calls u) =
      (Inr \<lparr>rs_content = rs_content r, rs_model = ''cached'', rs_input = 0, rs_output = 0\<rparr>, v) \<and>
    as_provider v = as_provider (ai_calls M calls u) \<and> as_usage v = as_usage (ai_calls M calls u)"
proof -
  from answer_is_cached [OF assms(1-6)] obtain c where c: "valid c"
    "as_cache u = snd (put later (request_key M q) (rs_content r) (ai_cache_ttl M) c)" .
  from safe_after_put [OF c(1)] c(2) assms(7)
  have "safe (length calls + (room - length calls)) (request_key M q) (rs_content r) (later + of_int (ai_cache_ttl M)) (as_cache u)"
    by simp
  from safe_hit [OF safe_after_calls [OF this assms(8,2-4)] assms(9)] show ?thesis
    by (rule cached_answer [OF assms(2,3)])
qed

end

definition llm_valid :: "int \<Rightarrow> InMemoryLLMCache \<Rightarrow> bool" where
  "llm_valid n c \<longleftrightarrow> (\<exists>spec. llm_inv n spec c)"

lemma llm_set_returns:
  assumes "0 < n" shows "fst (llm_set n t k v ttl c) = Inr ()"
  using assms by (cases "lc_order c") (auto simp: llm_set_def Let_def)

interpretation mem_cache: ageing_cache llm_get "llm_set 1000" "llm_valid 1000" "llm_safe 1000" 999
proof (unfold_locales, goal_cases)
  case (1 c t k)
  then show ?case using llm_get_inv [of 1000 _ c t k] unfolding llm_valid_def by blast
next
  case (2 c t k v ttl)
  then obtain spec where "llm_inv 1000 spec c" unfolding llm_valid_def by blast
  from llm_set_inv [OF this, of k v t ttl] llm_set_returns [of 1000 t k v ttl c] show ?case
    unfolding llm_valid_def by auto
next
  case (3 c now t ttl k v)
  then show ?case by (simp add: llm_get_after_set)
next
  case (4 c k v t ttl)
  then show ?case using llm_safe_after_set [of 1000 _ c k v t ttl] by (auto simp: llm_valid_def)
next
  case (5 n k v x c now)
  then show ?case by (rule llm_safe_get)
next
  case (6 n k v x c now k')
  then show ?case using llm_safe_after_get by blast
next
  case (7 n k v x c now k')
  then show ?case using llm_safe_after_get by blast
next
  case (8 n k v x c k' t w ttl)
  then show ?case by (rule llm_safe_after_other_set)
qed

text \<open>\<open>_BackendLLMCache\<close>: the cache on a state backend, here SQLite.\<close>

definition backend_llm_get :: "'b backend_ops \<Rightarrow> rat \<Rightarrow> string \<Rightarrow> 'b \<Rightarrow> (exn + string option) \<times> 'b" where
  "backend_llm_get B now key b = (case kv_get B llm_store now key b of
     (PNone, b) \<Rightarrow> (Inr None, b)
   | (PStr x, b) \<Rightarrow> (Inr (Some x), b)
   | (_, b) \<Rightarrow> (Inl (mk_exn TypeErrorC key), b))"

definition backend_llm_set :: "'b backend_ops \<Rightarrow> rat \<Rightarrow> string \<Rightarrow> string \<Rightarrow> int \<Rightarrow> 'b \<Rightarrow> (exn + unit) \<times> 'b" where
  "backend_llm_set B now key v ttl b = (Inr (), kv_set B llm_store now key (PStr v) (Some ttl) b)"

interpretation sqlite_cache: response_cache "backend_llm_get SQLiteBackend" "backend_llm_set SQLiteBackend" wf_store
proof (unfold_locales, goal_cases)
  case (1 c t k)
  then show ?case using sql.get_invar [of c t "kv_full_key llm_store k"]
    by (auto simp: backend_llm_get_def kv_get_def split: prod.split option.split pyval.split)
next
  case (2 c t k v ttl)
  then show ?case by (simp add: backend_llm_set_def kv_set_def sql.set_invar)
next
  case (3 c now t ttl k v)
  then have "fst (kv_get SQLiteBackend llm_store now k (kv_set SQLiteBackend llm_store t k (PStr v) (Some ttl) c)) = PStr v"
    by (intro sql.kv_get_after_set) simp_all
  then show ?case by (auto simp: backend_llm_get_def backend_llm_set_def split: prod.split pyval.split)
qed

text \<open>
  C33. A prompt is paid once. With the in-memory cache of its usual size, in any state that reads and writes can have
  brought it to, let the provider be asked for a request and answer it. When the same request comes again, while the
  entry's time to live has not run out, after at most 999 other calls, one after the other, in which the provider may
  answer or raise what it likes, it is answered from the cache: with the same content, without asking the provider
  and without touching the budget.
\<close>

theorem ai_prompt_paid_once:
  assumes "cached_complete M t later q s = (Inr r, u)" "as_provider u \<noteq> as_provider s"
    and "ai_cached M" "ai_cache_get M = llm_get" "ai_cache_set M = llm_set 1000"
    and "as_cache s = foldr (llm_apply 1000) ops empty_llm" "length calls \<le> 999"
    and "\<forall>call\<in>set calls. fst call < later + of_int (ai_cache_ttl M)" "now < later + of_int (ai_cache_ttl M)"
  shows "\<exists>v. cached_complete M now later' q (ai_calls M calls u) =
      (Inr \<lparr>rs_content = rs_content r, rs_model = ''cached'', rs_input = 0, rs_output = 0\<rparr>, v) \<and>
    as_provider v = as_provider (ai_calls M calls u) \<and> as_usage v = as_usage (ai_calls M calls u)"
proof -
  have "llm_valid 1000 (as_cache s)" using llm_history_inv [of 1000 ops] by (auto simp: llm_valid_def assms(6))
  from mem_cache.paid_once [OF assms(1,3-5) this assms(2,7-9)] show ?thesis .
qed

text \<open>What is recorded stays within the limits.\<close>

definition usage_within :: "AIBudgetPolicy \<Rightarrow> AIBudgetUsage \<Rightarrow> bool" where
  "usage_within P u \<longleftrightarrow> \<not> above (bu_input u) (bp_max_input P) \<and> \<not> above (bu_output u) (bp_max_output P) \<and>
     \<not> above (usage_total u) (bp_max_total P) \<and> \<not> above (bu_cost u) (bp_max_cost P)"

lemma record_budget_within:
  assumes "ai_policy M = Some P" "bp_scope P = PerRun" "usage_within P (as_usage s)" "record_budget_usage M r s = (x, u)"
  shows "usage_within P (as_usage u)"
proof (cases "u = s")
  case False
  then obtain c where c: "check_budget P (as_usage s) (rs_input r) (rs_output r) c = None"
    "as_usage u = \<lparr>bu_input = bu_input (as_usage s) + rs_input r, bu_output = bu_output (as_usage s) + rs_output r, bu_cost = bu_cost (as_usage s) + c\<rparr>"
    using assms(1,2,4) by (auto simp: record_budget_usage_def Let_def split: sum.splits option.splits)
  from c(1) show ?thesis unfolding c(2) using assms(2)
    by (auto simp: check_budget_def usage_within_def usage_total_def Let_def algebra_simps split: if_splits)
qed (use assms(3) in simp)

lemma call_provider_within:
  assumes "ai_policy M = Some P" "bp_scope P = PerRun" "usage_within P (as_usage s)"
  shows "usage_within P (as_usage (snd (call_provider M later q s)))"
proof (cases "ai_complete M q (as_provider s)")
  case (Pair x p)
  show ?thesis
  proof (cases x)
    case (Inl e)
    with Pair assms(3) show ?thesis by (simp add: call_provider_def)
  next
    case (Inr r)
    obtain y s1 where y: "record_budget_usage M r (s\<lparr>as_provider := p\<rparr>) = (y, s1)" by (meson surj_pair)
    have "usage_within P (as_usage s1)" by (rule record_budget_within [OF assms(1,2) _ y]) (simp add: assms(3))
    with Pair Inr y show ?thesis by (auto simp: call_provider_def Let_def split: sum.split prod.split)
  qed
qed

lemma cached_complete_within:
  assumes "ai_policy M = Some P" "bp_scope P = PerRun" "usage_within P (as_usage s)"
  shows "usage_within P (as_usage (snd (cached_complete M now later q s)))"
proof -
  have miss: "usage_within P (as_usage (snd (miss_complete M later q v)))" if "usage_within P (as_usage v)" for v
    using that call_provider_within [OF assms(1,2)] by (auto simp: miss_complete_def Let_def split: option.split)
  show ?thesis using assms(3) miss by (auto simp: cached_complete_def Let_def split: prod.split sum.split option.split)
qed

lemma ai_calls_within:
  "ai_policy M = Some P \<Longrightarrow> bp_scope P = PerRun \<Longrightarrow> usage_within P (as_usage s) \<Longrightarrow> usage_within P (as_usage (ai_calls M qs s))"
proof (induction qs arbitrary: s)
  case (Cons q qs)
  obtain now later r where q: "q = (now, later, r)" by (cases q)
  from Cons.IH [OF Cons.prems(1,2) cached_complete_within [OF Cons.prems]] show ?case by (simp add: ai_calls_def q)
qed (simp add: ai_calls_def)

text \<open>
  With a valid budget per run, the usage that the middleware has recorded since the start of the run is
  within every limit of the policy, after any sequence of requests, whatever the provider answers.
\<close>

theorem ai_budget_within_limits:
  assumes "ai_policy M = Some P" "bp_scope P = PerRun" "valid_policy P"
  shows "usage_within P (as_usage (ai_calls M qs (ai_on_start M s)))"
proof -
  have "usage_within P (as_usage (ai_on_start M s))"
    using assms by (auto simp: ai_on_start_def usage_within_def no_usage_def usage_total_def valid_policy_def above_def split: option.splits)
  then show ?thesis by (rule ai_calls_within [OF assms(1,2)])
qed

definition demo_policy :: AIBudgetPolicy where
  "demo_policy = \<lparr>bp_max_input = None, bp_max_output = Some 10, bp_max_total = None, bp_max_cost = None, bp_scope = PerRun\<rparr>"

text \<open>A provider that counts its calls and answers with as many tokens as it is told.\<close>

definition demo_ai :: "int \<Rightarrow> (InMemoryLLMCache, nat) AIMiddleware" where
  "demo_ai n = \<lparr>ai_capable = True, ai_identity = ''m'',
     ai_complete = (\<lambda>q p. (Inr \<lparr>rs_content = ''answer'', rs_model = ''m'', rs_input = 1, rs_output = n\<rparr>, Suc p)), ai_cached = True,
     ai_cache_get = llm_get, ai_cache_set = llm_set 1000, ai_cache_ttl = 60, ai_policy = Some demo_policy, ai_catalog = None,
     ai_key = (\<lambda>prompt _. prompt)\<rparr>"

definition demo_ai_state :: "(InMemoryLLMCache, nat) ai_state" where
  "demo_ai_state = \<lparr>as_usage = no_usage, as_metrics = \<lparr>am_hits = 0, am_misses = 0, am_calls = 0, am_input = 0, am_output = 0\<rparr>,
     as_cache = empty_llm, as_provider = 0\<rparr>"

definition demo_request :: completion_request where
  "demo_request = \<lparr>cq_prompt = ''p'', cq_system = None, cq_temperature = 0, cq_max_tokens = 2, cq_format = None\<rparr>"

lemma ai_prompt_paid_once_witness:
  "let u = snd (cached_complete (demo_ai 1) 0 1 demo_request demo_ai_state);
       w = ai_calls (demo_ai 1) [(2, 3, demo_request\<lparr>cq_prompt := ''other''\<rparr>)] u
   in as_provider w = 2 \<and> (\<exists>v. cached_complete (demo_ai 1) 60 61 demo_request w =
      (Inr \<lparr>rs_content = ''answer'', rs_model = ''cached'', rs_input = 0, rs_output = 0\<rparr>, v) \<and> as_provider v = 2)"
proof -
  let ?calls = "[(2, 3, demo_request\<lparr>cq_prompt := ''other''\<rparr>)] :: (rat \<times> rat \<times> completion_request) list"
  let ?run = "cached_complete (demo_ai 1) 0 1 demo_request demo_ai_state"
  have p: "as_provider (snd ?run) = 1" by code_simp
  have "fst ?run = Inr \<lparr>rs_content = ''answer'', rs_model = ''m'', rs_input = 1, rs_output = 1\<rparr>" by code_simp
  then have run: "?run = (Inr \<lparr>rs_content = ''answer'', rs_model = ''m'', rs_input = 1, rs_output = 1\<rparr>, snd ?run)"
    by (intro prod_eqI) simp_all
  have s0: "as_provider demo_ai_state = 0" "as_cache demo_ai_state = foldr (llm_apply 1000) [] empty_llm"
    by (simp_all add: demo_ai_state_def)
  have cfg: "ai_cached (demo_ai 1)" "ai_cache_get (demo_ai 1) = llm_get" "ai_cache_set (demo_ai 1) = llm_set 1000"
    "(60 :: rat) < 1 + of_int (ai_cache_ttl (demo_ai 1))" by (simp_all add: demo_ai_def)
  have "as_provider (snd ?run) \<noteq> as_provider demo_ai_state" using p s0(1) by simp
  moreover have "length ?calls \<le> 999" "\<forall>call\<in>set ?calls. fst call < 1 + of_int (ai_cache_ttl (demo_ai 1))"
    by (simp_all add: demo_ai_def)
  moreover have "as_provider (ai_calls (demo_ai 1) ?calls (snd ?run)) = 2" by code_simp
  ultimately show ?thesis using ai_prompt_paid_once [OF run _ cfg(1-3) s0(2) _ _ cfg(4), of ?calls]
    by (simp only: Let_def CompletionResponse.simps) blast
qed

lemma ai_budget_within_limits_witness:
  "let u = ai_calls (demo_ai 4) [(0, 0, demo_request), (1, 1, demo_request\<lparr>cq_prompt := ''q''\<rparr>), (2, 2, demo_request\<lparr>cq_prompt := ''r''\<rparr>)]
       (ai_on_start (demo_ai 4) demo_ai_state)
   in as_usage u = \<lparr>bu_input = 2, bu_output = 8, bu_cost = 0\<rparr> \<and> usage_within demo_policy (as_usage u)"
proof -
  let ?qs = "[(0, 0, demo_request), (1, 1, demo_request\<lparr>cq_prompt := ''q''\<rparr>), (2, 2, demo_request\<lparr>cq_prompt := ''r''\<rparr>)]"
  have "ai_policy (demo_ai 4) = Some demo_policy" "bp_scope demo_policy = PerRun" "valid_policy demo_policy"
    by (simp_all add: demo_ai_def demo_policy_def valid_policy_def)
  note ai_budget_within_limits [OF this, of ?qs demo_ai_state]
  moreover have "as_usage (ai_calls (demo_ai 4) ?qs (ai_on_start (demo_ai 4) demo_ai_state)) = \<lparr>bu_input = 2, bu_output = 8, bu_cost = 0\<rparr>"
    by code_simp
  ultimately show ?thesis by (simp only: Let_def simp_thms)
qed

text \<open>
  An answer that turns out to exceed the budget raises, but was paid: it is neither recorded nor cached, so the
  next request is sent as if nothing had been spent.
\<close>

lemma overspent_answer_is_not_recorded:
  "let u = ai_calls (demo_ai 1000) [(0, 0, demo_request), (1, 1, demo_request), (2, 2, demo_request)] demo_ai_state
   in as_provider u = 3 \<and> as_usage u = no_usage \<and> lc_order (as_cache u) = []"
  by code_simp

end
