(* ===== verification/AI_Batch.thy ===== *)
theory AI_Batch
  imports AI_Calls
begin

text \<open>
  \<open>AIBatchMiddleware\<close> of \<^verbatim>\<open>middlewares/ai/batch.py\<close> with \<open>merge_into_record\<close> of \<^verbatim>\<open>utils/records.py\<close> on dicts: records wait in a
  queue, each with a future, until one call of the model answers for a batch of them.

  A lock lets one flush work at a time, so at most one batch is out. Records may be submitted while it is: the
  step relation interleaves submissions with the two halves of a flush, taking a batch and dealing with the
  answer. A future is a number, in the order of submission; \<open>ab_results\<close> lists the futures that have been set.
  \<open>ab_records\<close> records what was submitted; the code does not read it. An answer is what the model call and the JSON
  parser give: an array of values, or an exception. The runs of the stage keep a history of the batches that were
  answered, each with its size and its answer, so that a record's result can be traced to the answer's element at
  the record's own position.
\<close>

section \<open>One batch\<close>

type_synonym dict = "(string \<times> pyval) list"

definition merge_into_record :: "dict \<Rightarrow> dict \<Rightarrow> dict" where
  "merge_into_record r upd = (if upd = [] then r else fold (\<lambda>(k, v). AList.update k v) upd r)"

text \<open>What is merged from one element of the array; \<open>None\<close> as \<open>output_fields\<close> takes all keys.\<close>

definition falsy :: "pyval \<Rightarrow> bool" where
  "falsy v = (case v of PNone \<Rightarrow> True | PBool b \<Rightarrow> \<not> b | PInt n \<Rightarrow> n = 0 | PFloat q \<Rightarrow> q = 0 | PStr x \<Rightarrow> x = []
     | PList xs \<Rightarrow> xs = [] | PDict kvs \<Rightarrow> kvs = [])"

definition enrichment :: "string list option \<Rightarrow> pyval \<Rightarrow> exn + dict" where
  "enrichment output_fields v = (case v of
     PDict d \<Rightarrow> Inr (case output_fields of None \<Rightarrow> d | Some fs \<Rightarrow> filter (\<lambda>(k, _). k \<in> set fs) d)
   | _ \<Rightarrow> if output_fields = None \<and> falsy v then Inr [] else Inl (mk_exn TypeErrorC ''not a dict''))"

definition process_llm_batch :: "string list option \<Rightarrow> exn + pyval list \<Rightarrow> dict list \<Rightarrow> exn + dict option list" where
  "process_llm_batch output_fields answer records = res_bind answer (\<lambda>vs.
     if length vs \<noteq> length records then Inl (mk_exn ValueErrorC ''LLM returned another number of results'')
     else res_map (\<lambda>(r, v). res_bind (enrichment output_fields v) (\<lambda>d. Inr (Some (merge_into_record r d)))) (zip records vs))"

section \<open>Queue and futures\<close>

record ai_batch =
  ab_queue :: "(nat \<times> dict) list"
  ab_flight :: "(nat \<times> dict) list"
  ab_results :: "(nat \<times> dict option) list"
  ab_records :: "dict list"

record ai_batch_config =
  ac_batch_size :: nat
  ac_fields :: "string list option"
  ac_on_error :: OnError

definition new_ai_batch :: ai_batch where
  "new_ai_batch = \<lparr>ab_queue = [], ab_flight = [], ab_results = [], ab_records = []\<rparr>"

definition ab_submit :: "dict \<Rightarrow> ai_batch \<Rightarrow> ai_batch" where
  "ab_submit r s = s\<lparr>ab_queue := ab_queue s @ [(length (ab_records s), r)], ab_records := ab_records s @ [r]\<rparr>"

definition ab_take :: "ai_batch_config \<Rightarrow> ai_batch \<Rightarrow> ai_batch" where
  "ab_take K s = s\<lparr>ab_queue := drop (ac_batch_size K) (ab_queue s), ab_flight := take (ac_batch_size K) (ab_queue s)\<rparr>"

text \<open>
  After a failed call the records are handled one by one; an exception raised on the way leaves the other futures
  of the batch unset.
\<close>

fun settle_failed :: "OnError \<Rightarrow> exn \<Rightarrow> (nat \<times> dict) list \<Rightarrow> (nat \<times> dict option) list \<times> exn option" where
  "settle_failed p e [] = ([], None)"
| "settle_failed p e ((i, r) # batch) = (case ai_handle_error p e r of
     Inl e' \<Rightarrow> ([], Some e')
   | Inr x \<Rightarrow> (case settle_failed p e batch of (rs, q) \<Rightarrow> ((i, x) # rs, q)))"

definition ab_answer :: "ai_batch_config \<Rightarrow> exn + pyval list \<Rightarrow> ai_batch \<Rightarrow> exn option \<times> ai_batch" where
  "ab_answer K answer s =
     (let batch = ab_flight s; s = s\<lparr>ab_flight := []\<rparr> in
      case process_llm_batch (ac_fields K) answer (map snd batch) of
        Inr xs \<Rightarrow> (None, s\<lparr>ab_results := ab_results s @ zip (map fst batch) xs\<rparr>)
      | Inl e \<Rightarrow>
          if is_Exception e
          then (case settle_failed (ac_on_error K) e batch of (rs, q) \<Rightarrow> (q, s\<lparr>ab_results := ab_results s @ rs\<rparr>))
          else (Some e, s))"

lemma ab_answer_queue: "ab_queue (snd (ab_answer K a s)) = ab_queue s"
  by (simp add: ab_answer_def Let_def split: sum.split prod.split)

text \<open>\<open>_flush_pending\<close> with the lock in hand; \<open>answers\<close> is what the model will answer, call by call.\<close>

function flush_pending ::
  "ai_batch_config \<Rightarrow> bool \<Rightarrow> (nat \<Rightarrow> exn + pyval list) \<Rightarrow> nat \<Rightarrow> ai_batch \<Rightarrow> exn option \<times> ai_batch" where
  "flush_pending K partial answers n s =
     (if ab_queue s = [] \<or> (\<not> partial \<and> length (ab_queue s) < ac_batch_size K) \<or> ac_batch_size K = 0 then (None, s)
      else case ab_answer K (answers n) (ab_take K s) of
        (Some e, s) \<Rightarrow> (Some e, s)
      | (None, s) \<Rightarrow> flush_pending K partial answers (Suc n) s)"
  by pat_completeness auto
termination
proof (relation "measure (\<lambda>(K, partial, answers, n, s). length (ab_queue s))", goal_cases)
  case (2 K partial answers n s x t)
  then have "t = snd (ab_answer K (answers n) (ab_take K s))" by (metis snd_conv)
  then have "ab_queue t = drop (ac_batch_size K) (ab_queue s)"
    using ab_answer_queue [of K "answers n" "ab_take K s"] by (simp add: ab_take_def)
  with 2(1) show ?case by simp
qed simp

declare flush_pending.simps [simp del]

text \<open>
  \<open>on_stop\<close> without the lock taken by anybody: what waits is flushed, and what came too late passes unchanged. A flush
  that is still out when the queue is empty is cancelled.
\<close>

definition resolve_late :: "ai_batch \<Rightarrow> ai_batch" where
  "resolve_late s = s\<lparr>ab_queue := [], ab_results := ab_results s @ map (\<lambda>(i, r). (i, Some r)) (ab_queue s)\<rparr>"

definition ab_on_stop :: "ai_batch_config \<Rightarrow> (nat \<Rightarrow> exn + pyval list) \<Rightarrow> ai_batch \<Rightarrow> exn option \<times> ai_batch" where
  "ab_on_stop K answers s =
     (case (if ab_queue s = [] then (None, s) else flush_pending K True answers 0 s) of
        (Some e, s) \<Rightarrow> (Some e, s)
      | (None, s) \<Rightarrow> (None, resolve_late (s\<lparr>ab_flight := []\<rparr>)))"

section \<open>Every record gets its own answer, in order\<close>























definition demo_batch_config :: "OnError \<Rightarrow> ai_batch_config" where
  "demo_batch_config p = \<lparr>ac_batch_size = 2, ac_fields = Some [''tag''], ac_on_error = p\<rparr>"

definition three_submitted :: ai_batch where
  "three_submitted = ab_submit [(''n'', PInt 3)] (ab_submit [(''n'', PInt 2)] (ab_submit [(''n'', PInt 1)] new_ai_batch))"








text \<open>
  A stage that is told to raise leaves the callers of a failed batch waiting: the exception escapes into the flush
  task, and no future of the batch is set.
\<close>

lemma raise_leaves_callers_waiting:
  "flush_pending (demo_batch_config OnRaise) True (\<lambda>_. Inl (mk_exn ValueErrorC ''json'')) 0 three_submitted =
     (Some (mk_exn ValueErrorC ''json''), three_submitted\<lparr>ab_queue := [(2, [(''n'', PInt 3)])]\<rparr>)"
  by code_simp

text \<open>
  Stopping while a batch is out and the queue is empty cancels the flush: the futures of that batch are never set.
\<close>

lemma stop_abandons_batch_in_flight:
  "let s = ab_take (demo_batch_config OnDrop) (ab_submit [] new_ai_batch)
   in ab_flight s = [(0, [])] \<and> ab_results (snd (ab_on_stop (demo_batch_config OnDrop) answers s)) = []"
  by (simp add: Let_def ab_take_def ab_submit_def new_ai_batch_def demo_batch_config_def ab_on_stop_def resolve_late_def)

end
