(* ===== verification/AI_Stages.thy ===== *)
theory AI_Stages
  imports AI_Batch Text_Ops
begin

text \<open>
  The stages of \<^verbatim>\<open>middlewares/ai\<close> that ask a model once per record: \<^verbatim>\<open>enrich.py\<close>, \<^verbatim>\<open>extract.py\<close>, \<^verbatim>\<open>translate.py\<close>,
  \<^verbatim>\<open>classify.py\<close> and \<^verbatim>\<open>validate.py\<close>, with \<open>_parse_json\<close> of \<^verbatim>\<open>base.py\<close> and \<open>cosine_similarity\<close> of \<^verbatim>\<open>utils/math.py\<close>.

  Records are dicts. \<open>str\<close>, \<open>float\<close> and \<open>json\<close> on the values, the prompt renderer, the square root and the
  embedding provider are parameters; floats are exact rationals. An attribute that the answer's value lacks
  raises \<open>TypeError\<close> here where Python raises \<open>AttributeError\<close>; no handler tells them apart. Logging is left out.

  Shown: a stage changes no field but its own, writes only categories it was given, and lets through no exception that
  its error policy handles.
\<close>

section \<open>What the stages share\<close>

record stage_env =
  sv_str :: "pyval \<Rightarrow> string"
  sv_float :: "pyval \<Rightarrow> exn + rat"
  sv_loads :: "string \<Rightarrow> exn + pyval"
  sv_dumps :: "(string \<times> string) list \<Rightarrow> string"
  sv_render :: "string \<Rightarrow> dict \<Rightarrow> exn + string"
  sv_sqrt :: "rat \<Rightarrow> rat"
  sv_now :: rat
  sv_later :: rat

record ('c, 'p) stage_state =
  sg_ai :: "('c, 'p) ai_state"
  sg_embeddings :: "rat list list option"
  sg_counts :: "(string \<times> int) list"
  sg_pass :: int
  sg_fail :: int

type_synonym ('c, 'p, 'a) stage_run = "(exn, ('c, 'p) stage_state, 'a) comp"

definition of_result :: "exn + 'a \<Rightarrow> (exn, 's, 'a) comp" where
  "of_result r = (\<lambda>s. (r, s))"

text \<open>\<open>_parse_json\<close>: a fence of backquotes around the answer is stripped.\<close>

definition parse_json :: "stage_env \<Rightarrow> string \<Rightarrow> exn + pyval" where
  "parse_json E text =
     (let stripped = strip_text text; lines = splitlines stripped in
      sv_loads E (if take 3 stripped = ''```'' \<and> length lines > 2
        then join_with [CHR 0x0A] (butlast (tl lines)) else stripped))"

definition complete_text :: "('c, 'p) AIMiddleware \<Rightarrow> stage_env \<Rightarrow> completion_request \<Rightarrow> ('c, 'p, string) stage_run" where
  "complete_text M E q = (\<lambda>s. case cached_complete M (sv_now E) (sv_later E) q (sg_ai s) of
     (r, a) \<Rightarrow> (map_sum id rs_content r, s\<lparr>sg_ai := a\<rparr>))"

definition ask_json :: "('c, 'p) AIMiddleware \<Rightarrow> stage_env \<Rightarrow> completion_request \<Rightarrow> ('c, 'p, pyval) stage_run" where
  "ask_json M E q = bind (complete_text M E q) (\<lambda>text. of_result (parse_json E text))"

definition prompt_request :: "string \<Rightarrow> string option \<Rightarrow> rat \<Rightarrow> int \<Rightarrow> completion_request" where
  "prompt_request prompt system temperature max_tokens = \<lparr>cq_prompt = prompt, cq_system = system,
     cq_temperature = temperature, cq_max_tokens = max_tokens, cq_format = None\<rparr>"

text \<open>The \<open>except Exception\<close> clause around a stage's body.\<close>

definition guarded_body :: "OnError \<Rightarrow> dict \<Rightarrow> ('c, 'p, dict option) stage_run \<Rightarrow> ('c, 'p, dict option) stage_run" where
  "guarded_body p record m = catch m (\<lambda>e. if is_Exception e then of_result (ai_handle_error p e record) else throw e)"

definition as_dict :: "pyval \<Rightarrow> exn + dict" where
  "as_dict v = (case v of PDict d \<Rightarrow> Inr d | _ \<Rightarrow> Inl (mk_exn TypeErrorC ''not a dict''))"

definition dict_value :: "dict \<Rightarrow> string \<Rightarrow> pyval \<Rightarrow> pyval" where
  "dict_value d k v = (case map_of d k of None \<Rightarrow> v | Some x \<Rightarrow> x)"

section \<open>Enrich and extract\<close>

record enrich_config =
  en_template :: string
  en_fields :: "string list option"
  en_system :: "string option"
  en_temperature :: rat
  en_max_tokens :: int

definition enrich_process :: "('c, 'p) AIMiddleware \<Rightarrow> stage_env \<Rightarrow> OnError \<Rightarrow> enrich_config \<Rightarrow> dict \<Rightarrow> ('c, 'p, dict option) stage_run" where
  "enrich_process M E p C record = guarded_body p record
     (bind (of_result (sv_render E (en_template C) record)) (\<lambda>prompt.
      bind (ask_json M E (prompt_request prompt (en_system C) (en_temperature C) (en_max_tokens C))) (\<lambda>v.
      bind (of_result (enrichment (en_fields C) v)) (\<lambda>upd. ret (Some (merge_into_record record upd))))))"

record extract_config =
  ex_source :: string
  ex_extract :: "(string \<times> string) list"
  ex_system :: string
  ex_max_tokens :: int

definition extract_init_error :: "extract_config \<Rightarrow> exn option" where
  "extract_init_error C = (if ex_extract C = [] then Some (mk_exn ValueErrorC ''at least one entry'') else None)"

definition extract_prompt :: "extract_config \<Rightarrow> string \<Rightarrow> string" where
  "extract_prompt C text =
     ''Extract the following fields from the text below.'' @ [CHR 0x0A, CHR 0x0A] @ ''Fields to extract:'' @ [CHR 0x0A] @
     join_with [CHR 0x0A] (map (\<lambda>(f, i). ''  '' @ [CHR 0x22] @ f @ [CHR 0x22] @ '': '' @ i) (ex_extract C)) @
     [CHR 0x0A, CHR 0x0A] @ ''Text:'' @ [CHR 0x0A] @ text"

definition extract_process :: "('c, 'p) AIMiddleware \<Rightarrow> stage_env \<Rightarrow> OnError \<Rightarrow> extract_config \<Rightarrow> dict \<Rightarrow> ('c, 'p, dict option) stage_run" where
  "extract_process M E p C record = guarded_body p record
     (let v = dict_value record (ex_source C) (PStr []); text = (if v = PNone then [] else sv_str E v) in
      if strip_text text = [] then ret (Some record)
      else bind (ask_json M E (prompt_request (extract_prompt C text) (Some (ex_system C)) 0 (ex_max_tokens C))) (\<lambda>v.
        bind (of_result (as_dict v)) (\<lambda>d.
        ret (Some (merge_into_record record (filter (\<lambda>(k, _). k \<in> set (map fst (ex_extract C))) d))))))"

section \<open>Translate\<close>

record translate_config =
  tr_fields :: "string list"
  tr_target :: string
  tr_source :: string
  tr_prefix :: string
  tr_max_tokens :: int

definition translate_init_error :: "translate_config \<Rightarrow> exn option" where
  "translate_init_error C = (if tr_fields C = [] then Some (mk_exn ValueErrorC ''at least one field'') else None)"

definition field_text :: "stage_env \<Rightarrow> dict \<Rightarrow> string \<Rightarrow> string" where
  "field_text E record f = (let v = dict_value record f (PStr []) in if falsy v then [] else sv_str E v)"

definition to_translate :: "stage_env \<Rightarrow> translate_config \<Rightarrow> dict \<Rightarrow> (string \<times> string) list" where
  "to_translate E C record = fold (\<lambda>f d. let v = field_text E record f in if v = [] then d else AList.update f v d) (tr_fields C) []"

definition translate_prompt :: "stage_env \<Rightarrow> translate_config \<Rightarrow> (string \<times> string) list \<Rightarrow> string" where
  "translate_prompt E C texts =
     ''Translate the following JSON fields '' @ (if tr_source C = ''auto'' then [] else ''from '' @ tr_source C @ '' '') @
     ''to '' @ tr_target C @ ''.'' @ [CHR 0x0A] @ ''Return a JSON object with the same keys and translated values.'' @ [CHR 0x0A] @
     ''Do NOT translate field names, only values. Do NOT add markdown.'' @ [CHR 0x0A, CHR 0x0A] @ ''Input: '' @ sv_dumps E texts"

text \<open>The comprehension over \<open>field in translated\<close>, for each type that the answer can have.\<close>

definition translated_updates :: "string \<Rightarrow> string list \<Rightarrow> pyval \<Rightarrow> exn + dict" where
  "translated_updates pre fs v = (case v of
     PDict d \<Rightarrow> Inr (List.map_filter (\<lambda>f. map_option (\<lambda>x. (pre @ f, x)) (map_of d f)) fs)
   | PList xs \<Rightarrow> if list_ex (\<lambda>f. PStr f \<in> set xs) fs then Inl (mk_exn TypeErrorC ''list indices'') else Inr []
   | PStr x \<Rightarrow> if list_ex (\<lambda>f. occurs_in f x) fs then Inl (mk_exn TypeErrorC ''string indices'') else Inr []
   | _ \<Rightarrow> Inl (mk_exn TypeErrorC ''not iterable''))"

definition translate_process :: "('c, 'p) AIMiddleware \<Rightarrow> stage_env \<Rightarrow> OnError \<Rightarrow> translate_config \<Rightarrow> dict \<Rightarrow> ('c, 'p, dict option) stage_run" where
  "translate_process M E p C record = guarded_body p record
     (let texts = to_translate E C record in
      if texts = [] then ret (Some record)
      else bind (ask_json M E (prompt_request (translate_prompt E C texts) None (1 / 10) (tr_max_tokens C))) (\<lambda>v.
        bind (of_result (translated_updates (tr_prefix C) (map fst texts) v)) (\<lambda>upd.
        ret (Some (merge_into_record record upd)))))"

section \<open>Classify\<close>

record 'p classify_config =
  cl_fields :: "string list"
  cl_categories :: "string list"
  cl_output :: string
  cl_use_embeddings :: bool
  cl_confidence :: "string option"
  cl_embed_batch :: "string list \<Rightarrow> 'p \<Rightarrow> (exn + rat list list) \<times> 'p"
  cl_embed :: "string \<Rightarrow> 'p \<Rightarrow> (exn + rat list) \<times> 'p"

definition classify_init_error :: "'p classify_config \<Rightarrow> exn option" where
  "classify_init_error C =
     (if cl_categories C = [] then Some (mk_exn ValueErrorC ''at least one category'')
      else if cl_fields C = [] then Some (mk_exn ValueErrorC ''at least one source_field'') else None)"

definition dot :: "rat list \<Rightarrow> rat list \<Rightarrow> rat" where
  "dot a b = sum_list (map (\<lambda>(x, y). x * y) (zip a b))"

definition cosine_similarity :: "(rat \<Rightarrow> rat) \<Rightarrow> rat list \<Rightarrow> rat list \<Rightarrow> exn + rat" where
  "cosine_similarity rt a b =
     (if length a \<noteq> length b then Inl (mk_exn ValueErrorC ''zip()'')
      else let na = rt (dot a a); nb = rt (dot b b) in
        Inr (if na = 0 \<or> nb = 0 then 0 else dot a b / (na * nb)))"

text \<open>\<open>max(range(n), key=...)\<close>: the first position of the largest value.\<close>

fun best_index :: "rat list \<Rightarrow> nat option" where
  "best_index [] = None"
| "best_index (x # xs) = (case best_index xs of None \<Rightarrow> Some 0
     | Some i \<Rightarrow> if xs ! i > x then Some (Suc i) else Some 0)"

definition with_provider :: "('p \<Rightarrow> (exn + 'a) \<times> 'p) \<Rightarrow> ('c, 'p, 'a) stage_run" where
  "with_provider f = (\<lambda>s. case f (as_provider (sg_ai s)) of (r, p) \<Rightarrow> (r, s\<lparr>sg_ai := (sg_ai s)\<lparr>as_provider := p\<rparr>\<rparr>))"

definition ensure_category_embeddings :: "'p classify_config \<Rightarrow> ('c, 'p, rat list list) stage_run" where
  "ensure_category_embeddings C = bind get_state (\<lambda>s. case sg_embeddings s of
     Some es \<Rightarrow> ret es
   | None \<Rightarrow> bind (with_provider (cl_embed_batch C (cl_categories C))) (\<lambda>es.
       seq (modify (\<lambda>s. s\<lparr>sg_embeddings := Some es\<rparr>)) (ret es)))"

definition pick_category :: "string list \<Rightarrow> rat list \<Rightarrow> exn + (string \<times> rat)" where
  "pick_category categories similarities = (case best_index similarities of
     None \<Rightarrow> Inl (mk_exn ValueErrorC ''max() arg is an empty sequence'')
   | Some i \<Rightarrow> if i < length categories then Inr (categories ! i, similarities ! i)
               else Inl (mk_exn (UserC ''IndexError'' ExceptionC) ''list index out of range''))"

definition classify_with_embeddings :: "stage_env \<Rightarrow> 'p classify_config \<Rightarrow> string \<Rightarrow> ('c, 'p, string \<times> rat) stage_run" where
  "classify_with_embeddings E C text =
     bind (ensure_category_embeddings C) (\<lambda>es.
     bind (with_provider (cl_embed C text)) (\<lambda>x.
     of_result (res_bind (res_map (cosine_similarity (sv_sqrt E) x) es) (pick_category (cl_categories C)))))"

definition quoted :: "string \<Rightarrow> string" where
  "quoted x = [CHR 0x22] @ x @ [CHR 0x22]"

definition classify_prompt :: "string list \<Rightarrow> string \<Rightarrow> string" where
  "classify_prompt categories text =
     ''Classify the following into exactly one of these categories: '' @ join_with '', '' (map quoted categories) @ ''.'' @
     [CHR 0x0A, CHR 0x0A] @ ''Text: '' @ text @ [CHR 0x0A, CHR 0x0A] @
     ''Return JSON: {'' @ quoted ''category'' @ '': '' @ quoted ''<chosen>'' @ '', '' @ quoted ''confidence'' @ '': <0.0-1.0>}''"

definition checked_category :: "string list \<Rightarrow> pyval \<Rightarrow> rat \<Rightarrow> string \<times> rat" where
  "checked_category categories c confidence = (case c of
     PStr x \<Rightarrow> if x \<in> set categories then (x, confidence) else (hd categories, 0)
   | _ \<Rightarrow> (hd categories, 0))"

definition classify_with_llm :: "('c, 'p) AIMiddleware \<Rightarrow> stage_env \<Rightarrow> 'p classify_config \<Rightarrow> string \<Rightarrow> ('c, 'p, string \<times> rat) stage_run" where
  "classify_with_llm M E C text =
     bind (ask_json M E (prompt_request (classify_prompt (cl_categories C) text) None 0 128)) (\<lambda>v.
     of_result (res_bind (as_dict v) (\<lambda>d.
       res_bind (sv_float E (dict_value d ''confidence'' (PFloat 1))) (\<lambda>confidence.
       Inr (checked_category (cl_categories C) (dict_value d ''category'' (PStr (hd (cl_categories C)))) confidence)))))"

definition classify_text :: "stage_env \<Rightarrow> 'p classify_config \<Rightarrow> dict \<Rightarrow> string" where
  "classify_text E C record = join_with '' | ''
     (map (\<lambda>f. sv_str E (dict_value record f (PStr []))) (filter (\<lambda>f. \<not> falsy (dict_value record f (PStr []))) (cl_fields C)))"

text \<open>\<open>round(x, 4)\<close>, with ties to the even side.\<close>

definition round4 :: "rat \<Rightarrow> rat" where
  "round4 x = (let n = \<lfloor>x * 10000\<rfloor>; d = x * 10000 - of_int n in
     of_int (if d > 1 / 2 \<or> (d = 1 / 2 \<and> odd n) then n + 1 else n) / 10000)"

definition count_category :: "string \<Rightarrow> ('c, 'p) stage_state \<Rightarrow> ('c, 'p) stage_state" where
  "count_category c s = s\<lparr>sg_counts :=
     AList.update c ((case map_of (sg_counts s) c of None \<Rightarrow> 0 | Some n \<Rightarrow> n) + 1) (sg_counts s)\<rparr>"

definition classify_updates :: "'p classify_config \<Rightarrow> string \<times> rat \<Rightarrow> dict" where
  "classify_updates C r = (let upd = [(cl_output C, PStr (fst r))] in
     case cl_confidence C of
       Some (c # cs) \<Rightarrow> AList.update (c # cs) (PFloat (round4 (snd r))) upd
     | _ \<Rightarrow> upd)"

definition classify_process :: "('c, 'p) AIMiddleware \<Rightarrow> stage_env \<Rightarrow> OnError \<Rightarrow> 'p classify_config \<Rightarrow> dict \<Rightarrow> ('c, 'p, dict option) stage_run" where
  "classify_process M E p C record = guarded_body p record
     (let text = classify_text E C record in
      if strip_text text = [] then ret (Some record)
      else bind (if cl_use_embeddings C then classify_with_embeddings E C text else classify_with_llm M E C text) (\<lambda>r.
        seq (modify (count_category (fst r))) (ret (Some (merge_into_record record (classify_updates C r))))))"

section \<open>Validate\<close>

datatype OnInvalid = InvalidFlag | InvalidDrop | InvalidRaise

record validate_config =
  va_criteria :: string
  va_min_confidence :: rat
  va_flag_field :: string
  va_on_invalid :: OnInvalid
  va_system :: string

definition DataQualityErrorC :: exn_class where "DataQualityErrorC = UserC ''DataQualityError'' ExceptionC"

definition validate_prompt :: "validate_config \<Rightarrow> string \<Rightarrow> string" where
  "validate_prompt C shown = ''Quality criteria:'' @ [CHR 0x0A] @ strip_text (va_criteria C) @ [CHR 0x0A, CHR 0x0A] @
     ''Record to evaluate:'' @ [CHR 0x0A] @ shown"

definition list_of :: "pyval \<Rightarrow> exn + pyval list" where
  "list_of v = (case v of
     PList xs \<Rightarrow> Inr xs
   | PStr x \<Rightarrow> Inr (map (\<lambda>c. PStr [c]) x)
   | PDict d \<Rightarrow> Inr (map (\<lambda>(k, _). PStr k) d)
   | _ \<Rightarrow> Inl (mk_exn TypeErrorC ''object is not iterable''))"

text \<open>The verdict: valid or not, with the issues and the confidence.\<close>

definition read_verdict :: "stage_env \<Rightarrow> validate_config \<Rightarrow> pyval \<Rightarrow> exn + (bool \<times> pyval list \<times> rat)" where
  "read_verdict E C v = res_bind (as_dict v) (\<lambda>d.
     let valid = \<not> falsy (dict_value d ''valid'' (PBool True)) in
     res_bind (list_of (dict_value d ''issues'' (PList []))) (\<lambda>issues.
     res_bind (sv_float E (dict_value d ''confidence'' (PFloat 1))) (\<lambda>confidence.
     Inr (valid \<and> confidence \<ge> va_min_confidence C, issues, confidence))))"

definition validate_outcome :: "validate_config \<Rightarrow> dict \<Rightarrow> bool \<times> pyval list \<times> rat \<Rightarrow> exn + dict option" where
  "validate_outcome C record verdict = (case verdict of (ok, issues, confidence) \<Rightarrow>
     if ok then Inr (Some record)
     else case va_on_invalid C of
       InvalidDrop \<Rightarrow> Inr None
     | InvalidRaise \<Rightarrow> Inl (mk_exn DataQualityErrorC ''Data quality failure'')
     | InvalidFlag \<Rightarrow> Inr (Some (merge_into_record record [(va_flag_field C,
         PDict [(''valid'', PBool False), (''issues'', PList issues), (''confidence'', PFloat confidence)])])))"

definition count_verdict :: "bool \<Rightarrow> ('c, 'p) stage_state \<Rightarrow> ('c, 'p) stage_state" where
  "count_verdict ok s = (if ok then s\<lparr>sg_pass := sg_pass s + 1\<rparr> else s\<lparr>sg_fail := sg_fail s + 1\<rparr>)"

text \<open>\<open>except DataQualityError: raise\<close> comes before the general clause.\<close>

definition validate_process :: "('c, 'p) AIMiddleware \<Rightarrow> stage_env \<Rightarrow> OnError \<Rightarrow> validate_config \<Rightarrow> dict \<Rightarrow> ('c, 'p, dict option) stage_run" where
  "validate_process M E p C record = catch
     (bind (ask_json M E (prompt_request (validate_prompt C (sv_str E (PDict record))) (Some (va_system C)) 0 512)) (\<lambda>v.
      bind (of_result (read_verdict E C v)) (\<lambda>verdict.
      seq (modify (count_verdict (fst verdict))) (of_result (validate_outcome C record verdict)))))
     (\<lambda>e. if isinstance e DataQualityErrorC then throw e
          else if is_Exception e then of_result (ai_handle_error p e record) else throw e)"

section \<open>The stages together\<close>

datatype 'p ai_stage =
    EnrichStage enrich_config | ExtractStage extract_config | TranslateStage translate_config
  | ClassifyStage "'p classify_config" | ValidateStage validate_config

fun stage_process :: "('c, 'p) AIMiddleware \<Rightarrow> stage_env \<Rightarrow> OnError \<Rightarrow> 'p ai_stage \<Rightarrow> dict \<Rightarrow> ('c, 'p, dict option) stage_run" where
  "stage_process M E p (EnrichStage C) = enrich_process M E p C"
| "stage_process M E p (ExtractStage C) = extract_process M E p C"
| "stage_process M E p (TranslateStage C) = translate_process M E p C"
| "stage_process M E p (ClassifyStage C) = classify_process M E p C"
| "stage_process M E p (ValidateStage C) = validate_process M E p C"

text \<open>The fields that a stage may write.\<close>

fun own_field :: "'p ai_stage \<Rightarrow> string \<Rightarrow> bool" where
  "own_field (EnrichStage C) k = (case en_fields C of None \<Rightarrow> True | Some fs \<Rightarrow> k \<in> set fs)"
| "own_field (ExtractStage C) k = (k \<in> set (map fst (ex_extract C)))"
| "own_field (TranslateStage C) k = (k \<in> set (map (\<lambda>f. tr_prefix C @ f) (tr_fields C)))"
| "own_field (ClassifyStage C) k = (k = cl_output C \<or> cl_confidence C = Some k)"
| "own_field (ValidateStage C) k = (k = va_flag_field C)"

text \<open>What a stage returns agrees with the record on the fields that are not its own.\<close>

definition keeps_other_fields :: "(string \<Rightarrow> bool) \<Rightarrow> dict \<Rightarrow> dict option \<Rightarrow> bool" where
  "keeps_other_fields own record out = (case out of None \<Rightarrow> True
     | Some r \<Rightarrow> (\<forall>k. \<not> own k \<longrightarrow> map_of r k = map_of record k))"

lemma keeps_same [simp]: "keeps_other_fields own record (Some record)" "keeps_other_fields own record None"
  by (simp_all add: keeps_other_fields_def)

lemma map_of_fold_update: "k \<notin> fst ` set upd \<Longrightarrow> map_of (fold (\<lambda>(k, v). AList.update k v) upd r) k = map_of r k"
  by (induction upd arbitrary: r) (auto simp: update_conv')

lemma merge_keeps:
  "(\<And>k. k \<in> fst ` set upd \<Longrightarrow> own k) \<Longrightarrow> keeps_other_fields own record (Some (merge_into_record record upd))"
  by (auto simp: keeps_other_fields_def merge_into_record_def intro!: map_of_fold_update)

lemma returns_of_result [returns_intro]: "(\<And>x. r = Inr x \<Longrightarrow> P x) \<Longrightarrow> returns P (of_result r)"
  by (auto simp: returns_def of_result_def)

lemma returns_catch: "returns P m \<Longrightarrow> (\<And>e. returns P (h e)) \<Longrightarrow> returns P (catch m h)"
  by (auto simp: returns_def catch_def split: prod.splits sum.splits)

lemma returns_seq: "returns P n \<Longrightarrow> returns P (seq m n)"
  by (auto simp: seq_def intro: returns_bind)

lemma handled_keeps: "ai_handle_error p e record = Inr x \<Longrightarrow> keeps_other_fields own record x"
  by (cases p) (auto simp: ai_handle_error_def)

lemma guarded_keeps:
  "returns (keeps_other_fields own record) m \<Longrightarrow> returns (keeps_other_fields own record) (guarded_body p record m)"
  unfolding guarded_body_def by (rule returns_catch) (auto intro: returns_intro handled_keeps)

text \<open>A result that is checked before it is used.\<close>

lemma returns_bind_result: "(\<And>x. r = Inr x \<Longrightarrow> returns P (f x)) \<Longrightarrow> returns P (bind (of_result r) f)"
  by (auto simp: returns_def bind_def of_result_def split: sum.splits prod.splits)

lemma enrichment_fields: "enrichment (Some fs) v = Inr d \<Longrightarrow> fst ` set d \<subseteq> set fs"
  by (auto simp: enrichment_def split: pyval.splits if_splits)

lemma translated_fields: "translated_updates pre fs v = Inr d \<Longrightarrow> fst ` set d \<subseteq> (\<lambda>f. pre @ f) ` set fs"
  by (auto simp: translated_updates_def List.map_filter_def split: pyval.splits if_splits)

lemma fold_update_fields:
  "fst ` set (fold (\<lambda>f d. let v = g f in if v = [] then d else AList.update f v d) fs d) \<subseteq> fst ` set d \<union> set fs"
proof (induction fs arbitrary: d)
  case (Cons f fs)
  let ?d = "let v = g f in if v = [] then d else AList.update f v d"
  have "fst ` set ?d \<subseteq> insert f (fst ` set d)" by (auto simp: Let_def dom_update)
  with Cons [of ?d] show ?case by auto
qed simp

lemma to_translate_fields: "fst ` set (to_translate E C r) \<subseteq> set (tr_fields C)"
  using fold_update_fields [of "field_text E r" "tr_fields C" "[]"] by (simp add: to_translate_def)

lemma classify_fields: "fst ` set (classify_updates C r) \<subseteq> {k. k = cl_output C \<or> cl_confidence C = Some k}"
  by (auto simp: classify_updates_def Let_def split: option.splits list.splits if_splits)

text \<open>
  C24. A stage that asks a model writes only its own fields: whatever the model answers and whatever fails, a record that
  it passes on agrees with the one it got on every field that it was not told to write.
\<close>

theorem ai_stage_writes_own_fields_only:
  assumes "stage_process M E p st record s = (Inr (Some r), t)" and "\<not> own_field st k"
  shows "map_of r k = map_of record k"
proof -
  have "returns (keeps_other_fields (own_field st) record) (stage_process M E p st record)"
  proof (cases st)
    case (EnrichStage C)
    show ?thesis
      unfolding EnrichStage stage_process.simps enrich_process_def
      by (intro guarded_keeps returns_bind_result returns_bind returns_ret merge_keeps)
        (force dest: enrichment_fields split: option.split)
  next
    case (ExtractStage C)
    show ?thesis
      unfolding ExtractStage stage_process.simps extract_process_def Let_def
      by (intro guarded_keeps) (auto intro!: returns_intro merge_keeps)
  next
    case (TranslateStage C)
    have own: "own_field (TranslateStage C) k"
      if "translated_updates (tr_prefix C) (map fst (to_translate E C record)) v = Inr d" "k \<in> fst ` set d" for v d k
      using translated_fields [OF that(1)] to_translate_fields [of E C "record"] that(2) by auto
    show ?thesis
      unfolding TranslateStage stage_process.simps translate_process_def Let_def
      by (intro guarded_keeps) (auto intro!: returns_ret returns_bind returns_bind_result merge_keeps elim: own)
  next
    case (ClassifyStage C)
    show ?thesis
      unfolding ClassifyStage stage_process.simps classify_process_def Let_def
      by (intro guarded_keeps) (auto intro!: returns_ret returns_bind returns_seq merge_keeps dest!: subsetD [OF classify_fields])
  next
    case (ValidateStage C)
    show ?thesis
      unfolding ValidateStage stage_process.simps validate_process_def
      by (auto intro!: returns_catch returns_bind returns_seq returns_intro intro: handled_keeps
          simp: validate_outcome_def split: if_splits OnInvalid.splits)
        (auto intro: merge_keeps)
  qed
  from returnsD [OF this assms(1)] assms(2) show ?thesis by (simp add: keeps_other_fields_def)
qed

section \<open>Failures and categories\<close>

lemma guarded_body_raises:
  "guarded_body p r m s = (Inl e, t) \<Longrightarrow> p \<noteq> OnRaise \<Longrightarrow> \<not> is_Exception e"
  by (cases p) (auto simp: guarded_body_def catch_def of_result_def throw_def ai_handle_error_def
      split: prod.splits sum.splits if_splits)

text \<open>
  An error policy other than \<open>raise\<close> lets no ordinary exception of an AI stage reach the pipeline, whatever the
  provider, the cache, the budget, the parser or the answer does; only the quality error of a validating stage that
  was told to raise comes through, and what is no ordinary exception, such as a cancellation.
\<close>

theorem ai_stage_contains_failures:
  assumes "stage_process M E p st record s = (Inl e, t)" and "p \<noteq> OnRaise" and "is_Exception e"
  shows "isinstance e DataQualityErrorC \<and> (\<exists>C. st = ValidateStage C)"
proof (cases st)
  case (ValidateStage C)
  then show ?thesis
    using assms
    by (cases p) (auto simp: validate_process_def catch_def of_result_def throw_def ai_handle_error_def
        split: prod.splits sum.splits if_splits)
qed (use assms in \<open>auto simp: enrich_process_def extract_process_def translate_process_def classify_process_def
    dest: guarded_body_raises\<close>)

text \<open>A classifying stage gives a category of its list.\<close>

lemma best_index_bound: "best_index xs = Some i \<Longrightarrow> i < length xs"
  by (induction xs arbitrary: i) (auto split: option.splits if_splits)

lemma best_index_largest:
  "best_index xs = Some i \<Longrightarrow> list_all (\<lambda>x. x \<le> xs ! i) xs"
proof (induction xs arbitrary: i)
  case (Cons x xs)
  show ?case
  proof (cases "best_index xs")
    case None
    then have "xs = []" by (cases xs) (auto split: option.splits if_splits)
    with Cons.prems show ?thesis by simp
  next
    case (Some j)
    with Cons show ?thesis by (auto simp: list_all_iff split: if_splits)
  qed
qed simp

lemma classified_in_list:
  assumes "cl_categories C \<noteq> []"
    and "(if cl_use_embeddings C then classify_with_embeddings E C text else classify_with_llm M E C text) s = (Inr (c, x), t)"
  shows "c \<in> set (cl_categories C)"
proof -
  have "pick_category cs xs = Inr (c, x) \<Longrightarrow> c \<in> set cs" for cs xs
    by (auto simp: pick_category_def split: option.splits if_splits)
  moreover have "checked_category (cl_categories C) v q = (c, x) \<Longrightarrow> c \<in> set (cl_categories C)" for v q
    using assms(1) by (auto simp: checked_category_def split: pyval.splits if_splits)
  ultimately show ?thesis
    using assms(2)
    by (auto simp: classify_with_embeddings_def classify_with_llm_def of_result_def bind_eq_Inr res_bind_eq_Inr
        split: if_splits)
qed

section \<open>Examples\<close>

definition demo_stage_env :: "string \<Rightarrow> pyval \<Rightarrow> stage_env" where
  "demo_stage_env good answer = \<lparr>sv_str = (\<lambda>v. case v of PStr x \<Rightarrow> x | _ \<Rightarrow> ''?''),
     sv_float = (\<lambda>v. case v of PFloat q \<Rightarrow> Inr q | _ \<Rightarrow> Inl (mk_exn TypeErrorC ''float'')),
     sv_loads = (\<lambda>x. if x = good then Inr answer else Inl (mk_exn ValueErrorC ''json'')), sv_dumps = (\<lambda>_. ''{}''),
     sv_render = (\<lambda>x _. Inr x), sv_sqrt = id, sv_now = 0, sv_later = 1\<rparr>"

definition demo_model :: "string \<Rightarrow> (unit, unit) AIMiddleware" where
  "demo_model answer = \<lparr>ai_capable = True, ai_identity = ''m'',
     ai_complete = (\<lambda>q p. (Inr \<lparr>rs_content = answer, rs_model = ''m'', rs_input = 1, rs_output = 1\<rparr>, p)), ai_cached = False,
     ai_cache_get = (\<lambda>t k c. (Inr None, c)), ai_cache_set = (\<lambda>t k v ttl c. (Inr (), c)), ai_cache_ttl = 60, ai_policy = None,
     ai_catalog = None, ai_key = (\<lambda>p _. p)\<rparr>"

definition demo_stage_state :: "(unit, unit) stage_state" where
  "demo_stage_state = \<lparr>sg_ai = \<lparr>as_usage = no_usage,
     as_metrics = \<lparr>am_hits = 0, am_misses = 0, am_calls = 0, am_input = 0, am_output = 0\<rparr>, as_cache = (), as_provider = ()\<rparr>,
     sg_embeddings = None, sg_counts = [], sg_pass = 0, sg_fail = 0\<rparr>"

definition demo_extract :: "unit ai_stage" where
  "demo_extract = ExtractStage \<lparr>ex_source = ''bio'', ex_extract = [(''age'', ''int'')], ex_system = [], ex_max_tokens = 10\<rparr>"

definition demo_person :: dict where
  "demo_person = [(''bio'', PStr ''born 1980''), (''age'', PInt 40), (''name'', PStr ''Ann'')]"

text \<open>
  The answer names a field that was not asked for, which is left out; and it has \<open>null\<close> for a field that the record
  has, which is overwritten, although the code's comment says that nulls are filtered.
\<close>

lemma extract_overwrites_with_null:
  "fst (stage_process (demo_model ''x'') (demo_stage_env ''x'' (PDict [(''age'', PNone), (''name'', PStr ''Bob'')])) OnPassthrough
     demo_extract demo_person demo_stage_state) =
   Inr (Some [(''bio'', PStr ''born 1980''), (''age'', PNone), (''name'', PStr ''Ann'')])"
  by code_simp

lemma ai_stage_writes_own_fields_only_witness:
  "map_of [(''bio'', PStr ''born 1980''), (''age'', PNone), (''name'', PStr ''Ann'')] ''name'' = map_of demo_person ''name''"
proof -
  let ?run = "stage_process (demo_model ''x'') (demo_stage_env ''x'' (PDict [(''age'', PNone), (''name'', PStr ''Bob'')])) OnPassthrough
     demo_extract demo_person demo_stage_state"
  have "?run = (Inr (Some [(''bio'', PStr ''born 1980''), (''age'', PNone), (''name'', PStr ''Ann'')]), snd ?run)"
    by (rule prod_eqI) (simp_all only: extract_overwrites_with_null fst_conv snd_conv)
  moreover have "\<not> own_field demo_extract ''name''" by (simp add: demo_extract_def)
  ultimately show ?thesis by (rule ai_stage_writes_own_fields_only)
qed

definition demo_quality :: "OnInvalid \<Rightarrow> unit ai_stage" where
  "demo_quality x = ValidateStage \<lparr>va_criteria = ''complete'', va_min_confidence = 4 / 5, va_flag_field = ''flag'',
     va_on_invalid = x, va_system = []\<rparr>"

text \<open>A verdict given as the text \<open>false\<close> counts as valid.\<close>

lemma textual_false_is_valid:
  "fst (stage_process (demo_model ''x'') (demo_stage_env ''x'' (PDict [(''valid'', PStr ''false'')])) OnPassthrough
     (demo_quality InvalidDrop) demo_person demo_stage_state) = Inr (Some demo_person)"
  by code_simp

text \<open>An answer that cannot be parsed lets the record through unvalidated, under the default policy.\<close>

lemma unparsed_verdict_passes:
  "fst (stage_process (demo_model ''oops'') (demo_stage_env ''x'' PNone) OnPassthrough (demo_quality InvalidDrop) demo_person
     demo_stage_state) = Inr (Some demo_person)"
  by code_simp

lemma quality_error_raised:
  "fst (stage_process (demo_model ''x'') (demo_stage_env ''x'' (PDict [(''valid'', PBool False)])) OnPassthrough
     (demo_quality InvalidRaise) demo_person demo_stage_state) = Inl (mk_exn DataQualityErrorC ''Data quality failure'')"
  by code_simp

lemma ai_stage_contains_failures_witness: "isinstance (mk_exn DataQualityErrorC ''Data quality failure'') DataQualityErrorC"
proof -
  let ?run = "stage_process (demo_model ''x'') (demo_stage_env ''x'' (PDict [(''valid'', PBool False)])) OnPassthrough
     (demo_quality InvalidRaise) demo_person demo_stage_state"
  have "?run = (Inl (mk_exn DataQualityErrorC ''Data quality failure''), snd ?run)"
    by (rule prod_eqI) (simp_all only: quality_error_raised fst_conv snd_conv)
  from ai_stage_contains_failures [OF this] show ?thesis by (simp add: is_Exception_def isinstance_def DataQualityErrorC_def)
qed

end
