(* ===== verification/Function_Stages.thy ===== *)
theory Function_Stages
  imports AI_Calls
begin

text \<open>
  The stages around one function of the application: \<^verbatim>\<open>middlewares/enrich.py\<close> and \<^verbatim>\<open>middlewares/validate.py\<close>. The
  enricher, the validator and the schema's constructor are computations on the application's state; whether a
  callable is awaited makes no difference to what it computes. Logging is left out.
\<close>

definition enrich_record ::
  "OnError \<Rightarrow> ('r \<Rightarrow> (exn, 's, 'r option) comp) \<Rightarrow> 'r \<Rightarrow> (exn, 's, 'r option) comp" where
  "enrich_record p enricher r = catch
     (bind (enricher r) (\<lambda>x. ret (Some (case x of None \<Rightarrow> r | Some y \<Rightarrow> y))))
     (\<lambda>e. if is_Exception e then (\<lambda>s. (ai_handle_error p e r, s)) else throw e)"

text \<open>A validator, or a schema that is called with a dict's items or validates another object.\<close>

record ('r, 's, 'u) validate_stage =
  vs_validator :: "('r \<Rightarrow> (exn, 's, 'u option) comp) option"
  vs_schema :: "('r \<Rightarrow> (exn, 's, 'u) comp) option"
  vs_on_error :: OnError

definition validate_stage_error :: "('r, 's, 'u) validate_stage \<Rightarrow> exn option" where
  "validate_stage_error V =
     (if vs_schema V = None \<and> vs_validator V = None
      then Some (mk_exn ValueErrorC ''requires either schema or validator'')
      else if vs_schema V \<noteq> None \<and> vs_validator V \<noteq> None
      then Some (mk_exn ValueErrorC ''Pass either schema or validator, not both'')
      else None)"

definition validate_record :: "('r, 's, 'u) validate_stage \<Rightarrow> 'r \<Rightarrow> (exn, 's, 'u option) comp" where
  "validate_record V r = catch
     (case vs_validator V of
        Some f \<Rightarrow> f r
      | None \<Rightarrow> (case vs_schema V of
          Some g \<Rightarrow> bind (g r) (\<lambda>x. ret (Some x))
        | None \<Rightarrow> throw (mk_exn TypeErrorC ''not callable'')))
     (\<lambda>e. if is_Exception e then (if vs_on_error V = OnRaise then throw e else ret None) else throw e)"

text \<open>
  Only what the validator returned gets past a validating stage: a record for which it raised is dropped or stops
  the pipeline, under every error policy, the one that passes records on included.
\<close>

theorem validated_only:
  assumes "validate_record V r s = (Inr (Some x), t)"
  shows "(\<exists>f. vs_validator V = Some f \<and> f r s = (Inr (Some x), t)) \<or> (\<exists>g. vs_schema V = Some g \<and> g r s = (Inr x, t))"
  using assms
  by (auto simp: validate_record_def catch_def bind_def ret_def throw_def split: option.splits prod.splits sum.splits if_splits)

text \<open>An enricher that fails leaves the record as it is, unless the policy drops it or raises.\<close>

lemma failed_enricher_passes:
  assumes "enricher r s = (Inl e, t)" "is_Exception e" "p = OnPassthrough \<or> p = OnLog"
  shows "enrich_record p enricher r s = (Inr (Some r), t)"
  using assms by (auto simp: enrich_record_def catch_def bind_def ai_handle_error_def)

definition demo_validator :: "(int, nat, int) validate_stage" where
  "demo_validator = \<lparr>vs_validator = Some (\<lambda>r s. (if r < 0 then Inl (mk_exn ValueErrorC ''negative'') else Inr (Some (r + 1)), s + 1)),
     vs_schema = None, vs_on_error = OnPassthrough\<rparr>"

lemma validated_only_witness:
  "(\<exists>f. vs_validator demo_validator = Some f \<and> f 5 0 = (Inr (Some 6), 1)) \<or> (\<exists>g. vs_schema demo_validator = Some g \<and> g 5 0 = (Inr 6, 1))"
  by (rule validated_only) (simp add: validate_record_def demo_validator_def catch_def)

lemma invalid_record_dropped: "validate_record demo_validator (-1) 0 = (Inr None, 1)"
  by (simp add: validate_record_def demo_validator_def catch_def is_Exception_def isinstance_def mk_exn_def ret_def)

end
