(* ===== verification/Process_Pool.thy ===== *)
theory Process_Pool
  imports Failures
begin

text \<open>
  Batches in worker processes: \<^verbatim>\<open>middlewares/process.py\<close>, \<^verbatim>\<open>core/runtime/_process.py\<close> and the codec for lists of
  \<^verbatim>\<open>core/runtime/_process_codec.py\<close>.

  A task is one call of \<open>process_batch\<close>; \<open>pl_tasks\<close> lists all of them in the order of submission, with the generation of
  the pool that each was given, and a task is registered while it is not \<open>Done\<close>. Between two waits a coroutine runs
  undisturbed, so a call is two steps: its submission, and its end with what the worker or a cancellation brought.
  Starting processes, pickling and logging are left out; the middleware for Arrow batches has the same text with
  another codec.

  Shown: a task that still runs belongs to the pool in use; what a batch gives has one row for every record; and a
  recycled pool turns the cancellation of the batches it drops into errors of those batches.
\<close>

section \<open>Errors and codec\<close>

datatype batch_exn =
    BatchErr (pb_index: nat) (pb_cause: batch_exn) (pb_timed_out: bool) (pb_invalidated: bool) (pb_generation: "nat option")
  | CodecErr string
  | OtherErr exn

text \<open>What the user's function can give.\<close>

datatype 'u py_result = ListResult "'u list" | SequenceResult "'u list" | TextResult | OtherResult

definition coerce_sequence :: "'u py_result \<Rightarrow> batch_exn + 'u list" where
  "coerce_sequence v = (case v of
     ListResult xs \<Rightarrow> Inr xs
   | SequenceResult xs \<Rightarrow> Inr xs
   | TextResult \<Rightarrow> Inl (CodecErr ''worker fn returned non-sequence result'')
   | OtherResult \<Rightarrow> Inl (CodecErr ''worker fn returned non-sequence result''))"

definition run_codec_batch :: "('t list \<Rightarrow> exn + 'u py_result) \<Rightarrow> 't list \<Rightarrow> batch_exn + 'u list" where
  "run_codec_batch fn batch = (case fn batch of Inl e \<Rightarrow> Inl (OtherErr e) | Inr v \<Rightarrow> coerce_sequence v)"

definition decode_from_worker :: "nat \<Rightarrow> 'u list \<Rightarrow> batch_exn + 'u list" where
  "decode_from_worker expected_rows rows =
     (if length rows \<noteq> expected_rows then Inl (CodecErr ''lengths must match'') else Inr rows)"

text \<open>How the wait of \<open>submit\<close> ends: the future is done, or the time is up.\<close>

datatype 'u wait_end = FutureDone "batch_exn + 'u list" | TimeUp

definition is_plain :: "batch_exn \<Rightarrow> bool" where
  "is_plain e = (case e of OtherErr x \<Rightarrow> is_Exception x | _ \<Rightarrow> True)"

definition is_timeout :: "batch_exn \<Rightarrow> bool" where
  "is_timeout e = (case e of OtherErr x \<Rightarrow> isinstance x TimeoutErrorC | _ \<Rightarrow> False)"

definition submit_result :: "nat \<Rightarrow> nat \<Rightarrow> 'u wait_end \<Rightarrow> batch_exn + 'u list" where
  "submit_result idx expected_rows w = (case w of
     TimeUp \<Rightarrow> Inl (BatchErr idx (OtherErr (mk_exn TimeoutErrorC [])) True False None)
   | FutureDone (Inr rows) \<Rightarrow> decode_from_worker expected_rows rows
   | FutureDone (Inl e) \<Rightarrow>
       if is_timeout e then Inl (BatchErr idx e True False None)
       else if is_plain e then Inl (BatchErr idx e False False None)
       else Inl e)"

section \<open>The pool\<close>

datatype 'u task_state = Waiting | CancelAsked | Finished "batch_exn + 'u list"

record 'u pool_task =
  pt_generation :: nat
  pt_rows :: nat
  pt_state :: "'u task_state"

datatype runner_state = NoRunner | OpenRunner | ClosedRunner

record 'u process_pool =
  pl_runner :: runner_state
  pl_generation :: nat
  pl_invalidated :: "(nat \<times> string) list"
  pl_tasks :: "'u pool_task list"

record pool_config =
  pc_max_workers :: "int option"
  pc_ordered :: bool
  pc_timeout :: "rat option"
  pc_max_in_flight :: int

definition pool_init_error :: "pool_config \<Rightarrow> exn option" where
  "pool_init_error K =
     (if (case pc_max_workers K of Some n \<Rightarrow> n < 1 | None \<Rightarrow> False) then Some (mk_exn ValueErrorC ''max_workers must be >= 1'')
      else if pc_max_in_flight K < 1 then Some (mk_exn ValueErrorC ''max_in_flight_batches must be >= 1'')
      else if (case pc_timeout K of Some t \<Rightarrow> t \<le> 0 | None \<Rightarrow> False) then Some (mk_exn ValueErrorC ''timeout_s must be > 0'')
      else None)"

definition batch_in_flight_limit :: "pool_config \<Rightarrow> int" where
  "batch_in_flight_limit K = (if pc_max_workers K = Some 1 then 1 else pc_max_in_flight K)"

text \<open>\<open>opened\<close> is what opening the executor raises, if it does.\<close>

definition pool_on_start :: "pool_config \<Rightarrow> exn option \<Rightarrow> exn + 'u process_pool" where
  "pool_on_start K opened =
     (if \<not> pc_ordered K \<and> pc_max_in_flight K > 1
      then Inl (mk_exn (UserC ''NotImplementedError'' RuntimeErrorC) ''unordered'')
      else case opened of
        Some e \<Rightarrow> Inl e
      | None \<Rightarrow> Inr \<lparr>pl_runner = OpenRunner, pl_generation = 0, pl_invalidated = [], pl_tasks = []\<rparr>)"

definition pool_on_stop :: "'u process_pool \<Rightarrow> 'u process_pool" where
  "pool_on_stop s = s\<lparr>pl_runner := NoRunner\<rparr>"

definition ask_cancel :: "nat \<Rightarrow> nat option \<Rightarrow> 'u process_pool \<Rightarrow> 'u process_pool" where
  "ask_cancel generation except s = s\<lparr>pl_tasks := map (\<lambda>(i, t).
     if pt_generation t = generation \<and> except \<noteq> Some i \<and> pt_state t = Waiting then t\<lparr>pt_state := CancelAsked\<rparr> else t)
     (List.enumerate 0 (pl_tasks s))\<rparr>"

definition invalidate :: "nat \<Rightarrow> string \<Rightarrow> 'u process_pool \<Rightarrow> 'u process_pool" where
  "invalidate generation reason s = s\<lparr>pl_invalidated := (generation, reason) # pl_invalidated s\<rparr>"

text \<open>\<open>_recycle_runner\<close>, called from task \<open>i\<close>; a pool that does not open leaves the old runner, which is closed.\<close>

definition recycle_runner :: "exn option \<Rightarrow> string \<Rightarrow> nat \<Rightarrow> nat \<Rightarrow> 'u process_pool \<Rightarrow> exn option \<times> 'u process_pool" where
  "recycle_runner opened reason i generation s =
     (if pl_runner s = NoRunner \<or> generation \<noteq> pl_generation s then (None, s)
      else let s = ask_cancel generation (Some i) (invalidate generation reason s);
               s = s\<lparr>pl_generation := pl_generation s + 1\<rparr> in
        case opened of
          Some e \<Rightarrow> (Some e, s\<lparr>pl_runner := ClosedRunner\<rparr>)
        | None \<Rightarrow> (None, s\<lparr>pl_runner := OpenRunner\<rparr>))"

definition abort_runner :: "string \<Rightarrow> 'u process_pool \<Rightarrow> 'u process_pool" where
  "abort_runner reason s =
     (if pl_runner s = NoRunner then s
      else let s = ask_cancel (pl_generation s) None (invalidate (pl_generation s) reason s) in
        s\<lparr>pl_runner := NoRunner, pl_generation := pl_generation s + 1\<rparr>)"

definition invalidated_error :: "nat \<Rightarrow> nat \<Rightarrow> 'u process_pool \<Rightarrow> batch_exn option" where
  "invalidated_error idx generation s = (case map_of (pl_invalidated s) generation of
     None \<Rightarrow> None
   | Some reason \<Rightarrow> Some (BatchErr idx (OtherErr (mk_exn RuntimeErrorC (''worker pool generation was invalidated due to '' @ reason)))
       False True (Some generation)))"

section \<open>A call of process_batch\<close>

text \<open>Until its wait; \<open>None\<close> where nothing is submitted, which raises. The index of a batch is its position.\<close>

definition submit_batch :: "nat \<Rightarrow> 'u process_pool \<Rightarrow> exn option \<times> 'u process_pool" where
  "submit_batch rows s = (case pl_runner s of
     NoRunner \<Rightarrow> (Some (mk_exn RuntimeErrorC ''used before on_start()''), s)
   | ClosedRunner \<Rightarrow> (None, s\<lparr>pl_tasks := pl_tasks s @ [\<lparr>pt_generation = pl_generation s, pt_rows = rows,
       pt_state = Finished (Inl (BatchErr (length (pl_tasks s)) (OtherErr (mk_exn RuntimeErrorC ''is already closed'')) False False None))\<rparr>]\<rparr>)
   | OpenRunner \<Rightarrow> (None, s\<lparr>pl_tasks := pl_tasks s @ [\<lparr>pt_generation = pl_generation s, pt_rows = rows, pt_state = Waiting\<rparr>]\<rparr>))"

definition finish_task :: "nat \<Rightarrow> batch_exn + 'u list \<Rightarrow> 'u process_pool \<Rightarrow> 'u process_pool" where
  "finish_task i r s = s\<lparr>pl_tasks := (pl_tasks s)[i := (pl_tasks s ! i)\<lparr>pt_state := Finished r\<rparr>]\<rparr>"

text \<open>The \<open>except\<close> clause for a cancellation.\<close>

definition task_cancelled :: "nat \<Rightarrow> exn \<Rightarrow> 'u process_pool \<Rightarrow> 'u process_pool" where
  "task_cancelled i e s = (case invalidated_error i (pt_generation (pl_tasks s ! i)) s of
     Some err \<Rightarrow> finish_task i (Inl err) s
   | None \<Rightarrow> finish_task i (Inl (OtherErr e)) (abort_runner ''cancellation'' s))"

text \<open>The other clauses, and the end without an exception.\<close>

definition task_resumed :: "exn option \<Rightarrow> nat \<Rightarrow> 'u wait_end \<Rightarrow> 'u process_pool \<Rightarrow> 'u process_pool" where
  "task_resumed opened i w s =
     (let t = pl_tasks s ! i; g = pt_generation t in
      case submit_result i (pt_rows t) w of
        Inr rows \<Rightarrow> finish_task i (case invalidated_error i g s of None \<Rightarrow> Inr rows | Some err \<Rightarrow> Inl err) s
      | Inl (CodecErr m) \<Rightarrow> finish_task i (Inl (OtherErr (mk_exn RuntimeErrorC m))) s
      | Inl (BatchErr n c timed_out iv g') \<Rightarrow>
          if timed_out
          then (case recycle_runner opened ''timeout'' i g s of
              (None, s) \<Rightarrow> finish_task i (Inl (BatchErr n c timed_out iv g')) s
            | (Some e, s) \<Rightarrow> finish_task i (Inl (OtherErr e)) s)
          else finish_task i (Inl (case invalidated_error i g s of
              Some err \<Rightarrow> err | None \<Rightarrow> BatchErr i (BatchErr n c timed_out iv g') False False (Some g))) s
      | Inl (OtherErr e) \<Rightarrow>
          if isinstance e CancelledErrorC then task_cancelled i e s
          else finish_task i (Inl (if is_Exception e then BatchErr i (OtherErr e) False False None else OtherErr e)) s)"

section \<open>Interleavings\<close>

inductive batch_step :: "'u process_pool \<Rightarrow> 'u process_pool \<Rightarrow> bool" where
  submitted: "submit_batch rows s = (e, t) \<Longrightarrow> batch_step s t"
| resumed: "i < length (pl_tasks s) \<Longrightarrow> pt_state (pl_tasks s ! i) = Waiting \<Longrightarrow> batch_step s (task_resumed opened i w s)"
| cancelled: "i < length (pl_tasks s) \<Longrightarrow> pt_state (pl_tasks s ! i) = Waiting \<or> pt_state (pl_tasks s ! i) = CancelAsked \<Longrightarrow>
    batch_step s (task_cancelled i (mk_exn CancelledErrorC []) s)"
| aborted: "batch_step s (abort_runner reason s)"
| stopped: "batch_step s (pool_on_stop s)"

definition pool_reachable :: "pool_config \<Rightarrow> 'u process_pool \<Rightarrow> bool" where
  "pool_reachable K s \<longleftrightarrow> (\<exists>s0. pool_on_start K None = Inr s0 \<and> batch_step\<^sup>*\<^sup>* s0 s)"

section \<open>Generations\<close>

text \<open>
  A waiting task belongs to the generation in use; one that was asked to cancel to an invalidated one, and the
  invalidated ones are exactly those before the one in use. Rows of a batch are as many as its records.
\<close>

definition task_ok :: "nat \<Rightarrow> 'u pool_task \<Rightarrow> bool" where
  "task_ok g t \<longleftrightarrow> (case pt_state t of
     Waiting \<Rightarrow> pt_generation t = g
   | CancelAsked \<Rightarrow> pt_generation t < g
   | Finished (Inr rows) \<Rightarrow> length rows = pt_rows t \<and> pt_generation t \<le> g
   | Finished (Inl _) \<Rightarrow> pt_generation t \<le> g)"

definition pool_inv :: "'u process_pool \<Rightarrow> bool" where
  "pool_inv s \<longleftrightarrow> set (map fst (pl_invalidated s)) = {..<pl_generation s} \<and> list_all (task_ok (pl_generation s)) (pl_tasks s)"

definition all_dropped :: "nat option \<Rightarrow> 'u process_pool \<Rightarrow> bool" where
  "all_dropped except s \<longleftrightarrow> set (map fst (pl_invalidated s)) = {..pl_generation s} \<and>
     (\<forall>i < length (pl_tasks s). except \<noteq> Some i \<longrightarrow> task_ok (pl_generation s + 1) (pl_tasks s ! i))"

lemma ask_cancel_sel [simp]:
  "pl_invalidated (ask_cancel g ex s) = pl_invalidated s" "pl_generation (ask_cancel g ex s) = pl_generation s"
  "pl_runner (ask_cancel g ex s) = pl_runner s" "length (pl_tasks (ask_cancel g ex s)) = length (pl_tasks s)"
  by (simp_all add: ask_cancel_def)

lemma ask_cancel_nth:
  "i < length (pl_tasks s) \<Longrightarrow> pl_tasks (ask_cancel g ex s) ! i =
     (let t = pl_tasks s ! i in
      if pt_generation t = g \<and> ex \<noteq> Some i \<and> pt_state t = Waiting then t\<lparr>pt_state := CancelAsked\<rparr> else t)"
  by (simp add: ask_cancel_def nth_enumerate_eq Let_def)

lemma task_ok_generation: "task_ok g t \<Longrightarrow> pt_generation t \<le> g"
  by (auto simp: task_ok_def split: task_state.splits sum.splits)

lemma task_ok_finished:
  "task_ok g (t\<lparr>pt_state := Finished r\<rparr>) \<longleftrightarrow> pt_generation t \<le> g \<and> (\<forall>rows. r = Inr rows \<longrightarrow> length rows = pt_rows t)"
  by (cases r) (auto simp: task_ok_def)

lemma task_ok_dropped:
  "task_ok g t \<Longrightarrow> task_ok (g + 1) (if pt_generation t = g \<and> pt_state t = Waiting then t\<lparr>pt_state := CancelAsked\<rparr> else t)"
  by (cases "pt_state t") (auto simp: task_ok_def split: sum.splits)

lemma dropped:
  assumes "pool_inv s"
  shows "all_dropped ex (ask_cancel (pl_generation s) ex (invalidate (pl_generation s) reason s))"
proof -
  have "task_ok (pl_generation s + 1) (pl_tasks (ask_cancel (pl_generation s) ex (invalidate (pl_generation s) reason s)) ! i)"
    if "i < length (pl_tasks s)" "ex \<noteq> Some i" for i
    using assms that task_ok_dropped [of "pl_generation s" "pl_tasks s ! i"]
    by (simp add: pool_inv_def list_all_length ask_cancel_nth invalidate_def Let_def)
  moreover have "{..pl_generation s} = insert (pl_generation s) {..<pl_generation s}" by auto
  ultimately show ?thesis using assms by (auto simp: all_dropped_def pool_inv_def invalidate_def)
qed

lemma finish_inv:
  assumes "pool_inv s" "i < length (pl_tasks s)" "pt_generation (pl_tasks s ! i) \<le> pl_generation s"
    and "\<And>rows. r = Inr rows \<Longrightarrow> length rows = pt_rows (pl_tasks s ! i)"
  shows "pool_inv (finish_task i r s)"
  using assms by (simp add: pool_inv_def finish_task_def list_all_length nth_list_update task_ok_finished)

lemma task_generation_le: "pool_inv s \<Longrightarrow> i < length (pl_tasks s) \<Longrightarrow> pt_generation (pl_tasks s ! i) \<le> pl_generation s"
  by (rule task_ok_generation) (simp add: pool_inv_def list_all_length)

lemma abort_inv: "pool_inv s \<Longrightarrow> pool_inv (abort_runner reason s)"
  using dropped [of s None reason]
  by (auto simp: abort_runner_def all_dropped_def pool_inv_def list_all_length Let_def invalidate_def lessThan_Suc_atMost)

lemma abort_sel:
  "length (pl_tasks (abort_runner reason s)) = length (pl_tasks s)"
  "i < length (pl_tasks s) \<Longrightarrow> pt_generation (pl_tasks (abort_runner reason s) ! i) = pt_generation (pl_tasks s ! i)"
  "i < length (pl_tasks s) \<Longrightarrow> pt_rows (pl_tasks (abort_runner reason s) ! i) = pt_rows (pl_tasks s ! i)"
  by (simp_all add: abort_runner_def Let_def invalidate_def ask_cancel_nth)

lemma cancelled_inv: "pool_inv s \<Longrightarrow> i < length (pl_tasks s) \<Longrightarrow> pool_inv (task_cancelled i e s)"
  unfolding task_cancelled_def
  by (auto split: option.split intro!: finish_inv abort_inv task_generation_le simp: abort_sel)

text \<open>After a recycling, finishing the task that caused it restores the invariant.\<close>

lemma recycle_finish_inv:
  assumes "pool_inv s" "i < length (pl_tasks s)" "recycle_runner opened reason i (pt_generation (pl_tasks s ! i)) s = (x, t)"
  shows "pool_inv (finish_task i (Inl e) t)"
proof (cases "pl_runner s = NoRunner \<or> pt_generation (pl_tasks s ! i) \<noteq> pl_generation s")
  case True
  with assms show ?thesis
    by (auto simp: recycle_runner_def intro!: finish_inv task_generation_le)
next
  case False
  let ?u = "ask_cancel (pl_generation s) (Some i) (invalidate (pl_generation s) reason s)"
  have drop: "set (map fst (pl_invalidated ?u)) = {..pl_generation s}"
      "\<And>j. j < length (pl_tasks s) \<Longrightarrow> j \<noteq> i \<Longrightarrow> task_ok (pl_generation s + 1) (pl_tasks ?u ! j)"
    using dropped [OF assms(1), of "Some i" reason] by (auto simp: all_dropped_def invalidate_def)
  have "pl_tasks t = pl_tasks ?u" "pl_invalidated t = pl_invalidated ?u" "pl_generation t = pl_generation s + 1"
    using False assms(3) by (auto simp: recycle_runner_def Let_def invalidate_def split: option.splits)
  moreover have "pt_generation (pl_tasks ?u ! i) \<le> pl_generation s + 1"
    using task_generation_le [OF assms(1,2)] assms(2) by (simp add: ask_cancel_nth invalidate_def Let_def)
  ultimately show ?thesis
    using drop assms(2)
    by (simp add: pool_inv_def finish_task_def list_all_length nth_list_update task_ok_finished lessThan_Suc_atMost
        invalidate_def)
qed

lemma finish_error_inv: "pool_inv s \<Longrightarrow> i < length (pl_tasks s) \<Longrightarrow> pool_inv (finish_task i (Inl e) s)"
  by (rule finish_inv) (simp_all add: task_generation_le)

lemma resumed_inv:
  assumes "pool_inv s" "i < length (pl_tasks s)"
  shows "pool_inv (task_resumed opened i w s)"
proof (cases "submit_result i (pt_rows (pl_tasks s ! i)) w")
  case (Inr rows)
  then have "length rows = pt_rows (pl_tasks s ! i)"
    by (auto simp: submit_result_def decode_from_worker_def split: wait_end.splits sum.splits if_splits)
  with assms Inr show ?thesis
    by (auto simp: task_resumed_def Let_def split: option.split intro: finish_inv task_generation_le)
next
  case (Inl err)
  show ?thesis
  proof (cases err)
    case (BatchErr n c timed_out iv g')
    obtain x u where "recycle_runner opened ''timeout'' i (pt_generation (pl_tasks s ! i)) s = (x, u)"
      by (metis surj_pair)
    with assms Inl BatchErr recycle_finish_inv [OF assms this] show ?thesis
      by (auto simp: task_resumed_def Let_def split: option.split intro: finish_error_inv)
  qed (use assms Inl in \<open>auto simp: task_resumed_def Let_def intro: finish_error_inv cancelled_inv\<close>)
qed

lemma submit_inv:
  assumes "pool_inv s" "submit_batch rows s = (e, t)" shows "pool_inv t"
proof -
  have "pool_inv (snd (submit_batch rows s))"
    using assms(1) by (cases "pl_runner s") (simp_all add: submit_batch_def pool_inv_def task_ok_def)
  with assms(2) show ?thesis by simp
qed

lemma stop_inv: "pool_inv s \<Longrightarrow> pool_inv (pool_on_stop s)"
  by (simp add: pool_on_stop_def pool_inv_def)

lemma batch_step_inv: "batch_step s t \<Longrightarrow> pool_inv s \<Longrightarrow> pool_inv t"
  by (induction rule: batch_step.induct) (blast intro: submit_inv resumed_inv cancelled_inv abort_inv stop_inv)+

lemma pool_reachable_inv:
  assumes "pool_reachable K s" shows "pool_inv s"
proof -
  from assms obtain s0 where s0: "pool_on_start K None = Inr s0" "batch_step\<^sup>*\<^sup>* s0 s" by (auto simp: pool_reachable_def)
  have "pool_inv s0" using s0(1) by (auto simp: pool_on_start_def pool_inv_def split: if_splits)
  with s0(2) show ?thesis by (induction rule: rtranclp_induct) (auto intro: batch_step_inv)
qed

text \<open>
  C21. Batches are isolated by the generation of their pool: however submissions, results, timeouts, cancellations and
  aborts interleave, a batch that still waits belongs to the pool in use, a batch of a dropped pool has been asked to
  cancel or has ended, and the rows a batch gives are as many as its records.
\<close>

theorem pool_generations_isolated:
  assumes "pool_reachable K s" and "i < length (pl_tasks s)"
  shows "task_ok (pl_generation s) (pl_tasks s ! i)"
  using pool_reachable_inv [OF assms(1)] assms(2) by (simp add: pool_inv_def list_all_length)

lemma invalidated_exists:
  assumes "pool_inv s" "g < pl_generation s"
  shows "\<exists>c. invalidated_error i g s = Some (BatchErr i c False True (Some g))"
proof -
  from assms have "g \<in> fst ` set (pl_invalidated s)" by (simp add: pool_inv_def)
  then obtain reason where "map_of (pl_invalidated s) g = Some reason"
    by (metis map_of_eq_None_iff not_None_eq)
  then show ?thesis by (simp add: invalidated_error_def)
qed

text \<open>
  A batch whose pool is recycled or aborted under it fails as a batch: the cancellation that reaches it becomes an
  error that names it and its generation, which the lane handles like any failed batch, and the pool in use by then is
  left alone.
\<close>

theorem dropped_batch_fails_as_batch:
  assumes "pool_reachable K s" and "i < length (pl_tasks s)" and "pt_state (pl_tasks s ! i) = CancelAsked"
  shows "\<exists>c. task_cancelled i e s =
    finish_task i (Inl (BatchErr i c False True (Some (pt_generation (pl_tasks s ! i))))) s"
proof -
  have inv: "pool_inv s" by (rule pool_reachable_inv [OF assms(1)])
  then have "task_ok (pl_generation s) (pl_tasks s ! i)" using assms(2) by (simp add: pool_inv_def list_all_length)
  with assms(3) have "pt_generation (pl_tasks s ! i) < pl_generation s" by (simp add: task_ok_def)
  from invalidated_exists [OF inv this, of i] show ?thesis
    by (elim exE, intro exI) (simp add: task_cancelled_def)
qed

text \<open>A timeout leaves a pool that takes batches, unless a new one cannot be opened.\<close>

lemma timeout_leaves_open_pool:
  assumes "pool_inv s" "pl_runner s = OpenRunner" "i < length (pl_tasks s)" "pt_state (pl_tasks s ! i) = Waiting"
  shows "pl_runner (task_resumed None i TimeUp s) = OpenRunner \<and>
    pl_generation (task_resumed None i TimeUp s) = pl_generation s + 1"
proof -
  have "pt_generation (pl_tasks s ! i) = pl_generation s"
    using assms(1,3,4) by (auto simp: pool_inv_def list_all_length task_ok_def dest!: spec [of _ i])
  with assms(2) show ?thesis
    by (simp add: task_resumed_def submit_result_def recycle_runner_def finish_task_def Let_def invalidate_def)
qed

section \<open>Examples\<close>

definition demo_pool_config :: pool_config where
  "demo_pool_config = \<lparr>pc_max_workers = Some 2, pc_ordered = True, pc_timeout = Some 60, pc_max_in_flight = 4\<rparr>"

definition started_pool :: "nat process_pool" where
  "started_pool = \<lparr>pl_runner = OpenRunner, pl_generation = 0, pl_invalidated = [], pl_tasks = []\<rparr>"

definition two_batches :: "nat process_pool" where
  "two_batches = snd (submit_batch 3 (snd (submit_batch 2 started_pool)))"

lemma two_batches_reachable: "pool_reachable demo_pool_config two_batches"
proof -
  have step: "batch_step s (snd (submit_batch n s))" for n and s :: "nat process_pool"
    by (rule batch_step.submitted) (rule prod.collapse [symmetric])
  have "batch_step\<^sup>*\<^sup>* started_pool two_batches"
    unfolding two_batches_def using step [of started_pool 2] step by (rule converse_rtranclp_into_rtranclp [OF _ r_into_rtranclp])
  moreover have "pool_on_start demo_pool_config None = Inr started_pool" by code_simp
  ultimately show ?thesis by (auto simp: pool_reachable_def)
qed

text \<open>The first of two batches times out: the second is asked to cancel.\<close>

definition recycled_pool :: "nat process_pool" where
  "recycled_pool = task_resumed None 0 TimeUp two_batches"

lemma recycled_pool_is: "length (pl_tasks recycled_pool) = 2" "pt_state (pl_tasks recycled_pool ! 1) = CancelAsked"
    "pl_generation recycled_pool = 1" "pl_runner recycled_pool = OpenRunner"
  by code_simp+

lemma recycled_reachable: "pool_reachable demo_pool_config recycled_pool"
proof -
  have "batch_step two_batches recycled_pool"
    unfolding recycled_pool_def by (rule batch_step.resumed) code_simp+
  with two_batches_reachable show ?thesis by (auto simp: pool_reachable_def intro: rtranclp.rtrancl_into_rtrancl)
qed

lemma pool_generations_isolated_witness: "task_ok 1 (pl_tasks recycled_pool ! 1)"
  using pool_generations_isolated [OF recycled_reachable, of 1] recycled_pool_is by simp

lemma dropped_batch_fails_as_batch_witness:
  "\<exists>c. task_cancelled 1 (mk_exn CancelledErrorC []) recycled_pool =
    finish_task 1 (Inl (BatchErr 1 c False True (Some (pt_generation (pl_tasks recycled_pool ! 1))))) recycled_pool"
  using recycled_pool_is by (intro dropped_batch_fails_as_batch [OF recycled_reachable]) simp_all

text \<open>
  A \<open>TimeoutError\<close> that the user's function raises is taken for the batch's own timeout: the pool is recycled and the
  other batch dropped, whether or not a timeout is configured.
\<close>

lemma user_timeout_recycles_pool:
  "let s = task_resumed None 0 (FutureDone (Inl (OtherErr (mk_exn TimeoutErrorC ''read timed out'')))) two_batches in
     pl_generation s = 1 \<and> pt_state (pl_tasks s ! 1) = CancelAsked"
  by code_simp

text \<open>One cancelled batch closes the pool, and the next is refused as if the stage had not been started.\<close>

lemma cancelled_batch_closes_pool:
  "fst (submit_batch 1 (task_cancelled 0 (mk_exn CancelledErrorC []) two_batches)) =
     Some (mk_exn RuntimeErrorC ''used before on_start()'')"
  by code_simp

end
