(* ===== verification/Direct_Flush.thy ===== *)
theory Direct_Flush
  imports Delivery_Batches
begin

text \<open>
  \<open>flush_batch_direct\<close> of \<^verbatim>\<open>core/runtime/_delivery.py\<close>, the flush that the Rust batch buffer of the
  linear lane uses, compared with the regular path through the queue of pending writes.
\<close>

section \<open>The direct flush\<close>

definition direct_items ::
  "pyobj list \<Rightarrow> pyobj list \<Rightarrow> pyval list \<Rightarrow> hook list option list \<Rightarrow> PendingWrite list" where
  "direct_items processed_list raw_list checkpoint_list hooks_list =
     map mk_pending (zip processed_list (zip raw_list (zip checkpoint_list hooks_list)))"

definition direct_hooks ::
  "pyobj list \<Rightarrow> pyobj list \<Rightarrow> hook list option list \<Rightarrow> ('e, hook list option list) run" where
  "direct_hooks processed_list raw_list on_success_list =
     map_m (\<lambda>(raw, p, os). success_hook_for raw (Some p) os) (zip raw_list (zip processed_list on_success_list))"

lemma direct_hooks_emits: "steps_in (emits P) (direct_hooks ps raws oss)"
  unfolding direct_hooks_def by (auto intro!: steps_intro split: prod.split)

lemma direct_items_processed:
  assumes "length ps = length raws" "length raws = length cks" "length cks = length hs"
  shows "map pw_processed (direct_items ps raws cks hs) = ps"
  using assms
  by (auto simp: direct_items_def mk_pending_def comp_def split_def intro!: nth_equalityI)

definition settle_written ::
  "'e DeliveryEngine \<Rightarrow> PendingWrite list \<Rightarrow> (exn + WriteResult list) \<Rightarrow> ('e, unit) run" where
  "settle_written D items y = (case y of
       Inr ws \<Rightarrow> bind (validate_write_result_count (length items) (length ws)) (\<lambda>_.
         bind (resolve_items D (zip items ws)) (commit_outcomes D))
     | Inl e \<Rightarrow> if isinstance e FenceLostErrorC \<or> \<not> is_Exception e then throw e
              else flush_batch_outcomes D e items)"

lemma validate_then_not_all_ok:
  assumes "length ws = n \<Longrightarrow> \<not> list_all wr_ok ws"
  shows "bind (validate_write_result_count n (length ws)) (\<lambda>_. if list_all wr_ok ws then A else B)
    = bind (validate_write_result_count n (length ws)) (\<lambda>_. B)"
  using assms by (auto simp: validate_write_result_count_def)

lemma flush_once_settles:
  assumes w: "write_batch D (map pw_processed items) u = (y, v)"
    and u: "rs_pending u = []" and ne: "items \<noteq> []"
    and bad: "\<And>ws. y = Inr ws \<Longrightarrow> length ws = length items \<Longrightarrow> \<not> list_all wr_ok ws"
  shows "flush_pending_writes_once D (u\<lparr>rs_pending := items\<rparr>) = settle_written D items y v"
proof -
  have "u\<lparr>rs_pending := []\<rparr> = u" using u by simp
  with ne bad show ?thesis
    by (auto simp: flush_pending_writes_once_def settle_written_def Let_def validate_then_not_all_ok
        try_write_eq [where m = "write_batch D (map pw_processed items)", OF w] split: sum.splits)
qed

lemma direct_flush_settles:
  assumes len: "length ps = length raws" "length raws = length cks" "length cks = length oss"
    and ne: "ps \<noteq> []" and hooks: "direct_hooks ps raws oss s = (Inr hs, u)"
    and w: "write_batch D ps u = (y, v)"
    and bad: "\<And>ws. y = Inr ws \<Longrightarrow> length ws = length ps \<Longrightarrow> \<not> list_all wr_ok ws"
  shows "flush_batch_direct D ps raws cks (Some oss) s = settle_written D (direct_items ps raws cks hs) y v"
proof -
  have "length hs = length ps"
    using map_m_length hooks len unfolding direct_hooks_def by fastforce
  then have "length (direct_items ps raws cks hs) = length ps" using len by (simp add: direct_items_def)
  with assms show ?thesis
    by (auto simp: flush_batch_direct_def settle_written_def direct_hooks_def [symmetric]
        direct_items_def [symmetric] bind_apply_Inr Let_def validate_then_not_all_ok
        try_write_eq [where m = "write_batch D ps", OF w] split: sum.splits)
qed

text \<open>
  C17. The direct flush handles failures as the regular path does: on equal lists, and unless every
  record was written, \<open>flush_batch_direct\<close> does exactly what popping the hooks, queueing the items and
  \<open>flush_pending_writes\<close> do: same result, same events, same metrics, same checkpoint state.
\<close>

theorem flush_batch_direct_failure_equiv:
  assumes len: "length ps = length raws" "length raws = length cks" "length cks = length oss"
    and pend: "rs_pending s = []"
    and bad: "\<forall>hs u ws v. direct_hooks ps raws oss s = (Inr hs, u) \<longrightarrow>
       write_batch D ps u = (Inr ws, v) \<longrightarrow> length ws = length ps \<longrightarrow> \<not> list_all wr_ok ws"
  shows "flush_batch_direct D ps raws cks (Some oss) s =
     bind (direct_hooks ps raws oss) (\<lambda>hs.
     bind (modify (\<lambda>s. s\<lparr>rs_pending := direct_items ps raws cks hs\<rparr>)) (\<lambda>_.
       flush_pending_writes D)) s"
proof (cases "ps = []")
  case True
  with len pend show ?thesis
    by (auto simp: flush_batch_direct_def direct_hooks_def direct_items_def flush_pending_writes_def
        flush_pending_writes_once_def skip_def ret_def bind_def modify_def get_state_def)
next
  case False
  obtain x u where hooks: "direct_hooks ps raws oss s = (x, u)" by (cases "direct_hooks ps raws oss s")
  have pu: "rs_pending u = []"
    using steps_inD [OF direct_hooks_emits [of "\<lambda>_. True"] hooks] pend by (simp add: emits_def)
  show ?thesis
  proof (cases x)
    case (Inl e)
    with hooks len False show ?thesis
      by (simp add: flush_batch_direct_def direct_hooks_def bind_def)
  next
    case (Inr hs)
    let ?items = "direct_items ps raws cks hs"
    have lh: "length hs = length ps"
      using map_m_length hooks Inr len unfolding direct_hooks_def by fastforce
    have il: "length ?items = length ps" using lh len by (simp add: direct_items_def)
    have ip: "map pw_processed ?items = ps" using lh len by (intro direct_items_processed) auto
    obtain y v where w: "write_batch D ps u = (y, v)" by (cases "write_batch D ps u")
    have nok: "\<not> list_all wr_ok ws" if "y = Inr ws" "length ws = length ps" for ws
      using bad hooks Inr w that by auto
    have "flush_pending_writes_once D (u\<lparr>rs_pending := ?items\<rparr>) = settle_written D ?items y v"
      using il ip w pu False nok by (intro flush_once_settles) auto
    moreover have "flush_batch_direct D ps raws cks (Some oss) s = settle_written D ?items y v"
      using len False hooks Inr w nok by (intro direct_flush_settles) auto
    ultimately show ?thesis
      using hooks Inr by (simp add: bind_apply_Inr flush_pending_writes_def)
  qed
qed

theorem flush_batch_direct_failure_equiv_witness:
  "fst (flush_batch_direct (demo_engine sink_bad2 None SINK_FAIL_CLOSED 1) [demo_obj 1, demo_obj 2]
       [demo_obj 1, demo_obj 2] [PInt 1, PInt 2] (Some [None, None]) (init_state ())) =
     Inl (RecordDeliveryError (mk_exn ValueErrorC ''bad'')) \<and>
   flush_batch_direct (demo_engine sink_bad2 None SINK_FAIL_CLOSED 1) [demo_obj 1, demo_obj 2]
       [demo_obj 1, demo_obj 2] [PInt 1, PInt 2] (Some [None, None]) (init_state ()) =
     bind (direct_hooks [demo_obj 1, demo_obj 2] [demo_obj 1, demo_obj 2] [None, None]) (\<lambda>hs.
     bind (modify (\<lambda>s. s\<lparr>rs_pending := direct_items [demo_obj 1, demo_obj 2] [demo_obj 1, demo_obj 2]
         [PInt 1, PInt 2] hs\<rparr>)) (\<lambda>_.
       flush_pending_writes (demo_engine sink_bad2 None SINK_FAIL_CLOSED 1))) (init_state ())"
proof -
  let ?D = "demo_engine sink_bad2 None SINK_FAIL_CLOSED 1"
  have w: "fst (write_batch ?D [demo_obj 1, demo_obj 2] u) = Inl (mk_exn ValueErrorC ''bad'')" for u
    by (simp add: write_batch_def assert_run_fence_active_def demo_engine_def sink_bad2_def demo_obj_def
        bind_def skip_def ret_def call_env_def)
  have "write_batch ?D [demo_obj 1, demo_obj 2] u \<noteq> (Inr ws, v)" for u v ws
    using w [of u] by auto
  moreover have "fst (flush_batch_direct ?D [demo_obj 1, demo_obj 2] [demo_obj 1, demo_obj 2]
      [PInt 1, PInt 2] (Some [None, None]) (init_state ())) =
     Inl (RecordDeliveryError (mk_exn ValueErrorC ''bad''))" by code_simp
  ultimately show ?thesis
    using flush_batch_direct_failure_equiv [of "[demo_obj 1, demo_obj 2]" "[demo_obj 1, demo_obj 2]"
        "[PInt 1, PInt 2]" "[None, None]" "init_state ()" ?D]
    by (simp add: init_state_def)
qed

definition saved_values :: "event list \<Rightarrow> pyval list" where
  "saved_values tr = concat (map (\<lambda>e. case e of ESave c True \<Rightarrow> [cp_value c] | _ \<Rightarrow> []) tr)"

definition queue_demo :: "nat \<Rightarrow> (unit, unit) run" where
  "queue_demo i = queue_success_record (demo_engine sink_ok None SINK_FAIL_CLOSED 3)
     (demo_obj i) (demo_obj i) (PInt (int i)) 2 None"

definition direct_demo :: "nat list \<Rightarrow> (unit, unit) run" where
  "direct_demo is = flush_batch_direct (demo_engine sink_ok None SINK_FAIL_CLOSED 3)
     (map demo_obj is) (map demo_obj is) (map (PInt \<circ> int) is) None"

text \<open>
  On success the two paths keep different checkpoints: the regular path counts the records of the
  batch one by one and stores the last one that falls on the \<open>checkpoint_every\<close> grid, the direct path
  only looks at the count after the whole batch. With two batches of two records and
  \<open>checkpoint_every = 3\<close>, the regular path stores the checkpoint of record 3 and the direct path stores
  nothing, although its documentation promises the same checkpoint semantics.
\<close>

theorem direct_flush_checkpoint_cadence_differs:
  "saved_values (rs_trace (snd (for_each [1, 2, 3, 4] queue_demo (init_state ())))) = [PInt 3] \<and>
   saved_values (rs_trace (snd (for_each [[1, 2], [3, 4]] direct_demo (init_state ())))) = []"
proof
  show "saved_values (rs_trace (snd (for_each [1, 2, 3, 4] queue_demo (init_state ())))) = [PInt 3]"
    by code_simp
  show "saved_values (rs_trace (snd (for_each [[1, 2], [3, 4]] direct_demo (init_state ())))) = []"
    by code_simp
qed

end
