(* ===== verification/Batch_Lane.thy ===== *)
theory Batch_Lane
  imports Delivery_Batches Middleware Hot_Metrics
begin

text \<open>
  \<^verbatim>\<open>core/runtime/_delivery_batch_write.py\<close>, \<open>DeliveryEngine.write_batch_result\<close> and
  \<^verbatim>\<open>core/runtime/_lanes/_batch.py\<close>: the lane of sources that emit whole batches. All the records of a
  batch share one checkpoint, the source's position after the batch.

  A \<open>pyarrow.RecordBatch\<close> is the list of its rows (\<open>len\<close> and \<open>to_pylist\<close> are all the code uses of it);
  the Arrow-native writer and the Arrow stages are parameters. Pipelined batch stages, which keep
  several batches in flight, are in \<open>Pipelined_Lane\<close>.
\<close>

section \<open>Batch write strategies\<close>

definition dlq_all ::
  "'e DeliveryEngine \<Rightarrow> string \<Rightarrow> exn \<Rightarrow> dlq_args list \<Rightarrow> ('e, bool) run" where
  "dlq_all D stage exc args =
     fold_m (\<lambda>a routed. bind (dlq_write D stage exc a) (\<lambda>ok. ret (routed \<and> ok))) args True"

definition batch_failure_args :: "BatchFailure \<Rightarrow> pyval \<Rightarrow> pyobj \<Rightarrow> dlq_args" where
  "batch_failure_args bf v raw = \<lparr>da_record = Some raw, da_original = Some raw, da_processed = None,
     da_source = None, da_checkpoint = v, da_middleware = Some (bf_middleware bf), da_sink = None\<rparr>"

definition write_batch_middleware_failure ::
  "'e DeliveryEngine \<Rightarrow> pyobj list \<Rightarrow> pyval \<Rightarrow> BatchFailure \<Rightarrow> ('e, unit) run" where
  "write_batch_middleware_failure D raw_batch v bf =
     bind (incr_errored (int (length raw_batch))) (\<lambda>_.
       if de_dlq_sink D \<noteq> None then
         bind (dlq_all D ''batch_middleware'' (bf_exception bf) (map (batch_failure_args bf v) raw_batch)) (\<lambda>routed.
           if routed \<or> de_sink_failure_policy D = SINK_LOG_AND_CONTINUE
           then save_batch_checkpoint D v (int (length raw_batch))
           else skip)
       else if de_sink_failure_policy D = SINK_LOG_AND_CONTINUE
       then save_batch_checkpoint D v (int (length raw_batch))
       else throw (RecordDeliveryError (bf_exception bf)))"

text \<open>
  What both strategies do when the writer raises for the whole batch: every record goes to the
  dead-letter queue, and only then is the batch checkpointed and its hooks run.
\<close>

definition batch_write_error ::
  "'e DeliveryEngine \<Rightarrow> (pyobj \<times> pyobj) list \<Rightarrow> pyval \<Rightarrow> int \<Rightarrow> hook list option list \<Rightarrow> exn \<Rightarrow>
     ('e, unit) run" where
  "batch_write_error D pairs v n dropped_hooks exc =
     bind (dlq_all D ''sink_write'' exc (map (\<lambda>(raw, p). sink_dlq_args raw p v) pairs)) (\<lambda>routed.
     bind (incr_errored (int (length pairs))) (\<lambda>_.
       if routed \<or> de_sink_failure_policy D = SINK_LOG_AND_CONTINUE then
         bind (save_batch_checkpoint D v n) (\<lambda>_.
         bind (for_each dropped_hooks (run_on_success D)) (\<lambda>_.
           if routed
           then for_each pairs (\<lambda>(raw, p). bind (success_hook_for raw (Some p) None) (run_on_success D))
           else skip))
       else throw (RecordDeliveryError exc)))"

definition resolve_pairs ::
  "'e DeliveryEngine \<Rightarrow> pyval \<Rightarrow> ((pyobj \<times> pyobj) \<times> WriteResult) list \<Rightarrow> ('e, CommitOutcome list) run" where
  "resolve_pairs D v items = map_m (\<lambda>((raw, p), w).
     bind (success_hook_for raw (Some p) None) (engine_resolve_write_result D w raw p v)) items"

definition write_batch_passthrough ::
  "'e DeliveryEngine \<Rightarrow> pyobj list \<Rightarrow> pyval \<Rightarrow> ('e, unit) run" where
  "write_batch_passthrough D raw_batch v =
     (let pairs = map (\<lambda>r. (r, r)) raw_batch in
      try_write (write_batch D raw_batch)
        (batch_write_error D pairs v (int (length raw_batch)) [])
        (\<lambda>ws.
          bind (validate_write_result_count (length raw_batch) (length ws)) (\<lambda>_.
          bind (resolve_pairs D v (zip pairs ws)) (commit_outcomes D))))"

text \<open>
  \<open>write_batch_filtered\<close>. Its \<open>zip(..., strict=True)\<close> raises when the chain returned a list of another
  length. The outcomes of the dropped records come first.
\<close>

definition live_pairs :: "pyobj list \<Rightarrow> pyobj option list \<Rightarrow> (pyobj \<times> pyobj) list" where
  "live_pairs raw_batch results =
     map (\<lambda>(r, p). (r, the p)) (filter (\<lambda>(r, p). p \<noteq> None) (zip raw_batch results))"

definition dropped_raws :: "pyobj list \<Rightarrow> pyobj option list \<Rightarrow> pyobj list" where
  "dropped_raws raw_batch results = map fst (filter (\<lambda>(r, p). p = None) (zip raw_batch results))"

definition write_batch_filtered ::
  "'e DeliveryEngine \<Rightarrow> pyobj option list \<Rightarrow> pyobj list \<Rightarrow> pyval \<Rightarrow> ('e, unit) run" where
  "write_batch_filtered D results raw_batch v =
     (if length raw_batch \<noteq> length results
      then throw (mk_exn ValueErrorC ''zip() arguments have different lengths'')
      else
        let pairs = live_pairs raw_batch results in
        bind (incr_dropped (int (length results) - int (length pairs))) (\<lambda>_.
        bind (map_m (\<lambda>r. success_hook_for r None None) (dropped_raws raw_batch results)) (\<lambda>dropped_hooks.
          if pairs = [] then
            bind (save_batch_checkpoint D v (int (length results))) (\<lambda>_.
              for_each dropped_hooks (run_on_success D))
          else
            try_write (write_batch D (map snd pairs))
              (batch_write_error D pairs v (int (length results)) dropped_hooks)
              (\<lambda>ws.
                bind (validate_write_result_count (length pairs) (length ws)) (\<lambda>_.
                bind (resolve_pairs D v (zip pairs ws)) (\<lambda>outcomes.
                  commit_outcomes D (map (Dropped v) dropped_hooks @ outcomes)))))))"

definition write_batch_result ::
  "'e DeliveryEngine \<Rightarrow> BatchProcessResult \<Rightarrow> pyobj list \<Rightarrow> pyval \<Rightarrow> ('e, unit) run" where
  "write_batch_result D result raw_batch v = (case bp_failure result of
       Some bf \<Rightarrow> write_batch_middleware_failure D raw_batch v bf
     | None \<Rightarrow>
         if bp_same result then write_batch_passthrough D raw_batch v
         else write_batch_filtered D (bp_results result) raw_batch v)"

section \<open>The lane on lists\<close>

definition finalize_list_batch_result ::
  "'e DeliveryEngine \<Rightarrow> BatchProcessResult \<Rightarrow> pyobj list \<Rightarrow> pyval \<Rightarrow> ('e, unit) run" where
  "finalize_list_batch_result D result raw_batch v =
     bind (write_batch_result D result raw_batch v) (\<lambda>_. hot_flush (de_source_name D))"

definition list_batch_step ::
  "'e DeliveryEngine \<Rightarrow> 'e Middleware list \<Rightarrow> pyobj list \<times> pyval \<Rightarrow> ('e, unit) run" where
  "list_batch_step D mws b = (case b of (raw_batch, v) \<Rightarrow>
     bind (hot_inc_consumed (int (length raw_batch))) (\<lambda>_.
     bind (process_batch mws raw_batch) (\<lambda>result.
       finalize_list_batch_result D result raw_batch v)))"

section \<open>The lane on Arrow batches\<close>

record 'e arrow_io =
  ar_native :: "(pyobj list \<Rightarrow> 'e \<Rightarrow> (exn + unit) \<times> 'e) option"
  ar_process :: "pyobj list \<Rightarrow> ('e, BatchFailure + pyobj list) run"
  ar_chain_empty :: bool

definition all_written :: "pyobj list \<Rightarrow> WriteResult list" where
  "all_written rows = map (\<lambda>_. \<lparr>wr_written = True, wr_errors = []\<rparr>) rows"

definition write_arrow_batch ::
  "'e DeliveryEngine \<Rightarrow> (pyobj list \<Rightarrow> 'e \<Rightarrow> (exn + unit) \<times> 'e) \<Rightarrow> pyobj list \<Rightarrow> ('e, unit) run" where
  "write_arrow_batch D sink batch =
     bind (assert_run_fence_active D) (\<lambda>_.
     bind (call_env (sink batch) (\<lambda>r. [EWrite batch (map_sum id (\<lambda>_. all_written batch) r)])) (\<lambda>_.
       upd_metrics (record_flush_metrics (int (length batch)))))"

text \<open>The body of the two \<open>try\<close> statements: write the batch, natively or row by row.\<close>

definition arrow_write ::
  "'e DeliveryEngine \<Rightarrow> 'e arrow_io \<Rightarrow> pyobj list \<Rightarrow> ('e, unit) run" where
  "arrow_write D A rows =
     bind (case ar_native A of
             Some sink \<Rightarrow> write_arrow_batch D sink rows
           | None \<Rightarrow>
               bind (write_batch D rows) (\<lambda>results.
                 case concat (map wr_errors results) of
                   e # _ \<Rightarrow> throw e
                 | [] \<Rightarrow>
                     if list_all wr_written results then skip
                     else throw (mk_exn RuntimeErrorC
                       ''arrow batch fallback write did not write all records''))) (\<lambda>_.
     bind (hot_inc_written (int (length rows))) (\<lambda>_.
     bind (hot_inc_consumed 0) (\<lambda>due.
       if due then hot_flush (de_source_name D) else skip)))"

text \<open>
  The handler of the two \<open>try\<close> statements. \<open>routed\<close> starts as \<open>True\<close> and only the dead-letter writes can
  make it false. \<open>zip(raw_rows, processed_rows, strict=True)\<close> raises once the shorter list is used up.
\<close>

definition arrow_write_error ::
  "'e DeliveryEngine \<Rightarrow> pyobj list \<Rightarrow> pyobj list \<Rightarrow> pyval \<Rightarrow> exn \<Rightarrow> ('e, unit) run" where
  "arrow_write_error D raw_rows rows v exc =
     bind (incr_errored (int (length rows))) (\<lambda>_.
     bind (if de_dlq_sink D \<noteq> None then
             bind (dlq_all D ''sink_write'' exc (map (\<lambda>(raw, p). sink_dlq_args raw p v) (zip raw_rows rows))) (\<lambda>ok.
               if length raw_rows \<noteq> length rows
               then throw (mk_exn ValueErrorC ''zip() arguments have different lengths'')
               else ret ok)
           else ret True) (\<lambda>routed.
       if routed \<or> de_sink_failure_policy D = SINK_LOG_AND_CONTINUE then skip
       else throw (RecordDeliveryError exc)))"

definition try_except :: "('e, unit) run \<Rightarrow> (exn \<Rightarrow> ('e, unit) run) \<Rightarrow> ('e, unit) run" where
  "try_except m h = catch m (\<lambda>e. if is_Exception e then h e else throw e)"

definition write_passthrough_arrow_batch ::
  "'e DeliveryEngine \<Rightarrow> 'e arrow_io \<Rightarrow> pyobj list \<Rightarrow> pyval \<Rightarrow> ('e, unit) run" where
  "write_passthrough_arrow_batch D A batch v =
     bind (try_except (arrow_write D A batch) (arrow_write_error D batch batch v)) (\<lambda>_.
     bind (save_batch_checkpoint D v (int (length batch))) (\<lambda>_. hot_flush (de_source_name D)))"

definition finalize_arrow_batch_result ::
  "'e DeliveryEngine \<Rightarrow> 'e arrow_io \<Rightarrow> BatchFailure + pyobj list \<Rightarrow> pyobj list \<Rightarrow> pyval \<Rightarrow> ('e, unit) run" where
  "finalize_arrow_batch_result D A result raw_batch v = (case result of
       Inl bf \<Rightarrow>
         bind (incr_errored (int (length raw_batch))) (\<lambda>_.
         bind (if de_dlq_sink D \<noteq> None
               then dlq_all D ''batch_middleware'' (bf_exception bf) (map (batch_failure_args bf v) raw_batch)
               else ret True) (\<lambda>routed.
         bind (if routed \<or> de_sink_failure_policy D = SINK_LOG_AND_CONTINUE
               then save_batch_checkpoint D v (int (length raw_batch))
               else throw (RecordDeliveryError (bf_exception bf))) (\<lambda>_.
           hot_flush (de_source_name D))))
     | Inr out_batch \<Rightarrow>
         if out_batch = [] then
           bind (save_batch_checkpoint D v (int (length raw_batch))) (\<lambda>_. hot_flush (de_source_name D))
         else
           bind (try_except (arrow_write D A out_batch) (arrow_write_error D raw_batch out_batch v)) (\<lambda>_.
           bind (save_batch_checkpoint D v (int (length raw_batch))) (\<lambda>_. hot_flush (de_source_name D))))"

definition arrow_batch_step ::
  "'e DeliveryEngine \<Rightarrow> 'e arrow_io \<Rightarrow> pyobj list \<times> pyval \<Rightarrow> ('e, unit) run" where
  "arrow_batch_step D A b = (case b of (batch, v) \<Rightarrow>
     bind (hot_inc_consumed (int (length batch))) (\<lambda>_.
       if ar_chain_empty A then write_passthrough_arrow_batch D A batch v
       else bind (ar_process A batch) (\<lambda>result. finalize_arrow_batch_result D A result batch v)))"

definition batch_lane_run ::
  "'e DeliveryEngine \<Rightarrow> 'e Middleware list \<Rightarrow> 'e arrow_io option \<Rightarrow> (pyobj list \<times> pyval) list \<Rightarrow> exn option \<Rightarrow>
     ('e, unit) run" where
  "batch_lane_run D mws arrow batches src_end =
     bind (modify (\<lambda>s. s\<lparr>rs_pending := [], rs_processed_count := 0, rs_hot := hot_init\<rparr>)) (\<lambda>_.
     bind (for_each batches (case arrow of
             Some A \<Rightarrow> arrow_batch_step D A | None \<Rightarrow> list_batch_step D mws)) (\<lambda>_.
     bind (case src_end of None \<Rightarrow> skip | Some e \<Rightarrow> throw e) (\<lambda>_.
       hot_flush (de_source_name D))))"

section \<open>A batch whose call returns is settled\<close>

lemma dead_lettered_append:
  "dead_lettered D raw a \<Longrightarrow> dead_lettered D raw (a @ b)" "dead_lettered D raw b \<Longrightarrow> dead_lettered D raw (a @ b)"
  by (auto elim!: dead_lettered_mono)

lemma dlq_all_acc:
  assumes "fold_m (\<lambda>a routed. bind (dlq_write D stage exc a) (\<lambda>ok. ret (routed \<and> ok))) args acc s = (Inr True, t)"
    and "\<forall>a\<in>set args. da_original a = Some (raw_of a)"
  shows "acc \<and> (\<exists>ev. rs_trace t = rs_trace s @ ev \<and> (\<forall>a\<in>set args. dead_lettered D (raw_of a) ev))"
  using assms
proof (induction args arbitrary: acc s)
  case Nil
  then show ?case by (auto simp: ret_def)
next
  case (Cons a args)
  then obtain ok u where first: "dlq_write D stage exc a s = (Inr ok, u)"
    and rest: "fold_m (\<lambda>a routed. bind (dlq_write D stage exc a) (\<lambda>ok. ret (routed \<and> ok))) args (acc \<and> ok) u
      = (Inr True, t)"
    by (auto simp: bind_eq_Inr ret_def)
  from Cons.IH [OF rest] Cons.prems(2) obtain ev where ev: "acc \<and> ok" "rs_trace t = rs_trace u @ ev"
    "\<forall>a\<in>set args. dead_lettered D (raw_of a) ev" by auto
  from dlq_write_Inr [OF first] ev(1) Cons.prems(2) obtain ev1 where
    "rs_trace u = rs_trace s @ ev1" "dead_lettered D (raw_of a) ev1"
    by (auto simp: dead_lettered_def opt_val_def)
  with ev show ?case
    by (intro conjI exI [of _ "ev1 @ ev"]) (auto intro: dead_lettered_append)
qed

lemma dlq_all_emits [steps_intro]:
  "(\<And>r b. P (EDlq r b)) \<Longrightarrow> steps_in (emits P) (dlq_all D stage exc args)"
  unfolding dlq_all_def by (intro steps_intro)

definition pair_items :: "pyval \<Rightarrow> (pyobj \<times> pyobj) list \<Rightarrow> PendingWrite list" where
  "pair_items v pairs = map (\<lambda>(raw, p). \<lparr>pw_processed = p, pw_raw = raw, pw_checkpoint = v, pw_on_success = None\<rparr>) pairs"

lemma resolve_pairs_outcomes:
  assumes "resolve_pairs D v (zip pairs ws) s = (Inr outs, t)" "length ws = length pairs"
  shows "\<exists>ev. rs_trace t = rs_trace s @ ev \<and> list_all is_dlq ev \<and>
     (\<forall>act. (\<forall>i<length pairs. wr_errors (ws ! i) = [] \<longrightarrow> sink_accepted (snd (pairs ! i)) act) \<longrightarrow>
        set ev \<subseteq> set act \<longrightarrow> list_all2 (outcome_for D act) (pair_items v pairs) outs)"
  using assms
proof (induction pairs arbitrary: ws s outs)
  case Nil
  then show ?case by (auto simp: resolve_pairs_def pair_items_def ret_def intro: exI [of _ "[]"])
next
  case (Cons pr pairs)
  obtain raw p where pr: "pr = (raw, p)" by (cases pr)
  from Cons.prems(2) obtain w ws' where ws: "ws = w # ws'" by (cases ws) auto
  from Cons.prems(1) obtain os u0 out u outs' where
    hook: "success_hook_for raw (Some p) None s = (Inr os, u0)"
    and res: "engine_resolve_write_result D w raw p v os u0 = (Inr out, u)"
    and rest: "resolve_pairs D v (zip pairs ws') u = (Inr outs', t)" and outs: "outs = out # outs'"
    by (auto simp: ws pr resolve_pairs_def bind_eq_Inr ret_def)
  from success_hook_for_trace [OF hook] have u0: "rs_trace u0 = rs_trace s" by simp
  from engine_resolve_trace [OF res] u0 obtain ev1 where ev1: "rs_trace u = rs_trace s @ ev1" "list_all is_dlq ev1"
    "if outcome_checkpoint out = None then de_sink_failure_policy D = SINK_FAIL_CLOSED
     else outcome_checkpoint out = Some v \<and>
       (wr_errors w = [] \<or> dead_lettered D raw ev1 \<or> de_sink_failure_policy D = SINK_LOG_AND_CONTINUE)"
    by auto
  from Cons.IH [OF rest] Cons.prems(2) ws obtain ev2 where ev2: "rs_trace t = rs_trace u @ ev2" "list_all is_dlq ev2"
    "\<And>act. (\<forall>i<length pairs. wr_errors (ws' ! i) = [] \<longrightarrow> sink_accepted (snd (pairs ! i)) act) \<Longrightarrow>
        set ev2 \<subseteq> set act \<Longrightarrow> list_all2 (outcome_for D act) (pair_items v pairs) outs'"
    by auto
  have "list_all2 (outcome_for D act) (pair_items v (pr # pairs)) outs"
    if acc: "\<forall>i<length (pr # pairs). wr_errors (ws ! i) = [] \<longrightarrow> sink_accepted (snd ((pr # pairs) ! i)) act"
      and sub: "set (ev1 @ ev2) \<subseteq> set act" for act
  proof -
    have "wr_errors w = [] \<Longrightarrow> sink_accepted p act" using acc ws pr by auto
    moreover have "dead_lettered D raw ev1 \<Longrightarrow> dead_lettered D raw act" using sub by (auto intro: dead_lettered_mono)
    ultimately have "outcome_for D act \<lparr>pw_processed = p, pw_raw = raw, pw_checkpoint = v, pw_on_success = None\<rparr> out"
      using ev1(3) by (auto simp: outcome_for_def item_settled_def written_settled_def split: if_splits)
    moreover have "list_all2 (outcome_for D act) (pair_items v pairs) outs'"
      using acc sub ws by (intro ev2(3)) fastforce+
    ultimately show ?thesis using outs pr by (simp add: pair_items_def)
  qed
  with ev1(1,2) ev2(1,2) show ?case by (intro exI [of _ "ev1 @ ev2"]) auto
qed

text \<open>Under the fail-closed policy a commit that returns had no unrouted error.\<close>

lemma commit_loop_no_unrouted:
  assumes "commit_loop D os acc s = (Inr (), t)" "de_sink_failure_policy D = SINK_FAIL_CLOSED"
  shows "\<forall>out\<in>set os. outcome_checkpoint out \<noteq> None"
  using assms(1)
proof (induction os arbitrary: acc s)
  case (Cons out os)
  then show ?case
    using assms(2) by (cases out) (auto simp: bind_eq_Inr throw_def)
qed simp

definition saves_only :: "pyval \<Rightarrow> event \<Rightarrow> bool" where
  "saves_only v e \<longleftrightarrow> (\<forall>c b. e = ESave c b \<longrightarrow> cp_value c = v)"

lemma saves_only_simps [simp]:
  "saves_only v (EWrite a x)" "saves_only v (EDlq d b)" "saves_only v (EHook h b)" "saves_only v (EDiscard h)"
  "saves_only v (ESave c b) \<longleftrightarrow> cp_value c = v"
  by (auto simp: saves_only_def)

definition acc_value :: "pyval \<Rightarrow> pending_acc \<Rightarrow> bool" where
  "acc_value v acc \<longleftrightarrow> (\<forall>c. fst acc = Some c \<longrightarrow> cp_value c = v)"

lemma acc_prepare_value:
  assumes "acc_prepare D v h acc s = (Inr acc', t)" "acc_value v acc"
  shows "acc_value v acc'"
proof -
  obtain pc n hooks where acc: "acc = (pc, n, hooks)" by (cases acc)
  from assms(1) acc obtain c where c: "prepare_checkpoint D v s = (Inr c, t)"
    and acc': "fst acc' = (case c of None \<Rightarrow> pc | Some c \<Rightarrow> Some c)"
    by (auto simp: acc_prepare_def Let_def bind_eq_Inr ret_def split: option.splits)
  show ?thesis
    using assms(2) acc acc' prepare_value [of D v s] c by (cases c) (auto simp: acc_value_def)
qed

lemma settle_pending_saves:
  "acc_value v acc \<Longrightarrow> steps_in (emits (saves_only v)) (settle_pending D acc)"
  by (cases acc) (auto simp: settle_pending_def acc_value_def intro!: steps_intro split: option.split)

lemma commit_loop_saves:
  "(\<forall>out\<in>set os. outcome_checkpoint out = None \<or> outcome_checkpoint out = Some v) \<Longrightarrow> acc_value v acc \<Longrightarrow>
     steps_in (emits (saves_only v)) (commit_loop D os acc)"
proof (induction os arbitrary: acc)
  case Nil
  then show ?case by (auto intro: settle_pending_saves)
next
  case (Cons out os)
  have start: "acc_value v (None, 0, [])" by (simp add: acc_value_def)
  have step: "steps_in (emits (saves_only v)) (bind (acc_prepare D v h acc) (commit_loop D os))" for h
    using Cons by (intro steps_in_bind_value) (auto intro: steps_intro dest: acc_prepare_value)
  show ?case
    using Cons start step by (cases out) (auto intro!: steps_intro settle_pending_saves)
qed

text \<open>The two strategies share the write and what follows it.\<close>

definition write_pairs ::
  "'e DeliveryEngine \<Rightarrow> (pyobj \<times> pyobj) list \<Rightarrow> pyval \<Rightarrow> int \<Rightarrow> hook list option list \<Rightarrow> ('e, unit) run" where
  "write_pairs D pairs v n dropped_hooks =
     try_write (write_batch D (map snd pairs)) (batch_write_error D pairs v n dropped_hooks)
       (\<lambda>ws.
         bind (validate_write_result_count (length pairs) (length ws)) (\<lambda>_.
         bind (resolve_pairs D v (zip pairs ws)) (\<lambda>outcomes.
           commit_outcomes D (map (Dropped v) dropped_hooks @ outcomes))))"

lemma passthrough_write_pairs:
  "write_batch_passthrough D raw_batch v =
     write_pairs D (map (\<lambda>r. (r, r)) raw_batch) v (int (length raw_batch)) []"
  by (simp add: write_batch_passthrough_def write_pairs_def Let_def comp_def)

lemma batch_write_error_settles:
  assumes "batch_write_error D pairs v n dh exc u = (Inr (), t)"
  shows "\<exists>ev. rs_trace t = rs_trace u @ ev \<and> (\<forall>(raw, p)\<in>set pairs. written_settled D p raw ev)"
proof -
  let ?args = "map (\<lambda>(raw, p). sink_dlq_args raw p v) pairs"
  from assms obtain routed u1 u2 where dlq: "dlq_all D ''sink_write'' exc ?args u = (Inr routed, u1)"
    and u2: "incr_errored (int (length pairs)) u1 = (Inr (), u2)"
    and ok: "routed \<or> de_sink_failure_policy D = SINK_LOG_AND_CONTINUE"
    and rest: "bind (save_batch_checkpoint D v n) (\<lambda>_. bind (for_each dh (run_on_success D)) (\<lambda>_.
           if routed then for_each pairs (\<lambda>(raw, p). bind (success_hook_for raw (Some p) None) (run_on_success D))
           else skip)) u2 = (Inr (), t)"
    by (auto simp: batch_write_error_def bind_eq_Inr throw_def split: if_splits)
  have "steps_in (emits (\<lambda>_. True)) (bind (save_batch_checkpoint D v n) (\<lambda>_.
      bind (for_each dh (run_on_success D)) (\<lambda>_.
           if routed then for_each pairs (\<lambda>(raw, p). bind (success_hook_for raw (Some p) None) (run_on_success D))
           else skip)))"
    by (auto intro!: steps_intro split: prod.split)
  from steps_inD [OF this rest] u2 obtain ev2 where ev2: "rs_trace t = rs_trace u1 @ ev2" by (auto simp: emits_def)
  from steps_inD [OF dlq_all_emits [of "\<lambda>_. True"] dlq] obtain ev1 where ev1: "rs_trace u1 = rs_trace u @ ev1"
    by (auto simp: emits_def)
  have "\<forall>(raw, p)\<in>set pairs. dead_lettered D raw ev1" if routed
    using dlq_all_acc [of D "''sink_write''" exc ?args True u u1 "\<lambda>a. the (da_original a)"] dlq that ev1
    by (fastforce simp: dlq_all_def sink_dlq_args_def)
  with ok have "\<forall>(raw, p)\<in>set pairs. written_settled D p raw (ev1 @ ev2)"
    by (auto simp: written_settled_def intro: dead_lettered_append)
  with ev1 ev2 show ?thesis by auto
qed

lemma write_pairs_settles:
  assumes "write_pairs D pairs v n dh s = (Inr (), t)"
  shows "\<exists>ev. rs_trace t = rs_trace s @ ev \<and> (\<forall>(raw, p)\<in>set pairs. written_settled D p raw ev)"
proof -
  obtain x u where w: "write_batch D (map snd pairs) s = (x, u)" by (cases "write_batch D (map snd pairs) s")
  from write_batch_trace [OF w] obtain act where act: "rs_trace u = rs_trace s @ act"
    "\<And>ws. x = Inr ws \<Longrightarrow> act = [EWrite (map snd pairs) (Inr ws)]" by blast
  note run = assms [unfolded write_pairs_def try_write_eq [where m = "write_batch D (map snd pairs)", OF w]]
  show ?thesis
  proof (cases x)
    case (Inl e)
    with run have "batch_write_error D pairs v n dh e u = (Inr (), t)"
      by (auto simp: throw_def split: if_splits)
    from batch_write_error_settles [OF this] obtain ev where ev: "rs_trace t = rs_trace u @ ev"
      and settled: "\<forall>(raw, p)\<in>set pairs. written_settled D p raw ev" by blast
    have "written_settled D p raw (act @ ev)" if "(raw, p) \<in> set pairs" for raw p
      using settled that by (auto intro: written_settled_mono [of D p raw ev])
    with act(1) ev show ?thesis by (intro exI [of _ "act @ ev"]) auto
  next
    case (Inr ws)
    with run obtain outs u' where len: "length ws = length pairs"
      and res: "resolve_pairs D v (zip pairs ws) u = (Inr outs, u')"
      and cm: "commit_loop D (map (Dropped v) dh @ outs) (None, 0, []) u' = (Inr (), t)"
      by (auto simp: bind_eq_Inr validate_write_result_count_def throw_def commit_outcomes_def skip_def ret_def
          split: if_splits)
    from resolve_pairs_outcomes [OF res len] obtain ev where ev: "rs_trace u' = rs_trace u @ ev"
      and outs: "\<And>a. (\<forall>i<length pairs. wr_errors (ws ! i) = [] \<longrightarrow> sink_accepted (snd (pairs ! i)) a) \<Longrightarrow>
        set ev \<subseteq> set a \<Longrightarrow> list_all2 (outcome_for D a) (pair_items v pairs) outs" by blast
    from steps_inD [OF commit_loop_emits cm] obtain ev2 where ev2: "rs_trace t = rs_trace u' @ ev2"
      by (auto simp: emits_def)
    let ?ev = "act @ ev @ ev2"
    have "sink_accepted (snd (pairs ! i)) ?ev" if "i < length pairs" "wr_errors (ws ! i) = []" for i
      using act(2) [OF Inr] that len unfolding sink_accepted_def
      by (intro exI [of _ "map snd pairs"] exI [of _ ws] exI [of _ i]) simp
    then have all: "list_all2 (outcome_for D ?ev) (pair_items v pairs) outs" by (intro outs) auto
    have "item_settled D it ?ev" if it: "it \<in> set (pair_items v pairs)" for it
    proof (cases "de_sink_failure_policy D")
      case SINK_FAIL_CLOSED
      obtain out where "out \<in> set outs" "outcome_for D ?ev it out"
        using all it by (metis in_set_conv_nth list_all2_conv_all_nth)
      with commit_loop_no_unrouted [OF cm SINK_FAIL_CLOSED] show ?thesis
        by (auto simp: outcome_for_def split: if_splits)
    next
      case SINK_LOG_AND_CONTINUE
      then show ?thesis by (simp add: item_settled_def written_settled_def)
    qed
    then have "\<forall>(raw, p)\<in>set pairs. written_settled D p raw ?ev"
      by (fastforce simp: pair_items_def item_settled_def)
    with act(1) ev ev2 show ?thesis by (intro exI [of _ ?ev]) auto
  qed
qed

section \<open>Properties of the batch lane\<close>

lemma filtered_write_pairs:
  assumes "write_batch_filtered D results raw_batch v s = (Inr (), t)"
  shows "\<exists>ev. rs_trace t = rs_trace s @ ev \<and>
     (\<forall>(raw, p)\<in>set (live_pairs raw_batch results). written_settled D p raw ev)"
proof -
  let ?pairs = "live_pairs raw_batch results" and ?n = "int (length results)"
  let ?hooks = "map_m (\<lambda>r. success_hook_for r None None) (dropped_raws raw_batch results)"
  have len: "length raw_batch = length results"
    using assms by (auto simp: write_batch_filtered_def throw_def split: if_splits)
  obtain u where u: "incr_dropped (?n - int (length ?pairs)) s = (Inr (), u)" "rs_trace u = rs_trace s"
    by (cases "incr_dropped (?n - int (length ?pairs)) s") auto
  let ?k = "\<lambda>hs. if ?pairs = [] then bind (save_batch_checkpoint D v ?n) (\<lambda>_. for_each hs (run_on_success D))
     else write_pairs D ?pairs v ?n hs"
  have eq: "write_batch_filtered D results raw_batch v s = bind ?hooks ?k u"
    unfolding write_pairs_def using len u by (simp add: write_batch_filtered_def Let_def bind_apply_Inr)
  with assms obtain hs w where hooks: "?hooks u = (Inr hs, w)" and k: "?k hs w = (Inr (), t)"
    by (auto simp: bind_eq_Inr)
  have "steps_in (emits (\<lambda>_. False)) ?hooks" by (intro steps_intro)
  from steps_inD [OF this hooks] u(2) have w: "rs_trace w = rs_trace s" by (simp add: emits_pure)
  show ?thesis
  proof (cases "?pairs = []")
    case True
    have "steps_in (emits (\<lambda>_. True)) (bind (save_batch_checkpoint D v ?n) (\<lambda>_. for_each hs (run_on_success D)))"
      by (intro steps_intro) auto
    from steps_inD [OF this] have "emits (\<lambda>_. True) w t" using k True by simp
    with True w show ?thesis by (auto simp: emits_def)
  next
    case False
    with k have "write_pairs D ?pairs v ?n hs w = (Inr (), t)" by simp
    from write_pairs_settles [OF this] w show ?thesis by simp
  qed
qed

text \<open>
  C15. A batch that the engine reports as delivered is delivered: when \<open>write_batch_result\<close> returns for
  a batch that came through the chain, every record of it is settled. Its result was accepted by the
  sink or dead-lettered, or the record was dropped by the chain, or the policy is to log and continue.
\<close>

theorem write_batch_result_settles:
  assumes run: "write_batch_result D result raw_batch v s = (Inr (), t)"
    and "bp_failure result = None" "length (bp_results result) = length raw_batch"
    and "bp_same result \<longrightarrow> bp_results result = map Some raw_batch"
  shows "\<exists>ev. rs_trace t = rs_trace s @ ev \<and>
     (\<forall>i<length raw_batch. settled D (raw_batch ! i) (bp_results result ! i) None ev)"
proof -
  have "\<exists>ev. rs_trace t = rs_trace s @ ev \<and>
     (\<forall>(raw, p)\<in>set (live_pairs raw_batch (bp_results result)). written_settled D p raw ev)"
  proof (cases "bp_same result")
    case True
    then have "write_pairs D (map (\<lambda>r. (r, r)) raw_batch) v (int (length raw_batch)) [] s = (Inr (), t)"
      using run assms(2) by (simp add: write_batch_result_def passthrough_write_pairs)
    moreover have "live_pairs raw_batch (map Some raw_batch) = map (\<lambda>r. (r, r)) raw_batch"
      by (induction raw_batch) (auto simp: live_pairs_def)
    ultimately show ?thesis using write_pairs_settles True assms(4) by fastforce
  next
    case False
    with run assms(2) have "write_batch_filtered D (bp_results result) raw_batch v s = (Inr (), t)"
      by (simp add: write_batch_result_def)
    then show ?thesis by (rule filtered_write_pairs)
  qed
  then obtain ev where ev: "rs_trace t = rs_trace s @ ev"
    "\<And>raw p. (raw, p) \<in> set (live_pairs raw_batch (bp_results result)) \<Longrightarrow> written_settled D p raw ev" by fastforce
  have "settled D (raw_batch ! i) (bp_results result ! i) None ev" if i: "i < length raw_batch" for i
  proof (cases "bp_results result ! i")
    case None
    then show ?thesis by (simp add: settled_def)
  next
    case (Some p)
    have "(raw_batch ! i, Some p) \<in> set (zip raw_batch (bp_results result))"
      using i assms(3) Some by (force simp: in_set_zip)
    then have "(raw_batch ! i, p) \<in> set (live_pairs raw_batch (bp_results result))"
      by (force simp: live_pairs_def)
    with ev(2) Some show ?thesis by (simp add: settled_def)
  qed
  with ev(1) show ?thesis by blast
qed

theorem write_batch_result_settles_witness:
  "\<exists>ev. rs_trace (snd (write_batch_result (demo_engine sink_ok None SINK_FAIL_CLOSED 1)
        \<lparr>bp_results = [Some (demo_obj 1), None], bp_failure = None, bp_same = False\<rparr>
        [demo_obj 1, demo_obj 2] (PInt 9) (init_state ()))) = ev \<and>
     settled (demo_engine sink_ok None SINK_FAIL_CLOSED 1) (demo_obj 1) (Some (demo_obj 1)) None ev"
proof -
  let ?D = "demo_engine sink_ok None SINK_FAIL_CLOSED 1"
  let ?res = "\<lparr>bp_results = [Some (demo_obj 1), None], bp_failure = None, bp_same = False\<rparr>"
  let ?run = "write_batch_result ?D ?res [demo_obj 1, demo_obj 2] (PInt 9) (init_state ())"
  have ok: "fst ?run = Inr ()" by code_simp
  from write_batch_result_settles [OF surjective_pairing [of ?run, unfolded ok]]
  show ?thesis by (force simp: init_state_def dest: spec [of _ 0])
qed

section \<open>Where the batch lane gives up more than it says\<close>

definition sink_err2 :: "pyobj \<Rightarrow> exn + WriteResult" where
  "sink_err2 r = Inr (if ob_id r = 2 then \<lparr>wr_written = False, wr_errors = [mk_exn ValueErrorC ''bad'']\<rparr>
                      else \<lparr>wr_written = True, wr_errors = []\<rparr>)"

definition saved :: "event list \<Rightarrow> pyval list" where
  "saved tr = concat (map (\<lambda>e. case e of ESave c True \<Rightarrow> [cp_value c] | _ \<Rightarrow> []) tr)"

text \<open>
  What an operator sees of a run: how it ended, the checkpoints in the store, the counters of written,
  dropped and errored records, and whether anything was sent to the dead-letter queue.
\<close>

definition lane_summary ::
  "(exn + unit) \<times> 'e rstate \<Rightarrow> (exn + unit) \<times> pyval list \<times> (int \<times> int \<times> int) \<times> bool" where
  "lane_summary run = (case run of (r, t) \<Rightarrow> (r, saved (rs_trace t),
     (m_records_written (rs_metrics t), m_records_dropped (rs_metrics t), m_records_errored (rs_metrics t)),
     list_ex is_dlq (rs_trace t)))"

text \<open>
  A per-record failure stores the checkpoint of the whole batch. Under the fail-closed policy and
  without a dead-letter queue the sink accepts record 1 and rejects record 2 of one batch: the
  checkpoint that lies after the batch is stored, for record 1, before \<open>RecordDeliveryError\<close> is raised
  for record 2. A resumed run starts after record 2.
\<close>

theorem batch_lane_checkpoint_covers_rejected_record:
  "lane_summary (batch_lane_run (demo_engine sink_err2 None SINK_FAIL_CLOSED 1) [] None
        [([demo_obj 1, demo_obj 2], PInt 9)] None (init_state ())) =
     (Inl (RecordDeliveryError (mk_exn ValueErrorC ''bad'')), [PInt 9], (1, 0, 1), False)"
  by code_simp

lemma dlq_write_ineligible:
  "\<not> fd_dlq_eligible (classify_failure exc) \<Longrightarrow>
     dlq_write D stage exc a s =
       (Inr False, s\<lparr>rs_metrics := record_failure_decision (classify_failure exc) (rs_metrics s)\<rparr>)"
  by (simp add: dlq_write_def Let_def upd_metrics_def ret_def split: option.split)

lemma dlq_all_ineligible:
  assumes "\<not> fd_dlq_eligible (classify_failure exc)"
  shows "\<exists>m. fold_m (\<lambda>a routed. bind (dlq_write D stage exc a) (\<lambda>ok. ret (routed \<and> ok))) args acc s =
     (Inr (acc \<and> args = []), s\<lparr>rs_metrics := m\<rparr>) \<and> m_records_errored m = m_records_errored (rs_metrics s)"
proof (induction args arbitrary: acc s)
  case Nil
  show ?case by (auto simp: ret_def intro!: exI [of _ "rs_metrics s"])
next
  case (Cons a args)
  let ?s = "s\<lparr>rs_metrics := record_failure_decision (classify_failure exc) (rs_metrics s)\<rparr>"
  from Cons.IH [of "acc \<and> False" ?s] show ?case
    by (auto simp: bind_def dlq_write_ineligible [OF assms] ret_def record_failure_decision_def)
qed

text \<open>
  A batch that failed in the chain and was not dead-lettered is skipped in silence. There is a
  dead-letter queue and the policy is fail-closed, but the failure (a timeout, a lost connection) is
  not eligible for the queue: \<open>write_batch_middleware_failure\<close> counts the records as errored and
  returns normally, without any event. The lane goes on to the next batch, whose checkpoint lies behind
  the lost one.
\<close>

theorem batch_lane_middleware_failure_skipped:
  assumes "de_dlq_sink D \<noteq> None" "de_sink_failure_policy D = SINK_FAIL_CLOSED" "raw_batch \<noteq> []"
    and "\<not> fd_dlq_eligible (classify_failure (bf_exception bf))"
  shows "\<exists>t. write_batch_middleware_failure D raw_batch v bf s = (Inr (), t) \<and> rs_trace t = rs_trace s \<and>
     m_records_errored (rs_metrics t) = m_records_errored (rs_metrics s) + int (length raw_batch)"
proof -
  obtain u where u: "incr_errored (int (length raw_batch)) s = (Inr (), u)" "rs_trace u = rs_trace s"
    "m_records_errored (rs_metrics u) = m_records_errored (rs_metrics s) + int (length raw_batch)"
    by (simp add: incr_errored_def upd_metrics_def modify_def)
  from dlq_all_ineligible [OF assms(4), of D "''batch_middleware''" "map (batch_failure_args bf v) raw_batch" True u]
    assms(3) obtain m where
    m: "dlq_all D ''batch_middleware'' (bf_exception bf) (map (batch_failure_args bf v) raw_batch) u =
      (Inr False, u\<lparr>rs_metrics := m\<rparr>)"
    "m_records_errored m = m_records_errored (rs_metrics u)"
    by (auto simp: dlq_all_def)
  have "write_batch_middleware_failure D raw_batch v bf s = skip (u\<lparr>rs_metrics := m\<rparr>)"
    using assms(1,2) by (simp only: write_batch_middleware_failure_def bind_def u(1) m(1) prod.case sum.case if_True if_False
        not_False_eq_True SinkFailurePolicy.distinct simp_thms)
  with u m(2) show ?thesis by (simp add: skip_def ret_def)
qed

theorem batch_lane_middleware_failure_skipped_witness:
  "fst (write_batch_middleware_failure (demo_engine sink_ok (Some (\<lambda>_. Inr ())) SINK_FAIL_CLOSED 1)
      [demo_obj 1] (PInt 1) \<lparr>bf_exception = mk_exn TimeoutErrorC ''slow'', bf_middleware = ''b''\<rparr>
      (init_state ())) = Inr ()"
proof -
  have "\<not> fd_dlq_eligible (classify_failure (mk_exn TimeoutErrorC ''slow''))"
    by (simp add: classify_failure_def isinstance_def mk_decision_def)
  then show ?thesis
    using batch_lane_middleware_failure_skipped
      [of "demo_engine sink_ok (Some (\<lambda>_. Inr ())) SINK_FAIL_CLOSED 1" "[demo_obj 1]"
        "\<lparr>bf_exception = mk_exn TimeoutErrorC ''slow'', bf_middleware = ''b''\<rparr>" "PInt 1" "init_state ()"]
    by (auto simp: demo_engine_def)
qed

definition sink_raises :: "pyobj \<Rightarrow> exn + WriteResult" where
  "sink_raises r = Inl (mk_exn ValueErrorC ''sink is down'')"

definition no_native :: "unit arrow_io" where
  "no_native = \<lparr>ar_native = None, ar_process = (\<lambda>b. ret (Inr b)), ar_chain_empty = True\<rparr>"

text \<open>
  On the Arrow lane fail-closed does not hold without a dead-letter queue: the sink raises, no
  record is written anywhere, and the lane still stores the batch's checkpoint and returns normally,
  because \<open>routed\<close> is true when there is no queue to route to.
\<close>

theorem arrow_lane_swallows_sink_failure:
  "lane_summary (batch_lane_run (demo_engine sink_raises None SINK_FAIL_CLOSED 1) [] (Some no_native)
        [([demo_obj 1], PInt 1)] None (init_state ())) =
     (Inr (), [PInt 1], (0, 0, 1), False)"
  by code_simp

text \<open>
  On the batch lane a record that fails in a row-wise stage never reaches the dead-letter queue:
  \<open>apply_in_batch\<close> turns the failure into a dropped record. The queue is up and stays empty, the record
  counts as dropped, and the checkpoint passes over it; the row loop would have dead-lettered it.
\<close>

theorem batch_lane_row_failure_not_dead_lettered:
  "lane_summary (batch_lane_run (demo_engine sink_ok (Some (\<lambda>_. Inr ())) SINK_FAIL_CLOSED 1)
        [demo_stage ''m'' fails_on_2] None [([demo_obj 2], PInt 2)] None (init_state ())) =
     (Inr (), [PInt 2], (0, 1, 0), False)"
  by code_simp

end
