(* ===== verification/Pipelined_Lane.thy ===== *)
theory Pipelined_Lane
  imports Batch_Lane
begin

text \<open>
  The batch lane with a pipelined stage, \<open>_run_pipelined_list_batches\<close> of \<^verbatim>\<open>core/runtime/_lanes/_batch.py\<close>: batches go
  through the stages before it, are submitted to it, and are committed in the order of their submission.

  What the task of a submitted batch comes to is a parameter, and so is when a poll finds it done: \<open>ps_ready n q\<close> is the
  answer of poll \<open>n\<close> for batch \<open>q\<close>. A dict of pending batches is an association list. \<open>pp_committed\<close> lists the batches
  whose result was handed to the delivery engine; the code does not read it. Gauges of the stage are left out, and so is the
  same loop on Arrow batches. \<open>submit_batch\<close> of the stages of \<^verbatim>\<open>middlewares/process.py\<close> creates a task and cannot raise,
  and none of them has buffers to drain.

  Shown: batches are committed in the order of the source and no more are in flight than allowed, provided no stage
  before the pipelined one fails a batch; and what happens when one does.
\<close>

record pending_batch =
  pn_future :: "exn + pyobj option list"
  pn_raw :: "pyobj list"
  pn_checkpoint :: pyval

record pipelined_stage =
  ps_index :: nat
  ps_name :: string
  ps_max_in_flight :: int
  ps_outcome :: "nat \<Rightarrow> pyobj option list \<Rightarrow> exn + pyobj option list"
  ps_ready :: "nat \<Rightarrow> nat \<Rightarrow> bool"

record 'e pstate =
  pp_run :: "'e rstate"
  pp_pending :: "(nat \<times> pending_batch) list"
  pp_next_sequence :: nat
  pp_next_commit :: nat
  pp_polls :: nat
  pp_committed :: "(pyobj list \<times> pyval) list"

type_synonym ('e, 'a) prun = "(exn, 'e pstate, 'a) comp"

definition pipe_run :: "('e, 'a) run \<Rightarrow> ('e, 'a) prun" where
  "pipe_run m = (\<lambda>s. case m (pp_run s) of (r, t) \<Rightarrow> (r, s\<lparr>pp_run := t\<rparr>))"

definition batch_stage_limit :: "pipelined_stage \<Rightarrow> int option \<Rightarrow> nat" where
  "batch_stage_limit S max_buffer_size =
     nat (max 1 (case max_buffer_size of None \<Rightarrow> ps_max_in_flight S | Some n \<Rightarrow> min (ps_max_in_flight S) n))"

definition commit_result ::
  "'e DeliveryEngine \<Rightarrow> BatchProcessResult \<Rightarrow> pyobj list \<Rightarrow> pyval \<Rightarrow> ('e, unit) prun" where
  "commit_result D result raw v =
     seq (modify (\<lambda>s. s\<lparr>pp_committed := pp_committed s @ [(raw, v)]\<rparr>)) (pipe_run (finalize_list_batch_result D result raw v))"

definition failed_stage :: "pipelined_stage \<Rightarrow> exn \<Rightarrow> BatchProcessResult" where
  "failed_stage S e = \<lparr>bp_results = [], bp_failure = Some \<lparr>bf_exception = e, bf_middleware = ps_name S\<rparr>, bp_same = False\<rparr>"

definition suffix_result ::
  "'e Middleware list \<Rightarrow> pipelined_stage \<Rightarrow> exn + pyobj option list \<Rightarrow> ('e, BatchProcessResult) prun" where
  "suffix_result mws S future = catch
     (case future of
        Inl e \<Rightarrow> throw e
      | Inr rows \<Rightarrow> pipe_run (process_batch_stages mws [ps_index S + 1 ..< length mws] rows))
     (\<lambda>e. if is_Exception e then ret (failed_stage S e) else throw e)"

definition resolve_batch ::
  "'e DeliveryEngine \<Rightarrow> 'e Middleware list \<Rightarrow> pipelined_stage \<Rightarrow> pending_batch \<Rightarrow> ('e, unit) prun" where
  "resolve_batch D mws S entry = bind (suffix_result mws S (pn_future entry))
     (\<lambda>result. commit_result D result (pn_raw entry) (pn_checkpoint entry))"

text \<open>The batch to commit leaves the dict, is resolved, and the next one's turn comes.\<close>

definition commit_next_batch :: "'e DeliveryEngine \<Rightarrow> 'e Middleware list \<Rightarrow> pipelined_stage \<Rightarrow> ('e, unit) prun" where
  "commit_next_batch D mws S = (\<lambda>s. case map_of (pp_pending s) (pp_next_commit s) of
     None \<Rightarrow> (Inr (), s)
   | Some entry \<Rightarrow>
       seq (resolve_batch D mws S entry) (modify (\<lambda>s. s\<lparr>pp_next_commit := pp_next_commit s + 1\<rparr>))
         (s\<lparr>pp_pending := AList.delete (pp_next_commit s) (pp_pending s)\<rparr>))"

text \<open>\<open>_drain_ready\<close>: every turn but the last takes a batch out of the dict, so its size bounds the turns.\<close>

fun drain_ready_batches :: "'e DeliveryEngine \<Rightarrow> 'e Middleware list \<Rightarrow> pipelined_stage \<Rightarrow> nat \<Rightarrow> ('e, unit) prun" where
  "drain_ready_batches D mws S 0 s = (Inr (), s)"
| "drain_ready_batches D mws S (Suc n) s =
     (case map_of (pp_pending s) (pp_next_commit s) of
        None \<Rightarrow> (Inr (), s)
      | Some entry \<Rightarrow>
          let ready = ps_ready S (pp_polls s) (pp_next_commit s); s = s\<lparr>pp_polls := pp_polls s + 1\<rparr> in
          if \<not> ready then (Inr (), s)
          else seq (commit_next_batch D mws S) (drain_ready_batches D mws S n) s)"

definition drain_batches :: "'e DeliveryEngine \<Rightarrow> 'e Middleware list \<Rightarrow> pipelined_stage \<Rightarrow> ('e, unit) prun" where
  "drain_batches D mws S = (\<lambda>s. drain_ready_batches D mws S (length (pp_pending s)) s)"

text \<open>
  The two loops that drain and then commit, down to fewer than \<open>limit\<close> batches. They need not end, so a run is an
  option: \<open>None\<close> is a loop that goes on for ever.
\<close>

partial_function (option) pipe_commit_loop ::
  "'e DeliveryEngine \<Rightarrow> 'e Middleware list \<Rightarrow> pipelined_stage \<Rightarrow> nat \<Rightarrow> 'e pstate \<Rightarrow> ((exn + unit) \<times> 'e pstate) option" where
  "pipe_commit_loop D mws S limit s =
     (if length (pp_pending s) < limit then Some (Inr (), s)
      else case drain_batches D mws S s of
        (Inl e, s) \<Rightarrow> Some (Inl e, s)
      | (Inr _, s) \<Rightarrow>
          if length (pp_pending s) < limit then Some (Inr (), s)
          else case commit_next_batch D mws S s of
            (Inl e, s) \<Rightarrow> Some (Inl e, s)
          | (Inr _, s) \<Rightarrow> pipe_commit_loop D mws S limit s)"

declare pipe_commit_loop.simps [code]

text \<open>One batch of the source, up to the loop that makes room.\<close>

definition submit_one :: "'e DeliveryEngine \<Rightarrow> 'e Middleware list \<Rightarrow> pipelined_stage \<Rightarrow> pyobj list \<times> pyval \<Rightarrow> ('e, unit) prun" where
  "submit_one D mws S b = (case b of (raw, v) \<Rightarrow>
     seq (pipe_run (hot_inc_consumed (int (length raw))))
       (bind (pipe_run (process_batch_range mws 0 (ps_index S) raw)) (\<lambda>r.
         if bp_failure r \<noteq> None then commit_result D r raw v
         else modify (\<lambda>s. s\<lparr>pp_next_sequence := pp_next_sequence s + 1, pp_pending := pp_pending s @
            [(pp_next_sequence s, \<lparr>pn_future = ps_outcome S (pp_next_sequence s) (bp_results r), pn_raw = raw, pn_checkpoint = v\<rparr>)]\<rparr>))))"

fun source_loop ::
  "'e DeliveryEngine \<Rightarrow> 'e Middleware list \<Rightarrow> pipelined_stage \<Rightarrow> nat \<Rightarrow> (pyobj list \<times> pyval) list \<Rightarrow> exn option \<Rightarrow> 'e pstate \<Rightarrow>
     ((exn + unit) \<times> 'e pstate) option" where
  "source_loop D mws S limit [] src_end s = Some (case src_end of None \<Rightarrow> Inr () | Some e \<Rightarrow> Inl e, s)"
| "source_loop D mws S limit (b # bs) src_end s = (case submit_one D mws S b s of
     (Inl e, s) \<Rightarrow> Some (Inl e, s)
   | (Inr _, s) \<Rightarrow> (case pipe_commit_loop D mws S limit s of
       None \<Rightarrow> None
     | Some (Inl e, s) \<Rightarrow> Some (Inl e, s)
     | Some (Inr _, s) \<Rightarrow> source_loop D mws S limit bs src_end s))"

definition stops_at_once :: "exn \<Rightarrow> bool" where
  "stops_at_once e \<longleftrightarrow> isinstance e RecordDeliveryErrorC \<or> isinstance e CheckpointSaveErrorC \<or>
     isinstance e CancelledErrorC \<or> isinstance e KeyboardInterruptC"

definition cancel_pending_batches :: "'e pstate \<Rightarrow> 'e pstate" where
  "cancel_pending_batches s = s\<lparr>pp_pending := []\<rparr>"

definition run_pipelined ::
  "'e DeliveryEngine \<Rightarrow> 'e Middleware list \<Rightarrow> pipelined_stage \<Rightarrow> int option \<Rightarrow> (pyobj list \<times> pyval) list \<Rightarrow> exn option \<Rightarrow>
     'e pstate \<Rightarrow> ((exn + unit) \<times> 'e pstate) option" where
  "run_pipelined D mws S max_buffer_size batches src_end s =
     (case source_loop D mws S (batch_stage_limit S max_buffer_size) batches src_end s of
        None \<Rightarrow> None
      | Some (source_end, s) \<Rightarrow>
          if (case source_end of Inl e \<Rightarrow> stops_at_once e | Inr _ \<Rightarrow> False)
          then Some (source_end, cancel_pending_batches s)
          else (case pipe_commit_loop D mws S 1 s of
              None \<Rightarrow> None
            | Some (Inl e, s) \<Rightarrow> Some (Inl e, cancel_pending_batches s)
            | Some (Inr _, s) \<Rightarrow> Some (case source_end of
                Inl e \<Rightarrow> (Inl e, s)
              | Inr _ \<Rightarrow> pipe_run (hot_flush (de_source_name D)) s)))"

definition new_pipe :: "'e rstate \<Rightarrow> 'e pstate" where
  "new_pipe s = \<lparr>pp_run = s, pp_pending = [], pp_next_sequence = 0, pp_next_commit = 0, pp_polls = 0, pp_committed = []\<rparr>"

section \<open>What a turn does to the pending batches\<close>

definition entry_batch :: "nat \<times> pending_batch \<Rightarrow> pyobj list \<times> pyval" where
  "entry_batch x = (pn_raw (snd x), pn_checkpoint (snd x))"

text \<open>The pending batches are numbered in the order of the source, and follow those that were committed.\<close>

definition in_order :: "(pyobj list \<times> pyval) list \<Rightarrow> 'e pstate \<Rightarrow> bool" where
  "in_order bs s \<longleftrightarrow> pp_committed s @ map entry_batch (pp_pending s) = bs \<and>
     map fst (pp_pending s) = [pp_next_commit s ..< pp_next_sequence s] \<and> pp_next_commit s \<le> pp_next_sequence s"

text \<open>After an exception the batch that raised it is gone, and nothing can be committed any more.\<close>

definition broken_off :: "(pyobj list \<times> pyval) list \<Rightarrow> 'e pstate \<Rightarrow> bool" where
  "broken_off bs s \<longleftrightarrow> (\<exists>rest. pp_committed s @ rest = bs) \<and> map_of (pp_pending s) (pp_next_commit s) = None"

definition resolve_error :: "'e DeliveryEngine \<Rightarrow> 'e Middleware list \<Rightarrow> pipelined_stage \<Rightarrow> exn \<Rightarrow> bool" where
  "resolve_error D mws S e \<longleftrightarrow> (\<exists>entry s t. resolve_batch D mws S entry s = (Inl e, t))"

definition same_queue :: "'e pstate \<Rightarrow> 'e pstate \<Rightarrow> bool" where
  "same_queue s t \<longleftrightarrow> pp_pending t = pp_pending s \<and> pp_next_sequence t = pp_next_sequence s \<and> pp_next_commit t = pp_next_commit s"

lemma pipe_run_queue: "pipe_run m s = (r, t) \<Longrightarrow> same_queue s t \<and> pp_committed t = pp_committed s"
  by (auto simp: pipe_run_def same_queue_def split: prod.splits)

lemma suffix_queue: "suffix_result mws S f s = (r, t) \<Longrightarrow> same_queue s t \<and> pp_committed t = pp_committed s"
  by (cases f)
    (auto simp: suffix_result_def catch_def throw_def ret_def same_queue_def split: prod.splits sum.splits if_splits
      dest!: pipe_run_queue)

lemma commit_result_queue:
  "commit_result D result raw v s = (r, t) \<Longrightarrow> same_queue s t \<and> pp_committed t = pp_committed s @ [(raw, v)]"
  by (auto simp: commit_result_def seq_def bind_def modify_def same_queue_def split: prod.splits sum.splits
      dest!: pipe_run_queue)

lemma resolve_queue:
  assumes "resolve_batch D mws S entry s = (r, t)"
  shows "same_queue s t \<and> (pp_committed t = pp_committed s @ [(pn_raw entry, pn_checkpoint entry)] \<or>
    (\<exists>e. r = Inl e) \<and> pp_committed t = pp_committed s)"
proof -
  obtain x u where u: "suffix_result mws S (pn_future entry) s = (x, u)" by (metis surj_pair)
  with suffix_queue [OF u] assms show ?thesis
    by (cases x) (auto simp: resolve_batch_def bind_def same_queue_def dest!: commit_result_queue)
qed

lemma commit_next_in_order:
  assumes "in_order bs s" "pp_pending s \<noteq> []" "commit_next_batch D mws S s = (r, t)"
  shows "case r of Inr _ \<Rightarrow> in_order bs t \<and> length (pp_pending t) < length (pp_pending s) | Inl e \<Rightarrow> broken_off bs t \<and> resolve_error D mws S e"
proof -
  obtain q e ps where p: "pp_pending s = (q, e) # ps" using assms(2) by (cases "pp_pending s") auto
  have "[pp_next_commit s ..< pp_next_sequence s] = q # map fst ps"
    using assms(1) p by (simp add: in_order_def)
  then have lt: "pp_next_commit s < pp_next_sequence s" and keys: "map fst ps = [pp_next_commit s + 1 ..< pp_next_sequence s]"
      and q: "q = pp_next_commit s"
    unfolding upt_eq_Cons_conv by auto
  have gone: "pp_next_commit s \<notin> fst ` set ps" using arg_cong [OF keys, of set] by simp
  let ?s = "s\<lparr>pp_pending := ps\<rparr>"
  have del: "AList.delete (pp_next_commit s) (pp_pending s) = ps" using gone p q by (simp add: delete_idem)
  obtain x u where u: "resolve_batch D mws S e ?s = (x, u)" by (metis surj_pair)
  have rt: "(r, t) = (case x of Inl err \<Rightarrow> (Inl err, u) | Inr _ \<Rightarrow> (Inr (), u\<lparr>pp_next_commit := pp_next_commit u + 1\<rparr>))"
    using assms(3) p q u del by (auto simp: commit_next_batch_def seq_def bind_def modify_def split: sum.splits)
  have "x = Inl err \<Longrightarrow> resolve_error D mws S err" for err using u by (auto simp: resolve_error_def)
  with resolve_queue [OF u] assms(1) p q lt keys gone rt show ?thesis
    by (cases x) (auto simp: in_order_def broken_off_def same_queue_def entry_batch_def map_of_eq_None_iff)
qed

lemma drain_ready_in_order:
  assumes "in_order bs s" "drain_ready_batches D mws S n s = (r, t)"
  shows "case r of Inr _ \<Rightarrow> in_order bs t \<and> length (pp_pending t) \<le> length (pp_pending s) | Inl e \<Rightarrow> broken_off bs t \<and> resolve_error D mws S e"
  using assms
proof (induction n arbitrary: s)
  case (Suc n)
  show ?case
  proof (cases "map_of (pp_pending s) (pp_next_commit s)")
    case (Some entry)
    let ?s = "s\<lparr>pp_polls := pp_polls s + 1\<rparr>"
    have s: "in_order bs ?s" "pp_pending ?s \<noteq> []" using Suc.prems(1) Some by (auto simp: in_order_def)
    obtain x u where u: "commit_next_batch D mws S ?s = (x, u)" by (metis surj_pair)
    note nxt = commit_next_in_order [OF s u]
    show ?thesis
    proof (cases "ps_ready S (pp_polls s) (pp_next_commit s)")
      case True
      with Suc.prems(2) Some u have run: "(case x of Inl e \<Rightarrow> (Inl e, u) | Inr _ \<Rightarrow> drain_ready_batches D mws S n u) = (r, t)"
        by (simp add: seq_def bind_def split: sum.split)
      show ?thesis
      proof (cases x)
        case (Inr y)
        with nxt run Suc.IH [of u] show ?thesis by (auto split: sum.splits)
      qed (use nxt run in auto)
    qed (use Suc.prems s Some in auto)
  qed (use Suc.prems in auto)
qed auto

lemma commit_loop_ends:
  assumes "in_order bs s" "0 < limit"
  shows "\<exists>r t. pipe_commit_loop D mws S limit s = Some (r, t) \<and>
    (case r of Inr _ \<Rightarrow> in_order bs t \<and> length (pp_pending t) < limit | Inl e \<Rightarrow> broken_off bs t \<and> resolve_error D mws S e)"
  using assms(1)
proof (induction "length (pp_pending s)" arbitrary: s rule: less_induct)
  case less
  show ?case
  proof (cases "length (pp_pending s) < limit")
    case True
    with less.prems show ?thesis by (subst pipe_commit_loop.simps) simp
  next
    case False
    obtain x u where u: "drain_batches D mws S s = (x, u)" by (metis surj_pair)
    have drained: "case x of Inr _ \<Rightarrow> in_order bs u \<and> length (pp_pending u) \<le> length (pp_pending s) | Inl e \<Rightarrow> broken_off bs u \<and> resolve_error D mws S e"
      using drain_ready_in_order [OF less.prems] u by (simp add: drain_batches_def)
    show ?thesis
    proof (cases x)
      case (Inl e)
      with False u drained show ?thesis by (subst pipe_commit_loop.simps) simp
    next
      case (Inr y)
      obtain z w where w: "commit_next_batch D mws S u = (z, w)" by (metis surj_pair)
      show ?thesis
      proof (cases "length (pp_pending u) < limit")
        case True
        with False u Inr drained show ?thesis by (subst pipe_commit_loop.simps) simp
      next
        case full: False
        then have "pp_pending u \<noteq> []" using assms(2) by auto
        with drained Inr w have nxt: "case z of Inr _ \<Rightarrow> in_order bs w \<and> length (pp_pending w) < length (pp_pending u)
            | Inl e \<Rightarrow> broken_off bs w \<and> resolve_error D mws S e"
          using commit_next_in_order [of bs u D mws S z w] by auto
        show ?thesis
        proof (cases z)
          case Inl
          with False u Inr full w nxt show ?thesis by (subst pipe_commit_loop.simps) simp
        next
          case again: (Inr y')
          with less.hyps [of w] nxt drained Inr obtain r t where
            "pipe_commit_loop D mws S limit w = Some (r, t)"
            "case r of Inr _ \<Rightarrow> in_order bs t \<and> length (pp_pending t) < limit | Inl e \<Rightarrow> broken_off bs t \<and> resolve_error D mws S e"
            by auto
          with False u Inr full w again show ?thesis by (subst pipe_commit_loop.simps) simp
        qed
      qed
    qed
  qed
qed

text \<open>When the next batch to commit is gone and others wait, the loop turns for ever.\<close>

lemma idle_turn:
  assumes "map_of (pp_pending u) (pp_next_commit u) = None"
  shows "drain_batches D mws S u = (Inr (), u)" "commit_next_batch D mws S u = (Inr (), u)"
  using assms by (cases "pp_pending u"; simp add: drain_batches_def commit_next_batch_def)+

lemma broken_off_spins:
  assumes "map_of (pp_pending s) (pp_next_commit s) = None" "limit \<le> length (pp_pending s)"
  shows "pipe_commit_loop D mws S limit s = None"
proof (rule ccontr)
  assume "pipe_commit_loop D mws S limit s \<noteq> None"
  then obtain y where y: "pipe_commit_loop D mws S limit s = Some y" by auto
  show False
    by (rule pipe_commit_loop.raw_induct [OF _ y, of "\<lambda>D mws S limit s _. map_of (pp_pending s) (pp_next_commit s) = None \<longrightarrow>
        limit \<le> length (pp_pending s) \<longrightarrow> False", rule_format])
      (use assms in \<open>auto simp: idle_turn split: if_splits\<close>)
qed

section \<open>A run of the lane\<close>

text \<open>No stage before the pipelined one fails a batch.\<close>

definition prefix_passes :: "'e Middleware list \<Rightarrow> pipelined_stage \<Rightarrow> bool" where
  "prefix_passes mws S \<longleftrightarrow>
     (\<forall>raw s r t. process_batch_range mws 0 (ps_index S) raw s = (Inr r, t) \<longrightarrow> bp_failure r = None)"

lemma submit_in_order:
  assumes "prefix_passes mws S" "in_order bs s" "submit_one D mws S b s = (r, t)"
  shows "case r of Inr _ \<Rightarrow> in_order (bs @ [b]) t | Inl _ \<Rightarrow> in_order bs t"
proof -
  obtain raw v where b: "b = (raw, v)" by (cases b)
  obtain x u where u: "pipe_run (hot_inc_consumed (int (length raw))) s = (x, u)" by (metis surj_pair)
  obtain y w where w: "pipe_run (process_batch_range mws 0 (ps_index S) raw) u = (y, w)" by (metis surj_pair)
  have "bp_failure res = None" if "y = Inr res" for res
    using assms(1) w that by (auto simp: prefix_passes_def pipe_run_def split: prod.splits)
  with pipe_run_queue [OF u] pipe_run_queue [OF w] assms(2,3) u w b show ?thesis
    by (cases x; cases y)
      (auto simp: submit_one_def seq_def bind_def modify_def in_order_def same_queue_def entry_batch_def)
qed

lemma source_loop_in_order:
  assumes "prefix_passes mws S" "in_order done s" "0 < limit"
  shows "\<exists>r t. source_loop D mws S limit bs src_end s = Some (r, t) \<and> (case r of
      Inr _ \<Rightarrow> in_order (done @ bs) t
    | Inl e \<Rightarrow> (\<exists>k. in_order (done @ take k bs) t \<or> (broken_off (done @ take k bs) t \<and> resolve_error D mws S e)))"
  using assms(2)
proof (induction bs arbitrary: s "done")
  case Nil
  then show ?case by (auto split: option.split)
next
  case (Cons b bs)
  obtain x u where u: "submit_one D mws S b s = (x, u)" by (metis surj_pair)
  note sub = submit_in_order [OF assms(1) Cons.prems u]
  show ?case
  proof (cases x)
    case (Inl e)
    with u sub show ?thesis by (auto intro: exI [of _ 0])
  next
    case (Inr y)
    with sub have "in_order (done @ [b]) u" by simp
    from commit_loop_ends [OF this assms(3), of D mws S] obtain z w where w:
      "pipe_commit_loop D mws S limit u = Some (z, w)"
      "case z of Inr _ \<Rightarrow> in_order (done @ [b]) w \<and> length (pp_pending w) < limit
         | Inl e \<Rightarrow> broken_off (done @ [b]) w \<and> resolve_error D mws S e" by auto
    show ?thesis
    proof (cases z)
      case (Inl e)
      with u Inr w show ?thesis by (auto intro: exI [of _ 1])
    next
      case ok: (Inr y')
      with w have "in_order (done @ [b]) w" by simp
      from Cons.IH [OF this] obtain r t where "source_loop D mws S limit bs src_end w = Some (r, t)"
        "case r of Inr _ \<Rightarrow> in_order ((done @ [b]) @ bs) t
          | Inl e \<Rightarrow> (\<exists>k. in_order ((done @ [b]) @ take k bs) t \<or> (broken_off ((done @ [b]) @ take k bs) t \<and> resolve_error D mws S e))"
        by auto
      with u Inr w ok show ?thesis by (auto split: sum.splits intro: exI [of _ "Suc _"])
    qed
  qed
qed

lemma committed_prefix: "in_order bs s \<or> broken_off bs s \<Longrightarrow> \<exists>rest. pp_committed s @ rest = bs"
  by (auto simp: in_order_def broken_off_def)

lemma new_pipe_in_order: "in_order [] (new_pipe s)"
  by (simp add: in_order_def new_pipe_def)

lemma spin_or_stop:
  assumes "broken_off bs s" "pipe_commit_loop D mws S 1 s = Some (r, t)"
  shows "r = Inr () \<and> t = s"
proof (cases "pp_pending s")
  case Nil
  with assms(2) show ?thesis by (subst (asm) pipe_commit_loop.simps) simp
next
  case (Cons x xs)
  then have "1 \<le> length (pp_pending s)" by simp
  from broken_off_spins [OF _ this, of D mws S] assms show ?thesis by (simp add: broken_off_def)
qed

lemma last_commits_prefix:
  assumes "in_order bs s \<or> broken_off bs s" "pipe_commit_loop D mws S 1 s = Some (r, t)"
  shows "\<exists>rest. pp_committed t @ rest = bs"
proof (cases "in_order bs s")
  case True
  from commit_loop_ends [OF True, of 1 D mws S] assms(2) show ?thesis
    by (intro committed_prefix) (auto split: sum.splits)
next
  case False
  with assms have off: "broken_off bs s" by simp
  from spin_or_stop [OF off assms(2)] committed_prefix [of bs s] off show ?thesis by simp
qed

lemma last_commits_all:
  assumes "in_order bs s" "pipe_commit_loop D mws S 1 s = Some (Inr (), t)"
  shows "pp_committed t = bs"
  using commit_loop_ends [OF assms(1), of 1 D mws S] assms(2) by (auto simp: in_order_def)

lemma prefix_of_take: "\<exists>rest. xs @ rest = take k bs \<Longrightarrow> \<exists>rest. xs @ rest = bs"
  by (metis append.assoc append_take_drop_id)

lemma run_pipelined_cases:
  assumes "run_pipelined D mws S n batches src_end s = Some (r, t)"
    and "source_loop D mws S (batch_stage_limit S n) batches src_end s = Some (x, u)"
  shows "(\<exists>e. x = Inl e \<and> r = Inl e \<and> pp_committed t = pp_committed u) \<or>
    (\<exists>y w. pipe_commit_loop D mws S 1 u = Some (y, w) \<and> pp_committed t = pp_committed w \<and>
      (r = Inr () \<longrightarrow> x = Inr () \<and> y = Inr ()))"
  using assms
  by (auto simp: run_pipelined_def cancel_pending_batches_def split: if_splits option.splits prod.splits sum.splits
      dest!: pipe_run_queue)

text \<open>
  C16. The pipelined lane commits batches in the order of the source. However many batches are in flight and in whatever
  order they become ready, fail or are cancelled, the batches handed to the delivery engine are an initial part of
  what the source gave, and all of it when the run returns; provided no stage before the pipelined one fails a batch.
\<close>

theorem pipelined_lane_commits_in_order:
  assumes "prefix_passes mws S" and "run_pipelined D mws S max_buffer_size batches src_end (new_pipe s) = Some (r, t)"
  shows "\<exists>rest. pp_committed t @ rest = batches \<and> (r = Inr () \<longrightarrow> rest = [])"
proof -
  have "0 < batch_stage_limit S max_buffer_size" by (simp add: batch_stage_limit_def)
  from source_loop_in_order [OF assms(1) new_pipe_in_order this, of D batches src_end s] obtain x u where
    src: "source_loop D mws S (batch_stage_limit S max_buffer_size) batches src_end (new_pipe s) = Some (x, u)"
    and post: "case x of Inr _ \<Rightarrow> in_order batches u
      | Inl e \<Rightarrow> (\<exists>k. in_order (take k batches) u \<or> (broken_off (take k batches) u \<and> resolve_error D mws S e))"
    unfolding append_Nil by blast
  from post obtain k where k: "in_order (take k batches) u \<or> broken_off (take k batches) u"
    by (cases x) (auto intro: that [of "length batches"] that)
  from run_pipelined_cases [OF assms(2) src] show ?thesis
  proof (elim disjE exE conjE)
    fix e assume "r = Inl e" "pp_committed t = pp_committed u"
    with prefix_of_take [OF committed_prefix [OF k]] show ?thesis by simp
  next
    fix y w
    assume w: "pipe_commit_loop D mws S 1 u = Some (y, w)" "pp_committed t = pp_committed w"
      "r = Inr () \<longrightarrow> x = Inr () \<and> y = Inr ()"
    show ?thesis
    proof (cases "r = Inr ()")
      case True
      with w post last_commits_all [of batches u D mws S w] show ?thesis by simp
    next
      case False
      with prefix_of_take [OF last_commits_prefix [OF k w(1)]] w(2) show ?thesis by simp
    qed
  qed
qed

text \<open>
  A run ends, on one condition: every exception that leaves the commit of a batch is one of those that stop the lane at
  once. Otherwise the last loop can wait for ever for a batch that is no longer there.
\<close>

lemma pipelined_lane_ends:
  assumes "prefix_passes mws S" and stops: "\<And>e. resolve_error D mws S e \<Longrightarrow> stops_at_once e"
  shows "run_pipelined D mws S max_buffer_size batches src_end (new_pipe s) \<noteq> None"
proof -
  have "0 < batch_stage_limit S max_buffer_size" by (simp add: batch_stage_limit_def)
  from source_loop_in_order [OF assms(1) new_pipe_in_order this, of D batches src_end s] obtain x u where
    src: "source_loop D mws S (batch_stage_limit S max_buffer_size) batches src_end (new_pipe s) = Some (x, u)"
    and post: "case x of Inr _ \<Rightarrow> in_order batches u
      | Inl e \<Rightarrow> (\<exists>k. in_order (take k batches) u \<or> (broken_off (take k batches) u \<and> resolve_error D mws S e))"
    unfolding append_Nil by blast
  show ?thesis
  proof (cases "case x of Inl e \<Rightarrow> stops_at_once e | Inr _ \<Rightarrow> False")
    case True
    with src show ?thesis by (simp add: run_pipelined_def)
  next
    case False
    with post stops obtain k where "in_order (take k batches) u"
      by (cases x) (auto intro: that [of "length batches"] that)
    from commit_loop_ends [OF this, of 1 D mws S] obtain r t where "pipe_commit_loop D mws S 1 u = Some (r, t)" by auto
    with src False show ?thesis by (auto simp: run_pipelined_def split: sum.split prod.split)
  qed
qed

section \<open>Runs\<close>

definition demo_pipe :: "nat \<Rightarrow> (nat \<Rightarrow> pyobj option list \<Rightarrow> exn + pyobj option list) \<Rightarrow> pipelined_stage" where
  "demo_pipe i outcome = \<lparr>ps_index = i, ps_name = ''pool'', ps_max_in_flight = 2, ps_outcome = outcome, ps_ready = (\<lambda>n q. False)\<rparr>"

definition pipe_summary ::
  "((exn + unit) \<times> 'e pstate) option \<Rightarrow> ((exn + unit) \<times> pyval list \<times> (int \<times> int \<times> int) \<times> bool) option" where
  "pipe_summary run = map_option (\<lambda>(r, t). lane_summary (r, pp_run t)) run"

lemma no_prefix_passes: "ps_index S = 0 \<Longrightarrow> prefix_passes mws S"
  by (simp add: prefix_passes_def process_batch_range_def ret_def)

lemma pipelined_lane_commits_in_order_witness:
  "let run = run_pipelined (demo_engine sink_ok None SINK_FAIL_CLOSED 1) [] (demo_pipe 0 (\<lambda>q rows. Inr rows)) None
       [([demo_obj 1, demo_obj 2], PInt 2)] None (new_pipe (init_state ()))
   in map_option fst run = Some (Inr ()) \<and>
     map_option (pp_committed \<circ> snd) run = Some [([demo_obj 1, demo_obj 2], PInt 2)]"
proof -
  let ?S = "demo_pipe 0 (\<lambda>q rows. Inr rows)"
  let ?run = "run_pipelined (demo_engine sink_ok None SINK_FAIL_CLOSED 1) [] ?S None
       [([demo_obj 1, demo_obj 2], PInt 2)] None (new_pipe (init_state ()))"
  have "map_option fst ?run = Some (Inr ())" by code_simp
  then obtain t where t: "?run = Some (Inr (), t)" by auto
  have "prefix_passes [] ?S" by (simp add: no_prefix_passes demo_pipe_def)
  from pipelined_lane_commits_in_order [OF this t] t show ?thesis by simp
qed

text \<open>
  Source order is lost when a stage before the pipelined one fails a batch: its failure is finalized on the spot. Batch 1 is in
  flight, batch 2 fails and is skipped as the policy says, the checkpoint after batch 2 is stored, and the run is cancelled:
  batch 1 is abandoned, written nowhere, and a resumed run starts behind it.
\<close>

definition rejects_2 :: "pyobj list \<Rightarrow> (unit, pyobj option list) run" where
  "rejects_2 rows = (if map ob_id rows = [2] then throw (mk_exn ValueErrorC ''bad'') else ret (map Some rows))"

theorem pipelined_lane_failed_batch_overtakes:
  "pipe_summary (run_pipelined (demo_engine sink_ok None SINK_LOG_AND_CONTINUE 1)
      [(demo_stage ''m'' (\<lambda>r. Inr (Some r)))\<lparr>mw_kind := WholeBatch rejects_2\<rparr>] (demo_pipe 1 (\<lambda>q rows. Inr rows)) None
      [([demo_obj 1], PInt 1), ([demo_obj 2], PInt 2)] (Some (mk_exn CancelledErrorC ''stop'')) (new_pipe (init_state ()))) =
    Some (Inl (mk_exn CancelledErrorC ''stop''), [PInt 2], (0, 0, 1), False)"
  by code_simp

text \<open>
  A pipelined stage gets the rows that earlier stages dropped as \<open>None\<close>, where the same stage on the batch lane
  is given only the rows that are left. A worker function that takes every row to be a record fails the whole batch.
\<close>

definition wants_records :: "nat \<Rightarrow> pyobj option list \<Rightarrow> exn + pyobj option list" where
  "wants_records q rows = (if None \<in> set rows then Inl (mk_exn TypeErrorC ''None'') else Inr rows)"

theorem pipelined_stage_sees_dropped_rows:
  "pipe_summary (run_pipelined (demo_engine sink_ok None SINK_FAIL_CLOSED 1)
      [demo_stage ''m'' (\<lambda>r. Inr (if ob_id r = 2 then None else Some r))] (demo_pipe 1 wants_records) (Some 1)
      [([demo_obj 1, demo_obj 2], PInt 2)] None (new_pipe (init_state ()))) =
    Some (Inl (RecordDeliveryError (mk_exn TypeErrorC ''None'')), [], (0, 0, 2), False)"
  by code_simp

text \<open>
  A pipelined stage that returns a list of another length hangs the run when a second batch is in flight. The commit raises the
  \<open>ValueError\<close> of \<open>zip(..., strict=True)\<close>, which is not one of the exceptions that stop the lane at once. The last loop waits
  for the batch that raised, which has left the dict.
\<close>

theorem pipelined_lane_hangs:
  "run_pipelined (demo_engine sink_ok None SINK_FAIL_CLOSED 1) [] (demo_pipe 0 (\<lambda>q rows. Inr [])) None
      [([demo_obj 1], PInt 1), ([demo_obj 2], PInt 2)] None (new_pipe (init_state ())) = None"
proof -
  let ?D = "demo_engine sink_ok None SINK_FAIL_CLOSED 1" and ?S = "demo_pipe 0 (\<lambda>q rows. Inr [])"
  let ?src = "source_loop ?D [] ?S (batch_stage_limit ?S None) [([demo_obj 1], PInt 1), ([demo_obj 2], PInt 2)] None
    (new_pipe (init_state ()))"
  have "map_option (\<lambda>(r, u). (case r of Inl e \<Rightarrow> stops_at_once e | Inr _ \<Rightarrow> True, map fst (pp_pending u), pp_next_commit u)) ?src =
      Some (False, [1], 0)" by code_simp
  then obtain p where p: "?src = Some p"
    "(case p of (r, u) \<Rightarrow> (case r of Inl e \<Rightarrow> stops_at_once e | Inr _ \<Rightarrow> True, map fst (pp_pending u), pp_next_commit u)) = (False, [1], 0)"
    unfolding map_option_eq_Some by blast
  obtain r u where ru: "p = (r, u)" by (cases p)
  with p(2) obtain e where e: "r = Inl e" by (cases r) simp_all
  have u: "?src = Some (Inl e, u)" "\<not> stops_at_once e" "map fst (pp_pending u) = [1]" "pp_next_commit u = 0"
    using p(2) unfolding ru e p(1) by simp_all
  have "map_of (pp_pending u) (pp_next_commit u) = None"
    using u(4) arg_cong [OF u(3), of set] by (simp add: map_of_eq_None_iff)
  moreover have "1 \<le> length (pp_pending u)" using arg_cong [OF u(3), of length] by simp
  ultimately have "pipe_commit_loop ?D [] ?S 1 u = None" by (rule broken_off_spins)
  with u(1,2) show ?thesis by (simp add: run_pipelined_def)
qed

end
