(* ===== verification/Pending_Owner.thy ===== *)
theory Pending_Owner
  imports Ledger
begin

text \<open>
  \<^verbatim>\<open>core/runtime/_delivery_pending.py\<close> and the branch of \<open>queue_success_record\<close> and
  \<open>flush_pending_writes\<close> (\<^verbatim>\<open>core/runtime/_delivery.py\<close>) that uses it: with a flush interval, a task of
  its own takes the pending writes, and the lane that queues them only waits for room.

  The two coroutines share the run state, three \<open>asyncio.Event\<close>s and an error slot. Coroutines are
  switched only where one of them waits, so each step below runs one coroutine from the place where it
  waits to the next such place, as one function on the shared state; the step relation interleaves
  them in any order. A flush is cut in two: taking the batch, and everything from the sink's answer
  on. Between two queued records the lane may drop one with \<open>drop_record\<close>, which is one step and may store a checkpoint;
  the parameter \<open>drops\<close> says whether it does. What else the lane does there (the chain) is any change of the run state
  that leaves the queue alone and neither writes nor stores a checkpoint.

  \<open>ow_ledger\<close> and \<open>ow_batches\<close> record what was queued and what was taken; the code does not read them.
\<close>

section \<open>State\<close>

datatype owner_pc =
    OStart
  | OWait bool
  | OFlush "PendingWrite list"
  | OReturned
  | OFailed exn

datatype lane_pc =
    LRun
  | LWaitCapacity
  | LSpin
  | LClosing
  | LDone
  | LRaised exn

record 'e owner_state =
  ow_run :: "'e rstate"
  ow_notify :: bool
  ow_stop :: bool
  ow_flushed :: bool
  ow_error :: "exn option"
  ow_pc :: owner_pc
  ow_lane :: lane_pc
  ow_ledger :: ledger
  ow_batches :: "PendingWrite list list"

definition uses_pending_write_owner :: "int \<Rightarrow> int option \<Rightarrow> bool" where
  "uses_pending_write_owner writer_batch_size batch_flush_interval_ms \<longleftrightarrow>
     writer_batch_size > 1 \<and>
     (case batch_flush_interval_ms of None \<Rightarrow> False | Some ms \<Rightarrow> ms > 0)"

text \<open>\<open>ensure_pending_write_owner\<close>: the events are fresh, \<open>flushed\<close> is set, the task has not run yet.\<close>

definition ensure_pending_write_owner :: "'e rstate \<Rightarrow> 'e owner_state" where
  "ensure_pending_write_owner s = \<lparr>ow_run = s, ow_notify = False, ow_stop = False, ow_flushed = True,
     ow_error = None, ow_pc = OStart, ow_lane = LRun, ow_ledger = [], ow_batches = []\<rparr>"

abbreviation ow_pending :: "'e owner_state \<Rightarrow> PendingWrite list" where
  "ow_pending s \<equiv> rs_pending (ow_run s)"

section \<open>The owner task\<close>

text \<open>\<open>flush_once\<close> up to its first wait: the batch becomes a local variable, the queue a new list.\<close>

definition owner_take :: "'e owner_state \<Rightarrow> 'e owner_state" where
  "owner_take s = s\<lparr>ow_pc := OFlush (ow_pending s), ow_batches := ow_batches s @ [ow_pending s],
     ow_run := (ow_run s)\<lparr>rs_pending := []\<rparr>\<rparr>"

text \<open>From the top of the loop to the next wait. \<open>OWait True\<close> waits with the flush interval as timeout.\<close>

definition owner_top :: "int \<Rightarrow> 'e owner_state \<Rightarrow> 'e owner_state" where
  "owner_top batch_size s =
     (if ow_stop s \<and> ow_pending s = [] then s\<lparr>ow_pc := OReturned\<rparr>
      else if int (length (ow_pending s)) \<ge> batch_size then owner_take s
      else s\<lparr>ow_pc := OWait (ow_pending s \<noteq> [])\<rparr>)"

definition owner_wake :: "int \<Rightarrow> bool \<Rightarrow> 'e owner_state \<Rightarrow> 'e owner_state" where
  "owner_wake batch_size timed_out s =
     (let s' = s\<lparr>ow_notify := False\<rparr> in
      if ow_stop s' \<and> ow_pending s' \<noteq> [] then owner_take s'
      else if timed_out \<and> ow_pending s' \<noteq> [] then owner_take s'
      else owner_top batch_size s')"

text \<open>
  The rest of \<open>flush_once\<close> on the batch that was taken, whatever is in the queue by then; then back to
  the top of the loop, or out through the handlers.
\<close>

definition flush_taken :: "'e DeliveryEngine \<Rightarrow> PendingWrite list \<Rightarrow> ('e, unit) run" where
  "flush_taken D batch = (\<lambda>s. case flush_pending_writes_once D (s\<lparr>rs_pending := batch\<rparr>) of
     (r, t) \<Rightarrow> (r, t\<lparr>rs_pending := rs_pending s\<rparr>))"

definition owner_flush_done ::
  "'e DeliveryEngine \<Rightarrow> int \<Rightarrow> PendingWrite list \<Rightarrow> 'e owner_state \<Rightarrow> 'e owner_state" where
  "owner_flush_done D batch_size batch s = (case flush_taken D batch (ow_run s) of
       (Inr _, t) \<Rightarrow> owner_top batch_size (s\<lparr>ow_run := t, ow_flushed := True\<rparr>)
     | (Inl e, t) \<Rightarrow>
         let s' = s\<lparr>ow_run := t, ow_pc := OFailed e\<rparr> in
         if isinstance e CancelledErrorC then s'
         else s'\<lparr>ow_error := Some e, ow_flushed := True\<rparr>)"

section \<open>The lane\<close>

text \<open>
  \<open>wait_for_pending_write_capacity\<close> up to its next wait. Waiting on an event that is already set does
  not suspend, so the loop would turn for ever without giving the owner a chance: \<open>LSpin\<close>.
\<close>

definition wait_for_pending_write_capacity :: "int \<Rightarrow> 'e owner_state \<Rightarrow> 'e owner_state" where
  "wait_for_pending_write_capacity batch_size s =
     (if int (length (ow_pending s)) \<ge> batch_size then
        case ow_error s of
          Some e \<Rightarrow> s\<lparr>ow_lane := LRaised e\<rparr>
        | None \<Rightarrow> if ow_flushed s then s\<lparr>ow_lane := LSpin\<rparr> else s\<lparr>ow_lane := LWaitCapacity\<rparr>
      else s\<lparr>ow_lane := LRun\<rparr>)"

text \<open>\<open>queue_success_record\<close> with an owner.\<close>

definition queue_with_owner ::
  "int \<Rightarrow> SourceRecord \<Rightarrow> pyobj \<Rightarrow> 'e owner_state \<Rightarrow> 'e owner_state" where
  "queue_with_owner batch_size sr p s =
     (case success_hook_for (sr_raw sr) (Some p) (sr_on_success sr) (ow_run s) of
        (Inl e, t) \<Rightarrow> s\<lparr>ow_run := t, ow_lane := LRaised e\<rparr>
      | (Inr on_success, t) \<Rightarrow>
          let item = \<lparr>pw_processed = p, pw_raw = sr_raw sr, pw_checkpoint = sr_checkpoint sr,
                      pw_on_success = on_success\<rparr>;
              s' = s\<lparr>ow_flushed := False, ow_run := t\<lparr>rs_pending := rs_pending t @ [item]\<rparr>,
                     ow_notify := True, ow_ledger := ow_ledger s @ [(sr, Some p, None)]\<rparr>
          in if int (length (ow_pending s')) \<ge> batch_size
             then wait_for_pending_write_capacity batch_size s'
             else s')"

text \<open>\<open>flush_pending_writes\<close> and \<open>close_pending_write_owner\<close> up to \<open>await task\<close>, and what follows it.\<close>

definition close_pending_write_owner :: "'e owner_state \<Rightarrow> 'e owner_state" where
  "close_pending_write_owner s = s\<lparr>ow_stop := True, ow_notify := True, ow_lane := LClosing\<rparr>"

definition owner_joined :: "'e owner_state \<Rightarrow> 'e owner_state" where
  "owner_joined s = (case ow_pc s of
       OReturned \<Rightarrow> s\<lparr>ow_lane := LDone\<rparr>
     | OFailed e \<Rightarrow> s\<lparr>ow_error := None,
         ow_lane := LRaised (case ow_error s of None \<Rightarrow> e | Some e' \<Rightarrow> e')\<rparr>
     | _ \<Rightarrow> s)"

text \<open>
  \<open>drop_record\<close> for a record the chain dropped or failed on. The lane keeps an \<open>Exception\<close> that it raises, goes on to close the
  owner and raises it afterwards; anything else ends it at once.
\<close>

definition drop_with_owner ::
  "'e DeliveryEngine \<Rightarrow> SourceRecord \<Rightarrow> MiddlewareFailure option \<Rightarrow> 'e owner_state \<Rightarrow> 'e owner_state" where
  "drop_with_owner D sr failure s =
     (case drop_record D (sr_checkpoint sr) failure (sr_on_success sr) (Some (sr_raw sr)) (ow_run s) of
        (Inr _, t) \<Rightarrow> s\<lparr>ow_run := t\<rparr>
      | (Inl e, t) \<Rightarrow> s\<lparr>ow_run := t, ow_lane := (if is_Exception e then LRun else LRaised e)\<rparr>)"

definition quiet_event :: "event \<Rightarrow> bool" where
  "quiet_event e \<longleftrightarrow> \<not> is_write e \<and> \<not> is_save e"

section \<open>Interleaving\<close>

inductive owner_step :: "'e DeliveryEngine \<Rightarrow> int \<Rightarrow> 'e owner_state \<Rightarrow> 'e owner_state \<Rightarrow> bool"
  for D :: "'e DeliveryEngine" and batch_size :: int where
  started: "ow_pc s = OStart \<Longrightarrow> owner_step D batch_size s (owner_top batch_size s)"
| notified: "ow_pc s = OWait timed \<Longrightarrow> ow_notify s \<Longrightarrow>
    owner_step D batch_size s (owner_wake batch_size False s)"
| timed_out: "ow_pc s = OWait True \<Longrightarrow> owner_step D batch_size s (owner_wake batch_size True s)"
| flush_done: "ow_pc s = OFlush batch \<Longrightarrow>
    owner_step D batch_size s (owner_flush_done D batch_size batch s)"

inductive lane_step :: "'e DeliveryEngine \<Rightarrow> int \<Rightarrow> bool \<Rightarrow> 'e owner_state \<Rightarrow> 'e owner_state \<Rightarrow> bool"
  for D :: "'e DeliveryEngine" and batch_size :: int and drops :: bool where
  queued: "ow_lane s = LRun \<Longrightarrow> lane_step D batch_size drops s (queue_with_owner batch_size sr p s)"
| dropped: "drops \<Longrightarrow> ow_lane s = LRun \<Longrightarrow> lane_step D batch_size drops s (drop_with_owner D sr failure s)"
| other: "ow_lane s = LRun \<Longrightarrow> emits quiet_event (ow_run s) t \<Longrightarrow>
    lane_step D batch_size drops s (s\<lparr>ow_run := t\<rparr>)"
| capacity: "ow_lane s = LWaitCapacity \<Longrightarrow> ow_flushed s \<Longrightarrow>
    lane_step D batch_size drops s (wait_for_pending_write_capacity batch_size s)"
| closed: "ow_lane s = LRun \<Longrightarrow> lane_step D batch_size drops s (close_pending_write_owner s)"
| joined: "ow_lane s = LClosing \<Longrightarrow> (ow_pc s = OReturned \<or> (\<exists>e. ow_pc s = OFailed e)) \<Longrightarrow>
    lane_step D batch_size drops s (owner_joined s)"

inductive owner_reach :: "'e DeliveryEngine \<Rightarrow> int \<Rightarrow> bool \<Rightarrow> 'e rstate \<Rightarrow> 'e owner_state \<Rightarrow> bool"
  for D :: "'e DeliveryEngine" and batch_size :: int and drops :: bool and s0 :: "'e rstate" where
  begins: "owner_reach D batch_size drops s0 (ensure_pending_write_owner s0)"
| owner_moves: "owner_reach D batch_size drops s0 s \<Longrightarrow> owner_step D batch_size s t \<Longrightarrow>
    owner_reach D batch_size drops s0 t"
| lane_moves: "owner_reach D batch_size drops s0 s \<Longrightarrow> lane_step D batch_size drops s t \<Longrightarrow>
    owner_reach D batch_size drops s0 t"

section \<open>The control invariant\<close>

text \<open>What does not depend on where the owner waits, and what does.\<close>

definition ctrl_base :: "int \<Rightarrow> 'e owner_state \<Rightarrow> bool" where
  "ctrl_base n s \<longleftrightarrow>
     int (length (ow_pending s)) \<le> n \<and>
     (\<forall>b\<in>set (ow_batches s). b \<noteq> [] \<and> int (length b) \<le> n) \<and>
     (ow_lane s = LRun \<longrightarrow> int (length (ow_pending s)) < n) \<and>
     ow_lane s \<noteq> LSpin \<and>
     (ow_stop s \<longrightarrow> ow_lane s \<noteq> LRun \<and> ow_lane s \<noteq> LWaitCapacity) \<and>
     (ow_lane s = LClosing \<longrightarrow> ow_stop s)"

definition owner_ctrl :: "int \<Rightarrow> 'e owner_state \<Rightarrow> bool" where
  "owner_ctrl n s \<longleftrightarrow> ctrl_base n s \<and>
     (ow_flushed s \<and> ow_error s = None \<and> (\<forall>e. ow_lane s \<noteq> LRaised e) \<longrightarrow>
        int (length (ow_pending s)) < n) \<and>
     (ow_error s \<noteq> None \<longrightarrow> (\<exists>e. ow_pc s = OFailed e)) \<and>
     (ow_lane s = LWaitCapacity \<longrightarrow> ow_flushed s \<or> ow_error s = None) \<and>
     (ow_lane s = LDone \<longrightarrow> ow_pc s = OReturned) \<and>
     (case ow_pc s of
        OStart \<Rightarrow>
          (ow_lane s = LWaitCapacity \<and> \<not> ow_flushed s \<longrightarrow> int (length (ow_pending s)) \<ge> n) \<and>
          (ow_stop s \<longrightarrow> ow_notify s)
      | OWait timed \<Rightarrow>
          (ow_lane s = LWaitCapacity \<and> \<not> ow_flushed s \<longrightarrow>
             int (length (ow_pending s)) \<ge> n \<and> ow_notify s) \<and>
          (\<not> ow_notify s \<longrightarrow> int (length (ow_pending s)) < n \<and> (timed \<longleftrightarrow> ow_pending s \<noteq> [])) \<and>
          (ow_stop s \<longrightarrow> ow_notify s)
      | OFlush _ \<Rightarrow> ow_stop s \<longrightarrow> ow_notify s \<or> ow_pending s = []
      | OReturned \<Rightarrow> ow_stop s \<and> ow_pending s = []
      | OFailed e \<Rightarrow> isinstance e CancelledErrorC \<or> ow_error s \<noteq> None \<or> (\<exists>e. ow_lane s = LRaised e))"

lemma owner_ctrl_base: "owner_ctrl n s \<Longrightarrow> ctrl_base n s"
  by (simp add: owner_ctrl_def)

lemma owner_ctrl_error:
  "owner_ctrl n s \<Longrightarrow> \<forall>e. ow_pc s \<noteq> OFailed e \<Longrightarrow> ow_error s = None"
  by (auto simp: owner_ctrl_def)

lemma ctrl_base_cong:
  "ctrl_base n s \<Longrightarrow> ow_pending t = ow_pending s \<Longrightarrow> ow_batches t = ow_batches s \<Longrightarrow>
     ow_lane t = ow_lane s \<Longrightarrow> ow_stop t = ow_stop s \<Longrightarrow> ctrl_base n t"
  by (simp add: ctrl_base_def)

lemma flush_taken_pending: "flush_taken D b s = (r, t) \<Longrightarrow> rs_pending t = rs_pending s"
  by (auto simp: flush_taken_def split: prod.splits)

lemmas owner_defs = owner_top_def owner_take_def owner_wake_def owner_flush_done_def Let_def
  wait_for_pending_write_capacity_def queue_with_owner_def close_pending_write_owner_def owner_joined_def

lemma owner_ctrl_start: "n > 1 \<Longrightarrow> rs_pending s = [] \<Longrightarrow> owner_ctrl n (ensure_pending_write_owner s)"
  by (simp add: owner_ctrl_def ctrl_base_def ensure_pending_write_owner_def)

lemma owner_take_ctrl:
  assumes "ctrl_base n s" "n > 1" "ow_error s = None" "ow_pending s \<noteq> []" "ow_lane s \<noteq> LDone"
  shows "owner_ctrl n (owner_take s)"
  using assms by (auto simp: owner_ctrl_def ctrl_base_def owner_take_def)

lemma owner_top_ctrl:
  assumes base: "ctrl_base n s" "n > 1" "ow_error s = None" "ow_lane s \<noteq> LDone"
    and "ow_lane s = LWaitCapacity \<Longrightarrow> ow_flushed s \<or> int (length (ow_pending s)) \<ge> n"
    and "ow_stop s \<Longrightarrow> ow_notify s \<or> ow_pending s = []"
  shows "owner_ctrl n (owner_top n s)"
proof (cases "int (length (ow_pending s)) \<ge> n")
  case True
  then have "ow_pending s \<noteq> []" using base(2) by auto
  with base True show ?thesis by (simp add: owner_top_def owner_take_ctrl)
next
  case False
  with assms show ?thesis by (auto simp: owner_top_def owner_ctrl_def ctrl_base_def)
qed

lemma owner_started_ctrl:
  assumes "owner_ctrl n s" "n > 1" "ow_pc s = OStart"
  shows "owner_ctrl n (owner_top n s)"
  using assms by (intro owner_top_ctrl) (auto simp: owner_ctrl_def)

lemma owner_wake_ctrl:
  assumes ctrl: "owner_ctrl n s" "n > 1" "ow_pc s = OWait timed"
  shows "owner_ctrl n (owner_wake n timed_out s)"
proof -
  let ?s = "s\<lparr>ow_notify := False\<rparr>"
  have base: "ctrl_base n ?s" using ctrl(1) by (auto simp: owner_ctrl_def intro: ctrl_base_cong)
  have err: "ow_error ?s = None" "ow_lane ?s \<noteq> LDone"
    using owner_ctrl_error [OF ctrl(1)] ctrl by (auto simp: owner_ctrl_def)
  show ?thesis
  proof (cases "(ow_stop s \<or> timed_out) \<and> ow_pending s \<noteq> []")
    case True
    then show ?thesis
      using owner_take_ctrl [OF base ctrl(2) err(1)] err(2) by (auto simp: owner_wake_def Let_def)
  next
    case False
    moreover have "ow_lane s = LWaitCapacity \<Longrightarrow> ow_flushed s \<or> int (length (ow_pending s)) \<ge> n"
      using ctrl(1,3) by (auto simp: owner_ctrl_def)
    ultimately show ?thesis
      using owner_top_ctrl [OF base ctrl(2) err] by (auto simp: owner_wake_def Let_def)
  qed
qed

lemma owner_flush_done_ctrl:
  assumes ctrl: "owner_ctrl n s" "n > 1" "ow_pc s = OFlush batch"
  shows "owner_ctrl n (owner_flush_done D n batch s)"
proof (cases "flush_taken D batch (ow_run s)")
  case (Pair r t)
  then have t: "rs_pending t = ow_pending s" by (rule flush_taken_pending)
  show ?thesis
  proof (cases r)
    case (Inl e)
    with Pair t ctrl show ?thesis
      by (auto simp: owner_flush_done_def Let_def owner_ctrl_def ctrl_base_def)
  next
    case (Inr x)
    let ?s = "s\<lparr>ow_run := t, ow_flushed := True\<rparr>"
    have "ctrl_base n ?s" using ctrl(1) t by (auto simp: owner_ctrl_def intro: ctrl_base_cong)
    moreover have "ow_error ?s = None" "ow_lane ?s \<noteq> LDone"
      using owner_ctrl_error [OF ctrl(1)] ctrl by (auto simp: owner_ctrl_def)
    moreover have "ow_stop ?s \<Longrightarrow> ow_notify ?s \<or> ow_pending ?s = []"
      using ctrl(1,3) t by (auto simp: owner_ctrl_def)
    ultimately have "owner_ctrl n (owner_top n ?s)" using ctrl(2) by (intro owner_top_ctrl) auto
    with Pair Inr show ?thesis by (simp add: owner_flush_done_def)
  qed
qed

lemma queue_with_owner_ctrl:
  assumes "owner_ctrl n s" "n > 1" "ow_lane s = LRun"
  shows "owner_ctrl n (queue_with_owner n sr p s)"
proof -
  obtain os t where hook: "success_hook_for (sr_raw sr) (Some p) (sr_on_success sr) (ow_run s) = (Inr os, t)"
    and "emits (\<lambda>_. False) (ow_run s) t"
    by (metis success_hook_for_emits success_hook_for_returns steps_inD)
  then have "rs_pending t = ow_pending s" by (simp add: emits_def)
  with hook assms show ?thesis
    by (auto simp: owner_ctrl_def ctrl_base_def queue_with_owner_def wait_for_pending_write_capacity_def
        Let_def split: option.splits owner_pc.splits)
qed

lemma owner_step_ctrl:
  assumes "owner_step D n s t" "owner_ctrl n s" "n > 1"
  shows "owner_ctrl n t"
  using assms
  by (cases rule: owner_step.cases) (auto intro: owner_started_ctrl owner_wake_ctrl owner_flush_done_ctrl)

lemma drop_with_owner_run:
  "\<exists>t lane. drop_with_owner D sr failure s = s\<lparr>ow_run := t, ow_lane := lane\<rparr> \<and> rs_pending t = ow_pending s \<and>
     (ow_lane s = LRun \<longrightarrow> lane = LRun \<or> (\<exists>e. lane = LRaised e))"
proof -
  obtain r t where run: "drop_record D (sr_checkpoint sr) failure (sr_on_success sr) (Some (sr_raw sr)) (ow_run s) = (r, t)"
    by (metis surj_pair)
  have "steps_in (emits (\<lambda>_. True)) (drop_record D (sr_checkpoint sr) failure (sr_on_success sr) (Some (sr_raw sr)))"
    by (rule drop_record_emits)
  from steps_inD [OF this run] have t: "rs_pending t = ow_pending s" by (simp add: emits_def)
  show ?thesis
  proof (cases r)
    case (Inl e)
    with run t show ?thesis
      by (intro exI [of _ t] exI [of _ "if is_Exception e then LRun else LRaised e"]) (simp add: drop_with_owner_def)
  next
    case (Inr x)
    with run t show ?thesis by (intro exI [of _ t] exI [of _ "ow_lane s"]) (simp add: drop_with_owner_def)
  qed
qed

lemma drop_with_owner_ctrl:
  assumes "owner_ctrl n s" "ow_lane s = LRun"
  shows "owner_ctrl n (drop_with_owner D sr failure s)"
proof -
  obtain t lane where "drop_with_owner D sr failure s = s\<lparr>ow_run := t, ow_lane := lane\<rparr>" "rs_pending t = ow_pending s"
    "lane = LRun \<or> (\<exists>e. lane = LRaised e)"
    using drop_with_owner_run [of D sr failure s] assms(2) by blast
  with assms show ?thesis by (auto simp: owner_ctrl_def ctrl_base_def split: owner_pc.splits)
qed

lemma lane_step_ctrl:
  assumes "lane_step D n drops s t" "owner_ctrl n s" "n > 1"
  shows "owner_ctrl n t"
  using assms(1)
proof (cases rule: lane_step.cases)
  case (queued sr p)
  with assms show ?thesis by (simp add: queue_with_owner_ctrl)
next
  case (dropped sr failure)
  with assms show ?thesis by (simp add: drop_with_owner_ctrl)
next
  case (other u)
  with assms show ?thesis by (auto simp: owner_ctrl_def ctrl_base_def emits_def split: owner_pc.splits)
next
  case capacity
  with assms show ?thesis
    by (auto simp: owner_ctrl_def ctrl_base_def wait_for_pending_write_capacity_def
        split: option.splits owner_pc.splits)
next
  case closed
  with assms show ?thesis
    by (auto simp: owner_ctrl_def ctrl_base_def close_pending_write_owner_def split: owner_pc.splits)
next
  case joined
  with assms show ?thesis by (auto simp: owner_ctrl_def ctrl_base_def owner_joined_def split: owner_pc.splits)
qed

lemma owner_reach_ctrl:
  assumes "owner_reach D n drops s0 s" "n > 1" "rs_pending s0 = []"
  shows "owner_ctrl n s"
  using assms by induction (auto intro: owner_ctrl_start owner_step_ctrl lane_step_ctrl)

section \<open>Order\<close>

definition owner_fifo :: "'e owner_state \<Rightarrow> bool" where
  "owner_fifo s \<longleftrightarrow> list_all2 pend_of (ow_ledger s) (concat (ow_batches s) @ ow_pending s)"

lemma owner_take_fifo: "owner_fifo s \<Longrightarrow> owner_fifo (owner_take s)"
  by (simp add: owner_fifo_def owner_take_def)

lemma owner_fifo_cong:
  "owner_fifo s \<Longrightarrow> ow_ledger t = ow_ledger s \<Longrightarrow> ow_batches t = ow_batches s \<Longrightarrow>
     ow_pending t = ow_pending s \<Longrightarrow> owner_fifo t"
  by (simp add: owner_fifo_def)

lemma owner_top_fifo: "owner_fifo s \<Longrightarrow> owner_fifo (owner_top n s)"
  by (auto simp: owner_top_def intro: owner_take_fifo owner_fifo_cong)

lemma owner_step_fifo:
  assumes "owner_step D n s t" "owner_fifo s"
  shows "owner_fifo t"
  using assms(1)
proof (cases rule: owner_step.cases)
  case (flush_done batch)
  with assms(2) show ?thesis
    by (auto simp: owner_flush_done_def Let_def flush_taken_pending intro!: owner_top_fifo
        owner_fifo_cong [OF assms(2)] split: prod.splits sum.splits)
qed (use assms(2) in \<open>auto simp: owner_wake_def Let_def intro!: owner_top_fifo owner_take_fifo
      owner_fifo_cong [OF assms(2)]\<close>)

lemma queue_with_owner_run:
  obtains item u where "ow_run (queue_with_owner n sr p s) = u\<lparr>rs_pending := ow_pending s @ [item]\<rparr>"
    "rs_trace u = rs_trace (ow_run s)" "pend_of (sr, Some p, None) item"
    "ow_ledger (queue_with_owner n sr p s) = ow_ledger s @ [(sr, Some p, None)]"
    "ow_batches (queue_with_owner n sr p s) = ow_batches s" "ow_pc (queue_with_owner n sr p s) = ow_pc s"
proof -
  obtain os u where hook: "success_hook_for (sr_raw sr) (Some p) (sr_on_success sr) (ow_run s) = (Inr os, u)"
    and "emits (\<lambda>_. False) (ow_run s) u"
    by (metis success_hook_for_emits success_hook_for_returns steps_inD)
  then have "rs_pending u = ow_pending s" "rs_trace u = rs_trace (ow_run s)" by (simp_all add: emits_pure)
  with hook that [where u = u and item = "\<lparr>pw_processed = p, pw_raw = sr_raw sr, pw_checkpoint = sr_checkpoint sr,
      pw_on_success = os\<rparr>"] show thesis
    by (auto simp: queue_with_owner_def wait_for_pending_write_capacity_def Let_def pend_of_def
        split: option.splits if_splits)
qed

lemma lane_step_same:
  assumes "lane_step D n drops s t" "\<And>sr p. t \<noteq> queue_with_owner n sr p s"
  shows "ow_ledger t = ow_ledger s \<and> ow_batches t = ow_batches s \<and> ow_pc t = ow_pc s \<and> ow_pending t = ow_pending s \<and>
    (\<not> drops \<longrightarrow> emits quiet_event (ow_run s) (ow_run t))"
  using assms(1)
proof (cases rule: lane_step.cases)
  case (queued sr p)
  with assms(2) show ?thesis by blast
next
  case (dropped sr failure)
  with drop_with_owner_run [of D sr failure s] show ?thesis by force
qed (auto simp: wait_for_pending_write_capacity_def close_pending_write_owner_def owner_joined_def
      em.R_refl emits_def split: option.splits owner_pc.splits)

lemma lane_step_fifo:
  assumes "lane_step D n drops s t" "owner_fifo s"
  shows "owner_fifo t"
proof (cases "\<exists>sr p. t = queue_with_owner n sr p s")
  case True
  then obtain sr p where t: "t = queue_with_owner n sr p s" by blast
  obtain item u where "ow_run t = u\<lparr>rs_pending := ow_pending s @ [item]\<rparr>" "pend_of (sr, Some p, None) item"
    "ow_ledger t = ow_ledger s @ [(sr, Some p, None)]" "ow_batches t = ow_batches s"
    using queue_with_owner_run [of n sr p s] t by metis
  moreover have "list_all2 pend_of (ow_ledger s @ [(sr, Some p, None)])
      ((concat (ow_batches s) @ ow_pending s) @ [item])"
    using assms(2) calculation by (intro list_all2_appendI) (auto simp: owner_fifo_def)
  ultimately show ?thesis by (simp add: owner_fifo_def)
next
  case False
  then show ?thesis
    using lane_step_same [OF assms(1)] assms(2) by (auto intro: owner_fifo_cong)
qed

text \<open>
  C12. With a flush interval, whatever the interleaving of the lane and the owner task: the batches
  handed to the sink, in the order in which they are taken, followed by what is still pending, are
  exactly the queued records in source order, so no record is lost, duplicated or reordered; no batch
  is empty or larger than \<open>batch_size\<close>; at most \<open>batch_size\<close> records are pending; and the loop of
  \<open>wait_for_pending_write_capacity\<close> never spins on an event that is already set.
\<close>

theorem pending_owner_fifo_bounded:
  assumes "owner_reach D batch_size drops s0 s" "rs_pending s0 = []"
    and "uses_pending_write_owner batch_size interval"
  shows "list_all2 pend_of (ow_ledger s) (concat (ow_batches s) @ ow_pending s) \<and>
    int (length (ow_pending s)) \<le> batch_size \<and>
    (\<forall>b\<in>set (ow_batches s). b \<noteq> [] \<and> int (length b) \<le> batch_size) \<and> ow_lane s \<noteq> LSpin"
proof -
  have n: "batch_size > 1" using assms(3) by (simp add: uses_pending_write_owner_def)
  have "owner_fifo s" using assms(1,2)
  proof induction
    case begins
    then show ?case by (simp add: owner_fifo_def ensure_pending_write_owner_def)
  qed (auto intro: owner_step_fifo lane_step_fifo)
  moreover have "ctrl_base batch_size s" using owner_reach_ctrl [OF assms(1) n assms(2)] by (rule owner_ctrl_base)
  ultimately show ?thesis by (auto simp: owner_fifo_def ctrl_base_def)
qed

section \<open>Progress\<close>

text \<open>How far the owner is from letting a waiting lane go on.\<close>

definition owner_rank :: "'e owner_state \<Rightarrow> nat" where
  "owner_rank s =
     (case ow_pc s of OStart \<Rightarrow> 4 | OWait _ \<Rightarrow> 2 | OFlush _ \<Rightarrow> 3 | _ \<Rightarrow> 0) +
     (if ow_pending s = [] then 0 else 2)"

definition lane_blocked :: "'e owner_state \<Rightarrow> bool" where
  "lane_blocked s \<longleftrightarrow> ow_lane s = LWaitCapacity \<and> \<not> ow_flushed s \<or>
     ow_lane s = LClosing \<and> ow_pc s \<noteq> OReturned \<and> (\<forall>e. ow_pc s \<noteq> OFailed e)"

lemma owner_take_rank: "owner_rank (owner_take s) = 3"
  by (simp add: owner_rank_def owner_take_def)

lemma owner_top_rank: "owner_rank (owner_top n s) \<le> (if ow_pending s = [] then 3 else 4)"
  by (simp add: owner_top_def owner_take_rank) (simp add: owner_rank_def)

lemma owner_top_rank_empty: "n > 1 \<Longrightarrow> ow_pending s = [] \<Longrightarrow> owner_rank (owner_top n s) \<le> 2"
  by (simp add: owner_top_def owner_rank_def)

lemma owner_wake_rank:
  assumes ctrl: "owner_ctrl n s" "n > 1" "lane_blocked s" "ow_pc s = OWait timed"
  shows "owner_rank (owner_wake n timed_out s) < owner_rank s"
proof (cases "ow_pending s = []")
  case True
  then have "ow_stop s"
    using ctrl by (auto simp: lane_blocked_def owner_ctrl_def ctrl_base_def)
  with True ctrl(4) show ?thesis by (simp add: owner_rank_def owner_wake_def owner_top_def)
next
  case False
  then have s: "owner_rank s = 4" using ctrl(4) by (simp add: owner_rank_def)
  have "ow_stop s \<or> int (length (ow_pending s)) \<ge> n"
    using ctrl by (auto simp: lane_blocked_def owner_ctrl_def ctrl_base_def)
  then have "owner_wake n timed_out s = owner_take (s\<lparr>ow_notify := False\<rparr>)"
    using False by (auto simp: owner_wake_def owner_top_def Let_def)
  with s show ?thesis by (simp add: owner_take_rank)
qed

lemma owner_flush_done_rank:
  assumes "n > 1" "ow_pc s = OFlush batch"
  shows "owner_rank (owner_flush_done D n batch s) < owner_rank s"
proof (cases "flush_taken D batch (ow_run s)")
  case (Pair r t)
  let ?s = "s\<lparr>ow_run := t, ow_flushed := True\<rparr>"
  have t: "rs_pending t = ow_pending s" using Pair by (rule flush_taken_pending)
  show ?thesis
  proof (cases r)
    case (Inl e)
    with Pair t assms(2) show ?thesis by (simp add: owner_flush_done_def owner_rank_def Let_def)
  next
    case (Inr x)
    have "owner_rank (owner_top n ?s) < owner_rank s"
      using owner_top_rank [of n ?s] owner_top_rank_empty [OF assms(1), of ?s] t assms(2)
      by (auto simp: owner_rank_def [of s])
    with Pair Inr show ?thesis by (simp add: owner_flush_done_def)
  qed
qed

lemma blocked_rank_decreases:
  assumes "owner_ctrl n s" "n > 1" "lane_blocked s" "owner_step D n s t"
  shows "owner_rank t < owner_rank s"
  using assms(4)
proof (cases rule: owner_step.cases)
  case started
  with owner_top_rank [of n s] show ?thesis by (auto simp: owner_rank_def [of s] split: if_splits)
qed (use assms in \<open>auto intro: owner_wake_rank owner_flush_done_rank\<close>)

lemma owner_live_step:
  assumes "owner_ctrl n s" "lane_blocked s" "\<forall>e. ow_pc s = OFailed e \<longrightarrow> \<not> isinstance e CancelledErrorC"
  shows "\<exists>t. owner_step D n s t"
proof (cases "ow_pc s")
  case OStart
  then show ?thesis by (blast intro: owner_step.started)
next
  case (OWait timed)
  then have "ow_notify s" using assms(1,2) by (auto simp: owner_ctrl_def ctrl_base_def lane_blocked_def)
  with OWait show ?thesis by (blast intro: owner_step.notified)
next
  case (OFlush batch)
  then show ?thesis by (blast intro: owner_step.flush_done)
qed (use assms in \<open>auto simp: owner_ctrl_def ctrl_base_def lane_blocked_def\<close>)

text \<open>
  C13. A lane that waits does not wait for ever, unless a \<open>CancelledError\<close> has ended the owner. Whenever the lane is
  blocked, for room in the queue or for the owner to finish, and the owner was not ended that way, the owner can take a
  step; every step it takes brings the end of the wait nearer (\<open>owner_rank\<close>, at most 6, decreases), and when the event
  that the lane waits for is set, the lane leaves the wait at once, with room in the queue or with the
  owner's error. A flush that returns is all this needs from the sink. After a \<open>CancelledError\<close>, of the sink for
  example, the lane does wait for ever (\<open>cancelled_owner_leaves_lane_waiting\<close>).
\<close>

theorem pending_owner_progress:
  assumes "owner_reach D batch_size drops s0 s" "rs_pending s0 = []"
    and "uses_pending_write_owner batch_size interval"
    and alive: "\<forall>e. ow_pc s = OFailed e \<longrightarrow> \<not> isinstance e CancelledErrorC"
  shows "(lane_blocked s \<longrightarrow> (\<exists>t. owner_step D batch_size s t) \<and>
      (\<forall>t. owner_step D batch_size s t \<longrightarrow> owner_rank t < owner_rank s)) \<and> owner_rank s \<le> 6 \<and>
    (ow_lane s = LWaitCapacity \<and> ow_flushed s \<longrightarrow>
      ow_lane (wait_for_pending_write_capacity batch_size s) = LRun \<and> int (length (ow_pending s)) < batch_size \<or>
      (\<exists>e. ow_error s = Some e \<and> ow_lane (wait_for_pending_write_capacity batch_size s) \<in> {LRun, LRaised e}))"
proof (intro conjI impI allI)
  have n: "batch_size > 1" using assms(3) by (simp add: uses_pending_write_owner_def)
  have ctrl: "owner_ctrl batch_size s" using owner_reach_ctrl [OF assms(1) n assms(2)] .
  show "lane_blocked s \<Longrightarrow> \<exists>t. owner_step D batch_size s t" using ctrl alive by (intro owner_live_step)
  show "lane_blocked s \<Longrightarrow> owner_step D batch_size s t \<Longrightarrow> owner_rank t < owner_rank s" for t
    using ctrl n by (intro blocked_rank_decreases)
  show "owner_rank s \<le> 6" by (simp add: owner_rank_def split: owner_pc.split)
  show "ow_lane s = LWaitCapacity \<and> ow_flushed s \<Longrightarrow>
      ow_lane (wait_for_pending_write_capacity batch_size s) = LRun \<and> int (length (ow_pending s)) < batch_size \<or>
      (\<exists>e. ow_error s = Some e \<and> ow_lane (wait_for_pending_write_capacity batch_size s) \<in> {LRun, LRaised e})"
    using ctrl by (cases "ow_error s") (auto simp: wait_for_pending_write_capacity_def owner_ctrl_def)
qed

section \<open>Checkpoints\<close>

definition in_flight :: "'e owner_state \<Rightarrow> PendingWrite list" where
  "in_flight s = (case ow_pc s of OFlush b \<Rightarrow> b | _ \<Rightarrow> [])"

text \<open>The ledger splits into what is settled, what is being flushed and what is pending.\<close>

definition ledger_split ::
  "'e DeliveryEngine \<Rightarrow> 'e owner_state \<Rightarrow> ledger \<Rightarrow> ledger \<Rightarrow> ledger \<Rightarrow> bool" where
  "ledger_split D s led0 fl pl \<longleftrightarrow>
     ow_ledger s = led0 @ fl @ pl \<and> safe_trace D (led0 @ fl) (rs_trace (ow_run s)) \<and>
     list_all2 pend_of fl (in_flight s) \<and> list_all2 pend_of pl (ow_pending s) \<and>
     ((\<forall>e. ow_pc s \<noteq> OFailed e) \<longrightarrow> (\<forall>x\<in>set led0. entry_settled D x (rs_trace (ow_run s))))"

definition owner_ledger_inv :: "'e DeliveryEngine \<Rightarrow> 'e owner_state \<Rightarrow> bool" where
  "owner_ledger_inv D s \<longleftrightarrow> (\<exists>led0 fl pl. ledger_split D s led0 fl pl)"

lemma owner_ledger_invI: "ledger_split D s led0 fl pl \<Longrightarrow> owner_ledger_inv D s"
  unfolding owner_ledger_inv_def by blast

text \<open>With nothing in flight, the owner goes on to its next wait.\<close>

lemma owner_take_ledger:
  assumes "ledger_split D s led0 [] pl" "\<forall>e. ow_pc s \<noteq> OFailed e"
  shows "ledger_split D (owner_take s) led0 pl []"
  using assms safe_trace_extend [of D led0 _ pl] by (auto simp: ledger_split_def owner_take_def in_flight_def)

lemma owner_top_ledger:
  assumes "ledger_split D s led0 [] pl" "\<forall>e. ow_pc s \<noteq> OFailed e"
  shows "owner_ledger_inv D (owner_top n s)"
proof -
  have stay: "ledger_split D (s\<lparr>ow_pc := pc\<rparr>) led0 [] pl" if "pc = OReturned \<or> (\<exists>b. pc = OWait b)" for pc
    using assms that by (auto simp: ledger_split_def in_flight_def)
  show ?thesis
    using owner_ledger_invI [OF stay] owner_ledger_invI [OF owner_take_ledger [OF assms]]
    by (simp add: owner_top_def)
qed

lemma flush_taken_ledger:
  assumes safe: "safe_trace D (led0 @ fl) (rs_trace s)" and fl: "list_all2 pend_of fl batch"
    and old: "\<forall>x\<in>set led0. entry_settled D x (rs_trace s)"
    and run: "flush_taken D batch s = (r, t)"
  shows "safe_trace D (led0 @ fl) (rs_trace t)"
    and "r = Inr () \<Longrightarrow> \<forall>x\<in>set (led0 @ fl). entry_settled D x (rs_trace t)"
proof -
  let ?s = "s\<lparr>rs_pending := batch\<rparr>"
  obtain r' u where once: "flush_pending_writes_once D ?s = (r', u)"
    by (cases "flush_pending_writes_once D ?s")
  with run have "(r', u\<lparr>rs_pending := rs_pending s\<rparr>) = (r, t)" by (simp add: flush_taken_def)
  then have "r' = r" "rs_trace t = rs_trace u" by (simp, fastforce)
  with once have u: "flush_pending_writes D ?s = (r, u)" "rs_trace t = rs_trace u"
    by (simp_all add: flush_pending_writes_def)
  have "lane_inv D (led0 @ fl) True ?s" using safe fl old by (intro lane_invI) simp_all
  note inv = lane_inv_flush_pending [OF this u(1)]
  show "safe_trace D (led0 @ fl) (rs_trace t)" using lane_inv_safe [OF conjunct1 [OF inv]] u(2) by simp
  show "\<forall>x\<in>set (led0 @ fl). entry_settled D x (rs_trace t)" if "r = Inr ()"
  proof -
    have "lane_inv D (led0 @ fl) True u" using conjunct1 [OF inv] unfolding that by simp
    from lane_inv_settled [OF this conjunct2 [OF inv]] show ?thesis using u(2) by simp
  qed
qed

lemma owner_flush_done_ledger:
  assumes split: "ledger_split D s led0 fl pl" and pc: "ow_pc s = OFlush batch"
  shows "owner_ledger_inv D (owner_flush_done D n batch s)"
proof -
  from split pc have led: "ow_ledger s = (led0 @ fl) @ pl" "list_all2 pend_of fl batch"
    "list_all2 pend_of pl (ow_pending s)" "safe_trace D (led0 @ fl) (rs_trace (ow_run s))"
    "\<forall>x\<in>set led0. entry_settled D x (rs_trace (ow_run s))"
    by (simp_all add: ledger_split_def in_flight_def)
  obtain r t where run: "flush_taken D batch (ow_run s) = (r, t)" by (cases "flush_taken D batch (ow_run s)")
  note flushed = flush_taken_ledger [OF led(4,2,5) run]
  show ?thesis
  proof (cases r)
    case (Inl e)
    have "ledger_split D (s\<lparr>ow_run := t, ow_pc := OFailed e, ow_error := er, ow_flushed := f\<rparr>) (led0 @ fl) [] pl"
      for f er using led(1,3) flushed(1) flush_taken_pending [OF run] by (simp add: ledger_split_def in_flight_def)
    from this [where er = "Some e" and f = True] this [where er = "ow_error s" and f = "ow_flushed s"]
    show ?thesis
      using run Inl by (auto simp: owner_flush_done_def Let_def intro: owner_ledger_invI)
  next
    case (Inr x)
    let ?s = "s\<lparr>ow_run := t, ow_flushed := True, ow_pc := OStart\<rparr>"
    have "ledger_split D ?s (led0 @ fl) [] pl"
      using led(1,3) flushed flush_taken_pending [OF run] Inr by (simp add: ledger_split_def in_flight_def)
    from owner_top_ledger [OF this, of n] have "owner_ledger_inv D (owner_top n ?s)" by simp
    moreover have "owner_top n ?s = owner_top n (s\<lparr>ow_run := t, ow_flushed := True\<rparr>)"
      by (simp add: owner_top_def owner_take_def)
    ultimately show ?thesis using run Inr by (simp add: owner_flush_done_def)
  qed
qed

lemma owner_step_ledger:
  assumes "owner_step D n s t" "owner_ledger_inv D s"
  shows "owner_ledger_inv D t"
proof -
  obtain led0 fl pl where split: "ledger_split D s led0 fl pl"
    using assms(2) by (auto simp: owner_ledger_inv_def)
  have quiet: "fl = []" if "ow_pc s = OStart \<or> (\<exists>b. ow_pc s = OWait b)"
    using split that by (auto simp: ledger_split_def in_flight_def)
  have wake: "owner_ledger_inv D (owner_wake n b s)" if "ow_pc s = OWait timed" for b timed
  proof -
    have "ledger_split D (s\<lparr>ow_notify := False\<rparr>) led0 [] pl"
      using split quiet that by (auto simp: ledger_split_def in_flight_def)
    with owner_top_ledger [OF this, of n] owner_ledger_invI [OF owner_take_ledger [OF this]] that
    show ?thesis by (simp add: owner_wake_def Let_def)
  qed
  from assms(1) show ?thesis
  proof (cases rule: owner_step.cases)
    case started
    with split quiet owner_top_ledger [of D s led0 pl n] show ?thesis by simp
  qed (use split wake in \<open>auto intro: owner_flush_done_ledger\<close>)
qed

lemma lane_step_ledger:
  assumes "lane_step D n False s t" "owner_ledger_inv D s"
  shows "owner_ledger_inv D t"
proof -
  obtain led0 fl pl where split: "ledger_split D s led0 fl pl"
    using assms(2) by (auto simp: owner_ledger_inv_def)
  show ?thesis
  proof (cases "\<exists>sr p. t = queue_with_owner n sr p s")
    case True
    then obtain sr p where t: "t = queue_with_owner n sr p s" by blast
    obtain item u where "ow_run t = u\<lparr>rs_pending := ow_pending s @ [item]\<rparr>"
      "rs_trace u = rs_trace (ow_run s)" "pend_of (sr, Some p, None) item"
      "ow_ledger t = ow_ledger s @ [(sr, Some p, None)]" "ow_pc t = ow_pc s"
      using queue_with_owner_run [of n sr p s] t by metis
    with split have "ledger_split D t led0 fl (pl @ [(sr, Some p, None)])"
      by (auto simp: ledger_split_def in_flight_def list_all2_appendI)
    then show ?thesis by (rule owner_ledger_invI)
  next
    case False
    with lane_step_same [OF assms(1)] have same: "ow_ledger t = ow_ledger s" "ow_pc t = ow_pc s"
      and "emits quiet_event (ow_run s) (ow_run t)" by auto
    then obtain ev where ev: "rs_trace (ow_run t) = rs_trace (ow_run s) @ ev" "list_all quiet_event ev"
      "ow_pending t = ow_pending s" by (auto simp: emits_def)
    then have "list_all (\<lambda>e. \<not> is_save e) ev" by (auto simp: list_all_iff quiet_event_def)
    with split same ev have "ledger_split D t led0 fl pl"
      by (auto simp: ledger_split_def in_flight_def intro: safe_trace_quiet entry_settled_append)
    then show ?thesis by (rule owner_ledger_invI)
  qed
qed

text \<open>
  C4. With the owner task too, no checkpoint is ahead of the data, as long as the chain drops no record: in every
  state that lane and owner can reach by taking turns in any order, each checkpoint in the trace belongs to a queued record
  such that it and all records queued before it had been settled, whatever the sink, the dead-letter queue and the
  store answer. When the owner has been closed without an error, every queued record is settled.
  A dropped record does break this (\<open>pending_owner_drop_overtakes\<close>).
\<close>

theorem pending_owner_checkpoint_never_ahead:
  assumes "owner_reach D batch_size False s0 s" "rs_pending s0 = []" "rs_trace s0 = []"
    and "uses_pending_write_owner batch_size interval"
  shows "safe_trace D (ow_ledger s) (rs_trace (ow_run s)) \<and>
    (ow_lane s = LDone \<longrightarrow> (\<forall>x\<in>set (ow_ledger s). entry_settled D x (rs_trace (ow_run s))))"
proof (intro conjI impI)
  have n: "batch_size > 1" using assms(4) by (simp add: uses_pending_write_owner_def)
  have "owner_ledger_inv D s" using assms(1-3)
  proof induction
    case begins
    then have "ledger_split D (ensure_pending_write_owner s0) [] [] []"
      by (simp add: ledger_split_def ensure_pending_write_owner_def in_flight_def safe_trace_def)
    then show ?case by (rule owner_ledger_invI)
  qed (auto intro: owner_step_ledger lane_step_ledger)
  then obtain led0 fl pl where split: "ledger_split D s led0 fl pl" by (auto simp: owner_ledger_inv_def)
  show "safe_trace D (ow_ledger s) (rs_trace (ow_run s))"
    using split safe_trace_extend [of D "led0 @ fl" _ pl] by (simp add: ledger_split_def)
  show "\<forall>x\<in>set (ow_ledger s). entry_settled D x (rs_trace (ow_run s))" if "ow_lane s = LDone"
    using split that owner_reach_ctrl [OF assms(1) n assms(2)]
    by (auto simp: ledger_split_def in_flight_def owner_ctrl_def)
qed

section \<open>Witnesses\<close>

text \<open>Two records queued before the owner runs: the lane waits, the owner takes and flushes both.\<close>

definition owner_demo :: "unit DeliveryEngine" where
  "owner_demo = demo_engine sink_ok None SINK_FAIL_CLOSED 1"

definition queued_two :: "unit owner_state" where
  "queued_two = queue_with_owner 2 (demo_record 2) (demo_obj 2)
     (queue_with_owner 2 (demo_record 1) (demo_obj 1) (ensure_pending_write_owner (init_state ())))"

definition flushed_two :: "unit owner_state" where
  "flushed_two = owner_flush_done owner_demo 2 (ow_pending queued_two) (owner_top 2 queued_two)"

definition closed_two :: "unit owner_state" where
  "closed_two = owner_joined (owner_wake 2 False
     (close_pending_write_owner (wait_for_pending_write_capacity 2 flushed_two)))"

lemma queued_two_lane: "ow_lane queued_two = LWaitCapacity" "ow_pc queued_two = OStart"
  "ow_lane (queue_with_owner 2 (demo_record 1) (demo_obj 1) (ensure_pending_write_owner (init_state ()))) = LRun"
  by code_simp+

lemma queued_two_reach: "owner_reach owner_demo 2 drops (init_state ()) queued_two"
  unfolding queued_two_def
  by (intro owner_reach.lane_moves [OF _ lane_step.queued] owner_reach.begins queued_two_lane)
     (simp add: ensure_pending_write_owner_def)

lemma flushed_two_reach: "owner_reach owner_demo 2 drops (init_state ()) flushed_two"
proof -
  have "owner_reach owner_demo 2 drops (init_state ()) (owner_top 2 queued_two)"
    using queued_two_reach queued_two_lane by (blast intro: owner_reach.owner_moves owner_step.started)
  moreover have "ow_pc (owner_top 2 queued_two) = OFlush (ow_pending queued_two)" by code_simp
  ultimately show ?thesis
    unfolding flushed_two_def by (blast intro: owner_reach.owner_moves owner_step.flush_done)
qed

lemma closed_two_reach: "owner_reach owner_demo 2 drops (init_state ()) closed_two"
proof -
  let ?a = "wait_for_pending_write_capacity 2 flushed_two"
  let ?b = "close_pending_write_owner ?a"
  have pcs: "ow_lane flushed_two = LWaitCapacity" "ow_flushed flushed_two" "ow_lane ?a = LRun"
    "ow_pc ?b = OWait False" "ow_notify ?b" "ow_lane (owner_wake 2 False ?b) = LClosing"
    "ow_pc (owner_wake 2 False ?b) = OReturned" by code_simp+
  then have "owner_reach owner_demo 2 drops (init_state ()) ?b"
    using flushed_two_reach by (blast intro: owner_reach.lane_moves lane_step.capacity lane_step.closed)
  with pcs have "owner_reach owner_demo 2 drops (init_state ()) (owner_wake 2 False ?b)"
    by (blast intro: owner_reach.owner_moves owner_step.notified)
  with pcs show ?thesis
    unfolding closed_two_def by (blast intro: owner_reach.lane_moves lane_step.joined)
qed

lemma owner_demo_uses: "uses_pending_write_owner 2 (Some 100)"
  by (simp add: uses_pending_write_owner_def)

theorem pending_owner_fifo_bounded_witness:
  "map pw_processed (concat (ow_batches flushed_two)) = [demo_obj 1, demo_obj 2] \<and>
   list_all2 pend_of (ow_ledger flushed_two) (concat (ow_batches flushed_two) @ ow_pending flushed_two) \<and>
   int (length (ow_pending flushed_two)) \<le> 2 \<and> ow_lane flushed_two \<noteq> LSpin"
proof -
  have "map pw_processed (concat (ow_batches flushed_two)) = [demo_obj 1, demo_obj 2]" by code_simp
  with pending_owner_fifo_bounded [OF flushed_two_reach _ owner_demo_uses] show ?thesis
    by (simp add: init_state_def)
qed

theorem pending_owner_progress_witness:
  "lane_blocked queued_two \<and> (\<exists>t. owner_step owner_demo 2 queued_two t \<and> owner_rank t < owner_rank queued_two)"
proof -
  have "\<not> ow_flushed queued_two" by code_simp
  then have "lane_blocked queued_two" using queued_two_lane(1) by (simp add: lane_blocked_def)
  with pending_owner_progress [OF queued_two_reach _ owner_demo_uses] queued_two_lane(2)
  show ?thesis by (fastforce simp: init_state_def)
qed

text \<open>
  Record 1 waits in the queue, the chain drops record 2, and \<open>drop_record\<close> stores the checkpoint of record 2. The flush of
  record 1 then fails and the run raises; a resumed run would start behind record 1, which was settled nowhere.
\<close>

definition down_demo :: "unit DeliveryEngine" where
  "down_demo = demo_engine sink_down None SINK_FAIL_CLOSED 1"

definition overtaken :: "unit owner_state" where
  "overtaken = drop_with_owner down_demo (demo_record 2) None
     (queue_with_owner 2 (demo_record 1) (demo_obj 1) (ensure_pending_write_owner (init_state ())))"

definition overtaken_end :: "unit owner_state" where
  "overtaken_end = (let s = close_pending_write_owner (owner_top 2 overtaken); s = owner_wake 2 False s
     in owner_joined (owner_flush_done down_demo 2 (hd (ow_batches s)) s))"

lemma pending_owner_drop_overtakes:
  "owner_reach down_demo 2 True (init_state ()) overtaken_end"
  "map (\<lambda>e. case e of ESave c b \<Rightarrow> Some (cp_value c, b) | _ \<Rightarrow> None) (rs_trace (ow_run overtaken_end)) = [Some (PInt 2, True), None]"
  "ow_lane overtaken_end = LRaised (RecordDeliveryError (mk_exn ValueErrorC ''sink is down''))"
proof -
  let ?R = "owner_reach down_demo 2 True (init_state ())"
  let ?q = "queue_with_owner 2 (demo_record 1) (demo_obj 1) (ensure_pending_write_owner (init_state ()))"
  let ?a = "owner_top 2 overtaken"
  let ?b = "close_pending_write_owner ?a"
  let ?c = "owner_wake 2 False ?b"
  let ?d = "owner_flush_done down_demo 2 (hd (ow_batches ?c)) ?c"
  have "?R ?q" by (intro owner_reach.lane_moves [OF owner_reach.begins lane_step.queued]) (simp add: ensure_pending_write_owner_def)
  moreover have pcs: "ow_lane ?q = LRun" "ow_pc overtaken = OStart" "ow_lane ?a = LRun" "ow_pc ?b = OWait True" "ow_notify ?b"
    "ow_pc ?c = OFlush (hd (ow_batches ?c))" "ow_lane ?d = LClosing" by code_simp+
  ultimately have "?R overtaken" unfolding overtaken_def by (intro owner_reach.lane_moves [OF _ lane_step.dropped]) simp_all
  then have "?R ?a" using pcs(2) by (intro owner_reach.owner_moves [OF _ owner_step.started])
  then have "?R ?b" using pcs(3) by (intro owner_reach.lane_moves [OF _ lane_step.closed])
  then have "?R ?c" using pcs(4,5) by (intro owner_reach.owner_moves [OF _ owner_step.notified])
  then have d: "?R ?d" using pcs(6) by (intro owner_reach.owner_moves [OF _ owner_step.flush_done])
  have "\<exists>e. ow_pc ?d = OFailed e" by (rule exI [of _ "RecordDeliveryError (mk_exn ValueErrorC ''sink is down'')"]) code_simp
  with d pcs(7) have "?R (owner_joined ?d)" by (intro owner_reach.lane_moves [OF _ lane_step.joined]) simp_all
  then show "?R overtaken_end" by (simp add: overtaken_end_def Let_def)
qed code_simp+

text \<open>
  An owner that a \<open>CancelledError\<close> ended sets neither the error nor the event: a lane that waits for room then waits for ever.
\<close>

definition cancel_demo :: "unit DeliveryEngine" where
  "cancel_demo = demo_engine (\<lambda>r. Inl (mk_exn CancelledErrorC ''cancelled'')) None SINK_FAIL_CLOSED 1"

definition abandoned_two :: "unit owner_state" where
  "abandoned_two = owner_flush_done cancel_demo 2 (ow_pending queued_two) (owner_top 2 queued_two)"

lemma cancelled_owner_leaves_lane_waiting:
  "owner_reach cancel_demo 2 drops (init_state ()) abandoned_two" "ow_lane abandoned_two = LWaitCapacity"
  "\<not> owner_step cancel_demo 2 abandoned_two t" "\<not> lane_step cancel_demo 2 drops abandoned_two t"
proof -
  have queued: "owner_reach cancel_demo 2 drops (init_state ()) queued_two"
    unfolding queued_two_def
    by (intro owner_reach.lane_moves [OF _ lane_step.queued] owner_reach.begins queued_two_lane)
       (simp add: ensure_pending_write_owner_def)
  have "ow_pc queued_two = OStart" by code_simp
  with queued have "owner_reach cancel_demo 2 drops (init_state ()) (owner_top 2 queued_two)"
    by (intro owner_reach.owner_moves [OF _ owner_step.started])
  moreover have "ow_pc (owner_top 2 queued_two) = OFlush (ow_pending queued_two)" by code_simp
  ultimately show "owner_reach cancel_demo 2 drops (init_state ()) abandoned_two"
    unfolding abandoned_two_def by (intro owner_reach.owner_moves [OF _ owner_step.flush_done])
  have pcs: "ow_lane abandoned_two = LWaitCapacity" "\<not> ow_flushed abandoned_two"
    "ow_pc abandoned_two = OFailed (mk_exn CancelledErrorC ''cancelled'')" by code_simp+
  then show "ow_lane abandoned_two = LWaitCapacity" "\<not> owner_step cancel_demo 2 abandoned_two t" "\<not> lane_step cancel_demo 2 drops abandoned_two t"
    by (auto elim: owner_step.cases lane_step.cases)
qed

theorem pending_owner_checkpoint_never_ahead_witness:
  "safe_trace owner_demo (ow_ledger closed_two) (rs_trace (ow_run closed_two)) \<and>
   length (filter is_save (rs_trace (ow_run closed_two))) = 1 \<and>
   list_all (\<lambda>x. entry_settled owner_demo x (rs_trace (ow_run closed_two))) (ow_ledger closed_two)"
proof -
  have "ow_lane closed_two = LDone" "length (filter is_save (rs_trace (ow_run closed_two))) = 1"
    by code_simp+
  with pending_owner_checkpoint_never_ahead [OF closed_two_reach _ _ owner_demo_uses] show ?thesis
    by (simp add: init_state_def list_all_iff)
qed

end
