(* ===== verification/Backpressure.thy ===== *)
theory Backpressure
  imports Complex_Main Prelude
begin

text \<open>
  \<^verbatim>\<open>core/runtime/_buffered_backpressure.py\<close> and the construction of the controller in
  \<^verbatim>\<open>core/runtime/_buffered.py\<close>: how many records a buffered stage may hold in flight, tuned from what
  the runtime metrics say about the sink and the checkpoint store. Times are exact rationals.
\<close>

section \<open>Configuration, controller, metrics\<close>

record Backpressure =
  bk_min_buffer_size :: int
  bk_max_buffer_size :: "int option"
  bk_scale_up_step :: int
  bk_scale_down_step :: int
  bk_writer_slow_ms :: rat
  bk_checkpoint_slow_ms :: rat

text \<open>The fields of \<open>PipelineRuntimeMetrics\<close> that the controller reads and counts in.\<close>

record runtime_metrics =
  rm_writer_flush_count :: int
  rm_writer_flush_time_ms :: rat
  rm_checkpoint_save_count :: int
  rm_checkpoint_save_time_ms :: rat
  rm_scale_up_count :: int
  rm_scale_down_count :: int

record AdaptiveBackpressureController =
  ac_current_limit :: int
  ac_min_limit :: int
  ac_max_limit :: int
  ac_scale_up_step :: int
  ac_scale_down_step :: int
  ac_writer_slow_ms :: rat
  ac_checkpoint_slow_ms :: rat
  ac_last_writer_flush_count :: int
  ac_last_writer_flush_time_ms :: rat
  ac_last_checkpoint_save_count :: int
  ac_last_checkpoint_save_time_ms :: rat

text \<open>The largest limit: the configured maximum, or four times the base limit; then the buffer bound.\<close>

definition adaptive_ceiling :: "Backpressure \<Rightarrow> int option \<Rightarrow> int \<Rightarrow> int" where
  "adaptive_ceiling bp max_buffer_size base_limit =
     (let ceiling = (case bk_max_buffer_size bp of
            None \<Rightarrow> max (max (base_limit * 4) base_limit) (bk_min_buffer_size bp)
          | Some n \<Rightarrow> n);
          ceiling' = (case max_buffer_size of None \<Rightarrow> ceiling | Some n \<Rightarrow> min ceiling n)
      in max 1 ceiling')"

definition build_adaptive_backpressure_controller ::
  "Backpressure option \<Rightarrow> int option \<Rightarrow> int \<Rightarrow> AdaptiveBackpressureController option" where
  "build_adaptive_backpressure_controller backpressure max_buffer_size base_limit =
     (case backpressure of None \<Rightarrow> None | Some bp \<Rightarrow>
       let ceiling = adaptive_ceiling bp max_buffer_size base_limit;
           min_limit = min (max 1 (bk_min_buffer_size bp)) ceiling;
           current_limit = min (max base_limit min_limit) ceiling
       in Some \<lparr>ac_current_limit = current_limit, ac_min_limit = min_limit,
            ac_max_limit = ceiling,
            ac_scale_up_step = max 1 (bk_scale_up_step bp),
            ac_scale_down_step = max 1 (bk_scale_down_step bp),
            ac_writer_slow_ms = max 0 (bk_writer_slow_ms bp),
            ac_checkpoint_slow_ms = max 0 (bk_checkpoint_slow_ms bp),
            ac_last_writer_flush_count = 0, ac_last_writer_flush_time_ms = 0,
            ac_last_checkpoint_save_count = 0, ac_last_checkpoint_save_time_ms = 0\<rparr>)"

section \<open>Observing\<close>

text \<open>What \<open>observe\<close> computes from the deltas since its last call.\<close>

definition pressure_avg :: "rat \<Rightarrow> int \<Rightarrow> rat" where
  "pressure_avg time_delta count_delta =
     (if count_delta > 0 then time_delta / of_int count_delta else 0)"

definition fast_threshold :: "rat \<Rightarrow> rat" where
  "fast_threshold slow_ms = (if slow_ms > 0 then slow_ms / 4 else 0)"

definition scale_down ::
  "AdaptiveBackpressureController \<Rightarrow> runtime_metrics \<Rightarrow> int \<times> AdaptiveBackpressureController \<times> runtime_metrics" where
  "scale_down c m =
     (let next_limit = max (ac_min_limit c) (ac_current_limit c - ac_scale_down_step c) in
      if next_limit < ac_current_limit c
      then (next_limit, c\<lparr>ac_current_limit := next_limit\<rparr>,
            m\<lparr>rm_scale_down_count := rm_scale_down_count m + 1\<rparr>)
      else (ac_current_limit c, c, m))"

definition scale_up ::
  "AdaptiveBackpressureController \<Rightarrow> runtime_metrics \<Rightarrow> int \<times> AdaptiveBackpressureController \<times> runtime_metrics" where
  "scale_up c m =
     (let next_limit = min (ac_max_limit c) (ac_current_limit c + ac_scale_up_step c) in
      if next_limit > ac_current_limit c
      then (next_limit, c\<lparr>ac_current_limit := next_limit\<rparr>,
            m\<lparr>rm_scale_up_count := rm_scale_up_count m + 1\<rparr>)
      else (ac_current_limit c, c, m))"

text \<open>The readings that \<open>observe\<close> remembers for its next call.\<close>

definition remember ::
  "runtime_metrics \<Rightarrow> AdaptiveBackpressureController \<Rightarrow> AdaptiveBackpressureController" where
  "remember m c = c\<lparr>ac_last_writer_flush_count := rm_writer_flush_count m,
     ac_last_writer_flush_time_ms := rm_writer_flush_time_ms m,
     ac_last_checkpoint_save_count := rm_checkpoint_save_count m,
     ac_last_checkpoint_save_time_ms := rm_checkpoint_save_time_ms m\<rparr>"

definition observe ::
  "int \<Rightarrow> AdaptiveBackpressureController \<times> runtime_metrics \<Rightarrow>
     int \<times> AdaptiveBackpressureController \<times> runtime_metrics" where
  "observe pending_count cm = (case cm of (c, m) \<Rightarrow>
     let writer_flush_delta = rm_writer_flush_count m - ac_last_writer_flush_count c;
         checkpoint_save_delta = rm_checkpoint_save_count m - ac_last_checkpoint_save_count c;
         writer_time_delta = rm_writer_flush_time_ms m - ac_last_writer_flush_time_ms c;
         checkpoint_time_delta = rm_checkpoint_save_time_ms m - ac_last_checkpoint_save_time_ms c;
         c' = remember m c
     in
     if \<not> (writer_flush_delta > 0 \<or> checkpoint_save_delta > 0) then (ac_current_limit c', c', m)
     else
       let writer_flush_avg = pressure_avg writer_time_delta writer_flush_delta;
           checkpoint_save_avg = pressure_avg checkpoint_time_delta checkpoint_save_delta;
           writer_is_slow = (writer_flush_delta > 0 \<and> writer_flush_avg \<ge> ac_writer_slow_ms c');
           checkpoint_is_slow =
             (checkpoint_save_delta > 0 \<and> checkpoint_save_avg \<ge> ac_checkpoint_slow_ms c')
       in
       if writer_is_slow \<or> checkpoint_is_slow then scale_down c' m
       else
         let writer_is_fast = (writer_flush_delta = 0 \<or>
               writer_flush_avg \<le> fast_threshold (ac_writer_slow_ms c'));
             checkpoint_is_fast = (checkpoint_save_delta = 0 \<or>
               checkpoint_save_avg \<le> fast_threshold (ac_checkpoint_slow_ms c'));
             backlog_saturated = (pending_count \<ge> ac_current_limit c')
         in
         if backlog_saturated \<and> writer_is_fast \<and> checkpoint_is_fast then scale_up c' m
         else (ac_current_limit c', c', m))"

section \<open>The limit stays in its bounds\<close>

definition controller_wf :: "AdaptiveBackpressureController \<Rightarrow> bool" where
  "controller_wf c \<longleftrightarrow> 1 \<le> ac_min_limit c \<and> ac_min_limit c \<le> ac_current_limit c \<and>
     ac_current_limit c \<le> ac_max_limit c \<and> 1 \<le> ac_scale_up_step c \<and> 1 \<le> ac_scale_down_step c"

lemma adaptive_ceiling_bounds:
  "1 \<le> adaptive_ceiling bp m base"
  "bk_max_buffer_size bp = Some n \<Longrightarrow> adaptive_ceiling bp m base \<le> max 1 n"
  "adaptive_ceiling bp (Some n) base \<le> max 1 n"
  by (simp_all add: adaptive_ceiling_def Let_def max.coboundedI2 split: option.split)

lemma build_controller_fields:
  assumes "build_adaptive_backpressure_controller (Some bp) n base = Some c"
  shows "ac_max_limit c = adaptive_ceiling bp n base"
    and "ac_min_limit c = min (max 1 (bk_min_buffer_size bp)) (ac_max_limit c)"
    and "ac_current_limit c = min (max base (ac_min_limit c)) (ac_max_limit c)"
    and "1 \<le> ac_scale_up_step c" and "1 \<le> ac_scale_down_step c"
  using assms [symmetric] by (simp_all add: build_adaptive_backpressure_controller_def Let_def)

lemma build_controller_wf:
  assumes "build_adaptive_backpressure_controller (Some bp) n base = Some c"
  shows "controller_wf c"
proof -
  note fields = build_controller_fields [OF assms]
  have "1 \<le> ac_max_limit c" unfolding fields(1) by (rule adaptive_ceiling_bounds(1))
  then have "1 \<le> ac_min_limit c" "ac_min_limit c \<le> ac_max_limit c" unfolding fields(2) by simp_all
  moreover from this have "ac_min_limit c \<le> ac_current_limit c" "ac_current_limit c \<le> ac_max_limit c"
    unfolding fields(3) by simp_all
  ultimately show ?thesis using fields(4,5) by (simp add: controller_wf_def)
qed

lemma remember_wf: "controller_wf c \<Longrightarrow> controller_wf (remember m c)"
  by (simp add: controller_wf_def remember_def)

lemma remember_bounds:
  "ac_min_limit (remember m c) = ac_min_limit c" "ac_max_limit (remember m c) = ac_max_limit c"
  by (simp_all add: remember_def)

text \<open>What every outcome of an observation satisfies, and that the three ways out produce it.\<close>

definition adjusted ::
  "AdaptiveBackpressureController \<Rightarrow> int \<times> AdaptiveBackpressureController \<times> runtime_metrics \<Rightarrow> bool" where
  "adjusted c r = (case r of (limit, c', _) \<Rightarrow> controller_wf c' \<and> limit = ac_current_limit c' \<and>
     ac_min_limit c' = ac_min_limit c \<and> ac_max_limit c' = ac_max_limit c)"

lemma adjusted_ways:
  assumes "controller_wf c"
  shows "adjusted c (ac_current_limit c, c, m)" "adjusted c (scale_down c m)" "adjusted c (scale_up c m)"
  using assms
  by (simp_all add: adjusted_def scale_down_def scale_up_def controller_wf_def Let_def)

lemma observe_adjusted:
  assumes "controller_wf c"
  shows "adjusted c (observe p (c, m))"
proof -
  have "adjusted (remember m c) (observe p (c, m))"
    using adjusted_ways [OF remember_wf [OF assms, of m], of m]
    unfolding observe_def Let_def by simp
  then show ?thesis by (simp add: adjusted_def remember_bounds)
qed

text \<open>A run of the controller: one observation per pending count and snapshot of the metrics.\<close>

fun observe_all ::
  "(int \<times> runtime_metrics) list \<Rightarrow> AdaptiveBackpressureController \<Rightarrow> int list \<times> AdaptiveBackpressureController" where
  "observe_all [] c = ([], c)"
| "observe_all ((p, m) # obs) c = (case observe p (c, m) of (limit, c', _) \<Rightarrow>
     case observe_all obs c' of (limits, c'') \<Rightarrow> (limit # limits, c''))"

lemma observe_all_bounds:
  assumes "controller_wf c" "observe_all obs c = (limits, c')"
  shows "controller_wf c' \<and> (\<forall>l\<in>set limits. ac_min_limit c \<le> l \<and> l \<le> ac_max_limit c)"
  using assms
proof (induction obs arbitrary: c limits)
  case Nil
  then show ?case by simp
next
  case (Cons o1 obs)
  obtain p m where o1: "o1 = (p, m)" by (cases o1)
  obtain limit c1 m1 where ob: "observe p (c, m) = (limit, c1, m1)" by (cases "observe p (c, m)")
  obtain ls c2 where rest: "observe_all obs c1 = (ls, c2)" by (cases "observe_all obs c1")
  have wf: "controller_wf c1" "limit = ac_current_limit c1"
    "ac_min_limit c1 = ac_min_limit c" "ac_max_limit c1 = ac_max_limit c"
    using observe_adjusted [OF Cons.prems(1), of p m] ob by (simp_all add: adjusted_def)
  have eq: "limits = limit # ls" "c' = c2" using Cons.prems(2) o1 ob rest by simp_all
  have "controller_wf c' \<and> (\<forall>l\<in>set ls. ac_min_limit c1 \<le> l \<and> l \<le> ac_max_limit c1)"
    using Cons.IH [OF wf(1)] rest eq(2) by simp
  with wf eq(1) show ?case by (simp add: controller_wf_def)
qed

text \<open>
  The adaptive limit is always at least 1 and within the configured bounds: a controller built
  from any configuration, over any sequence of observations, only returns limits between its
  \<open>min_limit\<close>, which is at least 1, and its \<open>max_limit\<close>, which respects both configured maxima. A
  buffered lane therefore never stalls with a limit of 0 and never exceeds its memory bound.
\<close>

theorem backpressure_limit_bounded:
  assumes "build_adaptive_backpressure_controller (Some bp) max_buffer_size base = Some c"
    and "observe_all obs c = (limits, c')" and "l \<in> set limits"
  shows "1 \<le> l \<and> l \<ge> min (bk_min_buffer_size bp) (ac_max_limit c) \<and>
    (\<forall>n. bk_max_buffer_size bp = Some n \<or> max_buffer_size = Some n \<longrightarrow> l \<le> max 1 n)"
proof (intro conjI allI impI)
  have wf: "controller_wf c" using assms(1) by (rule build_controller_wf)
  with observe_all_bounds [OF _ assms(2)] assms(3)
  have l: "ac_min_limit c \<le> l" "l \<le> ac_max_limit c" by auto
  show "1 \<le> l" using wf l by (simp add: controller_wf_def)
  show "l \<ge> min (bk_min_buffer_size bp) (ac_max_limit c)"
    using l(1) build_controller_fields(2) [OF assms(1)] by linarith
  show "l \<le> max 1 n" if "bk_max_buffer_size bp = Some n \<or> max_buffer_size = Some n" for n
    using that l(2) adaptive_ceiling_bounds(2) [of bp n max_buffer_size base]
      adaptive_ceiling_bounds(3) [of bp n base] build_controller_fields(1) [OF assms(1)] by force
qed

definition slow_metrics :: runtime_metrics where
  "slow_metrics = \<lparr>rm_writer_flush_count = 4, rm_writer_flush_time_ms = 400, rm_checkpoint_save_count = 0,
     rm_checkpoint_save_time_ms = 0, rm_scale_up_count = 0, rm_scale_down_count = 0\<rparr>"

definition demo_backpressure :: Backpressure where
  "demo_backpressure = \<lparr>bk_min_buffer_size = 0, bk_max_buffer_size = Some 8, bk_scale_up_step = 1,
     bk_scale_down_step = 3, bk_writer_slow_ms = 25, bk_checkpoint_slow_ms = 10\<rparr>"

definition demo_limits :: "int list" where
  "demo_limits = fst (observe_all [(2, slow_metrics)]
     (the (build_adaptive_backpressure_controller (Some demo_backpressure) None 2)))"

theorem backpressure_limit_bounded_witness: "demo_limits = [1] \<and> 1 \<le> hd demo_limits"
proof -
  obtain c where c: "build_adaptive_backpressure_controller (Some demo_backpressure) None 2 = Some c"
    by (cases "build_adaptive_backpressure_controller (Some demo_backpressure) None 2")
       (simp_all add: build_adaptive_backpressure_controller_def Let_def)
  have one: "demo_limits = [1]" by code_simp
  obtain c' where run: "observe_all [(2, slow_metrics)] c = (demo_limits, c')"
    using c unfolding demo_limits_def by (metis option.sel prod.collapse)
  have "hd demo_limits \<in> set demo_limits" unfolding one by simp
  from backpressure_limit_bounded [OF c run this] one show ?thesis by blast
qed

end
