(* ===== verification/Buffered_Lane.thy ===== *)
theory Buffered_Lane
  imports Ledger Hot_Metrics Backpressure
begin

text \<open>
  \<^verbatim>\<open>core/runtime/_lanes/_buffered.py\<close> with one buffered stage (\<open>_run_single_buffered_stage\<close> and the
  methods it uses): records before the buffered stage go through the chain at once, the stage works on
  up to \<open>stage_limit\<close> of them at a time, and the lane takes the results in the order in which the
  records were submitted.

  The buffered stage is application code: \<open>submit\<close> returns a future, which the lane polls (\<open>done\<close>),
  awaits, reads (\<open>result\<close>) or cancels. These are computations on the run state, so a theorem about
  every stage speaks about every schedule of the work behind the futures. The deque of pending
  records, the limit, the controller and the runtime metrics of the lane are local to the run and are
  kept beside the run state. \<open>bl_submitted\<close> and \<open>bl_resolved\<close> log the records that enter and leave the
  deque; the code does not read them. Tracing, timing and the two \<open>sleep(0)\<close> calls are left out.
\<close>

section \<open>The buffered stage and the pending records\<close>

type_synonym fut = nat

record ProcessedSourceRecord =
  psr_source_record :: SourceRecord
  psr_result :: "pyobj option"
  psr_failure :: "MiddlewareFailure option"

datatype buffered_result = Wrapped ProcessedSourceRecord | Plain "pyobj option"

record 'e BufferedStageSpec =
  st_index :: nat
  st_name :: string
  st_concurrency :: int
  st_submit :: "pyobj \<Rightarrow> ('e, fut) run"
  st_done :: "fut \<Rightarrow> ('e, bool) run"
  st_await :: "fut \<Rightarrow> ('e, buffered_result) run"
  st_result :: "fut \<Rightarrow> ('e, buffered_result) run"
  st_cancel :: "fut \<Rightarrow> ('e, unit) run"
  st_drain :: "('e, unit) run"

record SingleBufferedPendingRecord =
  pr_future :: "fut option"
  pr_source_record :: SourceRecord
  pr_buffered_name :: string
  pr_suffix_start :: nat
  pr_suffix_stop :: nat
  pr_immediate_result :: "pyobj option"
  pr_immediate_failure :: "MiddlewareFailure option"
  pr_has_immediate_outcome :: bool
  pr_metrics_finalized :: bool

record 'e bstate =
  bl_run :: "'e rstate"
  bl_queue :: "SingleBufferedPendingRecord list"
  bl_limit :: int
  bl_controller :: "AdaptiveBackpressureController option"
  bl_scale_up_count :: int
  bl_scale_down_count :: int
  bl_drain_count :: int
  bl_max_in_flight :: int
  bl_submitted :: "SourceRecord list"
  bl_resolved :: "SourceRecord list"

type_synonym ('e, 'a) brun = "(exn, 'e bstate, 'a) comp"

definition lift_run :: "('e, 'a) run \<Rightarrow> ('e, 'a) brun" where
  "lift_run m = (\<lambda>s. case m (bl_run s) of (r, t) \<Rightarrow> (r, s\<lparr>bl_run := t\<rparr>))"

text \<open>What the lane is run with: the coordinator's fields and the clock of the two time metrics.\<close>

record 'e lane_config =
  lc_engine :: "'e DeliveryEngine"
  lc_chain :: "'e Middleware list"
  lc_stage :: "'e BufferedStageSpec"
  lc_writer_batch_size :: int
  lc_max_buffer_size :: "int option"
  lc_backpressure :: "Backpressure option"
  lc_times :: "'e rstate \<Rightarrow> rat \<times> rat"

section \<open>Submitting and resolving one record\<close>

definition stage_failure :: "string \<Rightarrow> SourceRecord \<Rightarrow> exn \<Rightarrow> MiddlewareFailure" where
  "stage_failure name sr exc = \<lparr>mf_stage = ''buffered_middleware'', mf_exception = exc,
     mf_record = sr_raw sr, mf_middleware = Some name\<rparr>"

definition count_result :: "string \<Rightarrow> buffered_result \<Rightarrow> MiddlewareFailure option \<Rightarrow> ('e, unit) run" where
  "count_result name result failure =
     (if failure \<noteq> None then upd_mw name (mw_errored 1)
      else case result of
        Wrapped p \<Rightarrow>
          if psr_failure p \<noteq> None then upd_mw name (mw_errored 1)
          else if psr_result p = None then upd_mw name (mw_dropped 1)
          else upd_mw name (mw_out 1)
      | Plain None \<Rightarrow> upd_mw name (mw_dropped 1)
      | Plain (Some _) \<Rightarrow> upd_mw name (mw_out 1))"

text \<open>\<open>_finalize_single_buffered_metrics\<close>: returns the entry with its flag as it is afterwards.\<close>

definition finalize_metrics ::
  "'e BufferedStageSpec \<Rightarrow> SingleBufferedPendingRecord \<Rightarrow> ('e, SingleBufferedPendingRecord) run" where
  "finalize_metrics st entry =
     (let final = entry\<lparr>pr_metrics_finalized := True\<rparr> in
      if pr_metrics_finalized entry then ret entry
      else if pr_has_immediate_outcome entry then
        bind (count_result (pr_buffered_name entry) (Plain (pr_immediate_result entry))
                (pr_immediate_failure entry)) (\<lambda>_. ret final)
      else case pr_future entry of
        None \<Rightarrow> ret entry
      | Some f \<Rightarrow>
          bind (st_done st f) (\<lambda>d.
          if \<not> d then ret entry
          else bind (attempt (st_result st f)) (\<lambda>r. case r of
            Inl e \<Rightarrow>
              if isinstance e CancelledErrorC then ret entry
              else if \<not> is_Exception e then throw e
              else bind (upd_mw (pr_buffered_name entry) (mw_errored 1)) (\<lambda>_. ret final)
          | Inr result \<Rightarrow> bind (count_result (pr_buffered_name entry) result None) (\<lambda>_. ret final))))"

definition submit_single_buffered_record ::
  "'e BufferedStageSpec \<Rightarrow> SourceRecord \<Rightarrow> pyobj \<Rightarrow> nat \<Rightarrow> nat \<Rightarrow>
     ('e, SingleBufferedPendingRecord) run" where
  "submit_single_buffered_record st sr current suffix_start suffix_stop =
     bind (upd_mw (st_name st) (mw_in 1)) (\<lambda>_.
     bind (attempt (st_submit st current)) (\<lambda>r.
       let entry = \<lparr>pr_future = None, pr_source_record = sr, pr_buffered_name = st_name st,
             pr_suffix_start = suffix_start, pr_suffix_stop = suffix_stop,
             pr_immediate_result = None, pr_immediate_failure = None,
             pr_has_immediate_outcome = False, pr_metrics_finalized = False\<rparr> in
       case r of
         Inl e \<Rightarrow>
           if \<not> is_Exception e then throw e
           else ret (entry\<lparr>pr_immediate_failure := Some (stage_failure (st_name st) sr e),
                          pr_has_immediate_outcome := True\<rparr>)
       | Inr f \<Rightarrow>
           let entry' = entry\<lparr>pr_future := Some f\<rparr> in
           bind (st_done st f) (\<lambda>d. if d then finalize_metrics st entry' else ret entry')))"

text \<open>The \<open>try\<close> body of \<open>_resolve_single_buffered_record\<close>: the record, its result and its failure.\<close>

definition resolve_outcome ::
  "'e BufferedStageSpec \<Rightarrow> 'e Middleware list \<Rightarrow> SingleBufferedPendingRecord \<Rightarrow>
     ('e, SourceRecord \<times> pyobj option \<times> MiddlewareFailure option) run" where
  "resolve_outcome st mws entry =
     (let sr = pr_source_record entry in
      if pr_has_immediate_outcome entry
      then ret (sr, pr_immediate_result entry, pr_immediate_failure entry)
      else case pr_future entry of
        None \<Rightarrow> throw (mk_exn (UserC ''AssertionError'' ExceptionC) '''')
      | Some f \<Rightarrow>
          bind (attempt (st_await st f)) (\<lambda>r. case r of
            Inl e \<Rightarrow>
              if \<not> is_Exception e then throw e
              else ret (sr, None, Some (stage_failure (pr_buffered_name entry) sr e))
          | Inr (Wrapped p) \<Rightarrow> ret (psr_source_record p, psr_result p, psr_failure p)
          | Inr (Plain None) \<Rightarrow> ret (sr, None, None)
          | Inr (Plain (Some v)) \<Rightarrow>
              if pr_suffix_start entry < pr_suffix_stop entry then
                bind (process_range_outcome mws (pr_suffix_start entry) (pr_suffix_stop entry) v)
                  (\<lambda>(value, failure). ret (sr, value, failure))
              else ret (sr, Some v, None)))"

definition resolve_single_buffered_record ::
  "'e lane_config \<Rightarrow> SingleBufferedPendingRecord \<Rightarrow> ('e, unit) brun" where
  "resolve_single_buffered_record L entry =
     bind (modify (\<lambda>s. s\<lparr>bl_resolved := bl_resolved s @ [pr_source_record entry]\<rparr>)) (\<lambda>_.
     lift_run (
       bind (attempt (resolve_outcome (lc_stage L) (lc_chain L) entry)) (\<lambda>r.
       bind (finalize_metrics (lc_stage L) entry) (\<lambda>_. case r of
         Inl e \<Rightarrow> throw e
       | Inr (sr, result, failure) \<Rightarrow>
           dispatch_processed_result (lc_engine L) result (sr_raw sr) (sr_checkpoint sr)
             (lc_writer_batch_size L) failure (sr_on_success sr)))))"

section \<open>Draining the deque\<close>

definition set_queue :: "SingleBufferedPendingRecord list \<Rightarrow> ('e, unit) brun" where
  "set_queue q = modify (\<lambda>s. s\<lparr>bl_queue := q\<rparr>)"

text \<open>\<open>_drain_ready_single_buffered_records\<close>: an immediate failure has no future and counts as done.\<close>

definition entry_ready :: "'e BufferedStageSpec \<Rightarrow> SingleBufferedPendingRecord \<Rightarrow> ('e, bool) brun" where
  "entry_ready st entry = (case pr_future entry of
       None \<Rightarrow> ret True
     | Some f \<Rightarrow> lift_run (st_done st f))"

fun drain_loop :: "'e lane_config \<Rightarrow> SingleBufferedPendingRecord list \<Rightarrow> ('e, unit) brun" where
  "drain_loop L [] = set_queue []"
| "drain_loop L (entry # q) =
     bind (set_queue (entry # q)) (\<lambda>_.
     bind (entry_ready (lc_stage L) entry) (\<lambda>ready.
       if \<not> ready then skip
       else
         bind (set_queue q) (\<lambda>_.
         bind (resolve_single_buffered_record L entry) (\<lambda>_. drain_loop L q))))"

definition drain_ready :: "'e lane_config \<Rightarrow> ('e, unit) brun" where
  "drain_ready L = bind get_state (\<lambda>s. drain_loop L (bl_queue s))"

definition commit_next :: "'e lane_config \<Rightarrow> ('e, unit) brun" where
  "commit_next L = bind get_state (\<lambda>s. case bl_queue s of
       [] \<Rightarrow> skip
     | entry # q \<Rightarrow> bind (set_queue q) (\<lambda>_. resolve_single_buffered_record L entry))"

text \<open>The metrics that the controller sees, and one look of it, before the deque is drained.\<close>

definition lane_metrics :: "'e lane_config \<Rightarrow> 'e bstate \<Rightarrow> runtime_metrics" where
  "lane_metrics L s = (let m = rs_metrics (bl_run s); times = lc_times L (bl_run s) in
     \<lparr>rm_writer_flush_count = m_writer_flush_count m, rm_writer_flush_time_ms = fst times,
      rm_checkpoint_save_count = m_checkpoint_save_count m, rm_checkpoint_save_time_ms = snd times,
      rm_scale_up_count = bl_scale_up_count s, rm_scale_down_count = bl_scale_down_count s\<rparr>)"

definition observe_limit :: "'e lane_config \<Rightarrow> ('e, unit) brun" where
  "observe_limit L = modify (\<lambda>s. let s' = s\<lparr>bl_drain_count := bl_drain_count s + 1\<rparr> in
     case bl_controller s' of
       None \<Rightarrow> s'
     | Some c \<Rightarrow> (case observe (int (length (bl_queue s'))) (c, lane_metrics L s') of (limit, c', m') \<Rightarrow>
         s'\<lparr>bl_controller := Some c', bl_limit := limit, bl_scale_up_count := rm_scale_up_count m',
            bl_scale_down_count := rm_scale_down_count m'\<rparr>))"

section \<open>What draining does to the deque\<close>

text \<open>
  Every operation on the deque takes records from its front, in order, and logs each as resolved.
\<close>

definition pops :: "'e bstate \<Rightarrow> 'e bstate \<Rightarrow> bool" where
  "pops s t \<longleftrightarrow> (\<exists>k. bl_queue t = drop k (bl_queue s) \<and>
     bl_resolved t = bl_resolved s @ map pr_source_record (take k (bl_queue s))) \<and>
     bl_submitted t = bl_submitted s \<and> bl_max_in_flight t = bl_max_in_flight s"

interpretation pop: step_order pops
proof
  show "pops s s" for s :: "'a bstate" by (auto simp: pops_def intro: exI [of _ 0])
  show "pops s u" if "pops s t" "pops t u" for s t u :: "'a bstate"
  proof -
    from that obtain j k where "bl_queue t = drop j (bl_queue s)"
      "bl_resolved t = bl_resolved s @ map pr_source_record (take j (bl_queue s))"
      "bl_queue u = drop k (bl_queue t)"
      "bl_resolved u = bl_resolved t @ map pr_source_record (take k (bl_queue t))"
      "bl_submitted u = bl_submitted s" "bl_max_in_flight u = bl_max_in_flight s"
      by (auto simp: pops_def)
    then show ?thesis
      by (auto simp: pops_def take_add add.commute intro!: exI [of _ "j + k"])
  qed
qed

lemma pops_length: "pops s t \<Longrightarrow> length (bl_queue t) \<le> length (bl_queue s)"
  by (auto simp: pops_def)

lemma lift_run_fields:
  assumes "lift_run m s = (r, t)"
  shows "\<exists>u. m (bl_run s) = (r, u) \<and> t = s\<lparr>bl_run := u\<rparr>"
  using assms by (auto simp: lift_run_def split: prod.splits)

lemma lift_run_pops [steps_intro]: "steps_in pops (lift_run m)"
  by (auto simp: steps_in_def lift_run_def pops_def split: prod.split intro: exI [of _ 0])

lemma entry_ready_pops [steps_intro]: "steps_in pops (entry_ready st entry)"
  unfolding entry_ready_def by (auto intro!: steps_intro split: option.split)

lemma observe_limit_pops [steps_intro]: "steps_in pops (observe_limit L)"
  by (auto simp: steps_in_def observe_limit_def modify_def pops_def Let_def
      intro: exI [of _ 0] split: option.split prod.split)

text \<open>Taking the first entry and resolving it, whatever comes of it.\<close>

lemma resolve_fields:
  assumes "resolve_single_buffered_record L entry s = (r, t)"
  shows "bl_queue t = bl_queue s \<and> bl_resolved t = bl_resolved s @ [pr_source_record entry] \<and>
    bl_submitted t = bl_submitted s \<and> bl_max_in_flight t = bl_max_in_flight s \<and>
    bl_limit t = bl_limit s \<and> bl_controller t = bl_controller s"
  using assms unfolding resolve_single_buffered_record_def
  by (auto dest!: lift_run_fields)

lemma pop_resolve_pops:
  assumes "bind (set_queue q) (\<lambda>_. resolve_single_buffered_record L entry) s = (r, t)"
    and "bl_queue s = entry # q"
  shows "pops s t \<and> bl_queue t = q"
  using assms resolve_fields [of L entry "s\<lparr>bl_queue := q\<rparr>" r t]
  by (auto simp: set_queue_def pops_def intro!: exI [of _ 1])

lemma commit_next_pops [steps_intro]: "steps_in pops (commit_next L)"
proof (unfold steps_in_def, intro allI)
  fix s :: "'a bstate"
  show "pops s (snd (commit_next L s))"
  proof (cases "bl_queue s")
    case Nil
    then show ?thesis by (simp add: commit_next_def skip_def ret_def pop.R_refl)
  next
    case (Cons entry q)
    then have eq: "commit_next L s = bind (set_queue q) (\<lambda>_. resolve_single_buffered_record L entry) s"
      by (simp add: commit_next_def)
    show ?thesis using pop_resolve_pops [OF prod.collapse [symmetric] Cons] unfolding eq by blast
  qed
qed

lemma commit_next_shorter:
  assumes "commit_next L s = (r, t)" "bl_queue s \<noteq> []"
  shows "length (bl_queue t) < length (bl_queue s)"
proof -
  obtain entry q where q: "bl_queue s = entry # q" using assms(2) by (cases "bl_queue s") auto
  with assms(1) have "bind (set_queue q) (\<lambda>_. resolve_single_buffered_record L entry) s = (r, t)"
    by (simp add: commit_next_def)
  from pop_resolve_pops [OF this q] q show ?thesis by simp
qed

lemma drain_loop_pops: "bl_queue s = q \<Longrightarrow> pops s (snd (drain_loop L q s))"
proof (induction q arbitrary: s)
  case Nil
  then show ?case by (simp add: set_queue_def modify_def pops_def)
next
  case (Cons entry q)
  have same: "set_queue (entry # q) s = (Inr (), s)" using Cons.prems by (simp add: set_queue_def modify_def)
  obtain x u where rd: "entry_ready (lc_stage L) entry s = (x, u)" by (cases "entry_ready (lc_stage L) entry s")
  have su: "pops s u" using steps_inD [OF entry_ready_pops rd] .
  have qu: "bl_queue u = entry # q"
    using rd Cons.prems by (auto simp: entry_ready_def ret_def dest!: lift_run_fields split: option.splits)
  let ?take = "bind (set_queue q) (\<lambda>_. resolve_single_buffered_record L entry)"
  have eq: "drain_loop L (entry # q) s = (case x of
      Inl e \<Rightarrow> (Inl e, u)
    | Inr ready \<Rightarrow> if \<not> ready then (Inr (), u) else bind ?take (\<lambda>_. drain_loop L q) u)"
    using same rd by (simp add: bind_apply_Inr bind_assoc skip_def ret_def split: sum.split)
      (auto simp: bind_def)
  obtain y v where tk: "?take u = (y, v)" by (cases "?take u")
  note pv = pop_resolve_pops [OF tk qu]
  have "pops u (snd (bind ?take (\<lambda>_. drain_loop L q) u))"
    using pv Cons.IH [of v] tk by (cases y) (auto simp: bind_def intro: pop.R_trans)
  then show ?case using su unfolding eq by (auto intro: pop.R_trans split: sum.split)
qed

lemma drain_ready_pops [steps_intro]: "steps_in pops (drain_ready L)"
  by (simp add: steps_in_def drain_ready_def drain_loop_pops)

section \<open>The lane\<close>

text \<open>
  The loop \<open>while len(pending_records) >= stage_limit\<close>. It ends because each turn takes a record from
  the deque; the limit is at least 1 (\<open>bl_ok\<close> below), so an empty deque is below it.
\<close>

function window_loop :: "'e lane_config \<Rightarrow> 'e bstate \<Rightarrow> (exn + unit) \<times> 'e bstate" where
  "window_loop L s =
     (if int (length (bl_queue s)) < bl_limit s then (Inr (), s)
      else case bind (observe_limit L) (\<lambda>_. drain_ready L) s of
        (Inl e, t) \<Rightarrow> (Inl e, t)
      | (Inr _, t) \<Rightarrow>
          if int (length (bl_queue t)) < bl_limit t \<or> bl_queue t = [] then (Inr (), t)
          else (case commit_next L t of
            (Inl e, u) \<Rightarrow> (Inl e, u)
          | (Inr _, u) \<Rightarrow> window_loop L u))"
  by pat_completeness auto

lemma observe_drain_pops: "steps_in pops (bind (observe_limit L) (\<lambda>_. drain_ready L))"
  by (intro steps_intro)

termination window_loop
proof (relation "measure (\<lambda>(L, s). length (bl_queue s))")
  fix L :: "'e lane_config" and s x y b xa ya ba
  assume run: "(x, y) = bind (observe_limit L) (\<lambda>_. drain_ready L) s" "(xa, ya) = commit_next L y"
    and ne: "\<not> (int (length (bl_queue y)) < bl_limit y \<or> bl_queue y = [])"
  have "length (bl_queue y) \<le> length (bl_queue s)"
    by (rule pops_length [OF steps_inD [OF observe_drain_pops run(1) [symmetric]]])
  moreover have "length (bl_queue ya) < length (bl_queue y)"
    using commit_next_shorter [OF run(2) [symmetric]] ne by blast
  ultimately show "((L, ya), L, s) \<in> measure (\<lambda>(L, s). length (bl_queue s))" by simp
qed simp

text \<open>The last loop, after the source has ended.\<close>

function final_drain :: "'e lane_config \<Rightarrow> 'e bstate \<Rightarrow> (exn + unit) \<times> 'e bstate" where
  "final_drain L s =
     (if bl_queue s = [] then (Inr (), s)
      else case bind (lift_run (st_drain (lc_stage L))) (\<lambda>_. drain_ready L) s of
        (Inl e, t) \<Rightarrow> (Inl e, t)
      | (Inr _, t) \<Rightarrow>
          if bl_queue t = [] then (Inr (), t)
          else (case commit_next L t of
            (Inl e, u) \<Rightarrow> (Inl e, u)
          | (Inr _, u) \<Rightarrow> final_drain L u))"
  by pat_completeness auto

lemma drain_buffered_pops: "steps_in pops (bind (lift_run m) (\<lambda>_. drain_ready L))"
  by (intro steps_intro)

termination final_drain
proof (relation "measure (\<lambda>(L, s). length (bl_queue s))")
  fix L :: "'e lane_config" and s x y b xa ya ba
  assume run: "(x, y) = bind (lift_run (st_drain (lc_stage L))) (\<lambda>_. drain_ready L) s"
    "(xa, ya) = commit_next L y" and ne: "bl_queue y \<noteq> []"
  have "length (bl_queue y) \<le> length (bl_queue s)"
    by (rule pops_length [OF steps_inD [OF drain_buffered_pops run(1) [symmetric]]])
  moreover have "length (bl_queue ya) < length (bl_queue y)"
    using commit_next_shorter [OF run(2) [symmetric] ne] .
  ultimately show "((L, ya), L, s) \<in> measure (\<lambda>(L, s). length (bl_queue s))" by simp
qed simp

declare window_loop.simps [simp del] final_drain.simps [simp del]

definition buffered_step :: "'e lane_config \<Rightarrow> SourceRecord \<Rightarrow> ('e, unit) brun" where
  "buffered_step L sr =
     (let D = lc_engine L; st = lc_stage L in
      bind (lift_run (
        bind (hot_inc_consumed 1) (\<lambda>due.
        bind (if due then hot_flush (de_source_name D) else skip) (\<lambda>_.
        bind (modify (\<lambda>s. s\<lparr>rs_processed_count := rs_processed_count s + 1\<rparr>)) (\<lambda>_.
          process_range_outcome (lc_chain L) 0 (st_index st) (sr_raw sr)))))) (\<lambda>(prefix_value, prefix_failure).
      case prefix_value of
        None \<Rightarrow> lift_run (dispatch_processed_result D None (sr_raw sr) (sr_checkpoint sr)
                  (lc_writer_batch_size L) prefix_failure (sr_on_success sr))
      | Some current \<Rightarrow>
          bind (lift_run (submit_single_buffered_record st sr current (st_index st + 1)
                  (length (lc_chain L)))) (\<lambda>entry.
          bind (modify (\<lambda>s. s\<lparr>bl_queue := bl_queue s @ [entry], bl_submitted := bl_submitted s @ [sr],
                  bl_max_in_flight := max (bl_max_in_flight s) (int (length (bl_queue s)) + 1)\<rparr>)) (\<lambda>_.
            window_loop L))))"

definition must_abort_pending_work :: "exn \<Rightarrow> bool" where
  "must_abort_pending_work e \<longleftrightarrow> isinstance e RecordDeliveryErrorC \<or> isinstance e CheckpointSaveErrorC \<or>
     isinstance e CancelledErrorC \<or> isinstance e KeyboardInterruptC"

text \<open>
  \<open>_abort_single_stage_pending_work\<close>: the futures that are not done are cancelled, and all are awaited
  with their exceptions taken as results.
\<close>

definition cancel_future :: "'e BufferedStageSpec \<Rightarrow> fut \<Rightarrow> ('e, unit) run" where
  "cancel_future st f = bind (st_done st f) (\<lambda>d. if d then skip else st_cancel st f)"

definition futures_of :: "SingleBufferedPendingRecord list \<Rightarrow> fut list" where
  "futures_of entries = concat (map (\<lambda>e. case pr_future e of None \<Rightarrow> [] | Some f \<Rightarrow> [f]) entries)"

definition abort_entries ::
  "'e BufferedStageSpec \<Rightarrow> SingleBufferedPendingRecord list \<Rightarrow> ('e, unit) run" where
  "abort_entries st entries =
     bind (for_each entries (\<lambda>e. bind (finalize_metrics st e) (\<lambda>_. skip))) (\<lambda>_.
     bind (for_each (futures_of entries) (cancel_future st)) (\<lambda>_.
       for_each (futures_of entries) (\<lambda>f. bind (attempt (st_await st f)) (\<lambda>_. skip))))"

definition abort_pending_work :: "'e lane_config \<Rightarrow> ('e, unit) brun" where
  "abort_pending_work L =
     bind (lift_run (modify (\<lambda>s. s\<lparr>rs_pending := []\<rparr>))) (\<lambda>_.
     bind get_state (\<lambda>s.
     bind (set_queue []) (\<lambda>_. lift_run (abort_entries (lc_stage L) (bl_queue s)))))"

lemma abort_unfold:
  "abort_pending_work L s = lift_run (abort_entries (lc_stage L) (bl_queue s))
     (s\<lparr>bl_run := (bl_run s)\<lparr>rs_pending := []\<rparr>, bl_queue := []\<rparr>)"
  by (simp add: abort_pending_work_def bind_def lift_run_def modify_def get_state_def set_queue_def)

text \<open>The start of \<open>run\<close>: the limit, fixed or adaptive, and fresh local state.\<close>

definition stage_limit :: "'e lane_config \<Rightarrow> int \<times> AdaptiveBackpressureController option" where
  "stage_limit L =
     (let base = max 1 (st_concurrency (lc_stage L)) in
      case build_adaptive_backpressure_controller (lc_backpressure L) (lc_max_buffer_size L) base of
        None \<Rightarrow> (max 1 (case lc_max_buffer_size L of None \<Rightarrow> base | Some n \<Rightarrow> min base n), None)
      | Some c \<Rightarrow> (ac_current_limit c, Some c))"

definition buffered_start :: "'e lane_config \<Rightarrow> 'e rstate \<Rightarrow> 'e bstate" where
  "buffered_start L s = (case stage_limit L of (limit, c) \<Rightarrow>
     \<lparr>bl_run = s\<lparr>rs_pending := [], rs_processed_count := 0, rs_hot := hot_init\<rparr>, bl_queue = [],
      bl_limit = limit, bl_controller = c, bl_scale_up_count = 0, bl_scale_down_count = 0,
      bl_drain_count = 0, bl_max_in_flight = 0, bl_submitted = [], bl_resolved = []\<rparr>)"

definition buffered_body :: "'e lane_config \<Rightarrow> SourceRecord list \<Rightarrow> exn option \<Rightarrow> ('e, unit) brun" where
  "buffered_body L records src_end =
     bind (attempt (bind (for_each records (buffered_step L)) (\<lambda>_. lift_run (raise_opt src_end)))) (\<lambda>r.
     bind (lift_run (hot_flush (de_source_name (lc_engine L)))) (\<lambda>_.
       case r of
         Inl e \<Rightarrow>
           if must_abort_pending_work e then bind (abort_pending_work L) (\<lambda>_. throw e)
           else
             bind (catch (bind (final_drain L) (\<lambda>_. lift_run (flush_pending_writes (lc_engine L))))
                     (\<lambda>x. bind (abort_pending_work L) (\<lambda>_. throw x))) (\<lambda>_. throw e)
       | Inr _ \<Rightarrow>
           catch (bind (final_drain L) (\<lambda>_. lift_run (flush_pending_writes (lc_engine L))))
             (\<lambda>x. bind (abort_pending_work L) (\<lambda>_. throw x))))"

definition buffered_lane_run ::
  "'e lane_config \<Rightarrow> SourceRecord list \<Rightarrow> exn option \<Rightarrow> 'e rstate \<Rightarrow> (exn + unit) \<times> 'e bstate" where
  "buffered_lane_run L records src_end s = buffered_body L records src_end (buffered_start L s)"

section \<open>Order and bounds\<close>

definition order_ok :: "'e bstate \<Rightarrow> bool" where
  "order_ok s \<longleftrightarrow> bl_resolved s @ map pr_source_record (bl_queue s) = bl_submitted s"

definition limit_ok :: "int \<Rightarrow> 'e bstate \<Rightarrow> bool" where
  "limit_ok M s \<longleftrightarrow> 1 \<le> bl_limit s \<and> bl_limit s \<le> M \<and>
     (case bl_controller s of None \<Rightarrow> True | Some c \<Rightarrow> controller_wf c \<and> ac_max_limit c \<le> M)"

lemma pops_order: "pops s t \<Longrightarrow> order_ok s \<Longrightarrow> order_ok t"
  by (auto simp: pops_def order_ok_def map_append [symmetric] simp del: map_append)

definition keeps_limit :: "int \<Rightarrow> 'e bstate \<Rightarrow> 'e bstate \<Rightarrow> bool" where
  "keeps_limit M s t \<longleftrightarrow> (limit_ok M s \<longrightarrow> limit_ok M t)"

interpretation kl: step_order "keeps_limit M" for M
  by unfold_locales (auto simp: keeps_limit_def)

definition moves :: "int \<Rightarrow> 'e bstate \<Rightarrow> 'e bstate \<Rightarrow> bool" where
  "moves M s t \<longleftrightarrow> pops s t \<and> keeps_limit M s t"

interpretation mv: step_order "moves M" for M
proof
  show "moves M s s" for s :: "'a bstate" by (simp add: moves_def pop.R_refl kl.R_refl)
  show "moves M s u" if "moves M s t" "moves M t u" for s t u :: "'a bstate"
    using that by (auto simp: moves_def intro: pop.R_trans kl.R_trans)
qed

lemma steps_moves: "steps_in (moves M) m \<longleftrightarrow> steps_in pops m \<and> steps_in (keeps_limit M) m"
  by (auto simp: steps_in_def moves_def)

lemma lift_run_limit [steps_intro]: "steps_in (keeps_limit M) (lift_run m)"
  by (auto simp: steps_in_def keeps_limit_def limit_ok_def lift_run_def split: prod.split)

lemma set_queue_limit [steps_intro]: "steps_in (keeps_limit M) (set_queue q)"
  by (simp add: steps_in_def set_queue_def modify_def keeps_limit_def limit_ok_def)

lemma entry_ready_limit [steps_intro]: "steps_in (keeps_limit M) (entry_ready st entry)"
  unfolding entry_ready_def by (auto intro!: steps_intro split: option.split)

lemma resolve_limit [steps_intro]: "steps_in (keeps_limit M) (resolve_single_buffered_record L entry)"
  unfolding resolve_single_buffered_record_def
  by (intro steps_intro) (simp add: keeps_limit_def limit_ok_def)

lemma commit_next_limit: "steps_in (keeps_limit M) (commit_next L)"
  unfolding commit_next_def by (auto intro!: steps_intro split: list.split)

lemma drain_loop_limit: "steps_in (keeps_limit M) (drain_loop L q)"
  by (induction q) (auto intro!: steps_intro)

lemma drain_ready_limit: "steps_in (keeps_limit M) (drain_ready L)"
  unfolding drain_ready_def by (intro steps_intro drain_loop_limit)

lemma observe_limit_limit: "steps_in (keeps_limit M) (observe_limit L)"
proof (unfold steps_in_def keeps_limit_def, intro allI impI)
  fix s :: "'a bstate"
  assume ok: "limit_ok M s"
  show "limit_ok M (snd (observe_limit L s))"
  proof (cases "bl_controller s")
    case None
    with ok show ?thesis by (simp add: observe_limit_def modify_def limit_ok_def)
  next
    case (Some c)
    with ok have wf: "controller_wf c" "ac_max_limit c \<le> M" by (simp_all add: limit_ok_def)
    let ?s = "s\<lparr>bl_drain_count := bl_drain_count s + 1\<rparr>"
    obtain limit c' m' where ob: "observe (int (length (bl_queue s))) (c, lane_metrics L ?s) = (limit, c', m')"
      by (cases "observe (int (length (bl_queue s))) (c, lane_metrics L ?s)")
    with observe_adjusted [OF wf(1), of "int (length (bl_queue s))" "lane_metrics L ?s"] wf(2) Some
    show ?thesis
      by (simp add: observe_limit_def modify_def limit_ok_def adjusted_def controller_wf_def)
  qed
qed

lemma commit_next_moves: "steps_in (moves M) (commit_next L)"
  by (simp add: steps_moves commit_next_pops commit_next_limit)

lemma observe_drain_moves: "steps_in (moves M) (bind (observe_limit L) (\<lambda>_. drain_ready L))"
  unfolding steps_moves
  by (intro conjI observe_drain_pops kl.steps_bind observe_limit_limit drain_ready_limit)

text \<open>One turn of the loop: it stops, fails in the commit, or goes round again.\<close>

lemma window_loop_turn:
  assumes run: "window_loop L s = (r, t)" and full: "\<not> int (length (bl_queue s)) < bl_limit s"
  obtains (stop) "moves M s t" "r = Inr () \<Longrightarrow> int (length (bl_queue t)) < bl_limit t \<or> bl_queue t = []"
  | (fail) e where "moves M s t" "r = Inl e"
  | (again) x u b y v c where "(x, u) = bind (observe_limit L) (\<lambda>_. drain_ready L) s" "x = Inr b"
      "\<not> (int (length (bl_queue u)) < bl_limit u \<or> bl_queue u = [])"
      "(y, v) = commit_next L u" "y = Inr c" "moves M s v" "window_loop L v = (r, t)"
proof -
  obtain x u where ob: "bind (observe_limit L) (\<lambda>_. drain_ready L) s = (x, u)"
    by (cases "bind (observe_limit L) (\<lambda>_. drain_ready L) s")
  obtain y v where cm: "commit_next L u = (y, v)" by (cases "commit_next L u")
  have su: "moves M s u" by (rule steps_inD [OF observe_drain_moves ob])
  have sv: "moves M s v" by (rule mv.R_trans [OF su steps_inD [OF commit_next_moves cm]])
  have eq: "(r, t) = (case x of Inl e \<Rightarrow> (Inl e, u) | Inr _ \<Rightarrow>
      if int (length (bl_queue u)) < bl_limit u \<or> bl_queue u = [] then (Inr (), u)
      else (case y of Inl e \<Rightarrow> (Inl e, v) | Inr _ \<Rightarrow> window_loop L v))"
    using run full ob cm by (cases x; cases y) (auto simp: window_loop.simps [of L s])
  show thesis
  proof (cases x)
    case (Inl e)
    with eq su show thesis by (intro fail) auto
  next
    case x: (Inr b)
    show thesis
    proof (cases "int (length (bl_queue u)) < bl_limit u \<or> bl_queue u = []")
      case True
      with eq su x show thesis by (intro stop) auto
    next
      case go: False
      show thesis
      proof (cases y)
        case (Inl e)
        with eq sv x go show thesis by (intro fail) auto
      next
        case (Inr c)
        with eq sv x go ob cm show thesis by (intro again [of x u b y v c]) auto
      qed
    qed
  qed
qed

text \<open>After the loop the deque is below the limit.\<close>

lemma window_loop_moves:
  assumes "window_loop L s = (r, t)"
  shows "moves M s t \<and> (limit_ok M s \<longrightarrow> r = Inr () \<longrightarrow> int (length (bl_queue t)) < bl_limit t)"
  using assms
proof (induction L s arbitrary: r t rule: window_loop.induct)
  case (1 L s)
  show ?case
  proof (cases "int (length (bl_queue s)) < bl_limit s")
    case True
    with 1(2) show ?thesis by (simp add: window_loop.simps [of L s] mv.R_refl)
  next
    case full: False
    from 1(2) full show ?thesis
    proof (cases rule: window_loop_turn [where M = M])
      case stop
      then show ?thesis by (auto simp: moves_def keeps_limit_def limit_ok_def)
    next
      case (fail e)
      then show ?thesis by simp
    next
      case (again x u b y v c)
      from 1(1) [OF full again(1-5,7)] again(6) show ?thesis
        by (auto simp: moves_def keeps_limit_def intro: pop.R_trans)
    qed
  qed
qed

lemma final_drain_pops:
  assumes "final_drain L s = (r, t)"
  shows "pops s t \<and> (r = Inr () \<longrightarrow> bl_queue t = [])"
  using assms
proof (induction L s arbitrary: r t rule: final_drain.induct)
  case (1 L s)
  obtain x u where dr: "bind (lift_run (st_drain (lc_stage L))) (\<lambda>_. drain_ready L) s = (x, u)"
    by (cases "bind (lift_run (st_drain (lc_stage L))) (\<lambda>_. drain_ready L) s")
  obtain y v where cm: "commit_next L u = (y, v)" by (cases "commit_next L u")
  have su: "pops s u" by (rule steps_inD [OF drain_buffered_pops dr])
  have sv: "pops s v" by (rule pop.R_trans [OF su steps_inD [OF commit_next_pops cm]])
  have eq: "(r, t) = (if bl_queue s = [] then (Inr (), s) else case x of Inl e \<Rightarrow> (Inl e, u) | Inr _ \<Rightarrow>
      if bl_queue u = [] then (Inr (), u)
      else (case y of Inl e \<Rightarrow> (Inl e, v) | Inr _ \<Rightarrow> final_drain L v))"
    using 1(2) dr cm by (cases x; cases y) (auto simp: final_drain.simps [of L s])
  show ?case
  proof (cases "bl_queue s \<noteq> [] \<and> x = Inr () \<and> bl_queue u \<noteq> [] \<and> y = Inr ()")
    case True
    then have "final_drain L v = (r, t)" using eq by simp
    with 1(1) [of x u "()" y v "()"] True dr cm sv show ?thesis by (auto intro: pop.R_trans)
  next
    case False
    with eq su sv show ?thesis
      by (cases x; cases y) (auto simp: pop.R_refl split: if_splits)
  qed
qed

definition lane_ok :: "int \<Rightarrow> 'e bstate \<Rightarrow> bool" where
  "lane_ok M s \<longleftrightarrow> order_ok s \<and> limit_ok M s \<and> bl_max_in_flight s \<le> M"

lemma moves_ok: "moves M s t \<Longrightarrow> lane_ok M s \<Longrightarrow> lane_ok M t"
  using pops_order [of s t] by (auto simp: lane_ok_def moves_def keeps_limit_def) (simp add: pops_def)

lemma lift_run_ok: "lift_run m s = (r, t) \<Longrightarrow> lane_ok M s \<Longrightarrow> lane_ok M t"
  by (auto simp: lane_ok_def order_ok_def limit_ok_def dest!: lift_run_fields)

text \<open>A new entry in the deque, and the loop that makes room again.\<close>

lemma append_window_ok:
  assumes ok: "lane_ok M s" and room: "int (length (bl_queue s)) < bl_limit s"
    and entry: "pr_source_record entry = sr"
    and run: "window_loop L (s\<lparr>bl_queue := bl_queue s @ [entry], bl_submitted := bl_submitted s @ [sr],
                  bl_max_in_flight := max (bl_max_in_flight s) (int (length (bl_queue s)) + 1)\<rparr>) = (r, t)"
  shows "lane_ok M t \<and> (r = Inr () \<longrightarrow> int (length (bl_queue t)) < bl_limit t) \<and>
    bl_submitted t = bl_submitted s @ [sr]"
proof -
  let ?s = "s\<lparr>bl_queue := bl_queue s @ [entry], bl_submitted := bl_submitted s @ [sr],
      bl_max_in_flight := max (bl_max_in_flight s) (int (length (bl_queue s)) + 1)\<rparr>"
  have "order_ok ?s" using ok entry by (simp add: lane_ok_def order_ok_def flip: append_assoc)
  moreover have "limit_ok M ?s" using ok by (simp add: lane_ok_def limit_ok_def)
  moreover have "bl_max_in_flight ?s \<le> M" using ok room by (simp add: lane_ok_def limit_ok_def)
  ultimately have "lane_ok M ?s" by (simp add: lane_ok_def)
  moreover have mv: "moves M ?s t" using window_loop_moves [OF run] by blast
  ultimately have "lane_ok M t" by (blast intro: moves_ok)
  moreover have "bl_submitted t = bl_submitted s @ [sr]" using mv by (simp add: moves_def pops_def)
  moreover have "r = Inr () \<longrightarrow> int (length (bl_queue t)) < bl_limit t"
    using window_loop_moves [OF run, of M] \<open>lane_ok M ?s\<close> unfolding lane_ok_def by blast
  ultimately show ?thesis by blast
qed

lemma finalize_source_record [returns_intro]:
  "pr_source_record entry = sr \<Longrightarrow> returns (\<lambda>e. pr_source_record e = sr) (finalize_metrics st entry)"
  unfolding finalize_metrics_def Let_def
  by (auto intro!: returns_intro split: option.split sum.split)

lemma submit_source_record:
  "returns (\<lambda>e. pr_source_record e = sr) (submit_single_buffered_record st sr c i j)"
  unfolding submit_single_buffered_record_def Let_def
  by (auto intro!: returns_intro split: sum.split)

text \<open>A step up to the point where its record is dispatched or waits in the deque.\<close>

definition buffered_prefix ::
  "'e lane_config \<Rightarrow> SourceRecord \<Rightarrow> ('e, pyobj option \<times> MiddlewareFailure option) run" where
  "buffered_prefix L sr =
     bind (hot_inc_consumed 1) (\<lambda>due.
     bind (if due then hot_flush (de_source_name (lc_engine L)) else skip) (\<lambda>_.
     bind (modify (\<lambda>s. s\<lparr>rs_processed_count := rs_processed_count s + 1\<rparr>)) (\<lambda>_.
       process_range_outcome (lc_chain L) 0 (st_index (lc_stage L)) (sr_raw sr))))"

definition submit_entry :: "'e lane_config \<Rightarrow> SourceRecord \<Rightarrow> pyobj \<Rightarrow> ('e, SingleBufferedPendingRecord) run" where
  "submit_entry L sr current = submit_single_buffered_record (lc_stage L) sr current
     (st_index (lc_stage L) + 1) (length (lc_chain L))"

definition append_entry ::
  "SourceRecord \<Rightarrow> SingleBufferedPendingRecord \<Rightarrow> 'e bstate \<Rightarrow> 'e bstate" where
  "append_entry sr entry s = s\<lparr>bl_queue := bl_queue s @ [entry], bl_submitted := bl_submitted s @ [sr],
     bl_max_in_flight := max (bl_max_in_flight s) (int (length (bl_queue s)) + 1)\<rparr>"

lemma buffered_step_cases:
  assumes "buffered_step L sr s = (r, t)"
  obtains (fail) e u where "r = Inl e" "buffered_prefix L sr (bl_run s) = (Inl e, u)" "t = s\<lparr>bl_run := u\<rparr>"
  | (dropped) failure u v where "buffered_prefix L sr (bl_run s) = (Inr (None, failure), u)"
      "dispatch_processed_result (lc_engine L) None (sr_raw sr) (sr_checkpoint sr)
         (lc_writer_batch_size L) failure (sr_on_success sr) u = (r, v)" "t = s\<lparr>bl_run := v\<rparr>"
  | (refused) current failure u e v where "buffered_prefix L sr (bl_run s) = (Inr (Some current, failure), u)"
      "submit_entry L sr current u = (Inl e, v)" "r = Inl e" "t = s\<lparr>bl_run := v\<rparr>"
  | (submitted) current failure u entry v where
      "buffered_prefix L sr (bl_run s) = (Inr (Some current, failure), u)"
      "submit_entry L sr current u = (Inr entry, v)"
      "window_loop L (append_entry sr entry (s\<lparr>bl_run := v\<rparr>)) = (r, t)"
proof -
  obtain x u where pre: "buffered_prefix L sr (bl_run s) = (x, u)" by (cases "buffered_prefix L sr (bl_run s)")
  have eq: "(r, t) = bind (lift_run (buffered_prefix L sr)) (\<lambda>(prefix_value, prefix_failure).
      case prefix_value of
        None \<Rightarrow> lift_run (dispatch_processed_result (lc_engine L) None (sr_raw sr) (sr_checkpoint sr)
                  (lc_writer_batch_size L) prefix_failure (sr_on_success sr))
      | Some current \<Rightarrow> bind (lift_run (submit_entry L sr current)) (\<lambda>entry.
          bind (modify (append_entry sr entry)) (\<lambda>_. window_loop L))) s"
    using assms unfolding buffered_step_def buffered_prefix_def submit_entry_def append_entry_def Let_def
    by simp
  show thesis
  proof (cases x)
    case (Inl e)
    with eq pre show thesis by (intro fail) (auto simp: bind_def lift_run_def)
  next
    case (Inr y)
    obtain result failure where y: "y = (result, failure)" by (cases y)
    show thesis
    proof (cases result)
      case None
      with eq pre Inr y show thesis
        by (intro dropped [of failure u "bl_run t"]) (auto simp: bind_def lift_run_def split: prod.splits)
    next
      case (Some current)
      obtain z v where sub: "submit_entry L sr current u = (z, v)" by (cases "submit_entry L sr current u")
      have st: "(r, t) = (case z of Inl e \<Rightarrow> (Inl e, s\<lparr>bl_run := v\<rparr>)
          | Inr entry \<Rightarrow> window_loop L (append_entry sr entry (s\<lparr>bl_run := v\<rparr>)))"
        using eq pre Inr y Some sub by (simp add: bind_def lift_run_def modify_def split: sum.split)
      show thesis
      proof (cases z)
        case (Inl e)
        with st pre Inr y Some sub show thesis by (intro refused) auto
      next
        case z: (Inr entry)
        with st pre Inr y Some sub show thesis by (intro submitted) auto
      qed
    qed
  qed
qed

lemma buffered_step_ok:
  assumes run: "buffered_step L sr s = (r, t)" and ok: "lane_ok M s"
    and room: "int (length (bl_queue s)) < bl_limit s"
  shows "lane_ok M t \<and> (r = Inr () \<longrightarrow> int (length (bl_queue t)) < bl_limit t) \<and>
    (bl_submitted t = bl_submitted s \<or> bl_submitted t = bl_submitted s @ [sr])"
proof -
  have same: "lane_ok M (s\<lparr>bl_run := u\<rparr>)" for u
    using ok by (simp add: lane_ok_def order_ok_def limit_ok_def)
  from run show ?thesis
  proof (cases rule: buffered_step_cases)
    case (submitted current failure u entry v)
    have "pr_source_record entry = sr"
      using submitted(2) returnsD [OF submit_source_record] unfolding submit_entry_def by blast
    from append_window_ok [OF same [of v] _ this submitted(3) [unfolded append_entry_def]] room
    show ?thesis by simp
  qed (use same room in simp_all)
qed

lemma buffered_loop_ok:
  assumes "for_each records (buffered_step L) s = (r, t)" and "lane_ok M s"
    and "int (length (bl_queue s)) < bl_limit s"
  shows "lane_ok M t \<and> (\<exists>subs. bl_submitted t = bl_submitted s @ subs \<and> subseq subs records)"
  using assms
proof (induction records arbitrary: s)
  case Nil
  then show ?case by (auto simp: ret_def)
next
  case (Cons sr records)
  obtain x u where step: "buffered_step L sr s = (x, u)" by (cases "buffered_step L sr s")
  note ok = buffered_step_ok [OF step Cons.prems(2,3)]
  show ?case
  proof (cases x)
    case (Inl e)
    with Cons.prems(1) step have "t = u" by (simp add: bind_def)
    with ok show ?thesis by (auto intro: subseq_Cons2)
  next
    case (Inr y)
    with Cons.prems(1) step have "for_each records (buffered_step L) u = (r, t)" by (simp add: bind_def)
    with Cons.IH [of u] ok Inr obtain subs where
      "lane_ok M t" "bl_submitted t = bl_submitted u @ subs" "subseq subs records" by auto
    with ok show ?thesis by auto
  qed
qed

text \<open>The bound on the records in flight: the fixed limit, or the maximum of the controller.\<close>

definition lane_bound :: "'e lane_config \<Rightarrow> int" where
  "lane_bound L = (case stage_limit L of (limit, c) \<Rightarrow>
     (case c of None \<Rightarrow> limit | Some c \<Rightarrow> ac_max_limit c))"

lemma buffered_start_ok:
  "lane_ok (lane_bound L) (buffered_start L s) \<and>
   int (length (bl_queue (buffered_start L s))) < bl_limit (buffered_start L s)"
proof (cases "lc_backpressure L")
  case None
  then show ?thesis
    by (simp add: buffered_start_def stage_limit_def lane_bound_def lane_ok_def order_ok_def limit_ok_def
        build_adaptive_backpressure_controller_def Let_def le_max_iff_disj less_max_iff_disj)
next
  case (Some bp)
  obtain c where c: "build_adaptive_backpressure_controller (lc_backpressure L) (lc_max_buffer_size L)
      (max 1 (st_concurrency (lc_stage L))) = Some c"
    using Some by (simp add: build_adaptive_backpressure_controller_def Let_def)
  then have "controller_wf c" using Some build_controller_wf by simp
  with c show ?thesis
    by (simp add: buffered_start_def stage_limit_def lane_bound_def lane_ok_def order_ok_def limit_ok_def
        controller_wf_def)
qed

lemma abort_fields:
  assumes "abort_pending_work L s = (r, t)"
  shows "bl_resolved t = bl_resolved s \<and> bl_submitted t = bl_submitted s \<and>
    bl_max_in_flight t = bl_max_in_flight s"
  using assms unfolding abort_unfold by (auto dest!: lift_run_fields)

text \<open>The end of the lane: the drain, or the abort.\<close>

lemma drain_or_abort:
  assumes "catch (bind (final_drain L) (\<lambda>_. lift_run m)) (\<lambda>x. bind (abort_pending_work L) (\<lambda>_. throw x)) s = (r, t)"
  shows "\<exists>u. pops s u \<and> (r = Inr () \<longrightarrow> bl_queue u = []) \<and> bl_resolved t = bl_resolved u \<and>
    bl_submitted t = bl_submitted u \<and> bl_max_in_flight t = bl_max_in_flight u"
proof -
  obtain x u where fd: "final_drain L s = (x, u)" by (cases "final_drain L s")
  note fin = final_drain_pops [OF fd]
  obtain y v where bd: "bind (final_drain L) (\<lambda>_. lift_run m) s = (y, v)"
    by (cases "bind (final_drain L) (\<lambda>_. lift_run m) s")
  have v: "bl_resolved v = bl_resolved u \<and> bl_submitted v = bl_submitted u \<and>
      bl_max_in_flight v = bl_max_in_flight u \<and> (y = Inr () \<longrightarrow> x = Inr ())"
    using fd bd by (cases x) (auto simp: bind_def dest!: lift_run_fields)
  show ?thesis
  proof (cases y)
    case (Inl e)
    obtain z w where ab: "abort_pending_work L v = (z, w)" by (cases "abort_pending_work L v")
    have "t = w" "r \<noteq> Inr ()"
      using assms bd Inl ab by (auto simp: catch_def bind_def throw_def split: sum.splits)
    with abort_fields [OF ab] fin v show ?thesis by auto
  next
    case (Inr z)
    with assms bd have "t = v" by (simp add: catch_def)
    with fin v Inr show ?thesis by auto
  qed
qed

definition drained :: "'e bstate \<Rightarrow> exn + unit \<Rightarrow> 'e bstate \<Rightarrow> bool" where
  "drained s r t \<longleftrightarrow> (\<exists>u. pops s u \<and> (r = Inr () \<longrightarrow> bl_queue u = []) \<and> bl_resolved t = bl_resolved u \<and>
    bl_submitted t = bl_submitted u \<and> bl_max_in_flight t = bl_max_in_flight u)"

definition lane_end :: "'e lane_config \<Rightarrow> exn + unit \<Rightarrow> ('e, unit) brun" where
  "lane_end L x = (let finish = catch (bind (final_drain L) (\<lambda>_. lift_run (flush_pending_writes (lc_engine L))))
             (\<lambda>x. bind (abort_pending_work L) (\<lambda>_. throw x)) in
     case x of
       Inl e \<Rightarrow> if must_abort_pending_work e then bind (abort_pending_work L) (\<lambda>_. throw e)
                else bind finish (\<lambda>_. throw e)
     | Inr _ \<Rightarrow> finish)"

lemma lane_end_drained:
  assumes run: "lane_end L x s = (r, t)"
  shows "drained s r t"
proof -
  let ?finish = "catch (bind (final_drain L) (\<lambda>_. lift_run (flush_pending_writes (lc_engine L))))
             (\<lambda>x. bind (abort_pending_work L) (\<lambda>_. throw x))"
  obtain y v where fin: "?finish s = (y, v)" by (cases "?finish s")
  have v: "drained s y v" using drain_or_abort [OF fin] by (simp add: drained_def)
  obtain z w where ab: "abort_pending_work L s = (z, w)" by (cases "abort_pending_work L s")
  show ?thesis
  proof (cases x)
    case (Inl e)
    show ?thesis
    proof (cases "must_abort_pending_work e")
      case True
      with run ab Inl have "t = w" "r \<noteq> Inr ()"
        by (auto simp: lane_end_def Let_def bind_def throw_def split: sum.splits)
      with abort_fields [OF ab] show ?thesis by (auto simp: drained_def intro!: exI [of _ s] pop.R_refl)
    next
      case False
      with run fin Inl have "t = v" "r \<noteq> Inr ()"
        by (auto simp: lane_end_def Let_def bind_def throw_def split: sum.splits)
      with v show ?thesis by (auto simp: drained_def)
    qed
  next
    case (Inr q)
    with run fin v show ?thesis by (simp add: lane_end_def)
  qed
qed

lemma drained_ok:
  assumes "drained s r t" "lane_ok M s"
  shows "prefix (bl_resolved t) (bl_submitted t) \<and> (r = Inr () \<longrightarrow> bl_resolved t = bl_submitted t) \<and>
    bl_max_in_flight t \<le> M \<and> bl_submitted t = bl_submitted s"
proof -
  from assms(1) obtain u where u: "pops s u" "r = Inr () \<longrightarrow> bl_queue u = []" "bl_resolved t = bl_resolved u"
    "bl_submitted t = bl_submitted u" "bl_max_in_flight t = bl_max_in_flight u" by (auto simp: drained_def)
  have "bl_submitted u = bl_resolved u @ map pr_source_record (bl_queue u)"
    using pops_order [OF u(1)] assms(2) by (simp add: lane_ok_def order_ok_def)
  moreover have "bl_max_in_flight u \<le> M" "bl_submitted u = bl_submitted s"
    using u(1) assms(2) by (auto simp: pops_def lane_ok_def)
  ultimately show ?thesis using u by auto
qed

lemma buffered_run_parts:
  assumes "buffered_lane_run L records src_end s = (r, t)"
  obtains y v x w where "for_each records (buffered_step L) (buffered_start L s) = (y, v)"
    "x = (case y of Inl e \<Rightarrow> Inl e | Inr _ \<Rightarrow> fst (raise_opt src_end (bl_run v)))"
    "w = v\<lparr>bl_run := snd (hot_flush (de_source_name (lc_engine L)) (bl_run v))\<rparr>" "lane_end L x w = (r, t)"
proof -
  obtain y v where fe: "for_each records (buffered_step L) (buffered_start L s) = (y, v)"
    by (cases "for_each records (buffered_step L) (buffered_start L s)")
  have "lane_end L (case y of Inl e \<Rightarrow> Inl e | Inr _ \<Rightarrow> fst (raise_opt src_end (bl_run v)))
      (v\<lparr>bl_run := snd (hot_flush (de_source_name (lc_engine L)) (bl_run v))\<rparr>) = (r, t)"
    using assms fe
    by (auto simp: buffered_lane_run_def buffered_body_def lane_end_def Let_def bind_def attempt_def
        lift_run_def hot_flush_def modify_def raise_opt_def skip_def ret_def throw_def
        split: sum.splits option.splits)
  with fe that show thesis by blast
qed

lemma drained_submitted: "drained s r t \<Longrightarrow> bl_submitted t = bl_submitted s"
  by (auto simp: drained_def pops_def)

lemma buffered_lane_resolved:
  assumes "buffered_lane_run L records src_end s = (r, t)"
  shows "prefix (bl_resolved t) (bl_submitted t) \<and> subseq (bl_submitted t) records \<and>
    (r = Inr () \<longrightarrow> bl_resolved t = bl_submitted t) \<and> bl_max_in_flight t \<le> lane_bound L"
proof -
  from assms obtain y v x w where fe: "for_each records (buffered_step L) (buffered_start L s) = (y, v)"
    and w: "w = v\<lparr>bl_run := snd (hot_flush (de_source_name (lc_engine L)) (bl_run v))\<rparr>"
    and fin: "lane_end L x w = (r, t)" by (rule buffered_run_parts)
  have "lane_ok (lane_bound L) v \<and> subseq (bl_submitted v) records"
    using buffered_loop_ok [OF fe conjunct1 [OF buffered_start_ok] conjunct2 [OF buffered_start_ok]]
    by (auto simp: buffered_start_def split: prod.splits)
  then have ok: "lane_ok (lane_bound L) w" "subseq (bl_submitted w) records"
    using w by (simp_all add: lane_ok_def order_ok_def limit_ok_def)
  from drained_ok [OF lane_end_drained [OF fin] ok(1)] ok(2) show ?thesis by metis
qed

text \<open>
  C14. The buffered lane keeps the order and its bound. However the stage finishes its work, the records
  leave the lane in the order in which they were submitted, which is the order of the source; a run
  that returns has resolved every record it submitted; and there are never more records in flight than
  the fixed limit or the maximum of the adaptive controller allows.
\<close>

theorem buffered_lane_order_and_bound:
  assumes "buffered_lane_run L records src_end s = (r, t)"
  shows "prefix (bl_resolved t) (bl_submitted t) \<and> subseq (bl_submitted t) records \<and>
    (r = Inr () \<longrightarrow> bl_resolved t = bl_submitted t) \<and> bl_max_in_flight t \<le> lane_bound L"
  using assms by (rule buffered_lane_resolved)

end
