(* ===== verification/Buffered_Safety.thy ===== *)
theory Buffered_Safety
  imports Buffered_Lane
begin

text \<open>
  Checkpoints in the buffered lane. Without batching of the writes, when the stages before the buffered
  one keep every record, the lane's checkpoints are never ahead of the data; the two theorems at the
  end show what happens when one of these conditions fails.
\<close>

section \<open>The invariant\<close>

definition quiet_buffered :: "'e BufferedStageSpec \<Rightarrow> bool" where
  "quiet_buffered st \<longleftrightarrow>
     (\<forall>r. steps_in (emits is_discard) (st_submit st r)) \<and>
     (\<forall>f. steps_in (emits is_discard) (st_done st f)) \<and>
     (\<forall>f. steps_in (emits is_discard) (st_await st f)) \<and>
     (\<forall>f. steps_in (emits is_discard) (st_result st f)) \<and>
     (\<forall>f. steps_in (emits is_discard) (st_cancel st f)) \<and>
     steps_in (emits is_discard) (st_drain st)"

definition plain_result :: "buffered_result \<Rightarrow> bool" where
  "plain_result r = (case r of Wrapped _ \<Rightarrow> False | Plain _ \<Rightarrow> True)"

text \<open>The conditions on the configuration: nothing before the buffered stage drops or fails a record.\<close>

definition safe_config :: "'e lane_config \<Rightarrow> bool" where
  "safe_config L \<longleftrightarrow> quiet_buffered (lc_stage L) \<and> (\<forall>m\<in>set (lc_chain L). quiet_stage m) \<and>
     lc_writer_batch_size L \<le> 1 \<and> de_checkpoint_store (lc_engine L) \<noteq> None \<and>
     (\<forall>f. returns plain_result (st_await (lc_stage L) f)) \<and>
     (\<forall>r. returns (\<lambda>x. fst x \<noteq> None) (process_range_outcome (lc_chain L) 0 (st_index (lc_stage L)) r))"

text \<open>Where the entries of the deque come from, and what the lane made of a record.\<close>

definition entered :: "'e lane_config \<Rightarrow> SingleBufferedPendingRecord \<Rightarrow> bool" where
  "entered L e \<longleftrightarrow> (\<exists>c failure s t u v.
     buffered_prefix L (pr_source_record e) s = (Inr (Some c, failure), t) \<and>
     submit_entry L (pr_source_record e) c u = (Inr e, v))"

definition lane_made ::
  "'e lane_config \<Rightarrow> SourceRecord \<times> pyobj option \<times> MiddlewareFailure option \<Rightarrow> bool" where
  "lane_made L x \<longleftrightarrow> (\<exists>e s t. entered L e \<and> pr_source_record e = fst x \<and>
     resolve_outcome (lc_stage L) (lc_chain L) e s = (Inr x, t))"

definition has_checkpoint :: "'e lane_config \<Rightarrow> SingleBufferedPendingRecord \<Rightarrow> bool" where
  "has_checkpoint L e \<longleftrightarrow> sr_checkpoint (pr_source_record e) \<noteq> PNone \<and> entered L e"

definition led_matches :: "bool \<Rightarrow> ledger \<Rightarrow> 'e bstate \<Rightarrow> bool" where
  "led_matches clean led s \<longleftrightarrow> prefix (map fst led) (bl_resolved s) \<and> (clean \<longrightarrow> map fst led = bl_resolved s)"

definition binv :: "'e lane_config \<Rightarrow> bool \<Rightarrow> 'e bstate \<Rightarrow> bool" where
  "binv L clean s \<longleftrightarrow> rs_pending (bl_run s) = [] \<and> (\<forall>e\<in>set (bl_queue s). has_checkpoint L e) \<and>
     (\<exists>led. lane_inv (lc_engine L) led clean (bl_run s) \<and> led_matches clean led s \<and> (\<forall>x\<in>set led. lane_made L x))"

definition guarded :: "'e lane_config \<Rightarrow> ('e, 'a) brun \<Rightarrow> bool" where
  "guarded L m \<longleftrightarrow> triple (binv L True) m (\<lambda>_. binv L True) (\<lambda>_. binv L False)"

lemma binv_weaken: "binv L True s \<Longrightarrow> binv L False s"
  unfolding binv_def led_matches_def by (blast intro: lane_inv_weaken)

lemma guardedI:
  assumes "\<And>s r t. m s = (r, t) \<Longrightarrow> binv L True s \<Longrightarrow> if isl r then binv L False t else binv L True t"
  shows "guarded L m"
  unfolding guarded_def by (rule tripleI) (use assms in fastforce)+

lemma guardedD:
  "guarded L m \<Longrightarrow> m s = (r, t) \<Longrightarrow> binv L True s \<Longrightarrow> if isl r then binv L False t else binv L True t"
  unfolding guarded_def by (cases r) (auto dest: tripleD_Inl tripleD_Inr)

lemma guarded_bind: "guarded L m \<Longrightarrow> (\<And>x. guarded L (f x)) \<Longrightarrow> guarded L (bind m f)"
  unfolding guarded_def by (rule triple_bind)

lemma guarded_skip: "guarded L skip" "guarded L (ret x)"
  by (simp_all add: guarded_def triple_def skip_def ret_def)

lemma guarded_get_state: "(\<And>x. binv L True x \<Longrightarrow> guarded L (f x)) \<Longrightarrow> guarded L (bind get_state f)"
  by (rule guardedI) (use guardedD in \<open>fastforce simp del: if_split\<close>)

lemma guarded_set_queue: "\<forall>e\<in>set q. has_checkpoint L e \<Longrightarrow> guarded L (set_queue q)"
  by (simp add: guarded_def triple_def set_queue_def modify_def binv_def led_matches_def)

text \<open>Quiet code of the stage and of the chain.\<close>

lemma binv_quiet:
  assumes "binv L clean s" "emits is_discard (bl_run s) u"
  shows "binv L clean (s\<lparr>bl_run := u\<rparr>)"
proof -
  from assms(1) obtain led where "lane_inv (lc_engine L) led clean (bl_run s)" "led_matches clean led s"
    "\<forall>x\<in>set led. lane_made L x"
    by (auto simp: binv_def)
  with assms lane_inv_emits [OF _ assms(2)] show ?thesis
    unfolding binv_def led_matches_def by (intro conjI exI [of _ led]) (auto simp: emits_def)
qed

lemma guarded_quiet:
  assumes "steps_in (emits is_discard) m"
  shows "guarded L (lift_run m)"
proof (rule guardedI)
  fix s r t assume run: "lift_run m s = (r, t)" and inv: "binv L True s"
  from lift_run_fields [OF run] obtain u where u: "m (bl_run s) = (r, u)" "t = s\<lparr>bl_run := u\<rparr>" by blast
  have "binv L True t" using binv_quiet [OF inv steps_inD [OF assms u(1)]] u(2) by simp
  then show "if isl r then binv L False t else binv L True t" by (auto intro: binv_weaken)
qed

lemma count_result_emits [steps_intro]: "steps_in (emits P) (count_result name r f)"
  unfolding count_result_def upd_mw_def
  by (auto intro!: steps_intro split: buffered_result.split option.split)

lemma finalize_emits [steps_intro]:
  "quiet_buffered st \<Longrightarrow> steps_in (emits is_discard) (finalize_metrics st entry)"
  unfolding finalize_metrics_def Let_def upd_mw_def
  by (auto simp: quiet_buffered_def intro!: steps_intro split: option.split sum.split)

lemma submit_emits [steps_intro]:
  "quiet_buffered st \<Longrightarrow> steps_in (emits is_discard) (submit_single_buffered_record st sr c i j)"
  unfolding submit_single_buffered_record_def Let_def upd_mw_def
  by (auto simp: quiet_buffered_def [of st] intro!: steps_intro finalize_emits split: sum.split)

lemma range_emits:
  "\<forall>m\<in>set mws. quiet_stage m \<Longrightarrow> steps_in (emits is_discard) (process_range_outcome mws i j r)"
  unfolding process_range_outcome_def
  by (auto intro!: steps_intro process_stages_emits dest: in_set_takeD in_set_dropD)

lemma resolve_outcome_emits [steps_intro]:
  "quiet_buffered st \<Longrightarrow> \<forall>m\<in>set mws. quiet_stage m \<Longrightarrow>
     steps_in (emits is_discard) (resolve_outcome st mws entry)"
  unfolding resolve_outcome_def Let_def
  by (auto simp: quiet_buffered_def intro!: steps_intro range_emits
      split: option.split sum.split buffered_result.split)

lemma returns_attempt: "returns P m \<Longrightarrow> returns (\<lambda>r. case r of Inl _ \<Rightarrow> True | Inr x \<Rightarrow> P x) (attempt m)"
  unfolding returns_def attempt_eq_Inr by (auto split: sum.split)

lemma returns_bind_with:
  assumes "returns Q m" and "\<And>x. Q x \<Longrightarrow> returns P (f x)"
  shows "returns P (bind m f)"
  using assms unfolding returns_def bind_eq_Inr by blast

lemma resolve_outcome_source:
  assumes "\<forall>f. returns plain_result (st_await st f)"
  shows "returns (\<lambda>x. fst x = pr_source_record entry) (resolve_outcome st mws entry)"
proof (cases "pr_future entry")
  case None
  then show ?thesis by (auto simp: resolve_outcome_def Let_def intro!: returns_intro)
next
  case (Some f)
  show ?thesis
    unfolding resolve_outcome_def Let_def Some option.case
    by (auto simp: plain_result_def split: sum.splits buffered_result.splits option.split
        intro!: returns_intro returns_bind_with [OF returns_attempt [OF spec [OF assms, of f]]])
qed

section \<open>Resolving and draining\<close>

lemma dispatch_is_write:
  "n \<le> 1 \<Longrightarrow> dispatch_processed_result D result raw v n failure os = write_processed_record D result raw v failure os"
  by (simp add: dispatch_processed_result_def write_processed_record_def split: option.split)

text \<open>The delivery of a resolved record.\<close>

lemma deliver_resolved:
  assumes inv: "lane_inv D led True v" "rs_pending v = []"
    and run: "dispatch_processed_result D result (sr_raw sr) (sr_checkpoint sr) n failure (sr_on_success sr) v = (r, u)"
    and conf: "n \<le> 1" "de_checkpoint_store D \<noteq> None" "sr_checkpoint sr \<noteq> PNone"
  shows "lane_inv D (led @ [(sr, result, failure)]) (r = Inr ()) u \<and> rs_pending u = []"
proof -
  have "write_processed_record D result (sr_raw sr) (sr_checkpoint sr) failure (sr_on_success sr) v = (r, u)"
    using run conf(1) by (simp add: dispatch_is_write)
  from write_processed_record_seg [OF this] conf obtain ev where
    "rs_trace u = rs_trace v @ ev" "ordered_segment (settled D (sr_raw sr) result failure) (sr_checkpoint sr) ev"
    "r = Inr () \<Longrightarrow> settled D (sr_raw sr) result failure ev" "rs_pending u = rs_pending v" by auto
  with lane_inv_deliver [OF inv(1), of u ev sr result failure "r = Inr ()"] inv(2) show ?thesis by simp
qed

lemma guarded_resolve:
  assumes conf: "safe_config L" and ck: "has_checkpoint L entry"
  shows "guarded L (resolve_single_buffered_record L entry)"
proof (rule guardedI)
  fix s r t
  assume run: "resolve_single_buffered_record L entry s = (r, t)" and inv: "binv L True s"
  let ?D = "lc_engine L" and ?st = "lc_stage L" and ?sr = "pr_source_record entry"
  from inv obtain led where led: "lane_inv ?D led True (bl_run s)" "map fst led = bl_resolved s"
    "rs_pending (bl_run s) = []" "\<forall>e\<in>set (bl_queue s). has_checkpoint L e" "\<forall>x\<in>set led. lane_made L x"
    by (auto simp: binv_def led_matches_def)
  let ?pre = "bind (attempt (resolve_outcome ?st (lc_chain L) entry)) (\<lambda>r.
      bind (finalize_metrics ?st entry) (\<lambda>_. ret r))"
  let ?post = "\<lambda>r. case r of Inl e \<Rightarrow> throw e
      | Inr (sr, result, failure) \<Rightarrow> dispatch_processed_result ?D result (sr_raw sr) (sr_checkpoint sr)
             (lc_writer_batch_size L) failure (sr_on_success sr)"
  obtain u where u: "bind ?pre ?post (bl_run s) = (r, u)"
    "t = s\<lparr>bl_resolved := bl_resolved s @ [?sr], bl_run := u\<rparr>"
    using run unfolding resolve_single_buffered_record_def
    by (auto simp: bind_assoc dest!: lift_run_fields)
  obtain x v where pre: "?pre (bl_run s) = (x, v)" by (cases "?pre (bl_run s)")
  have quiet: "steps_in (emits is_discard) ?pre"
    using conf by (auto simp: safe_config_def intro!: steps_intro)
  have v: "lane_inv ?D led True v" "rs_pending v = []"
    using steps_inD [OF quiet pre] led lane_inv_emits [OF led(1)] by (auto simp: emits_def)
  have bad: "binv L False (s\<lparr>bl_resolved := bl_resolved s @ [?sr], bl_run := v\<rparr>)"
    using v led(2,4,5) unfolding binv_def led_matches_def
    by (intro conjI exI [of _ led]) (simp_all add: lane_inv_weaken)
  show "if isl r then binv L False t else binv L True t"
  proof (cases "\<exists>y. x = Inr (Inr y)")
    case False
    then have "isl r" "u = v" using u(1) pre by (auto simp: bind_def throw_def split: sum.splits)
    with bad u(2) show ?thesis by simp
  next
    case True
    then obtain sr result failure where x: "x = Inr (Inr (sr, result, failure))" by (metis prod_cases3)
    with pre obtain w where "resolve_outcome ?st (lc_chain L) entry (bl_run s) = (Inr (sr, result, failure), w)"
      by (auto simp: bind_eq_Inr attempt_eq_Inr ret_def)
    then have made: "lane_made L (?sr, result, failure)" if "sr = ?sr"
      using ck that unfolding lane_made_def has_checkpoint_def by auto
    from \<open>resolve_outcome _ _ _ _ = _\<close> have sr: "sr = ?sr"
      using returnsD [OF resolve_outcome_source] conf by (fastforce simp: safe_config_def)
    have disp: "dispatch_processed_result ?D result (sr_raw sr) (sr_checkpoint sr)
             (lc_writer_batch_size L) failure (sr_on_success sr) v = (r, u)"
      using u(1) pre x by (simp add: bind_def)
    have "lane_inv ?D (led @ [(sr, result, failure)]) (r = Inr ()) u \<and> rs_pending u = []"
      by (rule deliver_resolved [OF v disp]) (use conf ck sr in \<open>auto simp: safe_config_def has_checkpoint_def\<close>)
    then show ?thesis
      using led(2,4,5) made [OF sr] sr u(2) unfolding binv_def led_matches_def
      by (cases r) (auto intro!: exI [of _ "led @ [(sr, result, failure)]"])
  qed
qed

lemma guarded_entry_ready: "safe_config L \<Longrightarrow> guarded L (entry_ready (lc_stage L) entry)"
  unfolding entry_ready_def
  by (auto simp: safe_config_def quiet_buffered_def intro!: guarded_skip guarded_quiet split: option.split)

lemma guarded_drain_loop:
  "safe_config L \<Longrightarrow> \<forall>e\<in>set q. has_checkpoint L e \<Longrightarrow> guarded L (drain_loop L q)"
  by (induction q)
     (auto intro!: guarded_bind guarded_set_queue guarded_entry_ready guarded_skip guarded_resolve)

lemma guarded_drain_ready: "safe_config L \<Longrightarrow> guarded L (drain_ready L)"
  unfolding drain_ready_def by (auto simp: binv_def intro!: guarded_get_state guarded_drain_loop)

lemma guarded_commit_next: "safe_config L \<Longrightarrow> guarded L (commit_next L)"
  unfolding commit_next_def
  by (auto simp: binv_def intro!: guarded_get_state guarded_bind guarded_set_queue guarded_resolve guarded_skip
      split: list.split)

lemma guarded_observe: "guarded L (observe_limit L)"
  by (auto simp: guarded_def triple_def observe_limit_def modify_def binv_def led_matches_def Let_def
      split: option.split prod.split)

lemma guarded_window:
  assumes "safe_config L"
  shows "guarded L (window_loop L)"
proof (rule guardedI)
  fix s r t
  assume "window_loop L s = (r, t)" "binv L True s"
  then show "if isl r then binv L False t else binv L True t"
    using assms
  proof (induction L s arbitrary: r t rule: window_loop.induct)
    case (1 L s)
    obtain x u where ob: "bind (observe_limit L) (\<lambda>_. drain_ready L) s = (x, u)"
      by (cases "bind (observe_limit L) (\<lambda>_. drain_ready L) s")
    obtain y v where cm: "commit_next L u = (y, v)" by (cases "commit_next L u")
    have iu: "if isl x then binv L False u else binv L True u"
      using guardedD [OF guarded_bind [OF guarded_observe guarded_drain_ready [OF 1(4)]] ob 1(3)] .
    have iv: "if isl y then binv L False v else binv L True v" if "\<not> isl x"
      using guardedD [OF guarded_commit_next [OF 1(4)] cm] iu that by simp
    show ?case
    proof (cases "int (length (bl_queue s)) < bl_limit s \<or> isl x \<or> int (length (bl_queue u)) < bl_limit u \<or>
        bl_queue u = [] \<or> isl y")
      case True
      with 1(2,3) ob cm iu iv show ?thesis
        by (cases x; cases y) (auto simp: window_loop.simps [of L s] split: if_splits)
    next
      case False
      then have x: "x = Inr ()" "y = Inr ()" by (cases x; cases y; simp)+
      with False have "window_loop L v = (r, t)" using 1(2) ob cm by (simp add: window_loop.simps [of L s])
      moreover have "binv L True v" using iv x by simp
      ultimately show ?thesis using 1(1) [of x u "()" y v "()" r t] 1(4) False ob cm x by simp
    qed
  qed
qed

lemma guarded_final_drain:
  assumes "safe_config L"
  shows "guarded L (final_drain L)"
proof (rule guardedI)
  fix s r t
  assume "final_drain L s = (r, t)" "binv L True s"
  then show "if isl r then binv L False t else binv L True t"
    using assms
  proof (induction L s arbitrary: r t rule: final_drain.induct)
    case (1 L s)
    let ?dr = "bind (lift_run (st_drain (lc_stage L))) (\<lambda>_. drain_ready L)"
    obtain x u where ob: "?dr s = (x, u)" by (cases "?dr s")
    obtain y v where cm: "commit_next L u = (y, v)" by (cases "commit_next L u")
    have "guarded L ?dr" using 1(4)
      by (auto simp: safe_config_def quiet_buffered_def intro!: guarded_bind guarded_quiet guarded_drain_ready)
    then have iu: "if isl x then binv L False u else binv L True u"
      using guardedD ob 1(3) by blast
    have iv: "if isl y then binv L False v else binv L True v" if "\<not> isl x"
      using guardedD [OF guarded_commit_next [OF 1(4)] cm] iu that by simp
    show ?case
    proof (cases "bl_queue s = [] \<or> isl x \<or> bl_queue u = [] \<or> isl y")
      case True
      with 1(2,3) ob cm iu iv show ?thesis
        by (cases x; cases y) (auto simp: final_drain.simps [of L s] split: if_splits)
    next
      case False
      then have x: "x = Inr ()" "y = Inr ()" by (cases x; cases y; simp)+
      with False have "final_drain L v = (r, t)" using 1(2) ob cm by (simp add: final_drain.simps [of L s])
      moreover have "binv L True v" using iv x by simp
      ultimately show ?thesis using 1(1) [of x u "()" y v "()" r t] 1(4) False ob cm x by simp
    qed
  qed
qed

section \<open>The run\<close>

lemma prefix_emits:
  "safe_config L \<Longrightarrow> steps_in (emits is_discard) (buffered_prefix L sr)"
  unfolding buffered_prefix_def
  by (auto simp: safe_config_def emits_def [of _ _ "_\<lparr>rs_processed_count := _\<rparr>"] intro!: steps_intro range_emits)

lemma prefix_keeps:
  "safe_config L \<Longrightarrow> returns (\<lambda>x. fst x \<noteq> None) (buffered_prefix L sr)"
  unfolding buffered_prefix_def by (intro returns_intro) (simp add: safe_config_def)

lemma guarded_append:
  "pr_source_record entry = sr \<Longrightarrow> entered L entry \<Longrightarrow> sr_checkpoint sr \<noteq> PNone \<Longrightarrow> binv L clean s \<Longrightarrow>
     binv L clean (append_entry sr entry s)"
  by (auto simp: binv_def append_entry_def led_matches_def has_checkpoint_def)

lemma guarded_step:
  assumes conf: "safe_config L" and ck: "sr_checkpoint sr \<noteq> PNone"
  shows "guarded L (buffered_step L sr)"
proof (rule guardedI)
  fix s r t
  assume run: "buffered_step L sr s = (r, t)" and inv: "binv L True s"
  have pre: "binv L True (s\<lparr>bl_run := u\<rparr>)" if "buffered_prefix L sr (bl_run s) = (x, u)" for x u
    using binv_quiet [OF inv steps_inD [OF prefix_emits [OF conf] that]] .
  have sub: "binv L True (s\<lparr>bl_run := v\<rparr>)"
    if "binv L True (s\<lparr>bl_run := u\<rparr>)" "submit_entry L sr c u = (x, v)" for c x u v
  proof -
    have "emits is_discard u v"
      using steps_inD [OF submit_emits] conf that(2) by (fastforce simp: safe_config_def submit_entry_def)
    with binv_quiet [OF that(1), of v] show ?thesis by simp
  qed
  from run show "if isl r then binv L False t else binv L True t"
  proof (cases rule: buffered_step_cases)
    case (fail e u)
    with pre show ?thesis by (auto intro: binv_weaken)
  next
    case (dropped failure u v)
    with returnsD [OF prefix_keeps [OF conf] dropped(1)] show ?thesis by simp
  next
    case (refused current failure u e v)
    with sub [OF pre [OF refused(1)] refused(2)] show ?thesis by (auto intro: binv_weaken)
  next
    case (submitted current failure u entry v)
    have "pr_source_record entry = sr"
      using submitted(2) returnsD [OF submit_source_record] unfolding submit_entry_def by blast
    moreover from this have "entered L entry"
      using submitted(1,2) unfolding entered_def by blast
    ultimately have app: "binv L True (s\<lparr>bl_run := v\<rparr>) \<Longrightarrow> binv L True (append_entry sr entry (s\<lparr>bl_run := v\<rparr>))"
      using ck by (rule guarded_append)
    from app [OF sub [OF pre [OF submitted(1)] submitted(2)]]
    show ?thesis using guardedD [OF guarded_window [OF conf] submitted(3)] by simp
  qed
qed

lemma guarded_loop:
  "safe_config L \<Longrightarrow> \<forall>sr\<in>set records. sr_checkpoint sr \<noteq> PNone \<Longrightarrow>
     guarded L (for_each records (buffered_step L))"
  by (induction records) (auto intro!: guarded_bind guarded_skip guarded_step)

lemma step_submits:
  assumes "safe_config L" "buffered_step L sr s = (r, t)"
  shows "bl_submitted t = bl_submitted s @ [sr] \<or> r \<noteq> Inr () \<and> bl_submitted t = bl_submitted s"
  using assms(2)
proof (cases rule: buffered_step_cases)
  case (dropped failure u v)
  with returnsD [OF prefix_keeps [OF assms(1)] dropped(1)] show ?thesis by simp
next
  case (submitted current failure u entry v)
  with window_loop_moves [OF submitted(3)] show ?thesis
    by (auto simp: moves_def pops_def append_entry_def)
qed auto

lemma loop_submits:
  assumes "safe_config L" "for_each records (buffered_step L) s = (r, t)"
  shows "\<exists>subs. bl_submitted t = bl_submitted s @ subs \<and> prefix subs records \<and> (r = Inr () \<longrightarrow> subs = records)"
  using assms(2)
proof (induction records arbitrary: s)
  case Nil
  then show ?case by (auto simp: ret_def)
next
  case (Cons sr records)
  obtain x u where step: "buffered_step L sr s = (x, u)" by (cases "buffered_step L sr s")
  note sub = step_submits [OF assms(1) step]
  show ?case
  proof (cases x)
    case (Inl e)
    with Cons.prems step have "t = u" "r = Inl e" by (simp_all add: bind_def)
    with sub show ?thesis by auto
  next
    case (Inr y)
    with Cons.prems step have "for_each records (buffered_step L) u = (r, t)" by (simp add: bind_def)
    from Cons.IH [OF this] sub Inr show ?thesis by auto
  qed
qed

lemma cancel_emits: "quiet_buffered st \<Longrightarrow> steps_in (emits is_discard) (cancel_future st f)"
  unfolding cancel_future_def by (auto simp: quiet_buffered_def intro!: steps_intro)

lemma abort_binv:
  assumes conf: "safe_config L" and inv: "binv L False s" and run: "abort_pending_work L s = (r, t)"
  shows "binv L False t"
proof -
  let ?rest = "abort_entries (lc_stage L) (bl_queue s)"
  let ?s = "s\<lparr>bl_run := (bl_run s)\<lparr>rs_pending := []\<rparr>, bl_queue := []\<rparr>"
  have "rs_pending (bl_run s) = []" using inv by (simp add: binv_def)
  then have same: "?s = s\<lparr>bl_queue := []\<rparr>" by simp
  have s: "binv L False ?s"
    unfolding same using inv by (simp add: binv_def led_matches_def)
  have st: "quiet_buffered (lc_stage L)" using conf by (simp add: safe_config_def)
  then have "steps_in (emits is_discard) (st_await (lc_stage L) f)" for f by (simp add: quiet_buffered_def)
  then have quiet: "steps_in (emits is_discard) ?rest"
    unfolding abort_entries_def by (intro steps_intro finalize_emits [OF st] cancel_emits [OF st])
  obtain u where "?rest (bl_run ?s) = (r, u)" "t = ?s\<lparr>bl_run := u\<rparr>"
    using lift_run_fields [OF run [unfolded abort_unfold]] by blast
  with binv_quiet [OF s steps_inD [OF quiet]] show ?thesis by simp
qed

lemma finish_binv:
  assumes conf: "safe_config L" and s: "binv L True s"
    and run: "catch (bind (final_drain L) (\<lambda>_. lift_run (flush_pending_writes (lc_engine L))))
      (\<lambda>x. bind (abort_pending_work L) (\<lambda>_. throw x)) s = (r, t)"
  shows "binv L (r = Inr ()) t"
proof -
  let ?fin = "bind (final_drain L) (\<lambda>_. lift_run (flush_pending_writes (lc_engine L)))"
  have flush: "guarded L (lift_run (flush_pending_writes (lc_engine L)))"
    by (rule guardedI) (auto simp: binv_def flush_pending_writes_def flush_pending_writes_once_def skip_def
        ret_def dest!: lift_run_fields)
  obtain y v where fin: "?fin s = (y, v)" by (cases "?fin s")
  have v: "if isl y then binv L False v else binv L True v"
    using guardedD [OF guarded_bind [OF guarded_final_drain [OF conf] flush] fin s] .
  show ?thesis
  proof (cases y)
    case (Inl e)
    obtain z w where ab: "abort_pending_work L v = (z, w)" by (cases "abort_pending_work L v")
    with run fin Inl have "t = w" "r \<noteq> Inr ()"
      by (auto simp: catch_def bind_def throw_def split: sum.splits)
    with abort_binv [OF conf _ ab] v Inl show ?thesis by simp
  next
    case (Inr z)
    with run fin v show ?thesis by (auto simp: catch_def)
  qed
qed

lemma lane_end_binv:
  assumes conf: "safe_config L" and run: "lane_end L x s = (r, t)"
    and inv: "binv L True s \<or> (\<exists>e. x = Inl e \<and> must_abort_pending_work e \<and> binv L False s)"
  shows "binv L (r = Inr ()) t"
proof (cases x)
  case (Inl e)
  show ?thesis
  proof (cases "must_abort_pending_work e")
    case True
    obtain z w where ab: "abort_pending_work L s = (z, w)" by (cases "abort_pending_work L s")
    with run Inl True have "t = w" "r \<noteq> Inr ()"
      by (auto simp: lane_end_def Let_def bind_def throw_def split: sum.splits)
    with abort_binv [OF conf _ ab] inv binv_weaken show ?thesis by auto
  next
    case False
    let ?finish = "catch (bind (final_drain L) (\<lambda>_. lift_run (flush_pending_writes (lc_engine L))))
             (\<lambda>x. bind (abort_pending_work L) (\<lambda>_. throw x))"
    obtain y v where fin: "?finish s = (y, v)" by (cases "?finish s")
    with run Inl False have "t = v" "r \<noteq> Inr ()"
      by (auto simp: lane_end_def Let_def bind_def throw_def split: sum.splits)
    moreover have "binv L (y = Inr ()) v" using finish_binv [OF conf _ fin] inv Inl False by auto
    ultimately show ?thesis using binv_weaken by (cases "y = Inr ()") auto
  qed
next
  case (Inr q)
  with run inv finish_binv [OF conf] show ?thesis by (auto simp: lane_end_def)
qed

text \<open>
  C5. No checkpoint ahead of the data, in the buffered lane: when writes are not batched, nothing before
  the buffered stage drops a record, and an exception that leaves the loop over the source's records is one that
  aborts the pending work, every checkpoint handed to the store belongs to a source record such that it and
  every earlier one had been settled, however the stage orders its work and whatever fails, the source itself
  included; and a run that returns has settled every record of the source. Without the condition on exceptions it is
  not so (\<open>buffered_lane_continues_after_dlq_failure\<close>).
\<close>

theorem buffered_lane_checkpoint_never_ahead:
  assumes run: "buffered_lane_run L records src_end s = (r, t)" and tr: "rs_trace s = []"
    and conf: "safe_config L" and ck: "\<forall>sr\<in>set records. sr_checkpoint sr \<noteq> PNone"
    and aborts: "\<forall>e u. for_each records (buffered_step L) (buffered_start L s) = (Inl e, u) \<longrightarrow>
      must_abort_pending_work e"
  shows "\<exists>led. ledger_of (lane_made L) records led \<and> safe_trace (lc_engine L) led (rs_trace (bl_run t)) \<and>
     (r = Inr () \<longrightarrow> map fst led = records \<and> (\<forall>x\<in>set led. entry_settled (lc_engine L) x (rs_trace (bl_run t))))"
proof -
  let ?D = "lc_engine L"
  from run obtain y v x w where fe: "for_each records (buffered_step L) (buffered_start L s) = (y, v)"
    and x: "x = (case y of Inl e \<Rightarrow> Inl e | Inr _ \<Rightarrow> fst (raise_opt src_end (bl_run v)))"
    and w: "w = v\<lparr>bl_run := snd (hot_flush (de_source_name ?D) (bl_run v))\<rparr>"
    and fin: "lane_end L x w = (r, t)" by (rule buffered_run_parts)
  have xy: "x = y" if "isl y \<or> src_end = None" using x that by (cases y) (simp_all add: raise_opt_def skip_def ret_def)
  have "lane_inv ?D [] True (bl_run (buffered_start L s))"
    using tr by (intro lane_inv_start) (simp_all add: buffered_start_def split: prod.split)
  then have "binv L True (buffered_start L s)"
    by (auto simp: binv_def led_matches_def buffered_start_def split: prod.splits intro!: exI [of _ "[]"])
  then have v: "if isl y then binv L False v else binv L True v"
    using guardedD [OF guarded_loop [OF conf ck] fe] by simp
  have "emits is_discard (bl_run v) (snd (hot_flush (de_source_name ?D) (bl_run v)))"
    by (rule steps_inD [OF hot_emits(2) prod.collapse [symmetric]])
  then have "binv L True w \<or> (\<exists>e. x = Inl e \<and> must_abort_pending_work e \<and> binv L False w)"
    using v w aborts fe xy binv_quiet by (cases y) auto
  from lane_end_binv [OF conf fin this] obtain led where led: "lane_inv ?D led (r = Inr ()) (bl_run t)"
    "prefix (map fst led) (bl_resolved t)" "r = Inr () \<longrightarrow> map fst led = bl_resolved t" "rs_pending (bl_run t) = []"
    "\<forall>x\<in>set led. lane_made L x"
    unfolding binv_def led_matches_def by metis
  have order: "prefix (bl_resolved t) (bl_submitted t)" "r = Inr () \<Longrightarrow> bl_resolved t = bl_submitted t"
    using buffered_lane_resolved [OF run] by blast+
  have "bl_submitted t = bl_submitted v" using drained_submitted [OF lane_end_drained [OF fin]] w by simp
  with loop_submits [OF conf fe] have sub: "prefix (bl_submitted t) records" "y = Inr () \<Longrightarrow> bl_submitted t = records"
    by (auto simp: buffered_start_def split: prod.splits)
  have ry: "r = Inr () \<Longrightarrow> y = Inr ()"
    using fin xy by (cases y) (auto simp: x lane_end_def Let_def bind_def throw_def split: if_splits sum.splits prod.splits)
  have "ledger_of (lane_made L) records led"
    using led(2,5) order(1) sub(1) unfolding ledger_of_def by (blast intro: prefix_order.trans)
  moreover have "safe_trace ?D led (rs_trace (bl_run t))" using led(1) by (rule lane_inv_safe)
  moreover have "map fst led = records \<and> (\<forall>x\<in>set led. entry_settled ?D x (rs_trace (bl_run t)))" if "r = Inr ()"
    using led(1,3,4) order(2) sub(2) ry that lane_inv_settled by auto
  ultimately show ?thesis by blast
qed

section \<open>A stage that answers at once, or not before it is asked\<close>

text \<open>
  A buffered stage for the witnesses: a future is the number of its record, \<open>ready\<close> says which are done
  when they are polled, and the answer is the record itself.
\<close>

definition demo_buffered :: "(nat \<Rightarrow> bool) \<Rightarrow> nat \<Rightarrow> int \<Rightarrow> unit BufferedStageSpec" where
  "demo_buffered ready i n = \<lparr>st_index = i, st_name = ''b'', st_concurrency = n,
     st_submit = (\<lambda>r. ret (ob_id r)), st_done = (\<lambda>f. ret (ready f)),
     st_await = (\<lambda>f. ret (Plain (Some (demo_obj f)))), st_result = (\<lambda>f. ret (Plain (Some (demo_obj f)))),
     st_cancel = (\<lambda>f. skip), st_drain = skip\<rparr>"

definition demo_lane ::
  "(pyobj \<Rightarrow> exn + WriteResult) \<Rightarrow> unit Middleware list \<Rightarrow> unit BufferedStageSpec \<Rightarrow> unit lane_config" where
  "demo_lane w mws st = \<lparr>lc_engine = demo_engine w None SINK_FAIL_CLOSED 1, lc_chain = mws, lc_stage = st,
     lc_writer_batch_size = 1, lc_max_buffer_size = None, lc_backpressure = None, lc_times = (\<lambda>_. (0, 0))\<rparr>"

definition slow_lane :: "unit lane_config" where
  "slow_lane = demo_lane sink_ok [demo_stage ''b'' (\<lambda>r. Inr (Some r))] (demo_buffered (\<lambda>_. False) 0 2)"

definition slow_run :: "(exn + unit) \<times> unit bstate" where
  "slow_run = buffered_lane_run slow_lane (map demo_record [1, 2]) None (init_state ())"

lemma demo_buffered_quiet: "quiet_buffered (demo_buffered ready i n)"
  by (auto simp: quiet_buffered_def demo_buffered_def intro!: steps_intro)

lemma slow_lane_safe: "safe_config slow_lane"
proof -
  have "\<forall>f. returns plain_result (st_await (demo_buffered (\<lambda>_. False) 0 2) f)"
    by (simp add: demo_buffered_def plain_result_def returns_def ret_def)
  moreover have "\<forall>r. returns (\<lambda>x. fst x \<noteq> None)
      (process_range_outcome [demo_stage ''b'' (\<lambda>r. Inr (Some r))] 0 0 r)"
    by (simp add: process_range_outcome_def returns_def ret_def)
  ultimately show ?thesis
    using demo_buffered_quiet [of "\<lambda>_. False" 0 2] demo_stage_quiet
    by (simp add: safe_config_def slow_lane_def demo_lane_def demo_buffered_def demo_engine_def)
qed

lemma slow_run_ok: "(case slow_run of (r, t) \<Rightarrow> (r, map sr_raw (bl_resolved t))) = (Inr (), map demo_obj [1, 2])"
  by code_simp

lemma slow_loop_ok:
  "fst (for_each (map demo_record [1, 2]) (buffered_step slow_lane) (buffered_start slow_lane (init_state ()))) = Inr ()"
  by code_simp

theorem buffered_lane_checkpoint_never_ahead_witness:
  "\<exists>led. safe_trace (lc_engine slow_lane) led (rs_trace (bl_run (snd slow_run))) \<and>
     map fst led = map demo_record [1, 2]"
proof -
  have run: "buffered_lane_run slow_lane (map demo_record [1, 2]) None (init_state ()) = (Inr (), snd slow_run)"
    using slow_run_ok by (cases slow_run) (simp add: slow_run_def)
  have "\<forall>e u. for_each (map demo_record [1, 2]) (buffered_step slow_lane)
      (buffered_start slow_lane (init_state ())) = (Inl e, u) \<longrightarrow> must_abort_pending_work e"
    using slow_loop_ok by (metis fst_conv sum.distinct(1))
  from buffered_lane_checkpoint_never_ahead [OF run _ slow_lane_safe _ this]
  show ?thesis by (auto simp: init_state_def demo_record_def)
qed

theorem buffered_lane_order_and_bound_witness:
  "bl_resolved (snd slow_run) = bl_submitted (snd slow_run) \<and> bl_max_in_flight (snd slow_run) \<le> 2 \<and>
   map sr_raw (bl_resolved (snd slow_run)) = map demo_obj [1, 2]"
proof -
  have run: "buffered_lane_run slow_lane (map demo_record [1, 2]) None (init_state ()) = (Inr (), snd slow_run)"
    using slow_run_ok by (cases slow_run) (simp add: slow_run_def)
  have "lane_bound slow_lane = 2" by code_simp
  moreover have "map sr_raw (bl_resolved (snd slow_run)) = map demo_obj [1, 2]"
    using slow_run_ok by (simp add: split_beta)
  ultimately show ?thesis using buffered_lane_order_and_bound [OF run] by simp
qed

section \<open>Records dropped before the buffered stage\<close>

definition drop_lane :: "unit lane_config" where
  "drop_lane = demo_lane sink_down [demo_stage ''f'' drops_2, demo_stage ''b'' (\<lambda>r. Inr (Some r))]
     (demo_buffered (\<lambda>_. False) 1 4)"

text \<open>
  A record that a stage before the buffered one drops is dispatched at once, so its checkpoint
  overtakes the records that are still in the buffered stage: record 1 is in flight, record 2 is
  dropped and its checkpoint is stored. When record 1 then fails, the run raises, but the stored
  checkpoint says that record 1 was done: a resumed run skips it, although the policy is fail-closed
  and the writes are not batched.
\<close>

theorem buffered_lane_drop_overtakes_in_flight:
  "(let run = buffered_lane_run drop_lane (map demo_record [1, 2]) None (init_state ())
    in fst run = Inl (RecordDeliveryError (mk_exn ValueErrorC ''sink is down'')) \<and>
       map (\<lambda>e. case e of ESave c b \<Rightarrow> Some (cp_value c, b) | _ \<Rightarrow> None) (rs_trace (bl_run (snd run))) =
         [Some (PInt 2, True), None] \<and>
       \<not> sink_accepted (demo_obj 1) (rs_trace (bl_run (snd run))))"
proof -
  let ?run = "buffered_lane_run drop_lane (map demo_record [1, 2]) None (init_state ())"
  let ?c = "\<lparr>cp_pipeline_id = ''p'', cp_run_id = ''r'', cp_source = ''s'', cp_value = PInt 2,
      cp_recorded_at = ''now'', cp_source_identity = None\<rparr>"
  have "fst ?run = Inl (RecordDeliveryError (mk_exn ValueErrorC ''sink is down''))" by code_simp
  moreover have "rs_trace (bl_run (snd ?run)) =
      [ESave ?c True, EWrite [demo_obj 1] (Inl (mk_exn ValueErrorC ''sink is down''))]" by code_simp
  ultimately show ?thesis by (simp add: sink_accepted_def)
qed

section \<open>Exceptions that do not abort\<close>

definition dlq_down :: "DLQRecord \<Rightarrow> exn + unit" where
  "dlq_down rec = Inl (mk_exn ConnectionErrorC ''dlq is down'')"

definition raise_lane :: "unit lane_config" where
  "raise_lane = (demo_lane sink_ok [] (demo_buffered (\<lambda>_. False) 0 2))
     \<lparr>lc_engine := (demo_engine sink_bad2 (Some dlq_down) SINK_FAIL_CLOSED 1)\<lparr>de_dlq_failure_policy := DLQ_RAISE\<rparr>\<rparr>"

text \<open>What the sink accepted, what the dead-letter queue took, which checkpoints were stored, in order.\<close>

definition accepted_ids :: "event list \<Rightarrow> nat list list" where
  "accepted_ids tr = concat (map (\<lambda>e. case e of EWrite ps (Inr _) \<Rightarrow> [map ob_id ps] | _ \<Rightarrow> []) tr)"

definition dlq_taken :: "event list \<Rightarrow> bool list" where
  "dlq_taken tr = concat (map (\<lambda>e. case e of EDlq _ b \<Rightarrow> [b] | _ \<Rightarrow> []) tr)"

definition stored_values :: "event list \<Rightarrow> pyval list" where
  "stored_values tr = concat (map (\<lambda>e. case e of ESave c True \<Rightarrow> [cp_value c] | _ \<Rightarrow> []) tr)"

text \<open>
  The lane aborts only for the exceptions that \<open>_must_abort_pending_work\<close> lists. With the policy
  \<open>raise\<close>, a failing dead-letter queue raises its own exception, which is not among them: record 2 is
  neither written nor dead-lettered, the lane goes on with record 3, writes it and stores its
  checkpoint, and only then raises. A resumed run skips record 2.
\<close>

theorem buffered_lane_continues_after_dlq_failure:
  "(case buffered_lane_run raise_lane (map demo_record [2, 3]) None (init_state ()) of (r, t) \<Rightarrow>
      (r, accepted_ids (rs_trace (bl_run t)), dlq_taken (rs_trace (bl_run t)), stored_values (rs_trace (bl_run t)))) =
   (Inl (mk_exn ConnectionErrorC ''dlq is down''), [[3]], [False], [PInt 3])"
  by code_simp

end
