(* ===== verification/Payload_Policy.thy ===== *)
theory Payload_Policy
  imports Checkpoint
begin

text \<open>
  \<^verbatim>\<open>core/dlq_policy.py\<close>: how dead-letter payloads are redacted or encrypted before they are stored.

  A payload is a JSON value with string keys. Strings are sequences of Latin-1 characters, on which
  \<open>strip\<close> and \<open>lower\<close> are defined; \<open>str\<close> of a value is \<open>py_str\<close>. The encryptor and the decryptor are
  supplied by the application, and the JSON and base64 codecs are the standard library's: they are the
  fields of \<open>payload_codec\<close>.
\<close>

section \<open>Names\<close>

definition py_space :: "char \<Rightarrow> bool" where
  "py_space c = (let n = of_char c :: int in 9 \<le> n \<and> n \<le> 13 \<or> 28 \<le> n \<and> n \<le> 32 \<or> n = 133 \<or> n = 160)"

definition py_strip :: "string \<Rightarrow> string" where
  "py_strip s = rev (dropWhile py_space (rev (dropWhile py_space s)))"

definition lower_char :: "char \<Rightarrow> char" where
  "lower_char c = (let n = of_char c :: int in
     if 65 \<le> n \<and> n \<le> 90 \<or> 192 \<le> n \<and> n \<le> 222 \<and> n \<noteq> 215 then char_of (n + 32) else c)"

definition py_lower :: "string \<Rightarrow> string" where
  "py_lower s = map lower_char s"

definition normalize_sensitive_name :: "string \<Rightarrow> string" where
  "normalize_sensitive_name name = py_lower (py_strip name)"

definition common_sensitive_fields :: "string list" where
  "common_sensitive_fields = [''access_token'', ''api_key'', ''authorization'', ''client_secret'', ''cookie'',
     ''password'', ''private_key'', ''refresh_token'', ''secret'', ''set-cookie'', ''token'', ''x-api-key'',
     ''x_api_key'']"

definition common_sensitive_headers :: "string list" where
  "common_sensitive_headers = [''api-key'', ''authorization'', ''cookie'', ''proxy-authorization'',
     ''set-cookie'', ''x-api-key'', ''x-auth-token'']"

section \<open>Redaction\<close>

record redaction =
  rd_fields :: "string list"
  rd_headers :: "string list"
  rd_value :: string

definition redacted_header_value :: "string \<Rightarrow> pyval" where
  "redacted_header_value redacted_value =
     PDict [(''encoding'', PStr ''redacted''), (''data'', PStr redacted_value)]"

text \<open>
  \<open>_redact_value\<close> and \<open>_redact_header\<close>. Inside a header that is not sensitive the recursion goes on
  with no field names.
\<close>

definition header_key :: "pylib \<Rightarrow> (string \<times> pyval) list \<Rightarrow> string" where
  "header_key lib kvs =
     normalize_sensitive_name (py_str lib (case dict_get kvs ''key'' of None \<Rightarrow> PStr '''' | Some v \<Rightarrow> v))"

fun redact_value :: "pylib \<Rightarrow> redaction \<Rightarrow> string option \<Rightarrow> pyval \<Rightarrow> pyval"
  and redact_header :: "pylib \<Rightarrow> redaction \<Rightarrow> pyval \<Rightarrow> pyval" where
  "redact_value lib rd parent_key (PDict kvs) =
     PDict (map (\<lambda>kv. (fst kv,
       if normalize_sensitive_name (fst kv) \<in> set (rd_fields rd) then PStr (rd_value rd)
       else redact_value lib rd (Some (normalize_sensitive_name (fst kv))) (snd kv))) kvs)"
| "redact_value lib rd parent_key (PList xs) =
     PList (map (\<lambda>x. if parent_key = Some ''headers'' then redact_header lib rd x
                     else redact_value lib rd parent_key x) xs)"
| "redact_value lib rd parent_key v = v"
| "redact_header lib rd (PDict kvs) =
     (if header_key lib kvs \<notin> set (rd_headers rd)
      then PDict (map (\<lambda>kv. (fst kv,
             redact_value lib (rd\<lparr>rd_fields := []\<rparr>) (Some (normalize_sensitive_name (fst kv))) (snd kv))) kvs)
      else PDict (AList.update ''value'' (redacted_header_value (rd_value rd)) kvs))"
| "redact_header lib rd v = v"

section \<open>The policy\<close>

text \<open>
  What an encryptor or decryptor object returns: bytes, a string, or some other object, of which only
  \<open>str\<close> is used. Bytes are character sequences too; \<open>sc_utf8_encode\<close> and \<open>sc_utf8_decode\<close> convert.
\<close>

datatype cipher_out = OutBytes string | OutStr string | OutOther string

record cipher =
  ci_encrypt :: "string \<Rightarrow> exn + cipher_out"
  ci_decrypt :: "string \<Rightarrow> exn + cipher_out"

record std_codec =
  sc_json_dumps :: "pyval \<Rightarrow> string"
  sc_json_loads :: "string \<Rightarrow> exn + pyval"
  sc_utf8_encode :: "string \<Rightarrow> string"
  sc_utf8_decode :: "string \<Rightarrow> exn + string"
  sc_b64encode :: "string \<Rightarrow> string"
  sc_b64decode :: "string \<Rightarrow> exn + string"

record DLQPayloadPolicy =
  pp_mode :: string
  pp_redact_fields :: "string list"
  pp_redact_headers :: "string list"
  pp_redacted_value :: string
  pp_include_common_sensitive_names :: bool
  pp_encryptor :: "cipher option"
  pp_decryptor :: "cipher option"
  pp_encryption_algorithm :: string
  pp_encryption_key_id :: "string option"

definition policy_modes :: "string list" where
  "policy_modes = [''raw'', ''redacted'', ''encrypted'']"

text \<open>\<open>__post_init__\<close>, and the three named constructors.\<close>

definition make_policy :: "DLQPayloadPolicy \<Rightarrow> exn + DLQPayloadPolicy" where
  "make_policy p =
     (if pp_mode p \<notin> set policy_modes
      then Inl (mk_exn ValueErrorC ''DLQPayloadPolicy mode must be 'raw', 'redacted', or 'encrypted'.'')
      else if pp_mode p = ''encrypted'' \<and> pp_encryptor p = None
      then Inl (mk_exn ValueErrorC ''DLQPayloadPolicy mode='encrypted' requires an encryptor.'')
      else Inr (p\<lparr>pp_redact_fields := map normalize_sensitive_name (pp_redact_fields p),
                  pp_redact_headers := map normalize_sensitive_name (pp_redact_headers p)\<rparr>))"

definition default_policy :: DLQPayloadPolicy where
  "default_policy =
     \<lparr>pp_mode = ''raw'', pp_redact_fields = [], pp_redact_headers = [],
      pp_redacted_value = ''[REDACTED]'', pp_include_common_sensitive_names = True,
      pp_encryptor = None, pp_decryptor = None, pp_encryption_algorithm = ''user'',
      pp_encryption_key_id = None\<rparr>"

definition policy_raw :: "exn + DLQPayloadPolicy" where
  "policy_raw = make_policy default_policy"

definition policy_redacted :: "string list \<Rightarrow> string list \<Rightarrow> string \<Rightarrow> bool \<Rightarrow> exn + DLQPayloadPolicy" where
  "policy_redacted redact_fields redact_headers redacted_value include_common =
     make_policy (default_policy\<lparr>pp_mode := ''redacted'', pp_redact_fields := redact_fields,
       pp_redact_headers := redact_headers, pp_redacted_value := redacted_value,
       pp_include_common_sensitive_names := include_common\<rparr>)"

definition policy_encrypted ::
    "cipher \<Rightarrow> cipher option \<Rightarrow> string \<Rightarrow> string option \<Rightarrow> exn + DLQPayloadPolicy" where
  "policy_encrypted encryptor decryptor algorithm key_id =
     make_policy (default_policy\<lparr>pp_mode := ''encrypted'', pp_encryptor := Some encryptor,
       pp_decryptor := decryptor, pp_encryption_algorithm := algorithm, pp_encryption_key_id := key_id\<rparr>)"

definition policy_redaction :: "DLQPayloadPolicy \<Rightarrow> redaction" where
  "policy_redaction p =
     \<lparr>rd_fields = pp_redact_fields p @ (if pp_include_common_sensitive_names p then common_sensitive_fields else []),
      rd_headers = pp_redact_headers p @ (if pp_include_common_sensitive_names p then common_sensitive_headers else []),
      rd_value = pp_redacted_value p\<rparr>"

definition policy_apply :: "pylib \<Rightarrow> DLQPayloadPolicy \<Rightarrow> pyval \<Rightarrow> pyval" where
  "policy_apply lib p payload =
     (if pp_mode p \<in> {''raw'', ''encrypted''} then payload
      else redact_value lib (policy_redaction p) None payload)"

text \<open>The bytes an encryptor's result stands for; a result that is neither bytes nor a string is refused.\<close>

definition encrypted_bytes :: "std_codec \<Rightarrow> cipher_out \<Rightarrow> exn + string" where
  "encrypted_bytes sc out = (case out of
       OutBytes b \<Rightarrow> Inr b
     | OutStr s \<Rightarrow> Inr (sc_utf8_encode sc s)
     | OutOther _ \<Rightarrow> Inl (mk_exn TypeErrorC ''DLQ payload encryptor must return bytes or str.''))"

definition encrypt_payload :: "std_codec \<Rightarrow> DLQPayloadPolicy \<Rightarrow> pyval \<Rightarrow> exn + (string \<times> pyval) list" where
  "encrypt_payload sc p payload =
     (if pp_mode p \<noteq> ''encrypted''
      then Inl (mk_exn ValueErrorC ''DLQPayloadPolicy.encrypt_payload requires mode='encrypted'.'')
      else case pp_encryptor p of
        None \<Rightarrow> Inl (mk_exn ValueErrorC ''DLQPayloadPolicy mode='encrypted' requires an encryptor.'')
      | Some c \<Rightarrow>
          res_bind (ci_encrypt c (sc_utf8_encode sc (sc_json_dumps sc payload))) (\<lambda>out.
          res_bind (encrypted_bytes sc out) (\<lambda>encrypted.
          Inr ([(''payload_encoding'', PStr ''encrypted''),
                (''payload_algorithm'', PStr (pp_encryption_algorithm p)),
                (''payload_ciphertext'', PStr (sc_b64encode sc encrypted))] @
               (case pp_encryption_key_id p of None \<Rightarrow> [] | Some k \<Rightarrow> [(''payload_key_id'', PStr k)])))))"

definition decoded_text :: "std_codec \<Rightarrow> cipher_out \<Rightarrow> exn + string" where
  "decoded_text sc out = (case out of
       OutBytes b \<Rightarrow> sc_utf8_decode sc b
     | OutStr s \<Rightarrow> Inr s
     | OutOther s \<Rightarrow> Inr s)"

definition decrypt_payload ::
    "pylib \<Rightarrow> std_codec \<Rightarrow> DLQPayloadPolicy \<Rightarrow> (string \<times> pyval) list \<Rightarrow> exn + pyval" where
  "decrypt_payload lib sc p kvs =
     (if pp_mode p \<noteq> ''encrypted''
      then Inl (mk_exn ValueErrorC ''Encrypted DLQ payload requires mode='encrypted' policy.'')
      else case (case pp_decryptor p of Some d \<Rightarrow> Some d | None \<Rightarrow> pp_encryptor p) of
        None \<Rightarrow> Inl (mk_exn ValueErrorC ''Encrypted DLQ payload requires a decryptor.'')
      | Some c \<Rightarrow> (case dict_get kvs ''payload_ciphertext'' of
          None \<Rightarrow> Inl (mk_exn KeyErrorC ''payload_ciphertext'')
        | Some v \<Rightarrow>
            res_bind (sc_b64decode sc (py_str lib v)) (\<lambda>ciphertext.
            res_bind (ci_decrypt c ciphertext) (\<lambda>plaintext.
            res_bind (decoded_text sc plaintext) (sc_json_loads sc)))))"

section \<open>What a redacted payload reveals\<close>












definition demo_lib :: pylib where
  "demo_lib = \<lparr>lib_repr = (\<lambda>_. ''?''), lib_int_of_str = (\<lambda>_. None), lib_iso_ok = (\<lambda>_. True)\<rparr>"


definition demo_policy :: DLQPayloadPolicy where
  "demo_policy = default_policy\<lparr>pp_mode := ''redacted'', pp_redact_fields := [''password''],
     pp_redact_headers := [''cookie''], pp_include_common_sensitive_names := False\<rparr>"


text \<open>
  Two places where sensitive names are not covered: a field inside the value of a harmless header, and
  a header name used as the key of a \<open>headers\<close> dict.
\<close>

lemma redaction_gaps:
  "let leaky = PDict [(''headers'', PList [PDict [(''key'', PStr ''trace''),
                        (''value'', PDict [(''password'', PStr ''hunter2'')])]])];
       dictly = PDict [(''headers'', PDict [(''cookie'', PStr ''sid'')])]
   in policy_apply demo_lib demo_policy leaky = leaky \<and> policy_apply demo_lib demo_policy dictly = dictly"
  by code_simp

section \<open>The encrypted envelope\<close>

text \<open>
  An encrypted payload comes back. Suppose the standard codecs invert each other on this payload's
  JSON text and on what the encryptor produced, and the object that decrypts (the decryptor, or the
  encryptor when there is none) undoes the encryption. Then a payload the policy encrypts is decrypted
  by the same policy to a payload equal to it (the keys may come back in another order).
\<close>

theorem encrypted_payload_round_trip:
  assumes policy: "policy_encrypted c d algorithm key_id = Inr p"
    and enc: "ci_encrypt c (sc_utf8_encode sc (sc_json_dumps sc payload)) = Inr out"
    and bytes: "encrypted_bytes sc out = Inr b"
    and dec: "ci_decrypt (case d of None \<Rightarrow> c | Some d' \<Rightarrow> d') b =
              Inr (OutBytes (sc_utf8_encode sc (sc_json_dumps sc payload)))"
    and utf8: "\<And>s. sc_utf8_decode sc (sc_utf8_encode sc s) = Inr s"
    and b64: "\<And>s. sc_b64decode sc (sc_b64encode sc s) = Inr s"
    and json: "sc_json_loads sc (sc_json_dumps sc payload) = Inr w" and "py_eq w payload"
  shows "\<exists>w. res_bind (encrypt_payload sc p payload) (decrypt_payload lib sc p) = Inr w \<and> py_eq w payload"
proof -
  have p: "p = default_policy\<lparr>pp_mode := ''encrypted'', pp_encryptor := Some c, pp_decryptor := d,
      pp_encryption_algorithm := algorithm, pp_encryption_key_id := key_id\<rparr>"
    using policy by (auto simp: policy_encrypted_def make_policy_def default_policy_def policy_modes_def)
  show ?thesis
    using enc bytes dec utf8 b64 json assms(8)
    by (cases d) (auto simp: p encrypt_payload_def decrypt_payload_def dict_get_def py_str_def decoded_text_def)
qed

definition demo_cipher :: cipher where
  "demo_cipher = \<lparr>ci_encrypt = (\<lambda>s. Inr (OutBytes (rev s))), ci_decrypt = (\<lambda>s. Inr (OutBytes (rev s)))\<rparr>"

definition demo_codec :: std_codec where
  "demo_codec = \<lparr>sc_json_dumps = (\<lambda>_. ''{}''), sc_json_loads = (\<lambda>_. Inr (PDict [])),
     sc_utf8_encode = id, sc_utf8_decode = Inr, sc_b64encode = id, sc_b64decode = Inr\<rparr>"

theorem encrypted_payload_round_trip_witness:
  "\<exists>p. policy_encrypted demo_cipher None ''rev'' None = Inr p \<and>
     (\<exists>w. res_bind (encrypt_payload demo_codec p (PDict [])) (decrypt_payload demo_lib demo_codec p) = Inr w \<and>
          py_eq w (PDict []))"
proof -
  obtain p where p: "policy_encrypted demo_cipher None ''rev'' None = Inr p"
    by (simp add: policy_encrypted_def make_policy_def default_policy_def policy_modes_def)
  have "\<exists>w. res_bind (encrypt_payload demo_codec p (PDict [])) (decrypt_payload demo_lib demo_codec p) = Inr w \<and>
      py_eq w (PDict [])"
    by (rule encrypted_payload_round_trip [OF p, where out = "OutBytes ''}{''" and b = "''}{''" and w = "PDict []"])
      (simp_all add: demo_cipher_def demo_codec_def encrypted_bytes_def)
  with p show ?thesis by blast
qed

end
