(* ===== verification/Data_Plane.thy ===== *)
theory Data_Plane
  imports Failures
begin

text \<open>
  The data-plane vocabulary (\<^verbatim>\<open>core/data_plane.py\<close>), the capabilities a sink advertises
  (\<^verbatim>\<open>core/sink/_support.py\<close>, \<open>BaseSink.sink_capabilities\<close> in \<^verbatim>\<open>core/sink/base.py\<close>) and the plane a source
  emits (\<^verbatim>\<open>core/source/_data_plane.py\<close>, \<open>is_batch_capable_source\<close> in \<^verbatim>\<open>core/batch.py\<close>).

  What Python reads from an object with \<open>getattr\<close>, \<open>callable\<close> and \<open>isinstance\<close> is a field of the record
  that stands for the object.
\<close>

section \<open>Planes\<close>

datatype DataPlane = PYTHON_ROWS | PYTHON_BATCHES | ARROW_BATCHES

fun plane_value :: "DataPlane \<Rightarrow> string" where
  "plane_value PYTHON_ROWS = ''python_rows''"
| "plane_value PYTHON_BATCHES = ''python_batches''"
| "plane_value ARROW_BATCHES = ''arrow_batches''"

text \<open>The loop carries the planes seen so far.\<close>

fun unique_planes :: "DataPlane list \<Rightarrow> DataPlane list \<Rightarrow> DataPlane list" where
  "unique_planes [] seen = []"
| "unique_planes (p # ps) seen =
     (if p \<in> set seen then unique_planes ps seen else p # unique_planes ps (p # seen))"

definition ordered_unique_planes :: "DataPlane list \<Rightarrow> DataPlane list" where
  "ordered_unique_planes planes = unique_planes planes []"

record SourceDataPlaneSpec =
  sds_source_name :: string
  sds_emitted_plane :: DataPlane
  sds_supports_batch_emit :: bool
  sds_emits_arrow_batches :: bool

record SinkDataPlaneSpec =
  sps_sink_name :: string
  sps_accepted_planes :: "DataPlane list"
  sps_native_planes :: "DataPlane list"

definition selected_plane_for :: "SinkDataPlaneSpec \<Rightarrow> DataPlane \<Rightarrow> DataPlane" where
  "selected_plane_for spec upstream =
     (if upstream \<in> set (sps_native_planes spec) then upstream
      else if upstream = ARROW_BATCHES \<and> PYTHON_BATCHES \<in> set (sps_native_planes spec) then PYTHON_BATCHES
      else PYTHON_ROWS)"

definition downgraded_from :: "SinkDataPlaneSpec \<Rightarrow> DataPlane \<Rightarrow> bool" where
  "downgraded_from spec upstream = (selected_plane_for spec upstream \<noteq> upstream)"

section \<open>Sink capabilities\<close>

record SinkCapabilities =
  sc_batch_writable_native :: bool
  sc_arrow_passthrough_native :: bool
  sc_parallel_writes_safe :: bool
  sc_ordered_writes_required :: bool
  sc_accepted_data_planes :: "DataPlane list"
  sc_native_data_planes :: "DataPlane list"

definition default_sink_data_planes :: "bool \<Rightarrow> bool \<Rightarrow> DataPlane list \<times> DataPlane list" where
  "default_sink_data_planes batch_native arrow_native =
     (let planes = [PYTHON_ROWS] @ (if batch_native then [PYTHON_BATCHES] else [])
                   @ (if arrow_native then [ARROW_BATCHES] else [])
      in (ordered_unique_planes planes, ordered_unique_planes planes))"

definition normalized_sink_capabilities :: "SinkCapabilities \<Rightarrow> bool \<Rightarrow> bool \<Rightarrow> SinkCapabilities" where
  "normalized_sink_capabilities cap batch_native arrow_native =
     (let (acc, nat) = default_sink_data_planes batch_native arrow_native;
          accepted = (if sc_accepted_data_planes cap \<noteq> [] then sc_accepted_data_planes cap else acc);
          native = (if sc_native_data_planes cap \<noteq> [] then sc_native_data_planes cap else nat)
      in cap\<lparr>sc_batch_writable_native := batch_native \<or> PYTHON_BATCHES \<in> set native,
             sc_arrow_passthrough_native := arrow_native \<or> ARROW_BATCHES \<in> set native,
             sc_accepted_data_planes := accepted,
             sc_native_data_planes := native\<rparr>)"

text \<open>
  A sink object as the capability helpers see it. \<open>st_advertised\<close> is what calling its
  \<open>sink_capabilities()\<close> gives, when it has such a method: an exception, an object that is no
  \<open>SinkCapabilities\<close> (\<open>None\<close>), or one that is.
\<close>

record SinkTarget =
  st_type_name :: string
  st_sink_name :: "string option"
  st_advertised :: "(exn + SinkCapabilities option) option"
  st_is_BaseSink :: bool
  st_batch_writable_native :: bool
  st_arrow_passthrough_native :: bool
  st_parallel_writes_safe :: bool
  st_ordered_writes_required :: bool
  st_accepted_data_planes :: "DataPlane list"
  st_native_data_planes :: "DataPlane list"
  st_has_write_batch :: bool
  st_overrides_write_batch :: bool
  st_has_write_arrow_batch :: bool

definition legacy_sink_flag_error :: "SinkTarget \<Rightarrow> exn" where
  "legacy_sink_flag_error t = mk_exn TypeErrorC
     (st_type_name t @ '' still uses legacy sink data-plane bool flags. '' @
      ''In 0.4.0, declare accepted_data_planes/native_data_planes explicitly.'')"

text \<open>\<open>BaseSink.sink_capabilities\<close>, which a sink class inherits unless it defines its own.\<close>

definition base_sink_capabilities :: "SinkTarget \<Rightarrow> exn + SinkCapabilities" where
  "base_sink_capabilities t =
     (let undeclared = (st_accepted_data_planes t = [] \<and> st_native_data_planes t = []);
          batch = (if undeclared then st_batch_writable_native t
                   else PYTHON_BATCHES \<in> set (st_native_data_planes t));
          arrow = (if undeclared then st_arrow_passthrough_native t
                   else ARROW_BATCHES \<in> set (st_native_data_planes t))
      in if undeclared \<and> (batch \<or> arrow) then Inl (legacy_sink_flag_error t)
         else
           (let batch' = (batch \<or> st_overrides_write_batch t)
            in Inr (normalized_sink_capabilities
                 \<lparr>sc_batch_writable_native = batch', sc_arrow_passthrough_native = arrow,
                  sc_parallel_writes_safe = st_parallel_writes_safe t,
                  sc_ordered_writes_required = st_ordered_writes_required t,
                  sc_accepted_data_planes = st_accepted_data_planes t,
                  sc_native_data_planes = st_native_data_planes t\<rparr> batch' arrow)))"

text \<open>The three ways in which \<open>sink_capabilities\<close> treats an object that has no such method.\<close>

definition unadvertised_flags :: "SinkTarget \<Rightarrow> exn + bool \<times> bool \<times> bool \<times> bool" where
  "unadvertised_flags t =
     (let legacy = ((st_batch_writable_native t \<or> st_arrow_passthrough_native t) \<and>
                    st_accepted_data_planes t = [] \<and> st_native_data_planes t = [])
      in if st_is_BaseSink t then
           if legacy then Inl (legacy_sink_flag_error t)
           else Inr (st_batch_writable_native t \<or> st_overrides_write_batch t, st_arrow_passthrough_native t,
                     st_parallel_writes_safe t, st_ordered_writes_required t)
         else if st_has_write_batch t then Inr (True, st_has_write_arrow_batch t, False, True)
         else if legacy then Inl (legacy_sink_flag_error t)
         else Inr (st_batch_writable_native t, st_arrow_passthrough_native t \<or> st_has_write_arrow_batch t,
                   False, True))"

definition sink_capabilities :: "SinkTarget \<Rightarrow> exn + SinkCapabilities" where
  "sink_capabilities t =
     (case st_advertised t of
        Some (Inl e) \<Rightarrow> Inl e
      | Some (Inr None) \<Rightarrow> Inl (mk_exn TypeErrorC ''sink_capabilities() must return SinkCapabilities'')
      | Some (Inr (Some v)) \<Rightarrow>
          if (sc_batch_writable_native v \<or> sc_arrow_passthrough_native v) \<and>
             sc_accepted_data_planes v = [] \<and> sc_native_data_planes v = []
          then Inl (legacy_sink_flag_error t)
          else Inr (normalized_sink_capabilities v
                 (sc_batch_writable_native v \<or> PYTHON_BATCHES \<in> set (sc_native_data_planes v))
                 (sc_arrow_passthrough_native v \<or> ARROW_BATCHES \<in> set (sc_native_data_planes v) \<or>
                  st_has_write_arrow_batch t))
      | None \<Rightarrow>
          res_bind (unadvertised_flags t) (\<lambda>(batch, arrow, parallel, ordered).
          Inr (normalized_sink_capabilities
                 \<lparr>sc_batch_writable_native = batch, sc_arrow_passthrough_native = arrow,
                  sc_parallel_writes_safe = parallel, sc_ordered_writes_required = ordered,
                  sc_accepted_data_planes = st_accepted_data_planes t,
                  sc_native_data_planes = st_native_data_planes t\<rparr> batch arrow)))"

definition target_name :: "SinkTarget \<Rightarrow> string" where
  "target_name t = (case st_sink_name t of None \<Rightarrow> st_type_name t | Some n \<Rightarrow> n)"

definition sink_data_plane_spec :: "SinkTarget \<Rightarrow> exn + SinkDataPlaneSpec" where
  "sink_data_plane_spec t = res_bind (sink_capabilities t) (\<lambda>cap.
     Inr \<lparr>sps_sink_name = target_name t, sps_accepted_planes = sc_accepted_data_planes cap,
          sps_native_planes = sc_native_data_planes cap\<rparr>)"

text \<open>An instance of a \<open>BaseSink\<close> subclass that keeps the inherited method.\<close>

definition inherits_capabilities :: "SinkTarget \<Rightarrow> bool" where
  "inherits_capabilities t =
     (st_is_BaseSink t \<and> st_advertised t = Some (map_sum id Some (base_sink_capabilities t)))"

section \<open>Source planes\<close>

record SourceTarget =
  so_type_name :: string
  so_source_name :: "string option"
  so_data_plane_spec :: "(exn + SourceDataPlaneSpec option) option"
  so_supports_batch_emit :: bool
  so_emits_arrow_batches :: bool
  so_has_stream_batches :: bool
  so_has_current_checkpoint :: bool

definition default_source_data_plane_spec :: "SourceTarget \<Rightarrow> exn + SourceDataPlaneSpec" where
  "default_source_data_plane_spec s =
     (if so_supports_batch_emit s \<or> so_emits_arrow_batches s
      then Inl (mk_exn TypeErrorC (so_type_name s @ '' still uses legacy source data-plane bool flags. '' @
             ''In 0.4.0, implement data_plane_spec() returning SourceDataPlaneSpec.''))
      else Inr \<lparr>sds_source_name = (case so_source_name s of None \<Rightarrow> so_type_name s | Some n \<Rightarrow> n),
                sds_emitted_plane = PYTHON_ROWS, sds_supports_batch_emit = False,
                sds_emits_arrow_batches = False\<rparr>)"

definition validated_source_data_plane_spec :: "SourceDataPlaneSpec option \<Rightarrow> exn + SourceDataPlaneSpec" where
  "validated_source_data_plane_spec spec = (case spec of
       None \<Rightarrow> Inl (mk_exn TypeErrorC ''data_plane_spec() must return SourceDataPlaneSpec'')
     | Some s \<Rightarrow> Inr s)"

text \<open>A \<open>BaseSource\<close> and a source that merely has the method are treated alike.\<close>

definition source_data_plane_spec :: "SourceTarget \<Rightarrow> exn + SourceDataPlaneSpec" where
  "source_data_plane_spec s = (case so_data_plane_spec s of
       Some r \<Rightarrow> res_bind r validated_source_data_plane_spec
     | None \<Rightarrow> default_source_data_plane_spec s)"

definition is_batch_capable_source :: "SourceTarget \<Rightarrow> exn + bool" where
  "is_batch_capable_source s =
     (if so_has_stream_batches s \<and> so_has_current_checkpoint s
      then res_bind (source_data_plane_spec s) (\<lambda>spec. Inr (sds_emitted_plane spec \<noteq> PYTHON_ROWS))
      else Inr False)"

section \<open>What a capability report says\<close>

lemma unique_planes_props:
  "distinct (unique_planes ps seen) \<and> set (unique_planes ps seen) = set ps - set seen"
  by (induction ps seen rule: unique_planes.induct) auto

lemma ordered_unique_planes_props [simp]:
  "distinct (ordered_unique_planes ps)" "set (ordered_unique_planes ps) = set ps"
  using unique_planes_props [of ps "[]"] by (auto simp: ordered_unique_planes_def)

lemma ordered_unique_planes_Nil [simp]: "ordered_unique_planes ps = [] \<longleftrightarrow> ps = []"
  by (cases ps) (auto simp: ordered_unique_planes_def)

lemma normalized_coherent:
  "PYTHON_BATCHES \<in> set (sc_native_data_planes (normalized_sink_capabilities cap b a)) \<Longrightarrow>
     sc_batch_writable_native (normalized_sink_capabilities cap b a)"
  "ARROW_BATCHES \<in> set (sc_native_data_planes (normalized_sink_capabilities cap b a)) \<Longrightarrow>
     sc_arrow_passthrough_native (normalized_sink_capabilities cap b a)"
  "sc_native_data_planes (normalized_sink_capabilities cap b a) \<noteq> []"
  "sc_accepted_data_planes (normalized_sink_capabilities cap b a) \<noteq> []"
  by (auto simp: normalized_sink_capabilities_def default_sink_data_planes_def Let_def)

text \<open>Every successful report is a normalized one, so the flags never lag behind the planes.\<close>

lemma sink_capabilities_coherent:
  assumes "sink_capabilities t = Inr cap"
  shows "sc_native_data_planes cap \<noteq> [] \<and>
    (PYTHON_BATCHES \<in> set (sc_native_data_planes cap) \<longrightarrow> sc_batch_writable_native cap) \<and>
    (ARROW_BATCHES \<in> set (sc_native_data_planes cap) \<longrightarrow> sc_arrow_passthrough_native cap)"
  using assms
  by (auto simp: sink_capabilities_def res_bind_eq_Inr normalized_coherent split: option.splits sum.splits if_splits)

lemma selected_plane_native:
  "selected_plane_for spec p \<in> set (sps_native_planes spec) \<or> selected_plane_for spec p = PYTHON_ROWS"
  by (simp add: selected_plane_for_def)

end
