(* ===== verification/Sink_Writers.thy ===== *)
theory Sink_Writers
  imports Run_State Data_Plane
begin

text \<open>
  \<^verbatim>\<open>core/sink/_writers.py\<close>: \<open>SinkFanOut\<close>, which writes each record to all of its sinks, and \<open>SinkRouter\<close>,
  which writes it to the first one that matches.

  A sink is an object with an identity (\<open>id\<close>) and a state of its own, of type \<open>'s\<close>; its methods act on
  that state only. The writers act on the states of all sinks, indexed by identity, and on their own
  \<open>_open_rolled_back\<close> flag.

  The concurrent modes start one task per call and gather their results by position. As the calls
  touch different sinks, an interleaving has the effect of the order in which the calls finish; that
  order is the writer's \<open>schedule\<close>, a parameter, which a semaphore restricts and never extends. Tasks that
  end the interpreter (\<open>KeyboardInterrupt\<close>, \<open>SystemExit\<close>) are outside the model.
\<close>

section \<open>Sinks and their states\<close>

datatype batch_return = BNone | BResults "WriteResult list" | BOther

record 's Sink =
  sk_id :: nat
  sk_target :: SinkTarget
  sk_flush_every :: "int option"
  sk_batch_size :: "int option"
  sk_open :: "(exn, 's, unit) comp"
  sk_write :: "pyobj \<Rightarrow> (exn, 's, unit) comp"
  sk_write_batch :: "pyobj list \<Rightarrow> (exn, 's, batch_return) comp"
  sk_write_arrow_batch :: "pyobj list \<Rightarrow> (exn, 's, unit) comp"
  sk_flush :: "(exn, 's, unit) comp"
  sk_close :: "(exn, 's, unit) comp"

record 's wstate =
  ws_sinks :: "nat \<Rightarrow> 's"
  ws_open_rolled_back :: bool

text \<open>A call on one sink.\<close>

definition on_sink :: "'s Sink \<Rightarrow> (exn, 's, 'a) comp \<Rightarrow> (exn, 's wstate, 'a) comp" where
  "on_sink k m = (\<lambda>w. case m (ws_sinks w (sk_id k)) of
     (r, s) \<Rightarrow> (r, w\<lparr>ws_sinks := (ws_sinks w)(sk_id k := s)\<rparr>))"

text \<open>\<open>try: ... except Exception as exc\<close>, with the outcome as a value.\<close>

definition try_exc :: "(exn, 'w, 'a) comp \<Rightarrow> (exn, 'w, exn + 'a) comp" where
  "try_exc m = bind (attempt m) (\<lambda>r. case r of
     Inl e \<Rightarrow> if is_Exception e then ret (Inl e) else throw e
   | Inr x \<Rightarrow> ret (Inr x))"

definition lift_res :: "exn + 'a \<Rightarrow> (exn, 'w, 'a) comp" where
  "lift_res r = (case r of Inl e \<Rightarrow> throw e | Inr x \<Rightarrow> ret x)"

section \<open>Concurrent calls\<close>

type_synonym schedule = "nat \<Rightarrow> nat list"

fun run_in_order :: "nat list \<Rightarrow> (nat \<Rightarrow> (exn, 'w, 'a) comp) \<Rightarrow> (exn, 'w, (nat \<times> (exn + 'a)) list) comp" where
  "run_in_order [] f = ret []"
| "run_in_order (i # is) f =
     bind (attempt (f i)) (\<lambda>r. bind (run_in_order is f) (\<lambda>rs. ret ((i, r) # rs)))"

text \<open>\<open>asyncio.gather(..., return_exceptions=True)\<close>.\<close>

definition gather_all :: "schedule \<Rightarrow> (exn, 'w, 'a) comp list \<Rightarrow> (exn, 'w, (exn + 'a) list) comp" where
  "gather_all sched calls =
     bind (run_in_order (sched (length calls)) (\<lambda>i. calls ! i)) (\<lambda>rs.
     ret (map (\<lambda>i. the (map_of rs i)) [0..<length calls]))"

text \<open>
  \<open>asyncio.gather(...)\<close>: the first exception to occur is raised, while the other calls run on.
\<close>

definition gather_raise :: "schedule \<Rightarrow> (exn, 'w, 'a) comp list \<Rightarrow> (exn, 'w, 'a list) comp" where
  "gather_raise sched calls =
     bind (run_in_order (sched (length calls)) (\<lambda>i. calls ! i)) (\<lambda>rs.
       case filter isl (map snd rs) of
         Inl e # _ \<Rightarrow> throw e
       | _ \<Rightarrow> ret (map (\<lambda>i. projr (the (map_of rs i))) [0..<length calls]))"

section \<open>Batch results\<close>

definition write_ok :: WriteResult where
  "write_ok = \<lparr>wr_written = True, wr_errors = []\<rparr>"

definition write_failed :: "exn \<Rightarrow> WriteResult" where
  "write_failed e = \<lparr>wr_written = False, wr_errors = [e]\<rparr>"

definition normalize_batch_write_results :: "batch_return \<Rightarrow> nat \<Rightarrow> exn + WriteResult list" where
  "normalize_batch_write_results result expected = (case result of
       BNone \<Rightarrow> Inr (replicate expected write_ok)
     | BResults ws \<Rightarrow>
         if length ws \<noteq> expected
         then Inl (mk_exn RuntimeErrorC ''Sink.write_batch() must return one WriteResult per input record.'')
         else Inr ws
     | BOther \<Rightarrow> Inl (mk_exn RuntimeErrorC
         ''Sink.write_batch() must return None or a list[WriteResult] matching the input batch.''))"

text \<open>
  What one sink's batch write gives back: one \<open>WriteResult\<close> per record, one optional error per record,
  or nothing.
\<close>

datatype sink_result = SRResults "WriteResult list" | SRErrors "exn option list" | SRNone

definition merge_one :: "bool \<times> exn list \<Rightarrow> WriteResult \<Rightarrow> bool \<times> exn list" where
  "merge_one fe w = (fst fe \<or> wr_written w, snd fe @ wr_errors w)"

definition merge_error :: "bool \<times> exn list \<Rightarrow> exn option \<Rightarrow> bool \<times> exn list" where
  "merge_error fe e = (case e of None \<Rightarrow> (True, snd fe) | Some x \<Rightarrow> (fst fe, snd fe @ [x]))"

text \<open>The loop over the results: \<open>written_flags\<close> and \<open>errors_by_record\<close> side by side.\<close>

fun merge_result :: "(bool \<times> exn list) list \<Rightarrow> exn + sink_result \<Rightarrow> (bool \<times> exn list) list" where
  "merge_result acc (Inl e) =
     (if is_Exception e then map (\<lambda>fe. (fst fe, snd fe @ [e])) acc else map (\<lambda>fe. (True, snd fe)) acc)"
| "merge_result acc (Inr (SRResults ws)) = map2 merge_one acc ws"
| "merge_result acc (Inr (SRErrors es)) = map2 merge_error acc es"
| "merge_result acc (Inr SRNone) = map (\<lambda>fe. (True, snd fe)) acc"

definition to_result :: "bool \<times> exn list \<Rightarrow> WriteResult" where
  "to_result fe = \<lparr>wr_written = fst fe, wr_errors = snd fe\<rparr>"

text \<open>The first error that a result carries, which the Arrow paths raise.\<close>

definition first_error :: "sink_result \<Rightarrow> exn option" where
  "first_error r = (case r of
       SRResults ws \<Rightarrow> (case concat (map wr_errors ws) of [] \<Rightarrow> None | e # _ \<Rightarrow> Some e)
     | SRErrors es \<Rightarrow> (case List.map_filter id es of [] \<Rightarrow> None | e # _ \<Rightarrow> Some e)
     | SRNone \<Rightarrow> None)"

section \<open>SinkFanOut\<close>

text \<open>\<open>_sinks\<close> and \<open>_sink_capabilities\<close> are lists of the same length, kept here as pairs.\<close>

record 's SinkFanOut =
  fo_sinks :: "('s Sink \<times> SinkCapabilities) list"
  fo_concurrent_writes :: bool
  fo_max_concurrency :: "int option"
  fo_schedule :: schedule

definition new_SinkFanOut :: "'s Sink list \<Rightarrow> bool \<Rightarrow> int option \<Rightarrow> schedule \<Rightarrow> exn + 's SinkFanOut" where
  "new_SinkFanOut sinks concurrent max_concurrency sched =
     (if sinks = [] then Inl (mk_exn ValueErrorC ''SinkFanOut requires at least one sink'')
      else res_bind (res_map (\<lambda>k. sink_capabilities (sk_target k)) sinks) (\<lambda>caps.
        Inr \<lparr>fo_sinks = zip sinks caps, fo_concurrent_writes = concurrent,
             fo_max_concurrency = max_concurrency, fo_schedule = sched\<rparr>))"

definition with_concurrency :: "'s SinkFanOut \<Rightarrow> int option \<Rightarrow> exn + 's SinkFanOut" where
  "with_concurrency F max_concurrency =
     new_SinkFanOut (map fst (fo_sinks F)) True max_concurrency (fo_schedule F)"

definition sink_batch_writable :: "'s Sink \<times> SinkCapabilities \<Rightarrow> bool" where
  "sink_batch_writable kc = (sc_batch_writable_native (snd kc) \<and> st_has_write_batch (sk_target (fst kc)))"

definition sink_arrow_writable :: "'s Sink \<times> SinkCapabilities \<Rightarrow> bool" where
  "sink_arrow_writable kc = st_has_write_arrow_batch (sk_target (fst kc))"

definition arrow_fallback_chunk_size :: "'s Sink \<Rightarrow> nat" where
  "arrow_fallback_chunk_size k =
     (case List.map_filter (\<lambda>v. case v of Some n \<Rightarrow> if n > 0 then Some n else None | None \<Rightarrow> None)
             [sk_flush_every k, sk_batch_size k] of
        [] \<Rightarrow> 1000
      | n # _ \<Rightarrow> nat n)"

definition run_sink_calls ::
    "'s SinkFanOut \<Rightarrow> (exn, 'w, 'a) comp list \<Rightarrow> (exn, 'w, (exn + 'a) list) comp" where
  "run_sink_calls F calls =
     (if fo_max_concurrency F = Some 1 then map_m try_exc calls
      else gather_all (fo_schedule F) calls)"

fun raise_first_exception :: "(exn + 'a) list \<Rightarrow> (exn, 'w, unit) comp" where
  "raise_first_exception [] = skip"
| "raise_first_exception (r # rs) = (case r of
     Inl e \<Rightarrow> if is_Exception e then throw e else raise_first_exception rs
   | Inr _ \<Rightarrow> raise_first_exception rs)"

text \<open>One record written to one sink, the error kept.\<close>

definition try_write :: "'s Sink \<Rightarrow> pyobj \<Rightarrow> (exn, 's, exn option) comp" where
  "try_write k r = bind (try_exc (sk_write k r)) (\<lambda>x.
     ret (case x of Inl e \<Rightarrow> Some e | Inr _ \<Rightarrow> None))"

definition write_batch_to_sink ::
    "'s SinkFanOut \<Rightarrow> 's Sink \<times> SinkCapabilities \<Rightarrow> pyobj list \<Rightarrow> (exn, 's, sink_result) comp" where
  "write_batch_to_sink F kc records =
     (if sink_batch_writable kc then
        bind (sk_write_batch (fst kc) records) (\<lambda>b.
        bind (lift_res (normalize_batch_write_results b (length records))) (\<lambda>ws. ret (SRResults ws)))
      else if fo_concurrent_writes F \<and> sc_parallel_writes_safe (snd kc) \<and>
              \<not> sc_ordered_writes_required (snd kc) then
        bind (gather_raise (fo_schedule F) (map (try_write (fst kc)) records)) (\<lambda>es. ret (SRErrors es))
      else bind (map_m (try_write (fst kc)) records) (\<lambda>es. ret (SRErrors es)))"

subsection \<open>Opening\<close>

fun close_loop :: "'s Sink list \<Rightarrow> exn option \<Rightarrow> (exn, 's wstate, exn option) comp" where
  "close_loop [] first = ret first"
| "close_loop (k # ks) first =
     bind (try_exc (on_sink k (sk_close k))) (\<lambda>r. case r of
       Inr _ \<Rightarrow> close_loop ks first
     | Inl e \<Rightarrow> close_loop ks (if first = None then Some e else first))"

definition close_opened_sinks :: "'s Sink list \<Rightarrow> (exn, 's wstate, unit) comp" where
  "close_opened_sinks sinks = bind (close_loop (rev sinks) None) (\<lambda>first.
     case first of None \<Rightarrow> skip | Some e \<Rightarrow> throw e)"

definition set_rolled_back :: "bool \<Rightarrow> (exn, 's wstate, unit) comp" where
  "set_rolled_back b = modify (\<lambda>w. w\<lparr>ws_open_rolled_back := b\<rparr>)"

text \<open>The sequential loop that \<open>SinkFanOut.open\<close> and \<open>SinkRouter.open\<close> share.\<close>

fun open_loop :: "'s Sink list \<Rightarrow> 's Sink list \<Rightarrow> (exn, 's wstate, unit) comp" where
  "open_loop opened [] = skip"
| "open_loop opened (k # ks) =
     bind (try_exc (on_sink k (sk_open k))) (\<lambda>r. case r of
       Inr _ \<Rightarrow> open_loop (opened @ [k]) ks
     | Inl e \<Rightarrow> bind (set_rolled_back True) (\<lambda>_. bind (close_opened_sinks opened) (\<lambda>_. throw e)))"

text \<open>The end of a concurrent \<open>open\<close>: if some calls failed, the sinks that did open are closed again.\<close>

definition opened_sinks :: "'s Sink list \<Rightarrow> (exn + unit) list \<Rightarrow> 's Sink list" where
  "opened_sinks sinks results =
     map fst (filter (\<lambda>kr. \<not> (case snd kr of Inl x \<Rightarrow> is_Exception x | Inr _ \<Rightarrow> False)) (zip sinks results))"

definition finish_open :: "'s Sink list \<Rightarrow> (exn + unit) list \<Rightarrow> (exn, 's wstate, unit) comp" where
  "finish_open sinks results =
     (case [e. Inl e \<leftarrow> results, is_Exception e] of
        [] \<Rightarrow> skip
      | e # _ \<Rightarrow>
          bind (set_rolled_back True) (\<lambda>_.
          bind (try_exc (close_opened_sinks (opened_sinks sinks results))) (\<lambda>_. throw e)))"

definition fo_open :: "'s SinkFanOut \<Rightarrow> (exn, 's wstate, unit) comp" where
  "fo_open F =
     (let sinks = map fst (fo_sinks F) in
      bind (set_rolled_back False) (\<lambda>_.
      if \<not> fo_concurrent_writes F then open_loop [] sinks
      else bind (run_sink_calls F (map (\<lambda>k. on_sink k (sk_open k)) sinks)) (finish_open sinks)))"

subsection \<open>Writing\<close>

definition sink_write_calls :: "'s SinkFanOut \<Rightarrow> pyobj \<Rightarrow> (exn, 's wstate, unit) comp list" where
  "sink_write_calls F r = map (\<lambda>kc. on_sink (fst kc) (sk_write (fst kc) r)) (fo_sinks F)"

definition fan_result :: "(exn + 'a) list \<Rightarrow> WriteResult" where
  "fan_result results =
     (let failed = (\<lambda>r. case r of Inl e \<Rightarrow> is_Exception e | Inr _ \<Rightarrow> False)
      in \<lparr>wr_written = filter (\<lambda>r. \<not> failed r) results \<noteq> [],
          wr_errors = [e. Inl e \<leftarrow> results, is_Exception e]\<rparr>)"

definition fo_write :: "'s SinkFanOut \<Rightarrow> pyobj \<Rightarrow> (exn, 's wstate, WriteResult) comp" where
  "fo_write F r =
     (case fo_sinks F of
        [kc] \<Rightarrow>
          if \<not> fo_concurrent_writes F then
            bind (try_exc (on_sink (fst kc) (sk_write (fst kc) r))) (\<lambda>x.
              ret (case x of Inr _ \<Rightarrow> write_ok | Inl e \<Rightarrow> write_failed e))
          else bind (run_sink_calls F (sink_write_calls F r)) (\<lambda>results. ret (fan_result results))
      | _ \<Rightarrow>
          if \<not> fo_concurrent_writes F then
            bind (map_m try_exc (sink_write_calls F r)) (\<lambda>results. ret (fan_result results))
          else bind (run_sink_calls F (sink_write_calls F r)) (\<lambda>results. ret (fan_result results)))"

definition fo_write_batch_merged ::
    "'s SinkFanOut \<Rightarrow> pyobj list \<Rightarrow> (exn, 's wstate, WriteResult list) comp" where
  "fo_write_batch_merged F records =
     (let calls = map (\<lambda>kc. on_sink (fst kc) (write_batch_to_sink F kc records)) (fo_sinks F) in
      bind (if \<not> fo_concurrent_writes F then map_m try_exc calls else run_sink_calls F calls) (\<lambda>results.
      ret (map to_result (foldl merge_result (replicate (length records) (False, [])) results))))"

definition fo_write_batch ::
    "'s SinkFanOut \<Rightarrow> pyobj list \<Rightarrow> (exn, 's wstate, WriteResult list) comp" where
  "fo_write_batch F records =
     (if records = [] then ret []
      else case fo_sinks F of
        [kc] \<Rightarrow>
          if sink_batch_writable kc then
            bind (try_exc (on_sink (fst kc) (bind (sk_write_batch (fst kc) records) (\<lambda>b.
                    lift_res (normalize_batch_write_results b (length records)))))) (\<lambda>x.
              ret (case x of Inr ws \<Rightarrow> ws | Inl e \<Rightarrow> replicate (length records) (write_failed e)))
          else if \<not> fo_concurrent_writes F then
            map_m (\<lambda>r. bind (try_exc (on_sink (fst kc) (sk_write (fst kc) r))) (\<lambda>x.
              ret (case x of Inr _ \<Rightarrow> write_ok | Inl e \<Rightarrow> write_failed e))) records
          else fo_write_batch_merged F records
      | _ \<Rightarrow> fo_write_batch_merged F records)"

subsection \<open>Arrow batches\<close>

text \<open>The slices \<open>rows[start : start + size]\<close> for \<open>start\<close> in \<open>range(0, len(rows), size)\<close>.\<close>

function chunks_of :: "nat \<Rightarrow> 'a list \<Rightarrow> 'a list list" where
  "chunks_of n xs = (if xs = [] \<or> n = 0 then [] else take n xs # chunks_of n (drop n xs))"
  by pat_completeness auto
termination by (relation "measure (\<lambda>(n, xs). length xs)") auto

declare chunks_of.simps [simp del]

text \<open>Chunks are written until one of them reports an error.\<close>

fun write_chunks ::
    "'s SinkFanOut \<Rightarrow> 's Sink \<times> SinkCapabilities \<Rightarrow> pyobj list list \<Rightarrow> (exn, 's, exn option) comp" where
  "write_chunks F kc [] = ret None"
| "write_chunks F kc (c # cs) = bind (write_batch_to_sink F kc c) (\<lambda>result.
     case first_error result of None \<Rightarrow> write_chunks F kc cs | Some e \<Rightarrow> ret (Some e))"

text \<open>What one sink of a fan-out does with an Arrow batch, whose rows are \<open>rows\<close>.\<close>

definition arrow_to_sink ::
    "'s SinkFanOut \<Rightarrow> 's Sink \<times> SinkCapabilities \<Rightarrow> pyobj list \<Rightarrow> (exn, 's, exn option) comp" where
  "arrow_to_sink F kc rows =
     (if sink_arrow_writable kc then bind (sk_write_arrow_batch (fst kc) rows) (\<lambda>_. ret None)
      else
        (let chunk_size = arrow_fallback_chunk_size (fst kc)
         in if chunk_size \<ge> length rows
            then bind (write_batch_to_sink F kc rows) (\<lambda>result. ret (first_error result))
            else write_chunks F kc (chunks_of chunk_size rows)))"

fun raise_first_result :: "(exn + exn option) list \<Rightarrow> (exn, 'w, unit) comp" where
  "raise_first_result [] = skip"
| "raise_first_result (r # rs) = (case r of
     Inl e \<Rightarrow> if is_Exception e then throw e else raise_first_result rs
   | Inr None \<Rightarrow> raise_first_result rs
   | Inr (Some e) \<Rightarrow> throw e)"

definition fo_write_arrow_batch :: "'s SinkFanOut \<Rightarrow> pyobj list \<Rightarrow> (exn, 's wstate, unit) comp" where
  "fo_write_arrow_batch F rows =
     (let calls = map (\<lambda>kc. on_sink (fst kc) (arrow_to_sink F kc rows)) (fo_sinks F)
      in case fo_sinks F of
        [kc] \<Rightarrow>
          if \<not> fo_concurrent_writes F then
            bind (on_sink (fst kc) (arrow_to_sink F kc rows)) (\<lambda>e. case e of None \<Rightarrow> skip | Some x \<Rightarrow> throw x)
          else bind (run_sink_calls F calls) raise_first_result
      | _ \<Rightarrow>
          if \<not> fo_concurrent_writes F then bind (map_m try_exc calls) raise_first_result
          else bind (run_sink_calls F calls) raise_first_result)"

subsection \<open>Flushing and closing\<close>

definition fo_all :: "('s Sink \<Rightarrow> (exn, 's, unit) comp) \<Rightarrow> 's SinkFanOut \<Rightarrow> (exn, 's wstate, unit) comp" where
  "fo_all op F =
     (let sinks = map fst (fo_sinks F) in
      if \<not> fo_concurrent_writes F then for_each sinks (\<lambda>k. on_sink k (op k))
      else bind (run_sink_calls F (map (\<lambda>k. on_sink k (op k)) sinks)) raise_first_exception)"

definition fo_flush :: "'s SinkFanOut \<Rightarrow> (exn, 's wstate, unit) comp" where
  "fo_flush F = fo_all sk_flush F"

definition fo_close :: "'s SinkFanOut \<Rightarrow> (exn, 's wstate, unit) comp" where
  "fo_close F = fo_all sk_close F"

section \<open>SinkRouter\<close>

record 's SinkRoute =
  rt_predicate :: "pyobj \<Rightarrow> exn + bool"
  rt_sink :: "'s Sink"

record 's SinkRouter =
  ro_routes :: "'s SinkRoute list"
  ro_default :: "'s Sink option"
  ro_schedule :: schedule

definition new_SinkRouter :: "schedule \<Rightarrow> 's SinkRouter" where
  "new_SinkRouter sched = \<lparr>ro_routes = [], ro_default = None, ro_schedule = sched\<rparr>"

definition ro_route :: "(pyobj \<Rightarrow> exn + bool) \<Rightarrow> 's Sink \<Rightarrow> 's SinkRouter \<Rightarrow> 's SinkRouter" where
  "ro_route predicate k R = R\<lparr>ro_routes := ro_routes R @ [\<lparr>rt_predicate = predicate, rt_sink = k\<rparr>]\<rparr>"

definition ro_set_default :: "'s Sink \<Rightarrow> 's SinkRouter \<Rightarrow> 's SinkRouter" where
  "ro_set_default k R = R\<lparr>ro_default := Some k\<rparr>"

fun unique_by_id :: "nat list \<Rightarrow> 's Sink list \<Rightarrow> 's Sink list" where
  "unique_by_id seen [] = []"
| "unique_by_id seen (k # ks) =
     (if sk_id k \<in> set seen then unique_by_id seen ks else k # unique_by_id (sk_id k # seen) ks)"

definition unique_sinks :: "'s SinkRouter \<Rightarrow> 's Sink list" where
  "unique_sinks R = unique_by_id [] (map rt_sink (ro_routes R) @
     (case ro_default R of None \<Rightarrow> [] | Some k \<Rightarrow> [k]))"

definition ro_open :: "'s SinkRouter \<Rightarrow> (exn, 's wstate, unit) comp" where
  "ro_open R = bind (set_rolled_back False) (\<lambda>_. open_loop [] (unique_sinks R))"

fun first_route :: "'s SinkRoute list \<Rightarrow> pyobj \<Rightarrow> exn + 's Sink option" where
  "first_route [] r = Inr None"
| "first_route (x # xs) r = res_bind (rt_predicate x r) (\<lambda>b.
     if b then Inr (Some (rt_sink x)) else first_route xs r)"

text \<open>The sink a record goes to: that of the first route that matches, else the default.\<close>

definition route_target :: "'s SinkRouter \<Rightarrow> pyobj \<Rightarrow> exn + 's Sink option" where
  "route_target R r = res_bind (first_route (ro_routes R) r) (\<lambda>t.
     Inr (case t of Some k \<Rightarrow> Some k | None \<Rightarrow> ro_default R))"

definition ro_write :: "'s SinkRouter \<Rightarrow> pyobj \<Rightarrow> (exn, 's wstate, WriteResult) comp" where
  "ro_write R r = bind (lift_res (route_target R r)) (\<lambda>t. case t of
     None \<Rightarrow> ret \<lparr>wr_written = False, wr_errors = []\<rparr>
   | Some k \<Rightarrow> bind (try_exc (on_sink k (sk_write k r))) (\<lambda>x.
       ret (case x of Inr _ \<Rightarrow> write_ok | Inl e \<Rightarrow> write_failed e)))"

text \<open>\<open>grouped\<close>: an insertion-ordered dict from sink identities to the records each sink gets.\<close>

type_synonym 's groups = "(nat \<times> 's Sink \<times> (nat \<times> pyobj) list) list"

definition add_to_group :: "'s Sink \<Rightarrow> nat \<times> pyobj \<Rightarrow> 's groups \<Rightarrow> 's groups" where
  "add_to_group k entry groups =
     (case map_of groups (sk_id k) of
        None \<Rightarrow> groups @ [(sk_id k, k, [entry])]
      | Some (k0, entries) \<Rightarrow> AList.update (sk_id k) (k0, entries @ [entry]) groups)"

fun group_records :: "'s SinkRouter \<Rightarrow> (nat \<times> pyobj) list \<Rightarrow> 's groups \<Rightarrow> exn + 's groups" where
  "group_records R [] groups = Inr groups"
| "group_records R ((i, r) # rs) groups = res_bind (route_target R r) (\<lambda>t. case t of
     None \<Rightarrow> group_records R rs groups
   | Some k \<Rightarrow> group_records R rs (add_to_group k (i, r) groups))"

text \<open>The outcome of one sink's records, by their positions in the batch.\<close>

definition write_group ::
    "'s SinkRouter \<Rightarrow> 's Sink \<Rightarrow> SinkCapabilities \<Rightarrow> pyobj list \<Rightarrow> (exn, 's, exn + sink_result) comp" where
  "write_group R k cap records =
     (if sink_batch_writable (k, cap) then
        try_exc (bind (sk_write_batch k records) (\<lambda>b.
          bind (lift_res (normalize_batch_write_results b (length records))) (\<lambda>ws. ret (SRResults ws))))
      else if sc_parallel_writes_safe cap \<and> \<not> sc_ordered_writes_required cap then
        bind (gather_raise (ro_schedule R) (map (try_write k) records)) (\<lambda>es. ret (Inr (SRErrors es)))
      else bind (map_m (try_write k) records) (\<lambda>es. ret (Inr (SRErrors es))))"

fun put_back :: "nat list \<Rightarrow> (bool \<times> exn list) list \<Rightarrow> (bool \<times> exn list) list \<Rightarrow> (bool \<times> exn list) list" where
  "put_back (i # is) (v # vs) acc = put_back is vs (acc[i := v])"
| "put_back _ _ acc = acc"

definition merge_group ::
    "(nat \<times> pyobj) list \<Rightarrow> exn + sink_result \<Rightarrow> (bool \<times> exn list) list \<Rightarrow> (bool \<times> exn list) list" where
  "merge_group entries result acc =
     (let is = map fst entries in put_back is (merge_result (map (\<lambda>i. acc ! i) is) result) acc)"

fun write_groups ::
    "'s SinkRouter \<Rightarrow> 's groups \<Rightarrow> (bool \<times> exn list) list \<Rightarrow> (exn, 's wstate, (bool \<times> exn list) list) comp" where
  "write_groups R [] acc = ret acc"
| "write_groups R ((i, k, entries) # gs) acc =
     bind (lift_res (sink_capabilities (sk_target k))) (\<lambda>cap.
     bind (on_sink k (write_group R k cap (map snd entries))) (\<lambda>result.
     write_groups R gs (merge_group entries result acc)))"

definition ro_write_batch :: "'s SinkRouter \<Rightarrow> pyobj list \<Rightarrow> (exn, 's wstate, WriteResult list) comp" where
  "ro_write_batch R records =
     (if records = [] then ret []
      else
        bind (lift_res (group_records R (zip [0..<length records] records) [])) (\<lambda>groups.
        bind (write_groups R groups (replicate (length records) (False, []))) (\<lambda>acc.
        ret (map to_result acc))))"

definition ro_flush :: "'s SinkRouter \<Rightarrow> (exn, 's wstate, unit) comp" where
  "ro_flush R = for_each (unique_sinks R) (\<lambda>k. on_sink k (sk_flush k))"

definition ro_close :: "'s SinkRouter \<Rightarrow> (exn, 's wstate, unit) comp" where
  "ro_close R = for_each (unique_sinks R) (\<lambda>k. on_sink k (sk_close k))"

end
