(* ===== verification/Writer_Laws.thy ===== *)
theory Writer_Laws
  imports Sink_Writers
begin

text \<open>
  What the writers of \<open>Sink_Writers\<close> promise: a batch is as good as its records one by one, concurrent
  sinks give what sequential ones give, every record has exactly one result, and an \<open>open\<close> that fails
  leaves no sink open.
\<close>

section \<open>Calls on different sinks\<close>

definition raises_only_exceptions :: "(exn, 's, 'a) comp \<Rightarrow> bool" where
  "raises_only_exceptions m = (\<forall>s e s'. m s = (Inl e, s') \<longrightarrow> is_Exception e)"

text \<open>The sink states after every element of \<open>xs\<close> has moved the state of its sink by \<open>f\<close>.\<close>

definition advance :: "('x \<Rightarrow> 's Sink) \<Rightarrow> ('x \<Rightarrow> 's \<Rightarrow> 's) \<Rightarrow> 'x list \<Rightarrow> 's wstate \<Rightarrow> 's wstate" where
  "advance g f xs w = w\<lparr>ws_sinks := \<lambda>i. case find (\<lambda>x. sk_id (g x) = i) xs of
     None \<Rightarrow> ws_sinks w i | Some x \<Rightarrow> f x (ws_sinks w i)\<rparr>"

abbreviation sink_state :: "('x \<Rightarrow> 's Sink) \<Rightarrow> 's wstate \<Rightarrow> 'x \<Rightarrow> 's" where
  "sink_state g w x \<equiv> ws_sinks w (sk_id (g x))"

definition distinct_sinks :: "('x \<Rightarrow> 's Sink) \<Rightarrow> 'x list \<Rightarrow> bool" where
  "distinct_sinks g xs = distinct (map (\<lambda>x. sk_id (g x)) xs)"

lemma distinct_sinks_Cons [simp]:
  "distinct_sinks g (x # xs) \<longleftrightarrow> (\<forall>y \<in> set xs. sk_id (g y) \<noteq> sk_id (g x)) \<and> distinct_sinks g xs"
  by (auto simp: distinct_sinks_def image_iff)

lemma distinct_sinks_nth:
  "distinct_sinks g xs \<Longrightarrow> i < length xs \<Longrightarrow> j < length xs \<Longrightarrow>
   sk_id (g (xs ! i)) = sk_id (g (xs ! j)) \<longleftrightarrow> i = j"
  using nth_eq_iff_index_eq [of "map (\<lambda>x. sk_id (g x)) xs" i j] by (simp add: distinct_sinks_def)

lemma distinct_sinks_select:
  assumes "distinct_sinks g xs" and "distinct is" and "set is \<subseteq> {..<length xs}"
  shows "distinct_sinks g (map (\<lambda>i. xs ! i) is)"
  using assms(2,3) by (induction "is") (auto simp: distinct_sinks_nth [OF assms(1)] distinct_sinks_def)

lemma advance_Nil [simp]: "advance g f [] w = w"
  by (simp add: advance_def)

lemma find_in_set: "find P xs = Some x \<Longrightarrow> x \<in> set xs"
  by (auto simp: find_Some_iff)

lemma advance_cong:
  assumes "\<And>x s. x \<in> set xs \<Longrightarrow> f x s = f' x s"
  shows "advance g f xs w = advance g f' xs w"
  using assms by (simp add: advance_def find_in_set cong: option.case_cong)

lemma advance_id: "(\<And>x s. x \<in> set xs \<Longrightarrow> f x s = s) \<Longrightarrow> advance g f xs w = w"
  by (auto simp: advance_def find_Some_iff fun_eq_iff intro!: wstate.equality split: option.splits)

lemma find_sink:
  assumes "distinct_sinks g xs"
  shows "find (\<lambda>x. sk_id (g x) = i) xs = Some x \<longleftrightarrow> x \<in> set xs \<and> sk_id (g x) = i"
  using assms by (induction xs) auto

lemma advance_at:
  "distinct_sinks g xs \<Longrightarrow> x \<in> set xs \<Longrightarrow> sink_state g (advance g f xs w) x = f x (sink_state g w x)"
  using find_sink [of g xs "sk_id (g x)" x] by (simp add: advance_def)

lemma advance_other:
  "\<forall>x \<in> set xs. sk_id (g x) \<noteq> i \<Longrightarrow> ws_sinks (advance g f xs w) i = ws_sinks w i"
  by (auto simp: advance_def find_Some_iff split: option.splits)

lemma advance_advance:
  "distinct_sinks g xs \<Longrightarrow> advance g f' xs (advance g f xs w) = advance g (\<lambda>x s. f' x (f x s)) xs w"
  by (auto simp: advance_def fun_eq_iff split: option.splits)

lemma advance_perm:
  assumes "distinct_sinks g xs" "distinct_sinks g ys" "set xs = set ys"
  shows "advance g f xs w = advance g f ys w"
proof -
  have "find (\<lambda>x. sk_id (g x) = i) xs = find (\<lambda>x. sk_id (g x) = i) ys" for i
  proof (cases "find (\<lambda>x. sk_id (g x) = i) ys")
    case None
    then have "find (\<lambda>x. sk_id (g x) = i) xs = None" using assms(3) by (simp add: find_None_iff)
    with None show ?thesis by simp
  next
    case (Some x)
    then have "find (\<lambda>x. sk_id (g x) = i) xs = Some x"
      using find_sink [OF assms(1)] find_sink [OF assms(2)] assms(3) by blast
    with Some show ?thesis by simp
  qed
  then show ?thesis by (simp add: advance_def)
qed

lemma advance_Cons:
  "distinct_sinks g (x # xs) \<Longrightarrow>
   advance g f (x # xs) w = advance g f xs (w\<lparr>ws_sinks := (ws_sinks w)(sk_id (g x) := f x (sink_state g w x))\<rparr>)"
  using find_None_iff [of "\<lambda>y. sk_id (g y) = sk_id (g x)" xs]
  by (intro wstate.equality) (auto simp: advance_def fun_eq_iff split: option.splits)

lemma try_exc_on_sink:
  assumes "raises_only_exceptions m"
  shows "try_exc (on_sink k m) w =
    (Inr (fst (m (ws_sinks w (sk_id k)))), w\<lparr>ws_sinks := (ws_sinks w)(sk_id k := snd (m (ws_sinks w (sk_id k))))\<rparr>)"
  using assms unfolding raises_only_exceptions_def
  by (auto simp: try_exc_def on_sink_def comb_simps split: prod.splits sum.splits)

text \<open>A sequential loop over different sinks reads each sink's state as it was before the loop.\<close>

lemma map_m_sinks:
  assumes "distinct_sinks g xs" and "\<And>x. x \<in> set xs \<Longrightarrow> raises_only_exceptions (op x)"
  shows "map_m try_exc (map (\<lambda>x. on_sink (g x) (op x)) xs) w =
    (Inr (map (\<lambda>x. fst (op x (sink_state g w x))) xs), advance g (\<lambda>x s. snd (op x s)) xs w)"
  using assms
proof (induction xs arbitrary: w)
  case (Cons x xs)
  let ?w = "w\<lparr>ws_sinks := (ws_sinks w)(sk_id (g x) := snd (op x (sink_state g w x)))\<rparr>"
  have "map_m try_exc (map (\<lambda>x. on_sink (g x) (op x)) xs) ?w =
    (Inr (map (\<lambda>x. fst (op x (sink_state g ?w x))) xs), advance g (\<lambda>x s. snd (op x s)) xs ?w)"
    using Cons by simp
  moreover have "map (\<lambda>x. fst (op x (sink_state g ?w x))) xs = map (\<lambda>x. fst (op x (sink_state g w x))) xs"
    using Cons.prems(1) by auto
  ultimately show ?case
    using Cons.prems by (simp add: try_exc_on_sink advance_Cons del: distinct_sinks_Cons)
      (simp add: bind_def ret_def try_exc_on_sink advance_Cons)
qed (simp add: ret_def)

lemma run_in_order_sinks:
  assumes "distinct_sinks g xs" and "distinct is" and "set is \<subseteq> {..<length xs}"
  shows "run_in_order is (\<lambda>i. map (\<lambda>x. on_sink (g x) (op x)) xs ! i) w =
    (Inr (map (\<lambda>i. (i, fst (op (xs ! i) (sink_state g w (xs ! i))))) is),
     advance g (\<lambda>x s. snd (op x s)) (map (\<lambda>i. xs ! i) is) w)"
  using assms(2,3)
proof (induction "is" arbitrary: w)
  case (Cons i js)
  let ?x = "xs ! i"
  let ?w = "w\<lparr>ws_sinks := (ws_sinks w)(sk_id (g ?x) := snd (op ?x (sink_state g w ?x)))\<rparr>"
  have i: "i < length xs" and js: "\<And>j. j \<in> set js \<Longrightarrow> j < length xs \<and> j \<noteq> i" using Cons.prems by auto
  have other: "sk_id (g (xs ! j)) \<noteq> sk_id (g ?x)" if "j \<in> set js" for j
    using js [OF that] i distinct_sinks_nth [OF assms(1)] by simp
  have head: "attempt (map (\<lambda>x. on_sink (g x) (op x)) xs ! i) w = (Inr (fst (op ?x (sink_state g w ?x))), ?w)"
    using i by (simp add: attempt_def on_sink_def split: prod.splits)
  have "distinct_sinks g (?x # map (\<lambda>i. xs ! i) js)"
    using distinct_sinks_select [OF assms(1) Cons.prems] by simp
  then have adv: "advance g f (?x # map (\<lambda>i. xs ! i) js) w =
      advance g f (map (\<lambda>i. xs ! i) js) (w\<lparr>ws_sinks := (ws_sinks w)(sk_id (g ?x) := f ?x (sink_state g w ?x))\<rparr>)" for f
    by (rule advance_Cons)
  from Cons.IH [of ?w] Cons.prems other head adv show ?case
    by (simp add: bind_def ret_def split_beta)
qed (simp add: ret_def)

definition schedules :: "schedule \<Rightarrow> nat \<Rightarrow> bool" where
  "schedules sched n = (distinct (sched n) \<and> set (sched n) = {..<n})"

text \<open>
  Whatever the order in which concurrent calls on different sinks finish, the gathered results and the
  final states are those of the calls made one after the other.
\<close>

lemma gather_all_sinks:
  assumes "distinct_sinks g xs" and "schedules sched (length xs)"
  shows "gather_all sched (map (\<lambda>x. on_sink (g x) (op x)) xs) w =
    (Inr (map (\<lambda>x. fst (op x (sink_state g w x))) xs), advance g (\<lambda>x s. snd (op x s)) xs w)"
proof -
  let ?is = "sched (length xs)"
  let ?h = "\<lambda>i. fst (op (xs ! i) (sink_state g w (xs ! i)))"
  have d: "distinct ?is" and s: "set ?is = {..<length xs}" using assms(2) by (auto simp: schedules_def)
  have "map_of (map (\<lambda>i. (i, ?h i)) ?is) i = Some (?h i)" if "i < length xs" for i
    using that s by (simp add: map_of_map_restrict)
  then have results: "map (\<lambda>i. the (map_of (map (\<lambda>i. (i, ?h i)) ?is) i)) [0..<length xs] =
      map (\<lambda>x. fst (op x (sink_state g w x))) xs"
    by (intro nth_equalityI) auto
  have "distinct_sinks g (map (\<lambda>i. xs ! i) ?is)"
    using distinct_sinks_select [OF assms(1) d] s by simp
  moreover have "set (map (\<lambda>i. xs ! i) ?is) = set xs"
    unfolding set_map s by (auto simp: in_set_conv_nth image_iff)
  ultimately have "advance g (\<lambda>x s. snd (op x s)) (map (\<lambda>i. xs ! i) ?is) w = advance g (\<lambda>x s. snd (op x s)) xs w"
    using assms(1) by (intro advance_perm) auto
  with run_in_order_sinks [OF assms(1) d, of op w] s results show ?thesis
    by (simp add: gather_all_def bind_def ret_def)
qed

section \<open>Concurrent writes equal sequential ones\<close>

definition tame_sink :: "'s Sink \<Rightarrow> bool" where
  "tame_sink k = ((\<forall>r. raises_only_exceptions (sk_write k r)) \<and> (\<forall>rs. raises_only_exceptions (sk_write_batch k rs)))"

lemma raises_onlyI: "(\<And>s e s'. m s = (Inl e, s') \<Longrightarrow> is_Exception e) \<Longrightarrow> raises_only_exceptions m"
  by (simp add: raises_only_exceptions_def)

lemma raises_only_bind:
  "raises_only_exceptions m \<Longrightarrow> (\<And>x. raises_only_exceptions (f x)) \<Longrightarrow> raises_only_exceptions (bind m f)"
  unfolding raises_only_exceptions_def by (fastforce simp: bind_def split: prod.splits sum.splits)

lemma raises_only_ret [simp]: "raises_only_exceptions (ret x)"
  by (simp add: raises_only_exceptions_def ret_def)

lemma try_exc_eq:
  "raises_only_exceptions m \<Longrightarrow> try_exc m s = (Inr (fst (m s)), snd (m s))"
  unfolding raises_only_exceptions_def
  by (auto simp: try_exc_def comb_simps split: prod.splits sum.splits)

definition write_error_of :: "'s Sink \<Rightarrow> pyobj \<Rightarrow> 's \<Rightarrow> exn option" where
  "write_error_of k r s = (case fst (sk_write k r s) of Inl e \<Rightarrow> Some e | Inr _ \<Rightarrow> None)"

lemma sink_try_write_eq:
  "tame_sink k \<Longrightarrow> try_write k r s = (Inr (write_error_of k r s), snd (sk_write k r s))"
  by (simp add: try_write_def tame_sink_def try_exc_eq bind_def ret_def write_error_of_def)

lemma map_m_raises_only: "(\<And>x. raises_only_exceptions (f x)) \<Longrightarrow> raises_only_exceptions (map_m f xs)"
  by (induction xs) (auto intro!: raises_only_bind)

lemma normalize_raises_only: "raises_only_exceptions (lift_res (normalize_batch_write_results b n))"
  by (auto simp: raises_only_exceptions_def normalize_batch_write_results_def lift_res_def comb_simps
      is_Exception_def isinstance_def mk_exn_def split: batch_return.splits if_splits)

text \<open>A sink's own batch runs in order unless the sink asks for parallel, unordered writes.\<close>

definition ordered_sink :: "'s Sink \<times> SinkCapabilities \<Rightarrow> bool" where
  "ordered_sink kc = (sink_batch_writable kc \<or> \<not> sc_parallel_writes_safe (snd kc) \<or> sc_ordered_writes_required (snd kc))"

lemma write_batch_to_sink_raises_only:
  assumes "tame_sink (fst kc)" and "ordered_sink kc \<or> \<not> fo_concurrent_writes F"
  shows "raises_only_exceptions (write_batch_to_sink F kc rs)"
proof -
  have "raises_only_exceptions (try_write (fst kc) r)" for r
    using assms(1) by (simp add: raises_only_exceptions_def sink_try_write_eq)
  then show ?thesis
    using assms by (auto simp: write_batch_to_sink_def ordered_sink_def tame_sink_def
        intro!: raises_only_bind map_m_raises_only normalize_raises_only)
qed

definition sequential :: "'s SinkFanOut \<Rightarrow> 's SinkFanOut" where
  "sequential F = F\<lparr>fo_concurrent_writes := False\<rparr>"

lemma write_batch_to_sink_sequential:
  "ordered_sink kc \<Longrightarrow> write_batch_to_sink F kc rs = write_batch_to_sink (sequential F) kc rs"
  by (auto simp: write_batch_to_sink_def ordered_sink_def sequential_def)

definition good_fan_out :: "'s SinkFanOut \<Rightarrow> bool" where
  "good_fan_out F = (fo_sinks F \<noteq> [] \<and> distinct_sinks fst (fo_sinks F) \<and>
     (\<forall>kc \<in> set (fo_sinks F). tame_sink (fst kc)) \<and> schedules (fo_schedule F) (length (fo_sinks F)))"

lemma run_sink_calls_state:
  assumes "distinct_sinks g xs" and "schedules (fo_schedule F) (length xs)"
    and "\<And>x. x \<in> set xs \<Longrightarrow> raises_only_exceptions (op x)"
  shows "run_sink_calls F (map (\<lambda>x. on_sink (g x) (op x)) xs) w =
    (Inr (map (\<lambda>x. fst (op x (sink_state g w x))) xs), advance g (\<lambda>x s. snd (op x s)) xs w)"
  using map_m_sinks [OF assms(1,3)] gather_all_sinks [OF assms(1,2)] by (auto simp: run_sink_calls_def)

lemma run_sink_calls_eq:
  assumes "good_fan_out F" and "\<And>kc. kc \<in> set (fo_sinks F) \<Longrightarrow> raises_only_exceptions (op kc)"
  shows "run_sink_calls F (map (\<lambda>kc. on_sink (fst kc) (op kc)) (fo_sinks F)) =
         map_m try_exc (map (\<lambda>kc. on_sink (fst kc) (op kc)) (fo_sinks F))"
  using assms map_m_sinks [of fst "fo_sinks F" op] run_sink_calls_state [of fst "fo_sinks F" F op]
  by (auto simp: good_fan_out_def fun_eq_iff)

lemma try_exc_single:
  assumes "tame_sink k"
  shows "bind (map_m try_exc [on_sink k (sk_write k r)]) (\<lambda>results. ret (fan_result results)) =
    bind (try_exc (on_sink k (sk_write k r))) (\<lambda>x. ret (case x of Inr _ \<Rightarrow> write_ok | Inl e \<Rightarrow> write_failed e))"
proof
  fix w
  have r: "raises_only_exceptions (sk_write k r)" using assms by (simp add: tame_sink_def)
  show "bind (map_m try_exc [on_sink k (sk_write k r)]) (\<lambda>results. ret (fan_result results)) w =
    bind (try_exc (on_sink k (sk_write k r))) (\<lambda>x. ret (case x of Inr _ \<Rightarrow> write_ok | Inl e \<Rightarrow> write_failed e)) w"
    using r unfolding raises_only_exceptions_def
    by (cases "sk_write k r (ws_sinks w (sk_id k))")
      (auto simp: bind_def ret_def try_exc_on_sink [OF r] fan_result_def write_ok_def write_failed_def
        split: sum.splits)
qed

text \<open>The single-sink shortcut does what the general loop does.\<close>

lemma fo_write_sequential_eq:
  assumes "good_fan_out F" and "\<not> fo_concurrent_writes F"
  shows "fo_write F r = bind (map_m try_exc (sink_write_calls F r)) (\<lambda>results. ret (fan_result results))"
proof (cases "fo_sinks F")
  case (Cons kc rest)
  then show ?thesis
    using assms try_exc_single [of "fst kc" r]
    by (cases rest) (auto simp: fo_write_def sink_write_calls_def good_fan_out_def)
qed (use assms in \<open>simp add: good_fan_out_def\<close>)

lemma fo_write_concurrent_eq:
  assumes "good_fan_out F"
  shows "fo_write F r = fo_write (sequential F) r"
proof (cases "fo_concurrent_writes F")
  case True
  have seq: "good_fan_out (sequential F)" using assms by (simp add: good_fan_out_def sequential_def)
  have "run_sink_calls F (sink_write_calls F r) = map_m try_exc (sink_write_calls F r)"
    unfolding sink_write_calls_def using assms
    by (intro run_sink_calls_eq) (auto simp: good_fan_out_def tame_sink_def)
  then have "fo_write F r = bind (map_m try_exc (sink_write_calls F r)) (\<lambda>results. ret (fan_result results))"
    using True by (auto simp: fo_write_def split: list.splits)
  also have "\<dots> = fo_write (sequential F) r"
    using fo_write_sequential_eq [OF seq] by (simp add: sequential_def sink_write_calls_def)
  finally show ?thesis .
next
  case False
  then have "sequential F = F" by (simp add: sequential_def)
  then show ?thesis by simp
qed

fun sink_errors :: "'s Sink \<Rightarrow> pyobj list \<Rightarrow> 's \<Rightarrow> exn option list" where
  "sink_errors k [] s = []"
| "sink_errors k (r # rs) s = write_error_of k r s # sink_errors k rs (snd (sk_write k r s))"

fun sink_after :: "'s Sink \<Rightarrow> pyobj list \<Rightarrow> 's \<Rightarrow> 's" where
  "sink_after k [] s = s"
| "sink_after k (r # rs) s = sink_after k rs (snd (sk_write k r s))"

lemma length_sink_errors [simp]: "length (sink_errors k rs s) = length rs"
  by (induction rs arbitrary: s) auto

lemma map_m_try_write:
  "tame_sink k \<Longrightarrow> map_m (try_write k) rs s = (Inr (sink_errors k rs s), sink_after k rs s)"
  by (induction rs arbitrary: s) (auto simp: sink_try_write_eq bind_def ret_def)

definition error_result :: "exn option \<Rightarrow> WriteResult" where
  "error_result e = (case e of None \<Rightarrow> write_ok | Some x \<Rightarrow> write_failed x)"

lemma to_result_merge_error [simp]: "to_result (merge_error (False, []) e) = error_result e"
  by (simp add: to_result_def merge_error_def error_result_def write_ok_def write_failed_def split: option.splits)

lemma to_result_merge_one [simp]: "to_result (merge_one (False, []) w) = w"
  by (simp add: to_result_def merge_one_def)

lemma map2_replicate: "length ys = n \<Longrightarrow> map2 f (replicate n x) ys = map (f x) ys"
  by (induction ys arbitrary: n) auto

lemma single_write_eq:
  assumes "tame_sink k"
  shows "bind (try_exc (on_sink k (sk_write k r))) (\<lambda>x. ret (case x of Inr _ \<Rightarrow> write_ok | Inl e \<Rightarrow> write_failed e)) w =
    (Inr (error_result (write_error_of k r (ws_sinks w (sk_id k)))),
     w\<lparr>ws_sinks := (ws_sinks w)(sk_id k := snd (sk_write k r (ws_sinks w (sk_id k))))\<rparr>)"
  using assms
  by (auto simp: tame_sink_def bind_def ret_def try_exc_on_sink error_result_def write_error_of_def split: sum.splits)

lemma single_writes_eq:
  assumes "tame_sink k"
  shows "map_m (\<lambda>r. bind (try_exc (on_sink k (sk_write k r))) (\<lambda>x.
      ret (case x of Inr _ \<Rightarrow> write_ok | Inl e \<Rightarrow> write_failed e))) rs w =
    (Inr (map error_result (sink_errors k rs (ws_sinks w (sk_id k)))),
     w\<lparr>ws_sinks := (ws_sinks w)(sk_id k := sink_after k rs (ws_sinks w (sk_id k)))\<rparr>)"
proof (induction rs arbitrary: w)
  case (Cons r rs)
  show ?case
    by (simp add: bind_apply_Inr [OF single_write_eq [OF assms]] bind_apply_Inr [OF Cons] del: bind_ret_left)
      (simp add: ret_def cong: if_cong)
qed (simp add: ret_def)

lemma write_batch_to_sink_plain:
  assumes "tame_sink (fst kc)" and "\<not> sink_batch_writable kc" and "\<not> fo_concurrent_writes F"
  shows "write_batch_to_sink F kc rs s = (Inr (SRErrors (sink_errors (fst kc) rs s)), sink_after (fst kc) rs s)"
  using assms by (simp add: write_batch_to_sink_def map_m_try_write bind_def ret_def)

lemma write_batch_to_sink_native:
  assumes "sink_batch_writable kc"
  shows "write_batch_to_sink F kc rs =
    bind (bind (sk_write_batch (fst kc) rs) (\<lambda>b. lift_res (normalize_batch_write_results b (length rs)))) (\<lambda>ws.
    ret (SRResults ws))"
  using assms by (simp add: write_batch_to_sink_def bind_assoc)

lemma normalize_length:
  "normalize_batch_write_results b n = Inr ws \<Longrightarrow> length ws = n"
  by (auto simp: normalize_batch_write_results_def split: batch_return.splits if_splits)

lemma native_results_length:
  "bind (sk_write_batch k rs) (\<lambda>b. lift_res (normalize_batch_write_results b (length rs))) s = (Inr ws, s') \<Longrightarrow>
   length ws = length rs"
  using normalize_length
  by (auto simp: bind_def lift_res_def throw_def ret_def split: prod.split_asm sum.split_asm)

lemma fo_write_batch_merged_eq:
  assumes "good_fan_out F" and "\<not> fo_concurrent_writes F"
  shows "fo_write_batch_merged F rs w =
    (Inr (map to_result (foldl merge_result (replicate (length rs) (False, []))
       (map (\<lambda>kc. fst (write_batch_to_sink F kc rs (sink_state fst w kc))) (fo_sinks F)))),
     advance fst (\<lambda>kc s. snd (write_batch_to_sink F kc rs s)) (fo_sinks F) w)"
  using assms
  by (simp add: fo_write_batch_merged_def Let_def bind_def ret_def good_fan_out_def
      write_batch_to_sink_raises_only map_m_sinks)

lemma advance_single:
  "advance g f [x] w = w\<lparr>ws_sinks := (ws_sinks w)(sk_id (g x) := f x (sink_state g w x))\<rparr>"
  by (auto simp: advance_def fun_eq_iff intro!: wstate.equality)

lemma native_single_eq:
  fixes rs F kc
  defines "m \<equiv> bind (sk_write_batch (fst kc) rs) (\<lambda>b. lift_res (normalize_batch_write_results b (length rs)))"
  assumes tame: "tame_sink (fst kc)" and bw: "sink_batch_writable kc" and F: "fo_sinks F = [kc]"
    "good_fan_out F" "\<not> fo_concurrent_writes F"
  shows "bind (try_exc (on_sink (fst kc) m)) (\<lambda>x.
      ret (case x of Inr ws \<Rightarrow> ws | Inl e \<Rightarrow> replicate (length rs) (write_failed e))) w = fo_write_batch_merged F rs w"
proof -
  have m: "raises_only_exceptions m"
    unfolding m_def using tame by (auto simp: tame_sink_def intro!: raises_only_bind normalize_raises_only)
  obtain r s' where ms: "m (sink_state fst w kc) = (r, s')" by fastforce
  have wb: "write_batch_to_sink F kc rs (sink_state fst w kc) = (map_sum id SRResults r, s')"
    unfolding write_batch_to_sink_native [OF bw] m_def [symmetric] using ms
    by (auto simp: bind_def ret_def split: sum.splits)
  have len: "length ws = length rs" if "r = Inr ws" for ws
    using native_results_length [of "fst kc" rs "sink_state fst w kc" ws s'] ms that by (simp add: m_def)
  have exc: "is_Exception e" if "r = Inl e" for e
    using m ms that unfolding raises_only_exceptions_def by blast
  show ?thesis
    unfolding fo_write_batch_merged_eq [OF F(2,3)]
    using wb len exc
    by (cases r) (auto simp: F(1) bind_def ret_def try_exc_on_sink [OF m] ms advance_single map2_replicate
        comp_def write_failed_def to_result_def [of "(False, _)"])
qed

text \<open>The two single-sink shortcuts of \<open>write_batch\<close> do what the general path does.\<close>

lemma fo_write_batch_sequential_eq:
  assumes good: "good_fan_out F" and seq: "\<not> fo_concurrent_writes F" and ne: "rs \<noteq> []"
  shows "fo_write_batch F rs = fo_write_batch_merged F rs"
proof (cases "\<exists>kc. fo_sinks F = [kc]")
  case True
  then obtain kc where kc: "fo_sinks F = [kc]" by blast
  have tame: "tame_sink (fst kc)" using good kc by (simp add: good_fan_out_def)
  show ?thesis
  proof (cases "sink_batch_writable kc")
    case True
    then show ?thesis
      using native_single_eq [OF tame True kc good seq] ne kc by (simp add: fo_write_batch_def fun_eq_iff)
  next
    case False
    then show ?thesis
      using ne kc seq tame
      by (auto simp: fun_eq_iff fo_write_batch_def fo_write_batch_merged_eq [OF good seq] single_writes_eq
          write_batch_to_sink_plain advance_single map2_replicate comp_def)
  qed
next
  case False
  then show ?thesis using good ne by (auto simp: fo_write_batch_def good_fan_out_def split: list.splits)
qed

lemma good_sequential [simp]: "good_fan_out (sequential F) = good_fan_out F"
  by (simp add: good_fan_out_def sequential_def)

lemma not_concurrent_sequential [simp]: "\<not> fo_concurrent_writes (sequential F)"
  by (simp add: sequential_def)

lemma fo_sinks_sequential [simp]: "fo_sinks (sequential F) = fo_sinks F"
  by (simp add: sequential_def)

lemma merged_concurrent_eq:
  assumes "good_fan_out F" and "\<forall>kc \<in> set (fo_sinks F). ordered_sink kc"
  shows "fo_write_batch_merged F rs = fo_write_batch_merged (sequential F) rs"
proof -
  have calls: "map (\<lambda>kc. on_sink (fst kc) (write_batch_to_sink F kc rs)) (fo_sinks F) =
      map (\<lambda>kc. on_sink (fst kc) (write_batch_to_sink (sequential F) kc rs)) (fo_sinks F)"
    using assms(2)
    by (intro map_cong refl arg_cong2 [where f = on_sink] write_batch_to_sink_sequential) simp
  have "run_sink_calls F (map (\<lambda>kc. on_sink (fst kc) (write_batch_to_sink F kc rs)) (fo_sinks F)) =
      map_m try_exc (map (\<lambda>kc. on_sink (fst kc) (write_batch_to_sink F kc rs)) (fo_sinks F))"
    using assms by (intro run_sink_calls_eq) (auto simp: good_fan_out_def intro!: write_batch_to_sink_raises_only)
  then show ?thesis
    unfolding fo_write_batch_merged_def Let_def fo_sinks_sequential calls [symmetric] by simp
qed

lemma fo_write_batch_eq:
  assumes "good_fan_out F" and "\<forall>kc \<in> set (fo_sinks F). ordered_sink kc" and "rs \<noteq> []"
  shows "fo_write_batch F rs = fo_write_batch_merged (sequential F) rs"
proof (cases "\<exists>kc. fo_sinks F = [kc] \<and> sink_batch_writable kc")
  case True
  then have "fo_write_batch F rs = fo_write_batch (sequential F) rs"
    by (auto simp: fo_write_batch_def)
  then show ?thesis using fo_write_batch_sequential_eq [of "sequential F"] assms by simp
next
  case False
  show ?thesis
  proof (cases "fo_concurrent_writes F")
    case True
    with False have "fo_write_batch F rs = fo_write_batch_merged F rs"
      using assms by (auto simp: fo_write_batch_def good_fan_out_def split: list.splits)
    then show ?thesis using merged_concurrent_eq [OF assms(1,2)] by simp
  next
    case False
    then have "sequential F = F" by (simp add: sequential_def)
    then show ?thesis using fo_write_batch_sequential_eq assms False by simp
  qed
qed

text \<open>
  C40. Concurrent fan-out is an optimisation only. Let the sinks of a fan-out be different objects whose writes
  raise ordinary exceptions, and let every sink be batch-native, require ordered writes, or not be safe for parallel
  writes. Then, for every order in which the event loop completes the concurrent calls and every concurrency limit, a
  write and a batch write leave the sinks in the state, and report the results, of the same fan-out
  without concurrency. (A sink that is safe for parallel writes, unordered and not batch-native gets the records of a
  batch concurrently: its final state may depend on their order.)
\<close>

theorem concurrent_fan_out_equals_sequential:
  assumes "good_fan_out F" and "\<forall>kc \<in> set (fo_sinks F). ordered_sink kc"
  shows "fo_write F r w = fo_write (sequential F) r w \<and>
         fo_write_batch F rs w = fo_write_batch (sequential F) rs w"
proof (cases "rs = []")
  case False
  with assms show ?thesis
    using fo_write_concurrent_eq [OF assms(1)] fo_write_batch_eq [OF assms False]
      fo_write_batch_sequential_eq [of "sequential F" rs] by simp
qed (use fo_write_concurrent_eq [OF assms(1)] in \<open>simp add: fo_write_batch_def\<close>)

section \<open>A batch equals its records\<close>

definition fan_error :: "'s SinkFanOut \<Rightarrow> pyobj \<Rightarrow> 's wstate \<Rightarrow> bool \<times> exn list" where
  "fan_error F r w = foldl merge_error (False, [])
     (map (\<lambda>kc. write_error_of (fst kc) r (sink_state fst w kc)) (fo_sinks F))"

lemma foldl_merge_errors:
  "foldl merge_error fe (map (\<lambda>x. case h x of Inl e \<Rightarrow> Some e | Inr _ \<Rightarrow> None) xs) =
    (fst fe \<or> (\<exists>x \<in> set xs. \<not> isl (h x)), snd fe @ concat (map (\<lambda>x. case h x of Inl e \<Rightarrow> [e] | Inr _ \<Rightarrow> []) xs))"
  by (induction xs arbitrary: fe) (auto simp: merge_error_def isl_def split: sum.splits)

lemma fan_result_eq:
  assumes "\<And>x e. x \<in> set xs \<Longrightarrow> h x = Inl e \<Longrightarrow> is_Exception e"
  shows "fan_result (map h xs) =
    \<lparr>wr_written = (\<exists>x \<in> set xs. \<not> isl (h x)), wr_errors = concat (map (\<lambda>x. case h x of Inl e \<Rightarrow> [e] | Inr _ \<Rightarrow> []) xs)\<rparr>"
  using assms
proof (induction xs)
  case (Cons x xs)
  then show ?case by (cases "h x") (auto simp: fan_result_def Let_def)
qed (simp add: fan_result_def)

lemma fo_write_eq:
  assumes "good_fan_out F" and "\<not> fo_concurrent_writes F"
  shows "fo_write F r w = (Inr (to_result (fan_error F r w)),
     advance fst (\<lambda>kc s. snd (sk_write (fst kc) r s)) (fo_sinks F) w)"
proof -
  let ?h = "\<lambda>kc. fst (sk_write (fst kc) r (sink_state fst w kc))"
  have exc: "is_Exception e" if "kc \<in> set (fo_sinks F)" "?h kc = Inl e" for kc e
    using assms(1) that unfolding good_fan_out_def tame_sink_def raises_only_exceptions_def
    by (metis prod.collapse)
  have loop: "map_m try_exc (sink_write_calls F r) w =
      (Inr (map ?h (fo_sinks F)), advance fst (\<lambda>kc s. snd (sk_write (fst kc) r s)) (fo_sinks F) w)"
    unfolding sink_write_calls_def using assms(1)
    by (intro map_m_sinks) (auto simp: good_fan_out_def tame_sink_def)
  have "fan_result (map ?h (fo_sinks F)) = to_result (fan_error F r w)"
    using fan_result_eq [of "fo_sinks F" ?h, OF exc] foldl_merge_errors [of "(False, [])" ?h "fo_sinks F"]
    by (simp add: fan_error_def write_error_of_def to_result_def)
  then show ?thesis by (simp add: fo_write_sequential_eq [OF assms] bind_def loop ret_def)
qed

lemma merge_columns:
  "foldl merge_result (a # acc) (map (\<lambda>x. Inr (SRErrors (e x # es x))) xs) =
   foldl merge_error a (map e xs) # foldl merge_result acc (map (\<lambda>x. Inr (SRErrors (es x))) xs)"
  by (induction xs arbitrary: a acc) auto

lemma merge_no_records: "foldl merge_result [] (map (\<lambda>x. Inr (SRErrors [])) xs) = []"
  by (induction xs) auto

definition no_native_batch :: "'s SinkFanOut \<Rightarrow> bool" where
  "no_native_batch F = (\<forall>kc \<in> set (fo_sinks F). \<not> sink_batch_writable kc)"

lemma merged_plain_eq:
  assumes "good_fan_out F" and "\<not> fo_concurrent_writes F" and "no_native_batch F"
  shows "fo_write_batch_merged F rs w =
    (Inr (map to_result (foldl merge_result (replicate (length rs) (False, []))
       (map (\<lambda>kc. Inr (SRErrors (sink_errors (fst kc) rs (sink_state fst w kc)))) (fo_sinks F)))),
     advance fst (\<lambda>kc. sink_after (fst kc) rs) (fo_sinks F) w)"
proof -
  have wb: "write_batch_to_sink F kc rs s = (Inr (SRErrors (sink_errors (fst kc) rs s)), sink_after (fst kc) rs s)"
    if "kc \<in> set (fo_sinks F)" for kc s
    using that assms by (intro write_batch_to_sink_plain) (auto simp: good_fan_out_def no_native_batch_def)
  have "advance fst (\<lambda>kc s. snd (write_batch_to_sink F kc rs s)) (fo_sinks F) w =
      advance fst (\<lambda>kc. sink_after (fst kc) rs) (fo_sinks F) w"
    using wb by (intro advance_cong) simp
  then show ?thesis
    using wb by (simp add: fo_write_batch_merged_eq [OF assms(1,2)] cong: map_cong)
qed

lemma merged_singles:
  assumes "good_fan_out F" and "\<not> fo_concurrent_writes F" and "no_native_batch F"
  shows "fo_write_batch_merged F rs w = map_m (fo_write F) rs w"
proof (induction rs arbitrary: w)
  case Nil
  show ?case by (simp add: merged_plain_eq [OF assms] merge_no_records advance_id ret_def)
next
  case (Cons r rs)
  let ?w = "advance fst (\<lambda>kc s. snd (sk_write (fst kc) r s)) (fo_sinks F) w"
  have d: "distinct_sinks fst (fo_sinks F)" using assms(1) by (simp add: good_fan_out_def)
  have after: "(\<lambda>kc. sink_after (fst kc) (r # rs)) = (\<lambda>kc s. sink_after (fst kc) rs (snd (sk_write (fst kc) r s)))"
    by (simp add: fun_eq_iff)
  have "fo_write_batch_merged F (r # rs) w =
      (Inr (to_result (fan_error F r w) # map to_result (foldl merge_result (replicate (length rs) (False, []))
         (map (\<lambda>kc. Inr (SRErrors (sink_errors (fst kc) rs (sink_state fst ?w kc)))) (fo_sinks F)))),
       advance fst (\<lambda>kc. sink_after (fst kc) rs) (fo_sinks F) ?w)"
    by (simp add: merged_plain_eq [OF assms] fan_error_def advance_advance [OF d] advance_at [OF d] merge_columns
        after cong: map_cong)
  also have "\<dots> = map_m (fo_write F) (r # rs) w"
    by (simp add: fo_write_eq [OF assms(1,2)] Cons [symmetric] merged_plain_eq [OF assms] bind_def ret_def)
  finally show ?case .
qed

text \<open>
  Batching is invisible. For a fan-out whose sinks take records one at a time, a batch write gives
  the results, and leaves the sinks in the states, of writing the batch's records one after the other,
  whether the sinks are called in turn or concurrently: where a batch is cut makes no difference.
\<close>

theorem fan_out_batch_equals_singles:
  assumes "good_fan_out F" and "\<forall>kc \<in> set (fo_sinks F). ordered_sink kc" and "no_native_batch F"
  shows "fo_write_batch F rs w = map_m (fo_write F) rs w"
proof (cases "rs = []")
  case False
  have "fo_write_batch F rs w = map_m (fo_write (sequential F)) rs w"
    using fo_write_batch_eq [OF assms(1,2) False] merged_singles [of "sequential F"] assms
    by (simp add: no_native_batch_def)
  moreover have "fo_write (sequential F) = fo_write F"
    using fo_write_concurrent_eq [OF assms(1)] by (simp add: fun_eq_iff)
  ultimately show ?thesis by simp
qed (simp add: fo_write_batch_def)

section \<open>One result per record\<close>

definition accounted :: "WriteResult \<Rightarrow> bool" where
  "accounted x = (wr_written x \<or> wr_errors x \<noteq> [])"

text \<open>A batch-native sink that returns results says of each record that it was written or why not.\<close>

definition honest_batch :: "'s Sink \<Rightarrow> bool" where
  "honest_batch k = (\<forall>rs s ws s'. sk_write_batch k rs s = (Inr (BResults ws), s') \<longrightarrow> list_all accounted ws)"

definition fits :: "nat \<Rightarrow> exn + sink_result \<Rightarrow> bool" where
  "fits n r = (case r of
       Inl e \<Rightarrow> is_Exception e
     | Inr (SRResults ws) \<Rightarrow> length ws = n \<and> list_all accounted ws
     | Inr (SRErrors es) \<Rightarrow> length es = n
     | Inr SRNone \<Rightarrow> True)"

lemma length_merge_result: "fits n r \<Longrightarrow> length acc = n \<Longrightarrow> length (merge_result acc r) = n"
  by (auto simp: fits_def split: sum.splits sink_result.splits)

lemma merge_result_accounts:
  "fits n r \<Longrightarrow> length acc = n \<Longrightarrow> list_all (\<lambda>fe. accounted (to_result fe)) (merge_result acc r)"
  by (auto simp: fits_def list_all_length accounted_def to_result_def merge_one_def merge_error_def
      split: sum.splits sink_result.splits option.splits)

lemma foldl_merge_accounts:
  assumes "\<And>r. r \<in> set rs \<Longrightarrow> fits n r" and "length acc = n"
  shows "length (foldl merge_result acc rs) = n \<and>
    (rs \<noteq> [] \<longrightarrow> list_all (\<lambda>fe. accounted (to_result fe)) (foldl merge_result acc rs))"
  using assms
proof (induction rs rule: rev_induct)
  case (snoc r rs)
  then have "length (foldl merge_result acc rs) = n" and "fits n r" by auto
  then show ?case by (simp add: length_merge_result merge_result_accounts [of n])
qed simp

lemma write_batch_to_sink_fits:
  assumes "tame_sink (fst kc)" "honest_batch (fst kc)" "\<not> fo_concurrent_writes F"
  shows "fits (length rs) (fst (write_batch_to_sink F kc rs s))"
proof (cases "sink_batch_writable kc")
  case True
  obtain r s' where b: "sk_write_batch (fst kc) rs s = (r, s')" by fastforce
  have "is_Exception e" if "r = Inl e" for e
    using b that assms(1) unfolding tame_sink_def raises_only_exceptions_def by blast
  moreover have "list_all accounted ws" if "r = Inr (BResults ws)" for ws
    using b that assms(2) unfolding honest_batch_def by blast
  ultimately show ?thesis
    using b by (auto simp: write_batch_to_sink_def True bind_def lift_res_def ret_def throw_def fits_def
        normalize_batch_write_results_def accounted_def write_ok_def list_all_iff is_Exception_def isinstance_def
        mk_exn_def split: sum.splits batch_return.splits)
next
  case False
  then show ?thesis using assms by (simp add: write_batch_to_sink_plain fits_def)
qed

text \<open>
  Every record of a batch is accounted for. A batch write of a fan-out always returns, with one
  result for each record, and each result says that the record was written to some sink or carries the
  error of one that refused it.
\<close>

theorem fan_out_batch_accounts_for_every_record:
  assumes "good_fan_out F" and "\<forall>kc \<in> set (fo_sinks F). ordered_sink kc \<and> honest_batch (fst kc)"
  shows "\<exists>ws w'. fo_write_batch F rs w = (Inr ws, w') \<and> length ws = length rs \<and> list_all accounted ws"
proof (cases "rs = []")
  case False
  let ?F = "sequential F"
  let ?results = "map (\<lambda>kc. fst (write_batch_to_sink ?F kc rs (sink_state fst w kc))) (fo_sinks F)"
  have "fits (length rs) r" if "r \<in> set ?results" for r
    using that assms by (auto simp: good_fan_out_def intro!: write_batch_to_sink_fits)
  moreover have "?results \<noteq> []" using assms(1) by (simp add: good_fan_out_def)
  ultimately show ?thesis
    using fo_write_batch_eq [of F rs] assms False foldl_merge_accounts [of ?results "length rs" "replicate (length rs) (False, [])"]
    by (auto simp: fo_write_batch_merged_eq list_all_iff)
qed (simp add: fo_write_batch_def ret_def)

section \<open>An example\<close>

text \<open>
  Sinks that keep a list of the identities they were given and refuse the record 2; \<open>bad\<close> ones cannot be
  opened.
\<close>

type_synonym demo_state = "bool \<times> nat list"

definition demo_target :: SinkTarget where
  "demo_target = \<lparr>st_type_name = ''Demo'', st_sink_name = None, st_advertised = None, st_is_BaseSink = False,
     st_batch_writable_native = False, st_arrow_passthrough_native = False, st_parallel_writes_safe = False,
     st_ordered_writes_required = True, st_accepted_data_planes = [], st_native_data_planes = [],
     st_has_write_batch = False, st_overrides_write_batch = False, st_has_write_arrow_batch = False\<rparr>"

definition demo_caps :: SinkCapabilities where
  "demo_caps = \<lparr>sc_batch_writable_native = False, sc_arrow_passthrough_native = False,
     sc_parallel_writes_safe = False, sc_ordered_writes_required = True,
     sc_accepted_data_planes = [PYTHON_ROWS], sc_native_data_planes = [PYTHON_ROWS]\<rparr>"

definition demo_sink :: "nat \<Rightarrow> bool \<Rightarrow> demo_state Sink" where
  "demo_sink n bad = \<lparr>sk_id = n, sk_target = demo_target, sk_flush_every = None, sk_batch_size = None,
     sk_open = (if bad then throw (mk_exn OSErrorC ''refused'') else modify (\<lambda>s. (True, snd s))),
     sk_write = (\<lambda>r. if ob_id r = 2 then throw (mk_exn ValueErrorC ''two'') else modify (\<lambda>s. (fst s, ob_id r # snd s))),
     sk_write_batch = (\<lambda>_. ret BNone), sk_write_arrow_batch = (\<lambda>_. skip), sk_flush = skip,
     sk_close = modify (\<lambda>s. (False, snd s))\<rparr>"

definition demo_world :: "demo_state wstate" where
  "demo_world = \<lparr>ws_sinks = (\<lambda>_. (False, [])), ws_open_rolled_back = False\<rparr>"

definition demo_row :: "nat \<Rightarrow> pyobj" where
  "demo_row n = \<lparr>ob_id = n, ob_val = PNone\<rparr>"

definition demo_fan_out :: "demo_state SinkFanOut" where
  "demo_fan_out = \<lparr>fo_sinks = [(demo_sink 1 False, demo_caps), (demo_sink 2 False, demo_caps)],
     fo_concurrent_writes = True, fo_max_concurrency = Some 2, fo_schedule = (\<lambda>n. rev [0..<n])\<rparr>"

definition demo_router :: "demo_state SinkRouter" where
  "demo_router = ro_set_default (demo_sink 2 False)
     (ro_route (\<lambda>r. Inr (ob_id r \<ge> 3)) (demo_sink 1 False)
       (ro_route (\<lambda>r. Inr (ob_id r = 1)) (demo_sink 1 False) (new_SinkRouter (\<lambda>n. [0..<n]))))"

lemma demo_sink_tame: "tame_sink (demo_sink n bad)"
  by (auto simp: tame_sink_def raises_only_exceptions_def demo_sink_def comb_simps is_Exception_def
      isinstance_def mk_exn_def split: if_splits)

lemma demo_fan_out_good:
  "good_fan_out demo_fan_out" "\<forall>kc \<in> set (fo_sinks demo_fan_out). ordered_sink kc"
  "no_native_batch demo_fan_out" "\<forall>kc \<in> set (fo_sinks demo_fan_out). honest_batch (fst kc)"
  by (auto simp: good_fan_out_def demo_fan_out_def demo_sink_tame distinct_sinks_def schedules_def numeral_2_eq_2
      ordered_sink_def demo_caps_def no_native_batch_def sink_batch_writable_def honest_batch_def)
    (auto simp: demo_sink_def ret_def)

theorem concurrent_fan_out_equals_sequential_witness:
  "fo_write_batch demo_fan_out [demo_row 1, demo_row 2] demo_world =
   fo_write_batch (sequential demo_fan_out) [demo_row 1, demo_row 2] demo_world"
  using concurrent_fan_out_equals_sequential [OF demo_fan_out_good(1,2), of "demo_row 1"] by blast

theorem fan_out_batch_equals_singles_witness:
  "fo_write_batch demo_fan_out [demo_row 1, demo_row 2] demo_world =
   map_m (fo_write demo_fan_out) [demo_row 1, demo_row 2] demo_world"
  by (rule fan_out_batch_equals_singles [OF demo_fan_out_good(1-3)])

theorem fan_out_batch_accounts_for_every_record_witness:
  "\<exists>ws w'. fo_write_batch demo_fan_out [demo_row 1, demo_row 2] demo_world = (Inr ws, w') \<and> length ws = 2 \<and>
     list_all accounted ws"
  using fan_out_batch_accounts_for_every_record [OF demo_fan_out_good(1), of "[demo_row 1, demo_row 2]" demo_world]
    demo_fan_out_good by auto

end
