(* ===== verification/Router_Laws.thy ===== *)
theory Router_Laws
  imports Writer_Laws
begin

text \<open>
  \<open>SinkRouter\<close> and the opening of writers: a routed batch equals its records routed one by one, and a
  writer whose \<open>open\<close> fails leaves no sink open.
\<close>

section \<open>A routed batch equals its records\<close>

text \<open>
  The routers the theorem covers: the predicates return, different sink objects have different
  identities, and every sink raises ordinary exceptions and takes its records one at a time, in order.
\<close>

definition router_sinks :: "'s SinkRouter \<Rightarrow> 's Sink set" where
  "router_sinks R = set (map rt_sink (ro_routes R)) \<union> set_option (ro_default R)"

definition plain_sink :: "'s Sink \<Rightarrow> bool" where
  "plain_sink k = (tame_sink k \<and> (\<exists>cap. sink_capabilities (sk_target k) = Inr cap \<and>
     \<not> sink_batch_writable (k, cap) \<and> ordered_sink (k, cap)))"

definition good_router :: "'s SinkRouter \<Rightarrow> bool" where
  "good_router R = ((\<forall>r. \<exists>t. route_target R r = Inr t) \<and>
     (\<forall>k \<in> router_sinks R. plain_sink k) \<and>
     (\<forall>k \<in> router_sinks R. \<forall>k' \<in> router_sinks R. sk_id k = sk_id k' \<longrightarrow> k = k'))"

definition target_of :: "'s SinkRouter \<Rightarrow> pyobj \<Rightarrow> 's Sink option" where
  "target_of R r = (case route_target R r of Inr t \<Rightarrow> t | Inl _ \<Rightarrow> None)"

lemma first_route_sink: "first_route xs r = Inr (Some k) \<Longrightarrow> k \<in> rt_sink ` set xs"
  by (induction xs) (auto simp: res_bind_eq_Inr split: if_splits)

lemma target_in_router: "target_of R r = Some k \<Longrightarrow> k \<in> router_sinks R"
  by (auto simp: target_of_def route_target_def res_bind_eq_Inr router_sinks_def dest!: first_route_sink
      split: sum.splits option.splits)

lemma route_target_eq: "good_router R \<Longrightarrow> route_target R r = Inr (target_of R r)"
  by (auto simp: good_router_def target_of_def split: sum.splits) (metis Inl_Inr_False)

text \<open>How the records of \<open>rs\<close> move the state of the sink with identity \<open>j\<close>.\<close>

fun evolve :: "'s SinkRouter \<Rightarrow> nat \<Rightarrow> pyobj list \<Rightarrow> 's \<Rightarrow> 's" where
  "evolve R j [] s = s"
| "evolve R j (r # rs) s = evolve R j rs (case target_of R r of
     None \<Rightarrow> s | Some k \<Rightarrow> if sk_id k = j then snd (sk_write k r s) else s)"

lemma evolve_append [simp]: "evolve R j (xs @ ys) s = evolve R j ys (evolve R j xs s)"
  by (induction xs arbitrary: s) auto

definition routed :: "'s SinkRouter \<Rightarrow> pyobj list \<Rightarrow> 's wstate \<Rightarrow> 's wstate" where
  "routed R rs w = w\<lparr>ws_sinks := \<lambda>j. evolve R j rs (ws_sinks w j)\<rparr>"

definition routed_outcome :: "'s SinkRouter \<Rightarrow> pyobj list \<Rightarrow> 's wstate \<Rightarrow> nat \<Rightarrow> bool \<times> exn list" where
  "routed_outcome R rs w i = (case target_of R (rs ! i) of
     None \<Rightarrow> (False, [])
   | Some k \<Rightarrow> merge_error (False, []) (write_error_of k (rs ! i)
       (evolve R (sk_id k) (take i rs) (ws_sinks w (sk_id k)))))"

lemma ro_write_eq:
  assumes "good_router R"
  shows "ro_write R r w = (Inr (to_result (routed_outcome R [r] w 0)), routed R [r] w)"
proof (cases "target_of R r")
  case None
  then show ?thesis
    by (simp add: ro_write_def route_target_eq [OF assms] lift_res_def routed_outcome_def routed_def to_result_def
        ret_def bind_def)
next
  case (Some k)
  have "tame_sink k" using assms target_in_router [OF Some] by (auto simp: good_router_def plain_sink_def)
  then show ?thesis
    by (auto simp: ro_write_def route_target_eq [OF assms] lift_res_def Some single_write_eq routed_outcome_def
        routed_def fun_eq_iff intro!: wstate.equality)
qed

lemma map_m_append:
  "map_m f (xs @ ys) = bind (map_m f xs) (\<lambda>a. bind (map_m f ys) (\<lambda>b. ret (a @ b)))"
  by (induction xs) (simp_all add: bind_assoc)

lemma routed_singles:
  assumes "good_router R"
  shows "map_m (ro_write R) rs w = (Inr (map (\<lambda>i. to_result (routed_outcome R rs w i)) [0..<length rs]), routed R rs w)"
proof (induction rs rule: rev_induct)
  case Nil
  show ?case by (simp add: ret_def routed_def)
next
  case (snoc r rs)
  have "map (\<lambda>i. to_result (routed_outcome R (rs @ [r]) w i)) [0..<length rs] =
      map (\<lambda>i. to_result (routed_outcome R rs w i)) [0..<length rs]"
    by (auto simp: routed_outcome_def nth_append split: option.splits)
  moreover have "routed_outcome R (rs @ [r]) w (length rs) = routed_outcome R [r] (routed R rs w) 0"
    by (simp add: routed_outcome_def routed_def nth_append split: option.splits)
  moreover have "routed R [r] (routed R rs w) = routed R (rs @ [r]) w" by (simp add: routed_def)
  ultimately show ?case
    by (simp add: map_m_append bind_apply_Inr [where m = "map_m (ro_write R) rs", OF snoc])
      (simp add: bind_def ro_write_eq [OF assms] ret_def)
qed

subsection \<open>The groups\<close>

definition entries_of :: "'s SinkRouter \<Rightarrow> (nat \<times> pyobj) list \<Rightarrow> 's Sink \<Rightarrow> (nat \<times> pyobj) list" where
  "entries_of R es k = filter (\<lambda>e. target_of R (snd e) = Some k) es"

definition grouped_as :: "'s SinkRouter \<Rightarrow> (nat \<times> pyobj) list \<Rightarrow> 's Sink list \<Rightarrow> 's groups \<Rightarrow> bool" where
  "grouped_as R es ks gs = (gs = map (\<lambda>k. (sk_id k, k, entries_of R es k)) ks \<and> distinct_sinks id ks \<and>
     set ks = {k. \<exists>e \<in> set es. target_of R (snd e) = Some k})"


lemma lookup_map_ids:
  "distinct_sinks id ks \<Longrightarrow> k \<in> set ks \<Longrightarrow> map_of (map (\<lambda>k. (sk_id k, f k)) ks) (sk_id k) = Some (f k)"
  by (induction ks) auto

lemma update_map_ids:
  "distinct_sinks id ks \<Longrightarrow> k \<in> set ks \<Longrightarrow>
   AList.update (sk_id k) v (map (\<lambda>k. (sk_id k, f k)) ks) = map (\<lambda>k'. (sk_id k', if k' = k then v else f k')) ks"
proof (induction ks)
  case (Cons k' ks)
  show ?case
  proof (cases "k' = k")
    case True
    then have "k'' \<noteq> k" if "k'' \<in> set ks" for k'' using Cons.prems that by auto
    then show ?thesis using True by simp
  next
    case False
    then show ?thesis using Cons by auto
  qed
qed simp

lemma lookup_no_id:
  "sk_id k \<notin> sk_id ` set ks \<Longrightarrow> map_of (map (\<lambda>k. (sk_id k, f k)) ks) (sk_id k) = None"
  by (induction ks) auto

lemma entries_of_snoc:
  "entries_of R (es @ [(i, r)]) k = entries_of R es k @ (if target_of R r = Some k then [(i, r)] else [])"
  by (simp add: entries_of_def)

lemma entries_of_Cons:
  "entries_of R (e # es) k = (if target_of R (snd e) = Some k then e # entries_of R es k else entries_of R es k)"
  by (simp add: entries_of_def)

lemma add_to_group_grouped:
  assumes good: "good_router R" and gs: "grouped_as R es ks gs" and t: "target_of R r = Some k"
  shows "\<exists>ks'. grouped_as R (es @ [(i, r)]) ks' (add_to_group k (i, r) gs)"
proof -
  note gs' = gs [unfolded grouped_as_def]
  have sub: "set ks \<subseteq> router_sinks R" using gs' target_in_router by auto
  have same: "k' = k" if "k' \<in> set ks" "sk_id k' = sk_id k" for k'
    using good sub that target_in_router [OF t] unfolding good_router_def by blast
  show ?thesis
  proof (cases "k \<in> set ks")
    case True
    then have "add_to_group k (i, r) gs =
        map (\<lambda>k'. (sk_id k', if k' = k then (k, entries_of R es k @ [(i, r)]) else (k', entries_of R es k'))) ks"
      using gs' by (simp add: add_to_group_def lookup_map_ids update_map_ids)
    also have "\<dots> = map (\<lambda>k'. (sk_id k', k', entries_of R (es @ [(i, r)]) k')) ks"
      using t by (simp add: entries_of_snoc)
    finally show ?thesis using gs' t True by (auto simp: grouped_as_def)
  next
    case False
    then have new: "sk_id k \<notin> sk_id ` set ks" using same by auto
    have "entries_of R es k = []" using gs' False by (auto simp: entries_of_def filter_empty_conv)
    then have "add_to_group k (i, r) gs = map (\<lambda>k'. (sk_id k', k', entries_of R (es @ [(i, r)]) k')) (ks @ [k])"
      using gs' new t False by (auto simp: add_to_group_def lookup_no_id entries_of_snoc)
    moreover have "distinct_sinks id (ks @ [k])" using gs' new by (auto simp: distinct_sinks_def)
    ultimately show ?thesis using gs' t by (intro exI [of _ "ks @ [k]"]) (auto simp: grouped_as_def)
  qed
qed

lemma group_records_grouped:
  assumes "good_router R" and "grouped_as R es0 ks gs"
  shows "\<exists>gs' ks'. group_records R es gs = Inr gs' \<and> grouped_as R (es0 @ es) ks' gs'"
  using assms(2)
proof (induction es arbitrary: es0 ks gs)
  case (Cons e es)
  obtain i r where e: "e = (i, r)" by fastforce
  show ?case
  proof (cases "target_of R r")
    case None
    then have "grouped_as R (es0 @ [e]) ks gs"
      using Cons.prems by (auto simp: grouped_as_def e entries_of_snoc)
    from Cons.IH [OF this] None show ?thesis by (simp add: e route_target_eq [OF assms(1)])
  next
    case (Some k)
    from add_to_group_grouped [OF assms(1) Cons.prems Some]
    obtain ks' where "grouped_as R (es0 @ [e]) ks' (add_to_group k (i, r) gs)" by (auto simp: e)
    from Cons.IH [OF this] Some show ?thesis by (simp add: e route_target_eq [OF assms(1)])
  qed
qed auto

subsection \<open>Writing the groups\<close>

lemma put_back_nth:
  "distinct is \<Longrightarrow> length vs = length is \<Longrightarrow> set is \<subseteq> {..<length acc} \<Longrightarrow> i < length acc \<Longrightarrow>
   put_back is vs acc ! i = (case map_of (zip is vs) i of None \<Rightarrow> acc ! i | Some v \<Rightarrow> v)"
proof (induction "is" vs acc rule: put_back.induct)
  case (1 j js v vs acc)
  then show ?case by (auto simp: nth_list_update split: option.splits dest!: map_of_SomeD set_zip_leftD)
qed auto

lemma length_put_back [simp]: "length (put_back is vs acc) = length acc"
  by (induction "is" vs acc rule: put_back.induct) auto

lemma length_merge_group [simp]: "length (merge_group es r acc) = length acc"
  by (simp add: merge_group_def Let_def)

lemma merge_group_nth:
  assumes "distinct (map fst es)" and "length errs = length es" and "set (map fst es) \<subseteq> {..<length acc}"
    and "i < length acc"
  shows "merge_group es (Inr (SRErrors errs)) acc ! i =
    (case map_of (zip (map fst es) errs) i of None \<Rightarrow> acc ! i | Some e \<Rightarrow> merge_error (acc ! i) e)"
proof -
  let ?is = "map fst es"
  let ?vs = "map2 merge_error (map (\<lambda>i. acc ! i) ?is) errs"
  have zip: "map_of (zip is (map2 merge_error (map (\<lambda>i. acc ! i) is) es')) i =
      map_option (merge_error (acc ! i)) (map_of (zip is es') i)" if "length es' = length is" for "is" and es' :: "exn option list"
    using that by (induction "is" es' rule: list_induct2') auto
  have "put_back ?is ?vs acc ! i = (case map_of (zip ?is ?vs) i of None \<Rightarrow> acc ! i | Some v \<Rightarrow> v)"
    by (rule put_back_nth) (use assms in auto)
  also have "\<dots> = (case map_option (merge_error (acc ! i)) (map_of (zip ?is errs) i) of None \<Rightarrow> acc ! i | Some v \<Rightarrow> v)"
    using zip [of errs ?is] assms(2) by (simp only: length_map)
  finally show ?thesis unfolding merge_group_def Let_def case_map_option comp_def by simp
qed

text \<open>The errors of one sink's group, by position in the batch.\<close>

lemma group_errors:
  assumes "\<And>k'. k' \<in> router_sinks R \<Longrightarrow> sk_id k' = sk_id k \<Longrightarrow> k' = k"
  shows "map_of (zip (map fst (entries_of R (zip [a..<a + length rs] rs) k))
      (sink_errors k (map snd (entries_of R (zip [a..<a + length rs] rs) k)) s)) (a + j) =
    (if j < length rs \<and> target_of R (rs ! j) = Some k
     then Some (write_error_of k (rs ! j) (evolve R (sk_id k) (take j rs) s)) else None)"
proof (induction rs arbitrary: a s j)
  case (Cons r rs)
  define zs where "zs = zip [Suc a..<Suc a + length rs] rs"
  have zip: "zip [a..<a + length (r # rs)] (r # rs) = (a, r) # zs"
    unfolding zs_def by (simp add: upt_conv_Cons del: upt_Suc)
  have none: "map_of (zip (map fst (entries_of R zs k)) errs) a = None" for errs :: "exn option list"
    by (auto simp: map_of_eq_None_iff zs_def entries_of_def simp del: upt_Suc dest!: set_zip_leftD)
  show ?case
  proof (cases j)
    case 0
    then show ?thesis using none unfolding zip by (simp add: entries_of_Cons)
  next
    case (Suc j')
    have id: "target_of R r = Some k' \<Longrightarrow> sk_id k' = sk_id k \<Longrightarrow> k' = k" for k'
      using assms target_in_router by blast
    show ?thesis
      unfolding zip using Suc id
      by (auto simp: entries_of_Cons Cons [of "Suc a" _ j', folded zs_def, unfolded add_Suc]
        simp del: map_of_zip_is_None split: option.split)
  qed
qed (simp add: entries_of_def)

lemma entries_snd: "map snd (entries_of R (zip [a..<a + length rs] rs) k) = filter (\<lambda>r. target_of R r = Some k) rs"
proof (induction rs arbitrary: a)
  case (Cons r rs)
  have "zip [a..<a + length (r # rs)] (r # rs) = (a, r) # zip [Suc a..<Suc a + length rs] rs"
    by (simp add: upt_conv_Cons del: upt_Suc)
  then show ?case using Cons [of "Suc a"] by (simp add: entries_of_def del: upt_Suc)
qed (simp add: entries_of_def)

lemma sink_after_evolve:
  assumes "\<And>k'. k' \<in> router_sinks R \<Longrightarrow> sk_id k' = sk_id k \<Longrightarrow> k' = k"
  shows "sink_after k (filter (\<lambda>r. target_of R r = Some k) rs) s = evolve R (sk_id k) rs s"
proof (induction rs arbitrary: s)
  case (Cons r rs)
  have "target_of R r = Some k' \<Longrightarrow> sk_id k' = sk_id k \<Longrightarrow> k' = k" for k'
    using assms target_in_router by blast
  then show ?case using Cons by (auto split: option.splits)
qed simp

lemma evolve_untouched: "(\<And>r k. r \<in> set rs \<Longrightarrow> target_of R r = Some k \<Longrightarrow> sk_id k \<noteq> j) \<Longrightarrow> evolve R j rs s = s"
  by (induction rs arbitrary: s) (auto split: option.splits)

text \<open>What one group adds to the accumulated outcomes, and all of them together.\<close>

definition merge_sink :: "'s SinkRouter \<Rightarrow> pyobj list \<Rightarrow> 's wstate \<Rightarrow> (bool \<times> exn list) list \<Rightarrow> 's Sink \<Rightarrow> (bool \<times> exn list) list" where
  "merge_sink R rs w acc k = (let es = entries_of R (zip [0..<length rs] rs) k in
     merge_group es (Inr (SRErrors (sink_errors k (map snd es) (ws_sinks w (sk_id k))))) acc)"

lemma length_foldl_merge_sink [simp]: "length (foldl (merge_sink R rs w) acc ks) = length acc"
  by (induction ks arbitrary: acc) (auto simp: merge_sink_def Let_def)

lemma merge_sink_nth:
  assumes "good_router R" and "k \<in> router_sinks R" and "length acc = length rs" and "i < length rs"
  shows "merge_sink R rs w acc k ! i =
    (if target_of R (rs ! i) = Some k
     then merge_error (acc ! i) (write_error_of k (rs ! i) (evolve R (sk_id k) (take i rs) (ws_sinks w (sk_id k))))
     else acc ! i)"
proof -
  let ?es = "entries_of R (zip [0..<length rs] rs) k"
  have idx: "distinct (map fst ?es)" "set (map fst ?es) \<subseteq> {..<length acc}"
    using assms(3) by (auto simp: entries_of_def distinct_map_filter dest!: set_zip_leftD)
  have "map_of (zip (map fst ?es) (sink_errors k (map snd ?es) s)) i =
      (if i < length rs \<and> target_of R (rs ! i) = Some k
       then Some (write_error_of k (rs ! i) (evolve R (sk_id k) (take i rs) s)) else None)" for s
    using group_errors [of R k 0 rs s i] assms(1,2) unfolding good_router_def by auto
  then show ?thesis
    using merge_group_nth [OF idx(1) _ idx(2), of "sink_errors k (map snd ?es) (ws_sinks w (sk_id k))" i] assms(3,4)
    by (simp add: merge_sink_def Let_def)
qed

lemma foldl_merge_sink_nth:
  assumes "good_router R" and "set ks \<subseteq> router_sinks R" and "distinct ks"
    and "length acc = length rs" and "i < length rs"
  shows "foldl (merge_sink R rs w) acc ks ! i =
    (case target_of R (rs ! i) of
       Some k \<Rightarrow> if k \<in> set ks
         then merge_error (acc ! i) (write_error_of k (rs ! i) (evolve R (sk_id k) (take i rs) (ws_sinks w (sk_id k))))
         else acc ! i
     | None \<Rightarrow> acc ! i)"
  using assms(2-4)
proof (induction ks rule: rev_induct)
  case Nil
  show ?case by (simp split: option.splits)
next
  case (snoc k ks)
  then show ?case
    using merge_sink_nth [OF assms(1), of k "foldl (merge_sink R rs w) acc ks" rs i w] assms(5)
    by (auto split: option.splits)
qed

lemma write_groups_eq:
  assumes "good_router R" and "set ks \<subseteq> router_sinks R" and "distinct_sinks id ks"
  shows "write_groups R (map (\<lambda>k. (sk_id k, k, entries_of R (zip [0..<length rs] rs) k)) ks) acc w =
    (Inr (foldl (merge_sink R rs w) acc ks),
     advance id (\<lambda>k. sink_after k (filter (\<lambda>r. target_of R r = Some k) rs)) ks w)"
  using assms(2,3)
proof (induction ks arbitrary: acc w)
  case (Cons k ks)
  let ?es = "entries_of R (zip [0..<length rs] rs) k"
  let ?w = "w\<lparr>ws_sinks := (ws_sinks w)(sk_id k := sink_after k (map snd ?es) (ws_sinks w (sk_id k)))\<rparr>"
  have k: "plain_sink k" using assms(1) Cons.prems by (auto simp: good_router_def)
  then obtain cap where cap: "sink_capabilities (sk_target k) = Inr cap" "\<not> sink_batch_writable (k, cap)"
    "ordered_sink (k, cap)" and tame: "tame_sink k" by (auto simp: plain_sink_def)
  have "write_group R k cap (map snd ?es) s =
      (Inr (Inr (SRErrors (sink_errors k (map snd ?es) s))), sink_after k (map snd ?es) s)" for s
    using cap tame by (auto simp: write_group_def ordered_sink_def map_m_try_write bind_def ret_def)
  then have "write_groups R ((sk_id k, k, ?es) # gs) acc w = write_groups R gs (merge_sink R rs w acc k) ?w" for gs
    by (simp add: cap lift_res_def on_sink_def bind_def ret_def merge_sink_def Let_def)
  moreover have "foldl (merge_sink R rs ?w) a ks = foldl (merge_sink R rs w) a ks" for a
    using Cons.prems(2) by (intro foldl_cong) (auto simp: merge_sink_def)
  moreover have "map snd ?es = filter (\<lambda>r. target_of R r = Some k) rs" using entries_snd [of R 0 rs k] by simp
  ultimately show ?case
    using Cons.IH [of "merge_sink R rs w acc k" ?w] Cons.prems
    by (simp add: advance_Cons del: distinct_sinks_Cons) (simp add: advance_Cons)
qed (simp add: ret_def)

text \<open>
  Routing a batch equals routing its records. Whatever the routes, and also when several routes
  share a sink, a routed batch gives the results, and leaves every sink in the state, of routing the
  records one after the other: each record goes to its first matching sink (or the default one), each
  sink receives its records in the order of the batch, and every result is put back at the position of
  its record.
\<close>

theorem router_batch_equals_singles:
  assumes "good_router R"
  shows "ro_write_batch R rs w = map_m (ro_write R) rs w"
proof (cases "rs = []")
  case False
  let ?E = "zip [0..<length rs] rs"
  have "grouped_as R [] [] []" by (simp add: grouped_as_def distinct_sinks_def)
  from group_records_grouped [OF assms this, of ?E] obtain gs ks
    where g: "group_records R ?E [] = Inr gs" and gs: "grouped_as R ?E ks gs" by auto
  note gs' = gs [unfolded grouped_as_def]
  have sub: "set ks \<subseteq> router_sinks R" using gs' target_in_router by auto
  have dk: "distinct ks" using gs' by (auto simp: distinct_sinks_def distinct_map)
  have in_ks: "k \<in> set ks" if "r \<in> set rs" "target_of R r = Some k" for r k
    using that gs' by (force simp: in_set_conv_nth set_zip)
  have same: "k' \<in> router_sinks R \<Longrightarrow> sk_id k' = sk_id k \<Longrightarrow> k' = k" if "k \<in> set ks" for k k'
    using assms sub that unfolding good_router_def by blast
  have "advance id (\<lambda>k. sink_after k (filter (\<lambda>r. target_of R r = Some k) rs)) ks w =
      advance id (\<lambda>k. evolve R (sk_id k) rs) ks w"
    using same by (intro advance_cong sink_after_evolve)
  also have "\<dots> = routed R rs w"
  proof -
    have "(case find (\<lambda>k. sk_id k = j) ks of None \<Rightarrow> s | Some k \<Rightarrow> evolve R (sk_id k) rs s) = evolve R j rs s" for j s
      using in_ks by (auto simp: find_None_iff find_Some_iff intro!: evolve_untouched [symmetric] split: option.splits)
    then show ?thesis by (simp add: advance_def routed_def)
  qed
  finally have state: "advance id (\<lambda>k. sink_after k (filter (\<lambda>r. target_of R r = Some k) rs)) ks w = routed R rs w" .
  have "map to_result (foldl (merge_sink R rs w) (replicate (length rs) (False, [])) ks) =
      map (\<lambda>i. to_result (routed_outcome R rs w i)) [0..<length rs]"
    using in_ks by (intro nth_equalityI)
      (auto simp: foldl_merge_sink_nth [OF assms sub dk] routed_outcome_def split: option.splits dest: in_ks [OF nth_mem])
  then show ?thesis
    using write_groups_eq [OF assms sub, of rs "replicate (length rs) (False, [])" w] gs' g False state
    by (simp add: ro_write_batch_def routed_singles [OF assms] lift_res_def bind_def ret_def)
qed (simp add: ro_write_batch_def)

section \<open>A failed open leaves nothing open\<close>

text \<open>
  What a sink must respect: an \<open>open\<close> that raises leaves a closed sink closed, and \<open>close\<close> closes it
  whether it raises or not. \<open>is_open\<close> reads a sink's state.
\<close>

definition lawful_sink :: "('s \<Rightarrow> bool) \<Rightarrow> 's Sink \<Rightarrow> bool" where
  "lawful_sink is_open k =
     (raises_only_exceptions (sk_open k) \<and> raises_only_exceptions (sk_close k) \<and>
      (\<forall>s e s'. sk_open k s = (Inl e, s') \<longrightarrow> \<not> is_open s \<longrightarrow> \<not> is_open s') \<and>
      (\<forall>s r s'. sk_close k s = (r, s') \<longrightarrow> \<not> is_open s'))"

definition closed_in :: "('s \<Rightarrow> bool) \<Rightarrow> 's Sink list \<Rightarrow> 's wstate \<Rightarrow> bool" where
  "closed_in is_open ks w = (\<forall>k \<in> set ks. \<not> is_open (ws_sinks w (sk_id k)))"

lemma close_loop_closes:
  assumes "\<forall>k \<in> set ks. lawful_sink is_open k"
  shows "\<exists>f' w'. close_loop ks f w = (Inr f', w') \<and> closed_in is_open ks w' \<and>
    (\<forall>j. j \<notin> sk_id ` set ks \<longrightarrow> ws_sinks w' j = ws_sinks w j) \<and>
    (\<forall>j. \<not> is_open (ws_sinks w j) \<longrightarrow> \<not> is_open (ws_sinks w' j)) \<and>
    ws_open_rolled_back w' = ws_open_rolled_back w"
  using assms
proof (induction ks arbitrary: f w)
  case (Cons k ks)
  let ?s = "ws_sinks w (sk_id k)"
  let ?w = "w\<lparr>ws_sinks := (ws_sinks w)(sk_id k := snd (sk_close k ?s))\<rparr>"
  let ?f = "case fst (sk_close k ?s) of Inr _ \<Rightarrow> f | Inl e \<Rightarrow> if f = None then Some e else f"
  have k: "raises_only_exceptions (sk_close k)" "\<not> is_open (snd (sk_close k ?s))"
    using Cons.prems by (auto simp: lawful_sink_def) (metis prod.collapse)
  have "close_loop (k # ks) f w = close_loop ks ?f ?w"
    by (auto simp: bind_def try_exc_on_sink [OF k(1)] split: sum.splits)
  with Cons.IH [of ?f ?w] Cons.prems k(2) show ?case
    by (fastforce simp: closed_in_def)
qed (simp add: ret_def closed_in_def)

lemma close_opened_closes:
  assumes "\<forall>k \<in> set ks. lawful_sink is_open k"
  shows "\<exists>r w'. close_opened_sinks ks w = (r, w') \<and> closed_in is_open ks w' \<and>
    (\<forall>j. \<not> is_open (ws_sinks w j) \<longrightarrow> \<not> is_open (ws_sinks w' j)) \<and>
    ws_open_rolled_back w' = ws_open_rolled_back w"
  using close_loop_closes [of "rev ks" is_open None w] assms
  by (auto simp: close_opened_sinks_def bind_def closed_in_def skip_def throw_def ret_def split: option.splits)

lemma open_loop_rolls_back:
  assumes "\<forall>k \<in> set (opened @ ks). lawful_sink is_open k" and "distinct_sinks id ks"
    and "closed_in is_open ks w" and "open_loop opened ks w = (Inl e, w')"
  shows "closed_in is_open (opened @ ks) w' \<and> ws_open_rolled_back w'"
  using assms
proof (induction ks arbitrary: opened w)
  case (Cons k ks)
  let ?s = "ws_sinks w (sk_id k)"
  let ?w = "w\<lparr>ws_sinks := (ws_sinks w)(sk_id k := snd (sk_open k ?s))\<rparr>"
  have ro: "raises_only_exceptions (sk_open k)" using Cons.prems(1) by (simp add: lawful_sink_def)
  show ?case
  proof (cases "fst (sk_open k ?s)")
    case (Inr u)
    then have "open_loop (opened @ [k]) ks ?w = (Inl e, w')"
      using Cons.prems(4) by (simp add: bind_def try_exc_on_sink [OF ro])
    moreover have "closed_in is_open ks ?w" using Cons.prems by (auto simp: closed_in_def)
    ultimately show ?thesis using Cons.IH [of "opened @ [k]" ?w] Cons.prems by simp
  next
    case (Inl x)
    let ?v = "?w\<lparr>ws_open_rolled_back := True\<rparr>"
    have "\<not> is_open (snd (sk_open k ?s))"
      using Inl Cons.prems(1,3) by (auto simp: lawful_sink_def closed_in_def) (metis prod.collapse)
    then have v: "closed_in is_open (k # ks) ?v" using Cons.prems(3) by (auto simp: closed_in_def)
    obtain r u where c: "close_opened_sinks opened ?v = (r, u)" "closed_in is_open opened u"
      "\<forall>j. \<not> is_open (ws_sinks ?v j) \<longrightarrow> \<not> is_open (ws_sinks u j)" "ws_open_rolled_back u"
      using close_opened_closes [of opened is_open ?v] Cons.prems(1) by auto
    have "u = w'"
      using Cons.prems(4) Inl c(1)
      by (simp add: bind_def try_exc_on_sink [OF ro] set_rolled_back_def modify_def throw_def split: sum.splits)
    with c v show ?thesis by (auto simp: closed_in_def)
  qed
qed (simp add: skip_def ret_def)

lemma finish_open_raises:
  assumes "finish_open ks results w = (Inl e, w')"
  obtains r where "close_opened_sinks (opened_sinks ks results) (w\<lparr>ws_open_rolled_back := True\<rparr>) = (r, w')"
  using assms
  by (auto simp: finish_open_def set_rolled_back_def try_exc_def comb_simps split: list.splits sum.splits prod.splits if_splits)

lemma opened_sinks_filter:
  "opened_sinks ks (map h ks) = filter (\<lambda>k. \<not> (case h k of Inl x \<Rightarrow> is_Exception x | Inr _ \<Rightarrow> False)) ks"
  unfolding opened_sinks_def by (induction ks) simp_all

lemma opened_sinks_map:
  "set (opened_sinks ks (map h ks)) \<subseteq> set ks"
  "k \<in> set ks \<Longrightarrow> k \<notin> set (opened_sinks ks (map h ks)) \<Longrightarrow> \<exists>e. h k = Inl e"
  by (auto simp: opened_sinks_filter split: sum.splits)

lemma concurrent_open_rolls_back:
  assumes lawful: "\<forall>k \<in> set ks. lawful_sink is_open k" and d: "distinct_sinks id ks"
    and closed: "closed_in is_open ks w"
    and fail: "finish_open ks (map (\<lambda>k. fst (sk_open k (ws_sinks w (sk_id k)))) ks)
      (advance id (\<lambda>k s. snd (sk_open k s)) ks w) = (Inl e, w')"
  shows "closed_in is_open ks w' \<and> ws_open_rolled_back w'"
proof -
  let ?h = "\<lambda>k. fst (sk_open k (ws_sinks w (sk_id k)))"
  let ?w = "(advance id (\<lambda>k s. snd (sk_open k s)) ks w)\<lparr>ws_open_rolled_back := True\<rparr>"
  let ?opened = "opened_sinks ks (map ?h ks)"
  obtain r where close: "close_opened_sinks ?opened ?w = (r, w')" by (rule finish_open_raises [OF fail])
  have "\<not> is_open (ws_sinks ?w (sk_id k))" if k: "k \<in> set ks" "k \<notin> set ?opened" for k
  proof -
    obtain e where "?h k = Inl e" using opened_sinks_map(2) [OF k] by blast
    then have "\<not> is_open (snd (sk_open k (ws_sinks w (sk_id k))))"
      using lawful closed k(1) unfolding lawful_sink_def closed_in_def by (metis prod.collapse)
    then show ?thesis using advance_at [OF d k(1)] by simp
  qed
  moreover obtain w2 where "close_opened_sinks ?opened ?w = (r, w2)" "closed_in is_open ?opened w2"
    "\<forall>j. \<not> is_open (ws_sinks ?w j) \<longrightarrow> \<not> is_open (ws_sinks w2 j)" "ws_open_rolled_back w2"
    using close_opened_closes [of ?opened is_open ?w] close opened_sinks_map(1) [of ks ?h] lawful by auto
  ultimately show ?thesis using close by (auto simp: closed_in_def)
qed

lemma fo_open_rolls_back:
  assumes lawful: "\<forall>k \<in> set (map fst (fo_sinks F)). lawful_sink is_open k"
    and d: "distinct_sinks id (map fst (fo_sinks F))" and sched: "schedules (fo_schedule F) (length (fo_sinks F))"
    and closed: "closed_in is_open (map fst (fo_sinks F)) w" and fail: "fo_open F w = (Inl e, w')"
  shows "closed_in is_open (map fst (fo_sinks F)) w' \<and> ws_open_rolled_back w'"
proof -
  define ks where "ks = map fst (fo_sinks F)"
  let ?w = "w\<lparr>ws_open_rolled_back := False\<rparr>"
  have c: "closed_in is_open ks ?w" using closed by (simp add: closed_in_def ks_def)
  have l: "\<forall>k \<in> set ks. lawful_sink is_open k" and d': "distinct_sinks id ks"
    and s: "schedules (fo_schedule F) (length ks)" using lawful d sched by (simp_all add: ks_def)
  have "closed_in is_open ks w' \<and> ws_open_rolled_back w'"
  proof (cases "fo_concurrent_writes F")
    case False
    then have "open_loop [] ks ?w = (Inl e, w')"
      using fail by (simp add: fo_open_def set_rolled_back_def bind_def modify_def ks_def)
    then show ?thesis using open_loop_rolls_back [of "[]" ks is_open ?w e w'] l d' c by simp
  next
    case True
    have "run_sink_calls F (map (\<lambda>k. on_sink (id k) (sk_open k)) ks) ?w =
        (Inr (map (\<lambda>k. fst (sk_open k (ws_sinks ?w (sk_id k)))) ks), advance id (\<lambda>k s. snd (sk_open k s)) ks ?w)"
      using run_sink_calls_state [OF d' s, of sk_open ?w] l by (simp add: lawful_sink_def)
    then have "finish_open ks (map (\<lambda>k. fst (sk_open k (ws_sinks ?w (sk_id k)))) ks)
        (advance id (\<lambda>k s. snd (sk_open k s)) ks ?w) = (Inl e, w')"
      using fail True unfolding fo_open_def Let_def ks_def [symmetric] set_rolled_back_def bind_def modify_def
      by simp
    then show ?thesis by (rule concurrent_open_rolls_back [OF l d' c])
  qed
  then show ?thesis by (simp add: ks_def)
qed

lemma unique_by_id_props:
  "distinct_sinks id (unique_by_id seen ks) \<and> set (unique_by_id seen ks) \<subseteq> set ks \<and>
   sk_id ` set (unique_by_id seen ks) = sk_id ` set ks - set seen"
  by (induction seen ks rule: unique_by_id.induct) (auto simp: distinct_sinks_def)

text \<open>
  A failed \<open>open\<close> leaves no sink open. When the \<open>open\<close> of a fan-out (sequential or concurrent) or of
  a router raises, every sink of the writer is closed again, the ones that had opened by the rollback,
  even when closing one of them fails too, and the writer records that it has rolled back.
\<close>

theorem failed_open_leaves_no_sink_open:
  assumes "\<forall>k \<in> set (map fst (fo_sinks F)) \<union> router_sinks R. lawful_sink is_open k"
    and "distinct_sinks fst (fo_sinks F)" and "schedules (fo_schedule F) (length (fo_sinks F))"
    and "\<forall>j. \<not> is_open (ws_sinks w j)"
  shows "(fo_open F w = (Inl e, w') \<longrightarrow> closed_in is_open (map fst (fo_sinks F)) w' \<and> ws_open_rolled_back w') \<and>
         (ro_open R w = (Inl e, w') \<longrightarrow> closed_in is_open (unique_sinks R) w' \<and> ws_open_rolled_back w')"
proof (intro conjI impI)
  assume "fo_open F w = (Inl e, w')"
  moreover have "distinct_sinks id (map fst (fo_sinks F))"
    using assms(2) by (simp add: distinct_sinks_def comp_def)
  ultimately show "closed_in is_open (map fst (fo_sinks F)) w'" and "ws_open_rolled_back w'"
    using fo_open_rolls_back [of F is_open w e w'] assms by (auto simp: closed_in_def)
next
  let ?w = "w\<lparr>ws_open_rolled_back := False\<rparr>"
  assume "ro_open R w = (Inl e, w')"
  then have "open_loop [] (unique_sinks R) ?w = (Inl e, w')"
    by (simp add: ro_open_def set_rolled_back_def bind_def modify_def)
  moreover have "distinct_sinks id (unique_sinks R) \<and> set (unique_sinks R) \<subseteq> router_sinks R"
    using unique_by_id_props [of "[]"] by (fastforce simp: unique_sinks_def router_sinks_def split: option.splits)
  ultimately show "closed_in is_open (unique_sinks R) w'" and "ws_open_rolled_back w'"
    using open_loop_rolls_back [of "[]" "unique_sinks R" is_open ?w e w'] assms by (auto simp: closed_in_def)
qed

text \<open>Two sinks whose second refuses to open, behind a fan-out and behind a router.\<close>

definition half_open_fan_out :: "bool \<Rightarrow> demo_state SinkFanOut" where
  "half_open_fan_out concurrent = \<lparr>fo_sinks = [(demo_sink 1 False, demo_caps), (demo_sink 2 True, demo_caps)],
     fo_concurrent_writes = concurrent, fo_max_concurrency = None, fo_schedule = (\<lambda>n. rev [0..<n])\<rparr>"

definition half_open_router :: "demo_state SinkRouter" where
  "half_open_router = ro_set_default (demo_sink 2 True)
     (ro_route (\<lambda>r. Inr (ob_id r = 1)) (demo_sink 1 False) (new_SinkRouter (\<lambda>n. [0..<n])))"

lemma demo_sink_lawful: "lawful_sink fst (demo_sink n bad)"
  by (auto simp: lawful_sink_def raises_only_exceptions_def demo_sink_def comb_simps is_Exception_def
      isinstance_def mk_exn_def split: if_splits)

theorem failed_open_leaves_no_sink_open_witness:
  "(\<exists>e w'. fo_open (half_open_fan_out True) demo_world = (Inl e, w') \<and>
       closed_in fst [demo_sink 1 False, demo_sink 2 True] w' \<and> ws_open_rolled_back w') \<and>
   (\<exists>e w'. ro_open half_open_router demo_world = (Inl e, w') \<and>
       closed_in fst (unique_sinks half_open_router) w' \<and> ws_open_rolled_back w')"
proof -
  let ?F = "half_open_fan_out True" and ?R = half_open_router
  have h: "\<forall>k \<in> set (map fst (fo_sinks ?F)) \<union> router_sinks ?R. lawful_sink fst k"
    by (auto simp: half_open_fan_out_def half_open_router_def router_sinks_def ro_route_def ro_set_default_def
        new_SinkRouter_def demo_sink_lawful)
  have d: "distinct_sinks fst (fo_sinks ?F)" "schedules (fo_schedule ?F) (length (fo_sinks ?F))"
    "\<forall>j. \<not> fst (ws_sinks demo_world j)"
    by (auto simp: half_open_fan_out_def demo_sink_def distinct_sinks_def schedules_def demo_world_def numeral_2_eq_2)
  obtain e w' where f: "fo_open ?F demo_world = (Inl e, w')"
    by (auto simp: half_open_fan_out_def fo_open_def comb_simps set_rolled_back_def run_sink_calls_def gather_all_def
        on_sink_def demo_sink_def demo_world_def is_Exception_def isinstance_def mk_exn_def numeral_2_eq_2
        close_opened_sinks_def try_exc_def Let_def finish_open_def opened_sinks_def)
  obtain e2 w2 where r: "ro_open ?R demo_world = (Inl e2, w2)"
    by (auto simp: half_open_router_def ro_open_def comb_simps set_rolled_back_def unique_sinks_def ro_route_def
        ro_set_default_def new_SinkRouter_def on_sink_def demo_sink_def demo_world_def is_Exception_def
        isinstance_def mk_exn_def close_opened_sinks_def try_exc_def)
  show ?thesis
    using failed_open_leaves_no_sink_open [OF h d, of e w'] failed_open_leaves_no_sink_open [OF h d, of e2 w2] f r
    by (auto simp: half_open_fan_out_def)
qed

text \<open>Closing is not as careful: a sequential \<open>close\<close> stops at the first sink that raises.\<close>

lemma sequential_close_leaks:
  "let F = \<lparr>fo_sinks = [((demo_sink 1 False)\<lparr>sk_close := throw (mk_exn OSErrorC ''disk'')\<rparr>, demo_caps),
             (demo_sink 2 False, demo_caps)], fo_concurrent_writes = False, fo_max_concurrency = None,
             fo_schedule = (\<lambda>n. [0..<n])\<rparr>
   in fst (fo_close F (snd (fo_open F demo_world))) = Inl (mk_exn OSErrorC ''disk'') \<and>
      fst (ws_sinks (snd (fo_close F (snd (fo_open F demo_world)))) 2)"
  by (simp add: fo_close_def fo_all_def fo_open_def comb_simps set_rolled_back_def on_sink_def demo_sink_def
      demo_world_def try_exc_def Let_def)

theorem router_batch_equals_singles_witness:
  "ro_write_batch demo_router [demo_row 1, demo_row 2, demo_row 3, demo_row 4] demo_world =
   map_m (ro_write demo_router) [demo_row 1, demo_row 2, demo_row 3, demo_row 4] demo_world"
proof -
  have sinks: "router_sinks demo_router = {demo_sink 1 False, demo_sink 2 False}"
    by (auto simp: demo_router_def router_sinks_def ro_route_def ro_set_default_def new_SinkRouter_def)
  have ids: "sk_id (demo_sink n b) = n" for n b by (simp add: demo_sink_def)
  have targets: "\<exists>t. route_target demo_router r = Inr t" for r
    by (simp add: demo_router_def route_target_def ro_route_def ro_set_default_def new_SinkRouter_def)
  have caps: "sink_capabilities (sk_target (demo_sink n b)) = Inr demo_caps" for n b
    by (simp add: demo_sink_def demo_target_def sink_capabilities_def unadvertised_flags_def demo_caps_def
        normalized_sink_capabilities_def default_sink_data_planes_def ordered_unique_planes_def)
  have "plain_sink (demo_sink n b)" for n b
    using demo_sink_tame caps
    by (auto simp: plain_sink_def sink_batch_writable_def demo_caps_def ordered_sink_def)
  then have "good_router demo_router" unfolding good_router_def sinks using targets ids by auto
  then show ?thesis by (rule router_batch_equals_singles)
qed

end
