(* ===== verification/Runtime_Plan.thy ===== *)
theory Runtime_Plan
  imports Writer_Laws
begin

text \<open>
  The runtime plan, built once before a run: \<^verbatim>\<open>core/runtime/_plan_types.py\<close>, \<^verbatim>\<open>_plan.py\<close>,
  \<^verbatim>\<open>_plan_middleware.py\<close>, \<^verbatim>\<open>_plan_writer.py\<close>, and the parts of \<^verbatim>\<open>core/middleware/_chain.py\<close>,
  \<^verbatim>\<open>core/middleware/_types.py\<close>, \<^verbatim>\<open>core/sink/_support.py\<close> and \<^verbatim>\<open>core/source/_contracts.py\<close> it reads.

  The objects the planner inspects are records of what it reads from them. The advice that is logged at
  most once per source class does not change the plan and is not modelled.
\<close>

section \<open>What the planner sees\<close>

record StageView =
  sv_type_name :: string
  sv_name :: "string option"
  sv_is_arrow_batch :: bool
  sv_has_submit :: bool
  sv_min_concurrency :: "int option"

text \<open>
  \<open>sv_min_concurrency\<close> is \<open>None\<close> when the attribute is missing; \<open>is_buffered_submit_middleware\<close> then
  takes 1. An attribute that is no integer is outside the model.
\<close>

definition is_buffered_submit_middleware :: "StageView \<Rightarrow> bool" where
  "is_buffered_submit_middleware m = sv_has_submit m"

record SourceView = SourceTarget +
  vw_name :: string
  vw_supports_prefetch :: bool
  vw_has_stream :: bool
  vw_prefetch_limit :: int
  vw_delivery_hooks :: bool
  vw_supports_rust_prefetch :: bool
  vw_has_stream_sync_batches :: bool

record WriterView =
  wv_sink_capabilities :: "SinkCapabilities list option"
  wv_sink_data_plane_specs :: "SinkDataPlaneSpec list option"
  wv_sink_batch_writable :: "bool list option"
  wv_sinks :: "SinkTarget list option"
  wv_routes :: "(nat \<times> SinkTarget) list option"
  wv_default :: "(nat \<times> SinkTarget) option"
  wv_self :: SinkTarget
  wv_has_write_arrow_batch :: bool

section \<open>The plan\<close>

datatype RuntimeLane = LINEAR | BUFFERED | BATCH

record MiddlewareModeSpec =
  ms_index :: nat
  ms_name :: string
  ms_data_plane :: DataPlane

record BufferedStagePlan =
  bs_index :: nat
  bs_name :: string
  bs_concurrency :: int

record MiddlewareExecutionPlan =
  mp_stages :: "MiddlewareModeSpec list"
  mp_input_data_plane :: DataPlane
  mp_output_data_plane :: DataPlane
  mp_materializes_arrow_to_rows :: bool
  mp_materialization_reason :: "string option"

record WriterSinkPlan =
  wp_sink_name :: string
  wp_accepted_data_planes :: "DataPlane list"
  wp_native_data_planes :: "DataPlane list"
  wp_selected_data_plane :: DataPlane
  wp_downgraded_from_input :: bool
  wp_selection_reason :: string

record WriterExecutionPlan =
  we_batch_size :: int
  we_input_data_plane :: DataPlane
  we_input_data_plane_reason :: string
  we_direct_flush_eligible :: bool
  we_arrow_fast_path :: bool
  we_arrow_chain :: bool
  we_sink_plans :: "WriterSinkPlan list"

definition downgraded_sink_count :: "WriterExecutionPlan \<Rightarrow> nat" where
  "downgraded_sink_count p = length (filter wp_downgraded_from_input (we_sink_plans p))"

record RuntimePlan =
  rp_lane :: RuntimeLane
  rp_lane_reason :: string
  rp_source_name :: string
  rp_batch_source :: bool
  rp_has_delivery_hooks :: bool
  rp_source_prefetch_limit :: int
  rp_source_supports_rust_prefetch :: bool
  rp_source_has_sync_prefetch_path :: bool
  rp_source :: SourceDataPlaneSpec
  rp_middleware :: MiddlewareExecutionPlan
  rp_buffered_stages :: "BufferedStagePlan list"
  rp_writer :: WriterExecutionPlan

section \<open>The middleware chain\<close>

definition stage_mode_matrix :: "StageView list \<Rightarrow> MiddlewareModeSpec list" where
  "stage_mode_matrix chain = map (\<lambda>(i, m).
     \<lparr>ms_index = i, ms_name = (case sv_name m of None \<Rightarrow> sv_type_name m | Some n \<Rightarrow> n),
      ms_data_plane = (if sv_is_arrow_batch m then ARROW_BATCHES else PYTHON_ROWS)\<rparr>)
     (zip [0..<length chain] chain)"

definition has_arrow_batch_stages :: "StageView list \<Rightarrow> bool" where
  "has_arrow_batch_stages chain = list_ex (\<lambda>s. ms_data_plane s = ARROW_BATCHES) (stage_mode_matrix chain)"

definition has_mixed_data_planes :: "StageView list \<Rightarrow> bool" where
  "has_mixed_data_planes chain = (length (remdups (map ms_data_plane (stage_mode_matrix chain))) > 1)"

definition has_only_arrow_batch_stages :: "StageView list \<Rightarrow> bool" where
  "has_only_arrow_batch_stages chain =
     (stage_mode_matrix chain \<noteq> [] \<and> list_all (\<lambda>s. ms_data_plane s = ARROW_BATCHES) (stage_mode_matrix chain))"

definition buffered_stages :: "StageView list \<Rightarrow> (nat \<times> StageView) list" where
  "buffered_stages chain = filter (\<lambda>im. is_buffered_submit_middleware (snd im)) (zip [0..<length chain] chain)"

definition stage_concurrency :: "StageView \<Rightarrow> int" where
  "stage_concurrency m = max 1 (case sv_min_concurrency m of None \<Rightarrow> 1 | Some n \<Rightarrow> n)"

definition buffered_stage_specs :: "StageView list \<Rightarrow> BufferedStagePlan list" where
  "buffered_stage_specs chain = map (\<lambda>(i, m).
     \<lparr>bs_index = i, bs_name = (case sv_name m of None \<Rightarrow> ''buffered'' | Some n \<Rightarrow> n),
      bs_concurrency = stage_concurrency m\<rparr>)
     (filter (\<lambda>im. stage_concurrency (snd im) > 1) (buffered_stages chain))"

definition arrow_chain_selected :: "SourceDataPlaneSpec \<Rightarrow> StageView list \<Rightarrow> bool" where
  "arrow_chain_selected spec chain =
     (sds_emitted_plane spec = ARROW_BATCHES \<and> (length chain = 0 \<or> has_only_arrow_batch_stages chain))"

fun join :: "string \<Rightarrow> string list \<Rightarrow> string" where
  "join sep [] = ''''"
| "join sep [x] = x"
| "join sep (x # y # xs) = x @ sep @ join sep (y # xs)"

definition format_middleware_mode_matrix :: "StageView list \<Rightarrow> string" where
  "format_middleware_mode_matrix chain =
     (if stage_mode_matrix chain = [] then ''<empty>''
      else join '' -> '' (map (\<lambda>s. ms_name s @ ''['' @ plane_value (ms_data_plane s) @ '']'') (stage_mode_matrix chain)))"

text \<open>The error messages quote the source name as \<open>repr\<close> of a string without quotes or escapes does.\<close>

definition validate_middleware_chain_compatibility ::
    "SourceView \<Rightarrow> StageView list \<Rightarrow> SourceDataPlaneSpec \<Rightarrow> exn + unit" where
  "validate_middleware_chain_compatibility source chain spec =
     (if \<not> has_arrow_batch_stages chain then Inr ()
      else if sds_emitted_plane spec \<noteq> ARROW_BATCHES then
        Inl (mk_exn PipelineErrorC (''Arrow middleware requires an Arrow-emitting batch source. Found source='' @ [CHR 0x27] @
          vw_name source @ [CHR 0x27] @ '', source_plane='' @ plane_value (sds_emitted_plane spec) @
          '', middleware_matrix='' @ format_middleware_mode_matrix chain @ ''.''))
      else if has_mixed_data_planes chain then
        Inl (mk_exn PipelineErrorC (''Middleware chain mixes incompatible data planes. '' @
          ''Arrow stages and Python row/list-dict stages cannot coexist in one chain. middleware_matrix='' @
          format_middleware_mode_matrix chain @ ''.''))
      else Inr ())"

definition middleware_execution_plan ::
    "SourceDataPlaneSpec \<Rightarrow> StageView list \<Rightarrow> bool \<Rightarrow> MiddlewareExecutionPlan" where
  "middleware_execution_plan spec chain batch_source =
     (let modes = stage_mode_matrix chain;
          out = (if modes = [] then sds_emitted_plane spec
                 else if has_only_arrow_batch_stages chain then ARROW_BATCHES
                 else if batch_source then PYTHON_BATCHES else PYTHON_ROWS);
          materializes = (sds_emitted_plane spec = ARROW_BATCHES \<and> out \<noteq> ARROW_BATCHES)
      in \<lparr>mp_stages = modes, mp_input_data_plane = sds_emitted_plane spec, mp_output_data_plane = out,
          mp_materializes_arrow_to_rows = materializes,
          mp_materialization_reason = (if materializes
            then Some (''source emits arrow_batches, but the middleware chain contains Python-row stages, '' @
                       ''so Arrow batches materialize once before middleware execution'')
            else None)\<rparr>)"

definition lane_reason :: "(int \<Rightarrow> string) \<Rightarrow> bool \<Rightarrow> BufferedStagePlan list \<Rightarrow> string" where
  "lane_reason show_int batch_source stages =
     (if batch_source then ''source advertises batch emission, so the runtime selects the batch lane''
      else if stages \<noteq> [] then
        ''middleware stages request concurrent submit() execution, so the runtime selects the buffered lane: '' @
        join '', '' (map (\<lambda>s. bs_name s @ ''(min_concurrency='' @ show_int (bs_concurrency s) @ '')'') stages)
      else ''source streams Python rows and no buffered stage requires submit() concurrency'')"

section \<open>The writer\<close>

definition direct_flush_eligible :: "WriterView \<Rightarrow> int \<Rightarrow> bool" where
  "direct_flush_eligible writer batch_size =
     (batch_size > 1 \<and> wv_sink_batch_writable writer = Some [True])"

fun unique_targets :: "nat list \<Rightarrow> (nat \<times> SinkTarget) list \<Rightarrow> SinkTarget list" where
  "unique_targets seen [] = []"
| "unique_targets seen ((i, t) # ts) =
     (if i \<in> set seen then unique_targets seen ts else t # unique_targets (i # seen) ts)"

definition writer_target_data_plane_specs :: "WriterView \<Rightarrow> exn + SinkDataPlaneSpec list" where
  "writer_target_data_plane_specs w = (case wv_sink_data_plane_specs w of
       Some specs \<Rightarrow> Inr specs
     | None \<Rightarrow> (case wv_sinks w of
         Some sinks \<Rightarrow> res_map sink_data_plane_spec sinks
       | None \<Rightarrow> (case wv_routes w of
           Some routes \<Rightarrow> res_map sink_data_plane_spec
             (unique_targets [] (routes @ (case wv_default w of None \<Rightarrow> [] | Some d \<Rightarrow> [d])))
         | None \<Rightarrow> if st_advertised (wv_self w) \<noteq> None
                    then res_bind (sink_data_plane_spec (wv_self w)) (\<lambda>s. Inr [s]) else Inr [])))"

definition writer_accepts_arrow_batches :: "WriterView \<Rightarrow> bool" where
  "writer_accepts_arrow_batches w = wv_has_write_arrow_batch w"

definition writer_has_arrow_batch_path :: "WriterView \<Rightarrow> exn + bool" where
  "writer_has_arrow_batch_path w = (case wv_sink_capabilities w of
       Some caps \<Rightarrow> Inr (list_ex (\<lambda>c. ARROW_BATCHES \<in> set (sc_native_data_planes c)) caps)
     | None \<Rightarrow> res_bind (writer_target_data_plane_specs w) (\<lambda>specs. Inr (
         if wv_sinks w \<noteq> None \<and> specs \<noteq> []
         then list_ex (\<lambda>s. ARROW_BATCHES \<in> set (sps_native_planes s)) specs
         else wv_has_write_arrow_batch w)))"

definition sink_selection_reason :: "DataPlane \<Rightarrow> DataPlane \<Rightarrow> DataPlane list \<Rightarrow> string" where
  "sink_selection_reason input selected native =
     (if selected = input then ''sink accepts '' @ plane_value input @ '' natively''
      else
        (let joined = join '', '' (map plane_value native)
         in ''sink has no native '' @ plane_value input @ '' path; writer downgrades to '' @ plane_value selected @
            '' at the sink boundary (native='' @ (if joined = [] then ''python_rows'' else joined) @ '')''))"

definition writer_sink_plans :: "WriterView \<Rightarrow> DataPlane \<Rightarrow> exn + WriterSinkPlan list" where
  "writer_sink_plans w input =
     res_bind (writer_target_data_plane_specs w) (\<lambda>specs. Inr (map (\<lambda>spec.
       \<lparr>wp_sink_name = sps_sink_name spec, wp_accepted_data_planes = sps_accepted_planes spec,
        wp_native_data_planes = sps_native_planes spec,
        wp_selected_data_plane = selected_plane_for spec input,
        wp_downgraded_from_input = downgraded_from spec input,
        wp_selection_reason = sink_selection_reason input (selected_plane_for spec input) (sps_native_planes spec)\<rparr>)
       specs))"

definition writer_input_data_plane_reason :: "DataPlane \<Rightarrow> DataPlane \<Rightarrow> bool \<Rightarrow> WriterSinkPlan list \<Rightarrow> string" where
  "writer_input_data_plane_reason middleware_output writer_input fast_path sink_plans =
     (if middleware_output \<noteq> ARROW_BATCHES then ''writer receives middleware output as '' @ plane_value middleware_output
      else if writer_input \<noteq> ARROW_BATCHES then
        ''writer materializes arrow_batches to python_batches before sink dispatch '' @
        ''because the writer object has no Arrow batch entrypoint''
      else if filter wp_downgraded_from_input sink_plans = [] then
        if fast_path then
          ''writer keeps arrow_batches because the source/middleware chain stays '' @
          ''Arrow-native and every resolved sink path accepts Arrow batches natively''
        else ''writer keeps arrow_batches through the sink boundary''
      else if fast_path then
        ''writer keeps arrow_batches through the writer boundary and only downgrades '' @
        ''for sink paths that do not expose a native Arrow batch write path''
      else
        ''writer keeps arrow_batches until sink dispatch, then downgrades every sink path '' @
        ''because none of the resolved sinks exposes a native Arrow batch write path'')"

definition prefetch_limit_for :: "SourceView \<Rightarrow> int" where
  "prefetch_limit_for s = (if vw_supports_prefetch s \<and> vw_has_stream s then max 0 (vw_prefetch_limit s) else 0)"

section \<open>Building the plan\<close>

definition select_lane :: "bool \<Rightarrow> BufferedStagePlan list \<Rightarrow> RuntimeLane" where
  "select_lane batch_source stages =
     (if batch_source then BATCH else if stages \<noteq> [] then BUFFERED else LINEAR)"

definition planned_input :: "MiddlewareExecutionPlan \<Rightarrow> WriterView \<Rightarrow> DataPlane" where
  "planned_input middleware writer =
     (if mp_output_data_plane middleware = ARROW_BATCHES \<and> \<not> writer_accepts_arrow_batches writer
      then PYTHON_BATCHES else mp_output_data_plane middleware)"

text \<open>The two record expressions at the end of \<open>build_runtime_plan\<close>.\<close>

definition assemble_writer_plan ::
    "WriterView \<Rightarrow> int \<Rightarrow> MiddlewareExecutionPlan \<Rightarrow> bool \<Rightarrow> bool \<Rightarrow> WriterSinkPlan list \<Rightarrow> WriterExecutionPlan" where
  "assemble_writer_plan writer writer_batch_size middleware arrow_chain fast_path sink_plans =
     (let input = planned_input middleware writer in
      \<lparr>we_batch_size = max writer_batch_size 1,
       we_input_data_plane = input,
       we_input_data_plane_reason =
         writer_input_data_plane_reason (mp_output_data_plane middleware) input fast_path sink_plans,
       we_direct_flush_eligible = direct_flush_eligible writer writer_batch_size,
       we_arrow_fast_path = fast_path,
       we_arrow_chain = arrow_chain,
       we_sink_plans = sink_plans\<rparr>)"

definition assemble_plan ::
    "(int \<Rightarrow> string) \<Rightarrow> SourceView \<Rightarrow> bool \<Rightarrow> SourceDataPlaneSpec \<Rightarrow> BufferedStagePlan list \<Rightarrow>
     MiddlewareExecutionPlan \<Rightarrow> WriterExecutionPlan \<Rightarrow> RuntimePlan" where
  "assemble_plan show_int source batch_source spec stages middleware writer_plan =
     \<lparr>rp_lane = select_lane batch_source stages,
      rp_lane_reason = lane_reason show_int batch_source stages,
      rp_source_name = vw_name source,
      rp_batch_source = batch_source,
      rp_has_delivery_hooks = vw_delivery_hooks source,
      rp_source_prefetch_limit = prefetch_limit_for source,
      rp_source_supports_rust_prefetch = vw_supports_rust_prefetch source,
      rp_source_has_sync_prefetch_path = vw_has_stream_sync_batches source,
      rp_source = spec,
      rp_middleware = middleware,
      rp_buffered_stages = stages,
      rp_writer = writer_plan\<rparr>"

definition build_runtime_plan ::
    "(int \<Rightarrow> string) \<Rightarrow> SourceView \<Rightarrow> StageView list \<Rightarrow> WriterView \<Rightarrow> int \<Rightarrow> exn + RuntimePlan" where
  "build_runtime_plan show_int source chain writer writer_batch_size =
     res_bind (is_batch_capable_source (SourceTarget.truncate source)) (\<lambda>batch_source.
     res_bind (source_data_plane_spec (SourceTarget.truncate source)) (\<lambda>spec.
     res_bind (validate_middleware_chain_compatibility source chain spec) (\<lambda>_.
     let middleware = middleware_execution_plan spec chain batch_source;
         arrow_chain = (batch_source \<and> arrow_chain_selected spec chain) in
     res_bind (writer_has_arrow_batch_path writer) (\<lambda>sink_accepts_arrow.
     res_bind (writer_sink_plans writer (planned_input middleware writer)) (\<lambda>sink_plans.
     Inr (assemble_plan show_int source batch_source spec (buffered_stage_specs chain) middleware
       (assemble_writer_plan writer writer_batch_size middleware arrow_chain (arrow_chain \<and> sink_accepts_arrow)
          sink_plans)))))))"

section \<open>What a plan guarantees\<close>

lemma matrix_planes: "map ms_data_plane (stage_mode_matrix chain) = map (\<lambda>m. if sv_is_arrow_batch m then ARROW_BATCHES else PYTHON_ROWS) chain"
  by (rule nth_equalityI) (auto simp: stage_mode_matrix_def)

lemma matrix_planes_set:
  "ms_data_plane ` set (stage_mode_matrix chain) = (\<lambda>m. if sv_is_arrow_batch m then ARROW_BATCHES else PYTHON_ROWS) ` set chain"
  using arg_cong [OF matrix_planes [of chain], of set] by simp

lemma plane_in_matrix:
  "ARROW_BATCHES \<in> ms_data_plane ` set (stage_mode_matrix chain) \<longleftrightarrow> (\<exists>m \<in> set chain. sv_is_arrow_batch m)"
  "PYTHON_ROWS \<in> ms_data_plane ` set (stage_mode_matrix chain) \<longleftrightarrow> (\<exists>m \<in> set chain. \<not> sv_is_arrow_batch m)"
  unfolding matrix_planes_set image_iff by auto

lemma matrix_Nil [simp]: "stage_mode_matrix chain = [] \<longleftrightarrow> chain = []"
  by (auto simp: stage_mode_matrix_def)

lemma has_arrow_iff: "has_arrow_batch_stages chain \<longleftrightarrow> (\<exists>m \<in> set chain. sv_is_arrow_batch m)"
proof -
  have "has_arrow_batch_stages chain \<longleftrightarrow> ARROW_BATCHES \<in> ms_data_plane ` set (stage_mode_matrix chain)"
    by (force simp: has_arrow_batch_stages_def list_ex_iff image_iff)
  then show ?thesis unfolding plane_in_matrix by simp
qed

lemma only_arrow_iff: "has_only_arrow_batch_stages chain \<longleftrightarrow> chain \<noteq> [] \<and> (\<forall>m \<in> set chain. sv_is_arrow_batch m)"
proof -
  have "list_all (\<lambda>s. ms_data_plane s = ARROW_BATCHES) (stage_mode_matrix chain) \<longleftrightarrow>
      ms_data_plane ` set (stage_mode_matrix chain) \<subseteq> {ARROW_BATCHES}" by (auto simp: list_all_iff)
  then show ?thesis by (auto simp: has_only_arrow_batch_stages_def matrix_planes_set split: if_splits)
qed

lemma card_two: "S \<subseteq> {a, b} \<Longrightarrow> a \<noteq> b \<Longrightarrow> card S > 1 \<longleftrightarrow> a \<in> S \<and> b \<in> S"
proof -
  assume "S \<subseteq> {a, b}" and "a \<noteq> b"
  then consider "S = {}" | "S = {a}" | "S = {b}" | "S = {a, b}" by blast
  then show ?thesis using \<open>a \<noteq> b\<close> by cases auto
qed

lemma mixed_iff:
  "has_mixed_data_planes chain \<longleftrightarrow> (\<exists>m \<in> set chain. sv_is_arrow_batch m) \<and> (\<exists>m \<in> set chain. \<not> sv_is_arrow_batch m)"
proof -
  let ?P = "ms_data_plane ` set (stage_mode_matrix chain)"
  have sub: "?P \<subseteq> {ARROW_BATCHES, PYTHON_ROWS}" unfolding matrix_planes_set by auto
  have "has_mixed_data_planes chain \<longleftrightarrow> card ?P > 1"
    by (simp add: has_mixed_data_planes_def length_remdups_card_conv)
  then show ?thesis using card_two [OF sub] plane_in_matrix [of chain] by simp
qed

lemma validate_ok_iff:
  "validate_middleware_chain_compatibility source chain spec = Inr () \<longleftrightarrow>
   (\<forall>m \<in> set chain. \<not> sv_is_arrow_batch m) \<or>
   sds_emitted_plane spec = ARROW_BATCHES \<and> (\<forall>m \<in> set chain. sv_is_arrow_batch m)"
  by (auto simp: validate_middleware_chain_compatibility_def has_arrow_iff mixed_iff)

lemma batch_capable_plane:
  "is_batch_capable_source s = Inr True \<Longrightarrow> source_data_plane_spec s = Inr spec \<Longrightarrow> sds_emitted_plane spec \<noteq> PYTHON_ROWS"
  by (auto simp: is_batch_capable_source_def res_bind_eq_Inr split: if_splits)

lemma buffered_stage_specs_set:
  "s \<in> set (buffered_stage_specs chain) \<Longrightarrow>
   bs_concurrency s > 1 \<and> bs_index s < length chain \<and> sv_has_submit (chain ! bs_index s)"
  by (auto simp: buffered_stage_specs_def buffered_stages_def is_buffered_submit_middleware_def set_zip)

definition coherent_plan :: "StageView list \<Rightarrow> WriterView \<Rightarrow> RuntimePlan \<Rightarrow> bool" where
  "coherent_plan chain writer p =
     (rp_lane p = select_lane (rp_batch_source p) (rp_buffered_stages p) \<and>
      (\<forall>s \<in> set (rp_buffered_stages p).
         bs_concurrency s > 1 \<and> bs_index s < length chain \<and> sv_has_submit (chain ! bs_index s)) \<and>
      we_batch_size (rp_writer p) \<ge> 1 \<and>
      (rp_batch_source p \<longrightarrow> sds_emitted_plane (rp_source p) \<noteq> PYTHON_ROWS) \<and>
      ((\<forall>m \<in> set chain. \<not> sv_is_arrow_batch m) \<or>
       sds_emitted_plane (rp_source p) = ARROW_BATCHES \<and> (\<forall>m \<in> set chain. sv_is_arrow_batch m)) \<and>
      (mp_materializes_arrow_to_rows (rp_middleware p) \<longleftrightarrow>
         sds_emitted_plane (rp_source p) = ARROW_BATCHES \<and> (\<exists>m \<in> set chain. \<not> sv_is_arrow_batch m)) \<and>
      (we_arrow_fast_path (rp_writer p) \<longrightarrow>
         rp_lane p = BATCH \<and> sds_emitted_plane (rp_source p) = ARROW_BATCHES \<and>
         (\<forall>m \<in> set chain. sv_is_arrow_batch m) \<and> mp_output_data_plane (rp_middleware p) = ARROW_BATCHES) \<and>
      (we_input_data_plane (rp_writer p) = ARROW_BATCHES \<longrightarrow> wv_has_write_arrow_batch writer) \<and>
      (\<forall>sp \<in> set (we_sink_plans (rp_writer p)).
         (wp_selected_data_plane sp \<in> set (wp_native_data_planes sp) \<or> wp_selected_data_plane sp = PYTHON_ROWS) \<and>
         (wp_downgraded_from_input sp \<longleftrightarrow> wp_selected_data_plane sp \<noteq> we_input_data_plane (rp_writer p))))"

lemma build_runtime_plan_eq:
  "build_runtime_plan show_int source chain writer n = Inr p \<longleftrightarrow>
   (\<exists>batch spec arrow sinks.
      is_batch_capable_source (SourceTarget.truncate source) = Inr batch \<and>
      source_data_plane_spec (SourceTarget.truncate source) = Inr spec \<and>
      validate_middleware_chain_compatibility source chain spec = Inr () \<and>
      writer_has_arrow_batch_path writer = Inr arrow \<and>
      writer_sink_plans writer (planned_input (middleware_execution_plan spec chain batch) writer) = Inr sinks \<and>
      p = assemble_plan show_int source batch spec (buffered_stage_specs chain)
        (middleware_execution_plan spec chain batch)
        (assemble_writer_plan writer n (middleware_execution_plan spec chain batch)
          (batch \<and> arrow_chain_selected spec chain) ((batch \<and> arrow_chain_selected spec chain) \<and> arrow) sinks))"
  by (auto simp: build_runtime_plan_def Let_def res_bind_eq_Inr)

text \<open>
  A plan that was built is coherent. The lane is the batch lane exactly for a source that emits
  batches, else the buffered lane exactly when some stage asks for more than one concurrent submission,
  and every planned buffered stage can submit and has a concurrency above one; writer batches have a
  positive size. Arrow and row stages never mix, and Arrow stages only follow an Arrow source. The Arrow
  fast path is planned only when the data stays in Arrow batches from the source to the writer, an Arrow
  input only for a writer with an Arrow entry point, and each sink is given a plane that it takes
  natively or rows.
\<close>

theorem runtime_plan_coherent:
  assumes "build_runtime_plan show_int source chain writer n = Inr p"
  shows "coherent_plan chain writer p"
proof -
  from assms obtain batch spec arrow sinks where
    src: "is_batch_capable_source (SourceTarget.truncate source) = Inr batch"
      "source_data_plane_spec (SourceTarget.truncate source) = Inr spec"
      "validate_middleware_chain_compatibility source chain spec = Inr ()"
    and sinks: "writer_sink_plans writer (planned_input (middleware_execution_plan spec chain batch) writer) = Inr sinks"
    and p: "p = assemble_plan show_int source batch spec (buffered_stage_specs chain)
        (middleware_execution_plan spec chain batch)
        (assemble_writer_plan writer n (middleware_execution_plan spec chain batch)
          (batch \<and> arrow_chain_selected spec chain) ((batch \<and> arrow_chain_selected spec chain) \<and> arrow) sinks)"
    by (auto simp: build_runtime_plan_eq)
  have ok: "(\<forall>m \<in> set chain. \<not> sv_is_arrow_batch m) \<or>
      sds_emitted_plane spec = ARROW_BATCHES \<and> (\<forall>m \<in> set chain. sv_is_arrow_batch m)"
    using src(3) by (simp add: validate_ok_iff)
  have plane: "batch \<Longrightarrow> sds_emitted_plane spec \<noteq> PYTHON_ROWS" using batch_capable_plane src(1,2) by auto
  have materializes: "mp_materializes_arrow_to_rows (middleware_execution_plan spec chain batch) \<longleftrightarrow>
      sds_emitted_plane spec = ARROW_BATCHES \<and> (\<exists>m \<in> set chain. \<not> sv_is_arrow_batch m)"
    by (auto simp: middleware_execution_plan_def Let_def only_arrow_iff)
  have fast: "arrow_chain_selected spec chain \<Longrightarrow> sds_emitted_plane spec = ARROW_BATCHES \<and>
      (\<forall>m \<in> set chain. sv_is_arrow_batch m) \<and> mp_output_data_plane (middleware_execution_plan spec chain batch) = ARROW_BATCHES"
    by (auto simp: arrow_chain_selected_def only_arrow_iff middleware_execution_plan_def Let_def)
  have sp: "\<forall>sp \<in> set sinks. (wp_selected_data_plane sp \<in> set (wp_native_data_planes sp) \<or> wp_selected_data_plane sp = PYTHON_ROWS) \<and>
      (wp_downgraded_from_input sp \<longleftrightarrow> wp_selected_data_plane sp \<noteq> planned_input (middleware_execution_plan spec chain batch) writer)"
    using sinks by (auto simp: writer_sink_plans_def res_bind_eq_Inr downgraded_from_def selected_plane_for_def)
  show ?thesis
    unfolding coherent_plan_def
    using ok plane materializes fast sp
    by (auto simp: p assemble_plan_def assemble_writer_plan_def Let_def select_lane_def buffered_stage_specs_set
        planned_input_def writer_accepts_arrow_batches_def split: if_splits)
qed

section \<open>The plan and the writer it is made for\<close>

text \<open>What the planner sees of a fan-out; \<open>self\<close> is the writer object itself, which it then does not ask.\<close>

definition fan_out_view :: "'s SinkFanOut \<Rightarrow> SinkTarget \<Rightarrow> WriterView" where
  "fan_out_view F self =
     \<lparr>wv_sink_capabilities = Some (map snd (fo_sinks F)),
      wv_sink_data_plane_specs = Some (map (\<lambda>kc.
        \<lparr>sps_sink_name = target_name (sk_target (fst kc)), sps_accepted_planes = sc_accepted_data_planes (snd kc),
         sps_native_planes = sc_native_data_planes (snd kc)\<rparr>) (fo_sinks F)),
      wv_sink_batch_writable = Some (map sink_batch_writable (fo_sinks F)),
      wv_sinks = Some (map (\<lambda>kc. sk_target (fst kc)) (fo_sinks F)),
      wv_routes = None, wv_default = None, wv_self = self, wv_has_write_arrow_batch = True\<rparr>"

text \<open>A sink whose declared planes agree with its methods.\<close>

definition declares_arrow :: "'s Sink \<times> SinkCapabilities \<Rightarrow> bool" where
  "declares_arrow kc = (ARROW_BATCHES \<in> set (sc_native_data_planes (snd kc)) \<longleftrightarrow> sink_arrow_writable kc)"

lemma selected_arrow_iff: "selected_plane_for spec ARROW_BATCHES = ARROW_BATCHES \<longleftrightarrow> ARROW_BATCHES \<in> set (sps_native_planes spec)"
  by (simp add: selected_plane_for_def)

text \<open>
  The plan tells how the fan-out will behave. For a fan-out whose sinks declare the Arrow plane
  exactly when they have an Arrow write method, a plan with an Arrow input says of each sink whether
  \<open>write_arrow_batch\<close> will hand it the batch as it is, and the Arrow fast path is planned exactly for an
  Arrow chain with some sink of that kind. Direct flushing is planned exactly when there is a single
  sink, written by native batches, and more than one record per batch.
\<close>

theorem runtime_plan_matches_fan_out:
  assumes "build_runtime_plan show_int source chain (fan_out_view F self) n = Inr p"
    and "\<forall>kc \<in> set (fo_sinks F). declares_arrow kc"
  shows "(we_input_data_plane (rp_writer p) = ARROW_BATCHES \<longrightarrow>
      map (\<lambda>sp. wp_selected_data_plane sp = ARROW_BATCHES) (we_sink_plans (rp_writer p)) =
      map sink_arrow_writable (fo_sinks F)) \<and>
    (we_arrow_fast_path (rp_writer p) \<longleftrightarrow>
      we_arrow_chain (rp_writer p) \<and> (\<exists>kc \<in> set (fo_sinks F). sink_arrow_writable kc)) \<and>
    (we_direct_flush_eligible (rp_writer p) \<longleftrightarrow>
      n > 1 \<and> (\<exists>kc. fo_sinks F = [kc] \<and> sink_batch_writable kc))"
  using assms
  by (auto simp: build_runtime_plan_eq assemble_plan_def assemble_writer_plan_def Let_def fan_out_view_def
      writer_sink_plans_def writer_target_data_plane_specs_def writer_has_arrow_batch_path_def selected_arrow_iff
      declares_arrow_def list_ex_iff direct_flush_eligible_def map_eq_Cons_conv)

text \<open>
  A sink that has the method but declares only rows is planned as downgraded, while the fan-out, which
  looks at the method, hands it the Arrow batch.
\<close>

definition rows_only_arrow_sink :: "demo_state Sink \<times> SinkCapabilities" where
  "rows_only_arrow_sink =
     ((demo_sink 1 False)\<lparr>sk_target := demo_target\<lparr>st_has_write_arrow_batch := True,
        st_accepted_data_planes := [PYTHON_ROWS], st_native_data_planes := [PYTHON_ROWS]\<rparr>\<rparr>, demo_caps)"

lemma plan_disagrees_with_fan_out:
  "selected_plane_for \<lparr>sps_sink_name = ''Demo'', sps_accepted_planes = sc_accepted_data_planes (snd rows_only_arrow_sink),
     sps_native_planes = sc_native_data_planes (snd rows_only_arrow_sink)\<rparr> ARROW_BATCHES = PYTHON_ROWS \<and>
   sink_arrow_writable rows_only_arrow_sink \<and>
   sink_capabilities (sk_target (fst rows_only_arrow_sink)) =
     Inr (demo_caps\<lparr>sc_arrow_passthrough_native := True\<rparr>)"
  by (simp add: rows_only_arrow_sink_def selected_plane_for_def demo_caps_def sink_arrow_writable_def
      sink_capabilities_def unadvertised_flags_def demo_target_def normalized_sink_capabilities_def
      default_sink_data_planes_def)

definition demo_source :: SourceView where
  "demo_source = \<lparr>so_type_name = ''Parquet'', so_source_name = None,
     so_data_plane_spec = Some (Inr (Some \<lparr>sds_source_name = ''p'', sds_emitted_plane = ARROW_BATCHES,
       sds_supports_batch_emit = True, sds_emits_arrow_batches = True\<rparr>)),
     so_supports_batch_emit = False, so_emits_arrow_batches = False, so_has_stream_batches = True,
     so_has_current_checkpoint = True, vw_name = ''p'', vw_supports_prefetch = False, vw_has_stream = True,
     vw_prefetch_limit = 0, vw_delivery_hooks = False, vw_supports_rust_prefetch = False,
     vw_has_stream_sync_batches = False\<rparr>"

definition arrow_sink :: "demo_state Sink \<times> SinkCapabilities" where
  "arrow_sink = ((demo_sink 1 False)\<lparr>sk_target := demo_target\<lparr>st_has_write_arrow_batch := True\<rparr>\<rparr>,
     demo_caps\<lparr>sc_arrow_passthrough_native := True, sc_native_data_planes := [PYTHON_ROWS, ARROW_BATCHES]\<rparr>)"

definition arrow_fan_out :: "demo_state SinkFanOut" where
  "arrow_fan_out = \<lparr>fo_sinks = [arrow_sink], fo_concurrent_writes = False, fo_max_concurrency = None,
     fo_schedule = (\<lambda>n. [0..<n])\<rparr>"

lemma demo_plan_built:
  "\<exists>p. build_runtime_plan show_int demo_source [] (fan_out_view arrow_fan_out demo_target) 10 = Inr p \<and>
     we_arrow_fast_path (rp_writer p)"
  by (simp add: build_runtime_plan_def demo_source_def SourceTarget.truncate_def is_batch_capable_source_def
      source_data_plane_spec_def validated_source_data_plane_spec_def validate_middleware_chain_compatibility_def
      has_arrow_iff arrow_chain_selected_def writer_has_arrow_batch_path_def fan_out_view_def arrow_fan_out_def
      arrow_sink_def writer_sink_plans_def writer_target_data_plane_specs_def assemble_plan_def
      assemble_writer_plan_def Let_def)

theorem runtime_plan_coherent_witness:
  "\<exists>p. build_runtime_plan (\<lambda>_. ''n'') demo_source [] (fan_out_view arrow_fan_out demo_target) 10 = Inr p \<and>
     we_arrow_fast_path (rp_writer p) \<and> coherent_plan [] (fan_out_view arrow_fan_out demo_target) p"
  using demo_plan_built [of "\<lambda>_. ''n''"] runtime_plan_coherent by blast

theorem runtime_plan_matches_fan_out_witness:
  "\<exists>p. build_runtime_plan (\<lambda>_. ''n'') demo_source [] (fan_out_view arrow_fan_out demo_target) 10 = Inr p \<and>
     we_arrow_chain (rp_writer p) \<and> \<not> we_direct_flush_eligible (rp_writer p)"
proof -
  obtain p where p: "build_runtime_plan (\<lambda>_. ''n'') demo_source [] (fan_out_view arrow_fan_out demo_target) 10 = Inr p"
    "we_arrow_fast_path (rp_writer p)" using demo_plan_built by blast
  have "\<forall>kc \<in> set (fo_sinks arrow_fan_out). declares_arrow kc"
    by (simp add: arrow_fan_out_def arrow_sink_def declares_arrow_def sink_arrow_writable_def)
  from runtime_plan_matches_fan_out [OF p(1) this] p show ?thesis
    by (auto simp: arrow_fan_out_def arrow_sink_def sink_batch_writable_def demo_caps_def)
qed

end
