(* ===== verification/Delivery_Policy.thy ===== *)
theory Delivery_Policy
  imports Runtime_Plan
begin

text \<open>
  \<^verbatim>\<open>core/delivery.py\<close>: the delivery report of a resolved pipeline and the policy that may refuse it
  before the run.

  A sink is seen through its identity, its name and what \<open>delivery_capability()\<close> gives, when it has the
  method; a writer through the attributes \<open>_sinks\<close>, \<open>_routes\<close> and \<open>_default\<close>.
\<close>

section \<open>Declarations\<close>

datatype IdempotencyMode = IM_UNKNOWN | IM_NONE | IM_APPLICATION_MANAGED | IM_SINK_NATIVE | IM_TRANSACTIONAL

fun idempotency_value :: "IdempotencyMode \<Rightarrow> string" where
  "idempotency_value IM_UNKNOWN = ''unknown''"
| "idempotency_value IM_NONE = ''none''"
| "idempotency_value IM_APPLICATION_MANAGED = ''application_managed''"
| "idempotency_value IM_SINK_NATIVE = ''sink_native''"
| "idempotency_value IM_TRANSACTIONAL = ''transactional''"

record DeliveryPolicy =
  dp_require_replay_safe :: bool
  dp_require_idempotent_sinks :: bool

definition policy_enforced :: "DeliveryPolicy \<Rightarrow> bool" where
  "policy_enforced p = (dp_require_replay_safe p \<or> dp_require_idempotent_sinks p)"

definition delivery_policy_to_dict :: "DeliveryPolicy \<Rightarrow> pyval" where
  "delivery_policy_to_dict p = PDict [(''require_replay_safe'', PBool (dp_require_replay_safe p)),
     (''require_idempotent_sinks'', PBool (dp_require_idempotent_sinks p))]"

record DeliveryPolicyMismatch =
  dm_code :: string
  dm_message :: string
  dm_sink_name :: "string option"

definition mismatch_to_dict :: "DeliveryPolicyMismatch \<Rightarrow> pyval" where
  "mismatch_to_dict m = PDict [(''code'', PStr (dm_code m)), (''message'', PStr (dm_message m)),
     (''sink_name'', opt_str (dm_sink_name m))]"

record SinkDeliveryCapability =
  sd_sink_name :: string
  sd_idempotency :: IdempotencyMode
  sd_replay_safe :: bool
  sd_transactionally_coupled_checkpoint :: bool
  sd_notes :: "string list"

definition sink_capability_to_dict :: "SinkDeliveryCapability \<Rightarrow> pyval" where
  "sink_capability_to_dict c = PDict [(''sink_name'', PStr (sd_sink_name c)),
     (''idempotency'', PStr (idempotency_value (sd_idempotency c))),
     (''replay_safe'', PBool (sd_replay_safe c)),
     (''transactionally_coupled_checkpoint'', PBool (sd_transactionally_coupled_checkpoint c)),
     (''notes'', PList (map PStr (sd_notes c)))]"

record DeliveryCapability =
  dc_source_checkpointing_enabled :: bool
  dc_source_identity_supported :: bool
  dc_checkpoint_failure_policy :: string
  dc_source_order_preserved :: bool
  dc_checkpoint_advances_after_handled_outcome :: bool
  dc_duplicate_delivery_possible :: bool
  dc_transactional_checkpoint_coupling :: bool
  dc_sinks :: "SinkDeliveryCapability list"
  dc_replay_safe :: bool
  dc_risk_flags :: "string list"
  dc_policy :: DeliveryPolicy
  dc_policy_mismatches :: "DeliveryPolicyMismatch list"

text \<open>The guarantee has the single value \<open>at_least_once\<close>.\<close>

definition delivery_capability_to_dict :: "DeliveryCapability \<Rightarrow> pyval" where
  "delivery_capability_to_dict c = PDict
     [(''guarantee'', PStr ''at_least_once''),
      (''source_checkpointing_enabled'', PBool (dc_source_checkpointing_enabled c)),
      (''source_identity_supported'', PBool (dc_source_identity_supported c)),
      (''checkpoint_failure_policy'', PStr (dc_checkpoint_failure_policy c)),
      (''source_order_preserved'', PBool (dc_source_order_preserved c)),
      (''checkpoint_advances_after_handled_outcome'', PBool (dc_checkpoint_advances_after_handled_outcome c)),
      (''duplicate_delivery_possible'', PBool (dc_duplicate_delivery_possible c)),
      (''transactional_checkpoint_coupling'', PBool (dc_transactional_checkpoint_coupling c)),
      (''sinks'', PList (map sink_capability_to_dict (dc_sinks c))),
      (''replay_safe'', PBool (dc_replay_safe c)),
      (''risk_flags'', PList (map PStr (dc_risk_flags c))),
      (''policy'', delivery_policy_to_dict (dc_policy c)),
      (''policy_mismatches'', PList (map mismatch_to_dict (dc_policy_mismatches c)))]"

section \<open>Collecting the sinks\<close>

record PolicySink =
  ps_id :: nat
  ps_name :: string
  ps_delivery_capability :: "(exn + SinkDeliveryCapability option) option"

definition sink_delivery_capability :: "PolicySink \<Rightarrow> exn + SinkDeliveryCapability" where
  "sink_delivery_capability k = (case ps_delivery_capability k of
       None \<Rightarrow> Inr \<lparr>sd_sink_name = ps_name k, sd_idempotency = IM_UNKNOWN, sd_replay_safe = False,
                    sd_transactionally_coupled_checkpoint = False, sd_notes = []\<rparr>
     | Some (Inl e) \<Rightarrow> Inl e
     | Some (Inr None) \<Rightarrow> Inl (mk_exn TypeErrorC ''delivery_capability() must return SinkDeliveryCapability'')
     | Some (Inr (Some c)) \<Rightarrow> Inr (if sd_sink_name c \<noteq> ps_name k then c\<lparr>sd_sink_name := ps_name k\<rparr> else c))"

record PolicyWriter =
  pw_sinks :: "PolicySink list option"
  pw_routes :: "PolicySink list option"
  pw_default :: "PolicySink option"

fun unique_policy_sinks :: "nat list \<Rightarrow> PolicySink list \<Rightarrow> PolicySink list" where
  "unique_policy_sinks seen [] = []"
| "unique_policy_sinks seen (k # ks) =
     (if ps_id k \<in> set seen then unique_policy_sinks seen ks
      else k # unique_policy_sinks (ps_id k # seen) ks)"

definition writer_sinks :: "PolicyWriter \<Rightarrow> PolicySink list" where
  "writer_sinks w = (case pw_sinks w of
       Some ks \<Rightarrow> ks
     | None \<Rightarrow> (case pw_routes w of
         None \<Rightarrow> []
       | Some ks \<Rightarrow> unique_policy_sinks [] (ks @ (case pw_default w of None \<Rightarrow> [] | Some k \<Rightarrow> [k]))))"

section \<open>The policy\<close>

definition replay_mismatches :: "DeliveryCapability \<Rightarrow> DeliveryPolicyMismatch list" where
  "replay_mismatches c =
     (if \<not> dc_source_checkpointing_enabled c
      then [\<lparr>dm_code = ''checkpoint_not_enabled'',
             dm_message = ''require_replay_safe needs checkpointing on a checkpoint-capable source.'',
             dm_sink_name = None\<rparr>] else []) @
     (if \<not> dc_source_identity_supported c
      then [\<lparr>dm_code = ''source_identity_not_advertised'',
             dm_message = ''require_replay_safe needs a source identity to validate resume input.'',
             dm_sink_name = None\<rparr>] else []) @
     (if dc_sinks c = []
      then [\<lparr>dm_code = ''sink_capability_not_available'',
             dm_message = ''require_replay_safe needs at least one resolved sink capability.'',
             dm_sink_name = None\<rparr>] else []) @
     map (\<lambda>k. \<lparr>dm_code = ''sink_not_replay_safe'',
               dm_message = ''Sink '' @ [CHR 0x27] @ sd_sink_name k @ [CHR 0x27] @
                 '' does not declare replay-safe delivery (idempotency='' @
                 idempotency_value (sd_idempotency k) @ '').'',
               dm_sink_name = Some (sd_sink_name k)\<rparr>)
       (filter (\<lambda>k. \<not> sd_replay_safe k) (dc_sinks c))"

definition weak_idempotency :: "SinkDeliveryCapability \<Rightarrow> bool" where
  "weak_idempotency k = (sd_idempotency k = IM_UNKNOWN \<or> sd_idempotency k = IM_NONE)"

definition idempotency_mismatches :: "DeliveryCapability \<Rightarrow> DeliveryPolicyMismatch list" where
  "idempotency_mismatches c =
     map (\<lambda>k. \<lparr>dm_code = (if sd_idempotency k = IM_UNKNOWN then ''sink_idempotency_unknown'' else ''sink_not_idempotent''),
               dm_message = ''Sink '' @ [CHR 0x27] @ sd_sink_name k @ [CHR 0x27] @ '' declares idempotency='' @
                 idempotency_value (sd_idempotency k) @ ''.'',
               dm_sink_name = Some (sd_sink_name k)\<rparr>)
       (filter weak_idempotency (dc_sinks c))"

definition delivery_policy_mismatches :: "DeliveryCapability \<Rightarrow> DeliveryPolicyMismatch list" where
  "delivery_policy_mismatches c =
     (if \<not> policy_enforced (dc_policy c) then []
      else (if dp_require_replay_safe (dc_policy c) then replay_mismatches c else []) @
           (if dp_require_idempotent_sinks (dc_policy c) then idempotency_mismatches c else []))"

text \<open>The error's message; the mismatches themselves are its attribute.\<close>

definition mismatch_error :: "DeliveryPolicyMismatch list \<Rightarrow> exn" where
  "mismatch_error ms = mk_exn (UserC ''DeliveryPolicyMismatchError'' PipelineErrorC)
     (''Delivery policy mismatch: '' @ join ''; '' (map (\<lambda>m. dm_code m @ '': '' @ dm_message m) ms))"

definition enforce_delivery_policy :: "DeliveryCapability \<Rightarrow> exn + unit" where
  "enforce_delivery_policy c =
     (if dc_policy_mismatches c \<noteq> [] then Inl (mismatch_error (dc_policy_mismatches c)) else Inr ())"

record PolicyConfig =
  pc_delivery_policy :: "DeliveryPolicy option"
  pc_checkpoint :: bool
  pc_checkpoint_failure_policy :: CheckpointFailurePolicy

fun checkpoint_failure_value :: "CheckpointFailurePolicy \<Rightarrow> string" where
  "checkpoint_failure_value CP_FAIL_CLOSED = ''fail_closed''"
| "checkpoint_failure_value CP_LOG_AND_CONTINUE = ''log_and_continue''"

definition risk_flags :: "bool \<Rightarrow> bool \<Rightarrow> CheckpointFailurePolicy \<Rightarrow> SinkDeliveryCapability list \<Rightarrow> string list" where
  "risk_flags checkpointing identity failure_policy sinks =
     (if \<not> checkpointing then [''checkpoint_not_enabled'']
      else if \<not> identity then [''source_identity_not_advertised''] else []) @
     (if failure_policy = CP_LOG_AND_CONTINUE then [''checkpoint_failure_log_and_continue''] else []) @
     (if sinks = [] then [''sink_capability_not_available''] else []) @
     concat (map (\<lambda>k. case sd_idempotency k of
         IM_UNKNOWN \<Rightarrow> [''sink:'' @ sd_sink_name k @ '':idempotency_unknown'']
       | IM_NONE \<Rightarrow> [''sink:'' @ sd_sink_name k @ '':not_idempotent'']
       | _ \<Rightarrow> []) sinks)"

text \<open>
  \<open>checkpoint_capable\<close> and \<open>identity\<close> say whether the source supports checkpoints and advertises an
  identity.
\<close>

definition build_delivery_capability ::
    "bool \<Rightarrow> bool \<Rightarrow> PolicyWriter \<Rightarrow> PolicyConfig \<Rightarrow> exn + DeliveryCapability" where
  "build_delivery_capability checkpoint_capable identity writer cfg =
     (let policy = (case pc_delivery_policy cfg of
            None \<Rightarrow> \<lparr>dp_require_replay_safe = False, dp_require_idempotent_sinks = False\<rparr> | Some p \<Rightarrow> p);
          checkpointing = (pc_checkpoint cfg \<and> checkpoint_capable) in
      res_bind (res_map sink_delivery_capability (writer_sinks writer)) (\<lambda>sinks.
      let c = \<lparr>dc_source_checkpointing_enabled = checkpointing,
               dc_source_identity_supported = identity,
               dc_checkpoint_failure_policy = checkpoint_failure_value (pc_checkpoint_failure_policy cfg),
               dc_source_order_preserved = True,
               dc_checkpoint_advances_after_handled_outcome = True,
               dc_duplicate_delivery_possible = True,
               dc_transactional_checkpoint_coupling = False,
               dc_sinks = sinks,
               dc_replay_safe = (checkpointing \<and> identity \<and> sinks \<noteq> [] \<and> list_all sd_replay_safe sinks),
               dc_risk_flags = risk_flags checkpointing identity (pc_checkpoint_failure_policy cfg) sinks,
               dc_policy = policy,
               dc_policy_mismatches = []\<rparr>
      in Inr (c\<lparr>dc_policy_mismatches := delivery_policy_mismatches c\<rparr>)))"

section \<open>What the policy refuses\<close>

lemma replay_mismatches_Nil:
  "replay_mismatches c = [] \<longleftrightarrow>
   dc_source_checkpointing_enabled c \<and> dc_source_identity_supported c \<and> dc_sinks c \<noteq> [] \<and>
   list_all sd_replay_safe (dc_sinks c)"
  by (auto simp: replay_mismatches_def list_all_iff filter_empty_conv)

lemma idempotency_mismatches_Nil:
  "idempotency_mismatches c = [] \<longleftrightarrow> (\<forall>k \<in> set (dc_sinks c). \<not> weak_idempotency k)"
  by (auto simp: idempotency_mismatches_def filter_empty_conv)

text \<open>
  The policy refuses exactly what the report does not promise. For a report that was built, the run
  is refused before it starts exactly when replay safety is required and the report says the pipeline
  is not replay-safe, or idempotent sinks are required and some sink declares none or nothing; and a
  report that says replay-safe has checkpointing on, a source identity, and at least one sink, each of
  which declared itself replay-safe.
\<close>

theorem delivery_policy_refuses_exactly:
  assumes "build_delivery_capability checkpoint_capable identity writer cfg = Inr c"
  shows "(isl (enforce_delivery_policy c) \<longleftrightarrow>
      dp_require_replay_safe (dc_policy c) \<and> \<not> dc_replay_safe c \<or>
      dp_require_idempotent_sinks (dc_policy c) \<and> (\<exists>k \<in> set (dc_sinks c). weak_idempotency k)) \<and>
    (dc_replay_safe c \<longrightarrow>
      pc_checkpoint cfg \<and> checkpoint_capable \<and> identity \<and> writer_sinks writer \<noteq> [] \<and>
      (\<forall>k \<in> set (writer_sinks writer). \<exists>d. sink_delivery_capability k = Inr d \<and> sd_replay_safe d))"
proof -
  define policy where "policy = (case pc_delivery_policy cfg of
    None \<Rightarrow> \<lparr>dp_require_replay_safe = False, dp_require_idempotent_sinks = False\<rparr> | Some p \<Rightarrow> p)"
  obtain sinks where sinks: "list_all2 (\<lambda>k d. sink_delivery_capability k = Inr d) (writer_sinks writer) sinks"
    and c: "dc_sinks c = sinks" "dc_policy c = policy"
      "dc_replay_safe c = ((pc_checkpoint cfg \<and> checkpoint_capable) \<and> identity \<and> sinks \<noteq> [] \<and> list_all sd_replay_safe sinks)"
      "dc_source_checkpointing_enabled c = (pc_checkpoint cfg \<and> checkpoint_capable)" "dc_source_identity_supported c = identity"
      "dc_policy_mismatches c = delivery_policy_mismatches (c\<lparr>dc_policy_mismatches := []\<rparr>)"
    using assms by (auto simp: build_delivery_capability_def Let_def res_bind_eq_Inr res_map_eq_Inr policy_def)
  have "delivery_policy_mismatches (c\<lparr>dc_policy_mismatches := []\<rparr>) = [] \<longleftrightarrow>
      (dp_require_replay_safe policy \<longrightarrow> dc_replay_safe c) \<and>
      (dp_require_idempotent_sinks policy \<longrightarrow> (\<forall>k \<in> set sinks. \<not> weak_idempotency k))"
    using c by (auto simp: delivery_policy_mismatches_def policy_enforced_def replay_mismatches_Nil
        idempotency_mismatches_Nil)
  moreover have "\<exists>d. sink_delivery_capability k = Inr d \<and> sd_replay_safe d"
    if "k \<in> set (writer_sinks writer)" "list_all sd_replay_safe sinks" for k
    using sinks that by (fastforce simp: list_all2_conv_all_nth in_set_conv_nth list_all_length)
  ultimately show ?thesis
    using c sinks by (auto simp: enforce_delivery_policy_def)
qed

definition demo_policy_writer :: PolicyWriter where
  "demo_policy_writer = \<lparr>pw_sinks = Some [\<lparr>ps_id = 1, ps_name = ''pg'',
      ps_delivery_capability = Some (Inr (Some \<lparr>sd_sink_name = ''x'', sd_idempotency = IM_SINK_NATIVE,
        sd_replay_safe = True, sd_transactionally_coupled_checkpoint = False, sd_notes = []\<rparr>))\<rparr>,
      \<lparr>ps_id = 2, ps_name = ''csv'', ps_delivery_capability = None\<rparr>], pw_routes = None, pw_default = None\<rparr>"

definition strict_config :: PolicyConfig where
  "strict_config = \<lparr>pc_delivery_policy = Some \<lparr>dp_require_replay_safe = True, dp_require_idempotent_sinks = False\<rparr>,
     pc_checkpoint = True, pc_checkpoint_failure_policy = CP_FAIL_CLOSED\<rparr>"

theorem delivery_policy_refuses_exactly_witness:
  "\<exists>c. build_delivery_capability True True demo_policy_writer strict_config = Inr c \<and> isl (enforce_delivery_policy c)"
proof -
  have "\<exists>c. build_delivery_capability True True demo_policy_writer strict_config = Inr c \<and>
      dp_require_replay_safe (dc_policy c) \<and> \<not> dc_replay_safe c"
    by (simp add: build_delivery_capability_def Let_def strict_config_def demo_policy_writer_def writer_sinks_def
        sink_delivery_capability_def)
  then obtain c where c: "build_delivery_capability True True demo_policy_writer strict_config = Inr c"
    "dp_require_replay_safe (dc_policy c)" "\<not> dc_replay_safe c" by blast
  from delivery_policy_refuses_exactly [OF c(1)] c show ?thesis by blast
qed

text \<open>Requiring idempotent sinks alone is satisfied by a writer that shows no sinks.\<close>

lemma idempotency_vacuous:
  "\<exists>c. build_delivery_capability False False \<lparr>pw_sinks = None, pw_routes = None, pw_default = None\<rparr>
       \<lparr>pc_delivery_policy = Some \<lparr>dp_require_replay_safe = False, dp_require_idempotent_sinks = True\<rparr>,
        pc_checkpoint = False, pc_checkpoint_failure_policy = CP_FAIL_CLOSED\<rparr> = Inr c \<and>
     enforce_delivery_policy c = Inr ()"
  by (simp add: build_delivery_capability_def writer_sinks_def delivery_policy_mismatches_def
      idempotency_mismatches_def enforce_delivery_policy_def policy_enforced_def)

end
