(* ===== verification/Spec2Isabelle.thy ===== *)
theory Spec2Isabelle
  imports Restart_Safety Run_Lifecycle Schema_Runtime Dedup Caches Http_Source Registry Webhook_Sink File_Sinks Worker_Pool AI_Stages Function_Stages Process_Pool Retry State_Backend Checkpoint Dlq Delivery Linear_Lane Direct_Flush Pipelined_Lane Circuit_Breaker
    Pending_Owner Buffered_Safety Payload_Policy Writer_Laws Router_Laws Runtime_Plan Delivery_Policy
begin

text \<open>
  Agora is an ETL framework: a pipeline reads records from a source, sends each through a chain of stages
  (middlewares) and writes what comes out to one or several sinks. A record that fails goes to a dead-letter
  queue or stops the run, according to policy; checkpoints of the source's position let a later run resume. The
  code is Python, below \<^verbatim>\<open>src/src/agora\<close>; file names in this development are relative to that directory. This
  theory imports all others and holds only this description.

  HOW A RUN FITS TOGETHER. \<open>RuntimeSpec\<close> (what the user built) is resolved into a \<open>RuntimePlan\<close>; the session
  opens source, stages, writer, dead-letter queue and stores, and hands over to a lane. A lane pulls records through the
  source adapter, runs the chain and gives the result to the delivery engine, which writes, dead-letters or drops
  it, then may store the checkpoint, and then runs the record's success hooks. The session closes everything
  again. The order settle, checkpoint, hooks is what makes a crash harmless, and most of the development is
  about it.

  THE EMBEDDING (\<open>Prelude\<close>, \<open>PyValue\<close>, \<open>Failures\<close>). A coroutine is a function from a state to a result and the state
  it leaves; \<open>Inl\<close> is the exception that escapes. Code that several coroutines share is cut where one of them can
  wait, and is a step relation or a schedule given as a parameter. Application code (stages, sinks, sources,
  mappers, observers), the clock, random numbers, digests, JSON and SQLite's storage are parameters or are modelled
  by their documented effect. Floats are exact rationals. Logging, tracing and timing metrics are left out
  everywhere. \<open>Failures\<close> holds the exception classes with \<open>isinstance\<close> and \<open>classify_failure\<close>.

  WHICH THEORY MODELS WHAT.

  State and stores. \<open>State_Backend\<close>: \<^verbatim>\<open>state/backend.py\<close>, \<^verbatim>\<open>membership.py\<close>, \<^verbatim>\<open>cache.py\<close>; the locale \<open>state_backend\<close> is the
  contract of a backend, interpreted by the memory and the SQLite backend; the stores are proved once from it. \<open>Text_Ops\<close>: Python's string methods.
  \<open>Checkpoint\<close>: \<^verbatim>\<open>core/checkpoint.py\<close> and the in-run checkpoint state, with the round trip of a snapshot.
  \<open>Dlq\<close>: \<^verbatim>\<open>core/dlq.py\<close>, the table of dead letters, its reader and acknowledgements. \<open>Payload_Policy\<close>: redaction and
  encryption of payloads, \<^verbatim>\<open>core/dlq_policy.py\<close>. \<open>Caches\<close> and \<open>Http_Cache\<close>: \<^verbatim>\<open>ai/cache.py\<close> against a map with
  expiry, \<^verbatim>\<open>sources/_internal/cache.py\<close> with its transaction.

  Resilience. \<open>Retry\<close>: \<^verbatim>\<open>core/retry.py\<close>, with attempts and waiting bounded. \<open>Circuit_Breaker\<close>:
  \<^verbatim>\<open>sources/_internal/circuit_breaker.py\<close>, one call and any interleaving of calls. \<open>Backpressure\<close>: the controller of
  the buffered lane, \<^verbatim>\<open>core/runtime/_buffered_backpressure.py\<close>.

  Sources. \<open>File_Sources\<close>: the JSONL and CSV sources with the three ways they read, their cursors and resuming.
  \<open>Http_Source\<close>: \<^verbatim>\<open>sources/http/http.py\<close>, which composes rate limit, \<open>Retry\<close>, \<open>Circuit_Breaker\<close> and \<open>Http_Cache\<close>.
  \<open>Source_Adapter\<close>: \<^verbatim>\<open>core/runtime/_source_adapter.py\<close> with prefetching as a step relation of producer and consumer.
  \<open>Data_Plane\<close>: the vocabulary of planes and capabilities.

  Stages. \<open>Middleware\<close>: \<^verbatim>\<open>core/middleware\<close>, the chain for one record and for a batch, and the built-in stages.
  \<open>Dedup\<close>: \<^verbatim>\<open>middlewares/dedup\<close>; the locale \<open>dedup_contract\<close> is what the stage needs of a store, and both stores
  interpret it. \<open>Schema_Types\<close>, \<open>Schema_Evolution\<close>, \<open>Schema_Runtime\<close>: \<^verbatim>\<open>schema\<close>, the lattice of column types, inference,
  merging under a contract, the incremental processor, its stores and the stage. \<open>Function_Stages\<close>: \<^verbatim>\<open>middlewares/enrich.py\<close>
  and \<^verbatim>\<open>validate.py\<close>. \<open>Process_Pool\<close>: \<^verbatim>\<open>middlewares/process.py\<close>, batches in worker processes with the pools that are
  recycled under them.

  Delivery. \<open>Run_State\<close>: the state of a run, its trace of events, hooks, metrics, fencing and the sinks' interface.
  \<open>Delivery_Support\<close> and \<open>Delivery\<close>: \<open>DLQWriter\<close>, \<open>CheckpointManager\<close> and \<^verbatim>\<open>core/runtime/_delivery.py\<close> with its parts.
  \<open>Delivery_Batches\<close> and \<open>Direct_Flush\<close>: what a flush of pending writes does, on the regular and the direct path.
  \<open>Pending_Owner\<close>: the background task that flushes pending writes, interleaved with the lane. \<open>Hot_Metrics\<close>:
  counters kept by a lane. \<open>Sink_Writers\<close>, \<open>Writer_Laws\<close>, \<open>Router_Laws\<close>: \<open>SinkFanOut\<close> and \<open>SinkRouter\<close> of
  \<^verbatim>\<open>core/sink/_writers.py\<close>. \<open>File_Sinks\<close>: the JSONL and CSV sinks, composed with the sources that read
  their files. \<open>Webhook_Sink\<close>: \<^verbatim>\<open>sinks/http/webhook.py\<close>, posting in groups with retries.

  Lanes. \<open>Ledger\<close> states, for all lanes, that no stored checkpoint is ahead of the settled records. \<open>Linear_Lane\<close>,
  \<open>Batch_Lane\<close>, \<open>Pipelined_Lane\<close>, \<open>Buffered_Lane\<close> with \<open>Buffered_Safety\<close>: the files of
  \<^verbatim>\<open>core/runtime/_lanes\<close>.

  Planning and life cycle. \<open>Runtime_Plan\<close>: \<^verbatim>\<open>core/runtime/_plan.py\<close> and its parts. \<open>Delivery_Policy\<close>: the capability
  report of \<^verbatim>\<open>core/delivery.py\<close>. \<open>Run_Lifecycle\<close>: \<^verbatim>\<open>core/executor.py\<close> and \<^verbatim>\<open>core/session\<close>, opening, failing and closing.
  \<open>Restart_Safety\<close> composes file source, adapter, linear lane, delivery and checkpoint store over any number of runs. 
  \<open>Runner\<close>: the scheduler of \<^verbatim>\<open>runner\<close>, its waits, its limits and the lease it holds while a pipeline runs.
  \<open>Worker_Pool\<close>: \<^verbatim>\<open>runner/worker.py\<close>, registration and the loop over the tasks of a pool with the ways it ends.

  Calls of a language model. \<open>AI_Calls\<close>: \<^verbatim>\<open>ai/governance.py\<close> and \<^verbatim>\<open>middlewares/ai/base.py\<close>, one prompt through cache and
  budget; the locale \<open>response_cache\<close> is what it needs of a cache, and both caches interpret it; \<open>ageing_cache\<close> is a cache
  that evicts, which the in-memory one interprets. \<open>AI_Batch\<close>:
  \<^verbatim>\<open>middlewares/ai/batch.py\<close>, records that wait for one call of the model to answer for all of them.
  \<open>AI_Stages\<close>: the stages of \<^verbatim>\<open>middlewares/ai\<close> that ask once per record.

  \<open>Registry\<close>: \<^verbatim>\<open>core/registry.py\<close>, versions, registration and the discovery of plugins through entry points.

  WHAT THE LEMMAS SHOW. The main result, C1, is that after any number of crashed and resumed runs every record of
  the file is settled or still ahead of the cursor, for stages that do not write on their own and, when writes are
  batched, a chain that drops no record. It rests on C2 (the linear lane's checkpoints never run ahead), C8
  (resuming is exact) and C9 (prefetching changes neither the records nor their order). C4 and C5 carry the same promise to the background owner
  and to the buffered lane; the finding lemmas of those theories show the conditions that make it fail.
  Each component adds its own kind of result: invariants by rule induction over its steps, equivalence of its
  optimised paths with the plain ones, refinement of an abstract map or queue, round trips through its stores, bounds
  on what it buffers or retries, and its outcome when something raises. Where the code is not what a comment promises,
  a lemma shows the run that exhibits it.

  BOUNDS AND TERMINATION. Loops over finite data are structural recursions. The chunk loop of the file sources, the
  retry loop, the buffered lane's window, the flush of a batch of prompts and SQLite's \<open>LIKE\<close> are functions with a termination proof. No definition has fuel. The commit loop of \<open>Pipelined_Lane\<close>
  can go on for ever and is a partial function: a lemma says when it ends, another when it does not. Loops that wait for
  another coroutine are step relations, and that they end is a theorem about every schedule (C10) or a
  liveness property of the relation (C13).

  NOT MODELLED. The Rust extension \<open>agora_core\<close> is not in the repository's Python sources, so lanes and sinks are taken on
  their Python path. Pipelined stages on Arrow batches and buffered lanes with several buffered stages are left out. The clients of external systems (databases, message queues, cloud storage, model
  providers, Parquet), the command line, configuration files, rendering of reports,
  exporters of metrics and the starting of processes are input and output around the modelled core.
\<close>

end
